(* ===== verification/Sched_Prelude.thy ===== *)
theory Sched_Prelude
  imports
    Main
    "HOL-Library.Word"
    "HOL-Library.Finite_Map"
    "HOL-Library.Multiset"
    "HOL-Library.Monad_Syntax"
begin

text \<open>
  The prelude of the development: the machine integers of the Go code, the convention for
  panics, list facts about in-place swaps, and the named collections of rewrite rules the
  component theories fill.

  Conventions shared by all components.
  \<^item> Go's \<open>int64\<close> and \<open>int\<close> (64 bits on the supported platforms) are \<open>64 word\<close>, \<open>int32\<close> is
    \<open>32 word\<close>; \<open>+\<close> and \<open>-\<close> wrap around as in Go and comparisons are signed (\<open><s\<close>, \<open>\<le>s\<close>).
    Indices and lengths of slices, which Go keeps non-negative, are \<open>nat\<close>.
  \<^item> A function that may panic (index out of range, nil dereference) returns an \<open>option\<close>,
    with \<open>None\<close> for the panic.
  \<^item> A function that returns a Go \<open>error\<close> returns the new state together with an
    \<open>error option\<close>: state changes made before an error return are kept, as in Go.
  \<^item> A Go map that the code mutates is a finite map \<open>fmap\<close>. Where the order of a
    \<open>range\<close> loop over a map can be observed, the order is an explicit argument.
\<close>

type_synonym int64 = "64 word"
type_synonym int32 = "32 word"

text \<open>Division of signed integers truncates towards zero.\<close>

definition go_div :: "'a::len word \<Rightarrow> 'a word \<Rightarrow> 'a word" where
  "go_div a b = word_of_int (sgn (sint a) * sgn (sint b) * (\<bar>sint a\<bar> div \<bar>sint b\<bar>))"

text \<open>Collections: \<open>go_defs\<close> holds the unfolding rules of straight-line operations.\<close>

named_theorems go_defs

lemmas option_bind_fundef_cong [fundef_cong] = Option.bind_cong

subsection \<open>Loops over a slice that may panic\<close>

fun foldM :: "('a \<Rightarrow> 's \<Rightarrow> 's option) \<Rightarrow> 'a list \<Rightarrow> 's \<Rightarrow> 's option" where
  "foldM f [] s = Some s"
| "foldM f (x # xs) s = Option.bind (f x s) (foldM f xs)"

text \<open>An invariant of the loop that may mention the elements still to be visited.\<close>

lemma foldM_inv:
  assumes "I xs s" "\<And>x xs s. I (x # xs) s \<Longrightarrow> \<exists>s'. f x s = Some s' \<and> I xs s'"
  shows "\<exists>s'. foldM f xs s = Some s' \<and> I [] s'"
  using assms(1)
proof (induction xs arbitrary: s)
  case (Cons x xs)
  from assms(2)[OF Cons.prems] obtain s' where "f x s = Some s'" "I xs s'" by blast
  with Cons.IH[of s'] show ?case by simp
qed simp

subsection \<open>Finite maps\<close>

lemma fmlookup_in_dom: "fmlookup m k = Some v \<Longrightarrow> k |\<in>| fmdom m"
  by (rule fmdomI)

lemma in_fmdomE:
  assumes "k |\<in>| fmdom m"
  obtains v where "fmlookup m k = Some v"
  using assms by (auto simp: fmlookup_dom_iff)

text \<open>Membership in the domain is normalised to the lookup.\<close>

lemma in_fmdom_lookup [simp]: "k |\<in>| fmdom m \<longleftrightarrow> fmlookup m k \<noteq> None"
  by (auto simp: fmlookup_dom_iff)

lemma notin_fmdom_lookup: "k |\<notin>| fmdom m \<longleftrightarrow> fmlookup m k = None"
  by simp

lemma fmupd_triv: "fmlookup m k = Some v \<Longrightarrow> fmupd k v m = m"
  by (rule fmap_ext) auto

lemma fmmap_fmupd_same:
  assumes "fmlookup m k = Some v" "f v' = f v"
  shows "fmmap f (fmupd k v' m) = fmmap f m"
proof (rule fmap_ext)
  fix l show "fmlookup (fmmap f (fmupd k v' m)) l = fmlookup (fmmap f m) l"
    using assms by (cases "l = k") simp_all
qed

lemma fmdrop_absent: "fmlookup m k = None \<Longrightarrow> fmdrop k m = m"
  by (rule fmap_ext) auto

lemma fmdrop_fmupd_absent: "fmlookup m k = None \<Longrightarrow> fmdrop k (fmupd k v m) = m"
  by (rule fmap_ext) auto

lemma fcard_fmdrop_less:
  assumes "fmlookup m k = Some v"
  shows "fcard (fmdom (fmdrop k m)) < fcard (fmdom m)"
proof -
  have "card (fset (fmdom m) - {k}) < card (fset (fmdom m))"
    using assms by (intro card_Diff1_less) auto
  then show ?thesis by (simp add: fcard.rep_eq)
qed

subsection \<open>Swapping two positions of a list\<close>

definition swap_list :: "nat \<Rightarrow> nat \<Rightarrow> 'a list \<Rightarrow> 'a list" where
  "swap_list i j xs = xs[i := xs ! j, j := xs ! i]"

lemma length_swap_list [simp]: "length (swap_list i j xs) = length xs"
  by (simp add: swap_list_def)

lemma swap_list_same [simp]: "swap_list i i xs = xs"
  by (simp add: swap_list_def)

lemma nth_swap_list:
  "i < length xs \<Longrightarrow> j < length xs \<Longrightarrow> k < length xs \<Longrightarrow>
   swap_list i j xs ! k = (if k = i then xs ! j else if k = j then xs ! i else xs ! k)"
  by (simp add: swap_list_def nth_list_update)

lemma mset_swap_list [simp]:
  "i < length xs \<Longrightarrow> j < length xs \<Longrightarrow> mset (swap_list i j xs) = mset xs"
  unfolding swap_list_def by (rule mset_swap)

lemma set_swap_list [simp]:
  "i < length xs \<Longrightarrow> j < length xs \<Longrightarrow> set (swap_list i j xs) = set xs"
  by (metis mset_swap_list set_mset_mset)

lemma distinct_swap_list [simp]:
  "i < length xs \<Longrightarrow> j < length xs \<Longrightarrow> distinct (swap_list i j xs) = distinct xs"
  by (simp add: swap_list_def)

subsection \<open>Searching lists\<close>

lemma find_hit: "x \<in> set xs \<Longrightarrow> P x \<Longrightarrow> \<exists>y. List.find P xs = Some y \<and> P y"
  by (induction xs) auto

lemma set_map_filter: "set (List.map_filter f xs) = {y. \<exists>x \<in> set xs. f x = Some y}"
  by (auto simp: List.map_filter_def) force

lemma those_SomeD: "those xs = Some ys \<Longrightarrow> xs = map Some ys"
  by (induction xs arbitrary: ys) (auto split: option.splits)

end
