(* ===== verification/Api_Types.thy ===== *)
theory Api_Types
  imports Sched_Prelude
begin

text \<open>
  The API objects the scheduler works on, with the fields the modelled code reads. \<open>Pool\<close>,
  \<open>PoolSpec\<close> and the pool annotation key are the types of
  \<open>pkg/apis/resource/v1alpha1\<close>. Pods, nodes and label selectors are Kubernetes types that
  are not part of the repository; they appear as plain data. Objects handed out by the
  informers are never mutated by the scheduler, so a pointer to one is represented by its
  value. The maps inside API objects (labels, annotations, resource lists) are association
  lists: the list order is the order in which a \<open>range\<close> loop visits the entries.

  The record \<open>k8s\<close> collects the functions of Kubernetes libraries that the code calls; it is
  an argument of every definition that uses one of them.
\<close>

subsection \<open>Kubernetes objects\<close>

record Quantity =
  Value :: int64
  MilliValue :: int64

type_synonym ResourceList = "(string \<times> Quantity) list"
type_synonym labels = "(string \<times> string) list"

record ContainerPort =
  HostIP :: string
  Protocol :: string
  HostPort :: int32

record Container =
  Requests :: ResourceList
  Limits :: ResourceList
  container_Image :: string
  Ports :: "ContainerPort list"

record LabelSelectorRequirement =
  req_Key :: string
  req_Operator :: string
  req_Values :: "string list"

record LabelSelector =
  MatchLabels :: labels
  MatchExpressions :: "LabelSelectorRequirement list"

record PodAffinityTerm =
  term_LabelSelector :: "LabelSelector option"
  term_Namespaces :: "string list"
  term_TopologyKey :: string

type_synonym PodAffinityRequired = "PodAffinityTerm list"

record NodeSelectorTerm =
  nst_MatchExpressions :: "LabelSelectorRequirement list"
  nst_MatchFields :: "LabelSelectorRequirement list"

record PreferredSchedulingTerm =
  pst_Weight :: int32
  pst_Preference :: NodeSelectorTerm

text \<open>The required node selector may be nil; it is its list of terms.\<close>

record NodeAffinity =
  RequiredNodeTerms :: "NodeSelectorTerm list option"
  PreferredNodeTerms :: "PreferredSchedulingTerm list"

record Affinity =
  NodeAffinity :: "NodeAffinity option"
  PodAffinity :: "PodAffinityRequired option"
  PodAntiAffinity :: "PodAffinityRequired option"

record Toleration =
  tol_Key :: string
  tol_Operator :: string
  tol_Value :: string
  tol_Effect :: string

record RBDVolume =
  CephMonitors :: "string list"
  RBDPool :: string
  RBDImage :: string
  rbd_ReadOnly :: bool

text \<open>The sources of a volume: disk name and read-only flag, volume id, IQN and read-only flag, RBD image,
  names of an Azure and a Cinder disk, and the name of a persistent volume claim.\<close>

record Volume =
  GCEPersistentDisk :: "(string \<times> bool) option"
  AWSElasticBlockStore :: "string option"
  ISCSI :: "(string \<times> bool) option"
  RBD :: "RBDVolume option"
  AzureDisk :: "string option"
  Cinder :: "string option"
  PersistentVolumeClaim :: "string option"

record PodCondition =
  cond_Type :: string
  cond_Status :: string
  cond_Reason :: string

text \<open>Metadata, specification and status of a pod. \<open>pod_Other\<close> stands for all fields of the
  metadata and the specification that the scheduler does not read, or only through a function of the library; it takes part in equality
  tests only.\<close>

record Pod =
  pod_UID :: string
  pod_Name :: string
  pod_Namespace :: string
  pod_ResourceVersion :: string
  pod_Generation :: int64
  pod_DeletionTimestamp :: "int option"
  pod_Labels :: labels
  pod_Annotations :: labels
  pod_NodeName :: string
  pod_SchedulerName :: string
  pod_Priority :: "int32 option"
  pod_Affinity :: "Affinity option"
  pod_Containers :: "Container list"
  pod_InitContainers :: "Container list"
  pod_NodeSelector :: labels
  pod_Tolerations :: "Toleration list"
  pod_Volumes :: "Volume list"
  pod_Other :: nat
  pod_NominatedNodeName :: string
  pod_Conditions :: "PodCondition list"

record Taint =
  taint_Key :: string
  taint_Value :: string
  taint_Effect :: string

record NodeCondition =
  ncond_Type :: string
  ncond_Status :: string

record ContainerImage =
  image_Names :: "string list"
  image_SizeBytes :: int64

record Node =
  node_Name :: string
  node_Labels :: labels
  node_Annotations :: labels
  node_Taints :: "Taint list"
  node_Unschedulable :: bool
  node_Capacity :: ResourceList
  node_Allocatable :: ResourceList
  node_Conditions :: "NodeCondition list"
  node_Images :: "ContainerImage list"

text \<open>A service selects pods by their labels.\<close>

record Service =
  svc_Name :: string
  svc_Selector :: labels

text \<open>The controller of a pod, and, for a node, the controllers whose pods should avoid it.\<close>

record OwnerReference =
  owner_Kind :: string
  owner_UID :: string

subsection \<open>Pools\<close>

record PoolSpec =
  NodeSelector :: "LabelSelector option"
  spec_DisablePreemption :: bool
  spec_DisableBorrowing :: bool
  BorrowingPools :: "string list"
  spec_DisableSharing :: bool

record Pool =
  pool_Name :: string
  pool_Spec :: PoolSpec

definition GroupNameAnnotationKey :: string where
  "GroupNameAnnotationKey = ''resource.aibee.cn/pool''"

subsection \<open>Library functions the scheduler calls\<close>

text \<open>
  \<open>LabelSelectorAsSelector\<close> yields the matching function of a selector, or \<open>None\<close> for its
  error; a nil selector is a valid argument. \<open>MetaNamespaceKeyFunc\<close> is the key function of the
  informer caches and \<open>NamespacedName_String\<close> the printed form of a namespaced name.
  \<open>NewQuantity\<close> and \<open>NewMilliQuantity\<close> take a number and a format. \<open>SelectorFromSet\<close> is the matching
  function of the selector made from a set of labels; \<open>MatchNodeSelectorTerms\<close> takes the terms, the
  labels and the fields of a node. \<open>GetControllerOf\<close> reads the owner references of a pod.
  \<open>GetAvoidPodsFromNodeAnnotations\<close> parses an annotation, or fails; its entries may lack the reference to a controller.
\<close>

record k8s =
  NewQuantity :: "int64 \<Rightarrow> string \<Rightarrow> Quantity"
  NewMilliQuantity :: "int64 \<Rightarrow> string \<Rightarrow> Quantity"
  IsScalarResourceName :: "string \<Rightarrow> bool"
  IsHugePageResourceName :: "string \<Rightarrow> bool"
  IsAttachableVolumeResourceName :: "string \<Rightarrow> bool"
  GetZoneKey :: "Node \<Rightarrow> string"
  LabelSelectorAsSelector :: "LabelSelector option \<Rightarrow> (labels \<Rightarrow> bool) option"
  MetaNamespaceKeyFunc :: "Pod \<Rightarrow> string option"
  NamespacedName_String :: "string \<Rightarrow> string \<Rightarrow> string"
  SelectorFromSet :: "labels \<Rightarrow> labels \<Rightarrow> bool"
  MatchNodeSelectorTerms :: "NodeSelectorTerm list \<Rightarrow> labels \<Rightarrow> labels \<Rightarrow> bool"
  TolerationsTolerateTaint :: "Toleration list \<Rightarrow> Taint \<Rightarrow> bool"
  TolerationsTolerateTaintsWithFilter :: "Toleration list \<Rightarrow> Taint list \<Rightarrow> (Taint \<Rightarrow> bool) \<Rightarrow> bool"
  IsExtendedResourceName :: "string \<Rightarrow> bool"
  GetPodQOS :: "Pod \<Rightarrow> string"
  NodeSelectorRequirementsAsSelector :: "LabelSelectorRequirement list \<Rightarrow> (labels \<Rightarrow> bool) option"
  GetControllerOf :: "Pod \<Rightarrow> OwnerReference option"
  GetAvoidPodsFromNodeAnnotations :: "labels \<Rightarrow> OwnerReference option list option"

subsection \<open>Objects with every field at its zero value\<close>

definition zero_Pod :: Pod where
  "zero_Pod = \<lparr>pod_UID = [], pod_Name = [], pod_Namespace = [], pod_ResourceVersion = [],
     pod_Generation = 0, pod_DeletionTimestamp = None, pod_Labels = [], pod_Annotations = [],
     pod_NodeName = [], pod_SchedulerName = [], pod_Priority = None, pod_Affinity = None,
     pod_Containers = [], pod_InitContainers = [], pod_NodeSelector = [], pod_Tolerations = [], pod_Volumes = [], pod_Other = 0, pod_NominatedNodeName = [],
     pod_Conditions = []\<rparr>"

definition zero_Node :: Node where
  "zero_Node = \<lparr>node_Name = [], node_Labels = [], node_Annotations = [], node_Taints = [], node_Unschedulable = False,
     node_Capacity = [], node_Allocatable = [], node_Conditions = [], node_Images = []\<rparr>"

definition zero_PoolSpec :: PoolSpec where
  "zero_PoolSpec = \<lparr>NodeSelector = None, spec_DisablePreemption = False,
     spec_DisableBorrowing = False, BorrowingPools = [], spec_DisableSharing = False\<rparr>"

subsection \<open>A concrete library record\<close>

text \<open>An instance of the library functions at which the hypotheses of the theorems hold; the
  examples evaluate the model with it. Selectors of this instance compare the match labels.\<close>

definition example_tolerates :: "Toleration list \<Rightarrow> Taint \<Rightarrow> bool" where
  "example_tolerates ts taint = list_ex (\<lambda>t. tol_Key t = taint_Key taint \<and> tol_Value t = taint_Value taint \<and>
     (tol_Effect t = [] \<or> tol_Effect t = taint_Effect taint)) ts"

definition example_k8s :: k8s where
  "example_k8s = \<lparr>
     NewQuantity = (\<lambda>v f. \<lparr>Value = v, MilliValue = v * 1000\<rparr>),
     NewMilliQuantity = (\<lambda>m f. \<lparr>Value = (m + 999) div 1000, MilliValue = m\<rparr>),
     IsScalarResourceName = (\<lambda>n. n = ''nvidia.com/gpu''),
     IsHugePageResourceName = (\<lambda>n. False),
     IsAttachableVolumeResourceName = (\<lambda>n. False),
     GetZoneKey = (\<lambda>n. case map_of (node_Labels n) ''zone'' of None \<Rightarrow> [] | Some z \<Rightarrow> z),
     LabelSelectorAsSelector = (\<lambda>sel. case sel of
         None \<Rightarrow> Some (\<lambda>_. False)
       | Some s \<Rightarrow> Some (\<lambda>ls. list_all (\<lambda>(k, v). map_of ls k = Some v) (MatchLabels s))),
     MetaNamespaceKeyFunc = (\<lambda>p. Some (if pod_Namespace p = [] then pod_Name p else pod_Namespace p @ ''/'' @ pod_Name p)),
     NamespacedName_String = (\<lambda>ns n. ns @ ''/'' @ n),
     SelectorFromSet = (\<lambda>sel ls. list_all (\<lambda>(k, v). map_of ls k = Some v) sel),
     MatchNodeSelectorTerms = (\<lambda>terms ls fs. list_ex (\<lambda>t. nst_MatchExpressions t \<noteq> [] \<and>
         list_all (\<lambda>r. \<exists>v \<in> set (req_Values r). map_of ls (req_Key r) = Some v) (nst_MatchExpressions t)) terms),
     TolerationsTolerateTaint = example_tolerates,
     TolerationsTolerateTaintsWithFilter = (\<lambda>ts taints f. list_all (\<lambda>t. f t \<longrightarrow> example_tolerates ts t) taints),
     IsExtendedResourceName = (\<lambda>n. n = ''nvidia.com/gpu''),
     GetPodQOS = (\<lambda>p. if list_all (\<lambda>c. Requests c = []) (pod_Containers p) then ''BestEffort'' else ''Burstable''),
     NodeSelectorRequirementsAsSelector = (\<lambda>rs. Some (\<lambda>ls. list_all (\<lambda>r. \<exists>v \<in> set (req_Values r). map_of ls (req_Key r) = Some v) rs)),
     GetControllerOf = (\<lambda>p. None),
     GetAvoidPodsFromNodeAnnotations = (\<lambda>as. Some [])\<rparr>"

end
