(* ===== verification/Resource_Model.thy ===== *)
theory Resource_Model
  imports Api_Types
begin

text \<open>
  \<open>Resource\<close> of \<open>pkg/scheduler/info/node_info.go\<close> with its arithmetic, and the request
  computations of \<open>info/util.go\<close> and \<open>priorities/util/non_zero.go\<close>.

  \<open>ScalarResources\<close> is a Go map that is allocated lazily: \<open>None\<close> is the nil map. Methods with a
  pointer receiver that the code calls on nil take an \<open>option\<close>. The abstract view of a resource
  is the function \<open>amount\<close> from dimensions to values: \<open>Plus\<close> and \<open>Sub\<close> are addition and
  subtraction of such functions.
\<close>

subsection \<open>Data\<close>

record Resource =
  MilliCPU :: int64
  Memory :: int64
  EphemeralStorage :: int64
  AllowedPodNumber :: int64
  ScalarResources :: "(string, int64) fmap option"

definition emptyResource :: Resource where
  "emptyResource = \<lparr>MilliCPU = 0, Memory = 0, EphemeralStorage = 0, AllowedPodNumber = 0,
     ScalarResources = None\<rparr>"

definition ResourceCPU :: string where "ResourceCPU = ''cpu''"
definition ResourceMemory :: string where "ResourceMemory = ''memory''"
definition ResourcePods :: string where "ResourcePods = ''pods''"
definition ResourceEphemeralStorage :: string where "ResourceEphemeralStorage = ''ephemeral-storage''"
definition ResourceGPU :: string where "ResourceGPU = ''nvidia.com/gpu''"

lemmas resource_names [simp] =
  ResourceCPU_def ResourceMemory_def ResourcePods_def ResourceEphemeralStorage_def ResourceGPU_def

text \<open>Reading a Go map: a nil map is empty and a missing entry reads as zero.\<close>

definition scalar_map :: "Resource \<Rightarrow> (string, int64) fmap" where
  "scalar_map r = (case ScalarResources r of None \<Rightarrow> fmempty | Some m \<Rightarrow> m)"

definition scalar_of :: "Resource \<Rightarrow> string \<Rightarrow> int64" where
  "scalar_of r name = (case fmlookup (scalar_map r) name of None \<Rightarrow> 0 | Some q \<Rightarrow> q)"

subsection \<open>Operations\<close>

definition SetScalar :: "Resource \<Rightarrow> string \<Rightarrow> int64 \<Rightarrow> Resource" where
  "SetScalar r name quantity = r\<lparr>ScalarResources := Some (fmupd name quantity (scalar_map r))\<rparr>"

definition AddScalar :: "Resource \<Rightarrow> string \<Rightarrow> int64 \<Rightarrow> Resource" where
  "AddScalar r name quantity = SetScalar r name (scalar_of r name + quantity)"

definition Add_entry :: "k8s \<Rightarrow> Resource \<Rightarrow> string \<times> Quantity \<Rightarrow> Resource" where
  "Add_entry L r e = (case e of (rName, rQuant) \<Rightarrow>
     if rName = ResourceCPU then r\<lparr>MilliCPU := MilliCPU r + MilliValue rQuant\<rparr>
     else if rName = ResourceMemory then r\<lparr>Memory := Memory r + Value rQuant\<rparr>
     else if rName = ResourcePods then r\<lparr>AllowedPodNumber := AllowedPodNumber r + Value rQuant\<rparr>
     else if rName = ResourceEphemeralStorage
       then r\<lparr>EphemeralStorage := EphemeralStorage r + Value rQuant\<rparr>
     else if IsScalarResourceName L rName then AddScalar r rName (Value rQuant)
     else r)"

definition Resource_Add :: "k8s \<Rightarrow> Resource \<Rightarrow> ResourceList \<Rightarrow> Resource" where
  "Resource_Add L r rl = foldl (Add_entry L) r rl"

definition NewResource :: "k8s \<Rightarrow> ResourceList \<Rightarrow> Resource" where
  "NewResource L rl = Resource_Add L emptyResource rl"

text \<open>The loop over \<open>rr.ScalarResources\<close> combines each entry of \<open>rr\<close> into the map of \<open>r\<close>, which is
  allocated if there is any entry.\<close>

definition combine_scalars :: "(int64 \<Rightarrow> int64 \<Rightarrow> int64) \<Rightarrow> Resource \<Rightarrow> Resource \<Rightarrow> (string, int64) fmap option" where
  "combine_scalars f r rr =
     (if scalar_map rr = fmempty then ScalarResources r
      else Some (fmadd (scalar_map r) (fmmap_keys (\<lambda>rName rQuant. f (scalar_of r rName) rQuant) (scalar_map rr))))"

definition Plus :: "Resource \<Rightarrow> Resource \<Rightarrow> Resource" where
  "Plus r rr = \<lparr>MilliCPU = MilliCPU r + MilliCPU rr, Memory = Memory r + Memory rr,
     EphemeralStorage = EphemeralStorage r + EphemeralStorage rr,
     AllowedPodNumber = AllowedPodNumber r + AllowedPodNumber rr,
     ScalarResources = combine_scalars (+) r rr\<rparr>"

definition Sub :: "Resource \<Rightarrow> Resource \<Rightarrow> Resource" where
  "Sub r rr = \<lparr>MilliCPU = MilliCPU r - MilliCPU rr, Memory = Memory r - Memory rr,
     EphemeralStorage = EphemeralStorage r - EphemeralStorage rr,
     AllowedPodNumber = AllowedPodNumber r - AllowedPodNumber rr,
     ScalarResources = combine_scalars (-) r rr\<rparr>"

definition Resource_Clone :: "Resource \<Rightarrow> Resource" where
  "Resource_Clone r = \<lparr>MilliCPU = MilliCPU r, Memory = Memory r,
     EphemeralStorage = EphemeralStorage r, AllowedPodNumber = AllowedPodNumber r,
     ScalarResources = map_option (\<lambda>m. fmadd fmempty m) (ScalarResources r)\<rparr>"

definition SetMax_entry :: "k8s \<Rightarrow> Resource \<Rightarrow> string \<times> Quantity \<Rightarrow> Resource" where
  "SetMax_entry L r e = (case e of (rName, rQuantity) \<Rightarrow>
     if rName = ResourceMemory then
       (if Memory r <s Value rQuantity then r\<lparr>Memory := Value rQuantity\<rparr> else r)
     else if rName = ResourceCPU then
       (if MilliCPU r <s MilliValue rQuantity then r\<lparr>MilliCPU := MilliValue rQuantity\<rparr> else r)
     else if rName = ResourceEphemeralStorage then
       (if EphemeralStorage r <s Value rQuantity then r\<lparr>EphemeralStorage := Value rQuantity\<rparr> else r)
     else if IsScalarResourceName L rName then
       (if scalar_of r rName <s Value rQuantity then SetScalar r rName (Value rQuantity) else r)
     else r)"

definition SetMaxResource :: "k8s \<Rightarrow> Resource \<Rightarrow> ResourceList \<Rightarrow> Resource" where
  "SetMaxResource L r rl = foldl (SetMax_entry L) r rl"

definition SetValue :: "Resource \<Rightarrow> string \<Rightarrow> int64 \<Rightarrow> Resource" where
  "SetValue r name value =
     (if name = [] \<or> value <s 0 then r
      else if name = ResourceCPU then r\<lparr>MilliCPU := value\<rparr>
      else if name = ResourceMemory then r\<lparr>Memory := value\<rparr>
      else if name = ResourceEphemeralStorage then r\<lparr>EphemeralStorage := value\<rparr>
      else if name = ResourcePods then r\<lparr>AllowedPodNumber := value\<rparr>
      else SetScalar r name value)"

definition LessOrEqual :: "Resource \<Rightarrow> Resource \<Rightarrow> bool" where
  "LessOrEqual r rr =
     (if \<not> (MilliCPU r \<le>s MilliCPU rr \<and> Memory r \<le>s Memory rr \<and>
            EphemeralStorage r \<le>s EphemeralStorage rr \<and>
            AllowedPodNumber r \<le>s AllowedPodNumber rr) then False
      else fmpred (\<lambda>rName rQuant. \<not> scalar_of rr rName <s rQuant) (scalar_map r))"

definition Resource_ResourceList :: "k8s \<Rightarrow> Resource \<Rightarrow> (string, Quantity) fmap" where
  "Resource_ResourceList L r =
     fmadd
       (fmap_of_list
         [(ResourceCPU, NewMilliQuantity L (MilliCPU r) ''DecimalSI''),
          (ResourceMemory, NewQuantity L (Memory r) ''BinarySI''),
          (ResourcePods, NewQuantity L (AllowedPodNumber r) ''BinarySI''),
          (ResourceEphemeralStorage, NewQuantity L (EphemeralStorage r) ''BinarySI'')])
       (fmmap_keys
         (\<lambda>rName rQuant. if IsHugePageResourceName L rName then NewQuantity L rQuant ''BinarySI''
                         else NewQuantity L rQuant ''DecimalSI'')
         (scalar_map r))"

definition GetValue :: "k8s \<Rightarrow> Resource \<Rightarrow> string \<Rightarrow> int64" where
  "GetValue L r name =
     (if name = [] then 0
      else case fmlookup (Resource_ResourceList L r) name of
        None \<Rightarrow> 0
      | Some res \<Rightarrow> if name = ResourceCPU then MilliValue res else Value res)"

text \<open>\<open>ResourceNames\<close> collects the keys of the list in the order of the \<open>range\<close> loop.\<close>

definition ResourceNames :: "k8s \<Rightarrow> string list \<Rightarrow> Resource \<Rightarrow> string list" where
  "ResourceNames L ord r = filter (\<lambda>n. n |\<in>| fmdom (Resource_ResourceList L r)) ord"

subsection \<open>Requests of pods\<close>

definition DefaultMilliCPURequest :: int64 where "DefaultMilliCPURequest = 100"
definition DefaultMemoryRequest :: int64 where "DefaultMemoryRequest = 200 * 1024 * 1024"

definition GetNonzeroRequests :: "ResourceList \<Rightarrow> int64 \<times> int64" where
  "GetNonzeroRequests requests =
     (let outMilliCPU = (case map_of requests ResourceCPU of
                           None \<Rightarrow> DefaultMilliCPURequest | Some q \<Rightarrow> MilliValue q);
          outMemory = (case map_of requests ResourceMemory of
                         None \<Rightarrow> DefaultMemoryRequest | Some q \<Rightarrow> Value q)
      in (outMilliCPU, outMemory))"

definition calculateResource :: "k8s \<Rightarrow> Pod \<Rightarrow> Resource \<times> int64 \<times> int64" where
  "calculateResource L pod =
     foldl (\<lambda>(res, non0CPU, non0Mem) c.
        let (non0CPUReq, non0MemReq) = GetNonzeroRequests (Requests c)
        in (Resource_Add L res (Requests c), non0CPU + non0CPUReq, non0Mem + non0MemReq))
       (emptyResource, 0, 0) (pod_Containers pod)"

definition GetResourceRequestForPool :: "k8s \<Rightarrow> Pod \<Rightarrow> Resource" where
  "GetResourceRequestForPool L pod =
     (let result = foldl (\<lambda>r c. Resource_Add L r (Requests c)) emptyResource (pod_Containers pod)
      in result\<lparr>AllowedPodNumber := AllowedPodNumber result + 1\<rparr>)"

definition CalculatePodRequestResource :: "k8s \<Rightarrow> Pod \<Rightarrow> Resource" where
  "CalculatePodRequestResource L pod =
     (let sum = foldl (\<lambda>r c. Resource_Add L r (Requests c)) emptyResource (pod_Containers pod);
          result = foldl (\<lambda>r c. SetMaxResource L r (Requests c)) sum (pod_InitContainers pod)
      in result\<lparr>AllowedPodNumber := AllowedPodNumber result + 1\<rparr>)"

definition CalculateSumPodsRequestResource :: "k8s \<Rightarrow> Pod list \<Rightarrow> Resource" where
  "CalculateSumPodsRequestResource L pods =
     foldl (\<lambda>sum pod. Plus sum (CalculatePodRequestResource L pod)) emptyResource pods"

definition GetPodAnnotationsPoolName :: "Pod \<Rightarrow> string" where
  "GetPodAnnotationsPoolName pod =
     (case map_of (pod_Annotations pod) GroupNameAnnotationKey of None \<Rightarrow> [] | Some name \<Rightarrow> name)"

fun SliceContainsString :: "string list \<Rightarrow> string \<Rightarrow> bool" where
  "SliceContainsString [] s = False"
| "SliceContainsString (item # items) s = (if item = s then True else SliceContainsString items s)"

subsection \<open>The abstract view: amounts per dimension\<close>

datatype dim = CPU | Mem | Eph | PodCount | Scalar string

fun amount :: "Resource \<Rightarrow> dim \<Rightarrow> int64" where
  "amount r CPU = MilliCPU r"
| "amount r Mem = Memory r"
| "amount r Eph = EphemeralStorage r"
| "amount r PodCount = AllowedPodNumber r"
| "amount r (Scalar n) = scalar_of r n"

definition entry_dim :: "k8s \<Rightarrow> string \<Rightarrow> dim option" where
  "entry_dim L n =
     (if n = ResourceCPU then Some CPU else if n = ResourceMemory then Some Mem
      else if n = ResourcePods then Some PodCount
      else if n = ResourceEphemeralStorage then Some Eph
      else if IsScalarResourceName L n then Some (Scalar n) else None)"

definition entry_amount :: "k8s \<Rightarrow> dim \<Rightarrow> string \<times> Quantity \<Rightarrow> int64" where
  "entry_amount L d e =
     (if entry_dim L (fst e) = Some d
      then (if d = CPU then MilliValue (snd e) else Value (snd e)) else 0)"

definition list_amount :: "k8s \<Rightarrow> ResourceList \<Rightarrow> dim \<Rightarrow> int64" where
  "list_amount L rl d = (\<Sum>e\<leftarrow>rl. entry_amount L d e)"

text \<open>What the containers of a pod request, per dimension.\<close>

definition request_amount :: "k8s \<Rightarrow> Pod \<Rightarrow> dim \<Rightarrow> int64" where
  "request_amount L pod d = (\<Sum>c\<leftarrow>pod_Containers pod. list_amount L (Requests c) d)"

lemma scalar_of_combine:
  "scalar_of \<lparr>MilliCPU = a, Memory = b, EphemeralStorage = c, AllowedPodNumber = e,
     ScalarResources = combine_scalars f r rr\<rparr> n =
   (if n |\<in>| fmdom (scalar_map rr) then f (scalar_of r n) (scalar_of rr n) else scalar_of r n)"
proof (cases "scalar_map rr = fmempty")
  case True
  then show ?thesis by (simp add: combine_scalars_def scalar_of_def scalar_map_def)
next
  case False
  have m: "scalar_map \<lparr>MilliCPU = a, Memory = b, EphemeralStorage = c, AllowedPodNumber = e,
      ScalarResources = combine_scalars f r rr\<rparr> =
    fmadd (scalar_map r) (fmmap_keys (\<lambda>k q. f (scalar_of r k) q) (scalar_map rr))"
    using False by (simp add: combine_scalars_def scalar_map_def)
  show ?thesis
    unfolding scalar_of_def m
    by (cases "fmlookup (scalar_map rr) n") (auto simp: fmlookup_dom_iff scalar_of_def)
qed

lemma scalar_of_absent: "n |\<notin>| fmdom (scalar_map r) \<Longrightarrow> scalar_of r n = 0"
  by (simp add: scalar_of_def)

lemma amount_Plus [simp]: "amount (Plus r rr) d = amount r d + amount rr d"
  by (cases d) (simp_all add: Plus_def scalar_of_combine scalar_of_absent)

lemma amount_Sub [simp]: "amount (Sub r rr) d = amount r d - amount rr d"
  by (cases d) (simp_all add: Sub_def scalar_of_combine scalar_of_absent)

lemma amount_empty [simp]: "amount emptyResource d = 0"
  by (cases d) (simp_all add: emptyResource_def scalar_of_def scalar_map_def)

lemma Resource_Clone_id [simp]: "Resource_Clone r = r"
  by (cases "ScalarResources r") (simp_all add: Resource_Clone_def)

lemma scalar_of_SetScalar: "scalar_of (SetScalar r n q) m = (if m = n then q else scalar_of r m)"
  by (simp add: scalar_of_def scalar_map_def SetScalar_def)

lemma amount_SetScalar: "amount (SetScalar r n q) d = (if d = Scalar n then q else amount r d)"
  by (cases d) (auto simp: scalar_of_SetScalar, simp_all add: SetScalar_def)

lemma scalar_of_update [simp]:
  "scalar_of (r\<lparr>MilliCPU := x\<rparr>) n = scalar_of r n" "scalar_of (r\<lparr>Memory := x\<rparr>) n = scalar_of r n"
  "scalar_of (r\<lparr>EphemeralStorage := x\<rparr>) n = scalar_of r n"
  "scalar_of (r\<lparr>AllowedPodNumber := x\<rparr>) n = scalar_of r n"
  by (simp_all add: scalar_of_def scalar_map_def)

lemma amount_Add_entry: "amount (Add_entry L r e) d = amount r d + entry_amount L d e"
proof (cases e)
  case (Pair n q)
  then show ?thesis
    by (cases d) (auto simp: Add_entry_def entry_amount_def entry_dim_def AddScalar_def scalar_of_SetScalar,
        simp_all add: SetScalar_def)
qed

lemma amount_Resource_Add: "amount (Resource_Add L r rl) d = amount r d + list_amount L rl d"
  by (induction rl arbitrary: r)
    (simp_all add: Resource_Add_def list_amount_def amount_Add_entry add.assoc)

lemma amount_NewResource [simp]: "amount (NewResource L rl) d = list_amount L rl d"
  by (simp add: NewResource_def amount_Resource_Add)

lemma amount_sum_containers:
  "amount (foldl (\<lambda>r c. Resource_Add L r (Requests c)) r cs) d =
   amount r d + (\<Sum>c\<leftarrow>cs. list_amount L (Requests c) d)"
  by (induction cs arbitrary: r) (simp_all add: amount_Resource_Add add.assoc)

lemma amount_AllowedPodNumber_update:
  "amount (r\<lparr>AllowedPodNumber := x\<rparr>) d = (if d = PodCount then x else amount r d)"
  by (cases d) simp_all

lemma amount_GetResourceRequestForPool:
  "amount (GetResourceRequestForPool L pod) d = request_amount L pod d + (if d = PodCount then 1 else 0)"
  using amount_sum_containers[of L emptyResource "pod_Containers pod" d]
  by (auto simp: GetResourceRequestForPool_def Let_def amount_AllowedPodNumber_update request_amount_def)

lemma fst_calculateResource:
  "fst (foldl (\<lambda>(res, a, b) c. let (x, y) = GetNonzeroRequests (Requests c)
       in (Resource_Add L res (Requests c), a + x, b + y)) s cs) =
   foldl (\<lambda>r c. Resource_Add L r (Requests c)) (fst s) cs"
  by (induction cs arbitrary: s) (auto simp: Let_def split: prod.splits)

lemma amount_calculateResource: "amount (fst (calculateResource L pod)) d = request_amount L pod d"
  unfolding calculateResource_def fst_calculateResource
  by (simp add: amount_sum_containers request_amount_def)

lemma SliceContainsString_iff: "SliceContainsString xs s \<longleftrightarrow> s \<in> set xs"
  by (induction xs) auto

subsection \<open>Maximum over init containers\<close>

text \<open>The values a resource list offers in a dimension that \<open>SetMaxResource\<close> looks at.\<close>

definition entry_value :: "dim \<Rightarrow> string \<times> Quantity \<Rightarrow> int64" where
  "entry_value d e = (if d = CPU then MilliValue (snd e) else Value (snd e))"

definition offers :: "k8s \<Rightarrow> dim \<Rightarrow> ResourceList \<Rightarrow> int64 set" where
  "offers L d rl = entry_value d ` {e \<in> set rl. entry_dim L (fst e) = Some d}"

definition smax :: "int64 \<Rightarrow> int64 \<Rightarrow> int64" where
  "smax a b = (if a <s b then b else a)"

lemma smax_props: "a \<le>s smax a b" "b \<le>s smax a b" "smax a b = a \<or> smax a b = b"
  by (auto simp: smax_def signed.not_less intro: signed.less_imp_le)

lemma amount_SetMax_entry:
  assumes "d \<noteq> PodCount" and "\<not> IsScalarResourceName L ResourcePods"
  shows "amount (SetMax_entry L r e) d =
    (if entry_dim L (fst e) = Some d then smax (amount r d) (entry_value d e) else amount r d)"
proof (cases e)
  case (Pair n q)
  then show ?thesis using assms
    by (cases d) (auto simp: SetMax_entry_def entry_value_def entry_dim_def smax_def scalar_of_SetScalar,
        simp_all add: SetScalar_def)
qed

lemma amount_SetMax_entry_pods:
  assumes "\<not> IsScalarResourceName L ResourcePods"
  shows "amount (SetMax_entry L r e) PodCount = amount r PodCount"
  using assms by (cases e) (auto simp: SetMax_entry_def SetScalar_def)

text \<open>\<open>upper S a b\<close>: \<open>b\<close> is the maximum of \<open>a\<close> and the values in \<open>S\<close>.\<close>

definition upper :: "int64 set \<Rightarrow> int64 \<Rightarrow> int64 \<Rightarrow> bool" where
  "upper S a b \<longleftrightarrow> a \<le>s b \<and> (\<forall>v\<in>S. v \<le>s b) \<and> (b = a \<or> b \<in> S)"

lemma upper_refl: "upper {} a a"
  by (simp add: upper_def)

lemma upper_trans: "upper S a b \<Longrightarrow> upper T b c \<Longrightarrow> upper (S \<union> T) a c"
  unfolding upper_def by (blast intro: signed.order_trans)

lemma upper_smax: "upper {v} a (smax a v)"
  using smax_props(1,3)[of a v] smax_props(2)[of v a] by (auto simp: upper_def)

lemma SetMaxResource_upper:
  assumes "d \<noteq> PodCount" and "\<not> IsScalarResourceName L ResourcePods"
  shows "upper (offers L d rl) (amount r d) (amount (SetMaxResource L r rl) d)"
proof (induction rl arbitrary: r)
  case Nil
  then show ?case by (simp add: SetMaxResource_def offers_def upper_refl)
next
  case (Cons e rl)
  let ?S = "if entry_dim L (fst e) = Some d then {entry_value d e} else {}"
  have S: "offers L d (e # rl) = ?S \<union> offers L d rl"
    by (auto simp: offers_def)
  have "upper ?S (amount r d) (amount (SetMax_entry L r e) d)"
    using amount_SetMax_entry[OF assms, of r e]
    by (cases "entry_dim L (fst e) = Some d") (simp_all add: upper_smax upper_refl)
  from upper_trans[OF this Cons.IH] show ?case
    unfolding S by (simp add: SetMaxResource_def)
qed

lemma init_containers_upper:
  assumes "d \<noteq> PodCount" and "\<not> IsScalarResourceName L ResourcePods"
  shows "upper (\<Union>c\<in>set cs. offers L d (Requests c)) (amount r d)
    (amount (foldl (\<lambda>r c. SetMaxResource L r (Requests c)) r cs) d)"
proof (induction cs arbitrary: r)
  case Nil
  then show ?case by (simp add: upper_refl)
next
  case (Cons c cs)
  from upper_trans[OF SetMaxResource_upper[OF assms] Cons.IH] show ?case by simp
qed

lemma SetMaxResource_pods:
  assumes "\<not> IsScalarResourceName L ResourcePods"
  shows "amount (foldl (\<lambda>r c. SetMaxResource L r (Requests c)) r cs) PodCount = amount r PodCount"
proof (induction cs arbitrary: r)
  case (Cons c cs)
  have "amount (SetMaxResource L r rl) PodCount = amount r PodCount" for r rl
  proof (induction rl arbitrary: r)
    case (Cons e rl)
    then show ?case using amount_SetMax_entry_pods[OF assms, of r e]
      by (simp add: SetMaxResource_def del: amount.simps)
  qed (simp add: SetMaxResource_def)
  with Cons show ?case by (simp del: amount.simps)
qed simp

subsection \<open>Comparison\<close>

definition dims :: "Resource \<Rightarrow> dim set" where
  "dims r = {CPU, Mem, Eph, PodCount} \<union> Scalar ` fset (fmdom (scalar_map r))"

lemma LessOrEqual_iff: "LessOrEqual r rr \<longleftrightarrow> (\<forall>d\<in>dims r. amount r d \<le>s amount rr d)"
proof -
  have "fmpred (\<lambda>n q. \<not> scalar_of rr n <s q) (scalar_map r) \<longleftrightarrow>
    (\<forall>n. n |\<in>| fmdom (scalar_map r) \<longrightarrow> scalar_of r n \<le>s scalar_of rr n)"
    by (auto simp: fmpred_iff fmlookup_dom_iff scalar_of_def[of r] signed.not_less)
  then show ?thesis by (auto simp: LessOrEqual_def dims_def)
qed

subsection \<open>Properties\<close>

text \<open>Adding the quantities of a resource list to a resource and subtracting the resource built
  from the same list, visited in any order, restores every amount, also when the additions wrap
  around.\<close>

theorem Resource_Add_Sub_restores:
  assumes "mset rl = mset rl'"
  shows "amount (Sub (Resource_Add L r rl) (NewResource L rl')) d = amount r d"
proof -
  have "list_amount L rl d = list_amount L rl' d"
    unfolding list_amount_def using assms by (metis mset_map sum_mset_sum_list)
  then show ?thesis by (simp add: amount_Resource_Add)
qed

theorem Resource_Add_Sub_restores_witness:
  "amount (Sub (Resource_Add example_k8s (emptyResource\<lparr>Memory := 9\<rparr>)
       [(''cpu'', \<lparr>Value = 1, MilliValue = 500\<rparr>), (''memory'', \<lparr>Value = 7, MilliValue = 7000\<rparr>)])
     (NewResource example_k8s
       [(''memory'', \<lparr>Value = 7, MilliValue = 7000\<rparr>), (''cpu'', \<lparr>Value = 1, MilliValue = 500\<rparr>)])) Mem = 9"
  by (subst Resource_Add_Sub_restores) simp_all

text \<open>The request of a pod in a dimension other than the pod count is the maximum of the sum over
  its containers and the values its init containers ask for; the pod count is increased by one.\<close>

theorem CalculatePodRequestResource_is_max:
  assumes pods: "\<not> IsScalarResourceName L ResourcePods"
  shows "amount (CalculatePodRequestResource L pod) PodCount = request_amount L pod PodCount + 1 \<and>
    (\<forall>d. d \<noteq> PodCount \<longrightarrow>
      upper (\<Union>c\<in>set (pod_InitContainers pod). offers L d (Requests c)) (request_amount L pod d)
        (amount (CalculatePodRequestResource L pod) d))"
proof -
  define sum where "sum = foldl (\<lambda>r c. Resource_Add L r (Requests c)) emptyResource (pod_Containers pod)"
  define mx where "mx = foldl (\<lambda>r c. SetMaxResource L r (Requests c)) sum (pod_InitContainers pod)"
  have sum: "amount sum d = request_amount L pod d" for d
    unfolding sum_def request_amount_def by (simp add: amount_sum_containers)
  have res: "CalculatePodRequestResource L pod = mx\<lparr>AllowedPodNumber := AllowedPodNumber mx + 1\<rparr>"
    by (simp add: CalculatePodRequestResource_def Let_def mx_def sum_def)
  have "amount mx PodCount = request_amount L pod PodCount"
    unfolding mx_def SetMaxResource_pods[OF pods] by (rule sum)
  moreover have "upper (\<Union>c\<in>set (pod_InitContainers pod). offers L d (Requests c))
      (request_amount L pod d) (amount mx d)" if "d \<noteq> PodCount" for d
    using init_containers_upper[OF that pods, of "pod_InitContainers pod" sum]
    unfolding mx_def sum .
  ultimately show ?thesis by (simp add: res amount_AllowedPodNumber_update)
qed

theorem CalculatePodRequestResource_is_max_witness:
  "upper {500} 200 (amount (CalculatePodRequestResource example_k8s
     (zero_Pod\<lparr>pod_Containers := [\<lparr>Requests = [(''cpu'', \<lparr>Value = 1, MilliValue = 200\<rparr>)], Limits = [], container_Image = [], Ports = []\<rparr>],
       pod_InitContainers := [\<lparr>Requests = [(''cpu'', \<lparr>Value = 1, MilliValue = 500\<rparr>)], Limits = [], container_Image = [], Ports = []\<rparr>]\<rparr>)) CPU)"
proof -
  let ?p = "zero_Pod\<lparr>pod_Containers := [\<lparr>Requests = [(''cpu'', \<lparr>Value = 1, MilliValue = 200\<rparr>)], Limits = [], container_Image = [], Ports = []\<rparr>],
       pod_InitContainers := [\<lparr>Requests = [(''cpu'', \<lparr>Value = 1, MilliValue = 500\<rparr>)], Limits = [], container_Image = [], Ports = []\<rparr>]\<rparr>"
  have "\<not> IsScalarResourceName example_k8s ResourcePods" by (simp add: example_k8s_def)
  moreover have "CPU \<noteq> PodCount" by simp
  ultimately have "upper (\<Union>c\<in>set (pod_InitContainers ?p). offers example_k8s CPU (Requests c))
      (request_amount example_k8s ?p CPU) (amount (CalculatePodRequestResource example_k8s ?p) CPU)"
    using CalculatePodRequestResource_is_max[of example_k8s ?p] by blast
  moreover have "(\<Union>c\<in>set (pod_InitContainers ?p). offers example_k8s CPU (Requests c)) = {500}"
    by (simp add: zero_Pod_def offers_def entry_value_def entry_dim_def conj_commute cong: conj_cong)
  moreover have "request_amount example_k8s ?p CPU = 200"
    by (simp add: zero_Pod_def request_amount_def list_amount_def entry_amount_def entry_dim_def)
  ultimately show ?thesis by simp
qed

text \<open>A value set for a named resource is the value read back for that name, for every
  non-negative value; quantities keep the number they are built from.\<close>

theorem SetValue_GetValue:
  assumes milli: "\<And>v f. MilliValue (NewMilliQuantity L v f) = v"
    and whole: "\<And>v f. Value (NewQuantity L v f) = v"
    and name: "name \<noteq> []" and nonneg: "0 \<le>s value"
    and base: "\<And>n. n \<in> {ResourceCPU, ResourceMemory, ResourcePods, ResourceEphemeralStorage} \<Longrightarrow>
      n |\<notin>| fmdom (scalar_map r)"
  shows "GetValue L (SetValue r name value) name = value"
proof -
  have "\<not> value <s 0" using nonneg by (simp add: signed.not_less)
  moreover have "scalar_map (r\<lparr>MilliCPU := x\<rparr>) = scalar_map r" "scalar_map (r\<lparr>Memory := x\<rparr>) = scalar_map r"
    "scalar_map (r\<lparr>EphemeralStorage := x\<rparr>) = scalar_map r"
    "scalar_map (r\<lparr>AllowedPodNumber := x\<rparr>) = scalar_map r" for x
    by (simp_all add: scalar_map_def)
  moreover have "scalar_map (SetScalar r name value) = fmupd name value (scalar_map r)"
    by (simp add: scalar_map_def SetScalar_def)
  ultimately show ?thesis
    using name base[of ResourceCPU] base[of ResourceMemory] base[of ResourcePods]
      base[of ResourceEphemeralStorage]
    by (cases "name = ResourceCPU"; cases "name = ResourceMemory"; cases "name = ResourcePods";
        cases "name = ResourceEphemeralStorage")
      (simp_all add: GetValue_def SetValue_def Resource_ResourceList_def milli whole fmlookup_of_list)
qed

theorem SetValue_GetValue_witness:
  "GetValue example_k8s (SetValue emptyResource ResourceGPU 4) ResourceGPU = 4"
  by (rule SetValue_GetValue)
    (auto simp: example_k8s_def emptyResource_def scalar_map_def word_sle_eq)

end
