(* ===== verification/Key_Heap.thy ===== *)
theory Key_Heap
  imports Sched_Prelude
begin

text \<open>
  The keyed heap of \<open>pkg/scheduler/util/heap.go\<close> on top of Go's \<open>container/heap\<close>.

  \<open>heapData\<close> keeps a map from keys to objects with their position and a slice of keys that
  is ordered as a binary heap. \<open>keyFunc\<close> and \<open>lessFunc\<close> are arguments of the operations:
  the closures the scheduler passes read state that changes over time. The operations of
  \<open>container/heap\<close> (\<open>up\<close>, \<open>down\<close>, \<open>Push\<close>, \<open>Pop\<close>, \<open>Remove\<close>, \<open>Fix\<close>) are translated from the
  standard library; a panic is \<open>None\<close>.
\<close>

subsection \<open>Data and the \<open>heap.Interface\<close> methods of \<open>heapData\<close>\<close>

record 'a heapItem =
  obj :: 'a
  index :: nat

record 'a heapData =
  items :: "(string, 'a heapItem) fmap"
  queue :: "string list"

type_synonym 'a LessFunc = "'a \<Rightarrow> 'a \<Rightarrow> bool"
type_synonym 'a KeyFunc = "'a \<Rightarrow> string option"

definition heapData_Less :: "'a LessFunc \<Rightarrow> 'a heapData \<Rightarrow> nat \<Rightarrow> nat \<Rightarrow> bool option" where
  "heapData_Less lessFunc h i j =
     (if i > length (queue h) \<or> j > length (queue h) then Some False
      else if i \<ge> length (queue h) then None
      else case fmlookup (items h) (queue h ! i) of
        None \<Rightarrow> Some False
      | Some itemi \<Rightarrow>
          (if j \<ge> length (queue h) then None
           else case fmlookup (items h) (queue h ! j) of
             None \<Rightarrow> Some False
           | Some itemj \<Rightarrow> Some (lessFunc (obj itemi) (obj itemj))))"

definition heapData_Len :: "'a heapData \<Rightarrow> nat" where
  "heapData_Len h = length (queue h)"

definition set_index :: "string \<Rightarrow> nat \<Rightarrow> 'a heapData \<Rightarrow> 'a heapData option" where
  "set_index k i h =
     (case fmlookup (items h) k of
        None \<Rightarrow> None
      | Some item \<Rightarrow> Some (h\<lparr>items := fmupd k (item\<lparr>index := i\<rparr>) (items h)\<rparr>))"

definition heapData_Swap :: "nat \<Rightarrow> nat \<Rightarrow> 'a heapData \<Rightarrow> 'a heapData option" where
  "heapData_Swap i j h =
     (if i \<ge> length (queue h) \<or> j \<ge> length (queue h) then None
      else let h1 = h\<lparr>queue := swap_list i j (queue h)\<rparr> in
        Option.bind (set_index (queue h1 ! i) i h1) (\<lambda>h2. set_index (queue h2 ! j) j h2))"

definition heapData_Push :: "string \<Rightarrow> 'a \<Rightarrow> 'a heapData \<Rightarrow> 'a heapData" where
  "heapData_Push key x h =
     h\<lparr>items := fmupd key \<lparr>obj = x, index = length (queue h)\<rparr> (items h),
       queue := queue h @ [key]\<rparr>"

definition heapData_Pop :: "'a heapData \<Rightarrow> ('a heapData \<times> 'a option) option" where
  "heapData_Pop h =
     (if queue h = [] then None
      else let key = last (queue h); h1 = h\<lparr>queue := butlast (queue h)\<rparr> in
        case fmlookup (items h1) key of
          None \<Rightarrow> Some (h1, None)
        | Some item \<Rightarrow> Some (h1\<lparr>items := fmdrop key (items h1)\<rparr>, Some (obj item)))"

definition heapData_Peek :: "'a heapData \<Rightarrow> 'a option option" where
  "heapData_Peek h =
     (if length (queue h) > 0
      then case fmlookup (items h) (queue h ! 0) of
             None \<Rightarrow> None
           | Some item \<Rightarrow> Some (Some (obj item))
      else Some None)"

subsection \<open>\<open>container/heap\<close>\<close>

definition parent :: "nat \<Rightarrow> nat" where
  "parent j = (j - 1) div 2"

lemma parent_less [simp]: "parent j \<noteq> j \<Longrightarrow> parent j < j"
  by (cases j) (auto simp: parent_def)

function heap_up :: "'a LessFunc \<Rightarrow> 'a heapData \<Rightarrow> nat \<Rightarrow> 'a heapData option" where
  "heap_up lessFunc h j =
     (let i = parent j in
      if i = j then Some h
      else Option.bind (heapData_Less lessFunc h j i) (\<lambda>b.
        if \<not> b then Some h
        else Option.bind (heapData_Swap i j h) (\<lambda>h'. heap_up lessFunc h' i)))"
  by pat_completeness auto
termination
  by (relation "measure (\<lambda>(_, _, j). j)") auto

text \<open>\<open>down\<close> returns the final heap and the final position; the source returns whether the
  position moved.\<close>

function heap_down_loop ::
  "'a LessFunc \<Rightarrow> 'a heapData \<Rightarrow> nat \<Rightarrow> nat \<Rightarrow> ('a heapData \<times> nat) option" where
  "heap_down_loop lessFunc h i n =
     (let j1 = 2 * i + 1; j2 = j1 + 1 in
      if j1 \<ge> n then Some (h, i)
      else Option.bind (if j2 < n then heapData_Less lessFunc h j2 j1 else Some False) (\<lambda>right.
        let j = (if right then j2 else j1) in
        Option.bind (heapData_Less lessFunc h j i) (\<lambda>b.
          if \<not> b then Some (h, i)
          else Option.bind (heapData_Swap i j h) (\<lambda>h'. heap_down_loop lessFunc h' j n))))"
  by pat_completeness auto
termination
  by (relation "measure (\<lambda>(_, _, i, n). n - i)") (auto split: if_splits)

definition heap_down ::
  "'a LessFunc \<Rightarrow> 'a heapData \<Rightarrow> nat \<Rightarrow> nat \<Rightarrow> ('a heapData \<times> bool) option" where
  "heap_down lessFunc h i0 n =
     map_option (\<lambda>(h', i). (h', i > i0)) (heap_down_loop lessFunc h i0 n)"

definition heap_Push :: "'a LessFunc \<Rightarrow> 'a heapData \<Rightarrow> string \<Rightarrow> 'a \<Rightarrow> 'a heapData option" where
  "heap_Push lessFunc h key x =
     (let h1 = heapData_Push key x h in heap_up lessFunc h1 (heapData_Len h1 - 1))"

definition heap_Pop :: "'a LessFunc \<Rightarrow> 'a heapData \<Rightarrow> ('a heapData \<times> 'a option) option" where
  "heap_Pop lessFunc h =
     (if heapData_Len h = 0 then None
      else let n = heapData_Len h - 1 in
        Option.bind (heapData_Swap 0 n h) (\<lambda>h1.
        Option.bind (heap_down lessFunc h1 0 n) (\<lambda>(h2, _).
        heapData_Pop h2)))"

definition heap_Fix :: "'a LessFunc \<Rightarrow> 'a heapData \<Rightarrow> nat \<Rightarrow> 'a heapData option" where
  "heap_Fix lessFunc h i =
     Option.bind (heap_down lessFunc h i (heapData_Len h)) (\<lambda>(h1, moved).
       if moved then Some h1 else heap_up lessFunc h1 i)"

definition heap_Remove ::
  "'a LessFunc \<Rightarrow> 'a heapData \<Rightarrow> nat \<Rightarrow> ('a heapData \<times> 'a option) option" where
  "heap_Remove lessFunc h i =
     (if heapData_Len h = 0 then None
      else let n = heapData_Len h - 1 in
        Option.bind
          (if n = i then Some h
           else Option.bind (heapData_Swap i n h) (\<lambda>h1.
             Option.bind (heap_down lessFunc h1 i n) (\<lambda>(h2, moved).
               if moved then Some h2 else heap_up lessFunc h2 i)))
          heapData_Pop)"

subsection \<open>The methods of \<open>Heap\<close>\<close>

datatype heap_error = KeyError | ObjectNotFound | ObjectRemoved

definition NewHeap :: "'a heapData" where
  "NewHeap = \<lparr>items = fmempty, queue = []\<rparr>"

definition Heap_Add ::
  "'a KeyFunc \<Rightarrow> 'a LessFunc \<Rightarrow> 'a heapData \<Rightarrow> 'a \<Rightarrow> ('a heapData \<times> heap_error option) option" where
  "Heap_Add keyFunc lessFunc h x =
     (case keyFunc x of
        None \<Rightarrow> Some (h, Some KeyError)
      | Some key \<Rightarrow>
          (case fmlookup (items h) key of
             Some item \<Rightarrow>
               map_option (\<lambda>h'. (h', None))
                 (heap_Fix lessFunc (h\<lparr>items := fmupd key (item\<lparr>obj := x\<rparr>) (items h)\<rparr>) (index item))
           | None \<Rightarrow> map_option (\<lambda>h'. (h', None)) (heap_Push lessFunc h key x)))"

definition Heap_AddIfNotPresent ::
  "'a KeyFunc \<Rightarrow> 'a LessFunc \<Rightarrow> 'a heapData \<Rightarrow> 'a \<Rightarrow> ('a heapData \<times> heap_error option) option" where
  "Heap_AddIfNotPresent keyFunc lessFunc h x =
     (case keyFunc x of
        None \<Rightarrow> Some (h, Some KeyError)
      | Some key \<Rightarrow>
          (case fmlookup (items h) key of
             Some _ \<Rightarrow> Some (h, None)
           | None \<Rightarrow> map_option (\<lambda>h'. (h', None)) (heap_Push lessFunc h key x)))"

definition Heap_Update ::
  "'a KeyFunc \<Rightarrow> 'a LessFunc \<Rightarrow> 'a heapData \<Rightarrow> 'a \<Rightarrow> ('a heapData \<times> heap_error option) option" where
  "Heap_Update keyFunc lessFunc h x = Heap_Add keyFunc lessFunc h x"

definition Heap_Delete ::
  "'a KeyFunc \<Rightarrow> 'a LessFunc \<Rightarrow> 'a heapData \<Rightarrow> 'a \<Rightarrow> ('a heapData \<times> heap_error option) option" where
  "Heap_Delete keyFunc lessFunc h x =
     (case keyFunc x of
        None \<Rightarrow> Some (h, Some KeyError)
      | Some key \<Rightarrow>
          (case fmlookup (items h) key of
             Some item \<Rightarrow> map_option (\<lambda>(h', _). (h', None)) (heap_Remove lessFunc h (index item))
           | None \<Rightarrow> Some (h, Some ObjectNotFound)))"

definition Heap_Peek :: "'a heapData \<Rightarrow> 'a option option" where
  "Heap_Peek h = heapData_Peek h"

definition Heap_Pop ::
  "'a LessFunc \<Rightarrow> 'a heapData \<Rightarrow> ('a heapData \<times> (heap_error + 'a)) option" where
  "Heap_Pop lessFunc h =
     map_option (\<lambda>(h', r). case r of Some x \<Rightarrow> (h', Inr x) | None \<Rightarrow> (h', Inl ObjectRemoved))
       (heap_Pop lessFunc h)"

definition Heap_GetByKey :: "'a heapData \<Rightarrow> string \<Rightarrow> 'a option" where
  "Heap_GetByKey h key = map_option obj (fmlookup (items h) key)"

definition Heap_Get :: "'a KeyFunc \<Rightarrow> 'a heapData \<Rightarrow> 'a \<Rightarrow> heap_error + 'a option" where
  "Heap_Get keyFunc h x =
     (case keyFunc x of None \<Rightarrow> Inl KeyError | Some key \<Rightarrow> Inr (Heap_GetByKey h key))"

text \<open>\<open>List\<close> ranges over the \<open>items\<close> map; \<open>ord\<close> is the order in which the keys are visited.\<close>

definition Heap_List :: "string list \<Rightarrow> 'a heapData \<Rightarrow> 'a list" where
  "Heap_List ord h = List.map_filter (Heap_GetByKey h) ord"

definition Heap_Len :: "'a heapData \<Rightarrow> nat" where
  "Heap_Len h = length (queue h)"

subsection \<open>Ordering functions and heap order on lists of keys\<close>

text \<open>
  The contract of a \<open>lessFunc\<close>: a strict weak order. \<open>notless_trans\<close> is transitivity of
  "not less", which is what the sift loops rely on.
\<close>

locale less_order =
  fixes less :: "'a \<Rightarrow> 'a \<Rightarrow> bool"
  assumes asym: "less x y \<Longrightarrow> \<not> less y x"
    and notless_trans: "\<not> less y x \<Longrightarrow> \<not> less z y \<Longrightarrow> \<not> less z x"
begin

lemma irrefl: "\<not> less x x"
  using asym by blast

lemma less_trans: "less x y \<Longrightarrow> less y z \<Longrightarrow> less x z"
  using asym notless_trans by blast

lemma less_notless_trans: "less x y \<Longrightarrow> \<not> less z y \<Longrightarrow> less x z"
  using notless_trans by blast

text \<open>Ordering objects through a key or position keeps the contract.\<close>

lemma less_order_image: "less_order (\<lambda>x y. less (f x) (f y))"
  using asym notless_trans by unfold_locales blast+

text \<open>So does putting the objects with a property first.\<close>

lemma less_order_first: "less_order (\<lambda>x y. if P x = P y then less x y else P x)"
proof
  show "\<not> (if P y = P x then less y x else P y)" if "if P x = P y then less x y else P x" for x y
    using that asym[of x y] by (cases "P x"; cases "P y") simp_all
  show "\<not> (if P z = P x then less z x else P z)"
    if "\<not> (if P y = P x then less y x else P y)" "\<not> (if P z = P y then less z y else P z)" for x y z
    using that notless_trans[of y x z] by (cases "P x"; cases "P y"; cases "P z") simp_all
qed

end

definition heap_ordered :: "('k \<Rightarrow> 'k \<Rightarrow> bool) \<Rightarrow> 'k list \<Rightarrow> nat \<Rightarrow> bool" where
  "heap_ordered lt q n \<longleftrightarrow> (\<forall>k<n. 0 < k \<longrightarrow> \<not> lt (q ! k) (q ! parent k))"

text \<open>\<open>hole lt q n i\<close>: only the edges at position \<open>i\<close> may be out of order, and the children of
  \<open>i\<close> are in order with the parent of \<open>i\<close>.\<close>

definition hole :: "('k \<Rightarrow> 'k \<Rightarrow> bool) \<Rightarrow> 'k list \<Rightarrow> nat \<Rightarrow> nat \<Rightarrow> bool" where
  "hole lt q n i \<longleftrightarrow>
     (\<forall>k<n. 0 < k \<longrightarrow> k \<noteq> i \<longrightarrow> parent k \<noteq> i \<longrightarrow> \<not> lt (q ! k) (q ! parent k)) \<and>
     (0 < i \<longrightarrow> (\<forall>k<n. 0 < k \<longrightarrow> parent k = i \<longrightarrow> \<not> lt (q ! k) (q ! parent i)))"

definition children_ok :: "('k \<Rightarrow> 'k \<Rightarrow> bool) \<Rightarrow> 'k list \<Rightarrow> nat \<Rightarrow> nat \<Rightarrow> bool" where
  "children_ok lt q n i \<longleftrightarrow> (\<forall>k<n. 0 < k \<longrightarrow> parent k = i \<longrightarrow> \<not> lt (q ! k) (q ! i))"

function up_list :: "('k \<Rightarrow> 'k \<Rightarrow> bool) \<Rightarrow> 'k list \<Rightarrow> nat \<Rightarrow> 'k list" where
  "up_list lt q j =
     (if parent j = j \<or> \<not> lt (q ! j) (q ! parent j) then q
      else up_list lt (swap_list (parent j) j q) (parent j))"
  by pat_completeness auto
termination
  by (relation "measure (\<lambda>(_, _, j). j)") auto

definition min_child :: "('k \<Rightarrow> 'k \<Rightarrow> bool) \<Rightarrow> 'k list \<Rightarrow> nat \<Rightarrow> nat \<Rightarrow> nat" where
  "min_child lt q i n =
     (if 2 * i + 2 < n \<and> lt (q ! (2 * i + 2)) (q ! (2 * i + 1)) then 2 * i + 2 else 2 * i + 1)"

function down_list :: "('k \<Rightarrow> 'k \<Rightarrow> bool) \<Rightarrow> 'k list \<Rightarrow> nat \<Rightarrow> nat \<Rightarrow> 'k list \<times> nat" where
  "down_list lt q i n =
     (if 2 * i + 1 \<ge> n \<or> \<not> lt (q ! min_child lt q i n) (q ! i) then (q, i)
      else down_list lt (swap_list i (min_child lt q i n) q) (min_child lt q i n) n)"
  by pat_completeness auto
termination
  by (relation "measure (\<lambda>(_, _, i, n). n - i)") (auto simp: min_child_def split: if_splits)

declare heap_up.simps [simp del] heap_down_loop.simps [simp del]
declare up_list.simps [simp del] down_list.simps [simp del]

lemma parent_child: "0 < k \<Longrightarrow> parent k = i \<longleftrightarrow> k = 2 * i + 1 \<or> k = 2 * i + 2"
  by (auto simp: parent_def)

lemma parent_0 [simp]: "parent 0 = 0"
  by (simp add: parent_def)

lemma parent_pos [simp]: "0 < k \<Longrightarrow> parent k < k"
  by (auto simp: parent_def)

lemma parent_le [simp]: "parent k \<le> k"
  by (auto simp: parent_def)

lemma parent_eq_self [simp]: "parent k = k \<longleftrightarrow> k = 0"
  by (metis parent_0 parent_pos gr0I less_irrefl)

lemma min_child_cases:
  assumes "2 * i + 1 < n"
  shows "min_child lt q i n < n" "0 < min_child lt q i n" "parent (min_child lt q i n) = i"
    "i < min_child lt q i n"
  using assms by (auto simp: min_child_def parent_def)

lemma length_up_list [simp]: "length (up_list lt q j) = length q"
  by (induction lt q j rule: up_list.induct) (subst up_list.simps, auto)

lemma mset_up_list: "j < length q \<Longrightarrow> mset (up_list lt q j) = mset q"
proof (induction lt q j rule: up_list.induct)
  case (1 lt q j)
  have "parent j < length q" using "1.prems" parent_le[of j] by (rule order_le_less_trans[rotated])
  with 1 show ?case by (subst up_list.simps) auto
qed

lemma length_down_list [simp]: "length (fst (down_list lt q i n)) = length q"
  by (induction lt q i n rule: down_list.induct) (subst down_list.simps, auto)

lemma nth_up_list: "j < k \<Longrightarrow> k < length q \<Longrightarrow> up_list lt q j ! k = q ! k"
proof (induction lt q j rule: up_list.induct)
  case (1 lt q j)
  have p: "parent j < k" "parent j < length q" "j < length q" using "1.prems" parent_le[of j] by linarith+
  then show ?case using "1.IH" "1.prems"
    by (subst up_list.simps) (auto simp: nth_swap_list)
qed

lemma nth_down_list: "n \<le> k \<Longrightarrow> k < length q \<Longrightarrow> fst (down_list lt q i n) ! k = q ! k"
proof (induction lt q i n rule: down_list.induct)
  case (1 lt q i n)
  show ?case
  proof (cases "2 * i + 1 \<ge> n \<or> \<not> lt (q ! min_child lt q i n) (q ! i)")
    case True
    then show ?thesis by (subst down_list.simps) simp
  next
    case False
    then have "min_child lt q i n < n" "i < min_child lt q i n"
      using min_child_cases[of i n lt q] by auto
    with 1 False show ?thesis by (subst down_list.simps) (simp add: nth_swap_list)
  qed
qed

lemma mset_down_list: "n \<le> length q \<Longrightarrow> mset (fst (down_list lt q i n)) = mset q"
proof (induction lt q i n rule: down_list.induct)
  case (1 lt q i n)
  show ?case
  proof (cases "2 * i + 1 \<ge> n \<or> \<not> lt (q ! min_child lt q i n) (q ! i)")
    case True
    then show ?thesis by (subst down_list.simps) simp
  next
    case False
    then have "min_child lt q i n < length q" "i < length q"
      using min_child_cases[of i n lt q] "1.prems" by auto
    with 1 False show ?thesis by (subst down_list.simps) simp
  qed
qed

context less_order
begin

lemma children_ok_min_child:
  assumes "2 * i + 1 < n" "\<not> less (q ! min_child less q i n) (q ! i)"
  shows "children_ok less q n i"
  unfolding children_ok_def
proof (intro allI impI)
  fix k assume k: "k < n" "0 < k" "parent k = i"
  then have "k = 2 * i + 1 \<or> k = 2 * i + 2" by (simp add: parent_child)
  then have "\<not> less (q ! k) (q ! min_child less q i n)"
    using k asym irrefl by (auto simp: min_child_def split: if_splits)
  with assms(2) show "\<not> less (q ! k) (q ! i)" by (rule notless_trans)
qed

lemma min_child_le_sibling:
  assumes "k < n" "0 < k" "parent k = i"
  shows "\<not> less (q ! k) (q ! min_child less q i n)"
proof -
  have "k = 2 * i + 1 \<or> k = 2 * i + 2" using assms by (simp add: parent_child)
  then show ?thesis using assms asym irrefl by (auto simp: min_child_def split: if_splits)
qed

lemma heap_ordered_from_hole:
  "hole less q n j \<Longrightarrow> children_ok less q n j \<Longrightarrow>
   (0 < j \<Longrightarrow> j < n \<Longrightarrow> \<not> less (q ! j) (q ! parent j)) \<Longrightarrow> heap_ordered less q n"
  unfolding hole_def children_ok_def heap_ordered_def by metis

text \<open>One swap with the parent moves the hole up; one swap with the smaller child moves it
  down.\<close>

lemma hole_swap_up:
  assumes h: "hole less q n j" and c: "children_ok less q n j" and j: "0 < j" "j < n" "n \<le> length q"
    and lt: "less (q ! j) (q ! parent j)"
  shows "hole less (swap_list (parent j) j q) n (parent j)"
    and "children_ok less (swap_list (parent j) j q) n (parent j)"
proof -
  let ?i = "parent j" and ?q = "swap_list (parent j) j q"
  have i: "?i < j" "?i < n" using j parent_pos[of j] by linarith+
  have nth: "?q ! k = (if k = ?i then q ! j else if k = j then q ! ?i else q ! k)" if "k < n" for k
    using that i j by (simp add: nth_swap_list)
  have edge: "\<not> less (q ! k) (q ! parent k)" if "k < n" "0 < k" "k \<noteq> j" "parent k \<noteq> j" for k
    using h that by (simp add: hole_def)
  have skip: "\<not> less (q ! k) (q ! ?i)" if "k < n" "0 < k" "parent k = j" for k
    using h that j by (simp add: hole_def)
  have le: "\<not> less (q ! ?i) (q ! j)" using lt by (rule asym)
  have top: "\<not> less (q ! ?i) (q ! parent ?i)" if "0 < ?i"
    using edge[of ?i] that i parent_le[of ?i] by simp
  have up: "\<not> less (q ! k) (q ! ?i)" if "k < n" "0 < k" "parent k = ?i" "k \<noteq> j" for k
    using edge[of k] that i by simp
  show "hole less ?q n ?i"
    unfolding hole_def
  proof (intro conjI allI impI)
    fix k assume k: "k < n" "0 < k" "k \<noteq> ?i" "parent k \<noteq> ?i"
    have pk: "parent k < n" using k parent_le[of k] by linarith
    show "\<not> less (?q ! k) (?q ! parent k)"
      using k pk nth[of k] nth[of "parent k"] skip[of k] edge[of k] by auto
  next
    fix k assume k: "0 < ?i" "k < n" "0 < k" "parent k = ?i"
    have pp: "parent ?i < ?i" using k by simp
    show "\<not> less (?q ! k) (?q ! parent ?i)"
      using k pp i nth[of k] nth[of "parent ?i"] top notless_trans[OF top up[of k]] by auto
  qed
  show "children_ok less ?q n ?i"
    unfolding children_ok_def
  proof (intro allI impI)
    fix k assume k: "k < n" "0 < k" "parent k = ?i"
    show "\<not> less (?q ! k) (?q ! ?i)"
      using k i nth[of k] nth[of ?i] le notless_trans[OF le up[of k]] by auto
  qed
qed

lemma up_list_ordered:
  "hole less q n j \<Longrightarrow> children_ok less q n j \<Longrightarrow> j < n \<Longrightarrow> n \<le> length q \<Longrightarrow>
   heap_ordered less (up_list less q j) n"
proof (induction j arbitrary: q rule: less_induct)
  case (less j)
  show ?case
  proof (cases "j = 0 \<or> \<not> less (q ! j) (q ! parent j)")
    case True
    then have "heap_ordered less q n" using less.prems by (auto intro: heap_ordered_from_hole)
    with True show ?thesis by (subst up_list.simps) auto
  next
    case False
    then have j: "0 < j" "less (q ! j) (q ! parent j)" by auto
    have "heap_ordered less (up_list less (swap_list (parent j) j q) (parent j)) n"
      using hole_swap_up[OF less.prems(1,2) j(1) less.prems(3,4) j(2)] less.prems(3,4)
        less.IH[of "parent j" "swap_list (parent j) j q"] parent_pos[OF j(1)] by simp
    with j show ?thesis by (subst up_list.simps) simp
  qed
qed

lemma hole_swap_down:
  assumes h: "hole less q n i" and n: "2 * i + 1 < n" "n \<le> length q"
    and j: "j = min_child less q i n" and lt: "less (q ! j) (q ! i)"
  shows "hole less (swap_list i j q) n j"
    and "\<not> less (swap_list i j q ! j) (swap_list i j q ! parent j)"
proof -
  let ?q = "swap_list i j q"
  note mc = min_child_cases[OF n(1), of less q, folded j]
  have ij: "i < n" "j < n" using n mc by linarith+
  have nth: "?q ! k = (if k = i then q ! j else if k = j then q ! i else q ! k)" if "k < n" for k
    using that ij n by (simp add: nth_swap_list)
  have edge: "\<not> less (q ! k) (q ! parent k)" if "k < n" "0 < k" "k \<noteq> i" "parent k \<noteq> i" for k
    using h that by (simp add: hole_def)
  have skip: "\<not> less (q ! k) (q ! parent i)" if "k < n" "0 < k" "parent k = i" "0 < i" for k
    using h that by (simp add: hole_def)
  have sib: "\<not> less (q ! k) (q ! j)" if "k < n" "0 < k" "parent k = i" for k
    using that unfolding j by (rule min_child_le_sibling)
  show "\<not> less (?q ! j) (?q ! parent j)" using mc ij nth[of j] nth[of i] asym[OF lt] by simp
  show "hole less ?q n j"
    unfolding hole_def
  proof (intro conjI allI impI)
    fix k assume k: "k < n" "0 < k" "k \<noteq> j" "parent k \<noteq> j"
    have pk: "parent k < n" using k parent_le[of k] by linarith
    show "\<not> less (?q ! k) (?q ! parent k)"
      using k pk mc nth[of k] nth[of "parent k"] skip[of j] sib[of k] edge[of k] by auto
  next
    fix k assume k: "0 < j" "k < n" "0 < k" "parent k = j"
    have "k \<noteq> i" "k \<noteq> j" using k mc parent_pos[of k] by auto
    then show "\<not> less (?q ! k) (?q ! parent j)"
      using k mc ij nth[of k] nth[of i] edge[of k] by auto
  qed
qed

lemma down_list_ordered:
  "hole less q n i \<Longrightarrow> n \<le> length q \<Longrightarrow> down_list less q i n = (q', i') \<Longrightarrow>
   i \<le> i' \<and> (i' = i \<longrightarrow> q' = q \<and> children_ok less q n i) \<and>
   (i < i' \<longrightarrow> heap_ordered less q' n)"
proof (induction "n - i" arbitrary: q i rule: less_induct)
  case less
  show ?case
  proof (cases "2 * i + 1 \<ge> n \<or> \<not> less (q ! min_child less q i n) (q ! i)")
    case True
    have "children_ok less q n i"
    proof (cases "2 * i + 1 < n")
      case True
      with \<open>2 * i + 1 \<ge> n \<or> _\<close> show ?thesis by (auto intro: children_ok_min_child)
    next
      case False
      then show ?thesis by (auto simp: children_ok_def parent_child)
    qed
    with True less.prems(3) show ?thesis by (subst (asm) down_list.simps) auto
  next
    case False
    define j where "j = min_child less q i n"
    let ?q = "swap_list i j q"
    from False have n: "2 * i + 1 < n" and lt: "less (q ! j) (q ! i)" by (auto simp: j_def)
    note sw = hole_swap_down[OF less.prems(1) n less.prems(2) j_def lt]
    have ij: "i < j" "j < n" using min_child_cases[OF n] by (auto simp: j_def)
    have "down_list less ?q j n = (q', i')"
      using less.prems(3) False by (subst (asm) down_list.simps) (simp add: j_def)
    then have IH: "j \<le> i' \<and> (i' = j \<longrightarrow> q' = ?q \<and> children_ok less ?q n j) \<and>
      (j < i' \<longrightarrow> heap_ordered less q' n)"
      using less.hyps[of j ?q] sw(1) less.prems(2) ij by simp
    moreover have "heap_ordered less ?q n" if "children_ok less ?q n j"
      using heap_ordered_from_hole[OF sw(1) that] sw(2) by blast
    ultimately show ?thesis using ij by (cases "i' = j") auto
  qed
qed

lemma heap_ordered_root:
  "heap_ordered less q n \<Longrightarrow> k < n \<Longrightarrow> \<not> less (q ! k) (q ! 0)"
proof (induction k rule: less_induct)
  case (less k)
  show ?case
  proof (cases "k = 0")
    case True
    then show ?thesis by (simp add: irrefl)
  next
    case False
    then have "\<not> less (q ! parent k) (q ! 0)" using less parent_pos[of k] by auto
    moreover have "\<not> less (q ! k) (q ! parent k)"
      using less.prems False by (simp add: heap_ordered_def)
    ultimately show ?thesis by (rule notless_trans)
  qed
qed

text \<open>Replacing what is at position \<open>i\<close> of an ordered heap opens a hole at \<open>i\<close>.\<close>

lemma hole_of_ordered:
  assumes ord: "heap_ordered less q n" and i: "i < n"
    and same: "\<And>k l. k < n \<Longrightarrow> l < n \<Longrightarrow> k \<noteq> i \<Longrightarrow> l \<noteq> i \<Longrightarrow>
      lt' (q' ! k) (q' ! l) = less (q ! k) (q ! l)"
  shows "hole lt' q' n i"
  unfolding hole_def
proof (intro conjI allI impI)
  fix k assume k: "k < n" "0 < k" "k \<noteq> i" "parent k \<noteq> i"
  have pk: "parent k < n" using k parent_le[of k] by linarith
  show "\<not> lt' (q' ! k) (q' ! parent k)"
    using same[OF k(1) pk k(3,4)] ord k by (simp add: heap_ordered_def)
next
  fix k assume k: "0 < i" "k < n" "0 < k" "parent k = i"
  have pi: "parent i < n" "parent i \<noteq> i" "k \<noteq> i"
    using k i parent_pos[of i] parent_pos[of k] by linarith+
  have "\<not> less (q ! i) (q ! parent i)" "\<not> less (q ! k) (q ! i)"
    using ord k i by (auto simp: heap_ordered_def)
  then have "\<not> less (q ! k) (q ! parent i)" by (rule notless_trans)
  then show "\<not> lt' (q' ! k) (q' ! parent i)" using same[OF k(2) pi(1,3,2)] by simp
qed

end

subsection \<open>The representation invariant and the content of a heap\<close>

definition heap_wf :: "'a heapData \<Rightarrow> bool" where
  "heap_wf h \<longleftrightarrow> distinct (queue h) \<and> fset (fmdom (items h)) = set (queue h) \<and>
     (\<forall>i<length (queue h). \<exists>it. fmlookup (items h) (queue h ! i) = Some it \<and> index it = i)"

definition heap_content :: "'a heapData \<Rightarrow> (string, 'a) fmap" where
  "heap_content h = fmmap obj (items h)"

definition key_less :: "'a LessFunc \<Rightarrow> (string, 'a) fmap \<Rightarrow> string \<Rightarrow> string \<Rightarrow> bool" where
  "key_less lessFunc c k l = lessFunc (the (fmlookup c k)) (the (fmlookup c l))"

definition heap_inv :: "'a LessFunc \<Rightarrow> 'a heapData \<Rightarrow> bool" where
  "heap_inv lessFunc h \<longleftrightarrow>
     heap_wf h \<and> heap_ordered (key_less lessFunc (heap_content h)) (queue h) (length (queue h))"

lemma heap_wf_lookup:
  "heap_wf h \<Longrightarrow> i < length (queue h) \<Longrightarrow>
   \<exists>x. fmlookup (items h) (queue h ! i) = Some \<lparr>obj = x, index = i\<rparr>"
  unfolding heap_wf_def by (metis heapItem.surjective old.unit.exhaust)

lemma heap_wf_key:
  assumes "heap_wf h" "fmlookup (items h) k = Some it"
  shows "index it < length (queue h)" "queue h ! index it = k"
proof -
  have "k \<in> set (queue h)"
    using assms unfolding heap_wf_def by (metis fmdomI)
  then obtain i where i: "i < length (queue h)" "queue h ! i = k" by (auto simp: in_set_conv_nth)
  with assms have "index it = i" unfolding heap_wf_def by force
  with i show "index it < length (queue h)" "queue h ! index it = k" by auto
qed

lemma heap_wf_content_dom: "heap_wf h \<Longrightarrow> fset (fmdom (heap_content h)) = set (queue h)"
  by (simp add: heap_wf_def heap_content_def)

lemma heap_content_lookup: "fmlookup (heap_content h) k = map_option obj (fmlookup (items h) k)"
  by (simp add: heap_content_def)

lemma Heap_GetByKey_content: "Heap_GetByKey h k = fmlookup (heap_content h) k"
  by (simp add: Heap_GetByKey_def heap_content_lookup)

lemma heapData_Less_wf:
  "heap_wf h \<Longrightarrow> i < length (queue h) \<Longrightarrow> j < length (queue h) \<Longrightarrow>
   heapData_Less lessFunc h i j = Some (key_less lessFunc (heap_content h) (queue h ! i) (queue h ! j))"
  using heap_wf_lookup[of h i] heap_wf_lookup[of h j]
  by (auto simp: heapData_Less_def key_less_def heap_content_lookup)

text \<open>\<open>same_content h h'\<close>: \<open>h'\<close> is well-formed and holds the same objects under the same keys.\<close>

definition same_content :: "'a heapData \<Rightarrow> 'a heapData \<Rightarrow> bool" where
  "same_content h h' \<longleftrightarrow> heap_wf h' \<and> heap_content h' = heap_content h"

lemma heapData_Swap_wf:
  assumes wf: "heap_wf h" and i: "i < length (queue h)" and j: "j < length (queue h)"
  shows "\<exists>h'. heapData_Swap i j h = Some h' \<and> same_content h h' \<and> queue h' = swap_list i j (queue h)"
proof -
  let ?q = "swap_list i j (queue h)"
  obtain x where x: "fmlookup (items h) (queue h ! i) = Some \<lparr>obj = x, index = i\<rparr>"
    using heap_wf_lookup[OF wf i] by blast
  obtain y where y: "fmlookup (items h) (queue h ! j) = Some \<lparr>obj = y, index = j\<rparr>"
    using heap_wf_lookup[OF wf j] by blast
  let ?m1 = "fmupd (queue h ! j) \<lparr>obj = y, index = i\<rparr> (items h)"
  let ?m2 = "fmupd (queue h ! i) \<lparr>obj = x, index = j\<rparr> ?m1"
  have qi: "?q ! i = queue h ! j" and qj: "?q ! j = queue h ! i"
    using i j by (auto simp: nth_swap_list)
  have d: "distinct (queue h)" using wf by (simp add: heap_wf_def)
  have eq: "i = j" if "queue h ! i = queue h ! j" using that d i j by (simp add: nth_eq_iff_index_eq)
  have sw: "heapData_Swap i j h = Some (h\<lparr>queue := ?q, items := ?m2\<rparr>)"
    using i j x y eq by (cases "i = j") (auto simp: heapData_Swap_def set_index_def qi qj Let_def)
  have idx: "\<exists>it. fmlookup ?m2 (?q ! k) = Some it \<and> index it = k" if k: "k < length (queue h)" for k
  proof -
    have "queue h ! k = queue h ! i \<longleftrightarrow> k = i" "queue h ! k = queue h ! j \<longleftrightarrow> k = j"
      using d i j k by (simp_all add: nth_eq_iff_index_eq)
    then show ?thesis
      using k i j eq heap_wf_lookup[OF wf k] nth_swap_list[OF i j k] by auto
  qed
  have dom: "fset (fmdom ?m2) = set ?q"
    using wf i j by (auto simp: heap_wf_def)
  have cont: "fmmap obj ?m2 = fmmap obj (items h)"
  proof -
    have "fmmap obj ?m1 = fmmap obj (items h)" using y by (rule fmmap_fmupd_same) simp
    moreover have "fmlookup ?m1 (queue h ! i) = Some (\<lparr>obj = x, index = i\<rparr>)"
      using x y eq by (cases "i = j") auto
    then have "fmmap obj ?m2 = fmmap obj ?m1" by (rule fmmap_fmupd_same) simp
    ultimately show ?thesis by simp
  qed
  have "same_content h (h\<lparr>queue := ?q, items := ?m2\<rparr>)"
    unfolding same_content_def heap_wf_def heap_content_def
    using d i j idx dom cont by simp
  with sw show ?thesis by simp
qed

lemma heap_up_wf:
  "heap_wf h \<Longrightarrow> j < length (queue h) \<Longrightarrow>
   \<exists>h'. heap_up lessFunc h j = Some h' \<and> same_content h h' \<and>
     queue h' = up_list (key_less lessFunc (heap_content h)) (queue h) j"
proof (induction j arbitrary: h rule: less_induct)
  case (less j)
  let ?lt = "key_less lessFunc (heap_content h)" and ?i = "parent j"
  have i: "?i < length (queue h)" using less.prems parent_le[of j] by linarith
  note Less = heapData_Less_wf[OF less.prems i, of lessFunc]
  show ?case
  proof (cases "j = 0 \<or> \<not> ?lt (queue h ! j) (queue h ! ?i)")
    case True
    then show ?thesis using less.prems Less
      by (subst heap_up.simps, subst up_list.simps) (auto simp: same_content_def Let_def)
  next
    case False
    obtain h1 where h1: "heapData_Swap ?i j h = Some h1" "same_content h h1"
        "queue h1 = swap_list ?i j (queue h)"
      using heapData_Swap_wf[OF less.prems(1) i less.prems(2)] by blast
    have "\<exists>h'. heap_up lessFunc h1 ?i = Some h' \<and> same_content h1 h' \<and>
      queue h' = up_list (key_less lessFunc (heap_content h1)) (queue h1) ?i"
      using less.IH[of ?i h1] h1 i False by (auto simp: same_content_def)
    with False Less h1 show ?thesis
      by (subst heap_up.simps, subst up_list.simps) (auto simp: same_content_def Let_def)
  qed
qed

lemma heap_down_loop_wf:
  "heap_wf h \<Longrightarrow> n \<le> length (queue h) \<Longrightarrow> i < length (queue h) \<Longrightarrow>
   \<exists>h' i'. heap_down_loop lessFunc h i n = Some (h', i') \<and> same_content h h' \<and>
     (queue h', i') = down_list (key_less lessFunc (heap_content h)) (queue h) i n"
proof (induction "n - i" arbitrary: h i rule: less_induct)
  case less
  let ?lt = "key_less lessFunc (heap_content h)"
  let ?j = "min_child ?lt (queue h) i n"
  show ?case
  proof (cases "2 * i + 1 \<ge> n")
    case True
    then show ?thesis using less.prems
      by (subst heap_down_loop.simps, subst down_list.simps) (auto simp: same_content_def)
  next
    case False
    then have n: "2 * i + 1 < n" by simp
    have j: "?j < length (queue h)" "i < ?j"
      using min_child_cases[OF n, of ?lt "queue h"] less.prems by auto
    have right: "heapData_Less lessFunc h (Suc (Suc (2 * i))) (Suc (2 * i)) =
      Some (?lt (queue h ! Suc (Suc (2 * i))) (queue h ! Suc (2 * i)))" if "Suc (Suc (2 * i)) < n"
      using less.prems n that by (simp add: heapData_Less_wf)
    have step: "heapData_Less lessFunc h k i = Some (?lt (queue h ! k) (queue h ! i))" if "k < n" for k
      using less.prems that by (simp add: heapData_Less_wf)
    have unf: "heap_down_loop lessFunc h i n =
      (if \<not> ?lt (queue h ! ?j) (queue h ! i) then Some (h, i)
       else Option.bind (heapData_Swap i ?j h) (\<lambda>h'. heap_down_loop lessFunc h' ?j n))"
      using n right by (subst heap_down_loop.simps) (auto simp: Let_def min_child_def step)
    show ?thesis
    proof (cases "?lt (queue h ! ?j) (queue h ! i)")
      case True
      obtain h1 where h1: "heapData_Swap i ?j h = Some h1" "same_content h h1"
          "queue h1 = swap_list i ?j (queue h)"
        using heapData_Swap_wf[OF less.prems(1,3) j(1)] by blast
      have "\<exists>h' i'. heap_down_loop lessFunc h1 ?j n = Some (h', i') \<and> same_content h1 h' \<and>
        (queue h', i') = down_list (key_less lessFunc (heap_content h1)) (queue h1) ?j n"
        using less.hyps[of ?j h1] h1 j n less.prems by (auto simp: same_content_def)
      with True h1 unf n show ?thesis by (subst down_list.simps) (auto simp: same_content_def)
    next
      case False
      with unf less.prems show ?thesis by (subst down_list.simps) (auto simp: same_content_def)
    qed
  qed
qed

lemma heap_ordered_cong:
  assumes "\<And>k l. k < n \<Longrightarrow> l < n \<Longrightarrow> lt' (q' ! k) (q' ! l) = lt (q ! k) (q ! l)"
  shows "heap_ordered lt' q' n = heap_ordered lt q n"
  using assms parent_le unfolding heap_ordered_def by (meson order_le_less_trans)

lemma heapData_Pop_wf:
  assumes wf: "heap_wf h" and ne: "queue h \<noteq> []"
  shows "\<exists>h' x. heapData_Pop h = Some (h', Some x) \<and> heap_wf h' \<and> queue h' = butlast (queue h) \<and>
    fmlookup (heap_content h) (last (queue h)) = Some x \<and>
    heap_content h' = fmdrop (last (queue h)) (heap_content h)"
proof -
  let ?n = "length (queue h) - 1" and ?k = "last (queue h)"
  have n: "?n < length (queue h)" using ne by (cases "queue h") auto
  have k: "?k = queue h ! ?n" using ne by (simp add: last_conv_nth)
  obtain x where x: "fmlookup (items h) ?k = Some \<lparr>obj = x, index = ?n\<rparr>"
    using heap_wf_lookup[OF wf n] k by auto
  let ?h = "h\<lparr>queue := butlast (queue h), items := fmdrop ?k (items h)\<rparr>"
  have d: "distinct (queue h)" using wf by (simp add: heap_wf_def)
  have app: "queue h = butlast (queue h) @ [?k]" using ne by simp
  have nk: "?k \<notin> set (butlast (queue h))"
    using d by (subst (asm) app) simp
  have "set (queue h) - {?k} = set (butlast (queue h))"
    using nk by (subst app) auto
  then have dom: "fset (fmdom (fmdrop ?k (items h))) = set (butlast (queue h))"
    using wf by (simp add: heap_wf_def)
  have idx: "\<exists>it. fmlookup (fmdrop ?k (items h)) (butlast (queue h) ! i) = Some it \<and> index it = i"
    if i: "i < length (butlast (queue h))" for i
  proof -
    have "butlast (queue h) ! i \<noteq> ?k" using nk nth_mem[OF i] by auto
    moreover have "butlast (queue h) ! i = queue h ! i" using i by (rule nth_butlast)
    moreover have "i < length (queue h)" using i by simp
    ultimately show ?thesis using heap_wf_lookup[OF wf, of i] by auto
  qed
  have "heap_wf ?h"
    unfolding heap_wf_def using d dom idx by (simp add: distinct_butlast)
  moreover have "heap_content ?h = fmdrop ?k (heap_content h)"
    by (rule fmap_ext) (simp add: heap_content_def)
  ultimately show ?thesis
    using ne x by (auto simp: heapData_Pop_def Let_def heap_content_lookup)
qed

context less_order
begin

lemma key_less_order: "less_order (key_less less c)"
  unfolding key_less_def by (rule less_order_image)

lemmas key_up_ordered = less_order.up_list_ordered[OF key_less_order]
lemmas key_down_ordered = less_order.down_list_ordered[OF key_less_order]
lemmas key_hole_of_ordered = less_order.hole_of_ordered[OF key_less_order]
lemmas key_root = less_order.heap_ordered_root[OF key_less_order]

text \<open>Sifting the element at a hole down and, if it did not move, up closes the hole. This is
  the body that \<open>Fix\<close> and \<open>Remove\<close> share.\<close>

lemma sift_closes_hole:
  assumes wf: "heap_wf h" and n: "n \<le> length (queue h)" and i: "i < n"
    and hole: "hole (key_less less (heap_content h)) (queue h) n i"
  shows "\<exists>h1 moved h2. heap_down less h i n = Some (h1, moved) \<and>
    (if moved then Some h1 else heap_up less h1 i) = Some h2 \<and> same_content h h2 \<and>
    length (queue h2) = length (queue h) \<and>
    heap_ordered (key_less less (heap_content h)) (queue h2) n \<and>
    (\<forall>k. n \<le> k \<longrightarrow> k < length (queue h) \<longrightarrow> queue h2 ! k = queue h ! k)"
proof -
  let ?lt = "key_less less (heap_content h)"
  have il: "i < length (queue h)" using i n by simp
  obtain h1 i' where h1: "heap_down_loop less h i n = Some (h1, i')" "same_content h h1"
      "(queue h1, i') = down_list ?lt (queue h) i n"
    using heap_down_loop_wf[OF wf n il] by blast
  have len: "length (queue h1) = length (queue h)" using h1(3) by (metis fst_conv length_down_list)
  have beyond: "queue h1 ! k = queue h ! k" if "n \<le> k" "k < length (queue h)" for k
    using nth_down_list[OF that, of ?lt i] h1(3) by (metis fst_conv)
  note ord = key_down_ordered[OF hole n h1(3)[symmetric]]
  show ?thesis
  proof (cases "i < i'")
    case True
    then show ?thesis using h1 len beyond ord by (auto simp: heap_down_def)
  next
    case False
    with ord have same: "i' = i" "queue h1 = queue h" "children_ok ?lt (queue h) n i" by auto
    have wf1: "heap_wf h1" "heap_content h1 = heap_content h"
      using h1(2) by (auto simp: same_content_def)
    obtain h2 where h2: "heap_up less h1 i = Some h2" "same_content h1 h2"
        "queue h2 = up_list ?lt (queue h) i"
      using heap_up_wf[OF wf1(1), of i less] il same wf1(2) by auto
    have "heap_ordered ?lt (queue h2) n" using key_up_ordered[OF hole same(3) i n] h2(3) by simp
    moreover have "queue h2 ! k = queue h ! k" if "n \<le> k" "k < length (queue h)" for k
      using nth_up_list[of i k "queue h" ?lt] that i h2(3) by simp
    ultimately show ?thesis using False h1 h2 same wf1 by (auto simp: heap_down_def same_content_def)
  qed
qed

lemma heap_Push_inv:
  assumes inv: "heap_inv less h" and k: "fmlookup (heap_content h) key = None"
  shows "\<exists>h'. heap_Push less h key x = Some h' \<and> heap_inv less h' \<and>
    heap_content h' = fmupd key x (heap_content h)"
proof -
  let ?h = "heapData_Push key x h" and ?n = "length (queue h)"
  let ?c = "fmupd key x (heap_content h)"
  have wf: "heap_wf h" using inv by (simp add: heap_inv_def)
  have nk: "key \<notin> set (queue h)" using k heap_wf_content_dom[OF wf] by (metis notin_fmdom_lookup)
  have q: "queue ?h = queue h @ [key]" by (simp add: heapData_Push_def)
  have c: "heap_content ?h = ?c"
    by (rule fmap_ext) (simp add: heap_content_def heapData_Push_def)
  have idx: "\<exists>it. fmlookup (items ?h) (queue ?h ! i) = Some it \<and> index it = i"
    if "i < length (queue ?h)" for i
  proof (cases "i = ?n")
    case False
    then have i: "i < ?n" using that q by simp
    then have "queue h ! i \<noteq> key" using nk nth_mem by fastforce
    then show ?thesis using heap_wf_lookup[OF wf i] i by (auto simp: heapData_Push_def nth_append)
  qed (simp add: heapData_Push_def)
  have wf': "heap_wf ?h"
    unfolding heap_wf_def using wf nk idx by (auto simp: heap_wf_def heapData_Push_def)
  obtain h' where h': "heap_up less ?h ?n = Some h'" "same_content ?h h'"
      "queue h' = up_list (key_less less ?c) (queue ?h) ?n"
    using heap_up_wf[OF wf', of ?n less] q c by auto
  have "hole (key_less less ?c) (queue ?h) (Suc ?n) ?n"
  proof -
    have old: "\<not> key_less less ?c (queue ?h ! j) (queue ?h ! parent j)" if j: "j < ?n" "0 < j" for j
    proof -
      have p: "parent j < ?n" using j parent_pos[of j] by linarith
      then have "queue h ! j \<noteq> key" "queue h ! parent j \<noteq> key" using nk j nth_mem by fastforce+
      then show ?thesis
        using inv j p by (simp add: heap_inv_def heap_ordered_def q nth_append key_less_def)
    qed
    then show ?thesis
      unfolding hole_def using parent_le by (metis less_Suc_eq less_irrefl less_le_not_le parent_pos)
  qed
  moreover have "children_ok (key_less less ?c) (queue ?h) (Suc ?n) ?n"
    by (auto simp: children_ok_def parent_child)
  ultimately have "heap_ordered (key_less less ?c) (queue h') (Suc ?n)"
    using key_up_ordered[of ?c "queue ?h" "Suc ?n" ?n] h'(3) q by simp
  then have "heap_inv less h'"
    using h' c q by (simp add: heap_inv_def same_content_def)
  with h' c show ?thesis by (auto simp: heap_Push_def heapData_Len_def q same_content_def)
qed

lemma heap_Fix_inv:
  assumes inv: "heap_inv less h" and it: "fmlookup (items h) key = Some item"
  shows "\<exists>h'. heap_Fix less (h\<lparr>items := fmupd key (item\<lparr>obj := x\<rparr>) (items h)\<rparr>) (index item) = Some h' \<and>
    heap_inv less h' \<and> heap_content h' = fmupd key x (heap_content h)"
proof -
  let ?h = "h\<lparr>items := fmupd key (item\<lparr>obj := x\<rparr>) (items h)\<rparr>" and ?n = "length (queue h)"
  let ?i = "index item" and ?c = "fmupd key x (heap_content h)"
  have wf: "heap_wf h" using inv by (simp add: heap_inv_def)
  note i = heap_wf_key[OF wf it]
  have c: "heap_content ?h = ?c" by (rule fmap_ext) (simp add: heap_content_def)
  have "key \<in> set (queue h)" using i nth_mem by metis
  moreover have "\<exists>it. fmlookup (items ?h) (queue h ! j) = Some it \<and> index it = j" if "j < ?n" for j
    using heap_wf_lookup[OF wf that] it by (cases "queue h ! j = key") auto
  ultimately have wf': "heap_wf ?h"
    using wf by (auto simp: heap_wf_def)
  have "hole (key_less less (heap_content ?h)) (queue ?h) ?n ?i"
  proof (rule key_hole_of_ordered)
    show "heap_ordered (key_less less (heap_content h)) (queue h) ?n"
      using inv by (simp add: heap_inv_def)
    show "?i < ?n" by (rule i(1))
    fix k l assume kl: "k < ?n" "l < ?n" "k \<noteq> ?i" "l \<noteq> ?i"
    then have "queue h ! k \<noteq> key" "queue h ! l \<noteq> key"
      using i wf by (metis heap_wf_def nth_eq_iff_index_eq)+
    then show "key_less less (heap_content ?h) (queue ?h ! k) (queue ?h ! l) =
      key_less less (heap_content h) (queue h ! k) (queue h ! l)"
      by (simp add: c key_less_def)
  qed
  from sift_closes_hole[OF wf' _ i(1) this]
  obtain h1 moved h2 where "heap_down less ?h ?i ?n = Some (h1, moved)"
      "(if moved then Some h1 else heap_up less h1 ?i) = Some h2" "same_content ?h h2"
      "length (queue h2) = ?n" "heap_ordered (key_less less ?c) (queue h2) ?n"
    by (auto simp: c)
  then show ?thesis by (auto simp: heap_Fix_def heapData_Len_def heap_inv_def same_content_def c)
qed

text \<open>Removing the last position of a heap that is ordered before it.\<close>

lemma pop_last_inv:
  assumes wf: "heap_wf h" and ne: "queue h \<noteq> []"
    and ord: "heap_ordered (key_less less (heap_content h)) (queue h) (length (queue h) - 1)"
  shows "\<exists>h' x. heapData_Pop h = Some (h', Some x) \<and> heap_inv less h' \<and>
    fmlookup (heap_content h) (last (queue h)) = Some x \<and>
    heap_content h' = fmdrop (last (queue h)) (heap_content h)"
proof -
  let ?k = "last (queue h)" and ?n = "length (queue h) - 1"
  obtain h' x where h': "heapData_Pop h = Some (h', Some x)" "heap_wf h'" "queue h' = butlast (queue h)"
      "fmlookup (heap_content h) ?k = Some x" "heap_content h' = fmdrop ?k (heap_content h)"
    using heapData_Pop_wf[OF wf ne] by blast
  have nk: "?k \<notin> set (butlast (queue h))"
  proof -
    have "distinct (butlast (queue h) @ [?k])" using wf ne by (simp add: heap_wf_def)
    then show ?thesis by simp
  qed
  have "heap_ordered (key_less less (heap_content h')) (queue h') ?n =
        heap_ordered (key_less less (heap_content h)) (queue h) ?n"
  proof (rule heap_ordered_cong)
    fix k l assume kl: "k < ?n" "l < ?n"
    have "butlast (queue h) ! m \<noteq> ?k" if "m < ?n" for m
    proof -
      have "butlast (queue h) ! m \<in> set (butlast (queue h))" using that by (intro nth_mem) simp
      with nk show ?thesis by metis
    qed
    then have "butlast (queue h) ! k \<noteq> ?k" "butlast (queue h) ! l \<noteq> ?k" using kl by blast+
    then show "key_less less (heap_content h') (queue h' ! k) (queue h' ! l) =
      key_less less (heap_content h) (queue h ! k) (queue h ! l)"
      using kl h' by (simp add: key_less_def nth_butlast)
  qed
  then have "heap_inv less h'" using ord h' by (simp add: heap_inv_def)
  with h' show ?thesis by blast
qed

lemma heap_Remove_inv:
  assumes inv: "heap_inv less h" and i: "i < length (queue h)"
  shows "\<exists>h' x. heap_Remove less h i = Some (h', Some x) \<and> heap_inv less h' \<and>
    fmlookup (heap_content h) (queue h ! i) = Some x \<and>
    heap_content h' = fmdrop (queue h ! i) (heap_content h)"
proof -
  let ?n = "length (queue h) - 1"
  have wf: "heap_wf h" and ord: "heap_ordered (key_less less (heap_content h)) (queue h) (length (queue h))"
    using inv by (auto simp: heap_inv_def)
  have n: "?n < length (queue h)" and ne: "queue h \<noteq> []" using i by auto
  show ?thesis
  proof (cases "i = ?n")
    case True
    then have "queue h ! i = last (queue h)" using ne by (simp add: last_conv_nth)
    moreover have "heap_ordered (key_less less (heap_content h)) (queue h) ?n"
      using ord by (simp add: heap_ordered_def)
    ultimately show ?thesis
      using pop_last_inv[OF wf ne] True ne by (auto simp: heap_Remove_def heapData_Len_def)
  next
    case False
    then have i': "i < ?n" using i by simp
    obtain h1 where h1: "heapData_Swap i ?n h = Some h1" "same_content h h1"
        "queue h1 = swap_list i ?n (queue h)"
      using heapData_Swap_wf[OF wf i n] by blast
    have wf1: "heap_wf h1" and c1: "heap_content h1 = heap_content h"
      using h1 by (auto simp: same_content_def)
    have "hole (key_less less (heap_content h1)) (queue h1) ?n i"
    proof (rule key_hole_of_ordered[of "heap_content h" "queue h"])
      show "heap_ordered (key_less less (heap_content h)) (queue h) ?n"
        using ord by (simp add: heap_ordered_def)
    qed (use i' n i in \<open>auto simp: h1(3) c1 nth_swap_list\<close>)
    from sift_closes_hole[OF wf1 _ i' this]
    obtain h2 moved h3 where h3: "heap_down less h1 i ?n = Some (h2, moved)"
        "(if moved then Some h2 else heap_up less h2 i) = Some h3" "same_content h1 h3"
        "length (queue h3) = length (queue h)" "heap_ordered (key_less less (heap_content h)) (queue h3) ?n"
        "\<forall>k. ?n \<le> k \<longrightarrow> k < length (queue h) \<longrightarrow> queue h3 ! k = queue h1 ! k"
      using h1(3) c1 by auto
    have wf3: "heap_wf h3" and c3: "heap_content h3 = heap_content h"
      using h3 c1 by (auto simp: same_content_def)
    have ne3: "queue h3 \<noteq> []" using h3(4) ne by auto
    have last: "last (queue h3) = queue h ! i"
      using h3(4,6) ne3 n i by (simp add: last_conv_nth h1(3) nth_swap_list)
    have "heap_Remove less h i = heapData_Pop h3"
      using False ne h1(1) h3(1,2) by (simp add: heap_Remove_def heapData_Len_def)
    then show ?thesis using pop_last_inv[OF wf3 ne3] h3(4,5) last c3 by auto
  qed
qed

text \<open>\<open>Pop\<close> is \<open>Remove\<close> at the root.\<close>

lemma heap_Pop_inv:
  assumes inv: "heap_inv less h" and ne: "queue h \<noteq> []"
  shows "\<exists>h' x. heap_Pop less h = Some (h', Some x) \<and> heap_inv less h' \<and>
    fmlookup (heap_content h) (queue h ! 0) = Some x \<and>
    heap_content h' = fmdrop (queue h ! 0) (heap_content h)"
proof -
  let ?n = "length (queue h) - 1"
  have wf: "heap_wf h" and ord: "heap_ordered (key_less less (heap_content h)) (queue h) (length (queue h))"
    using inv by (auto simp: heap_inv_def)
  have n: "?n < length (queue h)" and z: "0 < length (queue h)" using ne by auto
  obtain h1 where h1: "heapData_Swap 0 ?n h = Some h1" "same_content h h1"
      "queue h1 = swap_list 0 ?n (queue h)"
    using heapData_Swap_wf[OF wf z n] by blast
  have wf1: "heap_wf h1" and c1: "heap_content h1 = heap_content h"
    using h1 by (auto simp: same_content_def)
  have "\<exists>h2 m. heap_down less h1 0 ?n = Some (h2, m) \<and> same_content h1 h2 \<and>
    length (queue h2) = length (queue h) \<and>
    heap_ordered (key_less less (heap_content h)) (queue h2) ?n \<and> queue h2 ! ?n = queue h1 ! ?n"
  proof (cases "?n = 0")
    case True
    then show ?thesis using h1
      by (subst heap_down_def, subst heap_down_loop.simps) (auto simp: heap_ordered_def same_content_def)
  next
    case False
    have "hole (key_less less (heap_content h1)) (queue h1) ?n 0"
    proof (rule key_hole_of_ordered[of "heap_content h" "queue h"])
      show "heap_ordered (key_less less (heap_content h)) (queue h) ?n"
        using ord by (simp add: heap_ordered_def)
    qed (use False z n in \<open>auto simp: h1(3) c1 nth_swap_list\<close>)
    from sift_closes_hole[OF wf1 _ _ this] False h1(3) n
    obtain h2 m h3 where h3: "heap_down less h1 0 ?n = Some (h2, m)"
        "(if m then Some h2 else heap_up less h2 0) = Some h3" "same_content h1 h3"
        "length (queue h3) = length (queue h)"
        "heap_ordered (key_less less (heap_content h1)) (queue h3) ?n" "queue h3 ! ?n = queue h1 ! ?n"
      by auto
    then have "h3 = h2" by (auto simp: heap_up.simps[of less h2 0] Let_def split: if_splits)
    with h3 c1 show ?thesis by auto
  qed
  then obtain h2 m where h2: "heap_down less h1 0 ?n = Some (h2, m)" "same_content h1 h2"
      "length (queue h2) = length (queue h)"
      "heap_ordered (key_less less (heap_content h)) (queue h2) ?n" "queue h2 ! ?n = queue h1 ! ?n"
    by blast
  have wf2: "heap_wf h2" and c2: "heap_content h2 = heap_content h"
    using h2 c1 by (auto simp: same_content_def)
  have ne2: "queue h2 \<noteq> []" using h2(3) ne by auto
  have last: "last (queue h2) = queue h ! 0"
    using h2(3,5) ne2 n z by (simp add: last_conv_nth h1(3) nth_swap_list)
  have "heap_Pop less h = heapData_Pop h2"
    using ne h1(1) h2(1) by (simp add: heap_Pop_def heapData_Len_def)
  then show ?thesis using pop_last_inv[OF wf2 ne2] h2(3,4) last c2 by auto
qed

subsection \<open>What the methods of \<open>Heap\<close> promise\<close>

lemma NewHeap_inv: "heap_inv less NewHeap" "heap_content NewHeap = fmempty"
  by (auto simp: heap_inv_def heap_wf_def heap_ordered_def NewHeap_def heap_content_def)

lemma Heap_Add_inv:
  assumes "heap_inv less h" "keyFunc x = Some k"
  shows "\<exists>h'. Heap_Add keyFunc less h x = Some (h', None) \<and> heap_inv less h' \<and>
    heap_content h' = fmupd k x (heap_content h)"
proof (cases "fmlookup (items h) k")
  case None
  then show ?thesis using heap_Push_inv[OF assms(1), of k x] assms(2)
    by (auto simp: Heap_Add_def heap_content_lookup)
next
  case (Some item)
  then show ?thesis using heap_Fix_inv[OF assms(1) Some, of x] assms(2)
    by (auto simp: Heap_Add_def)
qed

lemma Heap_AddIfNotPresent_inv:
  assumes "heap_inv less h" "keyFunc x = Some k"
  shows "\<exists>h'. Heap_AddIfNotPresent keyFunc less h x = Some (h', None) \<and> heap_inv less h' \<and>
    heap_content h' = (if k |\<in>| fmdom (heap_content h) then heap_content h
                       else fmupd k x (heap_content h))"
proof (cases "fmlookup (items h) k")
  case None
  then show ?thesis using heap_Push_inv[OF assms(1), of k x] assms(2)
    by (auto simp: Heap_AddIfNotPresent_def heap_content_lookup fmlookup_dom_iff)
next
  case (Some item)
  then show ?thesis using assms
    by (auto simp: Heap_AddIfNotPresent_def heap_content_lookup fmlookup_dom_iff)
qed

lemma Heap_Delete_inv:
  assumes "heap_inv less h" "keyFunc x = Some k"
  shows "\<exists>h' e. Heap_Delete keyFunc less h x = Some (h', e) \<and> heap_inv less h' \<and>
    heap_content h' = fmdrop k (heap_content h) \<and> (e = None \<longleftrightarrow> k |\<in>| fmdom (heap_content h))"
proof (cases "fmlookup (items h) k")
  case None
  then show ?thesis using assms
    by (auto simp: Heap_Delete_def fmdrop_absent heap_content_lookup fmlookup_dom_iff)
next
  case (Some item)
  have "heap_wf h" using assms(1) by (simp add: heap_inv_def)
  note i = heap_wf_key[OF this Some]
  show ?thesis using heap_Remove_inv[OF assms(1) i(1)] i(2) assms(2) Some
    by (auto simp: Heap_Delete_def heap_content_lookup fmlookup_dom_iff)
qed

lemma queue_empty_content: "heap_inv less h \<Longrightarrow> queue h = [] \<longleftrightarrow> heap_content h = fmempty"
proof
  assume inv: "heap_inv less h"
  then have dom: "fset (fmdom (heap_content h)) = set (queue h)"
    by (simp add: heap_inv_def heap_wf_content_dom)
  show "heap_content h = fmempty" if "queue h = []"
  proof (rule fmap_ext)
    fix k
    have "k \<notin> fset (fmdom (heap_content h))" unfolding dom that by simp
    then show "fmlookup (heap_content h) k = fmlookup fmempty k" by simp
  qed
  show "queue h = []" if "heap_content h = fmempty" using dom that by simp
qed

lemma heap_min:
  assumes inv: "heap_inv less h" and x: "fmlookup (heap_content h) (queue h ! 0) = Some x"
    and y: "fmlookup (heap_content h) k = Some y"
  shows "\<not> less y x"
proof -
  have "k \<in> set (queue h)"
    using y inv heap_wf_content_dom by (metis fmdomI heap_inv_def)
  then obtain i where i: "i < length (queue h)" "queue h ! i = k" by (auto simp: in_set_conv_nth)
  have "heap_ordered (key_less less (heap_content h)) (queue h) (length (queue h))"
    using inv by (simp add: heap_inv_def)
  from key_root[OF this i(1)] show ?thesis using x y i(2) by (simp add: key_less_def)
qed

lemma Heap_Pop_inv:
  assumes inv: "heap_inv less h" and ne: "heap_content h \<noteq> fmempty"
  shows "\<exists>h' k x. Heap_Pop less h = Some (h', Inr x) \<and> Heap_Peek h = Some (Some x) \<and> heap_inv less h' \<and>
    fmlookup (heap_content h) k = Some x \<and> heap_content h' = fmdrop k (heap_content h) \<and>
    (\<forall>l y. fmlookup (heap_content h) l = Some y \<longrightarrow> \<not> less y x)"
proof -
  have q: "queue h \<noteq> []" using queue_empty_content[OF inv] ne by simp
  obtain h' x where h': "heap_Pop less h = Some (h', Some x)" "heap_inv less h'"
      "fmlookup (heap_content h) (queue h ! 0) = Some x"
      "heap_content h' = fmdrop (queue h ! 0) (heap_content h)"
    using heap_Pop_inv[OF inv q] by blast
  then have "Heap_Pop less h = Some (h', Inr x)" by (simp add: Heap_Pop_def)
  moreover have "Heap_Peek h = Some (Some x)"
    using q h'(3) by (auto simp: Heap_Peek_def heapData_Peek_def heap_content_lookup)
  moreover have "\<forall>l y. fmlookup (heap_content h) l = Some y \<longrightarrow> \<not> less y x"
    using heap_min[OF inv h'(3)] by blast
  ultimately show ?thesis using h' by blast
qed

end

lemma Heap_Peek_empty: "heap_content h = fmempty \<Longrightarrow> heap_wf h \<Longrightarrow> Heap_Peek h = Some None"
  using heap_wf_content_dom[of h] by (simp add: Heap_Peek_def heapData_Peek_def)

lemma Heap_Len_content: "heap_wf h \<Longrightarrow> Heap_Len h = fcard (fmdom (heap_content h))"
  using heap_wf_content_dom[of h]
  by (simp add: Heap_Len_def fcard.rep_eq heap_wf_def distinct_card)

lemma Heap_Add_key_error:
  "keyFunc x = None \<Longrightarrow> Heap_Add keyFunc lessFunc h x = Some (h, Some KeyError)"
  by (simp add: Heap_Add_def)

subsection \<open>Content of the heap under an arbitrary \<open>lessFunc\<close>\<close>

text \<open>Whatever \<open>lessFunc\<close> answers, the methods never panic on a well-formed heap and change its content
  like a map: only the order of the keys depends on \<open>lessFunc\<close>.\<close>

lemma heap_down_wf:
  assumes "heap_wf h" "n \<le> length (queue h)" "i < length (queue h)"
  obtains h' b where "heap_down lessFunc h i n = Some (h', b)" "same_content h h'" "length (queue h') = length (queue h)"
    "\<And>k. n \<le> k \<Longrightarrow> k < length (queue h) \<Longrightarrow> queue h' ! k = queue h ! k"
proof -
  obtain h' i' where h': "heap_down_loop lessFunc h i n = Some (h', i')" "same_content h h'"
    "(queue h', i') = down_list (key_less lessFunc (heap_content h)) (queue h) i n"
    using heap_down_loop_wf[OF assms] by blast
  then have q: "queue h' = fst (down_list (key_less lessFunc (heap_content h)) (queue h) i n)" by (metis fst_conv)
  show ?thesis using h' nth_down_list by (intro that[of h' "i' > i"]) (auto simp: heap_down_def q)
qed

lemma heap_sift_wf:
  assumes "heap_wf h" "n \<le> length (queue h)" "i < n"
  obtains h' where "Option.bind (heap_down lessFunc h i n) (\<lambda>(h1, moved). if moved then Some h1 else heap_up lessFunc h1 i) = Some h'"
    "same_content h h'" "length (queue h') = length (queue h)"
    "\<And>k. n \<le> k \<Longrightarrow> k < length (queue h) \<Longrightarrow> queue h' ! k = queue h ! k"
proof -
  have i: "i < length (queue h)" using assms by simp
  obtain h1 b where h1: "heap_down lessFunc h i n = Some (h1, b)" "same_content h h1" "length (queue h1) = length (queue h)"
    "\<And>k. n \<le> k \<Longrightarrow> k < length (queue h) \<Longrightarrow> queue h1 ! k = queue h ! k"
    using heap_down_wf[OF assms(1,2) i] by blast
  obtain h2 where h2: "heap_up lessFunc h1 i = Some h2" "same_content h1 h2"
    "queue h2 = up_list (key_less lessFunc (heap_content h1)) (queue h1) i"
    using heap_up_wf[of h1 i lessFunc] h1(2,3) i by (auto simp: same_content_def)
  show ?thesis
  proof (cases b)
    case True
    then show ?thesis using h1 by (intro that[of h1]) auto
  next
    case False
    have "queue h2 ! k = queue h ! k" if "n \<le> k" "k < length (queue h)" for k
      using that h1(3,4) nth_up_list[of i k "queue h1"] assms(3) by (simp add: h2(3))
    then show ?thesis using False h1 h2 by (intro that[of h2]) (auto simp: same_content_def)
  qed
qed

lemma heapData_Push_wf:
  assumes wf: "heap_wf h" and k: "fmlookup (items h) k = None"
  shows "heap_wf (heapData_Push k x h)" "heap_content (heapData_Push k x h) = fmupd k x (heap_content h)"
proof -
  have kq: "k \<notin> set (queue h)" using wf k unfolding heap_wf_def by (metis notin_fmdom_lookup)
  show "heap_wf (heapData_Push k x h)" unfolding heap_wf_def
  proof (intro conjI allI impI)
    show "distinct (queue (heapData_Push k x h))" using wf kq by (simp add: heapData_Push_def heap_wf_def)
    show "fset (fmdom (items (heapData_Push k x h))) = set (queue (heapData_Push k x h))"
      using wf by (simp add: heapData_Push_def heap_wf_def)
    fix i assume i: "i < length (queue (heapData_Push k x h))"
    show "\<exists>it. fmlookup (items (heapData_Push k x h)) (queue (heapData_Push k x h) ! i) = Some it \<and> index it = i"
    proof (cases "i < length (queue h)")
      case True
      then have "queue h ! i \<noteq> k" using kq nth_mem by metis
      then show ?thesis using True heap_wf_lookup[OF wf True] by (auto simp: heapData_Push_def nth_append)
    next
      case False
      then have "i = length (queue h)" using i by (simp add: heapData_Push_def)
      then show ?thesis by (simp add: heapData_Push_def)
    qed
  qed
  show "heap_content (heapData_Push k x h) = fmupd k x (heap_content h)"
    by (rule fmap_ext) (simp add: heap_content_def heapData_Push_def)
qed

lemma heap_Push_wf:
  assumes "heap_wf h" "fmlookup (items h) k = None"
  shows "\<exists>h'. heap_Push lessFunc h k x = Some h' \<and> heap_wf h' \<and> heap_content h' = fmupd k x (heap_content h)"
proof -
  note p = heapData_Push_wf[OF assms, of x]
  have "length (queue (heapData_Push k x h)) - 1 < length (queue (heapData_Push k x h))" by (simp add: heapData_Push_def)
  from heap_up_wf[OF p(1) this, of lessFunc] p(2) show ?thesis
    by (auto simp: heap_Push_def Let_def heapData_Len_def same_content_def)
qed

lemma heap_wf_set_obj:
  assumes wf: "heap_wf h" and it: "fmlookup (items h) k = Some it"
  shows "heap_wf (h\<lparr>items := fmupd k (it\<lparr>obj := x\<rparr>) (items h)\<rparr>)"
    "heap_content (h\<lparr>items := fmupd k (it\<lparr>obj := x\<rparr>) (items h)\<rparr>) = fmupd k x (heap_content h)"
proof -
  have kq: "k \<in> set (queue h)" using wf it unfolding heap_wf_def by (metis fmdomI)
  have "fset (fmdom (fmupd k (it\<lparr>obj := x\<rparr>) (items h))) = set (queue h)"
    using wf kq by (auto simp: heap_wf_def)
  moreover have "\<exists>j. fmlookup (fmupd k (it\<lparr>obj := x\<rparr>) (items h)) (queue h ! i) = Some j \<and> index j = i"
    if i: "i < length (queue h)" for i
    using heap_wf_lookup[OF wf i] it by (cases "queue h ! i = k") auto
  ultimately show "heap_wf (h\<lparr>items := fmupd k (it\<lparr>obj := x\<rparr>) (items h)\<rparr>)" using wf by (simp add: heap_wf_def)
  show "heap_content (h\<lparr>items := fmupd k (it\<lparr>obj := x\<rparr>) (items h)\<rparr>) = fmupd k x (heap_content h)"
    by (rule fmap_ext) (simp add: heap_content_def)
qed

lemma Heap_Add_wf:
  assumes "heap_wf h" "keyFunc x = Some k"
  shows "\<exists>h'. Heap_Add keyFunc lessFunc h x = Some (h', None) \<and> heap_wf h' \<and> heap_content h' = fmupd k x (heap_content h)"
proof (cases "fmlookup (items h) k")
  case None
  then show ?thesis using heap_Push_wf[OF assms(1) None, of lessFunc x] assms(2) by (auto simp: Heap_Add_def)
next
  case (Some it)
  let ?h = "h\<lparr>items := fmupd k (it\<lparr>obj := x\<rparr>) (items h)\<rparr>"
  note w = heap_wf_set_obj[OF assms(1) Some, of x] and i = heap_wf_key[OF assms(1) Some]
  have i': "index it < length (queue ?h)" using i(1) by simp
  obtain h' where "heap_Fix lessFunc ?h (index it) = Some h'" "same_content ?h h'"
    using heap_sift_wf[OF w(1) order_refl i', of lessFunc] by (auto simp: heap_Fix_def heapData_Len_def)
  then show ?thesis using Some assms(2) w(2) by (auto simp: Heap_Add_def same_content_def)
qed

lemma last_swap: "i < length q \<Longrightarrow> q \<noteq> [] \<Longrightarrow> last (swap_list i (length q - 1) q) = q ! i"
  by (simp add: last_conv_nth nth_swap_list swap_list_def)

lemma heap_Remove_wf:
  assumes wf: "heap_wf h" and i: "i < length (queue h)"
  shows "\<exists>h' x. heap_Remove lessFunc h i = Some (h', Some x) \<and> heap_wf h' \<and>
    fmlookup (heap_content h) (queue h ! i) = Some x \<and> heap_content h' = fmdrop (queue h ! i) (heap_content h)"
proof -
  let ?n = "length (queue h) - 1"
  have ne: "queue h \<noteq> []" using i by auto
  have "\<exists>h2. (if ?n = i then Some h else Option.bind (heapData_Swap i ?n h) (\<lambda>h1.
      Option.bind (heap_down lessFunc h1 i ?n) (\<lambda>(h2, moved). if moved then Some h2 else heap_up lessFunc h2 i))) = Some h2 \<and>
    same_content h h2 \<and> queue h2 \<noteq> [] \<and> last (queue h2) = queue h ! i"
  proof (cases "?n = i")
    case True
    then show ?thesis using wf ne by (auto simp: same_content_def last_conv_nth)
  next
    case False
    have n: "?n < length (queue h)" "i < ?n" using i False by auto
    obtain h1 where h1: "heapData_Swap i ?n h = Some h1" "same_content h h1" "queue h1 = swap_list i ?n (queue h)"
      using heapData_Swap_wf[OF wf i n(1)] by blast
    have w1: "heap_wf h1" "?n \<le> length (queue h1)" using h1 by (auto simp: same_content_def)
    obtain h2 where h2: "Option.bind (heap_down lessFunc h1 i ?n) (\<lambda>(h2, moved). if moved then Some h2 else heap_up lessFunc h2 i) = Some h2"
      "same_content h1 h2" "length (queue h2) = length (queue h1)"
      "\<And>k. ?n \<le> k \<Longrightarrow> k < length (queue h1) \<Longrightarrow> queue h2 ! k = queue h1 ! k"
      using heap_sift_wf[OF w1 n(2), of lessFunc] by blast
    have ne2: "queue h2 \<noteq> []" using h2(3) h1(3) ne by auto
    have "last (queue h2) = queue h2 ! ?n" using ne2 h2(3) h1(3) by (simp add: last_conv_nth)
    also have "\<dots> = queue h1 ! ?n" using h2(4)[of ?n] n(1) h1(3) by simp
    also have "\<dots> = queue h ! i" using i n(1) by (simp add: h1(3) nth_swap_list)
    finally show ?thesis using False h1 h2 ne2 by (auto simp: same_content_def)
  qed
  then obtain h2 where h2: "(if ?n = i then Some h else Option.bind (heapData_Swap i ?n h) (\<lambda>h1.
      Option.bind (heap_down lessFunc h1 i ?n) (\<lambda>(h2, moved). if moved then Some h2 else heap_up lessFunc h2 i))) = Some h2"
    "same_content h h2" "queue h2 \<noteq> []" "last (queue h2) = queue h ! i" by blast
  have "heap_Remove lessFunc h i = heapData_Pop h2"
    unfolding heap_Remove_def heapData_Len_def Let_def h2(1) using ne by simp
  with heapData_Pop_wf[of h2] h2 show ?thesis by (auto simp: same_content_def)
qed

lemma Heap_Delete_wf:
  assumes "heap_wf h" "keyFunc x = Some k"
  shows "\<exists>h' e. Heap_Delete keyFunc lessFunc h x = Some (h', e) \<and> heap_wf h' \<and>
    heap_content h' = fmdrop k (heap_content h) \<and> (e = None \<longleftrightarrow> fmlookup (heap_content h) k \<noteq> None)"
proof (cases "fmlookup (items h) k")
  case None
  then show ?thesis using assms by (auto simp: Heap_Delete_def fmdrop_absent heap_content_lookup)
next
  case (Some it)
  note i = heap_wf_key[OF assms(1) Some]
  show ?thesis using heap_Remove_wf[OF assms(1) i(1), of lessFunc] i(2) assms(2) Some
    by (auto simp: Heap_Delete_def heap_content_lookup)
qed

lemma heap_wf_empty: "heap_wf h \<Longrightarrow> queue h = [] \<longleftrightarrow> heap_content h = fmempty"
proof
  assume wf: "heap_wf h"
  note dom = heap_wf_content_dom[OF wf]
  show "heap_content h = fmempty" if "queue h = []"
    using dom that by (intro fmap_ext) (metis empty_iff empty_set fmempty_lookup notin_fmdom_lookup)
  show "queue h = []" if "heap_content h = fmempty" using dom that by simp
qed

lemma Heap_Pop_wf:
  assumes wf: "heap_wf h" and ne: "heap_content h \<noteq> fmempty"
  shows "\<exists>h' x. Heap_Pop lessFunc h = Some (h', Inr x) \<and> Heap_Peek h = Some (Some x) \<and> heap_wf h' \<and>
    fmlookup (heap_content h) (queue h ! 0) = Some x \<and> heap_content h' = fmdrop (queue h ! 0) (heap_content h)"
proof -
  have q: "queue h \<noteq> []" using heap_wf_empty[OF wf] ne by simp
  let ?n = "length (queue h) - 1"
  have l: "0 < length (queue h)" "?n < length (queue h)" using q by auto
  obtain h1 where h1: "heapData_Swap 0 ?n h = Some h1" "same_content h h1" "queue h1 = swap_list 0 ?n (queue h)"
    using heapData_Swap_wf[OF wf l] by blast
  have w1: "heap_wf h1" "?n \<le> length (queue h1)" "0 < length (queue h1)" using h1 l by (auto simp: same_content_def)
  obtain h2 b where h2: "heap_down lessFunc h1 0 ?n = Some (h2, b)" "same_content h1 h2" "length (queue h2) = length (queue h1)"
    "\<And>k. ?n \<le> k \<Longrightarrow> k < length (queue h1) \<Longrightarrow> queue h2 ! k = queue h1 ! k"
    using heap_down_wf[OF w1] by blast
  have ne2: "queue h2 \<noteq> []" using h2(3) w1(3) by auto
  have "last (queue h2) = queue h2 ! ?n" using ne2 h2(3) h1(3) by (simp add: last_conv_nth)
  also have "\<dots> = queue h1 ! ?n" using h2(4)[of ?n] l(2) h1(3) by simp
  also have "\<dots> = queue h ! 0" using l by (simp add: h1(3) nth_swap_list)
  finally have last: "last (queue h2) = queue h ! 0" .
  have "heap_Pop lessFunc h = heapData_Pop h2" using q h1(1) h2(1) by (simp add: heap_Pop_def heapData_Len_def)
  moreover obtain h' x where "heapData_Pop h2 = Some (h', Some x)" "heap_wf h'"
      "fmlookup (heap_content h) (queue h ! 0) = Some x" "heap_content h' = fmdrop (queue h ! 0) (heap_content h)"
    using heapData_Pop_wf[of h2] h1(2) h2(2) ne2 last by (auto simp: same_content_def)
  ultimately show ?thesis
    using q by (auto simp: Heap_Pop_def Heap_Peek_def heapData_Peek_def heap_content_lookup)
qed

subsection \<open>The interface the queues rely on\<close>

text \<open>
  \<open>keyed_heap\<close> is what a client may assume of a heap when nothing is known about the ordering
  function: the operations act on the content as on a map. \<open>keyed_pq\<close> adds the order: \<open>pop\<close> returns
  an object that nothing in the heap precedes.
\<close>

text \<open>Popping \<open>n\<close> objects in a row, as a client that empties the heap does.\<close>

fun pop_many :: "('h \<Rightarrow> ('h \<times> (heap_error + 'a)) option) \<Rightarrow> nat \<Rightarrow> 'h \<Rightarrow> ('a list \<times> 'h) option" where
  "pop_many pop 0 h = Some ([], h)"
| "pop_many pop (Suc n) h = (case pop h of
     Some (h', Inr x) \<Rightarrow> map_option (\<lambda>(xs, h2). (x # xs, h2)) (pop_many pop n h')
   | _ \<Rightarrow> None)"

locale keyed_heap =
  fixes wf :: "'h \<Rightarrow> bool" and content :: "'h \<Rightarrow> (string, 'a) fmap" and key :: "'a \<Rightarrow> string option"
    and add :: "'h \<Rightarrow> 'a \<Rightarrow> ('h \<times> heap_error option) option"
    and delete :: "'h \<Rightarrow> 'a \<Rightarrow> ('h \<times> heap_error option) option"
    and pop :: "'h \<Rightarrow> ('h \<times> (heap_error + 'a)) option"
  assumes add_content: "\<lbrakk>wf h; key x = Some k\<rbrakk> \<Longrightarrow>
      \<exists>h'. add h x = Some (h', None) \<and> wf h' \<and> content h' = fmupd k x (content h)"
    and delete_content: "\<lbrakk>wf h; key x = Some k\<rbrakk> \<Longrightarrow>
      \<exists>h' e. delete h x = Some (h', e) \<and> wf h' \<and> content h' = fmdrop k (content h) \<and>
        (e = None \<longleftrightarrow> fmlookup (content h) k \<noteq> None)"
    and pop_content: "\<lbrakk>wf h; content h \<noteq> fmempty\<rbrakk> \<Longrightarrow>
      \<exists>h' k x. pop h = Some (h', Inr x) \<and> wf h' \<and> fmlookup (content h) k = Some x \<and> content h' = fmdrop k (content h)"
begin

lemma add_delete:
  assumes "wf h" "key x = Some k" "fmlookup (content h) k = None"
  shows "\<exists>h1 h2. add h x = Some (h1, None) \<and> delete h1 x = Some (h2, None) \<and> wf h2 \<and> content h2 = content h"
proof -
  obtain h1 where h1: "add h x = Some (h1, None)" "wf h1" "content h1 = fmupd k x (content h)"
    using add_content[OF assms(1,2)] by blast
  with delete_content[OF h1(2) assms(2)] assms(3) show ?thesis by (auto simp: fmdrop_fmupd_absent)
qed

lemma drain_all:
  "wf h \<Longrightarrow> fcard (fmdom (content h)) = n \<Longrightarrow>
   \<exists>xs h'. pop_many pop n h = Some (xs, h') \<and> wf h' \<and> content h' = fmempty \<and>
     set xs = {x. \<exists>k. fmlookup (content h) k = Some x} \<and> length xs = n"
proof (induction n arbitrary: h)
  case 0
  then have "content h = fmempty" by (metis fcard_0_eq fmdom_empty fmrestrict_fset_dom fmrestrict_fset_null)
  with 0 show ?case by auto
next
  case (Suc n)
  then have "content h \<noteq> fmempty" by (auto simp: fcard.rep_eq)
  then obtain h' k x where h': "pop h = Some (h', Inr x)" "wf h'" "fmlookup (content h) k = Some x"
    "content h' = fmdrop k (content h)" using pop_content Suc.prems(1) by blast
  have "fcard (fmdom (content h')) = n"
    using Suc.prems(2) h'(3,4) by (simp add: fcard.rep_eq)
  from Suc.IH[OF h'(2) this] obtain xs h2 where x: "pop_many pop n h' = Some (xs, h2)" "wf h2" "content h2 = fmempty"
    "set xs = {x. \<exists>k. fmlookup (content h') k = Some x}" "length xs = n" by blast
  have "insert x (set xs) = {x. \<exists>k. fmlookup (content h) k = Some x}"
  proof (intro set_eqI iffI; clarsimp)
    fix y assume "y = x \<or> y \<in> set xs"
    then show "\<exists>k. fmlookup (content h) k = Some y" using h'(3) by (auto simp: x(4) h'(4) split: if_splits)
  next
    fix y l assume "fmlookup (content h) l = Some y" "y \<notin> set xs"
    moreover from this(2) have "fmlookup (content h') l \<noteq> Some y" by (auto simp: x(4))
    ultimately show "y = x" using h'(3) by (cases "l = k") (auto simp: h'(4))
  qed
  with x(1,2,3,5) h'(1) show ?case by (intro exI[of _ "x # xs"] exI[of _ h2]) simp
qed

end

locale keyed_pq = keyed_heap wf content key add delete pop
  for wf :: "'h \<Rightarrow> bool" and content :: "'h \<Rightarrow> (string, 'a) fmap" and key add delete pop +
  fixes less :: "'a \<Rightarrow> 'a \<Rightarrow> bool"
  assumes pop_min: "\<lbrakk>wf h; pop h = Some (h', Inr x); fmlookup (content h) l = Some y\<rbrakk> \<Longrightarrow> \<not> less y x"
begin

lemma drain_sorted:
  "wf h \<Longrightarrow> fcard (fmdom (content h)) = n \<Longrightarrow> pop_many pop n h = Some (xs, h') \<Longrightarrow> sorted_wrt (\<lambda>x y. \<not> less y x) xs"
proof (induction n arbitrary: h xs)
  case (Suc n)
  then have "content h \<noteq> fmempty" by (auto simp: fcard.rep_eq)
  then obtain h1 k x where h1: "pop h = Some (h1, Inr x)" "wf h1" "fmlookup (content h) k = Some x"
    "content h1 = fmdrop k (content h)" using pop_content Suc.prems(1) by blast
  have c: "fcard (fmdom (content h1)) = n" using Suc.prems(2) h1(3,4) by (simp add: fcard.rep_eq)
  obtain ys where ys: "pop_many pop n h1 = Some (ys, h')" "xs = x # ys" using Suc.prems(3) h1(1) by auto
  have "set ys = {y. \<exists>k. fmlookup (content h1) k = Some y}" using drain_all[OF h1(2) c] ys(1) by auto
  then have "\<not> less y x" if "y \<in> set ys" for y
    using that pop_min[OF Suc.prems(1) h1(1)] h1(4) by (auto split: if_splits)
  with Suc.IH[OF h1(2) c ys(1)] show ?case by (simp add: ys(2))
qed simp

end

interpretation kh: keyed_heap heap_wf heap_content keyFunc "Heap_Add keyFunc lessFunc" "Heap_Delete keyFunc lessFunc"
    "Heap_Pop lessFunc" for keyFunc :: "'a KeyFunc" and lessFunc :: "'a LessFunc"
proof unfold_locales
  fix h :: "'a heapData"
  show "\<exists>h' k x. Heap_Pop lessFunc h = Some (h', Inr x) \<and> heap_wf h' \<and> fmlookup (heap_content h) k = Some x \<and>
      heap_content h' = fmdrop k (heap_content h)" if "heap_wf h" "heap_content h \<noteq> fmempty"
    using Heap_Pop_wf[OF that, of lessFunc] by blast
qed (fact Heap_Add_wf Heap_Delete_wf)+

context less_order
begin

lemma heap_is_pq: "keyed_pq (heap_inv less) heap_content keyFunc (Heap_Add keyFunc less) (Heap_Delete keyFunc less) (Heap_Pop less) less"
proof unfold_locales
  show "\<exists>h'. Heap_Add keyFunc less h x = Some (h', None) \<and> heap_inv less h' \<and> heap_content h' = fmupd k x (heap_content h)"
    if "heap_inv less h" "keyFunc x = Some k" for h x k using that by (rule Heap_Add_inv)
  show "\<exists>h' e. Heap_Delete keyFunc less h x = Some (h', e) \<and> heap_inv less h' \<and> heap_content h' = fmdrop k (heap_content h) \<and>
      (e = None \<longleftrightarrow> fmlookup (heap_content h) k \<noteq> None)" if "heap_inv less h" "keyFunc x = Some k" for h x k
    using Heap_Delete_inv[of h keyFunc x k] that by simp
  show "\<exists>h' k x. Heap_Pop less h = Some (h', Inr x) \<and> heap_inv less h' \<and> fmlookup (heap_content h) k = Some x \<and>
      heap_content h' = fmdrop k (heap_content h)" if "heap_inv less h" "heap_content h \<noteq> fmempty" for h
    using Heap_Pop_inv[OF that] by blast
  show "\<not> less y x" if "heap_inv less h" "Heap_Pop less h = Some (h', Inr x)" "fmlookup (heap_content h) l = Some y" for h h' x l y
  proof -
    have "heap_content h \<noteq> fmempty" using that(3) by auto
    from Heap_Pop_inv[OF that(1) this] that(2,3) show ?thesis by auto
  qed
qed

end

subsection \<open>Properties\<close>

text \<open>
  C34. For any ordering function, the heap behaves like a map. On a well-formed heap (every key once in the queue, at the position its item records) and for an object that has a key, \<open>Add\<close> inserts
  or overwrites the entry of the key and \<open>Delete\<close> drops it and reports whether it was there. \<open>Pop\<close> removes one of the
  objects of a heap that is not empty and returns it. None of these panics, and all keep the heap well formed. \<open>Pop\<close> on the empty heap panics.
\<close>

theorem Heap_operations:
  assumes "heap_wf h" "keyFunc x = Some k"
  shows "(\<exists>h'. Heap_Add keyFunc lessFunc h x = Some (h', None) \<and> heap_wf h' \<and> heap_content h' = fmupd k x (heap_content h)) \<and>
    (\<exists>h' e. Heap_Delete keyFunc lessFunc h x = Some (h', e) \<and> heap_wf h' \<and> heap_content h' = fmdrop k (heap_content h) \<and>
       (e = None \<longleftrightarrow> Heap_GetByKey h k \<noteq> None)) \<and>
    (heap_content h \<noteq> fmempty \<longrightarrow> (\<exists>h' l y. Heap_Pop lessFunc h = Some (h', Inr y) \<and> heap_wf h' \<and>
       Heap_GetByKey h l = Some y \<and> heap_content h' = fmdrop l (heap_content h))) \<and>
    (heap_content h = fmempty \<longrightarrow> Heap_Pop lessFunc h = None)"
proof -
  have "Heap_Pop lessFunc h = None" if "heap_content h = fmempty"
    using heap_wf_empty[OF assms(1)] that by (simp add: Heap_Pop_def heap_Pop_def heapData_Len_def)
  then show ?thesis
    using kh.add_content[OF assms(1), of keyFunc x k lessFunc] kh.delete_content[OF assms(1), of keyFunc x k lessFunc]
      kh.pop_content[OF assms(1), of lessFunc] assms(2)
    by (simp add: Heap_GetByKey_content)
qed

theorem Heap_operations_witness:
  "\<exists>h h1 h2 h3. Heap_Add (\<lambda>x. Some x) (\<lambda>a b. length a < length b) NewHeap ''pod'' = Some (h, None) \<and>
     Heap_Add (\<lambda>x. Some x) (\<lambda>a b. length a < length b) h ''node'' = Some (h1, None) \<and>
     Heap_Delete (\<lambda>x. Some x) (\<lambda>a b. length a < length b) h1 ''node'' = Some (h2, None) \<and> heap_content h2 = heap_content h \<and>
     Heap_Pop (\<lambda>a b. length a < length b) h2 = Some (h3, Inr ''pod'') \<and> Heap_Pop (\<lambda>a b. length a < length b) h3 = None"
proof -
  let ?k = "\<lambda>x :: string. Some x" and ?lt = "\<lambda>a b :: string. length a < length b"
  have w: "heap_wf (NewHeap :: string heapData)" "heap_content (NewHeap :: string heapData) = fmempty"
    by (simp_all add: heap_wf_def NewHeap_def heap_content_def)
  obtain h where h: "Heap_Add ?k ?lt NewHeap ''pod'' = Some (h, None)" "heap_wf h" "heap_content h = fmupd ''pod'' ''pod'' fmempty"
    using Heap_operations[OF w(1), of ?k "''pod''" "''pod''" ?lt] w(2) by auto
  obtain h1 where h1: "Heap_Add ?k ?lt h ''node'' = Some (h1, None)" "heap_wf h1" "heap_content h1 = fmupd ''node'' ''node'' (heap_content h)"
    using Heap_operations[OF h(2), of ?k "''node''" "''node''" ?lt] by auto
  have "Heap_GetByKey h1 ''node'' \<noteq> None" by (simp add: Heap_GetByKey_content h1(3))
  then obtain h2 where h2: "Heap_Delete ?k ?lt h1 ''node'' = Some (h2, None)" "heap_wf h2" "heap_content h2 = fmdrop ''node'' (heap_content h1)"
    using Heap_operations[OF h1(2), of ?k "''node''" "''node''" ?lt] by auto
  have c2: "heap_content h2 = heap_content h" unfolding h2(3) h1(3) h(3) by (rule fmap_ext) auto
  have ne: "heap_content h2 \<noteq> fmempty" by (simp add: c2 h(3))
  obtain h3 l y where h3: "Heap_Pop ?lt h2 = Some (h3, Inr y)" "heap_wf h3" "Heap_GetByKey h2 l = Some y" "heap_content h3 = fmdrop l (heap_content h2)"
    using Heap_operations[OF h2(2), of ?k "''pod''" "''pod''" ?lt] ne by blast
  have y: "l = ''pod'' \<and> y = ''pod''" using h3(3) by (simp add: Heap_GetByKey_content c2 h(3) split: if_splits)
  have "heap_content h3 = fmempty" unfolding h3(4) c2 h(3) using y by (auto intro: fmap_ext)
  then have "Heap_Pop ?lt h3 = None" using Heap_operations[OF h3(2), of ?k "''pod''" "''pod''" ?lt] by blast
  then show ?thesis using h(1) h1(1) h2(1) c2 h3(1) y by blast
qed

text \<open>
  C35. With an ordering function that is a strict weak order, popping everything from a heap returns
  every object once, in an order in which no object precedes an earlier one.
\<close>

theorem Heap_pops_in_order:
  assumes order: "less_order lt" and inv: "heap_inv lt h"
  shows "\<exists>xs h'. pop_many (Heap_Pop lt) (Heap_Len h) h = Some (xs, h') \<and> length xs = Heap_Len h \<and>
    set xs = {x. \<exists>k. Heap_GetByKey h k = Some x} \<and> sorted_wrt (\<lambda>x y. \<not> lt y x) xs"
proof -
  have wf: "heap_wf h" using inv by (simp add: heap_inv_def)
  note n = Heap_Len_content[OF wf, symmetric]
  have pq: "keyed_pq (heap_inv lt) heap_content (\<lambda>_. None) (Heap_Add (\<lambda>_. None) lt) (Heap_Delete (\<lambda>_. None) lt) (Heap_Pop lt) lt"
    by (rule less_order.heap_is_pq[OF order])
  obtain xs h' where d: "pop_many (Heap_Pop lt) (Heap_Len h) h = Some (xs, h')" "length xs = Heap_Len h"
    "set xs = {x. \<exists>k. Heap_GetByKey h k = Some x}"
    using kh.drain_all[OF wf n, of lt] by (auto simp: Heap_GetByKey_content)
  have "sorted_wrt (\<lambda>x y. \<not> lt y x) xs" by (rule keyed_pq.drain_sorted[OF pq inv n d(1)])
  with d show ?thesis by blast
qed

theorem Heap_pops_in_order_witness:
  "\<exists>h xs h'. Heap_Add Some (\<lambda>a b. length a < length b) NewHeap ''pod'' = Some (h, None) \<and>
     pop_many (Heap_Pop (\<lambda>a b. length a < length b)) (Heap_Len h) h = Some (xs, h') \<and> set xs = {''pod''} \<and>
     sorted_wrt (\<lambda>x y. \<not> length y < length x) xs"
proof -
  have o: "less_order (\<lambda>a b. length a < length (b :: string))" by unfold_locales auto
  note n = less_order.NewHeap_inv[OF o]
  obtain h where h: "Heap_Add Some (\<lambda>a b. length a < length b) NewHeap ''pod'' = Some (h, None)"
    "heap_inv (\<lambda>a b. length a < length b) h" "heap_content h = fmupd ''pod'' ''pod'' (heap_content NewHeap)"
    using less_order.Heap_Add_inv[OF o n(1), of Some "''pod''" "''pod''"] by auto
  have "{x. \<exists>k. Heap_GetByKey h k = Some x} = {''pod''}" using h(3) by (auto simp: n(2) Heap_GetByKey_content split: if_splits)
  with Heap_pops_in_order[OF o h(2)] h(1) show ?thesis by auto
qed

end
