(* ===== verification/Sched_Util.thy ===== *)
theory Sched_Util
  imports Resource_Model Key_Heap
begin

text \<open>
  The helpers of \<open>pkg/scheduler/util/utils.go\<close> on pods, with the time values of Go's \<open>time\<close>
  package.

  A \<open>time.Time\<close> is the number of nanoseconds since the zero time, an integer: the zero value of the
  type is 0. A \<open>time.Duration\<close> is an \<open>int64\<close> number of nanoseconds. \<open>Time.Sub\<close> saturates at the
  extreme durations. The feature gate \<open>PodPriority\<close> is taken to be on.
\<close>

subsection \<open>Times\<close>

type_synonym Time = int
type_synonym Duration = int64

definition time_Add :: "Time \<Rightarrow> Duration \<Rightarrow> Time" where
  "time_Add t d = t + sint d"

definition time_Sub :: "Time \<Rightarrow> Time \<Rightarrow> Duration" where
  "time_Sub t u = word_of_int (max (- (2 ^ 63)) (min (2 ^ 63 - 1) (t - u)))"

definition Before :: "Time \<Rightarrow> Time \<Rightarrow> bool" where
  "Before t u \<longleftrightarrow> t < u"

definition After :: "Time \<Rightarrow> Time \<Rightarrow> bool" where
  "After t u \<longleftrightarrow> u < t"

definition Second :: Duration where
  "Second = 1000000000"

lemma sint_in_range: "- (2 ^ 63) \<le> x \<Longrightarrow> x < 2 ^ 63 \<Longrightarrow> sint (word_of_int x :: int64) = x"
  by (simp add: signed_of_int signed_take_bit_int_eq_self)

lemma sint_time_Sub: "sint (time_Sub t u) = max (- (2 ^ 63)) (min (2 ^ 63 - 1) (t - u))"
  unfolding time_Sub_def by (rule sint_in_range) auto

text \<open>Although it saturates, \<open>Sub\<close> compares correctly with every duration below the largest one.\<close>

lemma time_Sub_greater: "d <s time_Sub t u \<longleftrightarrow> sint d < t - u \<and> sint d < 2 ^ 63 - 1"
proof -
  have "- (2 ^ 63) \<le> sint d" using sint_greater_eq[of d] by simp
  then show ?thesis by (auto simp: word_sless_alt sint_time_Sub)
qed

subsection \<open>Pods\<close>

definition GetContainerPorts :: "Pod list \<Rightarrow> ContainerPort list" where
  "GetContainerPorts pods = concat (map (\<lambda>pod. concat (map Ports (pod_Containers pod))) pods)"

definition GetPodFullName :: "Pod \<Rightarrow> string" where
  "GetPodFullName pod = pod_Name pod @ ''_'' @ pod_Namespace pod"

definition GetPodPriority :: "Pod \<Rightarrow> int32" where
  "GetPodPriority pod = (case pod_Priority pod of Some p \<Rightarrow> p | None \<Rightarrow> 0)"

definition HigherPriorityPod :: "Pod \<Rightarrow> Pod \<Rightarrow> bool" where
  "HigherPriorityPod pod1 pod2 \<longleftrightarrow> GetPodPriority pod2 <s GetPodPriority pod1"

definition SelfPoolHasHigherPriorityFunc :: "string \<Rightarrow> Pod LessFunc" where
  "SelfPoolHasHigherPriorityFunc poolName pod1 pod2 =
     (let pool1 = GetPodAnnotationsPoolName pod1; pool2 = GetPodAnnotationsPoolName pod2 in
      if pool1 = poolName \<and> pool2 \<noteq> poolName then True
      else if pool1 \<noteq> poolName \<and> pool2 = poolName then False
      else GetPodPriority pod2 <s GetPodPriority pod1)"

definition ResponsibleForPod :: "Pod \<Rightarrow> string \<Rightarrow> bool" where
  "ResponsibleForPod pod schedulerName \<longleftrightarrow> schedulerName = pod_SchedulerName pod"

subsection \<open>The orders are strict weak orders\<close>

lemma word_sless_asym: "a <s b \<Longrightarrow> \<not> b <s a" for a b :: "'a :: len word"
  by (simp add: word_sless_alt)

interpretation hp: less_order HigherPriorityPod
  by unfold_locales (auto simp: HigherPriorityPod_def word_sless_alt)

interpretation sp: less_order "SelfPoolHasHigherPriorityFunc poolName" for poolName
  by unfold_locales (auto simp: SelfPoolHasHigherPriorityFunc_def word_sless_alt Let_def split: if_splits)

subsection \<open>Pod identities\<close>

text \<open>Pods are identified by namespace and name. Names and namespaces of API objects are DNS names:
  they contain neither \<open>_\<close> nor \<open>/\<close>, which makes the keys the queues use unambiguous.\<close>

type_synonym pod_id = "string \<times> string"

definition id_of :: "Pod \<Rightarrow> pod_id" where
  "id_of pod = (pod_Namespace pod, pod_Name pod)"

definition dns_name :: "string \<Rightarrow> bool" where
  "dns_name s \<longleftrightarrow> CHR ''_'' \<notin> set s \<and> CHR ''/'' \<notin> set s"

definition valid_pod :: "Pod \<Rightarrow> bool" where
  "valid_pod pod \<longleftrightarrow> dns_name (pod_Name pod) \<and> dns_name (pod_Namespace pod)"

lemma append_sep_inject:
  assumes "c \<notin> set a" "c \<notin> set a'"
  shows "a @ c # b = a' @ c # b' \<longleftrightarrow> a = a' \<and> b = b'"
  using assms
proof (induction a arbitrary: a')
  case Nil
  then show ?case by (cases a') auto
next
  case (Cons x a)
  then show ?case by (cases a') auto
qed

lemma GetPodFullName_inject:
  "valid_pod p \<Longrightarrow> valid_pod q \<Longrightarrow> GetPodFullName p = GetPodFullName q \<longleftrightarrow> id_of p = id_of q"
  by (auto simp: GetPodFullName_def valid_pod_def dns_name_def id_of_def append_sep_inject)

end
