(* ===== verification/Pod_Backoff.thy ===== *)
theory Pod_Backoff
  imports Sched_Util
begin

text \<open>
  The per-pod back-off of \<open>pkg/scheduler/util/backoff_utils.go\<close>: a heap of entries ordered by the
  time of their last update. The clock is an argument \<open>now\<close> of the methods that read it. An entry is
  shared between the heap and the method that got it from there, so the writes to \<open>entry.backoff\<close>
  and \<open>entry.initialized\<close> change the object inside the heap; \<open>poke_entry\<close> is that write.
  \<open>TryBackoffAndWait\<close> is modelled up to the point where it releases the mutex and waits.
\<close>

subsection \<open>Entries\<close>

record NamespacedName =
  nn_Namespace :: string
  nn_Name :: string

record backoffEntry =
  initialized :: bool
  podName :: NamespacedName
  backoff :: Duration
  lastUpdate :: Time
  reqInFlight :: int32

definition tryLock :: "backoffEntry \<Rightarrow> backoffEntry \<times> bool" where
  "tryLock b = (if reqInFlight b = 0 then (b\<lparr>reqInFlight := 1\<rparr>, True) else (b, False))"

definition unlock :: "backoffEntry \<Rightarrow> backoffEntry option" where
  "unlock b = (if reqInFlight b = 1 then Some (b\<lparr>reqInFlight := 0\<rparr>) else None)"

definition backoffTime :: "backoffEntry \<Rightarrow> Time" where
  "backoffTime b = time_Add (lastUpdate b) (backoff b)"

definition getBackoff :: "Duration \<Rightarrow> backoffEntry \<Rightarrow> backoffEntry \<times> Duration" where
  "getBackoff maxD b =
     (if \<not> initialized b then (b\<lparr>initialized := True\<rparr>, backoff b)
      else let d = backoff b * 2; newDuration = (if maxD <s d then maxD else d) in
        (b\<lparr>backoff := newDuration\<rparr>, newDuration))"

definition nn_String :: "k8s \<Rightarrow> NamespacedName \<Rightarrow> string" where
  "nn_String L n = NamespacedName_String L (nn_Namespace n) (nn_Name n)"

definition backoffEntryKeyFunc :: "k8s \<Rightarrow> backoffEntry KeyFunc" where
  "backoffEntryKeyFunc L be = Some (nn_String L (podName be))"

definition backoffEntryCompareUpdate :: "backoffEntry LessFunc" where
  "backoffEntryCompareUpdate be1 be2 \<longleftrightarrow> Before (lastUpdate be1) (lastUpdate be2)"

subsection \<open>\<open>PodBackoff\<close>\<close>

record PodBackoff =
  expiryQ :: "backoffEntry heapData"
  defaultDuration :: Duration
  maxDuration :: Duration

definition CreatePodBackoffWithClock :: "Duration \<Rightarrow> Duration \<Rightarrow> PodBackoff" where
  "CreatePodBackoffWithClock d m = \<lparr>expiryQ = NewHeap, defaultDuration = d, maxDuration = m\<rparr>"

definition CreateDefaultPodBackoff :: PodBackoff where
  "CreateDefaultPodBackoff = CreatePodBackoffWithClock (1 * Second) (60 * Second)"

definition getEntry :: "k8s \<Rightarrow> PodBackoff \<Rightarrow> NamespacedName \<Rightarrow> (PodBackoff \<times> backoffEntry) option" where
  "getEntry L p podID =
     (case Heap_GetByKey (expiryQ p) (nn_String L podID) of
        Some be \<Rightarrow> Some (p, be)
      | None \<Rightarrow>
          let be = \<lparr>initialized = False, podName = podID, backoff = defaultDuration p, lastUpdate = 0, reqInFlight = 0\<rparr> in
          map_option (\<lambda>(h, _). (p\<lparr>expiryQ := h\<rparr>, be))
            (Heap_Update (backoffEntryKeyFunc L) backoffEntryCompareUpdate (expiryQ p) be))"

definition poke_entry :: "k8s \<Rightarrow> backoffEntry \<Rightarrow> backoffEntry heapData \<Rightarrow> backoffEntry heapData" where
  "poke_entry L be h =
     (case fmlookup (items h) (nn_String L (podName be)) of
        None \<Rightarrow> h
      | Some it \<Rightarrow> h\<lparr>items := fmupd (nn_String L (podName be)) (it\<lparr>obj := be\<rparr>) (items h)\<rparr>)"

definition BackoffPod :: "k8s \<Rightarrow> Time \<Rightarrow> PodBackoff \<Rightarrow> NamespacedName \<Rightarrow> (PodBackoff \<times> Duration) option" where
  "BackoffPod L now p podID =
     Option.bind (getEntry L p podID) (\<lambda>(p1, entry).
       let entry1 = entry\<lparr>lastUpdate := now\<rparr> in
       Option.bind (Heap_Update (backoffEntryKeyFunc L) backoffEntryCompareUpdate (expiryQ p1) entry1) (\<lambda>(h, _).
         let (entry2, d) = getBackoff (maxDuration p1) entry1 in
         Some (p1\<lparr>expiryQ := poke_entry L entry2 h\<rparr>, d)))"

text \<open>The section of \<open>TryBackoffAndWait\<close> under the mutex: \<open>None\<close> as duration is the early \<open>return false\<close>.\<close>

definition TryBackoffAndWait_begin ::
  "k8s \<Rightarrow> PodBackoff \<Rightarrow> NamespacedName \<Rightarrow> (PodBackoff \<times> Duration option) option" where
  "TryBackoffAndWait_begin L p podID =
     Option.bind (getEntry L p podID) (\<lambda>(p1, entry).
       let (entry1, locked) = tryLock entry in
       if \<not> locked then Some (p1, None)
       else let (entry2, d) = getBackoff (maxDuration p1) entry1 in
         Some (p1\<lparr>expiryQ := poke_entry L entry2 (expiryQ p1)\<rparr>, Some d))"

text \<open>The loop of \<open>Gc\<close>. Every iteration but the last pops an entry, so one iteration more than the
  heap has entries is enough.\<close>

fun Gc_loop :: "nat \<Rightarrow> Time \<Rightarrow> Duration \<Rightarrow> backoffEntry heapData \<Rightarrow> backoffEntry heapData option" where
  "Gc_loop 0 now maxD h = None"
| "Gc_loop (Suc n) now maxD h =
     (case Heap_Peek h of
        None \<Rightarrow> None
      | Some None \<Rightarrow> Some h
      | Some (Some be) \<Rightarrow>
          if maxD <s time_Sub now (lastUpdate be)
          then Option.bind (Heap_Pop backoffEntryCompareUpdate h) (\<lambda>(h', _). Gc_loop n now maxD h')
          else Some h)"

definition Gc :: "Time \<Rightarrow> PodBackoff \<Rightarrow> PodBackoff option" where
  "Gc now p = map_option (\<lambda>h. p\<lparr>expiryQ := h\<rparr>) (Gc_loop (Heap_Len (expiryQ p) + 1) now (maxDuration p) (expiryQ p))"

definition GetBackoffTime :: "k8s \<Rightarrow> PodBackoff \<Rightarrow> NamespacedName \<Rightarrow> Time \<times> bool" where
  "GetBackoffTime L p podID =
     (case Heap_GetByKey (expiryQ p) (nn_String L podID) of
        None \<Rightarrow> (0, False)
      | Some be \<Rightarrow> (time_Add (lastUpdate be) (backoff be), True))"

definition ClearPodBackoff :: "k8s \<Rightarrow> PodBackoff \<Rightarrow> NamespacedName \<Rightarrow> (PodBackoff \<times> bool) option" where
  "ClearPodBackoff L p podID =
     (case Heap_GetByKey (expiryQ p) (nn_String L podID) of
        Some entry \<Rightarrow>
          map_option (\<lambda>(h, err). (p\<lparr>expiryQ := h\<rparr>, err = None))
            (Heap_Delete (backoffEntryKeyFunc L) backoffEntryCompareUpdate (expiryQ p) entry)
      | None \<Rightarrow> Some (p, False))"

subsection \<open>Invariant and effect on the content\<close>

interpretation bo: less_order backoffEntryCompareUpdate
  by unfold_locales (auto simp: backoffEntryCompareUpdate_def Before_def)

interpretation bq: keyed_pq "heap_inv backoffEntryCompareUpdate" heap_content "backoffEntryKeyFunc L"
    "Heap_Add (backoffEntryKeyFunc L) backoffEntryCompareUpdate" "Heap_Delete (backoffEntryKeyFunc L) backoffEntryCompareUpdate"
    "Heap_Pop backoffEntryCompareUpdate" backoffEntryCompareUpdate for L
  by (rule bo.heap_is_pq)

text \<open>The heap is ordered by last update and every entry is stored under its pod's name.\<close>

definition backoff_inv :: "k8s \<Rightarrow> PodBackoff \<Rightarrow> bool" where
  "backoff_inv L p \<longleftrightarrow> heap_inv backoffEntryCompareUpdate (expiryQ p) \<and>
     (\<forall>k be. fmlookup (heap_content (expiryQ p)) k = Some be \<longrightarrow> nn_String L (podName be) = k)"

definition entries :: "PodBackoff \<Rightarrow> (string, backoffEntry) fmap" where
  "entries p = heap_content (expiryQ p)"

lemma backoff_invD:
  assumes "backoff_inv L p"
  shows "heap_inv backoffEntryCompareUpdate (expiryQ p)" "heap_wf (expiryQ p)"
    "fmlookup (entries p) k = Some be \<Longrightarrow> nn_String L (podName be) = k"
  using assms by (auto simp: backoff_inv_def heap_inv_def entries_def)

lemma backoff_inv_Create: "backoff_inv L (CreatePodBackoffWithClock d m)"
  "entries (CreatePodBackoffWithClock d m) = fmempty"
  by (simp_all add: backoff_inv_def CreatePodBackoffWithClock_def entries_def bo.NewHeap_inv)

lemma entry_add:
  assumes inv: "backoff_inv L p"
  shows "\<exists>h. Heap_Update (backoffEntryKeyFunc L) backoffEntryCompareUpdate (expiryQ p) be = Some (h, None) \<and>
    backoff_inv L (p\<lparr>expiryQ := h\<rparr>) \<and> heap_content h = fmupd (nn_String L (podName be)) be (entries p)"
proof -
  have k: "backoffEntryKeyFunc L be = Some (nn_String L (podName be))" by (simp add: backoffEntryKeyFunc_def)
  obtain h where h: "Heap_Add (backoffEntryKeyFunc L) backoffEntryCompareUpdate (expiryQ p) be = Some (h, None)"
      "heap_inv backoffEntryCompareUpdate h" "heap_content h = fmupd (nn_String L (podName be)) be (entries p)"
    using bq.add_content[OF backoff_invD(1)[OF inv] k] by (auto simp: entries_def)
  then show ?thesis using inv by (auto simp: Heap_Update_def backoff_inv_def entries_def split: if_splits)
qed

lemma heap_inv_set_obj:
  assumes inv: "heap_inv lt h" and it: "fmlookup (items h) k = Some it"
    and same: "\<And>y. lt x y = lt (obj it) y" "\<And>y. lt y x = lt y (obj it)"
  shows "heap_inv lt (h\<lparr>items := fmupd k (it\<lparr>obj := x\<rparr>) (items h)\<rparr>)"
proof -
  have wf: "heap_wf h" using inv by (simp add: heap_inv_def)
  have "key_less lt (fmupd k x (heap_content h)) = key_less lt (heap_content h)"
    by (intro ext) (auto simp: key_less_def heap_content_lookup it same)
  then show ?thesis using inv heap_wf_set_obj[OF wf it, of x] by (simp add: heap_inv_def)
qed

lemma entry_poke:
  assumes inv: "backoff_inv L p" and be: "fmlookup (entries p) (nn_String L (podName b)) = Some be"
    and t: "lastUpdate b = lastUpdate be"
  shows "backoff_inv L (p\<lparr>expiryQ := poke_entry L b (expiryQ p)\<rparr>)"
    "entries (p\<lparr>expiryQ := poke_entry L b (expiryQ p)\<rparr>) = fmupd (nn_String L (podName b)) b (entries p)"
proof -
  let ?k = "nn_String L (podName b)"
  obtain it where it: "fmlookup (items (expiryQ p)) ?k = Some it" "obj it = be"
    using be by (auto simp: entries_def heap_content_lookup)
  note i = backoff_invD[OF inv]
  have c: "heap_content (poke_entry L b (expiryQ p)) = fmupd ?k b (heap_content (expiryQ p))"
    using heap_wf_set_obj(2)[OF i(2) it(1), of b] it(1) by (simp add: poke_entry_def)
  have "heap_inv backoffEntryCompareUpdate (poke_entry L b (expiryQ p))"
    using heap_inv_set_obj[OF i(1) it(1), of b] it t by (simp add: poke_entry_def backoffEntryCompareUpdate_def)
  then show "backoff_inv L (p\<lparr>expiryQ := poke_entry L b (expiryQ p)\<rparr>)"
    using inv by (auto simp: backoff_inv_def c split: if_splits)
  show "entries (p\<lparr>expiryQ := poke_entry L b (expiryQ p)\<rparr>) = fmupd ?k b (entries p)"
    by (simp add: entries_def c)
qed

text \<open>The entry \<open>getEntry\<close> hands out: the stored one, or a fresh one with the default duration.\<close>

definition entry_of :: "k8s \<Rightarrow> PodBackoff \<Rightarrow> NamespacedName \<Rightarrow> backoffEntry" where
  "entry_of L p podID = (case fmlookup (entries p) (nn_String L podID) of
     Some be \<Rightarrow> be
   | None \<Rightarrow> \<lparr>initialized = False, podName = podID, backoff = defaultDuration p, lastUpdate = 0, reqInFlight = 0\<rparr>)"

lemma getEntry_spec:
  assumes inv: "backoff_inv L p"
  shows "\<exists>p'. getEntry L p podID = Some (p', entry_of L p podID) \<and> backoff_inv L p' \<and>
    entries p' = fmupd (nn_String L podID) (entry_of L p podID) (entries p) \<and>
    maxDuration p' = maxDuration p \<and> defaultDuration p' = defaultDuration p \<and>
    nn_String L (podName (entry_of L p podID)) = nn_String L podID"
proof (cases "fmlookup (entries p) (nn_String L podID)")
  case (Some be)
  then show ?thesis using inv backoff_invD(3)[OF inv Some]
    by (simp add: getEntry_def entry_of_def Heap_GetByKey_content entries_def fmupd_triv)
next
  case None
  obtain h where "Heap_Update (backoffEntryKeyFunc L) backoffEntryCompareUpdate (expiryQ p) (entry_of L p podID) = Some (h, None)"
    "backoff_inv L (p\<lparr>expiryQ := h\<rparr>)" "heap_content h = fmupd (nn_String L podID) (entry_of L p podID) (entries p)"
    using entry_add[OF inv, of "entry_of L p podID"] None by (auto simp: entry_of_def)
  then show ?thesis using None
    by (simp add: getEntry_def entry_of_def Heap_GetByKey_content entries_def)
qed

lemma getBackoff_fields [simp]:
  "podName (fst (getBackoff m b)) = podName b" "lastUpdate (fst (getBackoff m b)) = lastUpdate b"
  by (simp_all add: getBackoff_def Let_def)

lemma BackoffPod_spec:
  fixes now podID
  assumes inv: "backoff_inv L p"
  defines "e \<equiv> getBackoff (maxDuration p) ((entry_of L p podID)\<lparr>lastUpdate := now\<rparr>)"
  shows "\<exists>p'. BackoffPod L now p podID = Some (p', snd e) \<and> backoff_inv L p' \<and>
    entries p' = fmupd (nn_String L podID) (fst e) (entries p) \<and>
    maxDuration p' = maxDuration p \<and> defaultDuration p' = defaultDuration p"
proof -
  let ?e = "(entry_of L p podID)\<lparr>lastUpdate := now\<rparr>" and ?k = "nn_String L podID"
  obtain p1 where p1: "getEntry L p podID = Some (p1, entry_of L p podID)" "backoff_inv L p1"
    "entries p1 = fmupd ?k (entry_of L p podID) (entries p)" "maxDuration p1 = maxDuration p"
    "defaultDuration p1 = defaultDuration p" "nn_String L (podName (entry_of L p podID)) = ?k"
    using getEntry_spec[OF inv] by blast
  obtain h where h: "Heap_Update (backoffEntryKeyFunc L) backoffEntryCompareUpdate (expiryQ p1) ?e = Some (h, None)"
    "backoff_inv L (p1\<lparr>expiryQ := h\<rparr>)" "heap_content h = fmupd ?k ?e (entries p1)"
    using entry_add[OF p1(2), of ?e] p1(6) by auto
  have lk: "fmlookup (entries (p1\<lparr>expiryQ := h\<rparr>)) (nn_String L (podName (fst e))) = Some ?e"
    using h(3) p1(6) by (simp add: entries_def e_def)
  have t: "lastUpdate (fst e) = lastUpdate ?e" by (simp add: e_def)
  note pk = entry_poke[OF h(2) lk t]
  have k: "nn_String L (podName (fst e)) = ?k" using p1(6) by (simp add: e_def)
  have "BackoffPod L now p podID = Some (p1\<lparr>expiryQ := poke_entry L (fst e) h\<rparr>, snd e)"
    using p1(1,4) h(1) by (simp add: BackoffPod_def Let_def e_def split: prod.split)
  moreover have "entries (p1\<lparr>expiryQ := poke_entry L (fst e) h\<rparr>) = fmupd ?k (fst e) (entries p)"
    using pk(2) k h(3) p1(3) by (simp add: entries_def fmupd_idem)
  ultimately show ?thesis using pk(1) p1(4,5) by simp
qed

lemma ClearPodBackoff_spec:
  assumes inv: "backoff_inv L p"
  shows "\<exists>p'. ClearPodBackoff L p podID = Some (p', fmlookup (entries p) (nn_String L podID) \<noteq> None) \<and> backoff_inv L p' \<and>
    entries p' = fmdrop (nn_String L podID) (entries p) \<and>
    maxDuration p' = maxDuration p \<and> defaultDuration p' = defaultDuration p"
proof (cases "fmlookup (entries p) (nn_String L podID)")
  case None
  then show ?thesis using inv by (simp add: ClearPodBackoff_def Heap_GetByKey_content entries_def fmdrop_absent)
next
  case (Some be)
  have k: "backoffEntryKeyFunc L be = Some (nn_String L podID)"
    using backoff_invD(3)[OF inv Some] by (simp add: backoffEntryKeyFunc_def)
  from bq.delete_content[OF backoff_invD(1)[OF inv] k] obtain h where
    "Heap_Delete (backoffEntryKeyFunc L) backoffEntryCompareUpdate (expiryQ p) be = Some (h, None)"
    "heap_inv backoffEntryCompareUpdate h" "heap_content h = fmdrop (nn_String L podID) (entries p)"
    using Some by (auto simp: entries_def)
  then show ?thesis using Some inv
    by (auto simp: ClearPodBackoff_def Heap_GetByKey_content entries_def backoff_inv_def split: if_splits)
qed

text \<open>\<open>Gc\<close> stops at the first entry that has not expired; by the heap order that is enough.\<close>

definition expired :: "Time \<Rightarrow> Duration \<Rightarrow> backoffEntry \<Rightarrow> bool" where
  "expired now maxD be \<longleftrightarrow> maxD <s time_Sub now (lastUpdate be)"

lemma expired_mono: "lastUpdate a \<le> lastUpdate b \<Longrightarrow> expired now m b \<Longrightarrow> expired now m a"
  by (auto simp: expired_def time_Sub_greater)

lemma Gc_loop_spec:
  assumes "heap_inv backoffEntryCompareUpdate h" "Heap_Len h < n"
  shows "\<exists>h'. Gc_loop n now m h = Some h' \<and> heap_inv backoffEntryCompareUpdate h' \<and>
    (\<forall>k. fmlookup (heap_content h') k = (case fmlookup (heap_content h) k of
       Some be \<Rightarrow> if expired now m be then None else Some be | None \<Rightarrow> None))"
  using assms
proof (induction n arbitrary: h)
  case (Suc n)
  note inv = Suc.prems(1)
  have wf: "heap_wf h" using inv by (simp add: heap_inv_def)
  show ?case
  proof (cases "heap_content h = fmempty")
    case True
    then show ?thesis using inv Heap_Peek_empty[OF True wf] by simp
  next
    case False
    obtain h1 k x where h1: "Heap_Pop backoffEntryCompareUpdate h = Some (h1, Inr x)" "Heap_Peek h = Some (Some x)"
      "heap_inv backoffEntryCompareUpdate h1" "fmlookup (heap_content h) k = Some x" "heap_content h1 = fmdrop k (heap_content h)"
      and least: "\<forall>l y. fmlookup (heap_content h) l = Some y \<longrightarrow> \<not> backoffEntryCompareUpdate y x"
      using bo.Heap_Pop_inv[OF inv False] by blast
    show ?thesis
    proof (cases "expired now m x")
      case True
      have "fcard (fmdom (heap_content h1)) < fcard (fmdom (heap_content h))"
        unfolding h1(5) using h1(4) by (rule fcard_fmdrop_less)
      then have "Heap_Len h1 < n"
        using Suc.prems(2) Heap_Len_content[OF wf] Heap_Len_content[of h1] h1(3) by (simp add: heap_inv_def)
      from Suc.IH[OF h1(3) this] obtain h' where h': "Gc_loop n now m h1 = Some h'" "heap_inv backoffEntryCompareUpdate h'"
        "\<forall>k. fmlookup (heap_content h') k = (case fmlookup (heap_content h1) k of
           Some be \<Rightarrow> if expired now m be then None else Some be | None \<Rightarrow> None)" by blast
      have "Gc_loop (Suc n) now m h = Some h'" using h1(1,2) h'(1) True by (simp add: expired_def)
      moreover have "fmlookup (heap_content h') l = (case fmlookup (heap_content h) l of
           Some be \<Rightarrow> if expired now m be then None else Some be | None \<Rightarrow> None)" for l
        using h'(3) h1(4,5) True by (cases "l = k") auto
      ultimately show ?thesis using h'(2) by blast
    next
      case False
      have "\<not> expired now m y" if "fmlookup (heap_content h) l = Some y" for l y
        using least that False expired_mono[of x y now m] by (fastforce simp: backoffEntryCompareUpdate_def Before_def)
      then show ?thesis using h1(2) False inv
        by (auto simp: expired_def split: option.split)
    qed
  qed
qed simp

lemma Gc_spec:
  assumes inv: "backoff_inv L p"
  shows "\<exists>p'. Gc now p = Some p' \<and> backoff_inv L p' \<and> maxDuration p' = maxDuration p \<and> defaultDuration p' = defaultDuration p \<and>
    (\<forall>k. fmlookup (entries p') k = (case fmlookup (entries p) k of
       Some be \<Rightarrow> if expired now (maxDuration p) be then None else Some be | None \<Rightarrow> None))"
proof -
  obtain h where h: "Gc_loop (Heap_Len (expiryQ p) + 1) now (maxDuration p) (expiryQ p) = Some h"
    "heap_inv backoffEntryCompareUpdate h"
    "\<forall>k. fmlookup (heap_content h) k = (case fmlookup (heap_content (expiryQ p)) k of
       Some be \<Rightarrow> if expired now (maxDuration p) be then None else Some be | None \<Rightarrow> None)"
    using Gc_loop_spec[OF backoff_invD(1)[OF inv], of "Heap_Len (expiryQ p) + 1" now "maxDuration p"] by auto
  have "backoff_inv L (p\<lparr>expiryQ := h\<rparr>)"
    using h(2,3) inv by (auto simp: backoff_inv_def split: option.splits if_splits)
  then show ?thesis using h by (simp add: Gc_def entries_def)
qed

subsection \<open>Properties\<close>

text \<open>Repeated calls of \<open>BackoffPod\<close> for one pod at the given times.\<close>

fun BackoffPods :: "k8s \<Rightarrow> PodBackoff \<Rightarrow> NamespacedName \<Rightarrow> Time list \<Rightarrow> (PodBackoff \<times> Duration list) option" where
  "BackoffPods L p podID [] = Some (p, [])"
| "BackoffPods L p podID (t # ts) =
     Option.bind (BackoffPod L t p podID) (\<lambda>(p1, d). map_option (\<lambda>(p2, ds). (p2, d # ds)) (BackoffPods L p1 podID ts))"

lemma getBackoff_doubles:
  assumes "initialized b" "0 \<le> sint (backoff b)" "sint (backoff b) < 2 ^ 62"
  shows "getBackoff m b = (b\<lparr>backoff := snd (getBackoff m b)\<rparr>, snd (getBackoff m b))"
    "sint (snd (getBackoff m b)) = min (2 * sint (backoff b)) (sint m)"
proof -
  have "sint (backoff b * 2) = 2 * sint (backoff b)"
    using sint_in_range[of "2 * sint (backoff b)"] assms(2,3) by (simp add: mult.commute)
  then show "sint (snd (getBackoff m b)) = min (2 * sint (backoff b)) (sint m)"
    using assms(1) by (simp add: getBackoff_def Let_def word_sless_alt)
  show "getBackoff m b = (b\<lparr>backoff := snd (getBackoff m b)\<rparr>, snd (getBackoff m b))"
    using assms(1) by (simp add: getBackoff_def Let_def)
qed

lemma BackoffPods_initialized:
  assumes "backoff_inv L p" "fmlookup (entries p) (nn_String L podID) = Some b" "initialized b"
    "sint (backoff b) = min (2 ^ j * D) (sint (maxDuration p))" "0 \<le> D" "0 \<le> sint (maxDuration p)" "sint (maxDuration p) < 2 ^ 62"
  shows "\<exists>p' ds. BackoffPods L p podID ts = Some (p', ds) \<and> backoff_inv L p' \<and>
    map sint ds = map (\<lambda>k. min (2 ^ k * D) (sint (maxDuration p))) [Suc j..<Suc j + length ts]"
  using assms(1-4,6,7)
proof (induction ts arbitrary: p b j)
  case Nil
  then show ?case by simp
next
  case (Cons t ts)
  let ?M = "sint (maxDuration p)" and ?e = "getBackoff (maxDuration p) (b\<lparr>lastUpdate := t\<rparr>)"
  have D: "0 \<le> 2 ^ j * D" using assms(5) by simp
  have b: "0 \<le> sint (backoff b)" "sint (backoff b) < 2 ^ 62" using Cons.prems(4-6) D by auto
  have e1: "?e = (b\<lparr>lastUpdate := t, backoff := snd ?e\<rparr>, snd ?e)"
    using getBackoff_doubles(1)[of "b\<lparr>lastUpdate := t\<rparr>" "maxDuration p"] b Cons.prems(3) by simp
  have "sint (snd ?e) = min (2 * sint (backoff b)) ?M"
    using getBackoff_doubles(2)[of "b\<lparr>lastUpdate := t\<rparr>" "maxDuration p"] b Cons.prems(3) by simp
  also have "\<dots> = min (2 ^ Suc j * D) ?M"
    unfolding Cons.prems(4) power_Suc mult.assoc using D Cons.prems(5) by linarith
  finally have e2: "sint (snd ?e) = min (2 ^ Suc j * D) ?M" .
  have eo: "entry_of L p podID = b" using Cons.prems(2) by (simp add: entry_of_def)
  obtain p1 where p1: "BackoffPod L t p podID = Some (p1, snd ?e)" "backoff_inv L p1"
    "entries p1 = fmupd (nn_String L podID) (fst ?e) (entries p)" "maxDuration p1 = maxDuration p"
    using BackoffPod_spec[OF Cons.prems(1), of t podID] unfolding eo by blast
  have f: "initialized (fst ?e)" "backoff (fst ?e) = snd ?e" 
    using Cons.prems(3) by (subst e1, simp)+
  obtain p2 ds where p2: "BackoffPods L p1 podID ts = Some (p2, ds)" "backoff_inv L p2"
    "map sint ds = map (\<lambda>k. min (2 ^ k * D) ?M) [Suc (Suc j)..<Suc (Suc j) + length ts]"
    using Cons.IH[of p1 "fst ?e" "Suc j"] p1(2,3,4) f e2 Cons.prems(5,6) by auto
  have "[Suc j..<Suc j + length (t # ts)] = Suc j # [Suc (Suc j)..<Suc (Suc j) + length ts]"
    by (simp add: upt_conv_Cons del: upt_Suc)
  then show ?case using p1(1) p2 e2 by simp
qed

text \<open>
  C38. Backing off a pod that has no entry \<open>n\<close> times in a row, at any times, yields the durations
  default, 2 default, 4 default, ... capped at the maximum, without overflow as long as the maximum
  is below \<open>2 ^ 62\<close> nanoseconds; the heap of entries stays ordered.
\<close>

theorem BackoffPod_doubles:
  assumes inv: "backoff_inv L p" and new: "\<not> snd (GetBackoffTime L p podID)"
    and d: "0 \<le> sint (defaultDuration p)" "sint (defaultDuration p) \<le> sint (maxDuration p)" "sint (maxDuration p) < 2 ^ 62"
  shows "\<exists>p' ds. BackoffPods L p podID ts = Some (p', ds) \<and> backoff_inv L p' \<and>
    map sint ds = map (\<lambda>k. min (2 ^ k * sint (defaultDuration p)) (sint (maxDuration p))) [0..<length ts]"
proof (cases ts)
  case Nil
  then show ?thesis using inv by simp
next
  case (Cons t ts')
  have new': "fmlookup (entries p) (nn_String L podID) = None"
    using new by (simp add: GetBackoffTime_def Heap_GetByKey_content entries_def split: option.splits)
  let ?b = "(entry_of L p podID)\<lparr>lastUpdate := t, initialized := True\<rparr>"
  have e: "getBackoff (maxDuration p) ((entry_of L p podID)\<lparr>lastUpdate := t\<rparr>) = (?b, defaultDuration p)"
    using new' by (simp add: getBackoff_def entry_of_def)
  obtain p1 where p1: "BackoffPod L t p podID = Some (p1, defaultDuration p)" "backoff_inv L p1"
    "entries p1 = fmupd (nn_String L podID) ?b (entries p)" "maxDuration p1 = maxDuration p"
    using BackoffPod_spec[OF inv, of t podID] unfolding e by auto
  have lk: "fmlookup (entries p1) (nn_String L podID) = Some ?b" "initialized ?b" by (simp_all add: p1(3))
  have bb: "sint (backoff ?b) = min (2 ^ 0 * sint (defaultDuration p)) (sint (maxDuration p1))"
    using new' d(2) p1(4) by (simp add: entry_of_def)
  obtain p2 ds where "BackoffPods L p1 podID ts' = Some (p2, ds)" "backoff_inv L p2"
    "map sint ds = map (\<lambda>k. min (2 ^ k * sint (defaultDuration p)) (sint (maxDuration p))) [Suc 0..<Suc 0 + length ts']"
    using BackoffPods_initialized[OF p1(2) lk bb d(1), of ts'] p1(4) d by auto
  moreover have "[0..<length ts] = 0 # [Suc 0..<Suc 0 + length ts']" by (simp only: Cons) (simp add: upt_conv_Cons del: upt_Suc)
  ultimately show ?thesis using p1(1) d(2) by (simp add: Cons)
qed

theorem BackoffPod_doubles_witness:
  "\<exists>p' ds. BackoffPods example_k8s (CreatePodBackoffWithClock 3 10) \<lparr>nn_Namespace = ''ns'', nn_Name = ''a''\<rparr> [100, 200, 300]
     = Some (p', ds) \<and> map sint ds = [3, 6, 10]"
proof -
  let ?p = "CreatePodBackoffWithClock 3 10" and ?n = "\<lparr>nn_Namespace = ''ns'', nn_Name = ''a''\<rparr>"
  have "\<not> snd (GetBackoffTime example_k8s ?p ?n)"
    using backoff_inv_Create(2) by (simp add: GetBackoffTime_def Heap_GetByKey_content entries_def)
  from BackoffPod_doubles[OF backoff_inv_Create(1) this, of "[100, 200, 300]"]
  show ?thesis by (auto simp: CreatePodBackoffWithClock_def upt_rec)
qed

text \<open>
  Garbage collection ends and removes exactly the entries that were last updated more than the
  maximum duration ago; the answer of \<open>GetBackoffTime\<close> for every other pod is unchanged.
\<close>

theorem Gc_removes_expired:
  assumes "backoff_inv L p" "sint (maxDuration p) < 2 ^ 63 - 1"
  shows "\<exists>p'. Gc now p = Some p' \<and> backoff_inv L p' \<and>
    (\<forall>podID. GetBackoffTime L p' podID =
      (case Heap_GetByKey (expiryQ p) (nn_String L podID) of
         Some be \<Rightarrow> if lastUpdate be + sint (maxDuration p) < now then (0, False) else GetBackoffTime L p podID
       | None \<Rightarrow> (0, False)))"
proof -
  obtain p' where p': "Gc now p = Some p'" "backoff_inv L p'"
    "\<forall>k. fmlookup (entries p') k = (case fmlookup (entries p) k of
       Some be \<Rightarrow> if expired now (maxDuration p) be then None else Some be | None \<Rightarrow> None)"
    using Gc_spec[OF assms(1)] by blast
  have "expired now (maxDuration p) be \<longleftrightarrow> lastUpdate be + sint (maxDuration p) < now" for be
    using assms(2) by (auto simp: expired_def time_Sub_greater)
  then show ?thesis using p' by (auto simp: GetBackoffTime_def Heap_GetByKey_content entries_def split: option.splits)
qed

theorem Gc_removes_expired_witness:
  "\<exists>p p'. BackoffPod example_k8s 100 (CreatePodBackoffWithClock 3 10) \<lparr>nn_Namespace = ''ns'', nn_Name = ''a''\<rparr> = Some (p, 3) \<and>
     GetBackoffTime example_k8s p \<lparr>nn_Namespace = ''ns'', nn_Name = ''a''\<rparr> = (103, True) \<and>
     Gc 111 p = Some p' \<and> GetBackoffTime example_k8s p' \<lparr>nn_Namespace = ''ns'', nn_Name = ''a''\<rparr> = (0, False)"
proof -
  let ?p = "CreatePodBackoffWithClock 3 10" and ?n = "\<lparr>nn_Namespace = ''ns'', nn_Name = ''a''\<rparr>"
  let ?e = "\<lparr>initialized = True, podName = ?n, backoff = 3, lastUpdate = 100, reqInFlight = 0\<rparr>"
  have e: "getBackoff (maxDuration ?p) ((entry_of example_k8s ?p ?n)\<lparr>lastUpdate := 100\<rparr>) = (?e, 3)"
    using backoff_inv_Create(2)[of 3 10] by (simp add: entry_of_def getBackoff_def CreatePodBackoffWithClock_def)
  obtain p where p: "BackoffPod example_k8s 100 ?p ?n = Some (p, 3)" "backoff_inv example_k8s p"
    "entries p = fmupd (nn_String example_k8s ?n) ?e (entries ?p)" "maxDuration p = maxDuration ?p"
    using BackoffPod_spec[OF backoff_inv_Create(1)[of example_k8s 3 10], where podID = ?n and now = 100] unfolding e by auto
  have g: "Heap_GetByKey (expiryQ p) (nn_String example_k8s ?n) = Some ?e"
    using p(3) by (simp add: Heap_GetByKey_content entries_def[symmetric])
  have m: "maxDuration p = 10" using p(4) by (simp add: CreatePodBackoffWithClock_def)
  then have "sint (maxDuration p) < 2 ^ 63 - 1" by simp
  from Gc_removes_expired[OF p(2) this, of 111] g m p(1) show ?thesis
    by (auto simp: GetBackoffTime_def time_Add_def)
qed

end
