(* ===== verification/Scheduling_Queue.thy ===== *)
theory Scheduling_Queue
  imports Pod_Backoff
begin

text \<open>
  The priority queue of \<open>pkg/scheduler/internal/queue/scheduling_queue.go\<close>: pods that wait to be
  scheduled, in three sub-queues. \<open>activeQ\<close> and \<open>podBackoffQ\<close> are keyed heaps, \<open>unschedulableQ\<close> is a
  map from full pod names. Every method runs under the queue's mutex, so it is one step on the record
  \<open>PriorityQueue\<close>.

  Arguments of the operations: \<open>L\<close> the library functions, \<open>lessFunc\<close> the ordering of \<open>activeQ\<close> (given
  at construction), \<open>now\<close> the clock reading during the call, and \<open>ord\<close> the order in which a \<open>range\<close> over
  \<open>unschedulableQ.podInfoMap\<close> visits the keys. The clock is the one the constructors install. A panic
  is \<open>None\<close>. The broadcasts on the condition variable only wake up a blocked \<open>Pop\<close>, whose waiting is
  the result \<open>Wait\<close>.
\<close>

subsection \<open>Nominated pods\<close>

record nominatedPodMap =
  nominatedPodsOn :: "(string, Pod list) fmap"
  nominatedPodToNode :: "(string, string) fmap"

definition newNominatedPodMap :: nominatedPodMap where
  "newNominatedPodMap = \<lparr>nominatedPodsOn = fmempty, nominatedPodToNode = fmempty\<rparr>"

definition podsForNode :: "nominatedPodMap \<Rightarrow> string \<Rightarrow> Pod list" where
  "podsForNode npm nodeName = (case fmlookup (nominatedPodsOn npm) nodeName of Some l \<Rightarrow> l | None \<Rightarrow> [])"

fun remove_uid :: "string \<Rightarrow> Pod list \<Rightarrow> Pod list" where
  "remove_uid u [] = []"
| "remove_uid u (np # nps) = (if pod_UID np = u then nps else np # remove_uid u nps)"

definition nominated_delete :: "nominatedPodMap \<Rightarrow> Pod \<Rightarrow> nominatedPodMap" where
  "nominated_delete npm p =
     (case fmlookup (nominatedPodToNode npm) (pod_UID p) of
        None \<Rightarrow> npm
      | Some nnn \<Rightarrow>
          let l = podsForNode npm nnn;
              m = (if \<exists>np \<in> set l. pod_UID np = pod_UID p
                   then let l' = remove_uid (pod_UID p) l in
                     if l' = [] then fmdrop nnn (nominatedPodsOn npm) else fmupd nnn l' (nominatedPodsOn npm)
                   else nominatedPodsOn npm)
          in \<lparr>nominatedPodsOn = m, nominatedPodToNode = fmdrop (pod_UID p) (nominatedPodToNode npm)\<rparr>)"

definition NominatedNodeName :: "Pod \<Rightarrow> string" where
  "NominatedNodeName pod = pod_NominatedNodeName pod"

definition nominated_add :: "nominatedPodMap \<Rightarrow> Pod \<Rightarrow> string \<Rightarrow> nominatedPodMap" where
  "nominated_add npm0 p nodeName =
     (let npm = nominated_delete npm0 p;
          nnn = (if nodeName = [] then NominatedNodeName p else nodeName)
      in if nnn = [] then npm
         else let npm1 = npm\<lparr>nominatedPodToNode := fmupd (pod_UID p) nnn (nominatedPodToNode npm)\<rparr> in
           if \<exists>np \<in> set (podsForNode npm1 nnn). pod_UID np = pod_UID p then npm1
           else npm1\<lparr>nominatedPodsOn := fmupd nnn (podsForNode npm1 nnn @ [p]) (nominatedPodsOn npm1)\<rparr>)"

definition nominated_update :: "nominatedPodMap \<Rightarrow> Pod \<Rightarrow> Pod \<Rightarrow> nominatedPodMap" where
  "nominated_update npm oldPod newPod = nominated_add (nominated_delete npm oldPod) newPod []"

subsection \<open>The queue\<close>

record podInfo =
  qpod :: Pod
  timestamp :: Time

record PriorityQueue =
  podBackoff :: PodBackoff
  activeQ :: "podInfo heapData"
  podBackoffQ :: "podInfo heapData"
  unschedulableQ :: "(string, podInfo) fmap"
  nominatedPods :: nominatedPodMap
  schedulingCycle :: int64
  moveRequestCycle :: int64
  closed :: bool

datatype queue_error = HeapError heap_error | AlreadyUnschedulable | AlreadyActive | AlreadyBackoff

definition newPodInfoNoTimestamp :: "Pod \<Rightarrow> podInfo" where
  "newPodInfoNoTimestamp pod = \<lparr>qpod = pod, timestamp = 0\<rparr>"

definition newPodInfo :: "Time \<Rightarrow> Pod \<Rightarrow> podInfo" where
  "newPodInfo now pod = \<lparr>qpod = pod, timestamp = now\<rparr>"

definition podInfoKeyFunc :: "k8s \<Rightarrow> podInfo KeyFunc" where
  "podInfoKeyFunc L pInfo = MetaNamespaceKeyFunc L (qpod pInfo)"

definition activeQComp :: "podInfo LessFunc" where
  "activeQComp pInfo1 pInfo2 =
     (let prio1 = GetPodPriority (qpod pInfo1); prio2 = GetPodPriority (qpod pInfo2) in
      prio2 <s prio1 \<or> prio1 = prio2 \<and> Before (timestamp pInfo1) (timestamp pInfo2))"

definition unschedulableQTimeInterval :: Duration where
  "unschedulableQTimeInterval = 60 * Second"

text \<open>\<open>UnschedulablePodsMap\<close>.\<close>

definition unschedulable_addOrUpdate :: "podInfo \<Rightarrow> (string, podInfo) fmap \<Rightarrow> (string, podInfo) fmap" where
  "unschedulable_addOrUpdate pInfo u = fmupd (GetPodFullName (qpod pInfo)) pInfo u"

definition unschedulable_delete :: "Pod \<Rightarrow> (string, podInfo) fmap \<Rightarrow> (string, podInfo) fmap" where
  "unschedulable_delete pod u = fmdrop (GetPodFullName pod) u"

definition unschedulable_get :: "(string, podInfo) fmap \<Rightarrow> Pod \<Rightarrow> podInfo option" where
  "unschedulable_get u pod = fmlookup u (GetPodFullName pod)"

definition nsNameForPod :: "Pod \<Rightarrow> NamespacedName" where
  "nsNameForPod pod = \<lparr>nn_Namespace = pod_Namespace pod, nn_Name = pod_Name pod\<rparr>"

definition podsCompareBackoffCompleted :: "k8s \<Rightarrow> PodBackoff \<Rightarrow> podInfo LessFunc" where
  "podsCompareBackoffCompleted L pb pInfo1 pInfo2 =
     (let bo1 = fst (GetBackoffTime L pb (nsNameForPod (qpod pInfo1)));
          bo2 = fst (GetBackoffTime L pb (nsNameForPod (qpod pInfo2)))
      in Before bo1 bo2)"

definition NewPriorityQueue :: PriorityQueue where
  "NewPriorityQueue = \<lparr>podBackoff = CreatePodBackoffWithClock (1 * Second) (10 * Second),
     activeQ = NewHeap, podBackoffQ = NewHeap, unschedulableQ = fmempty, nominatedPods = newNominatedPodMap,
     schedulingCycle = 0, moveRequestCycle = - 1, closed = False\<rparr>"

subsection \<open>Adding pods\<close>

text \<open>The two heaps with their key and ordering functions.\<close>

definition active_add :: "k8s \<Rightarrow> podInfo LessFunc \<Rightarrow> podInfo \<Rightarrow> PriorityQueue \<Rightarrow> (PriorityQueue \<times> heap_error option) option" where
  "active_add L lessFunc pInfo q =
     map_option (\<lambda>(h, e). (q\<lparr>activeQ := h\<rparr>, e)) (Heap_Add (podInfoKeyFunc L) lessFunc (activeQ q) pInfo)"

definition backoffq_add :: "k8s \<Rightarrow> podInfo \<Rightarrow> PriorityQueue \<Rightarrow> (PriorityQueue \<times> heap_error option) option" where
  "backoffq_add L pInfo q = map_option (\<lambda>(h, e). (q\<lparr>podBackoffQ := h\<rparr>, e))
     (Heap_Add (podInfoKeyFunc L) (podsCompareBackoffCompleted L (podBackoff q)) (podBackoffQ q) pInfo)"

definition backoffq_delete :: "k8s \<Rightarrow> podInfo \<Rightarrow> PriorityQueue \<Rightarrow> (PriorityQueue \<times> heap_error option) option" where
  "backoffq_delete L pInfo q = map_option (\<lambda>(h, e). (q\<lparr>podBackoffQ := h\<rparr>, e))
     (Heap_Delete (podInfoKeyFunc L) (podsCompareBackoffCompleted L (podBackoff q)) (podBackoffQ q) pInfo)"

definition heap_find :: "k8s \<Rightarrow> podInfo heapData \<Rightarrow> podInfo \<Rightarrow> podInfo option" where
  "heap_find L h pInfo = (case Heap_Get (podInfoKeyFunc L) h pInfo of Inr r \<Rightarrow> r | Inl _ \<Rightarrow> None)"

definition PriorityQueue_Add ::
  "k8s \<Rightarrow> podInfo LessFunc \<Rightarrow> Time \<Rightarrow> Pod \<Rightarrow> PriorityQueue \<Rightarrow> (PriorityQueue \<times> queue_error option) option" where
  "PriorityQueue_Add L lessFunc now pod q =
     (let pInfo = newPodInfo now pod in
      do { (q1, err) \<leftarrow> active_add L lessFunc pInfo q;
           case err of
             Some e \<Rightarrow> Some (q1, Some (HeapError e))
           | None \<Rightarrow>
               do { let q2 = (if unschedulable_get (unschedulableQ q1) pod \<noteq> None
                              then q1\<lparr>unschedulableQ := unschedulable_delete pod (unschedulableQ q1)\<rparr> else q1);
                    (q3, _) \<leftarrow> backoffq_delete L pInfo q2;
                    Some (q3\<lparr>nominatedPods := nominated_add (nominatedPods q3) pod []\<rparr>, None) } })"

definition PriorityQueue_AddIfNotPresent ::
  "k8s \<Rightarrow> podInfo LessFunc \<Rightarrow> Time \<Rightarrow> Pod \<Rightarrow> PriorityQueue \<Rightarrow> (PriorityQueue \<times> queue_error option) option" where
  "PriorityQueue_AddIfNotPresent L lessFunc now pod q =
     (if unschedulable_get (unschedulableQ q) pod \<noteq> None then Some (q, None)
      else let pInfo = newPodInfo now pod in
        if heap_find L (activeQ q) pInfo \<noteq> None then Some (q, None)
        else if heap_find L (podBackoffQ q) pInfo \<noteq> None then Some (q, None)
        else do { (q1, err) \<leftarrow> active_add L lessFunc pInfo q;
             case err of
               Some e \<Rightarrow> Some (q1, Some (HeapError e))
             | None \<Rightarrow> Some (q1\<lparr>nominatedPods := nominated_add (nominatedPods q1) pod []\<rparr>, None) })"

definition isPodUnschedulable :: "Pod \<Rightarrow> bool" where
  "isPodUnschedulable pod =
     (case List.find (\<lambda>c. cond_Type c = ''PodScheduled'') (pod_Conditions pod) of
        None \<Rightarrow> False
      | Some cond \<Rightarrow> cond_Status cond = ''False'' \<and> cond_Reason cond = ''Unschedulable'')"

definition clearPodBackoff :: "k8s \<Rightarrow> Pod \<Rightarrow> PriorityQueue \<Rightarrow> PriorityQueue option" where
  "clearPodBackoff L pod q =
     map_option (\<lambda>(pb, _). q\<lparr>podBackoff := pb\<rparr>) (ClearPodBackoff L (podBackoff q) (nsNameForPod pod))"

definition isPodBackingOff :: "k8s \<Rightarrow> Time \<Rightarrow> PodBackoff \<Rightarrow> Pod \<Rightarrow> bool" where
  "isPodBackingOff L now pb pod =
     (let (boTime, exists) = GetBackoffTime L pb (nsNameForPod pod) in
      if \<not> exists then False else After boTime now)"

definition backoffPod :: "k8s \<Rightarrow> Time \<Rightarrow> Pod \<Rightarrow> PriorityQueue \<Rightarrow> PriorityQueue option" where
  "backoffPod L now pod q =
     do { pb \<leftarrow> Gc now (podBackoff q);
          let podID = nsNameForPod pod;
          let (boTime, found) = GetBackoffTime L pb podID;
          if \<not> found \<or> Before boTime now
          then do { (pb2, _) \<leftarrow> BackoffPod L now pb podID; Some (q\<lparr>podBackoff := pb2\<rparr>) }
          else Some (q\<lparr>podBackoff := pb\<rparr>) }"

definition AddUnschedulableIfNotPresent ::
  "k8s \<Rightarrow> Time \<Rightarrow> Pod \<Rightarrow> int64 \<Rightarrow> PriorityQueue \<Rightarrow> (PriorityQueue \<times> queue_error option) option" where
  "AddUnschedulableIfNotPresent L now pod podSchedulingCycle q =
     (if unschedulable_get (unschedulableQ q) pod \<noteq> None then Some (q, Some AlreadyUnschedulable)
      else let pInfo = newPodInfo now pod in
        if heap_find L (activeQ q) pInfo \<noteq> None then Some (q, Some AlreadyActive)
        else if heap_find L (podBackoffQ q) pInfo \<noteq> None then Some (q, Some AlreadyBackoff)
        else do { q1 \<leftarrow> backoffPod L now pod q;
             if podSchedulingCycle \<le>s moveRequestCycle q1
             then do { (q2, err) \<leftarrow> backoffq_add L pInfo q1;
                  case err of
                    Some e \<Rightarrow> Some (q2, Some (HeapError e))
                  | None \<Rightarrow> Some (q2\<lparr>nominatedPods := nominated_add (nominatedPods q2) pod []\<rparr>, None) }
             else let q2 = q1\<lparr>unschedulableQ := unschedulable_addOrUpdate pInfo (unschedulableQ q1)\<rparr> in
               Some (q2\<lparr>nominatedPods := nominated_add (nominatedPods q2) pod []\<rparr>, None) })"

subsection \<open>The periodic flushes and moves\<close>

text \<open>The loop of \<open>flushBackoffQCompleted\<close> pops a pod in every iteration but the last, so one
  iteration more than \<open>podBackoffQ\<close> has pods is enough.\<close>

fun flushBackoff_loop :: "nat \<Rightarrow> k8s \<Rightarrow> podInfo LessFunc \<Rightarrow> Time \<Rightarrow> PriorityQueue \<Rightarrow> PriorityQueue option" where
  "flushBackoff_loop 0 L lessFunc now q = None"
| "flushBackoff_loop (Suc n) L lessFunc now q =
     (case Heap_Peek (podBackoffQ q) of
        None \<Rightarrow> None
      | Some None \<Rightarrow> Some q
      | Some (Some rawPodInfo) \<Rightarrow>
          let (boTime, found) = GetBackoffTime L (podBackoff q) (nsNameForPod (qpod rawPodInfo)) in
          if \<not> found
          then do { (h, _) \<leftarrow> Heap_Pop (podsCompareBackoffCompleted L (podBackoff q)) (podBackoffQ q);
                    (q1, _) \<leftarrow> active_add L lessFunc rawPodInfo (q\<lparr>podBackoffQ := h\<rparr>);
                    flushBackoff_loop n L lessFunc now q1 }
          else if After boTime now then Some q
          else do { (h, r) \<leftarrow> Heap_Pop (podsCompareBackoffCompleted L (podBackoff q)) (podBackoffQ q);
                    case r of
                      Inl _ \<Rightarrow> Some (q\<lparr>podBackoffQ := h\<rparr>)
                    | Inr _ \<Rightarrow>
                        do { (q1, _) \<leftarrow> active_add L lessFunc rawPodInfo (q\<lparr>podBackoffQ := h\<rparr>);
                             flushBackoff_loop n L lessFunc now q1 } })"

definition flushBackoffQCompleted :: "k8s \<Rightarrow> podInfo LessFunc \<Rightarrow> Time \<Rightarrow> PriorityQueue \<Rightarrow> PriorityQueue option" where
  "flushBackoffQCompleted L lessFunc now q = flushBackoff_loop (Heap_Len (podBackoffQ q) + 1) L lessFunc now q"

text \<open>The body shared by the loops of \<open>MoveAllToActiveQueue\<close> and \<open>movePodsToActiveQueue\<close>.\<close>

definition move_pod :: "k8s \<Rightarrow> podInfo LessFunc \<Rightarrow> Time \<Rightarrow> podInfo \<Rightarrow> PriorityQueue \<Rightarrow> PriorityQueue option" where
  "move_pod L lessFunc now pInfo q =
     (if isPodBackingOff L now (podBackoff q) (qpod pInfo)
      then map_option fst (backoffq_add L pInfo q)
      else map_option fst (active_add L lessFunc pInfo q))"

definition movePodsToActiveQueue ::
  "k8s \<Rightarrow> podInfo LessFunc \<Rightarrow> Time \<Rightarrow> podInfo list \<Rightarrow> PriorityQueue \<Rightarrow> PriorityQueue option" where
  "movePodsToActiveQueue L lessFunc now podInfoList q =
     map_option (\<lambda>q1. q1\<lparr>moveRequestCycle := schedulingCycle q1\<rparr>)
       (foldM (\<lambda>pInfo q. map_option (\<lambda>q1. q1\<lparr>unschedulableQ := unschedulable_delete (qpod pInfo) (unschedulableQ q1)\<rparr>)
                (move_pod L lessFunc now pInfo q)) podInfoList q)"

definition MoveAllToActiveQueue ::
  "k8s \<Rightarrow> podInfo LessFunc \<Rightarrow> Time \<Rightarrow> string list \<Rightarrow> PriorityQueue \<Rightarrow> PriorityQueue option" where
  "MoveAllToActiveQueue L lessFunc now ord q =
     map_option (\<lambda>q1. q1\<lparr>unschedulableQ := fmempty, moveRequestCycle := schedulingCycle q1\<rparr>)
       (foldM (move_pod L lessFunc now) (List.map_filter (fmlookup (unschedulableQ q)) ord) q)"

definition flushUnschedulableQLeftover ::
  "k8s \<Rightarrow> podInfo LessFunc \<Rightarrow> Time \<Rightarrow> string list \<Rightarrow> PriorityQueue \<Rightarrow> PriorityQueue option" where
  "flushUnschedulableQLeftover L lessFunc now ord q =
     (let podsToMove = filter (\<lambda>pInfo. unschedulableQTimeInterval <s time_Sub now (timestamp pInfo))
            (List.map_filter (fmlookup (unschedulableQ q)) ord)
      in if length podsToMove > 0 then movePodsToActiveQueue L lessFunc now podsToMove q else Some q)"

subsection \<open>Popping, updating and deleting\<close>

datatype pop_result = Popped Pod | QueueClosed | PopError heap_error | Wait

definition PriorityQueue_Pop :: "podInfo LessFunc \<Rightarrow> PriorityQueue \<Rightarrow> (PriorityQueue \<times> pop_result) option" where
  "PriorityQueue_Pop lessFunc q =
     (if Heap_Len (activeQ q) = 0 then Some (q, if closed q then QueueClosed else Wait)
      else do { (h, r) \<leftarrow> Heap_Pop lessFunc (activeQ q);
           case r of
             Inl e \<Rightarrow> Some (q\<lparr>activeQ := h\<rparr>, PopError e)
           | Inr pInfo \<Rightarrow> Some (q\<lparr>activeQ := h, schedulingCycle := schedulingCycle q + 1\<rparr>, Popped (qpod pInfo)) })"

definition strip :: "Pod \<Rightarrow> Pod" where
  "strip pod = pod\<lparr>pod_ResourceVersion := [], pod_Generation := 0, pod_NominatedNodeName := [], pod_Conditions := []\<rparr>"

definition isPodUpdated :: "Pod \<Rightarrow> Pod \<Rightarrow> bool" where
  "isPodUpdated oldPod newPod \<longleftrightarrow> strip oldPod \<noteq> strip newPod"

text \<open>The result of \<open>Update\<close> when the pod is in neither heap under the old pod's key. A nil \<open>oldPod\<close>
  panics in \<open>nominatedPodMap.delete\<close> when the new pod is in \<open>unschedulableQ\<close>.\<close>

definition update_unschedulable ::
  "k8s \<Rightarrow> podInfo LessFunc \<Rightarrow> Time \<Rightarrow> Pod option \<Rightarrow> Pod \<Rightarrow> PriorityQueue \<Rightarrow> (PriorityQueue \<times> queue_error option) option" where
  "update_unschedulable L lessFunc now oldPod newPod q =
     (case unschedulable_get (unschedulableQ q) newPod of
        Some usPodInfo \<Rightarrow>
          (case oldPod of
             None \<Rightarrow> None
           | Some old \<Rightarrow>
               let q1 = q\<lparr>nominatedPods := nominated_update (nominatedPods q) old newPod\<rparr>;
                   newInfo = \<lparr>qpod = newPod, timestamp = timestamp usPodInfo\<rparr>
               in if isPodUpdated old newPod
                  then do { q2 \<leftarrow> clearPodBackoff L newPod q1;
                            let q3 = q2\<lparr>unschedulableQ := unschedulable_delete (qpod usPodInfo) (unschedulableQ q2)\<rparr>;
                            (q4, err) \<leftarrow> active_add L lessFunc newInfo q3;
                            Some (q4, map_option HeapError err) }
                  else Some (q1\<lparr>unschedulableQ := unschedulable_addOrUpdate newInfo (unschedulableQ q1)\<rparr>, None))
      | None \<Rightarrow>
          do { (q1, err) \<leftarrow> active_add L lessFunc (newPodInfo now newPod) q;
               case err of
                 Some e \<Rightarrow> Some (q1, Some (HeapError e))
               | None \<Rightarrow> Some (q1\<lparr>nominatedPods := nominated_add (nominatedPods q1) newPod []\<rparr>, None) })"

definition PriorityQueue_Update ::
  "k8s \<Rightarrow> podInfo LessFunc \<Rightarrow> Time \<Rightarrow> Pod option \<Rightarrow> Pod \<Rightarrow> PriorityQueue \<Rightarrow> (PriorityQueue \<times> queue_error option) option" where
  "PriorityQueue_Update L lessFunc now oldPod newPod q =
     (case oldPod of
        None \<Rightarrow> update_unschedulable L lessFunc now oldPod newPod q
      | Some old \<Rightarrow>
          (case heap_find L (activeQ q) (newPodInfoNoTimestamp old) of
             Some oldInfo \<Rightarrow>
               let q1 = q\<lparr>nominatedPods := nominated_update (nominatedPods q) old newPod\<rparr> in
               do { (h, err) \<leftarrow> Heap_Update (podInfoKeyFunc L) lessFunc (activeQ q1) \<lparr>qpod = newPod, timestamp = timestamp oldInfo\<rparr>;
                    Some (q1\<lparr>activeQ := h\<rparr>, map_option HeapError err) }
           | None \<Rightarrow>
               (case heap_find L (podBackoffQ q) (newPodInfoNoTimestamp old) of
                  Some oldInfo \<Rightarrow>
                    let q1 = q\<lparr>nominatedPods := nominated_update (nominatedPods q) old newPod\<rparr> in
                    do { (q2, _) \<leftarrow> backoffq_delete L (newPodInfoNoTimestamp old) q1;
                         (q3, err) \<leftarrow> active_add L lessFunc \<lparr>qpod = newPod, timestamp = timestamp oldInfo\<rparr> q2;
                         Some (q3, map_option HeapError err) }
                | None \<Rightarrow> update_unschedulable L lessFunc now oldPod newPod q)))"

definition PriorityQueue_Delete :: "k8s \<Rightarrow> podInfo LessFunc \<Rightarrow> Pod \<Rightarrow> PriorityQueue \<Rightarrow> PriorityQueue option" where
  "PriorityQueue_Delete L lessFunc pod q =
     (let q1 = q\<lparr>nominatedPods := nominated_delete (nominatedPods q) pod\<rparr> in
      do { (h, err) \<leftarrow> Heap_Delete (podInfoKeyFunc L) lessFunc (activeQ q1) (newPodInfoNoTimestamp pod);
           let q2 = q1\<lparr>activeQ := h\<rparr>;
           if err \<noteq> None
           then do { q3 \<leftarrow> clearPodBackoff L pod q2;
                     (q4, _) \<leftarrow> backoffq_delete L (newPodInfoNoTimestamp pod) q3;
                     Some (q4\<lparr>unschedulableQ := unschedulable_delete pod (unschedulableQ q4)\<rparr>) }
           else Some q2 })"

subsection \<open>Events of assigned pods\<close>

definition GetPodAffinityTerms :: "PodAffinityRequired option \<Rightarrow> PodAffinityTerm list" where
  "GetPodAffinityTerms podAffinity = (case podAffinity of Some terms \<Rightarrow> terms | None \<Rightarrow> [])"

definition GetNamespacesFromPodAffinityTerm :: "Pod \<Rightarrow> PodAffinityTerm \<Rightarrow> string list" where
  "GetNamespacesFromPodAffinityTerm pod term =
     (if length (term_Namespaces term) = 0 then [pod_Namespace pod] else term_Namespaces term)"

text \<open>A selector that could not be converted is nil; calling \<open>Matches\<close> on it panics.\<close>

definition PodMatchesTermsNamespaceAndSelector :: "Pod \<Rightarrow> string list \<Rightarrow> (labels \<Rightarrow> bool) option \<Rightarrow> bool option" where
  "PodMatchesTermsNamespaceAndSelector pod namespaces selector =
     (if pod_Namespace pod \<notin> set namespaces then Some False
      else map_option (\<lambda>matches. matches (pod_Labels pod)) selector)"

fun any_term_matches :: "k8s \<Rightarrow> Pod \<Rightarrow> Pod \<Rightarrow> PodAffinityTerm list \<Rightarrow> bool option" where
  "any_term_matches L up pod [] = Some False"
| "any_term_matches L up pod (term # terms) =
     do { b \<leftarrow> PodMatchesTermsNamespaceAndSelector pod (GetNamespacesFromPodAffinityTerm up term)
                 (LabelSelectorAsSelector L (term_LabelSelector term));
          if b then Some True else any_term_matches L up pod terms }"

fun matching_affinity :: "k8s \<Rightarrow> Pod \<Rightarrow> podInfo list \<Rightarrow> podInfo list option" where
  "matching_affinity L pod [] = Some []"
| "matching_affinity L pod (pInfo # rest) =
     do { b \<leftarrow> (case pod_Affinity (qpod pInfo) of
                  None \<Rightarrow> Some False
                | Some affinity \<Rightarrow>
                    if PodAffinity affinity = None then Some False
                    else any_term_matches L (qpod pInfo) pod (GetPodAffinityTerms (PodAffinity affinity)));
          podsToMove \<leftarrow> matching_affinity L pod rest;
          Some (if b then pInfo # podsToMove else podsToMove) }"

definition getUnschedulablePodsWithMatchingAffinityTerm ::
  "k8s \<Rightarrow> string list \<Rightarrow> Pod \<Rightarrow> PriorityQueue \<Rightarrow> podInfo list option" where
  "getUnschedulablePodsWithMatchingAffinityTerm L ord pod q =
     matching_affinity L pod (List.map_filter (fmlookup (unschedulableQ q)) ord)"

definition PriorityQueue_AssignedPodAdded ::
  "k8s \<Rightarrow> podInfo LessFunc \<Rightarrow> Time \<Rightarrow> string list \<Rightarrow> Pod \<Rightarrow> PriorityQueue \<Rightarrow> PriorityQueue option" where
  "PriorityQueue_AssignedPodAdded L lessFunc now ord pod q =
     do { pods \<leftarrow> getUnschedulablePodsWithMatchingAffinityTerm L ord pod q;
          movePodsToActiveQueue L lessFunc now pods q }"

definition PriorityQueue_AssignedPodUpdated ::
  "k8s \<Rightarrow> podInfo LessFunc \<Rightarrow> Time \<Rightarrow> string list \<Rightarrow> Pod \<Rightarrow> PriorityQueue \<Rightarrow> PriorityQueue option" where
  "PriorityQueue_AssignedPodUpdated L lessFunc now ord pod q =
     do { pods \<leftarrow> getUnschedulablePodsWithMatchingAffinityTerm L ord pod q;
          movePodsToActiveQueue L lessFunc now pods q }"

subsection \<open>Queries and the remaining methods\<close>

definition PriorityQueue_NominatedPodsForNode :: "PriorityQueue \<Rightarrow> string \<Rightarrow> Pod list" where
  "PriorityQueue_NominatedPodsForNode q nodeName = podsForNode (nominatedPods q) nodeName"

text \<open>\<open>ordA\<close>, \<open>ordB\<close> and \<open>ordU\<close> are the visiting orders of the three sub-queues.\<close>

definition PriorityQueue_PendingPods :: "string list \<Rightarrow> string list \<Rightarrow> string list \<Rightarrow> PriorityQueue \<Rightarrow> Pod list" where
  "PriorityQueue_PendingPods ordA ordB ordU q =
     map qpod (Heap_List ordA (activeQ q)) @ map qpod (Heap_List ordB (podBackoffQ q)) @
     map qpod (List.map_filter (fmlookup (unschedulableQ q)) ordU)"

definition PriorityQueue_Close :: "PriorityQueue \<Rightarrow> PriorityQueue" where
  "PriorityQueue_Close q = q\<lparr>closed := True\<rparr>"

definition DeleteNominatedPodIfExists :: "Pod \<Rightarrow> PriorityQueue \<Rightarrow> PriorityQueue" where
  "DeleteNominatedPodIfExists pod q = q\<lparr>nominatedPods := nominated_delete (nominatedPods q) pod\<rparr>"

definition UpdateNominatedPodForNode :: "Pod \<Rightarrow> string \<Rightarrow> PriorityQueue \<Rightarrow> PriorityQueue" where
  "UpdateNominatedPodForNode pod nodeName q = q\<lparr>nominatedPods := nominated_add (nominatedPods q) pod nodeName\<rparr>"

definition NumUnschedulablePods :: "PriorityQueue \<Rightarrow> nat" where
  "NumUnschedulablePods q = fcard (fmdom (unschedulableQ q))"

definition NumActivePods :: "PriorityQueue \<Rightarrow> nat" where
  "NumActivePods q = Heap_Len (activeQ q)"

definition NumBackoffPods :: "PriorityQueue \<Rightarrow> nat" where
  "NumBackoffPods q = Heap_Len (podBackoffQ q)"

subsection \<open>The nominated pods are consistent\<close>

text \<open>Both maps agree: a pod listed for a node is mapped to that node, a mapped pod is listed, no pod is
  listed twice and no node has an empty list.\<close>

definition nominated_inv :: "nominatedPodMap \<Rightarrow> bool" where
  "nominated_inv npm \<longleftrightarrow>
     (\<forall>n l. fmlookup (nominatedPodsOn npm) n = Some l \<longrightarrow> l \<noteq> [] \<and> distinct (map pod_UID l) \<and>
        (\<forall>p \<in> set l. fmlookup (nominatedPodToNode npm) (pod_UID p) = Some n)) \<and>
     (\<forall>u n. fmlookup (nominatedPodToNode npm) u = Some n \<longrightarrow> (\<exists>p \<in> set (podsForNode npm n). pod_UID p = u))"

lemma nominated_inv_new: "nominated_inv newNominatedPodMap"
  by (simp add: nominated_inv_def newNominatedPodMap_def)

lemma remove_uid_filter:
  "distinct (map pod_UID l) \<Longrightarrow> remove_uid u l = filter (\<lambda>p. pod_UID p \<noteq> u) l"
proof (induction l)
  case (Cons p l)
  have "filter (\<lambda>q. pod_UID q \<noteq> pod_UID p) l = l" using Cons.prems by (intro filter_True) (auto simp: image_iff)
  with Cons show ?case by auto
qed simp

lemma podsForNode_inv:
  assumes "nominated_inv npm"
  shows "distinct (map pod_UID (podsForNode npm n))"
    "p \<in> set (podsForNode npm n) \<Longrightarrow> fmlookup (nominatedPodToNode npm) (pod_UID p) = Some n"
    "fmlookup (nominatedPodsOn npm) n \<noteq> Some []"
    "fmlookup (nominatedPodToNode npm) u = Some n \<Longrightarrow> \<exists>p \<in> set (podsForNode npm n). pod_UID p = u"
proof -
  note a = assms[unfolded nominated_inv_def]
  show "distinct (map pod_UID (podsForNode npm n))" "fmlookup (nominatedPodsOn npm) n \<noteq> Some []"
    using a by (auto simp: podsForNode_def split: option.split)
  show "fmlookup (nominatedPodToNode npm) (pod_UID p) = Some n" if "p \<in> set (podsForNode npm n)"
    using that a by (cases "fmlookup (nominatedPodsOn npm) n") (simp_all add: podsForNode_def)
  show "\<exists>p \<in> set (podsForNode npm n). pod_UID p = u" if "fmlookup (nominatedPodToNode npm) u = Some n"
    using that a by blast
qed

lemma nominated_invI:
  assumes "\<And>n. fmlookup (nominatedPodsOn npm) n \<noteq> Some []" "\<And>n. distinct (map pod_UID (podsForNode npm n))"
    "\<And>n p. p \<in> set (podsForNode npm n) \<Longrightarrow> fmlookup (nominatedPodToNode npm) (pod_UID p) = Some n"
    "\<And>u n. fmlookup (nominatedPodToNode npm) u = Some n \<Longrightarrow> \<exists>p \<in> set (podsForNode npm n). pod_UID p = u"
  shows "nominated_inv npm"
proof -
  have "l \<noteq> [] \<and> distinct (map pod_UID l) \<and> (\<forall>p \<in> set l. fmlookup (nominatedPodToNode npm) (pod_UID p) = Some n)"
    if l: "fmlookup (nominatedPodsOn npm) n = Some l" for n l
    using assms(1)[of n] assms(2)[of n] assms(3)[of _ n] l by (auto simp: podsForNode_def)
  with assms(4) show ?thesis unfolding nominated_inv_def by blast
qed

lemma nominated_delete_spec:
  assumes inv: "nominated_inv npm"
  shows "podsForNode (nominated_delete npm p) n = filter (\<lambda>np. pod_UID np \<noteq> pod_UID p) (podsForNode npm n)"
    "nominatedPodToNode (nominated_delete npm p) = fmdrop (pod_UID p) (nominatedPodToNode npm)"
    "nominated_inv (nominated_delete npm p)"
proof -
  let ?d = "nominated_delete npm p" and ?u = "pod_UID p"
  have other: "filter (\<lambda>np. pod_UID np \<noteq> ?u) (podsForNode npm n) = podsForNode npm n"
    if "fmlookup (nominatedPodToNode npm) ?u \<noteq> Some n" for n
    using podsForNode_inv(2)[OF inv, of _ n] that by (intro filter_True) fastforce
  show to: "nominatedPodToNode ?d = fmdrop ?u (nominatedPodToNode npm)"
    by (auto simp: nominated_delete_def fmdrop_absent Let_def split: option.splits)
  have on: "podsForNode ?d n = filter (\<lambda>np. pod_UID np \<noteq> ?u) (podsForNode npm n)" for n
  proof (cases "fmlookup (nominatedPodToNode npm) ?u")
    case None
    then show ?thesis using other[of n] by (simp add: nominated_delete_def)
  next
    case (Some m)
    have ex: "\<exists>np \<in> set (podsForNode npm m). pod_UID np = ?u" using inv Some by (auto simp: nominated_inv_def)
    have r: "remove_uid ?u (podsForNode npm m) = filter (\<lambda>np. pod_UID np \<noteq> ?u) (podsForNode npm m)"
      by (rule remove_uid_filter[OF podsForNode_inv(1)[OF inv]])
    show ?thesis using Some ex r other[of n]
      by (cases "n = m") (simp_all add: nominated_delete_def Let_def podsForNode_def)
  qed
  show "podsForNode ?d n = filter (\<lambda>np. pod_UID np \<noteq> ?u) (podsForNode npm n)" by (rule on)
  show "nominated_inv ?d"
  proof (rule nominated_invI)
    show "fmlookup (nominatedPodsOn ?d) n \<noteq> Some []" for n
      using podsForNode_inv(3)[OF inv, of n] by (auto simp: nominated_delete_def Let_def split: option.splits)
    show "distinct (map pod_UID (podsForNode ?d n))" for n
      unfolding on by (rule distinct_map_filter[OF podsForNode_inv(1)[OF inv]])
    show "fmlookup (nominatedPodToNode ?d) (pod_UID q) = Some n" if "q \<in> set (podsForNode ?d n)" for n q
      using that podsForNode_inv(2)[OF inv, of q n] unfolding on to by auto
    show "\<exists>q \<in> set (podsForNode ?d n). pod_UID q = u" if "fmlookup (nominatedPodToNode ?d) u = Some n" for u n
      using that podsForNode_inv(4)[OF inv, of u n] unfolding on to by (auto split: if_splits)
  qed
qed

lemma nominated_add_effect:
  assumes inv: "nominated_inv npm"
  shows "nominated_inv (nominated_add npm p node) \<and>
    (\<forall>n. podsForNode (nominated_add npm p node) n =
       filter (\<lambda>np. pod_UID np \<noteq> pod_UID p) (podsForNode npm n) @ (if n = (if node = [] then NominatedNodeName p else node) \<and> n \<noteq> [] then [p] else []))"
proof -
  let ?nnn = "if node = [] then NominatedNodeName p else node"
  let ?d = "nominated_delete npm p" and ?a = "nominated_add npm p node" and ?u = "pod_UID p"
  note d = nominated_delete_spec[OF inv, of p]
  have absent: "\<forall>np \<in> set (podsForNode ?d n). pod_UID np \<noteq> ?u" for n unfolding d(1) by auto
  show ?thesis
  proof (cases "?nnn = []")
    case True
    then have a: "?a = ?d" by (simp add: nominated_add_def Let_def split: if_splits)
    show ?thesis unfolding a using d(1,3) True by auto
  next
    case False
    have a: "?a = \<lparr>nominatedPodsOn = fmupd (?nnn) (podsForNode ?d (?nnn) @ [p]) (nominatedPodsOn ?d),
        nominatedPodToNode = fmupd ?u (?nnn) (nominatedPodToNode ?d)\<rparr>"
      using False absent[of "?nnn"]
      by (auto simp: nominated_add_def Let_def podsForNode_def split: option.splits)
    have on: "podsForNode ?a n = podsForNode ?d n @ (if n = ?nnn then [p] else [])" for n
      unfolding a by (simp add: podsForNode_def)
    have "nominated_inv ?a"
    proof (rule nominated_invI)
      show "fmlookup (nominatedPodsOn ?a) n \<noteq> Some []" for n
        unfolding a using podsForNode_inv(3)[OF d(3), of n] by simp
      show "distinct (map pod_UID (podsForNode ?a n))" for n
        unfolding on using podsForNode_inv(1)[OF d(3), of n] absent[of n] by auto
      show "fmlookup (nominatedPodToNode ?a) (pod_UID q) = Some n" if "q \<in> set (podsForNode ?a n)" for n q
        using that podsForNode_inv(2)[OF d(3), of q n] absent[of n] unfolding on by (auto simp: a split: if_splits)
      show "\<exists>q \<in> set (podsForNode ?a n). pod_UID q = u" if "fmlookup (nominatedPodToNode ?a) u = Some n" for u n
        using that podsForNode_inv(4)[OF d(3), of u n] unfolding on by (auto simp: a split: if_splits)
    qed
    then show ?thesis using on d(1) False by auto
  qed
qed

text \<open>
  Nominating a pod for a node leaves it listed exactly there: it disappears from the list of
  every other node, the other nominated pods stay where they are in the same order, and the two
  maps of the structure stay consistent. Without an explicit node the pod's own
  \<open>Status.NominatedNodeName\<close> is used, and without either the pod is only removed.
\<close>

theorem nominated_add_spec:
  assumes inv: "nominated_inv npm"
  shows "nominated_inv (nominated_add npm p node) \<and>
    (\<forall>n. podsForNode (nominated_add npm p node) n =
       filter (\<lambda>np. pod_UID np \<noteq> pod_UID p) (podsForNode npm n) @ (if n = (if node = [] then NominatedNodeName p else node) \<and> n \<noteq> [] then [p] else []))"
  by (rule nominated_add_effect[OF inv])

theorem nominated_add_spec_witness:
  "podsForNode (nominated_add newNominatedPodMap zero_Pod ''n1'') ''n1'' = [zero_Pod]"
  using nominated_add_spec[OF nominated_inv_new, of zero_Pod "''n1''"]
  by (simp add: podsForNode_def newNominatedPodMap_def)

end
