(* ===== verification/Queue_Places.thy ===== *)
theory Queue_Places
  imports Scheduling_Queue
begin

text \<open>
  What the priority queue promises, as a specification on one map: every pending pod, identified by
  namespace and name, is at exactly one place (active, backing off or unschedulable) together with its
  queue entry. \<open>where_is\<close> is the abstraction function from the three sub-queues; for every operation a
  lemma gives its effect on that map, and shows that it does not panic and keeps \<open>queue_inv\<close>.

  \<open>queue_on\<close> is the interface between the queue and its active heap. It is interpreted with plain
  well-formedness for an arbitrary ordering function and with the heap order for \<open>activeQComp\<close>.
\<close>

subsection \<open>Keys\<close>

text \<open>Documented behaviour of \<open>cache.MetaNamespaceKeyFunc\<close>: the key is \<open>namespace/name\<close>, or just the
  name for an object without namespace.\<close>

definition id_key :: "pod_id \<Rightarrow> string" where
  "id_key i = (if fst i = [] then snd i else fst i @ ''/'' @ snd i)"

definition id_full :: "pod_id \<Rightarrow> string" where
  "id_full i = snd i @ ''_'' @ fst i"

definition valid_id :: "pod_id \<Rightarrow> bool" where
  "valid_id i \<longleftrightarrow> dns_name (fst i) \<and> dns_name (snd i)"

definition k8s_keys :: "k8s \<Rightarrow> bool" where
  "k8s_keys L \<longleftrightarrow> (\<forall>p. MetaNamespaceKeyFunc L p = Some (id_key (id_of p)))"

lemma k8s_keys_example: "k8s_keys example_k8s"
  by (simp add: k8s_keys_def example_k8s_def id_key_def id_of_def)

lemma valid_id_of [simp]: "valid_id (id_of p) \<longleftrightarrow> valid_pod p"
  by (auto simp: valid_id_def id_of_def valid_pod_def)

lemma id_full_of: "GetPodFullName p = id_full (id_of p)"
  by (simp add: GetPodFullName_def id_full_def id_of_def)

lemma id_full_inject: "valid_id i \<Longrightarrow> valid_id j \<Longrightarrow> id_full i = id_full j \<longleftrightarrow> i = j"
  by (cases i; cases j) (auto simp: valid_id_def dns_name_def id_full_def append_sep_inject)

lemma slash_in_key: "fst i \<noteq> [] \<Longrightarrow> CHR ''/'' \<in> set (id_key i)" "valid_id i \<Longrightarrow> fst i = [] \<Longrightarrow> CHR ''/'' \<notin> set (id_key i)"
  by (auto simp: id_key_def valid_id_def dns_name_def)

lemma id_key_inject:
  assumes "valid_id i" "valid_id j"
  shows "id_key i = id_key j \<longleftrightarrow> i = j"
proof
  assume eq: "id_key i = id_key j"
  then have "fst i = [] \<longleftrightarrow> fst j = []" using slash_in_key assms by metis
  with eq assms show "i = j"
    by (cases i; cases j) (auto simp: id_key_def valid_id_def dns_name_def append_sep_inject split: if_splits)
qed simp

lemma key_pod [simp]: "k8s_keys L \<Longrightarrow> podInfoKeyFunc L x = Some (id_key (id_of (qpod x)))"
  by (simp add: podInfoKeyFunc_def k8s_keys_def)

lemma heap_find_content: "k8s_keys L \<Longrightarrow> heap_find L h x = fmlookup (heap_content h) (id_key (id_of (qpod x)))"
  by (simp add: heap_find_def Heap_Get_def Heap_GetByKey_content)

subsection \<open>Places\<close>

datatype place = Active | BackingOff | Unschedulable

lemma place_ex: "(\<exists>w. P w) \<longleftrightarrow> P Active \<or> P BackingOff \<or> P Unschedulable"
  by (metis place.exhaust)

lemma place_cases:
  obtains "r = None" | x where "r = Some (Active, x)" | x where "r = Some (BackingOff, x)" | x where "r = Some (Unschedulable, x)"
proof (cases r)
  case (Some wx)
  then show thesis using that by (cases wx; cases "fst wx") auto
qed

type_synonym pod_map = "(string, podInfo) fmap"

definition placed :: "pod_map \<Rightarrow> pod_map \<Rightarrow> pod_map \<Rightarrow> pod_id \<Rightarrow> (place \<times> podInfo) option" where
  "placed A B U i =
     (if \<not> valid_id i then None
      else case fmlookup A (id_key i) of
        Some x \<Rightarrow> Some (Active, x)
      | None \<Rightarrow>
          (case fmlookup B (id_key i) of
             Some x \<Rightarrow> Some (BackingOff, x)
           | None \<Rightarrow> map_option (Pair Unschedulable) (fmlookup U (id_full i))))"

definition keyed_by :: "(pod_id \<Rightarrow> string) \<Rightarrow> pod_map \<Rightarrow> bool" where
  "keyed_by f m \<longleftrightarrow> (\<forall>k x. fmlookup m k = Some x \<longrightarrow> valid_pod (qpod x) \<and> k = f (id_of (qpod x)))"

text \<open>Entries are stored under their own keys and no pod is in two sub-queues.\<close>

definition at_most_one :: "'a option \<Rightarrow> 'a option \<Rightarrow> 'a option \<Rightarrow> bool" where
  "at_most_one a b u \<longleftrightarrow> (a \<noteq> None \<longrightarrow> b = None \<and> u = None) \<and> (b \<noteq> None \<longrightarrow> u = None)"

definition places_inv :: "pod_map \<Rightarrow> pod_map \<Rightarrow> pod_map \<Rightarrow> bool" where
  "places_inv A B U \<longleftrightarrow> keyed_by id_key A \<and> keyed_by id_key B \<and> keyed_by id_full U \<and>
     (\<forall>i. valid_id i \<longrightarrow> at_most_one (fmlookup A (id_key i)) (fmlookup B (id_key i)) (fmlookup U (id_full i)))"

lemma places_invD:
  assumes "places_inv A B U"
  shows "keyed_by id_key A" "keyed_by id_key B" "keyed_by id_full U"
    "valid_id i \<Longrightarrow> at_most_one (fmlookup A (id_key i)) (fmlookup B (id_key i)) (fmlookup U (id_full i))"
  using assms unfolding places_inv_def by blast+

text \<open>Setting or clearing the entry of one pod in all three sub-queues.\<close>

definition set_entry :: "string \<Rightarrow> podInfo option \<Rightarrow> pod_map \<Rightarrow> pod_map" where
  "set_entry k v m = (case v of None \<Rightarrow> fmdrop k m | Some x \<Rightarrow> fmupd k x m)"

lemma fmlookup_set_entry [simp]: "fmlookup (set_entry k v m) l = (if l = k then v else fmlookup m l)"
  by (auto simp: set_entry_def split: option.split)

lemma keyed_by_set_entry:
  assumes "keyed_by f m" "\<forall>x. v = Some x \<longrightarrow> valid_pod (qpod x) \<and> id_of (qpod x) = i"
  shows "keyed_by f (set_entry (f i) v m)"
  using assms by (auto simp: keyed_by_def)

lemma places_set:
  assumes inv: "places_inv A B U" and i: "valid_id i"
    and v: "\<forall>x. a = Some x \<longrightarrow> valid_pod (qpod x) \<and> id_of (qpod x) = i"
      "\<forall>x. b = Some x \<longrightarrow> valid_pod (qpod x) \<and> id_of (qpod x) = i"
      "\<forall>x. u = Some x \<longrightarrow> valid_pod (qpod x) \<and> id_of (qpod x) = i"
    and one: "at_most_one a b u"
  shows "places_inv (set_entry (id_key i) a A) (set_entry (id_key i) b B) (set_entry (id_full i) u U)" (is ?inv)
    "placed (set_entry (id_key i) a A) (set_entry (id_key i) b B) (set_entry (id_full i) u U) =
       (placed A B U)(i := case a of Some x \<Rightarrow> Some (Active, x) | None \<Rightarrow>
          (case b of Some x \<Rightarrow> Some (BackingOff, x) | None \<Rightarrow> map_option (Pair Unschedulable) u))" (is ?placed)
proof -
  show ?inv unfolding places_inv_def
  proof (intro conjI allI impI)
    show "keyed_by id_key (set_entry (id_key i) a A)" "keyed_by id_key (set_entry (id_key i) b B)"
      "keyed_by id_full (set_entry (id_full i) u U)"
      using places_invD(1-3)[OF inv] v by (simp_all add: keyed_by_set_entry)
    fix j assume j: "valid_id j"
    show "at_most_one (fmlookup (set_entry (id_key i) a A) (id_key j)) (fmlookup (set_entry (id_key i) b B) (id_key j))
        (fmlookup (set_entry (id_full i) u U) (id_full j))"
      using one places_invD(4)[OF inv j] i j by (cases "j = i") (simp_all add: id_key_inject id_full_inject)
  qed
  show ?placed
  proof
    fix j
    show "placed (set_entry (id_key i) a A) (set_entry (id_key i) b B) (set_entry (id_full i) u U) j =
       ((placed A B U)(i := case a of Some x \<Rightarrow> Some (Active, x) | None \<Rightarrow>
          (case b of Some x \<Rightarrow> Some (BackingOff, x) | None \<Rightarrow> map_option (Pair Unschedulable) u))) j"
    proof (cases "j = i")
      case True
      then show ?thesis using i by (simp add: placed_def split: option.split)
    next
      case False
      then show ?thesis using i by (cases "valid_id j") (simp_all add: placed_def id_key_inject id_full_inject split: option.split)
    qed
  qed
qed

lemma entry_ok:
  assumes "valid_pod (qpod x)" "i = id_of (qpod x)"
  shows "valid_id i" "\<forall>y. Some x = Some y \<longrightarrow> valid_pod (qpod y) \<and> id_of (qpod y) = i"
    "\<forall>y. None = Some y \<longrightarrow> valid_pod (qpod y) \<and> id_of (qpod y) = i"
  using assms by auto

lemma set_active:
  assumes "places_inv A B U" "valid_pod (qpod x)" "i = id_of (qpod x)"
  shows "places_inv (fmupd (id_key i) x A) (fmdrop (id_key i) B) (fmdrop (id_full i) U)"
    "placed (fmupd (id_key i) x A) (fmdrop (id_key i) B) (fmdrop (id_full i) U) = (placed A B U)(i \<mapsto> (Active, x))"
proof -
  note e = entry_ok[OF assms(2,3)]
  have one: "at_most_one (Some x) None None" by (simp add: at_most_one_def)
  show "places_inv (fmupd (id_key i) x A) (fmdrop (id_key i) B) (fmdrop (id_full i) U)" "placed (fmupd (id_key i) x A) (fmdrop (id_key i) B) (fmdrop (id_full i) U) = (placed A B U)(i \<mapsto> (Active, x))"
    using places_set(1)[OF assms(1) e(1) e(2) e(3) e(3) one] places_set(2)[OF assms(1) e(1) e(2) e(3) e(3) one] by (simp_all only: set_entry_def option.case option.map)
qed

lemma set_backoff:
  assumes "places_inv A B U" "valid_pod (qpod x)" "i = id_of (qpod x)"
  shows "places_inv (fmdrop (id_key i) A) (fmupd (id_key i) x B) (fmdrop (id_full i) U)"
    "placed (fmdrop (id_key i) A) (fmupd (id_key i) x B) (fmdrop (id_full i) U) = (placed A B U)(i \<mapsto> (BackingOff, x))"
proof -
  note e = entry_ok[OF assms(2,3)]
  have one: "at_most_one None (Some x) None" by (simp add: at_most_one_def)
  show "places_inv (fmdrop (id_key i) A) (fmupd (id_key i) x B) (fmdrop (id_full i) U)" "placed (fmdrop (id_key i) A) (fmupd (id_key i) x B) (fmdrop (id_full i) U) = (placed A B U)(i \<mapsto> (BackingOff, x))"
    using places_set(1)[OF assms(1) e(1) e(3) e(2) e(3) one] places_set(2)[OF assms(1) e(1) e(3) e(2) e(3) one] by (simp_all only: set_entry_def option.case option.map)
qed

lemma set_unschedulable:
  assumes "places_inv A B U" "valid_pod (qpod x)" "i = id_of (qpod x)"
  shows "places_inv (fmdrop (id_key i) A) (fmdrop (id_key i) B) (fmupd (id_full i) x U)"
    "placed (fmdrop (id_key i) A) (fmdrop (id_key i) B) (fmupd (id_full i) x U) = (placed A B U)(i \<mapsto> (Unschedulable, x))"
proof -
  note e = entry_ok[OF assms(2,3)]
  have one: "at_most_one None None (Some x)" by (simp add: at_most_one_def)
  show "places_inv (fmdrop (id_key i) A) (fmdrop (id_key i) B) (fmupd (id_full i) x U)" "placed (fmdrop (id_key i) A) (fmdrop (id_key i) B) (fmupd (id_full i) x U) = (placed A B U)(i \<mapsto> (Unschedulable, x))"
    using places_set(1)[OF assms(1) e(1) e(3) e(3) e(2) one] places_set(2)[OF assms(1) e(1) e(3) e(3) e(2) one] by (simp_all only: set_entry_def option.case option.map)
qed

lemma set_nowhere:
  assumes "places_inv A B U" "valid_id i"
  shows "places_inv (fmdrop (id_key i) A) (fmdrop (id_key i) B) (fmdrop (id_full i) U)"
    "placed (fmdrop (id_key i) A) (fmdrop (id_key i) B) (fmdrop (id_full i) U) = (placed A B U)(i := None)"
  using places_set[of A B U i None None None] assms by (simp_all add: set_entry_def at_most_one_def)

text \<open>The place of a valid pod determines the three lookups.\<close>

lemma placed_lookups:
  assumes "places_inv A B U" "valid_id i"
  shows "fmlookup A (id_key i) = (case placed A B U i of Some (Active, x) \<Rightarrow> Some x | _ \<Rightarrow> None)"
    "fmlookup B (id_key i) = (case placed A B U i of Some (BackingOff, x) \<Rightarrow> Some x | _ \<Rightarrow> None)"
    "fmlookup U (id_full i) = (case placed A B U i of Some (Unschedulable, x) \<Rightarrow> Some x | _ \<Rightarrow> None)"
  using places_invD(4)[OF assms] assms(2) by (auto simp: placed_def at_most_one_def split: option.splits)

lemma placed_id:
  assumes "places_inv A B U" "placed A B U i = Some (w, x)"
  shows "valid_pod (qpod x)" "id_of (qpod x) = i"
proof -
  have i: "valid_id i" using assms(2) by (auto simp: placed_def split: if_splits)
  have k: "keyed_by id_key A" "keyed_by id_key B" "keyed_by id_full U" using places_invD(1-3)[OF assms(1)] by auto
  have "fmlookup A (id_key i) = Some x \<or> fmlookup B (id_key i) = Some x \<or> fmlookup U (id_full i) = Some x"
    using assms(2) by (auto simp: placed_def split: if_splits option.splits)
  then have *: "valid_pod (qpod x) \<and> (id_key i = id_key (id_of (qpod x)) \<or> id_full i = id_full (id_of (qpod x)))"
    using k by (auto simp: keyed_by_def)
  then show "valid_pod (qpod x)" by blast
  with * i show "id_of (qpod x) = i" by (auto simp: id_key_inject id_full_inject)
qed

subsection \<open>The abstraction function and the interface of the active heap\<close>

definition where_is :: "PriorityQueue \<Rightarrow> pod_id \<Rightarrow> (place \<times> podInfo) option" where
  "where_is q = placed (heap_content (activeQ q)) (heap_content (podBackoffQ q)) (unschedulableQ q)"

definition queue_inv :: "(podInfo heapData \<Rightarrow> bool) \<Rightarrow> k8s \<Rightarrow> PriorityQueue \<Rightarrow> bool" where
  "queue_inv W L q \<longleftrightarrow> W (activeQ q) \<and> heap_wf (podBackoffQ q) \<and> backoff_inv L (podBackoff q) \<and>
     nominated_inv (nominatedPods q) \<and>
     places_inv (heap_content (activeQ q)) (heap_content (podBackoffQ q)) (unschedulableQ q)"

lemma queue_invD:
  assumes "queue_inv W L q"
  shows "W (activeQ q)" "heap_wf (podBackoffQ q)" "backoff_inv L (podBackoff q)" "nominated_inv (nominatedPods q)"
    "places_inv (heap_content (activeQ q)) (heap_content (podBackoffQ q)) (unschedulableQ q)"
  using assms unfolding queue_inv_def by blast+

lemma where_is_id:
  assumes "queue_inv W L q" "where_is q i = Some (w, x)"
  shows "valid_pod (qpod x)" "id_of (qpod x) = i"
  using placed_id[OF queue_invD(5)[OF assms(1)], of i w x] assms(2) by (auto simp: where_is_def)

lemma where_lookups:
  assumes "queue_inv W L q" "valid_id i"
  shows "fmlookup (heap_content (activeQ q)) (id_key i) = (case where_is q i of Some (Active, x) \<Rightarrow> Some x | _ \<Rightarrow> None)"
    "fmlookup (heap_content (podBackoffQ q)) (id_key i) = (case where_is q i of Some (BackingOff, x) \<Rightarrow> Some x | _ \<Rightarrow> None)"
    "fmlookup (unschedulableQ q) (id_full i) = (case where_is q i of Some (Unschedulable, x) \<Rightarrow> Some x | _ \<Rightarrow> None)"
  using placed_lookups[OF queue_invD(5)[OF assms(1)] assms(2)] by (simp_all only: where_is_def)

lemma nominated_add_inv: "nominated_inv npm \<Longrightarrow> nominated_inv (nominated_add npm p node)"
  using nominated_add_effect by blast

lemma nominated_update_inv: "nominated_inv npm \<Longrightarrow> nominated_inv (nominated_update npm p p')"
  unfolding nominated_update_def by (intro nominated_add_inv nominated_delete_spec(3))

text \<open>What the queue relies on: the active heap satisfies the map-like contract, for the well-formedness
  notion \<open>W\<close> of its provider.\<close>

locale queue_on = keyed_heap W heap_content "podInfoKeyFunc L" "Heap_Add (podInfoKeyFunc L) lessFunc"
    "Heap_Delete (podInfoKeyFunc L) lessFunc" "Heap_Pop lessFunc"
  for W :: "podInfo heapData \<Rightarrow> bool" and L :: k8s and lessFunc :: "podInfo LessFunc" +
  assumes W_wf: "W h \<Longrightarrow> heap_wf h"

text \<open>The back-off heap is used with plain well-formedness: its ordering function changes whenever the
  back-off state does.\<close>

lemma backoffq_add_spec:
  assumes "k8s_keys L" "heap_wf (podBackoffQ q)"
  shows "\<exists>h. backoffq_add L x q = Some (q\<lparr>podBackoffQ := h\<rparr>, None) \<and> heap_wf h \<and>
    heap_content h = fmupd (id_key (id_of (qpod x))) x (heap_content (podBackoffQ q))"
  using kh.add_content[OF assms(2), where keyFunc = "podInfoKeyFunc L" and x = x and
      lessFunc = "podsCompareBackoffCompleted L (podBackoff q)"] assms(1)
  by (auto simp: backoffq_add_def)

lemma backoffq_delete_spec:
  assumes "k8s_keys L" "heap_wf (podBackoffQ q)"
  shows "\<exists>h e. backoffq_delete L x q = Some (q\<lparr>podBackoffQ := h\<rparr>, e) \<and> heap_wf h \<and>
    heap_content h = fmdrop (id_key (id_of (qpod x))) (heap_content (podBackoffQ q))"
  using kh.delete_content[OF assms(2), where keyFunc = "podInfoKeyFunc L" and x = x and
      lessFunc = "podsCompareBackoffCompleted L (podBackoff q)"] assms(1)
  by (auto simp: backoffq_delete_def)

lemma clearPodBackoff_spec:
  assumes "backoff_inv L (podBackoff q)"
  shows "\<exists>pb. clearPodBackoff L pod q = Some (q\<lparr>podBackoff := pb\<rparr>) \<and> backoff_inv L pb"
  using ClearPodBackoff_spec[OF assms, of "nsNameForPod pod"] by (auto simp: clearPodBackoff_def)

lemma backoffPod_spec:
  assumes "backoff_inv L (podBackoff q)"
  shows "\<exists>pb. backoffPod L now pod q = Some (q\<lparr>podBackoff := pb\<rparr>) \<and> backoff_inv L pb"
proof -
  obtain pb where pb: "Gc now (podBackoff q) = Some pb" "backoff_inv L pb" using Gc_spec[OF assms] by blast
  obtain pb2 d where "BackoffPod L now pb (nsNameForPod pod) = Some (pb2, d)" "backoff_inv L pb2"
    using BackoffPod_spec[OF pb(2)] by blast
  with pb show ?thesis by (auto simp: backoffPod_def Let_def split: prod.split)
qed

text \<open>Where \<open>Update\<close> puts the new version of a pod: it keeps the time stamp of a pod that was somewhere,
  and a pod outside the active queue becomes active unless it is unschedulable and not really changed.\<close>

definition update_target :: "Time \<Rightarrow> Pod \<Rightarrow> Pod \<Rightarrow> (place \<times> podInfo) option \<Rightarrow> place \<times> podInfo" where
  "update_target now old new r =
     (case r of
        Some (Unschedulable, x) \<Rightarrow> (if isPodUpdated old new then Active else Unschedulable, \<lparr>qpod = new, timestamp = timestamp x\<rparr>)
      | Some (_, x) \<Rightarrow> (Active, \<lparr>qpod = new, timestamp = timestamp x\<rparr>)
      | None \<Rightarrow> (Active, newPodInfo now new))"

text \<open>Moving pods out of \<open>unschedulableQ\<close>: the place a pod goes to, and what stays as it is.\<close>

definition destination :: "k8s \<Rightarrow> Time \<Rightarrow> PriorityQueue \<Rightarrow> podInfo \<Rightarrow> place" where
  "destination L now q x = (if isPodBackingOff L now (podBackoff q) (qpod x) then BackingOff else Active)"

definition unmoved :: "PriorityQueue \<Rightarrow> PriorityQueue \<Rightarrow> bool" where
  "unmoved q q' \<longleftrightarrow> podBackoff q' = podBackoff q \<and> nominatedPods q' = nominatedPods q \<and>
     schedulingCycle q' = schedulingCycle q \<and> moveRequestCycle q' = moveRequestCycle q \<and> closed q' = closed q"

definition moved :: "(podInfo \<Rightarrow> place) \<Rightarrow> podInfo set \<Rightarrow> (pod_id \<Rightarrow> (place \<times> podInfo) option) \<Rightarrow> pod_id \<Rightarrow> (place \<times> podInfo) option" where
  "moved dest S m i = (case m i of
     Some (Unschedulable, x) \<Rightarrow> Some (if x \<in> S then dest x else Unschedulable, x)
   | r \<Rightarrow> r)"

lemma moved_none: "moved dest {} m = m"
  by (rule ext) (auto simp: moved_def split: option.split place.split)

definition move_and_delete :: "k8s \<Rightarrow> podInfo LessFunc \<Rightarrow> Time \<Rightarrow> podInfo \<Rightarrow> PriorityQueue \<Rightarrow> PriorityQueue option" where
  "move_and_delete L lessFunc now pInfo q =
     map_option (\<lambda>q1. q1\<lparr>unschedulableQ := unschedulable_delete (qpod pInfo) (unschedulableQ q1)\<rparr>) (move_pod L lessFunc now pInfo q)"

lemma movePods_foldM:
  "movePodsToActiveQueue L lessFunc now xs q =
     map_option (\<lambda>q1. q1\<lparr>moveRequestCycle := schedulingCycle q1\<rparr>) (foldM (move_and_delete L lessFunc now) xs q)"
  by (simp add: movePodsToActiveQueue_def move_and_delete_def[abs_def])

lemma move_pod_unschedulable:
  "move_pod L lessFunc now x (q\<lparr>unschedulableQ := u\<rparr>) = map_option (\<lambda>q'. q'\<lparr>unschedulableQ := u\<rparr>) (move_pod L lessFunc now x q)"
  "move_pod L lessFunc now x q = Some q' \<Longrightarrow> unschedulableQ q' = unschedulableQ q"
  by (auto simp: move_pod_def active_add_def backoffq_add_def option.map_comp comp_def split_def split: if_splits
      intro!: option.map_cong)

lemma foldM_move_pod_unschedulable:
  "foldM (move_pod L lessFunc now) xs (q\<lparr>unschedulableQ := u\<rparr>) =
     map_option (\<lambda>q'. q'\<lparr>unschedulableQ := u\<rparr>) (foldM (move_pod L lessFunc now) xs q)"
proof (induction xs arbitrary: q)
  case (Cons x xs)
  then show ?case by (cases "move_pod L lessFunc now x q") (simp_all add: move_pod_unschedulable(1))
qed simp

lemma foldM_move_and_delete:
  "foldM (move_and_delete L lessFunc now) xs q =
     map_option (\<lambda>q'. q'\<lparr>unschedulableQ := fold (\<lambda>x. unschedulable_delete (qpod x)) xs (unschedulableQ q)\<rparr>)
       (foldM (move_pod L lessFunc now) xs q)"
proof (induction xs arbitrary: q)
  case (Cons x xs)
  show ?case
  proof (cases "move_pod L lessFunc now x q")
    case (Some q1)
    have "move_and_delete L lessFunc now x q = Some (q1\<lparr>unschedulableQ := unschedulable_delete (qpod x) (unschedulableQ q)\<rparr>)"
      using move_pod_unschedulable(2)[OF Some] Some by (simp add: move_and_delete_def)
    then show ?thesis using Some by (simp add: Cons.IH foldM_move_pod_unschedulable option.map_comp comp_def)
  qed (simp add: move_and_delete_def)
qed simp

lemma fmlookup_fold_delete:
  "fmlookup (fold (\<lambda>x. unschedulable_delete (qpod x)) xs u) k =
     (if k \<in> (GetPodFullName \<circ> qpod) ` set xs then None else fmlookup u k)"
  by (induction xs arbitrary: u) (auto simp: unschedulable_delete_def)

interpretation bc: less_order "podsCompareBackoffCompleted L pb" for L pb
  by unfold_locales (auto simp: podsCompareBackoffCompleted_def Before_def)

text \<open>The unschedulable pods an assigned pod may help: those with a required affinity term that selects its
  namespace and labels. \<open>selectors_ok\<close> says that the selectors of the pod's terms convert, as API
  validation ensures.\<close>

definition affinity_terms :: "podInfo \<Rightarrow> PodAffinityTerm list" where
  "affinity_terms x = (case pod_Affinity (qpod x) of None \<Rightarrow> [] | Some a \<Rightarrow> GetPodAffinityTerms (PodAffinity a))"

definition selectors_ok :: "k8s \<Rightarrow> podInfo \<Rightarrow> bool" where
  "selectors_ok L x \<longleftrightarrow> (\<forall>t \<in> set (affinity_terms x). LabelSelectorAsSelector L (term_LabelSelector t) \<noteq> None)"

definition affinity_matches :: "k8s \<Rightarrow> Pod \<Rightarrow> podInfo \<Rightarrow> bool" where
  "affinity_matches L pod x \<longleftrightarrow> (\<exists>t \<in> set (affinity_terms x).
     pod_Namespace pod \<in> set (GetNamespacesFromPodAffinityTerm (qpod x) t) \<and>
     the (LabelSelectorAsSelector L (term_LabelSelector t)) (pod_Labels pod))"

lemma any_term_matches_iff:
  "\<forall>t \<in> set ts. LabelSelectorAsSelector L (term_LabelSelector t) \<noteq> None \<Longrightarrow>
   any_term_matches L up pod ts = Some (\<exists>t \<in> set ts. pod_Namespace pod \<in> set (GetNamespacesFromPodAffinityTerm up t) \<and>
     the (LabelSelectorAsSelector L (term_LabelSelector t)) (pod_Labels pod))"
  by (induction ts) (auto simp: PodMatchesTermsNamespaceAndSelector_def)

lemma matching_affinity_filter:
  "\<forall>x \<in> set xs. selectors_ok L x \<Longrightarrow> matching_affinity L pod xs = Some (filter (affinity_matches L pod) xs)"
proof (induction xs)
  case (Cons x xs)
  have "(case pod_Affinity (qpod x) of None \<Rightarrow> Some False
      | Some affinity \<Rightarrow> if PodAffinity affinity = None then Some False
          else any_term_matches L (qpod x) pod (GetPodAffinityTerms (PodAffinity affinity))) = Some (affinity_matches L pod x)"
    using Cons.prems by (auto simp: selectors_ok_def affinity_matches_def affinity_terms_def any_term_matches_iff
        GetPodAffinityTerms_def split: option.split)
  with Cons show ?case by simp
qed simp

context queue_on
begin

lemma active_add_spec:
  assumes "k8s_keys L" "W (activeQ q)"
  shows "\<exists>h. active_add L lessFunc x q = Some (q\<lparr>activeQ := h\<rparr>, None) \<and> W h \<and>
    heap_content h = fmupd (id_key (id_of (qpod x))) x (heap_content (activeQ q))"
  using add_content[OF assms(2) key_pod[OF assms(1)], of x] by (auto simp: active_add_def)

text \<open>\<open>Add\<close>: the pod is active afterwards, wherever it was before.\<close>

lemma Add_effect:
  assumes keys: "k8s_keys L" and inv: "queue_inv W L q" and v: "valid_pod pod"
  shows "\<exists>q'. PriorityQueue_Add L lessFunc now pod q = Some (q', None) \<and> queue_inv W L q' \<and>
    where_is q' = (where_is q)(id_of pod \<mapsto> (Active, newPodInfo now pod))"
proof -
  let ?x = "newPodInfo now pod" and ?i = "id_of pod"
  note D = queue_invD[OF inv]
  have x: "qpod ?x = pod" by (simp add: newPodInfo_def)
  obtain h where h: "active_add L lessFunc ?x q = Some (q\<lparr>activeQ := h\<rparr>, None)" "W h"
    "heap_content h = fmupd (id_key ?i) ?x (heap_content (activeQ q))"
    using active_add_spec[OF keys D(1), of ?x] x by auto
  let ?q2 = "q\<lparr>activeQ := h, unschedulableQ := unschedulable_delete pod (unschedulableQ q)\<rparr>"
  have q2: "(if unschedulable_get (unschedulableQ (q\<lparr>activeQ := h\<rparr>)) pod \<noteq> None
      then q\<lparr>activeQ := h\<rparr>\<lparr>unschedulableQ := unschedulable_delete pod (unschedulableQ (q\<lparr>activeQ := h\<rparr>))\<rparr>
      else q\<lparr>activeQ := h\<rparr>) = ?q2"
    by (simp add: unschedulable_get_def unschedulable_delete_def fmdrop_absent)
  obtain b e where b: "backoffq_delete L ?x ?q2 = Some (?q2\<lparr>podBackoffQ := b\<rparr>, e)" "heap_wf b"
    "heap_content b = fmdrop (id_key ?i) (heap_content (podBackoffQ q))"
    using backoffq_delete_spec[OF keys, of ?q2 ?x] D(2) x by auto
  let ?q' = "?q2\<lparr>podBackoffQ := b, nominatedPods := nominated_add (nominatedPods q) pod []\<rparr>"
  have "PriorityQueue_Add L lessFunc now pod q = Some (?q', None)"
    using b(1) unfolding PriorityQueue_Add_def Let_def h(1) by (simp add: q2[simplified])
  moreover have "queue_inv W L ?q'" "where_is ?q' = (where_is q)(?i \<mapsto> (Active, ?x))"
    using set_active[OF D(5), of ?x ?i] v x h(2) b(2) D(3) nominated_add_inv[OF D(4)]
    by (simp_all add: queue_inv_def where_is_def h(3) b(3) unschedulable_delete_def id_full_of)
  ultimately show ?thesis by blast
qed

text \<open>A pod that is nowhere is in none of the sub-queues.\<close>

lemma nowhere:
  assumes "queue_inv W L q" "valid_pod pod" "where_is q (id_of pod) = None"
  shows "fmlookup (heap_content (activeQ q)) (id_key (id_of pod)) = None"
    "fmlookup (heap_content (podBackoffQ q)) (id_key (id_of pod)) = None"
    "fmlookup (unschedulableQ q) (id_full (id_of pod)) = None"
  using where_lookups[OF assms(1), of "id_of pod"] assms(2,3) by simp_all

lemma present_somewhere:
  assumes "k8s_keys L" "queue_inv W L q" "valid_pod pod"
  shows "where_is q (id_of pod) \<noteq> None \<longleftrightarrow> unschedulable_get (unschedulableQ q) pod \<noteq> None \<or>
    heap_find L (activeQ q) (newPodInfo now pod) \<noteq> None \<or> heap_find L (podBackoffQ q) (newPodInfo now pod) \<noteq> None"
  using where_lookups[OF assms(2), of "id_of pod"] assms(3)
  by (auto simp: heap_find_content[OF assms(1)] unschedulable_get_def id_full_of newPodInfo_def
      split: option.split place.split)

lemma put_active:
  assumes keys: "k8s_keys L" and inv: "queue_inv W L q" and v: "valid_pod (qpod x)" and none: "where_is q (id_of (qpod x)) = None"
  shows "\<exists>h. active_add L lessFunc x q = Some (q\<lparr>activeQ := h\<rparr>, None) \<and> queue_inv W L (q\<lparr>activeQ := h\<rparr>) \<and>
    where_is (q\<lparr>activeQ := h\<rparr>) = (where_is q)(id_of (qpod x) \<mapsto> (Active, x))"
proof -
  note D = queue_invD[OF inv] and N = nowhere[OF inv v none]
  obtain h where h: "active_add L lessFunc x q = Some (q\<lparr>activeQ := h\<rparr>, None)" "W h"
    "heap_content h = fmupd (id_key (id_of (qpod x))) x (heap_content (activeQ q))"
    using active_add_spec[OF keys D(1)] by blast
  with set_active[OF D(5) v refl] D N show ?thesis
    by (intro exI[of _ h]) (simp add: queue_inv_def where_is_def fmdrop_absent)
qed

lemma queue_inv_nominated:
  assumes "queue_inv W L q" "nominated_inv n"
  shows "queue_inv W L (q\<lparr>nominatedPods := n\<rparr>)" "where_is (q\<lparr>nominatedPods := n\<rparr>) = where_is q"
  using assms by (simp_all add: queue_inv_def where_is_def)

text \<open>\<open>AddIfNotPresent\<close> only adds a pod that is nowhere.\<close>

lemma AddIfNotPresent_effect:
  assumes keys: "k8s_keys L" and inv: "queue_inv W L q" and v: "valid_pod pod"
  shows "\<exists>q'. PriorityQueue_AddIfNotPresent L lessFunc now pod q = Some (q', None) \<and> queue_inv W L q' \<and>
    where_is q' = (if where_is q (id_of pod) \<noteq> None then where_is q
                   else (where_is q)(id_of pod \<mapsto> (Active, newPodInfo now pod)))"
proof (cases "where_is q (id_of pod)")
  case (Some r)
  then show ?thesis using present_somewhere[OF keys inv v, of now] inv
    by (auto simp: PriorityQueue_AddIfNotPresent_def Let_def)
next
  case None
  let ?x = "newPodInfo now pod"
  have x: "qpod ?x = pod" by (simp add: newPodInfo_def)
  obtain h where h: "active_add L lessFunc ?x q = Some (q\<lparr>activeQ := h\<rparr>, None)" "queue_inv W L (q\<lparr>activeQ := h\<rparr>)"
    "where_is (q\<lparr>activeQ := h\<rparr>) = (where_is q)(id_of pod \<mapsto> (Active, ?x))"
    using put_active[OF keys inv, of ?x] v x None by auto
  have "PriorityQueue_AddIfNotPresent L lessFunc now pod q =
      Some (q\<lparr>activeQ := h, nominatedPods := nominated_add (nominatedPods q) pod []\<rparr>, None)"
    using present_somewhere[OF keys inv v, of now] None h(1) by (simp add: PriorityQueue_AddIfNotPresent_def)
  with queue_inv_nominated[OF h(2) nominated_add_inv[OF queue_invD(4)[OF inv], of pod "[]"]] None h(3)
  show ?thesis by auto
qed

text \<open>\<open>AddUnschedulableIfNotPresent\<close> refuses a pod that is somewhere. A pod whose scheduling cycle is not
  later than the last move request goes to the back-off queue, any other to the unschedulable one.\<close>

lemma AddUnschedulable_refused:
  assumes "k8s_keys L" "queue_inv W L q" "valid_pod pod" "where_is q (id_of pod) \<noteq> None"
  shows "\<exists>e. AddUnschedulableIfNotPresent L now pod cycle q = Some (q, Some e)"
  using present_somewhere[OF assms(1-3), of now] assms(4) by (auto simp: AddUnschedulableIfNotPresent_def Let_def)

lemma AddUnschedulable_effect:
  assumes keys: "k8s_keys L" and inv: "queue_inv W L q" and v: "valid_pod pod" and none: "where_is q (id_of pod) = None"
  shows "\<exists>q'. AddUnschedulableIfNotPresent L now pod cycle q = Some (q', None) \<and> queue_inv W L q' \<and>
    where_is q' = (where_is q)(id_of pod \<mapsto>
      (if cycle \<le>s moveRequestCycle q then BackingOff else Unschedulable, newPodInfo now pod))"
proof -
  let ?x = "newPodInfo now pod" and ?i = "id_of pod"
  have x: "qpod ?x = pod" by (simp add: newPodInfo_def)
  have v': "valid_pod (qpod ?x)" "?i = id_of (qpod ?x)" using v x by simp_all
  note D = queue_invD[OF inv] and N = nowhere[OF inv v none]
  have n: "nominated_inv (nominated_add (nominatedPods q) pod [])" by (rule nominated_add_inv[OF D(4)])
  have absent: "\<not> (unschedulable_get (unschedulableQ q) pod \<noteq> None \<or>
      heap_find L (activeQ q) ?x \<noteq> None \<or> heap_find L (podBackoffQ q) ?x \<noteq> None)"
    using present_somewhere[OF keys inv v, of now] none by simp
  obtain pb where pb: "backoffPod L now pod q = Some (q\<lparr>podBackoff := pb\<rparr>)" "backoff_inv L pb"
    using backoffPod_spec[OF D(3)] by blast
  show ?thesis
  proof (cases "cycle \<le>s moveRequestCycle q")
    case True
    obtain h where h: "backoffq_add L ?x (q\<lparr>podBackoff := pb\<rparr>) = Some (q\<lparr>podBackoff := pb\<rparr>\<lparr>podBackoffQ := h\<rparr>, None)"
      "heap_wf h" "heap_content h = fmupd (id_key ?i) ?x (heap_content (podBackoffQ q))"
      using backoffq_add_spec[OF keys, of "q\<lparr>podBackoff := pb\<rparr>" ?x] D(2) x by auto
    let ?q' = "q\<lparr>podBackoff := pb, podBackoffQ := h, nominatedPods := nominated_add (nominatedPods q) pod []\<rparr>"
    have "AddUnschedulableIfNotPresent L now pod cycle q = Some (?q', None)"
      using absent pb(1) h(1) True by (simp add: AddUnschedulableIfNotPresent_def)
    moreover have "queue_inv W L ?q'" "where_is ?q' = (where_is q)(?i \<mapsto> (BackingOff, ?x))"
      using set_backoff[OF D(5) v'] D(1) N h(2) pb(2) n
      by (simp_all add: queue_inv_def where_is_def h(3) fmdrop_absent)
    ultimately show ?thesis using True by auto
  next
    case False
    let ?q' = "q\<lparr>podBackoff := pb, unschedulableQ := unschedulable_addOrUpdate ?x (unschedulableQ q),
        nominatedPods := nominated_add (nominatedPods q) pod []\<rparr>"
    have "AddUnschedulableIfNotPresent L now pod cycle q = Some (?q', None)"
      using absent pb(1) False by (simp add: AddUnschedulableIfNotPresent_def Let_def)
    moreover have "queue_inv W L ?q'" "where_is ?q' = (where_is q)(?i \<mapsto> (Unschedulable, ?x))"
      using set_unschedulable[OF D(5) v'] D(1,2) N pb(2) n
      by (simp_all add: queue_inv_def where_is_def fmdrop_absent unschedulable_addOrUpdate_def x id_full_of)
    ultimately show ?thesis using False by auto
  qed
qed

text \<open>\<open>Delete\<close>: the pod is nowhere afterwards.\<close>

lemma Delete_effect:
  assumes keys: "k8s_keys L" and inv: "queue_inv W L q" and v: "valid_pod pod"
  shows "\<exists>q'. PriorityQueue_Delete L lessFunc pod q = Some q' \<and> queue_inv W L q' \<and>
    where_is q' = (where_is q)(id_of pod := None)"
proof -
  let ?x = "newPodInfoNoTimestamp pod" and ?i = "id_of pod"
  let ?q1 = "q\<lparr>nominatedPods := nominated_delete (nominatedPods q) pod\<rparr>"
  have x: "qpod ?x = pod" by (simp add: newPodInfoNoTimestamp_def)
  note D = queue_invD[OF inv]
  have i: "valid_id ?i" using v by simp
  have n: "nominated_inv (nominated_delete (nominatedPods q) pod)" by (rule nominated_delete_spec(3)[OF D(4)])
  obtain h e where h: "Heap_Delete (podInfoKeyFunc L) lessFunc (activeQ q) ?x = Some (h, e)" "W h"
    "heap_content h = fmdrop (id_key ?i) (heap_content (activeQ q))"
    "e = None \<longleftrightarrow> fmlookup (heap_content (activeQ q)) (id_key ?i) \<noteq> None"
    using delete_content[OF D(1), of ?x] keys x by auto
  show ?thesis
  proof (cases e)
    case None
    let ?q' = "?q1\<lparr>activeQ := h\<rparr>"
    have "fmlookup (heap_content (activeQ q)) (id_key ?i) \<noteq> None" using h(4) None by simp
    then have "fmlookup (heap_content (podBackoffQ q)) (id_key ?i) = None" "fmlookup (unschedulableQ q) (id_full ?i) = None"
      using places_invD(4)[OF D(5) i] by (auto simp: at_most_one_def)
    then have "queue_inv W L ?q'" "where_is ?q' = (where_is q)(?i := None)"
      using set_nowhere[OF D(5) i] D(2,3) h(2) n by (simp_all add: queue_inv_def where_is_def h(3) fmdrop_absent)
    moreover have "PriorityQueue_Delete L lessFunc pod q = Some ?q'"
      using h(1) None by (simp add: PriorityQueue_Delete_def)
    ultimately show ?thesis by blast
  next
    case (Some er)
    let ?q2 = "?q1\<lparr>activeQ := h\<rparr>"
    obtain pb where pb: "clearPodBackoff L pod ?q2 = Some (?q2\<lparr>podBackoff := pb\<rparr>)" "backoff_inv L pb"
      using clearPodBackoff_spec[of L ?q2 pod] D(3) by auto
    obtain b e2 where b: "backoffq_delete L ?x (?q2\<lparr>podBackoff := pb\<rparr>) = Some (?q2\<lparr>podBackoff := pb\<rparr>\<lparr>podBackoffQ := b\<rparr>, e2)"
      "heap_wf b" "heap_content b = fmdrop (id_key ?i) (heap_content (podBackoffQ q))"
      using backoffq_delete_spec[OF keys, of "?q2\<lparr>podBackoff := pb\<rparr>" ?x] D(2) x by auto
    let ?q' = "?q2\<lparr>podBackoff := pb, podBackoffQ := b, unschedulableQ := unschedulable_delete pod (unschedulableQ q)\<rparr>"
    have "PriorityQueue_Delete L lessFunc pod q = Some ?q'"
      using h(1) Some pb(1) b(1) by (simp add: PriorityQueue_Delete_def)
    moreover have "queue_inv W L ?q'" "where_is ?q' = (where_is q)(?i := None)"
      using set_nowhere[OF D(5) i] h(2) pb(2) b(2) n
      by (simp_all add: queue_inv_def where_is_def h(3) b(3) unschedulable_delete_def id_full_of)
    ultimately show ?thesis by blast
  qed
qed

text \<open>\<open>Pop\<close> removes an active pod; on an empty active queue it waits, or fails once the queue is closed.\<close>

lemma active_lookup:
  assumes "queue_inv W L q" "fmlookup (heap_content (activeQ q)) k = Some x"
  shows "k = id_key (id_of (qpod x))" "valid_pod (qpod x)" "where_is q (id_of (qpod x)) = Some (Active, x)"
proof -
  show k: "k = id_key (id_of (qpod x))" and v: "valid_pod (qpod x)"
    using places_invD(1)[OF queue_invD(5)[OF assms(1)]] assms(2) by (auto simp: keyed_by_def)
  show "where_is q (id_of (qpod x)) = Some (Active, x)"
    using assms(2) v by (simp add: where_is_def placed_def k)
qed

lemma no_active:
  assumes "queue_inv W L q"
  shows "heap_content (activeQ q) = fmempty \<longleftrightarrow> (\<forall>i x. where_is q i \<noteq> Some (Active, x))"
proof
  show "heap_content (activeQ q) = fmempty" if "\<forall>i x. where_is q i \<noteq> Some (Active, x)"
    by (rule fmap_ext) (use active_lookup[OF assms] that in \<open>metis fmempty_lookup not_Some_eq\<close>)
  show "\<forall>i x. where_is q i \<noteq> Some (Active, x)" if "heap_content (activeQ q) = fmempty"
    using that by (auto simp: where_is_def placed_def split: option.splits)
qed

lemma Pop_effect:
  assumes inv: "queue_inv W L q" and a: "where_is q i = Some (Active, y)"
  shows "\<exists>q' x h. PriorityQueue_Pop lessFunc q = Some (q', Popped (qpod x)) \<and> queue_inv W L q' \<and>
    where_is q (id_of (qpod x)) = Some (Active, x) \<and> where_is q' = (where_is q)(id_of (qpod x) := None) \<and>
    schedulingCycle q' = schedulingCycle q + 1 \<and> Heap_Pop lessFunc (activeQ q) = Some (h, Inr x)"
proof -
  note D = queue_invD[OF inv]
  have ne: "heap_content (activeQ q) \<noteq> fmempty" using no_active[OF inv] a by blast
  have len: "Heap_Len (activeQ q) \<noteq> 0"
    using heap_wf_empty[OF W_wf[OF D(1)]] ne by (simp add: Heap_Len_def)
  obtain h k x where h: "Heap_Pop lessFunc (activeQ q) = Some (h, Inr x)" "W h"
    "fmlookup (heap_content (activeQ q)) k = Some x" "heap_content h = fmdrop k (heap_content (activeQ q))"
    using pop_content[OF D(1) ne] by blast
  note A = active_lookup[OF inv h(3)]
  let ?q' = "q\<lparr>activeQ := h, schedulingCycle := schedulingCycle q + 1\<rparr>" and ?i = "id_of (qpod x)"
  have i: "valid_id ?i" using A(2) by simp
  have "fmlookup (heap_content (podBackoffQ q)) (id_key ?i) = None" "fmlookup (unschedulableQ q) (id_full ?i) = None"
    using places_invD(4)[OF D(5) i] h(3) A(1) by (auto simp: at_most_one_def)
  then have "queue_inv W L ?q'" "where_is ?q' = (where_is q)(?i := None)"
    using set_nowhere[OF D(5) i] D(2-4) h(2) by (simp_all add: queue_inv_def where_is_def h(4) A(1)[symmetric] fmdrop_absent)
  moreover have "PriorityQueue_Pop lessFunc q = Some (?q', Popped (qpod x))"
    using len h(1) by (simp add: PriorityQueue_Pop_def)
  ultimately show ?thesis using A(3) h(1) by (intro exI[of _ ?q'] exI[of _ x] exI[of _ h]) simp
qed

lemma Pop_empty:
  assumes inv: "queue_inv W L q" and "\<forall>i x. where_is q i \<noteq> Some (Active, x)"
  shows "PriorityQueue_Pop lessFunc q = Some (q, if closed q then QueueClosed else Wait)"
proof -
  have "Heap_Len (activeQ q) = 0"
    using no_active[OF inv] assms(2) heap_wf_empty[OF W_wf[OF queue_invD(1)[OF inv]]] by (simp add: Heap_Len_def)
  then show ?thesis by (simp add: PriorityQueue_Pop_def)
qed

lemma Update_effect:
  assumes keys: "k8s_keys L" and inv: "queue_inv W L q" and v: "valid_pod new" and same: "id_of old = id_of new"
  shows "\<exists>q'. PriorityQueue_Update L lessFunc now (Some old) new q = Some (q', None) \<and> queue_inv W L q' \<and>
    where_is q' = (where_is q)(id_of new \<mapsto> update_target now old new (where_is q (id_of new)))"
proof -
  let ?i = "id_of new" and ?n = "nominated_update (nominatedPods q) old new" and ?o = "newPodInfoNoTimestamp old"
  note D = queue_invD[OF inv]
  have i: "valid_id ?i" using v by simp
  note lk = where_lookups[OF inv i]
  have o: "qpod ?o = old" by (simp add: newPodInfoNoTimestamp_def)
  have n: "nominated_inv ?n" by (rule nominated_update_inv[OF D(4)])
  have fa: "heap_find L (activeQ q) ?o = fmlookup (heap_content (activeQ q)) (id_key ?i)"
    and fb: "heap_find L (podBackoffQ q) ?o = fmlookup (heap_content (podBackoffQ q)) (id_key ?i)"
    by (simp_all add: heap_find_content[OF keys] o same)
  have gu: "unschedulable_get (unschedulableQ q) new = fmlookup (unschedulableQ q) (id_full ?i)"
    by (simp add: unschedulable_get_def id_full_of)
  note Q = queue_inv_nominated[OF inv n]
  consider (none) "where_is q ?i = None" | (act) x where "where_is q ?i = Some (Active, x)"
    | (boff) x where "where_is q ?i = Some (BackingOff, x)" | (uns) x where "where_is q ?i = Some (Unschedulable, x)"
    by (rule place_cases[of "where_is q ?i"]) auto
  then show ?thesis
  proof cases
    case none
    let ?x = "newPodInfo now new"
    obtain h where h: "active_add L lessFunc ?x q = Some (q\<lparr>activeQ := h\<rparr>, None)" "queue_inv W L (q\<lparr>activeQ := h\<rparr>)"
      "where_is (q\<lparr>activeQ := h\<rparr>) = (where_is q)(?i \<mapsto> (Active, ?x))"
      using put_active[OF keys inv, of ?x] v none by (auto simp: newPodInfo_def)
    have "PriorityQueue_Update L lessFunc now (Some old) new q =
        Some (q\<lparr>activeQ := h, nominatedPods := nominated_add (nominatedPods q) new []\<rparr>, None)"
      using fa fb gu lk none h(1) by (simp add: PriorityQueue_Update_def update_unschedulable_def)
    then show ?thesis using none queue_inv_nominated[OF h(2) nominated_add_inv[OF D(4), of new "[]"]] h(3)
      by (simp add: update_target_def)
  next
    case (act x)
    let ?x = "\<lparr>qpod = new, timestamp = timestamp x\<rparr>"
    obtain h where h: "Heap_Add (podInfoKeyFunc L) lessFunc (activeQ q) ?x = Some (h, None)" "W h"
      "heap_content h = fmupd (id_key ?i) ?x (heap_content (activeQ q))"
      using add_content[OF D(1), of ?x] keys by auto
    let ?q' = "q\<lparr>nominatedPods := ?n, activeQ := h\<rparr>"
    have "PriorityQueue_Update L lessFunc now (Some old) new q = Some (?q', None)"
      using fa lk act h(1) by (simp add: PriorityQueue_Update_def Heap_Update_def)
    moreover have "queue_inv W L ?q'" "where_is ?q' = (where_is q)(?i \<mapsto> (Active, ?x))"
      using set_active[OF D(5), of ?x ?i] v lk(2,3) act h(2) n D(2,3)
      by (simp_all add: queue_inv_def where_is_def h(3) fmdrop_absent)
    ultimately show ?thesis using act by (simp add: update_target_def)
  next
    case (boff x)
    let ?x = "\<lparr>qpod = new, timestamp = timestamp x\<rparr>" and ?q1 = "q\<lparr>nominatedPods := ?n\<rparr>"
    obtain b e where b: "backoffq_delete L ?o ?q1 = Some (?q1\<lparr>podBackoffQ := b\<rparr>, e)" "heap_wf b"
      "heap_content b = fmdrop (id_key ?i) (heap_content (podBackoffQ q))"
      using backoffq_delete_spec[OF keys, of ?q1 ?o] D(2) o same by auto
    obtain h where h: "active_add L lessFunc ?x (?q1\<lparr>podBackoffQ := b\<rparr>) = Some (?q1\<lparr>podBackoffQ := b\<rparr>\<lparr>activeQ := h\<rparr>, None)" "W h"
      "heap_content h = fmupd (id_key ?i) ?x (heap_content (activeQ q))"
      using active_add_spec[OF keys, of "?q1\<lparr>podBackoffQ := b\<rparr>" ?x] D(1) by auto
    let ?q' = "?q1\<lparr>podBackoffQ := b, activeQ := h\<rparr>"
    have "PriorityQueue_Update L lessFunc now (Some old) new q = Some (?q', None)"
      using fa fb lk boff b(1) h(1) by (simp add: PriorityQueue_Update_def)
    moreover have "queue_inv W L ?q'" "where_is ?q' = (where_is q)(?i \<mapsto> (Active, ?x))"
      using set_active[OF D(5), of ?x ?i] v lk(3) boff h(2) b(2) n D(3)
      by (simp_all add: queue_inv_def where_is_def h(3) b(3) fmdrop_absent)
    ultimately show ?thesis using boff by (simp add: update_target_def)
  next
    case (uns x)
    let ?x = "\<lparr>qpod = new, timestamp = timestamp x\<rparr>" and ?q1 = "q\<lparr>nominatedPods := ?n\<rparr>"
    have full: "GetPodFullName (qpod x) = id_full ?i" using where_is_id[OF inv uns] by (simp add: id_full_of)
    show ?thesis
    proof (cases "isPodUpdated old new")
      case True
      obtain pb where pb: "clearPodBackoff L new ?q1 = Some (?q1\<lparr>podBackoff := pb\<rparr>)" "backoff_inv L pb"
        using clearPodBackoff_spec[of L ?q1 new] D(3) by auto
      let ?q3 = "?q1\<lparr>podBackoff := pb, unschedulableQ := fmdrop (id_full ?i) (unschedulableQ q)\<rparr>"
      obtain h where h: "active_add L lessFunc ?x ?q3 = Some (?q3\<lparr>activeQ := h\<rparr>, None)" "W h"
        "heap_content h = fmupd (id_key ?i) ?x (heap_content (activeQ q))"
        using active_add_spec[OF keys, of ?q3 ?x] D(1) by auto
      have "PriorityQueue_Update L lessFunc now (Some old) new q = Some (?q3\<lparr>activeQ := h\<rparr>, None)"
        using fa fb gu lk uns True pb(1) h(1) full
        by (simp add: PriorityQueue_Update_def update_unschedulable_def unschedulable_delete_def)
      moreover have "queue_inv W L (?q3\<lparr>activeQ := h\<rparr>)" "where_is (?q3\<lparr>activeQ := h\<rparr>) = (where_is q)(?i \<mapsto> (Active, ?x))"
        using set_active[OF D(5), of ?x ?i] v lk(2) uns h(2) pb(2) n D(2)
        by (simp_all add: queue_inv_def where_is_def h(3) fmdrop_absent)
      ultimately show ?thesis using uns True by (simp add: update_target_def)
    next
      case False
      let ?q' = "?q1\<lparr>unschedulableQ := fmupd (id_full ?i) ?x (unschedulableQ q)\<rparr>"
      have "PriorityQueue_Update L lessFunc now (Some old) new q = Some (?q', None)"
        using fa fb gu lk uns False
        by (simp add: PriorityQueue_Update_def update_unschedulable_def unschedulable_addOrUpdate_def Let_def id_full_of)
      moreover have "queue_inv W L ?q'" "where_is ?q' = (where_is q)(?i \<mapsto> (Unschedulable, ?x))"
        using set_unschedulable[OF D(5), of ?x ?i] v lk(1,2) uns n D(1-3)
        by (simp_all add: queue_inv_def where_is_def fmdrop_absent)
      ultimately show ?thesis using uns False by (simp add: update_target_def)
    qed
  qed
qed

text \<open>The moves out of the unschedulable queue. The loop adds a pod to its new sub-queue before it
  deletes it from \<open>unschedulableQ\<close>; at the end of every iteration the pod is at one place again.\<close>

lemma move_one:
  assumes keys: "k8s_keys L" and inv: "queue_inv W L q" and x: "where_is q (id_of (qpod x)) = Some (Unschedulable, x)"
  shows "\<exists>q1 q'. move_pod L lessFunc now x q = Some q1 \<and>
    q' = q1\<lparr>unschedulableQ := unschedulable_delete (qpod x) (unschedulableQ q1)\<rparr> \<and> queue_inv W L q' \<and>
    where_is q' = (where_is q)(id_of (qpod x) \<mapsto> (destination L now q x, x)) \<and> unmoved q q'"
proof -
  let ?i = "id_of (qpod x)"
  note D = queue_invD[OF inv] and v = where_is_id(1)[OF inv x]
  have i: "valid_id ?i" using v by simp
  have lk: "fmlookup (heap_content (activeQ q)) (id_key ?i) = None" "fmlookup (heap_content (podBackoffQ q)) (id_key ?i) = None"
    using where_lookups(1,2)[OF inv i] x by simp_all
  show ?thesis
  proof (cases "isPodBackingOff L now (podBackoff q) (qpod x)")
    case True
    obtain h where h: "backoffq_add L x q = Some (q\<lparr>podBackoffQ := h\<rparr>, None)" "heap_wf h"
      "heap_content h = fmupd (id_key ?i) x (heap_content (podBackoffQ q))"
      using backoffq_add_spec[OF keys D(2)] by blast
    let ?q' = "q\<lparr>podBackoffQ := h, unschedulableQ := unschedulable_delete (qpod x) (unschedulableQ q)\<rparr>"
    have "queue_inv W L ?q'" "where_is ?q' = (where_is q)(?i \<mapsto> (BackingOff, x))"
      using set_backoff[OF D(5) v refl] D(1,3,4) h(2) lk
      by (simp_all add: queue_inv_def where_is_def h(3) unschedulable_delete_def id_full_of fmdrop_absent)
    then show ?thesis using True h(1) unfolding destination_def
      by (intro exI[of _ "q\<lparr>podBackoffQ := h\<rparr>"] exI[of _ ?q']) (simp add: move_pod_def unmoved_def)
  next
    case False
    obtain h where h: "active_add L lessFunc x q = Some (q\<lparr>activeQ := h\<rparr>, None)" "W h"
      "heap_content h = fmupd (id_key ?i) x (heap_content (activeQ q))"
      using active_add_spec[OF keys D(1)] by blast
    let ?q' = "q\<lparr>activeQ := h, unschedulableQ := unschedulable_delete (qpod x) (unschedulableQ q)\<rparr>"
    have "queue_inv W L ?q'" "where_is ?q' = (where_is q)(?i \<mapsto> (Active, x))"
      using set_active[OF D(5) v refl] D(2-4) h(2) lk
      by (simp_all add: queue_inv_def where_is_def h(3) unschedulable_delete_def id_full_of fmdrop_absent)
    then show ?thesis using False h(1) unfolding destination_def
      by (intro exI[of _ "q\<lparr>activeQ := h\<rparr>"] exI[of _ ?q']) (simp add: move_pod_def unmoved_def)
  qed
qed

lemma move_loop:
  assumes keys: "k8s_keys L" and inv: "queue_inv W L q" and d: "distinct (map (id_of \<circ> qpod) xs)"
    and x: "\<forall>x \<in> set xs. where_is q (id_of (qpod x)) = Some (Unschedulable, x)"
  shows "\<exists>q'. foldM (move_and_delete L lessFunc now) xs q = Some q' \<and> queue_inv W L q' \<and> unmoved q q' \<and>
    where_is q' = moved (destination L now q) (set xs) (where_is q)"
  using inv d x
proof (induction xs arbitrary: q)
  case Nil
  then show ?case by (simp add: unmoved_def moved_none)
next
  case (Cons x xs)
  have wx: "where_is q (id_of (qpod x)) = Some (Unschedulable, x)" using Cons.prems(3) by simp
  obtain q1 q2 where q1: "move_pod L lessFunc now x q = Some q1"
    "q2 = q1\<lparr>unschedulableQ := unschedulable_delete (qpod x) (unschedulableQ q1)\<rparr>" and q2: "queue_inv W L q2"
    "where_is q2 = (where_is q)(id_of (qpod x) \<mapsto> (destination L now q x, x))" "unmoved q q2"
    using move_one[OF keys Cons.prems(1) wx, of now] by blast
  have step: "move_and_delete L lessFunc now x q = Some q2" using q1 by (simp add: move_and_delete_def)
  have other: "id_of (qpod y) \<noteq> id_of (qpod x)" if "y \<in> set xs" for y
    using that Cons.prems(2) by (simp add: image_iff) metis
  then have rest: "\<forall>y \<in> set xs. where_is q2 (id_of (qpod y)) = Some (Unschedulable, y)"
    using Cons.prems(3) q2(2) by simp
  have dest: "destination L now q2 = destination L now q" using q2(3) by (simp add: destination_def unmoved_def fun_eq_iff)
  obtain q' where q': "foldM (move_and_delete L lessFunc now) xs q2 = Some q'" "queue_inv W L q'" "unmoved q2 q'"
    "where_is q' = moved (destination L now q) (set xs) (where_is q2)"
    using Cons.IH[OF q2(1) _ rest] Cons.prems(2) dest by auto
  have "where_is q' i = moved (destination L now q) (set (x # xs)) (where_is q) i" for i
  proof (cases "i = id_of (qpod x)")
    case True
    then show ?thesis using wx q'(4) q2(2) by (simp add: moved_def destination_def)
  next
    case False
    have "y \<noteq> x" if "where_is q i = Some (Unschedulable, y)" for y
      using where_is_id(2)[OF Cons.prems(1) that] False by auto
    then show ?thesis using False q'(4) q2(2) by (auto simp: moved_def split: option.split place.split)
  qed
  then show ?case using step q'(1,2) q2(3) q'(3) by (auto simp: unmoved_def)
qed

text \<open>The pods a \<open>range\<close> over \<open>unschedulableQ\<close> visits.\<close>

lemma unschedulable_lookup:
  assumes "queue_inv W L q" "fmlookup (unschedulableQ q) k = Some x"
  shows "k = id_full (id_of (qpod x))" "where_is q (id_of (qpod x)) = Some (Unschedulable, x)"
proof -
  note D = queue_invD[OF assms(1)]
  have k: "k = id_full (id_of (qpod x))" and v: "valid_pod (qpod x)"
    using places_invD(3)[OF D(5)] assms(2) by (auto simp: keyed_by_def)
  show "k = id_full (id_of (qpod x))" by (rule k)
  show "where_is q (id_of (qpod x)) = Some (Unschedulable, x)"
    using where_lookups(3)[OF assms(1), of "id_of (qpod x)"] assms(2) v
    by (auto simp: k split: option.splits place.splits prod.splits)
qed

lemma unschedulable_range:
  assumes inv: "queue_inv W L q" and d: "distinct ord"
  defines "xs \<equiv> List.map_filter (fmlookup (unschedulableQ q)) ord"
  shows "distinct (map (id_of \<circ> qpod) xs)" "\<forall>x \<in> set xs. where_is q (id_of (qpod x)) = Some (Unschedulable, x)"
proof -
  have keys: "map (id_full \<circ> (id_of \<circ> qpod)) (List.map_filter (fmlookup (unschedulableQ q)) ks) =
      filter (\<lambda>k. fmlookup (unschedulableQ q) k \<noteq> None) ks" for ks
    by (induction ks) (auto simp: List.map_filter_simps unschedulable_lookup(1)[OF inv, symmetric] split: option.split)
  have "distinct (map id_full (map (id_of \<circ> qpod) xs))"
    using d keys[of ord] by (simp add: xs_def flip: map_map)
  then show "distinct (map (id_of \<circ> qpod) xs)" by (simp only: distinct_map)
  show "\<forall>x \<in> set xs. where_is q (id_of (qpod x)) = Some (Unschedulable, x)"
    using unschedulable_lookup(2)[OF inv] by (auto simp: xs_def List.map_filter_def)
qed

lemma unschedulable_range_all:
  assumes inv: "queue_inv W L q" and all: "fset (fmdom (unschedulableQ q)) \<subseteq> set ord"
    and w: "where_is q i = Some (Unschedulable, x)"
  shows "x \<in> set (List.map_filter (fmlookup (unschedulableQ q)) ord)"
proof -
  have v: "valid_id i" using where_is_id[OF inv w] by auto
  have l: "fmlookup (unschedulableQ q) (id_full i) = Some x" using where_lookups(3)[OF inv v] w by simp
  then have "id_full i \<in> set ord" using all by (auto intro: fmdomI)
  with l show ?thesis by (auto simp: List.map_filter_def intro!: image_eqI[of _ _ "id_full i"])
qed

lemma movePods_effect:
  assumes keys: "k8s_keys L" and inv: "queue_inv W L q" and d: "distinct (map (id_of \<circ> qpod) xs)"
    and x: "\<forall>x \<in> set xs. where_is q (id_of (qpod x)) = Some (Unschedulable, x)"
  shows "\<exists>q'. movePodsToActiveQueue L lessFunc now xs q = Some q' \<and> queue_inv W L q' \<and>
    where_is q' = moved (destination L now q) (set xs) (where_is q) \<and> moveRequestCycle q' = schedulingCycle q \<and>
    podBackoff q' = podBackoff q \<and> schedulingCycle q' = schedulingCycle q"
proof -
  obtain q' where q': "foldM (move_and_delete L lessFunc now) xs q = Some q'" "queue_inv W L q'" "unmoved q q'"
    "where_is q' = moved (destination L now q) (set xs) (where_is q)"
    using move_loop[OF assms, of now] by blast
  let ?q' = "q'\<lparr>moveRequestCycle := schedulingCycle q'\<rparr>"
  have "queue_inv W L ?q'" "where_is ?q' = where_is q'" using q'(2) by (simp_all add: queue_inv_def where_is_def)
  then show ?thesis using q'(1,3,4) by (auto simp: movePods_foldM unmoved_def)
qed

lemma flushUnschedulable_effect:
  assumes keys: "k8s_keys L" and inv: "queue_inv W L q" and d: "distinct ord" and all: "fset (fmdom (unschedulableQ q)) \<subseteq> set ord"
  shows "\<exists>q'. flushUnschedulableQLeftover L lessFunc now ord q = Some q' \<and> queue_inv W L q' \<and>
    where_is q' = moved (destination L now q) {x. sint unschedulableQTimeInterval < now - timestamp x} (where_is q)"
proof -
  let ?old = "\<lambda>x. unschedulableQTimeInterval <s time_Sub now (timestamp x)"
  define xs where "xs = filter ?old (List.map_filter (fmlookup (unschedulableQ q)) ord)"
  note r = unschedulable_range[OF inv d]
  have old: "?old x \<longleftrightarrow> sint unschedulableQTimeInterval < now - timestamp x" for x
    by (simp add: time_Sub_greater unschedulableQTimeInterval_def Second_def)
  have eq: "moved (destination L now q) (set xs) (where_is q) =
      moved (destination L now q) {x. sint unschedulableQTimeInterval < now - timestamp x} (where_is q)"
  proof
    fix i
    have "x \<in> set xs \<longleftrightarrow> sint unschedulableQTimeInterval < now - timestamp x" if w: "where_is q i = Some (Unschedulable, x)" for x
      using unschedulable_range_all[OF inv all w] old by (simp add: xs_def)
    then show "moved (destination L now q) (set xs) (where_is q) i =
      moved (destination L now q) {x. sint unschedulableQTimeInterval < now - timestamp x} (where_is q) i"
      by (auto simp: moved_def split: option.split place.split)
  qed
  have d': "distinct (map (id_of \<circ> qpod) xs)" using r(1) by (simp add: xs_def distinct_map_filter)
  have w: "\<forall>x \<in> set xs. where_is q (id_of (qpod x)) = Some (Unschedulable, x)" using r(2) by (simp add: xs_def)
  show ?thesis
  proof (cases "xs = []")
    case True
    then show ?thesis using inv eq moved_none[of "destination L now q"]
      by (simp add: flushUnschedulableQLeftover_def xs_def[symmetric])
  next
    case False
    then show ?thesis using movePods_effect[OF keys inv d' w, of now] eq
      by (auto simp: flushUnschedulableQLeftover_def xs_def[symmetric])
  qed
qed

text \<open>\<open>MoveAllToActiveQueue\<close>, which clears \<open>unschedulableQ\<close> once at the end, is \<open>movePodsToActiveQueue\<close>
  on all its pods.\<close>

lemma MoveAll_is_movePods:
  assumes inv: "queue_inv W L q" and all: "fset (fmdom (unschedulableQ q)) \<subseteq> set ord"
  shows "MoveAllToActiveQueue L lessFunc now ord q =
    movePodsToActiveQueue L lessFunc now (List.map_filter (fmlookup (unschedulableQ q)) ord) q"
proof -
  let ?xs = "List.map_filter (fmlookup (unschedulableQ q)) ord"
  have "fold (\<lambda>x. unschedulable_delete (qpod x)) ?xs (unschedulableQ q) = fmempty"
  proof (rule fmap_ext)
    fix k
    have "k \<in> (GetPodFullName \<circ> qpod) ` set ?xs" if k: "fmlookup (unschedulableQ q) k = Some x" for x
    proof -
      have "k \<in> set ord" using all k by (auto intro: fmdomI)
      then have "x \<in> set ?xs" using k by (auto simp: List.map_filter_def intro!: image_eqI[of _ _ k])
      moreover have "k = (GetPodFullName \<circ> qpod) x" using unschedulable_lookup(1)[OF inv k] by (simp add: id_full_of)
      ultimately show ?thesis by blast
    qed
    then show "fmlookup (fold (\<lambda>x. unschedulable_delete (qpod x)) ?xs (unschedulableQ q)) k = fmlookup fmempty k"
      by (cases "fmlookup (unschedulableQ q) k") (auto simp: fmlookup_fold_delete)
  qed
  then show ?thesis
    by (simp add: MoveAllToActiveQueue_def movePods_foldM foldM_move_and_delete option.map_comp comp_def)
qed

lemma MoveAll_effect:
  assumes keys: "k8s_keys L" and inv: "queue_inv W L q" and d: "distinct ord" and all: "fset (fmdom (unschedulableQ q)) \<subseteq> set ord"
  shows "\<exists>q'. MoveAllToActiveQueue L lessFunc now ord q = Some q' \<and> queue_inv W L q' \<and>
    where_is q' = moved (destination L now q) UNIV (where_is q) \<and> moveRequestCycle q' = schedulingCycle q"
proof -
  let ?xs = "List.map_filter (fmlookup (unschedulableQ q)) ord"
  note r = unschedulable_range[OF inv d]
  have "x \<in> set ?xs" if "where_is q i = Some (Unschedulable, x)" for i x
    by (rule unschedulable_range_all[OF inv all that])
  then have "moved (destination L now q) (set ?xs) (where_is q) = moved (destination L now q) UNIV (where_is q)"
    by (intro ext) (auto simp: moved_def split: option.split place.split)
  then show ?thesis using movePods_effect[OF keys inv r, of now] MoveAll_is_movePods[OF inv all] by auto
qed

text \<open>\<open>flushBackoffQCompleted\<close>. One round: the pod at the head of the back-off queue becomes active.\<close>

lemma backoff_lookup:
  assumes "queue_inv W L q" "fmlookup (heap_content (podBackoffQ q)) k = Some x"
  shows "k = id_key (id_of (qpod x))" "valid_pod (qpod x)" "where_is q (id_of (qpod x)) = Some (BackingOff, x)"
proof -
  note D = queue_invD[OF assms(1)]
  have k: "k = id_key (id_of (qpod x))" and v: "valid_pod (qpod x)"
    using places_invD(2)[OF D(5)] assms(2) by (auto simp: keyed_by_def)
  show "k = id_key (id_of (qpod x))" "valid_pod (qpod x)" by (rule k, rule v)
  show "where_is q (id_of (qpod x)) = Some (BackingOff, x)"
    using where_lookups(2)[OF assms(1), of "id_of (qpod x)"] assms(2) v
    by (auto simp: k split: option.splits place.splits prod.splits)
qed

lemma flush_round:
  assumes keys: "k8s_keys L" and inv: "queue_inv W L q"
    and x: "fmlookup (heap_content (podBackoffQ q)) k = Some x"
    and h: "heap_wf h" "heap_content h = fmdrop k (heap_content (podBackoffQ q))"
  shows "\<exists>a. active_add L lessFunc x (q\<lparr>podBackoffQ := h\<rparr>) = Some (q\<lparr>podBackoffQ := h, activeQ := a\<rparr>, None) \<and>
    queue_inv W L (q\<lparr>podBackoffQ := h, activeQ := a\<rparr>) \<and>
    where_is (q\<lparr>podBackoffQ := h, activeQ := a\<rparr>) = (where_is q)(id_of (qpod x) \<mapsto> (Active, x))"
proof -
  note D = queue_invD[OF inv] and B = backoff_lookup[OF inv x]
  have "fmlookup (unschedulableQ q) (id_full (id_of (qpod x))) = None"
    using where_lookups(3)[OF inv, of "id_of (qpod x)"] B(2,3) by simp
  moreover obtain a where "active_add L lessFunc x (q\<lparr>podBackoffQ := h\<rparr>) = Some (q\<lparr>podBackoffQ := h\<rparr>\<lparr>activeQ := a\<rparr>, None)" "W a"
    "heap_content a = fmupd (id_key (id_of (qpod x))) x (heap_content (activeQ q))"
    using active_add_spec[OF keys, of "q\<lparr>podBackoffQ := h\<rparr>" x] D(1) by auto
  ultimately show ?thesis using set_active[OF D(5) B(2) refl] D(3,4) h
    by (intro exI[of _ a]) (simp add: queue_inv_def where_is_def B(1) fmdrop_absent)
qed

text \<open>\<open>V\<close> is any property of the back-off heap that popping preserves.\<close>

lemma flush_loop:
  assumes keys: "k8s_keys L"
    and V: "\<forall>h h' r. V h \<longrightarrow> Heap_Pop (podsCompareBackoffCompleted L pb) h = Some (h', r) \<longrightarrow> V h'"
  shows "queue_inv W L q \<Longrightarrow> podBackoff q = pb \<Longrightarrow> V (podBackoffQ q) \<Longrightarrow> Heap_Len (podBackoffQ q) < n \<Longrightarrow>
    \<exists>q'. flushBackoff_loop n L lessFunc now q = Some q' \<and> queue_inv W L q' \<and> V (podBackoffQ q') \<and> unmoved q q' \<and>
      (\<forall>i. where_is q' i = where_is q i \<or>
         (\<exists>x. where_is q i = Some (BackingOff, x) \<and> where_is q' i = Some (Active, x) \<and> \<not> isPodBackingOff L now pb (qpod x))) \<and>
      (\<forall>x. Heap_Peek (podBackoffQ q') = Some (Some x) \<longrightarrow> isPodBackingOff L now pb (qpod x))"
proof (induction n arbitrary: q)
  case (Suc n)
  note inv = Suc.prems(1) and pb = Suc.prems(2)
  note D = queue_invD[OF inv]
  show ?case
  proof (cases "heap_content (podBackoffQ q) = fmempty")
    case True
    then show ?thesis using Suc.prems Heap_Peek_empty[OF True D(2)] by (simp add: unmoved_def)
  next
    case False
    define k where "k = queue (podBackoffQ q) ! 0"
    obtain h x where h: "Heap_Pop (podsCompareBackoffCompleted L pb) (podBackoffQ q) = Some (h, Inr x)"
      "Heap_Peek (podBackoffQ q) = Some (Some x)" "heap_wf h" "fmlookup (heap_content (podBackoffQ q)) k = Some x"
      "heap_content h = fmdrop k (heap_content (podBackoffQ q))"
      using Heap_Pop_wf[OF D(2) False] unfolding k_def by blast
    show ?thesis
    proof (cases "isPodBackingOff L now pb (qpod x)")
      case True
      then have "flushBackoff_loop (Suc n) L lessFunc now q = Some q"
        using h(2) pb by (auto simp: isPodBackingOff_def Let_def split: prod.splits if_splits)
      then show ?thesis using Suc.prems h(2) True by (auto simp: unmoved_def)
    next
      case False
      obtain a where a: "active_add L lessFunc x (q\<lparr>podBackoffQ := h\<rparr>) = Some (q\<lparr>podBackoffQ := h, activeQ := a\<rparr>, None)"
        "queue_inv W L (q\<lparr>podBackoffQ := h, activeQ := a\<rparr>)"
        "where_is (q\<lparr>podBackoffQ := h, activeQ := a\<rparr>) = (where_is q)(id_of (qpod x) \<mapsto> (Active, x))"
        using flush_round[OF keys inv h(4,3,5)] by blast
      let ?q1 = "q\<lparr>podBackoffQ := h, activeQ := a\<rparr>"
      have len: "Heap_Len h < n"
        using Suc.prems(4) fcard_fmdrop_less[OF h(4)] Heap_Len_content[OF D(2)] Heap_Len_content[OF h(3)] h(5) by simp
      have "flushBackoff_loop (Suc n) L lessFunc now q = flushBackoff_loop n L lessFunc now ?q1"
        using h(1,2) a(1) pb False by (auto simp: isPodBackingOff_def Let_def split: prod.splits if_splits)
      moreover obtain q' where q': "flushBackoff_loop n L lessFunc now ?q1 = Some q'" "queue_inv W L q'" "V (podBackoffQ q')"
        "unmoved ?q1 q'" "\<forall>i. where_is q' i = where_is ?q1 i \<or> (\<exists>y. where_is ?q1 i = Some (BackingOff, y) \<and>
           where_is q' i = Some (Active, y) \<and> \<not> isPodBackingOff L now pb (qpod y))"
        "\<forall>y. Heap_Peek (podBackoffQ q') = Some (Some y) \<longrightarrow> isPodBackingOff L now pb (qpod y)"
        using Suc.IH[OF a(2)] pb V[rule_format, OF Suc.prems(3) h(1)] len by auto
      moreover have "where_is q' i = where_is q i \<or> (\<exists>y. where_is q i = Some (BackingOff, y) \<and>
           where_is q' i = Some (Active, y) \<and> \<not> isPodBackingOff L now pb (qpod y))" for i
      proof (cases "i = id_of (qpod x)")
        case True
        then have "where_is q' i = Some (Active, x)" using q'(5)[rule_format, of i] a(3) by auto
        then show ?thesis using True backoff_lookup(3)[OF inv h(4)] False by simp
      next
        case False
        then show ?thesis using q'(5)[rule_format, of i] a(3) by simp
      qed
      ultimately show ?thesis by (auto simp: unmoved_def)
    qed
  qed
qed simp

lemma flushBackoff_effect:
  assumes keys: "k8s_keys L" and inv: "queue_inv W L q"
  shows "\<exists>q'. flushBackoffQCompleted L lessFunc now q = Some q' \<and> queue_inv W L q' \<and> unmoved q q' \<and>
      (\<forall>i. where_is q' i = where_is q i \<or>
         (\<exists>x. where_is q i = Some (BackingOff, x) \<and> where_is q' i = Some (Active, x) \<and>
            \<not> isPodBackingOff L now (podBackoff q) (qpod x)))"
  using flush_loop[OF keys, of "\<lambda>_. True" "podBackoff q" q "Heap_Len (podBackoffQ q) + 1" now] inv
  unfolding flushBackoffQCompleted_def by auto

text \<open>When the back-off heap is ordered by the current back-off times, exactly the pods that have
  completed their back-off become active.\<close>

lemma flushBackoff_ordered:
  assumes keys: "k8s_keys L" and inv: "queue_inv W L q" and now: "0 \<le> now"
    and ord: "heap_inv (podsCompareBackoffCompleted L (podBackoff q)) (podBackoffQ q)"
  shows "\<exists>q'. flushBackoffQCompleted L lessFunc now q = Some q' \<and> queue_inv W L q' \<and>
    where_is q' = (\<lambda>i. case where_is q i of
        Some (BackingOff, x) \<Rightarrow> Some (if isPodBackingOff L now (podBackoff q) (qpod x) then BackingOff else Active, x)
      | r \<Rightarrow> r)"
proof -
  let ?lt = "podsCompareBackoffCompleted L (podBackoff q)" and ?b = "\<lambda>x. isPodBackingOff L now (podBackoff q) (qpod x)"
  have V': "heap_inv ?lt h'" if "heap_inv ?lt h" "Heap_Pop ?lt h = Some (h', r)" for h h' r
  proof (cases "heap_content h = fmempty")
    case True
    then show ?thesis using that heap_wf_empty[of h]
      by (simp add: Heap_Pop_def heap_Pop_def heapData_Len_def heap_inv_def)
  next
    case False
    then show ?thesis using bc.Heap_Pop_inv[OF that(1)] that(2) by fastforce
  qed
  then have V: "\<forall>h h' r. heap_inv ?lt h \<longrightarrow> Heap_Pop ?lt h = Some (h', r) \<longrightarrow> heap_inv ?lt h'" by blast
  obtain q' where q': "flushBackoffQCompleted L lessFunc now q = Some q'" "queue_inv W L q'" "heap_inv ?lt (podBackoffQ q')"
    "\<forall>i. where_is q' i = where_is q i \<or>
       (\<exists>x. where_is q i = Some (BackingOff, x) \<and> where_is q' i = Some (Active, x) \<and> \<not> ?b x)"
    "\<forall>x. Heap_Peek (podBackoffQ q') = Some (Some x) \<longrightarrow> ?b x"
    using flush_loop[where V = "heap_inv ?lt", OF keys V inv refl ord, of "Heap_Len (podBackoffQ q) + 1" now]
    unfolding flushBackoffQCompleted_def by auto
  have left: "?b x" if w: "where_is q' i = Some (BackingOff, x)" for i x
  proof -
    have v: "valid_id i" using where_is_id[OF q'(2) w] by auto
    have l: "fmlookup (heap_content (podBackoffQ q')) (id_key i) = Some x" using where_lookups(2)[OF q'(2) v] w by simp
    then have "heap_content (podBackoffQ q') \<noteq> fmempty" by auto
    from bc.Heap_Pop_inv[OF q'(3) this] obtain y where y: "Heap_Peek (podBackoffQ q') = Some (Some y)" "\<not> ?lt x y"
      using l by blast
    have "?b y" using q'(5) y(1) by blast
    then show ?thesis using y(2) now
      by (auto simp: isPodBackingOff_def podsCompareBackoffCompleted_def Before_def After_def GetBackoffTime_def
          split: option.splits)
  qed
  have "where_is q' i = (case where_is q i of Some (BackingOff, x) \<Rightarrow> Some (if ?b x then BackingOff else Active, x) | r \<Rightarrow> r)" for i
    using q'(4)[rule_format, of i] left[of i] by (auto split: option.splits place.splits)
  then show ?thesis using q'(1,2) by blast
qed

text \<open>Events of assigned pods move the unschedulable pods with a matching affinity term.\<close>

lemma AssignedPod_effect:
  assumes keys: "k8s_keys L" and inv: "queue_inv W L q" and d: "distinct ord" and all: "fset (fmdom (unschedulableQ q)) \<subseteq> set ord"
    and sel: "\<forall>i x. where_is q i = Some (Unschedulable, x) \<longrightarrow> selectors_ok L x"
  shows "\<exists>q'. PriorityQueue_AssignedPodAdded L lessFunc now ord pod q = Some q' \<and> queue_inv W L q' \<and>
    where_is q' = moved (destination L now q) {x. affinity_matches L pod x} (where_is q) \<and>
    moveRequestCycle q' = schedulingCycle q"
proof -
  let ?xs = "List.map_filter (fmlookup (unschedulableQ q)) ord"
  note r = unschedulable_range[OF inv d]
  have m: "matching_affinity L pod ?xs = Some (filter (affinity_matches L pod) ?xs)"
    by (rule matching_affinity_filter) (use r(2) sel in blast)
  let ?ys = "filter (affinity_matches L pod) ?xs"
  have d': "distinct (map (id_of \<circ> qpod) ?ys)" using r(1) by (simp add: distinct_map_filter)
  have w: "\<forall>x \<in> set ?ys. where_is q (id_of (qpod x)) = Some (Unschedulable, x)" using r(2) by simp
  have "x \<in> set ?ys \<longleftrightarrow> affinity_matches L pod x" if "where_is q i = Some (Unschedulable, x)" for i x
    using unschedulable_range_all[OF inv all that] by simp
  then have "moved (destination L now q) (set ?ys) (where_is q) = moved (destination L now q) {x. affinity_matches L pod x} (where_is q)"
    by (intro ext) (auto simp: moved_def split: option.split place.split)
  with movePods_effect[OF keys inv d' w, of now] show ?thesis
    by (auto simp: PriorityQueue_AssignedPodAdded_def getUnschedulablePodsWithMatchingAffinityTerm_def m)
qed

end

interpretation qw: queue_on heap_wf L lessFunc for L :: k8s and lessFunc :: "podInfo LessFunc"
  by unfold_locales

lemma queue_on_order:
  assumes "less_order lt"
  shows "queue_on (heap_inv lt) L lt"
proof -
  have "keyed_pq (heap_inv lt) heap_content (podInfoKeyFunc L) (Heap_Add (podInfoKeyFunc L) lt)
    (Heap_Delete (podInfoKeyFunc L) lt) (Heap_Pop lt) lt" by (rule less_order.heap_is_pq[OF assms])
  then show ?thesis by (simp add: keyed_pq_def queue_on_def queue_on_axioms_def heap_inv_def)
qed

lemma activeQComp_sint:
  "activeQComp x y \<longleftrightarrow> sint (GetPodPriority (qpod y)) < sint (GetPodPriority (qpod x)) \<or>
     sint (GetPodPriority (qpod x)) = sint (GetPodPriority (qpod y)) \<and> timestamp x < timestamp y"
  by (auto simp: activeQComp_def Let_def Before_def word_sless_alt dest: signed_word_eqI)

interpretation ao: less_order activeQComp
  by unfold_locales (auto simp: activeQComp_sint)

interpretation qo: queue_on "heap_inv activeQComp" L activeQComp for L :: k8s
  by (rule queue_on_order) (rule ao.less_order_axioms)

subsection \<open>Histories of the queue\<close>

text \<open>Every call of a method of the queue is a step. Pods are valid, an update keeps the identity of the
  pod, and \<open>range_of\<close> says that \<open>ord\<close> visits every key of \<open>unschedulableQ\<close> once.\<close>

definition range_of :: "PriorityQueue \<Rightarrow> string list \<Rightarrow> bool" where
  "range_of q ord \<longleftrightarrow> distinct ord \<and> fset (fmdom (unschedulableQ q)) \<subseteq> set ord"

inductive queue_step :: "k8s \<Rightarrow> podInfo LessFunc \<Rightarrow> PriorityQueue \<Rightarrow> PriorityQueue \<Rightarrow> bool" for L lessFunc where
  Add: "valid_pod pod \<Longrightarrow> PriorityQueue_Add L lessFunc now pod q = Some (q', e) \<Longrightarrow> queue_step L lessFunc q q'"
| AddIfNotPresent: "valid_pod pod \<Longrightarrow> PriorityQueue_AddIfNotPresent L lessFunc now pod q = Some (q', e) \<Longrightarrow> queue_step L lessFunc q q'"
| AddUnschedulable: "valid_pod pod \<Longrightarrow> AddUnschedulableIfNotPresent L now pod cycle q = Some (q', e) \<Longrightarrow> queue_step L lessFunc q q'"
| Pop: "PriorityQueue_Pop lessFunc q = Some (q', r) \<Longrightarrow> queue_step L lessFunc q q'"
| Update: "valid_pod new \<Longrightarrow> id_of old = id_of new \<Longrightarrow> PriorityQueue_Update L lessFunc now (Some old) new q = Some (q', e) \<Longrightarrow>
    queue_step L lessFunc q q'"
| Delete: "valid_pod pod \<Longrightarrow> PriorityQueue_Delete L lessFunc pod q = Some q' \<Longrightarrow> queue_step L lessFunc q q'"
| MoveAll: "range_of q ord \<Longrightarrow> MoveAllToActiveQueue L lessFunc now ord q = Some q' \<Longrightarrow> queue_step L lessFunc q q'"
| FlushBackoff: "flushBackoffQCompleted L lessFunc now q = Some q' \<Longrightarrow> queue_step L lessFunc q q'"
| FlushUnschedulable: "range_of q ord \<Longrightarrow> flushUnschedulableQLeftover L lessFunc now ord q = Some q' \<Longrightarrow> queue_step L lessFunc q q'"
| AssignedPod: "range_of q ord \<Longrightarrow> \<forall>i x. where_is q i = Some (Unschedulable, x) \<longrightarrow> selectors_ok L x \<Longrightarrow>
    PriorityQueue_AssignedPodAdded L lessFunc now ord pod q = Some q' \<Longrightarrow> queue_step L lessFunc q q'"
| Nominate: "queue_step L lessFunc q (UpdateNominatedPodForNode pod node q)"
| Unnominate: "queue_step L lessFunc q (DeleteNominatedPodIfExists pod q)"
| Close: "queue_step L lessFunc q (PriorityQueue_Close q)"

context queue_on
begin

lemma step_inv:
  assumes keys: "k8s_keys L" and "queue_step L lessFunc q q'" and inv: "queue_inv W L q"
  shows "queue_inv W L q'"
  using assms(2)
proof cases
  case (Add pod now e)
  then show ?thesis using Add_effect[OF keys inv, of pod now] by auto
next
  case (AddIfNotPresent pod now e)
  then show ?thesis using AddIfNotPresent_effect[OF keys inv, of pod now] by auto
next
  case (AddUnschedulable pod now cycle e)
  then show ?thesis
    using AddUnschedulable_effect[OF keys inv, of pod now cycle] AddUnschedulable_refused[OF keys inv, of pod now cycle] inv by force
next
  case (Pop r)
  show ?thesis
  proof (cases "\<exists>i x. where_is q i = Some (Active, x)")
    case True
    then show ?thesis using Pop_effect[OF inv] Pop by fastforce
  next
    case False
    then show ?thesis using Pop_empty[OF inv] Pop inv by auto
  qed
next
  case (Update new old now e)
  then show ?thesis using Update_effect[OF keys inv, of new old now] by auto
next
  case (Delete pod)
  then show ?thesis using Delete_effect[OF keys inv, of pod] by auto
next
  case (MoveAll ord now)
  then show ?thesis using MoveAll_effect[OF keys inv, of ord now] by (auto simp: range_of_def)
next
  case (FlushBackoff now)
  then show ?thesis using flushBackoff_effect[OF keys inv, of now] by auto
next
  case (FlushUnschedulable ord now)
  then show ?thesis using flushUnschedulable_effect[OF keys inv, of ord now] by (auto simp: range_of_def)
next
  case (AssignedPod ord now pod)
  then show ?thesis using AssignedPod_effect[OF keys inv, of ord now pod] by (auto simp: range_of_def)
next
  case (Nominate pod node)
  then show ?thesis using queue_inv_nominated(1)[OF inv nominated_add_inv[OF queue_invD(4)[OF inv]]]
    by (simp add: UpdateNominatedPodForNode_def)
next
  case (Unnominate pod)
  then show ?thesis using queue_inv_nominated(1)[OF inv nominated_delete_spec(3)[OF queue_invD(4)[OF inv]]]
    by (simp add: DeleteNominatedPodIfExists_def)
next
  case Close
  then show ?thesis using inv by (simp add: queue_inv_def PriorityQueue_Close_def)
qed

lemma steps_inv:
  assumes "k8s_keys L" "(queue_step L lessFunc)\<^sup>*\<^sup>* q q'" "queue_inv W L q"
  shows "queue_inv W L q'"
  using assms(2,3) by (induction rule: rtranclp_induct) (auto intro: step_inv[OF assms(1)])

text \<open>The list of pending pods has every pod that is somewhere, once.\<close>

lemma lookups_keyed:
  assumes "keyed_by f m" "distinct ord"
  shows "distinct (map id_of (map qpod (List.map_filter (fmlookup m) ord)))"
proof -
  have "map f (map id_of (map qpod (List.map_filter (fmlookup m) ks))) = filter (\<lambda>k. fmlookup m k \<noteq> None) ks" for ks
    using assms(1) by (induction ks) (auto simp: List.map_filter_simps keyed_by_def split: option.split)
  then have "distinct (map f (map id_of (map qpod (List.map_filter (fmlookup m) ord))))" using assms(2) by simp
  then show ?thesis by (simp only: distinct_map)
qed

lemma set_map_filter_lookup: "set (List.map_filter (fmlookup m) ord) = {x. \<exists>k \<in> set ord. fmlookup m k = Some x}"
  by (rule set_map_filter)

lemma map_filter_lookupI:
  assumes "fset (fmdom m) \<subseteq> set ord" "fmlookup m k = Some x"
  shows "x \<in> set (List.map_filter (fmlookup m) ord)"
proof -
  have "k \<in> set ord" using assms by (auto intro: fmdomI)
  then show ?thesis using assms(2) unfolding set_map_filter_lookup by blast
qed

lemma PendingPods_places:
  assumes inv: "queue_inv W L q"
    and A: "distinct ordA" "fset (fmdom (heap_content (activeQ q))) \<subseteq> set ordA"
    and B: "distinct ordB" "fset (fmdom (heap_content (podBackoffQ q))) \<subseteq> set ordB" and U: "range_of q ordU"
  shows "distinct (map id_of (PriorityQueue_PendingPods ordA ordB ordU q))"
    "pod \<in> set (PriorityQueue_PendingPods ordA ordB ordU q) \<longleftrightarrow> (\<exists>w x. where_is q (id_of pod) = Some (w, x) \<and> qpod x = pod)"
proof -
  note D = queue_invD[OF inv]
  note K = places_invD[OF D(5)]
  let ?A = "List.map_filter (fmlookup (heap_content (activeQ q))) ordA"
    and ?B = "List.map_filter (fmlookup (heap_content (podBackoffQ q))) ordB" and ?U = "List.map_filter (fmlookup (unschedulableQ q)) ordU"
  have gk: "Heap_GetByKey h = fmlookup (heap_content h)" for h :: "podInfo heapData"
    by (simp add: fun_eq_iff Heap_GetByKey_content)
  have pending: "PriorityQueue_PendingPods ordA ordB ordU q = map qpod ?A @ map qpod ?B @ map qpod ?U"
    by (simp add: PriorityQueue_PendingPods_def Heap_List_def gk)
  have at: "x \<in> set ?A \<longleftrightarrow> where_is q (id_of (qpod x)) = Some (Active, x)"
    "x \<in> set ?B \<longleftrightarrow> where_is q (id_of (qpod x)) = Some (BackingOff, x)"
    "x \<in> set ?U \<longleftrightarrow> where_is q (id_of (qpod x)) = Some (Unschedulable, x)" for x
  proof -
    have v: "valid_id (id_of (qpod x))" if "where_is q (id_of (qpod x)) = Some (w, x)" for w
      using where_is_id(1)[OF inv that] by simp
    show "x \<in> set ?A \<longleftrightarrow> where_is q (id_of (qpod x)) = Some (Active, x)"
    proof
      show "where_is q (id_of (qpod x)) = Some (Active, x)" if "x \<in> set ?A"
        using that active_lookup(3)[OF inv] unfolding set_map_filter_lookup by blast
      show "x \<in> set ?A" if w: "where_is q (id_of (qpod x)) = Some (Active, x)"
        using where_lookups(1)[OF inv v[OF w]] w by (intro map_filter_lookupI[OF A(2)]) simp
    qed
    show "x \<in> set ?B \<longleftrightarrow> where_is q (id_of (qpod x)) = Some (BackingOff, x)"
    proof
      show "where_is q (id_of (qpod x)) = Some (BackingOff, x)" if "x \<in> set ?B"
        using that backoff_lookup(3)[OF inv] unfolding set_map_filter_lookup by blast
      show "x \<in> set ?B" if w: "where_is q (id_of (qpod x)) = Some (BackingOff, x)"
        using where_lookups(2)[OF inv v[OF w]] w by (intro map_filter_lookupI[OF B(2)]) simp
    qed
    show "x \<in> set ?U \<longleftrightarrow> where_is q (id_of (qpod x)) = Some (Unschedulable, x)"
    proof
      show "where_is q (id_of (qpod x)) = Some (Unschedulable, x)" if "x \<in> set ?U"
        using that unschedulable_lookup(2)[OF inv] unfolding set_map_filter_lookup by blast
      show "x \<in> set ?U" if "where_is q (id_of (qpod x)) = Some (Unschedulable, x)"
        using unschedulable_range_all[OF inv _ that] U by (simp add: range_of_def)
    qed
  qed
  have dj: "id_of ` qpod ` S \<inter> id_of ` qpod ` T = {}"
    if "\<forall>x \<in> S. where_is q (id_of (qpod x)) = Some (w, x)" "\<forall>y \<in> T. where_is q (id_of (qpod y)) = Some (w', y)" "w \<noteq> w'" for S T w w'
  proof -
    note S = that
    have False if xy: "x \<in> S" "y \<in> T" "id_of (qpod x) = id_of (qpod y)" for x y
      using bspec[OF S(1) xy(1)] bspec[OF S(2) xy(2)] xy(3) S(3) by simp
    then show ?thesis by blast
  qed
  have SA: "\<forall>x \<in> set ?A. where_is q (id_of (qpod x)) = Some (Active, x)"
    and SB: "\<forall>x \<in> set ?B. where_is q (id_of (qpod x)) = Some (BackingOff, x)"
    and SU: "\<forall>x \<in> set ?U. where_is q (id_of (qpod x)) = Some (Unschedulable, x)" using at by blast+
  have "distinct (map id_of (map qpod ?A))" "distinct (map id_of (map qpod ?B))" "distinct (map id_of (map qpod ?U))"
    using lookups_keyed[OF K(1) A(1)] lookups_keyed[OF K(2) B(1)] lookups_keyed[OF K(3)] U by (auto simp: range_of_def)
  moreover have "id_of ` qpod ` set ?A \<inter> id_of ` qpod ` set ?B = {}" "id_of ` qpod ` set ?A \<inter> id_of ` qpod ` set ?U = {}"
    "id_of ` qpod ` set ?B \<inter> id_of ` qpod ` set ?U = {}"
    using dj[OF SA SB] dj[OF SA SU] dj[OF SB SU] by simp_all
  ultimately show "distinct (map id_of (PriorityQueue_PendingPods ordA ordB ordU q))"
    unfolding pending map_append distinct_append set_map set_append by (simp add: Int_Un_distrib)
  have split: "pod \<in> set (PriorityQueue_PendingPods ordA ordB ordU q) \<longleftrightarrow> (\<exists>x. qpod x = pod \<and> (x \<in> set ?A \<or> x \<in> set ?B \<or> x \<in> set ?U))"
    unfolding pending by auto
  show "pod \<in> set (PriorityQueue_PendingPods ordA ordB ordU q) \<longleftrightarrow> (\<exists>w x. where_is q (id_of pod) = Some (w, x) \<and> qpod x = pod)"
    unfolding split at place_ex by auto
qed

end

lemma NewPriorityQueue_inv:
  assumes "W NewHeap"
  shows "queue_inv W L NewPriorityQueue" "where_is NewPriorityQueue = Map.empty"
proof -
  have e: "heap_content (NewHeap :: podInfo heapData) = fmempty" by (rule ao.NewHeap_inv(2))
  have "heap_wf (NewHeap :: podInfo heapData)" using ao.NewHeap_inv(1) by (simp add: heap_inv_def)
  moreover have "places_inv fmempty fmempty fmempty" by (simp add: places_inv_def keyed_by_def at_most_one_def)
  ultimately show "queue_inv W L NewPriorityQueue"
    using assms by (simp add: queue_inv_def NewPriorityQueue_def e backoff_inv_Create nominated_inv_new)
  show "where_is NewPriorityQueue = Map.empty"
    by (rule ext) (simp add: where_is_def placed_def NewPriorityQueue_def e)
qed

subsection \<open>Properties\<close>

definition queued_pod :: Pod where
  "queued_pod = zero_Pod\<lparr>pod_UID := ''u1'', pod_Name := ''web'', pod_Namespace := ''prod''\<rparr>"

lemma queued_pod_valid: "valid_pod queued_pod" "id_of queued_pod = (''prod'', ''web'')"
  by (simp_all add: valid_pod_def dns_name_def queued_pod_def zero_Pod_def id_of_def)

text \<open>A queue with one unschedulable pod, for the examples.\<close>

lemma example_unschedulable:
  "\<exists>q. AddUnschedulableIfNotPresent example_k8s 100 queued_pod 5 NewPriorityQueue = Some (q, None) \<and>
     queue_inv (heap_inv lt) example_k8s q \<and> where_is q = [id_of queued_pod \<mapsto> (Unschedulable, newPodInfo 100 queued_pod)]"
  if "less_order lt"
proof -
  have n: "heap_inv lt NewHeap" by (rule less_order.NewHeap_inv(1)[OF that])
  have "moveRequestCycle NewPriorityQueue = - 1" by (simp add: NewPriorityQueue_def)
  then have c: "\<not> (5 :: int64) \<le>s moveRequestCycle NewPriorityQueue" by (simp add: word_sle_eq)
  show ?thesis
    using queue_on.AddUnschedulable_effect[OF queue_on_order[OF that] k8s_keys_example NewPriorityQueue_inv(1)[of "heap_inv lt", OF n] queued_pod_valid(1),
        of 100 5] NewPriorityQueue_inv(2)[of "heap_inv lt", OF n] c by auto
qed

text \<open>
  C25. In every history of calls on a new priority queue (additions, updates, deletions, pops, moves,
  flushes, nominations) no pod is ever in two of the three sub-queues, the active queue stays ordered
  by priority and arrival, and \<open>PendingPods\<close> lists every pending pod exactly once.
\<close>

theorem queue_one_place:
  assumes keys: "k8s_keys L" and steps: "(queue_step L activeQComp)\<^sup>*\<^sup>* NewPriorityQueue q"
    and A: "distinct ordA" "fset (fmdom (heap_content (activeQ q))) \<subseteq> set ordA"
    and B: "distinct ordB" "fset (fmdom (heap_content (podBackoffQ q))) \<subseteq> set ordB" and U: "range_of q ordU"
  shows "queue_inv (heap_inv activeQComp) L q \<and> distinct (map id_of (PriorityQueue_PendingPods ordA ordB ordU q)) \<and>
    (\<forall>pod. pod \<in> set (PriorityQueue_PendingPods ordA ordB ordU q) \<longleftrightarrow>
       (\<exists>w x. where_is q (id_of pod) = Some (w, x) \<and> qpod x = pod))"
proof -
  have inv: "queue_inv (heap_inv activeQComp) L q"
    by (rule qo.steps_inv[OF keys steps NewPriorityQueue_inv(1)[of "heap_inv activeQComp", OF ao.NewHeap_inv(1)]])
  show ?thesis using inv qo.PendingPods_places[OF inv A B U] by blast
qed

theorem queue_one_place_witness:
  "\<exists>q. PriorityQueue_Add example_k8s activeQComp 7 queued_pod NewPriorityQueue = Some (q, None) \<and>
     PriorityQueue_PendingPods [''prod/web''] [] [] q = [queued_pod]"
proof -
  let ?L = example_k8s and ?i = "id_of queued_pod"
  note n = NewPriorityQueue_inv[of "heap_inv activeQComp", OF ao.NewHeap_inv(1)]
  obtain q where q: "PriorityQueue_Add ?L activeQComp 7 queued_pod NewPriorityQueue = Some (q, None)"
    "queue_inv (heap_inv activeQComp) ?L q" "where_is q = [?i \<mapsto> (Active, newPodInfo 7 queued_pod)]"
    using qo.Add_effect[OF k8s_keys_example n(1) queued_pod_valid(1), of 7] n(2) by auto
  have steps: "(queue_step ?L activeQComp)\<^sup>*\<^sup>* NewPriorityQueue q"
    using q(1) queued_pod_valid(1) by (intro r_into_rtranclp queue_step.Add)
  have key: "id_key ?i = ''prod/web''" by (simp add: queued_pod_valid(2) id_key_def)
  have A: "fset (fmdom (heap_content (activeQ q))) \<subseteq> set [''prod/web'']"
    using qo.active_lookup[OF q(2)] q(3) key by (fastforce simp: fmlookup_dom_iff split: if_splits)
  have B: "fset (fmdom (heap_content (podBackoffQ q))) \<subseteq> set []"
    using qo.backoff_lookup[OF q(2)] q(3) by (fastforce simp: fmlookup_dom_iff split: if_splits)
  have U: "range_of q []"
    using qo.unschedulable_lookup[OF q(2)] q(3) by (fastforce simp: range_of_def fmlookup_dom_iff split: if_splits)
  let ?P = "PriorityQueue_PendingPods [''prod/web''] [] [] q"
  have P: "distinct (map id_of ?P)" "\<forall>pod. pod \<in> set ?P \<longleftrightarrow> (\<exists>w x. where_is q (id_of pod) = Some (w, x) \<and> qpod x = pod)"
    using queue_one_place[OF k8s_keys_example steps _ A _ B U] by auto
  have "set ?P = {queued_pod}" using P(2) q(3) by (auto simp: newPodInfo_def split: if_splits)
  moreover have "distinct ?P" using P(1) by (simp only: distinct_map)
  ultimately have "?P = [queued_pod]" by (cases ?P; cases "tl ?P") auto
  with q(1) show ?thesis by blast
qed

text \<open>
  Adding, conditionally adding and deleting a pod refine the corresponding operations of the map
  from pod identities to places, for any ordering function: \<open>Add\<close> makes the pod active wherever it
  was, \<open>AddIfNotPresent\<close> does so only for a pod that is nowhere, \<open>Delete\<close> removes it, and no other
  pod is touched. None of them fails or panics.
\<close>

theorem queue_add_delete:
  assumes keys: "k8s_keys L" and inv: "queue_inv heap_wf L q" and v: "valid_pod pod"
  shows "(\<exists>q'. PriorityQueue_Add L lessFunc now pod q = Some (q', None) \<and> queue_inv heap_wf L q' \<and>
      where_is q' = (where_is q)(id_of pod \<mapsto> (Active, newPodInfo now pod))) \<and>
    (\<exists>q'. PriorityQueue_AddIfNotPresent L lessFunc now pod q = Some (q', None) \<and> queue_inv heap_wf L q' \<and>
      where_is q' = (if where_is q (id_of pod) \<noteq> None then where_is q
                     else (where_is q)(id_of pod \<mapsto> (Active, newPodInfo now pod)))) \<and>
    (\<exists>q'. PriorityQueue_Delete L lessFunc pod q = Some q' \<and> queue_inv heap_wf L q' \<and>
      where_is q' = (where_is q)(id_of pod := None))"
  using qw.Add_effect[OF assms, of lessFunc now] qw.AddIfNotPresent_effect[OF assms, of lessFunc now]
    qw.Delete_effect[OF assms, of lessFunc] by blast

theorem queue_add_delete_witness:
  "\<exists>q. PriorityQueue_Add example_k8s activeQComp 7 queued_pod NewPriorityQueue = Some (q, None) \<and>
     where_is q (''prod'', ''web'') = Some (Active, newPodInfo 7 queued_pod)"
proof -
  have "heap_wf (NewHeap :: podInfo heapData)" using ao.NewHeap_inv(1) by (simp add: heap_inv_def)
  from queue_add_delete[OF k8s_keys_example NewPriorityQueue_inv(1)[of heap_wf, OF this] queued_pod_valid(1), of activeQComp 7]
  show ?thesis by (auto simp: queued_pod_valid(2))
qed

text \<open>
  A pod that could not be scheduled is put aside only if it is nowhere in the queue: it goes to the
  back-off queue when a move request arrived during or after its scheduling cycle, so that it does not
  miss the event, and to the unschedulable queue otherwise. A pod that is somewhere is refused with an
  error and nothing changes.
\<close>

theorem AddUnschedulable_place:
  assumes keys: "k8s_keys L" and inv: "queue_inv heap_wf L q" and v: "valid_pod pod"
  shows "(where_is q (id_of pod) \<noteq> None \<longrightarrow> (\<exists>e. AddUnschedulableIfNotPresent L now pod cycle q = Some (q, Some e))) \<and>
    (where_is q (id_of pod) = None \<longrightarrow> (\<exists>q'. AddUnschedulableIfNotPresent L now pod cycle q = Some (q', None) \<and>
      queue_inv heap_wf L q' \<and> where_is q' = (where_is q)(id_of pod \<mapsto>
        (if cycle \<le>s moveRequestCycle q then BackingOff else Unschedulable, newPodInfo now pod))))"
  using qw.AddUnschedulable_refused[OF assms] qw.AddUnschedulable_effect[OF assms] by blast

theorem AddUnschedulable_place_witness:
  "\<exists>q. AddUnschedulableIfNotPresent example_k8s 100 queued_pod (- 1) NewPriorityQueue = Some (q, None) \<and>
     where_is q (''prod'', ''web'') = Some (BackingOff, newPodInfo 100 queued_pod)"
proof -
  have w: "heap_wf (NewHeap :: podInfo heapData)" using ao.NewHeap_inv(1) by (simp add: heap_inv_def)
  note n = NewPriorityQueue_inv[of heap_wf, OF w]
  have "moveRequestCycle NewPriorityQueue = - 1" by (simp add: NewPriorityQueue_def)
  then show ?thesis
    using AddUnschedulable_place[OF k8s_keys_example n(1) queued_pod_valid(1), of 100 "- 1"] n(2)
    by (auto simp: queued_pod_valid(2))
qed

text \<open>
  An update of a pod keeps it at one place and keeps its time stamp: an active pod stays active, a
  pod that is backing off becomes active, an unschedulable pod becomes active only if the update changed
  more than its status, and an unknown pod is added to the active queue. The old version is never left
  behind.
\<close>

theorem Update_place:
  assumes keys: "k8s_keys L" and inv: "queue_inv heap_wf L q" and v: "valid_pod new" and same: "id_of old = id_of new"
  shows "\<exists>q'. PriorityQueue_Update L lessFunc now (Some old) new q = Some (q', None) \<and> queue_inv heap_wf L q' \<and>
    where_is q' = (where_is q)(id_of new \<mapsto> (case where_is q (id_of new) of
        Some (Unschedulable, x) \<Rightarrow>
          (if isPodUpdated old new then Active else Unschedulable, \<lparr>qpod = new, timestamp = timestamp x\<rparr>)
      | Some (_, x) \<Rightarrow> (Active, \<lparr>qpod = new, timestamp = timestamp x\<rparr>)
      | None \<Rightarrow> (Active, newPodInfo now new)))"
  using qw.Update_effect[OF assms, of lessFunc now] unfolding update_target_def by blast

theorem Update_place_witness:
  "\<exists>q. PriorityQueue_Update example_k8s activeQComp 9 (Some queued_pod) queued_pod NewPriorityQueue = Some (q, None) \<and>
     where_is q (''prod'', ''web'') = Some (Active, newPodInfo 9 queued_pod)"
proof -
  have w: "heap_wf (NewHeap :: podInfo heapData)" using ao.NewHeap_inv(1) by (simp add: heap_inv_def)
  note n = NewPriorityQueue_inv[of heap_wf, OF w]
  show ?thesis using Update_place[OF k8s_keys_example n(1) queued_pod_valid(1) refl, of activeQComp 9] n(2)
    by (auto simp: queued_pod_valid(2))
qed

text \<open>
  With a strict weak order as ordering function, \<open>Pop\<close> returns an active pod that no other active pod
  precedes, removes exactly that pod and increments the scheduling cycle; if no pod is active it waits,
  or reports that the queue is closed.
\<close>

theorem Pop_returns_first:
  assumes order: "less_order lt" and inv: "queue_inv (heap_inv lt) L q"
  shows "(\<exists>q' x. PriorityQueue_Pop lt q = Some (q', Popped (qpod x)) \<and> queue_inv (heap_inv lt) L q' \<and>
      where_is q (id_of (qpod x)) = Some (Active, x) \<and> where_is q' = (where_is q)(id_of (qpod x) := None) \<and>
      schedulingCycle q' = schedulingCycle q + 1 \<and> (\<forall>i y. where_is q i = Some (Active, y) \<longrightarrow> \<not> lt y x)) \<or>
    (\<forall>i y. where_is q i \<noteq> Some (Active, y)) \<and> PriorityQueue_Pop lt q = Some (q, if closed q then QueueClosed else Wait)"
proof (cases "\<exists>i y. where_is q i = Some (Active, y)")
  case False
  then show ?thesis using queue_on.Pop_empty[OF queue_on_order[OF order] inv] by auto
next
  case True
  then obtain q' x h where q': "PriorityQueue_Pop lt q = Some (q', Popped (qpod x))" "queue_inv (heap_inv lt) L q'"
    "where_is q (id_of (qpod x)) = Some (Active, x)" "where_is q' = (where_is q)(id_of (qpod x) := None)"
    "schedulingCycle q' = schedulingCycle q + 1" "Heap_Pop lt (activeQ q) = Some (h, Inr x)"
    using queue_on.Pop_effect[OF queue_on_order[OF order] inv] by blast
  note W = queue_invD(1)[OF inv]
  have "\<not> lt y x" if w: "where_is q i = Some (Active, y)" for i y
  proof -
    have "valid_id i" using where_is_id[OF inv w] by auto
    then have l: "fmlookup (heap_content (activeQ q)) (id_key i) = Some y" using where_lookups(1)[OF inv] w by simp
    then have "heap_content (activeQ q) \<noteq> fmempty" by auto
    from less_order.Heap_Pop_inv[OF order W this] show ?thesis using q'(6) l by auto
  qed
  with q' show ?thesis by blast
qed

theorem Pop_returns_first_witness:
  "\<exists>q q'. PriorityQueue_Add example_k8s activeQComp 7 queued_pod NewPriorityQueue = Some (q, None) \<and>
     PriorityQueue_Pop activeQComp q = Some (q', Popped queued_pod) \<and> where_is q' = Map.empty"
proof -
  note n = NewPriorityQueue_inv[of "heap_inv activeQComp", OF ao.NewHeap_inv(1)]
  obtain q where q: "PriorityQueue_Add example_k8s activeQComp 7 queued_pod NewPriorityQueue = Some (q, None)"
    "queue_inv (heap_inv activeQComp) example_k8s q" "where_is q = [id_of queued_pod \<mapsto> (Active, newPodInfo 7 queued_pod)]"
    using qo.Add_effect[OF k8s_keys_example n(1) queued_pod_valid(1), of 7] n(2) by auto
  have "\<not> (\<forall>i y. where_is q i \<noteq> Some (Active, y))" using q(3) by (metis fun_upd_same)
  with Pop_returns_first[OF ao.less_order_axioms q(2)] obtain q' x where
    "PriorityQueue_Pop activeQComp q = Some (q', Popped (qpod x))" "where_is q (id_of (qpod x)) = Some (Active, x)"
    "where_is q' = (where_is q)(id_of (qpod x) := None)" by blast
  then show ?thesis using q(1,3) by (auto simp: newPodInfo_def split: if_splits)
qed

text \<open>
  C39. One call of \<open>flushBackoffQCompleted\<close>. On every well-formed queue its loop ends; it moves only pods whose back-off is over, from the back-off queue to the active
  queue, with their entries unchanged, and leaves all other pods where they are. When the time is not negative and the back-off heap is ordered by the current
  back-off times, it moves all pods whose back-off is over. (The heap is ordered when pods are added; a pod whose back-off time is changed while it is in the heap may break the order.)
  The key function of the library is assumed to behave as documented.
\<close>

theorem flushBackoff_moves_completed:
  assumes keys: "k8s_keys L" and inv: "queue_inv heap_wf L q"
  shows "\<exists>q'. flushBackoffQCompleted L lessFunc now q = Some q' \<and> queue_inv heap_wf L q' \<and>
    (\<forall>i. where_is q' i = where_is q i \<or> (\<exists>x. where_is q i = Some (BackingOff, x) \<and> where_is q' i = Some (Active, x) \<and>
       \<not> isPodBackingOff L now (podBackoff q) (qpod x))) \<and>
    (0 \<le> now \<and> heap_inv (podsCompareBackoffCompleted L (podBackoff q)) (podBackoffQ q) \<longrightarrow> where_is q' = (\<lambda>i. case where_is q i of
        Some (BackingOff, x) \<Rightarrow> Some (if isPodBackingOff L now (podBackoff q) (qpod x) then BackingOff else Active, x)
      | r \<Rightarrow> r))"
  using qw.flushBackoff_effect[OF assms, of lessFunc now] qw.flushBackoff_ordered[OF assms, of now lessFunc] by fastforce

definition backing_off :: PriorityQueue where
  "backing_off = fst (the (AddUnschedulableIfNotPresent example_k8s 100 queued_pod (- 1) NewPriorityQueue))"

theorem flushBackoff_moves_completed_witness:
  "\<exists>q q'. AddUnschedulableIfNotPresent example_k8s 100 queued_pod (- 1) NewPriorityQueue = Some (q, None) \<and>
     where_is q (''prod'', ''web'') = Some (BackingOff, newPodInfo 100 queued_pod) \<and>
     flushBackoffQCompleted example_k8s activeQComp 1000000000000 q = Some q' \<and>
     where_is q' (''prod'', ''web'') = Some (Active, newPodInfo 100 queued_pod)"
proof -
  have w: "heap_wf (NewHeap :: podInfo heapData)" using ao.NewHeap_inv(1) by (simp add: heap_inv_def)
  note n = NewPriorityQueue_inv[of heap_wf, OF w]
  have "moveRequestCycle NewPriorityQueue = - 1" by (simp add: NewPriorityQueue_def)
  then obtain q where q: "AddUnschedulableIfNotPresent example_k8s 100 queued_pod (- 1) NewPriorityQueue = Some (q, None)" "queue_inv heap_wf example_k8s q"
    "where_is q = [id_of queued_pod \<mapsto> (BackingOff, newPodInfo 100 queued_pod)]"
    using qw.AddUnschedulable_effect[OF k8s_keys_example n(1) queued_pod_valid(1), of 100 "- 1"] n(2) by auto
  have e: "q = backing_off" using q(1) by (simp add: backing_off_def)
  have "length (queue (podBackoffQ backing_off)) = 1" unfolding backing_off_def by code_simp
  then have "heap_inv (podsCompareBackoffCompleted example_k8s (podBackoff q)) (podBackoffQ q)"
    using queue_invD(2)[OF q(2)] by (simp add: e heap_inv_def heap_ordered_def)
  moreover have "\<not> isPodBackingOff example_k8s 1000000000000 (podBackoff q) queued_pod" unfolding e backing_off_def by code_simp
  ultimately show ?thesis
    using flushBackoff_moves_completed[OF k8s_keys_example q(2), of activeQComp 1000000000000] q(1,3) by (auto simp: queued_pod_valid(2) newPodInfo_def)
qed

text \<open>
  \<open>MoveAllToActiveQueue\<close>, which adds all unschedulable pods to the other queues and clears the map once at
  the end, does the same as \<open>movePodsToActiveQueue\<close> on all of them, which deletes them one by one: no pod is
  lost, and every unschedulable pod is active afterwards, or backing off if its back-off is not over.
\<close>

theorem MoveAll_moves_everything:
  assumes keys: "k8s_keys L" and inv: "queue_inv heap_wf L q" and ord: "range_of q ord"
  shows "MoveAllToActiveQueue L lessFunc now ord q =
      movePodsToActiveQueue L lessFunc now (List.map_filter (fmlookup (unschedulableQ q)) ord) q \<and>
    (\<exists>q'. MoveAllToActiveQueue L lessFunc now ord q = Some q' \<and> queue_inv heap_wf L q' \<and>
      moveRequestCycle q' = schedulingCycle q \<and>
      where_is q' = (\<lambda>i. case where_is q i of
          Some (Unschedulable, x) \<Rightarrow> Some (if isPodBackingOff L now (podBackoff q) (qpod x) then BackingOff else Active, x)
        | r \<Rightarrow> r))"
proof -
  have o: "distinct ord" "fset (fmdom (unschedulableQ q)) \<subseteq> set ord" using ord by (auto simp: range_of_def)
  have "moved (destination L now q) UNIV (where_is q) = (\<lambda>i. case where_is q i of
      Some (Unschedulable, x) \<Rightarrow> Some (if isPodBackingOff L now (podBackoff q) (qpod x) then BackingOff else Active, x) | r \<Rightarrow> r)"
    by (intro ext) (auto simp: moved_def destination_def split: option.split place.split)
  with qw.MoveAll_effect[OF keys inv o, of lessFunc now] qw.MoveAll_is_movePods[OF inv o(2), of lessFunc now] show ?thesis by auto
qed

theorem MoveAll_moves_everything_witness:
  "\<exists>q q'. AddUnschedulableIfNotPresent example_k8s 100 queued_pod 5 NewPriorityQueue = Some (q, None) \<and>
     MoveAllToActiveQueue example_k8s activeQComp 200 [''web_prod''] q = Some q' \<and> where_is q' (''prod'', ''web'') \<noteq> None"
proof -
  obtain q where q: "AddUnschedulableIfNotPresent example_k8s 100 queued_pod 5 NewPriorityQueue = Some (q, None)"
    "queue_inv (heap_inv activeQComp) example_k8s q" "where_is q = [id_of queued_pod \<mapsto> (Unschedulable, newPodInfo 100 queued_pod)]"
    using example_unschedulable[OF ao.less_order_axioms] by blast
  have inv: "queue_inv heap_wf example_k8s q" using q(2) by (simp add: queue_inv_def heap_inv_def)
  have "id_full (id_of queued_pod) = ''web_prod''" by (simp add: queued_pod_valid(2) id_full_def)
  then have "range_of q [''web_prod'']"
    using qw.unschedulable_lookup[OF inv] q(3) by (fastforce simp: range_of_def fmlookup_dom_iff split: if_splits)
  from MoveAll_moves_everything[OF k8s_keys_example inv this, of activeQComp 200, THEN conjunct2] obtain q' where
    "MoveAllToActiveQueue example_k8s activeQComp 200 [''web_prod''] q = Some q'"
    "where_is q' (''prod'', ''web'') = (case where_is q (''prod'', ''web'') of Some (Unschedulable, x) \<Rightarrow>
       Some (if isPodBackingOff example_k8s 200 (podBackoff q) (qpod x) then BackingOff else Active, x) | r \<Rightarrow> r)" by auto
  then show ?thesis using q(1,3) by (simp add: queued_pod_valid(2))
qed

text \<open>
  C40. One call of \<open>flushUnschedulableQLeftover\<close>, on a well-formed queue and with a loop that visits every key of the unschedulable queue once. It does not panic, and of the unschedulable pods it moves
  exactly those whose time stamp is more than 60 seconds old, to the active queue or, while their
  back-off lasts, to the back-off queue, with their entries unchanged; all other pods stay where they are. (The queue calls it every 30 seconds, so that a pod may stay for about 90 seconds.)
  The key function of the library is assumed to behave as documented.
\<close>

theorem flushUnschedulable_leftover:
  assumes keys: "k8s_keys L" and inv: "queue_inv heap_wf L q" and ord: "range_of q ord"
  shows "\<exists>q'. flushUnschedulableQLeftover L lessFunc now ord q = Some q' \<and> queue_inv heap_wf L q' \<and>
    where_is q' = (\<lambda>i. case where_is q i of
        Some (Unschedulable, x) \<Rightarrow>
          Some (if timestamp x + 60000000000 < now
                then (if isPodBackingOff L now (podBackoff q) (qpod x) then BackingOff else Active) else Unschedulable, x)
      | r \<Rightarrow> r)"
proof -
  have o: "distinct ord" "fset (fmdom (unschedulableQ q)) \<subseteq> set ord" using ord by (auto simp: range_of_def)
  have "sint unschedulableQTimeInterval = 60000000000" by (simp add: unschedulableQTimeInterval_def Second_def)
  then have "moved (destination L now q) {x. sint unschedulableQTimeInterval < now - timestamp x} (where_is q) =
    (\<lambda>i. case where_is q i of
        Some (Unschedulable, x) \<Rightarrow>
          Some (if timestamp x + 60000000000 < now
                then (if isPodBackingOff L now (podBackoff q) (qpod x) then BackingOff else Active) else Unschedulable, x)
      | r \<Rightarrow> r)"
    by (intro ext) (auto simp: moved_def destination_def split: option.split place.split)
  with qw.flushUnschedulable_effect[OF keys inv o, of lessFunc now] show ?thesis by metis
qed

theorem flushUnschedulable_leftover_witness:
  "\<exists>q q' w. AddUnschedulableIfNotPresent example_k8s 100 queued_pod 5 NewPriorityQueue = Some (q, None) \<and>
     where_is q (''prod'', ''web'') = Some (Unschedulable, newPodInfo 100 queued_pod) \<and>
     flushUnschedulableQLeftover example_k8s activeQComp 70000000000 [''web_prod''] q = Some q' \<and>
     where_is q' (''prod'', ''web'') = Some (w, newPodInfo 100 queued_pod) \<and> w \<noteq> Unschedulable"
proof -
  obtain q where q: "AddUnschedulableIfNotPresent example_k8s 100 queued_pod 5 NewPriorityQueue = Some (q, None)"
    "queue_inv (heap_inv activeQComp) example_k8s q" "where_is q = [id_of queued_pod \<mapsto> (Unschedulable, newPodInfo 100 queued_pod)]"
    using example_unschedulable[OF ao.less_order_axioms] by blast
  have inv: "queue_inv heap_wf example_k8s q" using q(2) by (simp add: queue_inv_def heap_inv_def)
  have "id_full (id_of queued_pod) = ''web_prod''" by (simp add: queued_pod_valid(2) id_full_def)
  then have "range_of q [''web_prod'']"
    using qw.unschedulable_lookup[OF inv] q(3) by (fastforce simp: range_of_def fmlookup_dom_iff split: if_splits)
  from flushUnschedulable_leftover[OF k8s_keys_example inv this, of activeQComp 70000000000] q(1,3) show ?thesis
    by (auto simp: queued_pod_valid(2) newPodInfo_def)
qed

end
