(* ===== verification/Host_Ports.thy ===== *)
theory Host_Ports
  imports Api_Types
begin

text \<open>
  \<open>HostPortInfo\<close> of \<open>pkg/scheduler/info/host_ports.go\<close>: a map from host IP to the set of
  (protocol, port) pairs in use. The abstract view is the set of used triples; the operations are
  insertion, deletion and a conflict test on that set.
\<close>

subsection \<open>Data and operations\<close>

record ProtocolPort =
  pp_Protocol :: string
  pp_Port :: int32

type_synonym HostPortInfo = "(string, ProtocolPort fset) fmap"

definition DefaultBindAllHostIP :: string where
  "DefaultBindAllHostIP = ''0.0.0.0''"

definition ProtocolTCP :: string where
  "ProtocolTCP = ''TCP''"

definition NewProtocolPort :: "string \<Rightarrow> int32 \<Rightarrow> ProtocolPort" where
  "NewProtocolPort protocol port =
     (let pp = \<lparr>pp_Protocol = protocol, pp_Port = port\<rparr>
      in if length (pp_Protocol pp) = 0 then pp\<lparr>pp_Protocol := ProtocolTCP\<rparr> else pp)"

definition sanitize :: "string \<Rightarrow> string \<Rightarrow> string \<times> string" where
  "sanitize ip protocol =
     (if length ip = 0 then DefaultBindAllHostIP else ip,
      if length protocol = 0 then ProtocolTCP else protocol)"

definition HostPortInfo_Add :: "HostPortInfo \<Rightarrow> string \<Rightarrow> string \<Rightarrow> int32 \<Rightarrow> HostPortInfo" where
  "HostPortInfo_Add h ip protocol port =
     (if port \<le>s 0 then h
      else let (ip, protocol) = sanitize ip protocol; pp = NewProtocolPort protocol port in
        case fmlookup h ip of
          None \<Rightarrow> fmupd ip {|pp|} h
        | Some m \<Rightarrow> fmupd ip (finsert pp m) h)"

definition HostPortInfo_Remove :: "HostPortInfo \<Rightarrow> string \<Rightarrow> string \<Rightarrow> int32 \<Rightarrow> HostPortInfo" where
  "HostPortInfo_Remove h ip protocol port =
     (if port \<le>s 0 then h
      else let (ip, protocol) = sanitize ip protocol; pp = NewProtocolPort protocol port in
        case fmlookup h ip of
          None \<Rightarrow> h
        | Some m \<Rightarrow>
            (let h1 = fmupd ip (m |-| {|pp|}) h
             in if m |-| {|pp|} = {||} then fmdrop ip h1 else h1))"

definition HostPortInfo_Len :: "HostPortInfo \<Rightarrow> nat" where
  "HostPortInfo_Len h = fsum (\<lambda>ip. case fmlookup h ip of None \<Rightarrow> 0 | Some m \<Rightarrow> fcard m) (fmdom h)"

definition CheckConflict :: "HostPortInfo \<Rightarrow> string \<Rightarrow> string \<Rightarrow> int32 \<Rightarrow> bool" where
  "CheckConflict h ip protocol port =
     (if port \<le>s 0 then False
      else let (ip, protocol) = sanitize ip protocol; pp = NewProtocolPort protocol port in
        if ip = DefaultBindAllHostIP then \<not> fmpred (\<lambda>_ m. pp |\<notin>| m) h
        else list_ex (\<lambda>key. case fmlookup h key of None \<Rightarrow> False | Some m \<Rightarrow> pp |\<in>| m)
               [DefaultBindAllHostIP, ip])"

subsection \<open>The set of used triples\<close>

definition used_ports :: "HostPortInfo \<Rightarrow> (string \<times> ProtocolPort) set" where
  "used_ports h = {(ip, pp). \<exists>m. fmlookup h ip = Some m \<and> pp |\<in>| m}"

text \<open>No IP is kept with an empty set of ports.\<close>

definition ports_inv :: "HostPortInfo \<Rightarrow> bool" where
  "ports_inv h \<longleftrightarrow> fmpred (\<lambda>_ m. m \<noteq> {||}) h"

definition triple :: "string \<Rightarrow> string \<Rightarrow> int32 \<Rightarrow> string \<times> ProtocolPort" where
  "triple ip protocol port =
     (fst (sanitize ip protocol), \<lparr>pp_Protocol = snd (sanitize ip protocol), pp_Port = port\<rparr>)"

lemma NewProtocolPort_sanitized:
  "NewProtocolPort (snd (sanitize ip protocol)) port =
     \<lparr>pp_Protocol = snd (sanitize ip protocol), pp_Port = port\<rparr>"
  by (auto simp: NewProtocolPort_def sanitize_def ProtocolTCP_def)

lemma triple_simps: "sanitize ip protocol = (i, p) \<Longrightarrow>
    triple ip protocol port = (i, NewProtocolPort p port)"
  using NewProtocolPort_sanitized[of ip protocol port] by (simp add: triple_def)

lemma used_ports_fmupd:
  "used_ports (fmupd ip m h) = {(i, pp) \<in> used_ports h. i \<noteq> ip} \<union> {ip} \<times> fset m"
  by (auto simp: used_ports_def split: if_splits)

lemma used_ports_fmdrop: "used_ports (fmdrop ip h) = {(i, pp) \<in> used_ports h. i \<noteq> ip}"
  by (auto simp: used_ports_def split: if_splits)

lemma used_ports_lookup:
  "fmlookup h ip = Some m \<Longrightarrow> {(i, pp) \<in> used_ports h. i = ip} = {ip} \<times> fset m"
  "fmlookup h ip = None \<Longrightarrow> (ip, pp) \<notin> used_ports h"
  by (auto simp: used_ports_def)

lemma used_ports_empty [simp]: "used_ports fmempty = {}"
  by (simp add: used_ports_def)

lemma used_ports_Add:
  "used_ports (HostPortInfo_Add h ip protocol port) =
     (if port \<le>s 0 then used_ports h else insert (triple ip protocol port) (used_ports h))"
proof (cases "port \<le>s 0")
  case False
  obtain i p where ip: "sanitize ip protocol = (i, p)" by fastforce
  show ?thesis
  proof (cases "fmlookup h i")
    case None
    then have "used_ports (fmupd i {|NewProtocolPort p port|} h) =
        insert (i, NewProtocolPort p port) (used_ports h)"
      by (auto simp: used_ports_fmupd used_ports_lookup(2))
    with None False ip show ?thesis by (simp add: HostPortInfo_Add_def triple_simps)
  next
    case (Some m)
    then have "used_ports (fmupd i (finsert (NewProtocolPort p port) m) h) =
        insert (i, NewProtocolPort p port) (used_ports h)"
      by (auto simp: used_ports_fmupd used_ports_def split: if_splits)
    with Some False ip show ?thesis by (simp add: HostPortInfo_Add_def triple_simps)
  qed
qed (simp add: HostPortInfo_Add_def)

lemma used_ports_Remove:
  "used_ports (HostPortInfo_Remove h ip protocol port) =
     (if port \<le>s 0 then used_ports h else used_ports h - {triple ip protocol port})"
proof (cases "port \<le>s 0")
  case False
  obtain i p where ip: "sanitize ip protocol = (i, p)" by fastforce
  show ?thesis
  proof (cases "fmlookup h i")
    case None
    then show ?thesis using False ip used_ports_lookup(2)[OF None]
      by (auto simp: HostPortInfo_Remove_def triple_simps)
  next
    case (Some m)
    let ?pp = "NewProtocolPort p port"
    let ?m = "m |-| {|?pp|}"
    have "used_ports (fmupd i ?m h) = used_ports h - {(i, ?pp)}"
      using Some by (auto simp: used_ports_fmupd used_ports_def split: if_splits)
    moreover have "used_ports (fmdrop i h) = used_ports h - {(i, ?pp)}" if "?m = {||}"
      using that Some by (auto simp: used_ports_def split: if_splits)
    moreover have "fmdrop i (fmupd i ?m h) = fmdrop i h" by (rule fmap_ext) auto
    ultimately show ?thesis using Some False ip
      by (auto simp: HostPortInfo_Remove_def triple_simps Let_def)
  qed
qed (simp add: HostPortInfo_Remove_def)

lemma ports_inv_empty [simp]: "ports_inv fmempty"
  by (simp add: ports_inv_def)

lemma ports_inv_Add: "ports_inv h \<Longrightarrow> ports_inv (HostPortInfo_Add h ip protocol port)"
  by (auto simp: ports_inv_def HostPortInfo_Add_def fmpred_iff Let_def
      split: option.splits prod.splits if_splits)

lemma ports_inv_Remove: "ports_inv h \<Longrightarrow> ports_inv (HostPortInfo_Remove h ip protocol port)"
  by (auto simp: ports_inv_def HostPortInfo_Remove_def fmpred_iff Let_def
      split: option.splits prod.splits if_splits)

text \<open>With the invariant the map is determined by its triples.\<close>

lemma used_ports_inj: "ports_inv h \<Longrightarrow> ports_inv h' \<Longrightarrow> used_ports h = used_ports h' \<Longrightarrow> h = h'"
proof (rule fmap_ext)
  fix ip
  assume inv: "ports_inv h" "ports_inv h'" and eq: "used_ports h = used_ports h'"
  have ex: "(\<exists>pp. (ip, pp) \<in> used_ports g) \<longleftrightarrow> fmlookup g ip \<noteq> None" if "ports_inv g" for g
    using that by (auto simp: used_ports_def ports_inv_def fmpred_iff ex_fin_conv)
  have mem: "(ip, pp) \<in> used_ports h \<longleftrightarrow> (ip, pp) \<in> used_ports h'" for pp using eq by simp
  show "fmlookup h ip = fmlookup h' ip"
  proof (cases "fmlookup h ip"; cases "fmlookup h' ip")
    fix m m' assume m: "fmlookup h ip = Some m" "fmlookup h' ip = Some m'"
    then have "fset m = fset m'" using mem by (auto simp: used_ports_def)
    then show ?thesis using m by (simp add: fset_inject)
  qed (use mem ex[OF inv(1)] ex[OF inv(2)] in auto)
qed

subsection \<open>Properties\<close>

text \<open>The conflict test answers yes exactly if the port is positive and the same protocol and port
  are used on the same IP, on the wildcard IP, or on any IP when the wildcard IP is asked for
  (an empty IP means the wildcard, an empty protocol means TCP).\<close>

theorem CheckConflict_iff:
  "CheckConflict h ip protocol port \<longleftrightarrow>
     0 <s port \<and> (let (i, pp) = triple ip protocol port in
       \<exists>i'. (i', pp) \<in> used_ports h \<and>
         (i = DefaultBindAllHostIP \<or> i' = DefaultBindAllHostIP \<or> i' = i))"
proof (cases "port \<le>s 0")
  case True
  then show ?thesis by (simp add: CheckConflict_def signed.not_less)
next
  case False
  obtain i p where ip: "sanitize ip protocol = (i, p)" by fastforce
  have "0 <s port" using False by (simp add: signed.not_le)
  with False ip show ?thesis
    by (auto simp: CheckConflict_def triple_simps used_ports_def fmpred_iff Let_def split: option.splits)
qed

text \<open>Taking ports for a pod and releasing them again leaves the port map exactly as it was, if none
  of the released ports was in use before; the map never keeps an IP without ports.\<close>

theorem HostPortInfo_Add_Remove:
  assumes "ports_inv h" and "triple ip protocol port \<notin> used_ports h"
  shows "HostPortInfo_Remove (HostPortInfo_Add h ip protocol port) ip protocol port = h"
proof (rule used_ports_inj)
  show "ports_inv (HostPortInfo_Remove (HostPortInfo_Add h ip protocol port) ip protocol port)"
    using assms(1) by (intro ports_inv_Remove ports_inv_Add)
  show "used_ports (HostPortInfo_Remove (HostPortInfo_Add h ip protocol port) ip protocol port) =
      used_ports h"
    using assms(2) by (auto simp: used_ports_Remove used_ports_Add)
qed (rule assms(1))

theorem HostPortInfo_Add_Remove_witness:
  "HostPortInfo_Remove (HostPortInfo_Add (HostPortInfo_Add fmempty [] [] 80) ''10.0.0.1'' ''UDP'' 53)
     ''10.0.0.1'' ''UDP'' 53 = HostPortInfo_Add fmempty [] [] 80"
proof (rule HostPortInfo_Add_Remove)
  show "ports_inv (HostPortInfo_Add fmempty [] [] 80)" by (simp add: ports_inv_Add)
  show "triple ''10.0.0.1'' ''UDP'' 53 \<notin> used_ports (HostPortInfo_Add fmempty [] [] 80)"
    by (simp add: used_ports_Add triple_def sanitize_def DefaultBindAllHostIP_def)
qed

end
