(* ===== verification/Node_Info.thy ===== *)
theory Node_Info
  imports Resource_Model Host_Ports
begin

text \<open>
  \<open>NodeInfo\<close> of \<open>pkg/scheduler/info/node_info.go\<close>: the aggregated information about one node, and
  the map builders of \<open>info/util.go\<close>. The package variable \<open>generation\<close> and the heap cells behind
  \<open>TransientInfo\<close> (a pointer that clones share) live in the record \<open>globals\<close>, which every operation
  that touches them takes and returns. The maps of image states are replaced as a whole and never
  updated in place, so they are values.
\<close>

subsection \<open>Data\<close>

record ImageStateSummary =
  iss_Size :: int64
  iss_NumNodes :: nat

record nodeTransientInfo =
  AllocatableVolumesCount :: int64
  RequestedVolumes :: int64

record globals =
  generation :: int64
  transients :: "nodeTransientInfo list"

record NodeInfo =
  ni_node :: "Node option"
  ni_pods :: "Pod list"
  podsWithAffinity :: "Pod list"
  usedPorts :: HostPortInfo
  requestedResource :: Resource
  nonzeroRequest :: Resource
  allocatableResource :: Resource
  ni_taints :: "Taint list"
  taintsErr :: "string option"
  imageStates :: "(string, ImageStateSummary) fmap"
  TransientInfo :: nat
  memoryPressureCondition :: string
  diskPressureCondition :: string
  pidPressureCondition :: string
  ni_generation :: int64

datatype node_info_error = EmptyUID | NodeIsNil string | NoCorrespondingPod string string

definition ConditionUnknown :: string where
  "ConditionUnknown = ''Unknown''"

subsection \<open>Operations\<close>

definition initializeNodeTransientInfo :: nodeTransientInfo where
  "initializeNodeTransientInfo = \<lparr>AllocatableVolumesCount = 0, RequestedVolumes = 0\<rparr>"

definition nextGeneration :: "globals \<Rightarrow> int64 \<times> globals" where
  "nextGeneration g = (generation g + 1, g\<lparr>generation := generation g + 1\<rparr>)"

definition NewTransientSchedulerInfo :: "globals \<Rightarrow> nat \<times> globals" where
  "NewTransientSchedulerInfo g =
     (length (transients g), g\<lparr>transients := transients g @ [initializeNodeTransientInfo]\<rparr>)"

definition ResetTransientSchedulerInfo :: "nat \<Rightarrow> globals \<Rightarrow> globals" where
  "ResetTransientSchedulerInfo a g =
     g\<lparr>transients := (transients g)[a := \<lparr>AllocatableVolumesCount = 0, RequestedVolumes = 0\<rparr>]\<rparr>"

definition GetPodKey :: "Pod \<Rightarrow> string option" where
  "GetPodKey pod = (if length (pod_UID pod) = 0 then None else Some (pod_UID pod))"

definition hasPodAffinityConstraints :: "Pod \<Rightarrow> bool" where
  "hasPodAffinityConstraints pod = (case pod_Affinity pod of
     None \<Rightarrow> False | Some a \<Rightarrow> PodAffinity a \<noteq> None \<or> PodAntiAffinity a \<noteq> None)"

definition UpdateUsedPorts :: "HostPortInfo \<Rightarrow> Pod \<Rightarrow> bool \<Rightarrow> HostPortInfo" where
  "UpdateUsedPorts h pod add =
     foldl (\<lambda>h container. foldl (\<lambda>h podPort.
         if add then HostPortInfo_Add h (HostIP podPort) (Protocol podPort) (HostPort podPort)
         else HostPortInfo_Remove h (HostIP podPort) (Protocol podPort) (HostPort podPort))
       h (Ports container)) h (pod_Containers pod)"

definition NodeInfo_AddPod :: "k8s \<Rightarrow> NodeInfo \<Rightarrow> Pod \<Rightarrow> globals \<Rightarrow> NodeInfo \<times> globals" where
  "NodeInfo_AddPod L n pod g =
     (let (res, non0CPU, non0Mem) = calculateResource L pod;
          rr = requestedResource n; nz = nonzeroRequest n;
          n1 = n\<lparr>requestedResource := rr\<lparr>MilliCPU := MilliCPU rr + MilliCPU res,
                   Memory := Memory rr + Memory res,
                   EphemeralStorage := EphemeralStorage rr + EphemeralStorage res,
                   ScalarResources := combine_scalars (+) rr res\<rparr>,
                 nonzeroRequest := nz\<lparr>MilliCPU := MilliCPU nz + non0CPU, Memory := Memory nz + non0Mem\<rparr>,
                 ni_pods := ni_pods n @ [pod]\<rparr>;
          n2 = (if hasPodAffinityConstraints pod
                then n1\<lparr>podsWithAffinity := podsWithAffinity n1 @ [pod]\<rparr> else n1);
          n3 = n2\<lparr>usedPorts := UpdateUsedPorts (usedPorts n2) pod True\<rparr>;
          (gen, g1) = nextGeneration g
      in (n3\<lparr>ni_generation := gen\<rparr>, g1))"

definition NewNodeInfo :: "k8s \<Rightarrow> Pod list \<Rightarrow> globals \<Rightarrow> NodeInfo \<times> globals" where
  "NewNodeInfo L pods g =
     (let (t, g1) = NewTransientSchedulerInfo g;
          (gen, g2) = nextGeneration g1;
          ni = \<lparr>ni_node = None, ni_pods = [], podsWithAffinity = [], usedPorts = fmempty,
                requestedResource = emptyResource, nonzeroRequest = emptyResource,
                allocatableResource = emptyResource, ni_taints = [], taintsErr = None,
                imageStates = fmempty, TransientInfo = t, memoryPressureCondition = [],
                diskPressureCondition = [], pidPressureCondition = [], ni_generation = gen\<rparr>
      in foldl (\<lambda>(ni, g) pod. NodeInfo_AddPod L ni pod g) (ni, g2) pods)"

text \<open>The loops of \<open>RemovePod\<close>: the first position whose pod has the key, and the deletion that
  overwrites it with the last element.\<close>

fun find_pod :: "string \<Rightarrow> nat \<Rightarrow> Pod list \<Rightarrow> nat option" where
  "find_pod k1 i [] = None"
| "find_pod k1 i (p # ps) = (case GetPodKey p of
      None \<Rightarrow> find_pod k1 (i + 1) ps
    | Some k2 \<Rightarrow> if k1 = k2 then Some i else find_pod k1 (i + 1) ps)"

definition delete_swap :: "nat \<Rightarrow> 'a list \<Rightarrow> 'a list" where
  "delete_swap i xs = take (length xs - 1) (xs[i := xs ! (length xs - 1)])"

definition NodeInfo_RemovePod ::
    "k8s \<Rightarrow> NodeInfo \<Rightarrow> Pod \<Rightarrow> globals \<Rightarrow> NodeInfo \<times> globals \<times> node_info_error option" where
  "NodeInfo_RemovePod L n pod g = (case GetPodKey pod of
     None \<Rightarrow> (n, g, Some EmptyUID)
   | Some k1 \<Rightarrow>
      (let n1 = (case find_pod k1 0 (podsWithAffinity n) of
                   None \<Rightarrow> n
                 | Some i \<Rightarrow> n\<lparr>podsWithAffinity := delete_swap i (podsWithAffinity n)\<rparr>) in
       case find_pod k1 0 (ni_pods n1) of
         Some i \<Rightarrow>
           (let n2 = n1\<lparr>ni_pods := delete_swap i (ni_pods n1)\<rparr>;
                (res, non0CPU, non0Mem) = calculateResource L pod;
                rr = requestedResource n2; nz = nonzeroRequest n2;
                n3 = n2\<lparr>requestedResource := rr\<lparr>MilliCPU := MilliCPU rr - MilliCPU res,
                         Memory := Memory rr - Memory res,
                         EphemeralStorage := EphemeralStorage rr - EphemeralStorage res,
                         ScalarResources := combine_scalars (-) rr res\<rparr>,
                       nonzeroRequest := nz\<lparr>MilliCPU := MilliCPU nz - non0CPU, Memory := Memory nz - non0Mem\<rparr>,
                       usedPorts := UpdateUsedPorts (usedPorts n2) pod False\<rparr>;
                (gen, g1) = nextGeneration g
            in (n3\<lparr>ni_generation := gen\<rparr>, g1, None))
       | None \<Rightarrow>
           (case ni_node n1 of
              None \<Rightarrow> (n1, g, Some (NodeIsNil (pod_Name pod)))
            | Some node \<Rightarrow> (n1, g, Some (NoCorrespondingPod (pod_Name pod) (node_Name node))))))"

definition set_condition :: "NodeInfo \<Rightarrow> NodeCondition \<Rightarrow> NodeInfo" where
  "set_condition n cond =
     (if ncond_Type cond = ''MemoryPressure'' then n\<lparr>memoryPressureCondition := ncond_Status cond\<rparr>
      else if ncond_Type cond = ''DiskPressure'' then n\<lparr>diskPressureCondition := ncond_Status cond\<rparr>
      else if ncond_Type cond = ''PIDPressure'' then n\<lparr>pidPressureCondition := ncond_Status cond\<rparr>
      else n)"

definition SetNode :: "k8s \<Rightarrow> NodeInfo \<Rightarrow> Node \<Rightarrow> globals \<Rightarrow> NodeInfo \<times> globals" where
  "SetNode L n node g =
     (let n1 = n\<lparr>ni_node := Some node, allocatableResource := NewResource L (node_Allocatable node),
                 ni_taints := node_Taints node\<rparr>;
          n2 = foldl set_condition n1 (node_Conditions node);
          (t, g1) = NewTransientSchedulerInfo g;
          (gen, g2) = nextGeneration g1
      in (n2\<lparr>TransientInfo := t, ni_generation := gen\<rparr>, g2))"

definition NodeInfo_RemoveNode :: "NodeInfo \<Rightarrow> globals \<Rightarrow> NodeInfo \<times> globals" where
  "NodeInfo_RemoveNode n g =
     (let (gen, g1) = nextGeneration g in
      (n\<lparr>ni_node := None, allocatableResource := emptyResource, ni_taints := [], taintsErr := None,
         memoryPressureCondition := ConditionUnknown, diskPressureCondition := ConditionUnknown,
         pidPressureCondition := ConditionUnknown, imageStates := fmempty, ni_generation := gen\<rparr>, g1))"

definition SetAllocatableResource :: "NodeInfo \<Rightarrow> Resource \<Rightarrow> globals \<Rightarrow> NodeInfo \<times> globals" where
  "SetAllocatableResource n r g =
     (let (gen, g1) = nextGeneration g in (n\<lparr>allocatableResource := r, ni_generation := gen\<rparr>, g1))"

text \<open>\<open>Clone\<close> copies the pods, ports and taints and shares the transient information.\<close>

definition NodeInfo_Clone :: "NodeInfo \<Rightarrow> NodeInfo" where
  "NodeInfo_Clone n =
     \<lparr>ni_node = ni_node n,
      ni_pods = (if length (ni_pods n) > 0 then [] @ ni_pods n else []),
      podsWithAffinity = (if length (podsWithAffinity n) > 0 then [] @ podsWithAffinity n else []),
      usedPorts = fmmap (\<lambda>portMap. {||} |\<union>| portMap) (usedPorts n),
      requestedResource = Resource_Clone (requestedResource n),
      nonzeroRequest = Resource_Clone (nonzeroRequest n),
      allocatableResource = Resource_Clone (allocatableResource n),
      ni_taints = (if length (ni_taints n) > 0 then [] @ ni_taints n else []),
      taintsErr = taintsErr n, imageStates = imageStates n, TransientInfo = TransientInfo n,
      memoryPressureCondition = memoryPressureCondition n,
      diskPressureCondition = diskPressureCondition n,
      pidPressureCondition = pidPressureCondition n, ni_generation = ni_generation n\<rparr>"

definition VolumeLimits :: "k8s \<Rightarrow> NodeInfo \<Rightarrow> (string, int64) fmap" where
  "VolumeLimits L n = fmfilter (IsAttachableVolumeResourceName L) (scalar_map (allocatableResource n))"

text \<open>\<open>FilterOutPods\<close> ignores the error of \<open>GetPodKey\<close>, whose key is then empty, as the UID is: the
  keys it compares are the UIDs.\<close>

definition FilterOutPods :: "NodeInfo \<Rightarrow> Pod list \<Rightarrow> Pod list" where
  "FilterOutPods n pods = (case ni_node n of
     None \<Rightarrow> pods
   | Some node \<Rightarrow>
       filter (\<lambda>p. if pod_NodeName p \<noteq> node_Name node then True
                   else list_ex (\<lambda>np. pod_UID np = pod_UID p) (ni_pods n)) pods)"

text \<open>\<open>Filter\<close> dereferences \<open>n.node\<close>.\<close>

definition NodeInfo_Filter :: "NodeInfo \<Rightarrow> Pod \<Rightarrow> bool option" where
  "NodeInfo_Filter n pod = map_option (\<lambda>node.
     if pod_NodeName pod \<noteq> node_Name node then True
     else list_ex (\<lambda>p. pod_Name p = pod_Name pod \<and> pod_Namespace p = pod_Namespace pod) (ni_pods n))
     (ni_node n)"

subsection \<open>Building the map of a list of pods and nodes\<close>

definition add_existence :: "string \<Rightarrow> (string, string fset) fmap \<Rightarrow> string \<Rightarrow> (string, string fset) fmap" where
  "add_existence nodeName m name = (case fmlookup m name of
     None \<Rightarrow> fmupd name {|nodeName|} m
   | Some s \<Rightarrow> fmupd name (finsert nodeName s) m)"

definition createImageExistenceMap :: "Node list \<Rightarrow> (string, string fset) fmap" where
  "createImageExistenceMap nodes =
     foldl (\<lambda>m node. foldl (\<lambda>m image. foldl (add_existence (node_Name node)) m (image_Names image))
       m (node_Images node)) fmempty nodes"

definition getNodeImageStates :: "Node \<Rightarrow> (string, string fset) fmap \<Rightarrow> (string, ImageStateSummary) fmap" where
  "getNodeImageStates node imageExistenceMap =
     foldl (\<lambda>m image. foldl (\<lambda>m name.
         fmupd name \<lparr>iss_Size = image_SizeBytes image,
           iss_NumNodes = (case fmlookup imageExistenceMap name of None \<Rightarrow> 0 | Some s \<Rightarrow> fcard s)\<rparr> m)
       m (image_Names image)) fmempty (node_Images node)"

type_synonym node_info_map = "(string, NodeInfo) fmap"

definition ensure_info :: "k8s \<Rightarrow> string \<Rightarrow> node_info_map \<times> globals \<Rightarrow> NodeInfo \<times> globals" where
  "ensure_info L name mg = (case fmlookup (fst mg) name of
     Some ni \<Rightarrow> (ni, snd mg)
   | None \<Rightarrow> NewNodeInfo L [] (snd mg))"

definition pod_loop_step :: "k8s \<Rightarrow> node_info_map \<times> globals \<Rightarrow> Pod \<Rightarrow> node_info_map \<times> globals" where
  "pod_loop_step L mg pod =
     (let (ni, g) = ensure_info L (pod_NodeName pod) mg; (ni1, g1) = NodeInfo_AddPod L ni pod g
      in (fmupd (pod_NodeName pod) ni1 (fst mg), g1))"

definition node_loop_step ::
    "k8s \<Rightarrow> (string, string fset) fmap \<Rightarrow> node_info_map \<times> globals \<Rightarrow> Node \<Rightarrow> node_info_map \<times> globals" where
  "node_loop_step L imageExistenceMap mg node =
     (let (ni, g) = ensure_info L (node_Name node) mg; (ni1, g1) = SetNode L ni node g
      in (fmupd (node_Name node) (ni1\<lparr>imageStates := getNodeImageStates node imageExistenceMap\<rparr>) (fst mg), g1))"

definition CreateNodeNameToInfoMap :: "k8s \<Rightarrow> Pod list \<Rightarrow> Node list \<Rightarrow> globals \<Rightarrow> node_info_map \<times> globals" where
  "CreateNodeNameToInfoMap L pods nodes g =
     foldl (node_loop_step L (createImageExistenceMap nodes)) (foldl (pod_loop_step L) (fmempty, g) pods) nodes"

subsection \<open>Invariant\<close>

definition pod_ports :: "Pod \<Rightarrow> (string \<times> ProtocolPort) set" where
  "pod_ports pod = (\<Union>c\<in>set (pod_Containers pod). (\<lambda>p. triple (HostIP p) (Protocol p) (HostPort p)) `
     {p \<in> set (Ports c). \<not> HostPort p \<le>s 0})"

definition nonzero_cpu :: "Pod \<Rightarrow> int64" where
  "nonzero_cpu pod = (\<Sum>c\<leftarrow>pod_Containers pod. fst (GetNonzeroRequests (Requests c)))"

definition nonzero_mem :: "Pod \<Rightarrow> int64" where
  "nonzero_mem pod = (\<Sum>c\<leftarrow>pod_Containers pod. snd (GetNonzeroRequests (Requests c)))"

definition node_request :: "k8s \<Rightarrow> Pod \<Rightarrow> dim \<Rightarrow> int64" where
  "node_request L pod d = (if d = PodCount then 0 else request_amount L pod d)"

text \<open>The aggregates of a \<open>NodeInfo\<close> are those of its list of pods.\<close>

definition ni_inv :: "k8s \<Rightarrow> NodeInfo \<Rightarrow> bool" where
  "ni_inv L n \<longleftrightarrow>
     (\<forall>d. amount (requestedResource n) d = (\<Sum>p\<in>#mset (ni_pods n). node_request L p d)) \<and>
     MilliCPU (nonzeroRequest n) = (\<Sum>p\<in>#mset (ni_pods n). nonzero_cpu p) \<and>
     Memory (nonzeroRequest n) = (\<Sum>p\<in>#mset (ni_pods n). nonzero_mem p) \<and>
     mset (podsWithAffinity n) = filter_mset hasPodAffinityConstraints (mset (ni_pods n)) \<and>
     used_ports (usedPorts n) = (\<Union>p\<in>set (ni_pods n). pod_ports p) \<and> ports_inv (usedPorts n)"

definition uids_ok :: "Pod list \<Rightarrow> bool" where
  "uids_ok ps \<longleftrightarrow> distinct (map pod_UID ps) \<and> [] \<notin> pod_UID ` set ps"

definition ports_disjoint :: "Pod list \<Rightarrow> bool" where
  "ports_disjoint ps \<longleftrightarrow> (\<forall>p\<in>set ps. \<forall>q\<in>set ps. p \<noteq> q \<longrightarrow> pod_ports p \<inter> pod_ports q = {})"

lemma fold_ports:
  "used_ports (foldl (\<lambda>h p. HostPortInfo_Add h (HostIP p) (Protocol p) (HostPort p)) h ps) =
     used_ports h \<union> (\<lambda>p. triple (HostIP p) (Protocol p) (HostPort p)) ` {p \<in> set ps. \<not> HostPort p \<le>s 0}"
  "used_ports (foldl (\<lambda>h p. HostPortInfo_Remove h (HostIP p) (Protocol p) (HostPort p)) h ps) =
     used_ports h - (\<lambda>p. triple (HostIP p) (Protocol p) (HostPort p)) ` {p \<in> set ps. \<not> HostPort p \<le>s 0}"
  by (induction ps arbitrary: h) (auto simp: used_ports_Add used_ports_Remove)

lemma used_ports_UpdateUsedPorts:
  "used_ports (UpdateUsedPorts h pod True) = used_ports h \<union> pod_ports pod"
  "used_ports (UpdateUsedPorts h pod False) = used_ports h - pod_ports pod"
proof -
  have "used_ports (foldl (\<lambda>h c. foldl (\<lambda>h p. HostPortInfo_Add h (HostIP p) (Protocol p) (HostPort p)) h (Ports c)) h cs) =
      used_ports h \<union> (\<Union>c\<in>set cs. (\<lambda>p. triple (HostIP p) (Protocol p) (HostPort p)) ` {p \<in> set (Ports c). \<not> HostPort p \<le>s 0})" for cs
    by (induction cs arbitrary: h) (auto simp: fold_ports)
  then show "used_ports (UpdateUsedPorts h pod True) = used_ports h \<union> pod_ports pod"
    by (simp add: UpdateUsedPorts_def pod_ports_def)
  have "used_ports (foldl (\<lambda>h c. foldl (\<lambda>h p. HostPortInfo_Remove h (HostIP p) (Protocol p) (HostPort p)) h (Ports c)) h cs) =
      used_ports h - (\<Union>c\<in>set cs. (\<lambda>p. triple (HostIP p) (Protocol p) (HostPort p)) ` {p \<in> set (Ports c). \<not> HostPort p \<le>s 0})" for cs
    by (induction cs arbitrary: h) (auto simp: fold_ports)
  then show "used_ports (UpdateUsedPorts h pod False) = used_ports h - pod_ports pod"
    by (simp add: UpdateUsedPorts_def pod_ports_def)
qed

lemma foldl_preserves: "(\<And>s x. P s \<Longrightarrow> P (f s x)) \<Longrightarrow> P s \<Longrightarrow> P (foldl f s xs)"
  by (induction xs arbitrary: s) auto

lemma ports_inv_UpdateUsedPorts: "ports_inv h \<Longrightarrow> ports_inv (UpdateUsedPorts h pod add)"
  unfolding UpdateUsedPorts_def
  by (rule foldl_preserves[of ports_inv], rule foldl_preserves[of ports_inv])
    (auto simp: ports_inv_Add ports_inv_Remove)

lemma snd_calculateResource: "snd (calculateResource L pod) = (nonzero_cpu pod, nonzero_mem pod)"
proof -
  have "snd (foldl (\<lambda>(res, a, b) c. let (x, y) = GetNonzeroRequests (Requests c)
       in (Resource_Add L res (Requests c), a + x, b + y)) s cs) =
     (fst (snd s) + (\<Sum>c\<leftarrow>cs. fst (GetNonzeroRequests (Requests c))),
      snd (snd s) + (\<Sum>c\<leftarrow>cs. snd (GetNonzeroRequests (Requests c))))" for s cs
    by (induction cs arbitrary: s) (auto simp: Let_def add.assoc split: prod.splits)
  from this[of "(emptyResource, 0, 0)" "pod_Containers pod"] show ?thesis
    unfolding calculateResource_def nonzero_cpu_def nonzero_mem_def by (simp only: fst_conv snd_conv add_0)
qed

lemma calculateResource_eq:
  obtains res where "calculateResource L pod = (res, nonzero_cpu pod, nonzero_mem pod)"
    "\<And>d. amount res d = request_amount L pod d"
  using snd_calculateResource[of L pod] amount_calculateResource[of L pod]
  by (metis prod.collapse)

text \<open>The update of \<open>requestedResource\<close> in \<open>AddPod\<close> and \<open>RemovePod\<close>.\<close>

lemma amount_requested_update:
  "amount (rr\<lparr>MilliCPU := MilliCPU rr + MilliCPU res, Memory := Memory rr + Memory res,
     EphemeralStorage := EphemeralStorage rr + EphemeralStorage res,
     ScalarResources := combine_scalars (+) rr res\<rparr>) d =
   amount rr d + (if d = PodCount then 0 else amount res d)"
  "amount (rr\<lparr>MilliCPU := MilliCPU rr - MilliCPU res, Memory := Memory rr - Memory res,
     EphemeralStorage := EphemeralStorage rr - EphemeralStorage res,
     ScalarResources := combine_scalars (-) rr res\<rparr>) d =
   amount rr d - (if d = PodCount then 0 else amount res d)"
  using amount_Plus[of rr res d] amount_Sub[of rr res d]
  by (cases d; simp add: Plus_def Sub_def scalar_of_def scalar_map_def)+

lemma NodeInfo_AddPod_facts:
  assumes "NodeInfo_AddPod L n pod g = (n', g')"
  shows "ni_pods n' = ni_pods n @ [pod]" "ni_node n' = ni_node n" "ni_generation n' = generation g + 1"
    "g' = g\<lparr>generation := generation g + 1\<rparr>" "allocatableResource n' = allocatableResource n"
    "amount (requestedResource n') d = amount (requestedResource n) d + node_request L pod d"
    "ni_inv L n \<Longrightarrow> ni_inv L n'"
proof -
  obtain res where res: "calculateResource L pod = (res, nonzero_cpu pod, nonzero_mem pod)"
    "\<And>d. amount res d = request_amount L pod d" by (rule calculateResource_eq) blast
  note eq = assms[unfolded NodeInfo_AddPod_def res(1) Let_def nextGeneration_def split_conv prod.inject]
  note n' = eq[THEN conjunct1, symmetric] eq[THEN conjunct2, symmetric]
  show "ni_pods n' = ni_pods n @ [pod]" "ni_node n' = ni_node n" "ni_generation n' = generation g + 1"
    "g' = g\<lparr>generation := generation g + 1\<rparr>" "allocatableResource n' = allocatableResource n"
    using n' by auto
  show am: "amount (requestedResource n') d = amount (requestedResource n) d + node_request L pod d" for d
    using n' by (auto simp: amount_requested_update res(2) node_request_def)
  show "ni_inv L n'" if inv: "ni_inv L n"
    unfolding ni_inv_def am using inv n'
    by (auto simp: ni_inv_def used_ports_UpdateUsedPorts ports_inv_UpdateUsedPorts Un_commute add.commute)
qed

lemma mset_last: "xs \<noteq> [] \<Longrightarrow> mset xs = add_mset (xs ! (length xs - 1)) (mset (take (length xs - 1) xs))"
  by (metis append_butlast_last_id butlast_conv_take last_conv_nth mset_append mset.simps add_mset_add_single)

lemma delete_swap_mset:
  assumes "i < length xs" shows "mset (delete_swap i xs) = mset xs - {#xs ! i#}"
proof -
  let ?l = "length xs - 1"
  have m: "mset xs = add_mset (xs ! ?l) (mset (take ?l xs))" using assms by (intro mset_last) auto
  show ?thesis
  proof (cases "i = ?l")
    case True
    then have "delete_swap i xs = take ?l xs" by (simp add: delete_swap_def)
    then show ?thesis using True m by simp
  next
    case False
    then have i: "i < length (take ?l xs)" using assms by simp
    have "delete_swap i xs = (take ?l xs)[i := xs ! ?l]" by (simp add: delete_swap_def take_update_swap)
    then have "mset (delete_swap i xs) = add_mset (xs ! ?l) (mset (take ?l xs) - {#take ?l xs ! i#})"
      using i by (simp add: mset_update)
    moreover have "take ?l xs ! i = xs ! i" using i by simp
    moreover have "take ?l xs ! i \<in># mset (take ?l xs)" using i by (simp only: set_mset_mset nth_mem)
    ultimately show ?thesis using m by simp
  qed
qed

lemma find_pod_Some:
  "find_pod k i ps = Some j \<Longrightarrow> \<exists>m. j = i + m \<and> m < length ps \<and> pod_UID (ps ! m) = k"
proof (induction ps arbitrary: i)
  case (Cons p ps)
  show ?case
  proof (cases "GetPodKey p = Some k")
    case True
    with Cons.prems show ?thesis by (intro exI[of _ 0]) (auto simp: GetPodKey_def split: if_splits)
  next
    case False
    with Cons.prems have "find_pod k (i + 1) ps = Some j" by (auto split: option.splits)
    from Cons.IH[OF this] obtain m where "j = i + 1 + m" "m < length ps" "pod_UID (ps ! m) = k" by blast
    then show ?thesis by (intro exI[of _ "Suc m"]) simp
  qed
qed simp

lemma find_pod_None: "k \<noteq> [] \<Longrightarrow> find_pod k i ps = None \<longleftrightarrow> k \<notin> pod_UID ` set ps"
  by (induction ps arbitrary: i) (auto simp: GetPodKey_def)

lemma find_pod_unique:
  assumes "uids_ok ps" "p \<in> set ps"
  shows "\<exists>j < length ps. find_pod (pod_UID p) 0 ps = Some j \<and> ps ! j = p"
proof -
  have "pod_UID p \<noteq> []" using assms by (metis image_eqI uids_ok_def)
  then obtain j where "find_pod (pod_UID p) 0 ps = Some j"
    using assms(2) find_pod_None by (metis image_eqI option.exhaust)
  moreover from find_pod_Some[OF this] have "j < length ps" "pod_UID (ps ! j) = pod_UID p" by auto
  ultimately show ?thesis
    using assms by (metis distinct_map inj_onD nth_mem uids_ok_def)
qed

text \<open>Removing a pod with the delete loop, on a list where the UIDs identify the pods.\<close>

lemma remove_from_list:
  assumes "uids_ok ps" "p \<in> set ps"
  shows "\<exists>ps'. (case find_pod (pod_UID p) 0 ps of None \<Rightarrow> ps | Some i \<Rightarrow> delete_swap i ps) = ps' \<and>
    mset ps = add_mset p (mset ps') \<and> uids_ok ps' \<and> set ps' = set ps - {p}"
proof -
  obtain j where j: "j < length ps" "find_pod (pod_UID p) 0 ps = Some j" "ps ! j = p"
    using find_pod_unique[OF assms] by blast
  let ?ps = "delete_swap j ps"
  have m: "mset ps = add_mset p (mset ?ps)" using j assms(2) by (simp add: delete_swap_mset)
  have d: "distinct ps" using assms(1) by (simp add: uids_ok_def distinct_map)
  have s: "set ps = insert p (set ?ps)" using m by (metis set_mset_add_mset_insert set_mset_mset)
  have "mset (p # ?ps) = mset ps" using m by simp
  then have "distinct (p # ?ps)" "distinct (map pod_UID (p # ?ps))"
    using d assms(1) by (metis mset_eq_imp_distinct_iff, metis mset_eq_imp_distinct_iff mset_map uids_ok_def)
  with m s j(2) assms(1) show ?thesis by (auto simp: uids_ok_def)
qed

lemma uids_ok_mset: "mset ps = mset qs \<Longrightarrow> uids_ok ps = uids_ok qs"
  unfolding uids_ok_def by (metis mset_eq_imp_distinct_iff mset_eq_setD mset_map)

lemma uids_ok_filter: "uids_ok ps \<Longrightarrow> uids_ok (filter P ps)"
  by (auto simp: uids_ok_def distinct_map_filter)

lemma affinity_list_after_removal:
  assumes "mset pwa = filter_mset hasPodAffinityConstraints (mset ps)" "uids_ok ps" "pod \<in> set ps"
    "mset ps = add_mset pod (mset ps')"
  shows "mset (case find_pod (pod_UID pod) 0 pwa of None \<Rightarrow> pwa | Some i \<Rightarrow> delete_swap i pwa) =
    filter_mset hasPodAffinityConstraints (mset ps')"
proof (cases "hasPodAffinityConstraints pod")
  case True
  have u: "uids_ok pwa" using assms(1,2) uids_ok_filter uids_ok_mset by (metis mset_filter)
  have "pod \<in># mset pwa" using assms(1,3) True by simp
  then have "pod \<in> set pwa" by simp
  from remove_from_list[OF u this] show ?thesis using assms(1,4) True by auto
next
  case False
  have ne: "pod_UID pod \<noteq> []" using assms(2,3) by (metis image_eqI uids_ok_def)
  have "set pwa \<subseteq> set ps - {pod}"
    using assms(1) False by (metis (mono_tags, lifting) Diff_empty insertE mem_Collect_eq set_mset_filter set_mset_mset subsetI subset_Diff_insert)
  then have "pod_UID pod \<notin> pod_UID ` set pwa"
    using assms(2,3) by (auto simp: uids_ok_def distinct_map inj_on_def)
  then have "find_pod (pod_UID pod) 0 pwa = None" using find_pod_None[OF ne] by blast
  then show ?thesis using assms(1,4) False by simp
qed

lemma pod_ports_minus:
  assumes "ports_disjoint ps" "pod \<in> set ps" "set ps' = set ps - {pod}"
  shows "(\<Union>p\<in>set ps. pod_ports p) - pod_ports pod = (\<Union>p\<in>set ps'. pod_ports p)"
  using assms by (fastforce simp: ports_disjoint_def)

lemma NodeInfo_RemovePod_present:
  assumes inv: "ni_inv L n" and u: "uids_ok (ni_pods n)" and pod: "pod \<in> set (ni_pods n)"
  obtains n' where "NodeInfo_RemovePod L n pod g = (n', g\<lparr>generation := generation g + 1\<rparr>, None)"
    "mset (ni_pods n) = add_mset pod (mset (ni_pods n'))" "uids_ok (ni_pods n')"
    "ni_node n' = ni_node n" "ni_generation n' = generation g + 1"
    "allocatableResource n' = allocatableResource n"
    "\<And>d. amount (requestedResource n') d = amount (requestedResource n) d - node_request L pod d"
    "ports_disjoint (ni_pods n) \<Longrightarrow> ni_inv L n'"
proof -
  obtain res where res: "calculateResource L pod = (res, nonzero_cpu pod, nonzero_mem pod)"
    "\<And>d. amount res d = request_amount L pod d" by (rule calculateResource_eq) blast
  have ne: "pod_UID pod \<noteq> []" using u pod by (metis image_eqI uids_ok_def)
  let ?pwa = "case find_pod (pod_UID pod) 0 (podsWithAffinity n) of None \<Rightarrow> podsWithAffinity n
     | Some i \<Rightarrow> delete_swap i (podsWithAffinity n)"
  obtain j where j: "find_pod (pod_UID pod) 0 (ni_pods n) = Some j" using find_pod_unique[OF u pod] by blast
  let ?ps = "delete_swap j (ni_pods n)"
  have ps: "mset (ni_pods n) = add_mset pod (mset ?ps)" "uids_ok ?ps" "set ?ps = set (ni_pods n) - {pod}"
    using remove_from_list[OF u pod] j by auto
  let ?rr = "requestedResource n" and ?nz = "nonzeroRequest n"
  let ?n' = "n\<lparr>podsWithAffinity := ?pwa, ni_pods := ?ps,
     requestedResource := ?rr\<lparr>MilliCPU := MilliCPU ?rr - MilliCPU res, Memory := Memory ?rr - Memory res,
       EphemeralStorage := EphemeralStorage ?rr - EphemeralStorage res,
       ScalarResources := combine_scalars (-) ?rr res\<rparr>,
     nonzeroRequest := ?nz\<lparr>MilliCPU := MilliCPU ?nz - nonzero_cpu pod, Memory := Memory ?nz - nonzero_mem pod\<rparr>,
     usedPorts := UpdateUsedPorts (usedPorts n) pod False, ni_generation := generation g + 1\<rparr>"
  have am: "amount (requestedResource ?n') d = amount ?rr d - node_request L pod d" for d
    by (auto simp: amount_requested_update res(2) node_request_def)
  show thesis
  proof (rule that[of ?n'])
    show "NodeInfo_RemovePod L n pod g = (?n', g\<lparr>generation := generation g + 1\<rparr>, None)"
      using ne j res(1)
      by (cases "find_pod (pod_UID pod) 0 (podsWithAffinity n)")
        (simp_all add: NodeInfo_RemovePod_def GetPodKey_def nextGeneration_def Let_def)
    show "ni_inv L ?n'" if dis: "ports_disjoint (ni_pods n)"
      unfolding ni_inv_def am
      using inv ps affinity_list_after_removal[OF _ u pod ps(1)] pod_ports_minus[OF dis pod ps(3)]
      by (simp add: ni_inv_def used_ports_UpdateUsedPorts ports_inv_UpdateUsedPorts)
  qed (use ps am in auto)
qed

lemma NodeInfo_RemovePod_absent:
  assumes inv: "ni_inv L n" and ab: "pod_UID pod \<notin> pod_UID ` set (ni_pods n)"
  shows "\<exists>e. NodeInfo_RemovePod L n pod g = (n, g, Some e)"
proof (cases "pod_UID pod = []")
  case False
  have "set (podsWithAffinity n) \<subseteq> set (ni_pods n)"
    using inv unfolding ni_inv_def by (metis (no_types, lifting) mem_Collect_eq set_mset_filter set_mset_mset subsetI)
  then have "pod_UID pod \<notin> pod_UID ` set (podsWithAffinity n)" using ab by auto
  then have "find_pod (pod_UID pod) 0 (podsWithAffinity n) = None" "find_pod (pod_UID pod) 0 (ni_pods n) = None"
    using find_pod_None[OF False] ab by auto
  then show ?thesis using False by (auto simp: NodeInfo_RemovePod_def GetPodKey_def split: option.splits)
qed (simp add: NodeInfo_RemovePod_def GetPodKey_def)

lemma ni_inv_irrelevant [simp]:
  "ni_inv L (n\<lparr>ni_node := a\<rparr>) = ni_inv L n" "ni_inv L (n\<lparr>allocatableResource := b\<rparr>) = ni_inv L n"
  "ni_inv L (n\<lparr>ni_taints := c\<rparr>) = ni_inv L n" "ni_inv L (n\<lparr>taintsErr := d\<rparr>) = ni_inv L n"
  "ni_inv L (n\<lparr>imageStates := e\<rparr>) = ni_inv L n" "ni_inv L (n\<lparr>TransientInfo := f\<rparr>) = ni_inv L n"
  "ni_inv L (n\<lparr>memoryPressureCondition := h\<rparr>) = ni_inv L n"
  "ni_inv L (n\<lparr>diskPressureCondition := i\<rparr>) = ni_inv L n"
  "ni_inv L (n\<lparr>pidPressureCondition := j\<rparr>) = ni_inv L n"
  "ni_inv L (n\<lparr>ni_generation := k\<rparr>) = ni_inv L n"
  by (simp_all add: ni_inv_def)

lemma set_conditions_facts:
  "ni_pods (foldl set_condition n cs) = ni_pods n" "ni_node (foldl set_condition n cs) = ni_node n"
  "requestedResource (foldl set_condition n cs) = requestedResource n"
  "allocatableResource (foldl set_condition n cs) = allocatableResource n"
  "ni_inv L (foldl set_condition n cs) = ni_inv L n"
  by (induction cs arbitrary: n) (auto simp: set_condition_def)

lemma SetNode_facts:
  assumes "SetNode L n node g = (n', g')"
  shows "ni_pods n' = ni_pods n" "ni_node n' = Some node" "ni_inv L n' = ni_inv L n"
    "ni_generation n' = generation g + 1" "generation g' = generation g + 1"
    "requestedResource n' = requestedResource n" "allocatableResource n' = NewResource L (node_Allocatable node)"
    "TransientInfo n' = length (transients g)" "transients g' = transients g @ [initializeNodeTransientInfo]"
  using assms
  by (auto simp: SetNode_def Let_def nextGeneration_def NewTransientSchedulerInfo_def set_conditions_facts)

lemma NewNodeInfo_empty_facts:
  assumes "NewNodeInfo L [] g = (n, g')"
  shows "ni_pods n = []" "ni_node n = None" "ni_inv L n" "ni_generation n = generation g + 1"
    "generation g' = generation g + 1"
  using assms
  by (auto simp: NewNodeInfo_def Let_def nextGeneration_def NewTransientSchedulerInfo_def ni_inv_def)
     (auto simp: emptyResource_def)

lemma AddPod_fold_facts:
  assumes "foldl (\<lambda>(ni, g) pod. NodeInfo_AddPod L ni pod g) (n, g) pods = (n', g')"
  shows "ni_pods n' = ni_pods n @ pods" "ni_inv L n \<Longrightarrow> ni_inv L n'"
    "generation g' = generation g + of_nat (length pods)"
  using assms
proof (induction pods arbitrary: n g)
  case (Cons p pods)
  {
    case 1
    obtain n1 g1 where 2: "NodeInfo_AddPod L n p g = (n1, g1)" by fastforce
    with 1 Cons.IH(1)[of n1 g1] NodeInfo_AddPod_facts(1)[OF 2] show ?case by simp
  next
    case 2
    obtain n1 g1 where 3: "NodeInfo_AddPod L n p g = (n1, g1)" by fastforce
    with 2 Cons.IH(2)[of n1 g1] NodeInfo_AddPod_facts(7)[OF 3] show ?case by simp
  next
    case 3
    obtain n1 g1 where 4: "NodeInfo_AddPod L n p g = (n1, g1)" by fastforce
    with 3 Cons.IH(3)[of n1 g1] NodeInfo_AddPod_facts(4)[OF 4] show ?case by simp
  }
qed auto

lemma NewNodeInfo_facts:
  assumes "NewNodeInfo L pods g = (n, g')"
  shows "ni_pods n = pods" "ni_inv L n"
proof -
  obtain n0 g0 where 0: "NewNodeInfo L [] g = (n0, g0)" by fastforce
  then have "foldl (\<lambda>(ni, g) pod. NodeInfo_AddPod L ni pod g) (n0, g0) pods = (n, g')"
    using assms by (auto simp: NewNodeInfo_def Let_def split: prod.splits)
  from AddPod_fold_facts[OF this] NewNodeInfo_empty_facts[OF 0] show "ni_pods n = pods" "ni_inv L n" by auto
qed

lemma NodeInfo_Clone_id [simp]: "NodeInfo_Clone n = n"
proof -
  have "fmmap (\<lambda>m. {||} |\<union>| m) (usedPorts n) = usedPorts n" by (rule fmap_ext) (auto simp: option.map_ident)
  then show ?thesis by (simp add: NodeInfo_Clone_def)
qed

subsection \<open>Ledgers\<close>

text \<open>
  The interface shared by the components that keep a running total over a changing collection of
  items: adding and removing an item moves the total by the weight of the item. The clients only
  use these laws; the total after any history of operations is the sum over what is left.
\<close>

locale ledger =
  fixes items :: "'s \<Rightarrow> 'i multiset" and total :: "'s \<Rightarrow> 'd \<Rightarrow> int64" and weight :: "'i \<Rightarrow> 'd \<Rightarrow> int64"
    and add :: "'s \<Rightarrow> 'i \<Rightarrow> 's" and remove :: "'s \<Rightarrow> 'i \<Rightarrow> 's" and ok :: "'s \<Rightarrow> bool"
    and fresh :: "'s \<Rightarrow> 'i \<Rightarrow> bool"
  assumes add_items: "\<lbrakk>ok s; fresh s i\<rbrakk> \<Longrightarrow> items (add s i) = add_mset i (items s)"
    and add_total: "\<lbrakk>ok s; fresh s i\<rbrakk> \<Longrightarrow> total (add s i) d = total s d + weight i d"
    and add_ok: "\<lbrakk>ok s; fresh s i\<rbrakk> \<Longrightarrow> ok (add s i)"
    and remove_items: "\<lbrakk>ok s; i \<in># items s\<rbrakk> \<Longrightarrow> items (remove s i) = items s - {#i#}"
    and remove_total: "\<lbrakk>ok s; i \<in># items s\<rbrakk> \<Longrightarrow> total (remove s i) d = total s d - weight i d"
    and remove_ok: "\<lbrakk>ok s; i \<in># items s\<rbrakk> \<Longrightarrow> ok (remove s i)"
begin

definition balanced :: "'s \<Rightarrow> bool" where
  "balanced s \<longleftrightarrow> (\<forall>d. total s d = (\<Sum>i\<in>#items s. weight i d))"

lemma add_balanced: "ok s \<Longrightarrow> fresh s i \<Longrightarrow> balanced s \<Longrightarrow> balanced (add s i)"
  by (simp add: balanced_def add_items add_total)

lemma remove_balanced: "ok s \<Longrightarrow> i \<in># items s \<Longrightarrow> balanced s \<Longrightarrow> balanced (remove s i)"
  by (auto simp: balanced_def remove_items remove_total dest!: multi_member_split)

text \<open>A history of operations; \<open>True\<close> adds and \<open>False\<close> removes.\<close>

fun run :: "'s \<Rightarrow> (bool \<times> 'i) list \<Rightarrow> 's" where
  "run s [] = s"
| "run s ((b, i) # ops) = run (if b then add s i else remove s i) ops"

fun valid :: "'s \<Rightarrow> (bool \<times> 'i) list \<Rightarrow> bool" where
  "valid s [] = True"
| "valid s ((b, i) # ops) =
     (if b then fresh s i \<and> valid (add s i) ops else i \<in># items s \<and> valid (remove s i) ops)"

lemma run_balanced: "ok s \<Longrightarrow> balanced s \<Longrightarrow> valid s ops \<Longrightarrow> balanced (run s ops) \<and> ok (run s ops)"
  by (induction ops arbitrary: s)
    (auto simp: add_balanced remove_balanced add_ok remove_ok)

lemma add_remove: "ok s \<Longrightarrow> fresh s i \<Longrightarrow> total (remove (add s i) i) d = total s d"
  by (simp add: add_items add_total add_ok remove_total)

end

text \<open>A \<open>NodeInfo\<close> is such a ledger for its requested resources.\<close>

definition node_ok :: "k8s \<Rightarrow> NodeInfo \<times> globals \<Rightarrow> bool" where
  "node_ok L s \<longleftrightarrow> ni_inv L (fst s) \<and> uids_ok (ni_pods (fst s)) \<and> ports_disjoint (ni_pods (fst s))"

definition node_fresh :: "NodeInfo \<times> globals \<Rightarrow> Pod \<Rightarrow> bool" where
  "node_fresh s p \<longleftrightarrow> pod_UID p \<noteq> [] \<and> pod_UID p \<notin> pod_UID ` set (ni_pods (fst s)) \<and>
     (\<forall>q\<in>set (ni_pods (fst s)). pod_ports p \<inter> pod_ports q = {})"

definition add_step :: "k8s \<Rightarrow> NodeInfo \<times> globals \<Rightarrow> Pod \<Rightarrow> NodeInfo \<times> globals" where
  "add_step L s p = NodeInfo_AddPod L (fst s) p (snd s)"

definition remove_step :: "k8s \<Rightarrow> NodeInfo \<times> globals \<Rightarrow> Pod \<Rightarrow> NodeInfo \<times> globals" where
  "remove_step L s p = (case NodeInfo_RemovePod L (fst s) p (snd s) of (n, g, e) \<Rightarrow> (n, g))"

lemma ports_disjoint_mset_sub: "ports_disjoint ps \<Longrightarrow> set qs \<subseteq> set ps \<Longrightarrow> ports_disjoint qs"
  by (auto simp: ports_disjoint_def)

lemma ports_disjoint_snoc:
  "ports_disjoint ps \<Longrightarrow> (\<forall>q\<in>set ps. pod_ports p \<inter> pod_ports q = {}) \<Longrightarrow> ports_disjoint (ps @ [p])"
  by (fastforce simp: ports_disjoint_def)

lemma add_step_ok:
  assumes "node_ok L s" "node_fresh s p"
  shows "node_ok L (add_step L s p)"
proof -
  obtain n g n' g' where s: "s = (n, g)" and r: "NodeInfo_AddPod L n p g = (n', g')" by (metis prod.exhaust)
  show ?thesis using assms NodeInfo_AddPod_facts(1,7)[OF r] r
    by (auto simp: node_ok_def node_fresh_def add_step_def s uids_ok_def ports_disjoint_snoc)
qed

lemma remove_step_facts:
  assumes "node_ok L s" "p \<in># mset (ni_pods (fst s))"
  shows "mset (ni_pods (fst (remove_step L s p))) = mset (ni_pods (fst s)) - {#p#}"
    "amount (requestedResource (fst (remove_step L s p))) d =
       amount (requestedResource (fst s)) d - node_request L p d"
    "node_ok L (remove_step L s p)"
proof -
  have a: "ni_inv L (fst s)" "uids_ok (ni_pods (fst s))" "p \<in> set (ni_pods (fst s))"
    "ports_disjoint (ni_pods (fst s))"
    using assms by (auto simp: node_ok_def)
  obtain n' where r: "NodeInfo_RemovePod L (fst s) p (snd s) = (n', (snd s)\<lparr>generation := generation (snd s) + 1\<rparr>, None)"
    and m: "mset (ni_pods (fst s)) = add_mset p (mset (ni_pods n'))"
    and f: "uids_ok (ni_pods n')" "ni_inv L n'"
      "\<And>d. amount (requestedResource n') d = amount (requestedResource (fst s)) d - node_request L p d"
    using NodeInfo_RemovePod_present[OF a(1-3), of "snd s"] a(4) by metis
  have sub: "set (ni_pods n') \<subseteq> set (ni_pods (fst s))"
    using m by (metis set_mset_add_mset_insert set_mset_mset subset_insertI)
  have e: "remove_step L s p = (n', (snd s)\<lparr>generation := generation (snd s) + 1\<rparr>)"
    by (simp add: remove_step_def r)
  show "mset (ni_pods (fst (remove_step L s p))) = mset (ni_pods (fst s)) - {#p#}"
    "amount (requestedResource (fst (remove_step L s p))) d =
       amount (requestedResource (fst s)) d - node_request L p d"
    "node_ok L (remove_step L s p)"
    using m f ports_disjoint_mset_sub[OF a(4) sub] by (auto simp: e node_ok_def)
qed

interpretation nl: ledger "\<lambda>s. mset (ni_pods (fst s))" "\<lambda>s. amount (requestedResource (fst s))"
  "node_request L" "add_step L" "remove_step L" "node_ok L" node_fresh for L
proof unfold_locales
  fix s i
  assume ok: "node_ok L s" "node_fresh s i"
  obtain n' g' where r: "NodeInfo_AddPod L (fst s) i (snd s) = (n', g')" by fastforce
  show "mset (ni_pods (fst (add_step L s i))) = add_mset i (mset (ni_pods (fst s)))"
    "amount (requestedResource (fst (add_step L s i))) d =
       amount (requestedResource (fst s)) d + node_request L i d" for d
    using NodeInfo_AddPod_facts(1,6)[OF r] r by (simp_all add: add_step_def)
  show "node_ok L (add_step L s i)" using ok by (rule add_step_ok)
qed (fact remove_step_facts)+

subsection \<open>Properties\<close>

text \<open>
  After any history of \<open>AddPod\<close> and \<open>RemovePod\<close> calls in which the added pods have new non-empty
  UIDs and free host ports and the removed pods are present, the aggregates of the \<open>NodeInfo\<close>
  (requested resources per dimension, non-zero requests, pods with affinity, host ports) are those
  of the pods that are left.
\<close>

theorem NodeInfo_history:
  assumes "node_ok L (n, g)" "nl.valid L (n, g) ops" "nl.run L (n, g) ops = (n', g')"
  shows "ni_inv L n' \<and> (\<forall>d. amount (requestedResource n') d = (\<Sum>p\<in>#mset (ni_pods n'). node_request L p d))"
proof -
  have "nl.balanced L (n, g)" using assms(1) by (simp add: nl.balanced_def node_ok_def ni_inv_def)
  from nl.run_balanced[OF assms(1) this assms(2)] assms(3) show ?thesis
    by (simp add: nl.balanced_def node_ok_def)
qed

definition example_pod :: "string \<Rightarrow> int64 \<Rightarrow> int32 \<Rightarrow> Pod" where
  "example_pod uid cpu port = zero_Pod\<lparr>pod_UID := uid, pod_Name := uid,
     pod_Containers := [\<lparr>Requests = [(''cpu'', \<lparr>Value = 1, MilliValue = cpu\<rparr>)],
       Limits = [], container_Image = [], Ports = [\<lparr>HostIP = [], Protocol = [], HostPort = port\<rparr>]\<rparr>]\<rparr>"

definition example_globals :: globals where
  "example_globals = \<lparr>generation = 0, transients = []\<rparr>"

lemma node_ok_new: "node_ok L (NewNodeInfo L [] g)"
proof -
  obtain n g' where r: "NewNodeInfo L [] g = (n, g')" by fastforce
  note f = NewNodeInfo_empty_facts[OF r]
  show ?thesis using f(1,3) by (simp add: r node_ok_def uids_ok_def ports_disjoint_def)
qed

lemma NodeInfo_AddPod_pods: "ni_pods (fst (NodeInfo_AddPod L n pod g)) = ni_pods n @ [pod]"
  using NodeInfo_AddPod_facts(1) by (metis prod.collapse)

lemma pod_ports_example: "0 <s port \<Longrightarrow> pod_ports (example_pod uid cpu port) = {triple [] [] port}"
  by (auto simp: pod_ports_def example_pod_def zero_Pod_def signed.not_le[symmetric])

theorem NodeInfo_history_witness:
  "\<exists>n' g'. nl.run example_k8s (NewNodeInfo example_k8s [] example_globals)
      [(True, example_pod ''u1'' 100 80), (True, example_pod ''u2'' 250 81), (False, example_pod ''u1'' 100 80)] =
      (n', g') \<and> ni_inv example_k8s n'"
proof -
  let ?p = "example_pod ''u1'' 100 80" and ?q = "example_pod ''u2'' 250 81"
  obtain n g where s: "NewNodeInfo example_k8s [] example_globals = (n, g)" by fastforce
  have e: "ni_pods n = []" using NewNodeInfo_empty_facts[OF s] by simp
  have ports: "pod_ports ?p \<inter> pod_ports ?q = {}"
    by (simp add: pod_ports_example word_sless_alt triple_def)
  have "nl.valid example_k8s (n, g) [(True, ?p), (True, ?q), (False, ?p)]"
    using e ports by (simp add: node_fresh_def add_step_def NodeInfo_AddPod_pods Int_commute)
      (simp add: example_pod_def zero_Pod_def)
  moreover have "node_ok example_k8s (n, g)" using node_ok_new s by metis
  ultimately show ?thesis unfolding s using NodeInfo_history[of example_k8s n g] by (meson surj_pair)
qed

text \<open>
  C33. \<open>RemovePod\<close> undoes \<open>AddPod\<close>, on a node whose records are in order (the requested resources, the ports and the pods with affinity are those of its pods, which have distinct
  UIDs that are not empty, and no host port in common) and for a pod with a UID that is new on the node and with no host port that a pod of the node has. Then
  the pods, the requested resources in every dimension, the non-zero requests, the pods with affinity and the host ports are again what they were, and the generation has moved on by two. For a pod that
  shares a host port with another pod this fails: \<open>RemovePod\<close> frees the port, although the other pod still has it.
\<close>

theorem NodeInfo_Add_Remove:
  assumes "node_ok L (n, g)" "node_fresh (n, g) pod" "NodeInfo_AddPod L n pod g = (n1, g1)"
  shows "\<exists>n2. NodeInfo_RemovePod L n1 pod g1 = (n2, g\<lparr>generation := generation g + 2\<rparr>, None) \<and>
    mset (ni_pods n2) = mset (ni_pods n) \<and> ni_node n2 = ni_node n \<and>
    (\<forall>d. amount (requestedResource n2) d = amount (requestedResource n) d) \<and>
    MilliCPU (nonzeroRequest n2) = MilliCPU (nonzeroRequest n) \<and>
    Memory (nonzeroRequest n2) = Memory (nonzeroRequest n) \<and>
    mset (podsWithAffinity n2) = mset (podsWithAffinity n) \<and> usedPorts n2 = usedPorts n"
proof -
  note f = NodeInfo_AddPod_facts[OF assms(3)]
  have ok: "node_ok L (n1, g1)" using add_step_ok[OF assms(1,2)] assms(3) by (simp add: add_step_def)
  then have a: "ni_inv L n1" "uids_ok (ni_pods n1)" "ports_disjoint (ni_pods n1)" by (auto simp: node_ok_def)
  obtain n2 where n2: "NodeInfo_RemovePod L n1 pod g1 = (n2, g1\<lparr>generation := generation g1 + 1\<rparr>, None)"
    "mset (ni_pods n1) = add_mset pod (mset (ni_pods n2))" "ni_node n2 = ni_node n1" "ni_inv L n2"
    using NodeInfo_RemovePod_present[OF a(1,2), of pod g1] a(3) f(1) by auto
  have m: "mset (ni_pods n2) = mset (ni_pods n)" using n2(2) f(1) by simp
  have s: "set (ni_pods n2) = set (ni_pods n)" using m by (rule mset_eq_setD)
  have inv: "ni_inv L n" using assms(1) by (simp add: node_ok_def)
  have "usedPorts n2 = usedPorts n"
    using inv n2(4) s by (intro used_ports_inj) (auto simp: ni_inv_def)
  with inv n2 m f(2,4) show ?thesis by (simp add: ni_inv_def)
qed

theorem NodeInfo_Add_Remove_witness:
  "\<exists>n1 g1 n2 g2. NodeInfo_AddPod example_k8s (fst (NewNodeInfo example_k8s [] example_globals))
      (example_pod ''u1'' 100 80) (snd (NewNodeInfo example_k8s [] example_globals)) = (n1, g1) \<and>
    NodeInfo_RemovePod example_k8s n1 (example_pod ''u1'' 100 80) g1 = (n2, g2, None) \<and> ni_pods n2 = []"
proof -
  let ?p = "example_pod ''u1'' 100 80"
  obtain n g where s: "NewNodeInfo example_k8s [] example_globals = (n, g)" by fastforce
  obtain n1 g1 where r: "NodeInfo_AddPod example_k8s n ?p g = (n1, g1)" by fastforce
  have e: "ni_pods n = []" using NewNodeInfo_empty_facts[OF s] by simp
  have "node_fresh (n, g) ?p" using e by (simp add: node_fresh_def) (simp add: example_pod_def zero_Pod_def)
  moreover have "node_ok example_k8s (n, g)" using node_ok_new s by metis
  ultimately have "\<exists>n2. NodeInfo_RemovePod example_k8s n1 ?p g1 = (n2, g\<lparr>generation := generation g + 2\<rparr>, None) \<and>
      mset (ni_pods n2) = mset (ni_pods n)"
    using NodeInfo_Add_Remove[OF _ _ r] by blast
  then show ?thesis unfolding s fst_conv snd_conv using r e by auto
qed

text \<open>
  \<open>RemovePod\<close> fails exactly when the pod has no UID or no pod of the node has its UID, and then
  it changes nothing.
\<close>

theorem NodeInfo_RemovePod_error:
  assumes "ni_inv L n" "uids_ok (ni_pods n)" "\<forall>q\<in>set (ni_pods n). pod_UID q = pod_UID pod \<longrightarrow> q = pod"
  shows "if pod_UID pod \<in> pod_UID ` set (ni_pods n)
    then \<exists>n' g'. NodeInfo_RemovePod L n pod g = (n', g', None)
    else \<exists>e. NodeInfo_RemovePod L n pod g = (n, g, Some e)"
proof (cases "pod_UID pod \<in> pod_UID ` set (ni_pods n)")
  case True
  then have "pod \<in> set (ni_pods n)" using assms(3) by auto
  then obtain n' g' where "NodeInfo_RemovePod L n pod g = (n', g', None)"
    using NodeInfo_RemovePod_present[OF assms(1,2)] by metis
  with True show ?thesis by auto
next
  case False
  with NodeInfo_RemovePod_absent[OF assms(1) False, of g] show ?thesis by simp
qed

theorem NodeInfo_RemovePod_error_witness:
  "\<exists>e. NodeInfo_RemovePod example_k8s (fst (NewNodeInfo example_k8s [] example_globals))
        (example_pod ''u1'' 100 80) example_globals =
     (fst (NewNodeInfo example_k8s [] example_globals), example_globals, Some e)"
proof -
  obtain n g where s: "NewNodeInfo example_k8s [] example_globals = (n, g)" by fastforce
  note f = NewNodeInfo_empty_facts[OF s]
  show ?thesis unfolding s fst_conv
    using NodeInfo_RemovePod_error[OF f(3), of "example_pod ''u1'' 100 80" example_globals] f(1)
    by (simp add: uids_ok_def)
qed

subsection \<open>The map of a list of pods and nodes\<close>

definition node_of :: "Node list \<Rightarrow> string \<Rightarrow> Node option" where
  "node_of nodes name = find (\<lambda>n. node_Name n = name) (rev nodes)"

lemma ensure_info_facts:
  assumes "ensure_info L name (m, g) = (ni, g')" "\<forall>ni. fmlookup m name = Some ni \<longrightarrow> ni_inv L ni"
  shows "ni_inv L ni" "ni_pods ni = (case fmlookup m name of None \<Rightarrow> [] | Some x \<Rightarrow> ni_pods x)"
    "ni_node ni = (case fmlookup m name of None \<Rightarrow> None | Some x \<Rightarrow> ni_node x)"
proof -
  have new: "NewNodeInfo L [] g = (ni, g')" if "fmlookup m name = None"
    using assms(1) that by (simp add: ensure_info_def)
  show "ni_inv L ni" "ni_pods ni = (case fmlookup m name of None \<Rightarrow> [] | Some x \<Rightarrow> ni_pods x)"
    "ni_node ni = (case fmlookup m name of None \<Rightarrow> None | Some x \<Rightarrow> ni_node x)"
    using assms NewNodeInfo_empty_facts(1-3)[OF new]
    by (cases "fmlookup m name"; simp add: ensure_info_def)+
qed

text \<open>What the map holds after the loops: per name the pods, the node and its image states.\<close>

definition entry_view ::
    "k8s \<Rightarrow> (string, string fset) fmap \<Rightarrow> NodeInfo option \<Rightarrow> Pod list \<Rightarrow> Node option \<Rightarrow> bool" where
  "entry_view L iem e ps nd \<longleftrightarrow> (case e of
      None \<Rightarrow> ps = [] \<and> nd = None
    | Some ni \<Rightarrow> (ps \<noteq> [] \<or> nd \<noteq> None) \<and> ni_inv L ni \<and> ni_pods ni = ps \<and> ni_node ni = nd \<and>
        (\<forall>node. nd = Some node \<longrightarrow> imageStates ni = getNodeImageStates node iem))"

lemma entry_view_ensure:
  assumes "entry_view L iem (fmlookup m name) ps nd" "ensure_info L name (m, g) = (ni, g')"
  shows "ni_inv L ni" "ni_pods ni = ps" "ni_node ni = nd"
  using assms(1) ensure_info_facts[OF assms(2)] by (auto simp: entry_view_def split: option.splits)

lemma pod_loop_view:
  assumes "\<And>name. entry_view L iem (fmlookup (fst mg) name) (ps name) None"
  shows "entry_view L iem (fmlookup (fst (foldl (pod_loop_step L) mg pods)) name)
           (ps name @ filter (\<lambda>p. pod_NodeName p = name) pods) None"
  using assms
proof (induction pods arbitrary: mg ps)
  case (Cons p pods)
  obtain m g where mg: "mg = (m, g)" by fastforce
  obtain ni g1 where e: "ensure_info L (pod_NodeName p) (m, g) = (ni, g1)" by fastforce
  obtain ni1 g2 where a: "NodeInfo_AddPod L ni p g1 = (ni1, g2)" by fastforce
  have step: "pod_loop_step L (m, g) p = (fmupd (pod_NodeName p) ni1 m, g2)"
    by (simp add: pod_loop_step_def e a)
  note v = entry_view_ensure[OF Cons.prems[unfolded mg fst_conv] e]
  let ?ps = "\<lambda>name. ps name @ (if pod_NodeName p = name then [p] else [])"
  have "entry_view L iem (fmlookup (fmupd (pod_NodeName p) ni1 m) x) (?ps x) None" for x
    using Cons.prems[of x] v NodeInfo_AddPod_facts(1,2,7)[OF a]
    by (cases "pod_NodeName p = x") (simp_all add: mg, simp add: entry_view_def)
  then have "entry_view L iem (fmlookup (fst (foldl (pod_loop_step L) (fmupd (pod_NodeName p) ni1 m, g2) pods)) name)
      (?ps name @ filter (\<lambda>p. pod_NodeName p = name) pods) None"
    by (intro Cons.IH) simp
  then show ?case by (cases "pod_NodeName p = name") (simp_all add: mg step)
qed simp

lemma node_loop_view:
  assumes "\<And>name. entry_view L iem (fmlookup (fst mg) name) (ps name) (nd name)"
  shows "entry_view L iem (fmlookup (fst (foldl (node_loop_step L iem) mg nodes)) name) (ps name)
           (case node_of nodes name of None \<Rightarrow> nd name | Some n \<Rightarrow> Some n)"
  using assms
proof (induction nodes arbitrary: mg rule: rev_induct)
  case Nil
  then show ?case by (simp add: node_of_def)
next
  case (snoc n nodes)
  let ?mg = "foldl (node_loop_step L iem) mg nodes"
  obtain m g where mg: "?mg = (m, g)" by fastforce
  obtain ni g1 where e: "ensure_info L (node_Name n) (m, g) = (ni, g1)" by fastforce
  obtain ni1 g2 where a: "SetNode L ni n g1 = (ni1, g2)" by fastforce
  have step: "node_loop_step L iem (m, g) n =
      (fmupd (node_Name n) (ni1\<lparr>imageStates := getNodeImageStates n iem\<rparr>) m, g2)"
    by (simp add: node_loop_step_def e a)
  let ?nd = "\<lambda>x. case node_of nodes x of None \<Rightarrow> nd x | Some n \<Rightarrow> Some n"
  show ?case
  proof (cases "name = node_Name n")
    case True
    have "entry_view L iem (fmlookup m name) (ps name) (?nd name)"
      using snoc.IH[of mg] snoc.prems by (simp add: mg)
    note v = entry_view_ensure[OF this[unfolded True] e]
    show ?thesis using True v SetNode_facts(1-3)[OF a]
      by (simp add: mg step node_of_def entry_view_def)
  next
    case False
    then show ?thesis using snoc.IH[of mg] snoc.prems
      by (simp add: mg step node_of_def)
  qed
qed

text \<open>
  The map built from a list of pods and nodes has an entry exactly for the names that occur as a
  pod's node or a node's name; the entry aggregates exactly the pods of that name (in order), carries
  the last node of that name and the image states of that node.
\<close>

theorem CreateNodeNameToInfoMap_spec:
  "entry_view L (createImageExistenceMap nodes)
     (fmlookup (fst (CreateNodeNameToInfoMap L pods nodes g)) name)
     (filter (\<lambda>p. pod_NodeName p = name) pods) (node_of nodes name)"
proof -
  let ?iem = "createImageExistenceMap nodes"
  have "entry_view L ?iem (fmlookup (fst (foldl (pod_loop_step L) (fmempty, g) pods)) x)
      ([] @ filter (\<lambda>p. pod_NodeName p = x) pods) None" for x
    by (rule pod_loop_view[where ps = "\<lambda>_. []"]) (simp add: entry_view_def)
  from node_loop_view[of L ?iem "foldl (pod_loop_step L) (fmempty, g) pods"
      "\<lambda>x. filter (\<lambda>p. pod_NodeName p = x) pods" "\<lambda>_. None" nodes name] this
  show ?thesis by (cases "node_of nodes name") (simp_all add: CreateNodeNameToInfoMap_def)
qed

definition has_image :: "Node \<Rightarrow> string \<Rightarrow> bool" where
  "has_image node name \<longleftrightarrow> (\<exists>i\<in>set (node_Images node). name \<in> set (image_Names i))"

definition existing :: "(string, string fset) fmap \<Rightarrow> string \<Rightarrow> string set" where
  "existing m name = (case fmlookup m name of None \<Rightarrow> {} | Some s \<Rightarrow> fset s)"

lemma existing_add: "existing (add_existence nd m x) name = (if x = name then insert nd (existing m name) else existing m name)"
  by (auto simp: existing_def add_existence_def split: option.splits)

lemma existing_names: "existing (foldl (add_existence nd) m xs) name =
    (if name \<in> set xs then insert nd (existing m name) else existing m name)"
  by (induction xs arbitrary: m) (auto simp: existing_add)

lemma existing_images: "existing (foldl (\<lambda>m image. foldl (add_existence nd) m (image_Names image)) m is) name =
    (if \<exists>i\<in>set is. name \<in> set (image_Names i) then insert nd (existing m name) else existing m name)"
  by (induction "is" arbitrary: m) (auto simp: existing_names)

lemma existing_createImageExistenceMap:
  "existing (createImageExistenceMap nodes) name = node_Name ` {n \<in> set nodes. has_image n name}"
proof -
  have "existing (foldl (\<lambda>m node. foldl (\<lambda>m image. foldl (add_existence (node_Name node)) m (image_Names image))
      m (node_Images node)) m nodes) name = existing m name \<union> node_Name ` {n \<in> set nodes. has_image n name}" for m
    by (induction nodes arbitrary: m) (auto simp: existing_images has_image_def)
  then show ?thesis by (simp add: createImageExistenceMap_def existing_def[of fmempty])
qed

lemma getNodeImageStates_lookup:
  fixes iem :: "(string, string fset) fmap"
  shows "fmlookup (getNodeImageStates node iem) name = Some st \<Longrightarrow>
     has_image node name \<and> iss_NumNodes st = card (existing iem name)"
    and "has_image node name \<Longrightarrow> fmlookup (getNodeImageStates node iem) name \<noteq> None"
proof -
  let ?good = "\<lambda>P m. \<forall>st. fmlookup m name = Some st \<longrightarrow> P \<and> iss_NumNodes st = card (existing iem name)"
  let ?upd = "\<lambda>i m n. fmupd n \<lparr>iss_Size = image_SizeBytes i,
      iss_NumNodes = (case fmlookup iem n of None \<Rightarrow> 0 | Some s \<Rightarrow> fcard s)\<rparr> m"
  have c: "(case fmlookup iem name of None \<Rightarrow> 0 | Some s \<Rightarrow> fcard s) = card (existing iem name)"
    by (auto simp: existing_def fcard.rep_eq split: option.splits)
  have names: "fmlookup (foldl (?upd i) m ns) name = (if name \<in> set ns
      then Some \<lparr>iss_Size = image_SizeBytes i, iss_NumNodes = card (existing iem name)\<rparr>
      else fmlookup m name)" for i m ns
    by (induction ns arbitrary: m) (auto simp: c)
  have images: "fmlookup (foldl (\<lambda>m i. foldl (?upd i) m (image_Names i)) m is) name = (case
      find (\<lambda>i. name \<in> set (image_Names i)) (rev is) of None \<Rightarrow> fmlookup m name
      | Some i \<Rightarrow> Some \<lparr>iss_Size = image_SizeBytes i, iss_NumNodes = card (existing iem name)\<rparr>)" for m "is"
    by (induction "is" rule: rev_induct) (auto simp: names)
  show "has_image node name \<and> iss_NumNodes st = card (existing iem name)"
    if "fmlookup (getNodeImageStates node iem) name = Some st"
    using that unfolding getNodeImageStates_def images
    by (auto simp: has_image_def find_Some_iff split: option.splits) (metis nth_mem set_rev length_rev)+
  show "fmlookup (getNodeImageStates node iem) name \<noteq> None" if "has_image node name"
    using that unfolding getNodeImageStates_def images
    by (auto simp: has_image_def find_None_iff split: option.splits)
qed

text \<open>
  A node's image states have an entry exactly for the images of the node, and the entry counts the
  distinct names of the nodes that hold the image.
\<close>

theorem image_states_count:
  "case fmlookup (getNodeImageStates node (createImageExistenceMap nodes)) name of
     None \<Rightarrow> \<not> has_image node name
   | Some st \<Rightarrow> has_image node name \<and> iss_NumNodes st = card (node_Name ` {n \<in> set nodes. has_image n name})"
  using getNodeImageStates_lookup[where node = node and iem = "createImageExistenceMap nodes" and name = name]
  by (auto simp: existing_createImageExistenceMap split: option.split)

end
