(* ===== verification/Node_Tree.thy ===== *)
theory Node_Tree
  imports Api_Types
begin

text \<open>
  \<open>NodeTree\<close> of \<open>pkg/scheduler/info/node_tree.go\<close>: node names grouped by zone, with a cursor per
  zone and a zone cursor, from which \<open>Next\<close> draws names in a round robin over the zones. Each
  method takes the lock of the tree for its whole body, so a method is one step on the state. The
  zone of a node is \<open>GetZoneKey\<close> of the library record.
\<close>

subsection \<open>Data and operations\<close>

record nodeArray =
  na_nodes :: "string list"
  lastIndex :: nat

record NodeTree =
  tree :: "(string, nodeArray) fmap"
  zones :: "string list"
  zoneIndex :: nat
  numNodes :: int64

datatype tree_error = NodeNotInTree string string

definition nodeArray_next :: "nodeArray \<Rightarrow> nodeArray \<times> string \<times> bool" where
  "nodeArray_next na =
     (if length (na_nodes na) = 0 then (na, [], False)
      else if lastIndex na \<ge> length (na_nodes na) then (na, [], True)
      else (na\<lparr>lastIndex := lastIndex na + 1\<rparr>, na_nodes na ! lastIndex na, False))"

definition tree_addNode :: "k8s \<Rightarrow> NodeTree \<Rightarrow> Node \<Rightarrow> NodeTree" where
  "tree_addNode L nt n =
     (let zone = GetZoneKey L n in
      case fmlookup (tree nt) zone of
        Some na \<Rightarrow>
          (if node_Name n \<in> set (na_nodes na) then nt
           else nt\<lparr>tree := fmupd zone (na\<lparr>na_nodes := na_nodes na @ [node_Name n]\<rparr>) (tree nt),
                   numNodes := numNodes nt + 1\<rparr>)
      | None \<Rightarrow>
          nt\<lparr>zones := zones nt @ [zone],
             tree := fmupd zone \<lparr>na_nodes = [node_Name n], lastIndex = 0\<rparr> (tree nt),
             numNodes := numNodes nt + 1\<rparr>)"

definition newNodeTree :: "k8s \<Rightarrow> Node list \<Rightarrow> NodeTree" where
  "newNodeTree L nodes =
     foldl (tree_addNode L) \<lparr>tree = fmempty, zones = [], zoneIndex = 0, numNodes = 0\<rparr> nodes"

definition NodeTree_AddNode :: "k8s \<Rightarrow> NodeTree \<Rightarrow> Node \<Rightarrow> NodeTree" where
  "NodeTree_AddNode L nt n = tree_addNode L nt n"

text \<open>
  The loop of \<open>removeZone\<close> ranges over the slice header taken at its start (\<open>n\<close> elements) while
  \<open>append\<close> shifts the same backing array \<open>arr\<close>; \<open>m\<close> is the current length of \<open>nt.zones\<close>.
\<close>

function removeZone_loop :: "string \<Rightarrow> nat \<Rightarrow> nat \<Rightarrow> string list \<Rightarrow> nat \<Rightarrow> string list option" where
  "removeZone_loop zone i n arr m =
     (if i \<ge> n then Some (take m arr)
      else if arr ! i = zone then
        (if i + 1 > m then None
         else removeZone_loop zone (i + 1) n
                (take i arr @ drop (i + 1) (take m arr) @ drop (m - 1) arr) (m - 1))
      else removeZone_loop zone (i + 1) n arr m)"
  by pat_completeness auto
termination
  by (relation "measure (\<lambda>(_, i, n, _, _). n - i)") auto

definition removeZone :: "NodeTree \<Rightarrow> string \<Rightarrow> NodeTree option" where
  "removeZone nt zone =
     map_option (\<lambda>zs. nt\<lparr>tree := fmdrop zone (tree nt), zones := zs\<rparr>)
       (removeZone_loop zone 0 (length (zones nt)) (zones nt) (length (zones nt)))"

definition tree_removeNode :: "k8s \<Rightarrow> NodeTree \<Rightarrow> Node \<Rightarrow> (NodeTree \<times> tree_error option) option" where
  "tree_removeNode L nt n =
     (let zone = GetZoneKey L n; err = Some (nt, Some (NodeNotInTree (node_Name n) zone)) in
      case fmlookup (tree nt) zone of
        None \<Rightarrow> err
      | Some na \<Rightarrow>
          (if node_Name n \<in> set (na_nodes na) then
             let nodes' = remove1 (node_Name n) (na_nodes na);
                 nt1 = nt\<lparr>tree := fmupd zone (na\<lparr>na_nodes := nodes'\<rparr>) (tree nt)\<rparr> in
             Option.bind (if length nodes' = 0 then removeZone nt1 zone else Some nt1) (\<lambda>nt2.
               Some (nt2\<lparr>numNodes := numNodes nt2 - 1\<rparr>, None))
           else err))"

definition NodeTree_RemoveNode :: "k8s \<Rightarrow> NodeTree \<Rightarrow> Node \<Rightarrow> (NodeTree \<times> tree_error option) option" where
  "NodeTree_RemoveNode L nt n = tree_removeNode L nt n"

text \<open>\<open>UpdateNode\<close> calls \<open>removeNode(old)\<close> even for a nil \<open>old\<close>, which dereferences it.\<close>

definition NodeTree_UpdateNode :: "k8s \<Rightarrow> NodeTree \<Rightarrow> Node option \<Rightarrow> Node \<Rightarrow> NodeTree option" where
  "NodeTree_UpdateNode L nt old new =
     (let oldZone = (case old of None \<Rightarrow> [] | Some x \<Rightarrow> GetZoneKey L x);
          newZone = GetZoneKey L new in
      if oldZone = newZone then Some nt
      else case old of
        None \<Rightarrow> None
      | Some x \<Rightarrow> map_option (\<lambda>(nt1, _). tree_addNode L nt1 new) (tree_removeNode L nt x))"

definition resetExhausted :: "NodeTree \<Rightarrow> NodeTree" where
  "resetExhausted nt =
     nt\<lparr>tree := fmmap (\<lambda>na. na\<lparr>lastIndex := 0\<rparr>) (tree nt), zoneIndex := 0\<rparr>"

text \<open>The endless loop of \<open>Next\<close>; each round uses one unit of fuel. A zone without an entry in the
  tree is a nil dereference.\<close>

fun Next_loop :: "nat \<Rightarrow> nat \<Rightarrow> NodeTree \<Rightarrow> (string \<times> NodeTree) option" where
  "Next_loop 0 numExhaustedZones nt = None"
| "Next_loop (Suc fuel) numExhaustedZones nt =
     (let zi = (if zoneIndex nt \<ge> length (zones nt) then 0 else zoneIndex nt);
          zone = zones nt ! zi;
          nt1 = nt\<lparr>zoneIndex := zi + 1\<rparr> in
      case fmlookup (tree nt1) zone of
        None \<Rightarrow> None
      | Some na \<Rightarrow>
          (let (na', nodeName, exhausted) = nodeArray_next na;
               nt2 = nt1\<lparr>tree := fmupd zone na' (tree nt1)\<rparr> in
           if exhausted then
             (if numExhaustedZones + 1 \<ge> length (zones nt2)
              then Next_loop fuel (numExhaustedZones + 1) (resetExhausted nt2)
              else Next_loop fuel (numExhaustedZones + 1) nt2)
           else Some (nodeName, nt2)))"

definition Next :: "NodeTree \<Rightarrow> (string \<times> NodeTree) option" where
  "Next nt = (if length (zones nt) = 0 then Some ([], nt) else Next_loop (length (zones nt) + 1) 0 nt)"

definition NodeTree_NumNodes :: "NodeTree \<Rightarrow> int64" where
  "NodeTree_NumNodes nt = numNodes nt"

subsection \<open>Invariant\<close>

definition zone_nodes :: "NodeTree \<Rightarrow> string \<Rightarrow> string list" where
  "zone_nodes nt z = (case fmlookup (tree nt) z of None \<Rightarrow> [] | Some na \<Rightarrow> na_nodes na)"

definition all_nodes :: "NodeTree \<Rightarrow> string list" where
  "all_nodes nt = concat (map (zone_nodes nt) (zones nt))"

definition tree_inv :: "NodeTree \<Rightarrow> bool" where
  "tree_inv nt \<longleftrightarrow> distinct (zones nt) \<and> fset (fmdom (tree nt)) = set (zones nt) \<and>
     fmpred (\<lambda>_ na. na_nodes na \<noteq> [] \<and> distinct (na_nodes na)) (tree nt) \<and>
     numNodes nt = of_nat (length (all_nodes nt))"

definition members :: "NodeTree \<Rightarrow> (string \<times> string) set" where
  "members nt = {(z, n). n \<in> set (zone_nodes nt z)}"

lemma tree_inv_lookup:
  assumes "tree_inv nt" "z \<in> set (zones nt)"
  obtains na where "fmlookup (tree nt) z = Some na" "na_nodes na \<noteq> []" "distinct (na_nodes na)"
  using assms unfolding tree_inv_def fmpred_iff by (metis fmlookup_dom_iff)

lemma tree_inv_zone:
  "tree_inv nt \<Longrightarrow> fmlookup (tree nt) z = Some na \<Longrightarrow> z \<in> set (zones nt) \<and> na_nodes na \<noteq> [] \<and> distinct (na_nodes na)"
  unfolding tree_inv_def fmpred_iff by (metis fmlookup_dom_iff)

lemma tree_inv_distinct: "tree_inv nt \<Longrightarrow> distinct (zones nt)"
  by (simp add: tree_inv_def)

lemma numNodes_pred:
  "tree_inv nt \<Longrightarrow> length (all_nodes nt) = Suc k \<Longrightarrow> numNodes nt - 1 = of_nat k"
  by (simp add: tree_inv_def)

lemma removeZone_loop_absent:
  "(\<And>k. i \<le> k \<Longrightarrow> k < n \<Longrightarrow> arr ! k \<noteq> zone) \<Longrightarrow> removeZone_loop zone i n arr m = Some (take m arr)"
proof (induction zone i n arr m rule: removeZone_loop.induct)
  case (1 zone i n arr m)
  then show ?case by (subst removeZone_loop.simps) auto
qed

declare removeZone_loop.simps [simp del]

lemma removeZone_loop_distinct:
  assumes "distinct zs" "i \<le> length zs" "\<And>k. k < i \<Longrightarrow> zs ! k \<noteq> zone"
  shows "removeZone_loop zone i (length zs) zs (length zs) = Some (remove1 zone zs)"
  using assms(2,3)
proof (induction "length zs - i" arbitrary: i)
  case 0
  then have "zone \<notin> set zs" by (auto simp: in_set_conv_nth)
  with 0 show ?case by (subst removeZone_loop.simps) (simp add: remove1_idem)
next
  case (Suc d)
  show ?case
  proof (cases "zs ! i = zone")
    case False
    with Suc have "removeZone_loop zone (i + 1) (length zs) zs (length zs) = Some (remove1 zone zs)"
      by (intro Suc.hyps) (auto simp: less_Suc_eq)
    with False Suc.hyps(2) show ?thesis by (subst removeZone_loop.simps) auto
  next
    case True
    let ?n = "length zs"
    have i: "i < ?n" using Suc.hyps(2) by simp
    let ?arr = "take i zs @ drop (i + 1) zs @ drop (?n - 1) zs"
    have split: "zs = take i zs @ zone # drop (i + 1) zs"
      using i True id_take_nth_drop by fastforce
    have nz: "zone \<notin> set (take i zs)" "zone \<notin> set (drop (i + 1) zs)"
      using assms(1) by (subst (asm) split, simp)+
    have last: "drop (?n - 1) zs = [zs ! (?n - 1)]"
      using i by (metis Cons_nth_drop_Suc One_nat_def Suc_pred diff_less drop_all le_refl length_greater_0_conv less_nat_zero_code list.size(3) zero_less_one)
    have "?arr ! k \<noteq> zone" if k: "i + 1 \<le> k" "k < ?n" for k
    proof (cases "k < ?n - 1")
      case True
      then have "k - i < length zs - Suc i" using k by linarith
      then have "?arr ! k = drop (i + 1) zs ! (k - i)" using k i by (simp add: nth_append)
      moreover have "k - i < length (drop (i + 1) zs)" using True k by simp
      ultimately show ?thesis using nz(2) by (metis nth_mem)
    next
      case False
      then have "k = ?n - 1" using k by simp
      then have "?arr ! k = zs ! (?n - 1)" using k i last by (simp add: nth_append)
      moreover have "zs ! (?n - 1) \<noteq> zone"
        using True assms(1) k i \<open>k = ?n - 1\<close> by (metis Suc_eq_plus1 diff_less le_less_trans lessI nat_less_le nth_eq_iff_index_eq)
      ultimately show ?thesis by simp
    qed
    then have "removeZone_loop zone (i + 1) ?n ?arr (?n - 1) = Some (take (?n - 1) ?arr)"
      by (intro removeZone_loop_absent) auto
    moreover have "take (?n - 1) ?arr = take i zs @ drop (i + 1) zs" using i by simp
    moreover have "remove1 zone zs = take i zs @ drop (i + 1) zs"
      using nz(1) by (subst split) (simp add: remove1_append)
    ultimately show ?thesis using True i by (subst removeZone_loop.simps) simp
  qed
qed

lemma removeZone_distinct:
  "distinct (zones nt) \<Longrightarrow>
   removeZone nt zone = Some (nt\<lparr>tree := fmdrop zone (tree nt), zones := remove1 zone (zones nt)\<rparr>)"
  using removeZone_loop_distinct[of "zones nt" 0 zone] by (simp add: removeZone_def)

subsection \<open>Adding and removing nodes\<close>

lemma length_all_nodes_cong:
  "length (all_nodes nt) = (\<Sum>z\<leftarrow>zones nt. length (zone_nodes nt z))"
  by (simp add: all_nodes_def length_concat comp_def)

lemma Suc_length_remove1: "x \<in> set xs \<Longrightarrow> Suc (length (remove1 x xs)) = length xs"
  by (induction xs) auto

lemma sum_list_update:
  fixes f g :: "'a \<Rightarrow> nat"
  assumes "distinct xs" "z \<in> set xs" "\<And>x. x \<noteq> z \<Longrightarrow> g x = f x"
  shows "(\<Sum>x\<leftarrow>xs. g x) + f z = (\<Sum>x\<leftarrow>xs. f x) + g z"
proof -
  have s: "(\<Sum>x\<leftarrow>xs. h x) = h z + sum h (set xs - {z})" for h :: "'a \<Rightarrow> nat"
    using assms(1,2) by (simp add: sum_list_distinct_conv_sum_set sum.remove)
  have "sum g (set xs - {z}) = sum f (set xs - {z})" using assms(3) by (intro sum.cong) auto
  then show ?thesis using s[of f] s[of g] by simp
qed

lemma tree_inv_new: "tree_inv \<lparr>tree = fmempty, zones = [], zoneIndex = 0, numNodes = 0\<rparr>"
  by (simp add: tree_inv_def all_nodes_def)

lemma zone_nodes_fmupd:
  "zone_nodes (nt\<lparr>tree := fmupd z na (tree nt)\<rparr>) y = (if y = z then na_nodes na else zone_nodes nt y)"
  by (simp add: zone_nodes_def)

lemma zone_nodes_update [simp]:
  "zone_nodes (nt\<lparr>zones := a\<rparr>) = zone_nodes nt" "zone_nodes (nt\<lparr>numNodes := b\<rparr>) = zone_nodes nt"
  "zone_nodes (nt\<lparr>zoneIndex := c\<rparr>) = zone_nodes nt"
  by (auto simp: zone_nodes_def)

lemma tree_addNode_inv:
  assumes inv: "tree_inv nt"
  shows "tree_inv (tree_addNode L nt n) \<and>
    members (tree_addNode L nt n) = insert (GetZoneKey L n, node_Name n) (members nt)"
proof (cases "fmlookup (tree nt) (GetZoneKey L n)")
  case None
  let ?z = "GetZoneKey L n" and ?n = "node_Name n"
  let ?nt = "nt\<lparr>zones := zones nt @ [?z],
    tree := fmupd ?z \<lparr>na_nodes = [?n], lastIndex = 0\<rparr> (tree nt), numNodes := numNodes nt + 1\<rparr>"
  have nt: "tree_addNode L nt n = ?nt" using None by (simp add: tree_addNode_def Let_def)
  have zn: "zone_nodes ?nt y = (if y = ?z then [?n] else zone_nodes nt y)" for y
    by (simp add: zone_nodes_def)
  have nz: "?z \<notin> set (zones nt)" using None inv unfolding tree_inv_def by (metis notin_fmdom_lookup)
  have "all_nodes ?nt = all_nodes nt @ [?n]"
    using nz unfolding all_nodes_def zn by (auto simp: zn intro!: arg_cong[where f = concat])
  then have "tree_inv ?nt" using inv None nz by (auto simp: tree_inv_def fmpred_iff)
  moreover have "members ?nt = insert (?z, ?n) (members nt)"
    using None unfolding members_def zn by (auto simp: zone_nodes_def split: if_splits)
  ultimately show ?thesis using nt by simp
next
  case (Some na)
  let ?z = "GetZoneKey L n" and ?n = "node_Name n"
  note z = tree_inv_zone[OF inv Some]
  show ?thesis
  proof (cases "?n \<in> set (na_nodes na)")
    case True
    then have "tree_addNode L nt n = nt" using Some by (simp add: tree_addNode_def Let_def)
    moreover have "(?z, ?n) \<in> members nt" using True Some by (simp add: members_def zone_nodes_def)
    ultimately show ?thesis using inv by auto
  next
    case False
    let ?nt = "nt\<lparr>tree := fmupd ?z (na\<lparr>na_nodes := na_nodes na @ [?n]\<rparr>) (tree nt),
                   numNodes := numNodes nt + 1\<rparr>"
    have nt: "tree_addNode L nt n = ?nt" using Some False by (simp add: tree_addNode_def Let_def)
    have zn: "zone_nodes ?nt y = (if y = ?z then zone_nodes nt ?z @ [?n] else zone_nodes nt y)" for y
      using Some by (simp add: zone_nodes_def)
    have "length (all_nodes ?nt) = length (all_nodes nt) + 1"
      using sum_list_update[of "zones nt" ?z "\<lambda>y. length (zone_nodes ?nt y)" "\<lambda>y. length (zone_nodes nt y)"]
        tree_inv_distinct[OF inv] z by (simp add: length_all_nodes_cong zn del: zone_nodes_update)
    then have "tree_inv ?nt"
      using inv z False Some by (auto simp: tree_inv_def fmpred_iff)
    moreover have "members ?nt = insert (?z, ?n) (members nt)"
      unfolding members_def zn by (auto split: if_splits)
    ultimately show ?thesis using nt by simp
  qed
qed

lemma newNodeTree_inv: "tree_inv (newNodeTree L nodes)"
proof -
  have "tree_inv nt \<Longrightarrow> tree_inv (foldl (tree_addNode L) nt nodes)" for nt
    by (induction nodes arbitrary: nt) (auto simp: tree_addNode_inv)
  then show ?thesis by (simp add: newNodeTree_def tree_inv_new)
qed

lemma tree_removeNode_inv:
  assumes inv: "tree_inv nt"
  shows "\<exists>nt' e. tree_removeNode L nt n = Some (nt', e) \<and> tree_inv nt' \<and>
    members nt' = members nt - {(GetZoneKey L n, node_Name n)} \<and>
    (e = None \<longleftrightarrow> (GetZoneKey L n, node_Name n) \<in> members nt)"
proof -
  let ?z = "GetZoneKey L n" and ?n = "node_Name n"
  show ?thesis
  proof (cases "?n \<in> set (zone_nodes nt ?z)")
    case False
    then have "tree_removeNode L nt n = Some (nt, Some (NodeNotInTree ?n ?z))"
      by (auto simp: tree_removeNode_def Let_def zone_nodes_def split: option.splits)
    with False inv show ?thesis by (auto simp: members_def)
  next
    case True
    then obtain na where na: "fmlookup (tree nt) ?z = Some na" "?n \<in> set (na_nodes na)"
      by (cases "fmlookup (tree nt) ?z") (auto simp: zone_nodes_def)
    note z = tree_inv_zone[OF inv na(1)]
    let ?ns = "remove1 ?n (na_nodes na)"
    have mem: "(?z, ?n) \<in> members nt" using True by (simp add: members_def)
    have zn0: "zone_nodes nt ?z = na_nodes na" using na by (simp add: zone_nodes_def)
    show ?thesis
    proof (cases "?ns = []")
      case True
      let ?nt = "nt\<lparr>tree := fmdrop ?z (fmupd ?z (na\<lparr>na_nodes := ?ns\<rparr>) (tree nt)),
         zones := remove1 ?z (zones nt), numNodes := numNodes nt - 1\<rparr>"
      have nt: "tree_removeNode L nt n = Some (?nt, None)"
        using na True inv by (simp add: tree_removeNode_def Let_def removeZone_distinct tree_inv_def)
      have one: "na_nodes na = [?n]" using True na(2) by (cases "na_nodes na") (auto split: if_splits)
      have zn: "zone_nodes ?nt y = (if y = ?z then [] else zone_nodes nt y)" for y
        by (simp add: zone_nodes_def)
      have d: "distinct (zones nt)" using inv by (simp add: tree_inv_def)
      have rz: "set (remove1 ?z (zones nt)) = set (zones nt) - {?z}" using d by simp
      have "(\<Sum>y\<leftarrow>zones nt. length (zone_nodes nt y)) =
          length (zone_nodes nt ?z) + (\<Sum>y\<leftarrow>remove1 ?z (zones nt). length (zone_nodes nt y))"
        using z by (intro sum_list_map_remove1) simp
      also have "(\<Sum>y\<leftarrow>remove1 ?z (zones nt). length (zone_nodes nt y)) =
          (\<Sum>y\<leftarrow>remove1 ?z (zones nt). length (zone_nodes ?nt y))"
        by (rule arg_cong[where f = sum_list], rule map_cong[OF refl]) (simp add: zn rz del: zone_nodes_update)
      finally have "length (all_nodes nt) = Suc (length (all_nodes ?nt))"
        by (simp add: length_all_nodes_cong zn0 one)
      then have "numNodes nt - 1 = of_nat (length (all_nodes ?nt))"
        by (rule numNodes_pred[OF inv])
      then have "tree_inv ?nt"
        using inv d rz by (auto simp: tree_inv_def fmpred_iff)
      moreover have "members ?nt = members nt - {(?z, ?n)}"
        unfolding members_def zn using zn0 one by (auto split: if_splits)
      ultimately show ?thesis using nt mem by auto
    next
      case False
      let ?nt = "nt\<lparr>tree := fmupd ?z (na\<lparr>na_nodes := ?ns\<rparr>) (tree nt), numNodes := numNodes nt - 1\<rparr>"
      have nt: "tree_removeNode L nt n = Some (?nt, None)"
        using na False by (simp add: tree_removeNode_def Let_def)
      have zn: "zone_nodes ?nt y = (if y = ?z then ?ns else zone_nodes nt y)" for y
        by (simp add: zone_nodes_def)
      have "length (all_nodes ?nt) + 1 = length (all_nodes nt)"
        using sum_list_update[of "zones nt" ?z "\<lambda>y. length (zone_nodes ?nt y)" "\<lambda>y. length (zone_nodes nt y)"]
          tree_inv_distinct[OF inv] z zn0 Suc_length_remove1[OF na(2)]
        by (simp add: length_all_nodes_cong zn del: zone_nodes_update)
      then have "numNodes nt - 1 = of_nat (length (all_nodes ?nt))"
        by (intro numNodes_pred[OF inv]) simp
      then have "tree_inv ?nt" using inv z na False by (auto simp: tree_inv_def fmpred_iff)
      moreover have "members ?nt = members nt - {(?z, ?n)}"
        unfolding members_def zn using zn0 z by (auto split: if_splits)
      ultimately show ?thesis using nt mem by auto
    qed
  qed
qed

subsection \<open>The round robin\<close>

text \<open>\<open>remaining\<close> is what the cursors have not handed out yet in the current round.\<close>

definition zone_rest :: "NodeTree \<Rightarrow> string \<Rightarrow> string list" where
  "zone_rest nt z = (case fmlookup (tree nt) z of None \<Rightarrow> [] | Some na \<Rightarrow> drop (lastIndex na) (na_nodes na))"

definition remaining :: "NodeTree \<Rightarrow> string multiset" where
  "remaining nt = mset (concat (map (zone_rest nt) (zones nt)))"

definition drawn :: "string \<Rightarrow> NodeTree \<Rightarrow> NodeTree \<Rightarrow> bool" where
  "drawn n nt nt' \<longleftrightarrow> (\<exists>z na zi. z \<in> set (zones nt) \<and> fmlookup (tree nt) z = Some na \<and>
     lastIndex na < length (na_nodes na) \<and> n = na_nodes na ! lastIndex na \<and>
     nt' = nt\<lparr>tree := fmupd z (na\<lparr>lastIndex := lastIndex na + 1\<rparr>) (tree nt), zoneIndex := zi\<rparr>)"

fun Next_many :: "nat \<Rightarrow> NodeTree \<Rightarrow> (string list \<times> NodeTree) option" where
  "Next_many 0 nt = Some ([], nt)"
| "Next_many (Suc k) nt =
     Option.bind (Next nt) (\<lambda>(n, nt1). map_option (\<lambda>(ns, nt2). (n # ns, nt2)) (Next_many k nt1))"

definition norm_index :: "NodeTree \<Rightarrow> nat" where
  "norm_index nt = (if zoneIndex nt \<ge> length (zones nt) then 0 else zoneIndex nt)"

lemma norm_index_less: "zones nt \<noteq> [] \<Longrightarrow> norm_index nt < length (zones nt)"
  by (simp add: norm_index_def)

lemma norm_index_Suc:
  "zones nt \<noteq> [] \<Longrightarrow> norm_index (nt\<lparr>zoneIndex := norm_index nt + 1\<rparr>) = (norm_index nt + 1) mod length (zones nt)"
  using norm_index_less[of nt] by (auto simp: norm_index_def mod_Suc le_Suc_eq)

lemma zone_rest_index [simp]: "zone_rest (nt\<lparr>zoneIndex := i\<rparr>) = zone_rest nt"
  by (auto simp: zone_rest_def)

lemma tree_inv_index [simp]: "tree_inv (nt\<lparr>zoneIndex := i\<rparr>) = tree_inv nt"
  by (simp add: tree_inv_def all_nodes_def)

text \<open>One round of the loop, on an exhausted zone and on one that is not.\<close>

lemma Next_loop_exhausted:
  assumes "tree_inv nt" "zones nt \<noteq> []" "zone_rest nt (zones nt ! norm_index nt) = []"
  shows "Next_loop (Suc f) e nt =
    (if e + 1 \<ge> length (zones nt)
     then Next_loop f (e + 1) (resetExhausted nt)
     else Next_loop f (e + 1) (nt\<lparr>zoneIndex := norm_index nt + 1\<rparr>))"
proof -
  let ?z = "zones nt ! norm_index nt"
  obtain na where na: "fmlookup (tree nt) ?z = Some na" "na_nodes na \<noteq> []"
    using assms norm_index_less[of nt] by (meson nth_mem tree_inv_lookup)
  have "lastIndex na \<ge> length (na_nodes na)" using assms(3) na(1) by (simp add: zone_rest_def)
  then have n: "nodeArray_next na = (na, [], True)" using na(2) by (simp add: nodeArray_next_def)
  have u: "fmupd ?z na (tree nt) = tree nt" using na(1) by (rule fmupd_triv)
  have r: "resetExhausted (nt\<lparr>zoneIndex := i\<rparr>) = resetExhausted nt" for i
    by (simp add: resetExhausted_def)
  show ?thesis using na(1) n u r[of "norm_index nt + 1"]
    by (simp add: Let_def norm_index_def[symmetric])
qed

lemma Next_loop_draws:
  assumes "tree_inv nt" "zones nt \<noteq> []" "zone_rest nt (zones nt ! norm_index nt) \<noteq> []"
  shows "\<exists>n nt'. Next_loop (Suc f) e nt = Some (n, nt') \<and> drawn n nt nt'"
proof -
  let ?z = "zones nt ! norm_index nt"
  have z: "?z \<in> set (zones nt)" using assms norm_index_less[of nt] by simp
  obtain na where na: "fmlookup (tree nt) ?z = Some na" "na_nodes na \<noteq> []"
    using assms(1) z by (meson tree_inv_lookup)
  have l: "lastIndex na < length (na_nodes na)" using assms(3) na(1) by (simp add: zone_rest_def)
  then have n: "nodeArray_next na = (na\<lparr>lastIndex := lastIndex na + 1\<rparr>, na_nodes na ! lastIndex na, False)"
    using na(2) by (simp add: nodeArray_next_def)
  let ?nt' = "nt\<lparr>zoneIndex := norm_index nt + 1,
    tree := fmupd ?z (na\<lparr>lastIndex := lastIndex na + 1\<rparr>) (tree nt)\<rparr>"
  have "Next_loop (Suc f) e nt = Some (na_nodes na ! lastIndex na, ?nt')"
    using na(1) n by (simp add: Let_def norm_index_def[symmetric])
  moreover have "drawn (na_nodes na ! lastIndex na) nt ?nt'"
    unfolding drawn_def using z na(1) l by (intro exI[of _ ?z] exI[of _ na] exI[of _ "norm_index nt + 1"]) simp
  ultimately show ?thesis by blast
qed

declare Next_loop.simps(2) [simp del]

lemma drawn_index: "drawn n (nt\<lparr>zoneIndex := i\<rparr>) nt' \<Longrightarrow> drawn n nt nt'"
  by (auto simp: drawn_def)

lemma Next_loop_finds:
  assumes "tree_inv nt" "zones nt \<noteq> []" "d + e < length (zones nt)" "d < f"
    and "zone_rest nt (zones nt ! ((norm_index nt + d) mod length (zones nt))) \<noteq> []"
    and "\<forall>j<d. zone_rest nt (zones nt ! ((norm_index nt + j) mod length (zones nt))) = []"
  shows "\<exists>n nt'. Next_loop f e nt = Some (n, nt') \<and> drawn n nt nt'"
  using assms
proof (induction d arbitrary: nt e f)
  case 0
  then obtain f' where "f = Suc f'" by (cases f) auto
  with 0 norm_index_less[OF 0(2)] show ?case using Next_loop_draws[OF 0(1,2)] by simp
next
  case (Suc d)
  then obtain f' where f: "f = Suc f'" by (cases f) auto
  let ?nt = "nt\<lparr>zoneIndex := norm_index nt + 1\<rparr>"
  have "zone_rest nt (zones nt ! norm_index nt) = []"
    using Suc.prems(6)[rule_format, of 0] norm_index_less[OF Suc.prems(2)] by simp
  then have step: "Next_loop f e nt = Next_loop f' (e + 1) ?nt"
    using Next_loop_exhausted[OF Suc.prems(1,2)] Suc.prems(3) f by simp
  have idx: "(norm_index ?nt + j) mod length (zones nt) = (norm_index nt + Suc j) mod length (zones nt)" for j
    using norm_index_Suc[OF Suc.prems(2)] by (simp add: mod_simps)
  have "\<exists>n nt'. Next_loop f' (e + 1) ?nt = Some (n, nt') \<and> drawn n ?nt nt'"
  proof (rule Suc.IH)
    show "zone_rest ?nt (zones ?nt ! ((norm_index ?nt + d) mod length (zones ?nt))) \<noteq> []"
      using Suc.prems(5) idx[of d] by simp
    show "\<forall>j<d. zone_rest ?nt (zones ?nt ! ((norm_index ?nt + j) mod length (zones ?nt))) = []"
    proof (intro allI impI)
      fix j assume "j < d"
      then show "zone_rest ?nt (zones ?nt ! ((norm_index ?nt + j) mod length (zones ?nt))) = []"
        using Suc.prems(6)[rule_format, of "Suc j"] idx[of j] by simp
    qed
  qed (use Suc.prems f in auto)
  then show ?case using step drawn_index by metis
qed

lemma Next_loop_resets:
  assumes "tree_inv nt" "zones nt \<noteq> []" "e < length (zones nt)"
    and "\<forall>z\<in>set (zones nt). zone_rest nt z = []"
  shows "\<exists>e'. Next_loop (length (zones nt) - e + f) e nt = Next_loop f e' (resetExhausted nt)"
  using assms
proof (induction "length (zones nt) - e" arbitrary: nt e)
  case (Suc d)
  let ?nt = "nt\<lparr>zoneIndex := norm_index nt + 1\<rparr>"
  have r: "resetExhausted ?nt = resetExhausted nt" by (simp add: resetExhausted_def)
  have "zone_rest nt (zones nt ! norm_index nt) = []" using Suc.prems norm_index_less[of nt] by simp
  note step = Next_loop_exhausted[OF Suc.prems(1,2) this, of "d + f" e]
  have n: "length (zones nt) - e + f = Suc (d + f)" using Suc.hyps(2) by simp
  show ?case
  proof (cases "d = 0")
    case True
    with step n Suc.hyps(2) show ?thesis by auto
  next
    case False
    then have e: "e + 1 < length (zones nt)" "d = length (zones ?nt) - (e + 1)" using Suc.hyps(2) by auto
    have "\<exists>e'. Next_loop (length (zones ?nt) - (e + 1) + f) (e + 1) ?nt = Next_loop f e' (resetExhausted ?nt)"
      using Suc.prems e by (intro Suc.hyps(1)) auto
    with step n e r show ?thesis by auto
  qed
qed simp

lemma resetExhausted_facts:
  "zones (resetExhausted nt) = zones nt" "zone_nodes (resetExhausted nt) = zone_nodes nt"
  "all_nodes (resetExhausted nt) = all_nodes nt" "tree_inv (resetExhausted nt) = tree_inv nt"
  "zone_rest (resetExhausted nt) = zone_nodes nt" "remaining (resetExhausted nt) = mset (all_nodes nt)"
proof -
  show z: "zones (resetExhausted nt) = zones nt" by (simp add: resetExhausted_def)
  show n: "zone_nodes (resetExhausted nt) = zone_nodes nt"
    by (auto simp: zone_nodes_def resetExhausted_def split: option.splits)
  show a: "all_nodes (resetExhausted nt) = all_nodes nt" by (simp add: all_nodes_def z n)
  show "tree_inv (resetExhausted nt) = tree_inv nt"
    unfolding tree_inv_def a z by (simp add: resetExhausted_def)
  show r: "zone_rest (resetExhausted nt) = zone_nodes nt"
    by (auto simp: zone_rest_def zone_nodes_def resetExhausted_def split: option.splits)
  show "remaining (resetExhausted nt) = mset (all_nodes nt)" by (simp add: remaining_def all_nodes_def r z)
qed

lemma remaining_empty_iff: "remaining nt = {#} \<longleftrightarrow> (\<forall>z\<in>set (zones nt). zone_rest nt z = [])"
  by (simp add: remaining_def)

lemma Next_draws:
  assumes "tree_inv nt" "zones nt \<noteq> []"
  shows "\<exists>n nt'. Next nt = Some (n, nt') \<and>
           drawn n (if remaining nt = {#} then resetExhausted nt else nt) nt'"
proof (cases "remaining nt = {#}")
  case True
  let ?nt = "resetExhausted nt"
  obtain e where "Next nt = Next_loop (Suc 0) e ?nt"
    using Next_loop_resets[OF assms, of 0 1] assms(2) True by (auto simp: Next_def remaining_empty_iff)
  moreover have "zones ?nt ! norm_index ?nt \<in> set (zones nt)"
    using assms(2) norm_index_less[of ?nt] by (simp add: resetExhausted_facts)
  then have "zone_rest ?nt (zones ?nt ! norm_index ?nt) \<noteq> []"
    using assms(1) by (auto simp: resetExhausted_facts zone_nodes_def elim: tree_inv_lookup)
  ultimately show ?thesis
    using Next_loop_draws[of ?nt 0 e] True assms by (simp add: resetExhausted_facts)
next
  case False
  let ?Z = "length (zones nt)"
  let ?P = "\<lambda>d. zone_rest nt (zones nt ! ((norm_index nt + d) mod ?Z)) \<noteq> []"
  obtain k where k: "k < ?Z" "zone_rest nt (zones nt ! k) \<noteq> []"
    using False by (auto simp: remaining_empty_iff in_set_conv_nth)
  have Z: "0 < ?Z" using assms(2) by simp
  have "(norm_index nt + (k + ?Z - norm_index nt) mod ?Z) mod ?Z = k"
    using k(1) norm_index_less[OF assms(2)] by (simp add: mod_simps)
  then have ex: "?P ((k + ?Z - norm_index nt) mod ?Z)" using k(2) by simp
  let ?d = "LEAST d. ?P d"
  have "?d \<le> (k + ?Z - norm_index nt) mod ?Z" using ex by (rule Least_le)
  then have d: "?d < ?Z" using Z by (meson le_less_trans mod_less_divisor)
  have "\<exists>n nt'. Next_loop (?Z + 1) 0 nt = Some (n, nt') \<and> drawn n nt nt'"
  proof (rule Next_loop_finds[OF assms])
    show "?d + 0 < ?Z" "?d < ?Z + 1" using d by auto
    show "?P ?d" using ex by (rule LeastI)
    show "\<forall>j<?d. zone_rest nt (zones nt ! ((norm_index nt + j) mod ?Z)) = []"
      using not_less_Least by blast
  qed
  then show ?thesis using False assms(2) by (simp add: Next_def)
qed

text \<open>A draw removes the drawn name from \<open>remaining\<close> and changes nothing else that matters.\<close>

lemma concat_map_update:
  assumes "distinct xs" "z \<in> set xs" "\<And>x. x \<noteq> z \<Longrightarrow> g x = f x" "f z = n # g z"
  shows "mset (concat (map f xs)) = add_mset n (mset (concat (map g xs)))"
  using assms(1,2)
proof (induction xs)
  case (Cons x xs)
  show ?case
  proof (cases "x = z")
    case True
    then have "map g xs = map f xs" using Cons.prems by (intro map_cong refl assms(3)) auto
    then show ?thesis using True assms(4) by (simp del: map_eq_conv)
  next
    case False
    then show ?thesis using Cons assms(3)[of x] by auto
  qed
qed simp

lemma drawn_facts:
  assumes "tree_inv nt" "drawn n nt nt'"
  shows "tree_inv nt'" "all_nodes nt' = all_nodes nt" "zones nt' = zones nt"
    "remaining nt = add_mset n (remaining nt')" "n \<in> set (all_nodes nt)"
proof -
  obtain z na zi where d: "z \<in> set (zones nt)" "fmlookup (tree nt) z = Some na"
    "lastIndex na < length (na_nodes na)" "n = na_nodes na ! lastIndex na"
    "nt' = nt\<lparr>tree := fmupd z (na\<lparr>lastIndex := lastIndex na + 1\<rparr>) (tree nt), zoneIndex := zi\<rparr>"
    using assms(2) unfolding drawn_def by blast
  show z: "zones nt' = zones nt" using d by simp
  have zn: "zone_nodes nt' y = zone_nodes nt y" for y using d(2,5) by (cases "y = z") (simp_all add: zone_nodes_def)
  show a: "all_nodes nt' = all_nodes nt" by (simp add: all_nodes_def zn[abs_def] z)
  have "fset (fmdom (tree nt')) = fset (fmdom (tree nt))" "numNodes nt' = numNodes nt"
    using d(1,2,5) assms(1) by (auto simp: tree_inv_def)
  moreover have "fmpred (\<lambda>_ na. na_nodes na \<noteq> [] \<and> distinct (na_nodes na)) (tree nt')"
    using assms(1) d(2,5) by (auto simp: tree_inv_def fmpred_iff)
  ultimately show "tree_inv nt'" using assms(1) a z by (simp add: tree_inv_def)
  have "zone_rest nt z = n # zone_rest nt' z"
    using d by (simp add: zone_rest_def Cons_nth_drop_Suc)
  moreover have "\<And>y. y \<noteq> z \<Longrightarrow> zone_rest nt' y = zone_rest nt y" using d(5) by (simp add: zone_rest_def)
  ultimately show "remaining nt = add_mset n (remaining nt')"
    unfolding remaining_def z
    using concat_map_update[OF tree_inv_distinct[OF assms(1)] d(1), of "zone_rest nt'" "zone_rest nt" n] by blast
  show "n \<in> set (all_nodes nt)"
    using d by (auto simp: all_nodes_def zone_nodes_def intro!: bexI[of _ z])
qed

lemma Next_many_remaining:
  assumes "tree_inv nt"
  shows "\<exists>ns nt'. Next_many (size (remaining nt)) nt = Some (ns, nt') \<and> mset ns = remaining nt \<and>
    remaining nt' = {#} \<and> tree_inv nt' \<and> all_nodes nt' = all_nodes nt \<and> zones nt' = zones nt"
  using assms
proof (induction "size (remaining nt)" arbitrary: nt)
  case 0
  then show ?case by simp
next
  case (Suc k)
  then have ne: "remaining nt \<noteq> {#}" by auto
  then have "zones nt \<noteq> []" by (auto simp: remaining_def)
  then obtain n nt1 where n: "Next nt = Some (n, nt1)" "drawn n nt nt1"
    using Next_draws[OF Suc.prems] ne by auto
  note f = drawn_facts[OF Suc.prems n(2)]
  have k: "k = size (remaining nt1)" using Suc.hyps(2) f(4) by simp
  obtain ns nt' where "Next_many k nt1 = Some (ns, nt')" "mset ns = remaining nt1"
    "remaining nt' = {#}" "tree_inv nt'" "all_nodes nt' = all_nodes nt1" "zones nt' = zones nt1"
    using Suc.hyps(1)[OF k f(1)] k by auto
  then show ?case unfolding Suc.hyps(2)[symmetric] using n(1) f by auto
qed

lemma Next_many_epoch:
  assumes "tree_inv nt" "remaining nt = {#}"
  shows "\<exists>ns nt'. Next_many (length (all_nodes nt)) nt = Some (ns, nt') \<and> mset ns = mset (all_nodes nt) \<and>
    remaining nt' = {#} \<and> tree_inv nt' \<and> all_nodes nt' = all_nodes nt"
proof (cases "zones nt = []")
  case True
  then show ?thesis using assms by (simp add: all_nodes_def)
next
  case False
  let ?r = "resetExhausted nt"
  have r: "tree_inv ?r" using assms by (simp add: resetExhausted_facts)
  obtain n nt1 where n: "Next nt = Some (n, nt1)" "drawn n ?r nt1"
    using Next_draws[OF assms(1) False] assms(2) by auto
  note f = drawn_facts[OF r n(2), unfolded resetExhausted_facts]
  obtain k where k: "length (all_nodes nt) = Suc k" "k = size (remaining nt1)"
    using arg_cong[OF f(4), of size] by simp
  obtain ns nt' where "Next_many k nt1 = Some (ns, nt')" "mset ns = remaining nt1"
    "remaining nt' = {#}" "tree_inv nt'" "all_nodes nt' = all_nodes nt1"
    using Next_many_remaining[OF f(1)] k(2) by auto
  then show ?thesis unfolding k(1) using n(1) f by auto
qed

text \<open>
  C36. \<open>Next\<close> never blocks and is a fair round robin: from any well-formed tree the remaining calls
  of the current round return exactly the names not handed out yet, and the following
  \<open>length (all_nodes nt)\<close> calls return every node of the tree exactly once.
\<close>

theorem Next_round_robin:
  assumes "tree_inv nt"
  shows "\<exists>ns nt1 ms nt2.
    Next_many (size (remaining nt)) nt = Some (ns, nt1) \<and> mset ns = remaining nt \<and>
    Next_many (length (all_nodes nt)) nt1 = Some (ms, nt2) \<and> mset ms = mset (all_nodes nt) \<and> tree_inv nt2"
proof -
  obtain ns nt1 where 1: "Next_many (size (remaining nt)) nt = Some (ns, nt1)" "mset ns = remaining nt"
    "remaining nt1 = {#}" "tree_inv nt1" "all_nodes nt1 = all_nodes nt"
    using Next_many_remaining[OF assms] by auto
  with Next_many_epoch[OF 1(4,3)] show ?thesis by auto
qed

definition example_tree :: NodeTree where
  "example_tree = newNodeTree example_k8s
     [zero_Node\<lparr>node_Name := ''a1'', node_Labels := [(''zone'', ''a'')]\<rparr>,
      zero_Node\<lparr>node_Name := ''a2'', node_Labels := [(''zone'', ''a'')]\<rparr>,
      zero_Node\<lparr>node_Name := ''b1'', node_Labels := [(''zone'', ''b'')]\<rparr>]"

lemmas example_tree_unfold =
  example_tree_def newNodeTree_def tree_addNode_def example_k8s_def zero_Node_def Let_def

theorem Next_round_robin_witness:
  "\<exists>ns nt1. Next_many 3 example_tree = Some (ns, nt1) \<and> mset ns = mset [''a1'', ''b1'', ''a2'']"
proof -
  have "tree_inv example_tree" unfolding example_tree_def by (rule newNodeTree_inv)
  moreover have "remaining example_tree = mset [''a1'', ''a2'', ''b1'']"
    by (simp add: remaining_def zone_rest_def example_tree_unfold)
  ultimately show ?thesis using Next_round_robin[of example_tree] by (auto simp: add_mset_commute numeral_3_eq_3)
qed

text \<open>
  C37. \<open>AddNode\<close> and \<open>RemoveNode\<close> keep the tree well formed, insert and delete exactly the pair of
  zone and name, and \<open>RemoveNode\<close> reports an error exactly when the node was not in the tree; in
  particular the loop of \<open>removeZone\<close> never runs out of range.
\<close>

theorem NodeTree_membership:
  assumes "tree_inv nt"
  shows "tree_inv (NodeTree_AddNode L nt n) \<and>
    members (NodeTree_AddNode L nt n) = insert (GetZoneKey L n, node_Name n) (members nt) \<and>
    (\<exists>nt' e. NodeTree_RemoveNode L nt n = Some (nt', e) \<and> tree_inv nt' \<and>
       members nt' = members nt - {(GetZoneKey L n, node_Name n)} \<and>
       (e = None \<longleftrightarrow> (GetZoneKey L n, node_Name n) \<in> members nt))"
  using tree_addNode_inv[OF assms] tree_removeNode_inv[OF assms]
  by (simp add: NodeTree_AddNode_def NodeTree_RemoveNode_def)

theorem NodeTree_membership_witness:
  "tree_inv (NodeTree_AddNode example_k8s example_tree zero_Node) \<and>
   ([], []) \<in> members (NodeTree_AddNode example_k8s example_tree zero_Node)"
proof -
  have "tree_inv example_tree" unfolding example_tree_def by (rule newNodeTree_inv)
  from NodeTree_membership[OF this, of example_k8s zero_Node] show ?thesis
    by (simp add: example_k8s_def zero_Node_def)
qed

lemma NodeTree_UpdateNode_inv:
  assumes "tree_inv nt"
  shows "\<exists>nt'. NodeTree_UpdateNode L nt (Some old) new = Some nt' \<and> tree_inv nt' \<and>
    members nt' = (if GetZoneKey L old = GetZoneKey L new then members nt
       else insert (GetZoneKey L new, node_Name new) (members nt - {(GetZoneKey L old, node_Name old)}))"
proof (cases "GetZoneKey L old = GetZoneKey L new")
  case False
  obtain nt1 e where r: "tree_removeNode L nt old = Some (nt1, e)" "tree_inv nt1"
    "members nt1 = members nt - {(GetZoneKey L old, node_Name old)}"
    using tree_removeNode_inv[OF assms] by metis
  with False show ?thesis using tree_addNode_inv[OF r(2)] by (simp add: NodeTree_UpdateNode_def)
qed (use assms in \<open>simp add: NodeTree_UpdateNode_def\<close>)

text \<open>
  An update whose zone changes moves the node: the pair of the old zone is gone and the pair of
  the new zone is there, also when the old node was unknown. An update within one zone leaves the
  tree as it is.
\<close>

theorem NodeTree_UpdateNode_moves:
  assumes "tree_inv nt"
  shows "\<exists>nt'. NodeTree_UpdateNode L nt (Some old) new = Some nt' \<and> tree_inv nt' \<and>
    members nt' = (if GetZoneKey L old = GetZoneKey L new then members nt
       else insert (GetZoneKey L new, node_Name new) (members nt - {(GetZoneKey L old, node_Name old)}))"
  using NodeTree_UpdateNode_inv[OF assms] .

theorem NodeTree_UpdateNode_moves_witness:
  "\<exists>nt'. NodeTree_UpdateNode example_k8s example_tree
      (Some (zero_Node\<lparr>node_Name := ''a1'', node_Labels := [(''zone'', ''a'')]\<rparr>))
      (zero_Node\<lparr>node_Name := ''a1'', node_Labels := [(''zone'', ''c'')]\<rparr>) = Some nt' \<and>
    (''c'', ''a1'') \<in> members nt' \<and> (''a'', ''a1'') \<notin> members nt'"
proof -
  have "tree_inv example_tree" unfolding example_tree_def by (rule newNodeTree_inv)
  from NodeTree_UpdateNode_moves[OF this, of example_k8s
      "zero_Node\<lparr>node_Name := ''a1'', node_Labels := [(''zone'', ''a'')]\<rparr>"
      "zero_Node\<lparr>node_Name := ''a1'', node_Labels := [(''zone'', ''c'')]\<rparr>"]
  show ?thesis by (auto simp: example_k8s_def zero_Node_def)
qed

end
