(* ===== verification/Pool_Info.thy ===== *)
theory Pool_Info
  imports Node_Info Node_Tree
begin

text \<open>
  \<open>PoolInfo\<close> of \<open>pkg/scheduler/info/pool_info.go\<close>: the nodes of one resource pool, kept in a map and
  in a doubly linked list ordered by the last change, the resource totals of the pool, and the
  snapshot the scheduling cycle works on.

  List items are heap cells: an address is a \<open>nat\<close>, the record \<open>store\<close> holds the cells, the next free
  address and the globals of \<open>Node_Info\<close>. The \<open>NodeInfo\<close> behind an item is reached through that item
  only, so it is stored in the cell. A pool method that another goroutine cannot interrupt (the cache
  lock is held) is one function on the pool and the store. \<open>ClearPool\<close> only drops the references of a
  pool that the cache has already forgotten and is left out.
\<close>

subsection \<open>Data\<close>

record NodeInfoListItem =
  li_info :: NodeInfo
  li_next :: "nat option"
  li_prev :: "nat option"

record store =
  st_globals :: globals
  st_item :: "nat \<Rightarrow> NodeInfoListItem"
  st_fresh :: nat

record NodeInfoSnapshot =
  NodeInfoMap :: "(string, NodeInfo) fmap"
  snap_Generation :: int64

record PoolInfo =
  pi_pool :: "Pool option"
  pi_nodes :: "(string, nat) fmap"
  headNode :: "nat option"
  nodeTree :: NodeTree
  pi_capacity :: Resource
  pi_allocatable :: Resource
  pi_used :: Resource
  pi_shared :: Resource
  nodeInfoSnapshot :: NodeInfoSnapshot

datatype pool_error =
    NodeNotFound string
  | NodeInfoError node_info_error
  | NodeInfoNotInPool string string
  | TreeError tree_error

definition DefaultPoolName :: string where
  "DefaultPoolName = []"

subsection \<open>The linked list\<close>

definition info_of :: "store \<Rightarrow> nat \<Rightarrow> NodeInfo" where
  "info_of st a = li_info (st_item st a)"

definition set_info :: "nat \<Rightarrow> NodeInfo \<Rightarrow> store \<Rightarrow> store" where
  "set_info a ni st = st\<lparr>st_item := (st_item st)(a := (st_item st a)\<lparr>li_info := ni\<rparr>)\<rparr>"

definition set_next :: "nat \<Rightarrow> nat option \<Rightarrow> store \<Rightarrow> store" where
  "set_next a n st = st\<lparr>st_item := (st_item st)(a := (st_item st a)\<lparr>li_next := n\<rparr>)\<rparr>"

definition set_prev :: "nat \<Rightarrow> nat option \<Rightarrow> store \<Rightarrow> store" where
  "set_prev a n st = st\<lparr>st_item := (st_item st)(a := (st_item st a)\<lparr>li_prev := n\<rparr>)\<rparr>"

definition newNodeInfoListItem :: "NodeInfo \<Rightarrow> store \<Rightarrow> nat \<times> store" where
  "newNodeInfoListItem ni st =
     (st_fresh st, st\<lparr>st_item := (st_item st)(st_fresh st := \<lparr>li_info = ni, li_next = None, li_prev = None\<rparr>),
                      st_fresh := st_fresh st + 1\<rparr>)"

text \<open>Both list operations start by unlinking an item from its neighbours.\<close>

definition unlink :: "nat \<Rightarrow> store \<Rightarrow> store" where
  "unlink ni st =
     (let st1 = (case li_prev (st_item st ni) of None \<Rightarrow> st
                 | Some q \<Rightarrow> set_next q (li_next (st_item st ni)) st)
      in case li_next (st_item st1 ni) of None \<Rightarrow> st1
         | Some q \<Rightarrow> set_prev q (li_prev (st_item st1 ni)) st1)"

definition moveNodeInfoToHead :: "PoolInfo \<Rightarrow> string \<Rightarrow> store \<Rightarrow> PoolInfo \<times> store" where
  "moveNodeInfoToHead p name st = (case fmlookup (pi_nodes p) name of
     None \<Rightarrow> (p, st)
   | Some ni \<Rightarrow>
      (if Some ni = headNode p then (p, st)
       else let st1 = unlink ni st;
                st2 = (case headNode p of None \<Rightarrow> st1 | Some h \<Rightarrow> set_prev h (Some ni) st1)
            in (p\<lparr>headNode := Some ni\<rparr>, set_prev ni None (set_next ni (headNode p) st2))))"

definition removeNodeInfoFromList :: "PoolInfo \<Rightarrow> string \<Rightarrow> store \<Rightarrow> PoolInfo \<times> store" where
  "removeNodeInfoFromList p name st = (case fmlookup (pi_nodes p) name of
     None \<Rightarrow> (p, st)
   | Some ni \<Rightarrow>
      (let st1 = unlink ni st;
           p1 = (if Some ni = headNode p then p\<lparr>headNode := li_next (st_item st1 ni)\<rparr> else p)
       in (p1\<lparr>pi_nodes := fmdrop name (pi_nodes p1)\<rparr>, st1)))"

subsection \<open>Names, matching and borrowing\<close>

definition PoolInfo_Name :: "PoolInfo \<Rightarrow> string" where
  "PoolInfo_Name p = (case pi_pool p of None \<Rightarrow> [] | Some pool \<Rightarrow> pool_Name pool)"

definition IsDefaultPool :: "PoolInfo \<Rightarrow> bool" where
  "IsDefaultPool p \<longleftrightarrow> PoolInfo_Name p = DefaultPoolName"

definition MatchPod :: "PoolInfo \<Rightarrow> Pod \<Rightarrow> bool" where
  "MatchPod p pod \<longleftrightarrow> PoolInfo_Name p = GetPodAnnotationsPoolName pod"

text \<open>A selector that does not parse is treated as matching.\<close>

definition MatchNode :: "k8s \<Rightarrow> PoolInfo \<Rightarrow> Node option \<Rightarrow> bool" where
  "MatchNode L p node = (case node of
     None \<Rightarrow> False
   | Some n \<Rightarrow>
      (if IsDefaultPool p then False
       else case pi_pool p of
         None \<Rightarrow> False
       | Some pool \<Rightarrow>
          (if NodeSelector (pool_Spec pool) = None then False
           else case LabelSelectorAsSelector L (NodeSelector (pool_Spec pool)) of
             None \<Rightarrow> True
           | Some sel \<Rightarrow> sel (node_Labels n))))"

definition DisableSharing :: "PoolInfo \<Rightarrow> bool" where
  "DisableSharing p = (case pi_pool p of None \<Rightarrow> False | Some pool \<Rightarrow> spec_DisableSharing (pool_Spec pool))"

definition DisableBorrowing :: "PoolInfo \<Rightarrow> bool" where
  "DisableBorrowing p = (case pi_pool p of None \<Rightarrow> True | Some pool \<Rightarrow> spec_DisableBorrowing (pool_Spec pool))"

definition DisablePreemption :: "PoolInfo \<Rightarrow> bool" where
  "DisablePreemption p = (case pi_pool p of None \<Rightarrow> True | Some pool \<Rightarrow> spec_DisablePreemption (pool_Spec pool))"

definition NeedMatchNodeLabel :: "PoolInfo \<Rightarrow> bool" where
  "NeedMatchNodeLabel p = (case pi_pool p of None \<Rightarrow> False | Some pool \<Rightarrow> NodeSelector (pool_Spec pool) \<noteq> None)"

text \<open>\<open>p.pool\<close> is dereferenced only when borrowing is enabled, which a nil pool never is.\<close>

definition CanBorrowPool :: "PoolInfo \<Rightarrow> PoolInfo \<Rightarrow> bool" where
  "CanBorrowPool p pool =
     (if PoolInfo_Name p = PoolInfo_Name pool then True
      else if DisableBorrowing p \<or> DisableSharing pool then False
      else case pi_pool p of
        None \<Rightarrow> False
      | Some q \<Rightarrow> length (BorrowingPools (pool_Spec q)) = 0 \<or>
          SliceContainsString (BorrowingPools (pool_Spec q)) (PoolInfo_Name pool))"

definition Idle :: "PoolInfo \<Rightarrow> Resource" where
  "Idle p = Sub (Resource_Clone (pi_allocatable p)) (pi_used p)"

definition ContainsNode :: "PoolInfo \<Rightarrow> string \<Rightarrow> nat option" where
  "ContainsNode p nodeName = (if nodeName = [] then None else fmlookup (pi_nodes p) nodeName)"

definition PoolInfo_SetAllocatableResource :: "PoolInfo \<Rightarrow> string \<Rightarrow> int64 \<Rightarrow> PoolInfo" where
  "PoolInfo_SetAllocatableResource p name value = p\<lparr>pi_allocatable := SetValue (pi_allocatable p) name value\<rparr>"

subsection \<open>Operations\<close>

definition NewNodeInfoSnapshot :: NodeInfoSnapshot where
  "NewNodeInfoSnapshot = \<lparr>NodeInfoMap = fmempty, snap_Generation = 0\<rparr>"

definition NewPoolInfo :: "k8s \<Rightarrow> PoolInfo" where
  "NewPoolInfo L = \<lparr>pi_pool = None, pi_nodes = fmempty, headNode = None, nodeTree = newNodeTree L [],
     pi_capacity = emptyResource, pi_allocatable = emptyResource, pi_used = emptyResource,
     pi_shared = emptyResource, nodeInfoSnapshot = NewNodeInfoSnapshot\<rparr>"

definition SetPool :: "PoolInfo \<Rightarrow> Pool \<Rightarrow> PoolInfo" where
  "SetPool p pool = p\<lparr>pi_pool := Some pool\<rparr>"

definition plusPodResource :: "k8s \<Rightarrow> PoolInfo \<Rightarrow> Pod \<Rightarrow> PoolInfo" where
  "plusPodResource L p pod =
     (let res = GetResourceRequestForPool L pod; p1 = p\<lparr>pi_used := Plus (pi_used p) res\<rparr>
      in if \<not> MatchPod p1 pod then p1\<lparr>pi_shared := Plus (pi_shared p1) res\<rparr> else p1)"

definition reducePodResource :: "k8s \<Rightarrow> PoolInfo \<Rightarrow> Pod \<Rightarrow> PoolInfo" where
  "reducePodResource L p pod =
     (let res = GetResourceRequestForPool L pod; p1 = p\<lparr>pi_used := Sub (pi_used p) res\<rparr>
      in if \<not> MatchPod p1 pod then p1\<lparr>pi_shared := Sub (pi_shared p1) res\<rparr> else p1)"

text \<open>The item of a name, created with an empty \<open>NodeInfo\<close> if there is none.\<close>

definition ensure_item :: "k8s \<Rightarrow> PoolInfo \<Rightarrow> string \<Rightarrow> store \<Rightarrow> nat \<times> PoolInfo \<times> store" where
  "ensure_item L p name st = (case fmlookup (pi_nodes p) name of
     Some n \<Rightarrow> (n, p, st)
   | None \<Rightarrow>
      (let (ni, g) = NewNodeInfo L [] (st_globals st);
           (n, st1) = newNodeInfoListItem ni (st\<lparr>st_globals := g\<rparr>)
       in (n, p\<lparr>pi_nodes := fmupd name n (pi_nodes p)\<rparr>, st1)))"

definition item_AddPod :: "k8s \<Rightarrow> nat \<Rightarrow> Pod \<Rightarrow> store \<Rightarrow> store" where
  "item_AddPod L n pod st =
     (let (ni, g) = NodeInfo_AddPod L (info_of st n) pod (st_globals st) in set_info n ni (st\<lparr>st_globals := g\<rparr>))"

definition item_SetNode :: "k8s \<Rightarrow> nat \<Rightarrow> Node \<Rightarrow> store \<Rightarrow> store" where
  "item_SetNode L n node st =
     (let (ni, g) = SetNode L (info_of st n) node (st_globals st) in set_info n ni (st\<lparr>st_globals := g\<rparr>))"

text \<open>The end of \<open>RemovePod\<close> and \<open>RemoveNode\<close>: an item without pods and node is dropped.\<close>

definition drop_or_move :: "PoolInfo \<Rightarrow> string \<Rightarrow> nat \<Rightarrow> store \<Rightarrow> PoolInfo \<times> store" where
  "drop_or_move p name n st =
     (if length (ni_pods (info_of st n)) = 0 \<and> ni_node (info_of st n) = None
      then removeNodeInfoFromList p name st
      else moveNodeInfoToHead p name st)"

definition PoolInfo_AddPod :: "k8s \<Rightarrow> PoolInfo \<Rightarrow> Pod \<Rightarrow> store \<Rightarrow> PoolInfo \<times> store" where
  "PoolInfo_AddPod L p pod st =
     (let (n, p1, st1) = ensure_item L p (pod_NodeName pod) st;
          st2 = item_AddPod L n pod st1;
          (p2, st3) = moveNodeInfoToHead p1 (pod_NodeName pod) st2
      in (plusPodResource L p2 pod, st3))"

definition PoolInfo_RemovePod :: "k8s \<Rightarrow> PoolInfo \<Rightarrow> Pod \<Rightarrow> store \<Rightarrow> PoolInfo \<times> store \<times> pool_error option" where
  "PoolInfo_RemovePod L p pod st = (case fmlookup (pi_nodes p) (pod_NodeName pod) of
     None \<Rightarrow> (p, st, Some (NodeNotFound (pod_NodeName pod)))
   | Some n \<Rightarrow>
      (let (ni, g, e) = NodeInfo_RemovePod L (info_of st n) pod (st_globals st);
           st1 = set_info n ni (st\<lparr>st_globals := g\<rparr>) in
       case e of
         Some err \<Rightarrow> (p, st1, Some (NodeInfoError err))
       | None \<Rightarrow>
          (let (p1, st2) = drop_or_move p (pod_NodeName pod) n st1
           in (reducePodResource L p1 pod, st2, None))))"

text \<open>\<open>UpdatePod\<close> ignores the results of both calls; \<open>same\<close> is the comparison of the two pointers.\<close>

definition PoolInfo_UpdatePod :: "k8s \<Rightarrow> PoolInfo \<Rightarrow> bool \<Rightarrow> Pod \<Rightarrow> Pod \<Rightarrow> store \<Rightarrow> PoolInfo \<times> store" where
  "PoolInfo_UpdatePod L p same oldPod newPod st =
     (if same then (p, st)
      else let (p1, st1, e) = PoolInfo_RemovePod L p oldPod st in PoolInfo_AddPod L p1 newPod st1)"

definition PoolInfo_AddNode :: "k8s \<Rightarrow> PoolInfo \<Rightarrow> Node \<Rightarrow> store \<Rightarrow> PoolInfo \<times> store" where
  "PoolInfo_AddNode L p node st =
     (let (n, p1, st1) = ensure_item L p (node_Name node) st;
          (p2, st2) = moveNodeInfoToHead p1 (node_Name node) st1;
          p3 = p2\<lparr>nodeTree := NodeTree_AddNode L (nodeTree p2) node,
                  pi_capacity := Resource_Add L (pi_capacity p2) (node_Capacity node),
                  pi_allocatable := Resource_Add L (pi_allocatable p2) (node_Allocatable node)\<rparr>
      in (p3, item_SetNode L n node st2))"

definition PoolInfo_RemoveNode ::
    "k8s \<Rightarrow> PoolInfo \<Rightarrow> Node \<Rightarrow> store \<Rightarrow> (PoolInfo \<times> store \<times> pool_error option) option" where
  "PoolInfo_RemoveNode L p node st = (case fmlookup (pi_nodes p) (node_Name node) of
     None \<Rightarrow> Some (p, st, Some (NodeNotFound (node_Name node)))
   | Some n \<Rightarrow>
      (let (ni, g) = NodeInfo_RemoveNode (info_of st n) (st_globals st);
           st1 = set_info n ni (st\<lparr>st_globals := g\<rparr>);
           (p1, st2) = drop_or_move p (node_Name node) n st1
       in map_option (\<lambda>(nt, e).
            (p1\<lparr>nodeTree := nt,
                pi_capacity := Sub (pi_capacity p1) (NewResource L (node_Capacity node)),
                pi_allocatable := Sub (pi_allocatable p1) (NewResource L (node_Allocatable node))\<rparr>, st2, None))
            (NodeTree_RemoveNode L (nodeTree p1) node)))"

definition PoolInfo_UpdateNode ::
    "k8s \<Rightarrow> PoolInfo \<Rightarrow> Node option \<Rightarrow> Node \<Rightarrow> store \<Rightarrow> (PoolInfo \<times> store) option" where
  "PoolInfo_UpdateNode L p oldNode newNode st =
     (let (n, p1, st1) = ensure_item L p (node_Name newNode) st;
          (p2, st2) = moveNodeInfoToHead p1 (node_Name newNode) st1;
          c0 = NewResource L (node_Capacity newNode);
          a0 = NewResource L (node_Allocatable newNode);
          cdelta = (case oldNode of None \<Rightarrow> c0 | Some old \<Rightarrow> Sub c0 (NewResource L (node_Capacity old)));
          adelta = (case oldNode of None \<Rightarrow> a0 | Some old \<Rightarrow> Sub a0 (NewResource L (node_Allocatable old)))
      in map_option (\<lambda>nt.
           (p2\<lparr>nodeTree := nt, pi_capacity := Plus (pi_capacity p2) cdelta,
               pi_allocatable := Plus (pi_allocatable p2) adelta\<rparr>, item_SetNode L n newNode st2))
           (NodeTree_UpdateNode L (nodeTree p2) oldNode newNode))"

definition AddNodeInfo :: "k8s \<Rightarrow> PoolInfo \<Rightarrow> nat \<Rightarrow> store \<Rightarrow> PoolInfo \<times> store" where
  "AddNodeInfo L p item st = (case ni_node (info_of st item) of
     None \<Rightarrow> (p, st)
   | Some node \<Rightarrow>
      (let p1 = p\<lparr>pi_nodes := fmupd (node_Name node) item (pi_nodes p)\<rparr>;
           (p2, st1) = moveNodeInfoToHead p1 (node_Name node) st;
           p3 = p2\<lparr>nodeTree := NodeTree_AddNode L (nodeTree p2) node,
                   pi_capacity := Resource_Add L (pi_capacity p2) (node_Capacity node),
                   pi_allocatable := Resource_Add L (pi_allocatable p2) (node_Allocatable node)\<rparr>
       in (foldl (plusPodResource L) p3 (ni_pods (info_of st1 item)), st1)))"

definition RemoveNodeInfo ::
    "k8s \<Rightarrow> PoolInfo \<Rightarrow> nat \<Rightarrow> store \<Rightarrow> (PoolInfo \<times> store \<times> pool_error option) option" where
  "RemoveNodeInfo L p item st = (case ni_node (info_of st item) of
     None \<Rightarrow> Some (p, st, None)
   | Some node \<Rightarrow>
      (if fmlookup (pi_nodes p) (node_Name node) = None
       then Some (p, st, Some (NodeInfoNotInPool (node_Name node) (PoolInfo_Name p)))
       else let (p1, st1) = removeNodeInfoFromList p (node_Name node) st in
         Option.bind (NodeTree_RemoveNode L (nodeTree p1) node) (\<lambda>(nt, e).
           let p2 = p1\<lparr>nodeTree := nt\<rparr> in
           Some (case e of
             Some err \<Rightarrow> (p2, st1, Some (TreeError err))
           | None \<Rightarrow>
              (let p3 = p2\<lparr>pi_capacity := Sub (pi_capacity p2) (NewResource L (node_Capacity node)),
                           pi_allocatable := Sub (pi_allocatable p2) (NewResource L (node_Allocatable node))\<rparr>
               in (foldl (reducePodResource L) p3 (ni_pods (info_of st1 item)), st1, None))))))"

subsection \<open>The snapshot\<close>

text \<open>
  The loop over the list; the result holds the snapshot map, the globals, and \<open>node\<close>, \<open>fast\<close>, \<open>prev\<close>
  and \<open>hasCircle\<close> when the loop ends. Every round uses one unit of fuel.
\<close>

definition fast_step :: "store \<Rightarrow> nat option \<Rightarrow> nat option" where
  "fast_step st fast = (case fast of None \<Rightarrow> None
     | Some f \<Rightarrow> (case li_next (st_item st f) of None \<Rightarrow> None | Some f' \<Rightarrow> li_next (st_item st f')))"

fun snapshot_loop :: "bool \<Rightarrow> int64 \<Rightarrow> store \<Rightarrow> nat \<Rightarrow> (string, NodeInfo) fmap \<Rightarrow> globals \<Rightarrow>
    nat option \<Rightarrow> nat option \<Rightarrow> nat option \<Rightarrow>
    ((string, NodeInfo) fmap \<times> globals \<times> nat option \<times> nat option \<times> bool) option" where
  "snapshot_loop bal snapGen st 0 m g node fast prev = None"
| "snapshot_loop bal snapGen st (Suc fuel) m g node fast prev = (case node of
     None \<Rightarrow> Some (m, g, node, prev, False)
   | Some a \<Rightarrow>
      (let ni = info_of st a in
       if ni_generation ni \<le>s snapGen then Some (m, g, node, prev, False)
       else
         let g1 = (if bal then ResetTransientSchedulerInfo (TransientInfo ni) g else g);
             m1 = (case ni_node ni of None \<Rightarrow> m | Some np \<Rightarrow> fmupd (node_Name np) (NodeInfo_Clone ni) m);
             node1 = li_next (st_item st a);
             fast1 = fast_step st fast
         in if node1 \<noteq> None \<and> fast1 \<noteq> None \<and> node1 = fast1 then Some (m1, g1, node1, node, True)
            else snapshot_loop bal snapGen st fuel m1 g1 node1 fast1 node))"

text \<open>The search for the entry of a circle: returns the predecessor whose link is cut.\<close>

fun circle_loop :: "store \<Rightarrow> nat \<Rightarrow> nat option \<Rightarrow> nat option \<Rightarrow> nat option \<Rightarrow> nat option" where
  "circle_loop st 0 node fast prev = None"
| "circle_loop st (Suc fuel) node fast prev =
     (if node = fast then prev
      else case (node, fast) of
        (Some a, Some f) \<Rightarrow> circle_loop st fuel (li_next (st_item st a)) (li_next (st_item st f)) node
      | _ \<Rightarrow> None)"

definition UpdateNodeInfoSnapshot :: "bool \<Rightarrow> PoolInfo \<Rightarrow> store \<Rightarrow> (PoolInfo \<times> store) option" where
  "UpdateNodeInfoSnapshot balancedVolumesEnabled p st =
     (let nodeSnapshot = nodeInfoSnapshot p; h = headNode p in
      Option.bind (snapshot_loop balancedVolumesEnabled (snap_Generation nodeSnapshot) st (st_fresh st + 1)
          (NodeInfoMap nodeSnapshot) (st_globals st) h h h) (\<lambda>(m, g, node, prev, hasCircle).
        let st1 = st\<lparr>st_globals := g\<rparr> in
        Option.bind (if hasCircle then map_option (\<lambda>q. set_next q None st1) (circle_loop st1 (st_fresh st + 1) node h prev)
                     else Some st1) (\<lambda>st2.
          let gen = (case h of None \<Rightarrow> snap_Generation nodeSnapshot | Some a \<Rightarrow> ni_generation (info_of st2 a));
              m1 = (if fcard (fmdom m) > fcard (fmdom (pi_nodes p))
                    then fmfilter (\<lambda>name. fmlookup (pi_nodes p) name \<noteq> None) m else m)
          in Some (p\<lparr>nodeInfoSnapshot := \<lparr>NodeInfoMap = m1, snap_Generation = gen\<rparr>\<rparr>, st2))))"

text \<open>\<open>Nodes\<close> of \<open>info/snapshot.go\<close>, for an order of the map's keys.\<close>

definition NodeInfoSnapshot_Nodes :: "string list \<Rightarrow> NodeInfoSnapshot \<Rightarrow> Node list" where
  "NodeInfoSnapshot_Nodes ord ns =
     List.map_filter (\<lambda>name. Option.bind (fmlookup (NodeInfoMap ns) name) ni_node) ord"

subsection \<open>The list structure\<close>

text \<open>\<open>dseg s p xs n\<close>: the cells \<open>xs\<close> are linked in this order, \<open>p\<close> before the first and \<open>n\<close> after the
  last.\<close>

definition first_or :: "'a list \<Rightarrow> 'a option \<Rightarrow> 'a option" where
  "first_or xs n = (case xs of [] \<Rightarrow> n | x # _ \<Rightarrow> Some x)"

definition last_or :: "'a option \<Rightarrow> 'a list \<Rightarrow> 'a option" where
  "last_or p xs = (if xs = [] then p else Some (last xs))"

fun dseg :: "(nat \<Rightarrow> NodeInfoListItem) \<Rightarrow> nat option \<Rightarrow> nat list \<Rightarrow> nat option \<Rightarrow> bool" where
  "dseg s p [] n = True"
| "dseg s p (a # xs) n = (li_prev (s a) = p \<and> li_next (s a) = first_or xs n \<and> dseg s (Some a) xs n)"

lemma first_or_simps [simp]:
  "first_or [] n = n" "first_or (x # xs) n = Some x" "first_or (xs @ ys) n = first_or xs (first_or ys n)"
  by (auto simp: first_or_def split: list.splits)

lemma last_or_simps [simp]:
  "last_or p [] = p" "last_or p (xs @ [x]) = Some x" "last_or p (x # xs) = last_or (Some x) xs"
  by (auto simp: last_or_def)

lemma dseg_append: "dseg s p (xs @ ys) n \<longleftrightarrow> dseg s p xs (first_or ys n) \<and> dseg s (last_or p xs) ys n"
  by (induction xs arbitrary: p) auto

lemma dseg_cong:
  "(\<And>a. a \<in> set xs \<Longrightarrow> li_next (s a) = li_next (t a) \<and> li_prev (s a) = li_prev (t a)) \<Longrightarrow> dseg s p xs n = dseg t p xs n"
  by (induction xs arbitrary: p) auto

lemma dseg_relink_next:
  assumes "dseg s p xs n" "distinct xs" "last_or None xs = Some q"
  shows "dseg (s(q := (s q)\<lparr>li_next := v\<rparr>)) p xs v"
proof (cases xs rule: rev_cases)
  case (snoc ys y)
  have "dseg (s(y := (s y)\<lparr>li_next := v\<rparr>)) p ys (Some y) = dseg s p ys (Some y)"
    using assms(2) snoc by (intro dseg_cong) auto
  then show ?thesis using assms snoc by (simp add: dseg_append)
qed simp

lemma dseg_relink_prev:
  assumes "dseg s p xs n" "distinct xs" "first_or xs None = Some q"
  shows "dseg (s(q := (s q)\<lparr>li_prev := v\<rparr>)) v xs n"
proof (cases xs)
  case (Cons y ys)
  have "dseg (s(y := (s y)\<lparr>li_prev := v\<rparr>)) (Some y) ys n = dseg s (Some y) ys n"
    using assms(2) Cons by (intro dseg_cong) auto
  then show ?thesis using assms Cons by simp
qed simp

text \<open>A well-formed list: the cells in order, starting at the head.\<close>

definition dlist :: "store \<Rightarrow> nat option \<Rightarrow> nat list \<Rightarrow> bool" where
  "dlist st h xs \<longleftrightarrow> distinct xs \<and> dseg (st_item st) None xs None \<and> h = first_or xs None"

definition same_info :: "store \<Rightarrow> store \<Rightarrow> bool" where
  "same_info st st' \<longleftrightarrow> (\<forall>a. info_of st' a = info_of st a) \<and> st_globals st' = st_globals st \<and> st_fresh st' = st_fresh st"

lemma same_info_refl [simp]: "same_info st st"
  by (simp add: same_info_def)

lemma same_info_trans: "same_info a b \<Longrightarrow> same_info b c \<Longrightarrow> same_info a c"
  by (simp add: same_info_def)

lemma same_info_links [simp]:
  "same_info st (set_next a v st') = same_info st st'" "same_info st (set_prev a v st') = same_info st st'"
  by (auto simp: same_info_def set_next_def set_prev_def info_of_def)

lemma same_info_unlink: "same_info st (unlink a st)"
  unfolding unlink_def by (auto simp: Let_def split: option.split)

lemma last_or_split:
  "xs \<noteq> [] \<Longrightarrow> last_or p xs = Some (last xs)" "last_or None xs = None \<longleftrightarrow> xs = []"
  "last_or None xs = Some q \<Longrightarrow> q \<in> set xs"
  by (auto simp: last_or_def split: if_splits)

lemma first_or_split: "first_or xs None = None \<longleftrightarrow> xs = []" "first_or xs None = Some q \<Longrightarrow> q \<in> set xs"
  by (auto simp: first_or_def split: list.splits)

text \<open>Unlinking a cell of the list, and what else it leaves alone.\<close>

lemma unlink_dlist:
  assumes d: "distinct (xs @ a # ys)" and seg: "dseg (st_item st) None (xs @ a # ys) None"
  shows "dseg (st_item (unlink a st)) None (xs @ ys) None"
    "\<And>b. b \<notin> set (xs @ ys) \<Longrightarrow> st_item (unlink a st) b = st_item st b"
proof -
  let ?s = "st_item st"
  have sx: "dseg ?s None xs (Some a)" and sy: "dseg ?s (Some a) ys None"
    and pa: "li_prev (?s a) = last_or None xs" and na: "li_next (?s a) = first_or ys None"
    using seg by (auto simp: dseg_append)
  let ?s1 = "case last_or None xs of None \<Rightarrow> ?s | Some q \<Rightarrow> ?s(q := (?s q)\<lparr>li_next := first_or ys None\<rparr>)"
  let ?s2 = "case first_or ys None of None \<Rightarrow> ?s1 | Some q \<Rightarrow> ?s1(q := (?s1 q)\<lparr>li_prev := last_or None xs\<rparr>)"
  have nq: "q \<noteq> a" if "last_or None xs = Some q" for q using that d last_or_split(3) by force
  have u: "st_item (unlink a st) = ?s2"
    unfolding unlink_def using pa na nq
    by (cases "last_or None xs"; cases "first_or ys None") (auto simp: set_next_def set_prev_def)
  have dx: "distinct xs" "distinct ys" "set xs \<inter> set ys = {}" using d by auto
  have 1: "dseg ?s1 None xs (first_or ys None)"
  proof (cases "last_or None xs")
    case None
    then have "xs = []" by (simp add: last_or_split(2))
    then show ?thesis by simp
  next
    case (Some q)
    then show ?thesis using dseg_relink_next[OF sx dx(1) Some] by simp
  qed
  have 2: "dseg ?s1 (Some a) ys None"
  proof -
    have "dseg ?s1 (Some a) ys None = dseg ?s (Some a) ys None"
      using dx(3) last_or_split(3)[of xs] by (intro dseg_cong) (auto split: option.split)
    then show ?thesis using sy by simp
  qed
  have "dseg ?s2 None xs (first_or ys None)"
  proof -
    have "dseg ?s2 None xs (first_or ys None) = dseg ?s1 None xs (first_or ys None)"
      using dx(3) first_or_split(2)[of ys] by (intro dseg_cong) (auto split: option.split)
    then show ?thesis using 1 by simp
  qed
  moreover have "dseg ?s2 (last_or None xs) ys None"
  proof (cases "first_or ys None")
    case None
    then have "ys = []" by (simp add: first_or_split(1))
    then show ?thesis by simp
  next
    case (Some q)
    then show ?thesis using dseg_relink_prev[OF 2 dx(2) Some] by simp
  qed
  ultimately show "dseg (st_item (unlink a st)) None (xs @ ys) None" unfolding u by (simp add: dseg_append)
  show "st_item (unlink a st) b = st_item st b" if "b \<notin> set (xs @ ys)" for b
    unfolding u using that last_or_split(3)[of xs] first_or_split(2)[of ys]
    by (auto split: option.split)
qed

definition link_head :: "nat \<Rightarrow> nat option \<Rightarrow> store \<Rightarrow> store" where
  "link_head a h st = set_prev a None (set_next a h (case h of None \<Rightarrow> st | Some q \<Rightarrow> set_prev q (Some a) st))"

lemma link_head_dseg:
  assumes "a \<notin> set xs" "distinct xs" "dseg (st_item st) None xs None" "h = first_or xs None"
  shows "dseg (st_item (link_head a h st)) None (a # xs) None"
    "\<And>b. b \<notin> insert a (set xs) \<Longrightarrow> st_item (link_head a h st) b = st_item st b"
    "same_info st (link_head a h st)"
proof -
  let ?s1 = "st_item (case h of None \<Rightarrow> st | Some q \<Rightarrow> set_prev q (Some a) st)"
  have eq: "st_item (link_head a h st) = ?s1(a := (?s1 a)\<lparr>li_next := h, li_prev := None\<rparr>)"
    by (cases h) (auto simp: link_head_def set_next_def set_prev_def)
  have 1: "dseg ?s1 (Some a) xs None"
  proof (cases xs)
    case (Cons q ys)
    then have "st_item (set_prev q (Some a) st) = (st_item st)(q := (st_item st q)\<lparr>li_prev := Some a\<rparr>)"
      by (simp add: set_prev_def)
    then show ?thesis using dseg_relink_prev[OF assms(3,2), of q "Some a"] Cons assms(4) by simp
  qed simp
  have "dseg (st_item (link_head a h st)) (Some a) xs None = dseg ?s1 (Some a) xs None"
    using assms(1) by (intro dseg_cong) (auto simp: eq)
  with 1 show "dseg (st_item (link_head a h st)) None (a # xs) None" using eq assms(4) by simp
  show "st_item (link_head a h st) b = st_item st b" if "b \<notin> insert a (set xs)" for b
    using that first_or_split(2)[of xs, folded assms(4)]
    by (cases h) (auto simp: link_head_def set_next_def set_prev_def)
  show "same_info st (link_head a h st)"
    unfolding link_head_def by (auto split: option.split)
qed

lemma moveNodeInfoToHead_eq:
  "fmlookup (pi_nodes p) name = Some a \<Longrightarrow> headNode p \<noteq> Some a \<Longrightarrow>
   moveNodeInfoToHead p name st = (p\<lparr>headNode := Some a\<rparr>, link_head a (headNode p) (unlink a st))"
  by (auto simp: moveNodeInfoToHead_def link_head_def Let_def)

text \<open>What moving an item to the head does: to an item of the list, and to an item that is in no list.\<close>

lemma moveNodeInfoToHead_member:
  assumes l: "dlist st (headNode p) xs" and a: "fmlookup (pi_nodes p) name = Some a" "a \<in> set xs"
  obtains st' where "moveNodeInfoToHead p name st = (p\<lparr>headNode := Some a\<rparr>, st')"
    "dlist st' (Some a) (a # remove1 a xs)" "same_info st st'"
    "\<And>b. b \<notin> set xs \<Longrightarrow> st_item st' b = st_item st b"
proof (cases "headNode p = Some a")
  case True
  then have "\<exists>ys. xs = a # ys" using l a by (cases xs) (auto simp: dlist_def)
  then have "a # remove1 a xs = xs" by auto
  moreover have "moveNodeInfoToHead p name st = (p\<lparr>headNode := Some a\<rparr>, st)"
    using True a by (simp add: moveNodeInfoToHead_def)
  ultimately show ?thesis using that[of st] l True by simp
next
  case False
  obtain us vs where xs: "xs = us @ a # vs" "a \<notin> set us" using a(2) by (metis split_list_first)
  have r: "remove1 a xs = us @ vs" using xs by (simp add: remove1_append)
  have d: "distinct (us @ a # vs)" "dseg (st_item st) None (us @ a # vs) None" using l xs by (auto simp: dlist_def)
  note u = unlink_dlist[OF d]
  have "us \<noteq> []" using False l xs by (auto simp: dlist_def)
  then have h: "headNode p = first_or (us @ vs) None" using l xs by (cases us) (auto simp: dlist_def)
  let ?st' = "link_head a (headNode p) (unlink a st)"
  have k: "a \<notin> set (us @ vs)" "distinct (us @ vs)" using d by auto
  note lk = link_head_dseg[OF k u(1) h]
  show ?thesis
  proof (rule that[of ?st'])
    show "moveNodeInfoToHead p name st = (p\<lparr>headNode := Some a\<rparr>, ?st')"
      using moveNodeInfoToHead_eq[OF a(1) False] .
    show "dlist ?st' (Some a) (a # remove1 a xs)" using lk(1) k by (simp add: dlist_def r)
    show "same_info st ?st'" using same_info_trans[OF same_info_unlink lk(3)] .
    show "st_item ?st' b = st_item st b" if "b \<notin> set xs" for b using that lk(2) u(2) xs by simp
  qed
qed

lemma moveNodeInfoToHead_fresh:
  assumes l: "dlist st (headNode p) xs" and a: "fmlookup (pi_nodes p) name = Some a" "a \<notin> set xs"
    and u: "unlink a st = st"
  obtains st' where "moveNodeInfoToHead p name st = (p\<lparr>headNode := Some a\<rparr>, st')"
    "dlist st' (Some a) (a # xs)" "same_info st st'"
    "\<And>b. b \<notin> insert a (set xs) \<Longrightarrow> st_item st' b = st_item st b"
proof -
  have k: "distinct xs" "dseg (st_item st) None xs None" "headNode p = first_or xs None" using l by (auto simp: dlist_def)
  have "headNode p \<noteq> Some a" using k(3) a(2) first_or_split(2) by force
  note m = moveNodeInfoToHead_eq[OF a(1) this, of st, unfolded u]
  note lk = link_head_dseg[OF a(2) k]
  show ?thesis using lk k a(2) by (intro that[OF m]) (auto simp: dlist_def)
qed

lemma removeNodeInfoFromList_member:
  assumes l: "dlist st (headNode p) xs" and a: "fmlookup (pi_nodes p) name = Some a" "a \<in> set xs"
  obtains st' h where "removeNodeInfoFromList p name st = (p\<lparr>headNode := h, pi_nodes := fmdrop name (pi_nodes p)\<rparr>, st')"
    "dlist st' h (remove1 a xs)" "same_info st st'" "st_item st' a = st_item st a"
    "\<And>b. b \<notin> set xs \<Longrightarrow> st_item st' b = st_item st b"
proof -
  obtain us vs where xs: "xs = us @ a # vs" "a \<notin> set us" using a(2) by (metis split_list_first)
  have r: "remove1 a xs = us @ vs" using xs by (simp add: remove1_append)
  have d: "distinct (us @ a # vs)" "dseg (st_item st) None (us @ a # vs) None" using l xs by (auto simp: dlist_def)
  note u = unlink_dlist[OF d]
  let ?st' = "unlink a st"
  let ?h = "if Some a = headNode p then li_next (st_item ?st' a) else headNode p"
  have aa: "st_item ?st' a = st_item st a" using u(2) d(1) by simp
  have h: "?h = first_or (us @ vs) None"
    using l d xs unfolding aa by (cases us) (auto simp: dlist_def dseg_append)
  show ?thesis
  proof (rule that[of ?h ?st'])
    show "removeNodeInfoFromList p name st = (p\<lparr>headNode := ?h, pi_nodes := fmdrop name (pi_nodes p)\<rparr>, ?st')"
      using a by (simp add: removeNodeInfoFromList_def Let_def)
    show "dlist ?st' ?h (remove1 a xs)" using u(1) d(1) by (simp add: dlist_def r h)
    show "same_info st ?st'" by (rule same_info_unlink)
  qed (use aa u(2) xs in auto)
qed

subsection \<open>The nodes of a pool\<close>

text \<open>The map and the list hold the same items; each name has its own item.\<close>

definition list_inv :: "PoolInfo \<Rightarrow> store \<Rightarrow> nat list \<Rightarrow> bool" where
  "list_inv p st xs \<longleftrightarrow> dlist st (headNode p) xs \<and> fset (fmran (pi_nodes p)) = set xs \<and>
     inj_on (fmlookup (pi_nodes p)) (fset (fmdom (pi_nodes p))) \<and> (\<forall>a\<in>set xs. a < st_fresh st)"

lemma list_inv_lookup: "list_inv p st xs \<Longrightarrow> fmlookup (pi_nodes p) name = Some a \<Longrightarrow> a \<in> set xs"
  unfolding list_inv_def by (metis fmranI)

lemma list_inv_named:
  assumes "list_inv p st xs" "a \<in> set xs"
  obtains name where "fmlookup (pi_nodes p) name = Some a"
  using assms unfolding list_inv_def by (metis fmranE)

lemma list_inv_inj:
  "list_inv p st xs \<Longrightarrow> fmlookup (pi_nodes p) n = Some a \<Longrightarrow> fmlookup (pi_nodes p) m = Some a \<Longrightarrow> n = m"
  unfolding list_inv_def by (metis fmdomI inj_onD)

lemma dlist_irrelevant [simp]:
  "dlist (set_info a ni st) h xs = dlist st h xs" "dlist (st\<lparr>st_globals := g\<rparr>) h xs = dlist st h xs"
  "dlist (st\<lparr>st_fresh := k\<rparr>) h xs = dlist st h xs"
proof -
  have "dseg (st_item (set_info a ni st)) None xs None = dseg (st_item st) None xs None"
    by (rule dseg_cong) (simp add: set_info_def)
  then show "dlist (set_info a ni st) h xs = dlist st h xs" by (simp add: dlist_def)
qed (simp_all add: dlist_def)

lemma info_of_simps [simp]:
  "info_of (set_info a ni st) b = (if b = a then ni else info_of st b)"
  "info_of (st\<lparr>st_globals := g\<rparr>) b = info_of st b"
  "st_globals (set_info a ni st) = st_globals st" "st_fresh (set_info a ni st) = st_fresh st"
  by (auto simp: info_of_def set_info_def)

lemma unlink_alone: "li_prev (st_item st a) = None \<Longrightarrow> li_next (st_item st a) = None \<Longrightarrow> unlink a st = st"
  by (simp add: unlink_def)

text \<open>The item of a name, found or created, is ready to be moved to the head.\<close>

definition item_ready :: "PoolInfo \<Rightarrow> store \<Rightarrow> nat list \<Rightarrow> string \<Rightarrow> nat \<Rightarrow> bool" where
  "item_ready p st xs name a \<longleftrightarrow> fmlookup (pi_nodes p) name = Some a \<and> dlist st (headNode p) xs \<and>
     (a \<in> set xs \<or> li_prev (st_item st a) = None \<and> li_next (st_item st a) = None) \<and> fset (fmran (pi_nodes p)) = insert a (set xs) \<and>
     inj_on (fmlookup (pi_nodes p)) (fset (fmdom (pi_nodes p))) \<and> (\<forall>b\<in>insert a (set xs). b < st_fresh st)"

lemma item_ready_set_info: "item_ready p st xs name a \<Longrightarrow> item_ready p (set_info a ni (st\<lparr>st_globals := g\<rparr>)) xs name a"
  by (auto simp: item_ready_def) (auto simp: set_info_def)

lemma set_remove1_insert: "distinct xs \<Longrightarrow> set (a # remove1 a xs) = insert a (set xs)"
  by auto

lemma item_ready_move:
  assumes "item_ready p st xs name a"
  obtains st' where "moveNodeInfoToHead p name st = (p\<lparr>headNode := Some a\<rparr>, st')"
    "list_inv (p\<lparr>headNode := Some a\<rparr>) st' (a # remove1 a xs)" "same_info st st'"
    "\<And>b. b \<notin> insert a (set xs) \<Longrightarrow> st_item st' b = st_item st b"
proof -
  note r = assms[unfolded item_ready_def]
  have d: "distinct xs" using r by (simp add: dlist_def)
  have l: "dlist st (headNode p) xs" and a: "fmlookup (pi_nodes p) name = Some a" using r by auto
  have "\<exists>st'. moveNodeInfoToHead p name st = (p\<lparr>headNode := Some a\<rparr>, st') \<and>
    dlist st' (Some a) (a # remove1 a xs) \<and> same_info st st' \<and> (\<forall>b. b \<notin> insert a (set xs) \<longrightarrow> st_item st' b = st_item st b)"
  proof (cases "a \<in> set xs")
    case True
    show ?thesis by (rule moveNodeInfoToHead_member[OF l a True]) auto
  next
    case False
    then have "unlink a st = st" using r by (simp add: unlink_alone)
    with l a False show ?thesis by (elim moveNodeInfoToHead_fresh[of st p xs name a]) (auto simp: remove1_idem)
  qed
  then obtain st' where st': "moveNodeInfoToHead p name st = (p\<lparr>headNode := Some a\<rparr>, st')"
    "dlist st' (Some a) (a # remove1 a xs)" "same_info st st'"
    "\<And>b. b \<notin> insert a (set xs) \<Longrightarrow> st_item st' b = st_item st b" by blast
  have "list_inv (p\<lparr>headNode := Some a\<rparr>) st' (a # remove1 a xs)"
    using r st'(2,3) set_remove1_insert[OF d, of a] unfolding list_inv_def by (simp add: same_info_def)
  then show ?thesis using st' that by blast
qed

lemma fmran_fmupd_new: "fmlookup m k = None \<Longrightarrow> fset (fmran (fmupd k v m)) = insert v (fset (fmran m))"
  by (auto simp: fmlookup_ran_iff split: if_splits) (metis option.distinct(1))

lemma inj_fmupd_new:
  assumes "inj_on (fmlookup m) (fset (fmdom m))" "v \<notin> fset (fmran m)"
  shows "inj_on (fmlookup (fmupd k v m)) (fset (fmdom (fmupd k v m)))"
  using assms by (auto simp: inj_on_def fmlookup_ran_iff)

lemma ensure_item_ready:
  assumes l: "list_inv p st xs" and e: "ensure_item L p name st = (a, p1, st1)"
  shows "item_ready p1 st1 xs name a" "p1 = p\<lparr>pi_nodes := fmupd name a (pi_nodes p)\<rparr>"
    "\<And>b. b \<noteq> st_fresh st \<Longrightarrow> st_item st1 b = st_item st b"
    "a \<in> set xs \<longleftrightarrow> fmlookup (pi_nodes p) name = Some a"
    "case fmlookup (pi_nodes p) name of Some b \<Rightarrow> a = b \<and> st1 = st
     | None \<Rightarrow> a = st_fresh st \<and> NewNodeInfo L [] (st_globals st) = (info_of st1 a, st_globals st1) \<and>
         st_fresh st1 = st_fresh st + 1"
proof -
  note li = l[unfolded list_inv_def]
  have "item_ready p1 st1 xs name a \<and> p1 = p\<lparr>pi_nodes := fmupd name a (pi_nodes p)\<rparr> \<and>
    (\<forall>b. b \<noteq> st_fresh st \<longrightarrow> st_item st1 b = st_item st b) \<and>
    (a \<in> set xs \<longleftrightarrow> fmlookup (pi_nodes p) name = Some a) \<and>
    (case fmlookup (pi_nodes p) name of Some b \<Rightarrow> a = b \<and> st1 = st
     | None \<Rightarrow> a = st_fresh st \<and> NewNodeInfo L [] (st_globals st) = (info_of st1 a, st_globals st1) \<and>
         st_fresh st1 = st_fresh st + 1)"
  proof (cases "fmlookup (pi_nodes p) name")
    case (Some b)
    then have eq: "a = b" "p1 = p" "st1 = st" using e by (auto simp: ensure_item_def)
    have b: "b \<in> set xs" using list_inv_lookup[OF l Some] .
    then show ?thesis using li Some by (auto simp: eq item_ready_def fmupd_triv)
  next
    case None
    obtain ni g where n: "NewNodeInfo L [] (st_globals st) = (ni, g)" by fastforce
    let ?st1 = "st\<lparr>st_globals := g, st_item := (st_item st)(st_fresh st := \<lparr>li_info = ni, li_next = None, li_prev = None\<rparr>),
        st_fresh := st_fresh st + 1\<rparr>"
    have eq: "a = st_fresh st" "p1 = p\<lparr>pi_nodes := fmupd name a (pi_nodes p)\<rparr>" "st1 = ?st1"
      using e None n by (auto simp: ensure_item_def newNodeInfoListItem_def)
    have a: "a \<notin> set xs" using li eq(1) by auto
    have "dseg (st_item ?st1) None xs None = dseg (st_item st) None xs None"
      using a eq(1) by (intro dseg_cong) auto
    then have "dlist st1 (headNode p) xs" using li eq(3) by (simp add: dlist_def)
    moreover have "fset (fmran (pi_nodes p1)) = insert a (set xs)"
      using fmran_fmupd_new[OF None] li eq(2) by simp
    moreover have "inj_on (fmlookup (pi_nodes p1)) (fset (fmdom (pi_nodes p1)))"
      using inj_fmupd_new[of "pi_nodes p" a name] li eq(2) a by simp
    moreover have "\<forall>b\<in>insert a (set xs). b < st_fresh st1" using li eq by auto
    ultimately have "item_ready p1 st1 xs name a" using eq by (simp add: item_ready_def)
    then show ?thesis using None n a eq by (auto simp: info_of_def)
  qed
  then show "item_ready p1 st1 xs name a" "p1 = p\<lparr>pi_nodes := fmupd name a (pi_nodes p)\<rparr>"
    "\<And>b. b \<noteq> st_fresh st \<Longrightarrow> st_item st1 b = st_item st b"
    "a \<in> set xs \<longleftrightarrow> fmlookup (pi_nodes p) name = Some a"
    "case fmlookup (pi_nodes p) name of Some b \<Rightarrow> a = b \<and> st1 = st
     | None \<Rightarrow> a = st_fresh st \<and> NewNodeInfo L [] (st_globals st) = (info_of st1 a, st_globals st1) \<and>
         st_fresh st1 = st_fresh st + 1"
    by blast+
qed

subsection \<open>Contents, totals and generations\<close>

text \<open>The abstract contents of a pool: the multisets of its pods and nodes.\<close>

definition node_mset :: "NodeInfo \<Rightarrow> Node multiset" where
  "node_mset ni = (case ni_node ni of None \<Rightarrow> {#} | Some nd \<Rightarrow> {#nd#})"

definition pool_pods :: "store \<Rightarrow> nat set \<Rightarrow> Pod multiset" where
  "pool_pods st A = (\<Sum>a\<in>A. mset (ni_pods (info_of st a)))"

definition pool_nodes :: "store \<Rightarrow> nat set \<Rightarrow> Node multiset" where
  "pool_nodes st A = (\<Sum>a\<in>A. node_mset (info_of st a))"

definition pool_weight :: "k8s \<Rightarrow> Pod \<Rightarrow> dim \<Rightarrow> int64" where
  "pool_weight L pod d = request_amount L pod d + (if d = PodCount then 1 else 0)"

definition sums_inv :: "k8s \<Rightarrow> PoolInfo \<Rightarrow> Pod multiset \<Rightarrow> Node multiset \<Rightarrow> bool" where
  "sums_inv L p P N \<longleftrightarrow>
     (\<forall>d. amount (pi_used p) d = (\<Sum>q\<in>#P. pool_weight L q d)) \<and>
     (\<forall>d. amount (pi_shared p) d = (\<Sum>q\<in>#filter_mset (\<lambda>q. \<not> MatchPod p q) P. pool_weight L q d)) \<and>
     (\<forall>d. amount (pi_capacity p) d = (\<Sum>nd\<in>#N. list_amount L (node_Capacity nd) d)) \<and>
     (\<forall>d. amount (pi_allocatable p) d = (\<Sum>nd\<in>#N. list_amount L (node_Allocatable nd) d)) \<and>
     tree_inv (nodeTree p) \<and> members (nodeTree p) = (\<lambda>nd. (GetZoneKey L nd, node_Name nd)) ` set_mset N"

definition item_ok :: "k8s \<Rightarrow> string \<Rightarrow> NodeInfo \<Rightarrow> bool" where
  "item_ok L name ni \<longleftrightarrow> ni_inv L ni \<and> uids_ok (ni_pods ni) \<and> ports_disjoint (ni_pods ni) \<and>
     (\<forall>q\<in>set (ni_pods ni). pod_NodeName q = name) \<and> (\<forall>nd. ni_node ni = Some nd \<longrightarrow> node_Name nd = name)"

definition items_inv :: "k8s \<Rightarrow> PoolInfo \<Rightarrow> store \<Rightarrow> bool" where
  "items_inv L p st \<longleftrightarrow> (\<forall>name a. fmlookup (pi_nodes p) name = Some a \<longrightarrow> item_ok L name (info_of st a))"

definition pool_inv :: "k8s \<Rightarrow> PoolInfo \<Rightarrow> store \<Rightarrow> nat list \<Rightarrow> bool" where
  "pool_inv L p st xs \<longleftrightarrow> list_inv p st xs \<and> items_inv L p st \<and>
     sums_inv L p (pool_pods st (set xs)) (pool_nodes st (set xs))"

text \<open>The list is ordered by generation, and what is not newer than the snapshot is in it.\<close>

definition gen_inv :: "PoolInfo \<Rightarrow> store \<Rightarrow> nat list \<Rightarrow> bool" where
  "gen_inv p st xs \<longleftrightarrow>
     sorted_wrt (\<lambda>a b. ni_generation (info_of st b) <s ni_generation (info_of st a)) xs \<and>
     (\<forall>a\<in>set xs. ni_generation (info_of st a) \<le>s generation (st_globals st)) \<and>
     snap_Generation (nodeInfoSnapshot p) \<le>s generation (st_globals st) \<and>
     (\<forall>a\<in>set xs. ni_generation (info_of st a) \<le>s snap_Generation (nodeInfoSnapshot p) \<longrightarrow>
        (\<forall>nd. ni_node (info_of st a) = Some nd \<longrightarrow>
           fmlookup (NodeInfoMap (nodeInfoSnapshot p)) (node_Name nd) = Some (info_of st a)))"

text \<open>Room for two more generations before the counter wraps.\<close>

definition gen_room :: "store \<Rightarrow> bool" where
  "gen_room st \<longleftrightarrow> sint (generation (st_globals st)) + 2 < 2 ^ 63"

lemma sint_add_small:
  fixes x :: int64 assumes "sint x + k < 2 ^ 63" "0 \<le> k"
  shows "sint (x + word_of_int k) = sint x + k"
proof -
  have "- (2 ^ 63) \<le> sint x" using sint_ge[of x] by simp
  then have "signed_take_bit 63 (sint x + k) = sint x + k"
    using assms by (intro signed_take_bit_int_eq_self) auto
  moreover have "x + word_of_int k = word_of_int (sint x + k)" by simp
  moreover have "sint (word_of_int i :: int64) = signed_take_bit 63 i" for i by (simp add: sint_sbintrunc')
  ultimately show ?thesis by metis
qed

lemma gen_room_less:
  assumes "gen_room st"
  shows "generation (st_globals st) <s generation (st_globals st) + 1"
    "generation (st_globals st) <s generation (st_globals st) + 1 + 1"
  using assms sint_add_small[of "generation (st_globals st)" 1] sint_add_small[of "generation (st_globals st)" 2]
  by (simp_all add: gen_room_def word_sless_alt add.commute)

lemma sorted_wrt_remove1: "sorted_wrt P xs \<Longrightarrow> sorted_wrt P (remove1 a xs)"
  by (induction xs) (auto dest: notin_set_remove1 in_set_remove1[THEN iffD1] set_remove1_subset[THEN subsetD])

lemma gen_inv_touch:
  assumes g: "gen_inv p st xs" and d: "distinct xs"
    and same: "\<And>b. b \<in> set xs \<Longrightarrow> b \<noteq> a \<Longrightarrow> info_of st' b = info_of st b"
    and gen: "ni_generation (info_of st' a) = generation (st_globals st')"
      "generation (st_globals st) <s generation (st_globals st')"
    and snap: "nodeInfoSnapshot p' = nodeInfoSnapshot p"
  shows "gen_inv p' st' (a # remove1 a xs)"
proof -
  let ?c = "generation (st_globals st)" and ?c' = "generation (st_globals st')"
  let ?ys = "remove1 a xs" and ?n = "nodeInfoSnapshot p"
  have so: "sorted_wrt (\<lambda>a b. ni_generation (info_of st b) <s ni_generation (info_of st a)) xs"
    and le: "\<And>b. b \<in> set xs \<Longrightarrow> ni_generation (info_of st b) \<le>s ?c" and sc: "snap_Generation ?n \<le>s ?c"
    and sn: "\<And>b nd. b \<in> set xs \<Longrightarrow> ni_generation (info_of st b) \<le>s snap_Generation ?n \<Longrightarrow>
      ni_node (info_of st b) = Some nd \<Longrightarrow> fmlookup (NodeInfoMap ?n) (node_Name nd) = Some (info_of st b)"
    using g by (auto simp: gen_inv_def)
  have ys: "b \<in> set xs \<and> b \<noteq> a" if "b \<in> set ?ys" for b using that d by auto
  have i: "info_of st' b = info_of st b" if "b \<in> set ?ys" for b using ys[OF that] same by blast
  have lt: "ni_generation (info_of st b) <s ?c'" if "b \<in> set ?ys" for b
    using le[of b] ys[OF that] gen(2) by (blast intro: signed.le_less_trans)
  have sl: "snap_Generation ?n <s ?c'" using sc gen(2) by (rule signed.le_less_trans)
  show ?thesis unfolding gen_inv_def snap
  proof (intro conjI ballI impI allI)
    have "sorted_wrt (\<lambda>a b. ni_generation (info_of st' b) <s ni_generation (info_of st' a)) ?ys"
      by (rule sorted_wrt_mono_rel[OF _ sorted_wrt_remove1[OF so]]) (simp add: i)
    then show "sorted_wrt (\<lambda>a b. ni_generation (info_of st' b) <s ni_generation (info_of st' a)) (a # ?ys)"
      by (simp add: i gen(1) lt)
    show "snap_Generation ?n \<le>s ?c'" using sl by (rule signed.less_imp_le)
  next
    fix b assume b: "b \<in> set (a # ?ys)"
    show "ni_generation (info_of st' b) \<le>s ?c'"
      using b i gen(1) lt by (cases "b = a") (auto intro: signed.less_imp_le)
  next
    fix b nd assume b: "b \<in> set (a # ?ys)" and
      s: "ni_generation (info_of st' b) \<le>s snap_Generation ?n" "ni_node (info_of st' b) = Some nd"
    have "b \<noteq> a"
    proof
      assume "b = a"
      then have "?c' \<le>s snap_Generation ?n" using s(1) gen(1) by metis
      from signed.leD[OF this] sl show False by blast
    qed
    then have "b \<in> set ?ys" using b by simp
    then show "fmlookup (NodeInfoMap ?n) (node_Name nd) = Some (info_of st' b)"
      using sn[of b nd] ys[of b] s unfolding i[OF \<open>b \<in> set ?ys\<close>] by blast
  qed
qed

subsection \<open>Operations on one item\<close>

lemma finite_sum_update:
  fixes f g :: "nat \<Rightarrow> 'b::cancel_comm_monoid_add"
  assumes "finite A" "a \<in> A" "\<And>b. b \<in> A \<Longrightarrow> b \<noteq> a \<Longrightarrow> g b = f b"
  shows "sum g A + f a = sum f A + g a"
proof -
  have "sum g (A - {a}) = sum f (A - {a})" using assms(3) by (intro sum.cong) auto
  then show ?thesis using sum.remove[OF assms(1,2), of f] sum.remove[OF assms(1,2), of g]
    by (simp add: add.commute add.left_commute)
qed

lemma pool_contents_update:
  assumes "finite A" "a \<in> A" "\<And>b. b \<in> A \<Longrightarrow> b \<noteq> a \<Longrightarrow> info_of st' b = info_of st b"
  shows "pool_pods st' A + mset (ni_pods (info_of st a)) = pool_pods st A + mset (ni_pods (info_of st' a))"
    "pool_nodes st' A + node_mset (info_of st a) = pool_nodes st A + node_mset (info_of st' a)"
  unfolding pool_pods_def pool_nodes_def using assms by (auto intro!: finite_sum_update)

lemma pool_contents_cong:
  assumes "\<And>b. b \<in> A \<Longrightarrow> info_of st' b = info_of st b"
  shows "pool_pods st' A = pool_pods st A" "pool_nodes st' A = pool_nodes st A"
  unfolding pool_pods_def pool_nodes_def using assms by (auto intro!: sum.cong)

lemma pool_contents_insert_empty:
  assumes "finite A" "ni_pods (info_of st a) = []" "ni_node (info_of st a) = None"
  shows "pool_pods st (insert a A) = pool_pods st A" "pool_nodes st (insert a A) = pool_nodes st A"
  using assms by (auto simp: pool_pods_def pool_nodes_def node_mset_def sum.insert_if insert_absorb)

text \<open>Finding or creating the item of a name keeps the contents.\<close>

lemma ensure_item_contents:
  assumes l: "list_inv p st xs" and it: "items_inv L p st" and e: "ensure_item L p name st = (a, p1, st1)"
  shows "pool_pods st1 (insert a (set xs)) = pool_pods st (set xs)"
    "pool_nodes st1 (insert a (set xs)) = pool_nodes st (set xs)" "items_inv L p1 st1"
    "a \<notin> set xs \<Longrightarrow> ni_pods (info_of st1 a) = [] \<and> ni_node (info_of st1 a) = None"
    "\<And>b. b \<in> set xs \<Longrightarrow> info_of st1 b = info_of st b"
    "generation (st_globals st1) = generation (st_globals st) \<or>
     generation (st_globals st1) = generation (st_globals st) + 1"
proof -
  note r = ensure_item_ready[OF l e]
  have fr: "\<And>b. b \<in> set xs \<Longrightarrow> b < st_fresh st" using l by (simp add: list_inv_def)
  show same: "info_of st1 b = info_of st b" if "b \<in> set xs" for b
    using r(3)[of b] fr[OF that] by (simp add: info_of_def)
  have new: "NewNodeInfo L [] (st_globals st) = (info_of st1 a, st_globals st1)" if "a \<notin> set xs"
    using that r(4,5) list_inv_lookup[OF l] by (auto split: option.splits)
  show em: "ni_pods (info_of st1 a) = [] \<and> ni_node (info_of st1 a) = None" if "a \<notin> set xs"
    using NewNodeInfo_empty_facts[OF new[OF that]] by simp
  show "pool_pods st1 (insert a (set xs)) = pool_pods st (set xs)"
    "pool_nodes st1 (insert a (set xs)) = pool_nodes st (set xs)"
    using pool_contents_insert_empty[of "set xs" st1 a] em pool_contents_cong[of "set xs" st1 st] same
    by (cases "a \<in> set xs"; simp add: insert_absorb)+
  show "items_inv L p1 st1"
    unfolding items_inv_def
  proof (intro allI impI)
    fix n b assume nb: "fmlookup (pi_nodes p1) n = Some b"
    show "item_ok L n (info_of st1 b)"
    proof (cases "b \<in> set xs")
      case True
      have "fmlookup (pi_nodes p) n = Some b"
      proof (cases "n = name")
        case True
        then have "a = b" using nb r(2) by simp
        then show ?thesis using r(4) \<open>b \<in> set xs\<close> True by simp
      qed (use nb r(2) in simp)
      then show ?thesis using it True same by (simp add: items_inv_def)
    next
      case False
      then have "b = a" using nb r(2) list_inv_lookup[OF l] by (auto split: if_splits)
      then show ?thesis using False NewNodeInfo_empty_facts(1-3)[OF new]
        by (simp add: item_ok_def uids_ok_def ports_disjoint_def)
    qed
  qed
  show "generation (st_globals st1) = generation (st_globals st) \<or>
     generation (st_globals st1) = generation (st_globals st) + 1"
    using r(4,5) NewNodeInfo_empty_facts(5)[OF new] list_inv_lookup[OF l]
    by (cases "a \<in> set xs") (auto split: option.splits)
qed

text \<open>The frame of the invariants: which fields each of them reads.\<close>

definition same_nodes :: "PoolInfo \<Rightarrow> PoolInfo \<Rightarrow> bool" where
  "same_nodes p q \<longleftrightarrow> pi_nodes q = pi_nodes p \<and> headNode q = headNode p \<and> nodeInfoSnapshot q = nodeInfoSnapshot p"

lemma same_nodes_frame:
  assumes "same_nodes p q"
  shows "list_inv q st xs = list_inv p st xs" "items_inv L q st = items_inv L p st"
    "gen_inv q st xs = gen_inv p st xs"
  using assms by (simp_all add: same_nodes_def list_inv_def items_inv_def gen_inv_def)

definition same_sums :: "PoolInfo \<Rightarrow> PoolInfo \<Rightarrow> bool" where
  "same_sums p q \<longleftrightarrow> pi_used q = pi_used p \<and> pi_shared q = pi_shared p \<and> pi_capacity q = pi_capacity p \<and>
     pi_allocatable q = pi_allocatable p \<and> nodeTree q = nodeTree p \<and> pi_pool q = pi_pool p"

lemma MatchPod_pool: "pi_pool q = pi_pool p \<Longrightarrow> MatchPod q = MatchPod p"
  by (simp add: MatchPod_def PoolInfo_Name_def fun_eq_iff)

lemma same_sums_frame: "same_sums p q \<Longrightarrow> sums_inv L q P N = sums_inv L p P N"
  using MatchPod_pool[of q p] by (simp add: same_sums_def sums_inv_def)

lemma pod_resource_frame:
  "same_nodes p (plusPodResource L p pod)" "same_nodes p (reducePodResource L p pod)"
  "pi_pool (plusPodResource L p pod) = pi_pool p" "pi_pool (reducePodResource L p pod) = pi_pool p"
  by (auto simp: same_nodes_def plusPodResource_def reducePodResource_def Let_def)

lemma pod_resource_amounts:
  "amount (pi_used (plusPodResource L p pod)) d = amount (pi_used p) d + pool_weight L pod d"
  "amount (pi_shared (plusPodResource L p pod)) d =
     amount (pi_shared p) d + (if MatchPod p pod then 0 else pool_weight L pod d)"
  "amount (pi_used (reducePodResource L p pod)) d = amount (pi_used p) d - pool_weight L pod d"
  "amount (pi_shared (reducePodResource L p pod)) d =
     amount (pi_shared p) d - (if MatchPod p pod then 0 else pool_weight L pod d)"
proof -
  have m: "MatchPod (p\<lparr>pi_used := r\<rparr>) = MatchPod p" for r by (rule MatchPod_pool) simp
  have w: "amount (GetResourceRequestForPool L pod) d = pool_weight L pod d"
    by (simp add: amount_GetResourceRequestForPool pool_weight_def)
  show "amount (pi_used (plusPodResource L p pod)) d = amount (pi_used p) d + pool_weight L pod d"
    "amount (pi_shared (plusPodResource L p pod)) d =
     amount (pi_shared p) d + (if MatchPod p pod then 0 else pool_weight L pod d)"
    "amount (pi_used (reducePodResource L p pod)) d = amount (pi_used p) d - pool_weight L pod d"
    "amount (pi_shared (reducePodResource L p pod)) d =
     amount (pi_shared p) d - (if MatchPod p pod then 0 else pool_weight L pod d)"
    by (simp_all add: plusPodResource_def reducePodResource_def Let_def m w)
qed

lemma pod_resource_fixed:
  "pi_capacity (plusPodResource L p pod) = pi_capacity p" "pi_capacity (reducePodResource L p pod) = pi_capacity p"
  "pi_allocatable (plusPodResource L p pod) = pi_allocatable p"
  "pi_allocatable (reducePodResource L p pod) = pi_allocatable p"
  "nodeTree (plusPodResource L p pod) = nodeTree p" "nodeTree (reducePodResource L p pod) = nodeTree p"
  by (auto simp: plusPodResource_def reducePodResource_def Let_def)

lemma sums_inv_plus: "sums_inv L p P N \<Longrightarrow> sums_inv L (plusPodResource L p pod) (add_mset pod P) N"
  by (simp add: sums_inv_def pod_resource_amounts pod_resource_fixed MatchPod_pool[OF pod_resource_frame(3)]
      add.commute)

lemma sums_inv_reduce: "sums_inv L p (add_mset pod P) N \<Longrightarrow> sums_inv L (reducePodResource L p pod) P N"
  by (auto simp: sums_inv_def pod_resource_amounts pod_resource_fixed MatchPod_pool[OF pod_resource_frame(4)])

lemma pool_touch:
  assumes inv: "pool_inv L p st xs" and g: "gen_inv p st xs" and room: "gen_room st"
    and e: "ensure_item L p name st = (a, p1, st1)"
    and l: "list_inv p2 st3 (a # remove1 a xs)" and p2: "p2 = p1\<lparr>headNode := Some a\<rparr>"
    and other: "\<forall>b. b \<noteq> a \<longrightarrow> info_of st3 b = info_of st1 b"
    and ok: "item_ok L name (info_of st3 a)"
    and gen: "ni_generation (info_of st3 a) = generation (st_globals st1) + 1"
      "generation (st_globals st3) = generation (st_globals st1) + 1"
  shows "items_inv L p2 st3" "gen_inv p2 st3 (a # remove1 a xs)"
    "pool_pods st3 (set (a # remove1 a xs)) + mset (ni_pods (info_of st1 a)) =
       pool_pods st (set xs) + mset (ni_pods (info_of st3 a))"
    "pool_nodes st3 (set (a # remove1 a xs)) + node_mset (info_of st1 a) =
       pool_nodes st (set xs) + node_mset (info_of st3 a)"
    "same_sums p p2"
proof -
  have li: "list_inv p st xs" and it: "items_inv L p st" using inv by (auto simp: pool_inv_def)
  have d: "distinct xs" using li by (simp add: list_inv_def dlist_def)
  note r = ensure_item_ready[OF li e] and c = ensure_item_contents[OF li it e]
  show "items_inv L p2 st3" unfolding items_inv_def
  proof (intro allI impI)
    fix n b assume nb: "fmlookup (pi_nodes p2) n = Some b"
    show "item_ok L n (info_of st3 b)"
    proof (cases "b = a")
      case True
      have "fmlookup (pi_nodes p2) name = Some a" by (simp add: p2 r(2))
      then have "n = name" using nb True list_inv_inj[OF l] by metis
      then show ?thesis using ok True by simp
    next
      case False
      then show ?thesis using c(3) nb other by (simp add: items_inv_def p2)
    qed
  qed
  have "generation (st_globals st) <s generation (st_globals st3)"
    using c(6) gen(2) gen_room_less[OF room] by auto
  then show "gen_inv p2 st3 (a # remove1 a xs)"
    using other c(5) gen by (intro gen_inv_touch[OF g d]) (auto simp: p2 r(2))
  have s: "set (a # remove1 a xs) = insert a (set xs)" using d by (rule set_remove1_insert)
  show "pool_pods st3 (set (a # remove1 a xs)) + mset (ni_pods (info_of st1 a)) =
       pool_pods st (set xs) + mset (ni_pods (info_of st3 a))"
    "pool_nodes st3 (set (a # remove1 a xs)) + node_mset (info_of st1 a) =
       pool_nodes st (set xs) + node_mset (info_of st3 a)"
    unfolding s using pool_contents_update[of "insert a (set xs)" a st3 st1] other c(1,2) by auto
  show "same_sums p p2" by (simp add: same_sums_def p2 r(2))
qed

text \<open>\<open>AddPod\<close>: the pod's node name need not be known, and the pod must be new on that node.\<close>

definition pod_new :: "PoolInfo \<Rightarrow> store \<Rightarrow> Pod \<Rightarrow> bool" where
  "pod_new p st pod \<longleftrightarrow> pod_UID pod \<noteq> [] \<and>
     (\<forall>a. fmlookup (pi_nodes p) (pod_NodeName pod) = Some a \<longrightarrow> node_fresh (info_of st a, st_globals st) pod)"

lemma PoolInfo_AddPod_step:
  assumes inv: "pool_inv L p st xs" and g: "gen_inv p st xs" and room: "gen_room st" and new: "pod_new p st pod"
  obtains p' st' ys where "PoolInfo_AddPod L p pod st = (p', st')" "pool_inv L p' st' ys" "gen_inv p' st' ys"
    "pool_pods st' (set ys) = add_mset pod (pool_pods st (set xs))"
    "pool_nodes st' (set ys) = pool_nodes st (set xs)" "pi_pool p' = pi_pool p"
    "\<And>b. b \<notin> set xs \<Longrightarrow> b \<noteq> st_fresh st \<Longrightarrow> st_item st' b = st_item st b"
proof -
  have li: "list_inv p st xs" and it: "items_inv L p st" using inv by (auto simp: pool_inv_def)
  obtain a p1 st1 where e: "ensure_item L p (pod_NodeName pod) st = (a, p1, st1)" by (metis prod.exhaust)
  note r = ensure_item_ready[OF li e] and c = ensure_item_contents[OF li it e]
  obtain ni gl where n: "NodeInfo_AddPod L (info_of st1 a) pod (st_globals st1) = (ni, gl)" by fastforce
  note f = NodeInfo_AddPod_facts[OF n]
  let ?st2 = "set_info a ni (st1\<lparr>st_globals := gl\<rparr>)"
  obtain st3 where m: "moveNodeInfoToHead p1 (pod_NodeName pod) ?st2 = (p1\<lparr>headNode := Some a\<rparr>, st3)"
    "list_inv (p1\<lparr>headNode := Some a\<rparr>) st3 (a # remove1 a xs)" "same_info ?st2 st3"
    "\<And>b. b \<notin> insert a (set xs) \<Longrightarrow> st_item st3 b = st_item ?st2 b"
    using item_ready_move[OF item_ready_set_info[OF r(1)]] by metis
  let ?p2 = "p1\<lparr>headNode := Some a\<rparr>" and ?ys = "a # remove1 a xs"
  have i3: "info_of st3 b = (if b = a then ni else info_of st1 b)" for b
    using m(3) by (simp add: same_info_def)
  have g3: "st_globals st3 = gl" using m(3) by (simp add: same_info_def)
  have ok1: "item_ok L (pod_NodeName pod) (info_of st1 a)" using c(3) r(2) by (simp add: items_inv_def)
  have fr: "node_fresh (info_of st1 a, st_globals st1) pod"
    using new c(4,5) r(4) by (cases "a \<in> set xs") (auto simp: pod_new_def node_fresh_def)
  have "node_ok L (info_of st1 a, st_globals st1)" using ok1 by (simp add: node_ok_def item_ok_def)
  from add_step_ok[OF this fr] have "node_ok L (ni, gl)" by (simp add: add_step_def n)
  then have ok: "item_ok L (pod_NodeName pod) (info_of st3 a)"
    using ok1 f(1,2) by (auto simp: i3 node_ok_def item_ok_def)
  have gens: "ni_generation (info_of st3 a) = generation (st_globals st1) + 1"
    "generation (st_globals st3) = generation (st_globals st1) + 1"
    using f(3,4) by (simp_all add: i3 g3)
  have oth: "\<forall>b. b \<noteq> a \<longrightarrow> info_of st3 b = info_of st1 b" by (simp add: i3)
  note t = pool_touch[OF inv g room e m(2) refl oth ok gens]
  let ?p' = "plusPodResource L ?p2 pod"
  have pods: "pool_pods st3 (set ?ys) = add_mset pod (pool_pods st (set xs))"
    using t(3) f(1) by (simp add: i3)
  have nodes: "pool_nodes st3 (set ?ys) = pool_nodes st (set xs)"
    using t(4) f(2) by (simp add: i3 node_mset_def)
  have "sums_inv L ?p2 (pool_pods st (set xs)) (pool_nodes st (set xs))"
    using inv same_sums_frame[OF t(5)] by (simp add: pool_inv_def)
  from sums_inv_plus[OF this] have sums: "sums_inv L ?p' (pool_pods st3 (set ?ys)) (pool_nodes st3 (set ?ys))"
    by (simp only: pods nodes)
  show ?thesis
  proof (rule that[of ?p' st3 ?ys])
    show "PoolInfo_AddPod L p pod st = (?p', st3)" by (simp add: PoolInfo_AddPod_def e item_AddPod_def n m(1))
    show "pool_inv L ?p' st3 ?ys" using sums m(2) t(1)
      by (simp add: pool_inv_def same_nodes_frame[OF pod_resource_frame(1)])
    show "gen_inv ?p' st3 ?ys" using t(2) by (simp add: same_nodes_frame[OF pod_resource_frame(1)])
    show "pi_pool ?p' = pi_pool p" by (simp add: pod_resource_frame r(2))
    show "st_item st3 b = st_item st b" if "b \<notin> set xs" "b \<noteq> st_fresh st" for b
    proof -
      have "b \<noteq> a" using that r(5) list_inv_lookup[OF li] by (auto split: option.splits)
      then show ?thesis using m(4)[of b] r(3)[of b] that by (simp add: set_info_def)
    qed
  qed (fact pods nodes)+
qed

text \<open>Dropping an item from the list.\<close>

lemma gen_inv_drop:
  assumes g: "gen_inv p st xs"
    and same: "\<And>b. b \<in> set ys \<Longrightarrow> b \<in> set xs \<and> info_of st' b = info_of st b" and ys: "ys = remove1 a xs"
    and c: "generation (st_globals st) \<le>s generation (st_globals st')"
    and snap: "nodeInfoSnapshot p' = nodeInfoSnapshot p"
  shows "gen_inv p' st' ys"
proof -
  have "sorted_wrt (\<lambda>a b. ni_generation (info_of st b) <s ni_generation (info_of st a)) ys"
    using g sorted_wrt_remove1 by (auto simp: gen_inv_def ys)
  then have "sorted_wrt (\<lambda>a b. ni_generation (info_of st' b) <s ni_generation (info_of st' a)) ys"
    by (rule sorted_wrt_mono_rel[rotated]) (simp add: same)
  moreover have "\<forall>b\<in>set ys. ni_generation (info_of st' b) \<le>s generation (st_globals st')"
    using g same c by (auto simp: gen_inv_def intro: signed.order_trans)
  moreover have "snap_Generation (nodeInfoSnapshot p) \<le>s generation (st_globals st')"
    using g c by (auto simp: gen_inv_def intro: signed.order_trans)
  ultimately show ?thesis unfolding gen_inv_def snap using g same by (auto simp: gen_inv_def)
qed

lemma inj_fmdrop: "inj_on (fmlookup m) (fset (fmdom m)) \<Longrightarrow> inj_on (fmlookup (fmdrop k m)) (fset (fmdom (fmdrop k m)))"
  by (auto simp: inj_on_def)

lemma fmran_fmdrop:
  assumes "fmlookup m k = Some a" "inj_on (fmlookup m) (fset (fmdom m))"
  shows "fset (fmran (fmdrop k m)) = fset (fmran m) - {a}"
proof (rule set_eqI)
  fix x
  have "x \<in> fset (fmran (fmdrop k m)) \<longleftrightarrow> (\<exists>y. y \<noteq> k \<and> fmlookup m y = Some x)"
    by (auto simp: fmlookup_ran_iff simp del: fmran_drop split: if_splits)
  also have "\<dots> \<longleftrightarrow> x \<in> fset (fmran m) - {a}"
    using assms by (auto simp: fmlookup_ran_iff inj_on_def) (metis option.inject)
  finally show "x \<in> fset (fmran (fmdrop k m)) \<longleftrightarrow> x \<in> fset (fmran m) - {a}" .
qed

lemma removeNodeInfoFromList_inv:
  assumes l: "list_inv p st xs" and a: "fmlookup (pi_nodes p) name = Some a"
  obtains p' st' where "removeNodeInfoFromList p name st = (p', st')" "list_inv p' st' (remove1 a xs)"
    "same_info st st'" "same_sums p p'" "pi_nodes p' = fmdrop name (pi_nodes p)"
    "nodeInfoSnapshot p' = nodeInfoSnapshot p" "st_item st' a = st_item st a"
    "\<And>b. b \<notin> set xs \<Longrightarrow> st_item st' b = st_item st b"
proof -
  note li = l[unfolded list_inv_def]
  have ax: "a \<in> set xs" using list_inv_lookup[OF l a] .
  obtain st' h where r: "removeNodeInfoFromList p name st = (p\<lparr>headNode := h, pi_nodes := fmdrop name (pi_nodes p)\<rparr>, st')"
    "dlist st' h (remove1 a xs)" "same_info st st'" "st_item st' a = st_item st a"
    "\<And>b. b \<notin> set xs \<Longrightarrow> st_item st' b = st_item st b"
    using removeNodeInfoFromList_member[of st p xs name a] li a ax by metis
  have d: "distinct xs" using li by (simp add: dlist_def)
  have "list_inv (p\<lparr>headNode := h, pi_nodes := fmdrop name (pi_nodes p)\<rparr>) st' (remove1 a xs)"
    using r(2,3) li fmran_fmdrop[OF a] inj_fmdrop[of "pi_nodes p" name] d
    by (auto simp: list_inv_def same_info_def)
  with r show ?thesis by (intro that[OF r(1)]) (auto simp: same_sums_def)
qed

lemma update_or_drop:
  assumes inv: "pool_inv L p st xs" and g: "gen_inv p st xs" and room: "gen_room st"
    and a: "fmlookup (pi_nodes p) name = Some a" and ok: "item_ok L name ni"
    and gen: "ni_generation ni = generation (st_globals st) + 1" "generation gl = generation (st_globals st) + 1"
    and r: "drop_or_move p name a (set_info a ni (st\<lparr>st_globals := gl\<rparr>)) = (p2, st2)"
  obtains ys where "list_inv p2 st2 ys" "items_inv L p2 st2" "gen_inv p2 st2 ys" "same_sums p p2"
    "pool_pods st2 (set ys) + mset (ni_pods (info_of st a)) = pool_pods st (set xs) + mset (ni_pods ni)"
    "pool_nodes st2 (set ys) + node_mset (info_of st a) = pool_nodes st (set xs) + node_mset ni"
    "\<And>b. b \<notin> set xs \<Longrightarrow> st_item st2 b = st_item st b"
proof -
  have li: "list_inv p st xs" and it: "items_inv L p st" using inv by (auto simp: pool_inv_def)
  have ax: "a \<in> set xs" using list_inv_lookup[OF li a] .
  have d: "distinct xs" using li by (simp add: list_inv_def dlist_def)
  let ?st1 = "set_info a ni (st\<lparr>st_globals := gl\<rparr>)"
  have e: "ensure_item L p name st = (a, p, st)" using a by (simp add: ensure_item_def)
  note rd = ensure_item_ready[OF li e]
  show ?thesis
  proof (cases "length (ni_pods ni) = 0 \<and> ni_node ni = None")
    case False
    obtain st3 where m: "moveNodeInfoToHead p name ?st1 = (p\<lparr>headNode := Some a\<rparr>, st3)"
      "list_inv (p\<lparr>headNode := Some a\<rparr>) st3 (a # remove1 a xs)" "same_info ?st1 st3"
      "\<And>b. b \<notin> insert a (set xs) \<Longrightarrow> st_item st3 b = st_item ?st1 b"
      using item_ready_move[OF item_ready_set_info[OF rd(1)]] by metis
    have p2: "p2 = p\<lparr>headNode := Some a\<rparr>" "st2 = st3" using r False m(1) by (auto simp: drop_or_move_def)
    have i: "info_of st3 b = (if b = a then ni else info_of st b)" and "st_globals st3 = gl" for b
      using m(3) by (simp_all add: same_info_def)
    then have "item_ok L name (info_of st3 a)" "ni_generation (info_of st3 a) = generation (st_globals st) + 1"
      "generation (st_globals st3) = generation (st_globals st) + 1" "\<forall>b. b \<noteq> a \<longrightarrow> info_of st3 b = info_of st b"
      using ok gen by auto
    note t = pool_touch[OF inv g room e m(2) refl this(4,1,2,3)]
    show ?thesis
    proof (rule that[of "a # remove1 a xs"])
      show "st_item st2 b = st_item st b" if "b \<notin> set xs" for b
        using m(4)[of b] that ax p2 by (auto simp: set_info_def)
    qed (use t m(2) i p2 in auto)
  next
    case True
    let ?ys = "remove1 a xs"
    have l1: "list_inv p ?st1 xs" using li by (simp add: list_inv_def)
    obtain p3 st3 where m: "removeNodeInfoFromList p name ?st1 = (p3, st3)" "list_inv p3 st3 ?ys"
      "same_info ?st1 st3" "same_sums p p3" "pi_nodes p3 = fmdrop name (pi_nodes p)"
      "nodeInfoSnapshot p3 = nodeInfoSnapshot p" "\<And>b. b \<notin> set xs \<Longrightarrow> st_item st3 b = st_item ?st1 b"
      using removeNodeInfoFromList_inv[OF l1 a] by metis
    have p2: "p2 = p3" "st2 = st3" using r True m(1) by (auto simp: drop_or_move_def)
    have i: "info_of st3 b = (if b = a then ni else info_of st b)" and gl3: "st_globals st3 = gl" for b
      using m(3) by (simp_all add: same_info_def)
    have ys: "insert a (set ?ys) = set xs" using d ax by auto
    have "items_inv L p3 st3" unfolding items_inv_def
    proof (intro allI impI)
      fix n b assume nb: "fmlookup (pi_nodes p3) n = Some b"
      then have n: "n \<noteq> name" "fmlookup (pi_nodes p) n = Some b" by (auto simp: m(5) split: if_splits)
      then have "b \<noteq> a" using list_inv_inj[OF li a] by metis
      then show "item_ok L n (info_of st3 b)" using it n(2) by (simp add: items_inv_def i)
    qed
    moreover have "gen_inv p3 st3 ?ys"
      using d i gen gen_room_less(1)[OF room] m(6)
      by (intro gen_inv_drop[OF g _ refl]) (auto simp: gl3 intro: signed.less_imp_le)
    moreover have "pool_pods st3 (set xs) = pool_pods st3 (set ?ys)" "pool_nodes st3 (set xs) = pool_nodes st3 (set ?ys)"
      using pool_contents_insert_empty[of "set ?ys" st3 a] True i ys by auto
    moreover have "st_item st3 b = st_item st b" if "b \<notin> set xs" for b
      using m(7)[OF that] that ax by (auto simp: set_info_def)
    ultimately show ?thesis
      using m(2,4) pool_contents_update[of "set xs" a st3 st] ax i p2 by (intro that[of ?ys]) auto
  qed
qed

lemma PoolInfo_RemovePod_step:
  assumes inv: "pool_inv L p st xs" and g: "gen_inv p st xs" and room: "gen_room st"
    and pod: "pod \<in># pool_pods st (set xs)"
  obtains p' st' ys where "PoolInfo_RemovePod L p pod st = (p', st', None)" "pool_inv L p' st' ys" "gen_inv p' st' ys"
    "pool_pods st (set xs) = add_mset pod (pool_pods st' (set ys))"
    "pool_nodes st' (set ys) = pool_nodes st (set xs)" "pi_pool p' = pi_pool p"
    "\<And>b. b \<notin> set xs \<Longrightarrow> st_item st' b = st_item st b"
proof -
  have li: "list_inv p st xs" and it: "items_inv L p st" using inv by (auto simp: pool_inv_def)
  obtain b where b: "b \<in> set xs" "pod \<in> set (ni_pods (info_of st b))"
    using pod by (auto simp: pool_pods_def set_mset_sum)
  obtain name where nm: "fmlookup (pi_nodes p) name = Some b" using list_inv_named[OF li b(1)] .
  have ok0: "item_ok L name (info_of st b)" using it nm by (simp add: items_inv_def)
  then have name: "pod_NodeName pod = name" using b(2) by (simp add: item_ok_def)
  have a: "ni_inv L (info_of st b)" "uids_ok (ni_pods (info_of st b))" "ports_disjoint (ni_pods (info_of st b))"
    using ok0 by (auto simp: item_ok_def)
  obtain ni where n: "NodeInfo_RemovePod L (info_of st b) pod (st_globals st) =
        (ni, (st_globals st)\<lparr>generation := generation (st_globals st) + 1\<rparr>, None)"
      "mset (ni_pods (info_of st b)) = add_mset pod (mset (ni_pods ni))" "uids_ok (ni_pods ni)"
      "ni_node ni = ni_node (info_of st b)" "ni_generation ni = generation (st_globals st) + 1" "ni_inv L ni"
    using NodeInfo_RemovePod_present[OF a(1,2) b(2), of "st_globals st"] a(3) by metis
  have sub: "set (ni_pods ni) \<subseteq> set (ni_pods (info_of st b))"
    using n(2) by (metis set_mset_add_mset_insert set_mset_mset subset_insertI)
  have ok: "item_ok L name ni"
    using ok0 n(3,4,6) sub ports_disjoint_mset_sub[OF a(3) sub] by (auto simp: item_ok_def)
  let ?gl = "(st_globals st)\<lparr>generation := generation (st_globals st) + 1\<rparr>"
  obtain p2 st2 where r: "drop_or_move p name b (set_info b ni (st\<lparr>st_globals := ?gl\<rparr>)) = (p2, st2)"
    by fastforce
  have gl: "generation ?gl = generation (st_globals st) + 1" by simp
  obtain ys where u: "list_inv p2 st2 ys" "items_inv L p2 st2" "gen_inv p2 st2 ys" "same_sums p p2"
    "pool_pods st2 (set ys) + mset (ni_pods (info_of st b)) = pool_pods st (set xs) + mset (ni_pods ni)"
    "pool_nodes st2 (set ys) + node_mset (info_of st b) = pool_nodes st (set xs) + node_mset ni"
    "\<And>c. c \<notin> set xs \<Longrightarrow> st_item st2 c = st_item st c"
    using update_or_drop[OF inv g room nm ok n(5) gl r] by blast
  let ?p' = "reducePodResource L p2 pod"
  have pods: "pool_pods st (set xs) = add_mset pod (pool_pods st2 (set ys))" using u(5) n(2) by simp
  have nodes: "pool_nodes st2 (set ys) = pool_nodes st (set xs)" using u(6) n(4) by (simp add: node_mset_def)
  have "sums_inv L p2 (add_mset pod (pool_pods st2 (set ys))) (pool_nodes st2 (set ys))"
    using inv same_sums_frame[OF u(4)] by (simp add: pool_inv_def pods nodes)
  note sums = sums_inv_reduce[OF this]
  show ?thesis
  proof (rule that[of ?p' st2 ys])
    show "PoolInfo_RemovePod L p pod st = (?p', st2, None)"
      using r by (simp add: PoolInfo_RemovePod_def name nm n(1) Let_def)
    show "pool_inv L ?p' st2 ys" using sums u(1,2)
      by (simp add: pool_inv_def same_nodes_frame[OF pod_resource_frame(2)])
    show "gen_inv ?p' st2 ys" using u(3) by (simp add: same_nodes_frame[OF pod_resource_frame(2)])
    show "pi_pool ?p' = pi_pool p" using u(4) by (simp add: pod_resource_frame same_sums_def)
  qed (fact pods nodes u(7))+
qed

text \<open>Nodes of a pool are told apart by their names.\<close>

lemma in_pool_nodes: "finite A \<Longrightarrow> nd \<in># pool_nodes st A \<longleftrightarrow> (\<exists>a\<in>A. ni_node (info_of st a) = Some nd)"
  by (auto simp: pool_nodes_def set_mset_sum node_mset_def split: option.splits)

definition node_new :: "PoolInfo \<Rightarrow> store \<Rightarrow> string \<Rightarrow> bool" where
  "node_new p st name \<longleftrightarrow> (\<forall>a. fmlookup (pi_nodes p) name = Some a \<longrightarrow> ni_node (info_of st a) = None)"

lemma sums_inv_add_node:
  assumes "sums_inv L p P N" "tree_inv t" "members t = insert (GetZoneKey L nd, node_Name nd) (members (nodeTree p))"
    "\<And>d. amount c d = amount (pi_capacity p) d + list_amount L (node_Capacity nd) d"
    "\<And>d. amount al d = amount (pi_allocatable p) d + list_amount L (node_Allocatable nd) d"
  shows "sums_inv L (p\<lparr>nodeTree := t, pi_capacity := c, pi_allocatable := al\<rparr>) P (add_mset nd N)"
proof -
  have "MatchPod (p\<lparr>nodeTree := t, pi_capacity := c, pi_allocatable := al\<rparr>) = MatchPod p"
    by (rule MatchPod_pool) simp
  then show ?thesis using assms by (simp add: sums_inv_def add.commute)
qed

lemma sums_inv_remove_node:
  assumes "sums_inv L p P (add_mset nd N)" "tree_inv t"
    "members t = members (nodeTree p) - {(GetZoneKey L nd, node_Name nd)}" "\<forall>nd'\<in>#N. node_Name nd' \<noteq> node_Name nd"
    "\<And>d. amount c d = amount (pi_capacity p) d - list_amount L (node_Capacity nd) d"
    "\<And>d. amount al d = amount (pi_allocatable p) d - list_amount L (node_Allocatable nd) d"
  shows "sums_inv L (p\<lparr>nodeTree := t, pi_capacity := c, pi_allocatable := al\<rparr>) P N"
proof -
  have "MatchPod (p\<lparr>nodeTree := t, pi_capacity := c, pi_allocatable := al\<rparr>) = MatchPod p"
    by (rule MatchPod_pool) simp
  then show ?thesis using assms by (auto simp: sums_inv_def)
qed

lemma PoolInfo_AddNode_step:
  assumes inv: "pool_inv L p st xs" and g: "gen_inv p st xs" and room: "gen_room st"
    and new: "node_new p st (node_Name node)"
  obtains p' st' ys where "PoolInfo_AddNode L p node st = (p', st')" "pool_inv L p' st' ys" "gen_inv p' st' ys"
    "pool_pods st' (set ys) = pool_pods st (set xs)"
    "pool_nodes st' (set ys) = add_mset node (pool_nodes st (set xs))" "pi_pool p' = pi_pool p"
proof -
  have li: "list_inv p st xs" and it: "items_inv L p st" using inv by (auto simp: pool_inv_def)
  obtain a p1 st1 where e: "ensure_item L p (node_Name node) st = (a, p1, st1)" by (metis prod.exhaust)
  note r = ensure_item_ready[OF li e] and c = ensure_item_contents[OF li it e]
  obtain st2 where m: "moveNodeInfoToHead p1 (node_Name node) st1 = (p1\<lparr>headNode := Some a\<rparr>, st2)"
    "list_inv (p1\<lparr>headNode := Some a\<rparr>) st2 (a # remove1 a xs)" "same_info st1 st2"
    using item_ready_move[OF r(1)] by metis
  let ?p2 = "p1\<lparr>headNode := Some a\<rparr>" and ?ys = "a # remove1 a xs"
  obtain ni gl where n: "SetNode L (info_of st1 a) node (st_globals st1) = (ni, gl)" by fastforce
  note f = SetNode_facts[OF n]
  let ?st3 = "set_info a ni (st2\<lparr>st_globals := gl\<rparr>)"
  have s12: "info_of st2 b = info_of st1 b" "st_globals st2 = st_globals st1" for b
    using m(3) by (auto simp: same_info_def)
  have ok1: "item_ok L (node_Name node) (info_of st1 a)" using c(3) r(2) by (simp add: items_inv_def)
  have none: "ni_node (info_of st1 a) = None" using new c(4,5) r(4) by (cases "a \<in> set xs") (auto simp: node_new_def)
  have l3: "list_inv ?p2 ?st3 ?ys" using m(2) by (simp add: list_inv_def)
  have ok: "item_ok L (node_Name node) (info_of ?st3 a)" using ok1 f(1-3) by (simp add: item_ok_def)
  have gens: "ni_generation (info_of ?st3 a) = generation (st_globals st1) + 1"
    "generation (st_globals ?st3) = generation (st_globals st1) + 1" using f(4,5) by simp_all
  have oth: "\<forall>b. b \<noteq> a \<longrightarrow> info_of ?st3 b = info_of st1 b" using s12 by simp
  note t = pool_touch[OF inv g room e l3 refl oth ok gens]
  have pods: "pool_pods ?st3 (set ?ys) = pool_pods st (set xs)" using t(3) f(1) by simp
  have nodes: "pool_nodes ?st3 (set ?ys) = add_mset node (pool_nodes st (set xs))"
    using t(4) f(2) none by (simp add: node_mset_def)
  have s2: "sums_inv L ?p2 (pool_pods st (set xs)) (pool_nodes st (set xs))"
    using inv same_sums_frame[OF t(5)] by (simp add: pool_inv_def)
  let ?p' = "?p2\<lparr>nodeTree := NodeTree_AddNode L (nodeTree ?p2) node,
     pi_capacity := Resource_Add L (pi_capacity ?p2) (node_Capacity node),
     pi_allocatable := Resource_Add L (pi_allocatable ?p2) (node_Allocatable node)\<rparr>"
  have ti: "tree_inv (nodeTree ?p2)" using s2 by (simp add: sums_inv_def)
  have tr: "tree_inv (NodeTree_AddNode L (nodeTree ?p2) node)"
    "members (NodeTree_AddNode L (nodeTree ?p2) node) = insert (GetZoneKey L node, node_Name node) (members (nodeTree ?p2))"
    using tree_addNode_inv[OF ti] by (auto simp: NodeTree_AddNode_def)
  have sums: "sums_inv L ?p' (pool_pods ?st3 (set ?ys)) (pool_nodes ?st3 (set ?ys))"
    unfolding pods nodes by (rule sums_inv_add_node[OF s2 tr]) (rule amount_Resource_Add)+
  have sn: "same_nodes ?p2 ?p'" by (simp add: same_nodes_def)
  show ?thesis
  proof (rule that[of ?p' ?st3 ?ys])
    show "PoolInfo_AddNode L p node st = (?p', ?st3)"
      using s12 by (simp add: PoolInfo_AddNode_def e m(1) item_SetNode_def n)
    show "pool_inv L ?p' ?st3 ?ys" using sums l3 t(1) by (simp only: pool_inv_def same_nodes_frame[OF sn])
    show "gen_inv ?p' ?st3 ?ys" using t(2) by (simp only: same_nodes_frame[OF sn])
    show "pi_pool ?p' = pi_pool p" by (simp add: r(2))
  qed (fact pods nodes)+
qed

lemma pool_node_item:
  assumes inv: "pool_inv L p st xs" and nd: "nd \<in># pool_nodes st (set xs)"
  obtains a where "fmlookup (pi_nodes p) (node_Name nd) = Some a" "ni_node (info_of st a) = Some nd" "a \<in> set xs"
proof -
  have li: "list_inv p st xs" and it: "items_inv L p st" using inv by (auto simp: pool_inv_def)
  obtain a where a: "a \<in> set xs" "ni_node (info_of st a) = Some nd" using nd by (auto simp: in_pool_nodes)
  obtain name where nm: "fmlookup (pi_nodes p) name = Some a" using list_inv_named[OF li a(1)] .
  then have "node_Name nd = name" using it a(2) by (auto simp: items_inv_def item_ok_def)
  with nm a that show ?thesis by blast
qed

lemma other_nodes_names:
  assumes inv: "pool_inv L p st xs" and "pool_nodes st (set xs) = add_mset nd N"
  shows "\<forall>nd'\<in>#N. node_Name nd' \<noteq> node_Name nd"
proof (intro ballI notI)
  fix nd' assume nd': "nd' \<in># N" and eq: "node_Name nd' = node_Name nd"
  obtain a where a: "fmlookup (pi_nodes p) (node_Name nd) = Some a" "ni_node (info_of st a) = Some nd" "a \<in> set xs"
    using pool_node_item[OF inv, of nd] assms(2) by auto
  obtain b where b: "fmlookup (pi_nodes p) (node_Name nd') = Some b" "ni_node (info_of st b) = Some nd'"
    using pool_node_item[OF inv, of nd'] assms(2) nd' by auto
  have "nd' = nd" using a b eq by simp
  then have "nd \<in># N" using nd' by simp
  have "pool_nodes st (set xs) = node_mset (info_of st a) + (\<Sum>b\<in>set xs - {a}. node_mset (info_of st b))"
    unfolding pool_nodes_def using a(3) by (simp add: sum.remove)
  then have "N = (\<Sum>b\<in>set xs - {a}. node_mset (info_of st b))" using assms(2) a(2) by (simp add: node_mset_def)
  then have "nd \<in># pool_nodes st (set xs - {a})" using \<open>nd \<in># N\<close> by (simp add: pool_nodes_def)
  then obtain c where c: "c \<in> set xs" "c \<noteq> a" "ni_node (info_of st c) = Some nd" by (auto simp: in_pool_nodes)
  have li: "list_inv p st xs" and it: "items_inv L p st" using inv by (auto simp: pool_inv_def)
  obtain name where nm: "fmlookup (pi_nodes p) name = Some c" using list_inv_named[OF li c(1)] .
  then have "node_Name nd = name" using it c(3) by (auto simp: items_inv_def item_ok_def)
  then show False using nm a(1) c(2) by simp
qed

lemma PoolInfo_RemoveNode_step:
  assumes inv: "pool_inv L p st xs" and g: "gen_inv p st xs" and room: "gen_room st"
    and nd: "node \<in># pool_nodes st (set xs)"
  obtains p' st' ys where "PoolInfo_RemoveNode L p node st = Some (p', st', None)" "pool_inv L p' st' ys" "gen_inv p' st' ys"
    "pool_pods st' (set ys) = pool_pods st (set xs)"
    "pool_nodes st (set xs) = add_mset node (pool_nodes st' (set ys))" "pi_pool p' = pi_pool p"
proof -
  have it: "items_inv L p st" using inv by (auto simp: pool_inv_def)
  obtain a where a: "fmlookup (pi_nodes p) (node_Name node) = Some a" "ni_node (info_of st a) = Some node"
    using pool_node_item[OF inv nd] by blast
  have ok0: "item_ok L (node_Name node) (info_of st a)" using it a(1) by (simp add: items_inv_def)
  obtain ni gl where n: "NodeInfo_RemoveNode (info_of st a) (st_globals st) = (ni, gl)" by fastforce
  have f: "ni_pods ni = ni_pods (info_of st a)" "ni_node ni = None" "ni_inv L ni = ni_inv L (info_of st a)"
    "ni_generation ni = generation (st_globals st) + 1" "generation gl = generation (st_globals st) + 1"
    using n by (auto simp: NodeInfo_RemoveNode_def nextGeneration_def)
  have ok: "item_ok L (node_Name node) ni" using ok0 f by (simp add: item_ok_def)
  obtain p2 st2 where r: "drop_or_move p (node_Name node) a (set_info a ni (st\<lparr>st_globals := gl\<rparr>)) = (p2, st2)"
    by fastforce
  obtain ys where u: "list_inv p2 st2 ys" "items_inv L p2 st2" "gen_inv p2 st2 ys" "same_sums p p2"
    "pool_pods st2 (set ys) + mset (ni_pods (info_of st a)) = pool_pods st (set xs) + mset (ni_pods ni)"
    "pool_nodes st2 (set ys) + node_mset (info_of st a) = pool_nodes st (set xs) + node_mset ni"
    using update_or_drop[OF inv g room a(1) ok f(4,5) r] by blast
  have pods: "pool_pods st2 (set ys) = pool_pods st (set xs)" using u(5) f(1) by simp
  have nodes: "pool_nodes st (set xs) = add_mset node (pool_nodes st2 (set ys))"
    using u(6) a(2) f(2) by (simp add: node_mset_def)
  have s2: "sums_inv L p2 (pool_pods st2 (set ys)) (add_mset node (pool_nodes st2 (set ys)))"
    using inv same_sums_frame[OF u(4)] by (simp add: pool_inv_def pods nodes)
  have ti: "tree_inv (nodeTree p2)" using s2 by (simp add: sums_inv_def)
  obtain nt e where tr: "NodeTree_RemoveNode L (nodeTree p2) node = Some (nt, e)" "tree_inv nt"
    "members nt = members (nodeTree p2) - {(GetZoneKey L node, node_Name node)}"
    using tree_removeNode_inv[OF ti, of L node] by (auto simp: NodeTree_RemoveNode_def)
  let ?p' = "p2\<lparr>nodeTree := nt, pi_capacity := Sub (pi_capacity p2) (NewResource L (node_Capacity node)),
     pi_allocatable := Sub (pi_allocatable p2) (NewResource L (node_Allocatable node))\<rparr>"
  have sums: "sums_inv L ?p' (pool_pods st2 (set ys)) (pool_nodes st2 (set ys))"
    using other_nodes_names[OF inv nodes] by (intro sums_inv_remove_node[OF s2 tr(2,3)]) auto
  have sn: "same_nodes p2 ?p'" by (simp add: same_nodes_def)
  show ?thesis
  proof (rule that[of ?p' st2 ys])
    show "PoolInfo_RemoveNode L p node st = Some (?p', st2, None)"
      by (simp add: PoolInfo_RemoveNode_def a(1) n r tr(1))
    show "pool_inv L ?p' st2 ys" using sums u(1,2) by (simp only: pool_inv_def same_nodes_frame[OF sn])
    show "gen_inv ?p' st2 ys" using u(3) by (simp only: same_nodes_frame[OF sn])
    show "pi_pool ?p' = pi_pool p" using u(4) by (simp add: same_sums_def)
  qed (fact pods nodes)+
qed

subsection \<open>The snapshot on a well-formed list\<close>

definition ptr :: "'a list \<Rightarrow> nat \<Rightarrow> 'a option" where
  "ptr xs i = (if i < length xs then Some (xs ! i) else None)"

lemma ptr_drop: "ptr xs i = first_or (drop i xs) None"
  by (auto simp: ptr_def first_or_def hd_drop_conv_nth[symmetric] split: list.splits)

lemma dlist_next: "dlist st h xs \<Longrightarrow> i < length xs \<Longrightarrow> li_next (st_item st (xs ! i)) = ptr xs (Suc i)"
proof -
  assume l: "dlist st h xs" and i: "i < length xs"
  have "xs = take i xs @ xs ! i # drop (Suc i) xs" using i by (rule id_take_nth_drop)
  then have "dseg (st_item st) None (take i xs @ xs ! i # drop (Suc i) xs) None" using l by (metis dlist_def)
  then show ?thesis by (simp add: dseg_append ptr_drop)
qed

lemma fast_step_ptr: "dlist st h xs \<Longrightarrow> fast_step st (ptr xs j) = ptr xs (j + 2)"
  by (cases "j < length xs"; cases "Suc j < length xs")
    (auto simp: fast_step_def ptr_def dlist_next)

lemma ptr_inj: "distinct xs \<Longrightarrow> ptr xs i = ptr xs j \<Longrightarrow> ptr xs i \<noteq> None \<Longrightarrow> i = j"
  by (auto simp: ptr_def nth_eq_iff_index_eq split: if_splits)

definition snap_upd :: "store \<Rightarrow> (string, NodeInfo) fmap \<Rightarrow> nat \<Rightarrow> (string, NodeInfo) fmap" where
  "snap_upd st m a = (case ni_node (info_of st a) of None \<Rightarrow> m | Some np \<Rightarrow> fmupd (node_Name np) (info_of st a) m)"

lemma snapshot_loop_list:
  assumes l: "dlist st h xs"
  shows "i \<le> length xs \<Longrightarrow> length xs - i < fuel \<Longrightarrow>
    \<exists>g' node' prev'. snapshot_loop bal sg st fuel m g (ptr xs i) (ptr xs (2 * i)) prev =
      Some (foldl (snap_upd st) m (takeWhile (\<lambda>a. \<not> ni_generation (info_of st a) \<le>s sg) (drop i xs)),
        g', node', prev', False) \<and> generation g' = generation g"
proof (induction fuel arbitrary: i m g prev)
  case (Suc fuel)
  show ?case
  proof (cases "i < length xs")
    case False
    then show ?thesis by (simp add: ptr_def)
  next
    case True
    let ?a = "xs ! i"
    have p: "ptr xs i = Some ?a" using True by (simp add: ptr_def)
    have dr: "drop i xs = ?a # drop (Suc i) xs" using True by (rule Cons_nth_drop_Suc[symmetric])
    show ?thesis
    proof (cases "ni_generation (info_of st ?a) \<le>s sg")
      case True
      then show ?thesis by (simp add: p dr)
    next
      case False
      have nx: "li_next (st_item st ?a) = ptr xs (Suc i)" using dlist_next[OF l \<open>i < length xs\<close>] .
      have fa: "fast_step st (ptr xs (2 * i)) = ptr xs (2 * Suc i)" using fast_step_ptr[OF l] by simp
      have d: "distinct xs" using l by (simp add: dlist_def)
      have ne: "\<not> (ptr xs (Suc i) \<noteq> None \<and> ptr xs (2 * Suc i) \<noteq> None \<and> ptr xs (Suc i) = ptr xs (2 * Suc i))"
        using ptr_inj[OF d, of "Suc i" "2 * Suc i"] by auto
      have mu: "(case ni_node (info_of st ?a) of None \<Rightarrow> m
          | Some np \<Rightarrow> fmupd (node_Name np) (NodeInfo_Clone (info_of st ?a)) m) = snap_upd st m ?a"
        by (simp add: snap_upd_def split: option.split)
      let ?g1 = "if bal then ResetTransientSchedulerInfo (TransientInfo (info_of st ?a)) g else g"
      have step: "snapshot_loop bal sg st (Suc fuel) m g (ptr xs i) (ptr xs (2 * i)) prev =
          snapshot_loop bal sg st fuel (snap_upd st m ?a) ?g1 (ptr xs (Suc i)) (ptr xs (2 * Suc i)) (ptr xs i)"
        by (simp only: snapshot_loop.simps(2) p option.case Let_def nx fa mu if_not_P[OF False] if_not_P[OF ne])
      have "generation ?g1 = generation g" by (simp add: ResetTransientSchedulerInfo_def)
      then show ?thesis
        using Suc.IH[of "Suc i" "snap_upd st m ?a" ?g1 "ptr xs i"] Suc.prems True False
        unfolding step dr by auto
    qed
  qed
qed simp

declare snapshot_loop.simps(2) [simp del]

text \<open>The map after the loop: the visited items with their current information, the others as before.\<close>

lemma snap_upd_other:
  "\<forall>a\<in>set as. \<forall>nd. ni_node (info_of st a) = Some nd \<longrightarrow> node_Name nd \<noteq> name \<Longrightarrow>
   fmlookup (foldl (snap_upd st) m as) name = fmlookup m name"
  by (induction as arbitrary: m) (auto simp: snap_upd_def split: option.splits)

lemma snap_upd_member:
  assumes "a \<in> set as" "ni_node (info_of st a) = Some nd"
    and "\<And>b nd'. b \<in> set as \<Longrightarrow> ni_node (info_of st b) = Some nd' \<Longrightarrow> node_Name nd' = node_Name nd \<Longrightarrow> b = a"
  shows "fmlookup (foldl (snap_upd st) m as) (node_Name nd) = Some (info_of st a)"
  using assms
proof (induction as arbitrary: m rule: rev_induct)
  case (snoc b as)
  show ?case
  proof (cases "b = a")
    case True
    then show ?thesis using snoc.prems(2) by (simp add: snap_upd_def)
  next
    case False
    then have "a \<in> set as" using snoc.prems(1) by simp
    then have ih: "fmlookup (foldl (snap_upd st) m as) (node_Name nd) = Some (info_of st a)"
      using snoc.prems by (intro snoc.IH) auto
    have "node_Name nd' \<noteq> node_Name nd" if "ni_node (info_of st b) = Some nd'" for nd'
      using snoc.prems(3)[OF _ that] False by auto
    then have "fmlookup (snap_upd st m' b) (node_Name nd) = fmlookup m' (node_Name nd)" for m'
      by (auto simp: snap_upd_def split: option.split)
    then show ?thesis using ih by simp
  qed
qed simp

lemma item_of_name:
  assumes inv: "pool_inv L p st xs" and "a \<in> set xs" "ni_node (info_of st a) = Some nd"
  shows "fmlookup (pi_nodes p) (node_Name nd) = Some a"
proof -
  have li: "list_inv p st xs" and it: "items_inv L p st" using inv by (auto simp: pool_inv_def)
  obtain name where nm: "fmlookup (pi_nodes p) name = Some a" using list_inv_named[OF li assms(2)] .
  then have "node_Name nd = name" using it assms(3) by (auto simp: items_inv_def item_ok_def)
  with nm show ?thesis by simp
qed

lemma not_visited_old:
  assumes "sorted_wrt (\<lambda>a b. f b <s f a) xs" "a \<in> set xs" "a \<notin> set (takeWhile (\<lambda>a. \<not> f a \<le>s sg) xs)"
  shows "f a \<le>s (sg :: int64)"
  using assms
proof (induction xs)
  case (Cons x xs)
  show ?case
  proof (cases "f x \<le>s sg")
    case True
    have "f a \<le>s f x" using Cons.prems(1,2) by (auto intro: signed.less_imp_le)
    then show ?thesis using True by (rule signed.order_trans)
  qed (use Cons in auto)
qed simp

lemma UpdateNodeInfoSnapshot_step:
  assumes inv: "pool_inv L p st xs" and g: "gen_inv p st xs"
  obtains p' st' where "UpdateNodeInfoSnapshot bal p st = Some (p', st')" "pool_inv L p' st' xs" "gen_inv p' st' xs"
    "\<And>a nd. a \<in> set xs \<Longrightarrow> ni_node (info_of st a) = Some nd \<Longrightarrow>
       fmlookup (NodeInfoMap (nodeInfoSnapshot p')) (node_Name nd) = Some (info_of st a)"
    "\<And>a. st_item st' a = st_item st a" "pi_pool p' = pi_pool p"
proof -
  have li: "list_inv p st xs" and it: "items_inv L p st" using inv by (auto simp: pool_inv_def)
  have dl: "dlist st (headNode p) xs" and fr: "\<forall>a\<in>set xs. a < st_fresh st" using li by (auto simp: list_inv_def)
  have d: "distinct xs" using dl by (simp add: dlist_def)
  have "length xs \<le> st_fresh st"
    using fr d by (metis card_lessThan card_mono distinct_card finite_lessThan lessThan_iff subsetI)
  then have fuel: "length xs - 0 < st_fresh st + 1" by simp
  let ?sn = "nodeInfoSnapshot p" let ?sg = "snap_Generation ?sn"
  let ?vis = "takeWhile (\<lambda>a. \<not> ni_generation (info_of st a) \<le>s ?sg) xs"
  let ?m = "foldl (snap_upd st) (NodeInfoMap ?sn) ?vis"
  have h: "headNode p = ptr xs 0" using dl by (simp add: dlist_def ptr_drop)
  obtain g' node' prev' where loop: "snapshot_loop bal ?sg st (st_fresh st + 1) (NodeInfoMap ?sn) (st_globals st)
      (headNode p) (headNode p) (headNode p) = Some (?m, g', node', prev', False)"
    and g': "generation g' = generation (st_globals st)"
    using snapshot_loop_list[OF dl le0 fuel, of bal ?sg "NodeInfoMap ?sn" "st_globals st" "headNode p"]
    by (auto simp: h)
  let ?st' = "st\<lparr>st_globals := g'\<rparr>"
  let ?gen = "case headNode p of None \<Rightarrow> ?sg | Some a \<Rightarrow> ni_generation (info_of ?st' a)"
  let ?m1 = "if fcard (fmdom ?m) > fcard (fmdom (pi_nodes p))
     then fmfilter (\<lambda>name. fmlookup (pi_nodes p) name \<noteq> None) ?m else ?m"
  let ?p' = "p\<lparr>nodeInfoSnapshot := \<lparr>NodeInfoMap = ?m1, snap_Generation = ?gen\<rparr>\<rparr>"
  have r: "UpdateNodeInfoSnapshot bal p st = Some (?p', ?st')"
    unfolding UpdateNodeInfoSnapshot_def Let_def loop by simp
  have all: "fmlookup ?m1 (node_Name nd) = Some (info_of st a)" if a: "a \<in> set xs" "ni_node (info_of st a) = Some nd" for a nd
  proof -
    have uniq: "b = a" if "b \<in> set xs" "ni_node (info_of st b) = Some nd'" "node_Name nd' = node_Name nd" for b nd'
      using item_of_name[OF inv that(1,2)] item_of_name[OF inv a] that(3) by simp
    have sub: "set ?vis \<subseteq> set xs" by (auto dest: set_takeWhileD)
    have "fmlookup ?m (node_Name nd) = Some (info_of st a)"
    proof (cases "a \<in> set ?vis")
      case True
      then show ?thesis using a(2) uniq sub by (intro snap_upd_member) blast+
    next
      case False
      have "ni_generation (info_of st a) \<le>s ?sg"
        using not_visited_old[OF _ a(1) False] g by (simp add: gen_inv_def)
      then have "fmlookup (NodeInfoMap ?sn) (node_Name nd) = Some (info_of st a)"
        using g a by (simp add: gen_inv_def)
      moreover have "fmlookup ?m (node_Name nd) = fmlookup (NodeInfoMap ?sn) (node_Name nd)"
        using uniq sub False by (intro snap_upd_other) blast
      ultimately show ?thesis by simp
    qed
    then show ?thesis using item_of_name[OF inv a] by simp
  qed
  have sums: "sums_inv L ?p' P N = sums_inv L p P N" for P N by (rule same_sums_frame) (simp add: same_sums_def)
  show ?thesis
  proof (rule that[OF r])
    show "pool_inv L ?p' ?st' xs"
      using inv sums pool_contents_cong[of "set xs" ?st' st] by (simp add: pool_inv_def list_inv_def items_inv_def)
    have le: "\<And>a. a \<in> set xs \<Longrightarrow> ni_generation (info_of st a) \<le>s generation (st_globals st)"
      and sc: "?sg \<le>s generation (st_globals st)" using g by (auto simp: gen_inv_def)
    have "?gen \<le>s generation (st_globals st)"
    proof (cases xs)
      case Nil
      then show ?thesis using sc h by (simp add: ptr_def)
    next
      case (Cons a ys)
      then show ?thesis using le[of a] h by (simp add: ptr_def)
    qed
    with g all show "gen_inv ?p' ?st' xs" unfolding gen_inv_def by (simp add: g' del: fmlookup_filter)
    show "fmlookup (NodeInfoMap (nodeInfoSnapshot ?p')) (node_Name nd) = Some (info_of st a)"
      if "a \<in> set xs" "ni_node (info_of st a) = Some nd" for a nd
      using all[OF that] by simp
  qed simp_all
qed

subsection \<open>Moving an item to another pool\<close>

lemma set_link_triv: "li_next (st_item st q) = v \<Longrightarrow> set_next q v st = st" "li_prev (st_item st q) = v \<Longrightarrow> set_prev q v st = st"
proof -
  show "set_next q v st = st" if "li_next (st_item st q) = v"
  proof -
    have "(st_item st q)\<lparr>li_next := v\<rparr> = st_item st q" using that by (cases "st_item st q") simp
    then show ?thesis by (simp add: set_next_def)
  qed
  show "set_prev q v st = st" if "li_prev (st_item st q) = v"
  proof -
    have "(st_item st q)\<lparr>li_prev := v\<rparr> = st_item st q" using that by (cases "st_item st q") simp
    then show ?thesis by (simp add: set_prev_def)
  qed
qed

text \<open>The links an unlinked item keeps are harmless: unlinking it again changes nothing.\<close>

lemma unlink_idem:
  assumes d: "distinct (us @ a # vs)" and seg: "dseg (st_item st) None (us @ a # vs) None"
  shows "unlink a (unlink a st) = unlink a st"
proof -
  let ?t = "unlink a st"
  have aa: "st_item ?t a = st_item st a" using unlink_dlist(2)[OF d seg] d by simp
  have pa: "li_prev (st_item ?t a) = last_or None us" and na: "li_next (st_item ?t a) = first_or vs None"
    using seg unfolding aa by (auto simp: dseg_append)
  have s: "dseg (st_item ?t) None us (first_or vs None)" "dseg (st_item ?t) (last_or None us) vs None"
    using unlink_dlist(1)[OF d seg] by (auto simp: dseg_append)
  have 1: "set_next q (first_or vs None) ?t = ?t" if "last_or None us = Some q" for q
    using s(1) that by (intro set_link_triv) (cases us rule: rev_cases; simp add: dseg_append)
  have 2: "set_prev q (last_or None us) ?t = ?t" if "first_or vs None = Some q" for q
    using s(2) that by (intro set_link_triv) (cases vs; simp)
  show ?thesis unfolding unlink_def[of a ?t] pa Let_def na
    using 1 2 by (auto simp: na pa split: option.split)
qed

lemma plus_fold_sums:
  "sums_inv L p P N \<Longrightarrow> sums_inv L (foldl (plusPodResource L) p qs) (P + mset qs) N \<and>
   same_nodes p (foldl (plusPodResource L) p qs) \<and> pi_pool (foldl (plusPodResource L) p qs) = pi_pool p"
proof (induction qs arbitrary: p P)
  case (Cons q qs)
  from Cons.IH[OF sums_inv_plus[OF Cons.prems, of q]] show ?case
    using pod_resource_frame(1,3)[where p = p and L = L and pod = q] by (auto simp: same_nodes_def)
qed (simp add: same_nodes_def)

lemma reduce_fold_sums:
  "sums_inv L p (P + mset qs) N \<Longrightarrow> sums_inv L (foldl (reducePodResource L) p qs) P N \<and>
   same_nodes p (foldl (reducePodResource L) p qs) \<and> pi_pool (foldl (reducePodResource L) p qs) = pi_pool p"
proof (induction qs arbitrary: p)
  case (Cons q qs)
  have "sums_inv L p (add_mset q (P + mset qs)) N" using Cons.prems by simp
  from Cons.IH[OF sums_inv_reduce[OF this]] show ?case
    using pod_resource_frame(2,4)[where p = p and L = L and pod = q] by (auto simp: same_nodes_def)
qed (simp add: same_nodes_def)

lemma pool_contents_remove1:
  assumes "a \<in> set xs" "distinct xs"
  shows "pool_pods st (set xs) = pool_pods st (set (remove1 a xs)) + mset (ni_pods (info_of st a))"
    "pool_nodes st (set xs) = pool_nodes st (set (remove1 a xs)) + node_mset (info_of st a)"
  using assms by (simp_all add: pool_pods_def pool_nodes_def sum.remove add.commute)

lemma RemoveNodeInfo_step:
  assumes inv: "pool_inv L p st xs" and a: "a \<in> set xs" "ni_node (info_of st a) = Some node"
  obtains p' st' where "RemoveNodeInfo L p a st = Some (p', st', None)" "pool_inv L p' st' (remove1 a xs)"
    "same_info st st'" "unlink a st' = st'" "\<And>b. b \<notin> set xs \<Longrightarrow> st_item st' b = st_item st b" "pi_pool p' = pi_pool p"
    "pi_nodes p' = fmdrop (node_Name node) (pi_nodes p)"
proof -
  have li: "list_inv p st xs" and it: "items_inv L p st"
    and su: "sums_inv L p (pool_pods st (set xs)) (pool_nodes st (set xs))" using inv by (auto simp: pool_inv_def)
  have d: "distinct xs" using li by (simp add: list_inv_def dlist_def)
  have nm: "fmlookup (pi_nodes p) (node_Name node) = Some a" using item_of_name[OF inv a] .
  obtain p1 st1 where r: "removeNodeInfoFromList p (node_Name node) st = (p1, st1)" "list_inv p1 st1 (remove1 a xs)"
    "same_info st st1" "same_sums p p1" "pi_nodes p1 = fmdrop (node_Name node) (pi_nodes p)"
    "\<And>b. b \<notin> set xs \<Longrightarrow> st_item st1 b = st_item st b"
    using removeNodeInfoFromList_inv[OF li nm] by metis
  have u: "unlink a st1 = st1"
  proof -
    have "st1 = unlink a st" using r(1) nm by (auto simp: removeNodeInfoFromList_def Let_def)
    moreover obtain us vs where "xs = us @ a # vs" using a(1) by (metis split_list)
    ultimately show ?thesis using li unlink_idem[of us a vs st] by (simp add: list_inv_def dlist_def)
  qed
  let ?ys = "remove1 a xs"
  have i1: "info_of st1 b = info_of st b" for b using r(3) by (simp add: same_info_def)
  note c = pool_contents_remove1[OF a(1) d, of st]
  have N: "pool_nodes st (set xs) = add_mset node (pool_nodes st1 (set ?ys))"
    using c(2) a(2) pool_contents_cong(2)[of "set ?ys" st1 st] i1 by (simp add: node_mset_def)
  have P: "pool_pods st (set xs) = pool_pods st1 (set ?ys) + mset (ni_pods (info_of st1 a))"
    using c(1) pool_contents_cong(1)[of "set ?ys" st1 st] i1 by simp
  have s1: "sums_inv L p1 (pool_pods st1 (set ?ys) + mset (ni_pods (info_of st1 a))) (add_mset node (pool_nodes st1 (set ?ys)))"
    using su same_sums_frame[OF r(4)] by (simp only: N P)
  then have ti: "tree_inv (nodeTree p1)" and mem: "(GetZoneKey L node, node_Name node) \<in> members (nodeTree p1)"
    by (auto simp: sums_inv_def)
  obtain nt where tr: "NodeTree_RemoveNode L (nodeTree p1) node = Some (nt, None)" "tree_inv nt"
    "members nt = members (nodeTree p1) - {(GetZoneKey L node, node_Name node)}"
    using tree_removeNode_inv[OF ti, of L node] mem by (auto simp: NodeTree_RemoveNode_def)
  let ?p3 = "p1\<lparr>nodeTree := nt, pi_capacity := Sub (pi_capacity p1) (NewResource L (node_Capacity node)),
     pi_allocatable := Sub (pi_allocatable p1) (NewResource L (node_Allocatable node))\<rparr>"
  have "sums_inv L ?p3 (pool_pods st1 (set ?ys) + mset (ni_pods (info_of st1 a))) (pool_nodes st1 (set ?ys))"
    using other_nodes_names[OF inv N] by (intro sums_inv_remove_node[OF s1 tr(2,3)]) auto
  note f = reduce_fold_sums[OF this]
  let ?p' = "foldl (reducePodResource L) ?p3 (ni_pods (info_of st1 a))"
  have sn: "same_nodes p1 ?p'" using f by (simp add: same_nodes_def)
  have "items_inv L p1 st1" using it i1 by (auto simp: items_inv_def r(5) split: if_splits)
  then have "pool_inv L ?p' st1 ?ys" using f r(2) by (simp only: pool_inv_def same_nodes_frame[OF sn] simp_thms)
  moreover have "RemoveNodeInfo L p a st = Some (?p', st1, None)"
    by (simp add: RemoveNodeInfo_def a(2) nm r(1) tr(1) Let_def)
  moreover have "pi_pool ?p' = pi_pool p" "pi_nodes ?p' = fmdrop (node_Name node) (pi_nodes p)"
    using f r(4,5) by (auto simp: same_sums_def same_nodes_def)
  ultimately show ?thesis using r(3,6) u that by blast
qed

lemma AddNodeInfo_step:
  assumes inv: "pool_inv L q st ys" and a: "a \<notin> set ys" "a < st_fresh st" "ni_node (info_of st a) = Some node"
    and nm: "fmlookup (pi_nodes q) (node_Name node) = None" and u: "unlink a st = st"
    and ok: "item_ok L (node_Name node) (info_of st a)"
  obtains q' st' where "AddNodeInfo L q a st = (q', st')" "pool_inv L q' st' (a # ys)" "same_info st st'"
    "\<And>b. b \<notin> insert a (set ys) \<Longrightarrow> st_item st' b = st_item st b" "pi_pool q' = pi_pool q"
    "nodeInfoSnapshot q' = nodeInfoSnapshot q" "fmlookup (pi_nodes q') (node_Name node) = Some a"
proof -
  have li: "list_inv q st ys" and it: "items_inv L q st"
    and su: "sums_inv L q (pool_pods st (set ys)) (pool_nodes st (set ys))" using inv by (auto simp: pool_inv_def)
  let ?q1 = "q\<lparr>pi_nodes := fmupd (node_Name node) a (pi_nodes q)\<rparr>"
  have dl: "dlist st (headNode ?q1) ys" using li by (simp add: list_inv_def)
  obtain st1 where m: "moveNodeInfoToHead ?q1 (node_Name node) st = (?q1\<lparr>headNode := Some a\<rparr>, st1)"
    "dlist st1 (Some a) (a # ys)" "same_info st st1" "\<And>b. b \<notin> insert a (set ys) \<Longrightarrow> st_item st1 b = st_item st b"
    using moveNodeInfoToHead_fresh[OF dl _ a(1) u, of "node_Name node"] by auto
  let ?q2 = "?q1\<lparr>headNode := Some a\<rparr>"
  have i1: "info_of st1 b = info_of st b" for b using m(3) by (simp add: same_info_def)
  have l2: "list_inv ?q2 st1 (a # ys)"
    using li m(2,3) a fmran_fmupd_new[OF nm, of a] inj_fmupd_new[of "pi_nodes q" a "node_Name node"]
    by (auto simp: list_inv_def same_info_def)
  have it2: "items_inv L ?q2 st1" using it ok i1 by (auto simp: items_inv_def)
  have s2: "sums_inv L ?q2 (pool_pods st (set ys)) (pool_nodes st (set ys))"
    using su same_sums_frame[of q ?q2] by (simp add: same_sums_def)
  let ?q3 = "?q2\<lparr>nodeTree := NodeTree_AddNode L (nodeTree ?q2) node,
     pi_capacity := Resource_Add L (pi_capacity ?q2) (node_Capacity node),
     pi_allocatable := Resource_Add L (pi_allocatable ?q2) (node_Allocatable node)\<rparr>"
  have ti: "tree_inv (nodeTree ?q2)" using s2 by (simp add: sums_inv_def)
  have tr: "tree_inv (NodeTree_AddNode L (nodeTree ?q2) node)"
    "members (NodeTree_AddNode L (nodeTree ?q2) node) = insert (GetZoneKey L node, node_Name node) (members (nodeTree ?q2))"
    using tree_addNode_inv[OF ti] by (auto simp: NodeTree_AddNode_def)
  have "sums_inv L ?q3 (pool_pods st (set ys)) (add_mset node (pool_nodes st (set ys)))"
    by (rule sums_inv_add_node[OF s2 tr]) (rule amount_Resource_Add)+
  note f = plus_fold_sums[OF this, of "ni_pods (info_of st1 a)"]
  let ?q' = "foldl (plusPodResource L) ?q3 (ni_pods (info_of st1 a))"
  have sn: "same_nodes ?q2 ?q'" using f by (simp add: same_nodes_def)
  have c: "pool_pods st1 (set (a # ys)) = pool_pods st (set ys) + mset (ni_pods (info_of st1 a))"
    "pool_nodes st1 (set (a # ys)) = add_mset node (pool_nodes st (set ys))"
    using a pool_contents_cong[of "set ys" st1 st] i1
    by (simp_all add: pool_pods_def pool_nodes_def node_mset_def add.commute)
  have "pool_inv L ?q' st1 (a # ys)"
    unfolding pool_inv_def c same_nodes_frame[OF sn] using f l2 it2 by blast
  moreover have "AddNodeInfo L q a st = (?q', st1)" by (simp add: AddNodeInfo_def a(3) m(1))
  moreover have "pi_pool ?q' = pi_pool q" using f by simp
  moreover have "nodeInfoSnapshot ?q' = nodeInfoSnapshot q" "fmlookup (pi_nodes ?q') (node_Name node) = Some a"
    using sn by (auto simp: same_nodes_def)
  ultimately show ?thesis using m(3,4) that by blast
qed

text \<open>A pool only depends on the cells of its own list.\<close>

lemma pool_inv_frame:
  assumes inv: "pool_inv L p st xs" and same: "\<And>b. b \<in> set xs \<Longrightarrow> st_item st' b = st_item st b"
    and fresh: "st_fresh st' = st_fresh st"
  shows "pool_inv L p st' xs"
proof -
  have i: "info_of st' b = info_of st b" if "b \<in> set xs" for b using same[OF that] by (simp add: info_of_def)
  have li: "list_inv p st xs" and it: "items_inv L p st" using inv by (auto simp: pool_inv_def)
  have "dseg (st_item st') None xs None = dseg (st_item st) None xs None" by (rule dseg_cong) (simp add: same)
  then have "list_inv p st' xs" using li fresh by (simp add: list_inv_def dlist_def)
  moreover have "items_inv L p st'" using it i list_inv_lookup[OF li] by (simp add: items_inv_def)
  ultimately show ?thesis using inv pool_contents_cong[of "set xs" st' st] i by (simp add: pool_inv_def)
qed

subsection \<open>Histories of a pool\<close>

text \<open>The calls the cache makes on one pool, as steps. The code does not check the guards: a pod is added with a UID that is new on its node and
  without a host port that a pod of the node has (\<open>pod_new\<close>), and removed while it is on its node, as the same object; a node is added while its item has no node
  object (\<open>node_new\<close>), and removed with the object that the item has. The generation counter has room. A node that is added twice, say, would be counted twice in the totals.\<close>

inductive pool_step :: "k8s \<Rightarrow> PoolInfo \<times> store \<Rightarrow> PoolInfo \<times> store \<Rightarrow> bool" for L where
  step_AddPod: "gen_room st \<Longrightarrow> pod_new p st pod \<Longrightarrow> pool_step L (p, st) (PoolInfo_AddPod L p pod st)"
| step_RemovePod: "gen_room st \<Longrightarrow> fmlookup (pi_nodes p) (pod_NodeName pod) = Some a \<Longrightarrow>
    pod \<in> set (ni_pods (info_of st a)) \<Longrightarrow> PoolInfo_RemovePod L p pod st = (p', st', e) \<Longrightarrow> pool_step L (p, st) (p', st')"
| step_AddNode: "gen_room st \<Longrightarrow> node_new p st (node_Name node) \<Longrightarrow> pool_step L (p, st) (PoolInfo_AddNode L p node st)"
| step_RemoveNode: "gen_room st \<Longrightarrow> fmlookup (pi_nodes p) (node_Name node) = Some a \<Longrightarrow>
    ni_node (info_of st a) = Some node \<Longrightarrow> PoolInfo_RemoveNode L p node st = Some (p', st', e) \<Longrightarrow>
    pool_step L (p, st) (p', st')"
| step_Snapshot: "UpdateNodeInfoSnapshot bal p st = Some (p', st') \<Longrightarrow> pool_step L (p, st) (p', st')"

inductive_cases pool_stepE: "pool_step L (p, st) (p', st')"

definition pool_good :: "k8s \<Rightarrow> PoolInfo \<times> store \<Rightarrow> bool" where
  "pool_good L s \<longleftrightarrow> (\<exists>xs. pool_inv L (fst s) (snd s) xs \<and> gen_inv (fst s) (snd s) xs)"

lemma NewPoolInfo_good:
  assumes "0 \<le>s generation (st_globals st)"
  shows "pool_good L (SetPool (NewPoolInfo L) pool, st)" "pool_good L (NewPoolInfo L, st)"
proof -
  have "pool_inv L (SetPool (NewPoolInfo L) pool) st [] \<and> gen_inv (SetPool (NewPoolInfo L) pool) st []"
    "pool_inv L (NewPoolInfo L) st [] \<and> gen_inv (NewPoolInfo L) st []"
    using assms tree_inv_new
    by (auto simp: NewPoolInfo_def SetPool_def pool_inv_def list_inv_def items_inv_def sums_inv_def gen_inv_def
        dlist_def pool_pods_def pool_nodes_def newNodeTree_def members_def zone_nodes_def NewNodeInfoSnapshot_def)
  then show "pool_good L (SetPool (NewPoolInfo L) pool, st)" "pool_good L (NewPoolInfo L, st)"
    by (auto simp: pool_good_def)
qed

lemma pool_pods_member:
  assumes "list_inv p st xs" "fmlookup (pi_nodes p) name = Some a"
  shows "pod \<in> set (ni_pods (info_of st a)) \<Longrightarrow> pod \<in># pool_pods st (set xs)"
    "ni_node (info_of st a) = Some nd \<Longrightarrow> nd \<in># pool_nodes st (set xs)"
  using list_inv_lookup[OF assms] by (auto simp: pool_pods_def set_mset_sum in_pool_nodes)

lemma pool_step_good: "pool_step L s s' \<Longrightarrow> pool_good L s \<Longrightarrow> pool_good L s'"
proof (induction rule: pool_step.induct)
  case (step_AddPod st p pod)
  then obtain xs where x: "pool_inv L p st xs" "gen_inv p st xs" by (auto simp: pool_good_def)
  show ?case by (rule PoolInfo_AddPod_step[OF x step_AddPod.hyps]) (auto simp: pool_good_def)
next
  case (step_RemovePod st p pod a p' st' e)
  then obtain xs where x: "pool_inv L p st xs" "gen_inv p st xs" by (auto simp: pool_good_def)
  have "list_inv p st xs" using x(1) by (simp add: pool_inv_def)
  note m = pool_pods_member(1)[OF this step_RemovePod.hyps(2,3)]
  show ?case by (rule PoolInfo_RemovePod_step[OF x step_RemovePod.hyps(1) m])
      (use step_RemovePod.hyps(4) in \<open>auto simp: pool_good_def\<close>)
next
  case (step_AddNode st p node)
  then obtain xs where x: "pool_inv L p st xs" "gen_inv p st xs" by (auto simp: pool_good_def)
  show ?case by (rule PoolInfo_AddNode_step[OF x step_AddNode.hyps]) (auto simp: pool_good_def)
next
  case (step_RemoveNode st p node a p' st' e)
  then obtain xs where x: "pool_inv L p st xs" "gen_inv p st xs" by (auto simp: pool_good_def)
  have "list_inv p st xs" using x(1) by (simp add: pool_inv_def)
  note m = pool_pods_member(2)[OF this step_RemoveNode.hyps(2,3)]
  show ?case by (rule PoolInfo_RemoveNode_step[OF x step_RemoveNode.hyps(1) m])
      (use step_RemoveNode.hyps(4) in \<open>auto simp: pool_good_def\<close>)
next
  case (step_Snapshot bal p st p' st')
  then obtain xs where x: "pool_inv L p st xs" "gen_inv p st xs" by (auto simp: pool_good_def)
  show ?case by (rule UpdateNodeInfoSnapshot_step[OF x, of bal])
      (use step_Snapshot.hyps in \<open>auto simp: pool_good_def\<close>)
qed

lemma pool_steps_good: "(pool_step L)\<^sup>*\<^sup>* s s' \<Longrightarrow> pool_good L s \<Longrightarrow> pool_good L s'"
  by (induction rule: rtranclp_induct) (auto intro: pool_step_good)

subsection \<open>Properties\<close>

definition pool_cells :: "PoolInfo \<Rightarrow> nat set" where
  "pool_cells p = fset (fmran (pi_nodes p))"

lemma pool_good_cells: "pool_good L (p, st) \<Longrightarrow> \<exists>xs. set xs = pool_cells p \<and> pool_inv L p st xs \<and> gen_inv p st xs"
  by (auto simp: pool_good_def pool_cells_def pool_inv_def list_inv_def)

text \<open>
  C31. After any history of \<open>AddPod\<close>, \<open>RemovePod\<close>, \<open>AddNode\<close>, \<open>RemoveNode\<close> and \<open>UpdateNodeInfoSnapshot\<close>
  on a new pool that keeps to the guards below, the totals of the pool are exact in every resource dimension: \<open>used\<close> is the sum of
  the requests of the pods of the pool, \<open>shared\<close> the sum over the pods annotated with another pool,
  \<open>capacity\<close> and \<open>allocatable\<close> the sums over the nodes of the pool, and the node tree holds exactly
  these nodes. The guards of the history: a pod that is added has a UID that is new on its node, and no
  host port that a pod of the node has; a pod that is removed is on its node, as the same object; a node is added only while its item, if there is one, has no node object; a node
  is removed with the object that the item has; and the generation counter, at first not negative, does not reach \<open>2^63\<close>.
\<close>

theorem pool_totals:
  assumes "(pool_step L)\<^sup>*\<^sup>* (SetPool (NewPoolInfo L) pool, st0) (p, st)" "0 \<le>s generation (st_globals st0)"
  shows "sums_inv L p (pool_pods st (pool_cells p)) (pool_nodes st (pool_cells p))"
  using pool_good_cells[OF pool_steps_good[OF assms(1) NewPoolInfo_good(1)[OF assms(2)]]]
  by (auto simp: pool_inv_def)

text \<open>
  C32. After any history of \<open>AddPod\<close>, \<open>RemovePod\<close>, \<open>AddNode\<close>, \<open>RemoveNode\<close> and \<open>UpdateNodeInfoSnapshot\<close>
  on a new pool that keeps to the guards below, \<open>UpdateNodeInfoSnapshot\<close> returns, without finding a circle in the list of items, and afterwards
  the snapshot holds, for every item of the pool that has its node object, the current information about that node. The guards of the history: a pod that is added has a UID that is new on its node, and no
  host port that a pod of the node has; a pod that is removed is on its node, as the same object; a node is added only while its item, if there is one, has no node object; a node
  is removed with the object that the item has; and the generation counter, at first not negative, does not reach \<open>2^63\<close>. Items that move between pools are not part
  of these histories; for them it may fail (\<open>moved_node_missing\<close>).
\<close>

theorem snapshot_complete:
  assumes "(pool_step L)\<^sup>*\<^sup>* (SetPool (NewPoolInfo L) pool, st0) (p, st)" "0 \<le>s generation (st_globals st0)"
  shows "\<exists>p' st'. UpdateNodeInfoSnapshot bal p st = Some (p', st') \<and>
    (\<forall>name a nd. fmlookup (pi_nodes p) name = Some a \<longrightarrow> ni_node (info_of st a) = Some nd \<longrightarrow>
       fmlookup (NodeInfoMap (nodeInfoSnapshot p')) name = Some (info_of st a))"
proof -
  have good: "pool_good L (p, st)" using pool_steps_good[OF assms(1) NewPoolInfo_good(1)[OF assms(2)]] .
  obtain xs where x: "set xs = pool_cells p" "pool_inv L p st xs" "gen_inv p st xs"
    using pool_good_cells[OF good] by blast
  have li: "list_inv p st xs" and it: "items_inv L p st" using x(2) by (auto simp: pool_inv_def)
  obtain p' st' where r: "UpdateNodeInfoSnapshot bal p st = Some (p', st')"
    "\<And>a nd. a \<in> set xs \<Longrightarrow> ni_node (info_of st a) = Some nd \<Longrightarrow>
       fmlookup (NodeInfoMap (nodeInfoSnapshot p')) (node_Name nd) = Some (info_of st a)"
    using UpdateNodeInfoSnapshot_step[OF x(2,3)] by metis
  have "fmlookup (NodeInfoMap (nodeInfoSnapshot p')) name = Some (info_of st a)"
    if "fmlookup (pi_nodes p) name = Some a" "ni_node (info_of st a) = Some nd" for name a nd
    using r(2)[OF list_inv_lookup[OF li that(1)] that(2)] it that by (auto simp: items_inv_def item_ok_def)
  with r(1) show ?thesis by blast
qed

text \<open>
  Moving a node between two well-formed pools with \<open>RemoveNodeInfo\<close> and \<open>AddNodeInfo\<close> succeeds,
  keeps both pools well formed (lists, maps, trees and exact totals), and moves exactly the node's
  item: no pod or node is lost or counted twice.
\<close>

theorem move_node_info:
  assumes p: "pool_inv L p st xs" and q: "pool_inv L q st ys" and dis: "set xs \<inter> set ys = {}"
    and a: "a \<in> set xs" "ni_node (info_of st a) = Some node"
    and nm: "fmlookup (pi_nodes q) (node_Name node) = None"
  shows "\<exists>p' q' st1 st2. RemoveNodeInfo L p a st = Some (p', st1, None) \<and> AddNodeInfo L q a st1 = (q', st2) \<and>
    pool_inv L p' st2 (remove1 a xs) \<and> pool_inv L q' st2 (a # ys) \<and>
    pool_pods st2 (set (remove1 a xs)) + pool_pods st2 (set (a # ys)) = pool_pods st (set xs) + pool_pods st (set ys) \<and>
    pool_nodes st2 (set (remove1 a xs)) + pool_nodes st2 (set (a # ys)) = pool_nodes st (set xs) + pool_nodes st (set ys)"
proof -
  have li: "list_inv p st xs" and it: "items_inv L p st" using p by (auto simp: pool_inv_def)
  have d: "distinct xs" using li by (simp add: list_inv_def dlist_def)
  obtain p' st1 where r: "RemoveNodeInfo L p a st = Some (p', st1, None)" "pool_inv L p' st1 (remove1 a xs)"
    "same_info st st1" "unlink a st1 = st1" "\<And>b. b \<notin> set xs \<Longrightarrow> st_item st1 b = st_item st b"
    using RemoveNodeInfo_step[OF p a] by metis
  have i1: "info_of st1 b = info_of st b" "st_fresh st1 = st_fresh st" for b using r(3) by (auto simp: same_info_def)
  have q1: "pool_inv L q st1 ys" by (rule pool_inv_frame[OF q]) (use dis r(5) i1 in auto)
  have ay: "a \<notin> set ys" "a < st_fresh st1" using a(1) dis li i1 by (auto simp: list_inv_def)
  have "item_ok L (node_Name node) (info_of st1 a)"
    using it item_of_name[OF p a] i1 by (simp add: items_inv_def)
  then obtain q' st2 where s: "AddNodeInfo L q a st1 = (q', st2)" "pool_inv L q' st2 (a # ys)" "same_info st1 st2"
    "\<And>b. b \<notin> insert a (set ys) \<Longrightarrow> st_item st2 b = st_item st1 b"
    using AddNodeInfo_step[OF q1 ay _ nm r(4)] a(2) i1 by metis
  have i2: "info_of st2 b = info_of st b" "st_fresh st2 = st_fresh st1" for b using s(3) i1 by (auto simp: same_info_def)
  have p2: "pool_inv L p' st2 (remove1 a xs)"
    by (rule pool_inv_frame[OF r(2)]) (use dis s(4) i1 i2 d in auto)
  have c: "pool_pods st2 A = pool_pods st A" "pool_nodes st2 A = pool_nodes st A" for A
    using pool_contents_cong[of A st2 st] i2 by auto
  have "pool_pods st (set (a # ys)) = mset (ni_pods (info_of st a)) + pool_pods st (set ys)"
    "pool_nodes st (set (a # ys)) = node_mset (info_of st a) + pool_nodes st (set ys)"
    using ay(1) by (simp_all add: pool_pods_def pool_nodes_def)
  with pool_contents_remove1[OF a(1) d, of st] r(1) s(1,2) p2 show ?thesis
    by (intro exI[of _ p'] exI[of _ q'] exI[of _ st1] exI[of _ st2]) (simp add: c del: list.set)
qed

subsection \<open>Examples\<close>

definition example_store :: store where
  "example_store = \<lparr>st_globals = example_globals,
     st_item = (\<lambda>_. \<lparr>li_info = fst (NewNodeInfo example_k8s [] example_globals), li_next = None, li_prev = None\<rparr>),
     st_fresh = 0\<rparr>"

definition example_pool :: "string \<Rightarrow> PoolInfo" where
  "example_pool name = SetPool (NewPoolInfo example_k8s) \<lparr>pool_Name = name, pool_Spec = zero_PoolSpec\<rparr>"

definition example_node :: "string \<Rightarrow> Node" where
  "example_node name = zero_Node\<lparr>node_Name := name, node_Allocatable := [(''cpu'', \<lparr>Value = 4, MilliValue = 4000\<rparr>)]\<rparr>"

lemma example_store_gen: "0 \<le>s generation (st_globals example_store)" "gen_room example_store"
  by (simp_all add: example_store_def example_globals_def gen_room_def)

lemma example_add_node_step:
  "(pool_step example_k8s)\<^sup>*\<^sup>* (example_pool name, example_store)
     (PoolInfo_AddNode example_k8s (example_pool name) (example_node n) example_store)"
  by (rule r_into_rtranclp, rule step_AddNode[OF example_store_gen(2)])
    (simp add: node_new_def example_pool_def SetPool_def NewPoolInfo_def)

theorem pool_totals_witness:
  "\<exists>p st. PoolInfo_AddNode example_k8s (example_pool ''p'') (example_node ''n1'') example_store = (p, st) \<and>
     sums_inv example_k8s p (pool_pods st (pool_cells p)) (pool_nodes st (pool_cells p))"
proof -
  obtain p st where r: "PoolInfo_AddNode example_k8s (example_pool ''p'') (example_node ''n1'') example_store = (p, st)"
    by fastforce
  show ?thesis
    using pool_totals[OF example_add_node_step[of "''p''" "''n1''", unfolded r, unfolded example_pool_def] example_store_gen(1)]
      r by blast
qed

theorem snapshot_complete_witness:
  "\<exists>p st p' st' a ni. PoolInfo_AddNode example_k8s (example_pool ''p'') (example_node ''n1'') example_store = (p, st) \<and>
     UpdateNodeInfoSnapshot True p st = Some (p', st') \<and> fmlookup (pi_nodes p) ''n1'' = Some a \<and>
     fmlookup (NodeInfoMap (nodeInfoSnapshot p')) ''n1'' = Some ni \<and> ni = info_of st a \<and> ni_node ni = Some (example_node ''n1'')"
proof -
  let ?n = "example_node ''n1''"
  obtain xs where x: "pool_inv example_k8s (example_pool ''p'') example_store xs" "gen_inv (example_pool ''p'') example_store xs"
    using NewPoolInfo_good(1)[OF example_store_gen(1)] by (auto simp: pool_good_def example_pool_def)
  have new: "node_new (example_pool ''p'') example_store (node_Name ?n)"
    by (simp add: node_new_def example_pool_def SetPool_def NewPoolInfo_def)
  obtain p st ys where p: "PoolInfo_AddNode example_k8s (example_pool ''p'') ?n example_store = (p, st)" "pool_inv example_k8s p st ys"
    "pool_nodes st (set ys) = add_mset ?n (pool_nodes example_store (set xs))"
    using PoolInfo_AddNode_step[OF x example_store_gen(2) new] by metis
  obtain a where a: "fmlookup (pi_nodes p) ''n1'' = Some a" "ni_node (info_of st a) = Some ?n"
    using pool_node_item[OF p(2), of ?n] p(3) by (auto simp: example_node_def)
  from snapshot_complete[OF example_add_node_step[of "''p''" "''n1''", unfolded p(1), unfolded example_pool_def] example_store_gen(1), of True]
  obtain p' st' where "UpdateNodeInfoSnapshot True p st = Some (p', st')" "fmlookup (NodeInfoMap (nodeInfoSnapshot p')) ''n1'' = Some (info_of st a)"
    using a by blast
  then show ?thesis using p(1) a by blast
qed

theorem move_node_info_witness:
  "\<exists>p xs a st p' st1. pool_inv example_k8s p st xs \<and> a \<in> set xs \<and> RemoveNodeInfo example_k8s p a st = Some (p', st1, None)"
proof -
  let ?q = "example_pool ''q''" and ?n = "example_node ''n1''"
  obtain xs where x: "pool_inv example_k8s (example_pool ''p'') example_store xs" "gen_inv (example_pool ''p'') example_store xs"
    using NewPoolInfo_good(1)[OF example_store_gen(1)] by (auto simp: pool_good_def example_pool_def)
  have new: "node_new (example_pool ''p'') example_store (node_Name ?n)"
    by (simp add: node_new_def example_pool_def SetPool_def NewPoolInfo_def)
  obtain p st ys where p: "pool_inv example_k8s p st ys"
    "pool_nodes st (set ys) = add_mset ?n (pool_nodes example_store (set xs))"
    using PoolInfo_AddNode_step[OF x example_store_gen(2) new] by metis
  obtain a where a: "a \<in> set ys" "ni_node (info_of st a) = Some ?n"
    using pool_node_item[OF p(1), of ?n] p(2) by auto
  have q: "pool_inv example_k8s ?q st []"
    using tree_inv_new by (simp add: example_pool_def NewPoolInfo_def SetPool_def pool_inv_def list_inv_def items_inv_def
      sums_inv_def dlist_def pool_pods_def pool_nodes_def newNodeTree_def members_def zone_nodes_def)
  have "fmlookup (pi_nodes ?q) (node_Name ?n) = None" by (simp add: example_pool_def SetPool_def NewPoolInfo_def)
  from move_node_info[OF p(1) q _ a this] obtain p' st1 where "RemoveNodeInfo example_k8s p a st = Some (p', st1, None)"
    by auto
  with p(1) a(1) show ?thesis by blast
qed

text \<open>
  A moved node keeps its generation. If that is not newer than the last snapshot of the receiving
  pool, the next \<open>UpdateNodeInfoSnapshot\<close> of that pool stops at the moved item, which is now the head
  of the list: the node is in the pool but not in its snapshot.
\<close>

theorem moved_node_missing:
  assumes inv: "pool_inv L q st ys" and a: "a \<notin> set ys" "a < st_fresh st" "ni_node (info_of st a) = Some node"
    and nm: "fmlookup (pi_nodes q) (node_Name node) = None" and u: "unlink a st = st"
    and ok: "item_ok L (node_Name node) (info_of st a)"
    and old: "ni_generation (info_of st a) \<le>s snap_Generation (nodeInfoSnapshot q)"
    and absent: "fmlookup (NodeInfoMap (nodeInfoSnapshot q)) (node_Name node) = None"
  shows "\<exists>q1 st1 q2 st2. AddNodeInfo L q a st = (q1, st1) \<and> UpdateNodeInfoSnapshot bal q1 st1 = Some (q2, st2) \<and>
    fmlookup (pi_nodes q2) (node_Name node) = Some a \<and> fmlookup (NodeInfoMap (nodeInfoSnapshot q2)) (node_Name node) = None"
proof -
  obtain q1 st1 where r: "AddNodeInfo L q a st = (q1, st1)" "pool_inv L q1 st1 (a # ys)" "same_info st st1"
    "nodeInfoSnapshot q1 = nodeInfoSnapshot q" "fmlookup (pi_nodes q1) (node_Name node) = Some a"
    using AddNodeInfo_step[OF inv a nm u ok] by metis
  have h: "headNode q1 = Some a" using r(2) by (simp add: pool_inv_def list_inv_def dlist_def)
  have i: "info_of st1 a = info_of st a" using r(3) by (simp add: same_info_def)
  have loop: "snapshot_loop bal (snap_Generation (nodeInfoSnapshot q)) st1 (Suc k) m g (Some a) (Some a) (Some a) =
      Some (m, g, Some a, Some a, False)" for k m g
    using old by (simp add: snapshot_loop.simps(2) i)
  show ?thesis
    using r(1) r(5) absent
    by (auto simp: UpdateNodeInfoSnapshot_def Let_def r(4) h loop)
qed

theorem moved_node_missing_witness:
  "\<exists>q st a q1 st1 q2 st2. AddNodeInfo example_k8s q a st = (q1, st1) \<and>
     UpdateNodeInfoSnapshot False q1 st1 = Some (q2, st2) \<and> fmlookup (pi_nodes q2) ''n1'' = Some a \<and>
     fmlookup (NodeInfoMap (nodeInfoSnapshot q2)) ''n1'' = None"
proof -
  let ?n = "example_node ''n1''"
  let ?ni = "fst (SetNode example_k8s (fst (NewNodeInfo example_k8s [] example_globals)) ?n example_globals)"
  let ?q = "(example_pool ''q'')\<lparr>nodeInfoSnapshot := \<lparr>NodeInfoMap = fmempty, snap_Generation = 7\<rparr>\<rparr>"
  let ?st = "example_store\<lparr>st_item := (\<lambda>_. \<lparr>li_info = ?ni, li_next = None, li_prev = None\<rparr>), st_fresh := 1\<rparr>"
  obtain n0 g0 where n0: "NewNodeInfo example_k8s [] example_globals = (n0, g0)" by fastforce
  obtain n1 g1 where n1: "SetNode example_k8s n0 ?n example_globals = (n1, g1)" by fastforce
  note f = NewNodeInfo_empty_facts[OF n0] SetNode_facts[OF n1]
  have i: "info_of ?st 0 = n1" using n0 n1 by (simp add: info_of_def)
  have name: "node_Name ?n = ''n1''" by (simp add: example_node_def)
  have inv: "pool_inv example_k8s ?q ?st []"
    using tree_inv_new by (simp add: example_pool_def NewPoolInfo_def SetPool_def pool_inv_def list_inv_def items_inv_def
      sums_inv_def dlist_def pool_pods_def pool_nodes_def newNodeTree_def members_def zone_nodes_def)
  have "ni_generation n1 \<le>s 7" using f by (simp add: example_globals_def word_sle_eq)
  moreover have "item_ok example_k8s ''n1'' n1" using f name by (simp add: item_ok_def uids_ok_def ports_disjoint_def)
  moreover have "unlink 0 ?st = ?st" by (rule unlink_alone) simp_all
  moreover have "fmlookup (pi_nodes ?q) ''n1'' = None" by (simp add: example_pool_def SetPool_def NewPoolInfo_def)
  moreover have "ni_node n1 = Some ?n" using f by simp
  ultimately show ?thesis
    using moved_node_missing[OF inv, of 0 ?n False] i name by fastforce
qed

end
