(* ===== verification/Pool_Queue.thy ===== *)
theory Pool_Queue
  imports Queue_Places Pool_Info
begin

text \<open>
  The queues of all pools, \<open>pkg/scheduler/internal/queue/pool_queue.go\<close>: one priority queue per pool
  name, and one under the empty name for the pods of no pool. A pool queue orders its pods by
  \<open>poolQueuePodPriorityComp\<close>: the pods of the pool itself come before the pods that only borrow it. Which
  pool a pod belongs to depends on the pools that exist, so the ordering functions are functions of the
  current map of queues.

  \<open>qord\<close> is the order in which a \<open>range\<close> over the queues visits the pool names, \<open>ords n\<close> the visiting
  orders of the three sub-queues of queue \<open>n\<close>.
\<close>

subsection \<open>Data and ordering\<close>

record PoolQueue =
  queues :: "(string, PriorityQueue) fmap"

datatype pool_queue_error = DefaultQueueNotFound | QueueNotFound string | QueueError queue_error

type_synonym sub_orders = "string list \<times> string list \<times> string list"

definition matchPoolQueueNameForPod :: "(string, PriorityQueue) fmap \<Rightarrow> Pod \<Rightarrow> string" where
  "matchPoolQueueNameForPod qs pod =
     (let poolName = GetPodAnnotationsPoolName pod in
      if fmlookup qs poolName \<noteq> None then poolName else DefaultPoolName)"

definition poolQueuePodPriorityComp :: "(string, PriorityQueue) fmap \<Rightarrow> string \<Rightarrow> podInfo LessFunc" where
  "poolQueuePodPriorityComp qs poolName pInfo1 pInfo2 =
     (let prio1 = GetPodPriority (qpod pInfo1); prio2 = GetPodPriority (qpod pInfo2);
          pn1 = matchPoolQueueNameForPod qs (qpod pInfo1); pn2 = matchPoolQueueNameForPod qs (qpod pInfo2)
      in if pn1 = poolName \<and> pn2 = poolName
         then prio2 <s prio1 \<or> prio1 = prio2 \<and> Before (timestamp pInfo1) (timestamp pInfo2)
         else if pn1 = poolName \<and> pn2 \<noteq> poolName then True
         else if pn1 \<noteq> poolName \<and> pn2 = poolName then False
         else prio2 <s prio1 \<or> prio1 = prio2 \<and> Before (timestamp pInfo1) (timestamp pInfo2))"

definition NewPoolQueue :: PoolQueue where
  "NewPoolQueue = \<lparr>queues = fmupd DefaultPoolName NewPriorityQueue fmempty\<rparr>"

definition GetQueue :: "PoolQueue \<Rightarrow> string \<Rightarrow> pool_queue_error + PriorityQueue" where
  "GetQueue pq poolName =
     (case fmlookup (queues pq) poolName of Some q \<Rightarrow> Inr q | None \<Rightarrow> Inl (QueueNotFound poolName))"

definition getPriorityQueue :: "PoolQueue \<Rightarrow> string \<Rightarrow> pool_queue_error + (PriorityQueue \<times> string)" where
  "getPriorityQueue pq poolName =
     (case fmlookup (queues pq) poolName of
        Some q \<Rightarrow> Inr (q, poolName)
      | None \<Rightarrow>
          (case fmlookup (queues pq) DefaultPoolName of
             Some q \<Rightarrow> Inr (q, DefaultPoolName)
           | None \<Rightarrow> Inl DefaultQueueNotFound))"

definition set_queue :: "string \<Rightarrow> PriorityQueue \<Rightarrow> PoolQueue \<Rightarrow> PoolQueue" where
  "set_queue n q pq = pq\<lparr>queues := fmupd n q (queues pq)\<rparr>"

definition pending :: "sub_orders \<Rightarrow> PriorityQueue \<Rightarrow> Pod list" where
  "pending o3 q = (case o3 of (ordA, ordB, ordU) \<Rightarrow> PriorityQueue_PendingPods ordA ordB ordU q)"

subsection \<open>Adding and removing queues\<close>

definition AddQueue :: "PoolQueue \<Rightarrow> string \<Rightarrow> PoolQueue" where
  "AddQueue pq poolName =
     (if fmlookup (queues pq) poolName = None then set_queue poolName NewPriorityQueue pq else pq)"

text \<open>The loop of \<open>RemoveQueue\<close> adds the pods to the default queue; errors are only logged.\<close>

definition add_to_queue :: "k8s \<Rightarrow> Time \<Rightarrow> string \<Rightarrow> Pod \<Rightarrow> PoolQueue \<Rightarrow> PoolQueue option" where
  "add_to_queue L now n pod pq =
     (case fmlookup (queues pq) n of
        None \<Rightarrow> None
      | Some q \<Rightarrow>
          map_option (\<lambda>(q', _). set_queue n q' pq)
            (PriorityQueue_AddIfNotPresent L (poolQueuePodPriorityComp (queues pq) n) now pod q))"

definition RemoveQueue :: "k8s \<Rightarrow> Time \<Rightarrow> sub_orders \<Rightarrow> PoolQueue \<Rightarrow> string \<Rightarrow> PoolQueue option" where
  "RemoveQueue L now o3 pq poolName =
     (case fmlookup (queues pq) poolName of
        None \<Rightarrow> Some pq
      | Some q \<Rightarrow>
          let pq1 = pq\<lparr>queues := fmdrop poolName (queues pq)\<rparr> in
          if fmlookup (queues pq1) DefaultPoolName = None then Some pq1
          else foldM (add_to_queue L now DefaultPoolName) (pending o3 q) pq1)"

subsection \<open>Operations on pods\<close>

definition with_error :: "('a \<times> queue_error option) option \<Rightarrow> ('a \<Rightarrow> PoolQueue) \<Rightarrow> (PoolQueue \<times> pool_queue_error option) option" where
  "with_error r f = map_option (\<lambda>(q, e). (f q, map_option QueueError e)) r"

definition PoolQueue_Add :: "k8s \<Rightarrow> Time \<Rightarrow> Pod \<Rightarrow> PoolQueue \<Rightarrow> (PoolQueue \<times> pool_queue_error option) option" where
  "PoolQueue_Add L now pod pq =
     (case getPriorityQueue pq (GetPodAnnotationsPoolName pod) of
        Inl e \<Rightarrow> Some (pq, Some e)
      | Inr (q, n) \<Rightarrow>
          with_error (PriorityQueue_Add L (poolQueuePodPriorityComp (queues pq) n) now pod q) (\<lambda>q'. set_queue n q' pq))"

definition PoolQueue_AddIfNotPresent :: "k8s \<Rightarrow> Time \<Rightarrow> Pod \<Rightarrow> PoolQueue \<Rightarrow> (PoolQueue \<times> pool_queue_error option) option" where
  "PoolQueue_AddIfNotPresent L now pod pq =
     (case getPriorityQueue pq (GetPodAnnotationsPoolName pod) of
        Inl e \<Rightarrow> Some (pq, Some e)
      | Inr (q, n) \<Rightarrow>
          with_error (PriorityQueue_AddIfNotPresent L (poolQueuePodPriorityComp (queues pq) n) now pod q) (\<lambda>q'. set_queue n q' pq))"

text \<open>The queue that has a pending pod with the given UID: the first one in visiting order.\<close>

definition queue_with :: "string list \<Rightarrow> (string \<Rightarrow> sub_orders) \<Rightarrow> string \<Rightarrow> PoolQueue \<Rightarrow> string option" where
  "queue_with qord ords uid pq =
     List.find (\<lambda>n. case fmlookup (queues pq) n of
                      None \<Rightarrow> False
                    | Some q \<Rightarrow> \<exists>p \<in> set (pending (ords n) q). pod_UID p = uid) qord"

definition PoolQueue_Delete ::
  "k8s \<Rightarrow> string list \<Rightarrow> (string \<Rightarrow> sub_orders) \<Rightarrow> Pod \<Rightarrow> PoolQueue \<Rightarrow> PoolQueue option" where
  "PoolQueue_Delete L qord ords pod pq =
     (case queue_with qord ords (pod_UID pod) pq of
        None \<Rightarrow> Some pq
      | Some n \<Rightarrow>
          (case fmlookup (queues pq) n of
             None \<Rightarrow> None
           | Some q \<Rightarrow> map_option (\<lambda>q'. set_queue n q' pq) (PriorityQueue_Delete L (poolQueuePodPriorityComp (queues pq) n) pod q)))"

text \<open>The log statement of \<open>Update\<close> reads fields of \<open>oldPod\<close>, so a nil \<open>oldPod\<close> panics once the pod is found.\<close>

definition PoolQueue_Update ::
  "k8s \<Rightarrow> Time \<Rightarrow> string list \<Rightarrow> (string \<Rightarrow> sub_orders) \<Rightarrow> Pod option \<Rightarrow> Pod \<Rightarrow> PoolQueue \<Rightarrow>
     (PoolQueue \<times> pool_queue_error option) option" where
  "PoolQueue_Update L now qord ords oldPod newPod pq =
     (case queue_with qord ords (pod_UID newPod) pq of
        None \<Rightarrow> Some (pq, None)
      | Some n \<Rightarrow>
          (case (oldPod, fmlookup (queues pq) n) of
             (Some old, Some q) \<Rightarrow>
               with_error (PriorityQueue_Update L (poolQueuePodPriorityComp (queues pq) n) now (Some old) newPod q)
                 (\<lambda>q'. set_queue n q' pq)
           | _ \<Rightarrow> None))"

definition NumQueues :: "PoolQueue \<Rightarrow> nat" where
  "NumQueues pq = fcard (fmdom (queues pq))"

definition PoolQueue_NumUnschedulablePods :: "string list \<Rightarrow> PoolQueue \<Rightarrow> nat" where
  "PoolQueue_NumUnschedulablePods qord pq =
     sum_list (map NumUnschedulablePods (List.map_filter (fmlookup (queues pq)) qord))"

definition NumUnschedulablePodsIn :: "PoolQueue \<Rightarrow> string \<Rightarrow> nat" where
  "NumUnschedulablePodsIn pq poolName =
     (case fmlookup (queues pq) poolName of Some q \<Rightarrow> NumUnschedulablePods q | None \<Rightarrow> 0)"

definition MoveAllToActiveQueueIn ::
  "k8s \<Rightarrow> Time \<Rightarrow> (string \<Rightarrow> sub_orders) \<Rightarrow> string \<Rightarrow> PoolQueue \<Rightarrow> PoolQueue option" where
  "MoveAllToActiveQueueIn L now ords poolName pq =
     (case fmlookup (queues pq) poolName of
        None \<Rightarrow> Some pq
      | Some q \<Rightarrow>
          map_option (\<lambda>q'. set_queue poolName q' pq)
            (MoveAllToActiveQueue L (poolQueuePodPriorityComp (queues pq) poolName) now (snd (snd (ords poolName))) q))"

definition PoolQueue_MoveAllToActiveQueue ::
  "k8s \<Rightarrow> Time \<Rightarrow> string list \<Rightarrow> (string \<Rightarrow> sub_orders) \<Rightarrow> PoolQueue \<Rightarrow> PoolQueue option" where
  "PoolQueue_MoveAllToActiveQueue L now qord ords pq = foldM (MoveAllToActiveQueueIn L now ords) qord pq"

definition PoolQueue_AssignedPodAdded :: "k8s \<Rightarrow> Time \<Rightarrow> (string \<Rightarrow> sub_orders) \<Rightarrow> Pod \<Rightarrow> PoolQueue \<Rightarrow> PoolQueue option" where
  "PoolQueue_AssignedPodAdded L now ords pod pq =
     (case getPriorityQueue pq (GetPodAnnotationsPoolName pod) of
        Inl _ \<Rightarrow> Some pq
      | Inr (q, n) \<Rightarrow>
          map_option (\<lambda>q'. set_queue n q' pq)
            (PriorityQueue_AssignedPodAdded L (poolQueuePodPriorityComp (queues pq) n) now (snd (snd (ords n))) pod q))"

definition PoolQueue_AssignedPodUpdated :: "k8s \<Rightarrow> Time \<Rightarrow> (string \<Rightarrow> sub_orders) \<Rightarrow> Pod \<Rightarrow> PoolQueue \<Rightarrow> PoolQueue option" where
  "PoolQueue_AssignedPodUpdated L now ords pod pq =
     (case getPriorityQueue pq (GetPodAnnotationsPoolName pod) of
        Inl _ \<Rightarrow> Some pq
      | Inr (q, n) \<Rightarrow>
          map_option (\<lambda>q'. set_queue n q' pq)
            (PriorityQueue_AssignedPodUpdated L (poolQueuePodPriorityComp (queues pq) n) now (snd (snd (ords n))) pod q))"

definition PoolQueue_PendingPods :: "string list \<Rightarrow> (string \<Rightarrow> sub_orders) \<Rightarrow> PoolQueue \<Rightarrow> Pod list" where
  "PoolQueue_PendingPods qord ords pq =
     concat (map (\<lambda>n. case fmlookup (queues pq) n of None \<Rightarrow> [] | Some q \<Rightarrow> pending (ords n) q) qord)"

definition PoolQueue_NominatedPodsForNode :: "string list \<Rightarrow> PoolQueue \<Rightarrow> string \<Rightarrow> Pod list" where
  "PoolQueue_NominatedPodsForNode qord pq nodeName =
     concat (map (\<lambda>q. PriorityQueue_NominatedPodsForNode q nodeName) (List.map_filter (fmlookup (queues pq)) qord))"

definition PoolQueue_Close :: "PoolQueue \<Rightarrow> PoolQueue" where
  "PoolQueue_Close pq = pq\<lparr>queues := fmmap PriorityQueue_Close (queues pq)\<rparr>"

definition GetPoolQueueNameIfNotPresent :: "PoolQueue \<Rightarrow> Pod \<Rightarrow> string" where
  "GetPoolQueueNameIfNotPresent pq pod = matchPoolQueueNameForPod (queues pq) pod"

text \<open>One iteration of \<open>MoveAllBorrowingPodsToSelfQueue\<close>. \<open>matchPoolQueueNameForPod\<close> returns the name of an
  existing queue or the default name; calling a method on a missing default queue panics.\<close>

definition move_borrowing_pod :: "k8s \<Rightarrow> Time \<Rightarrow> string \<Rightarrow> Pod \<Rightarrow> PoolQueue \<Rightarrow> PoolQueue option" where
  "move_borrowing_pod L now poolName pod pq =
     (let selfPoolName = matchPoolQueueNameForPod (queues pq) pod in
      if selfPoolName \<noteq> poolName
      then case fmlookup (queues pq) poolName of
          None \<Rightarrow> None
        | Some q \<Rightarrow>
            Option.bind (PriorityQueue_Delete L (poolQueuePodPriorityComp (queues pq) poolName) pod q) (\<lambda>q'.
              let pq1 = set_queue poolName q' pq;
                  selfName = (if fmlookup (queues pq1) selfPoolName \<noteq> None then selfPoolName else DefaultPoolName)
              in add_to_queue L now selfName pod pq1)
      else Some pq)"

definition MoveAllBorrowingPodsToSelfQueue :: "k8s \<Rightarrow> Time \<Rightarrow> sub_orders \<Rightarrow> PoolQueue \<Rightarrow> string \<Rightarrow> PoolQueue option" where
  "MoveAllBorrowingPodsToSelfQueue L now o3 pq poolName =
     (case fmlookup (queues pq) poolName of
        None \<Rightarrow> Some pq
      | Some q \<Rightarrow> foldM (move_borrowing_pod L now poolName) (pending o3 q) pq)"

definition HasSelfPoolPendingPods :: "sub_orders \<Rightarrow> PoolQueue \<Rightarrow> string \<Rightarrow> bool" where
  "HasSelfPoolPendingPods o3 pq poolName =
     (case fmlookup (queues pq) poolName of
        None \<Rightarrow> False
      | Some q \<Rightarrow> list_ex (\<lambda>pod. matchPoolQueueNameForPod (queues pq) pod = poolName) (pending o3 q))"

text \<open>\<open>MakeNextPodFunc\<close>: the function the scheduling loop of a pool calls.\<close>

datatype next_result = NextPod Pod | NextQueueDeleted | NextQueueClosed | NextError heap_error | NextWait

definition MakeNextPodFunc :: "PoolQueue \<Rightarrow> string \<Rightarrow> (PoolQueue \<times> next_result) option" where
  "MakeNextPodFunc pq poolName =
     (case GetQueue pq poolName of
        Inl _ \<Rightarrow> Some (pq, NextQueueDeleted)
      | Inr q \<Rightarrow>
          map_option (\<lambda>(q', r). (set_queue poolName q' pq, case r of
              Popped pod \<Rightarrow> NextPod pod | QueueClosed \<Rightarrow> NextQueueClosed | PopError e \<Rightarrow> NextError e | Wait \<Rightarrow> NextWait))
            (PriorityQueue_Pop (poolQueuePodPriorityComp (queues pq) poolName) q))"

subsection \<open>The ordering function\<close>

lemma poolComp_alt:
  "poolQueuePodPriorityComp qs n = (\<lambda>x y.
     if (matchPoolQueueNameForPod qs (qpod x) = n) = (matchPoolQueueNameForPod qs (qpod y) = n)
     then activeQComp x y else matchPoolQueueNameForPod qs (qpod x) = n)"
  by (intro ext) (auto simp: poolQueuePodPriorityComp_def activeQComp_def Let_def)

interpretation po: less_order "poolQueuePodPriorityComp qs n" for qs n
  unfolding poolComp_alt by (rule ao.less_order_first)

interpretation qp: queue_on "heap_inv (poolQueuePodPriorityComp qs n)" L "poolQueuePodPriorityComp qs n" for L :: k8s and qs n
  by (rule queue_on_order) (rule po.less_order_axioms)

subsection \<open>Invariant and effect of the operations\<close>

text \<open>The default queue exists and every queue is well formed. \<open>orders_cover\<close>: the visiting orders of the
  sub-queues visit every key once.\<close>

definition pq_inv :: "k8s \<Rightarrow> PoolQueue \<Rightarrow> bool" where
  "pq_inv L pq \<longleftrightarrow> fmlookup (queues pq) DefaultPoolName \<noteq> None \<and>
     (\<forall>n q. fmlookup (queues pq) n = Some q \<longrightarrow> queue_inv heap_wf L q)"

definition orders_cover :: "sub_orders \<Rightarrow> PriorityQueue \<Rightarrow> bool" where
  "orders_cover o3 q \<longleftrightarrow> (case o3 of (ordA, ordB, ordU) \<Rightarrow>
     distinct ordA \<and> fset (fmdom (heap_content (activeQ q))) \<subseteq> set ordA \<and>
     distinct ordB \<and> fset (fmdom (heap_content (podBackoffQ q))) \<subseteq> set ordB \<and> range_of q ordU)"

lemma pending_places:
  assumes "queue_inv heap_wf L q" "orders_cover o3 q"
  shows "distinct (map id_of (pending o3 q))"
    "pod \<in> set (pending o3 q) \<longleftrightarrow> (\<exists>w x. where_is q (id_of pod) = Some (w, x) \<and> qpod x = pod)"
  using qw.PendingPods_places[OF assms(1)] assms(2)
  by (auto simp: pending_def orders_cover_def simp del: distinct_map split: prod.splits)

lemma pending_valid: "queue_inv heap_wf L q \<Longrightarrow> orders_cover o3 q \<Longrightarrow> pod \<in> set (pending o3 q) \<Longrightarrow> valid_pod pod"
  using pending_places(2)[of L q o3 pod] where_is_id(1) by blast

lemma lookup_set_queue [simp]: "fmlookup (queues (set_queue n q pq)) m = (if m = n then Some q else fmlookup (queues pq) m)"
  by (simp add: set_queue_def)

lemma pq_invD:
  assumes "pq_inv L pq"
  shows "fmlookup (queues pq) DefaultPoolName \<noteq> None" "fmlookup (queues pq) n = Some q \<Longrightarrow> queue_inv heap_wf L q"
  using assms unfolding pq_inv_def by blast+

lemma pq_inv_set: "pq_inv L pq \<Longrightarrow> queue_inv heap_wf L q \<Longrightarrow> pq_inv L (set_queue n q pq)"
  by (auto simp: pq_inv_def)

lemma match_exists: "pq_inv L pq \<Longrightarrow> fmlookup (queues pq) (matchPoolQueueNameForPod (queues pq) pod) \<noteq> None"
  by (auto simp: matchPoolQueueNameForPod_def Let_def dest: pq_invD(1))

lemma match_cong: "fmdom qs = fmdom qs' \<Longrightarrow> matchPoolQueueNameForPod qs pod = matchPoolQueueNameForPod qs' pod"
proof -
  assume "fmdom qs = fmdom qs'"
  then have "fmlookup qs n = None \<longleftrightarrow> fmlookup qs' n = None" for n by (metis notin_fmdom_lookup)
  then show ?thesis by (simp only: matchPoolQueueNameForPod_def)
qed

text \<open>\<open>getPriorityQueue\<close> finds the queue \<open>matchPoolQueueNameForPod\<close> names.\<close>

lemma getPriorityQueue_match:
  assumes "pq_inv L pq"
  obtains q where "getPriorityQueue pq (GetPodAnnotationsPoolName pod) = Inr (q, matchPoolQueueNameForPod (queues pq) pod)"
    "fmlookup (queues pq) (matchPoolQueueNameForPod (queues pq) pod) = Some q" "queue_inv heap_wf L q"
proof -
  let ?n = "matchPoolQueueNameForPod (queues pq) pod"
  obtain q where q: "fmlookup (queues pq) ?n = Some q" using match_exists[OF assms, of pod] by auto
  then have "getPriorityQueue pq (GetPodAnnotationsPoolName pod) = Inr (q, ?n)"
    by (auto simp: getPriorityQueue_def matchPoolQueueNameForPod_def Let_def split: option.splits if_splits)
  with that q pq_invD(2)[OF assms q] show thesis by blast
qed

lemma add_to_queue_effect:
  assumes keys: "k8s_keys L" and inv: "pq_inv L pq" and n: "fmlookup (queues pq) n = Some q" and v: "valid_pod pod"
  shows "\<exists>q'. add_to_queue L now n pod pq = Some (set_queue n q' pq) \<and> queue_inv heap_wf L q' \<and>
    where_is q' = (if where_is q (id_of pod) \<noteq> None then where_is q else (where_is q)(id_of pod \<mapsto> (Active, newPodInfo now pod)))"
  using qw.AddIfNotPresent_effect[OF keys pq_invD(2)[OF inv n] v, of "poolQueuePodPriorityComp (queues pq) n" now] n
  by (auto simp: add_to_queue_def)

lemma add_all_effect:
  assumes keys: "k8s_keys L"
  shows "pq_inv L pq \<Longrightarrow> fmlookup (queues pq) n = Some q \<Longrightarrow> \<forall>p \<in> set pods. valid_pod p \<Longrightarrow>
    \<exists>pq' q'. foldM (add_to_queue L now n) pods pq = Some pq' \<and> pq_inv L pq' \<and> fmlookup (queues pq') n = Some q' \<and>
      (\<forall>m. m \<noteq> n \<longrightarrow> fmlookup (queues pq') m = fmlookup (queues pq) m) \<and>
      where_is q' = (\<lambda>i. case where_is q i of
          Some r \<Rightarrow> Some r
        | None \<Rightarrow> map_option (\<lambda>p. (Active, newPodInfo now p)) (List.find (\<lambda>p. id_of p = i) pods))"
proof (induction pods arbitrary: pq q)
  case Nil
  have "where_is q = (\<lambda>i. case where_is q i of Some r \<Rightarrow> Some r
        | None \<Rightarrow> map_option (\<lambda>p. (Active, newPodInfo now p)) (List.find (\<lambda>p. id_of p = i) []))"
    by (rule ext) (simp split: option.split)
  with Nil show ?case by (intro exI[of _ pq] exI[of _ q]) simp
next
  case (Cons p pods)
  have v: "valid_pod p" using Cons.prems(3) by simp
  obtain q1 where q1: "add_to_queue L now n p pq = Some (set_queue n q1 pq)" "queue_inv heap_wf L q1"
    "where_is q1 = (if where_is q (id_of p) \<noteq> None then where_is q else (where_is q)(id_of p \<mapsto> (Active, newPodInfo now p)))"
    using add_to_queue_effect[OF keys Cons.prems(1,2) v] by blast
  let ?pq = "set_queue n q1 pq"
  have lk: "fmlookup (queues ?pq) n = Some q1" by simp
  obtain pq' q' where pq': "foldM (add_to_queue L now n) pods ?pq = Some pq'" "pq_inv L pq'" "fmlookup (queues pq') n = Some q'"
    "\<forall>m. m \<noteq> n \<longrightarrow> fmlookup (queues pq') m = fmlookup (queues ?pq) m"
    "where_is q' = (\<lambda>i. case where_is q1 i of Some r \<Rightarrow> Some r
        | None \<Rightarrow> map_option (\<lambda>p. (Active, newPodInfo now p)) (List.find (\<lambda>p. id_of p = i) pods))"
    using Cons.IH[OF pq_inv_set[OF Cons.prems(1) q1(2)] lk] Cons.prems(3) by auto
  have "where_is q' = (\<lambda>i. case where_is q i of Some r \<Rightarrow> Some r
        | None \<Rightarrow> map_option (\<lambda>p. (Active, newPodInfo now p)) (List.find (\<lambda>p. id_of p = i) (p # pods)))"
    unfolding pq'(5) q1(3) by (rule ext) (auto split: option.split)
  with pq'(1-4) q1(1) show ?case by auto
qed

subsection \<open>Moving the borrowing pods home\<close>

lemma move_borrowing_step:
  assumes keys: "k8s_keys L" and inv: "pq_inv L pq" and q: "fmlookup (queues pq) n = Some q" and v: "valid_pod p"
    and b: "matchPoolQueueNameForPod (queues pq) p \<noteq> n"
  shows "\<exists>q' m qm qm'. m = matchPoolQueueNameForPod (queues pq) p \<and> fmlookup (queues pq) m = Some qm \<and>
    move_borrowing_pod L now n p pq = Some (set_queue m qm' (set_queue n q' pq)) \<and>
    queue_inv heap_wf L q' \<and> queue_inv heap_wf L qm' \<and> where_is q' = (where_is q)(id_of p := None) \<and>
    where_is qm' (id_of p) \<noteq> None \<and> (\<forall>i. where_is qm i \<noteq> None \<longrightarrow> where_is qm' i = where_is qm i)"
proof -
  let ?m = "matchPoolQueueNameForPod (queues pq) p"
  obtain qm where qm: "fmlookup (queues pq) ?m = Some qm" using match_exists[OF inv, of p] by auto
  obtain q' where q': "PriorityQueue_Delete L (poolQueuePodPriorityComp (queues pq) n) p q = Some q'" "queue_inv heap_wf L q'"
    "where_is q' = (where_is q)(id_of p := None)"
    using qw.Delete_effect[OF keys pq_invD(2)[OF inv q] v] by blast
  have m1: "fmlookup (queues (set_queue n q' pq)) ?m = Some qm" using qm b by simp
  obtain qm' where "add_to_queue L now ?m p (set_queue n q' pq) = Some (set_queue ?m qm' (set_queue n q' pq))" "queue_inv heap_wf L qm'"
    "where_is qm' = (if where_is qm (id_of p) \<noteq> None then where_is qm else (where_is qm)(id_of p \<mapsto> (Active, newPodInfo now p)))"
    using add_to_queue_effect[OF keys pq_inv_set[OF inv q'(2)] m1 v] by blast
  then show ?thesis using q b qm q' m1
    by (intro exI[of _ q'] exI[of _ ?m] exI[of _ qm] exI[of _ qm']) (auto simp: move_borrowing_pod_def Let_def)
qed

text \<open>The pods a queue keeps, and what every other queue has in addition, after the loop.\<close>

definition moved_home :: "string \<Rightarrow> Pod list \<Rightarrow> PoolQueue \<Rightarrow> PoolQueue \<Rightarrow> bool" where
  "moved_home n pods pq pq' \<longleftrightarrow> fmdom (queues pq') = fmdom (queues pq) \<and>
     (\<forall>q. fmlookup (queues pq) n = Some q \<longrightarrow> (\<exists>q'. fmlookup (queues pq') n = Some q' \<and>
        where_is q' = (\<lambda>i. if \<exists>p \<in> set pods. id_of p = i \<and> matchPoolQueueNameForPod (queues pq) p \<noteq> n then None else where_is q i))) \<and>
     (\<forall>m q. m \<noteq> n \<longrightarrow> fmlookup (queues pq) m = Some q \<longrightarrow> (\<exists>q'. fmlookup (queues pq') m = Some q' \<and>
        (\<forall>i. where_is q i \<noteq> None \<longrightarrow> where_is q' i = where_is q i) \<and>
        (\<forall>p \<in> set pods. matchPoolQueueNameForPod (queues pq) p = m \<longrightarrow> where_is q' (id_of p) \<noteq> None)))"

lemma move_borrowing_loop:
  assumes keys: "k8s_keys L"
  shows "pq_inv L pq \<Longrightarrow> fmlookup (queues pq) n \<noteq> None \<Longrightarrow> \<forall>p \<in> set pods. valid_pod p \<Longrightarrow>
    \<exists>pq'. foldM (move_borrowing_pod L now n) pods pq = Some pq' \<and> pq_inv L pq' \<and> moved_home n pods pq pq'"
proof (induction pods arbitrary: pq)
  case Nil
  then show ?case by (simp add: moved_home_def)
next
  case (Cons p pods)
  have v: "valid_pod p" using Cons.prems(3) by simp
  obtain q where q: "fmlookup (queues pq) n = Some q" using Cons.prems(2) by auto
  show ?case
  proof (cases "matchPoolQueueNameForPod (queues pq) p = n")
    case True
    then have "move_borrowing_pod L now n p pq = Some pq" by (simp add: move_borrowing_pod_def)
    then show ?thesis using Cons.IH[OF Cons.prems(1,2)] Cons.prems(3) True by (auto simp: moved_home_def)
  next
    case False
    obtain q' m qm qm' where m: "m = matchPoolQueueNameForPod (queues pq) p" "fmlookup (queues pq) m = Some qm"
      "move_borrowing_pod L now n p pq = Some (set_queue m qm' (set_queue n q' pq))" "queue_inv heap_wf L q'" "queue_inv heap_wf L qm'"
      "where_is q' = (where_is q)(id_of p := None)" "where_is qm' (id_of p) \<noteq> None"
      "\<forall>i. where_is qm i \<noteq> None \<longrightarrow> where_is qm' i = where_is qm i"
      using move_borrowing_step[OF keys Cons.prems(1) q v False, of now] by (elim exE conjE) (rule that)
    define pq1 where "pq1 = set_queue m qm' (set_queue n q' pq)"
    have inv1: "pq_inv L pq1" unfolding pq1_def by (intro pq_inv_set Cons.prems(1) m(4,5))
    have mn: "m \<noteq> n" using False m(1) by simp
    have n1: "fmlookup (queues pq1) n = Some q'" and m1: "fmlookup (queues pq1) m = Some qm'" using mn by (simp_all add: pq1_def)
    have dom1: "fmdom (queues pq1) = fmdom (queues pq)"
      using q m(2) by (auto simp: pq1_def set_queue_def fset_eq_iff)
    have match: "matchPoolQueueNameForPod (queues pq1) = matchPoolQueueNameForPod (queues pq)"
      by (rule ext) (rule match_cong[OF dom1])
    obtain pq' where pq': "foldM (move_borrowing_pod L now n) pods pq1 = Some pq'" "pq_inv L pq'" "moved_home n pods pq1 pq'"
      using Cons.IH[OF inv1] n1 Cons.prems(3) by auto
    have "moved_home n (p # pods) pq pq'"
      unfolding moved_home_def
    proof (intro conjI allI impI)
      show "fmdom (queues pq') = fmdom (queues pq)" using pq'(3) dom1 by (simp add: moved_home_def)
    next
      fix r assume "fmlookup (queues pq) n = Some r"
      with q have r: "r = q" by simp
      from pq'(3) n1 obtain q2 where q2: "fmlookup (queues pq') n = Some q2"
        "where_is q2 = (\<lambda>i. if \<exists>p \<in> set pods. id_of p = i \<and> matchPoolQueueNameForPod (queues pq) p \<noteq> n then None else where_is q' i)"
        unfolding moved_home_def match by blast
      have "where_is q2 = (\<lambda>i. if \<exists>p' \<in> set (p # pods). id_of p' = i \<and> matchPoolQueueNameForPod (queues pq) p' \<noteq> n then None else where_is q i)"
        unfolding q2(2) m(6) using False by (intro ext) (simp, blast)
      then show "\<exists>q'. fmlookup (queues pq') n = Some q' \<and> where_is q' =
          (\<lambda>i. if \<exists>p \<in> set (p # pods). id_of p = i \<and> matchPoolQueueNameForPod (queues pq) p \<noteq> n then None else where_is r i)"
        using q2(1) unfolding r by blast
    next
      fix l r assume l: "l \<noteq> n" "fmlookup (queues pq) l = Some r"
      let ?r1 = "if l = m then qm' else r"
      have "fmlookup (queues pq1) l = Some ?r1" using l mn by (simp add: pq1_def)
      with pq'(3) l(1) obtain r2 where r2: "fmlookup (queues pq') l = Some r2"
        "\<forall>i. where_is ?r1 i \<noteq> None \<longrightarrow> where_is r2 i = where_is ?r1 i"
        "\<forall>p \<in> set pods. matchPoolQueueNameForPod (queues pq) p = l \<longrightarrow> where_is r2 (id_of p) \<noteq> None"
        unfolding moved_home_def match by blast
      have "where_is r2 i = where_is r i" if "where_is r i \<noteq> None" for i
      proof (cases "l = m")
        case True
        then have "r = qm" using l(2) m(2) by simp
        then have "where_is qm' i = where_is r i" using m(8) that by blast
        then show ?thesis using r2(2)[rule_format, of i] True that by simp
      next
        case False
        then show ?thesis using r2(2)[rule_format, of i] that by simp
      qed
      moreover have "where_is r2 (id_of p) \<noteq> None" if "m = l" using that r2(2)[rule_format, of "id_of p"] m(7) by auto
      ultimately show "\<exists>q'. fmlookup (queues pq') l = Some q' \<and> (\<forall>i. where_is r i \<noteq> None \<longrightarrow> where_is q' i = where_is r i) \<and>
          (\<forall>p \<in> set (p # pods). matchPoolQueueNameForPod (queues pq) p = l \<longrightarrow> where_is q' (id_of p) \<noteq> None)"
        using r2(1,3) m(1) by auto
    qed
    then show ?thesis using pq'(1,2) m(3) by (auto simp: pq1_def)
  qed
qed

subsection \<open>Histories\<close>

text \<open>The calls of the event handlers and of the scheduling loops. The default pool cannot be removed.\<close>

inductive pool_queue_step :: "k8s \<Rightarrow> PoolQueue \<Rightarrow> PoolQueue \<Rightarrow> bool" for L where
  AddQ: "pool_queue_step L pq (AddQueue pq n)"
| RemoveQ: "n \<noteq> DefaultPoolName \<Longrightarrow> \<forall>q. fmlookup (queues pq) n = Some q \<longrightarrow> orders_cover o3 q \<Longrightarrow>
    RemoveQueue L now o3 pq n = Some pq' \<Longrightarrow> pool_queue_step L pq pq'"
| AddP: "valid_pod pod \<Longrightarrow> PoolQueue_Add L now pod pq = Some (pq', e) \<Longrightarrow> pool_queue_step L pq pq'"
| AddIfP: "valid_pod pod \<Longrightarrow> PoolQueue_AddIfNotPresent L now pod pq = Some (pq', e) \<Longrightarrow> pool_queue_step L pq pq'"
| DeleteP: "valid_pod pod \<Longrightarrow> PoolQueue_Delete L qord ords pod pq = Some pq' \<Longrightarrow> pool_queue_step L pq pq'"
| UpdateP: "valid_pod new \<Longrightarrow> id_of old = id_of new \<Longrightarrow> PoolQueue_Update L now qord ords (Some old) new pq = Some (pq', e) \<Longrightarrow>
    pool_queue_step L pq pq'"
| MoveIn: "\<forall>q. fmlookup (queues pq) n = Some q \<longrightarrow> range_of q (snd (snd (ords n))) \<Longrightarrow>
    MoveAllToActiveQueueIn L now ords n pq = Some pq' \<Longrightarrow> pool_queue_step L pq pq'"
| Borrowing: "\<forall>q. fmlookup (queues pq) n = Some q \<longrightarrow> orders_cover o3 q \<Longrightarrow>
    MoveAllBorrowingPodsToSelfQueue L now o3 pq n = Some pq' \<Longrightarrow> pool_queue_step L pq pq'"
| NextP: "MakeNextPodFunc pq n = Some (pq', r) \<Longrightarrow> pool_queue_step L pq pq'"
| In_queue: "fmlookup (queues pq) n = Some q \<Longrightarrow> queue_step L (poolQueuePodPriorityComp (queues pq) n) q q' \<Longrightarrow>
    pool_queue_step L pq (set_queue n q' pq)"
| CloseP: "pool_queue_step L pq (PoolQueue_Close pq)"

lemma Pop_keeps_inv:
  assumes "queue_inv heap_wf L q" "PriorityQueue_Pop lt q = Some (q', r)"
  shows "queue_inv heap_wf L q'"
proof (cases "\<exists>i x. where_is q i = Some (Active, x)")
  case True
  then show ?thesis using qw.Pop_effect[OF assms(1), of _ _ lt] assms(2) by fastforce
next
  case False
  then show ?thesis using qw.Pop_empty[OF assms(1), of lt] assms by auto
qed

lemma pool_queue_step_inv:
  assumes keys: "k8s_keys L" and "pool_queue_step L pq pq'" and inv: "pq_inv L pq"
  shows "pq_inv L pq'"
  using assms(2)
proof cases
  case (AddQ n)
  have "heap_wf (NewHeap :: podInfo heapData)" using ao.NewHeap_inv(1) by (simp add: heap_inv_def)
  from NewPriorityQueue_inv(1)[of heap_wf, OF this] show ?thesis using AddQ pq_inv_set[OF inv] inv by (simp add: AddQueue_def)
next
  case (RemoveQ n o3 now)
  show ?thesis
  proof (cases "fmlookup (queues pq) n")
    case None
    then show ?thesis using RemoveQ inv by (simp add: RemoveQueue_def)
  next
    case (Some q)
    let ?pq = "pq\<lparr>queues := fmdrop n (queues pq)\<rparr>"
    obtain df where df: "fmlookup (queues ?pq) DefaultPoolName = Some df" using pq_invD(1)[OF inv] RemoveQ(1) by auto
    have inv1: "pq_inv L ?pq" using inv RemoveQ(1) by (auto simp: pq_inv_def)
    have v: "\<forall>p \<in> set (pending o3 q). valid_pod p" using pending_valid[OF pq_invD(2)[OF inv Some]] RemoveQ(2) Some by blast
    show ?thesis using add_all_effect[OF keys inv1 df v, of now] RemoveQ(3) Some df by (auto simp: RemoveQueue_def Let_def)
  qed
next
  case (AddP pod now e)
  obtain q where q: "getPriorityQueue pq (GetPodAnnotationsPoolName pod) = Inr (q, matchPoolQueueNameForPod (queues pq) pod)"
    "queue_inv heap_wf L q" using getPriorityQueue_match[OF inv] by blast
  then show ?thesis using AddP qw.Add_effect[OF keys q(2) AddP(1), of "poolQueuePodPriorityComp (queues pq) (matchPoolQueueNameForPod (queues pq) pod)" now]
    by (auto simp: PoolQueue_Add_def with_error_def intro: pq_inv_set[OF inv])
next
  case (AddIfP pod now e)
  obtain q where q: "getPriorityQueue pq (GetPodAnnotationsPoolName pod) = Inr (q, matchPoolQueueNameForPod (queues pq) pod)"
    "queue_inv heap_wf L q" using getPriorityQueue_match[OF inv] by blast
  then show ?thesis using AddIfP qw.AddIfNotPresent_effect[OF keys q(2) AddIfP(1), of "poolQueuePodPriorityComp (queues pq) (matchPoolQueueNameForPod (queues pq) pod)" now]
    by (auto simp: PoolQueue_AddIfNotPresent_def with_error_def intro: pq_inv_set[OF inv])
next
  case (DeleteP pod qord ords)
  show ?thesis
  proof (cases "queue_with qord ords (pod_UID pod) pq")
    case (Some n)
    with DeleteP(2) obtain q where q: "fmlookup (queues pq) n = Some q" by (auto simp: PoolQueue_Delete_def split: option.splits)
    show ?thesis using qw.Delete_effect[OF keys pq_invD(2)[OF inv q] DeleteP(1), of "poolQueuePodPriorityComp (queues pq) n"] DeleteP(2) Some q
      by (auto simp: PoolQueue_Delete_def intro: pq_inv_set[OF inv])
  qed (use DeleteP inv in \<open>simp add: PoolQueue_Delete_def\<close>)
next
  case (UpdateP new old now qord ords e)
  show ?thesis
  proof (cases "queue_with qord ords (pod_UID new) pq")
    case (Some n)
    with UpdateP(3) obtain q where q: "fmlookup (queues pq) n = Some q" by (auto simp: PoolQueue_Update_def split: option.splits)
    show ?thesis
      using qw.Update_effect[OF keys pq_invD(2)[OF inv q] UpdateP(1,2), of "poolQueuePodPriorityComp (queues pq) n" now] UpdateP(3) Some q
      by (auto simp: PoolQueue_Update_def with_error_def intro: pq_inv_set[OF inv])
  qed (use UpdateP inv in \<open>simp add: PoolQueue_Update_def\<close>)
next
  case (MoveIn n ords now)
  show ?thesis
  proof (cases "fmlookup (queues pq) n")
    case (Some q)
    have r: "distinct (snd (snd (ords n)))" "fset (fmdom (unschedulableQ q)) \<subseteq> set (snd (snd (ords n)))"
      using MoveIn(1) Some by (auto simp: range_of_def)
    show ?thesis
      using qw.MoveAll_effect[OF keys pq_invD(2)[OF inv Some] r, of "poolQueuePodPriorityComp (queues pq) n" now] MoveIn(2) Some
      by (auto simp: MoveAllToActiveQueueIn_def intro: pq_inv_set[OF inv])
  qed (use MoveIn inv in \<open>simp add: MoveAllToActiveQueueIn_def\<close>)
next
  case (Borrowing n o3 now)
  show ?thesis
  proof (cases "fmlookup (queues pq) n")
    case (Some q)
    have v: "\<forall>p \<in> set (pending o3 q). valid_pod p" using pending_valid[OF pq_invD(2)[OF inv Some]] Borrowing(1) Some by blast
    show ?thesis using move_borrowing_loop[OF keys inv _ v, of n now] Borrowing(2) Some
      by (auto simp: MoveAllBorrowingPodsToSelfQueue_def)
  qed (use Borrowing inv in \<open>simp add: MoveAllBorrowingPodsToSelfQueue_def\<close>)
next
  case (NextP n r)
  then show ?thesis using inv pq_invD(2)[OF inv, of n] Pop_keeps_inv
    by (auto simp: MakeNextPodFunc_def GetQueue_def split: option.splits intro!: pq_inv_set)
next
  case (In_queue n q q')
  then show ?thesis using qw.step_inv[OF keys In_queue(3) pq_invD(2)[OF inv In_queue(2)]] pq_inv_set[OF inv] by simp
next
  case CloseP
  have "queue_inv heap_wf L (PriorityQueue_Close q)" if "queue_inv heap_wf L q" for q
    using that by (simp add: queue_inv_def PriorityQueue_Close_def)
  then show ?thesis using CloseP inv by (auto simp: pq_inv_def PoolQueue_Close_def)
qed

subsection \<open>Properties\<close>

definition pod_of_pool :: "string \<Rightarrow> string \<Rightarrow> int32 \<Rightarrow> Pod" where
  "pod_of_pool name pool prio = zero_Pod\<lparr>pod_UID := name, pod_Name := name, pod_Namespace := ''prod'',
     pod_Annotations := [(GroupNameAnnotationKey, pool)], pod_Priority := Some prio\<rparr>"

lemma NewPoolQueue_inv: "pq_inv L NewPoolQueue"
proof -
  have "heap_wf (NewHeap :: podInfo heapData)" using ao.NewHeap_inv(1) by (simp add: heap_inv_def)
  from NewPriorityQueue_inv(1)[of heap_wf, OF this] show ?thesis by (simp add: pq_inv_def NewPoolQueue_def)
qed

lemma example_queue:
  assumes "valid_pod pod" "GetPodAnnotationsPoolName pod = []"
  shows "\<exists>q. PoolQueue_Add example_k8s 1 pod NewPoolQueue = Some (set_queue [] q NewPoolQueue, None) \<and>
    queue_inv (heap_inv (poolQueuePodPriorityComp (queues NewPoolQueue) [])) example_k8s q \<and>
    where_is q = [id_of pod \<mapsto> (Active, newPodInfo 1 pod)]"
proof -
  note n = NewPriorityQueue_inv[of "heap_inv (poolQueuePodPriorityComp (queues NewPoolQueue) [])", OF po.NewHeap_inv(1)]
  from qp.Add_effect[OF k8s_keys_example n(1) assms(1), of 1] n(2) assms(2) show ?thesis
    by (auto simp: PoolQueue_Add_def getPriorityQueue_def NewPoolQueue_def DefaultPoolName_def with_error_def)
qed

text \<open>
  C26. The next pod for a pool is one of its own pods as long as the pool has an active pod of its own:
  pods that only borrow the pool wait. Among the own pods it is one of highest priority. This holds
  whenever the active queue is in the order of the current set of pools.
\<close>

theorem own_pods_first:
  assumes q: "fmlookup (queues pq) n = Some q"
    and inv: "queue_inv (heap_inv (poolQueuePodPriorityComp (queues pq) n)) L q"
    and own: "where_is q i = Some (Active, y)" "matchPoolQueueNameForPod (queues pq) (qpod y) = n"
  shows "\<exists>pq' pod. MakeNextPodFunc pq n = Some (pq', NextPod pod) \<and> matchPoolQueueNameForPod (queues pq) pod = n \<and>
    \<not> GetPodPriority pod <s GetPodPriority (qpod y)"
proof -
  let ?lt = "poolQueuePodPriorityComp (queues pq) n"
  obtain q' x h where q': "PriorityQueue_Pop ?lt q = Some (q', Popped (qpod x))" "Heap_Pop ?lt (activeQ q) = Some (h, Inr x)"
    using qp.Pop_effect[OF inv own(1)] by blast
  have "valid_id i" using where_is_id[OF inv own(1)] by auto
  then have l: "fmlookup (heap_content (activeQ q)) (id_key i) = Some y" using where_lookups(1)[OF inv] own(1) by simp
  then have ne: "heap_content (activeQ q) \<noteq> fmempty" by auto
  have first: "\<not> ?lt y x" using po.Heap_Pop_inv[OF queue_invD(1)[OF inv] ne] q'(2) l by auto
  then have "matchPoolQueueNameForPod (queues pq) (qpod x) = n" "\<not> activeQComp y x"
    using own(2) by (auto simp: poolComp_alt split: if_splits)
  then show ?thesis using q q'(1) by (auto simp: MakeNextPodFunc_def GetQueue_def activeQComp_def Let_def)
qed

theorem own_pods_first_witness:
  "\<exists>pq pq' pod. PoolQueue_Add example_k8s 1 (pod_of_pool ''a'' [] 3) NewPoolQueue = Some (pq, None) \<and>
     MakeNextPodFunc pq [] = Some (pq', NextPod pod)"
proof -
  let ?p = "pod_of_pool ''a'' [] 3"
  have v: "valid_pod ?p" "GetPodAnnotationsPoolName ?p = []"
    by (simp_all add: pod_of_pool_def valid_pod_def dns_name_def zero_Pod_def GetPodAnnotationsPoolName_def)
  obtain q where q: "PoolQueue_Add example_k8s 1 ?p NewPoolQueue = Some (set_queue [] q NewPoolQueue, None)"
    "queue_inv (heap_inv (poolQueuePodPriorityComp (queues NewPoolQueue) [])) example_k8s q"
    "where_is q = [id_of ?p \<mapsto> (Active, newPodInfo 1 ?p)]"
    using example_queue[OF v] by blast
  let ?pq = "set_queue [] q NewPoolQueue"
  have dom: "fmdom (queues ?pq) = fmdom (queues NewPoolQueue)"
    by (auto simp: NewPoolQueue_def DefaultPoolName_def set_queue_def fset_eq_iff)
  have m: "matchPoolQueueNameForPod (queues ?pq) = matchPoolQueueNameForPod (queues NewPoolQueue)"
    by (rule ext) (rule match_cong[OF dom])
  have inv: "queue_inv (heap_inv (poolQueuePodPriorityComp (queues ?pq) [])) example_k8s q"
    using q(2) unfolding poolComp_alt m .
  have own: "matchPoolQueueNameForPod (queues ?pq) (qpod (newPodInfo 1 ?p)) = []"
    by (simp add: matchPoolQueueNameForPod_def newPodInfo_def v(2) DefaultPoolName_def)
  have lk: "fmlookup (queues ?pq) [] = Some q" by simp
  have w: "where_is q (id_of ?p) = Some (Active, newPodInfo 1 ?p)" using q(3) by simp
  from own_pods_first[OF lk inv w own] q(1) show ?thesis by blast
qed

text \<open>
  C27. Removing the queue of a pool loses no pod: every pod pending in it, in whichever sub-queue, is
  pending in the default queue afterwards; pods that were in the default queue stay where they were, and
  the other queues are unchanged.
\<close>

theorem RemoveQueue_keeps_pods:
  assumes keys: "k8s_keys L" and inv: "pq_inv L pq" and q: "fmlookup (queues pq) n = Some q" and n: "n \<noteq> DefaultPoolName"
    and df: "fmlookup (queues pq) DefaultPoolName = Some df" and ord: "orders_cover o3 q"
  shows "\<exists>pq' df'. RemoveQueue L now o3 pq n = Some pq' \<and> pq_inv L pq' \<and> fmlookup (queues pq') n = None \<and>
    fmlookup (queues pq') DefaultPoolName = Some df' \<and>
    (\<forall>m. m \<noteq> n \<longrightarrow> m \<noteq> DefaultPoolName \<longrightarrow> fmlookup (queues pq') m = fmlookup (queues pq) m) \<and>
    (\<forall>i. where_is df i \<noteq> None \<longrightarrow> where_is df' i = where_is df i) \<and>
    (\<forall>i w x. where_is q i = Some (w, x) \<longrightarrow> where_is df i = None \<longrightarrow> where_is df' i = Some (Active, newPodInfo now (qpod x)))"
proof -
  let ?pq = "pq\<lparr>queues := fmdrop n (queues pq)\<rparr>"
  note iq = pq_invD(2)[OF inv q]
  have inv1: "pq_inv L ?pq" using inv n by (auto simp: pq_inv_def)
  have df1: "fmlookup (queues ?pq) DefaultPoolName = Some df" using df n by simp
  have v: "\<forall>p \<in> set (pending o3 q). valid_pod p" using pending_valid[OF iq ord] by blast
  obtain pq' df' where r: "foldM (add_to_queue L now DefaultPoolName) (pending o3 q) ?pq = Some pq'" "pq_inv L pq'"
    "fmlookup (queues pq') DefaultPoolName = Some df'" "\<forall>m. m \<noteq> DefaultPoolName \<longrightarrow> fmlookup (queues pq') m = fmlookup (queues ?pq) m"
    and w: "where_is df' = (\<lambda>i. case where_is df i of Some r \<Rightarrow> Some r
        | None \<Rightarrow> map_option (\<lambda>p. (Active, newPodInfo now p)) (List.find (\<lambda>p. id_of p = i) (pending o3 q)))"
    using add_all_effect[OF keys inv1 df1 v, of now] by blast
  have found: "List.find (\<lambda>p. id_of p = i) (pending o3 q) = Some (qpod x)" if x: "where_is q i = Some (w, x)" for i w x
  proof -
    note ix = where_is_id[OF iq x]
    have mem: "qpod x \<in> set (pending o3 q)" using pending_places(2)[OF iq ord] x ix(2) by blast
    have "p = qpod x" if "p \<in> set (pending o3 q)" "id_of p = i" for p
      using pending_places(1)[OF iq ord] that mem ix(2) by (metis distinct_map inj_on_def)
    moreover have "\<exists>p. List.find (\<lambda>p. id_of p = i) (pending o3 q) = Some p"
      using mem ix(2) by (cases "List.find (\<lambda>p. id_of p = i) (pending o3 q)") (auto simp: find_None_iff)
    moreover from this obtain p where p: "List.find (\<lambda>p. id_of p = i) (pending o3 q) = Some p" by blast
    moreover have "p \<in> set (pending o3 q)" "id_of p = i" using p by (auto simp: find_Some_iff)
    ultimately show ?thesis using p by blast
  qed
  have "RemoveQueue L now o3 pq n = Some pq'" using q df1 r(1) by (simp add: RemoveQueue_def Let_def)
  moreover have "where_is df' i = Some (Active, newPodInfo now (qpod x))" if "where_is q i = Some (v, x)" "where_is df i = None" for i v x
    using found[OF that(1)] that(2) by (simp add: w)
  ultimately show ?thesis using r n w by auto
qed

theorem RemoveQueue_keeps_pods_witness:
  "\<exists>pq. RemoveQueue example_k8s 5 ([], [], []) (AddQueue NewPoolQueue ''p'') ''p'' = Some pq \<and> fmlookup (queues pq) ''p'' = None"
proof -
  let ?pq = "AddQueue NewPoolQueue ''p''"
  have w: "heap_wf (NewHeap :: podInfo heapData)" using ao.NewHeap_inv(1) by (simp add: heap_inv_def)
  note n = NewPriorityQueue_inv(1)[of heap_wf example_k8s, OF w]
  have pq: "?pq = set_queue ''p'' NewPriorityQueue NewPoolQueue"
    by (simp add: AddQueue_def NewPoolQueue_def DefaultPoolName_def)
  have inv: "pq_inv example_k8s ?pq" unfolding pq by (rule pq_inv_set[OF NewPoolQueue_inv n])
  have q: "fmlookup (queues ?pq) ''p'' = Some NewPriorityQueue" unfolding pq by simp
  have df: "fmlookup (queues ?pq) DefaultPoolName = Some NewPriorityQueue" unfolding pq by (simp add: NewPoolQueue_def DefaultPoolName_def)
  have ord: "orders_cover ([], [], []) NewPriorityQueue"
    by (simp add: orders_cover_def range_of_def NewPriorityQueue_def ao.NewHeap_inv(2))
  from RemoveQueue_keeps_pods[OF k8s_keys_example inv q _ df ord, of 5] show ?thesis by (auto simp: DefaultPoolName_def)
qed

text \<open>
  \<open>MoveAllBorrowingPodsToSelfQueue\<close> sends every pod that only borrows the pool home: the queue of the
  pool keeps exactly its own pods, unchanged, every borrowing pod is pending in the queue of its own
  pool, and no pod of another queue is lost.
\<close>

theorem MoveBorrowing_sends_home:
  assumes keys: "k8s_keys L" and inv: "pq_inv L pq" and q: "fmlookup (queues pq) n = Some q" and ord: "orders_cover o3 q"
  shows "\<exists>pq'. MoveAllBorrowingPodsToSelfQueue L now o3 pq n = Some pq' \<and> pq_inv L pq' \<and>
    (\<exists>q'. fmlookup (queues pq') n = Some q' \<and>
      (\<forall>i. where_is q' i = (case where_is q i of
         Some (w, x) \<Rightarrow> if matchPoolQueueNameForPod (queues pq) (qpod x) = n then Some (w, x) else None | None \<Rightarrow> None))) \<and>
    (\<forall>i w x m. where_is q i = Some (w, x) \<longrightarrow> m = matchPoolQueueNameForPod (queues pq) (qpod x) \<longrightarrow> m \<noteq> n \<longrightarrow>
      (\<exists>q'. fmlookup (queues pq') m = Some q' \<and> where_is q' i \<noteq> None)) \<and>
    (\<forall>m r i. m \<noteq> n \<longrightarrow> fmlookup (queues pq) m = Some r \<longrightarrow> where_is r i \<noteq> None \<longrightarrow>
      (\<exists>r'. fmlookup (queues pq') m = Some r' \<and> where_is r' i = where_is r i))"
proof -
  let ?P = "pending o3 q" and ?home = "matchPoolQueueNameForPod (queues pq)"
  note iq = pq_invD(2)[OF inv q]
  note pp = pending_places[OF iq ord]
  have v: "\<forall>p \<in> set ?P. valid_pod p" using pending_valid[OF iq ord] by blast
  obtain pq' where pq': "foldM (move_borrowing_pod L now n) ?P pq = Some pq'" "pq_inv L pq'" "moved_home n ?P pq pq'"
    using move_borrowing_loop[OF keys inv _ v, of n now] q by auto
  have mem: "qpod x \<in> set ?P" "id_of (qpod x) = i" if "where_is q i = Some (w, x)" for i w x
    using pp(2)[of "qpod x"] where_is_id(2)[OF iq that] that by auto
  obtain q' where q': "fmlookup (queues pq') n = Some q'"
    "where_is q' = (\<lambda>i. if \<exists>p \<in> set ?P. id_of p = i \<and> ?home p \<noteq> n then None else where_is q i)"
    using pq'(3) q unfolding moved_home_def by blast
  have "where_is q' i = (case where_is q i of Some (w, x) \<Rightarrow> if ?home (qpod x) = n then Some (w, x) else None | None \<Rightarrow> None)" for i
  proof (cases "where_is q i")
    case None
    then show ?thesis by (simp add: q'(2))
  next
    case (Some wx)
    obtain w x where wx: "wx = (w, x)" by (cases wx)
    note m = mem[OF Some[unfolded wx]]
    have "(\<exists>p \<in> set ?P. id_of p = i \<and> ?home p \<noteq> n) \<longleftrightarrow> ?home (qpod x) \<noteq> n"
      using pp(1) m by (metis distinct_map inj_on_def)
    then show ?thesis using Some wx by (simp add: q'(2))
  qed
  moreover have "\<exists>q'. fmlookup (queues pq') m = Some q' \<and> where_is q' i \<noteq> None"
    if w: "where_is q i = Some (w, x)" and m: "m = ?home (qpod x)" "m \<noteq> n" for i w x m
  proof -
    obtain r where "fmlookup (queues pq) m = Some r" using match_exists[OF inv, of "qpod x"] m(1) by auto
    then show ?thesis using pq'(3) m mem[OF w] unfolding moved_home_def by metis
  qed
  moreover have "\<exists>r'. fmlookup (queues pq') m = Some r' \<and> where_is r' i = where_is r i"
    if "m \<noteq> n" "fmlookup (queues pq) m = Some r" "where_is r i \<noteq> None" for m r i
    using pq'(3) that unfolding moved_home_def by metis
  moreover have "MoveAllBorrowingPodsToSelfQueue L now o3 pq n = Some pq'"
    using pq'(1) q by (simp add: MoveAllBorrowingPodsToSelfQueue_def)
  ultimately show ?thesis using pq'(2) q'(1) by blast
qed

theorem MoveBorrowing_sends_home_witness:
  "\<exists>pq'. MoveAllBorrowingPodsToSelfQueue example_k8s 5 ([], [], []) NewPoolQueue [] = Some pq'"
proof -
  have q: "fmlookup (queues NewPoolQueue) [] = Some NewPriorityQueue" by (simp add: NewPoolQueue_def DefaultPoolName_def)
  have ord: "orders_cover ([], [], []) NewPriorityQueue"
    by (simp add: orders_cover_def range_of_def NewPriorityQueue_def ao.NewHeap_inv(2))
  from MoveBorrowing_sends_home[OF k8s_keys_example NewPoolQueue_inv q ord, of 5] show ?thesis by blast
qed

text \<open>
  Adding a pool changes the ordering of the existing queues without reordering them: a pod that
  waited in the default queue because its pool did not exist yet is handed out first, before a pod
  of the default pool itself, although the ordering function of the default queue puts the latter first.
\<close>

theorem AddQueue_leaves_stale_order:
  "\<exists>pq1 pq2 pq3. PoolQueue_Add example_k8s 1 (pod_of_pool ''a'' ''p'' 5) NewPoolQueue = Some (pq1, None) \<and>
     PoolQueue_Add example_k8s 2 (pod_of_pool ''b'' [] 1) pq1 = Some (pq2, None) \<and>
     MakeNextPodFunc (AddQueue pq2 ''p'') [] = Some (pq3, NextPod (pod_of_pool ''a'' ''p'' 5)) \<and>
     poolQueuePodPriorityComp (queues (AddQueue pq2 ''p'')) [] (newPodInfo 2 (pod_of_pool ''b'' [] 1))
       (newPodInfo 1 (pod_of_pool ''a'' ''p'' 5))"
proof -
  let ?a = "pod_of_pool ''a'' ''p'' 5" and ?b = "pod_of_pool ''b'' [] 1" and ?L = example_k8s
  let ?xa = "newPodInfo 1 ?a" and ?xb = "newPodInfo 2 ?b"
  define lt where "lt = poolQueuePodPriorityComp (queues NewPoolQueue) []"
  have pool: "GetPodAnnotationsPoolName ?a = ''p''" "GetPodAnnotationsPoolName ?b = []" "valid_pod ?a" "valid_pod ?b" "id_of ?a \<noteq> id_of ?b"
    and prio: "GetPodPriority ?a = 5" "GetPodPriority ?b = 1"
    by (simp_all add: pod_of_pool_def valid_pod_def dns_name_def zero_Pod_def GetPodAnnotationsPoolName_def id_of_def GetPodPriority_def)
  let ?i = "heap_inv (poolQueuePodPriorityComp (queues NewPoolQueue) [])"
  note n = NewPriorityQueue_inv[of ?i, OF po.NewHeap_inv(1)]
  have same: "poolQueuePodPriorityComp (queues (set_queue [] q NewPoolQueue)) [] = lt" for q
  proof -
    have "fmdom (queues (set_queue [] q NewPoolQueue)) = fmdom (queues NewPoolQueue)"
      by (auto simp: NewPoolQueue_def DefaultPoolName_def set_queue_def fset_eq_iff)
    from match_cong[OF this] show ?thesis unfolding lt_def poolComp_alt by simp
  qed
  obtain q1 where q1: "PriorityQueue_Add ?L lt 1 ?a NewPriorityQueue = Some (q1, None)" "queue_inv ?i ?L q1"
    "where_is q1 = [id_of ?a \<mapsto> (Active, ?xa)]"
    using qp.Add_effect[OF k8s_keys_example n(1) pool(3), of 1] n(2) unfolding lt_def by auto
  obtain q2 where q2: "PriorityQueue_Add ?L lt 2 ?b q1 = Some (q2, None)" "queue_inv ?i ?L q2"
    "where_is q2 = [id_of ?a \<mapsto> (Active, ?xa), id_of ?b \<mapsto> (Active, ?xb)]"
    using qp.Add_effect[OF k8s_keys_example q1(2) pool(4), of 2] q1(3) unfolding lt_def by auto
  let ?pq1 = "set_queue [] q1 NewPoolQueue" and ?pq2 = "set_queue [] q2 (set_queue [] q1 NewPoolQueue)"
  have add1: "PoolQueue_Add ?L 1 ?a NewPoolQueue = Some (?pq1, None)"
    using q1(1) pool(1) by (simp add: PoolQueue_Add_def getPriorityQueue_def NewPoolQueue_def DefaultPoolName_def with_error_def lt_def)
  have add2: "PoolQueue_Add ?L 2 ?b ?pq1 = Some (?pq2, None)"
    using q2(1) pool(2) by (simp add: PoolQueue_Add_def getPriorityQueue_def with_error_def same)
  have wa: "where_is q2 (id_of ?a) = Some (Active, ?xa)" using q2(3) pool(5) by simp
  have "lt ?xa ?xb"
    by (simp add: lt_def poolComp_alt matchPoolQueueNameForPod_def NewPoolQueue_def DefaultPoolName_def activeQComp_def
        newPodInfo_def pool prio word_sless_alt)
  moreover have va: "valid_id (id_of ?a)" using pool(3) by simp
  have la: "fmlookup (heap_content (activeQ q2)) (id_key (id_of ?a)) = Some ?xa" using where_lookups(1)[OF q2(2) va] wa by simp
  then have ne: "heap_content (activeQ q2) \<noteq> fmempty" by auto
  obtain k x where x: "Heap_Peek (activeQ q2) = Some (Some x)" "fmlookup (heap_content (activeQ q2)) k = Some x" "\<not> lt ?xa x"
    using po.Heap_Pop_inv[OF queue_invD(1)[OF q2(2)] ne] la unfolding lt_def by blast
  have "x = ?xa \<or> x = ?xb" using qp.active_lookup(3)[OF q2(2) x(2)] q2(3) by (auto split: if_splits)
  ultimately have peek: "Heap_Peek (activeQ q2) = Some (Some ?xa)" using x(1,3) by auto
  have wf: "heap_wf (activeQ q2)" using queue_invD(1)[OF q2(2)] by (simp add: heap_inv_def)
  let ?lt2 = "poolQueuePodPriorityComp (queues (AddQueue ?pq2 ''p'')) []"
  obtain h where "Heap_Pop ?lt2 (activeQ q2) = Some (h, Inr ?xa)" using Heap_Pop_wf[OF wf ne, of ?lt2] peek by auto
  moreover have "Heap_Len (activeQ q2) \<noteq> 0" using heap_wf_empty[OF wf] ne by (simp add: Heap_Len_def)
  moreover have "fmlookup (queues (AddQueue ?pq2 ''p'')) [] = Some q2" by (simp add: AddQueue_def)
  ultimately have "\<exists>pq3. MakeNextPodFunc (AddQueue ?pq2 ''p'') [] = Some (pq3, NextPod ?a)"
    by (simp add: MakeNextPodFunc_def GetQueue_def PriorityQueue_Pop_def newPodInfo_def)
  moreover have "?lt2 ?xb ?xa"
    by (simp add: poolComp_alt matchPoolQueueNameForPod_def AddQueue_def NewPoolQueue_def DefaultPoolName_def newPodInfo_def pool)
  ultimately show ?thesis using add1 add2 by blast
qed

text \<open>
  In every history of the pool queues the default queue exists, so that a pod always has a queue to
  go to, and in every queue each pod is in at most one sub-queue under its own key.
\<close>

theorem pool_queues_wf:
  assumes "k8s_keys L" "(pool_queue_step L)\<^sup>*\<^sup>* NewPoolQueue pq"
  shows "fmlookup (queues pq) DefaultPoolName \<noteq> None \<and> (\<forall>pod. \<exists>q. getPriorityQueue pq (GetPodAnnotationsPoolName pod) =
      Inr (q, matchPoolQueueNameForPod (queues pq) pod)) \<and>
    (\<forall>n q. fmlookup (queues pq) n = Some q \<longrightarrow> queue_inv heap_wf L q)"
proof -
  from assms(2) have "pq_inv L pq"
    by (induction rule: rtranclp_induct) (auto intro: pool_queue_step_inv[OF assms(1)] NewPoolQueue_inv)
  moreover from getPriorityQueue_match[OF this] have "\<exists>q. getPriorityQueue pq (GetPodAnnotationsPoolName pod) =
      Inr (q, matchPoolQueueNameForPod (queues pq) pod)" for pod by metis
  ultimately show ?thesis unfolding pq_inv_def by blast
qed

theorem pool_queues_wf_witness:
  "fmlookup (queues (AddQueue NewPoolQueue ''p'')) DefaultPoolName \<noteq> None"
proof -
  have "(pool_queue_step example_k8s)\<^sup>*\<^sup>* NewPoolQueue (AddQueue NewPoolQueue ''p'')"
    by (intro r_into_rtranclp pool_queue_step.AddQ)
  from pool_queues_wf[OF k8s_keys_example this] show ?thesis by blast
qed

end
