(* ===== verification/Topology_Pairs.thy ===== *)
theory Topology_Pairs
  imports Node_Info Sched_Util
begin

text \<open>
  \<open>topologyPairsMaps\<close> of \<open>algorithm/predicates/metadata.go\<close>: a relation between topology pairs (a label key and a value) and
  pods, kept as two maps, one from pairs to sets of pods and one from names of pods to sets of pairs.

  The code ranges over the maps in an unspecified order. The definitions give the result of such a loop at once;
  \<open>appendMaps_loop\<close> and \<open>removePod_loop\<close> show that this is what the loop computes, in every order. A set of pods has pointers as
  elements in the code; within one snapshot there is one object per pod, so that pods are compared as values here.

  The abstract view of the two maps is the relation \<open>tp_entries\<close>, which determines both of them (\<open>tp_ext\<close>).
\<close>

subsection \<open>Tabulated maps\<close>

definition fmtab :: "'a fset \<Rightarrow> ('a \<Rightarrow> 'b) \<Rightarrow> ('a, 'b) fmap" where
  "fmtab D f = Abs_fmap (\<lambda>x. if x |\<in>| D then Some (f x) else None)"

lemma fmlookup_fmtab [simp]: "fmlookup (fmtab D f) x = (if x |\<in>| D then Some (f x) else None)"
proof -
  have "finite (dom (\<lambda>x. if x |\<in>| D then Some (f x) else None))" by (rule finite_subset[of _ "fset D"]) (auto split: if_splits)
  then show ?thesis by (simp add: fmtab_def Abs_fmap_inverse)
qed

text \<open>The table is computed by the following rules.\<close>

lemma fmtab_rec [simp]:
  "fmtab {||} f = fmempty"
  "fmtab (finsert x D) f = fmupd x (f x) (fmtab D f)"
  by (rule fmap_ext; simp)+

subsection \<open>Data\<close>

record topologyPair =
  tp_key :: string
  tp_value :: string

type_synonym podSet = "Pod fset"
type_synonym topologyPairSet = "topologyPair fset"

record topologyPairsMaps =
  topologyPairToPods :: "(topologyPair, podSet) fmap"
  podToTopologyPairs :: "(string, topologyPairSet) fmap"

definition newTopologyPairsMaps :: topologyPairsMaps where
  "newTopologyPairsMaps = \<lparr>topologyPairToPods = fmempty, podToTopologyPairs = fmempty\<rparr>"

text \<open>Reading a set that is nil.\<close>

definition pods_at :: "topologyPairsMaps \<Rightarrow> topologyPair \<Rightarrow> podSet" where
  "pods_at m pair = (case fmlookup (topologyPairToPods m) pair of None \<Rightarrow> {||} | Some s \<Rightarrow> s)"

definition pairs_of :: "topologyPairsMaps \<Rightarrow> string \<Rightarrow> topologyPairSet" where
  "pairs_of m name = (case fmlookup (podToTopologyPairs m) name of None \<Rightarrow> {||} | Some s \<Rightarrow> s)"

subsection \<open>Operations\<close>

definition addTopologyPair :: "topologyPair \<Rightarrow> Pod \<Rightarrow> topologyPairsMaps \<Rightarrow> topologyPairsMaps" where
  "addTopologyPair pair pod m =
     (let podFullName = GetPodFullName pod in
      \<lparr>topologyPairToPods = fmupd pair (finsert pod (pods_at m pair)) (topologyPairToPods m),
       podToTopologyPairs = fmupd podFullName (finsert pair (pairs_of m podFullName)) (podToTopologyPairs m)\<rparr>)"

text \<open>One iteration of the loop of \<open>removePod\<close>, and the loop.\<close>

definition remove_pair :: "Pod \<Rightarrow> topologyPair \<Rightarrow> (topologyPair, podSet) fmap \<Rightarrow> (topologyPair, podSet) fmap" where
  "remove_pair deletedPod pair t = (case fmlookup t pair of
     None \<Rightarrow> t
   | Some pods \<Rightarrow> (let pods1 = pods |-| {|deletedPod|} in if pods1 = {||} then fmdrop pair t else fmupd pair pods1 t))"

definition removePod_tp :: "Pod \<Rightarrow> topologyPairsMaps \<Rightarrow> topologyPairsMaps" where
  "removePod_tp deletedPod m =
     (let deletedPodFullName = GetPodFullName deletedPod;
          pairs = pairs_of m deletedPodFullName;
          rest = (\<lambda>pair pods. if pair |\<in>| pairs then pods |-| {|deletedPod|} else pods)
      in \<lparr>topologyPairToPods = fmmap_keys rest
            (fmfilter (\<lambda>pair. \<not> (pair |\<in>| pairs \<and> pods_at m pair |\<subseteq>| {|deletedPod|})) (topologyPairToPods m)),
          podToTopologyPairs = fmdrop deletedPodFullName (podToTopologyPairs m)\<rparr>)"

definition appendMaps :: "topologyPairsMaps \<Rightarrow> topologyPairsMaps option \<Rightarrow> topologyPairsMaps" where
  "appendMaps m toAppend = (case toAppend of
     None \<Rightarrow> m
   | Some a \<Rightarrow>
      (let pairs = ffilter (\<lambda>pair. pods_at a pair \<noteq> {||}) (fmdom (topologyPairToPods a));
           pods = ffUnion (pods_at a |`| pairs)
       in \<lparr>topologyPairToPods = fmtab (fmdom (topologyPairToPods m) |\<union>| pairs) (\<lambda>pair. pods_at m pair |\<union>| pods_at a pair),
           podToTopologyPairs = fmtab (fmdom (podToTopologyPairs m) |\<union>| GetPodFullName |`| pods)
             (\<lambda>name. pairs_of m name |\<union>| ffilter (\<lambda>pair. name |\<in>| GetPodFullName |`| pods_at a pair) pairs)\<rparr>))"

subsection \<open>The abstract view\<close>

definition tp_entries :: "topologyPairsMaps \<Rightarrow> (topologyPair \<times> Pod) set" where
  "tp_entries m = {(pair, pod). pod |\<in>| pods_at m pair}"

text \<open>The two maps are inverse to each other and hold no empty set.\<close>

definition tp_inv :: "topologyPairsMaps \<Rightarrow> bool" where
  "tp_inv m \<longleftrightarrow>
     (\<forall>pair. fmlookup (topologyPairToPods m) pair \<noteq> Some {||}) \<and>
     (\<forall>name. fmlookup (podToTopologyPairs m) name \<noteq> Some {||}) \<and>
     (\<forall>name pair. pair |\<in>| pairs_of m name \<longleftrightarrow> (\<exists>pod. pod |\<in>| pods_at m pair \<and> GetPodFullName pod = name))"

lemma in_entries [simp]: "(pair, pod) \<in> tp_entries m \<longleftrightarrow> pod |\<in>| pods_at m pair"
  by (simp add: tp_entries_def)

lemma lookup_pods_at:
  assumes "tp_inv m"
  shows "fmlookup (topologyPairToPods m) pair = (if pods_at m pair = {||} then None else Some (pods_at m pair))"
  using assms by (cases "fmlookup (topologyPairToPods m) pair") (auto simp: tp_inv_def pods_at_def)

lemma lookup_pairs_of:
  assumes "tp_inv m"
  shows "fmlookup (podToTopologyPairs m) name = (if pairs_of m name = {||} then None else Some (pairs_of m name))"
  using assms by (cases "fmlookup (podToTopologyPairs m) name") (auto simp: tp_inv_def pairs_of_def)

lemma lookup_entries:
  "tp_inv m \<Longrightarrow> fmlookup (topologyPairToPods m) pair \<noteq> None \<longleftrightarrow> (\<exists>pod. (pair, pod) \<in> tp_entries m)"
  by (auto simp: lookup_pods_at)

lemma tp_ext:
  assumes "tp_inv m" "tp_inv m'" "tp_entries m = tp_entries m'"
  shows "m = m'"
proof -
  have pods: "pods_at m pair = pods_at m' pair" for pair
    using assms(3) by (auto simp: set_eq_iff fset_eq_iff simp flip: in_entries)
  have "pairs_of m name = pairs_of m' name" for name
    using assms(1,2) pods by (auto simp: tp_inv_def fset_eq_iff)
  then have "fmlookup (podToTopologyPairs m) name = fmlookup (podToTopologyPairs m') name" for name
    by (simp add: lookup_pairs_of assms)
  moreover have "fmlookup (topologyPairToPods m) pair = fmlookup (topologyPairToPods m') pair" for pair
    by (simp add: lookup_pods_at assms pods)
  ultimately show ?thesis by (metis fmap_ext topologyPairsMaps.equality old.unit.exhaust)
qed

subsection \<open>Effect of the operations\<close>

lemma pods_at_new [simp]: "pods_at newTopologyPairsMaps pair = {||}"
  by (simp add: pods_at_def newTopologyPairsMaps_def)

lemma pairs_of_new [simp]: "pairs_of newTopologyPairsMaps name = {||}"
  by (simp add: pairs_of_def newTopologyPairsMaps_def)

lemma tp_inv_new [simp]: "tp_inv newTopologyPairsMaps"
  by (simp add: tp_inv_def) (simp add: newTopologyPairsMaps_def)

lemma entries_new [simp]: "tp_entries newTopologyPairsMaps = {}"
  by (simp add: tp_entries_def)

lemma pods_at_add: "pods_at (addTopologyPair pair pod m) p = (if p = pair then finsert pod (pods_at m pair) else pods_at m p)"
  by (simp add: pods_at_def addTopologyPair_def Let_def)

lemma pairs_of_add:
  "pairs_of (addTopologyPair pair pod m) n = (if n = GetPodFullName pod then finsert pair (pairs_of m n) else pairs_of m n)"
  by (simp add: pairs_of_def addTopologyPair_def Let_def)

lemma entries_add: "tp_entries (addTopologyPair pair pod m) = insert (pair, pod) (tp_entries m)"
  by (auto simp: pods_at_add split: if_splits)

lemma tp_inv_add: "tp_inv m \<Longrightarrow> tp_inv (addTopologyPair pair pod m)"
  by (auto simp: tp_inv_def pods_at_add pairs_of_add) (auto simp: addTopologyPair_def Let_def split: if_splits)

lemma pods_at_append: "pods_at (appendMaps m (Some a)) pair = pods_at m pair |\<union>| pods_at a pair"
  by (auto simp: pods_at_def appendMaps_def Let_def split: option.splits)

lemma entries_append: "tp_entries (appendMaps m (Some a)) = tp_entries m \<union> tp_entries a"
  by (auto simp: pods_at_append)

lemma pairs_of_append:
  "pair |\<in>| pairs_of (appendMaps m (Some a)) name \<longleftrightarrow>
   pair |\<in>| pairs_of m name \<or> (\<exists>pod. pod |\<in>| pods_at a pair \<and> GetPodFullName pod = name)"
proof -
  let ?P = "ffilter (\<lambda>pair. pods_at a pair \<noteq> {||}) (fmdom (topologyPairToPods a))"
  have P: "pair |\<in>| ?P \<longleftrightarrow> pods_at a pair \<noteq> {||}" for pair
    by (auto simp: pods_at_def split: option.splits)
  have "pairs_of m name = {||}" if "fmlookup (podToTopologyPairs m) name = None" using that by (simp add: pairs_of_def)
  moreover have "name |\<in>| GetPodFullName |`| ffUnion (pods_at a |`| ?P)" if "pod |\<in>| pods_at a pair" "GetPodFullName pod = name" for pod
    using that P[of pair] by (force simp: ffUnion.rep_eq)
  ultimately show ?thesis
    using P[of pair] unfolding pairs_of_def[of "appendMaps m (Some a)"]
    by (auto simp: appendMaps_def Let_def) (metis image_eqI)
qed

lemma tp_inv_append: "tp_inv m \<Longrightarrow> tp_inv (appendMaps m (Some a))"
  unfolding tp_inv_def pairs_of_append
proof (intro conjI allI)
  assume inv: "(\<forall>pair. fmlookup (topologyPairToPods m) pair \<noteq> Some {||}) \<and> (\<forall>name. fmlookup (podToTopologyPairs m) name \<noteq> Some {||}) \<and>
    (\<forall>name pair. pair |\<in>| pairs_of m name \<longleftrightarrow> (\<exists>pod. pod |\<in>| pods_at m pair \<and> GetPodFullName pod = name))"
  fix pair name
  show "fmlookup (topologyPairToPods (appendMaps m (Some a))) pair \<noteq> Some {||}"
    using inv by (auto simp: appendMaps_def Let_def pods_at_def split: option.splits)
  show "pair |\<in>| pairs_of m name \<or> (\<exists>pod. pod |\<in>| pods_at a pair \<and> GetPodFullName pod = name) \<longleftrightarrow>
      (\<exists>pod. pod |\<in>| pods_at (appendMaps m (Some a)) pair \<and> GetPodFullName pod = name)"
    using inv by (auto simp: pods_at_append)
  show "fmlookup (podToTopologyPairs (appendMaps m (Some a))) name \<noteq> Some {||}"
  proof
    assume e: "fmlookup (podToTopologyPairs (appendMaps m (Some a))) name = Some {||}"
    then have none: "pairs_of (appendMaps m (Some a)) name = {||}" by (simp add: pairs_of_def)
    then have "pairs_of m name = {||}" "\<And>pair. name |\<notin>| GetPodFullName |`| pods_at a pair"
      using pairs_of_append[of _ m a name] by auto
    moreover from this(1) have "fmlookup (podToTopologyPairs m) name = None"
      using inv by (cases "fmlookup (podToTopologyPairs m) name") (auto simp: pairs_of_def)
    ultimately show False using e by (auto simp: appendMaps_def Let_def ffUnion.rep_eq split: if_splits)
  qed
qed

lemma append_None [simp]: "appendMaps m None = m"
  by (simp add: appendMaps_def)

lemma pods_at_remove:
  "pods_at (removePod_tp p m) pair = (if pair |\<in>| pairs_of m (GetPodFullName p) then pods_at m pair |-| {|p|} else pods_at m pair)"
  by (auto simp: pods_at_def removePod_tp_def Let_def split: option.splits)

lemma pairs_of_remove: "pairs_of (removePod_tp p m) n = (if n = GetPodFullName p then {||} else pairs_of m n)"
  by (simp add: pairs_of_def removePod_tp_def Let_def)

lemma entries_remove: "tp_inv m \<Longrightarrow> tp_entries (removePod_tp p m) = {e \<in> tp_entries m. snd e \<noteq> p}"
  by (auto simp: pods_at_remove tp_inv_def split: if_splits)

text \<open>The maps stay inverse to each other if no other pod has the name of the removed one.\<close>

lemma tp_inv_remove:
  assumes inv: "tp_inv m" and names: "\<And>e. e \<in> tp_entries m \<Longrightarrow> GetPodFullName (snd e) = GetPodFullName p \<Longrightarrow> snd e = p"
  shows "tp_inv (removePod_tp p m)"
  unfolding tp_inv_def
proof (intro conjI allI)
  fix pair name
  have nm: "q = p" if "q |\<in>| pods_at m pair" "GetPodFullName q = GetPodFullName p" for q
    using names[of "(pair, q)"] that by simp
  show "fmlookup (topologyPairToPods (removePod_tp p m)) pair \<noteq> Some {||}"
    using inv by (auto simp: removePod_tp_def Let_def tp_inv_def pods_at_def split: option.splits)
  show "fmlookup (podToTopologyPairs (removePod_tp p m)) name \<noteq> Some {||}"
    using inv by (auto simp: removePod_tp_def Let_def tp_inv_def)
  show "pair |\<in>| pairs_of (removePod_tp p m) name \<longleftrightarrow> (\<exists>pod. pod |\<in>| pods_at (removePod_tp p m) pair \<and> GetPodFullName pod = name)"
    using inv nm by (auto simp: pairs_of_remove pods_at_remove tp_inv_def)
qed

subsection \<open>The loops of the code\<close>

definition tp_loop :: "(topologyPair \<times> Pod) list \<Rightarrow> topologyPairsMaps \<Rightarrow> topologyPairsMaps" where
  "tp_loop es m = fold (\<lambda>(pair, pod). addTopologyPair pair pod) es m"

lemma tp_loop_entries: "tp_entries (tp_loop es m) = tp_entries m \<union> set es \<and> (tp_inv m \<longrightarrow> tp_inv (tp_loop es m))"
  unfolding tp_loop_def
  by (induction es arbitrary: m) (auto simp: entries_add tp_inv_add)

lemma appendMaps_loop:
  assumes "tp_inv m" "set es = tp_entries a"
  shows "appendMaps m (Some a) = tp_loop es m"
  using assms tp_loop_entries[of es m] by (intro tp_ext) (simp_all add: tp_inv_append entries_append)

lemma removePod_loop:
  assumes "set pairs = fset (pairs_of m (GetPodFullName p))"
  shows "topologyPairToPods (removePod_tp p m) = fold (remove_pair p) pairs (topologyPairToPods m)"
proof -
  have lk: "fmlookup (remove_pair p pair t) x = (if x = pair
      then Option.bind (fmlookup t pair) (\<lambda>s. if s |-| {|p|} = {||} then None else Some (s |-| {|p|})) else fmlookup t x)" for pair t x
    by (auto simp: remove_pair_def Let_def split: option.splits)
  have "fmlookup (fold (remove_pair p) pairs t) x = (if x \<in> set pairs
      then Option.bind (fmlookup t x) (\<lambda>s. if s |-| {|p|} = {||} then None else Some (s |-| {|p|})) else fmlookup t x)" for t x
    by (induction pairs arbitrary: t) (auto simp: lk split: Option.bind_splits)
  then show ?thesis
    using assms by (intro fmap_ext) (auto simp: removePod_tp_def Let_def pods_at_def split: Option.bind_splits option.splits)
qed

end
