(* ===== verification/Predicates.thy ===== *)
theory Predicates
  imports Topology_Pairs
begin

text \<open>
  The predicates of \<open>pkg/scheduler/algorithm/predicates\<close> that look at one node: resources, host ports,
  host name, node selector and node affinity, taints, disks and node conditions, with the failure
  reasons of \<open>error.go\<close>. A \<open>nodeInfo\<close> argument may be nil; the accessors of \<open>info/node_info.go\<close> that accept
  a nil receiver are modelled on \<open>NodeInfo option\<close>.

  A predicate returns an error, or whether the pod fits together with the reasons if it does not. The
  type of the metadata is a parameter: the scheduler only passes it on.
\<close>

subsection \<open>Failure reasons\<close>

datatype PredicateFailureReason =
    InsufficientResourceError string int64 int64 int64
  | PredicateFailureError string string
  | FailureReason string

definition ErrDiskConflict :: PredicateFailureReason where
  "ErrDiskConflict = PredicateFailureError ''NoDiskConflict'' ''node(s) had no available disk''"

definition ErrVolumeZoneConflict :: PredicateFailureReason where
  "ErrVolumeZoneConflict = PredicateFailureError ''NoVolumeZoneConflict'' ''node(s) had no available volume zone''"

definition ErrNodeSelectorNotMatch :: PredicateFailureReason where
  "ErrNodeSelectorNotMatch = PredicateFailureError ''MatchNodeSelector'' ''node(s) didn't match node selector''"

definition ErrPodAffinityNotMatch :: PredicateFailureReason where
  "ErrPodAffinityNotMatch = PredicateFailureError ''MatchInterPodAffinity'' ''node(s) didn't match pod affinity/anti-affinity''"

definition ErrPodAntiAffinityRulesNotMatch :: PredicateFailureReason where
  "ErrPodAntiAffinityRulesNotMatch = PredicateFailureError ''PodAntiAffinityRulesNotMatch'' ''node(s) didn't match pod anti-affinity rules''"

definition ErrExistingPodsAntiAffinityRulesNotMatch :: PredicateFailureReason where
  "ErrExistingPodsAntiAffinityRulesNotMatch =
     PredicateFailureError ''ExistingPodsAntiAffinityRulesNotMatch'' ''node(s) didn't satisfy existing pods anti-affinity rules''"

definition ErrServiceAffinityViolated :: PredicateFailureReason where
  "ErrServiceAffinityViolated = PredicateFailureError ''CheckServiceAffinity'' ''node(s) didn't match service affinity''"

definition ErrPodAffinityRulesNotMatch :: PredicateFailureReason where
  "ErrPodAffinityRulesNotMatch = PredicateFailureError ''PodAffinityRulesNotMatch'' ''node(s) didn't match pod affinity rules''"

definition ErrTaintsTolerationsNotMatch :: PredicateFailureReason where
  "ErrTaintsTolerationsNotMatch = PredicateFailureError ''PodToleratesNodeTaints'' ''node(s) had taints that the pod didn't tolerate''"

definition ErrPodNotMatchHostName :: PredicateFailureReason where
  "ErrPodNotMatchHostName = PredicateFailureError ''HostName'' ''node(s) didn't match the requested hostname''"

definition ErrPodNotFitsHostPorts :: PredicateFailureReason where
  "ErrPodNotFitsHostPorts = PredicateFailureError ''PodFitsHostPorts'' ''node(s) didn't have free ports for the requested pod ports''"

definition ErrNodeLabelPresenceViolated :: PredicateFailureReason where
  "ErrNodeLabelPresenceViolated = PredicateFailureError ''CheckNodeLabelPresence'' ''node(s) didn't have the requested labels''"

definition ErrNodeUnderMemoryPressure :: PredicateFailureReason where
  "ErrNodeUnderMemoryPressure = PredicateFailureError ''NodeUnderMemoryPressure'' ''node(s) had memory pressure''"

definition ErrNodeUnderDiskPressure :: PredicateFailureReason where
  "ErrNodeUnderDiskPressure = PredicateFailureError ''NodeUnderDiskPressure'' ''node(s) had disk pressure''"

definition ErrNodeUnderPIDPressure :: PredicateFailureReason where
  "ErrNodeUnderPIDPressure = PredicateFailureError ''NodeUnderPIDPressure'' ''node(s) had pid pressure''"

definition ErrNodeNotReady :: PredicateFailureReason where
  "ErrNodeNotReady = PredicateFailureError ''NodeNotReady'' ''node(s) were not ready''"

definition ErrNodeNetworkUnavailable :: PredicateFailureReason where
  "ErrNodeNetworkUnavailable = PredicateFailureError ''NodeNetworkUnavailable'' ''node(s) had unavailable network''"

definition ErrNodeUnschedulable :: PredicateFailureReason where
  "ErrNodeUnschedulable = PredicateFailureError ''NodeUnschedulable'' ''node(s) were unschedulable''"

definition ErrNodeUnknownCondition :: PredicateFailureReason where
  "ErrNodeUnknownCondition = PredicateFailureError ''NodeUnknownCondition'' ''node(s) had unknown conditions''"

definition ErrVolumeNodeConflict :: PredicateFailureReason where
  "ErrVolumeNodeConflict = PredicateFailureError ''VolumeNodeAffinityConflict'' ''node(s) had volume node affinity conflict''"

definition ErrVolumeBindConflict :: PredicateFailureReason where
  "ErrVolumeBindConflict = PredicateFailureError ''VolumeBindingNoMatch'' ''node(s) didn't find available persistent volumes to bind''"

definition GetReason :: "PredicateFailureReason \<Rightarrow> string" where
  "GetReason r = (case r of
     InsufficientResourceError resourceName requested used capacity \<Rightarrow> ''Insufficient '' @ resourceName
   | PredicateFailureError predicateName predicateDesc \<Rightarrow> predicateDesc
   | FailureReason reason \<Rightarrow> reason)"

definition GetInsufficientAmount :: "int64 \<Rightarrow> int64 \<Rightarrow> int64 \<Rightarrow> int64" where
  "GetInsufficientAmount requested used capacity = requested - (capacity - used)"

subsection \<open>Predicates as functions\<close>

type_synonym fit_result = "string + bool \<times> PredicateFailureReason list"
type_synonym 'm FitPredicate = "Pod \<Rightarrow> 'm option \<Rightarrow> NodeInfo option \<Rightarrow> fit_result"

definition node_not_found :: fit_result where
  "node_not_found = Inl ''node not found''"

text \<open>What is computed once per pod, before the predicates are asked for each node.\<close>

record predicateMetadata =
  meta_pod :: Pod
  podBestEffort :: bool
  podRequest :: Resource
  podPorts :: "ContainerPort list"
  topologyPairsAntiAffinityPodsMap :: topologyPairsMaps
  topologyPairsPotentialAffinityPods :: topologyPairsMaps
  topologyPairsPotentialAntiAffinityPods :: topologyPairsMaps
  serviceAffinityInUse :: bool
  serviceAffinityMatchingPodList :: "Pod list option"
  serviceAffinityMatchingPodServices :: "Service list option"
  ignoredExtendedResources :: "string fset option"

subsection \<open>Accessors that accept nil\<close>

definition NodeInfo_Node :: "NodeInfo option \<Rightarrow> Node option" where
  "NodeInfo_Node n = Option.bind n ni_node"

definition NodeInfo_Pods :: "NodeInfo option \<Rightarrow> Pod list" where
  "NodeInfo_Pods n = (case n of None \<Rightarrow> [] | Some i \<Rightarrow> ni_pods i)"

definition UsedPorts :: "NodeInfo option \<Rightarrow> HostPortInfo" where
  "UsedPorts n = (case n of None \<Rightarrow> fmempty | Some i \<Rightarrow> usedPorts i)"

definition NodeInfo_AllowedPodNumber :: "NodeInfo option \<Rightarrow> int64" where
  "NodeInfo_AllowedPodNumber n = (case n of None \<Rightarrow> 0 | Some i \<Rightarrow> AllowedPodNumber (allocatableResource i))"

definition Taints :: "NodeInfo option \<Rightarrow> Taint list \<times> string option" where
  "Taints n = (case n of None \<Rightarrow> ([], None) | Some i \<Rightarrow> (ni_taints i, taintsErr i))"

definition MemoryPressureCondition :: "NodeInfo option \<Rightarrow> string" where
  "MemoryPressureCondition n = (case n of None \<Rightarrow> ConditionUnknown | Some i \<Rightarrow> memoryPressureCondition i)"

definition DiskPressureCondition :: "NodeInfo option \<Rightarrow> string" where
  "DiskPressureCondition n = (case n of None \<Rightarrow> ConditionUnknown | Some i \<Rightarrow> diskPressureCondition i)"

definition PIDPressureCondition :: "NodeInfo option \<Rightarrow> string" where
  "PIDPressureCondition n = (case n of None \<Rightarrow> ConditionUnknown | Some i \<Rightarrow> pidPressureCondition i)"

definition RequestedResource :: "NodeInfo option \<Rightarrow> Resource" where
  "RequestedResource n = (case n of None \<Rightarrow> emptyResource | Some i \<Rightarrow> requestedResource i)"

definition AllocatableResource :: "NodeInfo option \<Rightarrow> Resource" where
  "AllocatableResource n = (case n of None \<Rightarrow> emptyResource | Some i \<Rightarrow> allocatableResource i)"

subsection \<open>Resources\<close>

definition GetResourceRequest :: "k8s \<Rightarrow> Pod \<Rightarrow> Resource" where
  "GetResourceRequest L pod =
     foldl (\<lambda>r c. SetMaxResource L r (Requests c)) (foldl (\<lambda>r c. Resource_Add L r (Requests c)) emptyResource (pod_Containers pod))
       (pod_InitContainers pod)"

definition insufficient :: "string \<Rightarrow> int64 \<Rightarrow> int64 \<Rightarrow> int64 \<Rightarrow> PredicateFailureReason list" where
  "insufficient rName requested used capacity =
     (if capacity <s requested + used then [InsufficientResourceError rName requested used capacity] else [])"

text \<open>\<open>rord\<close> is the order in which the scalar resources of the request are visited; it only orders the reasons.\<close>

definition PodFitsResources :: "k8s \<Rightarrow> string list \<Rightarrow> predicateMetadata FitPredicate" where
  "PodFitsResources L rord pod meta nodeInfo = (case NodeInfo_Node nodeInfo of
     None \<Rightarrow> node_not_found
   | Some node \<Rightarrow>
      (let allowedPodNumber = NodeInfo_AllowedPodNumber nodeInfo;
           numPods = word_of_nat (length (NodeInfo_Pods nodeInfo)) :: int64;
           fails1 = (if allowedPodNumber <s numPods + 1
                     then [InsufficientResourceError ''pods'' 1 numPods allowedPodNumber] else []);
           request = (case meta of Some m \<Rightarrow> podRequest m | None \<Rightarrow> GetResourceRequest L pod);
           ignored = (case Option.bind meta ignoredExtendedResources of Some s \<Rightarrow> s | None \<Rightarrow> {||});
           used = RequestedResource nodeInfo;
           allocatable = AllocatableResource nodeInfo
       in if MilliCPU request = 0 \<and> Memory request = 0 \<and> EphemeralStorage request = 0 \<and> scalar_map request = fmempty
          then Inr (fails1 = [], fails1)
          else
            let fails = fails1 @
                  insufficient ''cpu'' (MilliCPU request) (MilliCPU used) (MilliCPU allocatable) @
                  insufficient ''memory'' (Memory request) (Memory used) (Memory allocatable) @
                  insufficient ''ephemeral-storage'' (EphemeralStorage request) (EphemeralStorage used) (EphemeralStorage allocatable) @
                  concat (map (\<lambda>rName. case fmlookup (scalar_map request) rName of
                      None \<Rightarrow> []
                    | Some rQuant \<Rightarrow>
                        (if IsExtendedResourceName L rName \<and> rName |\<in>| ignored then []
                         else insufficient rName rQuant (scalar_of used rName) (scalar_of allocatable rName))) rord)
            in Inr (fails = [], fails)))"

subsection \<open>Host, ports, selectors\<close>

definition nodeMatchesNodeSelectorTerms :: "k8s \<Rightarrow> Node \<Rightarrow> NodeSelectorTerm list \<Rightarrow> bool" where
  "nodeMatchesNodeSelectorTerms L node terms = MatchNodeSelectorTerms L terms (node_Labels node) [(''metadata.name'', node_Name node)]"

definition podMatchesNodeSelectorAndAffinityTerms :: "k8s \<Rightarrow> Pod \<Rightarrow> Node \<Rightarrow> bool" where
  "podMatchesNodeSelectorAndAffinityTerms L pod node =
     (if pod_NodeSelector pod \<noteq> [] \<and> \<not> SelectorFromSet L (pod_NodeSelector pod) (node_Labels node) then False
      else case Option.bind (pod_Affinity pod) NodeAffinity of
        None \<Rightarrow> True
      | Some affinity \<Rightarrow> (case RequiredNodeTerms affinity of
          None \<Rightarrow> True
        | Some terms \<Rightarrow> nodeMatchesNodeSelectorTerms L node terms))"

definition PodMatchNodeSelector :: "k8s \<Rightarrow> 'm FitPredicate" where
  "PodMatchNodeSelector L pod meta nodeInfo = (case NodeInfo_Node nodeInfo of
     None \<Rightarrow> node_not_found
   | Some node \<Rightarrow> (if podMatchesNodeSelectorAndAffinityTerms L pod node then Inr (True, []) else Inr (False, [ErrNodeSelectorNotMatch])))"

definition PodFitsHost :: "'m FitPredicate" where
  "PodFitsHost pod meta nodeInfo =
     (if pod_NodeName pod = [] then Inr (True, [])
      else case NodeInfo_Node nodeInfo of
        None \<Rightarrow> node_not_found
      | Some node \<Rightarrow> (if pod_NodeName pod = node_Name node then Inr (True, []) else Inr (False, [ErrPodNotMatchHostName])))"

fun label_presence :: "string list \<Rightarrow> bool \<Rightarrow> labels \<Rightarrow> bool" where
  "label_presence [] presence nodeLabels = True"
| "label_presence (label # ls) presence nodeLabels =
     (let exists = map_of nodeLabels label \<noteq> None in
      if (exists \<and> \<not> presence) \<or> (\<not> exists \<and> presence) then False else label_presence ls presence nodeLabels)"

definition CheckNodeLabelPresence :: "string list \<Rightarrow> bool \<Rightarrow> 'm FitPredicate" where
  "CheckNodeLabelPresence labels presence pod meta nodeInfo = (case NodeInfo_Node nodeInfo of
     None \<Rightarrow> node_not_found
   | Some node \<Rightarrow> (if label_presence labels presence (node_Labels node) then Inr (True, []) else Inr (False, [ErrNodeLabelPresenceViolated])))"

definition portsConflict :: "HostPortInfo \<Rightarrow> ContainerPort list \<Rightarrow> bool" where
  "portsConflict existingPorts wantPorts = list_ex (\<lambda>cp. CheckConflict existingPorts (HostIP cp) (Protocol cp) (HostPort cp)) wantPorts"

definition PodFitsHostPorts :: "predicateMetadata FitPredicate" where
  "PodFitsHostPorts pod meta nodeInfo =
     (let wantPorts = (case meta of Some m \<Rightarrow> podPorts m | None \<Rightarrow> GetContainerPorts [pod]) in
      if wantPorts = [] then Inr (True, [])
      else if portsConflict (UsedPorts nodeInfo) wantPorts then Inr (False, [ErrPodNotFitsHostPorts])
      else Inr (True, []))"

definition haveOverlap :: "string list \<Rightarrow> string list \<Rightarrow> bool" where
  "haveOverlap a1 a2 = list_ex (\<lambda>val. val \<in> set a1) a2"

subsection \<open>The general predicates\<close>

text \<open>Run one more predicate and append its reasons; an error ends the sequence.\<close>

definition and_also :: "string + PredicateFailureReason list \<Rightarrow> fit_result \<Rightarrow> string + PredicateFailureReason list" where
  "and_also acc r = (case acc of
     Inl err \<Rightarrow> Inl err
   | Inr predicateFails \<Rightarrow> (case r of
       Inl err \<Rightarrow> Inl err
     | Inr (fit, reasons) \<Rightarrow> Inr (if \<not> fit then predicateFails @ reasons else predicateFails)))"

definition conclude :: "string + PredicateFailureReason list \<Rightarrow> fit_result" where
  "conclude acc = (case acc of Inl err \<Rightarrow> Inl err | Inr predicateFails \<Rightarrow> Inr (predicateFails = [], predicateFails))"

definition noncriticalPredicates :: "k8s \<Rightarrow> string list \<Rightarrow> predicateMetadata FitPredicate" where
  "noncriticalPredicates L rord pod meta nodeInfo = conclude (and_also (Inr []) (PodFitsResources L rord pod meta nodeInfo))"

definition EssentialPredicates :: "k8s \<Rightarrow> predicateMetadata FitPredicate" where
  "EssentialPredicates L pod meta nodeInfo =
     conclude (and_also (and_also (and_also (Inr []) (PodFitsHost pod meta nodeInfo)) (PodFitsHostPorts pod meta nodeInfo))
       (PodMatchNodeSelector L pod meta nodeInfo))"

definition GeneralPredicates :: "k8s \<Rightarrow> string list \<Rightarrow> predicateMetadata FitPredicate" where
  "GeneralPredicates L rord pod meta nodeInfo =
     conclude (and_also (and_also (Inr []) (noncriticalPredicates L rord pod meta nodeInfo)) (EssentialPredicates L pod meta nodeInfo))"

subsection \<open>Disks\<close>

definition read_write_clash :: "('a \<times> bool) option \<Rightarrow> ('a \<times> bool) option \<Rightarrow> bool" where
  "read_write_clash v w = (case (v, w) of (Some (d, ro), Some (d', ro')) \<Rightarrow> d = d' \<and> \<not> (ro \<and> ro') | _ \<Rightarrow> False)"

definition rbd_clash :: "RBDVolume option \<Rightarrow> RBDVolume option \<Rightarrow> bool" where
  "rbd_clash v w = (case (v, w) of
     (Some r, Some e) \<Rightarrow> haveOverlap (CephMonitors r) (CephMonitors e) \<and> RBDPool r = RBDPool e \<and> RBDImage r = RBDImage e \<and>
       \<not> (rbd_ReadOnly r \<and> rbd_ReadOnly e)
   | _ \<Rightarrow> False)"

definition isVolumeConflict :: "Volume \<Rightarrow> Pod \<Rightarrow> bool" where
  "isVolumeConflict volume pod =
     (if GCEPersistentDisk volume = None \<and> AWSElasticBlockStore volume = None \<and> RBD volume = None \<and> ISCSI volume = None then False
      else list_ex (\<lambda>existingVolume.
          read_write_clash (GCEPersistentDisk volume) (GCEPersistentDisk existingVolume) \<or>
          (AWSElasticBlockStore volume \<noteq> None \<and> AWSElasticBlockStore existingVolume \<noteq> None \<and>
           AWSElasticBlockStore volume = AWSElasticBlockStore existingVolume) \<or>
          read_write_clash (ISCSI volume) (ISCSI existingVolume) \<or>
          rbd_clash (RBD volume) (RBD existingVolume)) (pod_Volumes pod))"

definition NoDiskConflict :: "'m FitPredicate" where
  "NoDiskConflict pod meta nodeInfo =
     (if list_ex (\<lambda>v. list_ex (isVolumeConflict v) (NodeInfo_Pods nodeInfo)) (pod_Volumes pod)
      then Inr (False, [ErrDiskConflict]) else Inr (True, []))"

subsection \<open>Taints and conditions\<close>

definition TaintNodeUnschedulable :: string where
  "TaintNodeUnschedulable = ''node.kubernetes.io/unschedulable''"

definition CheckNodeUnschedulablePredicate :: "k8s \<Rightarrow> 'm FitPredicate" where
  "CheckNodeUnschedulablePredicate L pod meta nodeInfo = (case NodeInfo_Node nodeInfo of
     None \<Rightarrow> Inr (False, [ErrNodeUnknownCondition])
   | Some node \<Rightarrow>
      (let podToleratesUnschedulable = TolerationsTolerateTaint L (pod_Tolerations pod)
             \<lparr>taint_Key = TaintNodeUnschedulable, taint_Value = [], taint_Effect = ''NoSchedule''\<rparr>
       in if node_Unschedulable node \<and> \<not> podToleratesUnschedulable then Inr (False, [ErrNodeUnschedulable]) else Inr (True, [])))"

definition podToleratesNodeTaints :: "k8s \<Rightarrow> Pod \<Rightarrow> NodeInfo option \<Rightarrow> (Taint \<Rightarrow> bool) \<Rightarrow> fit_result" where
  "podToleratesNodeTaints L pod nodeInfo filt = (case Taints nodeInfo of
     (taints, Some err) \<Rightarrow> Inl err
   | (taints, None) \<Rightarrow>
      (if TolerationsTolerateTaintsWithFilter L (pod_Tolerations pod) taints filt then Inr (True, [])
       else Inr (False, [ErrTaintsTolerationsNotMatch])))"

definition PodToleratesNodeTaints :: "k8s \<Rightarrow> 'm FitPredicate" where
  "PodToleratesNodeTaints L pod meta nodeInfo =
     (if NodeInfo_Node nodeInfo = None then Inr (False, [ErrNodeUnknownCondition])
      else podToleratesNodeTaints L pod nodeInfo (\<lambda>t. taint_Effect t = ''NoSchedule'' \<or> taint_Effect t = ''NoExecute''))"

definition PodToleratesNodeNoExecuteTaints :: "k8s \<Rightarrow> 'm FitPredicate" where
  "PodToleratesNodeNoExecuteTaints L pod meta nodeInfo = podToleratesNodeTaints L pod nodeInfo (\<lambda>t. taint_Effect t = ''NoExecute'')"

definition isPodBestEffort :: "k8s \<Rightarrow> Pod \<Rightarrow> bool" where
  "isPodBestEffort L pod \<longleftrightarrow> GetPodQOS L pod = ''BestEffort''"

definition CheckNodeMemoryPressurePredicate :: "k8s \<Rightarrow> predicateMetadata FitPredicate" where
  "CheckNodeMemoryPressurePredicate L pod meta nodeInfo =
     (let bestEffort = (case meta of Some m \<Rightarrow> podBestEffort m | None \<Rightarrow> isPodBestEffort L pod) in
      if \<not> bestEffort then Inr (True, [])
      else if MemoryPressureCondition nodeInfo = ''True'' then Inr (False, [ErrNodeUnderMemoryPressure])
      else Inr (True, []))"

definition CheckNodeDiskPressurePredicate :: "'m FitPredicate" where
  "CheckNodeDiskPressurePredicate pod meta nodeInfo =
     (if DiskPressureCondition nodeInfo = ''True'' then Inr (False, [ErrNodeUnderDiskPressure]) else Inr (True, []))"

definition CheckNodePIDPressurePredicate :: "'m FitPredicate" where
  "CheckNodePIDPressurePredicate pod meta nodeInfo =
     (if PIDPressureCondition nodeInfo = ''True'' then Inr (False, [ErrNodeUnderPIDPressure]) else Inr (True, []))"

definition condition_reasons :: "NodeCondition \<Rightarrow> PredicateFailureReason list" where
  "condition_reasons cond =
     (if ncond_Type cond = ''Ready'' \<and> ncond_Status cond \<noteq> ''True'' then [ErrNodeNotReady]
      else if ncond_Type cond = ''NetworkUnavailable'' \<and> ncond_Status cond \<noteq> ''False'' then [ErrNodeNetworkUnavailable]
      else [])"

definition CheckNodeConditionPredicate :: "'m FitPredicate" where
  "CheckNodeConditionPredicate pod meta nodeInfo = (case NodeInfo_Node nodeInfo of
     None \<Rightarrow> Inr (False, [ErrNodeUnknownCondition])
   | Some node \<Rightarrow>
      (let reasons = concat (map condition_reasons (node_Conditions node)) @ (if node_Unschedulable node then [ErrNodeUnschedulable] else [])
       in Inr (reasons = [], reasons)))"

definition podHasPVCs :: "Pod \<Rightarrow> bool" where
  "podHasPVCs pod = list_ex (\<lambda>vol. PersistentVolumeClaim vol \<noteq> None) (pod_Volumes pod)"

text \<open>\<open>FindPodVolumes\<close> is the volume binder's answer for a pod and a node: an error, or whether the unbound
  and the bound claims are satisfied.\<close>

definition VolumeBinding_predicate :: "(Pod \<Rightarrow> Node \<Rightarrow> string + bool \<times> bool) \<Rightarrow> 'm FitPredicate" where
  "VolumeBinding_predicate FindPodVolumes pod meta nodeInfo =
     (if \<not> podHasPVCs pod then Inr (True, [])
      else case NodeInfo_Node nodeInfo of
        None \<Rightarrow> node_not_found
      | Some node \<Rightarrow> (case FindPodVolumes pod node of
          Inl err \<Rightarrow> Inl err
        | Inr (unboundSatisfied, boundSatisfied) \<Rightarrow>
            (let failReasons = (if \<not> boundSatisfied then [ErrVolumeNodeConflict] else []) @ (if \<not> unboundSatisfied then [ErrVolumeBindConflict] else [])
             in if failReasons \<noteq> [] then Inr (False, failReasons) else Inr (True, []))))"

end
