(* ===== verification/Scheduler_Cache.thy ===== *)
theory Scheduler_Cache
  imports Pool_Info Predicates
begin

text \<open>
  The scheduler cache, \<open>pkg/scheduler/internal/cache/cache.go\<close>: the states of the pods (assumed or
  added), the states of the images, and the resource pools with their nodes.

  A pool is known by its key in the map \<open>pools\<close>; a pointer to a pool is that key, \<open>None\<close> being nil, so
  that comparing two pointers is comparing the keys. The list items of all pools live in the store
  \<open>heap\<close>. Every operation holds the lock of the cache, so it is one function on the cache; \<open>BorrowPool\<close>,
  which releases the lock around each predicate call, is modelled without interference.

  A result \<open>None\<close> means that the process stops: a panic, or \<open>klog.Fatalf\<close> in \<open>UpdatePod\<close> and \<open>RemovePod\<close>.
  \<open>ord\<close> is the order in which a \<open>range\<close> over the pools visits the names; where the loop only counts matches
  its order cannot be observed. Orders of the other maps are arguments as well, and a key that is no
  longer in the map when its turn comes is skipped.
\<close>

subsection \<open>Data\<close>

record podState =
  ps_pod :: Pod
  deadline :: "Time option"
  bindingFinished :: bool

record imageState =
  is_size :: int64
  is_nodes :: "string fset"

record schedulerCache =
  ttl :: Duration
  period :: Duration
  assumedPods :: "(string, bool) fmap"
  podStates :: "(string, podState) fmap"
  cache_images :: "(string, imageState) fmap"
  pools :: "(string, PoolInfo) fmap"
  heap :: store

datatype cache_error =
    KeyError
  | AlreadyInCache string
  | AssignedElsewhere string
  | NotAssumed string
  | AlreadyAdded string
  | NotAddedForUpdate string
  | NotFoundForRemove string
  | PodNotInCache string
  | ForbiddenPool
  | PoolNotInCache string
  | PoolError pool_error

type_synonym cache_result = "(schedulerCache \<times> cache_error option) option"

definition createImageStateSummary :: "imageState \<Rightarrow> ImageStateSummary" where
  "createImageStateSummary state = \<lparr>iss_Size = is_size state, iss_NumNodes = fcard (is_nodes state)\<rparr>"

definition newSchedulerCache :: "k8s \<Rightarrow> Duration \<Rightarrow> Duration \<Rightarrow> store \<Rightarrow> schedulerCache" where
  "newSchedulerCache L t per st =
     \<lparr>ttl = t, period = per, assumedPods = fmempty, podStates = fmempty, cache_images = fmempty,
      pools = fmupd DefaultPoolName (NewPoolInfo L) fmempty, heap = st\<rparr>"

subsection \<open>Calls on pools\<close>

text \<open>A method call on the pool \<open>pn\<close> that reads its fields, so that a nil receiver panics.\<close>

definition on_pool ::
  "string option \<Rightarrow> (PoolInfo \<Rightarrow> store \<Rightarrow> (PoolInfo \<times> store \<times> 'e) option) \<Rightarrow> schedulerCache \<Rightarrow> (schedulerCache \<times> 'e) option" where
  "on_pool pn f c =
     Option.bind pn (\<lambda>n. Option.bind (fmlookup (pools c) n) (\<lambda>p.
       map_option (\<lambda>(p', st', e). (c\<lparr>pools := fmupd n p' (pools c), heap := st'\<rparr>, e)) (f p (heap c))))"

text \<open>\<open>ContainsNode\<close>, \<open>AddNodeInfo\<close> and \<open>RemoveNodeInfo\<close> accept a nil receiver.\<close>

definition contains_node :: "string option \<Rightarrow> string \<Rightarrow> schedulerCache \<Rightarrow> nat option" where
  "contains_node pn nodeName c =
     Option.bind pn (\<lambda>n. Option.bind (fmlookup (pools c) n) (\<lambda>p. ContainsNode p nodeName))"

definition add_info :: "k8s \<Rightarrow> string option \<Rightarrow> nat \<Rightarrow> schedulerCache \<Rightarrow> schedulerCache" where
  "add_info L pn item c =
     (case Option.bind pn (\<lambda>n. map_option (Pair n) (fmlookup (pools c) n)) of
        None \<Rightarrow> c
      | Some (n, p) \<Rightarrow> (case AddNodeInfo L p item (heap c) of
          (p', st') \<Rightarrow> c\<lparr>pools := fmupd n p' (pools c), heap := st'\<rparr>))"

definition remove_info :: "k8s \<Rightarrow> string option \<Rightarrow> nat \<Rightarrow> schedulerCache \<Rightarrow> (schedulerCache \<times> pool_error option) option" where
  "remove_info L pn item c =
     (case Option.bind pn (\<lambda>n. map_option (Pair n) (fmlookup (pools c) n)) of
        None \<Rightarrow> Some (c, None)
      | Some (n, p) \<Rightarrow> map_option (\<lambda>(p', st', e). (c\<lparr>pools := fmupd n p' (pools c), heap := st'\<rparr>, e))
          (RemoveNodeInfo L p item (heap c)))"

subsection \<open>The pool of a pod and of a node\<close>

definition defaultPool :: "schedulerCache \<Rightarrow> string option" where
  "defaultPool c = (if fmlookup (pools c) DefaultPoolName = None then None else Some DefaultPoolName)"

definition matching_pools :: "k8s \<Rightarrow> string list \<Rightarrow> (string \<Rightarrow> PoolInfo \<Rightarrow> bool) \<Rightarrow> Node option \<Rightarrow> schedulerCache \<Rightarrow> string list" where
  "matching_pools L ord P node c =
     filter (\<lambda>n. case fmlookup (pools c) n of None \<Rightarrow> False | Some p \<Rightarrow> P n p \<and> MatchNode L p node) ord"

definition matchPoolForNode :: "k8s \<Rightarrow> string list \<Rightarrow> Node option \<Rightarrow> schedulerCache \<Rightarrow> string option" where
  "matchPoolForNode L ord node c =
     (case node of
        None \<Rightarrow> defaultPool c
      | Some _ \<Rightarrow> (case matching_pools L ord (\<lambda>_ _. True) node c of [n] \<Rightarrow> Some n | _ \<Rightarrow> defaultPool c))"

definition GetPoolContainsNode :: "string list \<Rightarrow> string \<Rightarrow> schedulerCache \<Rightarrow> string option" where
  "GetPoolContainsNode ord nodeName c = List.find (\<lambda>n. contains_node (Some n) nodeName c \<noteq> None) ord"

definition matchPoolForPod :: "string list \<Rightarrow> Pod \<Rightarrow> schedulerCache \<Rightarrow> string option" where
  "matchPoolForPod ord pod c =
     (if pod_NodeName pod \<noteq> []
      then (case List.find (\<lambda>n. contains_node (Some n) (pod_NodeName pod) c \<noteq> None) ord of
              Some n \<Rightarrow> Some n | None \<Rightarrow> defaultPool c)
      else if fmlookup (pools c) (GetPodAnnotationsPoolName pod) \<noteq> None then Some (GetPodAnnotationsPoolName pod)
      else defaultPool c)"

subsection \<open>Pods\<close>

definition addPod :: "k8s \<Rightarrow> string list \<Rightarrow> Pod \<Rightarrow> schedulerCache \<Rightarrow> schedulerCache option" where
  "addPod L ord pod c =
     map_option fst (on_pool (matchPoolForPod ord pod c)
       (\<lambda>p st. case PoolInfo_AddPod L p pod st of (p', st') \<Rightarrow> Some (p', st', ())) c)"

definition removePod :: "k8s \<Rightarrow> string list \<Rightarrow> Pod \<Rightarrow> schedulerCache \<Rightarrow> (schedulerCache \<times> pool_error option) option" where
  "removePod L ord pod c =
     on_pool (matchPoolForPod ord pod c) (\<lambda>p st. Some (PoolInfo_RemovePod L p pod st)) c"

text \<open>\<open>updatePod\<close> visits the pools twice.\<close>

definition updatePod :: "k8s \<Rightarrow> string list \<Rightarrow> string list \<Rightarrow> Pod \<Rightarrow> Pod \<Rightarrow> schedulerCache \<Rightarrow> (schedulerCache \<times> pool_error option) option" where
  "updatePod L ord ord' oldPod newPod c =
     Option.bind (removePod L ord oldPod c) (\<lambda>(c1, e).
       case e of
         Some err \<Rightarrow> Some (c1, Some err)
       | None \<Rightarrow> map_option (\<lambda>c2. (c2, None)) (addPod L ord' newPod c1))"

definition is_assumed :: "string \<Rightarrow> schedulerCache \<Rightarrow> bool" where
  "is_assumed key c \<longleftrightarrow> fmlookup (assumedPods c) key = Some True"

definition AssumePod :: "k8s \<Rightarrow> string list \<Rightarrow> Pod \<Rightarrow> schedulerCache \<Rightarrow> cache_result" where
  "AssumePod L ord pod c = (case GetPodKey pod of
     None \<Rightarrow> Some (c, Some KeyError)
   | Some key \<Rightarrow>
      (if fmlookup (podStates c) key \<noteq> None then Some (c, Some (AlreadyInCache key))
       else map_option (\<lambda>c1.
         (c1\<lparr>podStates := fmupd key \<lparr>ps_pod = pod, deadline = None, bindingFinished = False\<rparr> (podStates c1),
             assumedPods := fmupd key True (assumedPods c1)\<rparr>, None)) (addPod L ord pod c)))"

definition finishBinding :: "Pod \<Rightarrow> Time \<Rightarrow> schedulerCache \<Rightarrow> schedulerCache \<times> cache_error option" where
  "finishBinding pod now c = (case GetPodKey pod of
     None \<Rightarrow> (c, Some KeyError)
   | Some key \<Rightarrow>
      (case fmlookup (podStates c) key of
         Some currState \<Rightarrow>
           (if is_assumed key c
            then (c\<lparr>podStates := fmupd key (currState\<lparr>bindingFinished := True, deadline := Some (time_Add now (ttl c))\<rparr>)
                      (podStates c)\<rparr>, None)
            else (c, None))
       | None \<Rightarrow> (c, None)))"

definition drop_pod :: "string \<Rightarrow> schedulerCache \<Rightarrow> schedulerCache" where
  "drop_pod key c = c\<lparr>assumedPods := fmdrop key (assumedPods c), podStates := fmdrop key (podStates c)\<rparr>"

definition ForgetPod :: "k8s \<Rightarrow> string list \<Rightarrow> Pod \<Rightarrow> schedulerCache \<Rightarrow> cache_result" where
  "ForgetPod L ord pod c = (case GetPodKey pod of
     None \<Rightarrow> Some (c, Some KeyError)
   | Some key \<Rightarrow>
      (case fmlookup (podStates c) key of
         None \<Rightarrow> Some (c, Some (NotAssumed key))
       | Some currState \<Rightarrow>
           (if pod_NodeName (ps_pod currState) \<noteq> pod_NodeName pod then Some (c, Some (AssignedElsewhere key))
            else if is_assumed key c
            then map_option (\<lambda>(c1, e). case e of
                Some err \<Rightarrow> (c1, Some (PoolError err))
              | None \<Rightarrow> (drop_pod key c1, None)) (removePod L ord pod c)
            else Some (c, Some (NotAssumed key)))))"

text \<open>A pod that was assumed on another node is removed there; an error of that removal is ignored.\<close>

definition AddPod :: "k8s \<Rightarrow> string list \<Rightarrow> string list \<Rightarrow> Pod \<Rightarrow> schedulerCache \<Rightarrow> cache_result" where
  "AddPod L ord ord' pod c = (case GetPodKey pod of
     None \<Rightarrow> Some (c, Some KeyError)
   | Some key \<Rightarrow>
      (case fmlookup (podStates c) key of
         None \<Rightarrow>
           map_option (\<lambda>c1.
             (c1\<lparr>podStates := fmupd key \<lparr>ps_pod = pod, deadline = None, bindingFinished = False\<rparr> (podStates c1)\<rparr>, None))
             (addPod L ord pod c)
       | Some currState \<Rightarrow>
           (if is_assumed key c
            then map_option (\<lambda>c1.
                (c1\<lparr>assumedPods := fmdrop key (assumedPods c1),
                    podStates := fmupd key (currState\<lparr>deadline := None, ps_pod := pod\<rparr>) (podStates c1)\<rparr>, None))
              (if pod_NodeName (ps_pod currState) \<noteq> pod_NodeName pod
               then Option.bind (removePod L ord (ps_pod currState) c) (\<lambda>(c1, _). addPod L ord' pod c1)
               else Some c)
            else Some (c, Some (AlreadyAdded key)))))"

definition UpdatePod :: "k8s \<Rightarrow> string list \<Rightarrow> string list \<Rightarrow> Pod \<Rightarrow> Pod \<Rightarrow> schedulerCache \<Rightarrow> cache_result" where
  "UpdatePod L ord ord' oldPod newPod c = (case GetPodKey oldPod of
     None \<Rightarrow> Some (c, Some KeyError)
   | Some key \<Rightarrow>
      (case fmlookup (podStates c) key of
         None \<Rightarrow> Some (c, Some (NotAddedForUpdate key))
       | Some currState \<Rightarrow>
           (if is_assumed key c then Some (c, Some (NotAddedForUpdate key))
            else if pod_NodeName (ps_pod currState) \<noteq> pod_NodeName newPod then None
            else map_option (\<lambda>(c1, e). case e of
                Some err \<Rightarrow> (c1, Some (PoolError err))
              | None \<Rightarrow> (c1\<lparr>podStates := fmupd key (currState\<lparr>ps_pod := newPod\<rparr>) (podStates c1)\<rparr>, None))
              (updatePod L ord ord' oldPod newPod c))))"

definition RemovePod :: "k8s \<Rightarrow> string list \<Rightarrow> Pod \<Rightarrow> schedulerCache \<Rightarrow> cache_result" where
  "RemovePod L ord pod c = (case GetPodKey pod of
     None \<Rightarrow> Some (c, Some KeyError)
   | Some key \<Rightarrow>
      (case fmlookup (podStates c) key of
         None \<Rightarrow> Some (c, Some (NotFoundForRemove key))
       | Some currState \<Rightarrow>
           (if is_assumed key c then Some (c, Some (NotFoundForRemove key))
            else if pod_NodeName (ps_pod currState) \<noteq> pod_NodeName pod then None
            else map_option (\<lambda>(c1, e). case e of
                Some err \<Rightarrow> (c1, Some (PoolError err))
              | None \<Rightarrow> (c1\<lparr>podStates := fmdrop key (podStates c1)\<rparr>, None))
              (removePod L ord (ps_pod currState) c))))"

definition IsAssumedPod :: "Pod \<Rightarrow> schedulerCache \<Rightarrow> cache_error + bool" where
  "IsAssumedPod pod c = (case GetPodKey pod of
     None \<Rightarrow> Inl KeyError
   | Some key \<Rightarrow> (case fmlookup (assumedPods c) key of None \<Rightarrow> Inr False | Some b \<Rightarrow> Inr b))"

definition GetPod :: "Pod \<Rightarrow> schedulerCache \<Rightarrow> cache_error + Pod" where
  "GetPod pod c = (case GetPodKey pod of
     None \<Rightarrow> Inl KeyError
   | Some key \<Rightarrow> (case fmlookup (podStates c) key of None \<Rightarrow> Inl (PodNotInCache key) | Some s \<Rightarrow> Inr (ps_pod s)))"

subsection \<open>Expiration of assumed pods\<close>

definition expirePod :: "k8s \<Rightarrow> string list \<Rightarrow> string \<Rightarrow> podState \<Rightarrow> schedulerCache \<Rightarrow> cache_result" where
  "expirePod L ord key ps c =
     map_option (\<lambda>(c1, e). case e of
         Some err \<Rightarrow> (c1, Some (PoolError err))
       | None \<Rightarrow> (drop_pod key c1, None)) (removePod L ord (ps_pod ps) c)"

definition cleanup_key :: "k8s \<Rightarrow> (string \<Rightarrow> string list) \<Rightarrow> Time \<Rightarrow> string \<Rightarrow> schedulerCache \<Rightarrow> schedulerCache option" where
  "cleanup_key L ords now key c =
     (if fmlookup (assumedPods c) key = None then Some c
      else case fmlookup (podStates c) key of
        None \<Rightarrow> None
      | Some ps \<Rightarrow>
          (if \<not> bindingFinished ps then Some c
           else case deadline ps of
             None \<Rightarrow> None
           | Some dl \<Rightarrow>
               (if After now dl then map_option fst (expirePod L (ords key) key ps c) else Some c)))"

definition cleanupAssumedPods :: "k8s \<Rightarrow> string list \<Rightarrow> (string \<Rightarrow> string list) \<Rightarrow> Time \<Rightarrow> schedulerCache \<Rightarrow> schedulerCache option" where
  "cleanupAssumedPods L kord ords now c = foldM (cleanup_key L ords now) kord c"

subsection \<open>Images\<close>

definition add_image :: "string \<Rightarrow> int64 \<Rightarrow> (string, imageState) fmap \<times> (string, ImageStateSummary) fmap \<Rightarrow> string \<Rightarrow>
    (string, imageState) fmap \<times> (string, ImageStateSummary) fmap" where
  "add_image nodeName sz s name =
     (case s of (images, newSum) \<Rightarrow>
       let state = (case fmlookup images name of
               None \<Rightarrow> \<lparr>is_size = sz, is_nodes = {|nodeName|}\<rparr>
             | Some state \<Rightarrow> state\<lparr>is_nodes := finsert nodeName (is_nodes state)\<rparr>)
       in (fmupd name state images,
           if fmlookup newSum name = None then fmupd name (createImageStateSummary state) newSum else newSum))"

definition node_images_fold :: "(int64 \<Rightarrow> 's \<Rightarrow> string \<Rightarrow> 's) \<Rightarrow> Node \<Rightarrow> 's \<Rightarrow> 's" where
  "node_images_fold f node s =
     foldl (\<lambda>s image. foldl (f (image_SizeBytes image)) s (image_Names image)) s (node_Images node)"

definition addNodeImageStates :: "Node \<Rightarrow> nat \<Rightarrow> schedulerCache \<Rightarrow> schedulerCache" where
  "addNodeImageStates node item c =
     (let (images, newSum) = node_images_fold (add_image (node_Name node)) node (cache_images c, fmempty)
      in c\<lparr>cache_images := images, heap := set_info item ((info_of (heap c) item)\<lparr>imageStates := newSum\<rparr>) (heap c)\<rparr>)"

definition remove_image :: "string \<Rightarrow> (string, imageState) fmap \<Rightarrow> string \<Rightarrow> (string, imageState) fmap" where
  "remove_image nodeName images name = (case fmlookup images name of
     None \<Rightarrow> images
   | Some state \<Rightarrow>
      (let nodes = is_nodes state |-| {|nodeName|}
       in if nodes = {||} then fmdrop name images else fmupd name (state\<lparr>is_nodes := nodes\<rparr>) images))"

definition removeNodeImageStates :: "Node option \<Rightarrow> schedulerCache \<Rightarrow> schedulerCache" where
  "removeNodeImageStates node c = (case node of
     None \<Rightarrow> c
   | Some nd \<Rightarrow> c\<lparr>cache_images := node_images_fold (\<lambda>_. remove_image (node_Name nd)) nd (cache_images c)\<rparr>)"

subsection \<open>Nodes\<close>

text \<open>The end of \<open>AddNode\<close> and \<open>UpdateNode\<close>: \<open>p.Nodes()[node.Name].Info()\<close> panics when the entry is missing.\<close>

definition update_images :: "string option \<Rightarrow> Node \<Rightarrow> schedulerCache \<Rightarrow> schedulerCache option" where
  "update_images p node c =
     Option.bind (Option.bind p (fmlookup (pools c))) (\<lambda>q.
       map_option (\<lambda>item. addNodeImageStates node item c) (fmlookup (pi_nodes q) (node_Name node)))"

definition AddNode :: "k8s \<Rightarrow> string list \<Rightarrow> Node \<Rightarrow> schedulerCache \<Rightarrow> schedulerCache option" where
  "AddNode L ord node c =
     (let p = matchPoolForNode L ord (Some node) c;
          c1 = (if contains_node p (node_Name node) c \<noteq> None then removeNodeImageStates (Some node) c else c)
      in Option.bind (on_pool p (\<lambda>q st. case PoolInfo_AddNode L q node st of (q', st') \<Rightarrow> Some (q', st', ())) c1) (\<lambda>(c2, _).
         update_images p node c2))"

definition item_node :: "nat \<Rightarrow> schedulerCache \<Rightarrow> Node option" where
  "item_node item c = ni_node (info_of (heap c) item)"

definition move_updated :: "k8s \<Rightarrow> string option \<Rightarrow> string option \<Rightarrow> Node \<Rightarrow> schedulerCache \<Rightarrow> cache_result" where
  "move_updated L oldPool newPool newNode c =
     (let oldItem = contains_node oldPool (node_Name newNode) c in
      Option.bind (case oldItem of
          None \<Rightarrow> Some (c, None)
        | Some a \<Rightarrow> remove_info L oldPool a (removeNodeImageStates (item_node a c) c)) (\<lambda>(c1, e).
      case e of
        Some err \<Rightarrow> Some (c1, Some (PoolError err))
      | None \<Rightarrow>
         (case contains_node newPool (node_Name newNode) c1 of
            Some b \<Rightarrow>
              (let c2 = add_info L newPool b (removeNodeImageStates (item_node b c1) c1)
               in Some (c2\<lparr>heap := item_SetNode L b newNode (heap c2)\<rparr>, None))
          | None \<Rightarrow>
              map_option (\<lambda>a. let c2 = add_info L newPool a c1 in (c2\<lparr>heap := item_SetNode L a newNode (heap c2)\<rparr>, None)) oldItem)))"

definition UpdateNode :: "k8s \<Rightarrow> string list \<Rightarrow> Node option \<Rightarrow> Node \<Rightarrow> schedulerCache \<Rightarrow> cache_result" where
  "UpdateNode L ord oldNode newNode c =
     (let oldPool = matchPoolForNode L ord oldNode c; newPool = matchPoolForNode L ord (Some newNode) c in
      Option.bind
        (if oldPool = newPool
         then let c1 = (case contains_node newPool (node_Name newNode) c of
                  None \<Rightarrow> c | Some a \<Rightarrow> removeNodeImageStates (item_node a c) c)
              in on_pool newPool (\<lambda>q st. map_option (\<lambda>(q', st'). (q', st', None)) (PoolInfo_UpdateNode L q oldNode newNode st)) c1
         else move_updated L oldPool newPool newNode c) (\<lambda>(c1, e).
      case e of
        Some err \<Rightarrow> Some (c1, Some err)
      | None \<Rightarrow> map_option (\<lambda>c2. (c2, None)) (update_images newPool newNode c1)))"

definition RemoveNode :: "k8s \<Rightarrow> string list \<Rightarrow> Node \<Rightarrow> schedulerCache \<Rightarrow> cache_result" where
  "RemoveNode L ord node c =
     map_option (\<lambda>(c1, e). case e of
         Some err \<Rightarrow> (c1, Some (PoolError err))
       | None \<Rightarrow> (removeNodeImageStates (Some node) c1, None))
       (on_pool (matchPoolForNode L ord (Some node) c) (\<lambda>q st. PoolInfo_RemoveNode L q node st) c)"

subsection \<open>Pools\<close>

text \<open>The body of the loops that move the items of a pool: the item is taken from \<open>pn\<close>, an error of
  \<open>RemoveNodeInfo\<close> being ignored, and given to \<open>qn\<close>.\<close>

definition transfer :: "k8s \<Rightarrow> string option \<Rightarrow> string option \<Rightarrow> nat \<Rightarrow> schedulerCache \<Rightarrow> schedulerCache option" where
  "transfer L pn qn item c = map_option (\<lambda>(c1, _). add_info L qn item c1) (remove_info L pn item c)"

text \<open>A \<open>range\<close> over \<open>Nodes()\<close> of the pool \<open>pn\<close>.\<close>

definition for_nodes :: "string option \<Rightarrow> (nat \<Rightarrow> schedulerCache \<Rightarrow> schedulerCache option) \<Rightarrow> string list \<Rightarrow> schedulerCache \<Rightarrow> schedulerCache option" where
  "for_nodes pn body nord c =
     foldM (\<lambda>name c. case Option.bind (Option.bind pn (fmlookup (pools c))) (\<lambda>p. fmlookup (pi_nodes p) name) of
         None \<Rightarrow> Some c | Some item \<Rightarrow> body item c) nord c"

definition name_of :: "string \<Rightarrow> schedulerCache \<Rightarrow> string" where
  "name_of pn c = (case fmlookup (pools c) pn of None \<Rightarrow> [] | Some p \<Rightarrow> PoolInfo_Name p)"

definition moveNodeInfosToMatchedPoolFrom ::
  "k8s \<Rightarrow> string list \<Rightarrow> string list \<Rightarrow> string list \<Rightarrow> string \<Rightarrow> schedulerCache \<Rightarrow> schedulerCache option" where
  "moveNodeInfosToMatchedPoolFrom L ord dord pord pn c =
     (let df = defaultPool c;
          matches = (\<lambda>item c. matching_pools L ord (\<lambda>n _. n \<noteq> name_of pn c) (item_node item c) c) in
      Option.bind
        (for_nodes df (\<lambda>item c. case matches item c of [m] \<Rightarrow> transfer L df (Some m) item c | _ \<Rightarrow> Some c) dord c)
        (for_nodes (Some pn) (\<lambda>item c. transfer L (Some pn) (case matches item c of [m] \<Rightarrow> Some m | _ \<Rightarrow> df) item c) pord))"

definition moveAllNodeInfosFromMatchedPoolsTo ::
  "k8s \<Rightarrow> string list \<Rightarrow> string list \<Rightarrow> (string \<Rightarrow> string list) \<Rightarrow> string \<Rightarrow> schedulerCache \<Rightarrow> schedulerCache option" where
  "moveAllNodeInfosFromMatchedPoolsTo L ord dord nords pn c =
     (let df = defaultPool c in
      Option.bind
        (for_nodes df (\<lambda>item c.
           case matching_pools L ord (\<lambda>_ p. \<not> IsDefaultPool p) (item_node item c) c of
             [m] \<Rightarrow> if m \<noteq> pn then Some c else transfer L df (Some pn) item c
           | _ \<Rightarrow> Some c) dord c)
        (foldM (\<lambda>n c. case fmlookup (pools c) n of
            None \<Rightarrow> Some c
          | Some q \<Rightarrow>
              (if IsDefaultPool q \<or> n = name_of pn c then Some c
               else for_nodes (Some n) (\<lambda>item c.
                 if (case fmlookup (pools c) pn of None \<Rightarrow> False | Some p \<Rightarrow> MatchNode L p (item_node item c))
                 then transfer L (Some n) df item c else Some c) (nords n) c)) ord))"

definition set_pool :: "Pool \<Rightarrow> schedulerCache \<Rightarrow> schedulerCache option" where
  "set_pool pool c =
     map_option (\<lambda>p. c\<lparr>pools := fmupd (pool_Name pool) (SetPool p pool) (pools c)\<rparr>) (fmlookup (pools c) (pool_Name pool))"

definition new_pool :: "k8s \<Rightarrow> string \<Rightarrow> schedulerCache \<Rightarrow> schedulerCache" where
  "new_pool L n c = c\<lparr>pools := fmupd n (NewPoolInfo L) (pools c)\<rparr>"

text \<open>The visiting orders of a move: of the pools, of the nodes of the default pool, and of the nodes of
  each pool.\<close>

record move_orders =
  mo_pools :: "string list"
  mo_default :: "string list"
  mo_nodes :: "string \<Rightarrow> string list"

definition move_to :: "k8s \<Rightarrow> move_orders \<Rightarrow> string \<Rightarrow> schedulerCache \<Rightarrow> schedulerCache option" where
  "move_to L mo = moveAllNodeInfosFromMatchedPoolsTo L (mo_pools mo) (mo_default mo) (mo_nodes mo)"

definition move_from :: "k8s \<Rightarrow> move_orders \<Rightarrow> string \<Rightarrow> schedulerCache \<Rightarrow> schedulerCache option" where
  "move_from L mo pn = moveNodeInfosToMatchedPoolFrom L (mo_pools mo) (mo_default mo) (mo_nodes mo pn) pn"

definition AddPool :: "k8s \<Rightarrow> move_orders \<Rightarrow> Pool option \<Rightarrow> schedulerCache \<Rightarrow> cache_result" where
  "AddPool L mo pool c = (case pool of
     None \<Rightarrow> Some (c, Some ForbiddenPool)
   | Some pl \<Rightarrow>
      (if pool_Name pl = DefaultPoolName then Some (c, Some ForbiddenPool)
       else let c1 = (if fmlookup (pools c) (pool_Name pl) = None then new_pool L (pool_Name pl) c else c)
            in map_option (\<lambda>c3. (c3, None)) (Option.bind (set_pool pl c1) (move_to L mo (pool_Name pl)))))"

definition poolNodeSelectorChanged :: "Pool \<Rightarrow> Pool \<Rightarrow> bool" where
  "poolNodeSelectorChanged oldPool newPool \<longleftrightarrow> NodeSelector (pool_Spec oldPool) \<noteq> NodeSelector (pool_Spec newPool)"

text \<open>\<open>newPool\<close> is not nil here: \<open>UpdatePool\<close> has read its name. A nil \<open>oldPool\<close> is dereferenced.\<close>

definition PoolResourcePropertiesChanged :: "Pool option \<Rightarrow> Pool option \<Rightarrow> bool option" where
  "PoolResourcePropertiesChanged oldPool newPool = (case newPool of
     None \<Rightarrow> Some False
   | Some new \<Rightarrow> map_option (\<lambda>old. poolNodeSelectorChanged old new) oldPool)"

definition UpdatePool :: "k8s \<Rightarrow> move_orders \<Rightarrow> move_orders \<Rightarrow> Pool option \<Rightarrow> Pool \<Rightarrow> schedulerCache \<Rightarrow> cache_result" where
  "UpdatePool L mo mo' oldPool newPool c =
     map_option (\<lambda>c3. (c3, None))
       (if fmlookup (pools c) (pool_Name newPool) = None
        then Option.bind (set_pool newPool (new_pool L (pool_Name newPool) c)) (move_to L mo (pool_Name newPool))
        else Option.bind (set_pool newPool c) (\<lambda>c1.
          Option.bind (PoolResourcePropertiesChanged oldPool (Some newPool)) (\<lambda>changed.
            if changed
            then Option.bind (move_from L mo (pool_Name newPool) c1) (move_to L mo' (pool_Name newPool))
            else Some c1)))"

text \<open>\<open>ClearPool\<close> drops the references of the removed pool, which the cache has forgotten by then.\<close>

definition RemovePool :: "k8s \<Rightarrow> move_orders \<Rightarrow> Pool \<Rightarrow> schedulerCache \<Rightarrow> cache_result" where
  "RemovePool L mo pool c =
     (if pool_Name pool = [] then Some (c, Some ForbiddenPool)
      else if fmlookup (pools c) (pool_Name pool) = None then Some (c, None)
      else map_option (\<lambda>c1. (c1\<lparr>pools := fmdrop (pool_Name pool) (pools c1)\<rparr>, None)) (move_from L mo (pool_Name pool) c))"

definition GetPool :: "string \<Rightarrow> schedulerCache \<Rightarrow> cache_error + PoolInfo" where
  "GetPool poolName c = (case fmlookup (pools c) poolName of None \<Rightarrow> Inl (PoolNotInCache poolName) | Some p \<Rightarrow> Inr p)"

definition NumPools :: "schedulerCache \<Rightarrow> nat" where
  "NumPools c = fcard (fmdom (pools c))"

definition getPools :: "string list \<Rightarrow> schedulerCache \<Rightarrow> Pool option list" where
  "getPools ord c = replicate (fcard (fmdom (pools c))) None @ map pi_pool (List.map_filter (fmlookup (pools c)) ord)"

subsection \<open>All nodes, snapshots and totals\<close>

definition nodes :: "string list \<Rightarrow> schedulerCache \<Rightarrow> (string, nat) fmap" where
  "nodes ord c = foldl (\<lambda>m p. m ++\<^sub>f pi_nodes p) fmempty (List.map_filter (fmlookup (pools c)) ord)"

definition NumNodes :: "string list \<Rightarrow> schedulerCache \<Rightarrow> nat" where
  "NumNodes ord c = fcard (fmdom (nodes ord c))"

definition calculateTotalResource :: "string list \<Rightarrow> string list \<Rightarrow> schedulerCache \<Rightarrow> Resource" where
  "calculateTotalResource nord ord c =
     foldl (\<lambda>total item. Plus total (allocatableResource (info_of (heap c) item))) emptyResource
       (List.map_filter (fmlookup (nodes ord c)) nord)"

definition FilteredList :: "string list \<Rightarrow> string list \<Rightarrow> (Pod \<Rightarrow> bool) \<Rightarrow> (labels \<Rightarrow> bool) \<Rightarrow> schedulerCache \<Rightarrow> Pod list" where
  "FilteredList nord ord podFilter selector c =
     concat (map (\<lambda>item. filter (\<lambda>pod. podFilter pod \<and> selector (pod_Labels pod)) (ni_pods (info_of (heap c) item)))
       (List.map_filter (fmlookup (nodes ord c)) nord))"

definition cache_List :: "string list \<Rightarrow> string list \<Rightarrow> (labels \<Rightarrow> bool) \<Rightarrow> schedulerCache \<Rightarrow> Pod list" where
  "cache_List nord ord selector c = FilteredList nord ord (\<lambda>_. True) selector c"

record Snapshot =
  AssumedPods :: "(string, bool) fmap"
  Nodes :: "(string, NodeInfo) fmap"

definition cache_Snapshot :: "string list \<Rightarrow> schedulerCache \<Rightarrow> Snapshot" where
  "cache_Snapshot ord c =
     \<lparr>AssumedPods = assumedPods c, Nodes = fmmap (\<lambda>item. NodeInfo_Clone (info_of (heap c) item)) (nodes ord c)\<rparr>"

definition cache_NodeInfoSnapshot :: "string \<Rightarrow> schedulerCache \<Rightarrow> NodeInfoSnapshot option" where
  "cache_NodeInfoSnapshot poolName c = map_option nodeInfoSnapshot (fmlookup (pools c) poolName)"

definition cache_UpdateNodeInfoSnapshot :: "bool \<Rightarrow> string \<Rightarrow> schedulerCache \<Rightarrow> cache_result" where
  "cache_UpdateNodeInfoSnapshot bal poolName c = (case fmlookup (pools c) poolName of
     None \<Rightarrow> Some (c, Some (PoolNotInCache poolName))
   | Some p \<Rightarrow> map_option (\<lambda>(p', st'). (c\<lparr>pools := fmupd poolName p' (pools c), heap := st'\<rparr>, None))
       (UpdateNodeInfoSnapshot bal p (heap c)))"

subsection \<open>Borrowing\<close>

text \<open>\<open>predOrd\<close> is the order of the predicate names, the package variable \<open>predicatesOrdering\<close>. The predicates
  are called without metadata.\<close>

fun predicate_loop :: "(string, 'm FitPredicate) fmap \<Rightarrow> Pod \<Rightarrow> NodeInfo \<Rightarrow> string list \<Rightarrow> string + PredicateFailureReason list" where
  "predicate_loop predicateFuncs pod nodeInfo [] = Inr []"
| "predicate_loop predicateFuncs pod nodeInfo (predicateKey # ks) = (case fmlookup predicateFuncs predicateKey of
     None \<Rightarrow> predicate_loop predicateFuncs pod nodeInfo ks
   | Some predicate \<Rightarrow> (case predicate pod None (Some nodeInfo) of
        Inl err \<Rightarrow> Inl err
      | Inr (fit, reasons) \<Rightarrow> if \<not> fit then Inr reasons else predicate_loop predicateFuncs pod nodeInfo ks))"

definition predicateCheck ::
  "string list \<Rightarrow> Pod \<Rightarrow> NodeInfo \<Rightarrow> (string, 'm FitPredicate) fmap \<Rightarrow> bool \<times> PredicateFailureReason list \<times> string option" where
  "predicateCheck predOrd pod nodeInfo predicateFuncs =
     (case predicate_loop predicateFuncs pod nodeInfo predOrd of
        Inl err \<Rightarrow> (False, [], Some err)
      | Inr failedPredicates \<Rightarrow> (length failedPredicates = 0, failedPredicates, None))"

definition higherIdleFunc :: "string \<Rightarrow> PoolInfo \<Rightarrow> PoolInfo \<Rightarrow> bool" where
  "higherIdleFunc selfPoolName p1 p2 =
     (if selfPoolName = PoolInfo_Name p1 \<and> selfPoolName \<noteq> PoolInfo_Name p2 then True
      else if selfPoolName \<noteq> PoolInfo_Name p1 \<and> selfPoolName = PoolInfo_Name p2 then False
      else \<not> LessOrEqual (Idle p1) (Idle p2))"

text \<open>The loop over the nodes of a candidate pool: \<open>None\<close> is the panic of the log statement that reads the
  name of a nil node, \<open>Some True\<close> a node on which the pod fits.\<close>

fun borrow_nodes :: "(NodeInfo \<Rightarrow> bool) \<Rightarrow> NodeInfo list \<Rightarrow> bool option" where
  "borrow_nodes fits [] = Some False"
| "borrow_nodes fits (ni # nis) =
     (if \<not> fits (NodeInfo_Clone ni) then borrow_nodes fits nis
      else if ni_node ni = None then None else Some True)"

fun borrow_pools :: "(NodeInfo \<Rightarrow> bool) \<Rightarrow> (PoolInfo \<Rightarrow> NodeInfo list) \<Rightarrow> PoolInfo list \<Rightarrow> string option option" where
  "borrow_pools fits infos [] = Some None"
| "borrow_pools fits infos (p # ps) = Option.bind (borrow_nodes fits (infos p)) (\<lambda>found.
     if found then Some (Some (PoolInfo_Name p)) else borrow_pools fits infos ps)"

text \<open>\<open>gosort\<close> is Go's \<open>sort.Sort\<close> for a comparison function; \<open>nord\<close> gives the order in which the nodes of a
  pool are visited.\<close>

definition BorrowPool ::
  "((PoolInfo \<Rightarrow> PoolInfo \<Rightarrow> bool) \<Rightarrow> PoolInfo list \<Rightarrow> PoolInfo list) \<Rightarrow> string list \<Rightarrow> string list \<Rightarrow> (PoolInfo \<Rightarrow> string list) \<Rightarrow>
   string \<Rightarrow> Pod \<Rightarrow> (string, 'm FitPredicate) fmap \<Rightarrow> schedulerCache \<Rightarrow> string option" where
  "BorrowPool gosort predOrd ord nord fromPoolName pod predicateFuncs c =
     (let selfPool = Option.bind (matchPoolForPod ord pod c) (fmlookup (pools c));
          selfPoolName = (case selfPool of None \<Rightarrow> [] | Some p \<Rightarrow> PoolInfo_Name p) in
      case selfPool of
        None \<Rightarrow> Some selfPoolName
      | Some selfPoolInfo \<Rightarrow>
          (if DisableBorrowing selfPoolInfo then Some selfPoolName
           else
             let sharing = filter (\<lambda>p. \<not> (fromPoolName = PoolInfo_Name p \<or> \<not> CanBorrowPool selfPoolInfo p))
                   (List.map_filter (fmlookup (pools c)) ord);
                 infos = (\<lambda>p. map (info_of (heap c)) (List.map_filter (fmlookup (pi_nodes p)) (nord p)));
                 fits = (\<lambda>ni. fst (predicateCheck predOrd pod ni predicateFuncs))
             in map_option (\<lambda>r. case r of None \<Rightarrow> selfPoolName | Some n \<Rightarrow> n)
                  (borrow_pools fits infos (gosort (higherIdleFunc selfPoolName) sharing))))"

end
