(* ===== verification/Generic_Scheduler.thy ===== *)
theory Generic_Scheduler
  imports Pool_Queue Scheduler_Cache
begin

text \<open>
  The scheduling algorithm, \<open>pkg/scheduler/core/generic_scheduler.go\<close>: finding the nodes that fit a pod,
  scoring them, choosing a host, and preemption.

  The functions that the algorithm is configured with are fields of \<open>genericScheduler\<close>, as in the code:
  predicates and their metadata, priority functions, extenders and listers. The metadata of the
  predicates has the type \<open>'m\<close>, with the operations of the interface \<open>PredicateMetadata\<close>, and that of
  the priority functions the type \<open>'p\<close>. A \<open>range\<close> over the queues visits them in the order \<open>qord\<close>.

  Copies of node infos that are changed for a trial draw their generation from the package counter, here
  the argument \<open>g\<close>; the copies are dropped and nothing reads these generations, so the counter is not
  returned. Metrics, traces and log output are left out.
\<close>

subsection \<open>Data\<close>

record Victims =
  vi_Pods :: "Pod list"
  NumPDBViolations :: int64

record HostPriority =
  Host :: string
  Score :: int64

record 'm PredicateMetadata =
  ShallowCopy :: "'m \<Rightarrow> 'm"
  meta_AddPod :: "Pod \<Rightarrow> NodeInfo \<Rightarrow> 'm \<Rightarrow> 'm"
  meta_RemovePod :: "Pod \<Rightarrow> 'm \<Rightarrow> 'm"

text \<open>Priority functions return a value together with an error; \<open>Reduce\<close> changes the list it is given.\<close>

record 'p PriorityConfig =
  Map :: "(Pod \<Rightarrow> 'p \<Rightarrow> NodeInfo option \<Rightarrow> HostPriority \<times> string option) option"
  Reduce :: "(Pod \<Rightarrow> 'p \<Rightarrow> node_info_map \<Rightarrow> HostPriority list \<Rightarrow> HostPriority list \<times> string option) option"
  Function :: "(Pod \<Rightarrow> node_info_map \<Rightarrow> Node list \<Rightarrow> HostPriority list \<times> string option) option"
  Weight :: int64

type_synonym victims_map = "(Node \<times> Victims) list"

record SchedulerExtender =
  IsInterested :: "Pod \<Rightarrow> bool"
  IsIgnorable :: bool
  SupportsPreemption :: bool
  ext_Filter :: "Pod \<Rightarrow> Node option list \<Rightarrow> node_info_map \<Rightarrow> string + Node option list \<times> (string \<times> string) list"
  ext_Prioritize :: "Pod \<Rightarrow> Node list \<Rightarrow> string + HostPriority list \<times> int64"
  ProcessPreemption :: "Pod \<Rightarrow> victims_map \<Rightarrow> node_info_map \<Rightarrow> string + victims_map"

record PodDisruptionBudget =
  pdb_Namespace :: string
  pdb_Selector :: "LabelSelector option"
  PodDisruptionsAllowed :: int32

type_synonym FailedPredicateMap = "(string, PredicateFailureReason list) fmap"

datatype sched_error =
    ErrNoNodesAvailable
  | FitError Pod nat FailedPredicateMap
  | Aggregate "(string, nat) fmap"
  | PrioritizeErrors "string list"
  | CacheFailure cache_error
  | OtherError string

record ('m, 'p) genericScheduler =
  predicates :: "(string, 'm FitPredicate) fmap"
  predicatesOrdering :: "string list"
  predicateMetaProducer :: "Pod \<Rightarrow> node_info_map \<Rightarrow> 'm option"
  metaOps :: "'m PredicateMetadata"
  priorityMetaProducer :: "Pod \<Rightarrow> node_info_map \<Rightarrow> 'p"
  prioritizers :: "'p PriorityConfig list"
  extenders :: "SchedulerExtender list"
  lastNodeIndex :: int64
  alwaysCheckAllPredicates :: bool
  pvcLister :: "string \<Rightarrow> string \<Rightarrow> string + bool"
  pdbLister :: "string + PodDisruptionBudget list"
  percentageOfNodesToScore :: int32

record ScheduleResult =
  SuggestedHost :: string
  EvaluatedNodes :: nat
  FeasibleNodes :: nat

subsection \<open>Choosing a host\<close>

fun find_max :: "nat \<Rightarrow> int64 \<Rightarrow> nat list \<Rightarrow> HostPriority list \<Rightarrow> nat list" where
  "find_max i maxScore maxScoreIndexes [] = maxScoreIndexes"
| "find_max i maxScore maxScoreIndexes (hp # hps) =
     (if maxScore <s Score hp then find_max (i + 1) (Score hp) [i] hps
      else if Score hp = maxScore then find_max (i + 1) maxScore (maxScoreIndexes @ [i]) hps
      else find_max (i + 1) maxScore maxScoreIndexes hps)"

definition findMaxScores :: "HostPriority list \<Rightarrow> nat list option" where
  "findMaxScores priorityList = (case priorityList of
     [] \<Rightarrow> None
   | hp # _ \<Rightarrow> Some (find_max 0 (Score hp) [] priorityList))"

text \<open>\<open>g.lastNodeIndex\<close> is an unsigned counter that wraps around.\<close>

definition selectHost :: "('m, 'p) genericScheduler \<Rightarrow> HostPriority list \<Rightarrow> (('m, 'p) genericScheduler \<times> (string + string)) option" where
  "selectHost gs priorityList =
     (if priorityList = [] then Some (gs, Inl ''empty priorityList'')
      else Option.bind (findMaxScores priorityList) (\<lambda>maxScores.
        if maxScores = [] then None
        else let ix = unat (lastNodeIndex gs) mod length maxScores
             in Some (gs\<lparr>lastNodeIndex := lastNodeIndex gs + 1\<rparr>, Inr (Host (priorityList ! (maxScores ! ix))))))"

subsection \<open>How many nodes to look for\<close>

definition minFeasibleNodesToFind :: int32 where
  "minFeasibleNodesToFind = 100"

definition minFeasibleNodesPercentageToFind :: int32 where
  "minFeasibleNodesPercentageToFind = 5"

definition DefaultPercentageOfNodesToScore :: int32 where
  "DefaultPercentageOfNodesToScore = 50"

definition numFeasibleNodesToFind :: "int32 \<Rightarrow> int32 \<Rightarrow> int32" where
  "numFeasibleNodesToFind percentage numAllNodes =
     (if numAllNodes <s minFeasibleNodesToFind \<or> 100 \<le>s percentage then numAllNodes
      else
        let adaptivePercentage =
              (if percentage \<le>s 0
               then let a = DefaultPercentageOfNodesToScore - go_div numAllNodes 125
                    in if a <s minFeasibleNodesPercentageToFind then minFeasibleNodesPercentageToFind else a
               else percentage);
            numNodes = go_div (numAllNodes * adaptivePercentage) 100
        in if numNodes <s minFeasibleNodesToFind then minFeasibleNodesToFind else numNodes)"

subsection \<open>Does a pod fit on a node\<close>

definition nominated_step :: "k8s \<Rightarrow> 'm PredicateMetadata \<Rightarrow> Pod \<Rightarrow> 'm option \<times> NodeInfo \<times> globals \<Rightarrow> Pod \<Rightarrow> 'm option \<times> NodeInfo \<times> globals" where
  "nominated_step L M pod s p = (case s of (metaOut, nodeInfoOut, g) \<Rightarrow>
     if GetPodPriority pod \<le>s GetPodPriority p \<and> pod_UID p \<noteq> pod_UID pod
     then let (ni, g1) = NodeInfo_AddPod L nodeInfoOut p g in (map_option (meta_AddPod M p ni) metaOut, ni, g1)
     else s)"

definition addNominatedPods ::
  "k8s \<Rightarrow> 'm PredicateMetadata \<Rightarrow> string list \<Rightarrow> globals \<Rightarrow> Pod \<Rightarrow> 'm option \<Rightarrow> NodeInfo option \<Rightarrow> PoolQueue \<Rightarrow> bool \<times> 'm option \<times> NodeInfo option" where
  "addNominatedPods L M qord g pod meta nodeInfo pq =
     (case nodeInfo of
        None \<Rightarrow> (False, meta, nodeInfo)
      | Some ni \<Rightarrow>
         (case ni_node ni of
            None \<Rightarrow> (False, meta, nodeInfo)
          | Some node \<Rightarrow>
             (let nominatedPods = PoolQueue_NominatedPodsForNode qord pq (node_Name node) in
              if nominatedPods = [] then (False, meta, nodeInfo)
              else case foldl (nominated_step L M pod) (map_option (ShallowCopy M) meta, NodeInfo_Clone ni, g) nominatedPods of
                (metaOut, nodeInfoOut, _) \<Rightarrow> (True, metaOut, Some nodeInfoOut))))"

fun predicates_pass ::
  "bool \<Rightarrow> (string, 'm FitPredicate) fmap \<Rightarrow> Pod \<Rightarrow> 'm option \<Rightarrow> NodeInfo option \<Rightarrow> string list \<Rightarrow> PredicateFailureReason list \<Rightarrow>
   string + PredicateFailureReason list" where
  "predicates_pass always predicateFuncs pod meta info [] failedPredicates = Inr failedPredicates"
| "predicates_pass always predicateFuncs pod meta info (predicateKey # ks) failedPredicates =
     (case fmlookup predicateFuncs predicateKey of
        None \<Rightarrow> predicates_pass always predicateFuncs pod meta info ks failedPredicates
      | Some predicate \<Rightarrow> (case predicate pod meta info of
          Inl err \<Rightarrow> Inl err
        | Inr (fit, reasons) \<Rightarrow>
            (if \<not> fit
             then if \<not> always then Inr (failedPredicates @ reasons)
                  else predicates_pass always predicateFuncs pod meta info ks (failedPredicates @ reasons)
             else predicates_pass always predicateFuncs pod meta info ks failedPredicates)))"

definition podFitsOnNode ::
  "k8s \<Rightarrow> 'm PredicateMetadata \<Rightarrow> string list \<Rightarrow> string list \<Rightarrow> globals \<Rightarrow>
   Pod \<Rightarrow> 'm option \<Rightarrow> NodeInfo option \<Rightarrow> (string, 'm FitPredicate) fmap \<Rightarrow> PoolQueue \<Rightarrow> bool \<Rightarrow> fit_result" where
  "podFitsOnNode L M predOrd qord g pod meta info predicateFuncs pq always =
     (case addNominatedPods L M qord g pod meta info pq of (podsAdded, meta1, info1) \<Rightarrow>
        case predicates_pass always predicateFuncs pod meta1 info1 predOrd [] of
          Inl err \<Rightarrow> Inl err
        | Inr failed \<Rightarrow>
            if \<not> podsAdded \<or> failed \<noteq> [] then Inr (failed = [], failed)
            else (case predicates_pass always predicateFuncs pod meta info predOrd failed of
              Inl err \<Rightarrow> Inl err
            | Inr failed2 \<Rightarrow> Inr (failed2 = [], failed2)))"

subsection \<open>Finding the nodes that fit\<close>

text \<open>
  \<open>workqueue.ParallelizeUntil\<close> runs \<open>checkNode\<close> for as many pieces as there are nodes on up to 16 workers, and a
  worker takes no new piece once the context is cancelled. A call of \<open>checkNode\<close> draws a name from the node
  tree, evaluates the predicates, which change nothing shared, and records its result. Its two
  visible actions are thus drawing and recording, each of which is atomic: the tree and the result maps have
  locks, and the slots of \<open>filtered\<close> are given out by an atomic counter. (A counter value above the number of
  slots is only ever seen when all slots are taken, so increment, test and decrement act as one.)

  A run is a list of actions: \<open>Take\<close>, a worker takes a piece and draws a name, and \<open>Finish i\<close>, the call that
  is at position \<open>i\<close> among the open ones records its result. An action that is not possible is skipped.
\<close>

datatype action = Take | Finish nat

record search =
  sr_tree :: NodeTree
  sr_taken :: nat
  sr_open :: "string list"
  sr_filtered :: "Node option list"
  sr_failed :: FailedPredicateMap
  sr_errs :: "(string, nat) fmap"
  sr_cancelled :: bool

definition search_start :: "NodeTree \<Rightarrow> search" where
  "search_start nt = \<lparr>sr_tree = nt, sr_taken = 0, sr_open = [], sr_filtered = [], sr_failed = fmempty, sr_errs = fmempty, sr_cancelled = False\<rparr>"

definition record_result :: "(string \<Rightarrow> fit_result) \<Rightarrow> node_info_map \<Rightarrow> nat \<Rightarrow> string \<Rightarrow> search \<Rightarrow> search" where
  "record_result check infos numNodesToFind nodeName s = (case check nodeName of
     Inl err \<Rightarrow> s\<lparr>sr_errs := fmupd err (case fmlookup (sr_errs s) err of None \<Rightarrow> 1 | Some n \<Rightarrow> n + 1) (sr_errs s)\<rparr>
   | Inr (fits, failedPredicates) \<Rightarrow>
      (if fits
       then if length (sr_filtered s) \<ge> numNodesToFind then s\<lparr>sr_cancelled := True\<rparr>
            else s\<lparr>sr_filtered := sr_filtered s @ [NodeInfo_Node (fmlookup infos nodeName)]\<rparr>
       else s\<lparr>sr_failed := fmupd nodeName failedPredicates (sr_failed s)\<rparr>))"

definition search_act :: "(string \<Rightarrow> fit_result) \<Rightarrow> node_info_map \<Rightarrow> nat \<Rightarrow> nat \<Rightarrow> action \<Rightarrow> search \<Rightarrow> search option" where
  "search_act check infos numNodesToFind allNodes a s = (case a of
     Take \<Rightarrow>
       (if sr_cancelled s \<or> sr_taken s \<ge> allNodes \<or> length (sr_open s) \<ge> 16 then Some s
        else map_option (\<lambda>(nodeName, nt). s\<lparr>sr_tree := nt, sr_taken := sr_taken s + 1, sr_open := sr_open s @ [nodeName]\<rparr>) (Next (sr_tree s)))
   | Finish i \<Rightarrow>
       (if i < length (sr_open s)
        then Some (record_result check infos numNodesToFind (sr_open s ! i) (s\<lparr>sr_open := take i (sr_open s) @ drop (i + 1) (sr_open s)\<rparr>))
        else Some s))"

definition search_run :: "(string \<Rightarrow> fit_result) \<Rightarrow> node_info_map \<Rightarrow> nat \<Rightarrow> nat \<Rightarrow> action list \<Rightarrow> search \<Rightarrow> search option" where
  "search_run check infos numNodesToFind allNodes = foldM (search_act check infos numNodesToFind allNodes)"

text \<open>The call returns when no piece is open and no worker may take another one.\<close>

definition search_done :: "nat \<Rightarrow> search \<Rightarrow> bool" where
  "search_done allNodes s \<longleftrightarrow> sr_open s = [] \<and> (sr_cancelled s \<or> sr_taken s \<ge> allNodes)"

text \<open>The loop over the extenders. The node names of a failure map come in the order of its iteration.\<close>

definition add_failure :: "FailedPredicateMap \<Rightarrow> string \<times> string \<Rightarrow> FailedPredicateMap" where
  "add_failure m e = (case e of (failedNodeName, failedMsg) \<Rightarrow>
     fmupd failedNodeName ((case fmlookup m failedNodeName of None \<Rightarrow> [] | Some rs \<Rightarrow> rs) @ [FailureReason failedMsg]) m)"

fun filter_extenders ::
  "Pod \<Rightarrow> node_info_map \<Rightarrow> SchedulerExtender list \<Rightarrow> Node option list \<Rightarrow> FailedPredicateMap \<Rightarrow> sched_error + Node option list \<times> FailedPredicateMap" where
  "filter_extenders pod infos [] filtered failed = Inr (filtered, failed)"
| "filter_extenders pod infos (ext # exts) filtered failed =
     (if \<not> IsInterested ext pod then filter_extenders pod infos exts filtered failed
      else case ext_Filter ext pod filtered infos of
        Inl err \<Rightarrow> if IsIgnorable ext then filter_extenders pod infos exts filtered failed else Inl (OtherError err)
      | Inr (filteredList, failedMap) \<Rightarrow>
          (let failed1 = foldl add_failure failed failedMap in
           if filteredList = [] then Inr (filteredList, failed1)
           else filter_extenders pod infos exts filteredList failed1))"

definition set_tree :: "string \<Rightarrow> NodeTree \<Rightarrow> schedulerCache \<Rightarrow> schedulerCache" where
  "set_tree poolName nt c = (case fmlookup (pools c) poolName of
     None \<Rightarrow> c | Some p \<Rightarrow> c\<lparr>pools := fmupd poolName (p\<lparr>nodeTree := nt\<rparr>) (pools c)\<rparr>)"

text \<open>\<open>acts\<close> is the interleaving of the workers; the result is \<open>None\<close> for a panic and for a list of actions that is not
  a complete run.\<close>

definition findNodesThatFit ::
  "k8s \<Rightarrow> string list \<Rightarrow> globals \<Rightarrow> action list \<Rightarrow> ('m, 'p) genericScheduler \<Rightarrow> PoolQueue \<Rightarrow> string \<Rightarrow> Pod \<Rightarrow> Node list \<Rightarrow> schedulerCache \<Rightarrow>
   (schedulerCache \<times> (sched_error + Node option list \<times> FailedPredicateMap)) option" where
  "findNodesThatFit L qord g acts gs pq poolName pod nodeList c =
     Option.bind (fmlookup (pools c) poolName) (\<lambda>p.
       let infos = NodeInfoMap (nodeInfoSnapshot p);
           finish = (\<lambda>filtered failed. if filtered \<noteq> [] \<and> extenders gs \<noteq> [] then filter_extenders pod infos (extenders gs) filtered failed
                                       else Inr (filtered, failed))
       in if fmdom (predicates gs) = {||} then Some (c, finish (map Some nodeList) fmempty)
          else
            let allNodes = ucast (NodeTree_NumNodes (nodeTree p)) :: int32;
                numNodesToFind = numFeasibleNodesToFind (percentageOfNodesToScore gs) allNodes;
                meta = predicateMetaProducer gs pod infos;
                check = (\<lambda>nodeName. podFitsOnNode L (metaOps gs) (predicatesOrdering gs) qord g pod meta (fmlookup infos nodeName)
                           (predicates gs) pq (alwaysCheckAllPredicates gs))
            in if numNodesToFind <s 0 then None
               else Option.bind (search_run check infos (nat (sint numNodesToFind)) (nat (sint allNodes)) acts (search_start (nodeTree p))) (\<lambda>s.
                 if \<not> search_done (nat (sint allNodes)) s then None
                 else Some (set_tree poolName (sr_tree s) c,
                   if sr_errs s \<noteq> fmempty then Inl (Aggregate (sr_errs s)) else finish (sr_filtered s) (sr_failed s))))"

subsection \<open>Scoring\<close>

definition EqualPriorityMap :: "NodeInfo option \<Rightarrow> HostPriority \<times> string option" where
  "EqualPriorityMap nodeInfo = (case NodeInfo_Node nodeInfo of
     None \<Rightarrow> (\<lparr>Host = [], Score = 0\<rparr>, Some ''node not found'')
   | Some node \<Rightarrow> (\<lparr>Host = node_Name node, Score = 1\<rparr>, None))"

fun equal_priorities :: "node_info_map \<Rightarrow> Node list \<Rightarrow> HostPriority list \<Rightarrow> sched_error + HostPriority list" where
  "equal_priorities infos [] result = Inr result"
| "equal_priorities infos (node # nodeList) result = (case EqualPriorityMap (fmlookup infos (node_Name node)) of
     (_, Some err) \<Rightarrow> Inl (OtherError err)
   | (hostPriority, None) \<Rightarrow> equal_priorities infos nodeList (result @ [hostPriority]))"

text \<open>The scores of one priority configuration and the errors it reports. A configuration has a \<open>Function\<close>, or a \<open>Map\<close> with
  perhaps a \<open>Reduce\<close>; calling a missing function panics. Scores of different nodes and configurations are
  computed in parallel and do not depend on each other.\<close>

definition map_score :: "(Pod \<Rightarrow> 'p \<Rightarrow> NodeInfo option \<Rightarrow> HostPriority \<times> string option) \<Rightarrow> Pod \<Rightarrow> 'p \<Rightarrow> node_info_map \<Rightarrow> Node \<Rightarrow> HostPriority \<times> string list" where
  "map_score f pod meta infos node = (case f pod meta (fmlookup infos (node_Name node)) of
     (hp, None) \<Rightarrow> (hp, [])
   | (hp, Some err) \<Rightarrow> (hp\<lparr>Host := node_Name node\<rparr>, [err]))"

definition config_scores :: "Pod \<Rightarrow> node_info_map \<Rightarrow> 'p \<Rightarrow> Node list \<Rightarrow> 'p PriorityConfig \<Rightarrow> (HostPriority list \<times> string list) option" where
  "config_scores pod infos meta nodeList config =
     Option.bind (case Function config of
        Some f \<Rightarrow> (case f pod infos nodeList of (hps, e) \<Rightarrow> Some (hps, case e of None \<Rightarrow> [] | Some err \<Rightarrow> [err]))
      | None \<Rightarrow> (case Map config of
          None \<Rightarrow> if nodeList = [] then Some ([], []) else None
        | Some f \<Rightarrow> (let rs = map (map_score f pod meta infos) nodeList in Some (map fst rs, concat (map snd rs))))) (\<lambda>(hps, errs).
     case Reduce config of
       None \<Rightarrow> Some (hps, errs)
     | Some r \<Rightarrow> (case r pod meta infos hps of (hps', e) \<Rightarrow> Some (hps', errs @ (case e of None \<Rightarrow> [] | Some err \<Rightarrow> [err]))))"

definition weighted :: "nat \<Rightarrow> int64 option \<Rightarrow> HostPriority list \<times> int64 \<Rightarrow> int64 option" where
  "weighted i acc r = (case r of (hps, weight) \<Rightarrow>
     Option.bind acc (\<lambda>a. if i < length hps then Some (a + Score (hps ! i) * weight) else None))"

definition sum_scores :: "Node list \<Rightarrow> (HostPriority list \<times> int64) list \<Rightarrow> HostPriority list option" where
  "sum_scores nodeList results =
     those (map (\<lambda>i. map_option (\<lambda>sc. \<lparr>Host = node_Name (nodeList ! i), Score = sc\<rparr>) (foldl (weighted i) (Some 0) results)) [0..<length nodeList])"

text \<open>The scores that the extenders add for each host; their order does not matter, as the sums commute.\<close>

definition extender_scores :: "Pod \<Rightarrow> Node list \<Rightarrow> SchedulerExtender list \<Rightarrow> (string, int64) fmap" where
  "extender_scores pod nodeList exts =
     foldl (\<lambda>m ext. if \<not> IsInterested ext pod then m else (case ext_Prioritize ext pod nodeList of
         Inl _ \<Rightarrow> m
       | Inr (prioritizedList, weight) \<Rightarrow>
           foldl (\<lambda>m hp. fmupd (Host hp) ((case fmlookup m (Host hp) of None \<Rightarrow> 0 | Some x \<Rightarrow> x) + Score hp * weight) m) m prioritizedList))
       fmempty exts"

definition PrioritizeNodes ::
  "Pod \<Rightarrow> node_info_map \<Rightarrow> 'p \<Rightarrow> 'p PriorityConfig list \<Rightarrow> Node list \<Rightarrow> SchedulerExtender list \<Rightarrow> (sched_error + HostPriority list) option" where
  "PrioritizeNodes pod infos meta configs nodeList exts =
     (if configs = [] \<and> exts = [] then Some (equal_priorities infos nodeList [])
      else Option.bind (those (map (config_scores pod infos meta nodeList) configs)) (\<lambda>rs.
        let errs = concat (map snd rs) in
        if errs \<noteq> [] then Some (Inl (PrioritizeErrors errs))
        else map_option (\<lambda>result.
            if exts = [] then Inr result
            else let combinedScores = extender_scores pod nodeList exts
                 in Inr (map (\<lambda>hp. hp\<lparr>Score := Score hp + (case fmlookup combinedScores (Host hp) of None \<Rightarrow> 0 | Some x \<Rightarrow> x)\<rparr>) result))
          (sum_scores nodeList (zip (map fst rs) (map Weight configs)))))"

subsection \<open>Schedule\<close>

fun podPassesBasicChecks :: "(string \<Rightarrow> string \<Rightarrow> string + bool) \<Rightarrow> string \<Rightarrow> Volume list \<Rightarrow> string option" where
  "podPassesBasicChecks getPVC namespace [] = None"
| "podPassesBasicChecks getPVC namespace (volume # volumes) = (case PersistentVolumeClaim volume of
     None \<Rightarrow> podPassesBasicChecks getPVC namespace volumes
   | Some pvcName \<Rightarrow> (case getPVC namespace pvcName of
       Inl err \<Rightarrow> Some err
     | Inr deleting \<Rightarrow> if deleting then Some (''persistentvolumeclaim '' @ pvcName @ '' is being deleted'')
                       else podPassesBasicChecks getPVC namespace volumes))"

text \<open>\<open>nodes\<close> is the answer of the node lister. \<open>bal\<close> is the feature gate that \<open>UpdateNodeInfoSnapshot\<close> reads.\<close>

definition Schedule ::
  "k8s \<Rightarrow> bool \<Rightarrow> string list \<Rightarrow> globals \<Rightarrow> action list \<Rightarrow> PoolQueue \<Rightarrow> string \<Rightarrow> Pod \<Rightarrow> string + Node list \<Rightarrow>
   ('m, 'p) genericScheduler \<Rightarrow> schedulerCache \<Rightarrow> (('m, 'p) genericScheduler \<times> schedulerCache \<times> (sched_error + ScheduleResult)) option" where
  "Schedule L bal qord g acts pq poolName pod nodeLister gs c =
     (case podPassesBasicChecks (pvcLister gs) (pod_Namespace pod) (pod_Volumes pod) of
        Some err \<Rightarrow> Some (gs, c, Inl (OtherError err))
      | None \<Rightarrow> (case nodeLister of
          Inl err \<Rightarrow> Some (gs, c, Inl (OtherError err))
        | Inr nodeList \<Rightarrow>
            if nodeList = [] then Some (gs, c, Inl ErrNoNodesAvailable)
            else Option.bind (cache_UpdateNodeInfoSnapshot bal poolName c) (\<lambda>(c1, e).
              case e of
                Some err \<Rightarrow> Some (gs, c1, Inl (CacheFailure err))
              | None \<Rightarrow> Option.bind (findNodesThatFit L qord g acts gs pq poolName pod nodeList c1) (\<lambda>(c2, r).
                  case r of
                    Inl err \<Rightarrow> Some (gs, c2, Inl err)
                  | Inr ([], failed) \<Rightarrow> Some (gs, c2, Inl (FitError pod (length nodeList) failed))
                  | Inr ([node], failed) \<Rightarrow>
                      map_option (\<lambda>nd. (gs, c2, Inr \<lparr>SuggestedHost = node_Name nd, EvaluatedNodes = 1 + fcard (fmdom failed), FeasibleNodes = 1\<rparr>)) node
                  | Inr (filtered, failed) \<Rightarrow>
                      Option.bind (those filtered) (\<lambda>fnodes.
                      Option.bind (cache_NodeInfoSnapshot poolName c2) (\<lambda>snap.
                      Option.bind (PrioritizeNodes pod (NodeInfoMap snap) (priorityMetaProducer gs pod (NodeInfoMap snap)) (prioritizers gs) fnodes (extenders gs)) (\<lambda>pr.
                        case pr of
                          Inl err \<Rightarrow> Some (gs, c2, Inl err)
                        | Inr priorityList \<Rightarrow> map_option (\<lambda>(gs1, h). (gs1, c2, case h of
                              Inl err \<Rightarrow> Inl (OtherError err)
                            | Inr host \<Rightarrow> Inr \<lparr>SuggestedHost = host, EvaluatedNodes = length filtered + fcard (fmdom failed), FeasibleNodes = length filtered\<rparr>))
                            (selectHost gs priorityList))))))))"

end
