(* ===== verification/Search_Runs.thy ===== *)
theory Search_Runs
  imports Generic_Scheduler
begin

text \<open>
  The parallel search for nodes. Every interleaving of the workers gives the result of checking the drawn names one
  after the other in some order; a search always comes to an end; and a search that starts with a new
  round of the node tree checks every node.
\<close>

subsection \<open>How far the search goes\<close>

lemma sint_of_int_range: "- (2 ^ 31) \<le> i \<Longrightarrow> i < 2 ^ 31 \<Longrightarrow> sint (word_of_int i :: int32) = i"
  by (simp add: signed_take_bit_int_eq_self sint_sbintrunc')

lemma sint_go_div_pos:
  fixes a b :: int32
  assumes "0 \<le> sint a" "0 < sint b"
  shows "sint (go_div a b) = sint a div sint b"
proof -
  have "sint a div sint b \<le> sint a" using zdiv_mono2[of "sint a" 1 "sint b"] assms by simp
  moreover have "sint a < 2 ^ 31" using sint_lt[of a] by simp
  moreover have "0 \<le> sint a div sint b" using assms by (simp add: pos_imp_zdiv_nonneg_iff)
  moreover have "go_div a b = word_of_int (sint a div sint b)" using assms by (cases "sint a = 0") (simp_all add: go_div_def)
  ultimately show ?thesis by (simp add: sint_of_int_range)
qed

lemma sint_times_small:
  fixes a b :: int32
  assumes "- (2 ^ 31) \<le> sint a * sint b" "sint a * sint b < 2 ^ 31"
  shows "sint (a * b) = sint a * sint b"
  using sint_of_int_range[OF assms] by simp

lemma sint_minus_small:
  fixes a b :: int32
  assumes "- (2 ^ 31) \<le> sint a - sint b" "sint a - sint b < 2 ^ 31"
  shows "sint (a - b) = sint a - sint b"
  using sint_of_int_range[OF assms] by simp

text \<open>The percentage that is in force: the configured one, or one that shrinks from 50 by one for each 125 nodes, down to 5.\<close>

definition percentage_for :: "int \<Rightarrow> int \<Rightarrow> int" where
  "percentage_for percentage n = (if percentage \<le> 0 then max 5 (50 - n div 125) else percentage)"


lemma numFeasible_value:
  assumes "0 \<le> sint n" "sint n * 100 < 2 ^ 31"
  shows "sint (numFeasibleNodesToFind percentage n) =
      (if sint n < 100 \<or> 100 \<le> sint percentage then sint n
       else max 100 (sint n * percentage_for (sint percentage) (sint n) div 100)) \<and>
    min 100 (sint n) \<le> sint (numFeasibleNodesToFind percentage n) \<and>
    sint (numFeasibleNodesToFind percentage n) \<le> sint n"
proof -
  let ?r = "numFeasibleNodesToFind percentage n"
  have q: "sint (go_div n 125) = sint n div 125" using sint_go_div_pos[of n 125] assms(1) by simp
  have "0 \<le> sint n div 125" "sint n div 125 \<le> sint n" using assms(1) zdiv_mono2[of "sint n" 1 125] by simp_all
  then have a: "sint (50 - go_div n 125) = 50 - sint n div 125" using sint_minus_small[of 50 "go_div n 125"] q assms by simp
  have pc: "sint (if percentage \<le>s 0 then if 50 - go_div n 125 <s 5 then 5 else 50 - go_div n 125 else percentage) =
      percentage_for (sint percentage) (sint n)"
    using a by (auto simp: percentage_for_def word_sle_eq word_sless_alt)
  have eq: "sint ?r = max 100 (sint n * percentage_for (sint percentage) (sint n) div 100)" and
    b: "percentage_for (sint percentage) (sint n) \<le> 100"
    if big: "100 \<le> sint n" "sint percentage < 100"
  proof -
    let ?p = "if percentage \<le>s 0 then if 50 - go_div n 125 <s 5 then 5 else 50 - go_div n 125 else percentage"
    show b: "percentage_for (sint percentage) (sint n) \<le> 100" using big by (auto simp: percentage_for_def)
    have b0: "0 < percentage_for (sint percentage) (sint n)" by (auto simp: percentage_for_def)
    have "sint n * sint ?p \<le> sint n * 100" unfolding pc using b assms(1) by (rule mult_left_mono)
    moreover have p0: "0 \<le> sint n * sint ?p" unfolding pc using b0 assms(1) by simp
    ultimately have m: "sint (n * ?p) = sint n * sint ?p" using assms(2) by (intro sint_times_small) linarith+
    have d: "sint (go_div (n * ?p) 100) = sint n * sint ?p div 100" using sint_go_div_pos[of "n * ?p" 100] p0 m by simp
    have "?r = (if go_div (n * ?p) 100 <s 100 then 100 else go_div (n * ?p) 100)"
      using big by (simp add: numFeasibleNodesToFind_def Let_def word_sle_eq word_sless_alt minFeasibleNodesToFind_def
          minFeasibleNodesPercentageToFind_def DefaultPercentageOfNodesToScore_def)
    then show "sint ?r = max 100 (sint n * percentage_for (sint percentage) (sint n) div 100)"
      using d pc by (simp add: word_sless_alt max_def)
  qed
  have small: "?r = n" if "sint n < 100 \<or> 100 \<le> sint percentage"
    using that by (auto simp: numFeasibleNodesToFind_def minFeasibleNodesToFind_def word_sle_eq word_sless_alt)
  have le: "sint n * percentage_for (sint percentage) (sint n) div 100 \<le> sint n" if "100 \<le> sint n" "sint percentage < 100"
    using zdiv_mono1[OF mult_left_mono[OF b[OF that] assms(1)], of 100] by simp
  show ?thesis
  proof (cases "sint n < 100 \<or> 100 \<le> sint percentage")
    case True
    then show ?thesis using small by simp
  next
    case False
    then show ?thesis using eq le by auto
  qed
qed

text \<open>
  C22. How many nodes to look for. As long as the number of nodes times one hundred stays within 32 bits, the
  product in \<open>numFeasibleNodesToFind\<close> does not wrap: clusters below one hundred nodes are searched
  completely, and larger ones until the given share of them, but at least one hundred and never more than all
  nodes, has been found. Beyond that size the product wraps and the share no longer holds: with thirty
  million nodes and a percentage of 90 the code asks for the minimum of one hundred.
\<close>

theorem numFeasibleNodesToFind_bounds:
  assumes "0 \<le> sint n" "sint n * 100 < 2 ^ 31"
  shows "sint (numFeasibleNodesToFind percentage n) =
      (if sint n < 100 \<or> 100 \<le> sint percentage then sint n
       else max 100 (sint n * percentage_for (sint percentage) (sint n) div 100)) \<and>
    min 100 (sint n) \<le> sint (numFeasibleNodesToFind percentage n) \<and>
    sint (numFeasibleNodesToFind percentage n) \<le> sint n \<and>
    numFeasibleNodesToFind 90 30000000 = 100"
proof -
  have "numFeasibleNodesToFind 90 30000000 = 100" by code_simp
  then show ?thesis using numFeasible_value[OF assms] by blast
qed

theorem numFeasibleNodesToFind_bounds_witness:
  "sint (numFeasibleNodesToFind 0 5000) = 500 \<and> sint (numFeasibleNodesToFind 30 200) = 100"
  using numFeasibleNodesToFind_bounds[of 5000 0] numFeasibleNodesToFind_bounds[of 200 30] by (simp add: percentage_for_def)

subsection \<open>Drawing names\<close>

lemma Next_total:
  assumes "tree_inv nt"
  obtains n nt' where "Next nt = Some (n, nt')" "tree_inv nt'" "all_nodes nt' = all_nodes nt"
    "all_nodes nt \<noteq> [] \<Longrightarrow> n \<in> set (all_nodes nt)"
proof (cases "zones nt = []")
  case True
  then show ?thesis using that[of "[]" nt] assms by (simp add: Next_def all_nodes_def)
next
  case False
  let ?nt = "if remaining nt = {#} then resetExhausted nt else nt"
  have t: "tree_inv ?nt" "all_nodes ?nt = all_nodes nt" using assms by (simp_all add: resetExhausted_facts)
  obtain n nt' where n: "Next nt = Some (n, nt')" "drawn n ?nt nt'" using Next_draws[OF assms False] by blast
  show ?thesis using that[OF n(1)] drawn_facts[OF t(1) n(2)] t(2) by simp
qed

lemma Next_many_snoc:
  "Next_many k nt = Some (ns, nt1) \<Longrightarrow> Next nt1 = Some (n, nt2) \<Longrightarrow> Next_many (Suc k) nt = Some (ns @ [n], nt2)"
proof (induction k arbitrary: nt ns)
  case (Suc k)
  obtain m nt' ms where m: "Next nt = Some (m, nt')" "Next_many k nt' = Some (ms, nt1)" "ns = m # ms"
    using Suc.prems(1) by (auto simp: bind_eq_Some_conv)
  show ?case using m Suc.IH[OF m(2) Suc.prems(2)] by simp
qed simp

subsection \<open>What has been recorded\<close>

definition node_fits :: "(string \<Rightarrow> fit_result) \<Rightarrow> string \<Rightarrow> bool" where
  "node_fits check n \<longleftrightarrow> (case check n of Inr (fits, _) \<Rightarrow> fits | Inl _ \<Rightarrow> False)"

definition fitting :: "(string \<Rightarrow> fit_result) \<Rightarrow> node_info_map \<Rightarrow> string list \<Rightarrow> Node option list" where
  "fitting check infos ns = map (\<lambda>n. NodeInfo_Node (fmlookup infos n)) (filter (node_fits check) ns)"

text \<open>The state after the names \<open>ns\<close> have been checked one after the other.\<close>

definition checked :: "(string \<Rightarrow> fit_result) \<Rightarrow> node_info_map \<Rightarrow> nat \<Rightarrow> string list \<Rightarrow> search \<Rightarrow> bool" where
  "checked check infos numNodesToFind ns s \<longleftrightarrow>
     sr_filtered s = take numNodesToFind (fitting check infos ns) \<and>
     (sr_cancelled s \<longleftrightarrow> numNodesToFind < length (fitting check infos ns)) \<and>
     (\<forall>n. fmlookup (sr_failed s) n = (if n \<in> set ns then (case check n of Inr (False, reasons) \<Rightarrow> Some reasons | _ \<Rightarrow> None) else None)) \<and>
     (\<forall>e. fmlookup (sr_errs s) e = (let k = length (filter (\<lambda>n. check n = Inl e) ns) in if k = 0 then None else Some k))"

lemma checked_start: "checked check infos N [] (search_start nt)"
  by (simp add: checked_def search_start_def fitting_def)

lemma fitting_snoc: "fitting check infos (ns @ [n]) = fitting check infos ns @ (if node_fits check n then [NodeInfo_Node (fmlookup infos n)] else [])"
  by (simp add: fitting_def)

lemma checked_record:
  assumes "checked check infos N ns s"
  shows "checked check infos N (ns @ [n]) (record_result check infos N n s)"
proof (cases "check n")
  case (Inl err)
  then show ?thesis using assms by (auto simp: checked_def record_result_def fitting_snoc node_fits_def Let_def)
next
  case (Inr r)
  obtain fits reasons where r: "r = (fits, reasons)" by fastforce
  show ?thesis
  proof (cases fits)
    case True
    then show ?thesis using assms Inr r by (auto simp: checked_def record_result_def fitting_snoc node_fits_def Let_def)
  next
    case False
    then show ?thesis using assms Inr r by (auto simp: checked_def record_result_def fitting_snoc node_fits_def Let_def)
  qed
qed

lemma checked_frame [simp]:
  "checked check infos N ns (s\<lparr>sr_open := x\<rparr>) = checked check infos N ns s"
  "checked check infos N ns (s\<lparr>sr_taken := k\<rparr>) = checked check infos N ns s"
  "checked check infos N ns (s\<lparr>sr_tree := t\<rparr>) = checked check infos N ns s"
  by (simp_all add: checked_def)

lemma record_result_frame [simp]:
  "sr_tree (record_result check infos N n s) = sr_tree s" "sr_taken (record_result check infos N n s) = sr_taken s"
  "sr_open (record_result check infos N n s) = sr_open s"
  by (simp_all add: record_result_def split: sum.splits prod.splits)

subsection \<open>The invariant of a run\<close>

definition run_inv :: "(string \<Rightarrow> fit_result) \<Rightarrow> node_info_map \<Rightarrow> nat \<Rightarrow> nat \<Rightarrow> NodeTree \<Rightarrow> search \<Rightarrow> bool" where
  "run_inv check infos N allNodes nt s \<longleftrightarrow>
     (\<exists>ds ns. Next_many (sr_taken s) nt = Some (ds, sr_tree s) \<and> mset ds = mset (sr_open s) + mset ns \<and> checked check infos N ns s) \<and>
     sr_taken s \<le> allNodes \<and> tree_inv (sr_tree s) \<and> all_nodes (sr_tree s) = all_nodes nt"

lemma run_inv_start: "tree_inv nt \<Longrightarrow> run_inv check infos N allNodes nt (search_start nt)"
  using checked_start[of check infos N nt] by (auto simp: run_inv_def) (auto simp: search_start_def)

lemma mset_open: "i < length xs \<Longrightarrow> mset xs = add_mset (xs ! i) (mset (take i xs @ drop (i + 1) xs))"
  by (metis Suc_eq_plus1 add_mset_add_single id_take_nth_drop mset.simps(2) mset_append union_mset_add_mset_right)

text \<open>How much work is left: a piece that is not taken has two actions to come, an open one has one.\<close>

definition work_left :: "nat \<Rightarrow> search \<Rightarrow> nat" where
  "work_left allNodes s = 2 * (allNodes - sr_taken s) + length (sr_open s)"

lemma search_act_inv:
  assumes "run_inv check infos N allNodes nt s"
  shows "\<exists>s'. search_act check infos N allNodes a s = Some s' \<and> run_inv check infos N allNodes nt s' \<and>
    (s' = s \<or> work_left allNodes s' < work_left allNodes s)"
proof -
  obtain ds ns where I: "Next_many (sr_taken s) nt = Some (ds, sr_tree s)" "mset ds = mset (sr_open s) + mset ns"
    "checked check infos N ns s" "sr_taken s \<le> allNodes" "tree_inv (sr_tree s)" "all_nodes (sr_tree s) = all_nodes nt"
    using assms by (auto simp: run_inv_def)
  show ?thesis
  proof (cases a)
    case Take
    obtain n nt' where n: "Next (sr_tree s) = Some (n, nt')" "tree_inv nt'" "all_nodes nt' = all_nodes (sr_tree s)"
      by (rule Next_total[OF I(5)]) (rule that)
    let ?s = "s\<lparr>sr_tree := nt', sr_taken := sr_taken s + 1, sr_open := sr_open s @ [n]\<rparr>"
    have "run_inv check infos N allNodes nt ?s" if "sr_taken s < allNodes"
      unfolding run_inv_def
      using Next_many_snoc[OF I(1) n(1)] I(2,3,6) n(2,3) that by (auto intro!: exI[of _ "ds @ [n]"] exI[of _ ns])
    then show ?thesis using Take assms n(1) by (auto simp: search_act_def work_left_def)
  next
    case (Finish i)
    let ?n = "sr_open s ! i" and ?s = "s\<lparr>sr_open := take i (sr_open s) @ drop (i + 1) (sr_open s)\<rparr>"
    have "run_inv check infos N allNodes nt (record_result check infos N ?n ?s)" if "i < length (sr_open s)"
    proof -
      have "checked check infos N (ns @ [?n]) (record_result check infos N ?n ?s)"
        using checked_record[of check infos N ns ?s] I(3) by simp
      moreover have "mset ds = mset (take i (sr_open s) @ drop (i + 1) (sr_open s)) + mset (ns @ [?n])"
        using I(2) mset_open[OF that] by simp
      ultimately show ?thesis unfolding run_inv_def using I(1,4-6)
        by (intro conjI exI[of _ ds] exI[of _ "ns @ [?n]"]) simp_all
    qed
    then show ?thesis using Finish assms by (auto simp: search_act_def work_left_def)
  qed
qed

lemma search_run_inv:
  assumes "run_inv check infos N allNodes nt s"
  shows "\<exists>s'. search_run check infos N allNodes acts s = Some s' \<and> run_inv check infos N allNodes nt s'"
  unfolding search_run_def
  by (rule foldM_inv[where I = "\<lambda>_. run_inv check infos N allNodes nt"]) (use assms search_act_inv in blast)+

text \<open>
  C21. The search comes to an end. From any state that a search of a well-formed tree reaches, no action of a worker
  panics; every action that changes the state uses up some of the work that is left; and as long as the
  search is not done, some action does change the state. So a search has at most two effective actions for each node, and
  every schedule of the workers that lets them act completes it.
\<close>

theorem search_terminates:
  assumes "tree_inv nt" "search_run check infos N allNodes acts (search_start nt) = Some s"
  shows "(\<forall>a. \<exists>s'. search_act check infos N allNodes a s = Some s' \<and> (s' = s \<or> work_left allNodes s' < work_left allNodes s)) \<and>
    (\<not> search_done allNodes s \<longrightarrow> (\<exists>a s'. search_act check infos N allNodes a s = Some s' \<and> work_left allNodes s' < work_left allNodes s)) \<and>
    work_left allNodes (search_start nt) = 2 * allNodes"
proof -
  have inv: "run_inv check infos N allNodes nt s"
    using search_run_inv[OF run_inv_start[OF assms(1)], of check infos N allNodes acts] assms(2) by auto
  have "\<exists>a s'. search_act check infos N allNodes a s = Some s' \<and> work_left allNodes s' < work_left allNodes s" if "\<not> search_done allNodes s"
  proof (cases "sr_open s = []")
    case True
    have "tree_inv (sr_tree s)" using inv by (simp add: run_inv_def)
    then obtain n nt' where "Next (sr_tree s) = Some (n, nt')" by (rule Next_total) (rule that)
    then have "search_act check infos N allNodes Take s = Some (s\<lparr>sr_tree := nt', sr_taken := sr_taken s + 1, sr_open := [n]\<rparr>)"
      using that True by (simp add: search_done_def search_act_def)
    moreover have "work_left allNodes (s\<lparr>sr_tree := nt', sr_taken := sr_taken s + 1, sr_open := [n]\<rparr>) < work_left allNodes s"
      using that True by (auto simp: work_left_def search_done_def)
    ultimately show ?thesis by blast
  next
    case False
    then have "search_act check infos N allNodes (Finish 0) s = Some (record_result check infos N (hd (sr_open s)) (s\<lparr>sr_open := tl (sr_open s)\<rparr>))"
      by (simp add: search_act_def hd_conv_nth drop_Suc)
    moreover have "work_left allNodes (record_result check infos N (hd (sr_open s)) (s\<lparr>sr_open := tl (sr_open s)\<rparr>)) < work_left allNodes s"
      using False by (simp add: work_left_def)
    ultimately show ?thesis by blast
  qed
  then show ?thesis using search_act_inv[OF inv] by (auto simp: work_left_def search_start_def)
qed

theorem search_terminates_witness:
  "\<exists>s. search_run (\<lambda>_. Inr (True, [])) fmempty 3 3 [Take, Take, Finish 1] (search_start example_tree) = Some s \<and>
     (\<exists>a s'. search_act (\<lambda>_. Inr (True, [])) fmempty 3 3 a s = Some s' \<and> work_left 3 s' < work_left 3 s)"
proof -
  have t: "tree_inv example_tree" unfolding example_tree_def by (rule newNodeTree_inv)
  obtain s where s: "search_run (\<lambda>_. Inr (True, [])) fmempty 3 3 [Take, Take, Finish 1] (search_start example_tree) = Some s"
    using search_run_inv[OF run_inv_start[OF t]] by blast
  have "map_option (search_done 3) (search_run (\<lambda>_. Inr (True, [])) fmempty 3 3 [Take, Take, Finish 1] (search_start example_tree)) = Some False"
    by code_simp
  then have "\<not> search_done 3 s" using s by simp
  then show ?thesis using search_terminates[OF t s] s by blast
qed

subsection \<open>What a search finds\<close>

lemma search_outcome:
  assumes "tree_inv nt" "search_run check infos N allNodes acts (search_start nt) = Some s" "search_done allNodes s"
  obtains ds ns where "Next_many (sr_taken s) nt = Some (ds, sr_tree s)" "mset ds = mset ns" "checked check infos N ns s"
    "sr_taken s \<le> allNodes" "\<not> sr_cancelled s \<Longrightarrow> sr_taken s = allNodes"
proof -
  have inv: "run_inv check infos N allNodes nt s"
    using search_run_inv[OF run_inv_start[OF assms(1)], of check infos N allNodes acts] assms(2) by auto
  then show ?thesis using assms(3) that by (auto simp: run_inv_def search_done_def)
qed

lemma Next_many_in_tree:
  assumes "tree_inv nt" "Next_many k nt = Some (ds, nt')" "all_nodes nt \<noteq> []"
  shows "set ds \<subseteq> set (all_nodes nt)"
  using assms
proof (induction k arbitrary: nt ds)
  case (Suc k)
  obtain n nt1 where n: "Next nt = Some (n, nt1)" "tree_inv nt1" "all_nodes nt1 = all_nodes nt" "n \<in> set (all_nodes nt)"
    by (rule Next_total[OF Suc.prems(1)]) (use Suc.prems(3) in \<open>blast intro: that\<close>)
  then show ?case using Suc.prems Suc.IH[OF n(2)] by (auto simp: bind_eq_Some_conv)
qed simp

lemma Next_many_take: "Next_many n nt = Some (ms, nt2) \<Longrightarrow> k \<le> n \<Longrightarrow> \<exists>nt1. Next_many k nt = Some (take k ms, nt1)"
proof (induction n arbitrary: k nt ms)
  case (Suc n)
  show ?case
  proof (cases k)
    case (Suc k')
    obtain m nt' ms' where "Next nt = Some (m, nt')" "Next_many n nt' = Some (ms', nt2)" "ms = m # ms'"
      using Suc.prems(1) by (auto simp: bind_eq_Some_conv)
    then show ?thesis using Suc Suc.IH[of nt' ms' k'] Suc.prems(2) by auto
  qed simp
qed simp

lemma fitting_mset: "mset (fitting check infos ns) = image_mset (\<lambda>n. NodeInfo_Node (fmlookup infos n)) (filter_mset (node_fits check) (mset ns))"
  by (simp add: fitting_def)

text \<open>The tree is at the start of a round when the current round has handed out nothing or everything.\<close>

definition round_start :: "NodeTree \<Rightarrow> bool" where
  "round_start nt \<longleftrightarrow> remaining nt = {#} \<or> remaining nt = mset (all_nodes nt)"

lemma Next_many_round:
  assumes "tree_inv nt" "round_start nt"
  obtains ms nt2 where "Next_many (length (all_nodes nt)) nt = Some (ms, nt2)" "mset ms = mset (all_nodes nt)" "remaining nt2 = {#}"
proof (cases "remaining nt = {#}")
  case True
  then show ?thesis using Next_many_epoch[OF assms(1) True] that by blast
next
  case False
  then have "remaining nt = mset (all_nodes nt)" using assms(2) by (simp add: round_start_def)
  then show ?thesis using Next_many_remaining[OF assms(1)] that by (metis size_mset)
qed

text \<open>A search that starts with a new round draws no node twice.\<close>

lemma round_outcome:
  assumes tree: "tree_inv nt" "round_start nt"
    and run: "search_run check infos N (length (all_nodes nt)) acts (search_start nt) = Some s" "search_done (length (all_nodes nt)) s"
  shows "length (sr_filtered s) \<le> N \<and> mset (sr_filtered s) \<subseteq># mset (fitting check infos (all_nodes nt)) \<and>
    (sr_errs s \<noteq> fmempty \<longrightarrow> (\<exists>n \<in> set (all_nodes nt). \<exists>e. check n = Inl e)) \<and>
    (length (sr_filtered s) < N \<longrightarrow> mset (sr_filtered s) = mset (fitting check infos (all_nodes nt)) \<and> round_start (sr_tree s) \<and>
      (\<forall>n. fmlookup (sr_failed s) n = (if n \<in> set (all_nodes nt) then (case check n of Inr (False, reasons) \<Rightarrow> Some reasons | _ \<Rightarrow> None) else None)))"
proof -
  obtain ds ns where d: "Next_many (sr_taken s) nt = Some (ds, sr_tree s)" "mset ds = mset ns" "checked check infos N ns s"
    "sr_taken s \<le> length (all_nodes nt)" "\<not> sr_cancelled s \<Longrightarrow> sr_taken s = length (all_nodes nt)"
    by (rule search_outcome[OF tree(1) run]) (rule that)
  obtain ms nt2 where ms: "Next_many (length (all_nodes nt)) nt = Some (ms, nt2)" "mset ms = mset (all_nodes nt)" "remaining nt2 = {#}"
    by (rule Next_many_round[OF tree]) (rule that)
  have "ds = take (sr_taken s) ms" using Next_many_take[OF ms(1) d(4)] d(1) by auto
  then have sub: "mset ns \<subseteq># mset (all_nodes nt)" using d(2) ms(2) by (metis append_take_drop_id mset_append mset_subset_eq_add_left)
  then have sub_f: "mset (fitting check infos ns) \<subseteq># mset (fitting check infos (all_nodes nt))"
    unfolding fitting_mset by (intro image_mset_subseteq_mono multiset_filter_mono)
  have filt: "sr_filtered s = take N (fitting check infos ns)" using d(3) by (simp add: checked_def)
  have "mset (sr_filtered s) \<subseteq># mset (fitting check infos ns)"
    unfolding filt by (metis append_take_drop_id mset_append mset_subset_eq_add_left)
  then have 1: "mset (sr_filtered s) \<subseteq># mset (fitting check infos (all_nodes nt))" using sub_f by (rule subset_mset.order_trans)
  have 2: "\<exists>n \<in> set (all_nodes nt). \<exists>e. check n = Inl e" if errs: "sr_errs s \<noteq> fmempty"
  proof -
    obtain e k where "fmlookup (sr_errs s) e = Some k" using errs by (metis fmap_ext fmempty_lookup not_None_eq)
    then have "filter (\<lambda>n. check n = Inl e) ns \<noteq> []" using d(3) by (auto simp: checked_def Let_def)
    then show ?thesis using set_mset_mono[OF sub] by (auto simp: filter_empty_conv)
  qed
  have 3: "mset (sr_filtered s) = mset (fitting check infos (all_nodes nt)) \<and> set ns = set (all_nodes nt) \<and> round_start (sr_tree s)" if "length (sr_filtered s) < N"
  proof -
    have c: "\<not> sr_cancelled s" using that d(3) filt by (auto simp: checked_def)
    then have ns: "mset ns = mset (all_nodes nt)" using d(1,2,5) ms by simp
    have "round_start (sr_tree s)" using d(1,5) c ms by (simp add: round_start_def)
    moreover have "sr_filtered s = fitting check infos ns" using that filt by auto
    ultimately show ?thesis using mset_eq_setD[OF ns] fitting_mset[of check infos] ns by metis
  qed
  have 4: "\<forall>n. fmlookup (sr_failed s) n = (if n \<in> set ns then (case check n of Inr (False, reasons) \<Rightarrow> Some reasons | _ \<Rightarrow> None) else None)"
    using d(3) unfolding checked_def by blast
  have 5: "length (sr_filtered s) \<le> N" by (simp add: filt)
  show ?thesis using 1 2 3 4 5 by simp
qed

definition node_check :: "k8s \<Rightarrow> string list \<Rightarrow> globals \<Rightarrow> ('m, 'p) genericScheduler \<Rightarrow> PoolQueue \<Rightarrow> Pod \<Rightarrow> node_info_map \<Rightarrow> string \<Rightarrow> fit_result" where
  "node_check L qord g gs pq pod infos nodeName = podFitsOnNode L (metaOps gs) (predicatesOrdering gs) qord g pod (predicateMetaProducer gs pod infos)
     (fmlookup infos nodeName) (predicates gs) pq (alwaysCheckAllPredicates gs)"

definition nodes_to_find :: "('m, 'p) genericScheduler \<Rightarrow> nat \<Rightarrow> nat" where
  "nodes_to_find gs n = nat (sint (numFeasibleNodesToFind (percentageOfNodesToScore gs) (word_of_nat n)))"

lemma sint_small_nat: "n < 2 ^ 31 \<Longrightarrow> sint (word_of_nat n :: int32) = int n"
  using sint_of_int_range[of "int n"] by simp

lemma allNodes_value:
  assumes "tree_inv nt" "length (all_nodes nt) * 100 < 2 ^ 31"
  shows "ucast (NodeTree_NumNodes nt) = (word_of_nat (length (all_nodes nt)) :: int32)"
    "sint (word_of_nat (length (all_nodes nt)) :: int32) = int (length (all_nodes nt))"
proof -
  have "numNodes nt = word_of_nat (length (all_nodes nt))" using assms(1) by (simp add: tree_inv_def)
  then show "ucast (NodeTree_NumNodes nt) = (word_of_nat (length (all_nodes nt)) :: int32)"
    by (simp add: NodeTree_NumNodes_def unsigned_of_nat take_bit_nat_eq_self_iff) (use assms(2) in \<open>simp add: take_bit_nat_eq_self\<close>)
  show "sint (word_of_nat (length (all_nodes nt)) :: int32) = int (length (all_nodes nt))" using assms(2) by (intro sint_small_nat) simp
qed

lemma findNodesThatFit_search:
  assumes pool: "fmlookup (pools c) poolName = Some p" and tree: "tree_inv (nodeTree p)" "length (all_nodes (nodeTree p)) * 100 < 2 ^ 31"
    and gs: "fmdom (predicates gs) \<noteq> {||}"
    and run: "findNodesThatFit L qord g acts gs pq poolName pod nodeList c = Some (c', r)"
  obtains s where "search_run (node_check L qord g gs pq pod (NodeInfoMap (nodeInfoSnapshot p))) (NodeInfoMap (nodeInfoSnapshot p))
      (nodes_to_find gs (length (all_nodes (nodeTree p)))) (length (all_nodes (nodeTree p))) acts (search_start (nodeTree p)) = Some s"
    "search_done (length (all_nodes (nodeTree p))) s" "c' = set_tree poolName (sr_tree s) c"
    "r = (if sr_errs s \<noteq> fmempty then Inl (Aggregate (sr_errs s))
          else if sr_filtered s \<noteq> [] \<and> extenders gs \<noteq> []
               then filter_extenders pod (NodeInfoMap (nodeInfoSnapshot p)) (extenders gs) (sr_filtered s) (sr_failed s)
               else Inr (sr_filtered s, sr_failed s))"
proof -
  note a = allNodes_value[OF tree]
  note run' = run[unfolded findNodesThatFit_def pool Option.bind.bind_lunit Let_def if_not_P[OF gs] a(1)]
  show ?thesis
    using run' that a(2) by (auto simp: node_check_def[abs_def] nodes_to_find_def bind_eq_Some_conv split: if_splits)
qed

text \<open>
  C5. What a search finds, for every interleaving of the workers. Let the node tree of the pool be at the start of a
  round and let no extender be configured. A completed call of \<open>findNodesThatFit\<close> either reports the errors of
  predicates that could not be evaluated on a node of the pool, or returns nodes of the pool on which the pod fits, none of them
  more often than it is in the tree and never more than \<open>numFeasibleNodesToFind\<close> asks for. When it returns fewer than that, then every node of the
  pool has been examined: all fitting nodes are returned, the failure map holds the reasons for exactly the
  others, and the tree is left at the start of a round again.
\<close>

theorem findNodesThatFit_finds:
  assumes pool: "fmlookup (pools c) poolName = Some p" and tree: "tree_inv (nodeTree p)" "round_start (nodeTree p)"
      "length (all_nodes (nodeTree p)) * 100 < 2 ^ 31"
    and gs: "fmdom (predicates gs) \<noteq> {||}" "extenders gs = []"
    and run: "findNodesThatFit L qord g acts gs pq poolName pod nodeList c = Some (c', r)"
    and infos: "infos = NodeInfoMap (nodeInfoSnapshot p)" and check: "check = node_check L qord g gs pq pod infos"
    and N: "N = nodes_to_find gs (length (all_nodes (nodeTree p)))"
  shows "(\<exists>errs. r = Inl (Aggregate errs) \<and> (\<exists>n \<in> set (all_nodes (nodeTree p)). \<exists>e. check n = Inl e)) \<or>
    (\<exists>filtered failed. r = Inr (filtered, failed) \<and> length filtered \<le> N \<and>
       mset filtered \<subseteq># mset (fitting check infos (all_nodes (nodeTree p))) \<and>
       (length filtered < N \<longrightarrow> mset filtered = mset (fitting check infos (all_nodes (nodeTree p))) \<and>
         (\<exists>p'. fmlookup (pools c') poolName = Some p' \<and> round_start (nodeTree p')) \<and>
         (\<forall>n. fmlookup failed n =
            (if n \<in> set (all_nodes (nodeTree p)) then (case check n of Inr (False, reasons) \<Rightarrow> Some reasons | _ \<Rightarrow> None) else None))))"
proof -
  obtain s where s: "search_run check infos N (length (all_nodes (nodeTree p))) acts (search_start (nodeTree p)) = Some s"
    "search_done (length (all_nodes (nodeTree p))) s" "c' = set_tree poolName (sr_tree s) c"
    "r = (if sr_errs s \<noteq> fmempty then Inl (Aggregate (sr_errs s)) else Inr (sr_filtered s, sr_failed s))"
    by (rule findNodesThatFit_search[OF pool tree(1,3) gs(1) run]) (use gs(2) in \<open>auto simp: infos check N intro: that\<close>)
  have p': "\<exists>p'. fmlookup (pools c') poolName = Some p' \<and> nodeTree p' = sr_tree s" using s(3) pool by (simp add: set_tree_def)
  note o = round_outcome[OF tree(1,2) s(1,2)]
  show ?thesis
  proof (cases "sr_errs s = fmempty")
    case True
    then have "r = Inr (sr_filtered s, sr_failed s)" using s(4) by simp
    then show ?thesis using o p' by auto
  next
    case False
    then show ?thesis using s(4) o by auto
  qed
qed

subsection \<open>Examples\<close>

definition zone_node :: "string \<Rightarrow> string \<Rightarrow> Node" where
  "zone_node zone name = zero_Node\<lparr>node_Name := name, node_Labels := [(''zone'', zone)]\<rparr>"

text \<open>A pool with the given tree whose snapshot has a node info for each name.\<close>

definition search_pool :: "NodeTree \<Rightarrow> PoolInfo" where
  "search_pool nt = (NewPoolInfo example_k8s)\<lparr>pi_nodes := fmap_of_list (map (\<lambda>n. (n, 0)) (all_nodes nt)), nodeTree := nt, nodeInfoSnapshot := \<lparr>NodeInfoMap =
     fmap_of_list (map (\<lambda>n. (n, (fst (NewNodeInfo example_k8s [] example_globals))\<lparr>ni_node := Some (zero_Node\<lparr>node_Name := n\<rparr>)\<rparr>)) (all_nodes nt)),
     snap_Generation = 1\<rparr>\<rparr>"

definition search_cache :: "NodeTree \<Rightarrow> schedulerCache" where
  "search_cache nt = (newSchedulerCache example_k8s 30 1 example_store)\<lparr>pools := fmap_of_list [(''default'', search_pool nt)]\<rparr>"

definition host_scheduler :: "(unit, unit) genericScheduler" where
  "host_scheduler = \<lparr>predicates = fmap_of_list [(''HostName'', PodFitsHost)], predicatesOrdering = [''HostName''], predicateMetaProducer = (\<lambda>_ _. None),
     metaOps = \<lparr>ShallowCopy = (\<lambda>m. m), meta_AddPod = (\<lambda>_ _ m. m), meta_RemovePod = (\<lambda>_ m. m)\<rparr>, priorityMetaProducer = (\<lambda>_ _. ()), prioritizers = [],
     extenders = [], lastNodeIndex = 0, alwaysCheckAllPredicates = False, pvcLister = (\<lambda>_ _. Inr False), pdbLister = Inr [], percentageOfNodesToScore = 0\<rparr>"

definition host_pod :: Pod where
  "host_pod = zero_Pod\<lparr>pod_NodeName := ''a2''\<rparr>"

definition one_by_one :: "nat \<Rightarrow> action list" where
  "one_by_one n = concat (replicate n [Take, Finish 0])"

definition host_search :: "action list \<Rightarrow> NodeTree \<Rightarrow> (sched_error + Node option list \<times> FailedPredicateMap) option" where
  "host_search acts nt = map_option snd (findNodesThatFit example_k8s [] example_globals acts host_scheduler \<lparr>queues = fmempty\<rparr> ''default'' host_pod [] (search_cache nt))"

lemma example_round: "round_start example_tree" "length (all_nodes example_tree) = 3" "set (all_nodes example_tree) = {''a1'', ''a2'', ''b1''}"
  by code_simp+

theorem findNodesThatFit_finds_witness:
  "\<exists>failed. host_search [Take, Take, Finish 1, Take, Finish 0, Finish 0] example_tree = Some (Inr ([Some (zero_Node\<lparr>node_Name := ''a2''\<rparr>)], failed))"
proof -
  let ?infos = "NodeInfoMap (nodeInfoSnapshot (search_pool example_tree))"
  let ?check = "node_check example_k8s [] example_globals host_scheduler \<lparr>queues = fmempty\<rparr> host_pod ?infos"
  have t: "tree_inv (nodeTree (search_pool example_tree))" "nodeTree (search_pool example_tree) = example_tree"
    by (simp_all add: search_pool_def example_tree_def newNodeTree_inv)
  have "host_search [Take, Take, Finish 1, Take, Finish 0, Finish 0] example_tree \<noteq> None" by code_simp
  then obtain c' r where r: "findNodesThatFit example_k8s [] example_globals [Take, Take, Finish 1, Take, Finish 0, Finish 0] host_scheduler \<lparr>queues = fmempty\<rparr>
      ''default'' host_pod [] (search_cache example_tree) = Some (c', r)"
    by (auto simp: host_search_def)
  have N: "nodes_to_find host_scheduler (length (all_nodes example_tree)) = 3" by code_simp
  have "mset (fitting ?check ?infos (all_nodes example_tree)) = {#Some (zero_Node\<lparr>node_Name := ''a2''\<rparr>)#}" by code_simp
  moreover have "list_all (\<lambda>n. case ?check n of Inl _ \<Rightarrow> False | Inr _ \<Rightarrow> True) (all_nodes example_tree)" by code_simp
  then have "\<forall>n \<in> set (all_nodes example_tree). \<forall>e. ?check n \<noteq> Inl e" by (auto simp: list_all_iff)
  moreover have "fmlookup (pools (search_cache example_tree)) ''default'' = Some (search_pool example_tree)" by (simp add: search_cache_def)
  moreover have "fmdom (predicates host_scheduler) \<noteq> {||}" "extenders host_scheduler = []" by (simp_all add: host_scheduler_def)
  ultimately obtain filtered failed where f: "r = Inr (filtered, failed)" "mset filtered \<subseteq># {#Some (zero_Node\<lparr>node_Name := ''a2''\<rparr>)#}"
    "length filtered < 3 \<Longrightarrow> mset filtered = {#Some (zero_Node\<lparr>node_Name := ''a2''\<rparr>)#}"
    using findNodesThatFit_finds[OF _ t(1) _ _ _ _ r refl refl refl] t(2) example_round N by auto
  have "length filtered \<le> 1" using size_mset_mono[OF f(2)] by simp
  then have "filtered = [Some (zero_Node\<lparr>node_Name := ''a2''\<rparr>)]" using f(3) by simp
  then show ?thesis using r f(1) by (simp add: host_search_def)
qed

definition grown_tree :: NodeTree where
  "grown_tree = (case Next_many 2 (newNodeTree example_k8s [zone_node ''a'' ''a1'', zone_node ''a'' ''a2'']) of
     Some (_, nt) \<Rightarrow> NodeTree_AddNode example_k8s nt (zone_node ''c'' ''c1'') | None \<Rightarrow> newNodeTree example_k8s [])"

text \<open>
  A node can be missed. When a node in a new zone is added between two searches, the tree is in the middle of a round:
  it hands out the new node, starts a new round, and hands out the new node again before the
  last node of the old zone. The search draws as many names as there are nodes, so it examines the new
  node twice and another node not at all: the call below finds no node for a pod that fits on \<open>a2\<close>, and
  \<open>a2\<close> is not in the failure map either.
\<close>

theorem search_misses_node:
  "tree_inv grown_tree \<and> set (all_nodes grown_tree) = {''a1'', ''a2'', ''c1''} \<and>
   node_check example_k8s [] example_globals host_scheduler \<lparr>queues = fmempty\<rparr> host_pod
     (NodeInfoMap (nodeInfoSnapshot (search_pool grown_tree))) ''a2'' = Inr (True, []) \<and>
   map_option (map_sum id (\<lambda>(filtered, failed). (filtered, fmlookup failed ''a2''))) (host_search (one_by_one 3) grown_tree) = Some (Inr ([], None))"
proof -
  have "tree_inv grown_tree" by code_simp
  moreover have "set (all_nodes grown_tree) = {''a1'', ''a2'', ''c1''}" by code_simp
  moreover have "node_check example_k8s [] example_globals host_scheduler \<lparr>queues = fmempty\<rparr> host_pod
     (NodeInfoMap (nodeInfoSnapshot (search_pool grown_tree))) ''a2'' = Inr (True, [])" by code_simp
  moreover have "map_option (map_sum id (\<lambda>(filtered, failed). (filtered, fmlookup failed ''a2''))) (host_search (one_by_one 3) grown_tree) = Some (Inr ([], None))"
    by code_simp
  ultimately show ?thesis by blast
qed

end
