(* ===== verification/Predicate_Properties.thy ===== *)
theory Predicate_Properties
  imports Predicates
begin

text \<open>
  The contract between the predicates and their callers: a predicate that does not report an error lists a
  reason exactly when the pod does not fit. The locale \<open>fit_predicate\<close> states it, and every predicate of the
  package provides it. The second part relates the resource predicate to the accounting of a node.
\<close>

subsection \<open>A predicate explains its verdict\<close>

locale fit_predicate =
  fixes f :: "'m FitPredicate"
  assumes explained: "f pod meta info = Inr (fit, reasons) \<Longrightarrow> fit \<longleftrightarrow> reasons = []"
begin

lemma fits_iff: "(\<exists>reasons. f pod meta info = Inr (True, reasons)) \<longleftrightarrow> f pod meta info = Inr (True, [])"
  using explained by fastforce

lemma and_also_iff: "and_also acc (f pod meta info) = Inr [] \<longleftrightarrow> acc = Inr [] \<and> f pod meta info = Inr (True, [])"
  by (auto simp: and_also_def dest: explained split: sum.splits if_splits)

end

lemma conclude_explained: "conclude acc = Inr (fit, reasons) \<Longrightarrow> fit \<longleftrightarrow> reasons = []"
  by (auto simp: conclude_def split: sum.splits)

lemma conclude_iff: "conclude acc = Inr (True, []) \<longleftrightarrow> acc = Inr []"
  by (auto simp: conclude_def split: sum.splits)

lemmas verdict_splits = option.splits if_splits sum.splits prod.splits

interpretation resources: fit_predicate "PodFitsResources L rord" for L rord
  by unfold_locales (auto simp: PodFitsResources_def Let_def node_not_found_def split: option.splits if_splits)

interpretation node_selector: fit_predicate "PodMatchNodeSelector L" for L
  by unfold_locales (auto simp: PodMatchNodeSelector_def node_not_found_def split: verdict_splits)

interpretation host_name: fit_predicate PodFitsHost
  by unfold_locales (auto simp: PodFitsHost_def node_not_found_def split: verdict_splits)

interpretation label_presence: fit_predicate "CheckNodeLabelPresence labels presence" for labels presence
  by unfold_locales (auto simp: CheckNodeLabelPresence_def node_not_found_def split: verdict_splits)

interpretation host_ports: fit_predicate PodFitsHostPorts
  by unfold_locales (auto simp: PodFitsHostPorts_def Let_def split: verdict_splits)

interpretation noncritical: fit_predicate "noncriticalPredicates L rord" for L rord
  unfolding noncriticalPredicates_def by unfold_locales (rule conclude_explained)

interpretation essential: fit_predicate "EssentialPredicates L" for L
  unfolding EssentialPredicates_def by unfold_locales (rule conclude_explained)

interpretation general: fit_predicate "GeneralPredicates L rord" for L rord
  unfolding GeneralPredicates_def by unfold_locales (rule conclude_explained)

interpretation disks: fit_predicate NoDiskConflict
  by unfold_locales (auto simp: NoDiskConflict_def split: verdict_splits)

interpretation unschedulable: fit_predicate "CheckNodeUnschedulablePredicate L" for L
  by unfold_locales (auto simp: CheckNodeUnschedulablePredicate_def Let_def split: verdict_splits)

lemma podToleratesNodeTaints_explained: "podToleratesNodeTaints L pod info filt = Inr (fit, reasons) \<Longrightarrow> fit \<longleftrightarrow> reasons = []"
  by (auto simp: podToleratesNodeTaints_def split: verdict_splits)

interpretation taints: fit_predicate "PodToleratesNodeTaints L" for L
  by unfold_locales (auto simp: PodToleratesNodeTaints_def dest: podToleratesNodeTaints_explained split: if_splits)

interpretation no_execute_taints: fit_predicate "PodToleratesNodeNoExecuteTaints L" for L
  by unfold_locales (auto simp: PodToleratesNodeNoExecuteTaints_def dest: podToleratesNodeTaints_explained)

interpretation memory_pressure: fit_predicate "CheckNodeMemoryPressurePredicate L" for L
  by unfold_locales (auto simp: CheckNodeMemoryPressurePredicate_def Let_def split: if_splits)

interpretation disk_pressure: fit_predicate CheckNodeDiskPressurePredicate
  by unfold_locales (auto simp: CheckNodeDiskPressurePredicate_def split: if_splits)

interpretation pid_pressure: fit_predicate CheckNodePIDPressurePredicate
  by unfold_locales (auto simp: CheckNodePIDPressurePredicate_def split: if_splits)

interpretation node_condition: fit_predicate CheckNodeConditionPredicate
  by unfold_locales (auto simp: CheckNodeConditionPredicate_def Let_def split: option.splits)

interpretation volume_binding: fit_predicate "VolumeBinding_predicate FindPodVolumes" for FindPodVolumes
  by unfold_locales (auto simp: VolumeBinding_predicate_def Let_def node_not_found_def split: verdict_splits)

text \<open>
  The general predicates as a conjunction. \<open>GeneralPredicates\<close> accepts a pod exactly when each of the four
  predicates it is built from does; otherwise it reports the error of the first that has one, or rejects
  with at least one reason.
\<close>

theorem GeneralPredicates_conjunction:
  "(GeneralPredicates L rord pod meta info = Inr (True, []) \<longleftrightarrow>
      PodFitsResources L rord pod meta info = Inr (True, []) \<and> PodFitsHost pod meta info = Inr (True, []) \<and>
      PodFitsHostPorts pod meta info = Inr (True, []) \<and> PodMatchNodeSelector L pod meta info = Inr (True, [])) \<and>
   ((\<exists>err. GeneralPredicates L rord pod meta info = Inl err) \<or> GeneralPredicates L rord pod meta info = Inr (True, []) \<or>
    (\<exists>reason reasons. GeneralPredicates L rord pod meta info = Inr (False, reason # reasons)))"
proof -
  have "GeneralPredicates L rord pod meta info = Inr (True, []) \<longleftrightarrow>
      noncriticalPredicates L rord pod meta info = Inr (True, []) \<and> EssentialPredicates L pod meta info = Inr (True, [])"
    unfolding GeneralPredicates_def[of L rord] conclude_iff essential.and_also_iff noncritical.and_also_iff by simp
  moreover have "noncriticalPredicates L rord pod meta info = Inr (True, []) \<longleftrightarrow> PodFitsResources L rord pod meta info = Inr (True, [])"
    unfolding noncriticalPredicates_def conclude_iff resources.and_also_iff by simp
  moreover have "EssentialPredicates L pod meta info = Inr (True, []) \<longleftrightarrow> PodFitsHost pod meta info = Inr (True, []) \<and>
      PodFitsHostPorts pod meta info = Inr (True, []) \<and> PodMatchNodeSelector L pod meta info = Inr (True, [])"
    unfolding EssentialPredicates_def conclude_iff host_name.and_also_iff host_ports.and_also_iff node_selector.and_also_iff by simp
  moreover obtain r where r: "GeneralPredicates L rord pod meta info = r" by blast
  have "(\<exists>err. r = Inl err) \<or> r = Inr (True, []) \<or> (\<exists>reason reasons. r = Inr (False, reason # reasons))"
    using general.explained[of L rord pod meta info] r by (cases r) (auto, (metis neq_Nil_conv)+)
  ultimately show ?thesis using r by blast
qed

subsection \<open>The resource predicate and the accounting\<close>

lemma GetResourceRequest_upper:
  assumes "d \<noteq> PodCount" "\<not> IsScalarResourceName L ResourcePods"
  shows "request_amount L pod d \<le>s amount (GetResourceRequest L pod) d"
proof -
  define sum where "sum = foldl (\<lambda>r c. Resource_Add L r (Requests c)) emptyResource (pod_Containers pod)"
  have "amount sum d = request_amount L pod d"
    unfolding sum_def request_amount_def by (simp add: amount_sum_containers)
  then show ?thesis
    using init_containers_upper[OF assms, of "pod_InitContainers pod" sum] by (simp add: GetResourceRequest_def upper_def sum_def)
qed

lemma insufficient_empty:
  assumes "insufficient rName req used cap = []" "0 \<le> sint req" "0 \<le> sint used" "sint used + sint req < 2 ^ 63"
  shows "sint used + sint req \<le> sint cap"
proof -
  have "sint (req + used) = sint used + sint req" using assms(2-4) by (simp add: sint_word_ariths signed_take_bit_int_eq_self)
  moreover have "\<not> cap <s req + used" using assms(1) by (simp add: insufficient_def split: if_splits)
  ultimately show ?thesis by (simp add: word_sless_alt)
qed

text \<open>The dimensions the predicate looks at; the resources that extenders manage are left to them.\<close>

definition checked_dim :: "k8s \<Rightarrow> predicateMetadata option \<Rightarrow> dim \<Rightarrow> bool" where
  "checked_dim L meta d \<longleftrightarrow> (case d of
     PodCount \<Rightarrow> False
   | Scalar rName \<Rightarrow> \<not> (IsExtendedResourceName L rName \<and> rName |\<in>| (case Option.bind meta ignoredExtendedResources of Some s \<Rightarrow> s | None \<Rightarrow> {||}))
   | _ \<Rightarrow> True)"

lemma PodFitsResources_fits:
  assumes fits: "PodFitsResources L rord pod meta (Some n) = Inr (True, reasons)" and d: "checked_dim L meta d"
    and request: "case meta of None \<Rightarrow> req = GetResourceRequest L pod | Some m \<Rightarrow> req = podRequest m"
    and rord: "set rord = fset (fmdom (scalar_map req))"
    and pos: "0 \<le> sint (amount req d)" "0 \<le> sint (amount (requestedResource n) d)"
      "sint (amount (requestedResource n) d) + sint (amount req d) < 2 ^ 63"
  shows "amount req d = 0 \<or> sint (amount (requestedResource n) d) + sint (amount req d) \<le> sint (amount (allocatableResource n) d)"
proof (cases "MilliCPU req = 0 \<and> Memory req = 0 \<and> EphemeralStorage req = 0 \<and> scalar_map req = fmempty")
  case True
  then show ?thesis using d by (cases d) (auto simp: checked_dim_def scalar_of_def)
next
  case False
  have r: "(case meta of Some m \<Rightarrow> podRequest m | None \<Rightarrow> GetResourceRequest L pod) = req"
    using request by (simp split: option.splits)
  have none: "insufficient ''cpu'' (MilliCPU req) (MilliCPU (requestedResource n)) (MilliCPU (allocatableResource n)) = []"
    "insufficient ''memory'' (Memory req) (Memory (requestedResource n)) (Memory (allocatableResource n)) = []"
    "insufficient ''ephemeral-storage'' (EphemeralStorage req) (EphemeralStorage (requestedResource n)) (EphemeralStorage (allocatableResource n)) = []"
    "\<And>rName rQuant. rName \<in> set rord \<Longrightarrow> fmlookup (scalar_map req) rName = Some rQuant \<Longrightarrow> checked_dim L meta (Scalar rName) \<Longrightarrow>
       insufficient rName rQuant (scalar_of (requestedResource n) rName) (scalar_of (allocatableResource n) rName) = []"
    using fits[unfolded PodFitsResources_def Let_def r if_not_P[OF False]]
    by (auto simp: RequestedResource_def AllocatableResource_def node_not_found_def checked_dim_def split: option.splits)
  show ?thesis
  proof (cases d)
    case (Scalar rName)
    show ?thesis
    proof (cases "fmlookup (scalar_map req) rName")
      case (Some rQuant)
      then have "rName \<in> set rord" using rord by (simp add: fmlookup_dom_iff)
      then show ?thesis using none(4)[of rName rQuant] Some Scalar d pos insufficient_empty by (simp add: scalar_of_def)
    qed (simp add: Scalar scalar_of_def)
  qed (use none(1-3) pos insufficient_empty d in \<open>auto simp: checked_dim_def\<close>)
qed

lemma PodFitsResources_pods:
  assumes "PodFitsResources L rord pod meta (Some n) = Inr (True, reasons)" "length (ni_pods n) < 2 ^ 62"
  shows "int (length (ni_pods n)) + 1 \<le> sint (amount (allocatableResource n) PodCount)"
proof -
  have "reasons = []" using resources.explained[OF assms(1)] by simp
  then have "\<not> AllowedPodNumber (allocatableResource n) <s word_of_nat (length (ni_pods n)) + 1"
    using assms(1) by (auto simp: PodFitsResources_def Let_def NodeInfo_AllowedPodNumber_def NodeInfo_Pods_def node_not_found_def
        split: option.splits if_splits)
  moreover have "sint (word_of_nat (length (ni_pods n)) + 1 :: int64) = int (length (ni_pods n)) + 1"
  proof -
    have "(word_of_nat (length (ni_pods n)) + 1 :: int64) = word_of_int (int (length (ni_pods n)) + 1)" by simp
    moreover have "int (length (ni_pods n)) + 1 < 2 ^ 63" using assms(2) by simp
    ultimately show ?thesis by (simp only: sint_sbintrunc') (simp add: signed_take_bit_int_eq_self)
  qed
  ultimately show ?thesis by (simp add: word_sless_alt)
qed

text \<open>
  C17. No overcommitment. When \<open>PodFitsResources\<close> accepts a pod on a node whose requests are within its allocatable
  resources, then they still are once the pod has been added with \<open>AddPod\<close>, in every dimension the
  predicate looks at, and the node has room for the pod in its pod count. The predicate compares with the larger
  of what the containers and the init containers ask for, and the node is charged for the containers. The amounts
  are taken to be non-negative and small enough for the comparison not to wrap around; \<open>rord\<close> is an order
  of the scalar resources.
\<close>

theorem no_overcommitment:
  assumes fits: "PodFitsResources L rord pod meta (Some n) = Inr (True, reasons)"
    and meta: "\<And>m. meta = Some m \<Longrightarrow> podRequest m = GetResourceRequest L pod"
    and rord: "set rord = fset (fmdom (scalar_map (GetResourceRequest L pod)))"
    and names: "\<not> IsScalarResourceName L ResourcePods"
    and small: "\<And>d. checked_dim L meta d \<Longrightarrow> 0 \<le> sint (request_amount L pod d) \<and> 0 \<le> sint (amount (requestedResource n) d) \<and>
        sint (amount (requestedResource n) d) + sint (amount (GetResourceRequest L pod) d) < 2 ^ 63"
      "length (ni_pods n) < 2 ^ 62"
    and within: "\<And>d. checked_dim L meta d \<Longrightarrow> sint (amount (requestedResource n) d) \<le> sint (amount (allocatableResource n) d)"
    and add: "NodeInfo_AddPod L n pod g = (n', g')"
  shows "(\<forall>d. checked_dim L meta d \<longrightarrow> sint (amount (requestedResource n') d) \<le> sint (amount (allocatableResource n') d)) \<and>
    int (length (ni_pods n')) \<le> sint (amount (allocatableResource n') PodCount)"
proof -
  note ad = NodeInfo_AddPod_facts(1,5,6)[OF add]
  have "sint (amount (requestedResource n') d) \<le> sint (amount (allocatableResource n') d)" if d: "checked_dim L meta d" for d
  proof -
    let ?req = "amount (GetResourceRequest L pod) d" and ?used = "amount (requestedResource n) d"
    have pc: "d \<noteq> PodCount" using d by (auto simp: checked_dim_def)
    have le: "sint (request_amount L pod d) \<le> sint ?req" using GetResourceRequest_upper[OF pc names, of pod] by (simp add: word_sle_eq)
    have "?req = 0 \<or> sint ?used + sint ?req \<le> sint (amount (allocatableResource n) d)"
      using small(1)[OF d] le meta by (intro PodFitsResources_fits[OF fits d _ rord]) (auto split: option.splits)
    then have "sint ?used + sint (request_amount L pod d) \<le> sint (amount (allocatableResource n) d)"
      using within[OF d] le by auto
    moreover have "sint (?used + request_amount L pod d) = sint ?used + sint (request_amount L pod d)"
      using small(1)[OF d] le by (simp add: sint_word_ariths signed_take_bit_int_eq_self)
    ultimately show ?thesis using ad pc by (simp add: node_request_def)
  qed
  then show ?thesis using PodFitsResources_pods[OF fits small(2)] ad by simp
qed


definition example_request :: Pod where
  "example_request = zero_Pod\<lparr>pod_Containers := [\<lparr>Requests = [(''cpu'', \<lparr>Value = 1, MilliValue = 500\<rparr>)], Limits = [], container_Image = [], Ports = []\<rparr>],
     pod_InitContainers := [\<lparr>Requests = [(''cpu'', \<lparr>Value = 1, MilliValue = 800\<rparr>)], Limits = [], container_Image = [], Ports = []\<rparr>]\<rparr>"

definition example_node_info :: NodeInfo where
  "example_node_info = (fst (NewNodeInfo example_k8s [] \<lparr>generation = 0, transients = []\<rparr>))
     \<lparr>ni_node := Some zero_Node, allocatableResource := emptyResource\<lparr>MilliCPU := 1000, AllowedPodNumber := 1\<rparr>\<rparr>"

theorem no_overcommitment_witness:
  "sint (amount (requestedResource (fst (NodeInfo_AddPod example_k8s example_node_info example_request \<lparr>generation = 1, transients = []\<rparr>))) CPU) \<le> 1000"
proof -
  obtain n' g' where n': "NodeInfo_AddPod example_k8s example_node_info example_request \<lparr>generation = 1, transients = []\<rparr> = (n', g')" by fastforce
  have req: "GetResourceRequest example_k8s example_request = emptyResource\<lparr>MilliCPU := 800\<rparr>"
    by code_simp
  have ra: "request_amount example_k8s example_request d = (if d = CPU then 500 else 0)" for d
    by (simp add: request_amount_def example_request_def list_amount_def entry_amount_def entry_dim_def zero_Pod_def)
  have ni: "requestedResource example_node_info = emptyResource" "ni_pods example_node_info = []"
    "allocatableResource example_node_info = emptyResource\<lparr>MilliCPU := 1000, AllowedPodNumber := 1\<rparr>"
    by (simp_all add: example_node_info_def NewNodeInfo_def Let_def split: prod.splits)
  have amounts: "amount (emptyResource\<lparr>MilliCPU := x\<rparr>) d = (if d = CPU then x else 0)" for x d
    by (cases d) (simp_all add: scalar_of_def scalar_map_def emptyResource_def)
  have alloc: "amount (allocatableResource example_node_info) d = (if d = CPU then 1000 else if d = PodCount then 1 else 0)" for d
    by (cases d) (simp_all add: ni scalar_of_def scalar_map_def emptyResource_def)
  have names: "\<not> IsScalarResourceName example_k8s ResourcePods" by (simp add: example_k8s_def)
  have "\<forall>d. checked_dim example_k8s None d \<longrightarrow> sint (amount (requestedResource n') d) \<le> sint (amount (allocatableResource n') d)"
  proof (rule no_overcommitment[OF _ _ _ _ _ _ _ n', THEN conjunct1])
    show "PodFitsResources example_k8s [] example_request None (Some example_node_info) = Inr (True, [])" by code_simp
    show "set [] = fset (fmdom (scalar_map (GetResourceRequest example_k8s example_request)))"
      by (simp add: req scalar_map_def emptyResource_def)
  qed (use names in \<open>simp_all add: req ra ni(1,2) amounts alloc\<close>)
  from this[rule_format, of CPU] show ?thesis using n' NodeInfo_AddPod_facts(5)[OF n'] ni by (simp add: checked_dim_def)
qed

end
