(* ===== verification/Schedule_Properties.thy ===== *)
theory Schedule_Properties
  imports Search_Runs Predicate_Properties
begin

text \<open>
  What the scheduling algorithm promises: the host with the best score in turn, how far the search goes,
  which nodes count as fitting, that every interleaving of the workers finds them, and that a pod is only
  sent to a node that fits.
\<close>

subsection \<open>Choosing a host\<close>

definition top_score :: "int64 \<Rightarrow> HostPriority list \<Rightarrow> int64" where
  "top_score m hps = foldl (\<lambda>m h. if m <s Score h then Score h else m) m hps"

lemma top_score_simps [simp]:
  "top_score m [] = m" "top_score m (h # hs) = top_score (if m <s Score h then Score h else m) hs"
  by (simp_all add: top_score_def)

lemma top_score_max:
  "m \<le>s top_score m hps \<and> (\<forall>h \<in> set hps. Score h \<le>s top_score m hps) \<and> (top_score m hps = m \<or> (\<exists>h \<in> set hps. Score h = top_score m hps))"
proof (induction hps arbitrary: m)
  case Nil
  then show ?case by (simp add: word_sle_eq)
next
  case (Cons h hs)
  note S = Cons.IH[of "Score h"] and M = Cons.IH[of m]
  show ?case
  proof (cases "m <s Score h")
    case True
    then show ?thesis using S by (auto simp: word_sle_eq word_sless_alt)
  next
    case False
    then have "Score h \<le>s top_score m hs" using M by (simp add: word_sle_eq word_sless_alt)
    then show ?thesis using M False by auto
  qed
qed

lemma find_max_eq:
  assumes "\<forall>h \<in> set xs. Score h \<le>s m" "acc = filter (\<lambda>j. Score (xs ! j) = m) [0..<length xs]"
  shows "find_max (length xs) m acc hps = filter (\<lambda>j. Score ((xs @ hps) ! j) = top_score m hps) [0..<length (xs @ hps)]"
  using assms
proof (induction hps arbitrary: xs m acc)
  case (Cons h hs)
  have old: "filter (\<lambda>j. Score ((xs @ [h]) ! j) = v) [0..<length xs] = filter (\<lambda>j. Score (xs ! j) = v) [0..<length xs]" for v
    by (auto intro: filter_cong simp: nth_append)
  have up: "[0..<length (xs @ [h])] = [0..<length xs] @ [length xs]" by simp
  note IH = Cons.IH[of "xs @ [h]"]
  have ne: "filter (\<lambda>j. Score (xs ! j) = Score h) [0..<length xs] = []" if "m <s Score h"
  proof -
    have "Score (xs ! j) \<noteq> Score h" if "j < length xs" for j
      using Cons.prems(1) nth_mem[OF that] \<open>m <s Score h\<close> by (metis (full_types) word_sle_eq word_sless_alt not_less)
    then show ?thesis by (simp add: filter_empty_conv)
  qed
  show ?case
  proof (cases "m <s Score h")
    case True
    have "find_max (length (xs @ [h])) (Score h) [length xs] hs = filter (\<lambda>j. Score (((xs @ [h]) @ hs) ! j) = top_score (Score h) hs) [0..<length ((xs @ [h]) @ hs)]"
    proof (rule IH)
      show "\<forall>x \<in> set (xs @ [h]). Score x \<le>s Score h" using Cons.prems(1) True by (auto simp: word_sle_eq word_sless_alt)
      show "[length xs] = filter (\<lambda>j. Score ((xs @ [h]) ! j) = Score h) [0..<length (xs @ [h])]"
        unfolding up using old ne[OF True] by simp
    qed
    then show ?thesis using True by simp
  next
    case False
    have le: "Score h \<le>s m" using False by (simp add: word_sle_eq word_sless_alt)
    have "find_max (length (xs @ [h])) m (if Score h = m then acc @ [length xs] else acc) hs =
        filter (\<lambda>j. Score (((xs @ [h]) @ hs) ! j) = top_score m hs) [0..<length ((xs @ [h]) @ hs)]"
    proof (rule IH)
      show "\<forall>x \<in> set (xs @ [h]). Score x \<le>s m" using Cons.prems(1) le by simp
      show "(if Score h = m then acc @ [length xs] else acc) = filter (\<lambda>j. Score ((xs @ [h]) ! j) = m) [0..<length (xs @ [h])]"
        unfolding up using old Cons.prems(2) by simp
    qed
    then show ?thesis using False by (auto split: if_splits)
  qed
qed simp

definition best_hosts :: "HostPriority list \<Rightarrow> HostPriority list" where
  "best_hosts priorityList = filter (\<lambda>hp. \<forall>h \<in> set priorityList. Score h \<le>s Score hp) priorityList"

lemma filter_index: "map ((!) xs) (filter (\<lambda>j. P (xs ! j)) [0..<length xs]) = filter P xs"
proof -
  have "filter P (map ((!) xs) [0..<length xs]) = map ((!) xs) (filter (P \<circ> (!) xs) [0..<length xs])" by (rule filter_map)
  then show ?thesis by (simp add: map_nth comp_def)
qed

lemma findMaxScores_best:
  assumes "priorityList \<noteq> []"
  shows "\<exists>ixs. findMaxScores priorityList = Some ixs \<and> map ((!) priorityList) ixs = best_hosts priorityList \<and> ixs \<noteq> []"
proof -
  obtain hp rest where pl: "priorityList = hp # rest" using assms by (cases priorityList) auto
  let ?M = "top_score (Score hp) priorityList"
  note T = top_score_max[of "Score hp" priorityList]
  have f: "findMaxScores priorityList = Some (filter (\<lambda>j. Score (priorityList ! j) = ?M) [0..<length priorityList])"
    using find_max_eq[of "[]" "Score hp" "[]" priorityList] pl by (simp add: findMaxScores_def)
  obtain b where b: "b \<in> set priorityList" "Score b = ?M" using T pl by (metis list.set_intros(1))
  have eq: "Score h = ?M \<longleftrightarrow> (\<forall>h' \<in> set priorityList. Score h' \<le>s Score h)" if "h \<in> set priorityList" for h
  proof
    show "\<forall>h' \<in> set priorityList. Score h' \<le>s Score h" if "Score h = ?M" using T that by simp
    assume "\<forall>h' \<in> set priorityList. Score h' \<le>s Score h"
    then have "?M \<le>s Score h" using b by metis
    moreover have "Score h \<le>s ?M" using T \<open>h \<in> set priorityList\<close> by blast
    ultimately show "Score h = ?M" by (simp add: word_sle_eq signed_word_eqI)
  qed
  have "map ((!) priorityList) (filter (\<lambda>j. Score (priorityList ! j) = ?M) [0..<length priorityList]) = best_hosts priorityList"
    using filter_index[of priorityList "\<lambda>h. Score h = ?M"] filter_cong[OF refl eq, of priorityList] by (simp add: best_hosts_def)
  moreover have "filter (\<lambda>j. Score (priorityList ! j) = ?M) [0..<length priorityList] \<noteq> []"
    using b by (auto simp: filter_empty_conv in_set_conv_nth)
  ultimately show ?thesis using f by blast
qed

lemma selectHost_eq:
  assumes "priorityList \<noteq> []"
  shows "selectHost gs priorityList = Some (gs\<lparr>lastNodeIndex := lastNodeIndex gs + 1\<rparr>,
      Inr (Host (best_hosts priorityList ! (unat (lastNodeIndex gs) mod length (best_hosts priorityList)))))" "best_hosts priorityList \<noteq> []"
proof -
  obtain ixs where ixs: "findMaxScores priorityList = Some ixs" "map ((!) priorityList) ixs = best_hosts priorityList" "ixs \<noteq> []"
    using findMaxScores_best[OF assms] by blast
  have ix: "priorityList ! (ixs ! i) = best_hosts priorityList ! i" if "i < length ixs" for i
    using that unfolding ixs(2)[symmetric] by simp
  have len: "length ixs = length (best_hosts priorityList)" using arg_cong[OF ixs(2), of length] by simp
  have "unat (lastNodeIndex gs) mod length ixs < length ixs" using ixs(3) by simp
  then show "selectHost gs priorityList = Some (gs\<lparr>lastNodeIndex := lastNodeIndex gs + 1\<rparr>,
      Inr (Host (best_hosts priorityList ! (unat (lastNodeIndex gs) mod length (best_hosts priorityList)))))"
    using assms ixs(1,3) ix len by (simp add: selectHost_def Let_def)
  show "best_hosts priorityList \<noteq> []" using ixs(2,3) by (metis list.map_disc_iff)
qed

text \<open>
  C23. The host that is selected. \<open>selectHost\<close> reports an error for an empty list and otherwise returns one of the
  hosts that no other host beats, taking them in turn: the counter \<open>lastNodeIndex\<close> modulo their number
  selects the host and is then increased by one, so that as many calls in a row as there are best hosts visit each of
  them.
\<close>

theorem selectHost_best:
  "selectHost gs [] = Some (gs, Inl ''empty priorityList'') \<and>
   selectHost gs (hp # hps) = Some (gs\<lparr>lastNodeIndex := lastNodeIndex gs + 1\<rparr>,
     Inr (Host (best_hosts (hp # hps) ! (unat (lastNodeIndex gs) mod length (best_hosts (hp # hps)))))) \<and>
   best_hosts (hp # hps) \<noteq> [] \<and> set (best_hosts (hp # hps)) = {b \<in> set (hp # hps). \<forall>h \<in> set (hp # hps). sint (Score h) \<le> sint (Score b)}"
  using selectHost_eq(1)[of "hp # hps" gs] selectHost_eq(2)[of "hp # hps"] by (auto simp: selectHost_def best_hosts_def word_sle_eq)

theorem selectHost_best_witness:
  "map_option snd (selectHost \<lparr>predicates = fmempty :: (string, unit FitPredicate) fmap, predicatesOrdering = [], predicateMetaProducer = (\<lambda>_ _. None),
      metaOps = \<lparr>ShallowCopy = id, meta_AddPod = (\<lambda>_ _ m. m), meta_RemovePod = (\<lambda>_ m. m)\<rparr>, priorityMetaProducer = (\<lambda>_ _. ()), prioritizers = [],
      extenders = [], lastNodeIndex = 5, alwaysCheckAllPredicates = False, pvcLister = (\<lambda>_ _. Inr False), pdbLister = Inr [], percentageOfNodesToScore = 0\<rparr>
    [\<lparr>Host = ''a'', Score = 7\<rparr>, \<lparr>Host = ''b'', Score = 3\<rparr>, \<lparr>Host = ''c'', Score = 7\<rparr>]) = Some (Inr ''c'')"
  by (subst selectHost_best[THEN conjunct2, THEN conjunct1]) (simp add: best_hosts_def word_sle_eq flip: numeral_2_eq_2)

subsection \<open>When a pod fits on a node\<close>

text \<open>All configured predicates whose key is in the ordering accept the pod.\<close>

definition predicates_hold :: "(string, 'm FitPredicate) fmap \<Rightarrow> string list \<Rightarrow> Pod \<Rightarrow> 'm option \<Rightarrow> NodeInfo option \<Rightarrow> bool" where
  "predicates_hold predicateFuncs ks pod meta info \<longleftrightarrow>
     (\<forall>k \<in> set ks. \<forall>f. fmlookup predicateFuncs k = Some f \<longrightarrow> f pod meta info = Inr (True, []))"

lemma predicates_hold_simps [simp]:
  "predicates_hold funcs [] pod meta info"
  "predicates_hold funcs (k # ks) pod meta info \<longleftrightarrow>
     (case fmlookup funcs k of None \<Rightarrow> True | Some f \<Rightarrow> f pod meta info = Inr (True, [])) \<and> predicates_hold funcs ks pod meta info"
  by (auto simp: predicates_hold_def split: option.splits)

lemma predicates_pass_grows: "predicates_pass always funcs pod meta info ks failed = Inr failed' \<Longrightarrow> \<exists>more. failed' = failed @ more"
  by (induction always funcs pod meta info ks failed rule: predicates_pass.induct) (fastforce split: option.splits sum.splits prod.splits if_splits)+

lemma predicates_pass_iff:
  assumes "\<And>k f. fmlookup funcs k = Some f \<Longrightarrow> fit_predicate f"
  shows "predicates_pass always funcs pod meta info ks [] = Inr [] \<longleftrightarrow> predicates_hold funcs ks pod meta info"
proof (induction ks)
  case (Cons k ks)
  show ?case
  proof (cases "fmlookup funcs k")
    case (Some f)
    note f = fit_predicate.explained[OF assms[OF Some], of pod meta info]
    show ?thesis
    proof (cases "f pod meta info")
      case (Inr r)
      obtain fit reasons where r: "r = (fit, reasons)" by fastforce
      show ?thesis
        using f[of fit reasons] Inr r Some Cons.IH predicates_pass_grows[of always funcs pod meta info ks reasons] by auto
    qed (simp add: Some)
  qed (simp add: Cons.IH)
qed simp

text \<open>
  C16. When a pod fits. Given predicates that explain their verdict, as all predicates of the package do, a node fits a pod
  exactly when every configured predicate in the ordering accepts the pod on the node as it is and also
  on the node with the nominated pods of equal or higher priority added. The verdict, unlike the list of reasons,
  does not depend on \<open>alwaysCheckAllPredicates\<close>, and a node that does not fit has at least one reason.
\<close>

theorem podFitsOnNode_iff:
  assumes "\<And>k f. fmlookup predicateFuncs k = Some f \<Longrightarrow> fit_predicate f"
    and nominated: "addNominatedPods L M qord g pod meta info pq = (podsAdded, meta1, info1)"
  shows "(podFitsOnNode L M predOrd qord g pod meta info predicateFuncs pq always = Inr (True, []) \<longleftrightarrow>
      predicates_hold predicateFuncs predOrd pod meta info \<and> predicates_hold predicateFuncs predOrd pod meta1 info1) \<and>
    (podFitsOnNode L M predOrd qord g pod meta info predicateFuncs pq always = Inr (fit, reasons) \<longrightarrow> (fit \<longleftrightarrow> reasons = []))"
proof -
  note iff = predicates_pass_iff[OF assms(1)]
  have same: "meta1 = meta \<and> info1 = info" if "\<not> podsAdded"
    using nominated that by (auto simp: addNominatedPods_def Let_def split: option.splits if_splits prod.splits)
  have "podFitsOnNode L M predOrd qord g pod meta info predicateFuncs pq always = Inr (True, []) \<longleftrightarrow>
      predicates_pass always predicateFuncs pod meta1 info1 predOrd [] = Inr [] \<and>
      (podsAdded \<longrightarrow> predicates_pass always predicateFuncs pod meta info predOrd [] = Inr [])"
    by (auto simp: podFitsOnNode_def nominated split: sum.splits)
  then have "podFitsOnNode L M predOrd qord g pod meta info predicateFuncs pq always = Inr (True, []) \<longleftrightarrow>
      predicates_hold predicateFuncs predOrd pod meta info \<and> predicates_hold predicateFuncs predOrd pod meta1 info1"
    using iff same by auto
  then show ?thesis by (auto simp: podFitsOnNode_def split: prod.splits sum.splits if_splits)
qed

definition example_meta_ops :: "'m PredicateMetadata" where
  "example_meta_ops = \<lparr>ShallowCopy = (\<lambda>m. m), meta_AddPod = (\<lambda>_ _ m. m), meta_RemovePod = (\<lambda>_ m. m)\<rparr>"

text \<open>A queue in which a pod with the given identity, that asks for as much as \<open>example_request\<close>, is nominated for the example node.\<close>

definition example_nomination :: "string \<Rightarrow> PoolQueue" where
  "example_nomination uid = \<lparr>queues = fmap_of_list [(''default'', NewPriorityQueue\<lparr>nominatedPods := \<lparr>nominatedPodsOn =
     fmap_of_list [(node_Name zero_Node, [example_request\<lparr>pod_UID := uid\<rparr>])], nominatedPodToNode = fmap_of_list [(uid, node_Name zero_Node)]\<rparr>\<rparr>)]\<rparr>"

definition example_added :: "string \<Rightarrow> bool \<times> predicateMetadata option \<times> NodeInfo option" where
  "example_added uid = addNominatedPods example_k8s example_meta_ops [''default''] \<lparr>generation = 1, transients = []\<rparr> example_request None
     (Some example_node_info) (example_nomination uid)"

definition example_fits :: "string \<Rightarrow> fit_result" where
  "example_fits uid = podFitsOnNode example_k8s example_meta_ops [''PodFitsResources''] [''default''] \<lparr>generation = 1, transients = []\<rparr> example_request None
     (Some example_node_info) (fmap_of_list [(''PodFitsResources'', PodFitsResources example_k8s [])]) (example_nomination uid) False"

theorem podFitsOnNode_iff_witness:
  "example_fits (pod_UID example_request) = Inr (True, []) \<and> example_fits ''other'' \<noteq> Inr (True, [])"
proof -
  let ?fits = "PodFitsResources example_k8s [] example_request"
  have p: "fit_predicate f" if "fmlookup (fmap_of_list [(''PodFitsResources'', PodFitsResources example_k8s [])]) k = Some f" for k f
    using that resources.fit_predicate_axioms by (auto split: if_splits)
  have iff: "example_fits uid = Inr (True, []) \<longleftrightarrow>
      ?fits None (Some example_node_info) = Inr (True, []) \<and> ?fits (fst (snd (example_added uid))) (snd (snd (example_added uid))) = Inr (True, [])" for uid
  proof -
    obtain b m i where n: "example_added uid = (b, m, i)" by (metis surj_pair)
    show ?thesis unfolding example_fits_def
      by (subst podFitsOnNode_iff[OF _ n[unfolded example_added_def], THEN conjunct1]) (erule p, simp add: n)
  qed
  have "?fits None (Some example_node_info) = Inr (True, [])" by code_simp
  moreover have "?fits (fst (snd (example_added (pod_UID example_request)))) (snd (snd (example_added (pod_UID example_request)))) = Inr (True, [])"
    by code_simp
  moreover have "?fits (fst (snd (example_added ''other''))) (snd (snd (example_added ''other''))) \<noteq> Inr (True, [])" by code_simp
  ultimately show ?thesis using iff by blast
qed

subsection \<open>Schedule\<close>

text \<open>What an extender's \<open>Filter\<close> is documented to do: it returns some of the nodes it is given.\<close>

definition extenders_filter :: "Pod \<Rightarrow> node_info_map \<Rightarrow> SchedulerExtender list \<Rightarrow> bool" where
  "extenders_filter pod infos exts \<longleftrightarrow>
     (\<forall>ext \<in> set exts. \<forall>filtered filtered' failed. ext_Filter ext pod filtered infos = Inr (filtered', failed) \<longrightarrow> set filtered' \<subseteq> set filtered)"

lemma filter_extenders_subset:
  "extenders_filter pod infos exts \<Longrightarrow> filter_extenders pod infos exts filtered failed = Inr (filtered', failed') \<Longrightarrow> set filtered' \<subseteq> set filtered"
proof (induction exts arbitrary: filtered failed)
  case (Cons ext exts)
  have IH: "filter_extenders pod infos exts f1 m1 = Inr (filtered', failed') \<Longrightarrow> set filtered' \<subseteq> set f1" for f1 m1
    using Cons.IH Cons.prems(1) by (simp add: extenders_filter_def)
  have sub: "set f1 \<subseteq> set filtered" if "ext_Filter ext pod filtered infos = Inr (f1, m1)" for f1 m1
    using Cons.prems(1) that by (auto simp: extenders_filter_def)
  show ?case
    using Cons.prems(2) IH sub by (fastforce simp: Let_def split: if_splits sum.splits)
qed simp

text \<open>Node infos are stored under the name of their node.\<close>

definition named_infos :: "node_info_map \<Rightarrow> bool" where
  "named_infos infos \<longleftrightarrow> (\<forall>n info nd. fmlookup infos n = Some info \<longrightarrow> ni_node info = Some nd \<longrightarrow> node_Name nd = n)"

lemma named_infosD: "named_infos infos \<Longrightarrow> fmlookup infos n = Some info \<Longrightarrow> ni_node info = Some nd \<Longrightarrow> node_Name nd = n"
  by (simp add: named_infos_def)

lemma equal_priorities_hosts:
  "named_infos infos \<Longrightarrow> equal_priorities infos nodeList result = Inr pl \<Longrightarrow> map Host pl = map Host result @ map node_Name nodeList"
proof (induction nodeList arbitrary: result)
  case (Cons node nodeList)
  obtain hp where hp: "EqualPriorityMap (fmlookup infos (node_Name node)) = (hp, None)" "equal_priorities infos nodeList (result @ [hp]) = Inr pl"
    using Cons.prems(2) by (auto split: prod.splits option.splits)
  obtain info nd where "fmlookup infos (node_Name node) = Some info" "ni_node info = Some nd" "hp = \<lparr>Host = node_Name nd, Score = 1\<rparr>"
    using hp(1) by (auto simp: EqualPriorityMap_def NodeInfo_Node_def bind_eq_Some_conv split: option.splits)
  then have "Host hp = node_Name node" using named_infosD[OF Cons.prems(1), of "node_Name node" info nd] by simp
  then show ?case using Cons.IH[OF Cons.prems(1) hp(2)] by simp
qed simp

lemma sum_scores_hosts:
  assumes "sum_scores nodeList results = Some pl"
  shows "map Host pl = map node_Name nodeList"
proof -
  note eq = those_SomeD[OF assms[unfolded sum_scores_def]]
  have len: "length pl = length nodeList" using arg_cong[OF eq, of length] by simp
  have "Host (pl ! i) = node_Name (nodeList ! i)" if "i < length nodeList" for i
  proof -
    have "map_option (\<lambda>sc. \<lparr>Host = node_Name (nodeList ! i), Score = sc\<rparr>) (foldl (weighted i) (Some 0) results) = Some (pl ! i)"
      using arg_cong[OF eq, of "\<lambda>xs. xs ! i"] that len by simp
    then show ?thesis by (auto simp: eq_commute[of _ "pl ! i"])
  qed
  then show ?thesis using len by (simp add: list_eq_iff_nth_eq)
qed

lemma PrioritizeNodes_hosts:
  assumes "PrioritizeNodes pod infos meta configs nodeList exts = Some (Inr pl)" "named_infos infos"
  shows "map Host pl = map node_Name nodeList"
proof (cases "configs = [] \<and> exts = []")
  case True
  then have "equal_priorities infos nodeList [] = Inr pl" using assms(1) by (simp add: PrioritizeNodes_def)
  from equal_priorities_hosts[OF assms(2) this] show ?thesis by simp
next
  case False
  then obtain results pl0 where "sum_scores nodeList results = Some pl0" "map Host pl = map Host pl0"
    using assms(1) by (auto simp: PrioritizeNodes_def bind_eq_Some_conv Let_def comp_def split: if_splits)
  then show ?thesis using sum_scores_hosts by metis
qed

lemma selectHost_member:
  assumes "selectHost gs priorityList = Some (gs', Inr host)"
  shows "host \<in> set (map Host priorityList)"
proof (cases "priorityList = []")
  case False
  have "best_hosts priorityList ! (unat (lastNodeIndex gs) mod length (best_hosts priorityList)) \<in> set (best_hosts priorityList)"
    using selectHost_eq(2)[OF False] by simp
  then have "best_hosts priorityList ! (unat (lastNodeIndex gs) mod length (best_hosts priorityList)) \<in> set priorityList"
    by (simp add: best_hosts_def)
  then show ?thesis using assms selectHost_eq(1)[OF False, of gs] by auto
qed (use assms in \<open>simp add: selectHost_def\<close>)

text \<open>The stages of a successful call of \<open>Schedule\<close>.\<close>

lemma Schedule_stages:
  assumes "Schedule L bal qord g acts pq poolName pod nodeLister gs c = Some (gs', c', Inr res)"
  obtains nodeList c1 filtered failed where "nodeLister = Inr nodeList" "cache_UpdateNodeInfoSnapshot bal poolName c = Some (c1, None)"
    "findNodesThatFit L qord g acts gs pq poolName pod nodeList c1 = Some (c', Inr (filtered, failed))"
    "(\<exists>nd. filtered = [Some nd] \<and> SuggestedHost res = node_Name nd) \<or>
     (\<exists>fnodes snap pl. filtered = map Some fnodes \<and> cache_NodeInfoSnapshot poolName c' = Some snap \<and>
        PrioritizeNodes pod (NodeInfoMap snap) (priorityMetaProducer gs pod (NodeInfoMap snap)) (prioritizers gs) fnodes (extenders gs) = Some (Inr pl) \<and>
        SuggestedHost res \<in> set (map Host pl))"
    "FeasibleNodes res = length filtered"
proof -
  have pb: "podPassesBasicChecks (pvcLister gs) (pod_Namespace pod) (pod_Volumes pod) = None"
    using assms by (cases "podPassesBasicChecks (pvcLister gs) (pod_Namespace pod) (pod_Volumes pod)") (simp_all add: Schedule_def)
  obtain nodeList where nl: "nodeLister = Inr nodeList" using assms pb by (cases nodeLister) (simp_all add: Schedule_def)
  have ne: "nodeList \<noteq> []" using assms pb nl by (auto simp: Schedule_def)
  obtain c1 e where u: "cache_UpdateNodeInfoSnapshot bal poolName c = Some (c1, e)"
    using assms pb nl ne by (cases "cache_UpdateNodeInfoSnapshot bal poolName c") (auto simp: Schedule_def)
  have e: "e = None" using assms pb nl ne u by (cases e) (simp_all add: Schedule_def)
  obtain c2 r where f: "findNodesThatFit L qord g acts gs pq poolName pod nodeList c1 = Some (c2, r)"
    using assms pb nl ne u e by (cases "findNodesThatFit L qord g acts gs pq poolName pod nodeList c1") (auto simp: Schedule_def)
  obtain filtered failed where r: "r = Inr (filtered, failed)"
    using assms pb nl ne u e f by (cases r) (auto simp: Schedule_def)
  note E = assms[unfolded Schedule_def, simplified pb nl ne u e f r option.case sum.case Option.bind.bind_lunit split_conv if_False]
  consider nd where "filtered = [nd]" | nd nd' rest where "filtered = nd # nd' # rest"
    using E by (cases filtered; cases "tl filtered") auto
  then show ?thesis
  proof cases
    case 1
    then show ?thesis using that[OF nl u[unfolded e], of filtered failed] f r E by auto
  next
    case 2
    have "those filtered \<noteq> None" using E 2 by (cases "those filtered") simp_all
    then obtain fnodes where fn: "those filtered = Some fnodes" by blast
    obtain snap where sn: "cache_NodeInfoSnapshot poolName c2 = Some snap"
      using E 2 fn by (cases "cache_NodeInfoSnapshot poolName c2") simp_all
    let ?P = "PrioritizeNodes pod (NodeInfoMap snap) (priorityMetaProducer gs pod (NodeInfoMap snap)) (prioritizers gs) fnodes (extenders gs)"
    obtain pr where "?P = Some pr" using E 2 fn sn by (cases ?P) simp_all
    then obtain pl where pl: "?P = Some (Inr pl)" using E 2 fn sn by (cases pr) simp_all
    obtain gs1 hr where "selectHost gs pl = Some (gs1, hr)" using E 2 fn sn pl by (cases "selectHost gs pl") auto
    then obtain host where h: "selectHost gs pl = Some (gs1, Inr host)" "c' = c2" "SuggestedHost res = host" "FeasibleNodes res = length filtered"
      using E 2 fn sn pl by (cases hr) (auto simp: eq_commute[of _ res])
    show ?thesis
      using that[OF nl u[unfolded e], of filtered failed] f r h those_SomeD[OF fn] sn pl selectHost_member[OF h(1)] by blast
  qed
qed

lemma found_nodes_fit:
  assumes pool: "fmlookup (pools c) poolName = Some p" and tree: "tree_inv (nodeTree p)" "length (all_nodes (nodeTree p)) * 100 < 2 ^ 31"
    and gs: "fmdom (predicates gs) \<noteq> {||}" "extenders_filter pod (NodeInfoMap (nodeInfoSnapshot p)) (extenders gs)"
    and run: "findNodesThatFit L qord g acts gs pq poolName pod nodeList c = Some (c', Inr (filtered, failed))"
    and mem: "nd \<in> set filtered"
  obtains n where "n \<in> set (all_nodes (nodeTree p))" "nd = NodeInfo_Node (fmlookup (NodeInfoMap (nodeInfoSnapshot p)) n)"
    "node_fits (node_check L qord g gs pq pod (NodeInfoMap (nodeInfoSnapshot p))) n"
proof -
  let ?infos = "NodeInfoMap (nodeInfoSnapshot p)" and ?nt = "nodeTree p"
  let ?check = "node_check L qord g gs pq pod ?infos" and ?N = "nodes_to_find gs (length (all_nodes (nodeTree p)))"
  obtain s where s: "search_run ?check ?infos ?N (length (all_nodes ?nt)) acts (search_start ?nt) = Some s"
    "search_done (length (all_nodes ?nt)) s"
    "Inr (filtered, failed) = (if sr_errs s \<noteq> fmempty then Inl (Aggregate (sr_errs s))
          else if sr_filtered s \<noteq> [] \<and> extenders gs \<noteq> [] then filter_extenders pod ?infos (extenders gs) (sr_filtered s) (sr_failed s)
               else Inr (sr_filtered s, sr_failed s))"
    by (rule findNodesThatFit_search[OF pool tree gs(1) run]) (rule that)
  have "set filtered \<subseteq> set (sr_filtered s)"
    using s(3) filter_extenders_subset[OF gs(2), of "sr_filtered s" "sr_failed s" filtered failed] by (auto split: if_splits)
  then have nd: "nd \<in> set (sr_filtered s)" using mem by blast
  obtain ds ns where d: "Next_many (sr_taken s) ?nt = Some (ds, sr_tree s)" "mset ds = mset ns" "checked ?check ?infos ?N ns s"
    "sr_taken s \<le> length (all_nodes ?nt)" by (rule search_outcome[OF tree(1) s(1,2)]) (rule that)
  have sub: "set ns \<subseteq> set (all_nodes ?nt)"
  proof (cases "all_nodes ?nt = []")
    case True
    then show ?thesis using d(1,2,4) by simp
  next
    case False
    then show ?thesis using Next_many_in_tree[OF tree(1) d(1)] mset_eq_setD[OF d(2)] by simp
  qed
  have "nd \<in> set (fitting ?check ?infos ns)" using nd d(3) by (auto simp: checked_def dest: in_set_takeD)
  then show ?thesis using that sub by (auto simp: fitting_def)
qed

text \<open>
  C4. A pod is only sent to a node that fits. When \<open>Schedule\<close> suggests a host, the host is the name of a node in the
  pool's node tree and in its snapshot, and \<open>podFitsOnNode\<close> accepts the pod there, whatever the priority functions and
  extenders return, for every interleaving of the workers. Extenders are taken to return only nodes they were given, as documented, and node infos
  to be stored under the name of their node.
\<close>

theorem Schedule_host_fits:
  assumes S: "Schedule L bal qord g acts pq poolName pod nodeLister gs c = Some (gs', c', Inr res)"
    and snap: "cache_UpdateNodeInfoSnapshot bal poolName c = Some (c1, None)" "fmlookup (pools c1) poolName = Some p"
      "infos = NodeInfoMap (nodeInfoSnapshot p)"
    and tree: "tree_inv (nodeTree p)" "length (all_nodes (nodeTree p)) * 100 < 2 ^ 31" and named: "named_infos infos"
    and gs: "fmdom (predicates gs) \<noteq> {||}" "extenders_filter pod infos (extenders gs)"
  shows "SuggestedHost res \<in> set (all_nodes (nodeTree p)) \<and>
    (\<exists>info node reasons. fmlookup infos (SuggestedHost res) = Some info \<and> ni_node info = Some node \<and> node_Name node = SuggestedHost res \<and>
       node_check L qord g gs pq pod infos (SuggestedHost res) = Inr (True, reasons))"
proof -
  obtain nodeList filtered failed where f: "findNodesThatFit L qord g acts gs pq poolName pod nodeList c1 = Some (c', Inr (filtered, failed))"
    and h: "(\<exists>nd. filtered = [Some nd] \<and> SuggestedHost res = node_Name nd) \<or>
     (\<exists>fnodes snap pl. filtered = map Some fnodes \<and> cache_NodeInfoSnapshot poolName c' = Some snap \<and>
        PrioritizeNodes pod (NodeInfoMap snap) (priorityMetaProducer gs pod (NodeInfoMap snap)) (prioritizers gs) fnodes (extenders gs) = Some (Inr pl) \<and>
        SuggestedHost res \<in> set (map Host pl))"
    by (rule Schedule_stages[OF S]) (use snap(1) in \<open>auto intro: that\<close>)
  have same: "NodeInfoMap snap' = infos" if "cache_NodeInfoSnapshot poolName c' = Some snap'" for snap'
  proof -
    obtain s :: search where "c' = set_tree poolName (sr_tree s) c1" by (rule findNodesThatFit_search[OF snap(2) tree gs(1) f]) (rule that)
    then show ?thesis using that snap(2,3) by (auto simp: set_tree_def cache_NodeInfoSnapshot_def)
  qed
  have "\<exists>nd. Some nd \<in> set filtered \<and> SuggestedHost res = node_Name nd"
    using h
  proof
    assume "\<exists>fnodes snap pl. filtered = map Some fnodes \<and> cache_NodeInfoSnapshot poolName c' = Some snap \<and>
        PrioritizeNodes pod (NodeInfoMap snap) (priorityMetaProducer gs pod (NodeInfoMap snap)) (prioritizers gs) fnodes (extenders gs) = Some (Inr pl) \<and>
        SuggestedHost res \<in> set (map Host pl)"
    then obtain fnodes snap' pl where p: "filtered = map Some fnodes" "cache_NodeInfoSnapshot poolName c' = Some snap'"
      "PrioritizeNodes pod (NodeInfoMap snap') (priorityMetaProducer gs pod (NodeInfoMap snap')) (prioritizers gs) fnodes (extenders gs) = Some (Inr pl)"
      "SuggestedHost res \<in> set (map Host pl)" by blast
    have "map Host pl = map node_Name fnodes" using PrioritizeNodes_hosts[OF p(3)] same[OF p(2)] named by simp
    then show ?thesis using p(1,4) by auto
  qed auto
  then obtain nd where nd: "Some nd \<in> set filtered" "SuggestedHost res = node_Name nd" by blast
  obtain n where n: "n \<in> set (all_nodes (nodeTree p))" "Some nd = NodeInfo_Node (fmlookup infos n)" "node_fits (node_check L qord g gs pq pod infos) n"
    by (rule found_nodes_fit[OF snap(2) tree gs(1) gs(2)[unfolded snap(3)] f nd(1)]) (use snap(3) in \<open>auto intro: that\<close>)
  obtain info where i: "fmlookup infos n = Some info" "ni_node info = Some nd" using n(2) by (auto simp: NodeInfo_Node_def bind_eq_Some_conv eq_commute[of "Some nd"])
  have "node_Name nd = n" using named_infosD[OF named i] .
  moreover have "\<exists>reasons. node_check L qord g gs pq pod infos n = Inr (True, reasons)"
    using n(3) by (auto simp: node_fits_def split: sum.splits)
  ultimately show ?thesis using n(1) i nd(2) by auto
qed

lemma search_cache_snapshot: "cache_UpdateNodeInfoSnapshot bal ''default'' (search_cache nt) = Some (search_cache nt, None)"
proof -
  have "fmdom (NodeInfoMap (nodeInfoSnapshot (search_pool nt))) = fmdom (pi_nodes (search_pool nt))"
    by (simp add: search_pool_def comp_def)
  then have "UpdateNodeInfoSnapshot bal (search_pool nt) st = Some (search_pool nt, st)" for st
    by (simp add: UpdateNodeInfoSnapshot_def Let_def snapshot_loop.simps(2)) (simp add: search_pool_def NewPoolInfo_def)
  then show ?thesis by (simp add: cache_UpdateNodeInfoSnapshot_def search_cache_def)
qed

definition host_schedule :: "action list \<Rightarrow> ((unit, unit) genericScheduler \<times> schedulerCache \<times> (sched_error + ScheduleResult)) option" where
  "host_schedule acts = Schedule example_k8s False [] example_globals acts \<lparr>queues = fmempty\<rparr> ''default'' host_pod (Inr [zero_Node]) host_scheduler (search_cache example_tree)"

theorem Schedule_host_fits_witness:
  "\<exists>gs' c' res reasons. host_schedule [Take, Take, Finish 1, Take, Finish 0, Finish 0] = Some (gs', c', Inr res) \<and>
     node_check example_k8s [] example_globals host_scheduler \<lparr>queues = fmempty\<rparr> host_pod
       (NodeInfoMap (nodeInfoSnapshot (search_pool example_tree))) (SuggestedHost res) = Inr (True, reasons)"
proof -
  have "case host_schedule [Take, Take, Finish 1, Take, Finish 0, Finish 0] of Some (_, _, Inr _) \<Rightarrow> True | _ \<Rightarrow> False" by code_simp
  then obtain gs' c' res where S: "host_schedule [Take, Take, Finish 1, Take, Finish 0, Finish 0] = Some (gs', c', Inr res)"
    by (auto split: option.splits sum.splits) (metis sum.exhaust)
  have t: "nodeTree (search_pool example_tree) = example_tree" "tree_inv example_tree"
    by (simp_all add: search_pool_def example_tree_def newNodeTree_inv)
  have "named_infos (NodeInfoMap (nodeInfoSnapshot (search_pool example_tree)))"
    by (auto simp: named_infos_def search_pool_def fmlookup_of_list dest!: map_of_SomeD)
  moreover have "fmlookup (pools (search_cache example_tree)) ''default'' = Some (search_pool example_tree)" by (simp add: search_cache_def)
  moreover have "fmdom (predicates host_scheduler) \<noteq> {||}" "extenders_filter host_pod infos (extenders host_scheduler)" for infos
    by (simp_all add: host_scheduler_def extenders_filter_def)
  ultimately show ?thesis
    using Schedule_host_fits[OF S[unfolded host_schedule_def] search_cache_snapshot _ refl] t S example_round by auto
qed

end
