(* ===== verification/Preemption.thy ===== *)
theory Preemption
  imports Generic_Scheduler
begin

text \<open>
  Preemption, the second half of \<open>pkg/scheduler/core/generic_scheduler.go\<close>: which pods would have to leave a
  node so that a pod fits there, and which node to take. A map from nodes to victims is the list of its
  entries in the order in which a \<open>range\<close> loop visits them. \<open>gosort\<close> is Go's \<open>sort.Sort\<close> for a comparison
  function.
\<close>

subsection \<open>Which nodes and pods are considered\<close>

definition unresolvable :: "PredicateFailureReason list" where
  "unresolvable = [ErrNodeSelectorNotMatch, ErrPodAffinityRulesNotMatch, ErrPodNotMatchHostName, ErrTaintsTolerationsNotMatch,
     ErrNodeLabelPresenceViolated, ErrNodeNotReady, ErrNodeNetworkUnavailable, ErrNodeUnderDiskPressure, ErrNodeUnderPIDPressure,
     ErrNodeUnderMemoryPressure, ErrNodeUnschedulable, ErrNodeUnknownCondition, ErrVolumeZoneConflict, ErrVolumeNodeConflict, ErrVolumeBindConflict]"

definition nodesWherePreemptionMightHelp :: "Node list \<Rightarrow> FailedPredicateMap \<Rightarrow> Node list" where
  "nodesWherePreemptionMightHelp nodeList failedPredicatesMap =
     filter (\<lambda>node. \<not> list_ex (\<lambda>failedPredicate. failedPredicate \<in> set unresolvable)
       (case fmlookup failedPredicatesMap (node_Name node) of None \<Rightarrow> [] | Some rs \<Rightarrow> rs)) nodeList"

definition podEligibleToPreemptOthers :: "Pod \<Rightarrow> node_info_map \<Rightarrow> bool" where
  "podEligibleToPreemptOthers pod infos =
     (if pod_NominatedNodeName pod = [] then True
      else case fmlookup infos (pod_NominatedNodeName pod) of
        None \<Rightarrow> True
      | Some nodeInfo \<Rightarrow> \<not> list_ex (\<lambda>p. pod_DeletionTimestamp p \<noteq> None \<and> GetPodPriority p <s GetPodPriority pod) (ni_pods nodeInfo))"

definition getLowerPriorityNominatedPods :: "string list \<Rightarrow> PoolQueue \<Rightarrow> Pod \<Rightarrow> string \<Rightarrow> Pod list" where
  "getLowerPriorityNominatedPods qord pq pod nodeName =
     filter (\<lambda>p. GetPodPriority p <s GetPodPriority pod) (PoolQueue_NominatedPodsForNode qord pq nodeName)"

text \<open>\<open>selector_Empty\<close> is the method \<open>Empty\<close> of a selector: it restricts nothing. A selector that does not parse is skipped.\<close>

definition pdb_violated :: "k8s \<Rightarrow> (LabelSelector option \<Rightarrow> bool) \<Rightarrow> Pod \<Rightarrow> PodDisruptionBudget \<Rightarrow> bool" where
  "pdb_violated L selector_Empty pod pdb =
     (if pdb_Namespace pdb \<noteq> pod_Namespace pod then False
      else case LabelSelectorAsSelector L (pdb_Selector pdb) of
        None \<Rightarrow> False
      | Some matches \<Rightarrow>
          (if selector_Empty (pdb_Selector pdb) \<or> \<not> matches (pod_Labels pod) then False
           else PodDisruptionsAllowed pdb \<le>s 0))"

definition filterPodsWithPDBViolation ::
  "k8s \<Rightarrow> (LabelSelector option \<Rightarrow> bool) \<Rightarrow> Pod list \<Rightarrow> PodDisruptionBudget list \<Rightarrow> Pod list \<times> Pod list" where
  "filterPodsWithPDBViolation L selector_Empty pods pdbs =
     (let pdbForPodIsViolated = (\<lambda>pod. pod_Labels pod \<noteq> [] \<and> list_ex (pdb_violated L selector_Empty pod) pdbs)
      in (filter pdbForPodIsViolated pods, filter (\<lambda>pod. \<not> pdbForPodIsViolated pod) pods))"

subsection \<open>The victims on one node\<close>

text \<open>The copy of the node info, the metadata and the generation counter.\<close>

type_synonym 'm trial = "NodeInfo \<times> 'm option \<times> globals"

definition trial_remove :: "k8s \<Rightarrow> 'm PredicateMetadata \<Rightarrow> Pod \<Rightarrow> 'm trial \<Rightarrow> 'm trial" where
  "trial_remove L M rp t = (case t of (ni, meta, g) \<Rightarrow>
     case NodeInfo_RemovePod L ni rp g of (ni1, g1, _) \<Rightarrow> (ni1, map_option (meta_RemovePod M rp) meta, g1))"

definition trial_add :: "k8s \<Rightarrow> 'm PredicateMetadata \<Rightarrow> Pod \<Rightarrow> 'm trial \<Rightarrow> 'm trial" where
  "trial_add L M ap t = (case t of (ni, meta, g) \<Rightarrow>
     case NodeInfo_AddPod L ni ap g of (ni1, g1) \<Rightarrow> (ni1, map_option (meta_AddPod M ap ni1) meta, g1))"

definition potential_victim :: "PoolQueue \<Rightarrow> string \<Rightarrow> Pod \<Rightarrow> Pod \<Rightarrow> bool" where
  "potential_victim pq poolName pod p \<longleftrightarrow>
     (let podPoolName = GetPoolQueueNameIfNotPresent pq p in
      ResponsibleForPod p ''ai-scheduler'' \<and>
      (poolName \<noteq> podPoolName \<or> (poolName = podPoolName \<and> GetPodPriority p <s GetPodPriority pod)))"

text \<open>\<open>fits\<close> is the test of a trial. A pod whose return makes the test fail is removed again and becomes a victim.\<close>

definition reprievePod :: "k8s \<Rightarrow> 'm PredicateMetadata \<Rightarrow> ('m trial \<Rightarrow> bool) \<Rightarrow> Pod \<Rightarrow> 'm trial \<times> Pod list \<Rightarrow> ('m trial \<times> Pod list) \<times> bool" where
  "reprievePod L M fits p s = (case s of (t, victims) \<Rightarrow>
     (let t1 = trial_add L M p t in
      if \<not> fits t1 then ((trial_remove L M p t1, victims @ [p]), False) else ((t1, victims), True)))"

definition trial_fits ::
  "k8s \<Rightarrow> 'm PredicateMetadata \<Rightarrow> string list \<Rightarrow> string list \<Rightarrow> Pod \<Rightarrow> (string, 'm FitPredicate) fmap \<Rightarrow> PoolQueue \<Rightarrow> 'm trial \<Rightarrow> bool" where
  "trial_fits L M predOrd qord pod fitPredicates pq t = (case t of (ni, meta, g) \<Rightarrow>
     case podFitsOnNode L M predOrd qord g pod meta (Some ni) fitPredicates pq False of Inl _ \<Rightarrow> False | Inr (fits, _) \<Rightarrow> fits)"

text \<open>
  The loop over \<open>nodeInfoCopy.Pods()\<close> removes pods from the list it visits. \<open>RemovePod\<close> overwrites the position of the
  removed pod, which the loop has reached or passed, with the last element and shortens the list; the loop
  goes on over the old length of the unchanged rest, so it visits the pods as they were at its start.
  The log statements read the name of the node; the node infos passed here have one, as the nodes come from
  \<open>NodeInfoSnapshot.Nodes\<close>, which skips the others. The result \<open>None\<close> means that the node is not suitable.
\<close>

definition selectVictimsOnNode ::
  "k8s \<Rightarrow> 'm PredicateMetadata \<Rightarrow> ((Pod \<Rightarrow> Pod \<Rightarrow> bool) \<Rightarrow> Pod list \<Rightarrow> Pod list) \<Rightarrow> (LabelSelector option \<Rightarrow> bool) \<Rightarrow> string list \<Rightarrow> string list \<Rightarrow> globals \<Rightarrow>
   string \<Rightarrow> Pod \<Rightarrow> 'm option \<Rightarrow> NodeInfo option \<Rightarrow> (string, 'm FitPredicate) fmap \<Rightarrow> PoolQueue \<Rightarrow> PodDisruptionBudget list \<Rightarrow>
   (Pod list \<times> nat) option" where
  "selectVictimsOnNode L M gosort selector_Empty predOrd qord g poolName pod meta nodeInfo fitPredicates pq pdbs = (case nodeInfo of
     None \<Rightarrow> None
   | Some info \<Rightarrow>
      (let nodeInfoCopy = NodeInfo_Clone info;
           candidates = filter (potential_victim pq poolName pod) (ni_pods nodeInfoCopy);
           t = foldl (\<lambda>t p. trial_remove L M p t) (nodeInfoCopy, meta, g) candidates;
           potentialVictims = gosort (SelfPoolHasHigherPriorityFunc poolName) candidates;
           fits = trial_fits L M predOrd qord pod fitPredicates pq
       in if \<not> fits t then None
          else
            let (violatingVictims, nonViolatingVictims) = filterPodsWithPDBViolation L selector_Empty potentialVictims pdbs;
                (s1, numViolatingVictim) = foldl (\<lambda>(s, n) p. case reprievePod L M fits p s of (s', ok) \<Rightarrow> (s', if \<not> ok then n + 1 else n))
                  ((t, []), 0) violatingVictims;
                s2 = foldl (\<lambda>s p. fst (reprievePod L M fits p s)) s1 nonViolatingVictims
            in Some (snd s2, numViolatingVictim)))"

text \<open>The nodes are examined in parallel; each writes its own entry.\<close>

definition selectNodesForPreemption ::
  "k8s \<Rightarrow> 'm PredicateMetadata \<Rightarrow> ((Pod \<Rightarrow> Pod \<Rightarrow> bool) \<Rightarrow> Pod list \<Rightarrow> Pod list) \<Rightarrow> (LabelSelector option \<Rightarrow> bool) \<Rightarrow> string list \<Rightarrow> string list \<Rightarrow> globals \<Rightarrow>
   string \<Rightarrow> Pod \<Rightarrow> node_info_map \<Rightarrow> Node list \<Rightarrow> (string, 'm FitPredicate) fmap \<Rightarrow> (Pod \<Rightarrow> node_info_map \<Rightarrow> 'm option) \<Rightarrow> PoolQueue \<Rightarrow>
   PodDisruptionBudget list \<Rightarrow> victims_map" where
  "selectNodesForPreemption L M gosort selector_Empty predOrd qord g poolName pod infos potentialNodes fitPredicates metadataProducer pq pdbs =
     (let meta = metadataProducer pod infos in
      List.map_filter (\<lambda>node. map_option (\<lambda>(pods, n). (node, \<lparr>vi_Pods = pods, NumPDBViolations = word_of_nat n\<rparr>))
        (selectVictimsOnNode L M gosort selector_Empty predOrd qord g poolName pod (map_option (ShallowCopy M) meta) (fmlookup infos (node_Name node))
           fitPredicates pq pdbs)) potentialNodes)"

subsection \<open>Choosing a node\<close>

text \<open>The loops that keep the entries with the smallest value seen so far, starting from a largest value.\<close>

definition keep_min :: "('a \<Rightarrow> int) \<Rightarrow> int \<Rightarrow> 'a list \<Rightarrow> 'a list" where
  "keep_min key start xs = snd (foldl (\<lambda>(m, acc) x.
     let (m1, acc1) = (if key x < m then (key x, []) else (m, acc)) in if key x = m1 then (m1, acc1 @ [x]) else (m1, acc1)) (start, []) xs)"

definition victim_priority :: "PoolQueue \<Rightarrow> string \<Rightarrow> Pod \<Rightarrow> int32" where
  "victim_priority pq poolName p = (if GetPoolQueueNameIfNotPresent pq p \<noteq> poolName then 0x80000000 else GetPodPriority p)"

definition sum_priorities :: "PoolQueue \<Rightarrow> string \<Rightarrow> Pod list \<Rightarrow> int64" where
  "sum_priorities pq poolName pods = foldl (\<lambda>s p. s + (scast (victim_priority pq poolName p) + 0x80000000)) 0 pods"

definition pickOneNodeForPreemption :: "victims_map \<Rightarrow> string \<Rightarrow> PoolQueue \<Rightarrow> (Node \<times> Victims) option" where
  "pickOneNodeForPreemption nodesToVictims poolName pq =
     (if nodesToVictims = [] then None
      else case List.find (\<lambda>(node, victims). vi_Pods victims = []) nodesToVictims of
        Some e \<Rightarrow> Some e
      | None \<Rightarrow>
         (let minNodes1 = keep_min (\<lambda>(node, victims). sint (NumPDBViolations victims)) 0x7FFFFFFF nodesToVictims in
          case minNodes1 of [e] \<Rightarrow> Some e | _ \<Rightarrow>
          (let minNodes2 = keep_min (\<lambda>(node, victims). sint (victim_priority pq poolName (vi_Pods victims ! 0))) 0x7FFFFFFF minNodes1 in
           case minNodes2 of [e] \<Rightarrow> Some e | _ \<Rightarrow>
           (let minNodes3 = keep_min (\<lambda>(node, victims). sint (sum_priorities pq poolName (vi_Pods victims))) 0x7FFFFFFFFFFFFFFF minNodes2 in
            case minNodes3 of [e] \<Rightarrow> Some e | _ \<Rightarrow>
            (case keep_min (\<lambda>(node, victims). int (length (vi_Pods victims))) 0x7FFFFFFF minNodes3 of
               e # _ \<Rightarrow> Some e
             | [] \<Rightarrow> None)))))"

subsection \<open>Preempt\<close>

fun preemption_extenders :: "Pod \<Rightarrow> node_info_map \<Rightarrow> SchedulerExtender list \<Rightarrow> victims_map \<Rightarrow> string + victims_map" where
  "preemption_extenders pod infos [] nodeToVictims = Inr nodeToVictims"
| "preemption_extenders pod infos (ext # exts) nodeToVictims =
     (if SupportsPreemption ext \<and> IsInterested ext pod
      then case ProcessPreemption ext pod nodeToVictims infos of
        Inl err \<Rightarrow> if IsIgnorable ext then preemption_extenders pod infos exts nodeToVictims else Inl err
      | Inr newNodeToVictims \<Rightarrow> if newNodeToVictims = [] then Inr newNodeToVictims else preemption_extenders pod infos exts newNodeToVictims
      else preemption_extenders pod infos exts nodeToVictims)"

definition processPreemptionWithExtenders :: "Pod \<Rightarrow> node_info_map \<Rightarrow> SchedulerExtender list \<Rightarrow> victims_map \<Rightarrow> string + victims_map" where
  "processPreemptionWithExtenders pod infos exts nodeToVictims =
     (if nodeToVictims \<noteq> [] then preemption_extenders pod infos exts nodeToVictims else Inr nodeToVictims)"

record preempt_result =
  pr_node :: "Node option"
  pr_victims :: "Pod list"
  pr_nominated :: "Pod list"
  pr_error :: "sched_error option"
  pr_needBorrow :: bool

definition no_preemption :: "sched_error option \<Rightarrow> bool \<Rightarrow> preempt_result" where
  "no_preemption err needBorrow = \<lparr>pr_node = None, pr_victims = [], pr_nominated = [], pr_error = err, pr_needBorrow = needBorrow\<rparr>"

text \<open>\<open>vord\<close> is the order in which the map of victims is visited; \<open>nord\<close> that of the snapshot's \<open>Nodes()\<close>.\<close>

definition Preempt ::
  "k8s \<Rightarrow> ((Pod \<Rightarrow> Pod \<Rightarrow> bool) \<Rightarrow> Pod list \<Rightarrow> Pod list) \<Rightarrow> (LabelSelector option \<Rightarrow> bool) \<Rightarrow> string list \<Rightarrow> string list \<Rightarrow> (victims_map \<Rightarrow> victims_map) \<Rightarrow> globals \<Rightarrow>
   ('m, 'p) genericScheduler \<Rightarrow> PoolQueue \<Rightarrow> schedulerCache \<Rightarrow> string \<Rightarrow> Pod \<Rightarrow> sched_error \<Rightarrow> preempt_result" where
  "Preempt L gosort selector_Empty qord nord vord g gs pq c poolName pod scheduleErr = (case scheduleErr of
     FitError _ _ failedPredicates \<Rightarrow>
      (case cache_NodeInfoSnapshot poolName c of
         None \<Rightarrow> (no_preemption (Some (OtherError ''NodeInfoSnapshot of pool queue not exists'')) False)
       | Some snap \<Rightarrow>
          (let infos = NodeInfoMap snap in
           if \<not> podEligibleToPreemptOthers pod infos then (no_preemption None False)
           else
             let allNodes = NodeInfoSnapshot_Nodes nord snap in
             if allNodes = [] then (no_preemption (Some ErrNoNodesAvailable) True)
             else
               let potentialNodes = nodesWherePreemptionMightHelp allNodes failedPredicates in
               if potentialNodes = [] then (no_preemption None True)\<lparr>pr_nominated := [pod]\<rparr>
               else case pdbLister gs of
                 Inl err \<Rightarrow> (no_preemption (Some (OtherError err)) False)
               | Inr pdbs \<Rightarrow>
                  (case processPreemptionWithExtenders pod infos (extenders gs)
                      (selectNodesForPreemption L (metaOps gs) gosort selector_Empty (predicatesOrdering gs) qord g poolName pod infos potentialNodes
                        (predicates gs) (predicateMetaProducer gs) pq pdbs) of
                     Inl err \<Rightarrow> (no_preemption (Some (OtherError err)) False)
                   | Inr nodeToVictims \<Rightarrow> (case pickOneNodeForPreemption (vord nodeToVictims) poolName pq of
                         None \<Rightarrow> (no_preemption None True)
                       | Some (candidateNode, victims) \<Rightarrow>
                           (case fmlookup infos (node_Name candidateNode) of
                              Some nodeInfo \<Rightarrow> \<lparr>pr_node = ni_node nodeInfo, pr_victims = vi_Pods victims,
                                  pr_nominated = getLowerPriorityNominatedPods qord pq pod (node_Name candidateNode), pr_error = None, pr_needBorrow = False\<rparr>
                            | None \<Rightarrow> (no_preemption (Some (OtherError ''preemption failed: the target node has been deleted from scheduler cache'')) False))))))
   | _ \<Rightarrow> (no_preemption None False))"

end
