(* ===== verification/Predicate_Metadata.thy ===== *)
theory Predicate_Metadata
  imports Predicates Scheduling_Queue
begin

text \<open>
  The metadata of the predicates, \<open>algorithm/predicates/metadata.go\<close>: computed once for a pod and a map of
  node infos, and kept up to date by \<open>AddPod\<close> and \<open>RemovePod\<close> while nominated pods and victims of a preemption are tried.

  The nodes are processed by parallel workers. The appends of a worker take a lock and commute, and a worker that
  meets an error keeps what it has appended; a run of the workers is represented by the order \<open>ord\<close> in which the nodes are processed.
  Errors of the library have no text in this model.
\<close>

subsection \<open>Matching the terms of pods\<close>

definition GetPodAntiAffinityTerms :: "PodAffinityRequired option \<Rightarrow> PodAffinityTerm list" where
  "GetPodAntiAffinityTerms podAntiAffinity = (case podAntiAffinity of Some terms \<Rightarrow> terms | None \<Rightarrow> [])"

record affinityTermProperties =
  prop_namespaces :: "string list"
  prop_selector :: "labels \<Rightarrow> bool"

definition pod_matches :: "Pod \<Rightarrow> string list \<Rightarrow> (labels \<Rightarrow> bool) \<Rightarrow> bool" where
  "pod_matches pod namespaces selector \<longleftrightarrow> PodMatchesTermsNamespaceAndSelector pod namespaces (Some selector) = Some True"

fun getAffinityTermProperties :: "k8s \<Rightarrow> Pod \<Rightarrow> PodAffinityTerm list \<Rightarrow> affinityTermProperties list option" where
  "getAffinityTermProperties L pod [] = Some []"
| "getAffinityTermProperties L pod (term # terms) =
     (let namespaces = GetNamespacesFromPodAffinityTerm pod term in
      case LabelSelectorAsSelector L (term_LabelSelector term) of
        None \<Rightarrow> None
      | Some selector \<Rightarrow>
          map_option (\<lambda>properties. \<lparr>prop_namespaces = namespaces, prop_selector = selector\<rparr> # properties)
            (getAffinityTermProperties L pod terms))"

definition podMatchesAllAffinityTermProperties :: "Pod \<Rightarrow> affinityTermProperties list \<Rightarrow> bool" where
  "podMatchesAllAffinityTermProperties pod properties =
     (if properties = [] then False
      else list_all (\<lambda>property. pod_matches pod (prop_namespaces property) (prop_selector property)) properties)"

definition podMatchesAnyAffinityTermProperties :: "Pod \<Rightarrow> affinityTermProperties list \<Rightarrow> bool" where
  "podMatchesAnyAffinityTermProperties pod properties =
     (if properties = [] then False
      else list_ex (\<lambda>property. pod_matches pod (prop_namespaces property) (prop_selector property)) properties)"

definition targetPodMatchesAffinityOfPod :: "k8s \<Rightarrow> Pod \<Rightarrow> Pod \<Rightarrow> bool" where
  "targetPodMatchesAffinityOfPod L pod targetPod = (case pod_Affinity pod of
     None \<Rightarrow> False
   | Some affinity \<Rightarrow>
       if PodAffinity affinity = None then False
       else case getAffinityTermProperties L pod (GetPodAffinityTerms (PodAffinity affinity)) of
         None \<Rightarrow> False
       | Some affinityProperties \<Rightarrow> podMatchesAllAffinityTermProperties targetPod affinityProperties)"

definition targetPodMatchesAntiAffinityOfPod :: "k8s \<Rightarrow> Pod \<Rightarrow> Pod \<Rightarrow> bool" where
  "targetPodMatchesAntiAffinityOfPod L pod targetPod = (case pod_Affinity pod of
     None \<Rightarrow> False
   | Some affinity \<Rightarrow>
       if PodAntiAffinity affinity = None then False
       else case getAffinityTermProperties L pod (GetPodAntiAffinityTerms (PodAntiAffinity affinity)) of
         None \<Rightarrow> False
       | Some properties \<Rightarrow> podMatchesAnyAffinityTermProperties targetPod properties)"

text \<open>Adding a pod to the pair that a term and a node give, if the node has the label.\<close>

definition add_term_pair :: "Node \<Rightarrow> Pod \<Rightarrow> PodAffinityTerm \<Rightarrow> topologyPairsMaps \<Rightarrow> topologyPairsMaps" where
  "add_term_pair node pod term m = (case map_of (node_Labels node) (term_TopologyKey term) of
     Some topologyValue \<Rightarrow> addTopologyPair \<lparr>tp_key = term_TopologyKey term, tp_value = topologyValue\<rparr> pod m
   | None \<Rightarrow> m)"

definition anti_affinity_term :: "k8s \<Rightarrow> Pod \<Rightarrow> Pod \<Rightarrow> Node \<Rightarrow> PodAffinityTerm \<Rightarrow> topologyPairsMaps \<Rightarrow> topologyPairsMaps option" where
  "anti_affinity_term L newPod existingPod node term m =
     (let namespaces = GetNamespacesFromPodAffinityTerm existingPod term in
      case LabelSelectorAsSelector L (term_LabelSelector term) of
        None \<Rightarrow> None
      | Some selector \<Rightarrow> Some (if pod_matches newPod namespaces selector then add_term_pair node existingPod term m else m))"

text \<open>The outer option is the error, the inner one the nil map.\<close>

definition getMatchingAntiAffinityTopologyPairsOfPod :: "k8s \<Rightarrow> Pod \<Rightarrow> Pod \<Rightarrow> Node \<Rightarrow> topologyPairsMaps option option" where
  "getMatchingAntiAffinityTopologyPairsOfPod L newPod existingPod node = (case pod_Affinity existingPod of
     None \<Rightarrow> Some None
   | Some affinity \<Rightarrow>
       if PodAntiAffinity affinity = None then Some None
       else map_option Some (foldM (anti_affinity_term L newPod existingPod node)
              (GetPodAntiAffinityTerms (PodAntiAffinity affinity)) newTopologyPairsMaps))"

subsection \<open>Computing the maps\<close>

definition catchError :: "string \<Rightarrow> string option \<Rightarrow> string option" where
  "catchError err firstError = (if firstError = None then Some err else firstError)"

fun existing_pods :: "k8s \<Rightarrow> Pod \<Rightarrow> Node \<Rightarrow> Pod list \<Rightarrow> topologyPairsMaps \<times> string option \<Rightarrow> topologyPairsMaps \<times> string option" where
  "existing_pods L pod node [] s = s"
| "existing_pods L pod node (existingPod # rest) (topologyMaps, firstError) =
     (case getMatchingAntiAffinityTopologyPairsOfPod L pod existingPod node of
        None \<Rightarrow> (topologyMaps, catchError ''invalid selector'' firstError)
      | Some existingPodTopologyMaps \<Rightarrow> existing_pods L pod node rest (appendMaps topologyMaps existingPodTopologyMaps, firstError))"

definition existing_node :: "k8s \<Rightarrow> Pod \<Rightarrow> node_info_map \<Rightarrow> string \<Rightarrow> topologyPairsMaps \<times> string option \<Rightarrow> topologyPairsMaps \<times> string option" where
  "existing_node L pod nodeInfoMap name s = (case NodeInfo_Node (fmlookup nodeInfoMap name) of
     None \<Rightarrow> (fst s, catchError ''node not found'' (snd s))
   | Some node \<Rightarrow> existing_pods L pod node (case fmlookup nodeInfoMap name of None \<Rightarrow> [] | Some i \<Rightarrow> podsWithAffinity i) s)"

definition getTPMapMatchingExistingAntiAffinity :: "k8s \<Rightarrow> string list \<Rightarrow> Pod \<Rightarrow> node_info_map \<Rightarrow> topologyPairsMaps \<times> string option" where
  "getTPMapMatchingExistingAntiAffinity L ord pod nodeInfoMap = fold (existing_node L pod nodeInfoMap) ord (newTopologyPairsMaps, None)"

text \<open>The maps of one node. A term whose selector is invalid ends the work on the node.\<close>

definition incoming_anti_term :: "k8s \<Rightarrow> Pod \<Rightarrow> Pod \<Rightarrow> Node \<Rightarrow> PodAffinityTerm \<Rightarrow> topologyPairsMaps \<Rightarrow> topologyPairsMaps option" where
  "incoming_anti_term L pod existingPod node term m =
     (let namespaces = GetNamespacesFromPodAffinityTerm pod term in
      case LabelSelectorAsSelector L (term_LabelSelector term) of
        None \<Rightarrow> None
      | Some selector \<Rightarrow> Some (if pod_matches existingPod namespaces selector then add_term_pair node existingPod term m else m))"

definition incoming_pod ::
  "k8s \<Rightarrow> Pod \<Rightarrow> PodAffinityTerm list \<Rightarrow> affinityTermProperties list \<Rightarrow> PodAffinityTerm list \<Rightarrow> Node \<Rightarrow> Pod \<Rightarrow>
   topologyPairsMaps \<times> topologyPairsMaps \<Rightarrow> (topologyPairsMaps \<times> topologyPairsMaps) option" where
  "incoming_pod L pod affinityTerms affinityProperties antiAffinityTerms node existingPod ms =
     (let am = (if podMatchesAllAffinityTermProperties existingPod affinityProperties
                then fold (add_term_pair node existingPod) affinityTerms (fst ms) else fst ms)
      in map_option (\<lambda>xm. (am, xm)) (foldM (incoming_anti_term L pod existingPod node) antiAffinityTerms (snd ms)))"

type_synonym incoming_maps = "(topologyPairsMaps \<times> topologyPairsMaps) \<times> string option"

definition appendResult :: "topologyPairsMaps \<times> topologyPairsMaps \<Rightarrow> incoming_maps \<Rightarrow> incoming_maps" where
  "appendResult nodeMaps s = (case s of ((am, xm), firstError) \<Rightarrow>
     ((if topologyPairToPods (fst nodeMaps) \<noteq> fmempty then appendMaps am (Some (fst nodeMaps)) else am,
       if topologyPairToPods (snd nodeMaps) \<noteq> fmempty then appendMaps xm (Some (snd nodeMaps)) else xm), firstError))"

definition incoming_node ::
  "k8s \<Rightarrow> Pod \<Rightarrow> PodAffinityTerm list \<Rightarrow> affinityTermProperties list \<Rightarrow> PodAffinityTerm list \<Rightarrow> node_info_map \<Rightarrow> string \<Rightarrow>
   incoming_maps \<Rightarrow> incoming_maps" where
  "incoming_node L pod affinityTerms affinityProperties antiAffinityTerms nodeInfoMap name s =
     (case NodeInfo_Node (fmlookup nodeInfoMap name) of
        None \<Rightarrow> (fst s, catchError ''nodeInfo.Node is nil'' (snd s))
      | Some node \<Rightarrow>
         (case foldM (incoming_pod L pod affinityTerms affinityProperties antiAffinityTerms node)
                 (NodeInfo_Pods (fmlookup nodeInfoMap name)) (newTopologyPairsMaps, newTopologyPairsMaps) of
            None \<Rightarrow> (fst s, catchError ''invalid selector'' (snd s))
          | Some nodeMaps \<Rightarrow>
              if topologyPairToPods (fst nodeMaps) \<noteq> fmempty \<or> topologyPairToPods (snd nodeMaps) \<noteq> fmempty
              then appendResult nodeMaps s else s))"

text \<open>The two nil maps that come with an error of the properties are represented by empty ones; the caller drops them.\<close>

definition getTPMapMatchingIncomingAffinityAntiAffinity :: "k8s \<Rightarrow> string list \<Rightarrow> Pod \<Rightarrow> node_info_map \<Rightarrow> incoming_maps" where
  "getTPMapMatchingIncomingAffinityAntiAffinity L ord pod nodeInfoMap = (case pod_Affinity pod of
     None \<Rightarrow> ((newTopologyPairsMaps, newTopologyPairsMaps), None)
   | Some affinity \<Rightarrow>
      if PodAffinity affinity = None \<and> PodAntiAffinity affinity = None then ((newTopologyPairsMaps, newTopologyPairsMaps), None)
      else
        (let affinityTerms = GetPodAffinityTerms (PodAffinity affinity);
             antiAffinityTerms = GetPodAntiAffinityTerms (PodAntiAffinity affinity)
         in case getAffinityTermProperties L pod affinityTerms of
              None \<Rightarrow> ((newTopologyPairsMaps, newTopologyPairsMaps), Some ''invalid selector'')
            | Some affinityProperties \<Rightarrow>
                fold (incoming_node L pod affinityTerms affinityProperties antiAffinityTerms nodeInfoMap) ord
                  ((newTopologyPairsMaps, newTopologyPairsMaps), None)))"

text \<open>The registered producers change the metadata; \<open>producers\<close> lists them in the order in which they are visited.\<close>

definition extendedResourceProducer :: "string fset option \<Rightarrow> predicateMetadata \<Rightarrow> predicateMetadata" where
  "extendedResourceProducer ignored pm = pm\<lparr>ignoredExtendedResources := ignored\<rparr>"

definition GetMetadata ::
  "k8s \<Rightarrow> (predicateMetadata \<Rightarrow> predicateMetadata) list \<Rightarrow> string list \<Rightarrow> string list \<Rightarrow> Pod \<Rightarrow> node_info_map \<Rightarrow> predicateMetadata option" where
  "GetMetadata L producers ord1 ord2 pod nodeNameToInfoMap =
     (case getTPMapMatchingExistingAntiAffinity L ord1 pod nodeNameToInfoMap of (existingPodAntiAffinityMap, err) \<Rightarrow>
      if err \<noteq> None then None
      else case getTPMapMatchingIncomingAffinityAntiAffinity L ord2 pod nodeNameToInfoMap of
        ((incomingPodAffinityMap, incomingPodAntiAffinityMap), err) \<Rightarrow>
      if err \<noteq> None then None
      else Some (fold (\<lambda>precomputeFunc. precomputeFunc) producers
        \<lparr>meta_pod = pod, podBestEffort = isPodBestEffort L pod, podRequest = GetResourceRequest L pod,
         podPorts = GetContainerPorts [pod],
         topologyPairsAntiAffinityPodsMap = existingPodAntiAffinityMap,
         topologyPairsPotentialAffinityPods = incomingPodAffinityMap,
         topologyPairsPotentialAntiAffinityPods = incomingPodAntiAffinityMap,
         serviceAffinityInUse = False, serviceAffinityMatchingPodList = None, serviceAffinityMatchingPodServices = None,
         ignoredExtendedResources = None\<rparr>))"

subsection \<open>Keeping the metadata up to date\<close>

definition CreateSelectorFromLabels :: "k8s \<Rightarrow> labels \<Rightarrow> labels \<Rightarrow> bool" where
  "CreateSelectorFromLabels L aL = (if length aL = 0 then (\<lambda>_. True) else SelectorFromSet L aL)"

fun remove_first :: "string \<Rightarrow> Pod list \<Rightarrow> Pod list" where
  "remove_first fullName [] = []"
| "remove_first fullName (pod # pods) = (if GetPodFullName pod = fullName then pods else pod # remove_first fullName pods)"

definition predicateMetadata_RemovePod :: "Pod \<Rightarrow> predicateMetadata \<Rightarrow> predicateMetadata \<times> string option" where
  "predicateMetadata_RemovePod deletedPod meta =
     (let deletedPodFullName = GetPodFullName deletedPod in
      if deletedPodFullName = GetPodFullName (meta_pod meta) then (meta, Some ''deletedPod and meta.pod must not be the same'')
      else
        let meta1 = meta\<lparr>topologyPairsAntiAffinityPodsMap := removePod_tp deletedPod (topologyPairsAntiAffinityPodsMap meta),
              topologyPairsPotentialAffinityPods := removePod_tp deletedPod (topologyPairsPotentialAffinityPods meta),
              topologyPairsPotentialAntiAffinityPods := removePod_tp deletedPod (topologyPairsPotentialAntiAffinityPods meta)\<rparr>
        in case serviceAffinityMatchingPodList meta of
             Some (first # rest) \<Rightarrow>
               if serviceAffinityInUse meta \<and> pod_Namespace deletedPod = pod_Namespace first
               then (meta1\<lparr>serviceAffinityMatchingPodList := Some (remove_first deletedPodFullName (first # rest))\<rparr>, None)
               else (meta1, None)
           | _ \<Rightarrow> (meta1, None))"

definition predicateMetadata_AddPod :: "k8s \<Rightarrow> Pod \<Rightarrow> NodeInfo option \<Rightarrow> predicateMetadata \<Rightarrow> predicateMetadata \<times> string option" where
  "predicateMetadata_AddPod L addedPod nodeInfo meta =
     (if GetPodFullName addedPod = GetPodFullName (meta_pod meta) then (meta, Some ''addedPod and meta.pod must not be the same'')
      else case NodeInfo_Node nodeInfo of
        None \<Rightarrow> (meta, Some ''invalid node in nodeInfo'')
      | Some podNode \<Rightarrow>
         (case getMatchingAntiAffinityTopologyPairsOfPod L (meta_pod meta) addedPod podNode of
            None \<Rightarrow> (meta, Some ''invalid selector'')
          | Some maps \<Rightarrow>
             (let meta1 = meta\<lparr>topologyPairsAntiAffinityPodsMap := appendMaps (topologyPairsAntiAffinityPodsMap meta) maps\<rparr>;
                  meta2 = (case pod_Affinity (meta_pod meta) of
                      None \<Rightarrow> meta1
                    | Some affinity \<Rightarrow>
                        if length (pod_NodeName addedPod) = 0 then meta1
                        else
                          let am = topologyPairsPotentialAffinityPods meta1;
                              xm = topologyPairsPotentialAntiAffinityPods meta1
                          in meta1\<lparr>
                            topologyPairsPotentialAffinityPods :=
                              (if targetPodMatchesAffinityOfPod L (meta_pod meta) addedPod
                               then fold (add_term_pair podNode addedPod) (GetPodAffinityTerms (PodAffinity affinity)) am else am),
                            topologyPairsPotentialAntiAffinityPods :=
                              (if targetPodMatchesAntiAffinityOfPod L (meta_pod meta) addedPod
                               then fold (add_term_pair podNode addedPod) (GetPodAntiAffinityTerms (PodAntiAffinity affinity)) xm else xm)\<rparr>)
              in if serviceAffinityInUse meta \<and> pod_Namespace addedPod = pod_Namespace (meta_pod meta) \<and>
                    CreateSelectorFromLabels L (pod_Labels (meta_pod meta)) (pod_Labels addedPod)
                 then (meta2\<lparr>serviceAffinityMatchingPodList :=
                         Some ((case serviceAffinityMatchingPodList meta2 of None \<Rightarrow> [] | Some l \<Rightarrow> l) @ [addedPod])\<rparr>, None)
                 else (meta2, None))))"

text \<open>Appending to a nil slice: the copy of an empty slice is nil.\<close>

definition copy_slice :: "'a list option \<Rightarrow> 'a list option" where
  "copy_slice xs = (case xs of Some (y # ys) \<Rightarrow> Some (y # ys) | _ \<Rightarrow> None)"

definition predicateMetadata_ShallowCopy :: "predicateMetadata \<Rightarrow> predicateMetadata" where
  "predicateMetadata_ShallowCopy meta =
     \<lparr>meta_pod = meta_pod meta, podBestEffort = podBestEffort meta, podRequest = podRequest meta,
      podPorts = [] @ podPorts meta,
      topologyPairsAntiAffinityPodsMap = appendMaps newTopologyPairsMaps (Some (topologyPairsAntiAffinityPodsMap meta)),
      topologyPairsPotentialAffinityPods = appendMaps newTopologyPairsMaps (Some (topologyPairsPotentialAffinityPods meta)),
      topologyPairsPotentialAntiAffinityPods = appendMaps newTopologyPairsMaps (Some (topologyPairsPotentialAntiAffinityPods meta)),
      serviceAffinityInUse = serviceAffinityInUse meta,
      serviceAffinityMatchingPodList = copy_slice (serviceAffinityMatchingPodList meta),
      serviceAffinityMatchingPodServices = copy_slice (serviceAffinityMatchingPodServices meta),
      ignoredExtendedResources = ignoredExtendedResources meta\<rparr>"

end
