(* ===== verification/Pod_Affinity.thy ===== *)
theory Pod_Affinity
  imports Predicate_Metadata "HOL-Library.AList"
begin

text \<open>
  The predicates on pods of other nodes, \<open>algorithm/predicates/predicates.go\<close>: inter-pod affinity and service affinity.

  The listers are arguments: \<open>FilteredList\<close> returns the pods that pass a filter, \<open>GetNodeInfo\<close> a node by its name, with the error
  \<open>NodeNotFound\<close> told apart from others. A failed predicate returns a reason together with an error; as in the
  other predicates the error wins.
\<close>

datatype lister_error = NodeNotFound | ListerError string

subsection \<open>Inter-pod affinity\<close>

definition NodesHaveSameTopologyKey :: "Node \<Rightarrow> Node \<Rightarrow> string \<Rightarrow> bool" where
  "NodesHaveSameTopologyKey nodeA nodeB topologyKey =
     (if length topologyKey = 0 then False
      else case (map_of (node_Labels nodeA) topologyKey, map_of (node_Labels nodeB) topologyKey) of
        (Some nodeALabel, Some nodeBLabel) \<Rightarrow> nodeALabel = nodeBLabel
      | _ \<Rightarrow> False)"

text \<open>The pods of the slow path are compared with the node of the pod that is checked.\<close>

fun same_topologies :: "Node \<Rightarrow> Node \<Rightarrow> PodAffinityTerm list \<Rightarrow> string + bool \<times> bool" where
  "same_topologies node targetPodNode [] = Inr (True, True)"
| "same_topologies node targetPodNode (term # terms) =
     (if length (term_TopologyKey term) = 0
      then Inl ''empty topologyKey is not allowed except for PreferredDuringScheduling pod anti-affinity''
      else if \<not> NodesHaveSameTopologyKey node targetPodNode (term_TopologyKey term) then Inr (False, True)
      else same_topologies node targetPodNode terms)"

definition podMatchesPodAffinityTerms ::
  "k8s \<Rightarrow> (string \<Rightarrow> lister_error + Node) \<Rightarrow> Pod \<Rightarrow> Pod \<Rightarrow> Node \<Rightarrow> PodAffinityTerm list \<Rightarrow> string + bool \<times> bool" where
  "podMatchesPodAffinityTerms L GetNodeInfo pod targetPod node terms =
     (if length terms = 0 then Inl ''terms array is empty''
      else case getAffinityTermProperties L pod terms of
        None \<Rightarrow> Inl ''invalid selector''
      | Some props \<Rightarrow>
          if \<not> podMatchesAllAffinityTermProperties targetPod props then Inr (False, False)
          else case GetNodeInfo (pod_NodeName targetPod) of
            Inl err \<Rightarrow> Inl ''no node''
          | Inr targetPodNode \<Rightarrow> same_topologies node targetPodNode terms)"

fun getMatchingAntiAffinityTopologyPairsOfPods ::
  "k8s \<Rightarrow> (string \<Rightarrow> lister_error + Node) \<Rightarrow> Pod \<Rightarrow> Pod list \<Rightarrow> topologyPairsMaps \<Rightarrow> string + topologyPairsMaps" where
  "getMatchingAntiAffinityTopologyPairsOfPods L GetNodeInfo pod [] topologyMaps = Inr topologyMaps"
| "getMatchingAntiAffinityTopologyPairsOfPods L GetNodeInfo pod (existingPod # rest) topologyMaps =
     (case GetNodeInfo (pod_NodeName existingPod) of
        Inl NodeNotFound \<Rightarrow> getMatchingAntiAffinityTopologyPairsOfPods L GetNodeInfo pod rest topologyMaps
      | Inl (ListerError err) \<Rightarrow> Inl err
      | Inr existingPodNode \<Rightarrow>
         (case getMatchingAntiAffinityTopologyPairsOfPod L pod existingPod existingPodNode of
            None \<Rightarrow> Inl ''invalid selector''
          | Some existingPodTopologyMaps \<Rightarrow>
              getMatchingAntiAffinityTopologyPairsOfPods L GetNodeInfo pod rest (appendMaps topologyMaps existingPodTopologyMaps)))"

text \<open>A checker has the two listers. \<open>nodeInfo.Filter\<close> is called with a node that is not nil.\<close>

record PodAffinityChecker =
  checker_GetNodeInfo :: "string \<Rightarrow> lister_error + Node"
  checker_FilteredList :: "(Pod \<Rightarrow> bool) \<Rightarrow> string + Pod list"

definition node_filter :: "NodeInfo option \<Rightarrow> Pod \<Rightarrow> bool" where
  "node_filter nodeInfo p = (case nodeInfo of None \<Rightarrow> False | Some i \<Rightarrow> NodeInfo_Filter i p = Some True)"

text \<open>A failure is a reason with a possible error; \<open>None\<close> is success.\<close>

type_synonym failure = "(PredicateFailureReason \<times> string option) option"

definition satisfiesExistingPodsAntiAffinity ::
  "k8s \<Rightarrow> PodAffinityChecker \<Rightarrow> Pod \<Rightarrow> predicateMetadata option \<Rightarrow> NodeInfo option \<Rightarrow> failure" where
  "satisfiesExistingPodsAntiAffinity L c pod meta nodeInfo = (case NodeInfo_Node nodeInfo of
     None \<Rightarrow> Some (ErrExistingPodsAntiAffinityRulesNotMatch, Some ''Node is nil'')
   | Some node \<Rightarrow>
      (let found = (case meta of
              Some predicateMeta \<Rightarrow> Inr (topologyPairsAntiAffinityPodsMap predicateMeta)
            | None \<Rightarrow>
               (case checker_FilteredList c (node_filter nodeInfo) of
                  Inl err \<Rightarrow> Inl ''Failed to get all pods''
                | Inr filteredPods \<Rightarrow>
                   (case getMatchingAntiAffinityTopologyPairsOfPods L (checker_GetNodeInfo c) pod filteredPods newTopologyPairsMaps of
                      Inl err \<Rightarrow> Inl ''Failed to get all terms that the pod matches''
                    | Inr topologyMaps \<Rightarrow> Inr topologyMaps)))
       in case found of
            Inl errMessage \<Rightarrow> Some (ErrExistingPodsAntiAffinityRulesNotMatch, Some errMessage)
          | Inr topologyMaps \<Rightarrow>
              if list_ex (\<lambda>(topologyKey, topologyValue).
                   fmlookup (topologyPairToPods topologyMaps) \<lparr>tp_key = topologyKey, tp_value = topologyValue\<rparr> \<noteq> None) (node_Labels node)
              then Some (ErrExistingPodsAntiAffinityRulesNotMatch, None) else None))"

definition term_pair_present :: "topologyPairsMaps \<Rightarrow> Node \<Rightarrow> PodAffinityTerm \<Rightarrow> bool" where
  "term_pair_present topologyPairs node term = (case map_of (node_Labels node) (term_TopologyKey term) of
     Some topologyValue \<Rightarrow> fmlookup (topologyPairToPods topologyPairs) \<lparr>tp_key = term_TopologyKey term, tp_value = topologyValue\<rparr> \<noteq> None
   | None \<Rightarrow> False)"

definition nodeMatchesAllTopologyTerms :: "topologyPairsMaps \<Rightarrow> Node \<Rightarrow> PodAffinityTerm list \<Rightarrow> bool" where
  "nodeMatchesAllTopologyTerms topologyPairs node terms = list_all (term_pair_present topologyPairs node) terms"

definition nodeMatchesAnyTopologyTerm :: "topologyPairsMaps \<Rightarrow> Node \<Rightarrow> PodAffinityTerm list \<Rightarrow> bool" where
  "nodeMatchesAnyTopologyTerm topologyPairs node terms = list_ex (term_pair_present topologyPairs node) terms"

text \<open>With metadata.\<close>

definition affinity_by_metadata :: "k8s \<Rightarrow> Pod \<Rightarrow> predicateMetadata \<Rightarrow> Node \<Rightarrow> Affinity \<Rightarrow> failure" where
  "affinity_by_metadata L pod predicateMeta node affinity =
     (let affinityTerms = GetPodAffinityTerms (PodAffinity affinity);
          antiAffinityTerms = GetPodAntiAffinityTerms (PodAntiAffinity affinity);
          am = topologyPairsPotentialAffinityPods predicateMeta
      in if affinityTerms \<noteq> [] \<and> \<not> nodeMatchesAllTopologyTerms am node affinityTerms \<and>
            \<not> (topologyPairToPods am = fmempty \<and> targetPodMatchesAffinityOfPod L pod pod)
         then Some (ErrPodAffinityRulesNotMatch, None)
         else if antiAffinityTerms \<noteq> [] \<and> nodeMatchesAnyTopologyTerm (topologyPairsPotentialAntiAffinityPods predicateMeta) node antiAffinityTerms
         then Some (ErrPodAntiAffinityRulesNotMatch, None)
         else None)"

text \<open>Without: the loop over all pods, with the variables \<open>matchFound\<close> and \<open>termsSelectorMatchFound\<close>.\<close>

fun slow_pods ::
  "k8s \<Rightarrow> (string \<Rightarrow> lister_error + Node) \<Rightarrow> Pod \<Rightarrow> Node \<Rightarrow> PodAffinityTerm list \<Rightarrow> PodAffinityTerm list \<Rightarrow> Pod list \<Rightarrow> bool \<times> bool \<Rightarrow>
   (PredicateFailureReason \<times> string option) + bool \<times> bool" where
  "slow_pods L GetNodeInfo pod node affinityTerms antiAffinityTerms [] s = Inr s"
| "slow_pods L GetNodeInfo pod node affinityTerms antiAffinityTerms (targetPod # rest) (matchFound, selectorMatchFound) =
     (let aff = (if \<not> matchFound \<and> affinityTerms \<noteq> []
            then podMatchesPodAffinityTerms L GetNodeInfo pod targetPod node affinityTerms else Inr (False, False))
      in case aff of
           Inl err \<Rightarrow> Inl (ErrPodAffinityRulesNotMatch, Some err)
         | Inr (affTermsMatch, termsSelectorMatch) \<Rightarrow>
            (let s1 = (matchFound \<or> affTermsMatch, selectorMatchFound \<or> termsSelectorMatch);
                 anti = (if antiAffinityTerms \<noteq> []
                   then podMatchesPodAffinityTerms L GetNodeInfo pod targetPod node antiAffinityTerms else Inr (False, False))
             in if (case anti of Inl err \<Rightarrow> True | Inr (antiAffTermsMatch, _) \<Rightarrow> antiAffTermsMatch)
                then Inl (ErrPodAntiAffinityRulesNotMatch, None)
                else slow_pods L GetNodeInfo pod node affinityTerms antiAffinityTerms rest s1))"

definition affinity_by_listing :: "k8s \<Rightarrow> PodAffinityChecker \<Rightarrow> Pod \<Rightarrow> NodeInfo option \<Rightarrow> Node \<Rightarrow> Affinity \<Rightarrow> failure" where
  "affinity_by_listing L c pod nodeInfo node affinity = (case checker_FilteredList c (node_filter nodeInfo) of
     Inl err \<Rightarrow> Some (ErrPodAffinityRulesNotMatch, Some err)
   | Inr filteredPods \<Rightarrow>
      (let affinityTerms = GetPodAffinityTerms (PodAffinity affinity);
           antiAffinityTerms = GetPodAntiAffinityTerms (PodAntiAffinity affinity)
       in case slow_pods L (checker_GetNodeInfo c) pod node affinityTerms antiAffinityTerms filteredPods (False, False) of
            Inl failed \<Rightarrow> Some failed
          | Inr (matchFound, termsSelectorMatchFound) \<Rightarrow>
              if \<not> matchFound \<and> affinityTerms \<noteq> []
              then (if termsSelectorMatchFound \<or> \<not> targetPodMatchesAffinityOfPod L pod pod
                    then Some (ErrPodAffinityRulesNotMatch, None) else None)
              else None))"

definition satisfiesPodsAffinityAntiAffinity ::
  "k8s \<Rightarrow> PodAffinityChecker \<Rightarrow> Pod \<Rightarrow> predicateMetadata option \<Rightarrow> NodeInfo option \<Rightarrow> Affinity \<Rightarrow> failure" where
  "satisfiesPodsAffinityAntiAffinity L c pod meta nodeInfo affinity = (case NodeInfo_Node nodeInfo of
     None \<Rightarrow> Some (ErrPodAffinityRulesNotMatch, Some ''Node is nil'')
   | Some node \<Rightarrow> (case meta of
       Some predicateMeta \<Rightarrow> affinity_by_metadata L pod predicateMeta node affinity
     | None \<Rightarrow> affinity_by_listing L c pod nodeInfo node affinity))"

definition failed :: "PredicateFailureReason \<times> string option \<Rightarrow> fit_result" where
  "failed f = (case snd f of Some err \<Rightarrow> Inl err | None \<Rightarrow> Inr (False, [ErrPodAffinityNotMatch, fst f]))"

definition InterPodAffinityMatches :: "k8s \<Rightarrow> PodAffinityChecker \<Rightarrow> predicateMetadata FitPredicate" where
  "InterPodAffinityMatches L c pod meta nodeInfo = (case NodeInfo_Node nodeInfo of
     None \<Rightarrow> node_not_found
   | Some node \<Rightarrow> (case satisfiesExistingPodsAntiAffinity L c pod meta nodeInfo of
       Some f \<Rightarrow> failed f
     | None \<Rightarrow> (case pod_Affinity pod of
         None \<Rightarrow> Inr (True, [])
       | Some affinity \<Rightarrow>
           if PodAffinity affinity = None \<and> PodAntiAffinity affinity = None then Inr (True, [])
           else (case satisfiesPodsAffinityAntiAffinity L c pod meta nodeInfo affinity of
             Some f \<Rightarrow> failed f
           | None \<Rightarrow> Inr (True, [])))))"

subsection \<open>Service affinity\<close>

definition FindLabelsInSet :: "string list \<Rightarrow> labels \<Rightarrow> labels" where
  "FindLabelsInSet labelsToKeep selector =
     fold (\<lambda>l aL. case map_of selector l of Some v \<Rightarrow> AList.update l v aL | None \<Rightarrow> aL) labelsToKeep []"

definition AddUnsetLabelsToMap :: "labels \<Rightarrow> string list \<Rightarrow> labels \<Rightarrow> labels" where
  "AddUnsetLabelsToMap aL labelsToAdd labelSet =
     fold (\<lambda>l aL. if map_of aL l \<noteq> None then aL
        else case map_of labelSet l of Some v \<Rightarrow> AList.update l v aL | None \<Rightarrow> aL) labelsToAdd aL"

definition FilterPodsByNamespace :: "Pod list \<Rightarrow> string \<Rightarrow> Pod list" where
  "FilterPodsByNamespace pods ns = filter (\<lambda>nsPod. pod_Namespace nsPod = ns) pods"

text \<open>The listers return a value together with an error, which only leads to a log message.\<close>

record ServiceAffinity =
  sa_List :: "(labels \<Rightarrow> bool) \<Rightarrow> Pod list \<times> string option"
  sa_GetPodServices :: "Pod \<Rightarrow> Service list option \<times> string option"
  sa_GetNodeInfo :: "string \<Rightarrow> lister_error + Node"
  sa_labels :: "string list"

definition serviceAffinityMetadataProducer :: "k8s \<Rightarrow> ServiceAffinity \<Rightarrow> predicateMetadata \<Rightarrow> predicateMetadata" where
  "serviceAffinityMetadataProducer L s pm =
     (let selector = CreateSelectorFromLabels L (pod_Labels (meta_pod pm));
          (allMatches, errList) = sa_List s selector
      in pm\<lparr>serviceAffinityInUse := True,
            serviceAffinityMatchingPodServices := fst (sa_GetPodServices s (meta_pod pm)),
            serviceAffinityMatchingPodList := Some (FilterPodsByNamespace allMatches (pod_Namespace (meta_pod pm)))\<rparr>)"

definition pod_metadata :: "Pod \<Rightarrow> predicateMetadata" where
  "pod_metadata pod = \<lparr>meta_pod = pod, podBestEffort = False, podRequest = emptyResource, podPorts = [],
     topologyPairsAntiAffinityPodsMap = newTopologyPairsMaps, topologyPairsPotentialAffinityPods = newTopologyPairsMaps,
     topologyPairsPotentialAntiAffinityPods = newTopologyPairsMaps, serviceAffinityInUse = False,
     serviceAffinityMatchingPodList = None, serviceAffinityMatchingPodServices = None, ignoredExtendedResources = None\<rparr>"

text \<open>The metadata that the service affinity is checked with: given, or, if it has no lists, made for the purpose.\<close>

definition service_metadata :: "k8s \<Rightarrow> ServiceAffinity \<Rightarrow> Pod \<Rightarrow> predicateMetadata option \<Rightarrow> predicateMetadata" where
  "service_metadata L s pod meta = (case meta of
     Some pm \<Rightarrow>
       if serviceAffinityMatchingPodList pm \<noteq> None \<or> serviceAffinityMatchingPodServices pm \<noteq> None then pm
       else serviceAffinityMetadataProducer L s (pod_metadata pod)
   | None \<Rightarrow> serviceAffinityMetadataProducer L s (pod_metadata pod))"

definition checkServiceAffinity :: "k8s \<Rightarrow> ServiceAffinity \<Rightarrow> predicateMetadata FitPredicate" where
  "checkServiceAffinity L s pod meta nodeInfo =
     (let pm = service_metadata L s pod meta;
          services = case_option [] id (serviceAffinityMatchingPodServices pm);
          pods = case_option [] id (serviceAffinityMatchingPodList pm);
          filteredPods = (case nodeInfo of None \<Rightarrow> pods | Some i \<Rightarrow> FilterOutPods i pods)
      in case NodeInfo_Node nodeInfo of
           None \<Rightarrow> node_not_found
         | Some node \<Rightarrow>
            (let affinityLabels = FindLabelsInSet (sa_labels s) (pod_NodeSelector pod);
                 verdict = (\<lambda>labels. if CreateSelectorFromLabels L labels (node_Labels node) then Inr (True, []) else Inr (False, [ErrServiceAffinityViolated]))
             in if length (sa_labels s) > length affinityLabels \<and> services \<noteq> [] \<and> filteredPods \<noteq> []
                then (case sa_GetNodeInfo s (pod_NodeName (hd filteredPods)) of
                   Inl err \<Rightarrow> Inl ''no node''
                 | Inr nodeWithAffinityLabels \<Rightarrow> verdict (AddUnsetLabelsToMap affinityLabels (sa_labels s) (node_Labels nodeWithAffinityLabels)))
                else verdict affinityLabels))"

end
