(* ===== verification/Metadata_Properties.thy ===== *)
theory Metadata_Properties
  imports Pod_Affinity Predicate_Properties Generic_Scheduler
begin

text \<open>
  What the metadata of a pod means. The pods that are placed on nodes are a set \<open>P\<close> of pairs of a node and a pod; the three maps of
  topology pairs are functions of \<open>P\<close> that are stated with the terms of the pods, without the maps. The relation \<open>is_metadata\<close>
  says that a metadata value is that of \<open>P\<close>, and determines it. \<open>GetMetadata\<close> establishes it, \<open>AddPod\<close> and \<open>RemovePod\<close> keep
  it for the changed set when the change is one that \<open>followed\<close> describes, so that the metadata of such a trial is the one that would be computed
  afresh. Two lemmas at the end show what happens outside these changes.
\<close>

subsection \<open>The predicates explain their verdict\<close>

interpretation inter_pod: fit_predicate "InterPodAffinityMatches L c" for L c
  by unfold_locales (auto simp: InterPodAffinityMatches_def node_not_found_def failed_def split: option.splits if_splits)

interpretation service: fit_predicate "checkServiceAffinity L s" for L s
  by unfold_locales (auto simp: checkServiceAffinity_def node_not_found_def Let_def split: option.splits if_splits sum.splits)

subsection \<open>Terms\<close>

definition required_terms :: "Pod \<Rightarrow> PodAffinityTerm list" where
  "required_terms pod = (case pod_Affinity pod of None \<Rightarrow> [] | Some a \<Rightarrow> GetPodAffinityTerms (PodAffinity a))"

definition anti_terms :: "Pod \<Rightarrow> PodAffinityTerm list" where
  "anti_terms pod = (case pod_Affinity pod of None \<Rightarrow> [] | Some a \<Rightarrow> GetPodAntiAffinityTerms (PodAntiAffinity a))"

definition valid_terms :: "k8s \<Rightarrow> PodAffinityTerm list \<Rightarrow> bool" where
  "valid_terms L ts \<longleftrightarrow> (\<forall>t \<in> set ts. LabelSelectorAsSelector L (term_LabelSelector t) \<noteq> None)"

text \<open>A term of the pod \<open>owner\<close> matches the pod \<open>p\<close>.\<close>

definition term_matches :: "k8s \<Rightarrow> Pod \<Rightarrow> PodAffinityTerm \<Rightarrow> Pod \<Rightarrow> bool" where
  "term_matches L owner t p \<longleftrightarrow> pod_Namespace p \<in> set (GetNamespacesFromPodAffinityTerm owner t) \<and>
     (\<exists>sel. LabelSelectorAsSelector L (term_LabelSelector t) = Some sel \<and> sel (pod_Labels p))"

definition pair_of :: "Node \<Rightarrow> PodAffinityTerm \<Rightarrow> topologyPair option" where
  "pair_of node t = map_option (\<lambda>v. \<lparr>tp_key = term_TopologyKey t, tp_value = v\<rparr>) (map_of (node_Labels node) (term_TopologyKey t))"

lemma valid_terms_simps [simp]:
  "valid_terms L []"
  "valid_terms L (t # ts) \<longleftrightarrow> LabelSelectorAsSelector L (term_LabelSelector t) \<noteq> None \<and> valid_terms L ts"
  "valid_terms L (ts @ us) \<longleftrightarrow> valid_terms L ts \<and> valid_terms L us"
  by (auto simp: valid_terms_def)

lemma pod_matches_term:
  "LabelSelectorAsSelector L (term_LabelSelector t) = Some sel \<Longrightarrow>
   pod_matches p (GetNamespacesFromPodAffinityTerm owner t) sel \<longleftrightarrow> term_matches L owner t p"
  by (simp add: pod_matches_def PodMatchesTermsNamespaceAndSelector_def term_matches_def)

lemma properties_of_terms:
  assumes "valid_terms L ts"
  obtains ps where "getAffinityTermProperties L pod ts = Some ps"
    "\<And>p. podMatchesAllAffinityTermProperties p ps \<longleftrightarrow> ts \<noteq> [] \<and> (\<forall>t \<in> set ts. term_matches L pod t p)"
    "\<And>p. podMatchesAnyAffinityTermProperties p ps \<longleftrightarrow> (\<exists>t \<in> set ts. term_matches L pod t p)"
proof -
  let ?m = "\<lambda>p q. pod_matches p (prop_namespaces q) (prop_selector q)"
  have "\<exists>ps. getAffinityTermProperties L pod ts = Some ps \<and> length ps = length ts \<and>
      (\<forall>p. (list_all (?m p) ps \<longleftrightarrow> (\<forall>t \<in> set ts. term_matches L pod t p)) \<and> (list_ex (?m p) ps \<longleftrightarrow> (\<exists>t \<in> set ts. term_matches L pod t p)))"
    using assms by (induction ts) (auto simp: pod_matches_term)
  then obtain ps where ps: "getAffinityTermProperties L pod ts = Some ps" "length ps = length ts"
    "\<And>p. list_all (?m p) ps \<longleftrightarrow> (\<forall>t \<in> set ts. term_matches L pod t p)" "\<And>p. list_ex (?m p) ps \<longleftrightarrow> (\<exists>t \<in> set ts. term_matches L pod t p)"
    by blast
  show thesis
  proof (rule that[OF ps(1)])
    show "podMatchesAllAffinityTermProperties p ps \<longleftrightarrow> ts \<noteq> [] \<and> (\<forall>t \<in> set ts. term_matches L pod t p)" for p
      using ps(2,3) by (auto simp: podMatchesAllAffinityTermProperties_def)
    show "podMatchesAnyAffinityTermProperties p ps \<longleftrightarrow> (\<exists>t \<in> set ts. term_matches L pod t p)" for p
      using ps(2,4) by (auto simp: podMatchesAnyAffinityTermProperties_def)
  qed
qed

lemma targetPod_terms:
  assumes "valid_terms L (required_terms pod)"
  shows "targetPodMatchesAffinityOfPod L pod p \<longleftrightarrow> required_terms pod \<noteq> [] \<and> (\<forall>t \<in> set (required_terms pod). term_matches L pod t p)"
  using assms by (auto simp: targetPodMatchesAffinityOfPod_def required_terms_def GetPodAffinityTerms_def
      elim!: properties_of_terms[of L _ pod] split: option.splits)

lemma targetPod_anti_terms:
  assumes "valid_terms L (anti_terms pod)"
  shows "targetPodMatchesAntiAffinityOfPod L pod p \<longleftrightarrow> (\<exists>t \<in> set (anti_terms pod). term_matches L pod t p)"
  using assms by (auto simp: targetPodMatchesAntiAffinityOfPod_def anti_terms_def GetPodAntiAffinityTerms_def
      elim!: properties_of_terms[of L _ pod] split: option.splits)

subsection \<open>Maps of one pod\<close>

text \<open>A map that holds exactly the given relation.\<close>

definition holds :: "topologyPairsMaps \<Rightarrow> (topologyPair \<times> Pod) set \<Rightarrow> bool" where
  "holds m E \<longleftrightarrow> tp_inv m \<and> tp_entries m = E"

lemma holds_unique: "holds m E \<Longrightarrow> holds m' E \<Longrightarrow> m = m'"
  by (auto simp: holds_def intro: tp_ext)

lemma holds_new [simp]: "holds newTopologyPairsMaps {}"
  by (simp add: holds_def)

lemma holds_append:
  "holds m E \<Longrightarrow> holds a F \<Longrightarrow> holds (appendMaps m (Some a)) (E \<union> F)"
  by (simp add: holds_def tp_inv_append entries_append)

lemma holds_term_pair: "holds m E \<Longrightarrow> holds (add_term_pair node p t m) (E \<union> {(pair, p) |pair. pair_of node t = Some pair})"
  by (auto simp: holds_def add_term_pair_def pair_of_def tp_inv_add entries_add split: option.splits)

lemma holds_term_pairs:
  "holds m E \<Longrightarrow> holds (fold (add_term_pair node p) ts m) (E \<union> {(pair, p) |pair. \<exists>t \<in> set ts. pair_of node t = Some pair})"
proof (induction ts arbitrary: m E)
  case (Cons t ts)
  from Cons.IH[OF holds_term_pair[OF Cons.prems, of node p t]] show ?case by (auto simp: holds_def)
qed simp

lemma holds_empty_iff: "holds m E \<Longrightarrow> topologyPairToPods m = fmempty \<longleftrightarrow> E = {}"
proof
  assume h: "holds m E" "E = {}"
  then have "pods_at m pair = {||}" for pair unfolding holds_def tp_entries_def by fastforce
  then show "topologyPairToPods m = fmempty" using h lookup_pods_at[of m] by (intro fmap_ext) (auto simp: holds_def)
qed (auto simp: holds_def tp_entries_def pods_at_def)

lemma holds_lookup: "holds m E \<Longrightarrow> fmlookup (topologyPairToPods m) pair \<noteq> None \<longleftrightarrow> (\<exists>p. (pair, p) \<in> E)"
  using lookup_entries by (fastforce simp: holds_def)

lemma holds_remove:
  assumes "holds m E" "\<And>e. e \<in> E \<Longrightarrow> GetPodFullName (snd e) = GetPodFullName p \<Longrightarrow> snd e = p"
  shows "holds (removePod_tp p m) {e \<in> E. snd e \<noteq> p}"
  using assms by (auto simp: holds_def entries_remove intro!: tp_inv_remove)

subsection \<open>The pairs of a placed pod\<close>

type_synonym placement = "Node \<times> Pod"

text \<open>Pairs of anti-affinity terms of the placed pod that match the pod, pairs of the pod's affinity terms if the placed pod matches all of
  them, and pairs of the pod's anti-affinity terms that match the placed pod.\<close>

definition repelling :: "k8s \<Rightarrow> Pod \<Rightarrow> placement \<Rightarrow> topologyPair set" where
  "repelling L pod x = {pair. \<exists>t \<in> set (anti_terms (snd x)). term_matches L (snd x) t pod \<and> pair_of (fst x) t = Some pair}"

definition attracting :: "k8s \<Rightarrow> Pod \<Rightarrow> placement \<Rightarrow> topologyPair set" where
  "attracting L pod x = {pair. (\<forall>t \<in> set (required_terms pod). term_matches L pod t (snd x)) \<and>
     (\<exists>t \<in> set (required_terms pod). pair_of (fst x) t = Some pair)}"

definition repelled :: "k8s \<Rightarrow> Pod \<Rightarrow> placement \<Rightarrow> topologyPair set" where
  "repelled L pod x = {pair. \<exists>t \<in> set (anti_terms pod). term_matches L pod t (snd x) \<and> pair_of (fst x) t = Some pair}"

definition relation :: "(placement \<Rightarrow> topologyPair set) \<Rightarrow> placement set \<Rightarrow> (topologyPair \<times> Pod) set" where
  "relation f P = {(pair, p). \<exists>node. (node, p) \<in> P \<and> pair \<in> f (node, p)}"

lemma in_relation [simp]: "(pair, p) \<in> relation f P \<longleftrightarrow> (\<exists>node. (node, p) \<in> P \<and> pair \<in> f (node, p))"
  by (simp add: relation_def)

lemma relation_simps:
  "relation f {} = {}"
  "relation f (P \<union> Q) = relation f P \<union> relation f Q"
  "relation f (insert x P) = relation f {x} \<union> relation f P"
  "relation f {x \<in> P. snd x \<noteq> p} = {e \<in> relation f P. snd e \<noteq> p}"
  by auto

text \<open>A loop over terms that adds the pairs of those which match.\<close>

lemma matching_fold:
  assumes "\<And>t m. t \<in> set ts \<Longrightarrow> f t m = Some (if M t then add_term_pair node p t m else m)" "holds m E"
  shows "\<exists>m'. foldM f ts m = Some m' \<and> holds m' (E \<union> {(pair, p) |pair. \<exists>t \<in> set ts. M t \<and> pair_of node t = Some pair})"
  using assms
proof (induction ts arbitrary: m E)
  case (Cons t ts)
  let ?m = "if M t then add_term_pair node p t m else m" and ?E = "E \<union> {(pair, p) |pair. M t \<and> pair_of node t = Some pair}"
  have h: "holds ?m ?E" using holds_term_pair[OF Cons.prems(2), of node p t] Cons.prems(2) by auto
  obtain m' where "foldM f ts ?m = Some m'" "holds m' (?E \<union> {(pair, p) |pair. \<exists>t \<in> set ts. M t \<and> pair_of node t = Some pair})"
    using Cons.IH[OF _ h] Cons.prems(1) by auto
  moreover from this(2) have "holds m' (E \<union> {(pair, p) |pair. \<exists>t \<in> set (t # ts). M t \<and> pair_of node t = Some pair})"
    by (rule back_subst[of "holds m'"]) auto
  ultimately show ?case using Cons.prems(1)[of t m] by auto
qed auto

lemma matching_steps:
  assumes "valid_terms L ts" "t \<in> set ts"
  shows "anti_affinity_term L pod p node t m = Some (if term_matches L p t pod then add_term_pair node p t m else m)"
    "incoming_anti_term L pod p node t m = Some (if term_matches L pod t p then add_term_pair node p t m else m)"
proof -
  obtain sel where sel: "LabelSelectorAsSelector L (term_LabelSelector t) = Some sel" using assms by (auto simp: valid_terms_def)
  show "anti_affinity_term L pod p node t m = Some (if term_matches L p t pod then add_term_pair node p t m else m)"
    "incoming_anti_term L pod p node t m = Some (if term_matches L pod t p then add_term_pair node p t m else m)"
    by (simp_all add: anti_affinity_term_def incoming_anti_term_def Let_def sel pod_matches_term[OF sel])
qed

lemma anti_affinity_fold:
  assumes "valid_terms L ts" "holds m E"
  shows "\<exists>m'. foldM (anti_affinity_term L pod p node) ts m = Some m' \<and>
      holds m' (E \<union> {(pair, p) |pair. \<exists>t \<in> set ts. term_matches L p t pod \<and> pair_of node t = Some pair})"
  by (rule matching_fold) (simp_all add: matching_steps[OF assms(1)] assms(2))

lemma incoming_fold:
  assumes "valid_terms L ts" "holds m E"
  shows "\<exists>m'. foldM (incoming_anti_term L pod p node) ts m = Some m' \<and>
      holds m' (E \<union> {(pair, p) |pair. \<exists>t \<in> set ts. term_matches L pod t p \<and> pair_of node t = Some pair})"
  by (rule matching_fold) (simp_all add: matching_steps[OF assms(1)] assms(2))

lemma matching_pairs_of_pod:
  assumes "valid_terms L (anti_terms p)" "holds m E"
  obtains r where "getMatchingAntiAffinityTopologyPairsOfPod L pod p node = Some r"
    "holds (appendMaps m r) (E \<union> relation (repelling L pod) {(node, p)})"
proof (cases "\<exists>a. pod_Affinity p = Some a \<and> PodAntiAffinity a \<noteq> None")
  case True
  then obtain a where a: "pod_Affinity p = Some a" "PodAntiAffinity a \<noteq> None" by auto
  let ?ts = "GetPodAntiAffinityTerms (PodAntiAffinity a)"
  have ts: "anti_terms p = ?ts" by (simp add: anti_terms_def a)
  obtain m' where m': "foldM (anti_affinity_term L pod p node) ?ts newTopologyPairsMaps = Some m'"
      "holds m' ({} \<union> {(pair, p) |pair. \<exists>t \<in> set ?ts. term_matches L p t pod \<and> pair_of node t = Some pair})"
    using anti_affinity_fold[OF assms(1)[unfolded ts] holds_new, of pod p node] by blast
  have "{} \<union> {(pair, p) |pair. \<exists>t \<in> set ?ts. term_matches L p t pod \<and> pair_of node t = Some pair} = relation (repelling L pod) {(node, p)}"
    by (auto simp: repelling_def ts)
  with m' holds_append[OF assms(2) m'(2)] show thesis
    by (intro that[of "Some m'"]) (simp_all add: getMatchingAntiAffinityTopologyPairsOfPod_def a)
next
  case False
  then have "anti_terms p = []" by (auto simp: anti_terms_def GetPodAntiAffinityTerms_def split: option.splits)
  then have "relation (repelling L pod) {(node, p)} = {}" by (auto simp: repelling_def)
  then show thesis using False assms(2)
    by (intro that[of None]) (auto simp: getMatchingAntiAffinityTopologyPairsOfPod_def split: option.splits)
qed

subsection \<open>The map of the existing pods' anti-affinity\<close>

lemma existing_pods_holds:
  assumes "\<forall>p \<in> set ps. valid_terms L (anti_terms p)" "holds m E"
  shows "\<exists>m'. existing_pods L pod node ps (m, err) = (m', err) \<and> holds m' (E \<union> relation (repelling L pod) ({node} \<times> set ps))"
  using assms
proof (induction ps arbitrary: m E)
  case (Cons p ps)
  obtain r where r: "getMatchingAntiAffinityTopologyPairsOfPod L pod p node = Some r"
      "holds (appendMaps m r) (E \<union> relation (repelling L pod) {(node, p)})"
    using matching_pairs_of_pod[OF _ Cons.prems(2), of L p pod node] Cons.prems(1) by auto
  obtain m' where m': "existing_pods L pod node ps (appendMaps m r, err) = (m', err)"
      "holds m' ((E \<union> relation (repelling L pod) {(node, p)}) \<union> relation (repelling L pod) ({node} \<times> set ps))"
    using Cons.IH[OF _ r(2)] Cons.prems(1) by auto
  from this(2) have "holds m' (E \<union> relation (repelling L pod) ({node} \<times> set (p # ps)))"
    by (rule back_subst[of "holds m'"]) auto
  with m' r show ?case by auto
qed (auto simp: relation_def)

text \<open>What is placed on the nodes with the given names, and a cluster without broken objects: its nodes are known, the pods
  with affinity are listed, and the selectors of the terms can be converted.\<close>

definition placed_on :: "node_info_map \<Rightarrow> string set \<Rightarrow> placement set" where
  "placed_on infos N = {(node, p). \<exists>name \<in> N. \<exists>i. fmlookup infos name = Some i \<and> ni_node i = Some node \<and> p \<in> set (ni_pods i)}"

abbreviation placements :: "node_info_map \<Rightarrow> placement set" where
  "placements infos \<equiv> placed_on infos (fset (fmdom infos))"

definition cluster_ok :: "k8s \<Rightarrow> node_info_map \<Rightarrow> bool" where
  "cluster_ok L infos \<longleftrightarrow> (\<forall>name i. fmlookup infos name = Some i \<longrightarrow> ni_node i \<noteq> None \<and>
     set (podsWithAffinity i) = {p \<in> set (ni_pods i). hasPodAffinityConstraints p} \<and>
     (\<forall>p \<in> set (ni_pods i). valid_terms L (anti_terms p)))"

lemma cluster_okE:
  assumes "cluster_ok L infos" "fmlookup infos name = Some i"
  obtains node where "ni_node i = Some node" "set (podsWithAffinity i) = {p \<in> set (ni_pods i). hasPodAffinityConstraints p}"
    "\<forall>p \<in> set (ni_pods i). valid_terms L (anti_terms p)"
  using assms unfolding cluster_ok_def by blast

lemma placed_on_insert:
  "fmlookup infos name = Some i \<Longrightarrow> ni_node i = Some node \<Longrightarrow> placed_on infos (insert name N) = {node} \<times> set (ni_pods i) \<union> placed_on infos N"
  by (auto simp: placed_on_def)

lemma unconstrained_pod: "\<not> hasPodAffinityConstraints p \<Longrightarrow> anti_terms p = []"
  by (auto simp: hasPodAffinityConstraints_def anti_terms_def GetPodAntiAffinityTerms_def split: option.splits)

lemma existing_nodes_hold:
  assumes "cluster_ok L infos" "set ord \<subseteq> fset (fmdom infos)" "holds m E"
  shows "\<exists>m'. fold (existing_node L pod infos) ord (m, None) = (m', None) \<and> holds m' (E \<union> relation (repelling L pod) (placed_on infos (set ord)))"
  using assms(2,3)
proof (induction ord arbitrary: m E)
  case (Cons name ord)
  then obtain i where i: "fmlookup infos name = Some i" by auto
  obtain node where node: "ni_node i = Some node" and pwa: "set (podsWithAffinity i) = {p \<in> set (ni_pods i). hasPodAffinityConstraints p}"
      "\<forall>p \<in> set (ni_pods i). valid_terms L (anti_terms p)"
    by (rule cluster_okE[OF assms(1) i])
  have rel: "relation (repelling L pod) ({node} \<times> set (podsWithAffinity i)) = relation (repelling L pod) ({node} \<times> set (ni_pods i))"
    unfolding pwa(1) by (auto simp: repelling_def) (metis empty_iff list.set(1) unconstrained_pod)
  obtain m1 where m1: "existing_pods L pod node (podsWithAffinity i) (m, None) = (m1, None)"
      "holds m1 (E \<union> relation (repelling L pod) ({node} \<times> set (ni_pods i)))"
    using existing_pods_holds[OF _ Cons.prems(2), of "podsWithAffinity i" L pod node None] pwa rel by auto
  obtain m' where m': "fold (existing_node L pod infos) ord (m1, None) = (m', None)"
      "holds m' ((E \<union> relation (repelling L pod) ({node} \<times> set (ni_pods i))) \<union> relation (repelling L pod) (placed_on infos (set ord)))"
    using Cons.IH[OF _ m1(2)] Cons.prems(1) by auto
  from this(2) have "holds m' (E \<union> relation (repelling L pod) (placed_on infos (set (name # ord))))"
    by (rule back_subst[of "holds m'"]) (simp add: placed_on_insert[OF i node] relation_simps Un_assoc)
  moreover have "existing_node L pod infos name (m, None) = (m1, None)" by (simp add: existing_node_def NodeInfo_Node_def i node m1(1))
  ultimately show ?case using m'(1) by auto
qed (auto simp: placed_on_def relation_def)

subsection \<open>The maps of the pod's own terms\<close>

lemma incoming_pods_hold:
  assumes valid: "valid_terms L anti"
    and props: "\<And>p. podMatchesAllAffinityTermProperties p props \<longleftrightarrow> ts \<noteq> [] \<and> (\<forall>t \<in> set ts. term_matches L pod t p)"
    and terms: "required_terms pod = ts" "anti_terms pod = anti" and h: "holds am E" "holds xm F"
  shows "\<exists>am' xm'. foldM (incoming_pod L pod ts props anti node) ps (am, xm) = Some (am', xm') \<and>
    holds am' (E \<union> relation (attracting L pod) ({node} \<times> set ps)) \<and> holds xm' (F \<union> relation (repelled L pod) ({node} \<times> set ps))"
  using h
proof (induction ps arbitrary: am xm E F)
  case (Cons p ps)
  let ?am = "if podMatchesAllAffinityTermProperties p props then fold (add_term_pair node p) ts am else am"
  have "holds ?am (E \<union> relation (attracting L pod) {(node, p)})"
  proof (cases "podMatchesAllAffinityTermProperties p props")
    case True
    then have "holds ?am (E \<union> {(pair, p) |pair. \<exists>t \<in> set ts. pair_of node t = Some pair})"
      using holds_term_pairs[OF Cons.prems(1), of node p ts] by simp
    then show ?thesis by (rule back_subst[of "holds ?am"]) (use True props in \<open>auto simp: attracting_def terms\<close>)
  next
    case False
    then have "relation (attracting L pod) {(node, p)} = {}" using props[of p] by (auto simp: attracting_def terms)
    with False Cons.prems(1) show ?thesis by simp
  qed
  moreover obtain xm1 where xm1: "foldM (incoming_anti_term L pod p node) anti xm = Some xm1"
      "holds xm1 (F \<union> {(pair, p) |pair. \<exists>t \<in> set anti. term_matches L pod t p \<and> pair_of node t = Some pair})"
    using incoming_fold[OF valid Cons.prems(2), of pod p node] by blast
  moreover from this(2) have "holds xm1 (F \<union> relation (repelled L pod) {(node, p)})"
    by (rule back_subst[of "holds xm1"]) (auto simp: repelled_def terms)
  ultimately obtain am' xm' where m': "foldM (incoming_pod L pod ts props anti node) ps (?am, xm1) = Some (am', xm')"
      "holds am' ((E \<union> relation (attracting L pod) {(node, p)}) \<union> relation (attracting L pod) ({node} \<times> set ps))"
      "holds xm' ((F \<union> relation (repelled L pod) {(node, p)}) \<union> relation (repelled L pod) ({node} \<times> set ps))"
    using Cons.IH by blast
  from m'(2) have "holds am' (E \<union> relation (attracting L pod) ({node} \<times> set (p # ps)))" by (rule back_subst[of "holds am'"]) auto
  moreover from m'(3) have "holds xm' (F \<union> relation (repelled L pod) ({node} \<times> set (p # ps)))" by (rule back_subst[of "holds xm'"]) auto
  moreover have "incoming_pod L pod ts props anti node p (am, xm) = Some (?am, xm1)" by (simp add: incoming_pod_def xm1)
  ultimately show ?case using m'(1) by auto
qed (auto simp: relation_def)

lemma append_if_any:
  assumes "holds m E" "holds a F"
  shows "holds (if topologyPairToPods a \<noteq> fmempty then appendMaps m (Some a) else m) (E \<union> F)"
  using holds_append[OF assms] assms(1) holds_empty_iff[OF assms(2)] by auto

lemma incoming_nodes_hold:
  assumes ok: "cluster_ok L infos" and valid: "valid_terms L anti"
    and props: "\<And>p. podMatchesAllAffinityTermProperties p props \<longleftrightarrow> ts \<noteq> [] \<and> (\<forall>t \<in> set ts. term_matches L pod t p)"
    and terms: "required_terms pod = ts" "anti_terms pod = anti"
    and h: "set ord \<subseteq> fset (fmdom infos)" "holds am E" "holds xm F"
  shows "\<exists>am' xm'. fold (incoming_node L pod ts props anti infos) ord ((am, xm), None) = ((am', xm'), None) \<and>
    holds am' (E \<union> relation (attracting L pod) (placed_on infos (set ord))) \<and> holds xm' (F \<union> relation (repelled L pod) (placed_on infos (set ord)))"
  using h
proof (induction ord arbitrary: am xm E F)
  case (Cons name ord)
  then obtain i where i: "fmlookup infos name = Some i" by auto
  obtain node where node: "ni_node i = Some node" by (rule cluster_okE[OF ok i])
  let ?A = "relation (attracting L pod) ({node} \<times> set (ni_pods i))" and ?X = "relation (repelled L pod) ({node} \<times> set (ni_pods i))"
  obtain a x where ax: "foldM (incoming_pod L pod ts props anti node) (ni_pods i) (newTopologyPairsMaps, newTopologyPairsMaps) = Some (a, x)"
      "holds a ({} \<union> ?A)" "holds x ({} \<union> ?X)"
    using incoming_pods_hold[OF valid props terms holds_new holds_new] by blast
  let ?am = "if topologyPairToPods a \<noteq> fmempty then appendMaps am (Some a) else am" and ?xm = "if topologyPairToPods x \<noteq> fmempty then appendMaps xm (Some x) else xm"
  have hs: "holds ?am (E \<union> ?A)" "holds ?xm (F \<union> ?X)"
    using append_if_any[OF Cons.prems(2) ax(2)] append_if_any[OF Cons.prems(3) ax(3)] by simp_all
  have step: "incoming_node L pod ts props anti infos name ((am, xm), None) = ((?am, ?xm), None)"
    by (simp add: incoming_node_def NodeInfo_Node_def NodeInfo_Pods_def i node ax(1) appendResult_def)
  obtain am' xm' where m': "fold (incoming_node L pod ts props anti infos) ord ((?am, ?xm), None) = ((am', xm'), None)"
      "holds am' ((E \<union> ?A) \<union> relation (attracting L pod) (placed_on infos (set ord)))"
      "holds xm' ((F \<union> ?X) \<union> relation (repelled L pod) (placed_on infos (set ord)))"
    using Cons.IH[OF _ hs] Cons.prems(1) by auto
  from m'(2) have "holds am' (E \<union> relation (attracting L pod) (placed_on infos (set (name # ord))))"
    by (rule back_subst[of "holds am'"]) (simp add: placed_on_insert[OF i node] relation_simps Un_assoc)
  moreover from m'(3) have "holds xm' (F \<union> relation (repelled L pod) (placed_on infos (set (name # ord))))"
    by (rule back_subst[of "holds xm'"]) (simp add: placed_on_insert[OF i node] relation_simps Un_assoc)
  ultimately show ?case using m'(1) step by auto
qed (auto simp: placed_on_def relation_def)

subsection \<open>The metadata of a set of placed pods\<close>

text \<open>\<open>ignored\<close> lists the sets of extended resources of the registered producers.\<close>

definition is_metadata :: "k8s \<Rightarrow> string fset option list \<Rightarrow> Pod \<Rightarrow> placement set \<Rightarrow> predicateMetadata \<Rightarrow> bool" where
  "is_metadata L ignored pod P m \<longleftrightarrow>
     meta_pod m = pod \<and> podBestEffort m = isPodBestEffort L pod \<and> podRequest m = GetResourceRequest L pod \<and>
     podPorts m = GetContainerPorts [pod] \<and>
     holds (topologyPairsAntiAffinityPodsMap m) (relation (repelling L pod) P) \<and>
     holds (topologyPairsPotentialAffinityPods m) (relation (attracting L pod) P) \<and>
     holds (topologyPairsPotentialAntiAffinityPods m) (relation (repelled L pod) P) \<and>
     \<not> serviceAffinityInUse m \<and> serviceAffinityMatchingPodList m = None \<and> serviceAffinityMatchingPodServices m = None \<and>
     ignoredExtendedResources m = (if ignored = [] then None else last ignored)"

lemma is_metadata_unique: "is_metadata L ignored pod P m \<Longrightarrow> is_metadata L ignored pod P m' \<Longrightarrow> m = m'"
  by (intro predicateMetadata.equality) (auto simp: is_metadata_def dest: holds_unique)

lemma producers_ignored:
  "fold (\<lambda>f. f) (map extendedResourceProducer ignored) m = (if ignored = [] then m else m\<lparr>ignoredExtendedResources := last ignored\<rparr>)"
  by (induction ignored arbitrary: m) (auto simp: extendedResourceProducer_def)

definition own_terms_ok :: "k8s \<Rightarrow> Pod \<Rightarrow> bool" where
  "own_terms_ok L pod \<longleftrightarrow> valid_terms L (required_terms pod) \<and> valid_terms L (anti_terms pod)"

lemma no_own_terms:
  assumes "\<not> hasPodAffinityConstraints pod"
  shows "relation (attracting L pod) P = {}" "relation (repelled L pod) P = {}"
proof -
  have "required_terms pod = []" "anti_terms pod = []" using assms
    by (auto simp: hasPodAffinityConstraints_def required_terms_def anti_terms_def GetPodAffinityTerms_def GetPodAntiAffinityTerms_def split: option.splits)
  then show "relation (attracting L pod) P = {}" "relation (repelled L pod) P = {}" by (auto simp: attracting_def repelled_def)
qed

lemma incoming_maps_hold:
  assumes ok: "cluster_ok L infos" "own_terms_ok L pod" and ord: "set ord = fset (fmdom infos)"
  obtains am xm where "getTPMapMatchingIncomingAffinityAntiAffinity L ord pod infos = ((am, xm), None)"
    "holds am (relation (attracting L pod) (placements infos))" "holds xm (relation (repelled L pod) (placements infos))"
proof (cases "hasPodAffinityConstraints pod")
  case True
  then obtain a where a: "pod_Affinity pod = Some a" "PodAffinity a \<noteq> None \<or> PodAntiAffinity a \<noteq> None"
    by (auto simp: hasPodAffinityConstraints_def split: option.splits)
  have ts: "required_terms pod = GetPodAffinityTerms (PodAffinity a)" "anti_terms pod = GetPodAntiAffinityTerms (PodAntiAffinity a)"
    by (simp_all add: required_terms_def anti_terms_def a)
  obtain ps where ps: "getAffinityTermProperties L pod (required_terms pod) = Some ps"
      "\<And>p. podMatchesAllAffinityTermProperties p ps \<longleftrightarrow> required_terms pod \<noteq> [] \<and> (\<forall>t \<in> set (required_terms pod). term_matches L pod t p)"
    using ok(2) by (auto simp: own_terms_ok_def elim: properties_of_terms[of L _ pod])
  obtain am xm where "fold (incoming_node L pod (required_terms pod) ps (anti_terms pod) infos) ord
        ((newTopologyPairsMaps, newTopologyPairsMaps), None) = ((am, xm), None)"
      "holds am ({} \<union> relation (attracting L pod) (placements infos))" "holds xm ({} \<union> relation (repelled L pod) (placements infos))"
    using incoming_nodes_hold[OF ok(1) _ ps(2) refl refl _ holds_new holds_new, of ord] ok(2) ord by (auto simp: own_terms_ok_def)
  then show thesis using ps(1) a(2)
    by (intro that[of am xm]) (auto simp: getTPMapMatchingIncomingAffinityAntiAffinity_def a(1) ts)
next
  case False
  then show thesis using no_own_terms[OF False]
    by (intro that[of newTopologyPairsMaps newTopologyPairsMaps])
      (auto simp: getTPMapMatchingIncomingAffinityAntiAffinity_def hasPodAffinityConstraints_def split: option.splits)
qed

lemma GetMetadata_is:
  assumes ok: "cluster_ok L infos" "own_terms_ok L pod" and ord: "set ord1 = fset (fmdom infos)" "set ord2 = fset (fmdom infos)"
  obtains m where "GetMetadata L (map extendedResourceProducer ignored) ord1 ord2 pod infos = Some m" "is_metadata L ignored pod (placements infos) m"
proof -
  obtain em where e: "getTPMapMatchingExistingAntiAffinity L ord1 pod infos = (em, None)" "holds em ({} \<union> relation (repelling L pod) (placements infos))"
    using existing_nodes_hold[OF ok(1) _ holds_new, of ord1 pod] ord(1) by (auto simp: getTPMapMatchingExistingAntiAffinity_def)
  obtain am xm where i: "getTPMapMatchingIncomingAffinityAntiAffinity L ord2 pod infos = ((am, xm), None)"
    "holds am (relation (attracting L pod) (placements infos))" "holds xm (relation (repelled L pod) (placements infos))"
    by (rule incoming_maps_hold[OF ok ord(2)])
  show thesis using e i
    by (intro that[OF _ iffD2[OF is_metadata_def]]) (auto simp: GetMetadata_def producers_ignored)
qed

subsection \<open>Following changes of the placement\<close>

datatype trial = TryAdd NodeInfo Pod | TryRemove Pod

text \<open>What a client of the metadata may rely on: each operation leads from the metadata of a placement to that of
  the changed placement, as long as the change is one that the operation can follow.\<close>

fun track :: "placement set \<Rightarrow> trial \<Rightarrow> placement set" where
  "track P (TryAdd info p) = (case ni_node info of None \<Rightarrow> P | Some node \<Rightarrow> insert (node, p) P)"
| "track P (TryRemove p) = {x \<in> P. snd x \<noteq> p}"

fun try_meta :: "'m PredicateMetadata \<Rightarrow> 'm \<Rightarrow> trial \<Rightarrow> 'm" where
  "try_meta M m (TryAdd info p) = meta_AddPod M p info m"
| "try_meta M m (TryRemove p) = meta_RemovePod M p m"

fun all_allowed :: "(placement set \<Rightarrow> trial \<Rightarrow> bool) \<Rightarrow> placement set \<Rightarrow> trial list \<Rightarrow> bool" where
  "all_allowed ok P [] \<longleftrightarrow> True"
| "all_allowed ok P (x # xs) \<longleftrightarrow> ok P x \<and> all_allowed ok (track P x) xs"

locale incremental_metadata =
  fixes is_meta :: "placement set \<Rightarrow> 'm \<Rightarrow> bool" and M :: "'m PredicateMetadata" and allowed :: "placement set \<Rightarrow> trial \<Rightarrow> bool"
  assumes unique: "is_meta P m \<Longrightarrow> is_meta P m' \<Longrightarrow> m = m'"
    and copy: "is_meta P m \<Longrightarrow> ShallowCopy M m = m"
    and step: "is_meta P m \<Longrightarrow> allowed P x \<Longrightarrow> is_meta (track P x) (try_meta M m x)"
begin

lemma follows: "is_meta P m \<Longrightarrow> all_allowed allowed P xs \<Longrightarrow> is_meta (foldl track P xs) (foldl (try_meta M) m xs)"
  by (induction xs arbitrary: P m) (auto dest: step)

lemma fresh: "is_meta P m \<Longrightarrow> all_allowed allowed P xs \<Longrightarrow> is_meta (foldl track P xs) m' \<Longrightarrow> foldl (try_meta M) m xs = m'"
  using follows unique by blast

text \<open>A pod that is taken off a node and put back leaves no trace, as when preemption reprieves a victim.\<close>

lemma reprieve:
  assumes m: "is_meta P m" and node: "ni_node info = Some node" "(node, p) \<in> P" "\<And>n. (n, p) \<in> P \<Longrightarrow> n = node"
    and ok: "allowed P (TryRemove p)" "allowed (track P (TryRemove p)) (TryAdd info p)"
  shows "meta_AddPod M p info (meta_RemovePod M p m) = m"
proof -
  have "x \<in> foldl track P [TryRemove p, TryAdd info p] \<longleftrightarrow> x \<in> P" for x
    using node(2) node(3)[of "fst x"] by (cases x) (auto simp: node(1))
  then have "foldl track P [TryRemove p, TryAdd info p] = P" by blast
  with fresh[OF m, of "[TryRemove p, TryAdd info p]" m] ok m show ?thesis by simp
qed

end

definition predicateMetadata_ops :: "k8s \<Rightarrow> predicateMetadata PredicateMetadata" where
  "predicateMetadata_ops L = \<lparr>ShallowCopy = predicateMetadata_ShallowCopy,
     meta_AddPod = (\<lambda>p info m. fst (predicateMetadata_AddPod L p (Some info) m)),
     meta_RemovePod = (\<lambda>p m. fst (predicateMetadata_RemovePod p m))\<rparr>"

text \<open>The changes that the metadata of a pod can follow. The changed pod is not the pod itself. An added pod is assigned to a node if the
  pod has affinity, and matches all of the pod's anti-affinity terms or none of them.\<close>

definition followed :: "k8s \<Rightarrow> Pod \<Rightarrow> placement set \<Rightarrow> trial \<Rightarrow> bool" where
  "followed L pod P x = (case x of
     TryRemove p \<Rightarrow> GetPodFullName p \<noteq> GetPodFullName pod \<and> (\<forall>y \<in> P. GetPodFullName (snd y) = GetPodFullName p \<longrightarrow> snd y = p)
   | TryAdd info p \<Rightarrow> GetPodFullName p \<noteq> GetPodFullName pod \<and> ni_node info \<noteq> None \<and> valid_terms L (anti_terms p) \<and>
       own_terms_ok L pod \<and> (pod_Affinity pod \<noteq> None \<longrightarrow> pod_NodeName p \<noteq> []) \<and>
       ((\<exists>t \<in> set (anti_terms pod). term_matches L pod t p) \<longrightarrow> (\<forall>t \<in> set (anti_terms pod). term_matches L pod t p)))"

lemma RemovePod_is:
  assumes m: "is_metadata L ignored pod P m" and ok: "followed L pod P (TryRemove p)"
  shows "is_metadata L ignored pod (track P (TryRemove p)) (fst (predicateMetadata_RemovePod p m))"
proof -
  have h: "holds (removePod_tp p t) (relation f {x \<in> P. snd x \<noteq> p})" if "holds t (relation f P)" for t f
    unfolding relation_simps
  proof (rule holds_remove[OF that])
    show "snd e = p" if "e \<in> relation f P" "GetPodFullName (snd e) = GetPodFullName p" for e
      using that ok by (cases e) (auto simp: followed_def)
  qed
  show ?thesis using m ok by (auto simp: is_metadata_def predicateMetadata_RemovePod_def Let_def followed_def intro: h)
qed

lemma AddPod_own_terms:
  assumes own: "own_terms_ok L pod" "pod_Affinity pod = Some a"
    and all: "(\<exists>t \<in> set (anti_terms pod). term_matches L pod t p) \<longrightarrow> (\<forall>t \<in> set (anti_terms pod). term_matches L pod t p)"
    and h: "holds am (relation (attracting L pod) P)" "holds xm (relation (repelled L pod) P)"
  shows "holds (if targetPodMatchesAffinityOfPod L pod p then fold (add_term_pair node p) (GetPodAffinityTerms (PodAffinity a)) am else am)
      (relation (attracting L pod) (insert (node, p) P))"
    "holds (if targetPodMatchesAntiAffinityOfPod L pod p then fold (add_term_pair node p) (GetPodAntiAffinityTerms (PodAntiAffinity a)) xm else xm)
      (relation (repelled L pod) (insert (node, p) P))"
proof -
  have ts: "GetPodAffinityTerms (PodAffinity a) = required_terms pod" "GetPodAntiAffinityTerms (PodAntiAffinity a) = anti_terms pod"
    by (simp_all add: required_terms_def anti_terms_def own(2))
  have m: "targetPodMatchesAffinityOfPod L pod p \<longleftrightarrow> required_terms pod \<noteq> [] \<and> (\<forall>t \<in> set (required_terms pod). term_matches L pod t p)"
      "targetPodMatchesAntiAffinityOfPod L pod p \<longleftrightarrow> (\<exists>t \<in> set (anti_terms pod). term_matches L pod t p)"
    using own(1) by (simp_all add: own_terms_ok_def targetPod_terms targetPod_anti_terms)
  show "holds (if targetPodMatchesAffinityOfPod L pod p then fold (add_term_pair node p) (GetPodAffinityTerms (PodAffinity a)) am else am)
      (relation (attracting L pod) (insert (node, p) P))"
  proof (cases "targetPodMatchesAffinityOfPod L pod p")
    case True
    from holds_term_pairs[OF h(1), of node p "required_terms pod"] show ?thesis unfolding ts if_P[OF True]
      by (rule back_subst[of "holds _"]) (subst relation_simps(3), use True m(1) in \<open>auto simp: attracting_def\<close>)
  next
    case False
    then have "relation (attracting L pod) (insert (node, p) P) = relation (attracting L pod) P"
      by (subst relation_simps(3), use m(1) in \<open>auto simp: attracting_def\<close>)
    with False h(1) show ?thesis by simp
  qed
  show "holds (if targetPodMatchesAntiAffinityOfPod L pod p then fold (add_term_pair node p) (GetPodAntiAffinityTerms (PodAntiAffinity a)) xm else xm)
      (relation (repelled L pod) (insert (node, p) P))"
  proof (cases "targetPodMatchesAntiAffinityOfPod L pod p")
    case True
    then have every: "\<forall>t \<in> set (anti_terms pod). term_matches L pod t p" using all m(2) by blast
    from holds_term_pairs[OF h(2), of node p "anti_terms pod"] show ?thesis unfolding ts if_P[OF True]
      by (rule back_subst[of "holds _"]) (subst relation_simps(3), use every in \<open>auto simp: repelled_def\<close>)
  next
    case False
    then have "relation (repelled L pod) (insert (node, p) P) = relation (repelled L pod) P"
      by (subst relation_simps(3), use m(2) in \<open>auto simp: repelled_def\<close>)
    with False h(2) show ?thesis by simp
  qed
qed

lemma AddPod_is:
  assumes m: "is_metadata L ignored pod P m" and ok: "followed L pod P (TryAdd info p)"
  shows "is_metadata L ignored pod (track P (TryAdd info p)) (fst (predicateMetadata_AddPod L p (Some info) m))"
proof -
  obtain node where node: "ni_node info = Some node" using ok by (auto simp: followed_def)
  have own: "own_terms_ok L pod" "valid_terms L (anti_terms p)" "GetPodFullName p \<noteq> GetPodFullName pod" "pod_Affinity pod \<noteq> None \<longrightarrow> pod_NodeName p \<noteq> []"
    and all: "(\<exists>t \<in> set (anti_terms pod). term_matches L pod t p) \<longrightarrow> (\<forall>t \<in> set (anti_terms pod). term_matches L pod t p)"
    using ok by (auto simp: followed_def)
  have h: "holds (topologyPairsAntiAffinityPodsMap m) (relation (repelling L pod) P)" "holds (topologyPairsPotentialAffinityPods m) (relation (attracting L pod) P)"
      "holds (topologyPairsPotentialAntiAffinityPods m) (relation (repelled L pod) P)" "meta_pod m = pod" "\<not> serviceAffinityInUse m"
    using m by (simp_all add: is_metadata_def)
  obtain r where r: "getMatchingAntiAffinityTopologyPairsOfPod L pod p node = Some r"
      "holds (appendMaps (topologyPairsAntiAffinityPodsMap m) r) (relation (repelling L pod) P \<union> relation (repelling L pod) {(node, p)})"
    by (rule matching_pairs_of_pod[OF own(2) h(1)])
  have e: "holds (appendMaps (topologyPairsAntiAffinityPodsMap m) r) (relation (repelling L pod) (insert (node, p) P))"
    using r(2) by (subst relation_simps(3)) (simp add: Un_commute)
  show ?thesis
  proof (cases "pod_Affinity pod")
    case None
    then have "\<not> hasPodAffinityConstraints pod" by (simp add: hasPodAffinityConstraints_def)
    note none = no_own_terms[OF this]
    show ?thesis using m r e own(3) None
      by (simp add: predicateMetadata_AddPod_def NodeInfo_Node_def node h is_metadata_def none)
  next
    case (Some a)
    then have "pod_NodeName p \<noteq> []" using own(4) by simp
    then show ?thesis using m r e own(3) Some AddPod_own_terms[OF own(1) Some all h(2,3), of node]
      by (cases "targetPodMatchesAffinityOfPod L pod p"; cases "targetPodMatchesAntiAffinityOfPod L pod p")
        (simp_all add: predicateMetadata_AddPod_def NodeInfo_Node_def node h Let_def is_metadata_def)
  qed
qed

lemma ShallowCopy_is:
  assumes m: "is_metadata L ignored pod P m"
  shows "predicateMetadata_ShallowCopy m = m"
proof (rule is_metadata_unique[OF _ m])
  have h: "holds (appendMaps newTopologyPairsMaps (Some t)) E" if "holds t E" for t E
    using holds_append[OF holds_new that] by simp
  show "is_metadata L ignored pod P (predicateMetadata_ShallowCopy m)"
    using m by (auto simp: is_metadata_def predicateMetadata_ShallowCopy_def copy_slice_def intro: h)
qed

interpretation pm: incremental_metadata "is_metadata L ignored pod" "predicateMetadata_ops L" "followed L pod" for L ignored pod
proof
  fix P m x assume "is_metadata L ignored pod P m" "followed L pod P x"
  then show "is_metadata L ignored pod (track P x) (try_meta (predicateMetadata_ops L) m x)"
    using AddPod_is RemovePod_is by (cases x) (simp_all add: predicateMetadata_ops_def)
qed (auto simp: predicateMetadata_ops_def dest: is_metadata_unique ShallowCopy_is)

subsection \<open>Examples\<close>

text \<open>A node in a zone, a pod that runs there, and a pod that must not share a zone with it.\<close>

definition zone_node :: Node where
  "zone_node = zero_Node\<lparr>node_Name := ''n1'', node_Labels := [(''zone'', ''a'')]\<rparr>"

definition web_pod :: Pod where
  "web_pod = zero_Pod\<lparr>pod_Name := ''web'', pod_UID := ''u1'', pod_Labels := [(''app'', ''web'')], pod_NodeName := ''n1''\<rparr>"

definition web_term :: PodAffinityTerm where
  "web_term = \<lparr>term_LabelSelector = Some \<lparr>MatchLabels = [(''app'', ''web'')], MatchExpressions = []\<rparr>, term_Namespaces = [], term_TopologyKey = ''zone''\<rparr>"

definition shy_pod :: Pod where
  "shy_pod = zero_Pod\<lparr>pod_Name := ''shy'', pod_UID := ''u2'', pod_Affinity := Some \<lparr>NodeAffinity = None, PodAffinity = None, PodAntiAffinity = Some [web_term]\<rparr>\<rparr>"

definition zone_info :: "Pod list \<Rightarrow> NodeInfo" where
  "zone_info ps = (fst (NewNodeInfo example_k8s [] \<lparr>generation = 0, transients = []\<rparr>))
     \<lparr>ni_node := Some zone_node, ni_pods := ps, podsWithAffinity := filter hasPodAffinityConstraints ps\<rparr>"

definition zone_cluster :: "Pod list \<Rightarrow> node_info_map" where
  "zone_cluster ps = fmap_of_list [(''n1'', zone_info ps)]"

lemma zone_info_fields: "ni_node (zone_info ps) = Some zone_node" "ni_pods (zone_info ps) = ps" "podsWithAffinity (zone_info ps) = filter hasPodAffinityConstraints ps"
  by (simp_all add: zone_info_def)

lemma zone_terms:
  "anti_terms shy_pod = [web_term]" "required_terms shy_pod = []" "anti_terms web_pod = []" "required_terms web_pod = []"
  "valid_terms example_k8s [web_term]" "term_matches example_k8s shy_pod web_term web_pod"
  "pair_of zone_node web_term = Some \<lparr>tp_key = ''zone'', tp_value = ''a''\<rparr>"
  by (simp_all add: anti_terms_def required_terms_def shy_pod_def web_pod_def zero_Pod_def GetPodAntiAffinityTerms_def GetPodAffinityTerms_def
      web_term_def example_k8s_def term_matches_def GetNamespacesFromPodAffinityTerm_def pair_of_def zone_node_def zero_Node_def)

lemma zone_cluster_ok:
  assumes "set ps \<subseteq> {web_pod, shy_pod}"
  shows "cluster_ok example_k8s (zone_cluster ps)"
proof -
  have "valid_terms example_k8s (anti_terms p)" if "p \<in> set ps" for p
    using that assms zone_terms(5) by (auto simp: zone_terms(1,3) simp del: valid_terms_simps(2))
  then show ?thesis by (simp add: cluster_ok_def zone_cluster_def zone_info_fields Ball_def)
qed

lemma zone_placements: "fset (fmdom (zone_cluster ps)) = {''n1''}" "placed_on (zone_cluster ps) {''n1''} = {zone_node} \<times> set ps"
  by (auto simp: placed_on_def zone_cluster_def zone_info_fields)

lemma zone_names: "GetPodFullName web_pod \<noteq> GetPodFullName shy_pod"
  by (simp add: GetPodFullName_def web_pod_def shy_pod_def zero_Pod_def)

lemma shy_pod_ok: "own_terms_ok example_k8s shy_pod"
  by (simp add: own_terms_ok_def zone_terms(1,2)) (use zone_terms(5) in simp)

definition zone_metadata :: "Pod list \<Rightarrow> predicateMetadata option" where
  "zone_metadata ps = GetMetadata example_k8s (map extendedResourceProducer []) [''n1''] [''n1''] shy_pod (zone_cluster ps)"

lemma zone_metadata_is:
  assumes "set ps \<subseteq> {web_pod, shy_pod}"
  obtains m where "zone_metadata ps = Some m" "is_metadata example_k8s [] shy_pod ({zone_node} \<times> set ps) m"
  using GetMetadata_is[OF zone_cluster_ok[OF assms] shy_pod_ok, of "[''n1'']" "[''n1'']" "[]"] unfolding zone_metadata_def zone_placements by auto

subsection \<open>Properties\<close>

text \<open>
  C13. The metadata of a pod is kept up to date by the changes it can follow. After any sequence of the following \<open>AddPod\<close> and \<open>RemovePod\<close> calls
  on the metadata of a pod, the result is equal to the metadata that \<open>GetMetadata\<close> computes for a cluster with the changed placement,
  whatever the order in which the nodes are processed. A removed pod has a full name that is not the pod's and that no other placed pod has. An added pod
  has a full name that is not the pod's, is added to a node info that knows its node, has anti-affinity terms with valid selectors, has a node name unless
  the pod has no affinity, and matches either all of the pod's anti-affinity terms or none of them. In both clusters every node is known, the list of pods with affinity is complete
  and the selectors of the anti-affinity terms are valid, as are those of the pod's own terms; service affinity is not in use. A victim that is removed and reprieved
  is such a change when it matches all or none of the anti-affinity terms; a nominated pod, which has no node name yet, is one only when the pod has no affinity.
  The lemmas \<open>nominated_pod_overlooked\<close> and \<open>anti_affinity_overestimated\<close> show how the metadata goes wrong with the two excluded kinds of additions.
\<close>

theorem metadata_incremental:
  assumes "cluster_ok L infos" "own_terms_ok L pod" "set ord1 = fset (fmdom infos)" "set ord2 = fset (fmdom infos)"
    and m: "GetMetadata L (map extendedResourceProducer ignored) ord1 ord2 pod infos = Some m"
    and xs: "all_allowed (followed L pod) (placements infos) xs"
    and "cluster_ok L infos'" "set ord1' = fset (fmdom infos')" "set ord2' = fset (fmdom infos')" and P: "placements infos' = foldl track (placements infos) xs"
  shows "GetMetadata L (map extendedResourceProducer ignored) ord1' ord2' pod infos' = Some (foldl (try_meta (predicateMetadata_ops L)) m xs)"
proof -
  have m1: "is_metadata L ignored pod (placements infos) m" using GetMetadata_is[OF assms(1-4), of ignored] m by (metis option.inject)
  obtain m' where m': "GetMetadata L (map extendedResourceProducer ignored) ord1' ord2' pod infos' = Some m'" "is_metadata L ignored pod (placements infos') m'"
    by (rule GetMetadata_is[OF assms(7,2,8,9)])
  then show ?thesis using pm.fresh[OF m1 xs] P by simp
qed

theorem metadata_incremental_witness:
  "\<exists>m. zone_metadata [web_pod] = Some m \<and> zone_metadata [] = Some (meta_RemovePod (predicateMetadata_ops example_k8s) web_pod m) \<and>
     zone_metadata [web_pod] = Some (meta_AddPod (predicateMetadata_ops example_k8s) web_pod (zone_info []) (meta_RemovePod (predicateMetadata_ops example_k8s) web_pod m)) \<and>
     zone_metadata [] \<noteq> zone_metadata [web_pod]"
proof -
  obtain m where m: "zone_metadata [web_pod] = Some m" by (rule zone_metadata_is[of "[web_pod]"]) simp
  have own: "pod_NodeName web_pod \<noteq> []" by (simp add: web_pod_def)
  let ?xs = "[TryRemove web_pod, TryAdd (zone_info []) web_pod]"
  have ok: "all_allowed (followed example_k8s shy_pod) (placements (zone_cluster [web_pod])) [TryRemove web_pod]"
      "all_allowed (followed example_k8s shy_pod) (placements (zone_cluster [web_pod])) ?xs"
    using zone_names shy_pod_ok own by (simp_all add: followed_def zone_placements zone_info_fields zone_terms(1,3,6))
  have P: "placements (zone_cluster [web_pod]) = foldl track (placements (zone_cluster [web_pod])) ?xs"
    by (auto simp: zone_placements zone_info_fields)
  have "zone_metadata [] = Some (foldl (try_meta (predicateMetadata_ops example_k8s)) m [TryRemove web_pod])"
    unfolding zone_metadata_def
    by (rule metadata_incremental[OF zone_cluster_ok shy_pod_ok _ _ m[unfolded zone_metadata_def] ok(1) zone_cluster_ok])
      (auto simp: zone_placements)
  moreover have "zone_metadata [web_pod] = Some (foldl (try_meta (predicateMetadata_ops example_k8s)) m ?xs)"
    unfolding zone_metadata_def
    by (rule metadata_incremental[OF zone_cluster_ok shy_pod_ok _ _ m[unfolded zone_metadata_def] ok(2) zone_cluster_ok _ _ P])
      (auto simp: zone_placements)
  moreover have "zone_metadata [] \<noteq> zone_metadata [web_pod]"
  proof
    assume eq: "zone_metadata [] = zone_metadata [web_pod]"
    obtain m0 where m0: "zone_metadata [] = Some m0" "is_metadata example_k8s [] shy_pod ({zone_node} \<times> set []) m0" by (rule zone_metadata_is[of "[]"]) simp
    obtain m1 where m1: "zone_metadata [web_pod] = Some m1" "is_metadata example_k8s [] shy_pod ({zone_node} \<times> set [web_pod]) m1" by (rule zone_metadata_is[of "[web_pod]"]) simp
    have "relation (repelled example_k8s shy_pod) {(zone_node, web_pod)} = {}"
      using eq m0 m1 by (simp add: is_metadata_def holds_def relation_simps(1))
    moreover have "(\<lparr>tp_key = ''zone'', tp_value = ''a''\<rparr>, web_pod) \<in> relation (repelled example_k8s shy_pod) {(zone_node, web_pod)}"
      by (simp add: repelled_def zone_terms(1,6,7))
    ultimately show False by blast
  qed
  ultimately show ?thesis using m by auto
qed

text \<open>The node \<open>n\<close> of another pod and the node that is checked agree on the label of a term.\<close>

definition same_domain :: "Node \<Rightarrow> Node \<Rightarrow> PodAffinityTerm \<Rightarrow> bool" where
  "same_domain node n t \<longleftrightarrow> pair_of node t \<noteq> None \<and> pair_of n t = pair_of node t"

lemma same_domain_iff: "same_domain node n t \<longleftrightarrow> (\<exists>pair. pair_of n t = Some pair \<and> pair_of node t = Some pair)"
  by (cases "pair_of node t") (auto simp: same_domain_def)

lemma term_pair_present_iff:
  "holds m (relation f P) \<Longrightarrow> term_pair_present m node t \<longleftrightarrow> (\<exists>pair p n. pair_of node t = Some pair \<and> (n, p) \<in> P \<and> pair \<in> f (n, p))"
  using holds_lookup[of m "relation f P"] by (auto simp: term_pair_present_def pair_of_def split: option.splits)

lemma pair_of_key: "pair_of node t = Some pair \<Longrightarrow> tp_key pair = term_TopologyKey t"
  by (auto simp: pair_of_def)

lemma pair_of_same_key: "term_TopologyKey t = term_TopologyKey u \<Longrightarrow> pair_of n t = pair_of n u"
  by (simp add: pair_of_def)

lemma attracting_present:
  assumes "holds m (relation (attracting L pod) P)" "t \<in> set (required_terms pod)"
  shows "term_pair_present m node t \<longleftrightarrow> (\<exists>(n, p) \<in> P. (\<forall>u \<in> set (required_terms pod). term_matches L pod u p) \<and> same_domain node n t)"
proof -
  have "(\<exists>u \<in> set (required_terms pod). pair_of n u = Some pair) \<longleftrightarrow> pair_of n t = Some pair" if "pair_of node t = Some pair" for n pair
    using assms(2) pair_of_key[OF that] pair_of_key[of n _ pair] pair_of_same_key by metis
  then show ?thesis unfolding term_pair_present_iff[OF assms(1)] by (fastforce simp: attracting_def same_domain_def)
qed

lemma repelled_present:
  assumes "holds m (relation (repelled L pod) P)"
  shows "(\<exists>t \<in> set (anti_terms pod). term_pair_present m node t) \<longleftrightarrow>
    (\<exists>t \<in> set (anti_terms pod). \<exists>(n, p) \<in> P. term_matches L pod t p \<and> same_domain node n t)"
proof -
  have "\<exists>t \<in> set (anti_terms pod). \<exists>(n, p) \<in> P. term_matches L pod t p \<and> same_domain node n t"
    if "pair_of node t = Some pair" "(n, p) \<in> P" "u \<in> set (anti_terms pod)" "term_matches L pod u p" "pair_of n u = Some pair" for t pair n p u
  proof -
    have "pair_of node u = Some pair" using that(1) pair_of_key[OF that(1)] pair_of_key[OF that(5)] pair_of_same_key by metis
    with that show ?thesis by (auto simp: same_domain_def intro!: bexI[of _ u] bexI[of _ "(n, p)"])
  qed
  then show ?thesis unfolding term_pair_present_iff[OF assms] repelled_def same_domain_def by fastforce
qed

lemma repelling_present:
  assumes "holds m (relation (repelling L pod) P)" "distinct (map fst (node_Labels node))"
  shows "list_ex (\<lambda>(k, v). fmlookup (topologyPairToPods m) \<lparr>tp_key = k, tp_value = v\<rparr> \<noteq> None) (node_Labels node) \<longleftrightarrow>
    (\<exists>(n, p) \<in> P. \<exists>t \<in> set (anti_terms p). term_matches L p t pod \<and> same_domain node n t)"
proof -
  have lk: "fmlookup (topologyPairToPods m) pair \<noteq> None \<longleftrightarrow> (\<exists>n p t. (n, p) \<in> P \<and> t \<in> set (anti_terms p) \<and> term_matches L p t pod \<and> pair_of n t = Some pair)" for pair
    unfolding holds_lookup[OF assms(1)] by (auto simp: repelling_def)
  have lab: "pair_of node t = Some pair \<longleftrightarrow> (tp_key pair, tp_value pair) \<in> set (node_Labels node) \<and> tp_key pair = term_TopologyKey t" for t pair
    using assms(2) by (cases pair) (auto simp: pair_of_def map_of_eq_Some_iff)
  have key: "(tp_key pair, tp_value pair) \<in> set (node_Labels node) \<longleftrightarrow> pair_of node t = Some pair" if "pair_of n t = Some pair" for n t pair
    using lab pair_of_key[OF that] by simp
  have ex: "list_ex (\<lambda>(k, v). fmlookup (topologyPairToPods m) \<lparr>tp_key = k, tp_value = v\<rparr> \<noteq> None) (node_Labels node) \<longleftrightarrow>
      (\<exists>pair. (tp_key pair, tp_value pair) \<in> set (node_Labels node) \<and> fmlookup (topologyPairToPods m) pair \<noteq> None)"
    (is "_ \<longleftrightarrow> (\<exists>pair. ?Q pair)")
  proof
    assume "\<exists>pair. ?Q pair"
    then obtain pair where "?Q pair" by blast
    then show "list_ex (\<lambda>(k, v). fmlookup (topologyPairToPods m) \<lparr>tp_key = k, tp_value = v\<rparr> \<noteq> None) (node_Labels node)"
      by (cases pair) (auto simp: list_ex_iff)
  next
    assume "list_ex (\<lambda>(k, v). fmlookup (topologyPairToPods m) \<lparr>tp_key = k, tp_value = v\<rparr> \<noteq> None) (node_Labels node)"
    then obtain k v where "?Q \<lparr>tp_key = k, tp_value = v\<rparr>" by (auto simp: list_ex_iff)
    then show "\<exists>pair. ?Q pair" by blast
  qed
  have "(\<exists>(n, p) \<in> P. \<exists>t \<in> set (anti_terms p). term_matches L p t pod \<and> same_domain node n t) \<longleftrightarrow>
      (\<exists>n p t pair. (n, p) \<in> P \<and> t \<in> set (anti_terms p) \<and> term_matches L p t pod \<and> pair_of n t = Some pair \<and> pair_of node t = Some pair)"
    unfolding same_domain_iff by blast
  then show ?thesis using key by (subst ex) (unfold lk, blast)
qed

lemma InterPodAffinity_iff:
  assumes m: "is_metadata L ignored pod P m" and own: "own_terms_ok L pod"
    and node: "ni_node info = Some node" "distinct (map fst (node_Labels node))"
  shows "InterPodAffinityMatches L c pod (Some m) (Some info) = Inr (True, []) \<longleftrightarrow>
    (\<forall>(n, p) \<in> P. \<forall>t \<in> set (anti_terms p). term_matches L p t pod \<longrightarrow> \<not> same_domain node n t) \<and>
    ((\<forall>t \<in> set (required_terms pod). \<exists>(n, p) \<in> P. (\<forall>u \<in> set (required_terms pod). term_matches L pod u p) \<and> same_domain node n t) \<or>
     (\<forall>(n, p) \<in> P. (\<forall>u \<in> set (required_terms pod). term_matches L pod u p) \<longrightarrow> (\<forall>t \<in> set (required_terms pod). pair_of n t = None)) \<and>
     (\<forall>t \<in> set (required_terms pod). term_matches L pod t pod)) \<and>
    (\<forall>(n, p) \<in> P. \<forall>t \<in> set (anti_terms pod). term_matches L pod t p \<longrightarrow> \<not> same_domain node n t)"
proof -
  let ?all = "\<lambda>p. \<forall>u \<in> set (required_terms pod). term_matches L pod u p"
  have h: "holds (topologyPairsAntiAffinityPodsMap m) (relation (repelling L pod) P)"
      "holds (topologyPairsPotentialAffinityPods m) (relation (attracting L pod) P)"
      "holds (topologyPairsPotentialAntiAffinityPods m) (relation (repelled L pod) P)"
    using m by (simp_all add: is_metadata_def)
  have one: "satisfiesExistingPodsAntiAffinity L c pod (Some m) (Some info) =
      (if \<exists>(n, p) \<in> P. \<exists>t \<in> set (anti_terms p). term_matches L p t pod \<and> same_domain node n t
       then Some (ErrExistingPodsAntiAffinityRulesNotMatch, None) else None)"
    unfolding satisfiesExistingPodsAntiAffinity_def repelling_present[OF h(1) node(2), symmetric] by (simp add: NodeInfo_Node_def node(1))
  then have one_none: "satisfiesExistingPodsAntiAffinity L c pod (Some m) (Some info) = None \<longleftrightarrow>
      (\<forall>(n, p) \<in> P. \<forall>t \<in> set (anti_terms p). term_matches L p t pod \<longrightarrow> \<not> same_domain node n t)"
    by (auto split: if_splits)
  have failed: "failed f \<noteq> Inr (True, [])" for f by (simp add: failed_def split: option.splits)
  have all: "nodeMatchesAllTopologyTerms (topologyPairsPotentialAffinityPods m) node (required_terms pod) \<longleftrightarrow>
      (\<forall>t \<in> set (required_terms pod). \<exists>(n, p) \<in> P. ?all p \<and> same_domain node n t)"
    using attracting_present[OF h(2)] by (simp add: nodeMatchesAllTopologyTerms_def list_all_iff)
  have any: "nodeMatchesAnyTopologyTerm (topologyPairsPotentialAntiAffinityPods m) node (anti_terms pod) \<longleftrightarrow>
      (\<exists>t \<in> set (anti_terms pod). \<exists>(n, p) \<in> P. term_matches L pod t p \<and> same_domain node n t)"
    using repelled_present[OF h(3), of node] by (simp add: nodeMatchesAnyTopologyTerm_def list_ex_iff)
  have none: "topologyPairToPods (topologyPairsPotentialAffinityPods m) = fmempty \<longleftrightarrow>
      (\<forall>(n, p) \<in> P. ?all p \<longrightarrow> (\<forall>t \<in> set (required_terms pod). pair_of n t = None))"
    unfolding holds_empty_iff[OF h(2)] by (auto simp: attracting_def relation_def) (metis option.exhaust)
  have self: "targetPodMatchesAffinityOfPod L pod pod \<longleftrightarrow> required_terms pod \<noteq> [] \<and> ?all pod"
    using own by (simp add: own_terms_ok_def targetPod_terms)
  show ?thesis
  proof (cases "hasPodAffinityConstraints pod")
    case True
    then obtain a where a: "pod_Affinity pod = Some a" "\<not> (PodAffinity a = None \<and> PodAntiAffinity a = None)"
      by (auto simp: hasPodAffinityConstraints_def split: option.splits)
    have ts: "GetPodAffinityTerms (PodAffinity a) = required_terms pod" "GetPodAntiAffinityTerms (PodAntiAffinity a) = anti_terms pod"
      by (simp_all add: required_terms_def anti_terms_def a)
    have two: "affinity_by_metadata L pod m node a = None \<longleftrightarrow>
        (nodeMatchesAllTopologyTerms (topologyPairsPotentialAffinityPods m) node (required_terms pod) \<or>
         topologyPairToPods (topologyPairsPotentialAffinityPods m) = fmempty \<and> ?all pod) \<and>
        \<not> nodeMatchesAnyTopologyTerm (topologyPairsPotentialAntiAffinityPods m) node (anti_terms pod)"
      unfolding affinity_by_metadata_def ts Let_def self
      by (auto simp: nodeMatchesAllTopologyTerms_def nodeMatchesAnyTopologyTerm_def)
    have "InterPodAffinityMatches L c pod (Some m) (Some info) = Inr (True, []) \<longleftrightarrow>
        satisfiesExistingPodsAntiAffinity L c pod (Some m) (Some info) = None \<and> affinity_by_metadata L pod m node a = None"
      using a(2) by (auto simp: InterPodAffinityMatches_def a(1) satisfiesPodsAffinityAntiAffinity_def NodeInfo_Node_def node(1) failed split: option.splits)
    then show ?thesis unfolding one_none two all any none by blast
  next
    case False
    then have "required_terms pod = []" "anti_terms pod = []"
      by (auto simp: unconstrained_pod hasPodAffinityConstraints_def required_terms_def GetPodAffinityTerms_def split: option.splits)
    moreover have "InterPodAffinityMatches L c pod (Some m) (Some info) = Inr (True, []) \<longleftrightarrow>
        satisfiesExistingPodsAntiAffinity L c pod (Some m) (Some info) = None"
      using False by (auto simp: InterPodAffinityMatches_def NodeInfo_Node_def node(1) failed hasPodAffinityConstraints_def split: option.splits)
    ultimately show ?thesis unfolding one_none by simp
  qed
qed

text \<open>
  C14. Inter-pod affinity. With the metadata of the cluster the predicate accepts a node exactly if (1) no placed pod has an anti-affinity term that matches
  the pod and whose topology label has the same value on the two nodes, (2) every affinity term of the pod is served on
  the node's topology domain by a placed pod that matches all affinity terms, or no placed pod that matches them stands on a
  node with one of the labels and the pod matches its own terms, and (3) none of the pod's anti-affinity terms matches a placed pod of the same domain.
\<close>

theorem InterPodAffinity_spec:
  assumes "cluster_ok L infos" "own_terms_ok L pod" "set ord1 = fset (fmdom infos)" "set ord2 = fset (fmdom infos)"
    and m: "GetMetadata L (map extendedResourceProducer ignored) ord1 ord2 pod infos = Some m"
    and node: "ni_node info = Some node" "distinct (map fst (node_Labels node))"
  shows "InterPodAffinityMatches L c pod (Some m) (Some info) = Inr (True, []) \<longleftrightarrow>
    (\<forall>(n, p) \<in> placements infos. \<forall>t \<in> set (anti_terms p). term_matches L p t pod \<longrightarrow> \<not> same_domain node n t) \<and>
    ((\<forall>t \<in> set (required_terms pod). \<exists>(n, p) \<in> placements infos. (\<forall>u \<in> set (required_terms pod). term_matches L pod u p) \<and> same_domain node n t) \<or>
     (\<forall>(n, p) \<in> placements infos. (\<forall>u \<in> set (required_terms pod). term_matches L pod u p) \<longrightarrow> (\<forall>t \<in> set (required_terms pod). pair_of n t = None)) \<and>
     (\<forall>t \<in> set (required_terms pod). term_matches L pod t pod)) \<and>
    (\<forall>(n, p) \<in> placements infos. \<forall>t \<in> set (anti_terms pod). term_matches L pod t p \<longrightarrow> \<not> same_domain node n t)"
proof -
  have "is_metadata L ignored pod (placements infos) m" using GetMetadata_is[OF assms(1-4), of ignored] m by (metis option.inject)
  from InterPodAffinity_iff[OF this assms(2) node] show ?thesis .
qed

theorem InterPodAffinity_spec_witness:
  "\<forall>c. \<exists>m m'. zone_metadata [web_pod] = Some m \<and> zone_metadata [] = Some m' \<and>
     InterPodAffinityMatches example_k8s c shy_pod (Some m) (Some (zone_info [web_pod])) \<noteq> Inr (True, []) \<and>
     InterPodAffinityMatches example_k8s c shy_pod (Some m') (Some (zone_info [])) = Inr (True, [])"
proof
  fix c
  obtain m where m: "zone_metadata [web_pod] = Some m" by (rule zone_metadata_is[of "[web_pod]"]) simp
  obtain m' where m': "zone_metadata [] = Some m'" by (rule zone_metadata_is[of "[]"]) simp
  note spec = InterPodAffinity_spec[where c = c and ?ord1.0 = "[''n1'']" and ?ord2.0 = "[''n1'']" and ignored = "[]",
      OF zone_cluster_ok shy_pod_ok _ _ _ zone_info_fields(1), unfolded zone_placements zone_terms(1,2), folded zone_metadata_def]
  have d: "same_domain zone_node zone_node web_term" "distinct (map fst (node_Labels zone_node))"
    using zone_terms(7) by (simp_all add: same_domain_def zone_node_def)
  have "InterPodAffinityMatches example_k8s c shy_pod (Some m) (Some (zone_info [web_pod])) \<noteq> Inr (True, [])"
    using spec[of "[web_pod]" m "[web_pod]"] m d zone_terms(6) by simp
  moreover have "InterPodAffinityMatches example_k8s c shy_pod (Some m') (Some (zone_info [])) = Inr (True, [])"
    using spec[of "[]" m' "[]"] m' d by simp
  ultimately show "\<exists>m m'. zone_metadata [web_pod] = Some m \<and> zone_metadata [] = Some m' \<and>
     InterPodAffinityMatches example_k8s c shy_pod (Some m) (Some (zone_info [web_pod])) \<noteq> Inr (True, []) \<and>
     InterPodAffinityMatches example_k8s c shy_pod (Some m') (Some (zone_info [])) = Inr (True, [])"
    using m m' by blast
qed

text \<open>
  Nominated pods are overlooked. The pods that \<open>addNominatedPods\<close> adds to the metadata are pending and have no node name, and \<open>AddPod\<close> skips the
  pod's own terms for a pod without node name: a nominated pod without affinity of its own leaves the metadata as it is, so that the verdict
  about affinity and anti-affinity is the one without the nominated pod, even where the pod's anti-affinity excludes it.
\<close>

theorem nominated_pod_overlooked:
  assumes "pod_NodeName p = []" "\<not> hasPodAffinityConstraints p" "\<not> serviceAffinityInUse m"
  shows "InterPodAffinityMatches L c pod (Some (fst (predicateMetadata_AddPod L p nominatedInfo m))) info = InterPodAffinityMatches L c pod (Some m) info"
proof -
  have "fst (predicateMetadata_AddPod L p nominatedInfo m) = m"
    using assms by (auto simp: predicateMetadata_AddPod_def getMatchingAntiAffinityTopologyPairsOfPod_def hasPodAffinityConstraints_def Let_def split: option.splits)
  then show ?thesis by simp
qed

text \<open>The pod that is nominated for the zone is excluded there, and accepted.\<close>

definition nominated_web_pod :: Pod where
  "nominated_web_pod = web_pod\<lparr>pod_NodeName := []\<rparr>"

theorem nominated_pod_overlooked_witness:
  "term_matches example_k8s shy_pod web_term nominated_web_pod \<and> (\<forall>c. \<exists>m. zone_metadata [] = Some m \<and>
     InterPodAffinityMatches example_k8s c shy_pod (Some (fst (predicateMetadata_AddPod example_k8s nominated_web_pod (Some (zone_info [nominated_web_pod])) m)))
       (Some (zone_info [nominated_web_pod])) = Inr (True, []))"
proof (intro conjI allI)
  show "term_matches example_k8s shy_pod web_term nominated_web_pod"
    using zone_terms(6) by (simp add: term_matches_def nominated_web_pod_def)
  fix c
  obtain m where m: "zone_metadata [] = Some m" "is_metadata example_k8s [] shy_pod {} m" by (rule zone_metadata_is[of "[]"]) auto
  have "distinct (map fst (node_Labels zone_node))" by (simp add: zone_node_def)
  then have "InterPodAffinityMatches example_k8s c shy_pod (Some m) (Some (zone_info [nominated_web_pod])) = Inr (True, [])"
    using InterPodAffinity_iff[OF m(2) shy_pod_ok zone_info_fields(1)] by (simp add: zone_terms(1,2))
  moreover have "pod_NodeName nominated_web_pod = []" "\<not> hasPodAffinityConstraints nominated_web_pod" "\<not> serviceAffinityInUse m"
    using m(2) by (simp_all add: nominated_web_pod_def web_pod_def hasPodAffinityConstraints_def zero_Pod_def is_metadata_def)
  ultimately show "\<exists>m. zone_metadata [] = Some m \<and>
     InterPodAffinityMatches example_k8s c shy_pod (Some (fst (predicateMetadata_AddPod example_k8s nominated_web_pod (Some (zone_info [nominated_web_pod])) m)))
       (Some (zone_info [nominated_web_pod])) = Inr (True, [])"
    using m(1) by (simp add: nominated_pod_overlooked)
qed

text \<open>
  Anti-affinity is overestimated. When an added pod matches one of the pod's anti-affinity terms, \<open>AddPod\<close> records it for all of them, while
  \<open>GetMetadata\<close> records it only for the terms that match: from then on every node in the topology domain of a term that does not match is refused.
  So a victim of preemption that was removed and is put back may block the pod although it did not before.
\<close>

theorem anti_affinity_overestimated:
  assumes m: "is_metadata L ignored pod P m" and own: "own_terms_ok L pod" "valid_terms L (anti_terms p)"
    and p: "GetPodFullName p \<noteq> GetPodFullName pod" "pod_NodeName p \<noteq> []" "ni_node info = Some node"
    and terms: "t \<in> set (anti_terms pod)" "term_matches L pod t p" "u \<in> set (anti_terms pod)"
    and other: "ni_node info' = Some node'" "same_domain node' node u"
  shows "InterPodAffinityMatches L c pod (Some (fst (predicateMetadata_AddPod L p (Some info) m))) (Some info') \<noteq> Inr (True, [])"
proof -
  obtain a where a: "pod_Affinity pod = Some a" using terms(1) by (cases "pod_Affinity pod") (auto simp: anti_terms_def)
  have ts: "GetPodAntiAffinityTerms (PodAntiAffinity a) = anti_terms pod" by (simp add: anti_terms_def a)
  have anti: "PodAntiAffinity a \<noteq> None" using terms(1) ts by (auto simp: GetPodAntiAffinityTerms_def split: option.splits)
  have h: "holds (topologyPairsPotentialAntiAffinityPods m) (relation (repelled L pod) P)" "holds (topologyPairsAntiAffinityPodsMap m) (relation (repelling L pod) P)"
      "meta_pod m = pod" "\<not> serviceAffinityInUse m"
    using m by (simp_all add: is_metadata_def)
  obtain r where r: "getMatchingAntiAffinityTopologyPairsOfPod L pod p node = Some r" by (rule matching_pairs_of_pod[OF own(2) h(2)])
  have match: "targetPodMatchesAntiAffinityOfPod L pod p" using own(1) terms by (auto simp: own_terms_ok_def targetPod_anti_terms)
  let ?m = "fst (predicateMetadata_AddPod L p (Some info) m)" and ?E = "relation (repelled L pod) P \<union> {(pair, p) |pair. \<exists>t \<in> set (anti_terms pod). pair_of node t = Some pair}"
  have "topologyPairsPotentialAntiAffinityPods ?m = fold (add_term_pair node p) (anti_terms pod) (topologyPairsPotentialAntiAffinityPods m)"
    using p h(3,4) by (simp add: predicateMetadata_AddPod_def NodeInfo_Node_def r a match ts Let_def)
  then have hx: "holds (topologyPairsPotentialAntiAffinityPods ?m) ?E" using holds_term_pairs[OF h(1)] by simp
  obtain pair where pair: "pair_of node' u = Some pair" "pair_of node u = Some pair" using other(2) by (auto simp: same_domain_iff)
  then have "fmlookup (topologyPairToPods (topologyPairsPotentialAntiAffinityPods ?m)) pair \<noteq> None" using holds_lookup[OF hx] terms(3) by blast
  then have "term_pair_present (topologyPairsPotentialAntiAffinityPods ?m) node' u"
    using pair(1) by (auto simp: term_pair_present_def pair_of_def split: option.splits)
  then have "affinity_by_metadata L pod ?m node' a \<noteq> None"
    using terms(3) by (auto simp: affinity_by_metadata_def ts Let_def nodeMatchesAnyTopologyTerm_def list_ex_iff split: if_splits)
  then show ?thesis using anti
    by (auto simp: InterPodAffinityMatches_def a NodeInfo_Node_def other(1) satisfiesPodsAffinityAntiAffinity_def failed_def split: option.splits)
qed

text \<open>A pod that keeps away from web pods in its zone and from databases on its rack, and two nodes of the same rack in different zones.\<close>

definition rack_term :: PodAffinityTerm where
  "rack_term = \<lparr>term_LabelSelector = Some \<lparr>MatchLabels = [(''app'', ''db'')], MatchExpressions = []\<rparr>, term_Namespaces = [], term_TopologyKey = ''rack''\<rparr>"

definition careful_pod :: Pod where
  "careful_pod = shy_pod\<lparr>pod_Affinity := Some \<lparr>NodeAffinity = None, PodAffinity = None, PodAntiAffinity = Some [web_term, rack_term]\<rparr>\<rparr>"

definition rack_info :: "string \<Rightarrow> NodeInfo" where
  "rack_info zone = (zone_info [])\<lparr>ni_node := Some (zone_node\<lparr>node_Labels := [(''zone'', zone), (''rack'', ''r'')]\<rparr>)\<rparr>"

lemma careful_terms:
  "anti_terms careful_pod = [web_term, rack_term]" "required_terms careful_pod = []" "own_terms_ok example_k8s careful_pod"
  "term_matches example_k8s careful_pod web_term web_pod" "\<not> term_matches example_k8s careful_pod rack_term web_pod"
  by (simp_all add: own_terms_ok_def anti_terms_def required_terms_def careful_pod_def shy_pod_def web_pod_def zero_Pod_def GetPodAntiAffinityTerms_def
      GetPodAffinityTerms_def web_term_def rack_term_def example_k8s_def term_matches_def GetNamespacesFromPodAffinityTerm_def)

theorem anti_affinity_overestimated_witness:
  "\<not> term_matches example_k8s careful_pod rack_term web_pod \<and> (\<exists>m. GetMetadata example_k8s [] [] [] careful_pod fmempty = Some m \<and> (\<forall>c. InterPodAffinityMatches example_k8s c careful_pod
     (Some (fst (predicateMetadata_AddPod example_k8s web_pod (Some (rack_info ''a'')) m))) (Some (rack_info ''b'')) \<noteq> Inr (True, [])))"
proof -
  have ok: "cluster_ok example_k8s fmempty" by (simp add: cluster_ok_def)
  obtain m where m: "GetMetadata example_k8s (map extendedResourceProducer []) [] [] careful_pod fmempty = Some m"
      "is_metadata example_k8s [] careful_pod (placements fmempty) m"
    using GetMetadata_is[OF ok careful_terms(3), of "[]" "[]" "[]"] by auto
  have "GetPodFullName web_pod \<noteq> GetPodFullName careful_pod" "pod_NodeName web_pod \<noteq> []" "valid_terms example_k8s (anti_terms web_pod)"
    by (simp_all add: GetPodFullName_def web_pod_def careful_pod_def shy_pod_def zero_Pod_def anti_terms_def)
  moreover have "same_domain (zone_node\<lparr>node_Labels := [(''zone'', ''b''), (''rack'', ''r'')]\<rparr>) (zone_node\<lparr>node_Labels := [(''zone'', ''a''), (''rack'', ''r'')]\<rparr>) rack_term"
    by (simp add: same_domain_def pair_of_def rack_term_def)
  ultimately show ?thesis
    using m anti_affinity_overestimated[OF m(2) careful_terms(3), of web_pod "rack_info ''a''" _ web_term rack_term "rack_info ''b''"] careful_terms(1,4,5)
    by (auto simp: rack_info_def)
qed

end
