(* ===== verification/Preempt_Properties.thy ===== *)
theory Preempt_Properties
  imports Preemption Metadata_Properties
begin

text \<open>
  What preemption promises: which pods can become victims and that the pod fits once they are gone, and that the node
  chosen is one with the least cost.
\<close>

subsection \<open>The node with the least cost\<close>

definition min_by :: "('a \<Rightarrow> int) \<Rightarrow> 'a list \<Rightarrow> 'a list" where
  "min_by key xs = filter (\<lambda>x. \<forall>y \<in> set xs. key x \<le> key y) xs"

definition least :: "('a \<Rightarrow> int) \<Rightarrow> int \<Rightarrow> 'a list \<Rightarrow> int" where
  "least key m xs = foldl (\<lambda>m x. min m (key x)) m xs"

lemma least_simps [simp]: "least key m [] = m" "least key m (x # xs) = least key (min m (key x)) xs"
  by (simp_all add: least_def)

lemma least_props: "least key m xs \<le> m \<and> (\<forall>x \<in> set xs. least key m xs \<le> key x) \<and> (least key m xs = m \<or> (\<exists>x \<in> set xs. key x = least key m xs))"
proof (induction xs arbitrary: m)
  case (Cons x xs)
  note IH = Cons.IH[of "min m (key x)"]
  show ?case
  proof (cases "m \<le> key x")
    case True
    then show ?thesis using IH by (force simp: min_def)
  next
    case False
    then show ?thesis using IH by (force simp: min_def)
  qed
qed simp

lemma keep_min_fold:
  assumes "\<forall>x \<in> set ps. m \<le> key x"
  shows "snd (foldl (\<lambda>(m, acc) x. let (m1, acc1) = (if key x < m then (key x, []) else (m, acc)) in if key x = m1 then (m1, acc1 @ [x]) else (m1, acc1))
      (m, filter (\<lambda>x. key x = m) ps) xs) = filter (\<lambda>x. key x = least key m xs) (ps @ xs)"
  using assms
proof (induction xs arbitrary: m ps)
  case (Cons x xs)
  show ?case
  proof (cases "key x < m")
    case True
    then have "filter (\<lambda>y. key y = key x) (ps @ [x]) = [x]" using Cons.prems by (auto simp: filter_empty_conv)
    then show ?thesis using Cons.IH[of "ps @ [x]" "key x"] Cons.prems True by (fastforce simp: min_def)
  next
    case False
    then have "(if key x = m then filter (\<lambda>y. key y = m) ps @ [x] else filter (\<lambda>y. key y = m) ps) = filter (\<lambda>y. key y = m) (ps @ [x])" by simp
    then show ?thesis using Cons.IH[of "ps @ [x]" m] Cons.prems False by (auto simp: min_def)
  qed
qed simp

lemma keep_min_eq:
  assumes "\<forall>x \<in> set xs. key x \<le> start"
  shows "keep_min key start xs = min_by key xs"
proof -
  note L = least_props[of key start xs]
  have "key x = least key start xs \<longleftrightarrow> (\<forall>y \<in> set xs. key x \<le> key y)" if "x \<in> set xs" for x
  proof
    assume min: "\<forall>y \<in> set xs. key x \<le> key y"
    have "key x \<le> least key start xs" using L assms that min by auto
    then show "key x = least key start xs" using L that by force
  qed (use L in auto)
  then show ?thesis
    using keep_min_fold[of "[]" start key xs] by (auto simp: keep_min_def min_by_def intro: filter_cong)
qed

lemma min_by_not_empty: "xs \<noteq> [] \<Longrightarrow> min_by key xs \<noteq> []"
proof -
  assume "xs \<noteq> []"
  then obtain x where "x \<in> set xs" "\<forall>y \<in> set xs. key x \<le> key y" using ex_min_if_finite[of "key ` set xs"] by (auto simp: not_less)
  then show ?thesis by (auto simp: min_by_def filter_empty_conv)
qed

lemma min_by_cong: "(\<And>x. x \<in> set xs \<Longrightarrow> key x = key' x) \<Longrightarrow> min_by key xs = min_by key' xs"
  unfolding min_by_def by (intro filter_cong) auto

lemma min_by_single [simp]: "min_by key [x] = [x]"
  by (simp add: min_by_def)

lemma min_by_subset: "set (min_by key xs) \<subseteq> set xs"
  by (auto simp: min_by_def)

text \<open>Narrowing down by one key after the other gives the elements with the lexicographically least keys.\<close>

fun narrow :: "('a \<Rightarrow> int) list \<Rightarrow> 'a list \<Rightarrow> 'a list" where
  "narrow [] xs = xs"
| "narrow (key # keys) xs = narrow keys (min_by key xs)"

fun lex_le :: "int list \<Rightarrow> int list \<Rightarrow> bool" where
  "lex_le (x # xs) (y # ys) \<longleftrightarrow> x < y \<or> (x = y \<and> lex_le xs ys)"
| "lex_le _ _ \<longleftrightarrow> True"

lemma narrow_single [simp]: "narrow keys [x] = [x]"
  by (induction keys) simp_all

lemma narrow_not_empty: "xs \<noteq> [] \<Longrightarrow> narrow keys xs \<noteq> []"
  by (induction keys arbitrary: xs) (simp_all add: min_by_not_empty)

lemma narrow_least:
  "x \<in> set (narrow keys xs) \<Longrightarrow> x \<in> set xs \<and> (\<forall>y \<in> set xs. lex_le (map (\<lambda>k. k x) keys) (map (\<lambda>k. k y) keys))"
proof (induction keys arbitrary: xs)
  case (Cons key keys)
  then have IH: "x \<in> set (min_by key xs)" "\<forall>y \<in> set (min_by key xs). lex_le (map (\<lambda>k. k x) keys) (map (\<lambda>k. k y) keys)" by simp_all
  have "key x < key y \<or> key x = key y \<and> y \<in> set (min_by key xs)" if "y \<in> set xs" for y
    using IH(1) that by (force simp: min_by_def)
  then show ?case using IH(2) min_by_subset[of key xs] IH(1) by fastforce
qed simp

text \<open>The sum of the shifted priorities does not overflow.\<close>

definition shifted_sum :: "PoolQueue \<Rightarrow> string \<Rightarrow> Pod list \<Rightarrow> int" where
  "shifted_sum pq poolName pods = (\<Sum>p \<leftarrow> pods. sint (victim_priority pq poolName p) + 2 ^ 31)"

lemma shifted_sum_bound: "0 \<le> shifted_sum pq poolName pods \<and> shifted_sum pq poolName pods \<le> int (length pods) * (2 ^ 32 - 1)"
proof (induction pods)
  case (Cons p pods)
  have "- (2 ^ 31) \<le> sint (victim_priority pq poolName p)" "sint (victim_priority pq poolName p) < 2 ^ 31"
    using sint_ge[of "victim_priority pq poolName p"] sint_lt[of "victim_priority pq poolName p"] by simp_all
  then show ?case using Cons by (simp add: shifted_sum_def algebra_simps)
qed (simp add: shifted_sum_def)

lemma sum_priorities_fold:
  "foldl (\<lambda>s p. s + (scast (victim_priority pq poolName p) + 0x80000000)) w pods = w + (word_of_int (shifted_sum pq poolName pods) :: int64)"
proof (induction pods arbitrary: w)
  case (Cons p pods)
  have "(scast (victim_priority pq poolName p) :: int64) + 0x80000000 = word_of_int (sint (victim_priority pq poolName p) + 2 ^ 31)"
    by (simp only: scast_eq of_int_add of_int_power of_int_numeral) simp
  then have "(word_of_int (shifted_sum pq poolName (p # pods)) :: int64) = (scast (victim_priority pq poolName p) + 0x80000000) + word_of_int (shifted_sum pq poolName pods)"
    by (simp only: shifted_sum_def list.map sum_list.Cons of_int_add)
  then show ?case by (simp only: foldl_Cons Cons.IH add.assoc)
qed (simp add: shifted_sum_def)

lemma sum_priorities_exact:
  assumes "int (length pods) \<le> 0x7FFFFFFF"
  shows "sint (sum_priorities pq poolName pods) = shifted_sum pq poolName pods"
proof -
  have "int (length pods) * (2 ^ 32 - 1) \<le> 0x7FFFFFFF * (2 ^ 32 - 1)" using assms by (intro mult_right_mono) auto
  then have "0 \<le> shifted_sum pq poolName pods \<and> shifted_sum pq poolName pods < 2 ^ 63" using shifted_sum_bound[of pq poolName pods] by auto
  then show ?thesis by (simp add: sum_priorities_def sum_priorities_fold sint_sbintrunc' signed_take_bit_int_eq_self)
qed

text \<open>What the code compares, most important first.\<close>

definition preempt_keys :: "PoolQueue \<Rightarrow> string \<Rightarrow> (Node \<times> Victims \<Rightarrow> int) list" where
  "preempt_keys pq poolName = [\<lambda>(node, victims). sint (NumPDBViolations victims),
     \<lambda>(node, victims). sint (victim_priority pq poolName (vi_Pods victims ! 0)),
     \<lambda>(node, victims). shifted_sum pq poolName (vi_Pods victims),
     \<lambda>(node, victims). int (length (vi_Pods victims))]"

definition preempt_cost :: "PoolQueue \<Rightarrow> string \<Rightarrow> Node \<times> Victims \<Rightarrow> int list" where
  "preempt_cost pq poolName e = map (\<lambda>key. key e) (preempt_keys pq poolName)"

lemma sint_max: "sint (w :: int32) \<le> 0x7FFFFFFF" "sint (v :: int64) \<le> 0x7FFFFFFFFFFFFFFF"
  using sint_lt[of w] sint_lt[of v] by simp_all

lemma single_case: "(case xs of [e] \<Rightarrow> Some e | _ \<Rightarrow> r) = (if \<exists>e. xs = [e] then Some (hd xs) else r)"
  by (auto split: list.splits)

lemma pick_narrow:
  assumes ne: "nodesToVictims \<noteq> []" and victims: "\<forall>(node, victims) \<in> set nodesToVictims. vi_Pods victims \<noteq> []"
    and small: "\<forall>(node, victims) \<in> set nodesToVictims. sint (NumPDBViolations victims) \<le> 0x7FFFFFFF \<and> int (length (vi_Pods victims)) \<le> 0x7FFFFFFF"
  shows "pickOneNodeForPreemption nodesToVictims poolName pq = Some (hd (narrow (preempt_keys pq poolName) nodesToVictims))"
proof -
  let ?k1 = "\<lambda>(node :: Node, victims). sint (NumPDBViolations victims)" and ?k2 = "\<lambda>(node :: Node, victims). sint (victim_priority pq poolName (vi_Pods victims ! 0))"
  let ?k3 = "\<lambda>(node :: Node, victims). shifted_sum pq poolName (vi_Pods victims)" and ?s3 = "\<lambda>(node :: Node, victims). sint (sum_priorities pq poolName (vi_Pods victims))" and ?k4 = "\<lambda>(node :: Node, victims). int (length (vi_Pods victims))"
  let ?m1 = "min_by ?k1 nodesToVictims"
  let ?m2 = "min_by ?k2 ?m1"
  let ?m3 = "min_by ?k3 ?m2"
  have sub: "set ?m3 \<subseteq> set nodesToVictims" using min_by_subset by (metis (no_types, lifting) subset_trans)
  have e1: "keep_min ?k1 0x7FFFFFFF nodesToVictims = ?m1" using small by (intro keep_min_eq) auto
  have e2: "keep_min ?k2 0x7FFFFFFF ?m1 = ?m2" by (intro keep_min_eq) (auto intro: sint_max)
  have "set ?m2 \<subseteq> set nodesToVictims" using min_by_subset by (metis (no_types, lifting) subset_trans)
  then have "\<forall>x \<in> set ?m2. ?s3 x = ?k3 x" using small sum_priorities_exact by fastforce
  then have "min_by ?s3 ?m2 = ?m3" by (intro min_by_cong) blast
  moreover have "keep_min ?s3 0x7FFFFFFFFFFFFFFF ?m2 = min_by ?s3 ?m2" by (intro keep_min_eq) (auto intro: sint_max)
  ultimately have e3: "keep_min ?s3 0x7FFFFFFFFFFFFFFF ?m2 = ?m3" by simp
  have e4: "keep_min ?k4 0x7FFFFFFF ?m3 = min_by ?k4 ?m3" using small sub by (intro keep_min_eq) fastforce
  have nf: "List.find (\<lambda>(node, victims). vi_Pods victims = []) nodesToVictims = None"
    using victims by (auto simp: find_None_iff)
  have n4: "min_by ?k4 ?m3 \<noteq> []" using ne by (intro min_by_not_empty)
  have last: "(case min_by ?k4 ?m3 of e # _ \<Rightarrow> Some e | [] \<Rightarrow> None) = Some (hd (min_by ?k4 ?m3))"
    using n4 by (cases "min_by ?k4 ?m3") auto
  have "pickOneNodeForPreemption nodesToVictims poolName pq = (if \<exists>e. ?m1 = [e] then Some (hd ?m1) else
      if \<exists>e. ?m2 = [e] then Some (hd ?m2) else if \<exists>e. ?m3 = [e] then Some (hd ?m3) else Some (hd (min_by ?k4 ?m3)))"
    unfolding pickOneNodeForPreemption_def nf e1 Let_def e2 e3 e4 last single_case using ne by simp
  also have "\<dots> = Some (hd (min_by ?k4 ?m3))" by auto
  finally show ?thesis by (simp add: preempt_keys_def)
qed

text \<open>
  C18. The node that is chosen. \<open>pickOneNodeForPreemption\<close> returns one of the nodes of the non-empty map it is given. A node without victims is
  taken at once; otherwise the chosen node is least, in this order, in the number of violated disruption budgets, the priority of its first
  victim, the sum over its victims of the priority plus \<open>2^31\<close>, and the number of victims (the priority of a pod of another pool counts as the lowest),
  whatever the order in which the map is visited. The shift makes every summand non-negative, so that of two nodes with equal priorities the one with fewer victims has the smaller sum. The counts
  of violated budgets and of victims are at most \<open>2^31 - 1\<close>, the value the minimum starts from; so the sum, which the code computes with 64 bits, does not overflow.
\<close>

theorem pickOneNode_least:
  assumes "nodesToVictims \<noteq> []"
    and small: "\<forall>(node, victims) \<in> set nodesToVictims. sint (NumPDBViolations victims) \<le> 0x7FFFFFFF \<and> int (length (vi_Pods victims)) \<le> 0x7FFFFFFF"
  shows "\<exists>node victims. pickOneNodeForPreemption nodesToVictims poolName pq = Some (node, victims) \<and> (node, victims) \<in> set nodesToVictims \<and>
    (vi_Pods victims = [] \<or>
     (\<forall>(node', victims') \<in> set nodesToVictims. vi_Pods victims' \<noteq> [] \<and>
        lex_le (preempt_cost pq poolName (node, victims)) (preempt_cost pq poolName (node', victims'))))"
proof (cases "List.find (\<lambda>(node, victims). vi_Pods victims = []) nodesToVictims")
  case (Some e)
  obtain node victims where e: "e = (node, victims)" by fastforce
  have "(node, victims) \<in> set nodesToVictims" "vi_Pods victims = []" using Some e by (auto simp: find_Some_iff in_set_conv_nth)
  moreover have "pickOneNodeForPreemption nodesToVictims poolName pq = Some (node, victims)"
    using assms(1) Some e by (simp add: pickOneNodeForPreemption_def)
  ultimately show ?thesis by blast
next
  case None
  then have v: "\<forall>(node, victims) \<in> set nodesToVictims. vi_Pods victims \<noteq> []" by (auto simp: find_None_iff)
  let ?e = "hd (narrow (preempt_keys pq poolName) nodesToVictims)"
  have "?e \<in> set (narrow (preempt_keys pq poolName) nodesToVictims)" using narrow_not_empty[OF assms(1)] by simp
  from narrow_least[OF this] have "?e \<in> set nodesToVictims" "\<forall>y \<in> set nodesToVictims. lex_le (preempt_cost pq poolName ?e) (preempt_cost pq poolName y)"
    by (simp_all add: preempt_cost_def)
  moreover obtain node victims where "?e = (node, victims)" by fastforce
  ultimately show ?thesis using pick_narrow[OF assms(1) v small, of poolName pq] v by auto
qed

theorem pickOneNode_least_witness:
  "\<exists>node. pickOneNodeForPreemption [(zero_Node\<lparr>node_Name := ''a''\<rparr>, \<lparr>vi_Pods = [zero_Pod], NumPDBViolations = 1\<rparr>),
      (zero_Node\<lparr>node_Name := ''b''\<rparr>, \<lparr>vi_Pods = [zero_Pod, zero_Pod], NumPDBViolations = 0\<rparr>)] ''p'' \<lparr>queues = fmempty\<rparr> =
    Some (node, \<lparr>vi_Pods = [zero_Pod, zero_Pod], NumPDBViolations = 0\<rparr>)"
  using pickOneNode_least[of "[(zero_Node\<lparr>node_Name := ''a''\<rparr>, \<lparr>vi_Pods = [zero_Pod], NumPDBViolations = 1\<rparr>),
      (zero_Node\<lparr>node_Name := ''b''\<rparr>, \<lparr>vi_Pods = [zero_Pod, zero_Pod], NumPDBViolations = 0\<rparr>)]" "''p''" "\<lparr>queues = fmempty\<rparr>"]
  by (auto simp: preempt_cost_def preempt_keys_def)

subsection \<open>The victims on a node\<close>

text \<open>The parts of a node info that adding and removing pods leave alone.\<close>

definition static_part :: "NodeInfo \<Rightarrow> NodeInfo" where
  "static_part n = n\<lparr>ni_pods := [], podsWithAffinity := [], usedPorts := fmempty, requestedResource := emptyResource, nonzeroRequest := emptyResource, ni_generation := 0\<rparr>"

lemma static_part_steps:
  "static_part (fst (add_step L s p)) = static_part (fst s)" "static_part (fst (remove_step L s p)) = static_part (fst s)"
  by (auto simp: static_part_def add_step_def remove_step_def NodeInfo_AddPod_def NodeInfo_RemovePod_def nextGeneration_def Let_def
      split: prod.splits option.splits)

lemma trial_steps:
  "trial_add L M p (n, meta, g) = (let s = add_step L (n, g) p in (fst s, map_option (meta_AddPod M p (fst s)) meta, snd s))"
  "trial_remove L M p (n, meta, g) = (let s = remove_step L (n, g) p in (fst s, map_option (meta_RemovePod M p) meta, snd s))"
  by (simp_all add: trial_add_def trial_remove_def add_step_def remove_step_def Let_def split: prod.splits)

lemma add_step_pods: "ni_pods (fst (add_step L s p)) = ni_pods (fst s) @ [p]"
  by (metis NodeInfo_AddPod_facts(1) add_step_def prod.collapse)

lemma static_part_node: "static_part n = static_part i \<Longrightarrow> ni_node n = ni_node i"
  by (drule arg_cong[of _ _ ni_node]) (simp add: static_part_def)

text \<open>A placement without some pods, and the pods that the metadata can follow when they leave the node and come back.\<close>

definition without :: "placement set \<Rightarrow> Pod multiset \<Rightarrow> placement set" where
  "without P out = {x \<in> P. snd x \<notin># out}"

lemma without_none [simp]: "without P {#} = P"
  by (auto simp: without_def)

definition tracked :: "k8s \<Rightarrow> Pod \<Rightarrow> placement set \<Rightarrow> Node \<Rightarrow> Pod \<Rightarrow> bool" where
  "tracked L pod P node p \<longleftrightarrow> (\<forall>n. (n, p) \<in> P \<longleftrightarrow> n = node) \<and> followed L pod P (TryRemove p) \<and>
     (\<forall>i. ni_node i \<noteq> None \<longrightarrow> followed L pod P (TryAdd i p))"

lemma followed_subset: "followed L pod P x \<Longrightarrow> Q \<subseteq> P \<Longrightarrow> followed L pod Q x"
  by (cases x) (auto simp: followed_def)

lemma without_meta:
  assumes "tracked L pod P node p"
  shows "is_metadata L ignored pod (without P out) m \<Longrightarrow> is_metadata L ignored pod (without P (add_mset p out)) (meta_RemovePod (predicateMetadata_ops L) p m)"
    "is_metadata L ignored pod (without P (add_mset p out)) m \<Longrightarrow> p \<notin># out \<Longrightarrow> ni_node i = Some node \<Longrightarrow>
       is_metadata L ignored pod (without P out) (meta_AddPod (predicateMetadata_ops L) p i m)"
proof -
  have sub: "without P out \<subseteq> P" for out by (auto simp: without_def)
  have f: "followed L pod (without P out) (TryRemove p)" "ni_node i = Some node \<Longrightarrow> followed L pod (without P out) (TryAdd i p)" for out i
    using assms followed_subset[OF _ sub] by (simp_all add: tracked_def)
  have "track (without P out) (TryRemove p) = without P (add_mset p out)" by (auto simp: without_def)
  then show "is_metadata L ignored pod (without P (add_mset p out)) (meta_RemovePod (predicateMetadata_ops L) p m)"
    if "is_metadata L ignored pod (without P out) m" using pm.step[OF that f(1)] by simp
  have "track (without P (add_mset p out)) (TryAdd i p) = without P out" if "p \<notin># out" "ni_node i = Some node"
    using assms that by (auto simp: without_def tracked_def)
  then show "is_metadata L ignored pod (without P out) (meta_AddPod (predicateMetadata_ops L) p i m)"
    if "is_metadata L ignored pod (without P (add_mset p out)) m" "p \<notin># out" "ni_node i = Some node"
    using pm.step[OF that(1) f(2)[OF that(3)]] that(2,3) by simp
qed

text \<open>A trial of the node \<open>info\<close> on which the pods \<open>out\<close> are left out, with the metadata of the placement \<open>P\<close> without them.\<close>

definition trial_ok :: "k8s \<Rightarrow> string fset option list \<Rightarrow> Pod \<Rightarrow> placement set \<Rightarrow> NodeInfo \<Rightarrow> Pod multiset \<Rightarrow> predicateMetadata Preemption.trial \<Rightarrow> bool" where
  "trial_ok L ignored pod P info out t \<longleftrightarrow> (case t of (n, meta, g) \<Rightarrow>
     node_ok L (n, g) \<and> static_part n = static_part info \<and> mset (ni_pods n) + out = mset (ni_pods info) \<and>
     (\<exists>m. meta = Some m \<and> is_metadata L ignored pod (without P out) m))"

lemma trial_remove_ok:
  assumes "trial_ok L ignored pod P info out (n, meta, g)" "p \<in># mset (ni_pods n)" and tr: "tracked L pod P node p"
  shows "trial_ok L ignored pod P info (add_mset p out) (trial_remove L (predicateMetadata_ops L) p (n, meta, g))"
proof -
  have ok: "node_ok L (n, g)" using assms(1) by (simp add: trial_ok_def)
  note r = remove_step_facts(1,3)[OF ok, of p]
  have "mset (ni_pods n) + out = mset (ni_pods info)" using assms(1) by (simp add: trial_ok_def)
  then have "p \<in># mset (ni_pods info)" using assms(2) by (metis union_iff)
  then show ?thesis using assms(1,2) r static_part_steps(2)[of L "(n, g)" p] without_meta(1)[OF tr]
    by (auto simp: trial_ok_def trial_steps Let_def split: prod.splits)
qed

lemma trial_add_ok:
  assumes t: "trial_ok L ignored pod P info (add_mset p out) (n, meta, g)" and u: "uids_ok (ni_pods info)" "ports_disjoint (ni_pods info)"
    and node: "ni_node info = Some node" and tr: "tracked L pod P node p"
  shows "trial_ok L ignored pod P info out (trial_add L (predicateMetadata_ops L) p (n, meta, g))"
proof -
  have ok: "node_ok L (n, g)" and m: "add_mset p (mset (ni_pods n)) + out = mset (ni_pods info)" using t by (simp_all add: trial_ok_def)
  obtain m0 where m0: "meta = Some m0" "is_metadata L ignored pod (without P (add_mset p out)) m0" using t by (auto simp: trial_ok_def)
  obtain rest where rest: "out = mset rest" using ex_mset by metis
  have eq: "mset (p # ni_pods n @ rest) = mset (ni_pods info)" using m rest by simp
  have d: "distinct (map pod_UID (p # ni_pods n @ rest))" "[] \<notin> pod_UID ` set (p # ni_pods n @ rest)"
    using u(1) uids_ok_mset[OF eq] by (simp_all add: uids_ok_def)
  have s: "set (p # ni_pods n) \<subseteq> set (ni_pods info)" using mset_eq_setD[OF eq] by auto
  have "pod_ports p \<inter> pod_ports q = {}" if "q \<in> set (ni_pods n)" for q
  proof -
    have "p \<noteq> q" using d(1) that by auto
    then show ?thesis using u(2) s that by (auto simp: ports_disjoint_def)
  qed
  then have f: "node_fresh (n, g) p" using d by (auto simp: node_fresh_def)
  have out: "p \<notin># out" using d(1) rest by auto
  have st: "static_part (fst (add_step L (n, g) p)) = static_part info" using static_part_steps(1)[of L "(n, g)" p] t by (simp add: trial_ok_def)
  then have "ni_node (fst (add_step L (n, g) p)) = Some node" using static_part_node node by metis
  from without_meta(2)[OF tr m0(2) out this] show ?thesis
    using add_step_ok[OF ok f] st m m0(1) by (simp add: trial_ok_def trial_steps Let_def add_step_pods)
qed

text \<open>
  What the predicates have to satisfy: with the same metadata, the verdict on consistent node infos depends on the static part and the pods,
  not on the order of the pods or the generation.
\<close>

definition order_free :: "k8s \<Rightarrow> ('m Preemption.trial \<Rightarrow> bool) \<Rightarrow> bool" where
  "order_free L fits \<longleftrightarrow>
     (\<forall>n1 n2 m g1 g2. node_ok L (n1, g1) \<and> node_ok L (n2, g2) \<and> mset (ni_pods n1) = mset (ni_pods n2) \<and> static_part n1 = static_part n2 \<longrightarrow>
        fits (n1, Some m, g1) = fits (n2, Some m, g2))"

lemma trial_ok_fits:
  assumes "order_free L fits" "trial_ok L ignored pod P info out t" "trial_ok L ignored pod P info out t'"
  shows "fits t = fits t'"
proof -
  obtain n1 m1 g1 where t: "t = (n1, Some m1, g1)" "is_metadata L ignored pod (without P out) m1" using assms(2) by (auto simp: trial_ok_def)
  obtain n2 m2 g2 where t': "t' = (n2, Some m2, g2)" "is_metadata L ignored pod (without P out) m2" using assms(3) by (auto simp: trial_ok_def)
  have "mset (ni_pods n1) + out = mset (ni_pods n2) + out" using assms(2,3) t t' by (simp add: trial_ok_def)
  then have "mset (ni_pods n1) = mset (ni_pods n2)" by simp
  moreover have "node_ok L (n1, g1)" "node_ok L (n2, g2)" "static_part n1 = static_part n2" using assms(2,3) t t' by (simp_all add: trial_ok_def)
  ultimately have "fits (n1, Some m1, g1) = fits (n2, Some m1, g2)" using assms(1) unfolding order_free_def by blast
  then show ?thesis using is_metadata_unique[OF t(2) t'(2)] t(1) t'(1) by simp
qed

lemma reprieve_step:
  assumes st: "order_free L fits" and u: "uids_ok (ni_pods info)" "ports_disjoint (ni_pods info)" and tr: "ni_node info = Some node" "tracked L pod P node p"
    and t: "trial_ok L ignored pod P info (add_mset p out) t" "fits t"
  obtains t' ok where "reprievePod L (predicateMetadata_ops L) fits p (t, vs) = ((t', if ok then vs else vs @ [p]), ok)" "fits t'"
    "trial_ok L ignored pod P info (if ok then out else add_mset p out) t'"
proof -
  let ?M = "predicateMetadata_ops L"
  obtain n meta g where tt: "t = (n, meta, g)" by (metis prod.exhaust)
  obtain n1 meta1 g1 where a: "trial_add L ?M p t = (n1, meta1, g1)" by (metis prod.exhaust)
  have ok1: "trial_ok L ignored pod P info out (n1, meta1, g1)" using trial_add_ok[OF t(1)[unfolded tt] u tr] a tt by simp
  show ?thesis
  proof (cases "fits (n1, meta1, g1)")
    case True
    then show ?thesis using that[of "(n1, meta1, g1)" True] a ok1 by (simp add: reprievePod_def)
  next
    case False
    have "add_step L (n, g) p = (n1, g1)" using a by (auto simp: tt trial_steps Let_def prod_eq_iff)
    then have "p \<in># mset (ni_pods n1)" using add_step_pods[of L "(n, g)" p] by simp
    then have ok2: "trial_ok L ignored pod P info (add_mset p out) (trial_remove L ?M p (n1, meta1, g1))" by (rule trial_remove_ok[OF ok1 _ tr(2)])
    show ?thesis using that[of "trial_remove L ?M p (n1, meta1, g1)" False] trial_ok_fits[OF st t(1) ok2] ok2 a t(2) False by (simp add: reprievePod_def)
  qed
qed

abbreviation reprieve_count :: "k8s \<Rightarrow> 'm PredicateMetadata \<Rightarrow> ('m Preemption.trial \<Rightarrow> bool) \<Rightarrow> ('m Preemption.trial \<times> Pod list) \<times> nat \<Rightarrow> Pod list \<Rightarrow> ('m Preemption.trial \<times> Pod list) \<times> nat" where
  "reprieve_count L M fits s ps \<equiv> foldl (\<lambda>(s, n) p. case reprievePod L M fits p s of (s', ok) \<Rightarrow> (s', if \<not> ok then n + 1 else n)) s ps"

lemma reprieve_count_fst: "foldl (\<lambda>s p. fst (reprievePod L M fits p s)) s ps = fst (reprieve_count L M fits (s, n) ps)"
  by (induction ps arbitrary: s n) (auto split: prod.splits)

lemma reprieve_loop:
  assumes st: "order_free L fits" and u: "uids_ok (ni_pods info)" "ports_disjoint (ni_pods info)" and node: "ni_node info = Some node"
  shows "trial_ok L ignored pod P info (mset ps + out) t \<Longrightarrow> fits t \<Longrightarrow> \<forall>p \<in> set ps. tracked L pod P node p \<Longrightarrow>
    \<exists>t' ws. reprieve_count L (predicateMetadata_ops L) fits ((t, vs), n) ps = ((t', vs @ ws), n + length ws) \<and> fits t' \<and>
      trial_ok L ignored pod P info (mset ws + out) t' \<and> set ws \<subseteq> set ps"
proof (induction ps arbitrary: t vs n out)
  case (Cons p ps)
  let ?M = "predicateMetadata_ops L"
  obtain t1 ok where 1: "reprievePod L ?M fits p (t, vs) = ((t1, if ok then vs else vs @ [p]), ok)" "fits t1"
    "trial_ok L ignored pod P info (if ok then mset ps + out else add_mset p (mset ps + out)) t1"
    by (rule reprieve_step[OF st u node, of pod P p ignored "mset ps + out" t vs]) (use Cons.prems in \<open>auto intro: that\<close>)
  show ?case
  proof (cases ok)
    case True
    then show ?thesis using 1 Cons.IH[of out t1 vs n] Cons.prems(3) by auto
  next
    case False
    then have "trial_ok L ignored pod P info (mset ps + add_mset p out) t1" using 1(3) by simp
    from Cons.IH[OF this 1(2), of "vs @ [p]" "n + 1"] Cons.prems(3) obtain t' ws where
      "reprieve_count L ?M fits ((t1, vs @ [p]), n + 1) ps = ((t', (vs @ [p]) @ ws), n + 1 + length ws)" "fits t'"
      "trial_ok L ignored pod P info (mset ws + add_mset p out) t'" "set ws \<subseteq> set ps" by auto
    then show ?thesis using 1(1) False by (intro exI[of _ t'] exI[of _ "p # ws"]) auto
  qed
qed auto

lemma remove_candidates:
  assumes "trial_ok L ignored pod P info out t" "mset ps \<subseteq># mset (ni_pods (fst t))" "\<forall>p \<in> set ps. tracked L pod P node p"
  shows "trial_ok L ignored pod P info (mset ps + out) (foldl (\<lambda>t p. trial_remove L (predicateMetadata_ops L) p t) t ps)"
  using assms
proof (induction ps arbitrary: t out)
  case (Cons p ps)
  let ?M = "predicateMetadata_ops L"
  obtain n meta g where t: "t = (n, meta, g)" by (metis prod.exhaust)
  obtain n1 meta1 g1 where r: "trial_remove L ?M p t = (n1, meta1, g1)" by (metis prod.exhaust)
  have p: "p \<in># mset (ni_pods n)" using Cons.prems(2) t by (auto dest: mset_subset_eqD)
  have ok: "node_ok L (n, g)" using Cons.prems(1) t by (simp add: trial_ok_def)
  have "remove_step L (n, g) p = (n1, g1)" using r t by (auto simp: trial_steps Let_def prod_eq_iff)
  then have "mset (ni_pods n1) = mset (ni_pods n) - {#p#}" using remove_step_facts(1)[OF ok, of p] p by simp
  then have "mset ps \<subseteq># mset (ni_pods (fst (n1, meta1, g1)))" using Cons.prems(2) t
    by (metis fst_conv insert_subset_eq_iff mset.simps(2))
  from Cons.IH[OF _ this, of "add_mset p out"] show ?case
    using trial_remove_ok[OF Cons.prems(1)[unfolded t] p, of node] Cons.prems(3) r t by simp
qed simp

text \<open>The loops together: the victims are some of the candidates, and the last trial leaves out exactly them.\<close>

lemma selectVictims_trial:
  assumes sel: "selectVictimsOnNode L (predicateMetadata_ops L) gosort selector_Empty predOrd qord g poolName pod (Some m) (Some info) fitPredicates pq pdbs = Some (victims, numViolating)"
    and sort: "\<And>lt xs. mset (gosort lt xs) = mset xs" and ok: "node_ok L (info, g)" and m: "is_metadata L ignored pod P m"
    and st: "order_free L (trial_fits L (predicateMetadata_ops L) predOrd qord pod fitPredicates pq)"
    and tr: "ni_node info = Some node" "\<forall>p \<in> set (ni_pods info). potential_victim pq poolName pod p \<longrightarrow> tracked L pod P node p"
  shows "set victims \<subseteq> {p \<in> set (ni_pods info). potential_victim pq poolName pod p}"
    "numViolating = length (filter (\<lambda>v. pod_Labels v \<noteq> [] \<and> list_ex (pdb_violated L selector_Empty v) pdbs) victims)"
    "\<exists>t. trial_ok L ignored pod P info (mset victims) t \<and> trial_fits L (predicateMetadata_ops L) predOrd qord pod fitPredicates pq t"
proof -
  let ?M = "predicateMetadata_ops L"
  let ?fits = "trial_fits L ?M predOrd qord pod fitPredicates pq" and ?V = "\<lambda>v. pod_Labels v \<noteq> [] \<and> list_ex (pdb_violated L selector_Empty v) pdbs"
  define cs where "cs = filter (potential_victim pq poolName pod) (ni_pods info)"
  define pv where "pv = gosort (SelfPoolHasHigherPriorityFunc poolName) cs"
  let ?t = "foldl (\<lambda>t p. trial_remove L ?M p t) (info, Some m, g) cs"
  have u: "uids_ok (ni_pods info)" "ports_disjoint (ni_pods info)" using ok by (simp_all add: node_ok_def)
  have pv: "mset pv = mset cs" by (simp add: pv_def sort)
  have trc: "\<forall>p \<in> set cs. tracked L pod P node p" "\<forall>p \<in> set pv. tracked L pod P node p"
    using tr(2) mset_eq_setD[OF pv] by (auto simp: cs_def)
  have f: "?fits ?t" using sel by (auto simp: selectVictimsOnNode_def Let_def cs_def split: if_splits)
  have t: "trial_ok L ignored pod P info (mset cs) ?t"
    using remove_candidates[of L ignored pod P info "{#}" "(info, Some m, g)" cs node] ok m trc(1)
    by (simp add: trial_ok_def cs_def multiset_filter_subset)
  have split: "mset (filter ?V pv) + mset (filter (\<lambda>v. \<not> ?V v) pv) = mset cs" using pv by (metis mset_filter multiset_partition)
  obtain t1 ws1 where 1: "reprieve_count L ?M ?fits ((?t, []), 0) (filter ?V pv) = ((t1, ws1), length ws1)" "?fits t1"
    "trial_ok L ignored pod P info (mset ws1 + mset (filter (\<lambda>v. \<not> ?V v) pv)) t1" "set ws1 \<subseteq> set (filter ?V pv)"
    using reprieve_loop[OF st u tr(1), of ignored pod P "filter ?V pv" "mset (filter (\<lambda>v. \<not> ?V v) pv)" ?t "[]" 0] t f split trc(2) by auto
  obtain t2 ws2 where 2: "reprieve_count L ?M ?fits ((t1, ws1), 0) (filter (\<lambda>v. \<not> ?V v) pv) = ((t2, ws1 @ ws2), length ws2)" "?fits t2"
    "trial_ok L ignored pod P info (mset ws2 + mset ws1) t2" "set ws2 \<subseteq> set (filter (\<lambda>v. \<not> ?V v) pv)"
    using reprieve_loop[OF st u tr(1), of ignored pod P "filter (\<lambda>v. \<not> ?V v) pv" "mset ws1" t1 ws1 0] 1(2,3) trc(2) by (auto simp: add.commute)
  have res: "victims = ws1 @ ws2" "numViolating = length ws1"
    using sel f 1(1) 2(1) reprieve_count_fst[of L ?M ?fits "(t1, ws1)" "filter (\<lambda>v. \<not> ?V v) pv" 0]
    by (auto simp: selectVictimsOnNode_def Let_def cs_def pv_def filterPodsWithPDBViolation_def split: if_splits prod.splits)
  show "set victims \<subseteq> {p \<in> set (ni_pods info). potential_victim pq poolName pod p}" using 1(4) 2(4) res(1) mset_eq_setD[OF pv] by (auto simp: cs_def)
  have "filter ?V ws1 = ws1" "filter ?V ws2 = []" using 1(4) 2(4) by (auto simp: filter_id_conv filter_empty_conv)
  then show "numViolating = length (filter ?V victims)" using res by simp
  show "\<exists>t. trial_ok L ignored pod P info (mset victims) t \<and> ?fits t" using 2(2,3) res(1) by (intro exI[of _ t2]) (simp add: add.commute)
qed

text \<open>The conditions under which the metadata follows a candidate: its name is not the pod's and is given to no other pod of the cluster, it has a node name if
  the pod has affinity, and it matches all of the pod's anti-affinity terms or none.\<close>

definition victim_followed :: "k8s \<Rightarrow> Pod \<Rightarrow> node_info_map \<Rightarrow> string \<Rightarrow> Pod \<Rightarrow> bool" where
  "victim_followed L pod infos name p \<longleftrightarrow> GetPodFullName p \<noteq> GetPodFullName pod \<and> (pod_Affinity pod \<noteq> None \<longrightarrow> pod_NodeName p \<noteq> []) \<and>
     ((\<exists>t \<in> set (anti_terms pod). term_matches L pod t p) \<longrightarrow> (\<forall>t \<in> set (anti_terms pod). term_matches L pod t p)) \<and>
     (\<forall>other i q. fmlookup infos other = Some i \<and> q \<in> set (ni_pods i) \<and> GetPodFullName q = GetPodFullName p \<longrightarrow> other = name \<and> q = p)"

lemma victim_tracked:
  assumes "cluster_ok L infos" "own_terms_ok L pod" "fmlookup infos name = Some info" "ni_node info = Some node" "p \<in> set (ni_pods info)"
    and v: "victim_followed L pod infos name p"
  shows "tracked L pod (placements infos) node p"
proof -
  have in_name: "(n, q) \<in> placements infos \<Longrightarrow> GetPodFullName q = GetPodFullName p \<Longrightarrow> n = node \<and> q = p" for n q
    using v assms(3,4) unfolding victim_followed_def placed_on_def by fastforce
  have "(node, p) \<in> placements infos" using assms(3-5) by (auto simp: placed_on_def dest: fmdomI)
  then have only: "(n, p) \<in> placements infos \<longleftrightarrow> n = node" for n using in_name by blast
  have "valid_terms L (anti_terms p)" by (rule cluster_okE[OF assms(1,3)]) (use assms(5) in blast)
  then have "followed L pod (placements infos) (TryAdd i p)" if "ni_node i \<noteq> None" for i
    using that v assms(2) by (simp add: followed_def victim_followed_def)
  moreover have "followed L pod (placements infos) (TryRemove p)" using v in_name unfolding followed_def victim_followed_def by fastforce
  ultimately show ?thesis using only by (simp only: tracked_def) blast
qed

text \<open>The cluster from which the victims are gone.\<close>

lemma placements_without:
  assumes name: "fmlookup infos name = Some info" and pods: "mset (ni_pods info') + mset victims = mset (ni_pods info)" "uids_ok (ni_pods info)"
    and node: "ni_node info' = ni_node info" and v: "\<forall>p \<in> set victims. victim_followed L pod infos name p"
  shows "placements (fmupd name info' infos) = without (placements infos) (mset victims)"
proof -
  have eq: "mset (ni_pods info' @ victims) = mset (ni_pods info)" using pods(1) by simp
  have "distinct (map pod_UID (ni_pods info' @ victims))" using pods(2) uids_ok_mset[OF eq] by (simp add: uids_ok_def)
  then have "set (ni_pods info') \<inter> set victims = {}" by (auto simp: distinct_map)
  then have here: "set (ni_pods info') = set (ni_pods info) - set victims" using mset_eq_setD[OF eq] by auto
  have there: "q \<notin> set victims" if "fmlookup infos other = Some i" "q \<in> set (ni_pods i)" "other \<noteq> name" for other i q
    using v that unfolding victim_followed_def by blast
  have P: "(n, q) \<in> placements db \<longleftrightarrow> (\<exists>other i. fmlookup db other = Some i \<and> ni_node i = Some n \<and> q \<in> set (ni_pods i))" for n q db
    by (auto simp: placed_on_def dest: fmdomI)
  have "(n, q) \<in> placements (fmupd name info' infos) \<longleftrightarrow> (n, q) \<in> without (placements infos) (mset victims)" for n q
  proof
    assume "(n, q) \<in> placements (fmupd name info' infos)"
    then show "(n, q) \<in> without (placements infos) (mset victims)"
      unfolding without_def mem_Collect_eq P using name here there node by (auto split: if_splits)
  next
    assume "(n, q) \<in> without (placements infos) (mset victims)"
    then obtain other i where i: "fmlookup infos other = Some i" "ni_node i = Some n" "q \<in> set (ni_pods i)" "q \<notin> set victims"
      unfolding without_def mem_Collect_eq P by auto
    then show "(n, q) \<in> placements (fmupd name info' infos)"
      unfolding P using name here node by (intro exI[of _ other] exI[of _ "if other = name then info' else i"]) auto
  qed
  then show ?thesis by auto
qed

lemma cluster_ok_update:
  assumes "cluster_ok L infos" "fmlookup infos name = Some info" "ni_node info' = ni_node info" "ni_inv L info'" "set (ni_pods info') \<subseteq> set (ni_pods info)"
  shows "cluster_ok L (fmupd name info' infos)"
proof -
  have "set (podsWithAffinity info') = {p \<in> set (ni_pods info'). hasPodAffinityConstraints p}"
    using assms(4) by (metis ni_inv_def set_mset_filter set_mset_mset)
  then show ?thesis using assms by (auto simp: cluster_ok_def)
qed

text \<open>
  C6. The victims on a node. When \<open>selectVictimsOnNode\<close> finds a node suitable, every victim is a pod of the node that this scheduler
  is responsible for and that either runs on borrowed resources, its own pool being another one, or has a lower
  priority than the pod; the number it reports is that of the victims whose disruption budget is used up; and once exactly
  the victims are gone from the node, \<open>podFitsOnNode\<close> accepts the pod there, with the metadata that \<open>GetMetadata\<close> computes afresh for the cluster without the victims.
  This is for the metadata operations of the package, starting from the metadata that \<open>GetMetadata\<close> computed for the cluster, without service affinity. It is assumed that the node info is consistent
  with its pods, whose UIDs are distinct and not empty and whose host ports do not clash; that sorting permutes; that a verdict with the same metadata does not depend on the order of the pods
  or the generation of a node info; that the cluster has known nodes, complete lists of pods with affinity and valid anti-affinity selectors, as has the pod for its own terms; and that each pod of the node that can become a victim has a name that
  neither the pod nor another placed pod has, has a node name if the pod has affinity, and matches all of the pod's anti-affinity terms or none of them. (A candidate that matches only some
  is recorded under all of them when it is put back, lemma \<open>anti_affinity_overestimated\<close>.)
\<close>

theorem victims_make_room:
  assumes sel: "selectVictimsOnNode L (predicateMetadata_ops L) gosort selector_Empty predOrd qord g poolName pod (Some m) (Some info) fitPredicates pq pdbs = Some (victims, numViolating)"
    and sort: "\<And>lt xs. mset (gosort lt xs) = mset xs" and ok: "node_ok L (info, g)"
    and cluster: "cluster_ok L infos" "own_terms_ok L pod" "set ord1 = fset (fmdom infos)" "set ord2 = fset (fmdom infos)"
    and m: "GetMetadata L (map extendedResourceProducer ignored) ord1 ord2 pod infos = Some m"
    and here: "fmlookup infos name = Some info" "\<forall>p \<in> set (ni_pods info). potential_victim pq poolName pod p \<longrightarrow> victim_followed L pod infos name p"
    and st: "order_free L (trial_fits L (predicateMetadata_ops L) predOrd qord pod fitPredicates pq)"
  shows "(\<forall>v \<in> set victims. v \<in> set (ni_pods info) \<and> ResponsibleForPod v ''ai-scheduler'' \<and>
      (GetPoolQueueNameIfNotPresent pq v \<noteq> poolName \<or> sint (GetPodPriority v) < sint (GetPodPriority pod))) \<and>
    numViolating = length (filter (\<lambda>v. pod_Labels v \<noteq> [] \<and> list_ex (pdb_violated L selector_Empty v) pdbs) victims) \<and>
    (\<exists>info' g'. node_ok L (info', g') \<and> static_part info' = static_part info \<and> mset (ni_pods info') + mset victims = mset (ni_pods info)) \<and>
    (\<forall>info' g'. node_ok L (info', g') \<and> static_part info' = static_part info \<and> mset (ni_pods info') + mset victims = mset (ni_pods info) \<longrightarrow>
       (\<exists>m'. GetMetadata L (map extendedResourceProducer ignored) ord1 ord2 pod (fmupd name info' infos) = Some m' \<and>
          trial_fits L (predicateMetadata_ops L) predOrd qord pod fitPredicates pq (info', Some m', g')))"
proof -
  let ?fits = "trial_fits L (predicateMetadata_ops L) predOrd qord pod fitPredicates pq"
  obtain node where node: "ni_node info = Some node" using cluster(1) here(1) by (rule cluster_okE)
  have im: "is_metadata L ignored pod (placements infos) m" using GetMetadata_is[OF cluster, of ignored] m by (metis option.inject)
  have "\<forall>p \<in> set (ni_pods info). potential_victim pq poolName pod p \<longrightarrow> tracked L pod (placements infos) node p"
    using victim_tracked[OF cluster(1,2) here(1) node] here(2) by blast
  note trial = selectVictims_trial[OF sel sort ok im st node this]
  have "v \<in> set (ni_pods info) \<and> ResponsibleForPod v ''ai-scheduler'' \<and>
      (GetPoolQueueNameIfNotPresent pq v \<noteq> poolName \<or> sint (GetPodPriority v) < sint (GetPodPriority pod))" if "v \<in> set victims" for v
    using that trial(1) by (auto simp: potential_victim_def Let_def word_sless_alt)
  moreover obtain t where t: "trial_ok L ignored pod (placements infos) info (mset victims) t" "?fits t" using trial(3) by blast
  moreover have "\<exists>info' g'. node_ok L (info', g') \<and> static_part info' = static_part info \<and> mset (ni_pods info') + mset victims = mset (ni_pods info)"
    using t(1) by (auto simp: trial_ok_def)
  moreover have "\<exists>m'. GetMetadata L (map extendedResourceProducer ignored) ord1 ord2 pod (fmupd name info' infos) = Some m' \<and> ?fits (info', Some m', g')"
    if i: "node_ok L (info', g')" "static_part info' = static_part info" "mset (ni_pods info') + mset victims = mset (ni_pods info)" for info' g'
  proof -
    have "set (ni_pods info') \<subseteq> set (ni_pods info)" using i(3) by (metis set_mset_mset set_mset_union Un_upper1)
    then have c: "cluster_ok L (fmupd name info' infos)"
      using cluster_ok_update[OF cluster(1) here(1) static_part_node[OF i(2)]] i(1) by (simp add: node_ok_def)
    have P: "placements (fmupd name info' infos) = without (placements infos) (mset victims)"
      using placements_without[OF here(1) i(3) _ static_part_node[OF i(2)]] ok here(2) trial(1) by (auto simp: node_ok_def)
    have dom: "fset (fmdom (fmupd name info' infos)) = fset (fmdom infos)" using here(1) by (auto dest: fmdomI)
    obtain m' where m': "GetMetadata L (map extendedResourceProducer ignored) ord1 ord2 pod (fmupd name info' infos) = Some m'"
        "is_metadata L ignored pod (without (placements infos) (mset victims)) m'"
      using GetMetadata_is[OF c cluster(2), of ord1 ord2 ignored] cluster(3,4) dom P by metis
    then have "trial_ok L ignored pod (placements infos) info (mset victims) (info', Some m', g')" using i by (simp add: trial_ok_def)
    then show ?thesis using trial_ok_fits[OF st t(1)] t(2) m'(1) by blast
  qed
  ultimately show ?thesis using trial(2) by blast
qed

text \<open>The resource predicate has a stable verdict.\<close>

lemma PodFitsResources_stable:
  assumes "ni_inv L n1" "ni_inv L n2" "mset (ni_pods n1) = mset (ni_pods n2)" "static_part n1 = static_part n2"
  shows "PodFitsResources L rord pod meta (Some n1) = PodFitsResources L rord pod meta (Some n2)"
proof -
  have am: "amount (requestedResource n1) d = amount (requestedResource n2) d" for d using assms(1-3) by (simp add: ni_inv_def)
  have st: "ni_node n1 = ni_node n2" "allocatableResource n1 = allocatableResource n2"
    using arg_cong[OF assms(4), of ni_node] arg_cong[OF assms(4), of allocatableResource] by (simp_all add: static_part_def)
  have sc: "scalar_of (requestedResource n1) = scalar_of (requestedResource n2)" by (rule ext) (use am[of "Scalar _"] in simp)
  have len: "length (ni_pods n1) = length (ni_pods n2)" using assms(3) by (rule mset_eq_length)
  show ?thesis
    unfolding PodFitsResources_def NodeInfo_Node_def NodeInfo_Pods_def NodeInfo_AllowedPodNumber_def RequestedResource_def AllocatableResource_def Let_def
      Option.bind.bind_lunit option.case st sc len am[of CPU, unfolded amount.simps] am[of Mem, unfolded amount.simps] am[of Eph, unfolded amount.simps] ..
qed

definition example_victim :: Pod where
  "example_victim = zero_Pod\<lparr>pod_UID := ''v'', pod_SchedulerName := ''ai-scheduler'', pod_Labels := [(''app'', ''x'')]\<rparr>"

definition example_full_node :: NodeInfo where
  "example_full_node = fst (NodeInfo_AddPod example_k8s example_node_info example_victim \<lparr>generation = 1, transients = []\<rparr>)"

definition example_preemptor :: Pod where
  "example_preemptor = example_request\<lparr>pod_Priority := Some 1\<rparr>"

definition example_budget :: PodDisruptionBudget where
  "example_budget = \<lparr>pdb_Namespace = [], pdb_Selector = Some \<lparr>MatchLabels = [(''app'', ''x'')], MatchExpressions = []\<rparr>, PodDisruptionsAllowed = 0\<rparr>"

definition plain_meta :: "predicateMetadata PredicateMetadata" where
  "plain_meta = \<lparr>ShallowCopy = (\<lambda>m. m), meta_AddPod = (\<lambda>_ _ m. m), meta_RemovePod = (\<lambda>_ m. m)\<rparr>"

definition resource_predicates :: "(string, predicateMetadata FitPredicate) fmap" where
  "resource_predicates = fmap_of_list [(''PodFitsResources'', PodFitsResources example_k8s [])]"

text \<open>A node with room for two pods that runs two. The pod that preempts must not share a zone with one of them, so that this one has to leave, and
  its metadata has to follow; the other one is reprieved.\<close>

definition web_victim :: Pod where
  "web_victim = web_pod\<lparr>pod_SchedulerName := ''ai-scheduler''\<rparr>"

definition idle_victim :: Pod where
  "idle_victim = zero_Pod\<lparr>pod_Name := ''idle'', pod_UID := ''u3'', pod_SchedulerName := ''ai-scheduler'', pod_Labels := [(''app'', ''x'')], pod_NodeName := ''n1''\<rparr>"

definition shy_preemptor :: Pod where
  "shy_preemptor = shy_pod\<lparr>pod_Priority := Some 1\<rparr>"

definition two_pod_node :: NodeInfo where
  "two_pod_node = (let i0 = (fst (NewNodeInfo example_k8s [] \<lparr>generation = 0, transients = []\<rparr>))\<lparr>ni_node := Some zone_node, allocatableResource := emptyResource\<lparr>AllowedPodNumber := 2\<rparr>\<rparr>
     in fst (add_step example_k8s (add_step example_k8s (i0, \<lparr>generation = 1, transients = []\<rparr>) web_victim) idle_victim))"

definition shy_cluster :: "NodeInfo \<Rightarrow> node_info_map" where
  "shy_cluster info = fmap_of_list [(''n1'', info)]"

definition two_pod_metadata :: "predicateMetadata option" where
  "two_pod_metadata = GetMetadata example_k8s (map extendedResourceProducer []) [''n1''] [''n1''] shy_preemptor (shy_cluster two_pod_node)"

definition two_predicates :: "PodAffinityChecker \<Rightarrow> (string, predicateMetadata FitPredicate) fmap" where
  "two_predicates c = fmap_of_list [(''PodFitsResources'', PodFitsResources example_k8s []), (''MatchInterPodAffinity'', InterPodAffinityMatches example_k8s c)]"

definition web_budget :: PodDisruptionBudget where
  "web_budget = \<lparr>pdb_Namespace = [], pdb_Selector = Some \<lparr>MatchLabels = [(''app'', ''web'')], MatchExpressions = []\<rparr>, PodDisruptionsAllowed = 0\<rparr>"

abbreviation shy_fits :: "PodAffinityChecker \<Rightarrow> predicateMetadata Preemption.trial \<Rightarrow> bool" where
  "shy_fits c \<equiv> trial_fits example_k8s (predicateMetadata_ops example_k8s) [''PodFitsResources'', ''MatchInterPodAffinity''] [] shy_preemptor (two_predicates c) \<lparr>queues = fmempty\<rparr>"

definition shy_selection :: "PodAffinityChecker \<Rightarrow> (Pod list \<times> nat) option" where
  "shy_selection c = selectVictimsOnNode example_k8s (predicateMetadata_ops example_k8s) (\<lambda>_ xs. xs) (\<lambda>_. False) [''PodFitsResources'', ''MatchInterPodAffinity''] []
     \<lparr>generation = 3, transients = []\<rparr> [] shy_preemptor two_pod_metadata (Some two_pod_node) (two_predicates c) \<lparr>queues = fmempty\<rparr> [web_budget]"

lemma shy_fits_iff:
  "shy_fits c (n, Some m, g) \<longleftrightarrow> PodFitsResources example_k8s [] shy_preemptor (Some m) (Some n) = Inr (True, []) \<and>
     InterPodAffinityMatches example_k8s c shy_preemptor (Some m) (Some n) = Inr (True, [])"
proof -
  let ?r = "PodFitsResources example_k8s [] shy_preemptor (Some m) (Some n)" and ?a = "InterPodAffinityMatches example_k8s c shy_preemptor (Some m) (Some n)"
  have add: "addNominatedPods example_k8s M [] g shy_preemptor meta (Some n) \<lparr>queues = fmempty\<rparr> = (False, meta, Some n)" for meta and M :: "predicateMetadata PredicateMetadata"
    by (simp add: addNominatedPods_def PoolQueue_NominatedPodsForNode_def List.map_filter_def split: option.splits)
  have "?r = Inr (fit, reasons) \<Longrightarrow> fit \<longleftrightarrow> reasons = []" "?a = Inr (fit, reasons) \<Longrightarrow> fit \<longleftrightarrow> reasons = []" for fit reasons
    using resources.explained inter_pod.explained by blast+
  then show ?thesis
    by (cases ?r; cases ?a) (auto simp: trial_fits_def podFitsOnNode_def two_predicates_def add split: prod.splits sum.splits if_splits)
qed

lemma shy_order_free: "order_free example_k8s (shy_fits c)"
proof -
  have "InterPodAffinityMatches example_k8s c shy_preemptor (Some m) (Some n1) = InterPodAffinityMatches example_k8s c shy_preemptor (Some m) (Some n2)"
    if "static_part n1 = static_part n2" for m n1 n2
  proof -
    have eq: "NodeInfo_Node (Some n1) = NodeInfo_Node (Some n2)" using static_part_node[OF that] by (simp add: NodeInfo_Node_def)
    show ?thesis
      unfolding InterPodAffinityMatches_def satisfiesExistingPodsAntiAffinity_def satisfiesPodsAffinityAntiAffinity_def option.case eq ..
  qed
  then show ?thesis unfolding order_free_def shy_fits_iff node_ok_def fst_conv
    using PodFitsResources_stable[of example_k8s _ _ "[]" shy_preemptor] by metis
qed

lemma shy_terms:
  "anti_terms shy_preemptor = [web_term]" "required_terms shy_preemptor = []" "anti_terms web_victim = []" "anti_terms idle_victim = []"
  "term_matches example_k8s shy_preemptor web_term web_victim" "\<not> term_matches example_k8s shy_preemptor web_term idle_victim"
  by (simp_all add: anti_terms_def required_terms_def shy_preemptor_def shy_pod_def web_victim_def web_pod_def idle_victim_def zero_Pod_def GetPodAntiAffinityTerms_def
      GetPodAffinityTerms_def web_term_def example_k8s_def term_matches_def GetNamespacesFromPodAffinityTerm_def)

lemma shy_names:
  "GetPodFullName web_victim \<noteq> GetPodFullName shy_preemptor" "GetPodFullName idle_victim \<noteq> GetPodFullName shy_preemptor"
  "GetPodFullName web_victim \<noteq> GetPodFullName idle_victim" "pod_NodeName web_victim = ''n1''" "pod_NodeName idle_victim = ''n1''"
  by (simp_all add: GetPodFullName_def web_victim_def web_pod_def idle_victim_def shy_preemptor_def shy_pod_def zero_Pod_def)

lemma two_pod_node_facts:
  "ni_pods two_pod_node = [web_victim, idle_victim]" "ni_node two_pod_node = Some zone_node" "AllowedPodNumber (allocatableResource two_pod_node) = 2"
  "node_ok example_k8s (two_pod_node, g)"
proof -
  show "ni_node two_pod_node = Some zone_node" "AllowedPodNumber (allocatableResource two_pod_node) = 2" by code_simp+
  let ?i = "(fst (NewNodeInfo example_k8s [] \<lparr>generation = 0, transients = []\<rparr>))\<lparr>ni_node := Some zone_node, allocatableResource := emptyResource\<lparr>AllowedPodNumber := 2\<rparr>\<rparr>"
  let ?s = "(?i, \<lparr>generation = 1, transients = []\<rparr>)"
  have i: "ni_pods ?i = []" by code_simp
  have "node_ok example_k8s ?s"
    using node_ok_new[of example_k8s "\<lparr>generation = 0, transients = []\<rparr>"] by (simp add: node_ok_def ni_inv_def)
  moreover have "node_fresh ?s web_victim" "node_fresh (add_step example_k8s ?s web_victim) idle_victim"
    by (auto simp: node_fresh_def add_step_pods i, simp_all add: web_victim_def web_pod_def idle_victim_def zero_Pod_def pod_ports_def)
  ultimately show "node_ok example_k8s (two_pod_node, g)" unfolding two_pod_node_def Let_def by (metis add_step_ok fst_conv node_ok_def)
  show "ni_pods two_pod_node = [web_victim, idle_victim]" by (simp add: two_pod_node_def add_step_pods i del: fst_conv) (simp add: i)
qed

lemma shy_verdict:
  assumes "trial_ok example_k8s [] shy_preemptor ({zone_node} \<times> {web_victim, idle_victim}) two_pod_node out t"
  shows "shy_fits c t \<longleftrightarrow> web_victim \<in># out"
proof -
  obtain n m g where t: "t = (n, Some m, g)" and ok: "static_part n = static_part two_pod_node" "mset (ni_pods n) + out = {#web_victim, idle_victim#}"
      "is_metadata example_k8s [] shy_preemptor (without ({zone_node} \<times> {web_victim, idle_victim}) out) m"
    using assms by (auto simp: trial_ok_def two_pod_node_facts(1))
  have n: "ni_node n = Some zone_node" using static_part_node[OF ok(1)] two_pod_node_facts(2) by simp
  have alloc: "AllowedPodNumber (allocatableResource n) = 2"
    using arg_cong[OF ok(1), of allocatableResource] two_pod_node_facts(3) by (simp add: static_part_def)
  have own: "own_terms_ok example_k8s shy_preemptor" using shy_terms(1,2) zone_terms(5) by (simp add: own_terms_ok_def del: valid_terms_simps(2))
  have d: "distinct (map fst (node_Labels zone_node))" "same_domain zone_node zone_node web_term"
    using zone_terms(7) by (simp_all add: same_domain_def zone_node_def)
  have a: "InterPodAffinityMatches example_k8s c shy_preemptor (Some m) (Some n) = Inr (True, []) \<longleftrightarrow> web_victim \<in># out"
    unfolding InterPodAffinity_iff[OF ok(3) own n d(1)]
    by (auto simp: shy_terms without_def d(2)) (use shy_terms(5) d(2) in blast)
  have "size (mset (ni_pods n)) + size out = 2" using arg_cong[OF ok(2), of size] by simp
  then have "length (ni_pods n) \<le> 1" if "web_victim \<in># out" using that by (cases out) auto
  moreover have "PodFitsResources example_k8s [] shy_preemptor (Some m) (Some n) = Inr (True, [])" if "length (ni_pods n) \<le> 1"
  proof -
    have "podRequest m = GetResourceRequest example_k8s shy_preemptor" using ok(3) by (simp add: is_metadata_def)
    moreover have "GetResourceRequest example_k8s shy_preemptor = emptyResource" by code_simp
    ultimately have "podRequest m = emptyResource" by simp
    moreover have "length (ni_pods n) = 0 \<or> length (ni_pods n) = 1" using that by linarith
    ultimately show ?thesis
      by (auto simp: PodFitsResources_def NodeInfo_Node_def n NodeInfo_AllowedPodNumber_def NodeInfo_Pods_def alloc Let_def word_sless_alt emptyResource_def scalar_map_def)
  qed
  ultimately show ?thesis unfolding t shy_fits_iff a by blast
qed

lemma shy_reprieve:
  assumes t: "trial_ok example_k8s [] shy_preemptor ({zone_node} \<times> {web_victim, idle_victim}) two_pod_node {#web_victim, idle_victim#} t"
    and tr: "\<forall>p \<in> {web_victim, idle_victim}. tracked example_k8s shy_preemptor ({zone_node} \<times> {web_victim, idle_victim}) zone_node p"
  obtains t1 t2 where "reprievePod example_k8s (predicateMetadata_ops example_k8s) (shy_fits c) web_victim (t, []) = ((t1, [web_victim]), False)"
    "reprievePod example_k8s (predicateMetadata_ops example_k8s) (shy_fits c) idle_victim (t1, [web_victim]) = ((t2, [web_victim]), True)"
proof -
  let ?M = "predicateMetadata_ops example_k8s"
  have u: "uids_ok (ni_pods two_pod_node)" "ports_disjoint (ni_pods two_pod_node)" using two_pod_node_facts(4) by (simp_all add: node_ok_def)
  note node = two_pod_node_facts(2)
  have ne: "web_victim \<noteq> idle_victim" using shy_names(3) by auto
  obtain t1 ok where 1: "reprievePod example_k8s ?M (shy_fits c) web_victim (t, []) = ((t1, if ok then [] else [] @ [web_victim]), ok)" "shy_fits c t1"
      "trial_ok example_k8s [] shy_preemptor ({zone_node} \<times> {web_victim, idle_victim}) two_pod_node (if ok then {#idle_victim#} else {#web_victim, idle_victim#}) t1"
    by (rule reprieve_step[OF shy_order_free u node _ t]) (use tr shy_verdict[OF t] in auto)
  have no: "\<not> ok" using shy_verdict[OF 1(3), of c] 1(2) ne by (auto split: if_splits)
  have "trial_ok example_k8s [] shy_preemptor ({zone_node} \<times> {web_victim, idle_victim}) two_pod_node {#web_victim#} (trial_add example_k8s ?M idle_victim t1)"
    using trial_add_ok[OF _ u node, of example_k8s "[]" shy_preemptor "{zone_node} \<times> {web_victim, idle_victim}" idle_victim "{#web_victim#}"] 1(3) no tr
    by (cases t1) (simp add: add_mset_commute)
  from shy_verdict[OF this, of c] show thesis using that 1(1) no by (simp add: reprievePod_def)
qed

lemma shy_cluster_facts:
  "cluster_ok example_k8s (shy_cluster two_pod_node)" "own_terms_ok example_k8s shy_preemptor" "fset (fmdom (shy_cluster info)) = {''n1''}"
  "fmlookup (shy_cluster info) other = (if other = ''n1'' then Some info else None)" "fmupd ''n1'' info' (shy_cluster info) = shy_cluster info'"
  "placements (shy_cluster two_pod_node) = {zone_node} \<times> {web_victim, idle_victim}"
  "\<forall>p \<in> {web_victim, idle_victim}. victim_followed example_k8s shy_preemptor (shy_cluster two_pod_node) ''n1'' p"
  "\<forall>p \<in> {web_victim, idle_victim}. tracked example_k8s shy_preemptor ({zone_node} \<times> {web_victim, idle_victim}) zone_node p"
proof -
  show look: "fmlookup (shy_cluster info) other = (if other = ''n1'' then Some info else None)" for info other by (simp add: shy_cluster_def)
  show dom: "fset (fmdom (shy_cluster info)) = {''n1''}" for info by (simp add: shy_cluster_def)
  show "fmupd ''n1'' info' (shy_cluster info) = shy_cluster info'" by (intro fmap_ext) (simp add: look)
  show own: "own_terms_ok example_k8s shy_preemptor" using shy_terms(1,2) zone_terms(5) by (simp add: own_terms_ok_def del: valid_terms_simps(2))
  have aff: "\<not> hasPodAffinityConstraints web_victim" "\<not> hasPodAffinityConstraints idle_victim" by code_simp+
  have "mset (podsWithAffinity two_pod_node) = {#}" using two_pod_node_facts(4) aff by (simp add: node_ok_def ni_inv_def two_pod_node_facts(1))
  then show c: "cluster_ok example_k8s (shy_cluster two_pod_node)" using aff shy_terms(3,4) by (auto simp: cluster_ok_def look two_pod_node_facts(1,2))
  show P: "placements (shy_cluster two_pod_node) = {zone_node} \<times> {web_victim, idle_victim}"
    unfolding dom by (auto simp: placed_on_def look two_pod_node_facts(1,2))
  show v: "\<forall>p \<in> {web_victim, idle_victim}. victim_followed example_k8s shy_preemptor (shy_cluster two_pod_node) ''n1'' p"
    using shy_names by (auto simp: victim_followed_def look two_pod_node_facts(1) shy_terms)
  show "\<forall>p \<in> {web_victim, idle_victim}. tracked example_k8s shy_preemptor ({zone_node} \<times> {web_victim, idle_victim}) zone_node p"
    using victim_tracked[OF c own, of "''n1''" two_pod_node zone_node] v by (simp add: look two_pod_node_facts(1,2) P)
qed

lemma two_pod_metadata_is:
  obtains m where "two_pod_metadata = Some m" "is_metadata example_k8s [] shy_preemptor ({zone_node} \<times> {web_victim, idle_victim}) m"
proof -
  have ord: "set [''n1''] = fset (fmdom (shy_cluster two_pod_node))" by (simp add: shy_cluster_facts(3))
  obtain m where "two_pod_metadata = Some m" "is_metadata example_k8s [] shy_preemptor (placements (shy_cluster two_pod_node)) m"
    unfolding two_pod_metadata_def by (rule GetMetadata_is[OF shy_cluster_facts(1,2) ord ord])
  then show thesis using that shy_cluster_facts(6) by simp
qed

lemma shy_selection_result: "shy_selection c = Some ([web_victim], 1)"
proof -
  let ?M = "predicateMetadata_ops example_k8s" and ?g = "\<lparr>generation = 3, transients = []\<rparr>"
  obtain m where m: "two_pod_metadata = Some m" "is_metadata example_k8s [] shy_preemptor ({zone_node} \<times> {web_victim, idle_victim}) m" by (rule two_pod_metadata_is)
  let ?t = "foldl (\<lambda>t p. trial_remove example_k8s ?M p t) (two_pod_node, Some m, ?g) [web_victim, idle_victim]"
  have "trial_ok example_k8s [] shy_preemptor ({zone_node} \<times> {web_victim, idle_victim}) two_pod_node {#} (two_pod_node, Some m, ?g)"
    using m(2) two_pod_node_facts(4) by (simp add: trial_ok_def)
  from remove_candidates[OF this, of "[web_victim, idle_victim]" zone_node]
  have t: "trial_ok example_k8s [] shy_preemptor ({zone_node} \<times> {web_victim, idle_victim}) two_pod_node {#web_victim, idle_victim#} ?t"
    using shy_cluster_facts(8) by (simp add: two_pod_node_facts(1))
  obtain t1 t2 where r: "reprievePod example_k8s ?M (shy_fits c) web_victim (?t, []) = ((t1, [web_victim]), False)"
      "reprievePod example_k8s ?M (shy_fits c) idle_victim (t1, [web_victim]) = ((t2, [web_victim]), True)"
    by (rule shy_reprieve[OF t shy_cluster_facts(8)])
  have p: "potential_victim \<lparr>queues = fmempty\<rparr> [] shy_preemptor web_victim" "potential_victim \<lparr>queues = fmempty\<rparr> [] shy_preemptor idle_victim" by code_simp+
  have b: "filterPodsWithPDBViolation example_k8s (\<lambda>_. False) [web_victim, idle_victim] [web_budget] = ([web_victim], [idle_victim])" by code_simp
  have "shy_fits c ?t" using shy_verdict[OF t, of c] by simp
  then show ?thesis unfolding shy_selection_def selectVictimsOnNode_def m(1) using p b r by (simp add: two_pod_node_facts(1) Let_def NodeInfo_Clone_def)
qed

theorem victims_make_room_witness:
  "\<forall>c. shy_selection c = Some ([web_victim], 1) \<and>
     (\<exists>info g m. ni_pods info = [idle_victim] \<and>
        GetMetadata example_k8s (map extendedResourceProducer []) [''n1''] [''n1''] shy_preemptor (shy_cluster info) = Some m \<and> shy_fits c (info, Some m, g))"
proof
  fix c
  obtain m where m: "two_pod_metadata = Some m" by (rule two_pod_metadata_is)
  note sel = shy_selection_result[of c, unfolded shy_selection_def m]
  note meta = m[unfolded two_pod_metadata_def]
  have name: "fmlookup (shy_cluster two_pod_node) ''n1'' = Some two_pod_node" by (simp add: shy_cluster_facts(4))
  have v: "\<forall>p \<in> set (ni_pods two_pod_node). potential_victim \<lparr>queues = fmempty\<rparr> [] shy_preemptor p \<longrightarrow>
      victim_followed example_k8s shy_preemptor (shy_cluster two_pod_node) ''n1'' p" using shy_cluster_facts(7) by (simp add: two_pod_node_facts(1))
  have ord: "set [''n1''] = fset (fmdom (shy_cluster two_pod_node))" by (simp add: shy_cluster_facts(3))
  note room = victims_make_room[OF sel refl two_pod_node_facts(4) shy_cluster_facts(1,2) ord ord meta name v shy_order_free]
  from room obtain info g where i: "node_ok example_k8s (info, g)" "static_part info = static_part two_pod_node" "mset (ni_pods info) + mset [web_victim] = mset (ni_pods two_pod_node)"
    by blast
  then have pods: "ni_pods info = [idle_victim]" by (simp add: two_pod_node_facts(1))
  obtain m' where m': "GetMetadata example_k8s (map extendedResourceProducer []) [''n1''] [''n1''] shy_preemptor (fmupd ''n1'' info (shy_cluster two_pod_node)) = Some m'"
      "shy_fits c (info, Some m', g)" using room i by blast
  show "shy_selection c = Some ([web_victim], 1) \<and> (\<exists>info g m. ni_pods info = [idle_victim] \<and>
        GetMetadata example_k8s (map extendedResourceProducer []) [''n1''] [''n1''] shy_preemptor (shy_cluster info) = Some m \<and> shy_fits c (info, Some m, g))"
    using shy_selection_result pods m'[unfolded shy_cluster_facts(5)] by blast
qed

text \<open>The priority that \<open>pickOneNodeForPreemption\<close> reads is that of the first victim, which is the highest only among
  the victims of the same kind: those whose disruption budget is violated come first.\<close>

definition plain_victim :: Pod where
  "plain_victim = zero_Pod\<lparr>pod_UID := ''w'', pod_SchedulerName := ''ai-scheduler'', pod_Priority := Some 9\<rparr>"

definition example_fuller_node :: NodeInfo where
  "example_fuller_node = fst (NodeInfo_AddPod example_k8s example_full_node plain_victim \<lparr>generation = 2, transients = []\<rparr>)"

definition example_two_victims :: "(Pod list \<times> nat) option" where
  "example_two_victims = selectVictimsOnNode example_k8s plain_meta (\<lambda>lt xs. if xs \<noteq> [] \<and> lt (last xs) (hd xs) then rev xs else xs) (\<lambda>_. False)
     [''PodFitsResources''] [] \<lparr>generation = 3, transients = []\<rparr> [] (example_preemptor\<lparr>pod_Priority := Some 10\<rparr>) None (Some example_fuller_node)
     resource_predicates \<lparr>queues = fmempty\<rparr> [example_budget]"

text \<open>
  The first victim need not have the highest priority. On a node with a pod of priority 0 whose disruption budget is used up and one of priority
  9, both have to leave for a pod of priority 10, and the one of priority 0 is listed first. Compared with
  a node whose only victim has priority 1 and violates a budget too, \<open>pickOneNodeForPreemption\<close> prefers the node
  on which the pod of priority 9 is evicted.
\<close>

theorem first_victim_not_highest:
  "example_two_victims = Some ([example_victim, plain_victim], 1) \<and>
   sint (GetPodPriority example_victim) < sint (GetPodPriority plain_victim) \<and>
   pickOneNodeForPreemption
     [(zero_Node\<lparr>node_Name := ''a''\<rparr>, \<lparr>vi_Pods = [example_victim\<lparr>pod_Priority := Some 1\<rparr>], NumPDBViolations = 1\<rparr>),
      (zero_Node\<lparr>node_Name := ''b''\<rparr>, \<lparr>vi_Pods = [example_victim, plain_victim], NumPDBViolations = 1\<rparr>)] [] \<lparr>queues = fmempty\<rparr> =
   Some (zero_Node\<lparr>node_Name := ''b''\<rparr>, \<lparr>vi_Pods = [example_victim, plain_victim], NumPDBViolations = 1\<rparr>)"
proof -
  have "example_two_victims = Some ([example_victim, plain_victim], 1)" by code_simp
  moreover have "sint (GetPodPriority example_victim) < sint (GetPodPriority plain_victim)" by code_simp
  moreover have "pickOneNodeForPreemption
     [(zero_Node\<lparr>node_Name := ''a''\<rparr>, \<lparr>vi_Pods = [example_victim\<lparr>pod_Priority := Some 1\<rparr>], NumPDBViolations = 1\<rparr>),
      (zero_Node\<lparr>node_Name := ''b''\<rparr>, \<lparr>vi_Pods = [example_victim, plain_victim], NumPDBViolations = 1\<rparr>)] [] \<lparr>queues = fmempty\<rparr> =
   Some (zero_Node\<lparr>node_Name := ''b''\<rparr>, \<lparr>vi_Pods = [example_victim, plain_victim], NumPDBViolations = 1\<rparr>)" by code_simp
  ultimately show ?thesis by blast
qed

end
