(* ===== verification/Scheduler_Loop.thy ===== *)
theory Scheduler_Loop
  imports Preemption
begin

text \<open>
  The scheduler, \<open>pkg/scheduler/scheduler.go\<close>, with the error handler of \<open>factory/factory.go\<close>: taking a pod from the queue of a pool,
  scheduling it, preemption, assuming it in the cache and binding it.

  The goroutines that bind a pod and that put a failed pod back into a queue are tasks of the state, which run at any later time.
  What other parties answer is a parameter: the API server, the volume binder, the plugins and the node lister. The
  calls that change something at the API server are recorded in the order in which they are made. Events, metrics and log output are
  left out, and so is the context of the plugins.
\<close>

subsection \<open>State and parameters\<close>

datatype failure =
    FSchedule sched_error
  | FCache cache_error
  | FQueue pool_queue_error
  | FNodeNotFound string
  | FApi string

text \<open>\<open>Retry pool pod needBorrow cycle podQueue\<close>: a failed pod that waits to be put back. The goroutine keeps a pointer to the queue:
  \<open>InPool\<close> is the queue that the pool has now, \<open>Removed k\<close> the queue that was the \<open>k\<close>-th to be removed together with its pool, which
  the goroutine still holds. \<open>BindTo pool pod host allBound\<close>: an assumed pod that waits to be bound.\<close>

datatype queue_ref = InPool | Removed nat

datatype task =
    Retry string Pod bool int64 queue_ref
  | BindTo string Pod string bool

datatype call =
    CallDelete Pod
  | CallNominate Pod string
  | CallBind Pod string
  | CallCondition Pod string failure

record api =
  GetUpdatedPod :: "Pod \<Rightarrow> string + Pod"
  UpdateNominated :: "Pod \<Rightarrow> string \<Rightarrow> string option"
  DeletePod :: "Pod \<Rightarrow> string option"
  NodeStillMissing :: "string \<Rightarrow> bool"
  AssumePodVolumes :: "Pod \<Rightarrow> string \<Rightarrow> Pod \<times> (string + bool)"
  BindPodVolumes :: "Pod \<Rightarrow> string option"
  Bind :: "Pod \<Rightarrow> string \<Rightarrow> failure option"
  ReservePlugins :: "(Pod \<Rightarrow> string \<Rightarrow> string option) list"
  PrebindPlugins :: "(Pod \<Rightarrow> string \<Rightarrow> bool \<times> string option) list"

record Config =
  cf_k8s :: k8s
  PodPriorityEnabled :: bool
  cf_DisablePreemption :: bool
  BalanceAttachedNodeVolumes :: bool
  sortPods :: "(Pod \<Rightarrow> Pod \<Rightarrow> bool) \<Rightarrow> Pod list \<Rightarrow> Pod list"
  sortPools :: "(PoolInfo \<Rightarrow> PoolInfo \<Rightarrow> bool) \<Rightarrow> PoolInfo list \<Rightarrow> PoolInfo list"
  selectorEmpty :: "LabelSelector option \<Rightarrow> bool"
  cf_api :: api

text \<open>\<open>sc_removed\<close> are the queues of deleted pools, in the order of their removal: no map has them any more, but goroutines may.\<close>

record ('m, 'p) Scheduler =
  sc_cache :: schedulerCache
  sc_queue :: PoolQueue
  sc_removed :: "PriorityQueue list"
  sc_algorithm :: "('m, 'p) genericScheduler"
  sc_backoff :: PodBackoff
  sc_tasks :: "task list"
  sc_calls :: "call list"

text \<open>The time, the interleaving of the search, the answer of the node lister and the orders of the \<open>range\<close> loops in one step.\<close>

record visits =
  vs_now :: Time
  vs_acts :: "action list"
  vs_lister :: "string + Node list"
  vs_queues :: "string list"
  vs_nodes :: "string list"
  vs_victims :: "victims_map \<Rightarrow> victims_map"
  vs_pools :: "string list"
  vs_pools' :: "string list"
  vs_pool_nodes :: "PoolInfo \<Rightarrow> string list"
  vs_sub :: "string \<Rightarrow> sub_orders"
  vs_moves :: move_orders
  vs_moves' :: move_orders

definition log_call :: "call \<Rightarrow> ('m, 'p) Scheduler \<Rightarrow> ('m, 'p) Scheduler" where
  "log_call x s = s\<lparr>sc_calls := sc_calls s @ [x]\<rparr>"

subsection \<open>Failures\<close>

text \<open>The function that \<open>MakeDefaultErrorFunc\<close> returns, up to the start of its goroutine. A node that the API server does not know is removed
  with an object that has only its name.\<close>

definition handle_error :: "Config \<Rightarrow> visits \<Rightarrow> string \<Rightarrow> Pod \<Rightarrow> failure \<Rightarrow> bool \<Rightarrow> ('m, 'p) Scheduler \<Rightarrow> ('m, 'p) Scheduler option" where
  "handle_error cf v poolName pod err needBorrow s =
     Option.bind (case err of
         FNodeNotFound nodeName \<Rightarrow>
           (if NodeStillMissing (cf_api cf) nodeName
            then map_option (\<lambda>(c, _). s\<lparr>sc_cache := c\<rparr>) (RemoveNode (cf_k8s cf) (vs_pools' v) (zero_Node\<lparr>node_Name := nodeName\<rparr>) (sc_cache s))
            else Some s)
       | _ \<Rightarrow> Some s) (\<lambda>s1.
     Option.bind (Gc (vs_now v) (sc_backoff s1)) (\<lambda>b.
       let s2 = s1\<lparr>sc_backoff := b\<rparr> in
       case GetQueue (sc_queue s2) poolName of
         Inl _ \<Rightarrow> Some s2
       | Inr podQueue \<Rightarrow> Some (s2\<lparr>sc_tasks := sc_tasks s2 @ [Retry poolName pod needBorrow (schedulingCycle podQueue) InPool]\<rparr>)))"

definition recordSchedulingFailure :: "Config \<Rightarrow> visits \<Rightarrow> string \<Rightarrow> Pod \<Rightarrow> failure \<Rightarrow> string \<Rightarrow> bool \<Rightarrow> ('m, 'p) Scheduler \<Rightarrow> ('m, 'p) Scheduler option" where
  "recordSchedulingFailure cf v poolName pod err reason needBorrow s =
     map_option (log_call (CallCondition pod reason err)) (handle_error cf v poolName pod err needBorrow s)"

text \<open>The goroutine of the error handler. \<open>answers\<close> are the results of its calls of the API server, which it repeats until one succeeds or says that
  the pod does not exist; when they are used up it is still waiting. \<open>waited\<close> is the result of the wait for the
  backoff, which is only done when pod priorities are off: false when it is cut short.\<close>

datatype get_answer = GetFails | GetNotFound | GetReturns Pod

fun first_answer :: "get_answer list \<Rightarrow> Pod option option" where
  "first_answer [] = None"
| "first_answer (GetFails # as) = first_answer as"
| "first_answer (GetNotFound # as) = Some None"
| "first_answer (GetReturns pod # as) = Some (Some pod)"

definition borrow_target :: "Config \<Rightarrow> visits \<Rightarrow> string \<Rightarrow> Pod \<Rightarrow> ('m, 'p) Scheduler \<Rightarrow> string option" where
  "borrow_target cf v poolName pod s =
     (let selfPoolName = GetPoolQueueNameIfNotPresent (sc_queue s) pod in
      map_option (\<lambda>borrowPoolName.
          if borrowPoolName \<noteq> selfPoolName \<and> HasSelfPoolPendingPods (vs_sub v borrowPoolName) (sc_queue s) borrowPoolName
          then selfPoolName else borrowPoolName)
        (BorrowPool (sortPools cf) (predicatesOrdering (sc_algorithm s)) (vs_pools v) (vs_pool_nodes v) poolName pod
           (predicates (sc_algorithm s)) (sc_cache s)))"

text \<open>The queue that a pointer refers to, and the state after the queue has changed.\<close>

fun queue_at :: "string \<Rightarrow> queue_ref \<Rightarrow> ('m, 'p) Scheduler \<Rightarrow> PriorityQueue option" where
  "queue_at poolName InPool s = fmlookup (queues (sc_queue s)) poolName"
| "queue_at poolName (Removed k) s = (if k < length (sc_removed s) then Some (sc_removed s ! k) else None)"

fun put_queue :: "string \<Rightarrow> queue_ref \<Rightarrow> PriorityQueue \<Rightarrow> ('m, 'p) Scheduler \<Rightarrow> ('m, 'p) Scheduler" where
  "put_queue poolName InPool q s = s\<lparr>sc_queue := set_queue poolName q (sc_queue s)\<rparr>"
| "put_queue poolName (Removed k) q s = s\<lparr>sc_removed := (sc_removed s)[k := q]\<rparr>"

definition requeue :: "Config \<Rightarrow> visits \<Rightarrow> string \<Rightarrow> Pod \<Rightarrow> bool \<Rightarrow> int64 \<Rightarrow> queue_ref \<Rightarrow> ('m, 'p) Scheduler \<Rightarrow> ('m, 'p) Scheduler option" where
  "requeue cf v poolName pod needBorrow cycle podQueue s =
     (if pod_NodeName pod \<noteq> [] then Some s
      else Option.bind (if needBorrow then borrow_target cf v poolName pod s else Some poolName) (\<lambda>borrowPoolName.
        if borrowPoolName = poolName
        then Option.bind (queue_at poolName podQueue s) (\<lambda>q.
               map_option (\<lambda>(q', _). put_queue poolName podQueue q' s)
                 (AddUnschedulableIfNotPresent (cf_k8s cf) (vs_now v) pod cycle q))
        else case GetQueue (sc_queue s) borrowPoolName of
            Inl _ \<Rightarrow> Some s
          | Inr _ \<Rightarrow> map_option (\<lambda>pq. s\<lparr>sc_queue := pq\<rparr>) (add_to_queue (cf_k8s cf) (vs_now v) borrowPoolName pod (sc_queue s))))"

text \<open>\<open>TryBackoffAndWait\<close> with the deferred unlock; a second goroutine for the same pod is not interleaved with the wait.\<close>

definition TryBackoffAndWait :: "k8s \<Rightarrow> bool \<Rightarrow> PodBackoff \<Rightarrow> NamespacedName \<Rightarrow> (PodBackoff \<times> bool) option" where
  "TryBackoffAndWait L waited b podID =
     Option.bind (TryBackoffAndWait_begin L b podID) (\<lambda>(b1, d). case d of
         None \<Rightarrow> Some (b1, False)
       | Some _ \<Rightarrow> Option.bind (getEntry L b1 podID) (\<lambda>(b2, entry).
           map_option (\<lambda>e. (b2\<lparr>expiryQ := poke_entry L e (expiryQ b2)\<rparr>, waited)) (unlock entry)))"

definition run_retry :: "Config \<Rightarrow> visits \<Rightarrow> bool \<Rightarrow> get_answer list \<Rightarrow> string \<Rightarrow> Pod \<Rightarrow> bool \<Rightarrow> int64 \<Rightarrow> queue_ref \<Rightarrow> ('m, 'p) Scheduler \<Rightarrow> ('m, 'p) Scheduler option" where
  "run_retry cf v waited answers poolName pod needBorrow cycle podQueue s =
     Option.bind (if PodPriorityEnabled cf then Some (s, True)
                  else map_option (\<lambda>(b, r). (s\<lparr>sc_backoff := b\<rparr>, r))
                    (TryBackoffAndWait (cf_k8s cf) waited (sc_backoff s) \<lparr>nn_Namespace = pod_Namespace pod, nn_Name = pod_Name pod\<rparr>)) (\<lambda>(s1, go_on).
       if \<not> go_on then Some s1
       else Option.bind (first_answer answers) (\<lambda>r. case r of
           None \<Rightarrow> Some s1
         | Some pod' \<Rightarrow> requeue cf v poolName pod' needBorrow cycle podQueue s1))"

subsection \<open>Preemption\<close>

definition SetNominatedNodeName :: "Config \<Rightarrow> Pod \<Rightarrow> string \<Rightarrow> ('m, 'p) Scheduler \<Rightarrow> ('m, 'p) Scheduler \<times> string option" where
  "SetNominatedNodeName cf pod nominatedNodeName s =
     (let podCopy = pod\<lparr>pod_NominatedNodeName := nominatedNodeName\<rparr>
      in (log_call (CallNominate podCopy nominatedNodeName) s, UpdateNominated (cf_api cf) podCopy nominatedNodeName))"

definition RemoveNominatedNodeName :: "Config \<Rightarrow> ('m, 'p) Scheduler \<Rightarrow> Pod \<Rightarrow> ('m, 'p) Scheduler" where
  "RemoveNominatedNodeName cf s pod =
     (if pod_NominatedNodeName pod = [] then s else fst (SetNominatedNodeName cf pod [] s))"

fun delete_victims :: "Config \<Rightarrow> Pod list \<Rightarrow> ('m, 'p) Scheduler \<Rightarrow> ('m, 'p) Scheduler \<times> string option" where
  "delete_victims cf [] s = (s, None)"
| "delete_victims cf (victim # victims) s =
     (case DeletePod (cf_api cf) victim of
        Some err \<Rightarrow> (log_call (CallDelete victim) s, Some err)
      | None \<Rightarrow> delete_victims cf victims (log_call (CallDelete victim) s))"

definition in_queue :: "string \<Rightarrow> (PriorityQueue \<Rightarrow> PriorityQueue) \<Rightarrow> ('m, 'p) Scheduler \<Rightarrow> ('m, 'p) Scheduler option" where
  "in_queue poolName f s = (case GetQueue (sc_queue s) poolName of
     Inl _ \<Rightarrow> None
   | Inr q \<Rightarrow> Some (s\<lparr>sc_queue := set_queue poolName (f q) (sc_queue s)\<rparr>))"

text \<open>The result is the name of the node, an error and whether to borrow from another pool. In the branch where \<open>SetNominatedNodeName\<close>
  fails, the variable \<open>err\<close> is shadowed by that of \<open>GetQueue\<close>, which is nil, so that no error is returned.\<close>

definition preempt ::
  "Config \<Rightarrow> visits \<Rightarrow> string \<Rightarrow> Pod \<Rightarrow> sched_error \<Rightarrow> ('m, 'p) Scheduler \<Rightarrow> ('m, 'p) Scheduler \<times> string \<times> failure option \<times> bool" where
  "preempt cf v poolName pod scheduleErr s = (case GetUpdatedPod (cf_api cf) pod of
     Inl err \<Rightarrow> (s, [], Some (FApi err), False)
   | Inr preemptor \<Rightarrow>
      (let r = Preempt (cf_k8s cf) (sortPods cf) (selectorEmpty cf) (vs_queues v) (vs_nodes v) (vs_victims v) (st_globals (heap (sc_cache s)))
                 (sc_algorithm s) (sc_queue s) (sc_cache s) poolName preemptor scheduleErr;
           clear = (\<lambda>s1. foldl (RemoveNominatedNodeName cf) s1 (pr_nominated r))
       in case pr_error r of
         Some err \<Rightarrow> (s, [], Some (FSchedule err), pr_needBorrow r)
       | None \<Rightarrow> (case pr_node r of
           None \<Rightarrow> (clear s, [], None, pr_needBorrow r)
         | Some node \<Rightarrow>
            (let nodeName = node_Name node in
             case in_queue poolName (UpdateNominatedPodForNode preemptor nodeName) s of
               None \<Rightarrow> (s, [], Some (FQueue (QueueNotFound poolName)), False)
             | Some s1 \<Rightarrow> (case SetNominatedNodeName cf preemptor nodeName s1 of
                 (s2, Some _) \<Rightarrow>
                   (case in_queue poolName (DeleteNominatedPodIfExists preemptor) s2 of
                      None \<Rightarrow> (s2, [], Some (FQueue (QueueNotFound poolName)), False)
                    | Some s3 \<Rightarrow> (s3, [], None, False))
               | (s2, None) \<Rightarrow> (case delete_victims cf (pr_victims r) s2 of
                   (s3, Some err) \<Rightarrow> (s3, [], Some (FApi err), False)
                 | (s3, None) \<Rightarrow> (clear s3, nodeName, None, pr_needBorrow r)))))))"

subsection \<open>Assuming and binding\<close>

definition SchedulerError :: string where
  "SchedulerError = ''SchedulerError''"

definition assumeVolumes :: "Config \<Rightarrow> visits \<Rightarrow> string \<Rightarrow> Pod \<Rightarrow> string \<Rightarrow> ('m, 'p) Scheduler \<Rightarrow> (('m, 'p) Scheduler \<times> Pod \<times> (failure + bool)) option" where
  "assumeVolumes cf v poolName assumed host s = (case AssumePodVolumes (cf_api cf) assumed host of
     (assumed', Inr allBound) \<Rightarrow> Some (s, assumed', Inr allBound)
   | (assumed', Inl err) \<Rightarrow>
       map_option (\<lambda>s1. (s1, assumed', Inl (FApi err))) (recordSchedulingFailure cf v poolName assumed' (FApi err) SchedulerError False s))"

text \<open>\<open>assume\<close> returns without a record of the failure when the queue of the pool is gone after the pod has been assumed.\<close>

definition assume_pod :: "Config \<Rightarrow> visits \<Rightarrow> string \<Rightarrow> Pod \<Rightarrow> string \<Rightarrow> ('m, 'p) Scheduler \<Rightarrow> (('m, 'p) Scheduler \<times> Pod \<times> failure option) option" where
  "assume_pod cf v poolName pod host s =
     (let assumed = pod\<lparr>pod_NodeName := host\<rparr> in
      Option.bind (AssumePod (cf_k8s cf) (vs_pools v) assumed (sc_cache s)) (\<lambda>(c, e).
        let s1 = s\<lparr>sc_cache := c\<rparr> in
        case e of
          Some err \<Rightarrow> map_option (\<lambda>s2. (s2, assumed, Some (FCache err)))
            (recordSchedulingFailure cf v poolName assumed (FCache err) SchedulerError False s1)
        | None \<Rightarrow> (case in_queue poolName (DeleteNominatedPodIfExists assumed) s1 of
            None \<Rightarrow> Some (s1, assumed, Some (FQueue (QueueNotFound poolName)))
          | Some s2 \<Rightarrow> Some (s2, assumed, None))))"

definition forget :: "Config \<Rightarrow> visits \<Rightarrow> Pod \<Rightarrow> ('m, 'p) Scheduler \<Rightarrow> ('m, 'p) Scheduler option" where
  "forget cf v assumed s = map_option (\<lambda>(c, _). s\<lparr>sc_cache := c\<rparr>) (ForgetPod (cf_k8s cf) (vs_pools v) assumed (sc_cache s))"

definition bindVolumes :: "Config \<Rightarrow> visits \<Rightarrow> string \<Rightarrow> Pod \<Rightarrow> ('m, 'p) Scheduler \<Rightarrow> (('m, 'p) Scheduler \<times> failure option) option" where
  "bindVolumes cf v poolName assumed s = (case BindPodVolumes (cf_api cf) assumed of
     None \<Rightarrow> Some (s, None)
   | Some err \<Rightarrow> Option.bind (forget cf v assumed s) (\<lambda>s1.
       map_option (\<lambda>s2. (s2, Some (FApi err))) (recordSchedulingFailure cf v poolName assumed (FApi err) ''VolumeBindingFailed'' False s1)))"

definition bind_pod :: "Config \<Rightarrow> visits \<Rightarrow> string \<Rightarrow> Pod \<Rightarrow> string \<Rightarrow> ('m, 'p) Scheduler \<Rightarrow> (('m, 'p) Scheduler \<times> failure option) option" where
  "bind_pod cf v poolName assumed host s =
     (let s1 = log_call (CallBind assumed host) s;
          s2 = s1\<lparr>sc_cache := fst (finishBinding assumed (vs_now v) (sc_cache s1))\<rparr>
      in case Bind (cf_api cf) assumed host of
        None \<Rightarrow> Some (s2, None)
      | Some err \<Rightarrow> Option.bind (forget cf v assumed s2) (\<lambda>s3.
          map_option (\<lambda>s4. (s4, Some err)) (recordSchedulingFailure cf v poolName assumed err SchedulerError False s3)))"

text \<open>The prebind plugins: the first that does not approve decides, with its error or none.\<close>

fun prebind :: "(Pod \<Rightarrow> string \<Rightarrow> bool \<times> string option) list \<Rightarrow> Pod \<Rightarrow> string \<Rightarrow> string option option" where
  "prebind [] pod host = None"
| "prebind (pl # pls) pod host = (case pl pod host of
     (_, Some err) \<Rightarrow> Some (Some err)
   | (approved, None) \<Rightarrow> if \<not> approved then Some None else prebind pls pod host)"

definition PodReasonUnschedulable :: string where
  "PodReasonUnschedulable = ''Unschedulable''"

text \<open>The goroutine that binds.\<close>

definition run_bind :: "Config \<Rightarrow> visits \<Rightarrow> string \<Rightarrow> Pod \<Rightarrow> string \<Rightarrow> bool \<Rightarrow> ('m, 'p) Scheduler \<Rightarrow> (('m, 'p) Scheduler \<times> failure option) option" where
  "run_bind cf v poolName assumed host allBound s =
     Option.bind (if allBound then Some (s, None) else bindVolumes cf v poolName assumed s) (\<lambda>(s1, e). case e of
         Some err \<Rightarrow> Some (s1, Some err)
       | None \<Rightarrow> (case prebind (PrebindPlugins (cf_api cf)) assumed host of
           Some r \<Rightarrow>
             (let err = FApi (case r of Some msg \<Rightarrow> msg | None \<Rightarrow> ''prebind plugin rejected pod'');
                  reason = (case r of Some _ \<Rightarrow> SchedulerError | None \<Rightarrow> PodReasonUnschedulable)
              in Option.bind (forget cf v assumed s1) (\<lambda>s2.
                   map_option (\<lambda>s3. (s3, Some err)) (recordSchedulingFailure cf v poolName assumed err reason False s2)))
         | None \<Rightarrow> bind_pod cf v poolName assumed host s1))"

subsection \<open>One round of a scheduling loop\<close>

text \<open>\<open>Waiting\<close>: the queue is empty and \<open>NextPod\<close> blocks. \<open>Stopped\<close>: the queue is closed or its pool is gone, which ends the loop.\<close>

datatype outcome = Waiting | Stopped | Round "failure option"

fun reserve :: "(Pod \<Rightarrow> string \<Rightarrow> string option) list \<Rightarrow> Pod \<Rightarrow> string \<Rightarrow> string option" where
  "reserve [] pod host = None"
| "reserve (pl # pls) pod host = (case pl pod host of Some err \<Rightarrow> Some err | None \<Rightarrow> reserve pls pod host)"

text \<open>What happens to a pod that does not fit: preemption in its own pool, unless that is disabled, and the borrowing pods go home.\<close>

definition try_preempt :: "Config \<Rightarrow> visits \<Rightarrow> string \<Rightarrow> Pod \<Rightarrow> sched_error \<Rightarrow> ('m, 'p) Scheduler \<Rightarrow> (('m, 'p) Scheduler \<times> bool) option" where
  "try_preempt cf v poolName pod err s = (case err of
     FitError _ _ _ \<Rightarrow>
      (if \<not> PodPriorityEnabled cf \<or> cf_DisablePreemption cf then Some (s, True)
       else if GetPoolQueueNameIfNotPresent (sc_queue s) pod \<noteq> poolName then Some (s, True)
       else
         let (s1, needBorrow) = (case GetPool poolName (sc_cache s) of
               Inl _ \<Rightarrow> (s, True)
             | Inr p \<Rightarrow> (if DisablePreemption p then (s, True)
                         else case preempt cf v poolName pod err s of (s1, _, _, nb) \<Rightarrow> (s1, nb)))
         in map_option (\<lambda>pq. (s1\<lparr>sc_queue := pq\<rparr>, needBorrow))
              (MoveAllBorrowingPodsToSelfQueue (cf_k8s cf) (vs_now v) (vs_sub v poolName) (sc_queue s1) poolName))
   | _ \<Rightarrow> Some (s, True))"

text \<open>The rest of a round when the algorithm has found a host.\<close>

definition place_pod :: "Config \<Rightarrow> visits \<Rightarrow> string \<Rightarrow> Pod \<Rightarrow> string \<Rightarrow> ('m, 'p) Scheduler \<Rightarrow> (('m, 'p) Scheduler \<times> outcome) option" where
  "place_pod cf v poolName pod host s =
     Option.bind (assumeVolumes cf v poolName pod host s) (\<lambda>(s1, assumedPod, ab). case ab of
         Inl err \<Rightarrow> Some (s1, Round (Some err))
       | Inr allBound \<Rightarrow> (case reserve (ReservePlugins (cf_api cf)) assumedPod host of
           Some err \<Rightarrow> map_option (\<lambda>s2. (s2, Round (Some (FApi err))))
             (recordSchedulingFailure cf v poolName assumedPod (FApi err) SchedulerError False s1)
         | None \<Rightarrow> map_option (\<lambda>(s2, assumed, e). case e of
               Some err \<Rightarrow> (s2, Round (Some err))
             | None \<Rightarrow> (s2\<lparr>sc_tasks := sc_tasks s2 @ [BindTo poolName assumed host allBound]\<rparr>, Round None))
             (assume_pod cf v poolName assumedPod host s1)))"

text \<open>The rest of a round after the decision of the algorithm, which may come after steps of other goroutines.\<close>

definition finish_round :: "Config \<Rightarrow> visits \<Rightarrow> string \<Rightarrow> Pod \<Rightarrow> sched_error + ScheduleResult \<Rightarrow> ('m, 'p) Scheduler \<Rightarrow> (('m, 'p) Scheduler \<times> outcome) option" where
  "finish_round cf v poolName pod r s = (case r of
     Inl err \<Rightarrow> Option.bind (try_preempt cf v poolName pod err s) (\<lambda>(s1, needBorrow).
       map_option (\<lambda>s2. (s2, Round (Some (FSchedule err))))
         (recordSchedulingFailure cf v poolName pod (FSchedule err) PodReasonUnschedulable needBorrow s1))
   | Inr res \<Rightarrow> place_pod cf v poolName pod (SuggestedHost res) s)"

text \<open>A round without steps of other goroutines in between.\<close>

definition scheduleOne :: "Config \<Rightarrow> visits \<Rightarrow> string \<Rightarrow> ('m, 'p) Scheduler \<Rightarrow> (('m, 'p) Scheduler \<times> outcome) option" where
  "scheduleOne cf v poolName s =
     Option.bind (MakeNextPodFunc (sc_queue s) poolName) (\<lambda>(pq, next).
       let s0 = s\<lparr>sc_queue := pq\<rparr> in case next of
         NextWait \<Rightarrow> Some (s0, Waiting)
       | NextQueueDeleted \<Rightarrow> Some (s0, Stopped)
       | NextQueueClosed \<Rightarrow> Some (s0, Stopped)
       | NextError _ \<Rightarrow> Some (s0, Round None)
       | NextPod pod \<Rightarrow>
          (if pod_DeletionTimestamp pod \<noteq> None then Some (s0, Round None)
           else Option.bind (Schedule (cf_k8s cf) (BalanceAttachedNodeVolumes cf) (vs_queues v) (st_globals (heap (sc_cache s0))) (vs_acts v)
                  (sc_queue s0) poolName pod (vs_lister v) (sc_algorithm s0) (sc_cache s0)) (\<lambda>(gs, c, r).
             finish_round cf v poolName pod r (s0\<lparr>sc_algorithm := gs, sc_cache := c\<rparr>))))"

text \<open>\<open>scheduleOnePool\<close>: rounds, one for each element of the list, until one ends the loop. The result tells whether the loop has ended.\<close>

fun scheduleOnePool :: "Config \<Rightarrow> visits list \<Rightarrow> string \<Rightarrow> ('m, 'p) Scheduler \<Rightarrow> (('m, 'p) Scheduler \<times> bool) option" where
  "scheduleOnePool cf [] poolName s = Some (s, False)"
| "scheduleOnePool cf (v # vs) poolName s = Option.bind (scheduleOne cf v poolName s) (\<lambda>(s1, r).
     if r = Stopped then Some (s1, True) else scheduleOnePool cf vs poolName s1)"

text \<open>Running the task at a position. \<open>waited\<close> and \<open>answers\<close> are what a retry sees.\<close>

definition run_task :: "Config \<Rightarrow> visits \<Rightarrow> bool \<Rightarrow> get_answer list \<Rightarrow> nat \<Rightarrow> ('m, 'p) Scheduler \<Rightarrow> ('m, 'p) Scheduler option" where
  "run_task cf v waited answers i s =
     (if i \<ge> length (sc_tasks s) then None
      else let s0 = s\<lparr>sc_tasks := take i (sc_tasks s) @ drop (i + 1) (sc_tasks s)\<rparr> in
        case sc_tasks s ! i of
          Retry poolName pod needBorrow cycle podQueue \<Rightarrow> run_retry cf v waited answers poolName pod needBorrow cycle podQueue s0
        | BindTo poolName assumed host allBound \<Rightarrow> map_option fst (run_bind cf v poolName assumed host allBound s0))"

end
