(* ===== verification/Event_Handlers.thy ===== *)
theory Event_Handlers
  imports Scheduler_Loop
begin

text \<open>
  The event handlers, \<open>pkg/scheduler/eventhandlers.go\<close>: what the scheduler does with its cache and its queues when an informer
  reports that an object was added, updated or deleted. A handler is a function on the state; it is \<open>None\<close> when the code
  panics. Errors of the cache and the queue are only logged. The objects come with their type, so that the branches for objects of
  another type are those of \<open>deleted\<close>, the argument of the delete handlers. The volume binder,
  which is told of deleted pods, is not part of the state; and sending the name of a new pool to the goroutine that
  starts its loop leaves no trace, since any pool with a queue may be scheduled.
\<close>

datatype 'a deleted = Deleted 'a | DeletedFinalStateUnknown "'a option" | OtherObject

fun final_object :: "'a deleted \<Rightarrow> 'a option" where
  "final_object (Deleted t) = Some t"
| "final_object (DeletedFinalStateUnknown t) = t"
| "final_object OtherObject = None"

definition with_queue :: "('m, 'p) Scheduler \<Rightarrow> PoolQueue option \<Rightarrow> ('m, 'p) Scheduler option" where
  "with_queue s r = map_option (\<lambda>pq. s\<lparr>sc_queue := pq\<rparr>) r"

subsection \<open>Volumes and services\<close>

definition move_all :: "Config \<Rightarrow> visits \<Rightarrow> ('m, 'p) Scheduler \<Rightarrow> ('m, 'p) Scheduler option" where
  "move_all cf v s = with_queue s (PoolQueue_MoveAllToActiveQueue (cf_k8s cf) (vs_now v) (vs_queues v) (vs_sub v) (sc_queue s))"

definition onPvAdd :: "Config \<Rightarrow> visits \<Rightarrow> ('m, 'p) Scheduler \<Rightarrow> ('m, 'p) Scheduler option" where
  "onPvAdd = move_all"

definition onPvUpdate :: "Config \<Rightarrow> visits \<Rightarrow> ('m, 'p) Scheduler \<Rightarrow> ('m, 'p) Scheduler option" where
  "onPvUpdate = move_all"

definition onPvcAdd :: "Config \<Rightarrow> visits \<Rightarrow> ('m, 'p) Scheduler \<Rightarrow> ('m, 'p) Scheduler option" where
  "onPvcAdd = move_all"

definition onPvcUpdate :: "Config \<Rightarrow> visits \<Rightarrow> ('m, 'p) Scheduler \<Rightarrow> ('m, 'p) Scheduler option" where
  "onPvcUpdate = move_all"

text \<open>The argument is the binding mode of the storage class.\<close>

definition onStorageClassAdd :: "Config \<Rightarrow> visits \<Rightarrow> string option \<Rightarrow> ('m, 'p) Scheduler \<Rightarrow> ('m, 'p) Scheduler option" where
  "onStorageClassAdd cf v volumeBindingMode s =
     (if volumeBindingMode = Some ''WaitForFirstConsumer'' then move_all cf v s else Some s)"

definition onServiceAdd :: "Config \<Rightarrow> visits \<Rightarrow> ('m, 'p) Scheduler \<Rightarrow> ('m, 'p) Scheduler option" where
  "onServiceAdd = move_all"

definition onServiceUpdate :: "Config \<Rightarrow> visits \<Rightarrow> ('m, 'p) Scheduler \<Rightarrow> ('m, 'p) Scheduler option" where
  "onServiceUpdate = move_all"

definition onServiceDelete :: "Config \<Rightarrow> visits \<Rightarrow> ('m, 'p) Scheduler \<Rightarrow> ('m, 'p) Scheduler option" where
  "onServiceDelete = move_all"

subsection \<open>Pools\<close>

definition addPoolToCache :: "Config \<Rightarrow> visits \<Rightarrow> Pool \<Rightarrow> ('m, 'p) Scheduler \<Rightarrow> ('m, 'p) Scheduler option" where
  "addPoolToCache cf v pool s =
     Option.bind (AddPool (cf_k8s cf) (vs_moves v) (Some pool) (sc_cache s)) (\<lambda>(c, e).
       let s1 = s\<lparr>sc_cache := c\<rparr> in case e of
         Some _ \<Rightarrow> Some s1
       | None \<Rightarrow> move_all cf v (s1\<lparr>sc_queue := AddQueue (sc_queue s1) (pool_Name pool)\<rparr>))"

definition updatePoolInCache :: "Config \<Rightarrow> visits \<Rightarrow> Pool \<Rightarrow> Pool \<Rightarrow> ('m, 'p) Scheduler \<Rightarrow> ('m, 'p) Scheduler option" where
  "updatePoolInCache cf v oldPool newPool s =
     Option.bind (UpdatePool (cf_k8s cf) (vs_moves v) (vs_moves' v) (Some oldPool) newPool (sc_cache s)) (\<lambda>(c, _).
     Option.bind (PoolResourcePropertiesChanged (Some oldPool) (Some newPool)) (\<lambda>changed.
       if changed then move_all cf v (s\<lparr>sc_cache := c\<rparr>) else Some (s\<lparr>sc_cache := c\<rparr>)))"

text \<open>When the queue of a pool is removed, the goroutines that hold a pointer to it keep it. \<open>RemoveQueue\<close> leaves its pods in it and closes it.\<close>

fun detach :: "string \<Rightarrow> nat \<Rightarrow> task \<Rightarrow> task" where
  "detach poolName k (Retry pool pod needBorrow cycle podQueue) =
     Retry pool pod needBorrow cycle (if podQueue = InPool \<and> pool = poolName then Removed k else podQueue)"
| "detach poolName k (BindTo pool pod host allBound) = BindTo pool pod host allBound"

definition keep_removed :: "string \<Rightarrow> ('m, 'p) Scheduler \<Rightarrow> ('m, 'p) Scheduler" where
  "keep_removed poolName s = (case fmlookup (queues (sc_queue s)) poolName of
     None \<Rightarrow> s
   | Some q \<Rightarrow> s\<lparr>sc_removed := sc_removed s @ [PriorityQueue_Close q],
                  sc_tasks := map (detach poolName (length (sc_removed s))) (sc_tasks s)\<rparr>)"

definition deletePoolFromCache :: "Config \<Rightarrow> visits \<Rightarrow> Pool deleted \<Rightarrow> ('m, 'p) Scheduler \<Rightarrow> ('m, 'p) Scheduler option" where
  "deletePoolFromCache cf v ob s = (case final_object ob of
     None \<Rightarrow> Some s
   | Some pool \<Rightarrow>
       Option.bind (RemovePool (cf_k8s cf) (vs_moves v) pool (sc_cache s)) (\<lambda>(c, e).
         let s1 = s\<lparr>sc_cache := c\<rparr> in case e of
           Some _ \<Rightarrow> Some s1
         | None \<Rightarrow> Option.bind (RemoveQueue (cf_k8s cf) (vs_now v) (vs_sub v (pool_Name pool)) (sc_queue s1) (pool_Name pool)) (\<lambda>pq.
             move_all cf v ((keep_removed (pool_Name pool) s1)\<lparr>sc_queue := pq\<rparr>))))"

subsection \<open>Nodes\<close>

text \<open>\<open>DeepEqual\<close> of resource lists and labels compares maps; a nil map counts as an empty one here.\<close>

definition nodeAllocatableChanged :: "Node \<Rightarrow> Node \<Rightarrow> bool" where
  "nodeAllocatableChanged newNode oldNode \<longleftrightarrow> fmap_of_list (node_Allocatable oldNode) \<noteq> fmap_of_list (node_Allocatable newNode)"

definition nodeLabelsChanged :: "Node \<Rightarrow> Node \<Rightarrow> bool" where
  "nodeLabelsChanged newNode oldNode \<longleftrightarrow> fmap_of_list (node_Labels oldNode) \<noteq> fmap_of_list (node_Labels newNode)"

definition nodeTaintsChanged :: "Node \<Rightarrow> Node \<Rightarrow> bool" where
  "nodeTaintsChanged newNode oldNode \<longleftrightarrow> node_Taints newNode \<noteq> node_Taints oldNode"

text \<open>The last condition of a type decides.\<close>

definition strip :: "NodeCondition list \<Rightarrow> (string, string) fmap" where
  "strip conditions = fold (\<lambda>cond m. fmupd (ncond_Type cond) (ncond_Status cond) m) conditions fmempty"

definition nodeConditionsChanged :: "Node \<Rightarrow> Node \<Rightarrow> bool" where
  "nodeConditionsChanged newNode oldNode \<longleftrightarrow> strip (node_Conditions oldNode) \<noteq> strip (node_Conditions newNode)"

definition nodeSpecUnschedulableChanged :: "Node \<Rightarrow> Node \<Rightarrow> bool" where
  "nodeSpecUnschedulableChanged newNode oldNode \<longleftrightarrow>
     node_Unschedulable newNode \<noteq> node_Unschedulable oldNode \<and> node_Unschedulable newNode = False"

definition nodeSchedulingPropertiesChanged :: "Node \<Rightarrow> Node \<Rightarrow> bool" where
  "nodeSchedulingPropertiesChanged newNode oldNode \<longleftrightarrow>
     (if nodeSpecUnschedulableChanged newNode oldNode then True
      else if nodeAllocatableChanged newNode oldNode then True
      else if nodeLabelsChanged newNode oldNode then True
      else if nodeTaintsChanged newNode oldNode then True
      else nodeConditionsChanged newNode oldNode)"

text \<open>The name of the pool that has the node; the name of no pool is the empty string.\<close>

definition pool_with_node :: "string list \<Rightarrow> string \<Rightarrow> schedulerCache \<Rightarrow> string" where
  "pool_with_node ord nodeName c = (case GetPoolContainsNode ord nodeName c of None \<Rightarrow> [] | Some n \<Rightarrow> name_of n c)"

definition move_in :: "Config \<Rightarrow> visits \<Rightarrow> string \<Rightarrow> ('m, 'p) Scheduler \<Rightarrow> ('m, 'p) Scheduler option" where
  "move_in cf v poolName s = with_queue s (MoveAllToActiveQueueIn (cf_k8s cf) (vs_now v) (vs_sub v) poolName (sc_queue s))"

definition addNodeToCache :: "Config \<Rightarrow> visits \<Rightarrow> Node \<Rightarrow> ('m, 'p) Scheduler \<Rightarrow> ('m, 'p) Scheduler option" where
  "addNodeToCache cf v node s =
     Option.bind (AddNode (cf_k8s cf) (vs_pools v) node (sc_cache s)) (\<lambda>c.
       move_in cf v (pool_with_node (vs_pools' v) (node_Name node) c) (s\<lparr>sc_cache := c\<rparr>))"

definition updateNodeInCache :: "Config \<Rightarrow> visits \<Rightarrow> Node \<Rightarrow> Node \<Rightarrow> ('m, 'p) Scheduler \<Rightarrow> ('m, 'p) Scheduler option" where
  "updateNodeInCache cf v oldNode newNode s =
     Option.bind (UpdateNode (cf_k8s cf) (vs_pools v) (Some oldNode) newNode (sc_cache s)) (\<lambda>(c, _).
       let s1 = s\<lparr>sc_cache := c\<rparr>; p = pool_with_node (vs_pools' v) (node_Name newNode) c in
       if NumUnschedulablePodsIn (sc_queue s1) p = 0 \<or> nodeSchedulingPropertiesChanged newNode oldNode then move_in cf v p s1 else Some s1)"

definition deleteNodeFromCache :: "Config \<Rightarrow> visits \<Rightarrow> Node deleted \<Rightarrow> ('m, 'p) Scheduler \<Rightarrow> ('m, 'p) Scheduler option" where
  "deleteNodeFromCache cf v ob s = (case final_object ob of
     None \<Rightarrow> Some s
   | Some node \<Rightarrow> map_option (\<lambda>(c, _). s\<lparr>sc_cache := c\<rparr>) (RemoveNode (cf_k8s cf) (vs_pools v) node (sc_cache s)))"

subsection \<open>Pods that wait\<close>

definition addPodToSchedulingQueue :: "Config \<Rightarrow> visits \<Rightarrow> Pod \<Rightarrow> ('m, 'p) Scheduler \<Rightarrow> ('m, 'p) Scheduler option" where
  "addPodToSchedulingQueue cf v pod s = with_queue s (map_option fst (PoolQueue_Add (cf_k8s cf) (vs_now v) pod (sc_queue s)))"

definition skip_copy :: "Pod \<Rightarrow> Pod" where
  "skip_copy pod = pod\<lparr>pod_ResourceVersion := [], pod_NodeName := [], pod_Annotations := []\<rparr>"

definition skipPodUpdate :: "Pod \<Rightarrow> ('m, 'p) Scheduler \<Rightarrow> bool" where
  "skipPodUpdate pod s = (case IsAssumedPod pod (sc_cache s) of
     Inl _ \<Rightarrow> False
   | Inr isAssumed \<Rightarrow>
      (if \<not> isAssumed then False
       else case GetPod pod (sc_cache s) of
         Inl _ \<Rightarrow> False
       | Inr assumedPod \<Rightarrow> skip_copy assumedPod = skip_copy pod))"

definition updatePodInSchedulingQueue :: "Config \<Rightarrow> visits \<Rightarrow> Pod \<Rightarrow> Pod \<Rightarrow> ('m, 'p) Scheduler \<Rightarrow> ('m, 'p) Scheduler option" where
  "updatePodInSchedulingQueue cf v oldPod pod s =
     (if skipPodUpdate pod s then Some s
      else with_queue s (map_option fst (PoolQueue_Update (cf_k8s cf) (vs_now v) (vs_queues v) (vs_sub v) (Some oldPod) pod (sc_queue s))))"

definition deletePodFromSchedulingQueue :: "Config \<Rightarrow> visits \<Rightarrow> Pod deleted \<Rightarrow> ('m, 'p) Scheduler \<Rightarrow> ('m, 'p) Scheduler option" where
  "deletePodFromSchedulingQueue cf v ob s = (case final_object ob of
     None \<Rightarrow> Some s
   | Some pod \<Rightarrow> with_queue s (PoolQueue_Delete (cf_k8s cf) (vs_queues v) (vs_sub v) pod (sc_queue s)))"

subsection \<open>Pods with a node\<close>

definition addPodToCache :: "Config \<Rightarrow> visits \<Rightarrow> Pod \<Rightarrow> ('m, 'p) Scheduler \<Rightarrow> ('m, 'p) Scheduler option" where
  "addPodToCache cf v pod s =
     Option.bind (AddPod (cf_k8s cf) (vs_pools v) (vs_pools' v) pod (sc_cache s)) (\<lambda>(c, _).
       with_queue (s\<lparr>sc_cache := c\<rparr>) (PoolQueue_AssignedPodAdded (cf_k8s cf) (vs_now v) (vs_sub v) pod (sc_queue s)))"

definition updatePodInCache :: "Config \<Rightarrow> visits \<Rightarrow> Pod \<Rightarrow> Pod \<Rightarrow> ('m, 'p) Scheduler \<Rightarrow> ('m, 'p) Scheduler option" where
  "updatePodInCache cf v oldPod newPod s =
     Option.bind (UpdatePod (cf_k8s cf) (vs_pools v) (vs_pools' v) oldPod newPod (sc_cache s)) (\<lambda>(c, _).
       with_queue (s\<lparr>sc_cache := c\<rparr>) (PoolQueue_AssignedPodUpdated (cf_k8s cf) (vs_now v) (vs_sub v) newPod (sc_queue s)))"

definition deletePodFromCache :: "Config \<Rightarrow> visits \<Rightarrow> Pod deleted \<Rightarrow> ('m, 'p) Scheduler \<Rightarrow> ('m, 'p) Scheduler option" where
  "deletePodFromCache cf v ob s = (case final_object ob of
     None \<Rightarrow> Some s
   | Some pod \<Rightarrow>
       Option.bind (RemovePod (cf_k8s cf) (vs_pools v) pod (sc_cache s)) (\<lambda>(c, _).
         move_in cf v (pool_with_node (vs_pools' v) (pod_NodeName pod) c) (s\<lparr>sc_cache := c\<rparr>)))"

subsection \<open>The handlers of the pod informer\<close>

definition assignedPod :: "Pod \<Rightarrow> bool" where
  "assignedPod pod \<longleftrightarrow> pod_NodeName pod \<noteq> []"

definition responsibleForPod :: "Pod \<Rightarrow> string \<Rightarrow> bool" where
  "responsibleForPod pod schedulerName \<longleftrightarrow> schedulerName = pod_SchedulerName pod"

datatype 'a event = EvAdd 'a | EvUpdate 'a 'a | EvDelete "'a deleted"

record ('a, 's) handler =
  AddFunc :: "'a \<Rightarrow> 's \<Rightarrow> 's option"
  UpdateFunc :: "'a \<Rightarrow> 'a \<Rightarrow> 's \<Rightarrow> 's option"
  DeleteFunc :: "'a deleted \<Rightarrow> 's \<Rightarrow> 's option"

text \<open>\<open>FilteringResourceEventHandler\<close> belongs to a library and is the parameter \<open>filtering\<close>. Its documented behaviour: an event
  reaches the handler when the object passes the filter; an object that starts to pass it is an addition and one that stops to pass it
  is a deletion.\<close>

type_synonym ('a, 's) filtering = "('a deleted \<Rightarrow> bool) \<Rightarrow> ('a, 's) handler \<Rightarrow> 'a event \<Rightarrow> 's \<Rightarrow> 's option"

definition filtering_documented :: "('a, 's) filtering \<Rightarrow> bool" where
  "filtering_documented filtering \<longleftrightarrow> (\<forall>P h a b d s.
     filtering P h (EvAdd a) s = (if P (Deleted a) then AddFunc h a s else Some s) \<and>
     filtering P h (EvUpdate a b) s =
       (if P (Deleted b) then if P (Deleted a) then UpdateFunc h a b s else AddFunc h b s
        else if P (Deleted a) then DeleteFunc h (Deleted a) s else Some s) \<and>
     filtering P h (EvDelete d) s = (if P d then DeleteFunc h d s else Some s))"

definition scheduled_filter :: "Pod deleted \<Rightarrow> bool" where
  "scheduled_filter ob = (case final_object ob of None \<Rightarrow> False | Some pod \<Rightarrow> assignedPod pod)"

definition unscheduled_filter :: "string \<Rightarrow> Pod deleted \<Rightarrow> bool" where
  "unscheduled_filter schedulerName ob =
     (case final_object ob of None \<Rightarrow> False | Some pod \<Rightarrow> \<not> assignedPod pod \<and> responsibleForPod pod schedulerName)"

text \<open>The two handlers that \<open>AddAllEventHandlers\<close> gives to the pod informer. Each has its own queue of events: both see all events in the
  order of the informer, but one may be ahead of the other.\<close>

definition cache_handler :: "(Pod, ('m, 'p) Scheduler) filtering \<Rightarrow> Config \<Rightarrow> visits \<Rightarrow> Pod event \<Rightarrow> ('m, 'p) Scheduler \<Rightarrow> ('m, 'p) Scheduler option" where
  "cache_handler filtering cf v = filtering scheduled_filter
     \<lparr>AddFunc = addPodToCache cf v, UpdateFunc = updatePodInCache cf v, DeleteFunc = deletePodFromCache cf v\<rparr>"

definition queue_handler ::
  "(Pod, ('m, 'p) Scheduler) filtering \<Rightarrow> string \<Rightarrow> Config \<Rightarrow> visits \<Rightarrow> Pod event \<Rightarrow> ('m, 'p) Scheduler \<Rightarrow> ('m, 'p) Scheduler option" where
  "queue_handler filtering schedulerName cf v = filtering (unscheduled_filter schedulerName)
     \<lparr>AddFunc = addPodToSchedulingQueue cf v, UpdateFunc = updatePodInSchedulingQueue cf v, DeleteFunc = deletePodFromSchedulingQueue cf v\<rparr>"

end
