(* ===== verification/Cache_State.thy ===== *)
theory Cache_State
  imports Scheduler_Cache
begin

text \<open>
  The contents of the cache and the state machine of its pods. \<open>view c pn n\<close> is what the pool \<open>pn\<close> knows
  about the node \<open>n\<close>; every operation of the cache is described by its effect on the views and on the
  states of the pods, and the invariant \<open>cache_inv\<close> ties the two together.
\<close>

subsection \<open>Effects on one pool\<close>

text \<open>\<open>pool_upd p st n p' st' v\<close>: only the item of the name \<open>n\<close> changes, to \<open>v\<close>.\<close>

definition pool_upd :: "PoolInfo \<Rightarrow> store \<Rightarrow> string \<Rightarrow> PoolInfo \<Rightarrow> store \<Rightarrow> NodeInfo option \<Rightarrow> bool" where
  "pool_upd p st n p' st' v \<longleftrightarrow>
     pi_pool p' = pi_pool p \<and> st_fresh st \<le> st_fresh st' \<and> (tree_inv (nodeTree p) \<longrightarrow> tree_inv (nodeTree p')) \<and>
     (case v of
        None \<Rightarrow> pi_nodes p' = fmdrop n (pi_nodes p) \<and> (\<forall>b. fmlookup (pi_nodes p) n \<noteq> Some b \<longrightarrow> info_of st' b = info_of st b)
      | Some ni \<Rightarrow> \<exists>a. pi_nodes p' = fmupd n a (pi_nodes p) \<and> info_of st' a = ni \<and> (\<forall>b. b \<noteq> a \<longrightarrow> info_of st' b = info_of st b) \<and>
          (fmlookup (pi_nodes p) n = Some a \<or> fmlookup (pi_nodes p) n = None \<and> a = st_fresh st \<and> a < st_fresh st'))"

lemma pool_upd_frame:
  assumes "pool_upd p st n q st' v" "pi_pool q' = pi_pool q" "pi_nodes q' = pi_nodes q" "tree_inv (nodeTree q) \<Longrightarrow> tree_inv (nodeTree q')"
  shows "pool_upd p st n q' st' v"
  using assms by (cases v) (simp_all add: pool_upd_def)

definition pool_view :: "PoolInfo \<Rightarrow> store \<Rightarrow> string \<Rightarrow> NodeInfo option" where
  "pool_view p st n = map_option (info_of st) (fmlookup (pi_nodes p) n)"

definition pods_of :: "NodeInfo option \<Rightarrow> Pod list" where
  "pods_of v = (case v of None \<Rightarrow> [] | Some ni \<Rightarrow> ni_pods ni)"

lemma pods_of_simps [simp]: "pods_of None = []" "pods_of (Some ni) = ni_pods ni"
  by (simp_all add: pods_of_def)

lemma moveNodeInfoToHead_same:
  assumes "moveNodeInfoToHead p n st = (p', st')"
  shows "\<exists>h. p' = p\<lparr>headNode := h\<rparr>" "same_info st st'"
  using assms
  by (auto simp: moveNodeInfoToHead_def Let_def same_info_unlink split: option.splits if_splits intro: exI[of _ "headNode p"])

lemma removeNodeInfoFromList_same:
  assumes "removeNodeInfoFromList p n st = (p', st')"
  shows "\<exists>h. p' = p\<lparr>headNode := h, pi_nodes := fmdrop n (pi_nodes p)\<rparr>" "same_info st st'"
  using assms same_info_unlink[of st] fmdrop_absent[of "pi_nodes p" n]
  by (auto simp: removeNodeInfoFromList_def Let_def split: option.splits if_splits
      intro: exI[of _ "headNode p"] exI[of _ "li_next x" for x])

lemma ensure_item_same:
  assumes "ensure_item L p n st = (a, p1, st1)"
  shows "p1 = p\<lparr>pi_nodes := fmupd n a (pi_nodes p)\<rparr>" "\<And>b. b \<noteq> a \<Longrightarrow> info_of st1 b = info_of st b" "st_fresh st \<le> st_fresh st1"
    "fmlookup (pi_nodes p) n = Some a \<or> fmlookup (pi_nodes p) n = None \<and> a = st_fresh st \<and> a < st_fresh st1"
    "ni_pods (info_of st1 a) = pods_of (pool_view p st n)"
    "ni_node (info_of st1 a) = Option.bind (pool_view p st n) ni_node"
proof -
  have "p1 = p\<lparr>pi_nodes := fmupd n a (pi_nodes p)\<rparr> \<and> (\<forall>b. b \<noteq> a \<longrightarrow> info_of st1 b = info_of st b) \<and> st_fresh st \<le> st_fresh st1 \<and>
    (fmlookup (pi_nodes p) n = Some a \<or> fmlookup (pi_nodes p) n = None \<and> a = st_fresh st \<and> a < st_fresh st1) \<and>
    ni_pods (info_of st1 a) = pods_of (pool_view p st n) \<and> ni_node (info_of st1 a) = Option.bind (pool_view p st n) ni_node"
  proof (cases "fmlookup (pi_nodes p) n")
    case None
    obtain ni g where n: "NewNodeInfo L [] (st_globals st) = (ni, g)" by fastforce
    show ?thesis
      using assms None NewNodeInfo_empty_facts[OF n]
      by (auto simp: ensure_item_def n newNodeInfoListItem_def info_of_def pool_view_def)
  next
    case (Some b)
    then show ?thesis using assms by (auto simp: ensure_item_def pool_view_def fmupd_triv)
  qed
  then show "p1 = p\<lparr>pi_nodes := fmupd n a (pi_nodes p)\<rparr>" "\<And>b. b \<noteq> a \<Longrightarrow> info_of st1 b = info_of st b" "st_fresh st \<le> st_fresh st1"
    "fmlookup (pi_nodes p) n = Some a \<or> fmlookup (pi_nodes p) n = None \<and> a = st_fresh st \<and> a < st_fresh st1"
    "ni_pods (info_of st1 a) = pods_of (pool_view p st n)"
    "ni_node (info_of st1 a) = Option.bind (pool_view p st n) ni_node"
    by blast+
qed

lemma same_info_D: "same_info st st' \<Longrightarrow> info_of st' b = info_of st b" "same_info st st' \<Longrightarrow> st_fresh st' = st_fresh st"
  by (simp_all add: same_info_def)

lemma set_info_same: "info_of (set_info a ni (st\<lparr>st_globals := g\<rparr>)) b = (if b = a then ni else info_of st b)"
  "st_fresh (set_info a ni (st\<lparr>st_globals := g\<rparr>)) = st_fresh st"
  by (auto simp: set_info_def info_of_def)

lemma PoolInfo_AddPod_upd:
  assumes r: "PoolInfo_AddPod L p pod st = (p', st')"
  obtains ni where "pool_upd p st (pod_NodeName pod) p' st' (Some ni)"
    "ni_pods ni = pods_of (pool_view p st (pod_NodeName pod)) @ [pod]"
    "ni_node ni = Option.bind (pool_view p st (pod_NodeName pod)) ni_node"
proof -
  let ?n = "pod_NodeName pod"
  obtain a p1 st1 where e: "ensure_item L p ?n st = (a, p1, st1)" by (metis prod.exhaust)
  note E = ensure_item_same[OF e]
  obtain ni g where n: "NodeInfo_AddPod L (info_of st1 a) pod (st_globals st1) = (ni, g)" by fastforce
  note F = NodeInfo_AddPod_facts[OF n]
  let ?st2 = "set_info a ni (st1\<lparr>st_globals := g\<rparr>)"
  obtain p2 st3 where m: "moveNodeInfoToHead p1 ?n ?st2 = (p2, st3)" by fastforce
  note M = moveNodeInfoToHead_same[OF m]
  have r': "p' = plusPodResource L p2 pod" "st' = st3"
    using r by (simp_all add: PoolInfo_AddPod_def Let_def e item_AddPod_def n m)
  have "info_of st3 b = (if b = a then ni else info_of st1 b)" "st_fresh st3 = st_fresh st1" for b
    using same_info_D[OF M(2)] by (simp_all add: set_info_same)
  moreover have "pi_pool p' = pi_pool p" "pi_nodes p' = fmupd ?n a (pi_nodes p)" "nodeTree p' = nodeTree p"
    using r'(1) M(1) E(1) pod_resource_frame[where p = p2 and L = L and pod = pod] pod_resource_fixed[where p = p2 and L = L and pod = pod]
    by (auto simp: same_nodes_def)
  ultimately have "pool_upd p st ?n p' st' (Some ni)"
    using E(2-4) r'(2) by (auto simp: pool_upd_def intro!: exI[of _ a])
  then show thesis using F(1,2) E(5,6) by (intro that) simp_all
qed

lemma NodeInfo_RemovePod_pods:
  assumes r: "NodeInfo_RemovePod L n pod g = (n', g', e)" and u: "pod_UID pod \<noteq> []"
  shows "ni_node n' = ni_node n" "pod_UID pod \<notin> pod_UID ` set (ni_pods n) \<Longrightarrow> e \<noteq> None \<and> ni_pods n' = ni_pods n"
    "pod_UID pod \<in> pod_UID ` set (ni_pods n) \<Longrightarrow>
       e = None \<and> (\<exists>q. pod_UID q = pod_UID pod \<and> mset (ni_pods n) = add_mset q (mset (ni_pods n')))"
proof -
  let ?k = "pod_UID pod"
  have key: "GetPodKey pod = Some ?k" using u by (simp add: GetPodKey_def)
  let ?n1 = "case find_pod ?k 0 (podsWithAffinity n) of None \<Rightarrow> n
      | Some i \<Rightarrow> n\<lparr>podsWithAffinity := delete_swap i (podsWithAffinity n)\<rparr>"
  have n1: "ni_pods ?n1 = ni_pods n" "ni_node ?n1 = ni_node n" by (auto split: option.split)
  show node: "ni_node n' = ni_node n"
    using r n1 by (auto simp: NodeInfo_RemovePod_def key Let_def nextGeneration_def split: option.splits prod.splits)
  {
    assume "?k \<notin> pod_UID ` set (ni_pods n)"
    then have "find_pod ?k 0 (ni_pods ?n1) = None" using find_pod_None[OF u] n1 by simp
    then show "e \<noteq> None \<and> ni_pods n' = ni_pods n"
      using r n1 by (auto simp: NodeInfo_RemovePod_def key Let_def split: option.splits)
  }
  {
    assume "?k \<in> pod_UID ` set (ni_pods n)"
    then obtain i where i: "find_pod ?k 0 (ni_pods n) = Some i" using find_pod_None[OF u] by (metis option.exhaust)
    from find_pod_Some[OF this] have l: "i < length (ni_pods n)" "pod_UID (ni_pods n ! i) = ?k" by auto
    have "e = None \<and> ni_pods n' = delete_swap i (ni_pods n)"
      using r i n1 by (auto simp: NodeInfo_RemovePod_def key Let_def nextGeneration_def split: option.splits prod.splits)
    moreover have "mset (ni_pods n) = add_mset (ni_pods n ! i) (mset (delete_swap i (ni_pods n)))"
      using l(1) delete_swap_mset[OF l(1)] by simp
    ultimately show "e = None \<and> (\<exists>q. pod_UID q = ?k \<and> mset (ni_pods n) = add_mset q (mset (ni_pods n')))"
      using l(2) by metis
  }
qed

lemma drop_or_move_upd:
  assumes a: "fmlookup (pi_nodes p) n = Some a"
    and r: "drop_or_move p n a (set_info a ni (st\<lparr>st_globals := g\<rparr>)) = (p', st')"
  shows "pool_upd p st n p' st' (if ni_pods ni = [] \<and> ni_node ni = None then None else Some ni)" "nodeTree p' = nodeTree p"
proof -
  let ?st1 = "set_info a ni (st\<lparr>st_globals := g\<rparr>)"
  have "pool_upd p st n p' st' (if ni_pods ni = [] \<and> ni_node ni = None then None else Some ni) \<and> nodeTree p' = nodeTree p"
  proof (cases "ni_pods ni = [] \<and> ni_node ni = None")
    case True
    then have m: "removeNodeInfoFromList p n ?st1 = (p', st')"
      using r by (simp add: drop_or_move_def set_info_same)
    show ?thesis
      using removeNodeInfoFromList_same(1)[OF m] same_info_D[OF removeNodeInfoFromList_same(2)[OF m]] True a
      by (auto simp: pool_upd_def set_info_same)
  next
    case False
    then have m: "moveNodeInfoToHead p n ?st1 = (p', st')"
      using r by (auto simp: drop_or_move_def set_info_same)
    show ?thesis
      using moveNodeInfoToHead_same(1)[OF m] same_info_D[OF moveNodeInfoToHead_same(2)[OF m]] False a
      by (auto simp: pool_upd_def set_info_same fmupd_triv)
  qed
  then show "pool_upd p st n p' st' (if ni_pods ni = [] \<and> ni_node ni = None then None else Some ni)" "nodeTree p' = nodeTree p"
    by blast+
qed

lemma PoolInfo_RemovePod_upd:
  assumes r: "PoolInfo_RemovePod L p pod st = (p', st', e)" and u: "pod_UID pod \<noteq> []"
  obtains v where "pool_upd p st (pod_NodeName pod) p' st' v" "Option.bind v ni_node = Option.bind (pool_view p st (pod_NodeName pod)) ni_node"
    "pod_UID pod \<notin> pod_UID ` set (pods_of (pool_view p st (pod_NodeName pod))) \<Longrightarrow>
       e \<noteq> None \<and> pods_of v = pods_of (pool_view p st (pod_NodeName pod)) \<and> (v = None \<longleftrightarrow> pool_view p st (pod_NodeName pod) = None)"
    "pod_UID pod \<in> pod_UID ` set (pods_of (pool_view p st (pod_NodeName pod))) \<Longrightarrow>
       e = None \<and> (\<exists>q. pod_UID q = pod_UID pod \<and> mset (pods_of (pool_view p st (pod_NodeName pod))) = add_mset q (mset (pods_of v)))"
proof (cases "fmlookup (pi_nodes p) (pod_NodeName pod)")
  case None
  then have v: "pool_view p st (pod_NodeName pod) = None" by (simp add: pool_view_def)
  have eq: "p' = p" "st' = st" "e = Some (NodeNotFound (pod_NodeName pod))" using r None by (auto simp: PoolInfo_RemovePod_def)
  have "pool_upd p st (pod_NodeName pod) p' st' None"
    using eq None by (auto simp: pool_upd_def fmdrop_absent)
  then show thesis by (rule that) (use v eq in auto)
next
  case (Some a)
  let ?n = "pod_NodeName pod"
  have v: "pool_view p st ?n = Some (info_of st a)" using Some by (simp add: pool_view_def)
  obtain ni g err where n: "NodeInfo_RemovePod L (info_of st a) pod (st_globals st) = (ni, g, err)" by (metis prod.exhaust)
  note F = NodeInfo_RemovePod_pods[OF n u]
  show thesis
  proof (cases err)
    case None
    obtain p1 st2 where d: "drop_or_move p ?n a (set_info a ni (st\<lparr>st_globals := g\<rparr>)) = (p1, st2)" by fastforce
    note D = drop_or_move_upd[OF Some d]
    have eq: "p' = reducePodResource L p1 pod" "st' = st2" "e = None"
      using r None Some d by (auto simp: PoolInfo_RemovePod_def n)
    let ?v = "if ni_pods ni = [] \<and> ni_node ni = None then None else Some ni"
    have "pool_upd p st ?n p' st' ?v"
      unfolding eq using pod_resource_frame[where p = p1 and L = L and pod = pod] pod_resource_fixed[where p = p1 and L = L and pod = pod]
      by (intro pool_upd_frame[OF D(1)]) (simp_all add: same_nodes_def)
    moreover have "pods_of ?v = ni_pods ni" "Option.bind ?v ni_node = ni_node ni" by auto
    ultimately show thesis using F None eq v by (intro that[of ?v]) auto
  next
    case (Some e1)
    then have eq: "p' = p" "st' = set_info a ni (st\<lparr>st_globals := g\<rparr>)" "e = Some (NodeInfoError e1)"
      using r \<open>fmlookup (pi_nodes p) ?n = Some a\<close> by (auto simp: PoolInfo_RemovePod_def n)
    have "pool_upd p st ?n p' st' (Some ni)"
      using eq \<open>fmlookup (pi_nodes p) ?n = Some a\<close> by (auto simp: pool_upd_def set_info_same fmupd_triv)
    then show thesis using F Some eq v by (intro that[of "Some ni"]) auto
  qed
qed

text \<open>\<open>AddNode\<close> and \<open>UpdateNode\<close> set the node of the item.\<close>

lemma PoolInfo_AddNode_upd:
  assumes r: "PoolInfo_AddNode L p node st = (p', st')"
  obtains ni where "pool_upd p st (node_Name node) p' st' (Some ni)"
    "ni_pods ni = pods_of (pool_view p st (node_Name node))" "ni_node ni = Some node"
proof -
  let ?n = "node_Name node"
  obtain a p1 st1 where e: "ensure_item L p ?n st = (a, p1, st1)" by (metis prod.exhaust)
  note E = ensure_item_same[OF e]
  obtain p2 st2 where m: "moveNodeInfoToHead p1 ?n st1 = (p2, st2)" by fastforce
  note M = moveNodeInfoToHead_same[OF m]
  obtain ni g where n: "SetNode L (info_of st2 a) node (st_globals st2) = (ni, g)" by fastforce
  note F = SetNode_facts[OF n]
  have st': "st' = set_info a ni (st2\<lparr>st_globals := g\<rparr>)" using r by (auto simp: PoolInfo_AddNode_def Let_def e m item_SetNode_def n)
  have i: "info_of st' b = (if b = a then ni else info_of st1 b)" "st_fresh st' = st_fresh st1" for b
    unfolding st' set_info_same using same_info_D[OF M(2)] by simp_all
  have "nodeTree p' = NodeTree_AddNode L (nodeTree p) node" "pi_pool p' = pi_pool p" "pi_nodes p' = fmupd ?n a (pi_nodes p)"
    using r[unfolded PoolInfo_AddNode_def Let_def e prod.case m, symmetric] M(1) E(1) by auto
  then have "pool_upd p st ?n p' st' (Some ni)"
    using E(2-4) i by (auto simp: pool_upd_def NodeTree_AddNode_def tree_addNode_inv intro!: exI[of _ a])
  then show thesis using F(1,2) E(5) same_info_D(1)[OF M(2), of a] by (intro that) simp_all
qed

lemma PoolInfo_RemoveNode_upd:
  assumes t: "tree_inv (nodeTree p)"
  obtains p' st' e v where "PoolInfo_RemoveNode L p node st = Some (p', st', e)" "pool_upd p st (node_Name node) p' st' v"
    "pods_of v = pods_of (pool_view p st (node_Name node))" "Option.bind v ni_node = None"
    "e = None \<longleftrightarrow> pool_view p st (node_Name node) \<noteq> None"
proof (cases "fmlookup (pi_nodes p) (node_Name node)")
  case None
  then show thesis
    by (intro that[of p st "Some (NodeNotFound (node_Name node))" None])
      (auto simp: PoolInfo_RemoveNode_def pool_upd_def fmdrop_absent pool_view_def)
next
  case (Some a)
  let ?n = "node_Name node"
  obtain ni g where n: "NodeInfo_RemoveNode (info_of st a) (st_globals st) = (ni, g)" by fastforce
  have ni: "ni_pods ni = ni_pods (info_of st a)" "ni_node ni = None"
    using n by (auto simp: NodeInfo_RemoveNode_def nextGeneration_def)
  obtain p1 st2 where d: "drop_or_move p ?n a (set_info a ni (st\<lparr>st_globals := g\<rparr>)) = (p1, st2)" by fastforce
  note D = drop_or_move_upd[OF Some d]
  obtain nt e0 where tr: "NodeTree_RemoveNode L (nodeTree p1) node = Some (nt, e0)" "tree_inv nt"
    using tree_removeNode_inv[of "nodeTree p1" L node] D(2) t by (auto simp: NodeTree_RemoveNode_def)
  let ?v = "if ni_pods ni = [] \<and> ni_node ni = None then None else Some ni"
  let ?p' = "p1\<lparr>nodeTree := nt, pi_capacity := Sub (pi_capacity p1) (NewResource L (node_Capacity node)),
      pi_allocatable := Sub (pi_allocatable p1) (NewResource L (node_Allocatable node))\<rparr>"
  show thesis
  proof (rule that[of ?p' st2 None ?v])
    show "PoolInfo_RemoveNode L p node st = Some (?p', st2, None)"
      using Some by (simp add: PoolInfo_RemoveNode_def n d tr)
    show "pool_upd p st ?n ?p' st2 ?v" by (rule pool_upd_frame[OF D(1)]) (simp_all add: tr(2))
  qed (use ni Some in \<open>auto simp: pool_view_def\<close>)
qed

lemma PoolInfo_UpdateNode_upd:
  assumes t: "tree_inv (nodeTree p)"
  obtains p' st' ni where "PoolInfo_UpdateNode L p (Some old) node st = Some (p', st')" "pool_upd p st (node_Name node) p' st' (Some ni)"
    "ni_pods ni = pods_of (pool_view p st (node_Name node))" "ni_node ni = Some node"
proof -
  let ?n = "node_Name node"
  obtain a p1 st1 where e: "ensure_item L p ?n st = (a, p1, st1)" by (metis prod.exhaust)
  note E = ensure_item_same[OF e]
  obtain p2 st2 where m: "moveNodeInfoToHead p1 ?n st1 = (p2, st2)" by fastforce
  note M = moveNodeInfoToHead_same[OF m]
  obtain ni g where n: "SetNode L (info_of st2 a) node (st_globals st2) = (ni, g)" by fastforce
  note F = SetNode_facts[OF n]
  have t2: "tree_inv (nodeTree p2)" using t M(1) E(1) by auto
  obtain nt where tr: "NodeTree_UpdateNode L (nodeTree p2) (Some old) node = Some nt" "tree_inv nt"
    using NodeTree_UpdateNode_inv[OF t2] by metis
  obtain p' st' where r: "PoolInfo_UpdateNode L p (Some old) node st = Some (p', st')"
    by (simp add: PoolInfo_UpdateNode_def Let_def e m tr)
  have st': "st' = set_info a ni (st2\<lparr>st_globals := g\<rparr>)"
    using r by (auto simp: PoolInfo_UpdateNode_def Let_def e m tr item_SetNode_def n)
  have i: "info_of st' b = (if b = a then ni else info_of st1 b)" "st_fresh st' = st_fresh st1" for b
    unfolding st' set_info_same using same_info_D[OF M(2)] by simp_all
  have "nodeTree p' = nt" "pi_pool p' = pi_pool p" "pi_nodes p' = fmupd ?n a (pi_nodes p)"
    using r[unfolded PoolInfo_UpdateNode_def Let_def e prod.case m tr option.map option.inject, symmetric] M(1) E(1) by auto
  then have "pool_upd p st ?n p' st' (Some ni)"
    using E(2-4) i tr(2) by (auto simp: pool_upd_def intro!: exI[of _ a])
  then show thesis using r F(1,2) E(5) same_info_D(1)[OF M(2), of a] by (intro that) simp_all
qed

subsection \<open>The contents of the cache\<close>

definition item_at :: "schedulerCache \<Rightarrow> string \<Rightarrow> string \<Rightarrow> nat option" where
  "item_at c pn n = Option.bind (fmlookup (pools c) pn) (\<lambda>p. fmlookup (pi_nodes p) n)"

definition view :: "schedulerCache \<Rightarrow> string \<Rightarrow> string \<Rightarrow> NodeInfo option" where
  "view c pn n = map_option (info_of (heap c)) (item_at c pn n)"

text \<open>The default pool exists, a pool is stored under its name, no two entries share an item, and an item
  stands under the name of its node.\<close>

definition pools_ok :: "schedulerCache \<Rightarrow> bool" where
  "pools_ok c \<longleftrightarrow> fmlookup (pools c) DefaultPoolName \<noteq> None \<and>
     (\<forall>pn p. fmlookup (pools c) pn = Some p \<longrightarrow> PoolInfo_Name p = pn \<and> tree_inv (nodeTree p)) \<and>
     (\<forall>pn n pn' n' a. item_at c pn n = Some a \<longrightarrow> item_at c pn' n' = Some a \<longrightarrow> pn = pn' \<and> n = n') \<and>
     (\<forall>pn n a. item_at c pn n = Some a \<longrightarrow> a < st_fresh (heap c)) \<and>
     (\<forall>pn n ni nd. view c pn n = Some ni \<longrightarrow> ni_node ni = Some nd \<longrightarrow> node_Name nd = n)"

lemma pools_okD:
  assumes "pools_ok c"
  shows "\<exists>p. fmlookup (pools c) DefaultPoolName = Some p" "defaultPool c = Some DefaultPoolName"
    "fmlookup (pools c) pn = Some p \<Longrightarrow> PoolInfo_Name p = pn" "fmlookup (pools c) pn = Some p \<Longrightarrow> tree_inv (nodeTree p)"
    "item_at c pn n = Some a \<Longrightarrow> item_at c pn' n' = Some a \<Longrightarrow> pn' = pn \<and> n' = n"
    "item_at c pn n = Some a \<Longrightarrow> a < st_fresh (heap c)"
    "view c pn n = Some ni \<Longrightarrow> ni_node ni = Some nd \<Longrightarrow> node_Name nd = n"
  using assms unfolding pools_ok_def defaultPool_def by auto

definition same_pods :: "schedulerCache \<Rightarrow> schedulerCache \<Rightarrow> bool" where
  "same_pods c c' \<longleftrightarrow> assumedPods c' = assumedPods c \<and> podStates c' = podStates c \<and> ttl c' = ttl c"

definition same_pools :: "schedulerCache \<Rightarrow> schedulerCache \<Rightarrow> bool" where
  "same_pools c c' \<longleftrightarrow> (\<forall>pn. map_option pi_pool (fmlookup (pools c') pn) = map_option pi_pool (fmlookup (pools c) pn))"

lemma same_refl [simp]: "same_pods c c" "same_pools c c"
  by (simp_all add: same_pods_def same_pools_def)

lemma same_trans:
  "same_pods c c' \<Longrightarrow> same_pods c' c'' \<Longrightarrow> same_pods c c''" "same_pools c c' \<Longrightarrow> same_pools c' c'' \<Longrightarrow> same_pools c c''"
  by (simp_all add: same_pods_def same_pools_def)

lemma same_pools_None: "same_pools c c' \<Longrightarrow> fmlookup (pools c') pn = None \<longleftrightarrow> fmlookup (pools c) pn = None"
  unfolding same_pools_def by (metis option.map_disc_iff)

lemma same_pools_dom: "same_pools c c' \<Longrightarrow> fmdom (pools c') = fmdom (pools c)"
  using same_pools_None by (intro fset_eqI) auto

text \<open>\<open>touched c pn n v c'\<close>: of all views, only that of node \<open>n\<close> in pool \<open>pn\<close> changes, to \<open>v\<close>.\<close>

definition touched :: "schedulerCache \<Rightarrow> string \<Rightarrow> string \<Rightarrow> NodeInfo option \<Rightarrow> schedulerCache \<Rightarrow> bool" where
  "touched c pn n v c' \<longleftrightarrow> pools_ok c' \<and> same_pods c c' \<and> same_pools c c' \<and>
     (\<forall>pn' n'. view c' pn' n' = (if pn' = pn \<and> n' = n then v else view c pn' n'))"

lemma touchedD:
  assumes "touched c pn n v c'"
  shows "pools_ok c'" "same_pods c c'" "same_pools c c'" "view c' pn n = v"
    "\<not> (pn' = pn \<and> n' = n) \<Longrightarrow> view c' pn' n' = view c pn' n'"
    "view c' pn' n' = (if pn' = pn \<and> n' = n then v else view c pn' n')"
  using assms by (auto simp: touched_def)

lemma pool_upd_view:
  assumes u: "pool_upd p st n p' st' v"
    and sep: "\<And>m a. fmlookup (pi_nodes p) m = Some a \<Longrightarrow> fmlookup (pi_nodes p) n = Some a \<Longrightarrow> m = n"
    and fresh: "\<And>m a. fmlookup (pi_nodes p) m = Some a \<Longrightarrow> a < st_fresh st"
  shows "pool_view p' st' m = (if m = n then v else pool_view p st m)"
proof (cases v)
  case None
  then have d: "pi_nodes p' = fmdrop n (pi_nodes p)" "\<And>b. fmlookup (pi_nodes p) n \<noteq> Some b \<Longrightarrow> info_of st' b = info_of st b"
    using u by (auto simp: pool_upd_def)
  show ?thesis
  proof (cases "m = n \<or> fmlookup (pi_nodes p) m = None")
    case False
    then obtain b where b: "fmlookup (pi_nodes p) m = Some b" "m \<noteq> n" by auto
    then have "info_of st' b = info_of st b" using sep d(2) by blast
    then show ?thesis using b d(1) by (simp add: pool_view_def)
  qed (use d None in \<open>auto simp: pool_view_def\<close>)
next
  case (Some ni)
  then obtain a where a: "pi_nodes p' = fmupd n a (pi_nodes p)" "info_of st' a = ni" "\<And>b. b \<noteq> a \<Longrightarrow> info_of st' b = info_of st b"
    "fmlookup (pi_nodes p) n = Some a \<or> fmlookup (pi_nodes p) n = None \<and> a = st_fresh st"
    using u by (auto simp: pool_upd_def)
  have "b \<noteq> a" if "fmlookup (pi_nodes p) m = Some b" "m \<noteq> n" for b
    using a(4) sep[OF that(1)] fresh[OF that(1)] that(2) by auto
  then show ?thesis using a Some by (cases "fmlookup (pi_nodes p) m") (auto simp: pool_view_def)
qed

lemma view_pool: "fmlookup (pools c) pn = Some p \<Longrightarrow> view c pn n = pool_view p (heap c) n"
  by (simp add: view_def item_at_def pool_view_def)

lemma pool_upd_touched:
  assumes ok: "pools_ok c" and p: "fmlookup (pools c) pn = Some p" and u: "pool_upd p (heap c) n p' st' v"
    and nd: "\<And>nd. Option.bind v ni_node = Some nd \<Longrightarrow> node_Name nd = n"
  shows "touched c pn n v (c\<lparr>pools := fmupd pn p' (pools c), heap := st'\<rparr>)"
proof -
  let ?c = "c\<lparr>pools := fmupd pn p' (pools c), heap := st'\<rparr>"
  note D = pools_okD[OF ok]
  have ip: "item_at c pn m = fmlookup (pi_nodes p) m" for m using p by (simp add: item_at_def)
  have i: "item_at ?c q m = (if q = pn then fmlookup (pi_nodes p') m else item_at c q m)" for q m
    by (simp add: item_at_def)
  have fr: "st_fresh (heap c) \<le> st_fresh st'" using u by (simp add: pool_upd_def)
  have old: "item_at c q m = Some a \<or> a = st_fresh (heap c) \<and> q = pn \<and> m = n \<and> a < st_fresh st'"
    if "item_at ?c q m = Some a" for q m a
    using that u ip by (cases v) (auto simp: i pool_upd_def split: if_splits)
  have other: "info_of st' a = info_of (heap c) a" if "item_at c q m = Some a" "q \<noteq> pn" for q m a
  proof (cases v)
    case None
    then have "\<forall>b. fmlookup (pi_nodes p) n \<noteq> Some b \<longrightarrow> info_of st' b = info_of (heap c) b" using u by (simp add: pool_upd_def)
    moreover have "fmlookup (pi_nodes p) n \<noteq> Some a" using D(5)[OF that(1), of pn n] that(2) ip by auto
    ultimately show ?thesis by simp
  next
    case (Some ni)
    then obtain a' where "fmlookup (pi_nodes p) n = Some a' \<or> a' = st_fresh (heap c)" "\<And>b. b \<noteq> a' \<Longrightarrow> info_of st' b = info_of (heap c) b"
      using u by (auto simp: pool_upd_def)
    moreover have "a' \<noteq> a" using calculation(1) D(5)[OF that(1), of pn n] D(6)[OF that(1)] that(2) ip by auto
    ultimately show ?thesis by simp
  qed
  have v: "view ?c q m = (if q = pn \<and> m = n then v else view c q m)" for q m
  proof (cases "q = pn")
    case True
    have "pool_view p' st' m = (if m = n then v else pool_view p (heap c) m)"
      by (rule pool_upd_view[OF u]) (use D(5,6) ip in metis)+
    then show ?thesis using True p by (simp add: view_pool)
  next
    case False
    then show ?thesis using other[of q m] by (cases "item_at c q m") (simp_all add: view_def i)
  qed
  have "pools_ok ?c"
    unfolding pools_ok_def
  proof (intro conjI allI impI)
    show "fmlookup (pools ?c) DefaultPoolName \<noteq> None" using D(1) by auto
    fix q r assume q: "fmlookup (pools ?c) q = Some r"
    have "PoolInfo_Name p' = PoolInfo_Name p" "tree_inv (nodeTree p')"
      using u D(4)[OF p] by (simp_all add: pool_upd_def PoolInfo_Name_def)
    then show "PoolInfo_Name r = q" "tree_inv (nodeTree r)" using q p D(3,4) by (auto split: if_splits)
  next
    fix q m q' m' a assume "item_at ?c q m = Some a" "item_at ?c q' m' = Some a"
    then have "q = q' \<and> m = m'" using old[of q m a] old[of q' m' a] D(5)[of q m a q' m'] D(6)[of q m a] D(6)[of q' m' a] by auto
    then show "q = q'" "m = m'" by simp_all
  next
    fix q m a assume "item_at ?c q m = Some a"
    then show "a < st_fresh (heap ?c)" using old[of q m a] D(6)[of q m a] fr by auto
  next
    fix q m ni x assume "view ?c q m = Some ni" "ni_node ni = Some x"
    then show "node_Name x = m" using v[of q m] nd[of x] D(7)[of q m ni x] by (auto split: if_splits)
  qed
  moreover have "same_pools c ?c" using u p by (auto simp: same_pools_def pool_upd_def)
  ultimately show ?thesis using v by (simp add: touched_def same_pods_def)
qed

subsection \<open>Pods and their states\<close>

text \<open>\<open>pods_ok V S\<close>: the pods \<open>V pn n\<close> on the nodes are exactly the pods with a state in \<open>S\<close>, each on its node.\<close>

definition pods_ok :: "(string \<Rightarrow> string \<Rightarrow> Pod list) \<Rightarrow> (string \<Rightarrow> podState option) \<Rightarrow> bool" where
  "pods_ok V S \<longleftrightarrow>
     (\<forall>pn n. \<forall>q \<in> set (V pn n). pod_NodeName q = n \<and> (\<exists>ps. S (pod_UID q) = Some ps \<and> pod_NodeName (ps_pod ps) = n)) \<and>
     (\<forall>pn n. distinct (map pod_UID (V pn n))) \<and>
     (\<forall>k ps. S k = Some ps \<longrightarrow> k \<noteq> [] \<and> pod_UID (ps_pod ps) = k \<and> pod_NodeName (ps_pod ps) \<noteq> [] \<and>
        (\<exists>pn. k \<in> pod_UID ` set (V pn (pod_NodeName (ps_pod ps)))))"

lemma pods_okD:
  assumes "pods_ok V S"
  shows "q \<in> set (V pn n) \<Longrightarrow> pod_NodeName q = n" "q \<in> set (V pn n) \<Longrightarrow> \<exists>ps. S (pod_UID q) = Some ps \<and> pod_NodeName (ps_pod ps) = n"
    "distinct (map pod_UID (V pn n))"
    "S k = Some ps \<Longrightarrow> k \<noteq> []" "S k = Some ps \<Longrightarrow> pod_UID (ps_pod ps) = k" "S k = Some ps \<Longrightarrow> pod_NodeName (ps_pod ps) \<noteq> []"
    "S k = Some ps \<Longrightarrow> \<exists>pn. k \<in> pod_UID ` set (V pn (pod_NodeName (ps_pod ps)))"
  using assms unfolding pods_ok_def by blast+

definition put :: "string \<Rightarrow> string \<Rightarrow> 'a \<Rightarrow> (string \<Rightarrow> string \<Rightarrow> 'a) \<Rightarrow> string \<Rightarrow> string \<Rightarrow> 'a" where
  "put pn n x V pn' n' = (if pn' = pn \<and> n' = n then x else V pn' n')"

lemma put_simps [simp]: "put pn n x V pn n = x" "pn' \<noteq> pn \<or> n' \<noteq> n \<Longrightarrow> put pn n x V pn' n' = V pn' n'"
  by (auto simp: put_def)

lemma pods_ok_add:
  assumes ok: "pods_ok V S" and k: "S (pod_UID pod) = None" "pod_UID pod \<noteq> []" "pod_NodeName pod \<noteq> []" and ps: "ps_pod ps = pod"
  shows "pods_ok (put pn (pod_NodeName pod) (V pn (pod_NodeName pod) @ [pod]) V) (S(pod_UID pod \<mapsto> ps))"
proof -
  let ?n = "pod_NodeName pod" let ?V = "put pn ?n (V pn ?n @ [pod]) V"
  note D = pods_okD[OF ok]
  have mem: "q \<in> set (?V pn' n') \<longleftrightarrow> q \<in> set (V pn' n') \<or> q = pod \<and> pn' = pn \<and> n' = ?n" for q pn' n'
    by (auto simp: put_def)
  have new: "pod_UID q \<noteq> pod_UID pod" if "q \<in> set (V pn' n')" for q pn' n' using D(2)[OF that] k(1) by auto
  show ?thesis unfolding pods_ok_def
  proof (intro conjI allI ballI impI)
    fix pn' n' q assume "q \<in> set (?V pn' n')"
    then show "pod_NodeName q = n'" "\<exists>ps'. (S(pod_UID pod \<mapsto> ps)) (pod_UID q) = Some ps' \<and> pod_NodeName (ps_pod ps') = n'"
      using D(1,2)[of q pn' n'] new[of q pn' n'] ps by (auto simp: mem)
  next
    fix pn' n'
    have "pod_UID pod \<notin> pod_UID ` set (V pn' n')" using new by (metis imageE)
    then show "distinct (map pod_UID (?V pn' n'))" using D(3)[of pn' n'] by (cases "pn' = pn \<and> n' = ?n") (auto simp: put_def)
  next
    fix k' ps' assume a: "(S(pod_UID pod \<mapsto> ps)) k' = Some ps'"
    show "k' \<noteq> []" "pod_UID (ps_pod ps') = k'" "pod_NodeName (ps_pod ps') \<noteq> []"
      using a D(4-6)[of k' ps'] k ps by (auto split: if_splits)
    show "\<exists>pn'. k' \<in> pod_UID ` set (?V pn' (pod_NodeName (ps_pod ps')))"
    proof (cases "k' = pod_UID pod")
      case True
      then show ?thesis using a ps by (intro exI[of _ pn]) auto
    next
      case False
      then have "S k' = Some ps'" using a by simp
      from D(7)[OF this] obtain pn' r where "r \<in> set (V pn' (pod_NodeName (ps_pod ps')))" "pod_UID r = k'" by auto
      then have "r \<in> set (?V pn' (pod_NodeName (ps_pod ps')))" "pod_UID r = k'" using mem by simp_all
      then show ?thesis by blast
    qed
  qed
qed

lemma pods_ok_remove:
  assumes ok: "pods_ok V S" and m: "mset (V pn n) = add_mset q (mset W)"
    and one: "\<And>pn'. pn' \<noteq> pn \<Longrightarrow> V pn' n = []"
  shows "pods_ok (put pn n W V) (S(pod_UID q := None))"
proof -
  let ?V = "put pn n W V" and ?k = "pod_UID q"
  note D = pods_okD[OF ok]
  have "mset (map pod_UID (V pn n)) = add_mset ?k (mset (map pod_UID W))" using arg_cong[OF m, of "image_mset pod_UID"] by simp
  then have dk: "?k \<notin> pod_UID ` set W" "distinct (map pod_UID W)"
    using D(3)[of pn n] by (metis distinct.simps(2) list.set_map mset.simps(2) mset_eq_imp_distinct_iff)+
  have qs: "q \<in> set (V pn n)" using m by (metis set_mset_mset union_single_eq_member)
  obtain psq where psq: "S ?k = Some psq" "pod_NodeName (ps_pod psq) = n" using D(2)[OF qs] by blast
  have W: "set (V pn n) = insert q (set W)" using m by (metis set_mset_add_mset_insert set_mset_mset)
  have sub: "r \<in> set (V pn' n') \<and> pod_UID r \<noteq> ?k" if "r \<in> set (?V pn' n')" for r pn' n'
  proof (cases "pn' = pn \<and> n' = n")
    case True
    then have "r \<in> set W" using that by simp
    then have "pod_UID r \<in> pod_UID ` set W" "r \<in> set (V pn n)" using W by simp_all
    then show ?thesis using True dk(1) by metis
  next
    case False
    then have r: "r \<in> set (V pn' n')" using that by (simp add: put_def split: if_splits)
    then have "n' \<noteq> n" using False one[of pn'] by fastforce
    then show ?thesis using r D(2)[OF r] psq by auto
  qed
  show ?thesis unfolding pods_ok_def
  proof (intro conjI allI ballI impI)
    fix pn' n' r assume r: "r \<in> set (?V pn' n')"
    show "pod_NodeName r = n'" "\<exists>ps'. (S(?k := None)) (pod_UID r) = Some ps' \<and> pod_NodeName (ps_pod ps') = n'"
      using sub[OF r] D(1,2)[of r pn' n'] by auto
  next
    fix pn' n' show "distinct (map pod_UID (?V pn' n'))" using D(3)[of pn' n'] dk(2) by (auto simp: put_def)
  next
    fix k' ps' assume "(S(?k := None)) k' = Some ps'"
    then have a: "S k' = Some ps'" "k' \<noteq> ?k" by (auto split: if_splits)
    then show "k' \<noteq> []" "pod_UID (ps_pod ps') = k'" "pod_NodeName (ps_pod ps') \<noteq> []" using D(4-6) by auto
    obtain pn' r where r: "r \<in> set (V pn' (pod_NodeName (ps_pod ps')))" "pod_UID r = k'" using D(7)[OF a(1)] by auto
    then have "r \<in> set (?V pn' (pod_NodeName (ps_pod ps')))" using a(2) W by (auto simp: put_def)
    then show "\<exists>pn'. k' \<in> pod_UID ` set (?V pn' (pod_NodeName (ps_pod ps')))" using r(2) by blast
  qed
qed

lemma pods_ok_state:
  assumes ok: "pods_ok V S" and k: "S k = Some ps" "pod_UID (ps_pod ps') = k" "pod_NodeName (ps_pod ps') = pod_NodeName (ps_pod ps)"
  shows "pods_ok V (S(k \<mapsto> ps'))"
proof -
  note D = pods_okD[OF ok]
  show ?thesis unfolding pods_ok_def
  proof (intro conjI allI ballI impI)
    fix pn n q assume "q \<in> set (V pn n)"
    then show "pod_NodeName q = n" "\<exists>ps''. (S(k \<mapsto> ps')) (pod_UID q) = Some ps'' \<and> pod_NodeName (ps_pod ps'') = n"
      using D(1,2)[of q pn n] k by auto
  next
    fix k' ps'' assume a: "(S(k \<mapsto> ps')) k' = Some ps''"
    have "k' \<noteq> [] \<and> pod_UID (ps_pod ps'') = k' \<and> pod_NodeName (ps_pod ps'') \<noteq> []"
    proof (cases "k' = k")
      case True
      then show ?thesis using a D(4,6)[OF k(1)] k(2,3) by simp
    next
      case False
      then show ?thesis using a D(4-6)[of k' ps''] by simp
    qed
    then show "k' \<noteq> []" "pod_UID (ps_pod ps'') = k'" "pod_NodeName (ps_pod ps'') \<noteq> []" by simp_all
    show "\<exists>pn. k' \<in> pod_UID ` set (V pn (pod_NodeName (ps_pod ps'')))"
    proof (cases "k' = k")
      case True
      then show ?thesis using a D(7)[OF k(1)] k(3) by simp
    next
      case False
      then show ?thesis using a D(7)[of k' ps''] by simp
    qed
  qed (rule D(3))
qed

subsection \<open>The invariant of the cache\<close>

definition one_pool :: "schedulerCache \<Rightarrow> bool" where
  "one_pool c \<longleftrightarrow> (\<forall>pn pn' n. view c pn n \<noteq> None \<longrightarrow> view c pn' n \<noteq> None \<longrightarrow> pn' = pn)"

definition assumed_ok :: "schedulerCache \<Rightarrow> bool" where
  "assumed_ok c \<longleftrightarrow> (\<forall>k b. fmlookup (assumedPods c) k = Some b \<longrightarrow> b \<and>
     (\<exists>ps. fmlookup (podStates c) k = Some ps \<and> (bindingFinished ps \<longrightarrow> deadline ps \<noteq> None)))"

definition node_pods :: "schedulerCache \<Rightarrow> string \<Rightarrow> string \<Rightarrow> Pod list" where
  "node_pods c pn n = pods_of (view c pn n)"

definition cache_inv :: "schedulerCache \<Rightarrow> bool" where
  "cache_inv c \<longleftrightarrow> pools_ok c \<and> one_pool c \<and> assumed_ok c \<and> pods_ok (node_pods c) (fmlookup (podStates c))"

lemma cache_invD:
  assumes "cache_inv c"
  shows "pools_ok c" "one_pool c" "assumed_ok c" "pods_ok (node_pods c) (fmlookup (podStates c))"
  using assms by (simp_all add: cache_inv_def)

definition covers :: "string list \<Rightarrow> schedulerCache \<Rightarrow> bool" where
  "covers ord c \<longleftrightarrow> distinct ord \<and> set ord = fset (fmdom (pools c))"

lemma covers_same: "same_pools c c' \<Longrightarrow> covers ord c' = covers ord c"
  by (simp add: covers_def same_pools_dom)

lemma contains_node_item: "n \<noteq> [] \<Longrightarrow> contains_node (Some pn) n c = item_at c pn n"
  by (simp add: contains_node_def item_at_def ContainsNode_def)

lemma matchPoolForPod_home:
  assumes ok: "pools_ok c" "one_pool c" and n: "pod_NodeName pod \<noteq> []" and ord: "covers ord c"
  obtains pn p where "matchPoolForPod ord pod c = Some pn" "fmlookup (pools c) pn = Some p"
    "\<And>qn. view c qn (pod_NodeName pod) \<noteq> None \<Longrightarrow> qn = pn"
proof -
  let ?n = "pod_NodeName pod"
  have item: "contains_node (Some qn) ?n c \<noteq> None \<longleftrightarrow> view c qn ?n \<noteq> None" for qn
    by (simp add: contains_node_item[OF n] view_def)
  have dom: "qn \<in> set ord" if "view c qn ?n \<noteq> None" for qn
    using that ord by (cases "fmlookup (pools c) qn") (auto simp: view_def item_at_def covers_def)
  show thesis
  proof (cases "List.find (\<lambda>qn. contains_node (Some qn) ?n c \<noteq> None) ord")
    case None
    then have none: "view c qn ?n = None" for qn using dom item unfolding find_None_iff by metis
    obtain p where "fmlookup (pools c) DefaultPoolName = Some p" using pools_okD(1)[OF ok(1)] by blast
    then show thesis using None none n pools_okD(2)[OF ok(1)]
      by (intro that[of DefaultPoolName p]) (simp_all add: matchPoolForPod_def)
  next
    case (Some pn)
    then have v: "view c pn ?n \<noteq> None" using item by (auto simp: find_Some_iff)
    then obtain p where "fmlookup (pools c) pn = Some p" by (cases "fmlookup (pools c) pn") (auto simp: view_def item_at_def)
    then show thesis using Some n v ok(2) by (intro that[of pn p]) (auto simp: matchPoolForPod_def one_pool_def)
  qed
qed

lemma one_pool_touched:
  assumes "one_pool c" "touched c pn n v c'" "\<And>qn. view c qn n \<noteq> None \<Longrightarrow> qn = pn"
  shows "one_pool c'"
  using assms touchedD(6)[OF assms(2)] unfolding one_pool_def by (metis (full_types))

lemma node_pods_touched: "touched c pn n v c' \<Longrightarrow> node_pods c' = put pn n (pods_of v) (node_pods c)"
  by (auto simp: fun_eq_iff node_pods_def put_def touchedD(6))

lemma matchPoolForPod_unknown:
  assumes ok: "pools_ok c" and n: "pod_NodeName pod \<noteq> []" and none: "\<And>qn. view c qn (pod_NodeName pod) = None"
  shows "matchPoolForPod ord pod c = Some DefaultPoolName"
proof -
  have "contains_node (Some qn) (pod_NodeName pod) c = None" for qn using none[of qn] by (simp add: contains_node_item[OF n] view_def)
  then have "List.find (\<lambda>qn. contains_node (Some qn) (pod_NodeName pod) c \<noteq> None) ord = None" by (simp add: find_None_iff)
  then show ?thesis using n pools_okD(2)[OF ok] by (simp add: matchPoolForPod_def)
qed

text \<open>Adding and removing a pod, in the pool that \<open>matchPoolForPod\<close> finds.\<close>

lemma addPod_at:
  assumes ok: "pools_ok c" and m: "matchPoolForPod ord pod c = Some pn" "fmlookup (pools c) pn = Some p"
  obtains c' ni where "addPod L ord pod c = Some c'" "touched c pn (pod_NodeName pod) (Some ni) c'"
    "ni_pods ni = node_pods c pn (pod_NodeName pod) @ [pod]" "ni_node ni = Option.bind (view c pn (pod_NodeName pod)) ni_node"
proof -
  let ?n = "pod_NodeName pod"
  obtain p' st' where r: "PoolInfo_AddPod L p pod (heap c) = (p', st')" by fastforce
  obtain ni where u: "pool_upd p (heap c) ?n p' st' (Some ni)" "ni_pods ni = pods_of (pool_view p (heap c) ?n) @ [pod]"
      "ni_node ni = Option.bind (pool_view p (heap c) ?n) ni_node"
    using PoolInfo_AddPod_upd[OF r] by metis
  have v: "view c pn ?n = pool_view p (heap c) ?n" by (rule view_pool[OF m(2)])
  have t: "touched c pn ?n (Some ni) (c\<lparr>pools := fmupd pn p' (pools c), heap := st'\<rparr>)"
    by (rule pool_upd_touched[OF ok m(2) u(1)])
      (use u(3) v pools_okD(7)[OF ok, of pn ?n] in \<open>auto simp: bind_eq_Some_conv\<close>)
  show thesis by (rule that[OF _ t]) (use u v in \<open>simp_all add: addPod_def on_pool_def m r node_pods_def\<close>)
qed

lemma removePod_at:
  assumes ok: "pools_ok c" and m: "matchPoolForPod ord pod c = Some pn" "fmlookup (pools c) pn = Some p" and uid: "pod_UID pod \<noteq> []"
  obtains c' v e where "removePod L ord pod c = Some (c', e)" "touched c pn (pod_NodeName pod) v c'"
    "Option.bind v ni_node = Option.bind (view c pn (pod_NodeName pod)) ni_node"
    "pod_UID pod \<notin> pod_UID ` set (node_pods c pn (pod_NodeName pod)) \<Longrightarrow> e \<noteq> None \<and> pods_of v = node_pods c pn (pod_NodeName pod)"
    "pod_UID pod \<in> pod_UID ` set (node_pods c pn (pod_NodeName pod)) \<Longrightarrow>
       e = None \<and> (\<exists>q. pod_UID q = pod_UID pod \<and> mset (node_pods c pn (pod_NodeName pod)) = add_mset q (mset (pods_of v)))"
proof -
  let ?n = "pod_NodeName pod"
  obtain p' st' e where r: "PoolInfo_RemovePod L p pod (heap c) = (p', st', e)" by (metis prod.exhaust)
  have v: "view c pn ?n = pool_view p (heap c) ?n" by (rule view_pool[OF m(2)])
  show thesis
  proof (rule PoolInfo_RemovePod_upd[OF r uid])
    fix w
    assume u: "pool_upd p (heap c) ?n p' st' w" "Option.bind w ni_node = Option.bind (pool_view p (heap c) ?n) ni_node"
      "pod_UID pod \<notin> pod_UID ` set (pods_of (pool_view p (heap c) ?n)) \<Longrightarrow>
        e \<noteq> None \<and> pods_of w = pods_of (pool_view p (heap c) ?n) \<and> (w = None \<longleftrightarrow> pool_view p (heap c) ?n = None)"
      "pod_UID pod \<in> pod_UID ` set (pods_of (pool_view p (heap c) ?n)) \<Longrightarrow>
        e = None \<and> (\<exists>q. pod_UID q = pod_UID pod \<and> mset (pods_of (pool_view p (heap c) ?n)) = add_mset q (mset (pods_of w)))"
    have t: "touched c pn ?n w (c\<lparr>pools := fmupd pn p' (pools c), heap := st'\<rparr>)"
      by (rule pool_upd_touched[OF ok m(2) u(1)])
        (use u(2) v pools_okD(7)[OF ok, of pn ?n] in \<open>auto simp: bind_eq_Some_conv\<close>)
    have "removePod L ord pod c = Some (c\<lparr>pools := fmupd pn p' (pools c), heap := st'\<rparr>, e)" by (simp add: removePod_def on_pool_def m r)
    then show thesis by (rule that[OF _ t]) (use u(2-4) v in \<open>simp_all add: node_pods_def\<close>)
  qed
qed

lemma addPod_effect:
  assumes ok: "pools_ok c" "one_pool c" and n: "pod_NodeName pod \<noteq> []" and ord: "covers ord c"
  obtains c' pn ni where "addPod L ord pod c = Some c'" "touched c pn (pod_NodeName pod) (Some ni) c'" "one_pool c'"
    "ni_pods ni = node_pods c pn (pod_NodeName pod) @ [pod]" "ni_node ni = Option.bind (view c pn (pod_NodeName pod)) ni_node"
    "\<And>qn. view c qn (pod_NodeName pod) \<noteq> None \<Longrightarrow> qn = pn"
proof -
  obtain pn p where m: "matchPoolForPod ord pod c = Some pn" "fmlookup (pools c) pn = Some p" "\<And>qn. view c qn (pod_NodeName pod) \<noteq> None \<Longrightarrow> qn = pn"
    using matchPoolForPod_home[OF ok n ord] by metis
  show thesis
    by (rule addPod_at[OF ok(1) m(1,2), where L = L]) (use that one_pool_touched[OF ok(2)] m(3) in blast)
qed

lemma removePod_effect:
  assumes ok: "pools_ok c" "one_pool c" and n: "pod_NodeName pod \<noteq> []" "pod_UID pod \<noteq> []" and ord: "covers ord c"
  obtains c' pn v e where "removePod L ord pod c = Some (c', e)" "touched c pn (pod_NodeName pod) v c'" "one_pool c'"
    "Option.bind v ni_node = Option.bind (view c pn (pod_NodeName pod)) ni_node"
    "\<And>qn. view c qn (pod_NodeName pod) \<noteq> None \<Longrightarrow> qn = pn"
    "pod_UID pod \<notin> pod_UID ` set (node_pods c pn (pod_NodeName pod)) \<Longrightarrow> e \<noteq> None \<and> pods_of v = node_pods c pn (pod_NodeName pod)"
    "pod_UID pod \<in> pod_UID ` set (node_pods c pn (pod_NodeName pod)) \<Longrightarrow>
       e = None \<and> (\<exists>q. pod_UID q = pod_UID pod \<and> mset (node_pods c pn (pod_NodeName pod)) = add_mset q (mset (pods_of v)))"
proof -
  obtain pn p where m: "matchPoolForPod ord pod c = Some pn" "fmlookup (pools c) pn = Some p" "\<And>qn. view c qn (pod_NodeName pod) \<noteq> None \<Longrightarrow> qn = pn"
    using matchPoolForPod_home[OF ok n(1) ord] by metis
  obtain c' v e where r: "removePod L ord pod c = Some (c', e)" "touched c pn (pod_NodeName pod) v c'"
    "Option.bind v ni_node = Option.bind (view c pn (pod_NodeName pod)) ni_node"
    "pod_UID pod \<notin> pod_UID ` set (node_pods c pn (pod_NodeName pod)) \<Longrightarrow> e \<noteq> None \<and> pods_of v = node_pods c pn (pod_NodeName pod)"
    "pod_UID pod \<in> pod_UID ` set (node_pods c pn (pod_NodeName pod)) \<Longrightarrow>
       e = None \<and> (\<exists>q. pod_UID q = pod_UID pod \<and> mset (node_pods c pn (pod_NodeName pod)) = add_mset q (mset (pods_of v)))"
    by (rule removePod_at[OF ok(1) m(1,2) n(2), where L = L]) (rule that)
  have "one_pool c'" using one_pool_touched[OF ok(2) r(2)] m(3) by blast
  from that[OF r(1,2) this r(3) m(3) r(4,5)] show thesis .
qed

subsection \<open>The state machine of a pod\<close>

text \<open>The states of the diagram in \<open>internal/cache/interface.go\<close>: a pod in state \<open>Initial\<close> (also \<open>Expired\<close> and
  \<open>Deleted\<close>) is not in the cache; the other states carry the node, and an assumed pod the deadline it
  has once its binding is finished.\<close>

datatype pod_status = Initial | Assumed string "Time option" | Added string

definition status :: "schedulerCache \<Rightarrow> string \<Rightarrow> pod_status" where
  "status c k = (case fmlookup (podStates c) k of
     None \<Rightarrow> Initial
   | Some ps \<Rightarrow>
      (if is_assumed k c then Assumed (pod_NodeName (ps_pod ps)) (if bindingFinished ps then deadline ps else None)
       else Added (pod_NodeName (ps_pod ps))))"

lemma states_irrelevant [simp]:
  "view (c\<lparr>podStates := x\<rparr>) = view c" "view (c\<lparr>assumedPods := y\<rparr>) = view c"
  "pools_ok (c\<lparr>podStates := x\<rparr>) = pools_ok c" "pools_ok (c\<lparr>assumedPods := y\<rparr>) = pools_ok c"
  "one_pool (c\<lparr>podStates := x\<rparr>) = one_pool c" "one_pool (c\<lparr>assumedPods := y\<rparr>) = one_pool c"
  "node_pods (c\<lparr>podStates := x\<rparr>) = node_pods c" "node_pods (c\<lparr>assumedPods := y\<rparr>) = node_pods c"
  "same_pools c0 (c\<lparr>podStates := x\<rparr>) = same_pools c0 c" "same_pools c0 (c\<lparr>assumedPods := y\<rparr>) = same_pools c0 c"
proof -
  show v: "view (c\<lparr>podStates := x\<rparr>) = view c" "view (c\<lparr>assumedPods := y\<rparr>) = view c"
    by (simp_all add: fun_eq_iff view_def item_at_def)
  have i: "item_at (c\<lparr>podStates := x\<rparr>) = item_at c" "item_at (c\<lparr>assumedPods := y\<rparr>) = item_at c"
    by (simp_all add: fun_eq_iff item_at_def)
  show "pools_ok (c\<lparr>podStates := x\<rparr>) = pools_ok c" "pools_ok (c\<lparr>assumedPods := y\<rparr>) = pools_ok c"
    by (simp_all add: pools_ok_def v i)
  show "one_pool (c\<lparr>podStates := x\<rparr>) = one_pool c" "one_pool (c\<lparr>assumedPods := y\<rparr>) = one_pool c"
    by (simp_all add: one_pool_def v)
  show "node_pods (c\<lparr>podStates := x\<rparr>) = node_pods c" "node_pods (c\<lparr>assumedPods := y\<rparr>) = node_pods c"
    by (simp_all add: fun_eq_iff node_pods_def v)
qed (simp_all add: same_pools_def)

lemma status_update:
  assumes "fmlookup (podStates c') = (fmlookup (podStates c))(k := s)" "fmlookup (assumedPods c') = (fmlookup (assumedPods c))(k := b)"
  shows "status c' = (status c)(k := (case s of None \<Rightarrow> Initial
     | Some ps \<Rightarrow> if b = Some True then Assumed (pod_NodeName (ps_pod ps)) (if bindingFinished ps then deadline ps else None)
                else Added (pod_NodeName (ps_pod ps))))"
  by (rule ext) (auto simp: status_def is_assumed_def assms split: option.splits)

lemma assumed_ok_update:
  assumes "assumed_ok c" "fmlookup (podStates c') = (fmlookup (podStates c))(k := s)" "fmlookup (assumedPods c') = (fmlookup (assumedPods c))(k := b)"
    "b = None \<or> b = Some True \<and> (\<exists>ps. s = Some ps \<and> (bindingFinished ps \<longrightarrow> deadline ps \<noteq> None))"
  shows "assumed_ok c'"
  using assms unfolding assumed_ok_def by (auto split: if_splits)

text \<open>The common end of the operations on pods: the state and the assumed flag of one key change, after
  the pod was added to or removed from its node.\<close>

lemma pod_op_end:
  assumes inv: "cache_inv c" and c1: "pools_ok c1" "one_pool c1" "same_pods c c1"
    and c': "c' = c1\<lparr>podStates := S', assumedPods := A'\<rparr>"
    and S: "fmlookup S' = (fmlookup (podStates c))(k := s)" and A: "fmlookup A' = (fmlookup (assumedPods c))(k := b)"
    and b: "b = None \<or> b = Some True \<and> (\<exists>ps. s = Some ps \<and> (bindingFinished ps \<longrightarrow> deadline ps \<noteq> None))"
    and pods: "pods_ok (node_pods c1) ((fmlookup (podStates c))(k := s))"
  shows "cache_inv c'"
    "status c' = (status c)(k := (case s of None \<Rightarrow> Initial
     | Some ps \<Rightarrow> if b = Some True then Assumed (pod_NodeName (ps_pod ps)) (if bindingFinished ps then deadline ps else None)
                else Added (pod_NodeName (ps_pod ps))))"
proof -
  have "assumed_ok c'" by (rule assumed_ok_update[OF cache_invD(3)[OF inv] _ _ b]) (simp_all add: c' S A)
  then show "cache_inv c'" using c1 pods by (simp add: cache_inv_def c' S)
  show "status c' = (status c)(k := (case s of None \<Rightarrow> Initial
     | Some ps \<Rightarrow> if b = Some True then Assumed (pod_NodeName (ps_pod ps)) (if bindingFinished ps then deadline ps else None)
                else Added (pod_NodeName (ps_pod ps))))"
    by (rule status_update) (simp_all add: c' S A)
qed

lemma fmlookup_upd_fun: "fmlookup (fmupd k v m) = (fmlookup m)(k := Some v)" "fmlookup (fmdrop k m) = (fmlookup m)(k := None)"
  by (simp_all add: fun_eq_iff)

lemma pod_on_node:
  assumes inv: "cache_inv c" and s: "fmlookup (podStates c) k = Some ps"
    and home: "\<And>qn. view c qn (pod_NodeName (ps_pod ps)) \<noteq> None \<Longrightarrow> qn = pn"
  shows "k \<in> pod_UID ` set (node_pods c pn (pod_NodeName (ps_pod ps)))" "\<And>qn. qn \<noteq> pn \<Longrightarrow> node_pods c qn (pod_NodeName (ps_pod ps)) = []"
proof -
  show none: "node_pods c qn (pod_NodeName (ps_pod ps)) = []" if "qn \<noteq> pn" for qn
    using home[of qn] that by (cases "view c qn (pod_NodeName (ps_pod ps))") (auto simp: node_pods_def)
  obtain qn where "k \<in> pod_UID ` set (node_pods c qn (pod_NodeName (ps_pod ps)))"
    using pods_okD(7)[OF cache_invD(4)[OF inv] s] by blast
  then show "k \<in> pod_UID ` set (node_pods c pn (pod_NodeName (ps_pod ps)))" using none by (cases "qn = pn") auto
qed

lemma removePod_known:
  assumes inv: "cache_inv c" and ord: "covers ord c" and s: "fmlookup (podStates c) (pod_UID pod) = Some ps"
    and n: "pod_NodeName (ps_pod ps) = pod_NodeName pod"
  obtains c1 where "removePod L ord pod c = Some (c1, None)" "pools_ok c1" "one_pool c1" "same_pods c c1" "same_pools c c1"
    "pods_ok (node_pods c1) ((fmlookup (podStates c))(pod_UID pod := None))"
proof -
  let ?n = "pod_NodeName pod" and ?k = "pod_UID pod"
  note I = cache_invD[OF inv] and P = pods_okD[OF cache_invD(4)[OF inv]]
  have ne: "?n \<noteq> []" "?k \<noteq> []" using P(6)[OF s] P(4)[OF s] n by auto
  obtain c1 pn v e where r: "removePod L ord pod c = Some (c1, e)" "touched c pn ?n v c1" "one_pool c1"
    "Option.bind v ni_node = Option.bind (view c pn ?n) ni_node" "\<And>qn. view c qn ?n \<noteq> None \<Longrightarrow> qn = pn"
    "?k \<notin> pod_UID ` set (node_pods c pn ?n) \<Longrightarrow> e \<noteq> None \<and> pods_of v = node_pods c pn ?n"
    "?k \<in> pod_UID ` set (node_pods c pn ?n) \<Longrightarrow>
       e = None \<and> (\<exists>q. pod_UID q = ?k \<and> mset (node_pods c pn ?n) = add_mset q (mset (pods_of v)))"
    by (rule removePod_effect[where L = L, OF I(1,2) ne ord]) (rule that)
  note N = pod_on_node[OF inv s, unfolded n, OF r(5)]
  obtain q where q: "e = None" "pod_UID q = ?k" "mset (node_pods c pn ?n) = add_mset q (mset (pods_of v))"
    using r(7)[OF N(1)] by blast
  have "pods_ok (node_pods c1) ((fmlookup (podStates c))(?k := None))"
    using pods_ok_remove[OF I(4) q(3) N(2)] unfolding q(2) node_pods_touched[OF r(2)] .
  then show thesis by (rule that[OF r(1)[unfolded q(1)] touchedD(1)[OF r(2)] r(3) touchedD(2,3)[OF r(2)]])
qed

lemma addPod_new:
  assumes ok: "pools_ok c" "one_pool c" and ord: "covers ord c"
    and n: "pod_NodeName pod \<noteq> []" "pod_UID pod \<noteq> []" and ps: "ps_pod ps = pod" and S: "pods_ok (node_pods c) S" "S (pod_UID pod) = None"
  obtains c1 where "addPod L ord pod c = Some c1" "pools_ok c1" "one_pool c1" "same_pods c c1" "same_pools c c1"
    "pods_ok (node_pods c1) (S(pod_UID pod \<mapsto> ps))"
proof -
  obtain c1 pn ni where r: "addPod L ord pod c = Some c1" "touched c pn (pod_NodeName pod) (Some ni) c1" "one_pool c1"
    "ni_pods ni = node_pods c pn (pod_NodeName pod) @ [pod]"
    using addPod_effect[OF ok n(1) ord] by metis
  show thesis
    by (rule that[OF r(1) touchedD(1)[OF r(2)] r(3) touchedD(2,3)[OF r(2)]])
      (use pods_ok_add[OF S(1) S(2) n(2,1) ps] node_pods_touched[OF r(2)] r(4) in simp)
qed

lemma status_simps:
  "status c k = Initial \<longleftrightarrow> fmlookup (podStates c) k = None"
  "status c k = Added n \<longleftrightarrow> (\<exists>ps. fmlookup (podStates c) k = Some ps \<and> \<not> is_assumed k c \<and> pod_NodeName (ps_pod ps) = n)"
  "status c k = Assumed n dl \<longleftrightarrow> (\<exists>ps. fmlookup (podStates c) k = Some ps \<and> is_assumed k c \<and> pod_NodeName (ps_pod ps) = n \<and>
     dl = (if bindingFinished ps then deadline ps else None))"
  by (auto simp: status_def split: option.splits)

lemma is_assumed_iff: "assumed_ok c \<Longrightarrow> is_assumed k c \<longleftrightarrow> fmlookup (assumedPods c) k \<noteq> None"
  unfolding assumed_ok_def is_assumed_def by (metis (full_types) not_None_eq option.simps(3))

lemma AssumePod_step:
  assumes inv: "cache_inv c" and ord: "covers ord c" and n: "pod_NodeName pod \<noteq> []" "pod_UID pod \<noteq> []"
  shows "status c (pod_UID pod) = Initial \<Longrightarrow> \<exists>c'. AssumePod L ord pod c = Some (c', None) \<and> cache_inv c' \<and> same_pools c c' \<and>
      status c' = (status c)(pod_UID pod := Assumed (pod_NodeName pod) None)"
    "status c (pod_UID pod) \<noteq> Initial \<Longrightarrow> AssumePod L ord pod c = Some (c, Some (AlreadyInCache (pod_UID pod)))"
proof -
  have key: "GetPodKey pod = Some (pod_UID pod)" using n by (simp add: GetPodKey_def)
  show "AssumePod L ord pod c = Some (c, Some (AlreadyInCache (pod_UID pod)))" if "status c (pod_UID pod) \<noteq> Initial"
    using that key by (auto simp: AssumePod_def status_simps(1))
  assume "status c (pod_UID pod) = Initial"
  then have None: "fmlookup (podStates c) (pod_UID pod) = None" by (simp add: status_simps)
  let ?ps = "\<lparr>ps_pod = pod, deadline = None, bindingFinished = False\<rparr>"
  note I = cache_invD[OF inv]
  obtain c1 where c1: "addPod L ord pod c = Some c1" "pools_ok c1" "one_pool c1" "same_pods c c1" "same_pools c c1"
    "pods_ok (node_pods c1) ((fmlookup (podStates c))(pod_UID pod \<mapsto> ?ps))"
    by (rule addPod_new[where L = L and ps = ?ps, OF I(1,2) ord n _ I(4) None]) (simp, rule that)
  let ?c' = "c1\<lparr>podStates := fmupd (pod_UID pod) ?ps (podStates c1), assumedPods := fmupd (pod_UID pod) True (assumedPods c1)\<rparr>"
  have sp: "podStates c1 = podStates c" "assumedPods c1 = assumedPods c" using c1(4) by (simp_all add: same_pods_def)
  note E = pod_op_end[OF inv c1(2,3,4) refl, of "fmupd (pod_UID pod) ?ps (podStates c1)" "pod_UID pod" "Some ?ps"
      "fmupd (pod_UID pod) True (assumedPods c1)" "Some True"]
  have "cache_inv ?c'" by (rule E(1)) (simp_all add: sp fmlookup_upd_fun c1(6))
  moreover have "status ?c' = (status c)(pod_UID pod := Assumed (pod_NodeName pod) None)"
    by (subst E(2)) (simp_all add: sp fmlookup_upd_fun c1(6))
  ultimately show "\<exists>c'. AssumePod L ord pod c = Some (c', None) \<and> cache_inv c' \<and> same_pools c c' \<and>
      status c' = (status c)(pod_UID pod := Assumed (pod_NodeName pod) None)"
    using c1(1,5) key None by (auto simp: AssumePod_def)
qed

text \<open>Removing a pod whose state is known, as \<open>ForgetPod\<close>, \<open>RemovePod\<close> and \<open>expirePod\<close> do.\<close>

lemma remove_and_drop:
  assumes inv: "cache_inv c" and ord: "covers ord c" and s: "fmlookup (podStates c) (pod_UID pod) = Some ps"
    and n: "pod_NodeName (ps_pod ps) = pod_NodeName pod"
  obtains c1 where "removePod L ord pod c = Some (c1, None)" "cache_inv (drop_pod (pod_UID pod) c1)" "same_pools c c1"
    "status (drop_pod (pod_UID pod) c1) = (status c)(pod_UID pod := Initial)" "same_pods c c1" "assumedPods (drop_pod (pod_UID pod) c1) = fmdrop (pod_UID pod) (assumedPods c)"
proof -
  obtain c1 where c1: "removePod L ord pod c = Some (c1, None)" "pools_ok c1" "one_pool c1" "same_pods c c1" "same_pools c c1"
    "pods_ok (node_pods c1) ((fmlookup (podStates c))(pod_UID pod := None))"
    by (rule removePod_known[where L = L, OF inv ord s n]) (rule that)
  have sp: "podStates c1 = podStates c" "assumedPods c1 = assumedPods c" using c1(4) by (simp_all add: same_pods_def)
  have d: "drop_pod (pod_UID pod) c1 = c1\<lparr>podStates := fmdrop (pod_UID pod) (podStates c1), assumedPods := fmdrop (pod_UID pod) (assumedPods c1)\<rparr>"
    by (simp add: drop_pod_def)
  note E = pod_op_end[OF inv c1(2,3,4) d, of "pod_UID pod" None None]
  show thesis
  proof (rule that[OF c1(1) _ c1(5) _ c1(4)])
    show "cache_inv (drop_pod (pod_UID pod) c1)" by (rule E(1)) (simp_all add: sp fmlookup_upd_fun c1(6))
    show "status (drop_pod (pod_UID pod) c1) = (status c)(pod_UID pod := Initial)"
      by (subst E(2)) (simp_all add: sp fmlookup_upd_fun c1(6))
    show "assumedPods (drop_pod (pod_UID pod) c1) = fmdrop (pod_UID pod) (assumedPods c)" by (simp add: drop_pod_def sp)
  qed
qed

lemma same_pools_drop [simp]: "same_pools c (drop_pod k c1) = same_pools c c1"
  by (simp add: drop_pod_def same_pools_def)

lemma ForgetPod_step:
  assumes inv: "cache_inv c" and ord: "covers ord c" and u: "pod_UID pod \<noteq> []"
  shows "status c (pod_UID pod) = Assumed (pod_NodeName pod) dl \<Longrightarrow> \<exists>c'. ForgetPod L ord pod c = Some (c', None) \<and> cache_inv c' \<and>
      same_pools c c' \<and> status c' = (status c)(pod_UID pod := Initial)"
    "(\<And>dl. status c (pod_UID pod) \<noteq> Assumed (pod_NodeName pod) dl) \<Longrightarrow> \<exists>e. ForgetPod L ord pod c = Some (c, Some e)"
proof -
  have key: "GetPodKey pod = Some (pod_UID pod)" using u by (simp add: GetPodKey_def)
  show "\<exists>e. ForgetPod L ord pod c = Some (c, Some e)" if "\<And>dl. status c (pod_UID pod) \<noteq> Assumed (pod_NodeName pod) dl"
  proof -
    have "pod_NodeName (ps_pod ps) \<noteq> pod_NodeName pod" if "fmlookup (podStates c) (pod_UID pod) = Some ps" "is_assumed (pod_UID pod) c" for ps
      using that \<open>\<And>dl. status c (pod_UID pod) \<noteq> Assumed (pod_NodeName pod) dl\<close> status_simps(3) by blast
    then show ?thesis using key by (auto simp: ForgetPod_def split: option.splits)
  qed
  assume "status c (pod_UID pod) = Assumed (pod_NodeName pod) dl"
  then obtain ps where s: "fmlookup (podStates c) (pod_UID pod) = Some ps" "is_assumed (pod_UID pod) c" "pod_NodeName (ps_pod ps) = pod_NodeName pod"
    by (auto simp: status_simps)
  show "\<exists>c'. ForgetPod L ord pod c = Some (c', None) \<and> cache_inv c' \<and> same_pools c c' \<and> status c' = (status c)(pod_UID pod := Initial)"
    by (rule remove_and_drop[where L = L, OF inv ord s(1,3)]) (use s key in \<open>simp add: ForgetPod_def\<close>)
qed

lemma AddPod_step:
  assumes inv: "cache_inv c" and ord: "covers ord c" "covers ord' c" and n: "pod_NodeName pod \<noteq> []" "pod_UID pod \<noteq> []"
  shows "\<not> (\<exists>m. status c (pod_UID pod) = Added m) \<Longrightarrow> \<exists>c'. AddPod L ord ord' pod c = Some (c', None) \<and> cache_inv c' \<and>
      same_pools c c' \<and> status c' = (status c)(pod_UID pod := Added (pod_NodeName pod))"
    "status c (pod_UID pod) = Added m \<Longrightarrow> AddPod L ord ord' pod c = Some (c, Some (AlreadyAdded (pod_UID pod)))"
proof -
  let ?k = "pod_UID pod"
  have key: "GetPodKey pod = Some ?k" using n by (simp add: GetPodKey_def)
  note I = cache_invD[OF inv]
  show "AddPod L ord ord' pod c = Some (c, Some (AlreadyAdded ?k))" if "status c ?k = Added m"
    using that key by (auto simp: AddPod_def status_simps)
  assume na: "\<not> (\<exists>m. status c ?k = Added m)"
  show "\<exists>c'. AddPod L ord ord' pod c = Some (c', None) \<and> cache_inv c' \<and> same_pools c c' \<and> status c' = (status c)(?k := Added (pod_NodeName pod))"
  proof (cases "fmlookup (podStates c) ?k")
    case None
    let ?ps = "\<lparr>ps_pod = pod, deadline = None, bindingFinished = False\<rparr>"
    obtain c1 where c1: "addPod L ord pod c = Some c1" "pools_ok c1" "one_pool c1" "same_pods c c1" "same_pools c c1"
      "pods_ok (node_pods c1) ((fmlookup (podStates c))(?k \<mapsto> ?ps))"
      by (rule addPod_new[where L = L and ps = ?ps, OF I(1,2) ord(1) n _ I(4) None]) (simp, rule that)
    have sp: "podStates c1 = podStates c" "assumedPods c1 = assumedPods c" using c1(4) by (simp_all add: same_pods_def)
    have fa: "fmlookup (assumedPods c) = (fmlookup (assumedPods c))(?k := None)"
      using I(3) None by (auto simp: assumed_ok_def fun_eq_iff) (metis option.exhaust option.simps(3))
    let ?c' = "c1\<lparr>podStates := fmupd ?k ?ps (podStates c1)\<rparr>"
    have c': "?c' = c1\<lparr>podStates := fmupd ?k ?ps (podStates c1), assumedPods := assumedPods c\<rparr>" by (simp add: sp)
    note E = pod_op_end[OF inv c1(2,3,4) c', of ?k "Some ?ps" None]
    have "cache_inv ?c'" by (rule E(1)[OF _ fa]) (simp_all add: sp fmlookup_upd_fun c1(6))
    moreover have "status ?c' = (status c)(?k := Added (pod_NodeName pod))"
      by (subst E(2)[OF _ fa]) (simp_all add: sp fmlookup_upd_fun c1(6))
    ultimately show ?thesis using c1(1,5) key None by (auto simp: AddPod_def)
  next
    case (Some ps)
    then have as: "is_assumed ?k c" using na by (auto simp: status_simps)
    let ?ps = "ps\<lparr>deadline := None, ps_pod := pod\<rparr>"
    note P = pods_okD[OF I(4)]
    obtain c1 where c1: "(if pod_NodeName (ps_pod ps) \<noteq> pod_NodeName pod
          then Option.bind (removePod L ord (ps_pod ps) c) (\<lambda>(c1, _). addPod L ord' pod c1) else Some c) = Some c1"
      "pools_ok c1" "one_pool c1" "same_pods c c1" "same_pools c c1" "pods_ok (node_pods c1) ((fmlookup (podStates c))(?k \<mapsto> ?ps))"
    proof (cases "pod_NodeName (ps_pod ps) = pod_NodeName pod")
      case True
      then show thesis using I(1,2) pods_ok_state[OF I(4) Some, of ?ps] by (intro that[of c]) simp_all
    next
      case False
      have kp: "pod_UID (ps_pod ps) = ?k" using P(5)[OF Some] .
      obtain c0 where c0: "removePod L ord (ps_pod ps) c = Some (c0, None)" "pools_ok c0" "one_pool c0" "same_pods c c0" "same_pools c c0"
        "pods_ok (node_pods c0) ((fmlookup (podStates c))(?k := None))"
        by (rule removePod_known[where L = L, OF inv ord(1), of "ps_pod ps" ps, unfolded kp, OF Some refl]) (rule that)
      have "covers ord' c0" using ord(2) covers_same[OF c0(5)] by simp
      then obtain c1 where c1: "addPod L ord' pod c0 = Some c1" "pools_ok c1" "one_pool c1" "same_pods c0 c1" "same_pools c0 c1"
        "pods_ok (node_pods c1) (((fmlookup (podStates c))(?k := None))(?k \<mapsto> ?ps))"
        by (rule addPod_new[where L = L and ps = ?ps, OF c0(2,3) _ n _ c0(6)]) (simp, simp, rule that)
      show thesis
        by (rule that[OF _ c1(2,3) same_trans(1)[OF c0(4) c1(4)] same_trans(2)[OF c0(5) c1(5)]])
          (use c0(1) c1(1,6) False in simp_all)
    qed
    have sp: "podStates c1 = podStates c" "assumedPods c1 = assumedPods c" using c1(4) by (simp_all add: same_pods_def)
    let ?c' = "c1\<lparr>podStates := fmupd ?k ?ps (podStates c1), assumedPods := fmdrop ?k (assumedPods c1)\<rparr>"
    note E = pod_op_end[OF inv c1(2,3,4) refl, of "fmupd ?k ?ps (podStates c1)" ?k "Some ?ps" "fmdrop ?k (assumedPods c1)" None]
    have "cache_inv ?c'" by (rule E(1)) (simp_all add: sp fmlookup_upd_fun c1(6))
    moreover have "status ?c' = (status c)(?k := Added (pod_NodeName pod))"
      by (subst E(2)) (simp_all add: sp fmlookup_upd_fun c1(6))
    moreover have "AddPod L ord ord' pod c = Some (?c', None)" using c1(1) key Some as by (simp add: AddPod_def)
    ultimately show ?thesis using c1(5) by auto
  qed
qed

lemma RemovePod_step:
  assumes inv: "cache_inv c" and ord: "covers ord c" and u: "pod_UID pod \<noteq> []"
  shows "status c (pod_UID pod) = Added (pod_NodeName pod) \<Longrightarrow> \<exists>c'. RemovePod L ord pod c = Some (c', None) \<and> cache_inv c' \<and>
      same_pools c c' \<and> status c' = (status c)(pod_UID pod := Initial)"
    "status c (pod_UID pod) = Added m \<Longrightarrow> m \<noteq> pod_NodeName pod \<Longrightarrow> RemovePod L ord pod c = None"
    "\<not> (\<exists>m. status c (pod_UID pod) = Added m) \<Longrightarrow> RemovePod L ord pod c = Some (c, Some (NotFoundForRemove (pod_UID pod)))"
proof -
  let ?k = "pod_UID pod"
  have key: "GetPodKey pod = Some ?k" using u by (simp add: GetPodKey_def)
  note I = cache_invD[OF inv]
  show "RemovePod L ord pod c = None" if "status c ?k = Added m" "m \<noteq> pod_NodeName pod"
    using that key by (auto simp: RemovePod_def status_simps)
  show "RemovePod L ord pod c = Some (c, Some (NotFoundForRemove ?k))" if "\<not> (\<exists>m. status c ?k = Added m)"
    using that key by (auto simp: RemovePod_def status_simps split: option.splits)
  assume "status c ?k = Added (pod_NodeName pod)"
  then obtain ps where s: "fmlookup (podStates c) ?k = Some ps" "\<not> is_assumed ?k c" "pod_NodeName (ps_pod ps) = pod_NodeName pod"
    by (auto simp: status_simps)
  have kp: "pod_UID (ps_pod ps) = ?k" using pods_okD(5)[OF I(4) s(1)] .
  have na: "fmlookup (assumedPods c) ?k = None" using s(2) is_assumed_iff[OF I(3)] by auto
  obtain c1 where c1: "removePod L ord (ps_pod ps) c = Some (c1, None)" "cache_inv (drop_pod ?k c1)" "same_pools c c1"
    "status (drop_pod ?k c1) = (status c)(?k := Initial)" "same_pods c c1" "assumedPods (drop_pod ?k c1) = fmdrop ?k (assumedPods c)"
    by (rule remove_and_drop[where L = L, OF inv ord, of "ps_pod ps" ps, unfolded kp, OF s(1) refl]) (rule that)
  have "drop_pod ?k c1 = c1\<lparr>podStates := fmdrop ?k (podStates c1)\<rparr>"
    using c1(5) fmdrop_absent[OF na] by (simp add: drop_pod_def same_pods_def)
  then show "\<exists>c'. RemovePod L ord pod c = Some (c', None) \<and> cache_inv c' \<and> same_pools c c' \<and> status c' = (status c)(?k := Initial)"
    using c1 key s same_pools_drop[of c ?k c1] by (simp add: RemovePod_def)
qed

text \<open>\<open>UpdatePod\<close> on the node the pod is known on.\<close>

lemma UpdatePod_step:
  assumes inv: "cache_inv c" and ord: "covers ord c" "covers ord' c" and u: "pod_UID new \<noteq> []" "pod_UID old = pod_UID new"
    and n: "pod_NodeName old = pod_NodeName new"
  shows "status c (pod_UID new) = Added (pod_NodeName new) \<Longrightarrow> \<exists>c'. UpdatePod L ord ord' old new c = Some (c', None) \<and> cache_inv c' \<and>
      same_pools c c' \<and> status c' = status c \<and> GetPod new c' = Inr new"
    "status c (pod_UID new) = Added m \<Longrightarrow> m \<noteq> pod_NodeName new \<Longrightarrow> UpdatePod L ord ord' old new c = None"
    "\<not> (\<exists>m. status c (pod_UID new) = Added m) \<Longrightarrow> UpdatePod L ord ord' old new c = Some (c, Some (NotAddedForUpdate (pod_UID new)))"
proof -
  let ?k = "pod_UID new"
  have key: "GetPodKey old = Some ?k" "GetPodKey new = Some ?k" using u by (simp_all add: GetPodKey_def)
  note I = cache_invD[OF inv]
  show "UpdatePod L ord ord' old new c = None" if "status c ?k = Added m" "m \<noteq> pod_NodeName new"
    using that key by (auto simp: UpdatePod_def status_simps)
  show "UpdatePod L ord ord' old new c = Some (c, Some (NotAddedForUpdate ?k))" if "\<not> (\<exists>m. status c ?k = Added m)"
    using that key by (auto simp: UpdatePod_def status_simps split: option.splits)
  assume st: "status c ?k = Added (pod_NodeName new)"
  then obtain ps where s: "fmlookup (podStates c) ?k = Some ps" "\<not> is_assumed ?k c" "pod_NodeName (ps_pod ps) = pod_NodeName new"
    by (auto simp: status_simps)
  have ne: "pod_NodeName new \<noteq> []" using pods_okD(6)[OF I(4) s(1)] s(3) by simp
  let ?ps = "ps\<lparr>ps_pod := new\<rparr>"
  obtain c0 where c0: "removePod L ord old c = Some (c0, None)" "pools_ok c0" "one_pool c0" "same_pods c c0" "same_pools c c0"
    "pods_ok (node_pods c0) ((fmlookup (podStates c))(?k := None))"
    by (rule removePod_known[where L = L, OF inv ord(1), of old ps, unfolded u(2) n, OF s(1,3)]) (rule that)
  have "covers ord' c0" using ord(2) covers_same[OF c0(5)] by simp
  then obtain c1 where c1: "addPod L ord' new c0 = Some c1" "pools_ok c1" "one_pool c1" "same_pods c0 c1" "same_pools c0 c1"
    "pods_ok (node_pods c1) (((fmlookup (podStates c))(?k := None))(?k \<mapsto> ?ps))"
    by (rule addPod_new[where L = L and ps = ?ps, OF c0(2,3) _ ne u(1) _ c0(6)]) (simp, simp, rule that)
  have sp: "podStates c1 = podStates c" "assumedPods c1 = assumedPods c" using c0(4) c1(4) by (simp_all add: same_pods_def)
  have fa: "fmlookup (assumedPods c) = (fmlookup (assumedPods c))(?k := None)"
    using s(2) is_assumed_iff[OF I(3)] by (auto simp: fun_eq_iff)
  let ?c' = "c1\<lparr>podStates := fmupd ?k ?ps (podStates c1)\<rparr>"
  have c': "?c' = c1\<lparr>podStates := fmupd ?k ?ps (podStates c1), assumedPods := assumedPods c\<rparr>" by (simp add: sp)
  note E = pod_op_end[OF inv c1(2,3) same_trans(1)[OF c0(4) c1(4)] c', of ?k "Some ?ps" None]
  have "cache_inv ?c'" by (rule E(1)[OF _ fa]) (use c1(6) in \<open>simp_all add: sp fmlookup_upd_fun\<close>)
  moreover have "status ?c' = (status c)(?k := Added (pod_NodeName new))"
    by (subst E(2)[OF _ fa]) (use c1(6) in \<open>simp_all add: sp fmlookup_upd_fun\<close>)
  then have "status ?c' = status c" using st by (metis fun_upd_triv)
  moreover have "UpdatePod L ord ord' old new c = Some (?c', None)"
    using c0(1) c1(1) key s by (simp add: UpdatePod_def updatePod_def)
  moreover have "GetPod new ?c' = Inr new" by (simp add: GetPod_def key)
  moreover have "same_pools c ?c'" using same_trans(2)[OF c0(5) c1(5)] by simp
  ultimately show "\<exists>c'. UpdatePod L ord ord' old new c = Some (c', None) \<and> cache_inv c' \<and> same_pools c c' \<and> status c' = status c \<and> GetPod new c' = Inr new"
    by blast
qed

lemma finishBinding_step:
  assumes inv: "cache_inv c" and u: "pod_UID pod \<noteq> []"
  shows "\<exists>c'. finishBinding pod now c = (c', None) \<and> cache_inv c' \<and> same_pools c c' \<and>
    status c' = (case status c (pod_UID pod) of
       Assumed n dl \<Rightarrow> (status c)(pod_UID pod := Assumed n (Some (time_Add now (ttl c)))) | _ \<Rightarrow> status c)"
proof (cases "is_assumed (pod_UID pod) c \<and> fmlookup (podStates c) (pod_UID pod) \<noteq> None")
  case True
  let ?k = "pod_UID pod"
  obtain ps where s: "fmlookup (podStates c) ?k = Some ps" using True by blast
  let ?ps = "ps\<lparr>bindingFinished := True, deadline := Some (time_Add now (ttl c))\<rparr>"
  note I = cache_invD[OF inv]
  have po: "pods_ok (node_pods c) ((fmlookup (podStates c))(?k := Some ?ps))"
    by (rule pods_ok_state[OF I(4) s]) (use pods_okD(5)[OF I(4) s] in simp_all)
  let ?c' = "c\<lparr>podStates := fmupd ?k ?ps (podStates c)\<rparr>"
  have c': "?c' = c\<lparr>podStates := fmupd ?k ?ps (podStates c), assumedPods := assumedPods c\<rparr>" by simp
  have fa: "fmlookup (assumedPods c) = (fmlookup (assumedPods c))(?k := Some True)"
    using True by (simp add: fun_eq_iff is_assumed_def)
  note E = pod_op_end[OF inv I(1,2) same_refl(1) c', of ?k "Some ?ps" "Some True"]
  have "cache_inv ?c'" by (rule E(1)[OF _ fa]) (use po in \<open>simp_all add: fmlookup_upd_fun\<close>)
  moreover have "status ?c' = (status c)(?k := Assumed (pod_NodeName (ps_pod ps)) (Some (time_Add now (ttl c))))"
    by (subst E(2)[OF _ fa]) (use po in \<open>simp_all add: fmlookup_upd_fun\<close>)
  moreover have "finishBinding pod now c = (?c', None)" using True s u by (simp add: finishBinding_def GetPodKey_def)
  moreover have "status c ?k = Assumed (pod_NodeName (ps_pod ps)) (if bindingFinished ps then deadline ps else None)"
    using True s by (simp add: status_def)
  ultimately show ?thesis by simp
next
  case False
  then have "finishBinding pod now c = (c, None)" using u by (auto simp: finishBinding_def GetPodKey_def split: option.splits)
  moreover have "\<not> (\<exists>n dl. status c (pod_UID pod) = Assumed n dl)" using False by (auto simp: status_simps)
  ultimately show ?thesis using inv by (auto split: pod_status.splits)
qed

text \<open>Expiration: a key that is assumed, with a finished binding and a deadline in the past, is dropped.\<close>

definition expired :: "Time \<Rightarrow> pod_status \<Rightarrow> bool" where
  "expired now s = (case s of Assumed n (Some dl) \<Rightarrow> After now dl | _ \<Rightarrow> False)"

lemma expired_Initial [simp]: "\<not> expired now Initial"
  by (simp add: expired_def)

lemma cleanup_key_step:
  assumes inv: "cache_inv c" and ord: "covers (ords k) c"
  shows "\<exists>c'. cleanup_key L ords now k c = Some c' \<and> cache_inv c' \<and> same_pools c c' \<and>
    status c' = (status c)(k := (if expired now (status c k) then Initial else status c k))"
proof -
  note I = cache_invD[OF inv]
  show ?thesis
  proof (cases "fmlookup (assumedPods c) k")
    case None
    then have "\<not> expired now (status c k)" by (auto simp: expired_def status_def is_assumed_def split: option.splits)
    then show ?thesis using None inv by (simp add: cleanup_key_def)
  next
    case (Some b)
    then obtain ps where s: "fmlookup (podStates c) k = Some ps" "b" "bindingFinished ps \<Longrightarrow> deadline ps \<noteq> None"
      using I(3) unfolding assumed_ok_def by blast
    have st: "status c k = Assumed (pod_NodeName (ps_pod ps)) (if bindingFinished ps then deadline ps else None)"
      using s Some by (simp add: status_def is_assumed_def)
    show ?thesis
    proof (cases "expired now (status c k)")
      case True
      have kp: "pod_UID (ps_pod ps) = k" using pods_okD(5)[OF I(4) s(1)] .
      obtain c1 where c1: "removePod L (ords k) (ps_pod ps) c = Some (c1, None)" "cache_inv (drop_pod k c1)" "same_pools c c1"
        "status (drop_pod k c1) = (status c)(k := Initial)" "same_pods c c1" "assumedPods (drop_pod k c1) = fmdrop k (assumedPods c)"
        by (rule remove_and_drop[where L = L, OF inv ord, of "ps_pod ps" ps, unfolded kp, OF s(1) refl]) (rule that)
      obtain dl where "bindingFinished ps" "deadline ps = Some dl" "After now dl"
        using True s(3) by (auto simp: st expired_def split: option.splits if_splits)
      then show ?thesis using Some s c1 True by (auto simp: cleanup_key_def expirePod_def)
    next
      case False
      then have "cleanup_key L ords now k c = Some c"
        using Some s by (auto simp: cleanup_key_def st expired_def split: option.splits)
      then show ?thesis using False inv by simp
    qed
  qed
qed

lemma cleanup_step:
  assumes "cache_inv c" "\<forall>k. covers (ords k) c"
  shows "\<exists>c'. cleanupAssumedPods L kord ords now c = Some c' \<and> cache_inv c' \<and> same_pools c c' \<and>
    status c' = (\<lambda>k. if k \<in> set kord \<and> expired now (status c k) then Initial else status c k)"
  using assms
proof (induction kord arbitrary: c)
  case Nil
  then show ?case by (simp add: cleanupAssumedPods_def)
next
  case (Cons k ks)
  obtain c1 where c1: "cleanup_key L ords now k c = Some c1" "cache_inv c1" "same_pools c c1"
    "status c1 = (status c)(k := (if expired now (status c k) then Initial else status c k))"
    using cleanup_key_step[OF Cons.prems(1)] Cons.prems(2) by blast
  have "\<forall>k. covers (ords k) c1" using Cons.prems(2) covers_same[OF c1(3)] by simp
  from Cons.IH[OF c1(2) this] obtain c2 where c2: "cleanupAssumedPods L ks ords now c1 = Some c2" "cache_inv c2" "same_pools c1 c2"
    "status c2 = (\<lambda>k. if k \<in> set ks \<and> expired now (status c1 k) then Initial else status c1 k)" by blast
  have "cleanupAssumedPods L (k # ks) ords now c = Some c2" using c1(1) c2(1) by (simp add: cleanupAssumedPods_def)
  moreover have "status c2 = (\<lambda>j. if j \<in> set (k # ks) \<and> expired now (status c j) then Initial else status c j)"
    unfolding c2(4) c1(4) by (rule ext) auto
  ultimately show ?case using c2(2) same_trans(2)[OF c1(3) c2(3)] by blast
qed

subsection \<open>Operations on nodes\<close>

lemma images_irrelevant_match [simp]:
  "defaultPool (c\<lparr>cache_images := x\<rparr>) = defaultPool c" "matching_pools L ord P nd (c\<lparr>cache_images := x\<rparr>) = matching_pools L ord P nd c"
  "matchPoolForNode L ord nd (c\<lparr>cache_images := x\<rparr>) = matchPoolForNode L ord nd c"
proof -
  show d: "defaultPool (c\<lparr>cache_images := x\<rparr>) = defaultPool c" by (simp add: defaultPool_def)
  show m: "matching_pools L ord P nd (c\<lparr>cache_images := x\<rparr>) = matching_pools L ord P nd c" for P by (simp add: matching_pools_def)
  show "matchPoolForNode L ord nd (c\<lparr>cache_images := x\<rparr>) = matchPoolForNode L ord nd c" unfolding matchPoolForNode_def d m ..
qed

lemma images_irrelevant [simp]:
  "view (c\<lparr>cache_images := x\<rparr>) = view c" "pools_ok (c\<lparr>cache_images := x\<rparr>) = pools_ok c"
  "one_pool (c\<lparr>cache_images := x\<rparr>) = one_pool c" "node_pods (c\<lparr>cache_images := x\<rparr>) = node_pods c"
  "assumed_ok (c\<lparr>cache_images := x\<rparr>) = assumed_ok c" "same_pools c0 (c\<lparr>cache_images := x\<rparr>) = same_pools c0 c"
  "cache_inv (c\<lparr>cache_images := x\<rparr>) = cache_inv c" "status (c\<lparr>cache_images := x\<rparr>) = status c"
  "item_at (c\<lparr>cache_images := x\<rparr>) = item_at c"
  "touched (c\<lparr>cache_images := x\<rparr>) pn n v c1 = touched c pn n v c1" "touched c pn n v (c1\<lparr>cache_images := x\<rparr>) = touched c pn n v c1"
proof -
  show i: "item_at (c\<lparr>cache_images := x\<rparr>) = item_at c" for c by (simp add: fun_eq_iff item_at_def)
  show v: "view (c\<lparr>cache_images := x\<rparr>) = view c" for c by (simp add: fun_eq_iff view_def i)
  show p: "pools_ok (c\<lparr>cache_images := x\<rparr>) = pools_ok c" for c by (simp add: pools_ok_def v i)
  show o: "one_pool (c\<lparr>cache_images := x\<rparr>) = one_pool c" by (simp add: one_pool_def v)
  show n: "node_pods (c\<lparr>cache_images := x\<rparr>) = node_pods c" by (simp add: fun_eq_iff node_pods_def v)
  show a: "assumed_ok (c\<lparr>cache_images := x\<rparr>) = assumed_ok c" by (simp add: assumed_ok_def)
  show "cache_inv (c\<lparr>cache_images := x\<rparr>) = cache_inv c" by (simp add: cache_inv_def p o n a)
  show "status (c\<lparr>cache_images := x\<rparr>) = status c" by (simp add: fun_eq_iff status_def is_assumed_def split: option.splits)
  show "touched (c\<lparr>cache_images := x\<rparr>) pn n v c1 = touched c pn n v c1" "touched c pn n v (c1\<lparr>cache_images := x\<rparr>) = touched c pn n v c1"
    by (simp_all add: touched_def v p same_pods_def same_pools_def)
qed (simp_all add: same_pools_def)

lemma removeNodeImageStates_eq: "\<exists>x. removeNodeImageStates nd c = c\<lparr>cache_images := x\<rparr>"
proof (cases nd)
  case None
  then have "removeNodeImageStates nd c = c\<lparr>cache_images := cache_images c\<rparr>" by (simp add: removeNodeImageStates_def)
  then show ?thesis ..
qed (auto simp: removeNodeImageStates_def)

lemma removeNodeImageStates_if: "\<exists>x. (if b then removeNodeImageStates nd c else c) = c\<lparr>cache_images := x\<rparr>"
  using removeNodeImageStates_eq[of nd c] by (cases b) (auto intro: exI[of _ "cache_images c"])

lemma touched_trans: "touched c pn n v c1 \<Longrightarrow> touched c1 pn n w c2 \<Longrightarrow> touched c pn n w c2"
  unfolding touched_def using same_trans by (auto split: if_splits)

text \<open>An operation that keeps the pods of a node keeps the invariant and the states.\<close>

lemma touched_keeps:
  assumes inv: "cache_inv c" and t: "touched c pn n v c'" and v: "pods_of v = node_pods c pn n"
    and home: "\<And>qn. view c qn n \<noteq> None \<Longrightarrow> qn = pn"
  shows "cache_inv c'" "status c' = status c"
proof -
  note I = cache_invD[OF inv] and T = touchedD[OF t]
  have sp: "assumedPods c' = assumedPods c" "podStates c' = podStates c" using T(2) by (simp_all add: same_pods_def)
  have "node_pods c' = node_pods c" unfolding node_pods_touched[OF t] v by (auto simp: fun_eq_iff put_def)
  then show "cache_inv c'" using I T(1) one_pool_touched[OF I(2) t] home by (auto simp: cache_inv_def sp assumed_ok_def)
  show "status c' = status c" by (auto simp: fun_eq_iff status_def is_assumed_def sp split: option.splits)
qed

lemma matchPoolForNode_pool:
  assumes "pools_ok c"
  obtains pn p where "matchPoolForNode L ord nd c = Some pn" "fmlookup (pools c) pn = Some p"
proof -
  obtain d where d: "fmlookup (pools c) DefaultPoolName = Some d" "defaultPool c = Some DefaultPoolName" using pools_okD(1,2)[OF assms] by blast
  let ?ms = "matching_pools L ord (\<lambda>_ _. True) nd c"
  have "fmlookup (pools c) m \<noteq> None" if "m \<in> set ?ms" for m using that by (auto simp: matching_pools_def split: option.splits)
  then show thesis using that d by (cases "\<exists>m. nd \<noteq> None \<and> ?ms = [m]") (force simp: matchPoolForNode_def split: option.splits list.splits)+
qed

lemma set_info_touched:
  assumes ok: "pools_ok c" and a: "item_at c pn n = Some a" and nd: "\<And>nd. ni_node ni = Some nd \<Longrightarrow> node_Name nd = n"
  shows "touched c pn n (Some ni) (c\<lparr>heap := set_info a ni (heap c\<lparr>st_globals := g\<rparr>)\<rparr>)"
proof -
  obtain p where p: "fmlookup (pools c) pn = Some p" "fmlookup (pi_nodes p) n = Some a" using a by (auto simp: item_at_def bind_eq_Some_conv)
  have "pool_upd p (heap c) n p (set_info a ni (heap c\<lparr>st_globals := g\<rparr>)) (Some ni)"
    using p(2) by (auto simp: pool_upd_def set_info_same fmupd_triv)
  from pool_upd_touched[OF ok p(1) this] nd show ?thesis by (simp add: fmupd_triv[OF p(1)])
qed

lemma addNodeImageStates_touched:
  assumes ok: "pools_ok c" and a: "item_at c pn n = Some a"
  obtains v where "touched c pn n v (addNodeImageStates node a c)" "pods_of v = node_pods c pn n" "Option.bind v ni_node = Option.bind (view c pn n) ni_node"
proof -
  let ?ni = "info_of (heap c) a"
  obtain im sm where f: "node_images_fold (add_image (node_Name node)) node (cache_images c, fmempty) = (im, sm)" by fastforce
  have v: "view c pn n = Some ?ni" using a by (simp add: view_def)
  have eq: "addNodeImageStates node a c = c\<lparr>heap := set_info a (?ni\<lparr>imageStates := sm\<rparr>) (heap c\<lparr>st_globals := st_globals (heap c)\<rparr>)\<rparr>\<lparr>cache_images := im\<rparr>"
    by (simp add: addNodeImageStates_def f)
  have "touched c pn n (Some (?ni\<lparr>imageStates := sm\<rparr>)) (addNodeImageStates node a c)"
    unfolding eq images_irrelevant by (rule set_info_touched[OF ok a]) (use pools_okD(7)[OF ok v] in simp)
  then show thesis by (rule that) (simp_all add: node_pods_def v)
qed

lemma update_images_touched:
  assumes ok: "pools_ok c" and v: "view c pn n \<noteq> None" "node_Name node = n"
  obtains c' w where "update_images (Some pn) node c = Some c'" "touched c pn n w c'" "pods_of w = node_pods c pn n" "Option.bind w ni_node = Option.bind (view c pn n) ni_node"
proof -
  obtain a where a: "item_at c pn n = Some a" using v by (auto simp: view_def)
  have "update_images (Some pn) node c = Some (addNodeImageStates node a c)"
    using a v(2) by (auto simp: update_images_def item_at_def bind_eq_Some_conv)
  note eq = this
  show thesis by (rule addNodeImageStates_touched[OF ok a]) (rule that[OF eq])
qed

lemma AddNode_touched:
  assumes ok: "pools_ok c"
  obtains c' pn w where "AddNode L ord node c = Some c'" "matchPoolForNode L ord (Some node) c = Some pn" "touched c pn (node_Name node) w c'"
    "pods_of w = node_pods c pn (node_Name node)" "Option.bind w ni_node = Some node"
proof -
  let ?n = "node_Name node"
  obtain pn p where m: "matchPoolForNode L ord (Some node) c = Some pn" "fmlookup (pools c) pn = Some p" using matchPoolForNode_pool[OF ok] by metis
  obtain x where x: "(if contains_node (Some pn) ?n c \<noteq> None then removeNodeImageStates (Some node) c else c) = c\<lparr>cache_images := x\<rparr>"
    using removeNodeImageStates_if[of "contains_node (Some pn) ?n c \<noteq> None" "Some node" c] by blast
  obtain p' st' where r: "PoolInfo_AddNode L p node (heap c) = (p', st')" by fastforce
  obtain ni where u: "pool_upd p (heap c) ?n p' st' (Some ni)" "ni_pods ni = pods_of (pool_view p (heap c) ?n)" "ni_node ni = Some node"
    using PoolInfo_AddNode_upd[OF r] by metis
  let ?c2 = "c\<lparr>cache_images := x\<rparr>\<lparr>pools := fmupd pn p' (pools c), heap := st'\<rparr>"
  have t2: "touched c pn ?n (Some ni) ?c2"
  proof -
    let ?c1 = "c\<lparr>cache_images := x\<rparr>"
    have "touched ?c1 pn ?n (Some ni) (?c1\<lparr>pools := fmupd pn p' (pools ?c1), heap := st'\<rparr>)"
      by (rule pool_upd_touched[where p = p]) (use ok m(2) u(1,3) in simp_all)
    then show ?thesis by simp
  qed
  have v2: "view ?c2 pn ?n \<noteq> None" using touchedD(4)[OF t2] by simp
  obtain c' w where w: "update_images (Some pn) node ?c2 = Some c'" "touched ?c2 pn ?n w c'" "pods_of w = node_pods ?c2 pn ?n" "Option.bind w ni_node = Option.bind (view ?c2 pn ?n) ni_node"
    by (rule update_images_touched[OF touchedD(1)[OF t2] v2 refl]) (rule that)
  note t = touched_trans[OF t2 w(2)]
  have pw: "pods_of w = node_pods c pn ?n"
    using w(3) u(2) touchedD(4)[OF t2] view_pool[OF m(2)] by (simp add: node_pods_def)
  have "AddNode L ord node c = Some c'"
    using w(1) unfolding AddNode_def Let_def m(1) x by (simp add: on_pool_def m(2) r)
  moreover have "Option.bind w ni_node = Some node" using w(4) touchedD(4)[OF t2] u(3) by simp
  ultimately show thesis by (intro that[OF _ m(1) t pw]) assumption+
qed

lemma AddNode_step:
  assumes inv: "cache_inv c" and home: "\<And>qn. view c qn (node_Name node) \<noteq> None \<Longrightarrow> matchPoolForNode L ord (Some node) c = Some qn"
  obtains c' pn w where "AddNode L ord node c = Some c'" "cache_inv c'" "status c' = status c" "same_pools c c'"
    "matchPoolForNode L ord (Some node) c = Some pn" "touched c pn (node_Name node) w c'" "Option.bind w ni_node = Some node"
proof -
  obtain c' pn w where r: "AddNode L ord node c = Some c'" "matchPoolForNode L ord (Some node) c = Some pn" "touched c pn (node_Name node) w c'"
    "pods_of w = node_pods c pn (node_Name node)" "Option.bind w ni_node = Some node"
    by (rule AddNode_touched[where L = L and ord = ord and node = node, OF cache_invD(1)[OF inv]]) (rule that)
  have h: "qn = pn" if "view c qn (node_Name node) \<noteq> None" for qn using home[OF that] r(2) by simp
  show thesis by (rule that[OF r(1) touched_keeps[OF inv r(3,4) h] touchedD(3)[OF r(3)] r(2,3,5)])
qed

lemma RemoveNode_step:
  assumes inv: "cache_inv c" and home: "\<And>qn. view c qn (node_Name node) \<noteq> None \<Longrightarrow> matchPoolForNode L ord (Some node) c = Some qn"
  obtains c' e pn w where "RemoveNode L ord node c = Some (c', e)" "cache_inv c'" "status c' = status c" "same_pools c c'"
    "e = None \<longleftrightarrow> (\<exists>qn. view c qn (node_Name node) \<noteq> None)" "matchPoolForNode L ord (Some node) c = Some pn"
    "touched c pn (node_Name node) w c'" "Option.bind w ni_node = None"
proof -
  let ?n = "node_Name node"
  note I = cache_invD[OF inv]
  obtain pn p where m: "matchPoolForNode L ord (Some node) c = Some pn" "fmlookup (pools c) pn = Some p" using matchPoolForNode_pool[OF I(1)] by metis
  obtain p' st' e v where r: "PoolInfo_RemoveNode L p node (heap c) = Some (p', st', e)" "pool_upd p (heap c) ?n p' st' v"
    "pods_of v = pods_of (pool_view p (heap c) ?n)" "Option.bind v ni_node = None" "e = None \<longleftrightarrow> pool_view p (heap c) ?n \<noteq> None"
    by (rule PoolInfo_RemoveNode_upd[OF pools_okD(4)[OF I(1) m(2)], of L node "heap c"]) (rule that)
  let ?c1 = "c\<lparr>pools := fmupd pn p' (pools c), heap := st'\<rparr>"
  have t: "touched c pn ?n v ?c1" by (rule pool_upd_touched[OF I(1) m(2) r(2)]) (simp add: r(4))
  have pv: "pods_of v = node_pods c pn ?n" using r(3) view_pool[OF m(2)] by (simp add: node_pods_def)
  have h: "qn = pn" if "view c qn ?n \<noteq> None" for qn using home[OF that] m(1) by simp
  note K = touched_keeps[OF inv t pv h]
  obtain x where x: "removeNodeImageStates (Some node) ?c1 = ?c1\<lparr>cache_images := x\<rparr>" using removeNodeImageStates_eq by blast
  have eq: "on_pool (Some pn) (\<lambda>q st. PoolInfo_RemoveNode L q node st) c = Some (?c1, e)" by (simp add: on_pool_def m(2) r(1))
  have ex: "(\<exists>qn. view c qn ?n \<noteq> None) \<longleftrightarrow> pool_view p (heap c) ?n \<noteq> None" using h view_pool[OF m(2)] by metis
  show thesis
  proof (cases e)
    case None
    have e: "RemoveNode L ord node c = Some (?c1\<lparr>cache_images := x\<rparr>, None)" unfolding RemoveNode_def m(1) eq by (simp add: None x)
    show thesis by (rule that[OF e _ _ _ _ m(1)]) (use K touchedD(3)[OF t] t r(4,5) None ex in simp_all)
  next
    case (Some err)
    have e: "RemoveNode L ord node c = Some (?c1, Some (PoolError err))" unfolding RemoveNode_def m(1) eq by (simp add: Some)
    have "pool_view p (heap c) ?n = None" using r(5) Some by auto
    then have "(Some (PoolError err) = None) = (\<exists>qn. view c qn ?n \<noteq> None)" using ex by blast
    then show thesis using K touchedD(3)[OF t] m(1) t r(4) by (intro that[OF e]) assumption+
  qed
qed

text \<open>An update within one pool.\<close>

lemma UpdateNode_step:
  assumes inv: "cache_inv c" and same: "matchPoolForNode L ord (Some old) c = matchPoolForNode L ord (Some node) c"
    and home: "\<And>qn. view c qn (node_Name node) \<noteq> None \<Longrightarrow> matchPoolForNode L ord (Some node) c = Some qn"
  obtains c' pn w where "UpdateNode L ord (Some old) node c = Some (c', None)" "cache_inv c'" "status c' = status c" "same_pools c c'"
    "matchPoolForNode L ord (Some node) c = Some pn" "touched c pn (node_Name node) w c'" "Option.bind w ni_node = Some node"
proof -
  let ?n = "node_Name node"
  note I = cache_invD[OF inv]
  obtain pn p where m: "matchPoolForNode L ord (Some node) c = Some pn" "fmlookup (pools c) pn = Some p" using matchPoolForNode_pool[OF I(1)] by metis
  obtain x where x: "(case contains_node (Some pn) ?n c of None \<Rightarrow> c | Some a \<Rightarrow> removeNodeImageStates (item_node a c) c) = c\<lparr>cache_images := x\<rparr>"
    using removeNodeImageStates_eq[of _ c] by (cases "contains_node (Some pn) ?n c") (auto intro: that[of "cache_images c"])
  obtain p' st' ni where r: "PoolInfo_UpdateNode L p (Some old) node (heap c) = Some (p', st')" "pool_upd p (heap c) ?n p' st' (Some ni)"
    "ni_pods ni = pods_of (pool_view p (heap c) ?n)" "ni_node ni = Some node"
    by (rule PoolInfo_UpdateNode_upd[OF pools_okD(4)[OF I(1) m(2)], of L old node "heap c"]) (rule that)
  let ?c1 = "c\<lparr>cache_images := x\<rparr>" let ?c2 = "?c1\<lparr>pools := fmupd pn p' (pools ?c1), heap := st'\<rparr>"
  have "touched ?c1 pn ?n (Some ni) ?c2" by (rule pool_upd_touched[where p = p]) (use I(1) m(2) r(2,4) in simp_all)
  then have t2: "touched c pn ?n (Some ni) ?c2" unfolding images_irrelevant .
  have v2: "view ?c2 pn ?n \<noteq> None" using touchedD(4)[OF t2] by simp
  obtain c' w where w: "update_images (Some pn) node ?c2 = Some c'" "touched ?c2 pn ?n w c'" "pods_of w = node_pods ?c2 pn ?n" "Option.bind w ni_node = Option.bind (view ?c2 pn ?n) ni_node"
    by (rule update_images_touched[OF touchedD(1)[OF t2] v2 refl]) (rule that)
  note t = touched_trans[OF t2 w(2)]
  have pw: "pods_of w = node_pods c pn ?n" using w(3) r(3) touchedD(4)[OF t2] view_pool[OF m(2)] by (simp add: node_pods_def)
  have h: "qn = pn" if "view c qn ?n \<noteq> None" for qn using home[OF that] m(1) by simp
  have "UpdateNode L ord (Some old) node c = Some (c', None)"
    using w(1) unfolding UpdateNode_def Let_def same m(1) x by (simp add: on_pool_def m(2) r(1))
  moreover have "Option.bind w ni_node = Some node" using w(4) touchedD(4)[OF t2] r(4) by simp
  ultimately show thesis
    by (intro that[OF _ touched_keeps[OF inv t pw h] touchedD(3)[OF t] m(1) t]) assumption+
qed

lemma same_views_keep:
  assumes inv: "cache_inv c" and c': "pools_ok c'" "same_pods c c'" "view c' = view c"
  shows "cache_inv c'" "status c' = status c"
proof -
  have sp: "assumedPods c' = assumedPods c" "podStates c' = podStates c" using c'(2) by (simp_all add: same_pods_def)
  have "assumed_ok c'" "one_pool c'" using cache_invD(2,3)[OF inv] by (simp_all only: assumed_ok_def one_pool_def sp c'(3))
  moreover have "node_pods c' = node_pods c" by (simp add: fun_eq_iff node_pods_def c'(3))
  ultimately show "cache_inv c'" using cache_invD(4)[OF inv] c'(1) by (simp add: cache_inv_def sp)
  show "status c' = status c" by (auto simp: fun_eq_iff status_def is_assumed_def sp split: option.splits)
qed

lemma UpdateNodeInfoSnapshot_same:
  assumes "UpdateNodeInfoSnapshot bal p st = Some (p', st')"
  shows "pi_pool p' = pi_pool p" "pi_nodes p' = pi_nodes p" "nodeTree p' = nodeTree p" "info_of st' = info_of st" "st_fresh st' = st_fresh st"
proof -
  let ?h = "headNode p" and ?sn = "nodeInfoSnapshot p"
  obtain m g node prev hc where l: "snapshot_loop bal (snap_Generation ?sn) st (st_fresh st + 1) (NodeInfoMap ?sn) (st_globals st) ?h ?h ?h =
      Some (m, g, node, prev, hc)"
    using assms unfolding UpdateNodeInfoSnapshot_def Let_def by (cases "snapshot_loop bal (snap_Generation ?sn) st (st_fresh st + 1) (NodeInfoMap ?sn) (st_globals st) ?h ?h ?h") auto
  note a = assms[unfolded UpdateNodeInfoSnapshot_def Let_def l bind.bind_lunit prod.case]
  have n: "info_of (set_next q v (st\<lparr>st_globals := g\<rparr>)) = info_of st" "info_of (st\<lparr>st_globals := g\<rparr>) = info_of st"
     "st_fresh (set_next q v (st\<lparr>st_globals := g\<rparr>)) = st_fresh st" for q v
    by (auto simp: fun_eq_iff set_next_def info_of_def)
  show "pi_pool p' = pi_pool p" "pi_nodes p' = pi_nodes p" "nodeTree p' = nodeTree p" "info_of st' = info_of st" "st_fresh st' = st_fresh st"
    using a n by (auto simp: bind_eq_Some_conv split: if_splits)
qed

lemma cache_snapshot_step:
  assumes inv: "cache_inv c" and r: "cache_UpdateNodeInfoSnapshot bal pn c = Some (c', e)"
  shows "cache_inv c'" "status c' = status c" "same_pools c c'" "view c' = view c"
proof -
  note I = cache_invD[OF inv]
  have "pools_ok c' \<and> same_pods c c' \<and> same_pools c c' \<and> view c' = view c"
  proof (cases "fmlookup (pools c) pn")
    case None
    then show ?thesis using r I(1) by (simp add: cache_UpdateNodeInfoSnapshot_def)
  next
    case (Some p)
    then obtain p' st' where u: "UpdateNodeInfoSnapshot bal p (heap c) = Some (p', st')" "c' = c\<lparr>pools := fmupd pn p' (pools c), heap := st'\<rparr>"
      using r by (auto simp: cache_UpdateNodeInfoSnapshot_def)
    note U = UpdateNodeInfoSnapshot_same[OF u(1)]
    have v: "pool_view p (heap c) [] = view c pn []" by (rule view_pool[OF Some, symmetric])
    have "pool_upd p (heap c) [] p' st' (view c pn [])"
      unfolding v[symmetric] using U by (auto simp: pool_upd_def pool_view_def fmdrop_absent fmupd_triv split: option.split)
    then have "touched c pn [] (view c pn []) c'" unfolding u(2)
      by (rule pool_upd_touched[OF I(1) Some]) (use pools_okD(7)[OF I(1), of pn "[]"] in \<open>auto simp: bind_eq_Some_conv\<close>)
    then show ?thesis by (auto simp: touched_def fun_eq_iff)
  qed
  then show "cache_inv c'" "status c' = status c" "same_pools c c'" "view c' = view c" using same_views_keep[OF inv] by auto
qed

subsection \<open>Moving nodes between pools\<close>

text \<open>\<open>RemoveNodeInfo\<close> and \<open>AddNodeInfo\<close> change the links and totals of a pool, and the entry of one name.\<close>

lemma fold_resource_frame:
  "pi_nodes (foldl (plusPodResource L) p qs) = pi_nodes p \<and> pi_pool (foldl (plusPodResource L) p qs) = pi_pool p \<and>
     nodeTree (foldl (plusPodResource L) p qs) = nodeTree p"
  "pi_nodes (foldl (reducePodResource L) p qs) = pi_nodes p \<and> pi_pool (foldl (reducePodResource L) p qs) = pi_pool p \<and>
     nodeTree (foldl (reducePodResource L) p qs) = nodeTree p"
  by (induction qs arbitrary: p) (auto simp: pod_resource_fixed plusPodResource_def reducePodResource_def Let_def)

lemma RemoveNodeInfo_upd:
  assumes t: "tree_inv (nodeTree p)" and a: "ni_node (info_of st a) = Some nd" "fmlookup (pi_nodes p) (node_Name nd) = Some a"
  obtains p' st' e where "RemoveNodeInfo L p a st = Some (p', st', e)" "pool_upd p st (node_Name nd) p' st' None" "same_info st st'"
proof -
  let ?n = "node_Name nd"
  obtain p1 st1 where r: "removeNodeInfoFromList p ?n st = (p1, st1)" by fastforce
  note R = removeNodeInfoFromList_same[OF r]
  have t1: "tree_inv (nodeTree p1)" using R(1) t by auto
  obtain nt e where tr: "NodeTree_RemoveNode L (nodeTree p1) nd = Some (nt, e)" "tree_inv nt"
    using tree_removeNode_inv[OF t1, of L nd] by (auto simp: NodeTree_RemoveNode_def)
  obtain p' e' where q: "RemoveNodeInfo L p a st = Some (p', st1, e')" "pi_nodes p' = pi_nodes p1" "pi_pool p' = pi_pool p1" "nodeTree p' = nt"
    using a r tr fold_resource_frame(2)[of L] by (cases e) (auto simp: RemoveNodeInfo_def Let_def)
  have "pool_upd p st ?n p' st1 None"
    using q R(1) same_info_D[OF R(2)] tr(2) by (auto simp: pool_upd_def)
  then show thesis by (rule that[OF q(1) _ R(2)])
qed

lemma AddNodeInfo_upd:
  assumes a: "ni_node (info_of st a) = Some nd" and r: "AddNodeInfo L q a st = (q', st')"
  shows "pi_nodes q' = fmupd (node_Name nd) a (pi_nodes q)" "pi_pool q' = pi_pool q" "same_info st st'"
    "tree_inv (nodeTree q) \<Longrightarrow> tree_inv (nodeTree q')"
proof -
  let ?q1 = "q\<lparr>pi_nodes := fmupd (node_Name nd) a (pi_nodes q)\<rparr>"
  obtain q2 st1 where m: "moveNodeInfoToHead ?q1 (node_Name nd) st = (q2, st1)" by fastforce
  note M = moveNodeInfoToHead_same[OF m]
  note R = r[unfolded AddNodeInfo_def a Let_def option.case m prod.case prod.inject, THEN conjunct1, symmetric]
    r[unfolded AddNodeInfo_def a Let_def option.case m prod.case prod.inject, THEN conjunct2, symmetric]
  show "pi_nodes q' = fmupd (node_Name nd) a (pi_nodes q)" "pi_pool q' = pi_pool q" "same_info st st'"
    "tree_inv (nodeTree q) \<Longrightarrow> tree_inv (nodeTree q')"
    unfolding R using M fold_resource_frame(1)[of L] by (auto simp: NodeTree_AddNode_def tree_addNode_inv)
qed

end
