(* ===== verification/Cache_Pools.thy ===== *)
theory Cache_Pools
  imports Cache_State
begin

text \<open>
  Which pool a node is in: the operations of the cache that create, change and remove pools move the
  nodes so that every node is in the pool its labels select, and no pod or node is lost on the way.
\<close>

subsection \<open>Moving one node\<close>

text \<open>\<open>moved c c'\<close>: the same information about the same nodes, in possibly different pools.\<close>

definition moved :: "schedulerCache \<Rightarrow> schedulerCache \<Rightarrow> bool" where
  "moved c c' \<longleftrightarrow> pools_ok c' \<and> one_pool c' \<and> same_pods c c' \<and> same_pools c c' \<and>
     (\<forall>n ni. (\<exists>pn. view c' pn n = Some ni) \<longleftrightarrow> (\<exists>pn. view c pn n = Some ni))"

lemma movedD:
  assumes "moved c c'"
  shows "pools_ok c'" "one_pool c'" "same_pods c c'" "same_pools c c'"
    "view c' pn n = Some ni \<Longrightarrow> \<exists>qn. view c qn n = Some ni" "view c pn n = Some ni \<Longrightarrow> \<exists>qn. view c' qn n = Some ni"
  using assms unfolding moved_def by blast+

lemma moved_refl: "pools_ok c \<Longrightarrow> one_pool c \<Longrightarrow> moved c c"
  by (simp add: moved_def)

lemma moved_trans: "moved c c1 \<Longrightarrow> moved c1 c2 \<Longrightarrow> moved c c2"
  unfolding moved_def using same_trans by blast

lemma moved_keeps:
  assumes inv: "cache_inv c" and m: "moved c c'"
  shows "cache_inv c'" "status c' = status c"
proof -
  note I = cache_invD[OF inv] and M = movedD[OF m] and P = pods_okD[OF cache_invD(4)[OF inv]]
  have sp: "assumedPods c' = assumedPods c" "podStates c' = podStates c" using M(3) by (simp_all add: same_pods_def)
  have from_old: "\<exists>qn. node_pods c' pn n = node_pods c qn n \<or> node_pods c' pn n = []" for pn n
    using M(5)[of pn n] by (cases "view c' pn n") (auto simp: node_pods_def, metis pods_of_simps(2))
  have "pods_ok (node_pods c') (fmlookup (podStates c))" unfolding pods_ok_def
  proof (intro conjI allI ballI impI)
    fix pn n q assume "q \<in> set (node_pods c' pn n)"
    then obtain qn where "q \<in> set (node_pods c qn n)" using from_old[of pn n] by auto
    then show "pod_NodeName q = n" "\<exists>ps. fmlookup (podStates c) (pod_UID q) = Some ps \<and> pod_NodeName (ps_pod ps) = n"
      using P(1,2) by auto
  next
    fix pn n show "distinct (map pod_UID (node_pods c' pn n))" using from_old[of pn n] P(3) by auto
  next
    fix k ps assume s: "fmlookup (podStates c) k = Some ps"
    show "k \<noteq> []" "pod_UID (ps_pod ps) = k" "pod_NodeName (ps_pod ps) \<noteq> []" using P(4-6)[OF s] by auto
    obtain pn where pn: "k \<in> pod_UID ` set (node_pods c pn (pod_NodeName (ps_pod ps)))" using P(7)[OF s] by blast
    then obtain ni where ni: "view c pn (pod_NodeName (ps_pod ps)) = Some ni"
      by (cases "view c pn (pod_NodeName (ps_pod ps))") (auto simp: node_pods_def)
    then obtain qn where "view c' qn (pod_NodeName (ps_pod ps)) = Some ni" using M(6) by blast
    then show "\<exists>pn. k \<in> pod_UID ` set (node_pods c' pn (pod_NodeName (ps_pod ps)))"
      using pn ni by (intro exI[of _ qn]) (simp add: node_pods_def)
  qed
  moreover have "assumed_ok c'" using I(3) by (simp only: assumed_ok_def sp)
  ultimately show "cache_inv c'" using M(1,2) by (simp add: cache_inv_def sp)
  show "status c' = status c" by (auto simp: fun_eq_iff status_def is_assumed_def sp split: option.splits)
qed

lemma remove_info_detached:
  assumes ok: "pools_ok c" and a: "item_at c pn n = Some a" "ni_node (info_of (heap c) a) = Some nd"
  obtains c1 e where "remove_info L (Some pn) a c = Some (c1, e)" "touched c pn n None c1"
    "info_of (heap c1) a = info_of (heap c) a" "a < st_fresh (heap c1)" "\<And>qn m. item_at c1 qn m \<noteq> Some a"
proof -
  obtain p where p: "fmlookup (pools c) pn = Some p" "fmlookup (pi_nodes p) n = Some a" using a by (auto simp: item_at_def bind_eq_Some_conv)
  have v: "view c pn n = Some (info_of (heap c) a)" using a by (simp add: view_def)
  have n: "node_Name nd = n" using pools_okD(7)[OF ok v a(2)] .
  obtain p' st' e where r: "RemoveNodeInfo L p a (heap c) = Some (p', st', e)" "pool_upd p (heap c) n p' st' None" "same_info (heap c) st'"
    by (rule RemoveNodeInfo_upd[OF pools_okD(4)[OF ok p(1)] a(2), unfolded n, OF p(2)]) (rule that)
  let ?c1 = "c\<lparr>pools := fmupd pn p' (pools c), heap := st'\<rparr>"
  have t: "touched c pn n None ?c1" by (rule pool_upd_touched[OF ok p(1) r(2)]) simp
  have pn': "pi_nodes p' = fmdrop n (pi_nodes p)" using r(2) by (simp add: pool_upd_def)
  have "item_at ?c1 qn m \<noteq> Some a" for qn m
  proof
    assume "item_at ?c1 qn m = Some a"
    then have "item_at c qn m = Some a \<and> (qn, m) \<noteq> (pn, n)" using p pn' by (auto simp: item_at_def split: if_splits)
    then show False using pools_okD(5)[OF ok a(1)] by blast
  qed
  then show thesis
    using pools_okD(6)[OF ok a(1)] same_info_D[OF r(3)]
    by (intro that[OF _ t]) (simp_all add: remove_info_def p(1) r(1))
qed

lemma add_info_detached:
  assumes ok: "pools_ok c" and a: "ni_node (info_of (heap c) a) = Some nd" "a < st_fresh (heap c)" "\<And>qn m. item_at c qn m \<noteq> Some a"
    and q: "fmlookup (pools c) qn = Some q"
  shows "touched c qn (node_Name nd) (Some (info_of (heap c) a)) (add_info L (Some qn) a c)"
proof -
  let ?n = "node_Name nd"
  obtain q' st' where r: "AddNodeInfo L q a (heap c) = (q', st')" by fastforce
  note U = AddNodeInfo_upd[OF a(1) r]
  let ?c1 = "c\<lparr>pools := fmupd qn q' (pools c), heap := st'\<rparr>"
  have eq: "add_info L (Some qn) a c = ?c1" by (simp add: add_info_def q r)
  have same: "info_of st' b = info_of (heap c) b" "st_fresh st' = st_fresh (heap c)" for b using same_info_D[OF U(3)] by auto
  have i: "item_at ?c1 r m = (if r = qn \<and> m = ?n then Some a else item_at c r m)" for r m
    using q by (cases "r = qn") (simp_all add: item_at_def U(1))
  have v: "view ?c1 r m = (if r = qn \<and> m = ?n then Some (info_of (heap c) a) else view c r m)" for r m
  proof -
    have "info_of st' = info_of (heap c)" by (rule ext) (rule same)
    then show ?thesis by (simp add: view_def i)
  qed
  note D = pools_okD[OF ok]
  have "pools_ok ?c1" unfolding pools_ok_def
  proof (intro conjI allI impI)
    show "fmlookup (pools ?c1) DefaultPoolName \<noteq> None" using D(1) by auto
    fix r x assume "fmlookup (pools ?c1) r = Some x"
    then show "PoolInfo_Name x = r" "tree_inv (nodeTree x)"
      using q D(3,4) U(2,4) by (auto simp: PoolInfo_Name_def split: if_splits)
  next
    fix r m r' m' b assume "item_at ?c1 r m = Some b" "item_at ?c1 r' m' = Some b"
    then have "r = r' \<and> m = m'" using a(3) D(5)[of r m b r' m'] unfolding i by (auto split: if_splits)
    then show "r = r'" "m = m'" by simp_all
  next
    fix r m b assume "item_at ?c1 r m = Some b"
    then show "b < st_fresh (heap ?c1)" using a(2) D(6) unfolding i by (auto simp: same split: if_splits)
  next
    fix r m ni x assume "view ?c1 r m = Some ni" "ni_node ni = Some x"
    then show "node_Name x = m" using a(1) D(7) unfolding v by (auto split: if_splits)
  qed
  moreover have "same_pools c ?c1" using q U(2) by (auto simp: same_pools_def)
  ultimately show ?thesis unfolding eq touched_def using v by (simp add: same_pods_def)
qed

text \<open>\<open>transfer\<close> moves an item that has a node, and leaves an item without node where it is.\<close>

lemma transfer_moved:
  assumes ok: "pools_ok c" "one_pool c" and a: "item_at c pn n = Some a" and q: "fmlookup (pools c) qn = Some q" "qn \<noteq> pn"
  obtains c' where "transfer L (Some pn) (Some qn) a c = Some c'" "moved c c'"
    "view c' = (if item_node a c = None then view c else put qn n (view c pn n) (put pn n None (view c)))"
proof (cases "ni_node (info_of (heap c) a)")
  case None
  obtain p where p: "fmlookup (pools c) pn = Some p" using a by (auto simp: item_at_def bind_eq_Some_conv)
  have "transfer L (Some pn) (Some qn) a c = Some c"
    using None p q by (simp add: transfer_def remove_info_def add_info_def RemoveNodeInfo_def AddNodeInfo_def fmupd_triv)
  then show thesis using None moved_refl[OF ok] by (intro that) (auto simp: item_node_def)
next
  case (Some nd)
  obtain c1 e where r: "remove_info L (Some pn) a c = Some (c1, e)" "touched c pn n None c1"
    "info_of (heap c1) a = info_of (heap c) a" "a < st_fresh (heap c1)" "\<And>qn m. item_at c1 qn m \<noteq> Some a"
    by (rule remove_info_detached[OF ok(1) a Some, of L]) (rule that)
  note T1 = touchedD[OF r(2)]
  have va: "view c pn n = Some (info_of (heap c) a)" using a by (simp add: view_def)
  have n: "node_Name nd = n" using pools_okD(7)[OF ok(1) va Some] .
  obtain q1 where q1: "fmlookup (pools c1) qn = Some q1" using same_pools_None[OF T1(3), of qn] q(1) by (cases "fmlookup (pools c1) qn") auto
  let ?c2 = "add_info L (Some qn) a c1"
  have t2: "touched c1 qn n (Some (info_of (heap c) a)) ?c2"
    using add_info_detached[OF T1(1) _ r(4,5) q1, of nd L] Some r(3) n by simp
  note T2 = touchedD[OF t2]
  have v: "view ?c2 = put qn n (view c pn n) (put pn n None (view c))"
    by (auto simp: fun_eq_iff put_def T2(6) T1(6) va)
  have "one_pool ?c2" using ok(2) va unfolding one_pool_def v put_def by (metis option.distinct(1))
  moreover have "(\<exists>r. view ?c2 r m = Some ni) \<longleftrightarrow> (\<exists>r. view c r m = Some ni)" for m ni
  proof (cases "m = n")
    case True
    have "view c r n = None" if "r \<noteq> pn" for r using ok(2) va that unfolding one_pool_def by (metis option.distinct(1))
    then show ?thesis using True q(2) va unfolding v put_def by (metis option.distinct(1))
  qed (simp add: v)
  ultimately have "moved c ?c2"
    using T2(1) same_trans(1)[OF T1(2) T2(2)] same_trans(2)[OF T1(3) T2(3)] by (simp add: moved_def)
  moreover have "transfer L (Some pn) (Some qn) a c = Some ?c2" by (simp add: transfer_def r(1))
  ultimately show thesis using v Some by (intro that) (auto simp: item_node_def)
qed

subsection \<open>The pool a node belongs to\<close>

definition match_set :: "k8s \<Rightarrow> Node \<Rightarrow> schedulerCache \<Rightarrow> string set" where
  "match_set L nd c = {m. \<exists>p. fmlookup (pools c) m = Some p \<and> MatchNode L p (Some nd)}"

text \<open>The only matching pool, or the default pool if there is none or more than one.\<close>

definition chosen :: "string set \<Rightarrow> string" where
  "chosen M = (if \<exists>m. M = {m} then the_elem M else DefaultPoolName)"

definition placed :: "k8s \<Rightarrow> schedulerCache \<Rightarrow> bool" where
  "placed L c \<longleftrightarrow> (\<forall>pn n ni nd. view c pn n = Some ni \<longrightarrow> ni_node ni = Some nd \<longrightarrow> pn = chosen (match_set L nd c))"

lemma chosen_single [simp]: "chosen {m} = m"
  by (simp add: chosen_def)

lemma chosen_other: "(\<And>m. M \<noteq> {m}) \<Longrightarrow> chosen M = DefaultPoolName"
  by (simp add: chosen_def)

lemma chosen_cases: obtains m where "M = {m}" "chosen M = m" | "\<And>m. M \<noteq> {m}" "chosen M = DefaultPoolName"
  using chosen_single chosen_other by metis

lemma MatchNode_pool:
  assumes "pi_pool p' = pi_pool p" shows "MatchNode L p' = MatchNode L p"
proof -
  have "IsDefaultPool p' = IsDefaultPool p" using assms by (simp add: IsDefaultPool_def PoolInfo_Name_def)
  then show ?thesis by (intro ext) (simp only: MatchNode_def assms)
qed

lemma match_set_same:
  assumes "same_pools c c'" shows "match_set L nd c' = match_set L nd c"
proof -
  have "(\<exists>p. fmlookup (pools c') m = Some p \<and> MatchNode L p (Some nd)) \<longleftrightarrow> (\<exists>p. fmlookup (pools c) m = Some p \<and> MatchNode L p (Some nd))" for m
  proof -
    have "map_option pi_pool (fmlookup (pools c') m) = map_option pi_pool (fmlookup (pools c) m)" using assms by (simp add: same_pools_def)
    then show ?thesis
    proof (cases "fmlookup (pools c) m")
      case (Some p)
      then obtain p' where "fmlookup (pools c') m = Some p'" "pi_pool p' = pi_pool p"
        using \<open>map_option pi_pool (fmlookup (pools c') m) = _\<close> by auto
      then show ?thesis using Some MatchNode_pool[of p' p L] by simp
    qed simp
  qed
  then show ?thesis by (simp add: match_set_def)
qed

lemma match_set_facts:
  assumes "pools_ok c"
  shows "DefaultPoolName \<notin> match_set L nd c" "m \<in> match_set L nd c \<Longrightarrow> fmlookup (pools c) m \<noteq> None"
  using pools_okD(3)[OF assms, of DefaultPoolName] by (auto simp: match_set_def MatchNode_def IsDefaultPool_def)

lemma chosen_pool:
  assumes "pools_ok c" "M \<subseteq> match_set L nd c"
  obtains p where "fmlookup (pools c) (chosen M) = Some p"
proof (cases rule: chosen_cases[of M])
  case (1 m)
  then show thesis using match_set_facts(2)[OF assms(1), of m L nd] assms(2) that by auto
next
  case 2
  then show thesis using pools_okD(1)[OF assms(1)] that by auto
qed

lemma matching_pools_set:
  assumes "covers ord c"
  shows "set (matching_pools L ord P (Some nd) c) = {m \<in> match_set L nd c. \<forall>p. fmlookup (pools c) m = Some p \<longrightarrow> P m p}"
    "distinct (matching_pools L ord P node c)" "matching_pools L ord P None c = []"
  using assms by (auto simp: matching_pools_def match_set_def covers_def MatchNode_def[of _ _ None] split: option.splits)

lemma single_list: "distinct xs \<Longrightarrow> (case xs of [m] \<Rightarrow> f m | _ \<Rightarrow> g) = (if \<exists>m. set xs = {m} then f (the_elem (set xs)) else g)"
  by (cases xs; cases "tl xs") (auto simp: list.set(2))

lemma matchPoolForNode_chosen:
  assumes "pools_ok c" "covers ord c"
  shows "matchPoolForNode L ord (Some nd) c = Some (chosen (match_set L nd c))"
  unfolding matchPoolForNode_def option.case
  by (subst single_list) (use matching_pools_set[OF assms(2)] pools_okD(2)[OF assms(1)] in \<open>auto simp: chosen_def\<close>)

subsection \<open>A loop that moves nodes\<close>

definition relocate :: "string \<Rightarrow> string set \<Rightarrow> (Node \<Rightarrow> string option) \<Rightarrow> (string \<Rightarrow> string \<Rightarrow> NodeInfo option) \<Rightarrow> string \<Rightarrow> string \<Rightarrow> NodeInfo option" where
  "relocate pn N T V q n = (case Option.bind (Option.bind (V pn n) ni_node) T of
     None \<Rightarrow> V q n
   | Some t \<Rightarrow> if n \<in> N then (if q = t then V pn n else if q = pn then None else V q n) else V q n)"

lemma relocate_empty [simp]: "relocate pn {} T V = V"
  by (simp add: fun_eq_iff relocate_def split: option.splits)

lemma relocate_single:
  "Option.bind (Option.bind (V pn n) ni_node) T = None \<Longrightarrow> relocate pn {n} T V = V"
  "Option.bind (Option.bind (V pn n) ni_node) T = Some t \<Longrightarrow> relocate pn {n} T V = put t n (V pn n) (put pn n None V)"
proof -
  show "relocate pn {n} T V = V" if "Option.bind (Option.bind (V pn n) ni_node) T = None"
    using that by (intro ext) (auto simp: relocate_def split: option.split)
  assume t: "Option.bind (Option.bind (V pn n) ni_node) T = Some t"
  have "relocate pn {n} T V q m = put t n (V pn n) (put pn n None V) q m" for q m
  proof (cases "m = n")
    case True
    then show ?thesis using t by (simp add: relocate_def put_def)
  next
    case False
    then show ?thesis by (simp add: relocate_def put_def split: option.split)
  qed
  then show "relocate pn {n} T V = put t n (V pn n) (put pn n None V)" by blast
qed

lemma relocate_insert:
  assumes "\<And>nd. T nd \<noteq> Some pn"
  shows "relocate pn N T (relocate pn {n} T V) = relocate pn (insert n N) T V"
proof (intro ext)
  fix q m
  show "relocate pn N T (relocate pn {n} T V) q m = relocate pn (insert n N) T V q m"
  proof (cases "m = n")
    case True
    show ?thesis
    proof (cases "Option.bind (Option.bind (V pn n) ni_node) T")
      case (Some t)
      then have "t \<noteq> pn" using assms by (auto simp: bind_eq_Some_conv)
      then show ?thesis using True Some by (simp add: relocate_def)
    qed (use True in \<open>simp add: relocate_def\<close>)
  qed (simp add: relocate_def split: option.split)
qed

lemma relocate_Some:
  assumes "relocate pn N T V q n = Some ni" "ni_node ni = Some nd"
  shows "V pn n = Some ni \<and> T nd = Some q \<or> V q n = Some ni \<and> (q = pn \<longrightarrow> n \<in> N \<longrightarrow> T nd = None)"
  using assms by (auto simp: relocate_def bind_eq_None_conv split: option.splits if_splits)

lemma for_nodes_move:
  assumes ok: "pools_ok c" "one_pool c"
    and body: "\<And>c' a n. moved c c' \<Longrightarrow> item_at c' pn n = Some a \<Longrightarrow>
       body a c' = (case item_node a c' of
          None \<Rightarrow> Some c'
        | Some nd \<Rightarrow> (case T nd of None \<Rightarrow> Some c' | Some t \<Rightarrow> transfer L (Some pn) (Some t) a c'))"
    and T: "\<And>nd t. T nd = Some t \<Longrightarrow> t \<noteq> pn \<and> fmlookup (pools c) t \<noteq> None"
  shows "\<exists>c'. for_nodes (Some pn) body nord c = Some c' \<and> moved c c' \<and> view c' = relocate pn (set nord) T (view c)"
proof -
  have "\<exists>c2. for_nodes (Some pn) body nord c1 = Some c2 \<and> moved c c2 \<and> view c2 = relocate pn (set nord) T (view c1)" if "moved c c1" for c1
    using that
  proof (induction nord arbitrary: c1)
    case Nil
    then show ?case by (simp add: for_nodes_def)
  next
    case (Cons n ns)
    note M = movedD[OF Cons.prems]
    obtain c2 where c2: "(case item_at c1 pn n of None \<Rightarrow> Some c1 | Some item \<Rightarrow> body item c1) = Some c2" "moved c c2" "view c2 = relocate pn {n} T (view c1)"
    proof (cases "item_at c1 pn n")
      case None
      then have "relocate pn {n} T (view c1) = view c1" by (intro relocate_single) (simp add: view_def)
      then show thesis using Cons.prems None by (intro that[of c1]) simp_all
    next
      case (Some a)
      have va: "view c1 pn n = Some (info_of (heap c1) a)" using Some by (simp add: view_def)
      show thesis
      proof (cases "Option.bind (item_node a c1) T")
        case None
        then have "body a c1 = Some c1" using body[OF Cons.prems Some] by (cases "item_node a c1") auto
        moreover have "relocate pn {n} T (view c1) = view c1"
          using None va by (intro relocate_single) (simp add: item_node_def)
        ultimately show thesis using Some Cons.prems by (intro that[of c1]) auto
      next
        fix t assume t: "Option.bind (item_node a c1) T = Some t"
        then obtain nd where nd: "item_node a c1 = Some nd" "T nd = Some t" by (auto simp: bind_eq_Some_conv)
        obtain q where q: "fmlookup (pools c1) t = Some q" "t \<noteq> pn"
          using T[OF nd(2)] same_pools_None[OF M(4), of t] by (cases "fmlookup (pools c1) t") auto
        obtain c3 where c3: "transfer L (Some pn) (Some t) a c1 = Some c3" "moved c1 c3"
          "view c3 = (if item_node a c1 = None then view c1 else put t n (view c1 pn n) (put pn n None (view c1)))"
          by (rule transfer_moved[where L = L, OF M(1,2) Some q]) (rule that)
        have "relocate pn {n} T (view c1) = put t n (view c1 pn n) (put pn n None (view c1))"
          using t va by (intro relocate_single) (simp add: item_node_def)
        then have v3: "view c3 = relocate pn {n} T (view c1)" using c3(3) nd(1) by simp
        have "body a c1 = Some c3" unfolding body[OF Cons.prems Some] using nd c3(1) by simp
        then show thesis using Some by (intro that[OF _ moved_trans[OF Cons.prems c3(2)] v3]) simp
      qed
    qed
    from Cons.IH[OF c2(2)] obtain c3 where c3: "for_nodes (Some pn) body ns c2 = Some c3" "moved c c3" "view c3 = relocate pn (set ns) T (view c2)" by blast
    have "for_nodes (Some pn) body (n # ns) c1 = Some c3"
      using c2(1) c3(1) by (simp add: for_nodes_def item_at_def)
    moreover have "view c3 = relocate pn (set (n # ns)) T (view c1)"
      unfolding c3(3) c2(3) by (subst relocate_insert) (use T in auto)
    ultimately show ?case using c3(2) by blast
  qed
  from this[OF moved_refl[OF ok]] show ?thesis .
qed

subsection \<open>The two moves\<close>

text \<open>The visiting orders list the pools and all nodes; a node that is not in the pool is skipped.\<close>

definition mo_ok :: "move_orders \<Rightarrow> schedulerCache \<Rightarrow> bool" where
  "mo_ok mo c \<longleftrightarrow> covers (mo_pools mo) c \<and>
     (\<forall>pn n. view c pn n \<noteq> None \<longrightarrow> n \<in> set (mo_default mo) \<and> (\<forall>q. n \<in> set (mo_nodes mo q)))"

lemma mo_ok_names: "mo_ok mo c \<Longrightarrow> view c pn n = Some ni \<Longrightarrow> n \<in> set (mo_default mo) \<and> n \<in> set (mo_nodes mo q)"
  unfolding mo_ok_def by auto

lemma mo_ok_moved: "moved c c' \<Longrightarrow> mo_ok mo c' = mo_ok mo c"
  using movedD(5,6)[of c c'] covers_same[OF movedD(4)] unfolding mo_ok_def by (metis not_None_eq)

text \<open>\<open>in_pools L P c\<close>: every node is in a pool that \<open>P\<close> allows for it.\<close>

definition in_pools :: "(Node \<Rightarrow> string \<Rightarrow> bool) \<Rightarrow> schedulerCache \<Rightarrow> bool" where
  "in_pools P c \<longleftrightarrow> (\<forall>pn n ni nd. view c pn n = Some ni \<longrightarrow> ni_node ni = Some nd \<longrightarrow> P nd pn)"

lemma in_poolsD: "in_pools P c \<Longrightarrow> view c pn n = Some ni \<Longrightarrow> ni_node ni = Some nd \<Longrightarrow> P nd pn"
  by (simp add: in_pools_def)

lemma placed_in_pools: "placed L c = in_pools (\<lambda>nd pn. pn = chosen (match_set L nd c)) c"
  by (simp add: placed_def in_pools_def)

lemma in_pools_relocate:
  assumes P: "in_pools P c" and v: "view c' = relocate pn N T (view c)"
    and N: "\<And>n ni. view c pn n = Some ni \<Longrightarrow> n \<in> N"
    and Q: "\<And>nd q. P nd pn \<Longrightarrow> T nd = Some q \<Longrightarrow> Q nd q" "\<And>nd q. P nd q \<Longrightarrow> q \<noteq> pn \<or> T nd = None \<Longrightarrow> Q nd q"
  shows "in_pools Q c'"
  unfolding in_pools_def
proof (intro allI impI)
  fix q n ni nd assume a: "view c' q n = Some ni" and nd: "ni_node ni = Some nd"
  from relocate_Some[OF a[unfolded v] nd] show "Q nd q"
    using in_poolsD[OF P _ nd] N Q by blast
qed

lemma single_default:
  assumes "pools_ok c"
  shows "(\<exists>m. match_set L nd c - A = {m}) \<longleftrightarrow> chosen (match_set L nd c - A) \<noteq> DefaultPoolName"
    "chosen (match_set L nd c - A) \<noteq> DefaultPoolName \<Longrightarrow> match_set L nd c - A = {chosen (match_set L nd c - A)}"
  using match_set_facts(1)[OF assms, of L nd] by (cases rule: chosen_cases[of "match_set L nd c - A"]; auto)+

lemma move_from_moves:
  assumes ok: "pools_ok c" "one_pool c" and mo: "mo_ok mo c" and pn: "fmlookup (pools c) pn \<noteq> None" "pn \<noteq> DefaultPoolName"
    and P: "in_pools (\<lambda>nd q. q = pn \<or> q = DefaultPoolName \<or> q = chosen (match_set L nd c - {pn})) c"
  shows "\<exists>c'. move_from L mo pn c = Some c' \<and> moved c c' \<and> in_pools (\<lambda>nd q. q = chosen (match_set L nd c - {pn})) c' \<and>
    (\<forall>m ni. view c' pn m = Some ni \<longrightarrow> view c pn m = Some ni) \<and>
    (\<forall>m ni. view c pn m = Some ni \<longrightarrow> ni_node ni = None \<longrightarrow> view c' pn m = Some ni)"
proof -
  let ?M = "\<lambda>nd. match_set L nd c - {pn}"
  let ?ms = "\<lambda>item c. matching_pools L (mo_pools mo) (\<lambda>n _. n \<noteq> name_of pn c) (item_node item c) c"
  have cov: "covers (mo_pools mo) c" using mo by (simp add: mo_ok_def)
  have ms: "(case ?ms a c1 of [m] \<Rightarrow> f m | _ \<Rightarrow> g) = (case item_node a c1 of None \<Rightarrow> g
       | Some nd \<Rightarrow> if chosen (?M nd) = DefaultPoolName then g else f (chosen (?M nd)))" if m: "moved c c1" for a c1 f g
  proof -
    note M = movedD[OF m]
    obtain p1 where p1: "fmlookup (pools c1) pn = Some p1" using pn(1) same_pools_None[OF M(4), of pn] by (cases "fmlookup (pools c1) pn") auto
    have name: "name_of pn c1 = pn" using pools_okD(3)[OF M(1) p1] p1 by (simp add: name_of_def)
    have cov1: "covers (mo_pools mo) c1" using cov covers_same[OF M(4)] by simp
    show ?thesis
    proof (cases "item_node a c1")
      case None
      then show ?thesis by (simp add: matching_pools_set(3)[OF cov1])
    next
      case (Some nd)
      have "set (?ms a c1) = ?M nd"
        unfolding Some name matching_pools_set(1)[OF cov1] match_set_same[OF M(4)] using p1 by auto
      moreover have "the_elem (?M nd) = chosen (?M nd)" if "\<exists>m. ?M nd = {m}" using that by (simp add: chosen_def)
      ultimately show ?thesis
        unfolding single_list[OF matching_pools_set(2)[OF cov1]] using single_default(1)[OF ok(1), of L nd "{pn}"] Some
        by (cases "chosen (?M nd) = DefaultPoolName") simp_all
    qed
  qed
  have df: "defaultPool c = Some DefaultPoolName" by (rule pools_okD(2)[OF ok(1)])
  have dom: "fmlookup (pools c) (chosen (?M nd)) \<noteq> None" for nd using chosen_pool[OF ok(1), of "?M nd" L nd] by auto
  let ?T1 = "\<lambda>nd. if chosen (?M nd) = DefaultPoolName then None else Some (chosen (?M nd))"
  let ?b1 = "\<lambda>item c'. case ?ms item c' of [m] \<Rightarrow> transfer L (defaultPool c) (Some m) item c' | _ \<Rightarrow> Some c'"
  obtain c1 where c1: "for_nodes (Some DefaultPoolName) ?b1 (mo_default mo) c = Some c1" "moved c c1"
    "view c1 = relocate DefaultPoolName (set (mo_default mo)) ?T1 (view c)"
  proof -
    have b1: "?b1 a c' = (case item_node a c' of None \<Rightarrow> Some c'
        | Some nd \<Rightarrow> (case ?T1 nd of None \<Rightarrow> Some c' | Some t \<Rightarrow> transfer L (Some DefaultPoolName) (Some t) a c'))"
      if m: "moved c c'" for c' a
      unfolding ms[OF m] df by (cases "item_node a c'") simp_all
    have "\<exists>c1. for_nodes (Some DefaultPoolName) ?b1 (mo_default mo) c = Some c1 \<and> moved c c1 \<and>
        view c1 = relocate DefaultPoolName (set (mo_default mo)) ?T1 (view c)"
      by (rule for_nodes_move[where L = L, OF ok], erule b1) (use dom in \<open>metis option.distinct(1) option.inject\<close>)
    then show thesis using that by blast
  qed
  note M1 = movedD[OF c1(2)]
  have P1: "in_pools (\<lambda>nd q. q = pn \<or> q = chosen (?M nd)) c1"
    by (rule in_pools_relocate[OF P c1(3)]) (use mo_ok_names[OF mo] in \<open>auto split: if_splits\<close>)
  let ?T2 = "\<lambda>nd. Some (chosen (?M nd))"
  let ?b2 = "\<lambda>item c'. transfer L (Some pn) (case ?ms item c' of [m] \<Rightarrow> Some m | _ \<Rightarrow> defaultPool c) item c'"
  have ne: "chosen (?M nd) \<noteq> pn" for nd using pn(2) by (cases rule: chosen_cases[of "?M nd"]) auto
  have b2: "?b2 a c' = (case item_node a c' of None \<Rightarrow> Some c' | Some nd \<Rightarrow> (case ?T2 nd of None \<Rightarrow> Some c' | Some t \<Rightarrow> transfer L (Some pn) (Some t) a c'))"
    if m: "moved c1 c'" "item_at c' pn n = Some a" for c' a n
  proof (cases "item_node a c'")
    case None
    obtain p where p: "fmlookup (pools c') pn = Some p" using m(2) by (auto simp: item_at_def bind_eq_Some_conv)
    obtain d where d: "fmlookup (pools c') DefaultPoolName = Some d" using pools_okD(1)[OF movedD(1)[OF m(1)]] by blast
    have "transfer L (Some pn) (Some DefaultPoolName) a c' = Some c'"
      using None p d by (simp add: item_node_def transfer_def remove_info_def add_info_def RemoveNodeInfo_def AddNodeInfo_def fmupd_triv)
    moreover have "(case ?ms a c' of [m] \<Rightarrow> Some m | _ \<Rightarrow> defaultPool c) = Some DefaultPoolName"
      unfolding ms[OF moved_trans[OF c1(2) m(1)]] by (simp add: None df)
    ultimately show ?thesis by (simp add: None)
  next
    case (Some nd)
    have "(case ?ms a c' of [m] \<Rightarrow> Some m | _ \<Rightarrow> defaultPool c) = Some (chosen (?M nd))"
      unfolding ms[OF moved_trans[OF c1(2) m(1)]] by (simp add: Some df)
    then show ?thesis by (simp add: Some)
  qed
  obtain c2 where c2: "for_nodes (Some pn) ?b2 (mo_nodes mo pn) c1 = Some c2" "moved c1 c2" "view c2 = relocate pn (set (mo_nodes mo pn)) ?T2 (view c1)"
    using for_nodes_move[OF M1(1,2), where pn = pn and body = ?b2 and T = ?T2 and L = L and nord = "mo_nodes mo pn"] b2 ne dom same_pools_None[OF M1(4)] by blast
  have mo1: "mo_ok mo c1" using mo_ok_moved[OF c1(2)] mo by simp
  have "in_pools (\<lambda>nd q. q = chosen (?M nd)) c2"
    by (rule in_pools_relocate[OF P1 c2(3)]) (use mo_ok_names[OF mo1] in auto)
  moreover have "move_from L mo pn c = Some c2"
    unfolding move_from_def moveNodeInfosToMatchedPoolFrom_def Let_def using c1(1)[unfolded df] c2(1)[unfolded df] by (simp only: df bind.bind_lunit)
  moreover have "view c pn m = Some ni" if "view c2 pn m = Some ni" for m ni
  proof -
    have "view c1 pn m = Some ni" using that ne unfolding c2(3) by (auto simp: relocate_def split: option.splits if_splits)
    then show ?thesis using pn(2) unfolding c1(3)
      by (auto simp: relocate_def bind_eq_Some_conv split: option.splits if_splits) (metis ne)
  qed
  moreover have "view c2 pn m = Some ni" if "view c pn m = Some ni" "ni_node ni = None" for m ni
  proof -
    have "view c DefaultPoolName m = None" using that(1) pn(2) ok(2) unfolding one_pool_def by (metis option.distinct(1))
    then have "view c1 pn m = Some ni" using that unfolding c1(3) by (simp add: relocate_def)
    then show ?thesis using that(2) unfolding c2(3) by (simp add: relocate_def)
  qed
  ultimately show ?thesis using moved_trans[OF c1(2) c2(2)] by blast
qed

lemma move_to_moves:
  assumes ok: "pools_ok c" "one_pool c" and mo: "mo_ok mo c" and pn: "fmlookup (pools c) pn \<noteq> None" "pn \<noteq> DefaultPoolName"
    and P: "in_pools (\<lambda>nd q. q = chosen (match_set L nd c - {pn})) c"
  shows "\<exists>c'. move_to L mo pn c = Some c' \<and> moved c c' \<and> placed L c'"
proof -
  let ?M = "\<lambda>nd. match_set L nd c"
  have cov: "covers (mo_pools mo) c" using mo by (simp add: mo_ok_def)
  have df: "defaultPool c = Some DefaultPoolName" by (rule pools_okD(2)[OF ok(1)])
  have D: "DefaultPoolName \<notin> ?M nd" for nd by (rule match_set_facts(1)[OF ok(1)])
  have match_pn: "(case fmlookup (pools c1) pn of None \<Rightarrow> False | Some p \<Rightarrow> MatchNode L p (item_node a c1)) \<longleftrightarrow>
      (case item_node a c1 of None \<Rightarrow> False | Some nd \<Rightarrow> pn \<in> ?M nd)" if "moved c c1" for a c1
    unfolding match_set_same[OF movedD(4)[OF that], symmetric]
    by (auto simp: match_set_def MatchNode_def[of _ _ None] split: option.split)
  let ?ms = "\<lambda>item c. matching_pools L (mo_pools mo) (\<lambda>_ p. \<not> IsDefaultPool p) (item_node item c) c"
  let ?b1 = "\<lambda>item c'. case ?ms item c' of [m] \<Rightarrow> if m \<noteq> pn then Some c' else transfer L (defaultPool c) (Some pn) item c' | _ \<Rightarrow> Some c'"
  let ?T1 = "\<lambda>nd. if ?M nd = {pn} then Some pn else None"
  have b1: "?b1 a c1 = (case item_node a c1 of None \<Rightarrow> Some c1
      | Some nd \<Rightarrow> (case ?T1 nd of None \<Rightarrow> Some c1 | Some t \<Rightarrow> transfer L (Some DefaultPoolName) (Some t) a c1))"
    if m: "moved c c1" for a c1
  proof -
    note M = movedD[OF m]
    have cov1: "covers (mo_pools mo) c1" using cov covers_same[OF M(4)] by simp
    show ?thesis
    proof (cases "item_node a c1")
      case None
      then show ?thesis by (simp add: matching_pools_set(3)[OF cov1])
    next
      case (Some nd)
      have "set (?ms a c1) = ?M nd"
        unfolding Some matching_pools_set(1)[OF cov1] match_set_same[OF M(4)]
        using pools_okD(3)[OF M(1)] D by (auto simp: IsDefaultPool_def)
      then show ?thesis unfolding Some df by (subst single_list[OF matching_pools_set(2)[OF cov1]]) auto
    qed
  qed
  obtain c1 where c1: "for_nodes (Some DefaultPoolName) ?b1 (mo_default mo) c = Some c1" "moved c c1"
    "view c1 = relocate DefaultPoolName (set (mo_default mo)) ?T1 (view c)"
  proof -
    have "\<exists>c1. for_nodes (Some DefaultPoolName) ?b1 (mo_default mo) c = Some c1 \<and> moved c c1 \<and>
        view c1 = relocate DefaultPoolName (set (mo_default mo)) ?T1 (view c)"
      by (rule for_nodes_move[where L = L, OF ok], erule b1) (use pn in \<open>auto split: if_splits\<close>)
    then show thesis using that by blast
  qed
  let ?J = "\<lambda>ns nd q. q = chosen (?M nd) \<or> q \<in> set ns \<and> q \<noteq> DefaultPoolName \<and> q \<noteq> pn \<and> ?M nd - {pn} = {q}"
  have dm: "m \<in> set (mo_pools mo)" if "m \<in> ?M nd" for m nd using match_set_facts(2)[OF ok(1) that] cov by (auto simp: covers_def)
  have J1: "in_pools (?J (mo_pools mo)) c1"
  proof (rule in_pools_relocate[OF P c1(3)])
    show "n \<in> set (mo_default mo)" if "view c DefaultPoolName n = Some ni" for n ni using mo_ok_names[OF mo that] by simp
    show "?J (mo_pools mo) nd q" if "?T1 nd = Some q" for nd q using that by (auto split: if_splits)
    fix nd q assume q: "q = chosen (?M nd - {pn})" "q \<noteq> DefaultPoolName \<or> ?T1 nd = None"
    show "?J (mo_pools mo) nd q"
    proof (cases rule: chosen_cases[of "?M nd - {pn}"])
      case (1 m)
      then have "q = m" "m \<in> ?M nd" "m \<noteq> pn" using q by auto
      then show ?thesis using 1 D[of nd] dm[of m nd] by auto
    next
      case 2
      then have "?M nd \<noteq> {pn}" using q by (auto split: if_splits)
      then have "?M nd \<noteq> {m}" for m using 2(1)[of m] by auto
      then show ?thesis using q 2 chosen_other by metis
    qed
  qed
  let ?step = "\<lambda>n c'. case fmlookup (pools c') n of None \<Rightarrow> Some c'
     | Some q \<Rightarrow> (if IsDefaultPool q \<or> n = name_of pn c' then Some c'
         else for_nodes (Some n) (\<lambda>item c'.
           if (case fmlookup (pools c') pn of None \<Rightarrow> False | Some p \<Rightarrow> MatchNode L p (item_node item c'))
           then transfer L (Some n) (defaultPool c) item c' else Some c') (mo_nodes mo n) c')"
  have step: "\<exists>c3. ?step n c2 = Some c3 \<and> moved c c3 \<and> in_pools (?J ns) c3" if m: "moved c c2" and J: "in_pools (?J (n # ns)) c2" for n ns c2
  proof -
    note M = movedD[OF m]
    obtain p2 where p2: "fmlookup (pools c2) pn = Some p2" using pn(1) same_pools_None[OF M(4), of pn] by (cases "fmlookup (pools c2) pn") auto
    have name: "name_of pn c2 = pn" using pools_okD(3)[OF M(1) p2] p2 by (simp add: name_of_def)
    show ?thesis
    proof (cases "n \<noteq> DefaultPoolName \<and> n \<noteq> pn \<and> fmlookup (pools c2) n \<noteq> None")
      case False
      have "?step n c2 = Some c2" using False name pools_okD(3)[OF M(1), of n] by (auto simp: IsDefaultPool_def split: option.split)
      moreover have "in_pools (?J ns) c2"
      proof (unfold in_pools_def, intro allI impI)
        fix q m ni nd assume v: "view c2 q m = Some ni" "ni_node ni = Some nd"
        have "fmlookup (pools c2) q \<noteq> None" using v(1) by (auto simp: view_def item_at_def bind_eq_Some_conv)
        moreover have "?J (n # ns) nd q" using in_poolsD[OF J v] .
        ultimately show "?J ns nd q" using False by (metis set_ConsD)
      qed
      ultimately show ?thesis using m by blast
    next
      case True
      then obtain q where q: "fmlookup (pools c2) n = Some q" by auto
      let ?b = "\<lambda>item c'. if (case fmlookup (pools c') pn of None \<Rightarrow> False | Some p \<Rightarrow> MatchNode L p (item_node item c'))
           then transfer L (Some n) (defaultPool c) item c' else Some c'"
      let ?T = "\<lambda>nd. if pn \<in> ?M nd then Some DefaultPoolName else None"
      have b: "?b a c' = (case item_node a c' of None \<Rightarrow> Some c' | Some nd \<Rightarrow> (case ?T nd of None \<Rightarrow> Some c' | Some t \<Rightarrow> transfer L (Some n) (Some t) a c'))"
        if "moved c2 c'" for a c'
        unfolding match_pn[OF moved_trans[OF m that]] df by (auto split: option.split)
      have T: "t \<noteq> n \<and> fmlookup (pools c2) t \<noteq> None" if "?T nd = Some t" for nd t
        using that True pools_okD(1)[OF M(1)] by (auto split: if_splits)
      obtain c3 where c3: "for_nodes (Some n) ?b (mo_nodes mo n) c2 = Some c3" "moved c2 c3" "view c3 = relocate n (set (mo_nodes mo n)) ?T (view c2)"
      proof -
        have "\<exists>c3. for_nodes (Some n) ?b (mo_nodes mo n) c2 = Some c3 \<and> moved c2 c3 \<and> view c3 = relocate n (set (mo_nodes mo n)) ?T (view c2)"
          by (rule for_nodes_move[where L = L, OF M(1,2)], erule b) (rule T)
        then show thesis using that by blast
      qed
      have mo2: "mo_ok mo c2" using mo_ok_moved[OF m] mo by simp
      have "in_pools (?J ns) c3"
      proof (rule in_pools_relocate[OF J c3(3)])
        show "m \<in> set (mo_nodes mo n)" if "view c2 n m = Some ni" for m ni using mo_ok_names[OF mo2 that] by simp
        fix nd r assume a: "?J (n # ns) nd n" "?T nd = Some r"
        then have r: "pn \<in> ?M nd" "r = DefaultPoolName" by (auto split: if_splits)
        have "?M nd \<noteq> {m}" for m
        proof
          assume "?M nd = {m}"
          then show False using a(1) r(1) True by auto
        qed
        then show "?J ns nd r" using r(2) chosen_other by metis
      next
        fix nd r assume a: "?J (n # ns) nd r" "r \<noteq> n \<or> ?T nd = None"
        show "?J ns nd r"
        proof (cases "r = n")
          case True
          then have "pn \<notin> ?M nd" using a(2) by (auto split: if_splits)
          then have "?M nd - {pn} = ?M nd" by blast
          then show ?thesis using a(1) chosen_single by metis
        qed (use a(1) in auto)
      qed
      moreover have "?step n c2 = Some c3"
        using True q name c3(1) pools_okD(3)[OF M(1) q] by (simp add: IsDefaultPool_def)
      ultimately show ?thesis using moved_trans[OF m c3(2)] by blast
    qed
  qed
  have "\<exists>c3. foldM ?step (mo_pools mo) c1 = Some c3 \<and> moved c c3 \<and> in_pools (?J []) c3"
    using foldM_inv[of "\<lambda>ns c'. moved c c' \<and> in_pools (?J ns) c'" "mo_pools mo" c1 ?step] c1(2) J1 step by blast
  then obtain c3 where c3: "foldM ?step (mo_pools mo) c1 = Some c3" "moved c c3" "in_pools (?J []) c3" by blast
  have "placed L c3" using c3(3) unfolding placed_in_pools match_set_same[OF movedD(4)[OF c3(2)]] by simp
  moreover have "move_to L mo pn c = Some c3"
    unfolding move_to_def moveAllNodeInfosFromMatchedPoolsTo_def Let_def using c1(1)[unfolded df] c3(1)[unfolded df] by (simp only: df bind.bind_lunit)
  ultimately show ?thesis using c3(2) by blast
qed

subsection \<open>Creating, changing and removing pools\<close>

definition cache_good :: "k8s \<Rightarrow> schedulerCache \<Rightarrow> bool" where
  "cache_good L c \<longleftrightarrow> cache_inv c \<and> placed L c"

lemma moved_good: "cache_inv c \<Longrightarrow> moved c c' \<Longrightarrow> placed L c' \<Longrightarrow> cache_good L c' \<and> status c' = status c"
  using moved_keeps by (simp add: cache_good_def)

text \<open>Setting the specification of a pool, new or known, changes no view; it can change which nodes this
  one pool matches.\<close>

lemma set_spec:
  assumes inv: "cache_inv c" and p: "p = (case fmlookup (pools c) (pool_Name pl) of None \<Rightarrow> NewPoolInfo L | Some q \<Rightarrow> q)"
    and n: "pool_Name pl \<noteq> DefaultPoolName"
  defines "c' \<equiv> c\<lparr>pools := fmupd (pool_Name pl) (SetPool p pl) (pools c)\<rparr>"
  shows "cache_inv c'" "status c' = status c" "view c' = view c" "match_set L nd c' - {pool_Name pl} = match_set L nd c - {pool_Name pl}"
proof -
  note I = cache_invD[OF inv] and D = pools_okD[OF cache_invD(1)[OF inv]]
  have i: "item_at c' = item_at c"
    using p by (auto simp: fun_eq_iff item_at_def c'_def SetPool_def NewPoolInfo_def split: option.splits)
  show v: "view c' = view c" by (simp add: fun_eq_iff view_def i) (simp add: c'_def)
  have t: "tree_inv (nodeTree p)" using p D(4) tree_inv_new by (auto simp: NewPoolInfo_def newNodeTree_def split: option.splits)
  have "pools_ok c'"
    unfolding pools_ok_def i v
    using I(1) t n by (auto simp: pools_ok_def c'_def SetPool_def PoolInfo_Name_def)
  moreover have "same_pods c c'" by (simp add: same_pods_def c'_def)
  ultimately show "cache_inv c'" "status c' = status c" using same_views_keep[OF inv] v by auto
  show "match_set L nd c' - {pool_Name pl} = match_set L nd c - {pool_Name pl}"
    by (auto simp: match_set_def c'_def split: if_splits)
qed

lemma mo_ok_view: "view c' = view c \<Longrightarrow> fmdom (pools c') = fmdom (pools c) \<Longrightarrow> mo_ok mo c' = mo_ok mo c"
  by (simp add: mo_ok_def covers_def)

text \<open>A pool that is not known yet, added by \<open>AddPool\<close> or by \<open>UpdatePool\<close>.\<close>

definition with_pool :: "k8s \<Rightarrow> Pool \<Rightarrow> schedulerCache \<Rightarrow> schedulerCache" where
  "with_pool L pl c = c\<lparr>pools := fmupd (pool_Name pl)
     (SetPool (case fmlookup (pools c) (pool_Name pl) of None \<Rightarrow> NewPoolInfo L | Some q \<Rightarrow> q) pl) (pools c)\<rparr>"

lemma set_pool_eq:
  "set_pool pl c = (if fmlookup (pools c) (pool_Name pl) = None then None else Some (with_pool L pl c))"
  "fmlookup (pools c) (pool_Name pl) = None \<Longrightarrow> set_pool pl (new_pool L (pool_Name pl) c) = Some (with_pool L pl c)"
  by (auto simp: set_pool_def with_pool_def new_pool_def)

lemma new_pool_moves:
  assumes good: "cache_good L c" and n: "pool_Name pl \<noteq> DefaultPoolName" "fmlookup (pools c) (pool_Name pl) = None"
    and mo: "mo_ok mo (with_pool L pl c)"
  shows "\<exists>c'. move_to L mo (pool_Name pl) (with_pool L pl c) = Some c' \<and> cache_good L c' \<and> status c' = status c"
proof -
  let ?c1 = "with_pool L pl c"
  have inv: "cache_inv c" and pl: "placed L c" using good by (simp_all add: cache_good_def)
  note S = set_spec[OF inv refl n(1), of L, folded with_pool_def]
  note I1 = cache_invD[OF S(1)]
  have "pool_Name pl \<notin> match_set L nd c" for nd using n(2) by (simp add: match_set_def)
  then have ms: "match_set L nd ?c1 - {pool_Name pl} = match_set L nd c" for nd using S(4)[of nd] by auto
  have "in_pools (\<lambda>nd q. q = chosen (match_set L nd ?c1 - {pool_Name pl})) ?c1"
    using pl unfolding ms placed_def in_pools_def S(3) .
  moreover have "fmlookup (pools ?c1) (pool_Name pl) \<noteq> None" by (simp add: with_pool_def)
  ultimately obtain c' where c': "move_to L mo (pool_Name pl) ?c1 = Some c'" "moved ?c1 c'" "placed L c'"
    using move_to_moves[OF I1(1,2) mo _ n(1)] by blast
  then show ?thesis using moved_good[OF S(1) c'(2,3)] S(2) by auto
qed

lemma placed_allows:
  assumes "placed L c"
  shows "in_pools (\<lambda>nd q. q = pn \<or> q = DefaultPoolName \<or> q = chosen (match_set L nd c - {pn})) c"
  unfolding in_pools_def
proof (intro allI impI)
  fix q m ni nd assume "view c q m = Some ni" "ni_node ni = Some nd"
  then have q: "q = chosen (match_set L nd c)" using assms by (simp add: placed_def)
  show "q = pn \<or> q = DefaultPoolName \<or> q = chosen (match_set L nd c - {pn})"
  proof (cases rule: chosen_cases[of "match_set L nd c"])
    case (1 x)
    then show ?thesis using q by (cases "x = pn") simp_all
  qed (use q in simp)
qed

lemma AddPool_step:
  assumes good: "cache_good L c" and n: "pool_Name pl \<noteq> DefaultPoolName" "fmlookup (pools c) (pool_Name pl) = None"
    and mo: "mo_ok mo (with_pool L pl c)"
  shows "\<exists>c'. AddPool L mo (Some pl) c = Some (c', None) \<and> cache_good L c' \<and> status c' = status c"
  using new_pool_moves[OF good n mo] n set_pool_eq(2)[OF n(2), of L] by (auto simp: AddPool_def)

lemma fmdom_with_pool: "fmlookup (pools c) (pool_Name pl) \<noteq> None \<Longrightarrow> fmdom (pools (with_pool L pl c)) = fmdom (pools c)"
  by (auto simp: with_pool_def)

lemma UpdatePool_step:
  assumes good: "cache_good L c" and n: "pool_Name pl \<noteq> DefaultPoolName" "fmlookup (pools c) (pool_Name pl) = Some p" "pi_pool p = Some old"
    and mo: "mo_ok mo c" "mo_ok mo' c"
  shows "\<exists>c'. UpdatePool L mo mo' (Some old) pl c = Some (c', None) \<and> cache_good L c' \<and> status c' = status c"
proof -
  let ?n = "pool_Name pl" let ?c1 = "with_pool L pl c"
  have inv: "cache_inv c" and pl: "placed L c" using good by (simp_all add: cache_good_def)
  note S = set_spec[OF inv refl n(1), of L, folded with_pool_def]
  note I1 = cache_invD[OF S(1)]
  have set: "set_pool pl c = Some ?c1" using n(2) by (simp add: set_pool_eq(1)[of pl c L])
  have dom: "fmdom (pools ?c1) = fmdom (pools c)" "fmlookup (pools ?c1) ?n \<noteq> None" using n(2) by (simp_all add: fmdom_with_pool) (simp add: with_pool_def)
  have mo1: "mo_ok mo ?c1" "mo_ok mo' ?c1" using mo mo_ok_view[OF S(3) dom(1)] by simp_all
  show ?thesis
  proof (cases "NodeSelector (pool_Spec old) = NodeSelector (pool_Spec pl)")
    case True
    have "PoolInfo_Name p = ?n" by (rule pools_okD(3)[OF cache_invD(1)[OF inv] n(2)])
    then have "MatchNode L (SetPool p pl) = MatchNode L p"
      using True n(3) by (simp add: fun_eq_iff MatchNode_def SetPool_def IsDefaultPool_def PoolInfo_Name_def split: option.split)
    then have "match_set L nd ?c1 = match_set L nd c" for nd using n(2) by (auto simp: match_set_def with_pool_def)
    then have "placed L ?c1" using pl by (simp add: placed_def S(3))
    then show ?thesis
      using S(1,2) True n(2) set by (simp add: UpdatePool_def PoolResourcePropertiesChanged_def poolNodeSelectorChanged_def cache_good_def)
  next
    case False
    have "in_pools (\<lambda>nd q. q = ?n \<or> q = DefaultPoolName \<or> q = chosen (match_set L nd ?c1 - {?n})) ?c1"
      using placed_allows[OF pl] unfolding in_pools_def S(3) S(4) .
    from move_from_moves[OF I1(1,2) mo1(1) dom(2) n(1) this] obtain c2 where c2: "move_from L mo ?n ?c1 = Some c2" "moved ?c1 c2"
      "in_pools (\<lambda>nd q. q = chosen (match_set L nd ?c1 - {?n})) c2" by blast
    note M2 = movedD[OF c2(2)]
    have "in_pools (\<lambda>nd q. q = chosen (match_set L nd c2 - {?n})) c2" using c2(3) unfolding match_set_same[OF M2(4)] .
    moreover have "mo_ok mo' c2" using mo1(2) mo_ok_moved[OF c2(2)] by simp
    moreover have "fmlookup (pools c2) ?n \<noteq> None" using dom(2) same_pools_None[OF M2(4), of ?n] by simp
    ultimately obtain c3 where c3: "move_to L mo' ?n c2 = Some c3" "moved c2 c3" "placed L c3"
      using move_to_moves[OF M2(1,2) _ _ n(1)] by blast
    have "UpdatePool L mo mo' (Some old) pl c = Some (c3, None)"
      using n(2) set False c2(1) c3(1) by (simp add: UpdatePool_def PoolResourcePropertiesChanged_def poolNodeSelectorChanged_def)
    then show ?thesis using moved_good[OF S(1) moved_trans[OF c2(2) c3(2)] c3(3)] S(2) by auto
  qed
qed

text \<open>Removing a pool all of whose items have a node.\<close>

lemma RemovePool_step:
  assumes good: "cache_good L c" and n: "pool_Name pl \<noteq> DefaultPoolName" and mo: "mo_ok mo c"
    and items: "\<And>m ni. view c (pool_Name pl) m = Some ni \<Longrightarrow> ni_node ni \<noteq> None"
  shows "\<exists>c'. RemovePool L mo pl c = Some (c', None) \<and> cache_good L c' \<and> status c' = status c \<and> fmlookup (pools c') (pool_Name pl) = None \<and>
    (\<forall>m ni. (\<exists>pn. view c' pn m = Some ni) \<longleftrightarrow> (\<exists>pn. view c pn m = Some ni))"
proof (cases "fmlookup (pools c) (pool_Name pl)")
  case None
  then show ?thesis using good n by (simp add: RemovePool_def DefaultPoolName_def)
next
  case (Some p)
  let ?n = "pool_Name pl"
  have inv: "cache_inv c" and pl: "placed L c" using good by (simp_all add: cache_good_def)
  note I = cache_invD[OF inv]
  from move_from_moves[OF I(1,2) mo _ n placed_allows[OF pl]] Some obtain c1 where c1: "move_from L mo ?n c = Some c1" "moved c c1"
    "in_pools (\<lambda>nd q. q = chosen (match_set L nd c - {?n})) c1" "\<And>m ni. view c1 ?n m = Some ni \<Longrightarrow> view c ?n m = Some ni" by fastforce
  note M = movedD[OF c1(2)] and K = moved_keeps[OF inv c1(2)]
  have ne: "chosen (match_set L nd c - {?n}) \<noteq> ?n" for nd using n by (cases rule: chosen_cases[of "match_set L nd c - {?n}"]) auto
  have none: "view c1 ?n m = None" for m
  proof (rule ccontr)
    assume "view c1 ?n m \<noteq> None"
    then obtain ni where v: "view c1 ?n m = Some ni" by auto
    then obtain nd where "ni_node ni = Some nd" using items c1(4) by blast
    then show False using in_poolsD[OF c1(3) v] ne by metis
  qed
  let ?c' = "c1\<lparr>pools := fmdrop ?n (pools c1)\<rparr>"
  have it: "item_at c1 ?n m = None" for m using none[of m] by (simp add: view_def)
  have i: "item_at ?c' = item_at c1" using it by (auto simp: fun_eq_iff item_at_def)
  have v: "view ?c' = view c1" by (simp add: fun_eq_iff view_def i)
  have "pools_ok ?c'" using M(1) n unfolding pools_ok_def i v by auto
  then have K': "cache_inv ?c'" "status ?c' = status c1" using same_views_keep[OF K(1), of ?c'] v by (simp_all add: same_pods_def)
  have "match_set L nd ?c' = match_set L nd c1 - {?n}" for nd by (auto simp: match_set_def)
  then have "placed L ?c'" using c1(3) by (simp add: placed_def in_pools_def v match_set_same[OF M(4)])
  moreover have "RemovePool L mo pl c = Some (?c', None)" using Some n c1(1) by (simp add: RemovePool_def DefaultPoolName_def)
  moreover have "\<forall>m ni. (\<exists>pn. view ?c' pn m = Some ni) \<longleftrightarrow> (\<exists>pn. view c pn m = Some ni)"
    using c1(2) unfolding moved_def v by blast
  ultimately show ?thesis using K' K(2) by (simp add: cache_good_def)
qed

text \<open>An item without a node is not moved, and is gone with its pool.\<close>

lemma RemovePool_drops:
  assumes good: "cache_good L c" and n: "pool_Name pl \<noteq> DefaultPoolName" and mo: "mo_ok mo c"
    and v: "view c (pool_Name pl) m = Some ni" "ni_node ni = None"
  shows "\<exists>c'. RemovePool L mo pl c = Some (c', None) \<and> pools_ok c' \<and> same_pods c c' \<and> one_pool c' \<and> (\<forall>pn. view c' pn m = None) \<and>
    (\<forall>pn q x. view c' pn q = Some x \<longrightarrow> (\<exists>qn. view c qn q = Some x))"
proof -
  let ?n = "pool_Name pl"
  have inv: "cache_inv c" and pl: "placed L c" using good by (simp_all add: cache_good_def)
  note I = cache_invD[OF inv]
  have p: "fmlookup (pools c) ?n \<noteq> None" using v(1) by (auto simp: view_def item_at_def bind_eq_Some_conv)
  from move_from_moves[OF I(1,2) mo p n placed_allows[OF pl]] obtain c1 where c1: "move_from L mo ?n c = Some c1" "moved c c1"
    "view c1 ?n m = Some ni" using v by blast
  note M = movedD[OF c1(2)]
  let ?c' = "c1\<lparr>pools := fmdrop ?n (pools c1)\<rparr>"
  have i: "item_at ?c' q x = (if q = ?n then None else item_at c1 q x)" for q x by (simp add: item_at_def)
  have vw: "view ?c' q x = (if q = ?n then None else view c1 q x)" for q x by (simp add: view_def i)
  have only: "view c1 q m = None" if "q \<noteq> ?n" for q using M(2) c1(3) that unfolding one_pool_def by (metis option.distinct(1))
  have "pools_ok ?c'" using M(1) n unfolding pools_ok_def i vw by (auto split: if_splits)
  moreover have "one_pool ?c'" using M(2) unfolding one_pool_def vw by (metis (full_types))
  moreover have "RemovePool L mo pl c = Some (?c', None)" using p n c1(1) by (auto simp: RemovePool_def DefaultPoolName_def)
  moreover have "same_pods c ?c'" using M(3) by (simp add: same_pods_def)
  moreover have "\<forall>pn. view ?c' pn m = None" using only by (simp add: vw)
  moreover have "\<exists>qn. view c qn q = Some x" if "view ?c' pn q = Some x" for pn q x using that M(5) by (auto simp: vw split: if_splits)
  ultimately show ?thesis by blast
qed

subsection \<open>Operations on pods keep the nodes in place\<close>

definition nodes_same :: "schedulerCache \<Rightarrow> schedulerCache \<Rightarrow> bool" where
  "nodes_same c c' \<longleftrightarrow> same_pools c c' \<and> (\<forall>pn n. Option.bind (view c' pn n) ni_node = Option.bind (view c pn n) ni_node)"

lemma nodes_same_refl [simp]: "nodes_same c c"
  by (simp add: nodes_same_def)

lemma nodes_same_trans: "nodes_same c c1 \<Longrightarrow> nodes_same c1 c2 \<Longrightarrow> nodes_same c c2"
  by (simp add: nodes_same_def same_pools_def)

lemma nodes_same_states [simp]:
  "nodes_same c (c1\<lparr>podStates := x\<rparr>) = nodes_same c c1" "nodes_same c (c1\<lparr>assumedPods := y\<rparr>) = nodes_same c c1"
  by (simp_all add: nodes_same_def)

lemma placed_same:
  assumes "nodes_same c c'" "placed L c" shows "placed L c'"
  unfolding placed_def
proof (intro allI impI)
  fix pn n ni nd assume "view c' pn n = Some ni" "ni_node ni = Some nd"
  then have "Option.bind (view c pn n) ni_node = Some nd" using assms(1) by (auto simp: nodes_same_def dest: spec2[where x = pn and y = n])
  then obtain ni' where "view c pn n = Some ni'" "ni_node ni' = Some nd" by (auto simp: bind_eq_Some_conv)
  then show "pn = chosen (match_set L nd c')"
    using assms(2) match_set_same[of c c' L nd] assms(1) by (auto simp: placed_def nodes_same_def)
qed

lemma nodes_same_touched:
  "touched c pn n v c' \<Longrightarrow> Option.bind v ni_node = Option.bind (view c pn n) ni_node \<Longrightarrow> nodes_same c c'"
  by (simp add: nodes_same_def touchedD(3) touchedD(6))

lemma addPod_nodes:
  assumes "pools_ok c" "one_pool c" "covers ord c" "pod_NodeName pod \<noteq> []" "addPod L ord pod c = Some c'"
  shows "nodes_same c c'"
  by (rule addPod_effect[OF assms(1,2,4,3), where L = L]) (use assms(5) nodes_same_touched in force)

lemma removePod_nodes:
  assumes "pools_ok c" "one_pool c" "covers ord c" "pod_NodeName pod \<noteq> []" "pod_UID pod \<noteq> []" "removePod L ord pod c = Some (c', e)"
  shows "nodes_same c c'" "pools_ok c'" "one_pool c'"
proof -
  have "nodes_same c c' \<and> pools_ok c' \<and> one_pool c'"
    by (rule removePod_effect[OF assms(1,2,4,5,3), where L = L]) (use assms(6) nodes_same_touched touchedD(1) in force)
  then show "nodes_same c c'" "pools_ok c'" "one_pool c'" by blast+
qed

lemma pod_ops_nodes:
  assumes inv: "cache_inv c" and ord: "covers ord c" "covers ord' c"
  shows "pod_NodeName pod \<noteq> [] \<Longrightarrow> AssumePod L ord pod c = Some (c', e) \<Longrightarrow> nodes_same c c'"
    "pod_UID pod \<noteq> [] \<Longrightarrow> ForgetPod L ord pod c = Some (c', e) \<Longrightarrow> nodes_same c c'"
    "pod_NodeName pod \<noteq> [] \<Longrightarrow> AddPod L ord ord' pod c = Some (c', e) \<Longrightarrow> nodes_same c c'"
    "pod_NodeName old \<noteq> [] \<Longrightarrow> pod_NodeName new \<noteq> [] \<Longrightarrow> pod_UID old \<noteq> [] \<Longrightarrow> UpdatePod L ord ord' old new c = Some (c', e) \<Longrightarrow> nodes_same c c'"
    "RemovePod L ord pod c = Some (c', e) \<Longrightarrow> nodes_same c c'"
    "fmlookup (podStates c) k = Some ps \<Longrightarrow> expirePod L ord k ps c = Some (c', e) \<Longrightarrow> nodes_same c c'"
proof -
  note I = cache_invD[OF inv] and P = pods_okD[OF cache_invD(4)[OF inv]]
  note A = addPod_nodes[where L = L] and R = removePod_nodes[where L = L]
  show "nodes_same c c'" if "pod_NodeName pod \<noteq> []" "AssumePod L ord pod c = Some (c', e)"
    using that A[OF I(1,2) ord(1) that(1)] by (auto simp: AssumePod_def split: option.splits if_splits)
  show "nodes_same c c'" if "pod_UID pod \<noteq> []" "ForgetPod L ord pod c = Some (c', e)"
  proof (cases "\<exists>ps. fmlookup (podStates c) (pod_UID pod) = Some ps \<and> pod_NodeName (ps_pod ps) = pod_NodeName pod")
    case True
    then have "pod_NodeName pod \<noteq> []" using P(6) by metis
    from R[OF I(1,2) ord(1) this that(1)] show ?thesis
      using that by (auto simp: ForgetPod_def GetPodKey_def drop_pod_def split: option.splits if_splits)
  qed (use that in \<open>auto simp: ForgetPod_def GetPodKey_def split: option.splits if_splits\<close>)
  show "nodes_same c c'" if n: "pod_NodeName pod \<noteq> []" and r: "AddPod L ord ord' pod c = Some (c', e)"
  proof (cases "fmlookup (podStates c) (pod_UID pod)")
    case None
    then show ?thesis using r A[OF I(1,2) ord(1) n] by (auto simp: AddPod_def GetPodKey_def split: if_splits)
  next
    case (Some ps)
    have k: "pod_NodeName (ps_pod ps) \<noteq> []" "pod_UID (ps_pod ps) \<noteq> []" using P(4-6)[OF Some] by auto
    have "nodes_same c c2" if "removePod L ord (ps_pod ps) c = Some (c1, e1)" "addPod L ord' pod c1 = Some c2" for c1 c2 e1
    proof -
      note R1 = R[OF I(1,2) ord(1) k that(1)]
      have "covers ord' c1" using ord(2) covers_same[of c c1] R1(1) by (simp add: nodes_same_def)
      from nodes_same_trans[OF R1(1) A[OF R1(2,3) this n that(2)]] show ?thesis .
    qed
    then show ?thesis using Some r by (auto simp: AddPod_def GetPodKey_def bind_eq_Some_conv split: if_splits)
  qed
  show "nodes_same c c'" if n: "pod_NodeName old \<noteq> []" "pod_NodeName new \<noteq> []" "pod_UID old \<noteq> []" and r: "UpdatePod L ord ord' old new c = Some (c', e)"
  proof -
    have "nodes_same c c1 \<and> (\<forall>c2. addPod L ord' new c1 = Some c2 \<longrightarrow> nodes_same c c2)" if "removePod L ord old c = Some (c1, e1)" for c1 e1
    proof -
      note R1 = R[OF I(1,2) ord(1) n(1,3) that]
      have "covers ord' c1" using ord(2) covers_same[of c c1] R1(1) by (simp add: nodes_same_def)
      then show ?thesis using R1(1) nodes_same_trans[OF R1(1) A[OF R1(2,3) _ n(2)]] by blast
    qed
    then show ?thesis
      using r by (fastforce simp: UpdatePod_def updatePod_def bind_eq_Some_conv split: option.splits if_splits)
  qed
  have known: "nodes_same c c1" if "fmlookup (podStates c) k = Some ps" "removePod L ord (ps_pod ps) c = Some (c1, e1)" for k ps c1 e1
    by (rule R[OF I(1,2) ord(1) _ _ that(2)]) (use P(4-6)[OF that(1)] in auto)
  show "nodes_same c c'" if "RemovePod L ord pod c = Some (c', e)"
    using that known by (auto simp: RemovePod_def split: option.splits if_splits)
  show "nodes_same c c'" if "fmlookup (podStates c) k = Some ps" "expirePod L ord k ps c = Some (c', e)"
    using that known by (auto simp: expirePod_def drop_pod_def split: option.splits)
qed

lemma cleanup_nodes:
  assumes "cache_inv c" "\<forall>k. covers (ords k) c" "cleanupAssumedPods L kord ords now c = Some c'"
  shows "nodes_same c c'"
  using assms
proof (induction kord arbitrary: c)
  case Nil
  then show ?case by (simp add: cleanupAssumedPods_def)
next
  case (Cons k ks)
  obtain c1 where c1: "cleanup_key L ords now k c = Some c1" "cache_inv c1" "same_pools c c1"
    using cleanup_key_step[OF Cons.prems(1)] Cons.prems(2) by blast
  have "nodes_same c c1"
    using c1(1) pod_ops_nodes(6)[OF Cons.prems(1), of "ords k" "ords k" k _ L] Cons.prems(2)
    by (fastforce simp: cleanup_key_def split: option.splits if_splits)
  moreover have "\<forall>k. covers (ords k) c1" using Cons.prems(2) covers_same[OF c1(3)] by simp
  moreover have "cleanupAssumedPods L ks ords now c1 = Some c'" using Cons.prems(3) c1(1) by (simp add: cleanupAssumedPods_def)
  ultimately show ?case using Cons.IH[OF c1(2)] nodes_same_trans by blast
qed

subsection \<open>A node whose labels select another pool\<close>

lemma two_touched_moved_keeps:
  assumes inv: "cache_inv c" and t: "touched c pn n None c1" "touched c1 qn n (Some ni') c2" and ne: "qn \<noteq> pn"
    and v: "view c pn n = Some ni" "ni_pods ni' = ni_pods ni"
  shows "cache_inv c2" "status c2 = status c" "same_pools c c2" "\<And>q m. view c2 q m = (if m = n then if q = qn then Some ni' else None else view c q m)"
proof -
  note I = cache_invD[OF inv] and T1 = touchedD[OF t(1)] and T2 = touchedD[OF t(2)] and P = pods_okD[OF cache_invD(4)[OF inv]]
  have only: "view c q n = None" if "q \<noteq> pn" for q using I(2) v(1) that unfolding one_pool_def by (metis option.distinct(1))
  show vw: "view c2 q m = (if m = n then if q = qn then Some ni' else None else view c q m)" for q m
    using only[of q] by (auto simp: T2(6) T1(6))
  have sp: "assumedPods c2 = assumedPods c" "podStates c2 = podStates c" using T1(2) T2(2) by (simp_all add: same_pods_def)
  have np: "node_pods c2 q m = (if m = n then if q = qn then node_pods c pn n else [] else node_pods c q m)" for q m
    using v by (simp add: node_pods_def vw)
  have "pods_ok (node_pods c2) (fmlookup (podStates c))" unfolding pods_ok_def
  proof (intro conjI allI ballI impI)
    fix q m x assume "x \<in> set (node_pods c2 q m)"
    then show "pod_NodeName x = m" "\<exists>ps. fmlookup (podStates c) (pod_UID x) = Some ps \<and> pod_NodeName (ps_pod ps) = m"
      using P(1,2) by (auto simp: np split: if_splits)
  next
    fix q m show "distinct (map pod_UID (node_pods c2 q m))" using P(3) by (simp add: np)
  next
    fix k ps assume s: "fmlookup (podStates c) k = Some ps"
    show "k \<noteq> []" "pod_UID (ps_pod ps) = k" "pod_NodeName (ps_pod ps) \<noteq> []" using P(4-6)[OF s] by auto
    obtain q where q: "k \<in> pod_UID ` set (node_pods c q (pod_NodeName (ps_pod ps)))" using P(7)[OF s] by blast
    show "\<exists>pn. k \<in> pod_UID ` set (node_pods c2 pn (pod_NodeName (ps_pod ps)))"
    proof (cases "pod_NodeName (ps_pod ps) = n")
      case True
      then have "q = pn" using q only[of q] by (cases "q = pn") (auto simp: node_pods_def)
      then show ?thesis using q True by (intro exI[of _ qn]) (simp add: np)
    next
      case False
      then show ?thesis using q by (intro exI[of _ q]) (simp add: np)
    qed
  qed
  moreover have "one_pool c2" using I(2) unfolding one_pool_def vw by (metis option.distinct(1))
  moreover have "assumed_ok c2" using I(3) by (simp only: assumed_ok_def sp)
  ultimately show "cache_inv c2" using T2(1) by (simp add: cache_inv_def sp)
  show "status c2 = status c" by (auto simp: fun_eq_iff status_def is_assumed_def sp split: option.splits)
  show "same_pools c c2" using same_trans(2)[OF T1(3) T2(3)] .
qed

lemma UpdateNode_move_step:
  assumes good: "cache_good L c" and ord: "covers ord c" and v: "view c pn n = Some ni" "ni_node ni = Some old" "node_Name node = n" "n \<noteq> []"
    and diff: "matchPoolForNode L ord (Some old) c \<noteq> matchPoolForNode L ord (Some node) c"
    and r: "UpdateNode L ord (Some old) node c = Some (c', None)"
  shows "cache_good L c'" "status c' = status c" "view c' pn n = None" "Option.bind (view c' (chosen (match_set L node c)) n) ni_node = Some node"
proof -
  have inv: "cache_inv c" and pl: "placed L c" using good by (simp_all add: cache_good_def)
  note I = cache_invD[OF inv]
  let ?qn = "chosen (match_set L node c)"
  have pn: "pn = chosen (match_set L old c)" using pl v by (simp add: placed_def)
  note mp = matchPoolForNode_chosen[OF I(1) ord, of L]
  have ne: "?qn \<noteq> pn" using diff pn by (simp add: mp)
  obtain a where a: "item_at c pn n = Some a" "ni = info_of (heap c) a" using v(1) by (auto simp: view_def)
  obtain x where x: "removeNodeImageStates (item_node a c) c = c\<lparr>cache_images := x\<rparr>" using removeNodeImageStates_eq by blast
  let ?c0 = "c\<lparr>cache_images := x\<rparr>"
  have ok0: "pools_ok ?c0" "item_at ?c0 pn n = Some a" "ni_node (info_of (heap ?c0) a) = Some old" using I(1) a v(2) by simp_all
  obtain c1 e where c1: "remove_info L (Some pn) a ?c0 = Some (c1, e)" "touched ?c0 pn n None c1"
    "info_of (heap c1) a = info_of (heap ?c0) a" "a < st_fresh (heap c1)" "\<And>q m. item_at c1 q m \<noteq> Some a"
    by (rule remove_info_detached[where L = L, OF ok0]) (rule that)
  have t1: "touched c pn n None c1" using c1(2) by simp
  note T1 = touchedD[OF t1]
  have cn: "contains_node (Some pn) n c = Some a" using contains_node_item[OF v(4)] a(1) by simp
  have none: "view c ?qn n = None" using I(2) v(1) ne unfolding one_pool_def by (metis option.distinct(1))
  have cn1: "contains_node (Some ?qn) n c1 = None"
    using none T1(5)[of ?qn n] ne by (simp add: contains_node_item[OF v(4)] view_def)
  note r' = r[unfolded UpdateNode_def mp[of old] mp[of node] pn[symmetric] Let_def]
  have e: "e = None"
    using r' ne c1(1) cn x v(3) by (cases e) (auto simp: move_updated_def)
  obtain q where "fmlookup (pools c) ?qn = Some q" using chosen_pool[OF I(1), of "match_set L node c" L node] by auto
  then obtain q1 where q1: "fmlookup (pools c1) ?qn = Some q1" using same_pools_None[OF T1(3), of ?qn] by (cases "fmlookup (pools c1) ?qn") auto
  let ?c2 = "add_info L (Some ?qn) a c1"
  have t2: "touched c1 ?qn n (Some ni) ?c2"
    using add_info_detached[OF T1(1) _ c1(4,5) q1, of old L] c1(3) a(2) v(2) pools_okD(7)[OF I(1) v(1,2)] by simp
  obtain b where b: "item_at ?c2 ?qn n = Some b" "info_of (heap ?c2) b = ni" using touchedD(4)[OF t2] by (auto simp: view_def)
  have ab: "b = a"
  proof -
    have "item_at ?c2 ?qn n = Some a"
      using AddNodeInfo_upd(1)[of "heap c1" a old L q1] c1(3) a(2) v(2) pools_okD(7)[OF I(1) v(1,2)] q1
      by (cases "AddNodeInfo L q1 a (heap c1)") (auto simp: add_info_def item_at_def)
    then show ?thesis using b(1) by simp
  qed
  obtain ni' g where s: "SetNode L ni node (st_globals (heap ?c2)) = (ni', g)" by fastforce
  note F = SetNode_facts[OF s]
  let ?c3 = "?c2\<lparr>heap := item_SetNode L a node (heap ?c2)\<rparr>"
  have eq3: "?c3 = ?c2\<lparr>heap := set_info a ni' (heap ?c2\<lparr>st_globals := g\<rparr>)\<rparr>"
    using b(2) s unfolding ab by (simp add: item_SetNode_def)
  have t3: "touched ?c2 ?qn n (Some ni') ?c3"
    unfolding eq3 by (rule set_info_touched[OF touchedD(1)[OF t2] b(1)[unfolded ab]]) (use F(2) v(3) in simp)
  have v3: "view ?c3 ?qn n \<noteq> None" using touchedD(4)[OF t3] by simp
  obtain c4 w where w: "update_images (Some ?qn) node ?c3 = Some c4" "touched ?c3 ?qn n w c4" "pods_of w = node_pods ?c3 ?qn n"
    "Option.bind w ni_node = Option.bind (view ?c3 ?qn n) ni_node"
    by (rule update_images_touched[OF touchedD(1)[OF t3] v3 v(3)]) (rule that)
  have mu: "move_updated L (Some pn) (Some ?qn) node c = Some (?c3, None)"
    using cn x c1(1) e cn1 v(3) by (simp add: move_updated_def Let_def)
  have c4: "c' = c4" using r' ne mu w(1) by auto
  obtain ni4 where ni4: "w = Some ni4" "ni_pods ni4 = ni_pods ni" "ni_node ni4 = Some node"
    using w(3,4) touchedD(4)[OF t3] F(1,2) by (cases w) (auto simp: node_pods_def)
  have tt: "touched c1 ?qn n (Some ni4) c4" using touched_trans[OF touched_trans[OF t2 t3] w(2)] ni4(1) by simp
  note K = two_touched_moved_keeps[OF inv t1 tt ne v(1) ni4(2)]
  have "placed L c4" unfolding placed_def
  proof (intro allI impI)
    fix q m nj nd assume h: "view c4 q m = Some nj" "ni_node nj = Some nd"
    show "q = chosen (match_set L nd c4)"
    proof (cases "m = n")
      case True
      then show ?thesis using h ni4(3) by (auto simp: K(4) match_set_same[OF K(3)] split: if_splits)
    next
      case False
      then show ?thesis using h pl by (auto simp: K(4) match_set_same[OF K(3)] placed_def)
    qed
  qed
  then show "cache_good L c'" "status c' = status c" "view c' pn n = None" "Option.bind (view c' ?qn n) ni_node = Some node"
    using K(1,2) K(4)[of pn n] K(4)[of ?qn n] ne ni4(3) unfolding c4 by (simp_all add: cache_good_def)
qed

end
