(* ===== verification/Cache_History.thy ===== *)
theory Cache_History
  imports Cache_Pools
begin

text \<open>
  Histories of the scheduler cache: the calls of the event handlers and of the scheduling loop as steps,
  each with the guard under which it is made, and what holds after every history.
\<close>

subsection \<open>Steps\<close>

text \<open>A history is orderly when its calls keep to the following, which the code does not check. Pods have a UID, pods
  that are assumed, added or updated have a node name, and an update keeps both. \<open>AddNode\<close> is called only while no pool other than the one that the
  node matches has an item of the node's name; so no pod of the node has come before the node, except to that pool. \<open>UpdateNode\<close> and \<open>RemoveNode\<close> get the
  node object that the cache holds, and \<open>UpdateNode\<close> does not fail. Pools other than the default one are added when no pool has their name, updated
  with the object that the cache holds, and removed while every item of the pool has its node object. Loops over maps visit every key once.
  What happens outside of these guards is in \<open>Cache_Properties\<close>: \<open>pod_before_node\<close> and \<open>RemovePool_loses_pods\<close>.\<close>

inductive cache_step :: "k8s \<Rightarrow> schedulerCache \<Rightarrow> schedulerCache \<Rightarrow> bool" for L where
  step_Assume: "covers ord c \<Longrightarrow> pod_NodeName pod \<noteq> [] \<Longrightarrow> pod_UID pod \<noteq> [] \<Longrightarrow> AssumePod L ord pod c = Some (c', e) \<Longrightarrow> cache_step L c c'"
| step_FinishBinding: "pod_UID pod \<noteq> [] \<Longrightarrow> finishBinding pod now c = (c', e) \<Longrightarrow> cache_step L c c'"
| step_Forget: "covers ord c \<Longrightarrow> pod_UID pod \<noteq> [] \<Longrightarrow> ForgetPod L ord pod c = Some (c', e) \<Longrightarrow> cache_step L c c'"
| step_AddPod: "covers ord c \<Longrightarrow> covers ord' c \<Longrightarrow> pod_NodeName pod \<noteq> [] \<Longrightarrow> pod_UID pod \<noteq> [] \<Longrightarrow>
    AddPod L ord ord' pod c = Some (c', e) \<Longrightarrow> cache_step L c c'"
| step_UpdatePod: "covers ord c \<Longrightarrow> covers ord' c \<Longrightarrow> pod_UID new \<noteq> [] \<Longrightarrow> pod_UID old = pod_UID new \<Longrightarrow> pod_NodeName new \<noteq> [] \<Longrightarrow>
    pod_NodeName old = pod_NodeName new \<Longrightarrow> UpdatePod L ord ord' old new c = Some (c', e) \<Longrightarrow> cache_step L c c'"
| step_RemovePod: "covers ord c \<Longrightarrow> pod_UID pod \<noteq> [] \<Longrightarrow> RemovePod L ord pod c = Some (c', e) \<Longrightarrow> cache_step L c c'"
| step_Cleanup: "\<forall>k. covers (ords k) c \<Longrightarrow> cleanupAssumedPods L kord ords now c = Some c' \<Longrightarrow> cache_step L c c'"
| step_AddNode: "covers ord c \<Longrightarrow> (\<forall>pn. view c pn (node_Name node) \<noteq> None \<longrightarrow> matchPoolForNode L ord (Some node) c = Some pn) \<Longrightarrow>
    AddNode L ord node c = Some c' \<Longrightarrow> cache_step L c c'"
| step_UpdateNode: "covers ord c \<Longrightarrow> node_Name node \<noteq> [] \<Longrightarrow> view c pn (node_Name node) = Some ni \<Longrightarrow> ni_node ni = Some old \<Longrightarrow>
    UpdateNode L ord (Some old) node c = Some (c', None) \<Longrightarrow> cache_step L c c'"
| step_RemoveNode: "covers ord c \<Longrightarrow> view c pn (node_Name node) = Some ni \<Longrightarrow> ni_node ni = Some node \<Longrightarrow>
    RemoveNode L ord node c = Some (c', e) \<Longrightarrow> cache_step L c c'"
| step_AddPool: "pool_Name pl \<noteq> DefaultPoolName \<Longrightarrow> fmlookup (pools c) (pool_Name pl) = None \<Longrightarrow> mo_ok mo (with_pool L pl c) \<Longrightarrow>
    AddPool L mo (Some pl) c = Some (c', e) \<Longrightarrow> cache_step L c c'"
| step_UpdatePool: "pool_Name pl \<noteq> DefaultPoolName \<Longrightarrow> fmlookup (pools c) (pool_Name pl) = Some p \<Longrightarrow> pi_pool p = Some old \<Longrightarrow>
    mo_ok mo c \<Longrightarrow> mo_ok mo' c \<Longrightarrow> UpdatePool L mo mo' (Some old) pl c = Some (c', e) \<Longrightarrow> cache_step L c c'"
| step_RemovePool: "pool_Name pl \<noteq> DefaultPoolName \<Longrightarrow> mo_ok mo c \<Longrightarrow> (\<forall>m ni. view c (pool_Name pl) m = Some ni \<longrightarrow> ni_node ni \<noteq> None) \<Longrightarrow>
    RemovePool L mo pl c = Some (c', e) \<Longrightarrow> cache_step L c c'"
| step_Snapshot: "cache_UpdateNodeInfoSnapshot bal pn c = Some (c', e) \<Longrightarrow> cache_step L c c'"

lemma goodD: "cache_good L c \<Longrightarrow> cache_inv c" "cache_good L c \<Longrightarrow> placed L c"
  by (simp_all add: cache_good_def)

lemma good_nodes: "cache_good L c \<Longrightarrow> cache_inv c' \<Longrightarrow> nodes_same c c' \<Longrightarrow> cache_good L c'"
  using placed_same by (simp add: cache_good_def)

lemma pod_steps_good:
  assumes good: "cache_good L c" and ord: "covers ord c" "covers ord' c" and u: "pod_UID pod \<noteq> []"
  shows "pod_NodeName pod \<noteq> [] \<Longrightarrow> AssumePod L ord pod c = Some (c', e) \<Longrightarrow> cache_good L c'"
    "ForgetPod L ord pod c = Some (c', e) \<Longrightarrow> cache_good L c'"
    "pod_NodeName pod \<noteq> [] \<Longrightarrow> AddPod L ord ord' pod c = Some (c', e) \<Longrightarrow> cache_good L c'"
    "pod_NodeName pod \<noteq> [] \<Longrightarrow> pod_UID old = pod_UID pod \<Longrightarrow> pod_NodeName old = pod_NodeName pod \<Longrightarrow>
       UpdatePod L ord ord' old pod c = Some (c', e) \<Longrightarrow> cache_good L c'"
    "RemovePod L ord pod c = Some (c', e) \<Longrightarrow> cache_good L c'"
proof -
  note inv = goodD(1)[OF good] and N = pod_ops_nodes[OF goodD(1)[OF good] ord]
  have fin: "cache_good L c'" if "nodes_same c c'" "r = Some (c', e)" "(\<exists>e'. r = Some (c, e')) \<or> (\<exists>c1 e1. r = Some (c1, e1) \<and> cache_inv c1)" for c' r and e :: "cache_error option"
    using good_nodes[OF good _ that(1)] that(2,3) inv by auto
  show "cache_good L c'" if a: "pod_NodeName pod \<noteq> []" "AssumePod L ord pod c = Some (c', e)"
    by (rule fin[OF N(1)[OF a] a(2)]) (use AssumePod_step[where L = L, OF inv ord(1) a(1) u] in blast)
  show "cache_good L c'" if a: "ForgetPod L ord pod c = Some (c', e)"
    by (rule fin[OF N(2)[OF u a] a]) (use ForgetPod_step[where L = L, OF inv ord(1) u] in blast)
  show "cache_good L c'" if a: "pod_NodeName pod \<noteq> []" "AddPod L ord ord' pod c = Some (c', e)"
    by (rule fin[OF N(3)[OF a] a(2)]) (use AddPod_step[where L = L, OF inv ord a(1) u] in blast)
  show "cache_good L c'" if a: "pod_NodeName pod \<noteq> []" "pod_UID old = pod_UID pod" "pod_NodeName old = pod_NodeName pod"
    and r: "UpdatePod L ord ord' old pod c = Some (c', e)"
    by (rule fin[OF N(4)[OF _ a(1) _ r] r]) (use a u UpdatePod_step[where L = L, OF inv ord u a(2,3)] r in auto)
  show "cache_good L c'" if a: "RemovePod L ord pod c = Some (c', e)"
    by (rule fin[OF N(5)[OF a] a]) (use RemovePod_step[where L = L, OF inv ord(1) u] a in fastforce)
qed

lemma placed_touched:
  assumes pl: "placed L c" and t: "touched c pn n w c'" and w: "\<And>nd. Option.bind w ni_node = Some nd \<Longrightarrow> pn = chosen (match_set L nd c)"
  shows "placed L c'"
  unfolding placed_def
proof (intro allI impI)
  fix q m ni nd assume v: "view c' q m = Some ni" "ni_node ni = Some nd"
  show "q = chosen (match_set L nd c')"
  proof (cases "q = pn \<and> m = n")
    case True
    then show ?thesis using v w[of nd] touchedD(4)[OF t] match_set_same[OF touchedD(3)[OF t]] by auto
  next
    case False
    then show ?thesis using v pl touchedD(5)[OF t False] match_set_same[OF touchedD(3)[OF t]] by (auto simp: placed_def)
  qed
qed

lemma node_steps_good:
  assumes good: "cache_good L c" and ord: "covers ord c"
  shows "(\<And>pn. view c pn (node_Name node) \<noteq> None \<Longrightarrow> matchPoolForNode L ord (Some node) c = Some pn) \<Longrightarrow> AddNode L ord node c = Some c' \<Longrightarrow>
      cache_good L c' \<and> status c' = status c"
    "view c pn (node_Name node) = Some ni \<Longrightarrow> ni_node ni = Some old \<Longrightarrow> node_Name node \<noteq> [] \<Longrightarrow> UpdateNode L ord (Some old) node c = Some (c', None) \<Longrightarrow>
      cache_good L c' \<and> status c' = status c"
    "view c pn (node_Name node) = Some ni \<Longrightarrow> ni_node ni = Some node \<Longrightarrow> RemoveNode L ord node c = Some (c', e) \<Longrightarrow>
      cache_good L c' \<and> status c' = status c \<and> e = None"
proof -
  note inv = goodD(1)[OF good] and pl = goodD(2)[OF good]
  note ch = matchPoolForNode_chosen[OF cache_invD(1)[OF inv] ord, of L]
  have only: "matchPoolForNode L ord (Some nd) c = Some qn"
    if "view c pn m = Some ni" "ni_node ni = Some nd" "view c qn m \<noteq> None" for pn qn m ni nd
  proof -
    have "qn = pn" using that(1,3) cache_invD(2)[OF inv] unfolding one_pool_def by (metis option.distinct(1))
    then show ?thesis using that(1,2) pl ch by (simp add: placed_def)
  qed
  show "cache_good L c' \<and> status c' = status c"
    if h: "\<And>pn. view c pn (node_Name node) \<noteq> None \<Longrightarrow> matchPoolForNode L ord (Some node) c = Some pn" and r: "AddNode L ord node c = Some c'"
  proof (rule AddNode_step[OF inv h])
    fix c2 pn w
    assume a: "AddNode L ord node c = Some c2" "cache_inv c2" "status c2 = status c" "same_pools c c2"
      "matchPoolForNode L ord (Some node) c = Some pn" "touched c pn (node_Name node) w c2" "Option.bind w ni_node = Some node"
    have "placed L c2" by (rule placed_touched[OF pl a(6)]) (use a(5,7) ch in auto)
    then show "cache_good L c' \<and> status c' = status c" using a(1,2,3) r by (simp add: cache_good_def)
  qed
  show "cache_good L c' \<and> status c' = status c \<and> e = None"
    if h: "view c pn (node_Name node) = Some ni" "ni_node ni = Some node" and r: "RemoveNode L ord node c = Some (c', e)"
  proof (rule RemoveNode_step[OF inv only[OF h]])
    fix c2 e2 qn w
    assume a: "RemoveNode L ord node c = Some (c2, e2)" "cache_inv c2" "status c2 = status c" "same_pools c c2"
      "e2 = None \<longleftrightarrow> (\<exists>qn. view c qn (node_Name node) \<noteq> None)" "matchPoolForNode L ord (Some node) c = Some qn"
      "touched c qn (node_Name node) w c2" "Option.bind w ni_node = None"
    have "placed L c2" by (rule placed_touched[OF pl a(7)]) (use a(8) in auto)
    then show "cache_good L c' \<and> status c' = status c \<and> e = None" using a(1,2,3,5) r h(1) by (auto simp: cache_good_def)
  qed
  show "cache_good L c' \<and> status c' = status c"
    if h: "view c pn (node_Name node) = Some ni" "ni_node ni = Some old" "node_Name node \<noteq> []" and r: "UpdateNode L ord (Some old) node c = Some (c', None)"
  proof (cases "matchPoolForNode L ord (Some old) c = matchPoolForNode L ord (Some node) c")
    case True
    show ?thesis
    proof (rule UpdateNode_step[OF inv True])
      show "matchPoolForNode L ord (Some node) c = Some qn" if "view c qn (node_Name node) \<noteq> None" for qn
        using only[OF h(1,2) that] True by simp
      fix c2 qn w
      assume a: "UpdateNode L ord (Some old) node c = Some (c2, None)" "cache_inv c2" "status c2 = status c" "same_pools c c2"
        "matchPoolForNode L ord (Some node) c = Some qn" "touched c qn (node_Name node) w c2" "Option.bind w ni_node = Some node"
      have "placed L c2" by (rule placed_touched[OF pl a(6)]) (use a(5,7) ch in auto)
      then show "cache_good L c' \<and> status c' = status c" using a(1,2,3) r by (simp add: cache_good_def)
    qed
  next
    case False
    from UpdateNode_move_step[OF good ord h(1,2) refl h(3) False r] show ?thesis by blast
  qed
qed

lemma cache_step_good: "cache_step L c c' \<Longrightarrow> cache_good L c \<Longrightarrow> cache_good L c'"
proof (induction rule: cache_step.induct)
  case (step_FinishBinding pod now c c' e)
  from finishBinding_step[OF goodD(1)[OF step_FinishBinding.prems] step_FinishBinding.hyps(1), of now] step_FinishBinding.hyps(2)
  have "cache_inv c'" by auto
  moreover have "nodes_same c c'"
    using step_FinishBinding.hyps(2) by (auto simp: finishBinding_def split: option.splits if_splits)
  ultimately show ?case using good_nodes[OF step_FinishBinding.prems] by blast
next
  case (step_Cleanup ords c kord now c')
  note inv = goodD(1)[OF step_Cleanup.prems]
  from cleanup_step[OF inv step_Cleanup.hyps(1), of L kord now] step_Cleanup.hyps(2) have "cache_inv c'" by auto
  then show ?case using good_nodes[OF step_Cleanup.prems] cleanup_nodes[OF inv step_Cleanup.hyps] by blast
next
  case (step_Snapshot bal pn c c' e)
  note S = cache_snapshot_step[OF goodD(1)[OF step_Snapshot.prems] step_Snapshot.hyps]
  have "nodes_same c c'" using S(3,4) by (simp add: nodes_same_def)
  then show ?case using good_nodes[OF step_Snapshot.prems S(1)] by blast
next
  case (step_AddPool pl c mo c' e)
  from AddPool_step[OF step_AddPool.prems step_AddPool.hyps(1-3)] step_AddPool.hyps(4) show ?case by auto
next
  case (step_UpdatePool pl c p old mo mo' c' e)
  from UpdatePool_step[OF step_UpdatePool.prems step_UpdatePool.hyps(1-5)] step_UpdatePool.hyps(6) show ?case by auto
next
  case (step_RemovePool pl mo c c' e)
  from RemovePool_step[OF step_RemovePool.prems step_RemovePool.hyps(1,2)] step_RemovePool.hyps(3,4) show ?case by auto
next
  case (step_Assume ord c pod c' e)
  from pod_steps_good(1)[OF step_Assume.prems step_Assume.hyps(1,1,3,2,4)] show ?case .
next
  case (step_Forget ord c pod c' e)
  from pod_steps_good(2)[OF step_Forget.prems step_Forget.hyps(1,1,2,3)] show ?case .
next
  case (step_AddPod ord c ord' pod c' e)
  from pod_steps_good(3)[OF step_AddPod.prems step_AddPod.hyps(1,2,4,3,5)] show ?case .
next
  case (step_UpdatePod ord c ord' new old c' e)
  from pod_steps_good(4)[OF step_UpdatePod.prems step_UpdatePod.hyps(1,2,3,5,4,6,7)] show ?case .
next
  case (step_RemovePod ord c pod c' e)
  from pod_steps_good(5)[OF step_RemovePod.prems step_RemovePod.hyps(1,1,2,3)] show ?case .
next
  case (step_AddNode ord c node c')
  have "matchPoolForNode L ord (Some node) c = Some pn" if "view c pn (node_Name node) \<noteq> None" for pn
    using step_AddNode.hyps(2) that by blast
  from node_steps_good(1)[OF step_AddNode.prems step_AddNode.hyps(1) this step_AddNode.hyps(3)] show ?case by blast
next
  case (step_UpdateNode ord c node pn ni old c')
  from node_steps_good(2)[OF step_UpdateNode.prems step_UpdateNode.hyps(1,3,4,2,5)] show ?case by blast
next
  case (step_RemoveNode ord c pn node ni c' e)
  from node_steps_good(3)[OF step_RemoveNode.prems step_RemoveNode.hyps(1,2,3,4)] show ?case by blast
qed

lemma new_cache_good: "cache_good L (newSchedulerCache L t per st)"
proof -
  let ?c = "newSchedulerCache L t per st"
  have i: "item_at ?c pn n = None" for pn n by (simp add: item_at_def newSchedulerCache_def NewPoolInfo_def)
  have v: "view ?c pn n = None" for pn n by (simp add: view_def i)
  have "pools_ok ?c"
    unfolding pools_ok_def i v using tree_inv_new
    by (auto simp: newSchedulerCache_def NewPoolInfo_def PoolInfo_Name_def DefaultPoolName_def newNodeTree_def)
  moreover have "one_pool ?c" by (simp add: one_pool_def v)
  moreover have "assumed_ok ?c" by (simp add: assumed_ok_def newSchedulerCache_def)
  moreover have "pods_ok (node_pods ?c) (fmlookup (podStates ?c))"
    unfolding pods_ok_def node_pods_def v by (simp add: newSchedulerCache_def)
  moreover have "placed L ?c" by (simp add: placed_def v)
  ultimately show ?thesis by (simp add: cache_good_def cache_inv_def)
qed

lemma cache_history_good: "(cache_step L)\<^sup>*\<^sup>* (newSchedulerCache L t per st) c \<Longrightarrow> cache_good L c"
  by (induction rule: rtranclp_induct) (auto intro: new_cache_good cache_step_good)

subsection \<open>Examples\<close>

definition example_pod :: Pod where
  "example_pod = zero_Pod\<lparr>pod_UID := ''u1'', pod_Name := ''p1'', pod_NodeName := ''n1''\<rparr>"

definition example_cache :: schedulerCache where
  "example_cache = newSchedulerCache example_k8s 30 1 example_store"

lemma example_pod_facts: "pod_UID example_pod = ''u1''" "pod_NodeName example_pod = ''n1''" "pod_NodeName example_pod \<noteq> []" "pod_UID example_pod \<noteq> []"
  by (simp_all add: example_pod_def)

lemma example_cache_facts: "cache_good L (newSchedulerCache L t per st)" "covers [DefaultPoolName] example_cache" "status example_cache k = Initial"
  by (rule new_cache_good) (simp_all add: covers_def example_cache_def newSchedulerCache_def status_def)

lemma example_assumed:
  obtains c where "(cache_step example_k8s)\<^sup>*\<^sup>* example_cache c" "AssumePod example_k8s [DefaultPoolName] example_pod example_cache = Some (c, None)"
    "status c ''u1'' = Assumed ''n1'' None" "covers [DefaultPoolName] c"
proof -
  have inv: "cache_inv example_cache" unfolding example_cache_def by (rule goodD(1)[OF new_cache_good])
  obtain c where c: "AssumePod example_k8s [DefaultPoolName] example_pod example_cache = Some (c, None)" "same_pools example_cache c"
    "status c = (status example_cache)(''u1'' := Assumed ''n1'' None)"
    using AssumePod_step(1)[where L = example_k8s, OF inv example_cache_facts(2) example_pod_facts(3,4) example_cache_facts(3)]
    by (auto simp: example_pod_facts(1,2))
  show thesis
    by (rule that[OF r_into_rtranclp c(1)])
      (use c example_pod_facts example_cache_facts(2) covers_same[OF c(2)] step_Assume in \<open>force, auto\<close>)
qed

lemma node_pods_view: "q \<in> set (node_pods c pn n) \<Longrightarrow> view c pn n \<noteq> None"
  by (cases "view c pn n") (auto simp: node_pods_def)

subsection \<open>Properties\<close>

text \<open>A pod that has a state is counted once, in one pool, on the node of its state.\<close>

lemma pod_counted_once:
  assumes inv: "cache_inv c" and s: "fmlookup (podStates c) k = Some ps"
  shows "\<exists>pn. \<forall>qn m. count (mset (map pod_UID (node_pods c qn m))) k = (if qn = pn \<and> m = pod_NodeName (ps_pod ps) then 1 else 0)"
proof -
  note I = cache_invD[OF inv] and P = pods_okD[OF cache_invD(4)[OF inv]]
  let ?n = "pod_NodeName (ps_pod ps)"
  obtain pn where pn: "k \<in> pod_UID ` set (node_pods c pn ?n)" using P(7)[OF s] by blast
  then have v: "view c pn ?n \<noteq> None" using node_pods_view by blast
  have "count (mset (map pod_UID (node_pods c qn m))) k = (if qn = pn \<and> m = ?n then 1 else 0)" for qn m
  proof (cases "k \<in> pod_UID ` set (node_pods c qn m)")
    case True
    then obtain q where q: "q \<in> set (node_pods c qn m)" "pod_UID q = k" by auto
    then have m: "m = ?n" using P(2)[OF q(1)] s by auto
    have "view c qn m \<noteq> None" using node_pods_view[OF q(1)] .
    then have "qn = pn" using I(2) v m unfolding one_pool_def by blast
    then show ?thesis using True m P(3)[of qn m] by (simp add: distinct_count_atmost_1)
  next
    case False
    then show ?thesis using pn by (auto simp: count_eq_zero_iff)
  qed
  then show ?thesis by blast
qed

text \<open>
  C7. No pod is counted twice and none is forgotten. After every orderly history of calls on a new cache, a pod
  that has a state is on exactly one node of exactly one pool, the node of its state, and there once; a
  pod without a state is on no node. Every node is in at most one pool. The history is orderly: calls in any order, where pods have a UID and a node name and an update keeps both;
  \<open>AddNode\<close> is called only while no pool but the one that the node matches has an item of its name; \<open>UpdateNode\<close> and \<open>RemoveNode\<close> get the object that the cache
  holds, and \<open>UpdateNode\<close> does not fail; a pool is not the default one, is added once, updated with the object that the cache holds and removed
  while each of its items has its node object.
  It does not hold without these guards: when a pod is added before its node, the node may stand in two pools (\<open>pod_before_node\<close>), and when a pool is removed
  that has an item without node object, the pods of the item are on no node (\<open>RemovePool_loses_pods\<close>).
\<close>

theorem cache_accounting:
  assumes "(cache_step L)\<^sup>*\<^sup>* (newSchedulerCache L t per st) c"
  shows "(\<forall>k ps. fmlookup (podStates c) k = Some ps \<longrightarrow> (\<exists>pn. \<forall>qn m.
      count (mset (map pod_UID (node_pods c qn m))) k = (if qn = pn \<and> m = pod_NodeName (ps_pod ps) then 1 else 0))) \<and>
    (\<forall>k qn m. fmlookup (podStates c) k = None \<longrightarrow> k \<notin> pod_UID ` set (node_pods c qn m)) \<and>
    (\<forall>pn qn m. view c pn m \<noteq> None \<longrightarrow> view c qn m \<noteq> None \<longrightarrow> qn = pn)"
proof -
  have inv: "cache_inv c" using cache_history_good[OF assms] by (rule goodD)
  have "k \<notin> pod_UID ` set (node_pods c qn m)" if "fmlookup (podStates c) k = None" for k qn m
    using pods_okD(2)[OF cache_invD(4)[OF inv], of _ qn m] that by force
  then show ?thesis using pod_counted_once[OF inv] cache_invD(2)[OF inv] unfolding one_pool_def by blast
qed

theorem cache_accounting_witness:
  "\<exists>c pn. AssumePod example_k8s [DefaultPoolName] example_pod example_cache = Some (c, None) \<and>
     count (mset (map pod_UID (node_pods c pn ''n1''))) ''u1'' = 1"
proof -
  obtain c where c: "(cache_step example_k8s)\<^sup>*\<^sup>* example_cache c" "AssumePod example_k8s [DefaultPoolName] example_pod example_cache = Some (c, None)"
    "status c ''u1'' = Assumed ''n1'' None" "covers [DefaultPoolName] c" by (rule example_assumed)
  obtain ps where "fmlookup (podStates c) ''u1'' = Some ps" "pod_NodeName (ps_pod ps) = ''n1''" using c(3) by (auto simp: status_simps)
  then show ?thesis using cache_accounting[OF c(1)[unfolded example_cache_def]] c(2) by fastforce
qed

text \<open>
  C8. The state machine of a pod, as drawn in \<open>internal/cache/interface.go\<close>, for calls with a pod that has a UID and a node name. In every cache that an orderly history of calls
  leads to from a new cache, \<open>AssumePod\<close> succeeds exactly for a pod that is not in the cache and makes it assumed; \<open>FinishBinding\<close> gives
  an assumed pod its deadline; \<open>ForgetPod\<close> succeeds exactly for a pod assumed on that node and takes it out;
  \<open>AddPod\<close> succeeds exactly for a pod that is not yet added and makes it added on the node it came with.
  A call that fails leaves all states as they are, and no call changes the state of another pod. The history is orderly: calls in any order, where pods have a UID and a node name and an update keeps both;
  \<open>AddNode\<close> is called only while no pool but the one that the node matches has an item of its name; \<open>UpdateNode\<close> and \<open>RemoveNode\<close> get the object that the cache
  holds, and \<open>UpdateNode\<close> does not fail; a pool is not the default one, is added once, updated with the object that the cache holds and removed
  while each of its items has its node object.
  Each loop over the pools visits every pool once.
\<close>

theorem pod_state_machine:
  assumes h: "(cache_step L)\<^sup>*\<^sup>* (newSchedulerCache L t per st) c" and ord: "covers ord c" "covers ord' c"
    and n: "pod_UID pod \<noteq> []" "pod_NodeName pod \<noteq> []"
  shows "(\<exists>c' e. AssumePod L ord pod c = Some (c', e) \<and> (e = None \<longleftrightarrow> status c (pod_UID pod) = Initial) \<and>
      status c' = (if e = None then (status c)(pod_UID pod := Assumed (pod_NodeName pod) None) else status c)) \<and>
    (\<exists>c'. finishBinding pod now c = (c', None) \<and> status c' = (case status c (pod_UID pod) of
       Assumed m dl \<Rightarrow> (status c)(pod_UID pod := Assumed m (Some (time_Add now (ttl c)))) | _ \<Rightarrow> status c)) \<and>
    (\<exists>c' e. ForgetPod L ord pod c = Some (c', e) \<and> (e = None \<longleftrightarrow> (\<exists>dl. status c (pod_UID pod) = Assumed (pod_NodeName pod) dl)) \<and>
      status c' = (if e = None then (status c)(pod_UID pod := Initial) else status c)) \<and>
    (\<exists>c' e. AddPod L ord ord' pod c = Some (c', e) \<and> (e = None \<longleftrightarrow> \<not> (\<exists>m. status c (pod_UID pod) = Added m)) \<and>
      status c' = (if e = None then (status c)(pod_UID pod := Added (pod_NodeName pod)) else status c))"
proof (intro conjI)
  note inv = goodD(1)[OF cache_history_good[OF h]]
  show "\<exists>c' e. AssumePod L ord pod c = Some (c', e) \<and> (e = None \<longleftrightarrow> status c (pod_UID pod) = Initial) \<and>
      status c' = (if e = None then (status c)(pod_UID pod := Assumed (pod_NodeName pod) None) else status c)"
    using AssumePod_step[where L = L, OF inv ord(1) n(2,1)] by (cases "status c (pod_UID pod) = Initial") fastforce+
  show "\<exists>c'. finishBinding pod now c = (c', None) \<and> status c' = (case status c (pod_UID pod) of
       Assumed m dl \<Rightarrow> (status c)(pod_UID pod := Assumed m (Some (time_Add now (ttl c)))) | _ \<Rightarrow> status c)"
    using finishBinding_step[OF inv n(1)] by blast
  show "\<exists>c' e. ForgetPod L ord pod c = Some (c', e) \<and> (e = None \<longleftrightarrow> (\<exists>dl. status c (pod_UID pod) = Assumed (pod_NodeName pod) dl)) \<and>
      status c' = (if e = None then (status c)(pod_UID pod := Initial) else status c)"
  proof (cases "\<exists>dl. status c (pod_UID pod) = Assumed (pod_NodeName pod) dl")
    case True
    then show ?thesis using ForgetPod_step(1)[where L = L, OF inv ord(1) n(1)] by fastforce
  next
    case False
    then show ?thesis using ForgetPod_step(2)[where L = L, OF inv ord(1) n(1)] by fastforce
  qed
  show "\<exists>c' e. AddPod L ord ord' pod c = Some (c', e) \<and> (e = None \<longleftrightarrow> \<not> (\<exists>m. status c (pod_UID pod) = Added m)) \<and>
      status c' = (if e = None then (status c)(pod_UID pod := Added (pod_NodeName pod)) else status c)"
    using AddPod_step[where L = L, OF inv ord n(2,1)] by (cases "\<exists>m. status c (pod_UID pod) = Added m") fastforce+
qed

theorem pod_state_machine_witness:
  "\<exists>c c1 c2 c3. AssumePod example_k8s [DefaultPoolName] example_pod example_cache = Some (c, None) \<and>
     finishBinding example_pod 0 c = (c1, None) \<and> status c1 ''u1'' = Assumed ''n1'' (Some (time_Add 0 (ttl c))) \<and>
     ForgetPod example_k8s [DefaultPoolName] example_pod c = Some (c2, None) \<and> status c2 ''u1'' = Initial \<and>
     AddPod example_k8s [DefaultPoolName] [DefaultPoolName] example_pod c = Some (c3, None) \<and> status c3 ''u1'' = Added ''n1''"
proof -
  obtain c where c: "(cache_step example_k8s)\<^sup>*\<^sup>* example_cache c" "AssumePod example_k8s [DefaultPoolName] example_pod example_cache = Some (c, None)"
    "status c ''u1'' = Assumed ''n1'' None" "covers [DefaultPoolName] c" by (rule example_assumed)
  note T = pod_state_machine[OF c(1)[unfolded example_cache_def] c(4,4) example_pod_facts(4,3), unfolded example_pod_facts(1,2) c(3)]
  show ?thesis using c(2) T[where now = 0] by fastforce
qed

text \<open>
  C9. Pods that are confirmed. In every cache that an orderly history of calls leads to from a new cache, for an event with a pod that has a UID, where
  the old and the new object of an update have the same UID and the same node: \<open>RemovePod\<close> takes out a pod that is added on the
  node of the event, and \<open>UpdatePod\<close> replaces its object; both report an error, and change nothing, for a
  pod that is not added. They stop the process (\<open>klog.Fatalf\<close>) exactly when the pod is added on another
  node than the one of the event. The history is orderly: calls in any order, where pods have a UID and a node name and an update keeps both;
  \<open>AddNode\<close> is called only while no pool but the one that the node matches has an item of its name; \<open>UpdateNode\<close> and \<open>RemoveNode\<close> get the object that the cache
  holds, and \<open>UpdateNode\<close> does not fail; a pool is not the default one, is added once, updated with the object that the cache holds and removed
  while each of its items has its node object.
  In other histories a node may stand in two pools, and then \<open>RemovePod\<close> may fail for a pod that is added (\<open>pod_before_node\<close>).
\<close>

theorem confirmed_pods:
  assumes h: "(cache_step L)\<^sup>*\<^sup>* (newSchedulerCache L t per st) c" and ord: "covers ord c" "covers ord' c"
    and n: "pod_UID pod \<noteq> []" "pod_UID old = pod_UID pod" "pod_NodeName old = pod_NodeName pod"
  shows "(RemovePod L ord pod c = None \<longleftrightarrow> (\<exists>m. status c (pod_UID pod) = Added m \<and> m \<noteq> pod_NodeName pod)) \<and>
    (UpdatePod L ord ord' old pod c = None \<longleftrightarrow> (\<exists>m. status c (pod_UID pod) = Added m \<and> m \<noteq> pod_NodeName pod)) \<and>
    (status c (pod_UID pod) = Added (pod_NodeName pod) \<longrightarrow>
       (\<exists>c'. RemovePod L ord pod c = Some (c', None) \<and> status c' = (status c)(pod_UID pod := Initial)) \<and>
       (\<exists>c'. UpdatePod L ord ord' old pod c = Some (c', None) \<and> status c' = status c \<and> GetPod pod c' = Inr pod)) \<and>
    ((\<nexists>m. status c (pod_UID pod) = Added m) \<longrightarrow>
       RemovePod L ord pod c = Some (c, Some (NotFoundForRemove (pod_UID pod))) \<and>
       UpdatePod L ord ord' old pod c = Some (c, Some (NotAddedForUpdate (pod_UID pod))))"
proof -
  note inv = goodD(1)[OF cache_history_good[OF h]]
  note R = RemovePod_step[where L = L, OF inv ord(1) n(1)] and U = UpdatePod_step[where L = L, OF inv ord n]
  have fatal: "RemovePod L ord pod c = None \<longleftrightarrow> (\<exists>m. status c (pod_UID pod) = Added m \<and> m \<noteq> pod_NodeName pod)"
    "UpdatePod L ord ord' old pod c = None \<longleftrightarrow> (\<exists>m. status c (pod_UID pod) = Added m \<and> m \<noteq> pod_NodeName pod)"
    using R U by (metis option.distinct(1))+
  show ?thesis using fatal R(1,3) U(1,3) by blast
qed

theorem confirmed_pods_witness:
  "\<exists>c c1 c2 c3. AssumePod example_k8s [DefaultPoolName] example_pod example_cache = Some (c, None) \<and>
     RemovePod example_k8s [DefaultPoolName] example_pod c = Some (c, Some (NotFoundForRemove ''u1'')) \<and>
     AddPod example_k8s [DefaultPoolName] [DefaultPoolName] example_pod c = Some (c1, None) \<and>
     UpdatePod example_k8s [DefaultPoolName] [DefaultPoolName] example_pod example_pod c1 = Some (c2, None) \<and>
     RemovePod example_k8s [DefaultPoolName] example_pod c1 = Some (c3, None) \<and> status c3 ''u1'' = Initial \<and>
     RemovePod example_k8s [DefaultPoolName] (example_pod\<lparr>pod_NodeName := ''n2''\<rparr>) c1 = None"
proof -
  let ?o = "[DefaultPoolName]" and ?other = "example_pod\<lparr>pod_NodeName := ''n2''\<rparr>"
  obtain c where c: "(cache_step example_k8s)\<^sup>*\<^sup>* example_cache c" "AssumePod example_k8s ?o example_pod example_cache = Some (c, None)"
    "status c ''u1'' = Assumed ''n1'' None" "covers ?o c" by (rule example_assumed)
  have inv: "cache_inv c" using goodD(1)[OF cache_history_good] c(1) by (auto simp: example_cache_def)
  obtain c1 where c1: "AddPod example_k8s ?o ?o example_pod c = Some (c1, None)" "same_pools c c1" "status c1 ''u1'' = Added ''n1''"
    using AddPod_step(1)[where L = example_k8s, OF inv c(4,4) example_pod_facts(3,4)] by (auto simp: c(3) example_pod_facts)
  have h1: "(cache_step example_k8s)\<^sup>*\<^sup>* example_cache c1"
    using c(1) step_AddPod[OF c(4,4) example_pod_facts(3,4) c1(1)] by (rule rtranclp.rtrancl_into_rtrancl)
  have o1: "covers ?o c1" using covers_same[OF c1(2)] c(4) by simp
  note C = confirmed_pods[OF c(1)[unfolded example_cache_def] c(4,4) example_pod_facts(4) refl refl]
    and C1 = confirmed_pods[OF h1[unfolded example_cache_def] o1 o1 example_pod_facts(4) refl refl]
  obtain c2 where c2: "UpdatePod example_k8s ?o ?o example_pod example_pod c1 = Some (c2, None)" using C1 c1(3) by (auto simp: example_pod_facts)
  obtain c3 where c3: "RemovePod example_k8s ?o example_pod c1 = Some (c3, None)" "status c3 ''u1'' = Initial" using C1 c1(3) by (auto simp: example_pod_facts)
  have "pod_UID ?other \<noteq> []" using example_pod_facts(4) by simp
  from confirmed_pods[OF h1[unfolded example_cache_def] o1 o1 this refl refl] have "RemovePod example_k8s ?o ?other c1 = None"
    using c1(3) by (auto simp: example_pod_facts)
  moreover have "RemovePod example_k8s ?o example_pod c = Some (c, Some (NotFoundForRemove ''u1''))" using C c(3) by (simp add: example_pod_facts)
  ultimately show ?thesis using c(2) c1(1) c2 c3 by blast
qed

text \<open>
  C10. Expiration. In every cache that an orderly history of calls leads to from a new cache, \<open>cleanupAssumedPods\<close>, whose loop visits every assumed pod, does not panic, and it removes exactly the
  assumed pods whose binding is finished and whose deadline, the end of the binding plus the time to
  live, has passed. A pod whose binding still runs does not expire. The history is orderly: calls in any order, where pods have a UID and a node name and an update keeps both;
  \<open>AddNode\<close> is called only while no pool but the one that the node matches has an item of its name; \<open>UpdateNode\<close> and \<open>RemoveNode\<close> get the object that the cache
  holds, and \<open>UpdateNode\<close> does not fail; a pool is not the default one, is added once, updated with the object that the cache holds and removed
  while each of its items has its node object.
\<close>

theorem cleanup_expires:
  assumes h: "(cache_step L)\<^sup>*\<^sup>* (newSchedulerCache L t per st) c" and ords: "\<forall>k. covers (ords k) c"
    and keys: "fset (fmdom (assumedPods c)) \<subseteq> set kord"
  shows "\<exists>c'. cleanupAssumedPods L kord ords now c = Some c' \<and>
    status c' = (\<lambda>k. case status c k of Assumed n (Some dl) \<Rightarrow> if After now dl then Initial else status c k | _ \<Rightarrow> status c k)"
proof -
  note inv = goodD(1)[OF cache_history_good[OF h]]
  obtain c' where c': "cleanupAssumedPods L kord ords now c = Some c'"
    "status c' = (\<lambda>k. if k \<in> set kord \<and> expired now (status c k) then Initial else status c k)"
    using cleanup_step[OF inv ords, of L kord now] by blast
  have "k \<in> set kord" if "expired now (status c k)" for k
  proof -
    have "is_assumed k c" using that by (auto simp: expired_def status_def split: option.splits if_splits)
    then show ?thesis using keys by (auto simp: is_assumed_def)
  qed
  then have "status c' k = (case status c k of Assumed n (Some dl) \<Rightarrow> if After now dl then Initial else status c k | _ \<Rightarrow> status c k)" for k
    unfolding c'(2) by (auto simp: expired_def split: pod_status.splits option.splits)
  then show ?thesis using c'(1) by blast
qed

theorem cleanup_expires_witness:
  "\<exists>c c1 c2. AssumePod example_k8s [DefaultPoolName] example_pod example_cache = Some (c, None) \<and>
     finishBinding example_pod 0 c = (c1, None) \<and>
     cleanupAssumedPods example_k8s [''u1''] (\<lambda>_. [DefaultPoolName]) 31 c1 = Some c2 \<and> status c2 ''u1'' = Initial"
proof -
  obtain c where c: "(cache_step example_k8s)\<^sup>*\<^sup>* example_cache c" "AssumePod example_k8s [DefaultPoolName] example_pod example_cache = Some (c, None)"
    "status c ''u1'' = Assumed ''n1'' None" "covers [DefaultPoolName] c" by (rule example_assumed)
  have inv: "cache_inv c" using goodD(1)[OF cache_history_good] c(1) by (auto simp: example_cache_def)
  have a: "assumedPods c = fmupd ''u1'' True fmempty" "ttl c = 30"
  proof -
    obtain c0 where c0: "addPod example_k8s [DefaultPoolName] example_pod example_cache = Some c0"
      "c = c0\<lparr>podStates := fmupd ''u1'' \<lparr>ps_pod = example_pod, deadline = None, bindingFinished = False\<rparr> (podStates c0), assumedPods := fmupd ''u1'' True (assumedPods c0)\<rparr>"
      using c(2) by (auto simp: AssumePod_def GetPodKey_def example_pod_facts example_cache_def newSchedulerCache_def split: option.splits)
    have "assumedPods c0 = assumedPods example_cache" "ttl c0 = ttl example_cache"
      using c0(1) by (auto simp: addPod_def on_pool_def bind_eq_Some_conv)
    then show "assumedPods c = fmupd ''u1'' True fmempty" "ttl c = 30" using c0(2) by (simp_all add: example_cache_def newSchedulerCache_def)
  qed
  obtain c1 where c1: "finishBinding example_pod 0 c = (c1, None)" "same_pools c c1" "status c1 = (status c)(''u1'' := Assumed ''n1'' (Some 30))"
    using finishBinding_step[OF inv example_pod_facts(4), of 0] c(3) a(2) by (auto simp: example_pod_facts time_Add_def)
  have "(cache_step example_k8s)\<^sup>*\<^sup>* example_cache c1"
    using c(1) step_FinishBinding[OF example_pod_facts(4) c1(1)] by (rule rtranclp.rtrancl_into_rtrancl)
  moreover have "\<forall>k. covers ((\<lambda>_. [DefaultPoolName]) (k :: string)) c1" using c(4) covers_same[OF c1(2)] by simp
  moreover have "fset (fmdom (assumedPods c1)) \<subseteq> set [''u1'']"
    using c1(1) a(1) by (auto simp: finishBinding_def split: option.splits if_splits)
  ultimately obtain c2 where "cleanupAssumedPods example_k8s [''u1''] (\<lambda>_. [DefaultPoolName]) 31 c1 = Some c2"
    "status c2 = (\<lambda>k. case status c1 k of Assumed n (Some dl) \<Rightarrow> if After 31 dl then Initial else status c1 k | _ \<Rightarrow> status c1 k)"
    using cleanup_expires[of example_k8s 30 1 example_store c1 "\<lambda>_. [DefaultPoolName]" "[''u1'']" 31] unfolding example_cache_def by blast
  moreover have "status c2 ''u1'' = Initial" using calculation(2) c1(3) by (simp add: After_def)
  ultimately show ?thesis using c(2) c1(1) by blast
qed

end
