(* ===== verification/Cache_Properties.thy ===== *)
theory Cache_Properties
  imports Cache_History
begin

text \<open>
  What the histories of the cache show of its pools, its images and of borrowing: nodes stand in the pool
  that their labels select, removing a pool hands its nodes over, the image states are counted exactly,
  and a pod borrows only a pool that its own pool may borrow. Two orders of events are shown in which
  pods are left behind.
\<close>

subsection \<open>An example with a pool\<close>

definition example_group :: Pool where
  "example_group = \<lparr>pool_Name = ''g'', pool_Spec = zero_PoolSpec\<lparr>NodeSelector := Some \<lparr>MatchLabels = [], MatchExpressions = []\<rparr>\<rparr>\<rparr>"

definition example_orders :: move_orders where
  "example_orders = \<lparr>mo_pools = [''g'', DefaultPoolName], mo_default = [''n1''], mo_nodes = (\<lambda>_. [''n1''])\<rparr>"

lemma view_new: "view (newSchedulerCache L t per st) pn n = None"
  by (simp add: view_def item_at_def newSchedulerCache_def NewPoolInfo_def)

lemma foldM_stays: "(\<And>x. f x s = Some s) \<Longrightarrow> foldM f xs s = Some s"
  by (induction xs) simp_all

text \<open>The new cache with one pool added.\<close>

lemma example_with_pool:
  fixes pl defines "c \<equiv> with_pool example_k8s pl example_cache"
  assumes pl: "pool_Name pl = ''g''"
  shows "AddPool example_k8s example_orders (Some pl) example_cache = Some (c, None)" "cache_step example_k8s example_cache c"
    "covers [''g'', DefaultPoolName] c" "covers [DefaultPoolName, ''g''] c" "status c = status example_cache" "view c pn n = None"
proof -
  have n: "pool_Name pl \<noteq> DefaultPoolName" "fmlookup (pools example_cache) (pool_Name pl) = None"
    by (simp_all add: pl DefaultPoolName_def example_cache_def newSchedulerCache_def)
  show v: "view c pn n = None" for pn n
    by (simp add: view_def item_at_def c_def with_pool_def example_cache_def newSchedulerCache_def SetPool_def NewPoolInfo_def pl)
  show cov: "covers [''g'', DefaultPoolName] c" "covers [DefaultPoolName, ''g''] c"
    by (auto simp: covers_def c_def with_pool_def example_cache_def newSchedulerCache_def pl DefaultPoolName_def)
  have mo: "mo_ok example_orders c" using cov(1) by (simp add: mo_ok_def v example_orders_def)
  have fr: "for_nodes pn body nord c = Some c" for pn body nord
  proof -
    have "Option.bind (Option.bind pn (fmlookup (pools c))) (\<lambda>p. fmlookup (pi_nodes p) name) = None" for name
      by (auto simp: bind_eq_None_conv c_def with_pool_def example_cache_def newSchedulerCache_def SetPool_def NewPoolInfo_def split: if_splits)
    then show ?thesis by (auto simp: for_nodes_def intro: foldM_stays)
  qed
  have "move_to example_k8s example_orders pn c = Some c" for pn
    unfolding move_to_def moveAllNodeInfosFromMatchedPoolsTo_def Let_def fr bind.bind_lunit
    by (rule foldM_stays) (auto simp: fr split: option.splits)
  then show r: "AddPool example_k8s example_orders (Some pl) example_cache = Some (c, None)"
    using n set_pool_eq(2)[OF n(2), of example_k8s] by (simp add: AddPool_def c_def)
  show "cache_step example_k8s example_cache c" by (rule step_AddPool[OF n _ r]) (use mo in \<open>simp add: c_def\<close>)
  show "status c = status example_cache" by (auto simp: status_def fun_eq_iff c_def with_pool_def is_assumed_def split: option.splits)
qed

lemma example_grouped:
  obtains c where "(cache_step example_k8s)\<^sup>*\<^sup>* example_cache c" "AddPool example_k8s example_orders (Some example_group) example_cache = Some (c, None)"
    "covers [''g'', DefaultPoolName] c" "covers [DefaultPoolName, ''g''] c" "\<And>nd. matchPoolForNode example_k8s [''g'', DefaultPoolName] (Some nd) c = Some ''g''"
    "status c = status example_cache" "\<And>pn n. view c pn n = None"
proof -
  let ?c = "with_pool example_k8s example_group example_cache"
  have g: "pool_Name example_group = ''g''" by (simp add: example_group_def)
  have "matchPoolForNode example_k8s [''g'', DefaultPoolName] (Some nd) ?c = Some ''g''" for nd
    by (simp add: matchPoolForNode_def matching_pools_def with_pool_def example_cache_def newSchedulerCache_def example_group_def MatchNode_def
        IsDefaultPool_def PoolInfo_Name_def SetPool_def NewPoolInfo_def DefaultPoolName_def example_k8s_def)
  then show thesis using that[OF r_into_rtranclp] example_with_pool[OF g] by blast
qed

subsection \<open>Nodes and pools\<close>

lemma nodes_in_their_pool:
  assumes good: "cache_good L c" and ord: "covers ord c" and v: "view c pn n = Some ni" "ni_node ni = Some nd"
  shows "matchPoolForNode L ord (Some nd) c = Some pn" "node_Name nd = n"
proof -
  note ok = cache_invD(1)[OF goodD(1)[OF good]]
  have "pn = chosen (match_set L nd c)" using goodD(2)[OF good] v by (simp add: placed_def)
  then show "matchPoolForNode L ord (Some nd) c = Some pn" using matchPoolForNode_chosen[OF ok ord] by simp
  show "node_Name nd = n" using ok v by (auto simp: pools_ok_def)
qed

text \<open>A pod that is added is on its node, which some pool has.\<close>

lemma added_viewed:
  assumes "cache_inv c" "status c k = Added n" shows "\<exists>pn. view c pn n \<noteq> None"
proof -
  obtain ps where ps: "fmlookup (podStates c) k = Some ps" "pod_NodeName (ps_pod ps) = n" using assms(2) by (auto simp: status_simps)
  obtain pn q where "q \<in> set (node_pods c pn n)" using pods_okD(7)[OF cache_invD(4)[OF assms(1)] ps(1)] ps(2) by auto
  then show ?thesis using node_pods_view by blast
qed

text \<open>
  C11. Nodes stand where their labels say. After every orderly history of calls on a new cache, a node whose object the
  cache holds is in the pool that \<open>matchPoolForNode\<close> gives for it, in whatever order that function visits
  the pools: the only pool whose selector matches, or the default pool when none or several match. The history is orderly: calls in any order, where pods have a UID and a node name and an update keeps both;
  \<open>AddNode\<close> is called only while no pool but the one that the node matches has an item of its name; \<open>UpdateNode\<close> and \<open>RemoveNode\<close> get the object that the cache
  holds, and \<open>UpdateNode\<close> does not fail; a pool is not the default one, is added once, updated with the object that the cache holds and removed
  while each of its items has its node object.
  In other histories a node may have a second item, without its object, in the default pool (\<open>pod_before_node\<close>).
\<close>

theorem nodes_in_their_pools:
  assumes "(cache_step L)\<^sup>*\<^sup>* (newSchedulerCache L t per st) c" and "covers ord c"
    and "view c pn n = Some ni" and "ni_node ni = Some nd"
  shows "matchPoolForNode L ord (Some nd) c = Some pn \<and> node_Name nd = n"
  using nodes_in_their_pool[OF cache_history_good[OF assms(1)] assms(2-4)] by blast

lemma example_grouped_node:
  obtains c c1 ni where "(cache_step example_k8s)\<^sup>*\<^sup>* example_cache c1" "AddPool example_k8s example_orders (Some example_group) example_cache = Some (c, None)"
    "AddNode example_k8s [''g'', DefaultPoolName] (example_node ''n1'') c = Some c1" "view c1 ''g'' ''n1'' = Some ni" "ni_node ni = Some (example_node ''n1'')"
    "covers [''g'', DefaultPoolName] c1" "status c1 = status example_cache" "\<And>pn m. m \<noteq> ''n1'' \<Longrightarrow> view c1 pn m = None" "same_pools c c1"
proof -
  obtain c where c: "(cache_step example_k8s)\<^sup>*\<^sup>* example_cache c" "AddPool example_k8s example_orders (Some example_group) example_cache = Some (c, None)"
    "covers [''g'', DefaultPoolName] c" "covers [DefaultPoolName, ''g''] c" "\<And>nd. matchPoolForNode example_k8s [''g'', DefaultPoolName] (Some nd) c = Some ''g''"
    "status c = status example_cache" "\<And>pn n. view c pn n = None" by (rule example_grouped) (rule that)
  have n: "node_Name (example_node ''n1'') = ''n1''" by (simp add: example_node_def)
  have inv: "cache_inv c" using goodD(1)[OF cache_history_good] c(1) by (auto simp: example_cache_def)
  show thesis
  proof (rule AddNode_step[where L = example_k8s and ord = "[''g'', DefaultPoolName]" and node = "example_node ''n1''", OF inv])
    show "matchPoolForNode example_k8s [''g'', DefaultPoolName] (Some (example_node ''n1'')) c = Some qn" if "view c qn (node_Name (example_node ''n1'')) \<noteq> None" for qn
      using that c(7)[of qn] by simp
    fix c1 pn w
    assume a: "AddNode example_k8s [''g'', DefaultPoolName] (example_node ''n1'') c = Some c1" "cache_inv c1" "status c1 = status c" "same_pools c c1"
      "matchPoolForNode example_k8s [''g'', DefaultPoolName] (Some (example_node ''n1'')) c = Some pn"
      "touched c pn (node_Name (example_node ''n1'')) w c1" "Option.bind w ni_node = Some (example_node ''n1'')"
    have s: "cache_step example_k8s c c1" by (rule step_AddNode[OF c(3) _ a(1)]) (simp add: c(7))
    obtain ni where ni: "w = Some ni" "ni_node ni = Some (example_node ''n1'')" using a(7) by (cases w) auto
    show thesis
      using that[OF rtranclp.rtrancl_into_rtrancl[OF c(1) s] c(2) a(1) _ ni(2)] touchedD(4,6)[OF a(6)] a(3,4,5) ni(1) c covers_same[OF a(4)] n by simp
  qed
qed

theorem nodes_in_their_pools_witness:
  "\<exists>c c1. AddPool example_k8s example_orders (Some example_group) example_cache = Some (c, None) \<and>
     AddNode example_k8s [''g'', DefaultPoolName] (example_node ''n1'') c = Some c1 \<and>
     matchPoolForNode example_k8s [''g'', DefaultPoolName] (Some (example_node ''n1'')) c1 = Some ''g''"
proof -
  obtain c c1 ni where c: "(cache_step example_k8s)\<^sup>*\<^sup>* example_cache c1" "AddPool example_k8s example_orders (Some example_group) example_cache = Some (c, None)"
    "AddNode example_k8s [''g'', DefaultPoolName] (example_node ''n1'') c = Some c1" "view c1 ''g'' ''n1'' = Some ni" "ni_node ni = Some (example_node ''n1'')"
    "covers [''g'', DefaultPoolName] c1" by (rule example_grouped_node) (rule that)
  show ?thesis using nodes_in_their_pools[OF c(1)[unfolded example_cache_def] c(6,4,5)] c(2,3) by blast
qed

text \<open>
  C12. Removing a pool. In every cache that an orderly history of calls leads to from a new cache, and in which each item of the pool has its node object, \<open>RemovePool\<close> of a pool that is not the default one
  takes the pool out of the cache and keeps every node with its pods: a node is known, with the same
  information, before exactly when it is known after, now in the pool that \<open>matchPoolForNode\<close> gives for it.
  The states of the pods do not change. The history is orderly: calls in any order, where pods have a UID and a node name and an update keeps both;
  \<open>AddNode\<close> is called only while no pool but the one that the node matches has an item of its name; \<open>UpdateNode\<close> and \<open>RemoveNode\<close> get the object that the cache
  holds, and \<open>UpdateNode\<close> does not fail; a pool is not the default one, is added once, updated with the object that the cache holds and removed
  while each of its items has its node object.
\<close>

theorem RemovePool_keeps_nodes:
  assumes h: "(cache_step L)\<^sup>*\<^sup>* (newSchedulerCache L t per st) c" and n: "pool_Name pl \<noteq> DefaultPoolName" and mo: "mo_ok mo c"
    and items: "\<forall>m ni. view c (pool_Name pl) m = Some ni \<longrightarrow> ni_node ni \<noteq> None"
  shows "\<exists>c'. RemovePool L mo pl c = Some (c', None) \<and> GetPool (pool_Name pl) c' = Inl (PoolNotInCache (pool_Name pl)) \<and>
    (\<forall>m ni. (\<exists>pn. view c' pn m = Some ni) \<longleftrightarrow> (\<exists>pn. view c pn m = Some ni)) \<and> status c' = status c \<and>
    (\<forall>ord pn m ni nd. covers ord c' \<longrightarrow> view c' pn m = Some ni \<longrightarrow> ni_node ni = Some nd \<longrightarrow> matchPoolForNode L ord (Some nd) c' = Some pn)"
proof -
  note good = cache_history_good[OF h]
  have "\<exists>c'. RemovePool L mo pl c = Some (c', None) \<and> cache_good L c' \<and> status c' = status c \<and> fmlookup (pools c') (pool_Name pl) = None \<and>
      (\<forall>m ni. (\<exists>pn. view c' pn m = Some ni) \<longleftrightarrow> (\<exists>pn. view c pn m = Some ni))"
    by (rule RemovePool_step[OF good n mo]) (use items in blast)
  then obtain c' where c': "RemovePool L mo pl c = Some (c', None)" "cache_good L c'" "status c' = status c"
    "fmlookup (pools c') (pool_Name pl) = None" "\<forall>m ni. (\<exists>pn. view c' pn m = Some ni) \<longleftrightarrow> (\<exists>pn. view c pn m = Some ni)" by blast
  then show ?thesis using nodes_in_their_pool(1)[OF c'(2)] by (auto simp: GetPool_def)
qed

theorem RemovePool_keeps_nodes_witness:
  "\<exists>c c1 c2 pn. AddPool example_k8s example_orders (Some example_group) example_cache = Some (c, None) \<and>
     AddNode example_k8s [''g'', DefaultPoolName] (example_node ''n1'') c = Some c1 \<and>
     RemovePool example_k8s example_orders example_group c1 = Some (c2, None) \<and> view c2 pn ''n1'' \<noteq> None"
proof -
  obtain c c1 ni where c: "(cache_step example_k8s)\<^sup>*\<^sup>* example_cache c1" "AddPool example_k8s example_orders (Some example_group) example_cache = Some (c, None)"
    "AddNode example_k8s [''g'', DefaultPoolName] (example_node ''n1'') c = Some c1" "view c1 ''g'' ''n1'' = Some ni" "ni_node ni = Some (example_node ''n1'')"
    "covers [''g'', DefaultPoolName] c1" "status c1 = status example_cache" "\<And>pn m. m \<noteq> ''n1'' \<Longrightarrow> view c1 pn m = None"
    by (rule example_grouped_node) (rule that)
  have g: "pool_Name example_group = ''g''" "pool_Name example_group \<noteq> DefaultPoolName" by (simp_all add: example_group_def DefaultPoolName_def)
  show ?thesis
  proof -
    have mo: "mo_ok example_orders c1" using c(6,8) by (simp add: mo_ok_def example_orders_def) (metis option.distinct(1))
    have "ni_node ni' \<noteq> None" if "view c1 (pool_Name example_group) m = Some ni'" for m ni'
      using that c(4,5) c(8)[of m] unfolding g by (cases "m = ''n1''") auto
    then have "\<forall>m ni. view c1 (pool_Name example_group) m = Some ni \<longrightarrow> ni_node ni \<noteq> None" by blast
    from RemovePool_keeps_nodes[OF c(1)[unfolded example_cache_def] g(2) mo this] c(2-4) show ?thesis by blast
  qed
qed

subsection \<open>Pods that are left behind\<close>

text \<open>
  A pool that is removed while a node of it is already gone. When a node is deleted before its pods,
  its item stays in the pool with the pods and without the node object; such an item matches no pool, so
  \<open>RemovePool\<close> drops it with the pool. The pods of that item keep their states and are on no node any more:
  every later \<open>RemovePod\<close> for them fails and leaves the states, so they are never taken out of the cache.
\<close>

theorem RemovePool_loses_pods:
  assumes h: "(cache_step L)\<^sup>*\<^sup>* (newSchedulerCache L t per st) c" and n: "pool_Name pl \<noteq> DefaultPoolName" and mo: "mo_ok mo c"
    and v: "view c (pool_Name pl) m = Some ni" "ni_node ni = None"
    and pod: "status c (pod_UID pod) = Added m" "pod_NodeName pod = m"
  shows "\<exists>c'. RemovePool L mo pl c = Some (c', None) \<and> status c' = status c \<and> (\<forall>pn q. pod_UID pod \<notin> pod_UID ` set (node_pods c' pn q)) \<and>
    (\<forall>ord. \<exists>c2 e. RemovePod L ord pod c' = Some (c2, Some e) \<and> status c2 = status c)"
proof -
  note good = cache_history_good[OF h]
  note inv = goodD(1)[OF good]
  note P = pods_okD[OF cache_invD(4)[OF inv]]
  obtain ps where ps: "fmlookup (podStates c) (pod_UID pod) = Some ps" "\<not> is_assumed (pod_UID pod) c" "pod_NodeName (ps_pod ps) = m"
    using pod(1) by (auto simp: status_simps)
  note k = P(4,5,6)[OF ps(1)]
  obtain c' where c': "RemovePool L mo pl c = Some (c', None)" "pools_ok c'" "same_pods c c'" "one_pool c'" "\<forall>pn. view c' pn m = None"
    and kept: "\<And>pn q x. view c' pn q = Some x \<Longrightarrow> \<exists>qn. view c qn q = Some x"
    using RemovePool_drops[OF good n mo v] by blast
  have st: "status c2 = status c" if "same_pods c c2" for c2
    using that by (auto simp: fun_eq_iff status_def same_pods_def is_assumed_def split: option.splits)
  have none: "pod_UID pod \<notin> pod_UID ` set (node_pods c' pn q)" for pn q
  proof
    assume "pod_UID pod \<in> pod_UID ` set (node_pods c' pn q)"
    then obtain x where x: "x \<in> set (node_pods c' pn q)" "pod_UID x = pod_UID pod" by auto
    obtain y where y: "view c' pn q = Some y" using node_pods_view[OF x(1)] by auto
    obtain qn where "view c qn q = Some y" using kept[OF y] by blast
    then have "x \<in> set (node_pods c qn q)" using x(1) y by (simp add: node_pods_def)
    then have "q = m" using P(2)[of x qn q] x(2) ps(1,3) by auto
    then show False using c'(5) y by simp
  qed
  have "\<exists>c2 e. RemovePod L ord pod c' = Some (c2, Some e) \<and> status c2 = status c" for ord
  proof -
    obtain p where p: "fmlookup (pools c') DefaultPoolName = Some p" using pools_okD(1)[OF c'(2)] by blast
    have mp: "matchPoolForPod ord (ps_pod ps) c' = Some DefaultPoolName"
      by (rule matchPoolForPod_unknown[OF c'(2) k(3)]) (use c'(5) ps(3) in simp)
    obtain c2 w e where r: "removePod L ord (ps_pod ps) c' = Some (c2, e)" "touched c' DefaultPoolName (pod_NodeName (ps_pod ps)) w c2"
      "pod_UID (ps_pod ps) \<notin> pod_UID ` set (node_pods c' DefaultPoolName (pod_NodeName (ps_pod ps))) \<Longrightarrow> e \<noteq> None"
      by (rule removePod_at[where L = L, OF c'(2) mp p]) (use k in auto)
    obtain e' where e: "e = Some e'" using r(3) none k(2) by auto
    have s: "fmlookup (podStates c') (pod_UID pod) = Some ps" "\<not> is_assumed (pod_UID pod) c'" "same_pods c c2"
      using ps c'(3) touchedD(2)[OF r(2)] by (auto simp: same_pods_def is_assumed_def)
    have "RemovePod L ord pod c' = Some (c2, Some (PoolError e'))" using s ps(3) pod(2) r(1) e k(1) by (simp add: RemovePod_def GetPodKey_def)
    then show ?thesis using st[OF s(3)] by blast
  qed
  then show ?thesis using c'(1) st[OF c'(3)] none by blast
qed

text \<open>A pod that the cache does not know, added to the pool that \<open>matchPoolForPod\<close> finds.\<close>

lemma AddPod_new:
  assumes ok: "pools_ok c" and m: "matchPoolForPod ord pod c = Some pn" "fmlookup (pools c) pn = Some p"
    and u: "pod_UID pod \<noteq> []" "status c (pod_UID pod) = Initial"
  obtains c1 ni where "AddPod L ord ord' pod c = Some (c1, None)" "pools_ok c1" "same_pools c c1"
    "\<And>q m. view c1 q m = (if q = pn \<and> m = pod_NodeName pod then Some ni else view c q m)"
    "ni_pods ni = node_pods c pn (pod_NodeName pod) @ [pod]" "fmlookup (podStates c1) (pod_UID pod) = Some \<lparr>ps_pod = pod, deadline = None, bindingFinished = False\<rparr>"
    "assumedPods c1 = assumedPods c"
proof -
  let ?ps = "\<lparr>ps_pod = pod, deadline = None, bindingFinished = False\<rparr>"
  obtain c0 ni where a: "addPod L ord pod c = Some c0" "touched c pn (pod_NodeName pod) (Some ni) c0" "ni_pods ni = node_pods c pn (pod_NodeName pod) @ [pod]"
    by (rule addPod_at[where L = L, OF ok m]) (rule that)
  note T = touchedD[OF a(2)]
  let ?c1 = "c0\<lparr>podStates := fmupd (pod_UID pod) ?ps (podStates c0)\<rparr>"
  have i: "item_at ?c1 = item_at c0" "view ?c1 = view c0" by (simp_all add: fun_eq_iff item_at_def view_def)
  have "pools_ok ?c1" using T(1) unfolding pools_ok_def i by simp
  moreover have "AddPod L ord ord' pod c = Some (?c1, None)" using a(1) u by (simp add: AddPod_def GetPodKey_def status_simps)
  moreover have "same_pools c ?c1" using T(3) by (simp add: same_pools_def)
  moreover have "assumedPods ?c1 = assumedPods c" using T(2) by (simp add: same_pods_def)
  moreover have "fmlookup (podStates ?c1) (pod_UID pod) = Some ?ps" by simp
  moreover have "view ?c1 q x = (if q = pn \<and> x = pod_NodeName pod then Some ni else view c q x)" for q x unfolding i by (rule T(6))
  ultimately show thesis using that a(3) by blast
qed

lemma example_deleted_node:
  obtains c ni where "(cache_step example_k8s)\<^sup>*\<^sup>* example_cache c" "status c ''u1'' = Added ''n1''" "view c ''g'' ''n1'' = Some ni" "ni_node ni = None"
    "mo_ok example_orders c"
proof -
  let ?o = "[''g'', DefaultPoolName]" and ?nd = "example_node ''n1''"
  obtain c0 c ni where c: "(cache_step example_k8s)\<^sup>*\<^sup>* example_cache c" "AddPool example_k8s example_orders (Some example_group) example_cache = Some (c0, None)"
    "AddNode example_k8s ?o ?nd c0 = Some c" "view c ''g'' ''n1'' = Some ni" "ni_node ni = Some ?nd"
    "covers ?o c" "status c = status example_cache" "\<And>pn m. m \<noteq> ''n1'' \<Longrightarrow> view c pn m = None"
    by (rule example_grouped_node) (rule that)
  have n: "node_Name ?nd = ''n1''" by (simp add: example_node_def)
  have inv: "cache_inv c" using goodD(1)[OF cache_history_good] c(1) by (auto simp: example_cache_def)
  obtain c1 where c1: "AddPod example_k8s ?o ?o example_pod c = Some (c1, None)" "cache_inv c1" "same_pools c c1" "status c1 ''u1'' = Added ''n1''"
    using AddPod_step(1)[where L = example_k8s, OF inv c(6,6) example_pod_facts(3,4)] by (auto simp: c(7) example_cache_facts example_pod_facts)
  note N = pod_ops_nodes(3)[OF inv c(6,6) example_pod_facts(3) c1(1)]
  have h1: "(cache_step example_k8s)\<^sup>*\<^sup>* example_cache c1"
    using c(1) step_AddPod[OF c(6,6) example_pod_facts(3,4) c1(1)] by (rule rtranclp.rtrancl_into_rtrancl)
  obtain ni1 where ni1: "view c1 ''g'' ''n1'' = Some ni1" "ni_node ni1 = Some ?nd"
  proof -
    have "Option.bind (view c1 ''g'' ''n1'') ni_node = Some ?nd" using N c(4,5) by (simp add: nodes_same_def)
    then show ?thesis using that by (auto simp: bind_eq_Some_conv)
  qed
  have cov: "covers ?o c1" using covers_same[OF c1(3)] c(6) by simp
  have good1: "cache_good example_k8s c1" using cache_history_good h1 by (simp add: example_cache_def)
  have others: "view c1 q m = None" if "m \<noteq> ''n1''" for q m
  proof -
    obtain pn p where mp: "matchPoolForPod ?o example_pod c = Some pn" "fmlookup (pools c) pn = Some p"
      by (rule matchPoolForPod_home[OF cache_invD(1,2)[OF inv] example_pod_facts(3) c(6)]) (rule that)
    have "status c (pod_UID example_pod) = Initial" using c(7) example_cache_facts(3) by simp
    then show ?thesis
      by (rule AddPod_new[where L = example_k8s and ord' = ?o, OF cache_invD(1)[OF inv] mp example_pod_facts(4)])
        (use c1(1) c(8)[OF that] that in \<open>simp add: example_pod_facts\<close>)
  qed
  have home: "q = ''g''" if "view c1 q ''n1'' \<noteq> None" for q
    using cache_invD(2)[OF c1(2)] ni1(1) that unfolding one_pool_def by (metis option.distinct(1))
  have mt: "matchPoolForNode example_k8s ?o (Some ?nd) c1 = Some ''g''"
    using nodes_in_their_pool[OF good1 cov ni1] by simp
  show thesis
  proof (rule RemoveNode_step[where L = example_k8s and ord = ?o and node = ?nd, OF c1(2)])
    show "matchPoolForNode example_k8s ?o (Some ?nd) c1 = Some q" if "view c1 q (node_Name ?nd) \<noteq> None" for q
      using home that n mt by simp
    fix c2 e pn w
    assume a: "RemoveNode example_k8s ?o ?nd c1 = Some (c2, e)" "cache_inv c2" "status c2 = status c1" "same_pools c1 c2"
      "matchPoolForNode example_k8s ?o (Some ?nd) c1 = Some pn" "touched c1 pn (node_Name ?nd) w c2" "Option.bind w ni_node = None"
    have pn: "pn = ''g''" using a(5) mt by simp
    note T = touchedD[OF a(6)[unfolded n pn]]
    have "cache_step example_k8s c1 c2" by (rule step_RemoveNode[where pn = "''g''", OF cov _ ni1(2) a(1)]) (simp add: n ni1)
    then have h2: "(cache_step example_k8s)\<^sup>*\<^sup>* example_cache c2" using h1 by (rule rtranclp.rtrancl_into_rtrancl[rotated])
    have s2: "status c2 ''u1'' = Added ''n1''" using a(3) c1(4) by simp
    obtain q where q: "view c2 q ''n1'' \<noteq> None" using added_viewed[OF a(2) s2] by blast
    have "q = ''g''" using home[of q] q T(5)[of q "''n1''"] by (cases "q = ''g''") auto
    then obtain ni2 where ni2: "w = Some ni2" using q T(4) by auto
    have "ni_node ni2 = None" using a(7) ni2 by simp
    moreover have "view c2 q m = None" if "m \<noteq> ''n1''" for q m
      using T(5)[of q m] others[OF that] that by simp
    moreover have "covers ?o c2" using covers_same[OF a(4)] cov by simp
    ultimately show thesis using that[OF h2 s2] T(4) ni2 by (simp add: mo_ok_def example_orders_def) (metis option.distinct(1))
  qed
qed

theorem RemovePool_loses_pods_witness:
  "\<exists>c c'. (cache_step example_k8s)\<^sup>*\<^sup>* example_cache c \<and> RemovePool example_k8s example_orders example_group c = Some (c', None) \<and>
     status c' ''u1'' = Added ''n1'' \<and> (\<exists>c2 e. RemovePod example_k8s [DefaultPoolName] example_pod c' = Some (c2, Some e))"
proof -
  obtain c ni where c: "(cache_step example_k8s)\<^sup>*\<^sup>* example_cache c" "status c ''u1'' = Added ''n1''" "view c ''g'' ''n1'' = Some ni" "ni_node ni = None"
    "mo_ok example_orders c" by (rule example_deleted_node) (rule that)
  have g: "pool_Name example_group = ''g''" "pool_Name example_group \<noteq> DefaultPoolName" by (simp_all add: example_group_def DefaultPoolName_def)
  have "view c (pool_Name example_group) ''n1'' = Some ni" "status c (pod_UID example_pod) = Added ''n1''" using c(2,3) g example_pod_facts by simp_all
  from RemovePool_loses_pods[OF c(1)[unfolded example_cache_def] g(2) c(5) this(1) c(4) this(2) example_pod_facts(2)] c(1,2) show ?thesis by fastforce
qed

text \<open>A node in two pools, the default pool with the pod and another pool with the node.\<close>

lemma RemovePod_split:
  assumes ok: "pools_ok c" and pod: "pod_UID pod \<noteq> []" "pod_NodeName pod = n" "n \<noteq> []" and pn: "pn \<noteq> DefaultPoolName"
    and state: "fmlookup (podStates c) (pod_UID pod) = Some \<lparr>ps_pod = pod, deadline = None, bindingFinished = False\<rparr>" "\<not> is_assumed (pod_UID pod) c"
    and v: "view c DefaultPoolName n = Some ni" "ni_pods ni = [pod]" "view c pn n = w" "pods_of w = []" "w \<noteq> None"
      "\<And>q. q \<noteq> pn \<Longrightarrow> q \<noteq> DefaultPoolName \<Longrightarrow> view c q n = None"
    and ord: "covers ord c"
  shows "\<exists>c' e. RemovePod L ord pod c = Some (c', e) \<and>
    (e = None \<longleftrightarrow> List.find (\<lambda>q. q = pn \<or> q = DefaultPoolName) ord = Some DefaultPoolName) \<and>
    status c' = (if e = None then (status c)(pod_UID pod := Initial) else status c)"
proof -
  let ?k = "pod_UID pod"
  have pools: "\<exists>p. fmlookup (pools c) q = Some p" if "view c q n \<noteq> None" for q
    using that by (auto simp: view_def item_at_def bind_eq_Some_conv)
  have "contains_node (Some q) n c \<noteq> None \<longleftrightarrow> q = pn \<or> q = DefaultPoolName" for q
  proof -
    have "contains_node (Some q) n c \<noteq> None \<longleftrightarrow> view c q n \<noteq> None" by (simp add: contains_node_item[OF pod(3)] view_def)
    then show ?thesis using v(1,3,5) v(6)[of q] by (cases "q = pn \<or> q = DefaultPoolName") auto
  qed
  then have f: "List.find (\<lambda>q. contains_node (Some q) (pod_NodeName pod) c \<noteq> None) ord = List.find (\<lambda>q. q = pn \<or> q = DefaultPoolName) ord"
    by (simp add: pod(2))
  have "DefaultPoolName \<in> set ord" using ord pools[of DefaultPoolName] v(1) by (auto simp: covers_def fmdomI)
  then obtain q where q: "List.find (\<lambda>q. q = pn \<or> q = DefaultPoolName) ord = Some q" "q = pn \<or> q = DefaultPoolName"
    using find_hit[of DefaultPoolName ord "\<lambda>q. q = pn \<or> q = DefaultPoolName"] by blast
  have m: "matchPoolForPod ord pod c = Some q" using f q(1) pod(2,3) by (simp add: matchPoolForPod_def)
  obtain p where p: "fmlookup (pools c) q = Some p" using pools q(2) v(1,3,5) by blast
  obtain c' v' e where r: "removePod L ord pod c = Some (c', e)" "touched c q (pod_NodeName pod) v' c'"
    "?k \<notin> pod_UID ` set (node_pods c q (pod_NodeName pod)) \<Longrightarrow> e \<noteq> None" "?k \<in> pod_UID ` set (node_pods c q (pod_NodeName pod)) \<Longrightarrow> e = None"
    by (rule removePod_at[where L = L, OF ok m p pod(1)]) (use that in blast)
  have e: "e = None \<longleftrightarrow> q = DefaultPoolName"
  proof (cases "q = DefaultPoolName")
    case True
    then show ?thesis using r(4) v(1,2) pod(2) by (simp add: node_pods_def)
  next
    case False
    then show ?thesis using r(3) q(2) v(3,4) pod(2) by (simp add: node_pods_def)
  qed
  have s: "same_pods c c'" using touchedD(2)[OF r(2)] .
  have R: "RemovePod L ord pod c = Some (case e of Some err \<Rightarrow> (c', Some (PoolError err)) | None \<Rightarrow> (c'\<lparr>podStates := fmdrop ?k (podStates c')\<rparr>, None))"
    using state r(1) pod(1) by (simp add: RemovePod_def GetPodKey_def)
  have st: "status c' = status c" "status (c'\<lparr>podStates := fmdrop ?k (podStates c')\<rparr>) = (status c)(?k := Initial)"
    using s by (auto simp: fun_eq_iff status_def same_pods_def is_assumed_def split: option.splits)
  show ?thesis using R st e q(1) by (cases e) auto
qed

text \<open>
  A pod that arrives before its node. The cache puts a pod whose node it does not know into the default
  pool, and \<open>AddNode\<close> puts the node into the pool that its labels select without looking at the item that
  the default pool has for it. From then on the node is in two pools, the pod in the default pool
  and the node in the other one, and what a later \<open>RemovePod\<close> does depends on the order in which the map
  of the pools happens to be visited: it succeeds if the default pool comes first, and fails and keeps the
  pod otherwise.
\<close>

theorem pod_before_node:
  assumes h: "(cache_step L)\<^sup>*\<^sup>* (newSchedulerCache L t per st) c" and ord: "covers ord c" "covers ord' c"
    and pod: "pod_UID pod \<noteq> []" "pod_NodeName pod = node_Name node" "node_Name node \<noteq> []" "status c (pod_UID pod) = Initial"
    and none: "\<forall>q. view c q (node_Name node) = None"
    and pn: "matchPoolForNode L ord (Some node) c = Some pn" "pn \<noteq> DefaultPoolName"
  shows "\<exists>c1 c2. AddPod L ord ord' pod c = Some (c1, None) \<and> AddNode L ord node c1 = Some c2 \<and>
    node_pods c2 DefaultPoolName (node_Name node) = [pod] \<and> Option.bind (view c2 pn (node_Name node)) ni_node = Some node \<and>
    (\<forall>ords. covers ords c \<longrightarrow> (\<exists>c3 e. RemovePod L ords pod c2 = Some (c3, e) \<and>
       (e = None \<longleftrightarrow> List.find (\<lambda>q. q = pn \<or> q = DefaultPoolName) ords = Some DefaultPoolName) \<and>
       status c3 = (if e = None then (status c2)(pod_UID pod := Initial) else status c2)))"
proof -
  let ?n = "node_Name node" and ?k = "pod_UID pod" and ?ps = "\<lparr>ps_pod = pod, deadline = None, bindingFinished = False\<rparr>"
  note inv = goodD(1)[OF cache_history_good[OF h]]
  note I = cache_invD[OF inv]
  have nn: "pod_NodeName pod \<noteq> []" using pod by simp
  obtain p where p: "fmlookup (pools c) DefaultPoolName = Some p" using pools_okD(1)[OF I(1)] by blast
  have mp: "matchPoolForPod ord pod c = Some DefaultPoolName" by (rule matchPoolForPod_unknown[OF I(1) nn]) (simp add: pod(2) none)
  obtain c1 ni where c1: "AddPod L ord ord' pod c = Some (c1, None)" "pools_ok c1" "same_pools c c1"
    "\<And>q m. view c1 q m = (if q = DefaultPoolName \<and> m = ?n then Some ni else view c q m)" "ni_pods ni = [pod]"
    "fmlookup (podStates c1) ?k = Some ?ps" "assumedPods c1 = assumedPods c"
  proof -
    have "node_pods c DefaultPoolName (pod_NodeName pod) @ [pod] = [pod]" by (simp add: pod(2) node_pods_def none)
    note A = AddPod_new[where L = L and ord' = ord', OF I(1) mp p pod(1,4), unfolded this, unfolded pod(2)]
    show ?thesis by (rule A) (rule that)
  qed
  have na: "\<not> is_assumed ?k c1"
    using I(3) pod(4) c1(7) unfolding is_assumed_def assumed_ok_def status_simps by (metis option.distinct(1))
  have m1: "matchPoolForNode L ord (Some node) c1 = Some pn"
    using pn(1) matchPoolForNode_chosen[OF I(1) ord(1), of L node] matchPoolForNode_chosen[OF c1(2), of ord L node] match_set_same[OF c1(3), of L node] covers_same[OF c1(3)] ord(1) by simp
  obtain c2 w where c2: "AddNode L ord node c1 = Some c2" "touched c1 pn ?n w c2" "pods_of w = node_pods c1 pn ?n" "Option.bind w ni_node = Some node"
    by (rule AddNode_touched[where L = L and ord = ord and node = node, OF c1(2)]) (use m1 that in auto)
  note T = touchedD[OF c2(2)]
  have v2: "view c2 pn ?n = w" "view c2 DefaultPoolName ?n = Some ni" "\<And>q. q \<noteq> pn \<Longrightarrow> q \<noteq> DefaultPoolName \<Longrightarrow> view c2 q ?n = None"
    using T(6) c1(4) pn(2) none by auto
  have w: "pods_of w = []" using c2(3) c1(4)[of pn ?n] pn(2) none by (simp add: node_pods_def)
  have "w \<noteq> None" using c2(4) by (cases w) auto
  note w = w this
  have "fmlookup (podStates c2) ?k = Some ?ps" "\<not> is_assumed ?k c2" using c1(6) na T(2) by (auto simp: same_pods_def is_assumed_def)
  note rem = RemovePod_split[where L = L, OF T(1) pod(1-3) pn(2) this v2(2) c1(5) v2(1) w v2(3)]
  show ?thesis
    by (rule exI[of _ c1], rule exI[of _ c2]) (use c1(1,5) c2(1,4) v2(1,2) rem covers_same[OF c1(3)] covers_same[OF T(3)] in \<open>simp add: node_pods_def\<close>)
qed

theorem pod_before_node_witness:
  "\<exists>c c1 c2 c3 c4 e. AddPool example_k8s example_orders (Some example_group) example_cache = Some (c, None) \<and>
     AddPod example_k8s [''g'', DefaultPoolName] [''g'', DefaultPoolName] example_pod c = Some (c1, None) \<and>
     AddNode example_k8s [''g'', DefaultPoolName] (example_node ''n1'') c1 = Some c2 \<and>
     RemovePod example_k8s [''g'', DefaultPoolName] example_pod c2 = Some (c3, Some e) \<and>
     RemovePod example_k8s [DefaultPoolName, ''g''] example_pod c2 = Some (c4, None)"
proof -
  let ?o = "[''g'', DefaultPoolName]" and ?nd = "example_node ''n1''"
  obtain c where c: "(cache_step example_k8s)\<^sup>*\<^sup>* example_cache c" "AddPool example_k8s example_orders (Some example_group) example_cache = Some (c, None)"
    "covers ?o c" "covers [DefaultPoolName, ''g''] c" "\<And>nd. matchPoolForNode example_k8s ?o (Some nd) c = Some ''g''"
    "status c = status example_cache" "\<And>pn n. view c pn n = None" by (rule example_grouped) (rule that)
  have n: "node_Name ?nd = ''n1''" by (simp add: example_node_def)
  have d: "''g'' \<noteq> DefaultPoolName" by (simp add: DefaultPoolName_def)
  have "status c (pod_UID example_pod) = Initial" "pod_NodeName example_pod = node_Name ?nd" "node_Name ?nd \<noteq> []" "\<forall>q. view c q (node_Name ?nd) = None"
    using c(6,7) example_cache_facts(3) by (simp_all add: n example_pod_facts)
  note T = pod_before_node[OF c(1)[unfolded example_cache_def] c(3,3) example_pod_facts(4) this(2,3,1,4) c(5) d]
  obtain c1 c2 where r: "AddPod example_k8s ?o ?o example_pod c = Some (c1, None)" "AddNode example_k8s ?o ?nd c1 = Some c2"
    and R: "\<And>ords. covers ords c \<Longrightarrow> \<exists>c3 e. RemovePod example_k8s ords example_pod c2 = Some (c3, e) \<and>
       (e = None \<longleftrightarrow> List.find (\<lambda>q. q = ''g'' \<or> q = DefaultPoolName) ords = Some DefaultPoolName)"
    using T by blast
  from R[OF c(3)] R[OF c(4)] d obtain c3 e c4 where "RemovePod example_k8s ?o example_pod c2 = Some (c3, Some e)"
    "RemovePod example_k8s [DefaultPoolName, ''g''] example_pod c2 = Some (c4, None)" by auto
  then show ?thesis using c(2) r by blast
qed

subsection \<open>Images\<close>

text \<open>The images of a node with their sizes, in the order of the loops.\<close>

definition image_list :: "Node \<Rightarrow> (int64 \<times> string) list" where
  "image_list nd = concat (map (\<lambda>i. map (Pair (image_SizeBytes i)) (image_Names i)) (node_Images nd))"

lemma node_images_list: "node_images_fold f nd s = foldl (\<lambda>s (sz, x). f sz s x) s (image_list nd)"
proof -
  have "foldl (\<lambda>s i. foldl (f (image_SizeBytes i)) s (image_Names i)) s is =
      foldl (\<lambda>s (sz, x). f sz s x) s (concat (map (\<lambda>i. map (Pair (image_SizeBytes i)) (image_Names i)) is))" for "is"
    by (induction "is" arbitrary: s) (simp_all add: foldl_map)
  then show ?thesis by (simp add: node_images_fold_def image_list_def)
qed

text \<open>\<open>imageStates\<close> as the sets of the nodes that have an image; an entry is never empty.\<close>

definition image_nodes :: "(string, imageState) fmap \<Rightarrow> string \<Rightarrow> string fset" where
  "image_nodes m x = (case fmlookup m x of None \<Rightarrow> {||} | Some s \<Rightarrow> is_nodes s)"

definition images_ok :: "(string, imageState) fmap \<Rightarrow> bool" where
  "images_ok m \<longleftrightarrow> (\<forall>x s. fmlookup m x = Some s \<longrightarrow> is_nodes s \<noteq> {||})"

definition with_node :: "string \<Rightarrow> int64 \<Rightarrow> imageState option \<Rightarrow> imageState" where
  "with_node n sz v = (case v of None \<Rightarrow> \<lparr>is_size = sz, is_nodes = {|n|}\<rparr> | Some s \<Rightarrow> s\<lparr>is_nodes := finsert n (is_nodes s)\<rparr>)"

definition without_node :: "string \<Rightarrow> imageState option \<Rightarrow> imageState option" where
  "without_node n v = Option.bind v (\<lambda>s. if is_nodes s |-| {|n|} = {||} then None else Some (s\<lparr>is_nodes := is_nodes s |-| {|n|}\<rparr>))"

lemma with_node_twice [simp]: "with_node n sz (Some (with_node n sz' v)) = with_node n sz' v"
  by (simp add: with_node_def split: option.splits)

lemma without_node_twice [simp]: "without_node n (without_node n v) = without_node n v"
  by (auto simp: without_node_def bind_eq_None_conv split: bind_splits)

lemma without_with_node:
  assumes "\<And>s. v = Some s \<Longrightarrow> n |\<notin>| is_nodes s \<and> is_nodes s \<noteq> {||}" shows "without_node n (Some (with_node n sz v)) = v"
  using assms by (cases v) (auto simp: with_node_def without_node_def)

text \<open>What the two loops do to the entry of an image. The first occurrence of a name gives the size.\<close>

definition image_size :: "Node \<Rightarrow> string \<Rightarrow> int64 option" where
  "image_size nd x = map_of (map prod.swap (image_list nd)) x"

lemma add_images_lookup:
  "fmlookup (fst (foldl (\<lambda>s (sz, x). add_image n sz s x) (m, sm) xs)) x = (case map_of (map prod.swap xs) x of
     None \<Rightarrow> fmlookup m x | Some sz \<Rightarrow> Some (with_node n sz (fmlookup m x)))"
proof (induction xs arbitrary: m sm)
  case (Cons p xs)
  obtain sz y where p: "p = (sz, y)" by fastforce
  have "fmlookup (fst (add_image n sz (m, sm) y)) x = (if x = y then Some (with_node n sz (fmlookup m y)) else fmlookup m x)"
    by (auto simp: add_image_def with_node_def Let_def split: option.splits)
  then show ?case using Cons.IH[of "fst (add_image n sz (m, sm) y)" "snd (add_image n sz (m, sm) y)"] p by (auto split: option.splits)
qed simp

lemma add_images_summary:
  "fmlookup (snd (foldl (\<lambda>s (sz, x). add_image n sz s x) (m, sm) xs)) x = (case fmlookup sm x of
     Some v \<Rightarrow> Some v | None \<Rightarrow> map_option (\<lambda>sz. createImageStateSummary (with_node n sz (fmlookup m x))) (map_of (map prod.swap xs) x))"
proof (induction xs arbitrary: m sm)
  case (Cons p xs)
  obtain sz y where p: "p = (sz, y)" by fastforce
  have "fmlookup (fst (add_image n sz (m, sm) y)) x = (if x = y then Some (with_node n sz (fmlookup m y)) else fmlookup m x)"
    "fmlookup (snd (add_image n sz (m, sm) y)) x = (if x = y \<and> fmlookup sm y = None then Some (createImageStateSummary (with_node n sz (fmlookup m y))) else fmlookup sm x)"
    by (auto simp: add_image_def with_node_def Let_def split: option.splits)
  then show ?case using Cons.IH[of "fst (add_image n sz (m, sm) y)" "snd (add_image n sz (m, sm) y)"] p
    by (auto split: option.splits)
qed (simp split: option.splits)

lemma remove_images_lookup:
  "fmlookup (foldl (\<lambda>s (sz, x). remove_image n s x) m xs) x = (if map_of (map prod.swap xs) x = None then fmlookup m x else without_node n (fmlookup m x))"
proof (induction xs arbitrary: m)
  case (Cons p xs)
  obtain sz y where p: "p = (sz, y)" by fastforce
  have "fmlookup (remove_image n m y) x = (if x = y then without_node n (fmlookup m y) else fmlookup m x)"
    by (auto simp: remove_image_def without_node_def Let_def split: option.splits)
  then show ?case using Cons.IH[of "remove_image n m y"] p by (cases "map_of (map prod.swap xs) x") auto
qed simp

text \<open>
  Image states. \<open>addNodeImageStates\<close> enters the node in the state of each of its images, with the size of
  the first entry that names a new image, leaves all other images alone, and gives the node the summary of
  its images: size and number of nodes that have it, the node included. \<open>removeNodeImageStates\<close> takes the
  node out and deletes the states that no node is left in, so that in a cache where no image lists the
  node it restores the states from before.
\<close>

theorem image_states_roundtrip:
  assumes "\<forall>x s. fmlookup (cache_images c) x = Some s \<longrightarrow> node_Name nd |\<notin>| is_nodes s \<and> is_nodes s \<noteq> {||}"
  shows "cache_images (removeNodeImageStates (Some nd) (addNodeImageStates nd item c)) = cache_images c \<and>
    (\<forall>x. fmlookup (cache_images (addNodeImageStates nd item c)) x = (case image_size nd x of
        None \<Rightarrow> fmlookup (cache_images c) x
      | Some sz \<Rightarrow> Some (case fmlookup (cache_images c) x of
          None \<Rightarrow> \<lparr>is_size = sz, is_nodes = {|node_Name nd|}\<rparr> | Some s \<Rightarrow> s\<lparr>is_nodes := finsert (node_Name nd) (is_nodes s)\<rparr>))) \<and>
    (\<forall>x. fmlookup (imageStates (info_of (heap (addNodeImageStates nd item c)) item)) x =
      (if image_size nd x = None then None else map_option createImageStateSummary (fmlookup (cache_images (addNodeImageStates nd item c)) x)))"
proof -
  let ?c = "addNodeImageStates nd item c" and ?n = "node_Name nd"
  have c: "cache_images ?c = fst (foldl (\<lambda>s (sz, x). add_image ?n sz s x) (cache_images c, fmempty) (image_list nd))"
    "imageStates (info_of (heap ?c) item) = snd (foldl (\<lambda>s (sz, x). add_image ?n sz s x) (cache_images c, fmempty) (image_list nd))"
    by (simp_all add: addNodeImageStates_def node_images_list info_of_def set_info_def split: prod.splits)
  have l: "fmlookup (cache_images ?c) x = (case image_size nd x of None \<Rightarrow> fmlookup (cache_images c) x
      | Some sz \<Rightarrow> Some (with_node ?n sz (fmlookup (cache_images c) x)))" for x
    unfolding c(1) add_images_lookup image_size_def ..
  have s: "fmlookup (imageStates (info_of (heap ?c) item)) x = (if image_size nd x = None then None else map_option createImageStateSummary (fmlookup (cache_images ?c) x))" for x
    unfolding c(2) add_images_summary l image_size_def by (simp split: option.splits)
  have "fmlookup (cache_images (removeNodeImageStates (Some nd) ?c)) x = fmlookup (cache_images c) x" for x
  proof -
    have "cache_images (removeNodeImageStates (Some nd) ?c) = foldl (\<lambda>s (sz, x). remove_image ?n s x) (cache_images ?c) (image_list nd)"
      by (simp add: removeNodeImageStates_def node_images_list)
    then have "fmlookup (cache_images (removeNodeImageStates (Some nd) ?c)) x =
        (if image_size nd x = None then fmlookup (cache_images ?c) x else without_node ?n (fmlookup (cache_images ?c) x))"
      by (simp add: remove_images_lookup image_size_def)
    also have "\<dots> = fmlookup (cache_images c) x"
      unfolding l using assms without_with_node[of "fmlookup (cache_images c) x" ?n] by (auto split: option.splits)
    finally show ?thesis .
  qed
  then have "cache_images (removeNodeImageStates (Some nd) ?c) = cache_images c" by (rule fmap_ext)
  then show ?thesis using l s unfolding with_node_def by blast
qed

theorem image_states_roundtrip_witness:
  "let nd = (example_node ''n1'')\<lparr>node_Images := [\<lparr>image_Names = [''i''], image_SizeBytes = 7\<rparr>]\<rparr>; c = addNodeImageStates nd 0 example_cache
   in fmlookup (cache_images c) ''i'' = Some \<lparr>is_size = 7, is_nodes = {|''n1''|}\<rparr> \<and>
      cache_images (removeNodeImageStates (Some nd) c) = fmempty"
proof -
  have "\<forall>x s. fmlookup (cache_images example_cache) x = Some s \<longrightarrow>
      node_Name ((example_node ''n1'')\<lparr>node_Images := [\<lparr>image_Names = [''i''], image_SizeBytes = 7\<rparr>]\<rparr>) |\<notin>| is_nodes s \<and> is_nodes s \<noteq> {||}"
    and "cache_images example_cache = fmempty"
    by (simp_all add: example_cache_def newSchedulerCache_def)
  then show ?thesis using image_states_roundtrip[of example_cache "(example_node ''n1'')\<lparr>node_Images := [\<lparr>image_Names = [''i''], image_SizeBytes = 7\<rparr>]\<rparr>" 0]
    by (simp add: image_size_def image_list_def example_node_def Let_def)
qed

subsection \<open>Borrowing\<close>

lemma borrow_nodes_found: "borrow_nodes fits nis = Some True \<Longrightarrow> \<exists>ni \<in> set nis. fits (NodeInfo_Clone ni)"
  by (induction nis) (auto split: if_splits)

lemma borrow_pools_found:
  "borrow_pools fits infos ps = Some (Some n) \<Longrightarrow> \<exists>p \<in> set ps. PoolInfo_Name p = n \<and> (\<exists>ni \<in> set (infos p). fits (NodeInfo_Clone ni))"
proof (induction ps)
  case (Cons p ps)
  then show ?case using borrow_nodes_found by (auto simp: bind_eq_Some_conv split: if_splits)
qed simp

lemma borrow_nodes_not: "borrow_nodes fits nis = Some False \<Longrightarrow> ni \<in> set nis \<Longrightarrow> \<not> fits (NodeInfo_Clone ni)"
  by (induction nis) (auto split: if_splits)

lemma borrow_pools_not: "borrow_pools fits infos ps = Some None \<Longrightarrow> p \<in> set ps \<Longrightarrow> ni \<in> set (infos p) \<Longrightarrow> \<not> fits (NodeInfo_Clone ni)"
proof (induction ps)
  case (Cons q ps)
  then have "borrow_nodes fits (infos q) = Some False" "borrow_pools fits infos ps = Some None" by (auto simp: bind_eq_Some_conv split: if_splits)
  then show ?case using Cons.IH Cons.prems(2,3) borrow_nodes_not[of fits "infos q" ni] by auto
qed simp

text \<open>The pods of \<open>self\<close> may use the pool \<open>p\<close>: it is their own pool, or it shares its nodes and the list of \<open>self\<close>, if there is one, names it.\<close>

definition may_use :: "PoolInfo \<Rightarrow> PoolInfo \<Rightarrow> bool" where
  "may_use self p \<longleftrightarrow> PoolInfo_Name p = PoolInfo_Name self \<or> \<not> DisableSharing p \<and>
     (\<exists>pool. pi_pool self = Some pool \<and> (BorrowingPools (pool_Spec pool) = [] \<or> PoolInfo_Name p \<in> set (BorrowingPools (pool_Spec pool))))"

lemma CanBorrowPool_iff: "\<not> DisableBorrowing self \<Longrightarrow> CanBorrowPool self p \<longleftrightarrow> may_use self p"
  by (auto simp: CanBorrowPool_def may_use_def SliceContainsString_iff split: option.splits)

text \<open>The pool \<open>p\<close> may be used by the pods of \<open>self\<close>, is not the pool that the pod waits in, and has a node on which the pod fits.\<close>

definition offers :: "string list \<Rightarrow> (PoolInfo \<Rightarrow> string list) \<Rightarrow> string \<Rightarrow> Pod \<Rightarrow> (string, 'm FitPredicate) fmap \<Rightarrow> store \<Rightarrow> PoolInfo \<Rightarrow> PoolInfo \<Rightarrow> bool" where
  "offers predOrd nord from pod preds st self p \<longleftrightarrow> from \<noteq> PoolInfo_Name p \<and> may_use self p \<and>
     (\<exists>m \<in> set (nord p). \<exists>item. fmlookup (pi_nodes p) m = Some item \<and> fst (predicateCheck predOrd pod (NodeInfo_Clone (info_of st item)) preds))"

text \<open>
  C24. Borrowing, when the cache does not change while \<open>BorrowPool\<close> runs (the code releases the read lock around each call of the predicates, so that in the program the answer may
  be out of date). A pool offers a node to the pod when it is not the pool that the pod waits in now, one of its nodes passes the predicates, and the pod may use
  it: it is the pod's own pool, even one that does not share, or it shares its nodes and the list of the own pool is empty or names it.
  When \<open>BorrowPool\<close> returns and does not panic, there are two cases. Borrowing is enabled in the pod's own pool and the answer is the name of a pool that offers a node, which may be the own pool. Or the answer is the
  pod's own pool, and borrowing is disabled there or no pool of the cache offers a node. That \<open>sort.Sort\<close> keeps the set of its
  elements is all that is assumed of it; which of several pools that offer a node is chosen is not stated.
\<close>

theorem BorrowPool_allowed:
  assumes sort: "\<forall>lt xs. set (gosort lt xs) = set xs"
    and self: "matchPoolForPod ord pod c = Some sn" "fmlookup (pools c) sn = Some self"
    and r: "BorrowPool gosort predOrd ord nord from pod preds c = Some n"
  shows "(\<exists>q \<in> set ord. \<exists>p. fmlookup (pools c) q = Some p \<and> PoolInfo_Name p = n \<and> \<not> DisableBorrowing self \<and> offers predOrd nord from pod preds (heap c) self p) \<or>
    (n = PoolInfo_Name self \<and> (DisableBorrowing self \<or>
       (\<forall>q \<in> set ord. \<forall>p. fmlookup (pools c) q = Some p \<longrightarrow> \<not> offers predOrd nord from pod preds (heap c) self p)))"
proof (cases "DisableBorrowing self")
  case True
  then show ?thesis using r self by (simp add: BorrowPool_def)
next
  case False
  note can = CanBorrowPool_iff[OF False]
  let ?sh = "filter (\<lambda>p. \<not> (from = PoolInfo_Name p \<or> \<not> CanBorrowPool self p)) (List.map_filter (fmlookup (pools c)) ord)"
  let ?infos = "\<lambda>p. map (info_of (heap c)) (List.map_filter (fmlookup (pi_nodes p)) (nord p))"
  let ?fits = "\<lambda>ni. fst (predicateCheck predOrd pod ni preds)"
  obtain res where res: "borrow_pools ?fits ?infos (gosort (higherIdleFunc (PoolInfo_Name self)) ?sh) = Some res"
    "n = (case res of None \<Rightarrow> PoolInfo_Name self | Some x \<Rightarrow> x)"
    using r self False by (auto simp: BorrowPool_def Let_def)
  have infos: "x \<in> set (?infos p) \<longleftrightarrow> (\<exists>m \<in> set (nord p). \<exists>item. fmlookup (pi_nodes p) m = Some item \<and> x = info_of (heap c) item)" for p x
    by (force simp: set_map_filter)
  have sh: "p \<in> set (gosort (higherIdleFunc (PoolInfo_Name self)) ?sh) \<longleftrightarrow>
      (\<exists>q \<in> set ord. fmlookup (pools c) q = Some p) \<and> from \<noteq> PoolInfo_Name p \<and> may_use self p" for p
    using sort by (auto simp: set_map_filter can)
  show ?thesis
  proof (cases res)
    case None
    then show ?thesis using res borrow_pools_not[of ?fits ?infos] sh infos unfolding offers_def by fastforce
  next
    case (Some x)
    from borrow_pools_found[OF res(1)[unfolded Some]] obtain p ni where p: "p \<in> set (gosort (higherIdleFunc (PoolInfo_Name self)) ?sh)" "PoolInfo_Name p = x"
      "ni \<in> set (?infos p)" "?fits (NodeInfo_Clone ni)" by blast
    obtain m item where "m \<in> set (nord p)" "fmlookup (pi_nodes p) m = Some item" "ni = info_of (heap c) item" using infos[THEN iffD1, OF p(3)] by blast
    then have "offers predOrd nord from pod preds (heap c) self p" using sh[THEN iffD1, OF p(1)] p(4) unfolding offers_def by auto
    then show ?thesis using p(1,2) sh False res(2) Some by auto
  qed
qed

definition example_sort :: "('a \<Rightarrow> 'a \<Rightarrow> bool) \<Rightarrow> 'a list \<Rightarrow> 'a list" where
  "example_sort lt xs = foldr (\<lambda>x ys. takeWhile (\<lambda>y. lt y x) ys @ x # dropWhile (\<lambda>y. lt y x) ys) xs []"

lemma set_example_sort: "set (example_sort lt xs) = set xs"
proof (induction xs)
  case (Cons x xs)
  have "set (takeWhile P ys) \<union> set (dropWhile P ys) = set ys" for P and ys :: "'a list"
    by (metis set_append takeWhile_dropWhile_id)
  then show ?case using Cons by (auto simp: example_sort_def)
qed (simp add: example_sort_def)

text \<open>A pool without nodes, whose pods may borrow from every pool.\<close>

definition borrower :: Pool where
  "borrower = \<lparr>pool_Name = ''h'', pool_Spec = zero_PoolSpec\<rparr>"

theorem BorrowPool_allowed_witness:
  "\<exists>c c1. AddPool example_k8s example_orders (Some example_group) example_cache = Some (c, None) \<and>
     AddNode example_k8s [''g'', DefaultPoolName] (example_node ''n1'') c = Some c1 \<and>
     BorrowPool example_sort [''HostName''] [''g'', ''h''] (\<lambda>_. [''n1'']) ''h'' (zero_Pod\<lparr>pod_Annotations := [(GroupNameAnnotationKey, ''h'')]\<rparr>)
       (fmap_of_list [(''HostName'', PodFitsHost :: unit FitPredicate)]) (with_pool example_k8s borrower c1) = Some ''g''"
proof -
  obtain c c1 ni where c: "(cache_step example_k8s)\<^sup>*\<^sup>* example_cache c1" "AddPool example_k8s example_orders (Some example_group) example_cache = Some (c, None)"
    "AddNode example_k8s [''g'', DefaultPoolName] (example_node ''n1'') c = Some c1" "view c1 ''g'' ''n1'' = Some ni" "ni_node ni = Some (example_node ''n1'')"
    "same_pools c c1" by (rule example_grouped_node) (rule that)
  have c0: "c = with_pool example_k8s example_group example_cache" using c(2) example_with_pool(1)[of example_group] by (simp add: example_group_def)
  let ?pod = "zero_Pod\<lparr>pod_Annotations := [(GroupNameAnnotationKey, ''h'')]\<rparr>" and ?preds = "fmap_of_list [(''HostName'', PodFitsHost :: unit FitPredicate)]"
  let ?c = "with_pool example_k8s borrower c1" and ?h = "SetPool (NewPoolInfo example_k8s) borrower" and ?nord = "\<lambda>_ :: PoolInfo. [''n1'']"
  let ?B = "BorrowPool example_sort [''HostName''] [''g'', ''h''] ?nord ''h'' ?pod ?preds ?c"
  have ok: "pools_ok c1" using cache_invD(1)[OF goodD(1)[OF cache_history_good]] c(1) by (auto simp: example_cache_def)
  obtain g item where g: "fmlookup (pools c1) ''g'' = Some g" "fmlookup (pi_nodes g) ''n1'' = Some item" "info_of (heap c1) item = ni"
    using c(4) by (auto simp: view_def item_at_def bind_eq_Some_conv)
  have old: "fmlookup (pools c) ''g'' = Some (SetPool (NewPoolInfo example_k8s) example_group)" "fmlookup (pools c) ''h'' = None"
    by (simp_all add: c0 with_pool_def example_cache_def newSchedulerCache_def example_group_def DefaultPoolName_def)
  have same: "map_option pi_pool (fmlookup (pools c1) pn) = map_option pi_pool (fmlookup (pools c) pn)" for pn using c(6) by (simp add: same_pools_def)
  have gp: "pi_pool g = Some example_group" using same[of "''g''"] old(1) g(1) by (simp add: SetPool_def)
  have "fmlookup (pools c1) ''h'' = None" using same[of "''h''"] old(2) by simp
  then have P: "fmlookup (pools ?c) ''g'' = Some g" "fmlookup (pools ?c) ''h'' = Some ?h" "heap ?c = heap c1"
    using g(1) by (simp_all add: with_pool_def borrower_def)
  have self: "matchPoolForPod [''g'', ''h''] ?pod ?c = Some ''h''"
    using P by (simp add: matchPoolForPod_def zero_Pod_def GetPodAnnotationsPoolName_def)
  have names: "PoolInfo_Name g = ''g''" "PoolInfo_Name ?h = ''h''" by (simp_all add: PoolInfo_Name_def gp example_group_def SetPool_def borrower_def)
  have fits: "fst (predicateCheck [''HostName''] ?pod x ?preds)" for x by (simp add: predicateCheck_def PodFitsHost_def zero_Pod_def)
  have may: "may_use ?h g" "\<not> DisableBorrowing ?h"
    by (simp_all add: may_use_def DisableSharing_def DisableBorrowing_def gp SetPool_def borrower_def example_group_def zero_PoolSpec_def)
  have "pi_nodes ?h = fmempty" by (simp add: SetPool_def NewPoolInfo_def)
  then have "\<exists>n. ?B = Some n" using self g c(5) P names fits by (auto simp: BorrowPool_def Let_def List.map_filter_def example_sort_def)
  then obtain n where r: "?B = Some n" by blast
  have o: "offers [''HostName''] ?nord ''h'' ?pod ?preds (heap ?c) ?h g" using names may(1) g fits by (simp add: offers_def)
  have "\<forall>lt xs. set (example_sort lt xs) = set (xs :: PoolInfo list)" by (simp add: set_example_sort)
  from BorrowPool_allowed[OF this self P(2) r] have "n = ''g''"
    using o P names may(2) by (auto simp: offers_def)
  then show ?thesis using c(2,3) r by blast
qed

text \<open>
  The order in which \<open>BorrowPool\<close> tries the pools. Its comparison of two pools by their idle resources is
  not an order: of two pools of which one has more idle memory and the other more idle CPU, each comes
  before the other, so what \<open>sort.Sort\<close> returns for them is unspecified.
\<close>

theorem higherIdle_not_order:
  "\<exists>p1 p2. higherIdleFunc ''q'' p1 p2 \<and> higherIdleFunc ''q'' p2 p1"
proof -
  let ?p = "\<lambda>r. (NewPoolInfo example_k8s)\<lparr>pi_allocatable := r\<rparr>"
  let ?p1 = "?p (emptyResource\<lparr>MilliCPU := 1\<rparr>)" and ?p2 = "?p (emptyResource\<lparr>Memory := 1\<rparr>)"
  have "Idle ?p1 = emptyResource\<lparr>MilliCPU := 1\<rparr>" "Idle ?p2 = emptyResource\<lparr>Memory := 1\<rparr>"
    by (simp_all add: Idle_def NewPoolInfo_def Sub_def Resource_Clone_def emptyResource_def combine_scalars_def scalar_map_def)
  moreover have "\<not> (1 :: int64) \<le>s 0" by (simp add: word_sle_eq)
  ultimately have "higherIdleFunc ''q'' ?p1 ?p2 \<and> higherIdleFunc ''q'' ?p2 ?p1"
    by (simp add: higherIdleFunc_def LessOrEqual_def PoolInfo_Name_def NewPoolInfo_def emptyResource_def)
  then show ?thesis by blast
qed

end
