(* ===== verification/Scheduler_Runs.thy ===== *)
theory Scheduler_Runs
  imports Event_Handlers Cache_Properties Search_Runs
begin

text \<open>
  Runs of the whole scheduler: rounds of the scheduling loops, tasks and event handlers in any order.
\<close>

subsection \<open>What a scheduling round does to the cache\<close>

definition cache_kept :: "k8s \<Rightarrow> schedulerCache \<Rightarrow> schedulerCache \<Rightarrow> bool" where
  "cache_kept L c c' \<longleftrightarrow> cache_good L c' \<and> status c' = status c \<and> same_pools c c'"

lemma cache_kept_refl [simp]: "cache_kept L c c = cache_good L c"
  by (simp add: cache_kept_def)

lemma cache_kept_trans: "cache_kept L c c1 \<Longrightarrow> cache_kept L c1 c2 \<Longrightarrow> cache_kept L c c2"
  using same_trans(2) by (auto simp: cache_kept_def)

text \<open>\<open>RemoveNode\<close> with any object: it removes the node from the pool that the object matches, if the node is there.\<close>

lemma RemoveNode_elsewhere:
  assumes inv: "cache_inv c" and m: "matchPoolForNode L ord (Some node) c = Some pn" and v: "view c pn (node_Name node) = None"
  shows "RemoveNode L ord node c = Some (c, Some (PoolError (NodeNotFound (node_Name node))))"
proof -
  obtain p where p: "fmlookup (pools c) pn = Some p" using matchPoolForNode_pool[OF cache_invD(1)[OF inv]] m by (metis option.inject)
  have "fmlookup (pi_nodes p) (node_Name node) = None" using v view_pool[OF p] by (simp add: pool_view_def)
  then have "on_pool (Some pn) (\<lambda>q st. PoolInfo_RemoveNode L q node st) c = Some (c, Some (NodeNotFound (node_Name node)))"
    using p by (simp add: on_pool_def PoolInfo_RemoveNode_def fmupd_triv)
  then show ?thesis unfolding RemoveNode_def m by simp
qed

lemma RemoveNode_kept:
  assumes good: "cache_good L c" and r: "RemoveNode L ord node c = Some (c', e)"
  shows "cache_kept L c c'"
proof -
  note inv = goodD(1)[OF good]
  obtain pn where m: "matchPoolForNode L ord (Some node) c = Some pn" using matchPoolForNode_pool[OF cache_invD(1)[OF inv]] by metis
  show ?thesis
  proof (cases "view c pn (node_Name node) = None")
    case True
    then show ?thesis using RemoveNode_elsewhere[OF inv m True] r good by simp
  next
    case False
    then have home: "matchPoolForNode L ord (Some node) c = Some qn" if "view c qn (node_Name node) \<noteq> None" for qn
      using that cache_invD(2)[OF inv] m unfolding one_pool_def by metis
    show ?thesis
    proof (rule RemoveNode_step[OF inv home])
      fix c2 e2 qn w
      assume a: "RemoveNode L ord node c = Some (c2, e2)" "cache_inv c2" "status c2 = status c" "same_pools c c2"
        "touched c qn (node_Name node) w c2" "Option.bind w ni_node = None"
      have "placed L c2" by (rule placed_touched[OF goodD(2)[OF good] a(5)]) (use a(6) in auto)
      then show "cache_kept L c c'" using a(1-4) r by (simp add: cache_kept_def cache_good_def)
    qed
  qed
qed

lemma set_tree_kept:
  assumes good: "cache_good L c" and t: "tree_inv nt"
  shows "cache_kept L c (set_tree pn nt c)"
proof (cases "fmlookup (pools c) pn")
  case None
  then show ?thesis using good by (simp add: set_tree_def)
next
  case (Some p)
  let ?c = "set_tree pn nt c"
  note inv = goodD(1)[OF good] and I = cache_invD[OF goodD(1)[OF good]]
  have c: "?c = c\<lparr>pools := fmupd pn (p\<lparr>nodeTree := nt\<rparr>) (pools c)\<rparr>" by (simp add: set_tree_def Some)
  have i: "item_at ?c qn n = item_at c qn n" for qn n using Some by (cases "qn = pn") (simp_all add: c item_at_def)
  have v: "view ?c = view c" by (simp add: fun_eq_iff view_def i) (simp add: c)
  have sp: "same_pools c ?c" by (simp add: c same_pools_def Some)
  have "pools_ok ?c"
    using I(1) t Some unfolding pools_ok_def i v by (auto simp: c PoolInfo_Name_def)
  then have "cache_inv ?c" "status ?c = status c" using same_views_keep[OF inv _ _ v] by (simp_all add: c same_pods_def)
  moreover have "nodes_same c ?c" using sp by (simp add: nodes_same_def v)
  ultimately show ?thesis using sp good_nodes[OF good] by (simp add: cache_kept_def)
qed

lemma snapshot_kept:
  assumes "cache_good L c" "cache_UpdateNodeInfoSnapshot bal pn c = Some (c', e)"
  shows "cache_kept L c c'"
  using cache_snapshot_step[OF goodD(1)[OF assms(1)] assms(2)] good_nodes[OF assms(1)]
  by (simp add: cache_kept_def nodes_same_def)

lemma findNodesThatFit_kept:
  assumes good: "cache_good L c" and r: "findNodesThatFit L qord g acts gs pq poolName pod nodeList c = Some (c', e)"
  shows "cache_kept L c c'"
proof -
  obtain p where p: "fmlookup (pools c) poolName = Some p" using r by (auto simp: findNodesThatFit_def bind_eq_Some_conv)
  note t = pools_okD(4)[OF cache_invD(1)[OF goodD(1)[OF good]] p]
  show ?thesis
  proof (cases "fmdom (predicates gs) = {||}")
    case True
    then show ?thesis using r p good by (simp add: findNodesThatFit_def Let_def)
  next
    case False
    obtain check infos N n s where s: "search_run check infos N n acts (search_start (nodeTree p)) = Some s" "c' = set_tree poolName (sr_tree s) c"
      using r[unfolded findNodesThatFit_def p bind.bind_lunit Let_def if_not_P[OF False]] by (fastforce simp: bind_eq_Some_conv split: if_splits)
    from search_run_inv[OF run_inv_start[OF t], of check infos N n acts] s(1) have "tree_inv (sr_tree s)" by (auto simp: run_inv_def)
    with set_tree_kept[OF good] s(2) show ?thesis by simp
  qed
qed

text \<open>Scoring does not touch the cache.\<close>

lemma Schedule_tail:
  assumes "(case r of
      Inl err \<Rightarrow> Some (gs, c2, Inl err)
    | Inr ([], failed) \<Rightarrow> Some (gs, c2, Inl (e0 failed))
    | Inr ([node], failed) \<Rightarrow> map_option (\<lambda>nd. (gs, c2, Inr (f1 nd failed))) node
    | Inr (filtered, failed) \<Rightarrow>
        Option.bind (those filtered) (\<lambda>fnodes. Option.bind snap (\<lambda>sn. Option.bind (pr fnodes sn) (\<lambda>x. case x of
            Inl err \<Rightarrow> Some (gs, c2, Inl err)
          | Inr priorityList \<Rightarrow> map_option (\<lambda>(gs1, h). (gs1, c2, case h of Inl err \<Rightarrow> Inl (OtherError err) | Inr host \<Rightarrow> Inr (f2 host filtered failed)))
              (sel priorityList))))) = Some (gs', c', e)"
  shows "c' = c2"
proof (cases r)
  case (Inr x)
  obtain filtered failed where x: "x = (filtered, failed)" by fastforce
  show ?thesis
  proof (cases filtered)
    case (Cons a as)
    show ?thesis
    proof (cases as)
      case C: (Cons a2 as2)
      obtain fnodes sn y where y: "those filtered = Some fnodes" "snap = Some sn" "pr fnodes sn = Some y"
        using assms Inr x Cons C by (auto simp: bind_eq_Some_conv simp del: those.simps)
      show ?thesis using assms Inr x Cons C y by (cases y) (auto simp del: those.simps)
    qed (use assms Inr x Cons in auto)
  qed (use assms Inr x in simp)
qed (use assms in simp)

lemma Schedule_kept:
  assumes good: "cache_good L c" and r: "Schedule L bal qord g acts pq poolName pod nodeLister gs c = Some (gs', c', e)"
  shows "cache_kept L c c'"
proof -
  show ?thesis
  proof (cases "podPassesBasicChecks (pvcLister gs) (pod_Namespace pod) (pod_Volumes pod)")
    case None
    show ?thesis
    proof (cases nodeLister)
      case (Inr nodeList)
      show ?thesis
      proof (cases "nodeList = []")
        case False
        note r1 = r[unfolded Schedule_def None Inr option.case sum.case if_not_P[OF False]]
        obtain c1 e1 where s: "cache_UpdateNodeInfoSnapshot bal poolName c = Some (c1, e1)" using r1 by (auto simp: bind_eq_Some_conv)
        note k1 = snapshot_kept[OF good s]
        show ?thesis
        proof (cases e1)
          case N: None
          obtain c2 r2 where f: "findNodesThatFit L qord g acts gs pq poolName pod nodeList c1 = Some (c2, r2)"
            using r1[unfolded s N bind.bind_lunit prod.case option.case] by (auto simp: bind_eq_Some_conv)
          have g1: "cache_good L c1" using k1 by (simp add: cache_kept_def)
          have "c' = c2" using r1[unfolded s N bind.bind_lunit prod.case option.case f] by (rule Schedule_tail)
          then show ?thesis using cache_kept_trans[OF k1 findNodesThatFit_kept[OF g1 f]] by simp
        qed (use r1 s k1 in simp)
      qed (use r None Inr good in \<open>simp add: Schedule_def\<close>)
    qed (use r None good in \<open>simp add: Schedule_def\<close>)
  qed (use r good in \<open>simp add: Schedule_def\<close>)
qed

subsection \<open>Tasks\<close>

fun binding :: "task \<Rightarrow> (Pod \<times> string) option" where
  "binding (Retry poolName pod needBorrow cycle podQueue) = None"
| "binding (BindTo poolName pod host allBound) = Some (pod, host)"

definition bindings :: "('m, 'p) Scheduler \<Rightarrow> (Pod \<times> string) list" where
  "bindings s = List.map_filter binding (sc_tasks s)"

definition bound_uids :: "('m, 'p) Scheduler \<Rightarrow> string list" where
  "bound_uids s = map (pod_UID \<circ> fst) (bindings s)"

text \<open>Every pod that waits to be bound is assumed on its host, without a deadline, and no pod waits twice.\<close>

definition bind_inv :: "k8s \<Rightarrow> ('m, 'p) Scheduler \<Rightarrow> bool" where
  "bind_inv L s \<longleftrightarrow> cache_good L (sc_cache s) \<and> distinct (bound_uids s) \<and>
     (\<forall>(pod, host) \<in> set (bindings s). pod_UID pod \<noteq> [] \<and> host \<noteq> [] \<and> pod_NodeName pod = host \<and> status (sc_cache s) (pod_UID pod) = Assumed host None)"

text \<open>A step that changes at most the states of the pods in \<open>U\<close>, and adds no task but retries.\<close>

definition changes_only :: "k8s \<Rightarrow> string set \<Rightarrow> ('m, 'p) Scheduler \<Rightarrow> ('m, 'p) Scheduler \<Rightarrow> bool" where
  "changes_only L U s s' \<longleftrightarrow> cache_good L (sc_cache s') \<and> same_pools (sc_cache s) (sc_cache s') \<and>
     (\<forall>k. k \<notin> U \<longrightarrow> status (sc_cache s') k = status (sc_cache s) k) \<and> bindings s' = bindings s"

lemma changes_only_refl [simp]: "changes_only L U s s = cache_good L (sc_cache s)"
  by (simp add: changes_only_def)

lemma changes_only_good: "changes_only L U s s' \<Longrightarrow> cache_good L (sc_cache s')"
  by (simp add: changes_only_def)

lemma changes_only_trans: "changes_only L U s s1 \<Longrightarrow> changes_only L V s1 s2 \<Longrightarrow> U \<subseteq> W \<Longrightarrow> V \<subseteq> W \<Longrightarrow> changes_only L W s s2"
  unfolding changes_only_def by (metis same_trans(2) subsetD)

lemma changes_only_covers: "changes_only L U s s' \<Longrightarrow> covers ord (sc_cache s') = covers ord (sc_cache s)"
  using covers_same by (simp add: changes_only_def)

lemma changes_only_cache: "cache_kept L (sc_cache s) c \<Longrightarrow> changes_only L U s (s\<lparr>sc_cache := c\<rparr>)"
  by (simp add: changes_only_def cache_kept_def bindings_def)

lemma changes_only_frame [simp]:
  "changes_only L U s (log_call x s') = changes_only L U s s'"
  "changes_only L U s (s'\<lparr>sc_queue := q\<rparr>) = changes_only L U s s'"
  "changes_only L U s (s'\<lparr>sc_algorithm := gs\<rparr>) = changes_only L U s s'"
  "changes_only L U s (s'\<lparr>sc_backoff := b\<rparr>) = changes_only L U s s'"
  by (simp_all add: changes_only_def log_call_def bindings_def)

lemma bind_inv_changes:
  assumes "bind_inv L s" "changes_only L U s s'" "U \<inter> set (bound_uids s) = {}"
  shows "bind_inv L s'"
proof -
  have "status (sc_cache s') (pod_UID pod) = status (sc_cache s) (pod_UID pod)" if "(pod, host) \<in> set (bindings s)" for pod host
    using assms(2,3) that by (force simp: changes_only_def bound_uids_def)
  then show ?thesis using assms(1,2) by (auto simp: bind_inv_def changes_only_def bound_uids_def)
qed

definition retries :: "string \<Rightarrow> Pod \<Rightarrow> bool \<Rightarrow> PoolQueue \<Rightarrow> task list" where
  "retries n pod nb pq = (case fmlookup (queues pq) n of None \<Rightarrow> [] | Some q \<Rightarrow> [Retry n pod nb (schedulingCycle q) InPool])"

lemma handle_error_effect:
  assumes "handle_error cf v n pod err nb s = Some s'"
  shows "\<exists>c b. (c = sc_cache s \<or> (\<exists>node e. RemoveNode (cf_k8s cf) (vs_pools' v) node (sc_cache s) = Some (c, e))) \<and>
    s' = s\<lparr>sc_cache := c, sc_backoff := b, sc_tasks := sc_tasks s @ retries n pod nb (sc_queue s)\<rparr>"
proof -
  let ?clean = "case err of
         FNodeNotFound nodeName \<Rightarrow>
           (if NodeStillMissing (cf_api cf) nodeName
            then map_option (\<lambda>(c, _). s\<lparr>sc_cache := c\<rparr>) (RemoveNode (cf_k8s cf) (vs_pools' v) (zero_Node\<lparr>node_Name := nodeName\<rparr>) (sc_cache s))
            else Some s)
       | _ \<Rightarrow> Some s"
  obtain s1 where s1: "?clean = Some s1" using assms by (cases ?clean) (auto simp: handle_error_def)
  note r = assms[unfolded handle_error_def s1 bind.bind_lunit]
  obtain b where b: "Gc (vs_now v) (sc_backoff s1) = Some b" using r by (cases "Gc (vs_now v) (sc_backoff s1)") auto
  have s': "s' = s1\<lparr>sc_backoff := b, sc_tasks := sc_tasks s1 @ retries n pod nb (sc_queue s1)\<rparr>"
    using r b by (cases "fmlookup (queues (sc_queue s1)) n") (auto simp: GetQueue_def retries_def)
  obtain c where "s1 = s\<lparr>sc_cache := c\<rparr>" "c = sc_cache s \<or> (\<exists>node e. RemoveNode (cf_k8s cf) (vs_pools' v) node (sc_cache s) = Some (c, e))"
  proof (cases "s1 = s")
    case False
    then show thesis using s1 by (auto intro: that split: failure.splits if_splits)
  qed (use that[of "sc_cache s"] in simp)
  then show ?thesis using s' by auto
qed

lemma handle_error_changes:
  assumes "cache_good L (sc_cache s)" "cf_k8s cf = L" "handle_error cf v n pod err nb s = Some s'"
  shows "changes_only L U s s'"
proof -
  obtain c b where c: "c = sc_cache s \<or> (\<exists>node e. RemoveNode (cf_k8s cf) (vs_pools' v) node (sc_cache s) = Some (c, e))"
    "s' = s\<lparr>sc_cache := c, sc_backoff := b, sc_tasks := sc_tasks s @ retries n pod nb (sc_queue s)\<rparr>"
    using handle_error_effect[OF assms(3)] by blast
  have "cache_kept L (sc_cache s) c" using c(1) assms(1,2) RemoveNode_kept by auto
  then show ?thesis by (auto simp: c(2) changes_only_def cache_kept_def bindings_def List.map_filter_def retries_def split: option.splits)
qed

lemma recordSchedulingFailure_changes:
  assumes "cache_good L (sc_cache s)" "cf_k8s cf = L" "recordSchedulingFailure cf v n pod err reason nb s = Some s'"
  shows "changes_only L U s s'"
  using assms(3) handle_error_changes[OF assms(1,2)] by (auto simp: recordSchedulingFailure_def)

lemma forget_changes:
  assumes good: "cache_good L (sc_cache s)" and cf: "cf_k8s cf = L" "covers (vs_pools v) (sc_cache s)" "pod_UID pod \<noteq> []"
    and r: "forget cf v pod s = Some s'"
  shows "changes_only L {pod_UID pod} s s'"
proof -
  obtain c e where c: "ForgetPod L (vs_pools v) pod (sc_cache s) = Some (c, e)" "s' = s\<lparr>sc_cache := c\<rparr>" using r cf(1) by (auto simp: forget_def)
  note inv = goodD(1)[OF good]
  have "cache_good L c" by (rule pod_steps_good(2)[OF good cf(2,2,3) c(1)])
  moreover have "same_pools (sc_cache s) c \<and> (\<forall>k. k \<noteq> pod_UID pod \<longrightarrow> status c k = status (sc_cache s) k)"
  proof (cases "\<exists>dl. status (sc_cache s) (pod_UID pod) = Assumed (pod_NodeName pod) dl")
    case True
    then show ?thesis using ForgetPod_step(1)[OF inv cf(2,3), of _ L] c(1) by auto
  next
    case False
    then show ?thesis using ForgetPod_step(2)[OF inv cf(2,3), of L] c(1) by auto
  qed
  ultimately show ?thesis by (simp add: changes_only_def c(2) bindings_def)
qed

lemma finishBinding_changes:
  assumes good: "cache_good L (sc_cache s)" and u: "pod_UID pod \<noteq> []"
  shows "changes_only L {pod_UID pod} s (s\<lparr>sc_cache := fst (finishBinding pod now (sc_cache s))\<rparr>)"
proof -
  obtain c where c: "finishBinding pod now (sc_cache s) = (c, None)" "cache_inv c" "same_pools (sc_cache s) c"
    "status c = (case status (sc_cache s) (pod_UID pod) of
       Assumed n dl \<Rightarrow> (status (sc_cache s))(pod_UID pod := Assumed n (Some (time_Add now (ttl (sc_cache s))))) | _ \<Rightarrow> status (sc_cache s))"
    using finishBinding_step[OF goodD(1)[OF good] u] by blast
  have "cache_good L c" by (rule cache_step_good[OF step_FinishBinding[OF u c(1)] good])
  then show ?thesis using c by (auto simp: changes_only_def bindings_def split: pod_status.splits)
qed

lemma forget_record_changes:
  assumes good: "cache_good L (sc_cache s)" and cf: "cf_k8s cf = L" "covers (vs_pools v) (sc_cache s)" "pod_UID pod \<noteq> []"
    and r: "Option.bind (forget cf v pod s) (\<lambda>s1. map_option (\<lambda>s2. (s2, Some err)) (recordSchedulingFailure cf v n pod err reason False s1)) = Some (s', e)"
  shows "changes_only L {pod_UID pod} s s'"
proof -
  obtain s1 where s1: "forget cf v pod s = Some s1" "recordSchedulingFailure cf v n pod err reason False s1 = Some s'"
    using r by (auto simp: bind_eq_Some_conv)
  note f = forget_changes[OF good cf s1(1)]
  show ?thesis
    by (rule changes_only_trans[OF f recordSchedulingFailure_changes[OF changes_only_good[OF f] cf(1) s1(2), where U = "{}"]]) auto
qed

lemma bindVolumes_changes:
  assumes good: "cache_good L (sc_cache s)" and cf: "cf_k8s cf = L" "covers (vs_pools v) (sc_cache s)" "pod_UID pod \<noteq> []"
    and r: "bindVolumes cf v n pod s = Some (s', e)"
  shows "changes_only L {pod_UID pod} s s'"
proof (cases "BindPodVolumes (cf_api cf) pod")
  case None
  then show ?thesis using r good by (simp add: bindVolumes_def)
next
  case (Some err)
  show ?thesis by (rule forget_record_changes[OF good cf]) (use r[unfolded bindVolumes_def Some option.case] in assumption)
qed

lemma bind_pod_changes:
  assumes good: "cache_good L (sc_cache s)" and cf: "cf_k8s cf = L" "covers (vs_pools v) (sc_cache s)" "pod_UID pod \<noteq> []"
    and r: "bind_pod cf v n pod host s = Some (s', e)"
  shows "changes_only L {pod_UID pod} s s'"
proof -
  let ?s1 = "log_call (CallBind pod host) s"
  let ?s2 = "?s1\<lparr>sc_cache := fst (finishBinding pod (vs_now v) (sc_cache ?s1))\<rparr>"
  have g1: "cache_good L (sc_cache ?s1)" using good by (simp add: log_call_def)
  have f: "changes_only L {pod_UID pod} s ?s2"
    by (rule changes_only_trans[OF _ finishBinding_changes[OF g1 cf(3)], where U = "{}"]) (use good in simp_all)
  show ?thesis
  proof (cases "Bind (cf_api cf) pod host")
    case None
    then show ?thesis using r f by (simp add: bind_pod_def Let_def)
  next
    case (Some err)
    have "changes_only L {pod_UID pod} ?s2 s'"
      by (rule forget_record_changes[OF changes_only_good[OF f] cf(1) _ cf(3)])
        (use cf(2) changes_only_covers[OF f] r[unfolded bind_pod_def Let_def Some option.case] in auto)
    with changes_only_trans[OF f] show ?thesis by blast
  qed
qed

lemma run_bind_changes:
  assumes good: "cache_good L (sc_cache s)" and cf: "cf_k8s cf = L" "covers (vs_pools v) (sc_cache s)" "pod_UID pod \<noteq> []"
    and r: "run_bind cf v n pod host allBound s = Some (s', e)"
  shows "changes_only L {pod_UID pod} s s'"
proof -
  obtain s1 e1 where s1: "(if allBound then Some (s, None) else bindVolumes cf v n pod s) = Some (s1, e1)"
    using r by (cases "if allBound then Some (s, None) else bindVolumes cf v n pod s") (auto simp: run_bind_def)
  have f: "changes_only L {pod_UID pod} s s1"
    using s1 good bindVolumes_changes[OF good cf] by (auto split: if_splits)
  note r1 = r[unfolded run_bind_def s1 bind.bind_lunit prod.case]
  have c1: "covers (vs_pools v) (sc_cache s1)" using cf(2) changes_only_covers[OF f] by simp
  note g1 = changes_only_good[OF f]
  show ?thesis
  proof (cases e1)
    case None
    have "changes_only L {pod_UID pod} s1 s'"
    proof (cases "prebind (PrebindPlugins (cf_api cf)) pod host")
      case N: None
      show ?thesis by (rule bind_pod_changes[OF g1 cf(1) c1 cf(3)]) (use r1 None N in simp)
    next
      case (Some x)
      show ?thesis by (rule forget_record_changes[OF g1 cf(1) c1 cf(3)]) (use r1[unfolded None Some option.case Let_def] in assumption)
    qed
    with changes_only_trans[OF f] show ?thesis by blast
  qed (use r1 f in simp)
qed

text \<open>A step that changes no more than the contents of the queues and what was called.\<close>

definition quiet :: "('m, 'p) Scheduler \<Rightarrow> ('m, 'p) Scheduler \<Rightarrow> bool" where
  "quiet s s' \<longleftrightarrow> sc_cache s' = sc_cache s \<and> sc_tasks s' = sc_tasks s \<and> sc_algorithm s' = sc_algorithm s \<and>
     fmdom (queues (sc_queue s')) = fmdom (queues (sc_queue s))"

lemma quiet_refl [simp]: "quiet s s" "quiet s (log_call x s)"
  by (simp_all add: quiet_def log_call_def)

lemma quiet_trans [trans]: "quiet s s1 \<Longrightarrow> quiet s1 s2 \<Longrightarrow> quiet s s2"
  by (simp add: quiet_def)

lemma quiet_changes: "quiet s s' \<Longrightarrow> cache_good L (sc_cache s) \<Longrightarrow> changes_only L U s s'"
  by (simp add: quiet_def changes_only_def bindings_def)

lemma quiet_queue:
  assumes "quiet s s'" "fmlookup (queues (sc_queue s)) n \<noteq> None"
  shows "fmlookup (queues (sc_queue s')) n \<noteq> None"
proof -
  have "n |\<in>| fmdom (queues (sc_queue s)) \<longleftrightarrow> n |\<in>| fmdom (queues (sc_queue s'))" using assms(1) by (simp only: quiet_def)
  then show ?thesis using assms(2) by simp
qed

lemma in_queue_quiet: "in_queue n f s = Some s' \<Longrightarrow> quiet s s'"
  by (auto simp: in_queue_def GetQueue_def quiet_def set_queue_def split: option.splits)

lemma delete_victims_quiet: "quiet s (fst (delete_victims cf victims s))"
proof (induction cf victims s rule: delete_victims.induct)
  case (2 cf victim victims s)
  have "quiet s (log_call (CallDelete victim) s)" by simp
  from quiet_trans[OF this 2] show ?case by (auto split: option.splits)
qed simp

lemma SetNominated_quiet: "quiet s (fst (SetNominatedNodeName cf pod nodeName s))"
  by (simp add: SetNominatedNodeName_def Let_def)

lemma clear_nominations_quiet: "quiet s (foldl (RemoveNominatedNodeName cf) s pods)"
proof (induction pods arbitrary: s)
  case (Cons pod pods)
  have "quiet s (RemoveNominatedNodeName cf s pod)" using SetNominated_quiet[of s cf pod "[]"] by (simp add: RemoveNominatedNodeName_def)
  from quiet_trans[OF this Cons.IH] show ?case by simp
qed simp

lemma preempt_quiet:
  assumes r: "preempt cf v n pod err s = (s', res)"
  shows "quiet s s'"
proof (cases "GetUpdatedPod (cf_api cf) pod")
  case (Inr preemptor)
  define r0 where "r0 = Preempt (cf_k8s cf) (sortPods cf) (selectorEmpty cf) (vs_queues v) (vs_nodes v) (vs_victims v) (st_globals (heap (sc_cache s)))
    (sc_algorithm s) (sc_queue s) (sc_cache s) n preemptor err"
  note r1 = r[unfolded preempt_def Inr sum.case Let_def, folded r0_def]
  show ?thesis
  proof (cases "pr_error r0")
    case N: None
    note r2 = r1[unfolded N option.case]
    show ?thesis
    proof (cases "pr_node r0")
      case None
      then show ?thesis using r2 clear_nominations_quiet by auto
    next
      case (Some node)
      note r3 = r2[unfolded Some option.case]
      show ?thesis
      proof (cases "in_queue n (UpdateNominatedPodForNode preemptor (node_Name node)) s")
        case S1: (Some s1)
        obtain s2 e2 where S2: "SetNominatedNodeName cf preemptor (node_Name node) s1 = (s2, e2)" by fastforce
        have c2: "quiet s s2" using quiet_trans[OF in_queue_quiet[OF S1] SetNominated_quiet] S2 by (metis fst_conv)
        note r4 = r3[unfolded S1 option.case S2 prod.case]
        show ?thesis
        proof (cases e2)
          case E: None
          obtain s3 e3 where S3: "delete_victims cf (pr_victims r0) s2 = (s3, e3)" by fastforce
          have c3: "quiet s s3" using quiet_trans[OF c2 delete_victims_quiet] S3 by (metis fst_conv)
          show ?thesis using r4[unfolded E option.case S3 prod.case] c3 quiet_trans[OF c3 clear_nominations_quiet] by (cases e3) auto
        next
          case (Some x)
          then show ?thesis using r4 c2 quiet_trans[OF c2 in_queue_quiet[of n "DeleteNominatedPodIfExists preemptor" s2]]
            by (cases "in_queue n (DeleteNominatedPodIfExists preemptor) s2") auto
        qed
      qed (use r3 in auto)
    qed
  qed (use r1 in auto)
qed (use r in \<open>auto simp: preempt_def\<close>)

lemma foldM_keeps:
  "P s \<Longrightarrow> (\<And>x s s'. P s \<Longrightarrow> f x s = Some s' \<Longrightarrow> P s') \<Longrightarrow> foldM f xs s = Some s' \<Longrightarrow> P s'"
  by (induction xs arbitrary: s) (auto simp: bind_eq_Some_conv)

lemma add_to_queue_dom: "add_to_queue L now n pod pq = Some pq' \<Longrightarrow> fmdom (queues pq') = fmdom (queues pq)"
  by (auto simp: add_to_queue_def set_queue_def split: option.splits)

lemma move_borrowing_dom: "move_borrowing_pod L now n pod pq = Some pq' \<Longrightarrow> fmdom (queues pq') = fmdom (queues pq)"
proof -
  assume r: "move_borrowing_pod L now n pod pq = Some pq'"
  show ?thesis
  proof (cases "matchPoolQueueNameForPod (queues pq) pod \<noteq> n")
    case True
    obtain q where q: "fmlookup (queues pq) n = Some q" using r True by (cases "fmlookup (queues pq) n") (auto simp: move_borrowing_pod_def)
    then obtain q' m where "add_to_queue L now m pod (set_queue n q' pq) = Some pq'"
      using r True by (auto simp: move_borrowing_pod_def Let_def bind_eq_Some_conv)
    then show ?thesis using add_to_queue_dom[of L now m pod "set_queue n q' pq" pq'] q by (auto simp: set_queue_def)
  qed (use r in \<open>simp add: move_borrowing_pod_def\<close>)
qed

lemma MoveBorrowing_dom:
  assumes "MoveAllBorrowingPodsToSelfQueue L now o3 pq n = Some pq'"
  shows "fmdom (queues pq') = fmdom (queues pq)"
proof (cases "fmlookup (queues pq) n")
  case (Some q)
  then have r: "foldM (move_borrowing_pod L now n) (pending o3 q) pq = Some pq'" using assms by (simp add: MoveAllBorrowingPodsToSelfQueue_def)
  show ?thesis
  proof (rule foldM_keeps[OF _ _ r])
    fix x pq1 pq2 assume "fmdom (queues pq1) = fmdom (queues pq)" "move_borrowing_pod L now n x pq1 = Some pq2"
    then show "fmdom (queues pq2) = fmdom (queues pq)" using move_borrowing_dom[of L now n x pq1 pq2] by simp
  qed simp
qed (use assms in \<open>simp add: MoveAllBorrowingPodsToSelfQueue_def\<close>)

lemma try_preempt_quiet:
  assumes r: "try_preempt cf v n pod err s = Some (s', nb)"
  shows "quiet s s'"
proof (cases "\<exists>a b f. err = FitError a b f \<and> PodPriorityEnabled cf \<and> \<not> cf_DisablePreemption cf \<and> GetPoolQueueNameIfNotPresent (sc_queue s) pod = n")
  case True
  let ?r = "case GetPool n (sc_cache s) of
               Inl _ \<Rightarrow> (s, True)
             | Inr p \<Rightarrow> (if DisablePreemption p then (s, True)
                         else case preempt cf v n pod err s of (s1, _, _, nb) \<Rightarrow> (s1, nb))"
  obtain s1 nb1 where s1: "?r = (s1, nb1)" by fastforce
  have "quiet s s1" using s1 preempt_quiet by (fastforce split: sum.splits if_splits prod.splits)
  moreover obtain pq where "MoveAllBorrowingPodsToSelfQueue (cf_k8s cf) (vs_now v) (vs_sub v n) (sc_queue s1) n = Some pq" "s' = s1\<lparr>sc_queue := pq\<rparr>"
    using r True s1 by (auto simp: try_preempt_def Let_def)
  ultimately show ?thesis using MoveBorrowing_dom by (simp add: quiet_def)
next
  case False
  then show ?thesis using r by (auto simp: try_preempt_def split: sched_error.splits if_splits)
qed

subsection \<open>A round\<close>

lemma record_retries:
  assumes "recordSchedulingFailure cf v n pod err reason nb s = Some s'" "fmlookup (queues (sc_queue s)) n \<noteq> None"
  shows "\<exists>cycle. sc_tasks s' = sc_tasks s @ [Retry n pod nb cycle InPool]"
proof -
  obtain s1 where s1: "handle_error cf v n pod err nb s = Some s1" "s' = log_call (CallCondition pod reason err) s1"
    using assms(1) by (auto simp: recordSchedulingFailure_def)
  then show ?thesis using handle_error_effect[OF s1(1)] assms(2) by (auto simp: log_call_def retries_def)
qed

lemma NextPod_queue: "MakeNextPodFunc pq n = Some (pq', NextPod pod) \<Longrightarrow> fmlookup (queues pq') n \<noteq> None"
  by (auto simp: MakeNextPodFunc_def GetQueue_def split: option.splits)

text \<open>What other parties promise: the volume binder does not change the identity of a pod, and nodes have names.\<close>

definition volumes_keep :: "Config \<Rightarrow> bool" where
  "volumes_keep cf \<longleftrightarrow> (\<forall>pod host. pod_UID (fst (AssumePodVolumes (cf_api cf) pod host)) = pod_UID pod)"

definition schedules :: "Config \<Rightarrow> visits \<Rightarrow> string \<Rightarrow> Pod \<Rightarrow> ('m, 'p) Scheduler \<Rightarrow> (('m, 'p) genericScheduler \<times> schedulerCache \<times> (sched_error + ScheduleResult)) option" where
  "schedules cf v n pod s = Schedule (cf_k8s cf) (BalanceAttachedNodeVolumes cf) (vs_queues v) (st_globals (heap (sc_cache s))) (vs_acts v)
     (sc_queue s) n pod (vs_lister v) (sc_algorithm s) (sc_cache s)"

definition hosts_named :: "Config \<Rightarrow> visits \<Rightarrow> string \<Rightarrow> ('m, 'p) Scheduler \<Rightarrow> bool" where
  "hosts_named cf v n s \<longleftrightarrow> (\<forall>pod pq gs c res. MakeNextPodFunc (sc_queue s) n = Some (pq, NextPod pod) \<longrightarrow>
     pod_UID pod \<noteq> [] \<and> (schedules cf v n pod (s\<lparr>sc_queue := pq\<rparr>) = Some (gs, c, Inr res) \<longrightarrow> SuggestedHost res \<noteq> []))"

text \<open>The two ways in which a round deals with its pod while the pool has its queue: the pod is assumed and will be bound, or it will be tried again.
  When the queue is gone the pod is lost: no task knows it, and it may be left assumed.\<close>

definition round_binds :: "k8s \<Rightarrow> string \<Rightarrow> Pod \<Rightarrow> string \<Rightarrow> ('m, 'p) Scheduler \<Rightarrow> ('m, 'p) Scheduler \<Rightarrow> bool" where
  "round_binds L n pod host s s' \<longleftrightarrow> (\<exists>assumed ab. sc_tasks s' = sc_tasks s @ [BindTo n assumed host ab] \<and> pod_UID assumed = pod_UID pod \<and>
     pod_NodeName assumed = host \<and> host \<noteq> [] \<and> cache_good L (sc_cache s') \<and> same_pools (sc_cache s) (sc_cache s') \<and>
     status (sc_cache s) (pod_UID pod) = Initial \<and> status (sc_cache s') = (status (sc_cache s))(pod_UID pod := Assumed host None))"

definition round_retries :: "k8s \<Rightarrow> string \<Rightarrow> Pod \<Rightarrow> ('m, 'p) Scheduler \<Rightarrow> ('m, 'p) Scheduler \<Rightarrow> bool" where
  "round_retries L n pod s s' \<longleftrightarrow> (\<exists>failed nb cycle. sc_tasks s' = sc_tasks s @ [Retry n failed nb cycle InPool] \<and>
     pod_UID failed = pod_UID pod \<and> changes_only L {} s s')"

definition round_loses :: "k8s \<Rightarrow> Pod \<Rightarrow> string \<Rightarrow> ('m, 'p) Scheduler \<Rightarrow> ('m, 'p) Scheduler \<Rightarrow> bool" where
  "round_loses L pod host s s' \<longleftrightarrow> sc_tasks s' = sc_tasks s \<and> (changes_only L {} s s' \<or> host \<noteq> [] \<and> changes_only L {pod_UID pod} s s' \<and>
     status (sc_cache s) (pod_UID pod) = Initial \<and> status (sc_cache s') (pod_UID pod) = Assumed host None)"

lemma record_round_loses:
  assumes "cache_good L (sc_cache s)" "cf_k8s cf = L" "fmlookup (queues (sc_queue s)) n = None"
    "recordSchedulingFailure cf v n failed err reason nb s = Some s'"
  shows "round_loses L pod host s s'"
proof -
  obtain s1 where s1: "handle_error cf v n failed err nb s = Some s1" "s' = log_call (CallCondition failed reason err) s1"
    using assms(4) by (auto simp: recordSchedulingFailure_def)
  have "sc_tasks s' = sc_tasks s" using handle_error_effect[OF s1(1)] s1(2) assms(3) by (auto simp: log_call_def retries_def)
  then show ?thesis using recordSchedulingFailure_changes[OF assms(1,2,4)] by (simp add: round_loses_def)
qed

lemma record_round_retries:
  assumes "cache_good L (sc_cache s)" "cf_k8s cf = L" "fmlookup (queues (sc_queue s)) n \<noteq> None"
    "recordSchedulingFailure cf v n failed err reason nb s = Some s'" "pod_UID failed = pod_UID pod"
  shows "round_retries L n pod s s'"
  using record_retries[OF assms(4,3)] recordSchedulingFailure_changes[OF assms(1,2,4), of "{}"] assms(5) by (auto simp: round_retries_def)

text \<open>What a round that ends with \<open>out\<close> has done with its pod.\<close>

definition round_effect :: "k8s \<Rightarrow> string \<Rightarrow> Pod \<Rightarrow> string \<Rightarrow> ('m, 'p) Scheduler \<Rightarrow> ('m, 'p) Scheduler \<Rightarrow> failure option \<Rightarrow> bool" where
  "round_effect L n pod host s s' out \<longleftrightarrow>
     (if fmlookup (queues (sc_queue s)) n = None then out \<noteq> None \<and> round_loses L pod host s s'
      else if out = None then round_binds L n pod host s s' else round_retries L n pod s s')"

lemma record_effect:
  assumes "cache_good L (sc_cache s)" "cf_k8s cf = L" "recordSchedulingFailure cf v n failed err reason nb s = Some s'" "pod_UID failed = pod_UID pod"
  shows "round_effect L n pod host s s' (Some x)"
  using record_round_loses[OF assms(1,2) _ assms(3)] record_round_retries[OF assms(1,2) _ assms(3,4)] by (simp add: round_effect_def)

lemma assume_pod_effect:
  assumes good: "cache_good L (sc_cache s)" and cf: "cf_k8s cf = L" "covers (vs_pools v) (sc_cache s)" and u: "pod_UID pod \<noteq> []" "host \<noteq> []"
    and r: "assume_pod cf v n pod host s = Some (s', assumed, e)"
  shows "round_effect L n pod host s (if e = None then s'\<lparr>sc_tasks := sc_tasks s' @ [BindTo n assumed host ab]\<rparr> else s') e"
proof -
  let ?pod = "pod\<lparr>pod_NodeName := host\<rparr>"
  note inv = goodD(1)[OF good]
  have n: "pod_NodeName ?pod \<noteq> []" "pod_UID ?pod \<noteq> []" using u by simp_all
  show ?thesis
  proof (cases "status (sc_cache s) (pod_UID pod) = Initial")
    case True
    then obtain c where c: "AssumePod L (vs_pools v) ?pod (sc_cache s) = Some (c, None)" "same_pools (sc_cache s) c"
      "status c = (status (sc_cache s))(pod_UID pod := Assumed host None)"
      using AssumePod_step(1)[OF inv cf(2) n, of L] by auto
    have g: "cache_good L c" by (rule pod_steps_good(1)[OF good cf(2,2) n(2,1) c(1)])
    let ?s1 = "s\<lparr>sc_cache := c\<rparr>"
    show ?thesis
    proof (cases "in_queue n (DeleteNominatedPodIfExists ?pod) ?s1")
      case (Some s2)
      then have "s' = s2 \<and> assumed = ?pod \<and> e = None" using r cf(1) c(1) by (simp add: assume_pod_def)
      moreover have "fmlookup (queues (sc_queue s)) n \<noteq> None" using Some by (auto simp: in_queue_def GetQueue_def split: option.splits)
      ultimately show ?thesis using in_queue_quiet[OF Some] c g True u(2) by (simp add: quiet_def round_effect_def round_binds_def)
    next
      case None
      then have "s' = ?s1 \<and> e \<noteq> None" using r cf(1) c(1) by (auto simp: assume_pod_def)
      moreover have "fmlookup (queues (sc_queue s)) n = None" using None by (auto simp: in_queue_def GetQueue_def split: option.splits)
      ultimately show ?thesis using c g True u(2) by (auto simp: round_effect_def round_loses_def changes_only_def bindings_def)
    qed
  next
    case False
    then have c: "AssumePod L (vs_pools v) ?pod (sc_cache s) = Some (sc_cache s, Some (AlreadyInCache (pod_UID pod)))"
      using AssumePod_step(2)[OF inv cf(2) n, of L] by simp
    let ?e = "FCache (AlreadyInCache (pod_UID pod))"
    have "recordSchedulingFailure cf v n ?pod ?e SchedulerError False s = Some s' \<and> e = Some ?e"
      using r cf(1) c by (auto simp: assume_pod_def Let_def)
    then show ?thesis using record_effect[OF good cf(1)] by auto
  qed
qed

lemma round_effect_cong: "pod_UID pod' = pod_UID pod \<Longrightarrow> round_effect L n pod' host s s' e = round_effect L n pod host s s' e"
  by (simp add: round_effect_def round_binds_def round_retries_def round_loses_def)

lemma place_pod_effect:
  assumes good: "cache_good L (sc_cache s)" and cf: "cf_k8s cf = L" "covers (vs_pools v) (sc_cache s)" "volumes_keep cf"
    and u: "pod_UID pod \<noteq> []" "host \<noteq> []" and r: "place_pod cf v n pod host s = Some (s', out)"
  shows "\<exists>e. out = Round e \<and> round_effect L n pod host s s' e"
proof -
  obtain pod' vr where vr: "AssumePodVolumes (cf_api cf) pod host = (pod', vr)" by fastforce
  have u': "pod_UID pod' = pod_UID pod" using cf(3) vr by (metis volumes_keep_def fst_conv)
  show ?thesis
  proof (cases vr)
    case (Inl err)
    then have "recordSchedulingFailure cf v n pod' (FApi err) SchedulerError False s = Some s' \<and> out = Round (Some (FApi err))"
      using r vr by (auto simp: place_pod_def assumeVolumes_def bind_eq_Some_conv)
    then show ?thesis using record_effect[OF good cf(1) _ u'] by blast
  next
    case (Inr allBound)
    note r1 = r[unfolded place_pod_def assumeVolumes_def vr prod.case Inr sum.case bind.bind_lunit]
    show ?thesis
    proof (cases "reserve (ReservePlugins (cf_api cf)) pod' host")
      case (Some err)
      then show ?thesis using r1 record_effect[OF good cf(1) _ u'] by auto
    next
      case None
      obtain s3 assumed e where a: "assume_pod cf v n pod' host s = Some (s3, assumed, e)"
        "(s', out) = (case e of Some err \<Rightarrow> (s3, Round (Some err)) | None \<Rightarrow> (s3\<lparr>sc_tasks := sc_tasks s3 @ [BindTo n assumed host allBound]\<rparr>, Round None))"
        using r1 None by auto
      note E = assume_pod_effect[OF good cf(1,2) _ u(2) a(1), of allBound, unfolded round_effect_cong[OF u']]
      show ?thesis using a(2) E u u' by (cases e) auto
    qed
  qed
qed

lemma round_after:
  assumes c: "changes_only L {} s s1" "sc_tasks s1 = sc_tasks s" "fmdom (queues (sc_queue s1)) = fmdom (queues (sc_queue s))" and r: "round_effect L n pod host s1 s' e"
  shows "round_effect L n pod host s s' e"
proof -
  have st: "status (sc_cache s1) = status (sc_cache s)" "same_pools (sc_cache s) (sc_cache s1)" using c(1) by (auto simp: changes_only_def)
  have "round_binds L n pod host s1 s' \<Longrightarrow> round_binds L n pod host s s'" using st c(2) same_trans(2)[OF st(2)] by (auto simp: round_binds_def)
  moreover have "round_retries L n pod s1 s' \<Longrightarrow> round_retries L n pod s s'"
    using c(2) changes_only_trans[OF c(1), of "{}" s' "{}"] by (auto simp: round_retries_def)
  moreover have "round_loses L pod host s1 s' \<Longrightarrow> round_loses L pod host s s'"
    using c(2) st(1) changes_only_trans[OF c(1), of _ s'] unfolding round_loses_def by (metis empty_subsetI order_refl)
  moreover have "fmlookup (queues (sc_queue s1)) n = None \<longleftrightarrow> fmlookup (queues (sc_queue s)) n = None"
    using c(3) by (metis fmdom_notD fmdom_notI)
  ultimately show ?thesis using r unfolding round_effect_def by presburger
qed

lemma finish_round_effect:
  assumes good: "cache_good L (sc_cache s)" and cf: "cf_k8s cf = L" "covers (vs_pools v) (sc_cache s)" "volumes_keep cf"
    and u: "pod_UID pod \<noteq> []" "\<And>res. dec = Inr res \<Longrightarrow> SuggestedHost res \<noteq> []" and r: "finish_round cf v n pod dec s = Some (s', out)"
  shows "\<exists>e. out = Round e \<and> round_effect L n pod (case dec of Inl _ \<Rightarrow> [] | Inr res \<Rightarrow> SuggestedHost res) s s' e"
proof (cases dec)
  case (Inl err)
  obtain s2 nb where p: "try_preempt cf v n pod err s = Some (s2, nb)"
    "recordSchedulingFailure cf v n pod (FSchedule err) PodReasonUnschedulable nb s2 = Some s'" "out = Round (Some (FSchedule err))"
    using r Inl by (auto simp: finish_round_def bind_eq_Some_conv)
  note Q = try_preempt_quiet[OF p(1)]
  have g2: "cache_good L (sc_cache s2)" using Q good by (simp add: quiet_def)
  note record_effect[OF g2 cf(1) p(2) refl]
  from round_after[OF quiet_changes[OF Q good] _ _ this] Q p(3) Inl show ?thesis by (auto simp: quiet_def)
next
  case (Inr res)
  then show ?thesis using place_pod_effect[OF good cf u(1) u(2)[OF Inr]] r by (simp add: finish_round_def)
qed

text \<open>The first part of a round, which takes a pod from its queue and decides about it.\<close>

lemma decision_changes:
  assumes good: "cache_good L (sc_cache s)" and cf: "cf_k8s cf = L" and S: "schedules cf v n pod (s\<lparr>sc_queue := pq\<rparr>) = Some (gs, c, dec)"
  shows "changes_only L {} s (s\<lparr>sc_queue := pq, sc_algorithm := gs, sc_cache := c\<rparr>)"
proof -
  have "cache_kept L (sc_cache s) c" using S Schedule_kept[OF good[folded cf]] cf by (auto simp: schedules_def)
  then show ?thesis by (simp add: cache_kept_def changes_only_def bindings_def)
qed

lemma scheduleOne_split:
  assumes "MakeNextPodFunc (sc_queue s) n = Some (pq, NextPod pod)" "pod_DeletionTimestamp pod = None"
  shows "scheduleOne cf v n s = Option.bind (schedules cf v n pod (s\<lparr>sc_queue := pq\<rparr>)) (\<lambda>(gs, c, dec).
    finish_round cf v n pod dec (s\<lparr>sc_queue := pq, sc_algorithm := gs, sc_cache := c\<rparr>))"
  using assms by (simp add: scheduleOne_def schedules_def)

lemma scheduleOne_idle:
  assumes "scheduleOne cf v n s = Some (s', out)" "\<nexists>pq pod. MakeNextPodFunc (sc_queue s) n = Some (pq, NextPod pod) \<and> pod_DeletionTimestamp pod = None"
  shows "\<exists>pq. s' = s\<lparr>sc_queue := pq\<rparr>"
proof -
  obtain pq nr where m: "MakeNextPodFunc (sc_queue s) n = Some (pq, nr)" using assms(1) by (auto simp: scheduleOne_def bind_eq_Some_conv)
  then show ?thesis using assms by (cases nr) (auto simp: scheduleOne_def Let_def)
qed

subsection \<open>Runs\<close>

text \<open>The steps of the scheduler. A round is made of two steps, between which other steps may come: the decision, which takes a pod from its queue and runs the
  algorithm, and the rest, which here may follow for any decision about any pod, made at any time. A round without steps in between is
  a step as well. Orders visit every pool once.

  The guards: pods have a UID and nodes that are suggested have a name. An object that the informers report is as the cache steps
  require it (see \<open>cache_step\<close>), except that nodes are removed with any object. The API server reports a pod as assigned only after it was bound, so such an addition never concerns a pod that still waits
  to be bound.\<close>

inductive sched_step :: "Config \<Rightarrow> ('m, 'p) Scheduler \<Rightarrow> ('m, 'p) Scheduler \<Rightarrow> bool" for cf where
  StepRound: "covers (vs_pools v) (sc_cache s) \<Longrightarrow> hosts_named cf v n s \<Longrightarrow> scheduleOne cf v n s = Some (s', out) \<Longrightarrow> sched_step cf s s'"
| StepDecide: "MakeNextPodFunc (sc_queue s) n = Some (pq, NextPod pod) \<Longrightarrow> pod_DeletionTimestamp pod = None \<Longrightarrow>
    schedules cf v n pod (s\<lparr>sc_queue := pq\<rparr>) = Some (gs, c, dec) \<Longrightarrow> sched_step cf s (s\<lparr>sc_queue := pq, sc_algorithm := gs, sc_cache := c\<rparr>)"
| StepFinish: "covers (vs_pools v) (sc_cache s) \<Longrightarrow> pod_UID pod \<noteq> [] \<Longrightarrow> \<forall>res. dec = Inr res \<longrightarrow> SuggestedHost res \<noteq> [] \<Longrightarrow>
    finish_round cf v n pod dec s = Some (s', out) \<Longrightarrow> sched_step cf s s'"
| StepTask: "covers (vs_pools v) (sc_cache s) \<Longrightarrow> run_task cf v waited answers i s = Some s' \<Longrightarrow> sched_step cf s s'"
| StepCleanup: "\<forall>k. covers (ords k) (sc_cache s) \<Longrightarrow> cleanupAssumedPods (cf_k8s cf) kord ords now (sc_cache s) = Some c \<Longrightarrow>
    sched_step cf s (s\<lparr>sc_cache := c\<rparr>)"
| StepVolumes: "move_all cf v s = Some s' \<Longrightarrow> sched_step cf s s'"
| StepQueued: "addPodToSchedulingQueue cf v pod s = Some s' \<Longrightarrow> sched_step cf s s'"
| StepRequeued: "updatePodInSchedulingQueue cf v old pod s = Some s' \<Longrightarrow> sched_step cf s s'"
| StepUnqueued: "deletePodFromSchedulingQueue cf v d s = Some s' \<Longrightarrow> sched_step cf s s'"
| StepPodAdd: "covers (vs_pools v) (sc_cache s) \<Longrightarrow> covers (vs_pools' v) (sc_cache s) \<Longrightarrow> assignedPod pod \<Longrightarrow> pod_UID pod \<noteq> [] \<Longrightarrow>
    pod_UID pod \<notin> set (bound_uids s) \<Longrightarrow> addPodToCache cf v pod s = Some s' \<Longrightarrow> sched_step cf s s'"
| StepPodUpdate: "covers (vs_pools v) (sc_cache s) \<Longrightarrow> covers (vs_pools' v) (sc_cache s) \<Longrightarrow> assignedPod pod \<Longrightarrow> pod_UID pod \<noteq> [] \<Longrightarrow>
    pod_UID old = pod_UID pod \<Longrightarrow> pod_NodeName old = pod_NodeName pod \<Longrightarrow> updatePodInCache cf v old pod s = Some s' \<Longrightarrow> sched_step cf s s'"
| StepPodDelete: "covers (vs_pools v) (sc_cache s) \<Longrightarrow> final_object d = Some pod \<Longrightarrow> pod_UID pod \<noteq> [] \<Longrightarrow>
    deletePodFromCache cf v d s = Some s' \<Longrightarrow> sched_step cf s s'"
| StepNodeAdd: "covers (vs_pools v) (sc_cache s) \<Longrightarrow>
    \<forall>pn. view (sc_cache s) pn (node_Name node) \<noteq> None \<longrightarrow> matchPoolForNode (cf_k8s cf) (vs_pools v) (Some node) (sc_cache s) = Some pn \<Longrightarrow>
    addNodeToCache cf v node s = Some s' \<Longrightarrow> sched_step cf s s'"
| StepNodeUpdate: "covers (vs_pools v) (sc_cache s) \<Longrightarrow> node_Name node \<noteq> [] \<Longrightarrow> view (sc_cache s) pn (node_Name node) = Some ni \<Longrightarrow> ni_node ni = Some old \<Longrightarrow>
    UpdateNode (cf_k8s cf) (vs_pools v) (Some old) node (sc_cache s) = Some (c, None) \<Longrightarrow> updateNodeInCache cf v old node s = Some s' \<Longrightarrow> sched_step cf s s'"
| StepNodeDelete: "deleteNodeFromCache cf v e s = Some s' \<Longrightarrow> sched_step cf s s'"
| StepPoolAdd: "pool_Name pl \<noteq> DefaultPoolName \<Longrightarrow> fmlookup (pools (sc_cache s)) (pool_Name pl) = None \<Longrightarrow>
    mo_ok (vs_moves v) (with_pool (cf_k8s cf) pl (sc_cache s)) \<Longrightarrow> addPoolToCache cf v pl s = Some s' \<Longrightarrow> sched_step cf s s'"
| StepPoolUpdate: "pool_Name pl \<noteq> DefaultPoolName \<Longrightarrow> fmlookup (pools (sc_cache s)) (pool_Name pl) = Some p \<Longrightarrow> pi_pool p = Some old \<Longrightarrow>
    mo_ok (vs_moves v) (sc_cache s) \<Longrightarrow> mo_ok (vs_moves' v) (sc_cache s) \<Longrightarrow> updatePoolInCache cf v old pl s = Some s' \<Longrightarrow> sched_step cf s s'"
| StepPoolDelete: "final_object d = Some pl \<Longrightarrow> pool_Name pl \<noteq> DefaultPoolName \<Longrightarrow> mo_ok (vs_moves v) (sc_cache s) \<Longrightarrow>
    \<forall>m ni. view (sc_cache s) (pool_Name pl) m = Some ni \<longrightarrow> ni_node ni \<noteq> None \<Longrightarrow> deletePoolFromCache cf v d s = Some s' \<Longrightarrow> sched_step cf s s'"

lemma handlers_frame:
  "move_all cf v s = Some s' \<Longrightarrow> \<exists>q. s' = s\<lparr>sc_queue := q\<rparr>"
  "move_in cf v n s = Some s' \<Longrightarrow> \<exists>q. s' = s\<lparr>sc_queue := q\<rparr>"
  "addPodToSchedulingQueue cf v pod s = Some s' \<Longrightarrow> \<exists>q. s' = s\<lparr>sc_queue := q\<rparr>"
  "updatePodInSchedulingQueue cf v old pod s = Some s' \<Longrightarrow> \<exists>q. s' = s\<lparr>sc_queue := q\<rparr>"
  "deletePodFromSchedulingQueue cf v d s = Some s' \<Longrightarrow> \<exists>q. s' = s\<lparr>sc_queue := q\<rparr>"
  by (auto simp: move_all_def move_in_def with_queue_def addPodToSchedulingQueue_def updatePodInSchedulingQueue_def deletePodFromSchedulingQueue_def
      intro: exI[of _ "sc_queue s"] split: if_splits option.splits)

lemma bind_inv_queue [simp]: "bind_inv L (s\<lparr>sc_queue := q\<rparr>) = bind_inv L s"
  by (simp add: bind_inv_def bound_uids_def bindings_def)

lemma moves_inv:
  "move_all cf v s = Some s' \<Longrightarrow> bind_inv L s \<Longrightarrow> bind_inv L s'"
  "move_in cf v n s = Some s' \<Longrightarrow> bind_inv L s \<Longrightarrow> bind_inv L s'"
  using handlers_frame(1,2) by fastforce+

text \<open>An event that keeps the cache in order, the tasks of pods that are being bound and the states of these pods.\<close>

lemma bind_inv_event:
  assumes "bind_inv L s" "cache_good L (sc_cache s')" "bindings s' = bindings s"
    "\<And>k. k \<in> set (bound_uids s) \<Longrightarrow> status (sc_cache s') k = status (sc_cache s) k"
  shows "bind_inv L s'"
  using assms unfolding bind_inv_def bound_uids_def by fastforce

lemma bind_inv_status: "bind_inv L s \<Longrightarrow> k \<in> set (bound_uids s) \<Longrightarrow> \<exists>host. status (sc_cache s) k = Assumed host None"
  by (auto simp: bind_inv_def bound_uids_def)

lemma bindings_detach: "List.map_filter binding (map (detach n k) ts) = List.map_filter binding ts"
proof -
  have "binding (detach n k t) = binding t" for t by (cases t) auto
  then show ?thesis by (simp add: List.map_filter_def comp_def filter_map)
qed

lemma run_retry_frame:
  assumes "run_retry cf v waited answers n pod nb cycle ref s = Some s'"
  shows "sc_cache s' = sc_cache s \<and> sc_tasks s' = sc_tasks s"
proof -
  have requeue: "sc_cache s2 = sc_cache s1 \<and> sc_tasks s2 = sc_tasks s1" if "requeue cf v n p nb cycle ref s1 = Some s2" for p s1 s2
    using that by (cases ref) (auto simp: requeue_def bind_eq_Some_conv split: if_splits option.splits sum.splits)
  obtain s1 go_on where s1: "(if PodPriorityEnabled cf then Some (s, True)
      else map_option (\<lambda>(b, r). (s\<lparr>sc_backoff := b\<rparr>, r))
        (TryBackoffAndWait (cf_k8s cf) waited (sc_backoff s) \<lparr>nn_Namespace = pod_Namespace pod, nn_Name = pod_Name pod\<rparr>)) = Some (s1, go_on)"
    using assms by (auto simp: run_retry_def bind_eq_Some_conv)
  have same: "sc_cache s1 = sc_cache s" "sc_tasks s1 = sc_tasks s" using s1 by (auto split: if_splits)
  note r = assms[unfolded run_retry_def s1 bind.bind_lunit prod.case]
  show ?thesis
  proof (cases go_on)
    case True
    then obtain a where a: "first_answer answers = Some a" using r by (cases "first_answer answers") auto
    show ?thesis using r True a same by (cases a) (auto dest!: requeue)
  qed (use r same in simp)
qed

lemma map_filter_split: "i < length xs \<Longrightarrow> List.map_filter f xs = List.map_filter f (take i xs) @ (case f (xs ! i) of None \<Rightarrow> [] | Some y \<Rightarrow> [y]) @ List.map_filter f (drop (i + 1) xs)"
  by (subst id_take_nth_drop[of i xs]) (auto simp: List.map_filter_def split: option.splits)

lemma run_task_inv:
  assumes inv: "bind_inv L s" and cf: "cf_k8s cf = L" "covers (vs_pools v) (sc_cache s)" and r: "run_task cf v waited answers i s = Some s'"
  shows "bind_inv L s'"
proof -
  have i: "i < length (sc_tasks s)" using r by (simp add: run_task_def split: if_splits)
  let ?s0 = "s\<lparr>sc_tasks := take i (sc_tasks s) @ drop (i + 1) (sc_tasks s)\<rparr>"
  note split = map_filter_split[OF i, of binding]
  have b0: "bindings ?s0 = List.map_filter binding (take i (sc_tasks s)) @ List.map_filter binding (drop (i + 1) (sc_tasks s))"
    by (simp add: bindings_def List.map_filter_def)
  show ?thesis
  proof (cases "sc_tasks s ! i")
    case (Retry n pod nb cycle ref)
    then have "run_retry cf v waited answers n pod nb cycle ref ?s0 = Some s'" using r i by (simp add: run_task_def)
    note F = run_retry_frame[OF this]
    have "bindings s' = bindings s" using F b0 split Retry by (simp add: bindings_def)
    then show ?thesis by (intro bind_inv_event[OF inv]) (use F inv in \<open>auto simp: bind_inv_def\<close>)
  next
    case (BindTo n pod host ab)
    let ?u = "pod_UID pod"
    have bs: "bindings s = List.map_filter binding (take i (sc_tasks s)) @ (pod, host) # List.map_filter binding (drop (i + 1) (sc_tasks s))"
      using split BindTo by (simp add: bindings_def)
    have fresh: "?u \<notin> set (bound_uids ?s0)" and sub: "set (bindings ?s0) \<subseteq> set (bindings s)" and d: "distinct (bound_uids ?s0)"
      using inv unfolding bind_inv_def bound_uids_def b0 bs by auto
    have inv0: "bind_inv L ?s0" using inv sub d unfolding bind_inv_def by auto
    have u: "?u \<noteq> []" using inv bs unfolding bind_inv_def by auto
    obtain e where "run_bind cf v n pod host ab ?s0 = Some (s', e)" using r i BindTo by (auto simp: run_task_def)
    from run_bind_changes[OF _ cf(1) _ u this] have "changes_only L {?u} ?s0 s'" using inv cf(2) by (simp add: bind_inv_def)
    then show ?thesis by (rule bind_inv_changes[OF inv0]) (use fresh in simp)
  qed
qed

lemma round_inv:
  assumes inv: "bind_inv L s" and u: "pod_UID pod \<noteq> []" and r: "round_effect L n pod host s s' e"
  shows "bind_inv L s'"
proof -
  have fresh: "pod_UID pod \<notin> set (bound_uids s)" if "status (sc_cache s) (pod_UID pod) = Initial" using bind_inv_status[OF inv] that by fastforce
  have kept: ?thesis if "changes_only L U s s'" "U \<subseteq> {pod_UID pod}" "U \<noteq> {} \<Longrightarrow> status (sc_cache s) (pod_UID pod) = Initial" for U
    by (rule bind_inv_changes[OF inv that(1)]) (use that(2,3) fresh in auto)
  consider "round_loses L pod host s s'" | "round_binds L n pod host s s'" | "round_retries L n pod s s'" using r by (auto simp: round_effect_def split: if_splits)
  then show ?thesis
  proof cases
    case 1
    then show ?thesis using kept[of "{}"] kept[of "{pod_UID pod}"] by (auto simp: round_loses_def)
  next
    case 2
    then obtain assumed ab where b: "sc_tasks s' = sc_tasks s @ [BindTo n assumed host ab]" "pod_UID assumed = pod_UID pod" "pod_NodeName assumed = host" "host \<noteq> []"
      "cache_good L (sc_cache s')" "status (sc_cache s) (pod_UID pod) = Initial" "status (sc_cache s') = (status (sc_cache s))(pod_UID pod := Assumed host None)"
      by (auto simp: round_binds_def)
    have "bindings s' = bindings s @ [(assumed, host)]" by (simp add: bindings_def b(1) List.map_filter_def)
    then show ?thesis using fresh[OF b(6)] u inv b(2-7) unfolding bind_inv_def bound_uids_def by (auto split: prod.splits)
  next
    case 3
    then show ?thesis using kept[of "{}"] by (auto simp: round_retries_def)
  qed
qed

lemma finish_round_inv:
  assumes inv: "bind_inv L s" and cf: "cf_k8s cf = L" "covers (vs_pools v) (sc_cache s)" "volumes_keep cf"
    and u: "pod_UID pod \<noteq> []" "\<And>res. dec = Inr res \<Longrightarrow> SuggestedHost res \<noteq> []" and r: "finish_round cf v n pod dec s = Some (s', out)"
  shows "bind_inv L s'"
proof -
  have good: "cache_good L (sc_cache s)" using inv by (simp add: bind_inv_def)
  show ?thesis using finish_round_effect[OF good cf u r] round_inv[OF inv u(1)] by blast
qed

lemma decision_inv:
  assumes inv: "bind_inv L s" and cf: "cf_k8s cf = L" and S: "schedules cf v n pod (s\<lparr>sc_queue := pq\<rparr>) = Some (gs, c, dec)"
  shows "bind_inv L (s\<lparr>sc_queue := pq, sc_algorithm := gs, sc_cache := c\<rparr>)"
  by (rule bind_inv_changes[OF inv decision_changes[OF _ cf S]]) (use inv in \<open>simp_all add: bind_inv_def\<close>)

lemma scheduleOne_inv:
  assumes inv: "bind_inv L s" and cf: "cf_k8s cf = L" "covers (vs_pools v) (sc_cache s)" "volumes_keep cf" "hosts_named cf v n s"
    and r: "scheduleOne cf v n s = Some (s', out)"
  shows "bind_inv L s'"
proof (cases "\<exists>pq pod. MakeNextPodFunc (sc_queue s) n = Some (pq, NextPod pod) \<and> pod_DeletionTimestamp pod = None")
  case True
  then obtain pq pod where p: "MakeNextPodFunc (sc_queue s) n = Some (pq, NextPod pod)" "pod_DeletionTimestamp pod = None" by blast
  then obtain gs c dec where S: "schedules cf v n pod (s\<lparr>sc_queue := pq\<rparr>) = Some (gs, c, dec)"
    "finish_round cf v n pod dec (s\<lparr>sc_queue := pq, sc_algorithm := gs, sc_cache := c\<rparr>) = Some (s', out)"
    using r scheduleOne_split[OF p, of cf v] by (auto simp: bind_eq_Some_conv)
  have good: "cache_good L (sc_cache s)" using inv by (simp add: bind_inv_def)
  note C = decision_changes[OF good cf(1) S(1)]
  have cov: "covers (vs_pools v) (sc_cache (s\<lparr>sc_queue := pq, sc_algorithm := gs, sc_cache := c\<rparr>))" using cf(2) changes_only_covers[OF C] by simp
  show ?thesis
    by (rule finish_round_inv[OF decision_inv[OF inv cf(1) S(1)] cf(1) cov cf(3) _ _ S(2)]) (use cf(4) p(1) S(1) in \<open>auto simp: hosts_named_def\<close>)
next
  case False
  then show ?thesis using scheduleOne_idle[OF r] inv by auto
qed

text \<open>Only the cache of the state changes, and the states of the pods stay; then the queue is updated.\<close>

lemma bind_inv_cache:
  assumes "bind_inv L s" "cache_good L c \<and> status c = status (sc_cache s)"
  shows "bind_inv L (s\<lparr>sc_cache := c\<rparr>)"
  by (rule bind_inv_event[OF assms(1)]) (use assms(2) in \<open>simp_all add: bindings_def\<close>)

lemma bind_inv_good: "bind_inv L s \<Longrightarrow> cache_good L (sc_cache s)"
  by (simp add: bind_inv_def)

lemma cleanup_inv:
  assumes inv: "bind_inv L s" and "\<forall>k. covers (ords k) (sc_cache s)" "cleanupAssumedPods L kord ords now (sc_cache s) = Some c"
  shows "bind_inv L (s\<lparr>sc_cache := c\<rparr>)"
proof -
  note good = bind_inv_good[OF inv]
  have g: "cache_good L c" by (rule cache_step_good[OF step_Cleanup[OF assms(2,3)] good])
  have st: "status c = (\<lambda>k. if k \<in> set kord \<and> expired now (status (sc_cache s) k) then Initial else status (sc_cache s) k)"
    using cleanup_step[OF goodD(1)[OF good] assms(2), of L kord now] assms(3) by auto
  have "\<not> expired now (status (sc_cache s) k)" if "k \<in> set (bound_uids s)" for k
    using bind_inv_status[OF inv that] by (auto simp: expired_def)
  then show ?thesis by (intro bind_inv_event[OF inv]) (use g st in \<open>auto simp: bindings_def\<close>)
qed

lemma addPodToCache_inv:
  assumes inv: "bind_inv (cf_k8s cf) s" and ord: "covers (vs_pools v) (sc_cache s)" "covers (vs_pools' v) (sc_cache s)"
    and pod: "assignedPod pod" "pod_UID pod \<noteq> []" "pod_UID pod \<notin> set (bound_uids s)" and r: "addPodToCache cf v pod s = Some s'"
  shows "bind_inv (cf_k8s cf) s'"
proof -
  note good = bind_inv_good[OF inv]
  have n: "pod_NodeName pod \<noteq> []" using pod(1) by (simp add: assignedPod_def)
  obtain c e q where c: "AddPod (cf_k8s cf) (vs_pools v) (vs_pools' v) pod (sc_cache s) = Some (c, e)" "s' = s\<lparr>sc_cache := c, sc_queue := q\<rparr>"
    using r by (auto simp: addPodToCache_def with_queue_def bind_eq_Some_conv)
  have "status c k = status (sc_cache s) k" if "k \<in> set (bound_uids s)" for k
    using AddPod_step[OF goodD(1)[OF good] ord n pod(2), where L = "cf_k8s cf"] c(1) that pod(3)
    by (cases "\<exists>m. status (sc_cache s) (pod_UID pod) = Added m") auto
  then show ?thesis unfolding c(2)
    by (intro bind_inv_event[OF inv]) (use pod_steps_good(3)[OF good ord pod(2) n c(1)] in \<open>auto simp: bindings_def\<close>)
qed

lemma updatePodInCache_inv:
  assumes inv: "bind_inv (cf_k8s cf) s" and ord: "covers (vs_pools v) (sc_cache s)" "covers (vs_pools' v) (sc_cache s)"
    and pod: "assignedPod pod" "pod_UID pod \<noteq> []" "pod_UID old = pod_UID pod" "pod_NodeName old = pod_NodeName pod"
    and r: "updatePodInCache cf v old pod s = Some s'"
  shows "bind_inv (cf_k8s cf) s'"
proof -
  note good = bind_inv_good[OF inv]
  have n: "pod_NodeName pod \<noteq> []" using pod(1) by (simp add: assignedPod_def)
  obtain c e q where c: "UpdatePod (cf_k8s cf) (vs_pools v) (vs_pools' v) old pod (sc_cache s) = Some (c, e)" "s' = s\<lparr>sc_cache := c, sc_queue := q\<rparr>"
    using r by (auto simp: updatePodInCache_def with_queue_def bind_eq_Some_conv)
  have "status c = status (sc_cache s)"
    using UpdatePod_step[OF goodD(1)[OF good] ord pod(2,3,4), where L = "cf_k8s cf"] c(1)
    by (cases "\<exists>m. status (sc_cache s) (pod_UID pod) = Added m") auto
  then show ?thesis unfolding c(2)
    using bind_inv_cache[OF inv, of c] pod_steps_good(4)[OF good ord pod(2) n pod(3,4) c(1)] by simp
qed

lemma deletePodFromCache_inv:
  assumes inv: "bind_inv (cf_k8s cf) s" and ord: "covers (vs_pools v) (sc_cache s)"
    and pod: "final_object d = Some pod" "pod_UID pod \<noteq> []" and r: "deletePodFromCache cf v d s = Some s'"
  shows "bind_inv (cf_k8s cf) s'"
proof -
  note good = bind_inv_good[OF inv]
  obtain c e n where c: "RemovePod (cf_k8s cf) (vs_pools v) pod (sc_cache s) = Some (c, e)" "move_in cf v n (s\<lparr>sc_cache := c\<rparr>) = Some s'"
    using pod(1) r by (auto simp: deletePodFromCache_def bind_eq_Some_conv)
  obtain q where q: "s' = s\<lparr>sc_cache := c, sc_queue := q\<rparr>" using handlers_frame(2)[OF c(2)] by auto
  have "status c k = status (sc_cache s) k" if "\<not> (\<exists>m. status (sc_cache s) k = Added m)" for k
    using RemovePod_step[OF goodD(1)[OF good] ord pod(2), where L = "cf_k8s cf"] c(1) that
    by (cases "\<exists>m. status (sc_cache s) (pod_UID pod) = Added m"; cases "status (sc_cache s) (pod_UID pod) = Added (pod_NodeName pod)") auto
  then show ?thesis unfolding q
    by (intro bind_inv_event[OF inv]) (use pod_steps_good(5)[OF good ord ord pod(2) c(1)] bind_inv_status[OF inv] in \<open>fastforce simp: bindings_def\<close>)+
qed

lemma addNodeToCache_inv:
  assumes inv: "bind_inv (cf_k8s cf) s" and ord: "covers (vs_pools v) (sc_cache s)"
    and home: "\<And>pn. view (sc_cache s) pn (node_Name node) \<noteq> None \<Longrightarrow> matchPoolForNode (cf_k8s cf) (vs_pools v) (Some node) (sc_cache s) = Some pn"
    and r: "addNodeToCache cf v node s = Some s'"
  shows "bind_inv (cf_k8s cf) s'"
proof -
  obtain c n where c: "AddNode (cf_k8s cf) (vs_pools v) node (sc_cache s) = Some c" "move_in cf v n (s\<lparr>sc_cache := c\<rparr>) = Some s'"
    using r by (auto simp: addNodeToCache_def bind_eq_Some_conv)
  note node_steps_good(1)[OF bind_inv_good[OF inv] ord home c(1)]
  then show ?thesis using handlers_frame(2)[OF c(2)] bind_inv_cache[OF inv] by auto
qed

lemma deleteNodeFromCache_inv:
  assumes inv: "bind_inv (cf_k8s cf) s" and r: "deleteNodeFromCache cf v d s = Some s'"
  shows "bind_inv (cf_k8s cf) s'"
proof (cases "final_object d")
  case (Some node)
  then obtain c e where c: "RemoveNode (cf_k8s cf) (vs_pools v) node (sc_cache s) = Some (c, e)" "s' = s\<lparr>sc_cache := c\<rparr>"
    using r by (auto simp: deleteNodeFromCache_def)
  show ?thesis unfolding c(2) by (rule bind_inv_cache[OF inv]) (use RemoveNode_kept[OF bind_inv_good[OF inv] c(1)] in \<open>simp add: cache_kept_def\<close>)
qed (use r inv in \<open>simp add: deleteNodeFromCache_def\<close>)

lemma pool_events_inv:
  assumes inv: "bind_inv (cf_k8s cf) s" and pl: "pool_Name pl \<noteq> DefaultPoolName"
  shows "fmlookup (pools (sc_cache s)) (pool_Name pl) = None \<Longrightarrow> mo_ok (vs_moves v) (with_pool (cf_k8s cf) pl (sc_cache s)) \<Longrightarrow>
      addPoolToCache cf v pl s = Some s' \<Longrightarrow> bind_inv (cf_k8s cf) s'"
    "fmlookup (pools (sc_cache s)) (pool_Name pl) = Some p \<Longrightarrow> pi_pool p = Some old \<Longrightarrow> mo_ok (vs_moves v) (sc_cache s) \<Longrightarrow>
      mo_ok (vs_moves' v) (sc_cache s) \<Longrightarrow> updatePoolInCache cf v old pl s = Some s' \<Longrightarrow> bind_inv (cf_k8s cf) s'"
    "final_object d = Some pl \<Longrightarrow> mo_ok (vs_moves v) (sc_cache s) \<Longrightarrow> (\<And>m ni. view (sc_cache s) (pool_Name pl) m = Some ni \<Longrightarrow> ni_node ni \<noteq> None) \<Longrightarrow>
      deletePoolFromCache cf v d s = Some s' \<Longrightarrow> bind_inv (cf_k8s cf) s'"
proof -
  note good = bind_inv_good[OF inv]
  show "bind_inv (cf_k8s cf) s'" if h: "fmlookup (pools (sc_cache s)) (pool_Name pl) = None" "mo_ok (vs_moves v) (with_pool (cf_k8s cf) pl (sc_cache s))"
    and r: "addPoolToCache cf v pl s = Some s'"
  proof -
    obtain c where c: "AddPool (cf_k8s cf) (vs_moves v) (Some pl) (sc_cache s) = Some (c, None)" "cache_good (cf_k8s cf) c \<and> status c = status (sc_cache s)"
      using AddPool_step[OF good pl h] by auto
    have "move_all cf v (s\<lparr>sc_cache := c, sc_queue := AddQueue (sc_queue s) (pool_Name pl)\<rparr>) = Some s'" using r c(1) by (simp add: addPoolToCache_def)
    then show ?thesis using handlers_frame(1) bind_inv_cache[OF inv c(2)] by fastforce
  qed
  show "bind_inv (cf_k8s cf) s'" if h: "fmlookup (pools (sc_cache s)) (pool_Name pl) = Some p" "pi_pool p = Some old" "mo_ok (vs_moves v) (sc_cache s)"
      "mo_ok (vs_moves' v) (sc_cache s)" and r: "updatePoolInCache cf v old pl s = Some s'"
  proof -
    obtain c where c: "UpdatePool (cf_k8s cf) (vs_moves v) (vs_moves' v) (Some old) pl (sc_cache s) = Some (c, None)"
      "cache_good (cf_k8s cf) c \<and> status c = status (sc_cache s)" using UpdatePool_step[OF good pl h] by auto
    have "s' = s\<lparr>sc_cache := c\<rparr> \<or> move_all cf v (s\<lparr>sc_cache := c\<rparr>) = Some s'"
      using r c(1) by (auto simp: updatePoolInCache_def bind_eq_Some_conv split: if_splits)
    then show ?thesis using handlers_frame(1) bind_inv_cache[OF inv c(2)] by fastforce
  qed
  show "bind_inv (cf_k8s cf) s'" if h: "final_object d = Some pl" "mo_ok (vs_moves v) (sc_cache s)"
      "\<And>m ni. view (sc_cache s) (pool_Name pl) m = Some ni \<Longrightarrow> ni_node ni \<noteq> None" and r: "deletePoolFromCache cf v d s = Some s'"
  proof -
    obtain c where c: "RemovePool (cf_k8s cf) (vs_moves v) pl (sc_cache s) = Some (c, None)" "cache_good (cf_k8s cf) c \<and> status c = status (sc_cache s)"
      using RemovePool_step[OF good pl h(2)] h(3) by blast
    let ?s1 = "\<lambda>pq. (keep_removed (pool_Name pl) (s\<lparr>sc_cache := c\<rparr>))\<lparr>sc_queue := pq\<rparr>"
    have "bind_inv (cf_k8s cf) (?s1 pq)" for pq
      by (rule bind_inv_event[OF inv]) (use c(2) in \<open>simp_all add: keep_removed_def bindings_def bindings_detach split: option.splits\<close>)
    moreover obtain pq where "move_all cf v (?s1 pq) = Some s'" using r h(1) c(1) by (auto simp: deletePoolFromCache_def bind_eq_Some_conv)
    ultimately show ?thesis using moves_inv(1) by blast
  qed
qed

lemma sched_step_inv:
  assumes "sched_step cf s s'" and inv: "bind_inv (cf_k8s cf) s" and cf: "volumes_keep cf"
  shows "bind_inv (cf_k8s cf) s'"
  using assms(1)
proof cases
  case (StepRound v n out)
  then show ?thesis using scheduleOne_inv[OF inv refl _ cf] by blast
next
  case (StepDecide n pq pod v gs c dec)
  then show ?thesis using decision_inv[OF inv refl] by blast
next
  case (StepFinish v pod dec n out)
  then show ?thesis using finish_round_inv[OF inv refl _ cf] by blast
next
  case (StepTask v waited answers i)
  then show ?thesis using run_task_inv[OF inv refl] by blast
next
  case (StepCleanup ords kord now c)
  then show ?thesis using cleanup_inv[OF inv] by blast
next
  case (StepPodAdd v pod)
  then show ?thesis using addPodToCache_inv[OF inv] by blast
next
  case (StepPodUpdate v pod old)
  then show ?thesis using updatePodInCache_inv[OF inv] by blast
next
  case (StepPodDelete v d pod)
  then show ?thesis using deletePodFromCache_inv[OF inv] by blast
next
  case (StepNodeAdd v node)
  then show ?thesis using addNodeToCache_inv[OF inv StepNodeAdd(1) _ StepNodeAdd(3)] by blast
next
  case (StepNodeUpdate v node pn ni old c)
  have "s' = s\<lparr>sc_cache := c\<rparr> \<or> (\<exists>n. move_in cf v n (s\<lparr>sc_cache := c\<rparr>) = Some s')"
    using StepNodeUpdate(5,6) by (auto simp: updateNodeInCache_def Let_def split: if_splits)
  then show ?thesis
    using node_steps_good(2)[OF bind_inv_good[OF inv] StepNodeUpdate(1,3,4,2,5)] handlers_frame(2) bind_inv_cache[OF inv, of c] by fastforce
next
  case (StepNodeDelete v d)
  then show ?thesis using deleteNodeFromCache_inv[OF inv] by blast
next
  case (StepPoolAdd pl v)
  then show ?thesis using pool_events_inv(1)[OF inv] by blast
next
  case (StepPoolUpdate pl p old v)
  then show ?thesis using pool_events_inv(2)[OF inv] by blast
next
  case (StepPoolDelete d pl v)
  then show ?thesis using pool_events_inv(3)[OF inv StepPoolDelete(2,1,3) _ StepPoolDelete(5)] by blast
qed (use handlers_frame inv in fastforce)+

text \<open>A scheduler that has just been started.\<close>

definition fresh_scheduler :: "k8s \<Rightarrow> ('m, 'p) Scheduler \<Rightarrow> bool" where
  "fresh_scheduler L s \<longleftrightarrow> (\<exists>t per st. sc_cache s = newSchedulerCache L t per st) \<and> sc_tasks s = []"

lemma fresh_inv: "fresh_scheduler L s \<Longrightarrow> bind_inv L s"
  using new_cache_good by (auto simp: fresh_scheduler_def bind_inv_def bound_uids_def bindings_def List.map_filter_def)

lemma sched_history_inv:
  assumes "(sched_step cf)\<^sup>*\<^sup>* s0 s" "fresh_scheduler (cf_k8s cf) s0" "volumes_keep cf"
  shows "bind_inv (cf_k8s cf) s"
  using assms by (induction rule: rtranclp_induct) (auto intro: fresh_inv sched_step_inv)

end
