(* ===== verification/Scheduler_Properties.thy ===== *)
theory Scheduler_Properties
  imports Scheduler_Runs
begin

text \<open>
  Properties of the whole scheduler: what happens to a pod from its arrival to its binding, and how pods get lost.
\<close>

subsection \<open>An example: one pod arrives and is scheduled\<close>

definition example_api :: api where
  "example_api = \<lparr>GetUpdatedPod = Inr, UpdateNominated = (\<lambda>_ _. None), DeletePod = (\<lambda>_. None), NodeStillMissing = (\<lambda>_. True),
     AssumePodVolumes = (\<lambda>pod _. (pod, Inr True)), BindPodVolumes = (\<lambda>_. None), Bind = (\<lambda>_ _. None), ReservePlugins = [], PrebindPlugins = []\<rparr>"

definition example_config :: Config where
  "example_config = \<lparr>cf_k8s = example_k8s, PodPriorityEnabled = True, cf_DisablePreemption = False, BalanceAttachedNodeVolumes = False,
     sortPods = example_sort, sortPools = example_sort, selectorEmpty = (\<lambda>_. False), cf_api = example_api\<rparr>"

definition example_visits :: visits where
  "example_visits = \<lparr>vs_now = 1, vs_acts = [], vs_lister = Inr [zero_Node\<lparr>node_Name := ''n1''\<rparr>], vs_queues = [DefaultPoolName], vs_nodes = [],
     vs_victims = id, vs_pools = [DefaultPoolName], vs_pools' = [DefaultPoolName], vs_pool_nodes = (\<lambda>_. []), vs_sub = (\<lambda>_. ([], [], [])),
     vs_moves = \<lparr>mo_pools = [], mo_default = [], mo_nodes = (\<lambda>_. [])\<rparr>, vs_moves' = \<lparr>mo_pools = [], mo_default = [], mo_nodes = (\<lambda>_. [])\<rparr>\<rparr>"

definition example_scheduler :: "(unit, unit) Scheduler" where
  "example_scheduler = \<lparr>sc_cache = example_cache, sc_queue = NewPoolQueue, sc_removed = [], sc_algorithm = host_scheduler\<lparr>predicates := fmempty\<rparr>,
     sc_backoff = CreateDefaultPodBackoff, sc_tasks = [], sc_calls = []\<rparr>"

definition new_pod :: Pod where
  "new_pod = zero_Pod\<lparr>pod_UID := ''u1'', pod_Name := ''p1'', pod_Namespace := ''prod''\<rparr>"

lemma example_config_facts [simp]:
  "cf_k8s example_config = example_k8s" "volumes_keep example_config" "fresh_scheduler example_k8s example_scheduler"
  by (auto simp: example_config_def volumes_keep_def example_api_def fresh_scheduler_def example_scheduler_def example_cache_def)

lemma example_good: "cache_good example_k8s example_cache"
  unfolding example_cache_def by (rule new_cache_good)

lemma example_arrival:
  obtains q q' where "addPodToSchedulingQueue example_config example_visits new_pod example_scheduler = Some (example_scheduler\<lparr>sc_queue := set_queue [] q NewPoolQueue\<rparr>)"
    "MakeNextPodFunc (set_queue [] q NewPoolQueue) [] = Some (set_queue [] q' NewPoolQueue, NextPod new_pod)"
proof -
  have v: "valid_pod new_pod" "GetPodAnnotationsPoolName new_pod = []"
    by (simp_all add: new_pod_def valid_pod_def dns_name_def zero_Pod_def GetPodAnnotationsPoolName_def)
  obtain q where q: "PoolQueue_Add example_k8s 1 new_pod NewPoolQueue = Some (set_queue [] q NewPoolQueue, None)"
    "queue_inv (heap_inv (poolQueuePodPriorityComp (queues NewPoolQueue) [])) example_k8s q" "where_is q = [id_of new_pod \<mapsto> (Active, newPodInfo 1 new_pod)]"
    using example_queue[OF v] by blast
  let ?lt = "poolQueuePodPriorityComp (queues (set_queue [] q NewPoolQueue)) []"
  have wf: "queue_inv heap_wf example_k8s q" using q(2) by (auto simp: queue_inv_def heap_inv_def)
  obtain q' x where x: "PriorityQueue_Pop ?lt q = Some (q', Popped (qpod x))" "where_is q (id_of (qpod x)) = Some (Active, x)"
    using qw.Pop_effect[OF wf, of "id_of new_pod" "newPodInfo 1 new_pod" ?lt] q(3) by auto
  have "x = newPodInfo 1 new_pod" using x(2) q(3) by (auto split: if_splits)
  then have "MakeNextPodFunc (set_queue [] q NewPoolQueue) [] = Some (set_queue [] q' (set_queue [] q NewPoolQueue), NextPod new_pod)"
    using x(1) by (simp add: MakeNextPodFunc_def GetQueue_def newPodInfo_def)
  moreover have "set_queue [] q' (set_queue [] q NewPoolQueue) = set_queue [] q' NewPoolQueue" by (simp add: set_queue_def)
  moreover have "addPodToSchedulingQueue example_config example_visits new_pod example_scheduler = Some (example_scheduler\<lparr>sc_queue := set_queue [] q NewPoolQueue\<rparr>)"
    using q(1) by (simp add: addPodToSchedulingQueue_def with_queue_def example_visits_def example_scheduler_def)
  ultimately show thesis using that by simp
qed

lemma example_snapshot:
  obtains c p where "cache_UpdateNodeInfoSnapshot bal [] example_cache = Some (c, None)" "fmlookup (pools c) [] = Some p"
proof -
  obtain p' st' where u: "UpdateNodeInfoSnapshot bal (NewPoolInfo example_k8s) example_store = Some (p', st')"
    by (simp add: UpdateNodeInfoSnapshot_def Let_def NewPoolInfo_def snapshot_loop.simps(2))
  show thesis
    by (rule that[of "example_cache\<lparr>pools := fmupd [] p' (pools example_cache), heap := st'\<rparr>" p'])
      (simp_all add: u cache_UpdateNodeInfoSnapshot_def example_cache_def newSchedulerCache_def DefaultPoolName_def)
qed

text \<open>The round that follows the arrival of the pod: there is one node and no predicate, and the pod is assumed on it.\<close>

lemma new_pod_volumes: "pod_Volumes new_pod = []" "pod_DeletionTimestamp new_pod = None" "pod_UID new_pod = ''u1''"
  by (simp_all add: new_pod_def zero_Pod_def)

lemma example_schedules:
  obtains gs c where "schedules example_config example_visits [] new_pod (example_scheduler\<lparr>sc_queue := pq\<rparr>) =
    Some (gs, c, Inr \<lparr>SuggestedHost = ''n1'', EvaluatedNodes = 1, FeasibleNodes = 1\<rparr>)"
proof -
  obtain c p where c: "cache_UpdateNodeInfoSnapshot False [] example_cache = Some (c, None)" "fmlookup (pools c) [] = Some p" by (rule example_snapshot)
  have f: "findNodesThatFit L qord g acts (host_scheduler\<lparr>predicates := fmempty\<rparr>) pq' [] new_pod ns c = Some (c, Inr (map Some ns, fmempty))" for L qord g acts pq' ns
    by (simp add: findNodesThatFit_def c(2) host_scheduler_def)
  show thesis
    by (rule that[of "host_scheduler\<lparr>predicates := fmempty\<rparr>" c])
      (simp add: schedules_def Schedule_def example_scheduler_def example_visits_def example_config_def c(1) f new_pod_volumes)
qed

lemma example_run:
  obtains s1 s2 pq where "addPodToSchedulingQueue example_config example_visits new_pod example_scheduler = Some s1"
    "MakeNextPodFunc (sc_queue s1) [] = Some (pq, NextPod new_pod)" "covers (vs_pools example_visits) (sc_cache s1)" "hosts_named example_config example_visits [] s1"
    "scheduleOne example_config example_visits [] s1 = Some (s2, Round None)" "sc_cache s1 = example_cache" "sc_tasks s1 = []"
    "sc_tasks s2 = [BindTo [] (new_pod\<lparr>pod_NodeName := ''n1''\<rparr>) ''n1'' True]"
proof -
  obtain q q' where q: "addPodToSchedulingQueue example_config example_visits new_pod example_scheduler = Some (example_scheduler\<lparr>sc_queue := set_queue [] q NewPoolQueue\<rparr>)"
    "MakeNextPodFunc (set_queue [] q NewPoolQueue) [] = Some (set_queue [] q' NewPoolQueue, NextPod new_pod)" by (rule example_arrival)
  let ?s1 = "example_scheduler\<lparr>sc_queue := set_queue [] q NewPoolQueue\<rparr>" and ?pq = "set_queue [] q' NewPoolQueue"
  let ?res = "\<lparr>SuggestedHost = ''n1'', EvaluatedNodes = 1, FeasibleNodes = 1\<rparr>"
  obtain gs c where S: "schedules example_config example_visits [] new_pod (example_scheduler\<lparr>sc_queue := ?pq\<rparr>) = Some (gs, c, Inr ?res)"
    by (rule example_schedules)
  note good = example_good
  have k: "cache_kept example_k8s example_cache c"
    using S Schedule_kept[OF good] by (auto simp: schedules_def example_scheduler_def)
  have cov: "covers [[]] c" using example_cache_facts(2) k covers_same[of example_cache c] by (simp add: cache_kept_def DefaultPoolName_def)
  let ?pod = "new_pod\<lparr>pod_NodeName := ''n1''\<rparr>" and ?s2 = "example_scheduler\<lparr>sc_queue := ?pq, sc_algorithm := gs, sc_cache := c\<rparr>"
  have st: "status c ''u1'' = Initial" using k example_cache_facts(3) by (simp add: cache_kept_def)
  obtain c' where a: "AssumePod example_k8s [[]] ?pod c = Some (c', None)"
    using AssumePod_step(1)[where L = example_k8s and pod = ?pod, OF goodD(1)[of example_k8s] cov] k st by (auto simp: cache_kept_def new_pod_def zero_Pod_def)
  obtain s3 where p: "place_pod example_config example_visits [] new_pod ''n1'' ?s2 = Some (s3, Round None)" "sc_tasks s3 = [BindTo [] ?pod ''n1'' True]"
    using a by (simp add: place_pod_def assumeVolumes_def example_config_def example_api_def assume_pod_def example_visits_def DefaultPoolName_def in_queue_def
        GetQueue_def Let_def example_scheduler_def)
  have "scheduleOne example_config example_visits [] ?s1 = Some (s3, Round None)"
    using q(2) S p(1) by (simp add: scheduleOne_def finish_round_def schedules_def new_pod_volumes example_scheduler_def)
  moreover have "hosts_named example_config example_visits [] ?s1"
    using q(2) S by (simp add: hosts_named_def new_pod_volumes)
  moreover have "covers (vs_pools example_visits) (sc_cache ?s1)" using example_cache_facts(2) by (simp add: example_visits_def example_scheduler_def)
  ultimately show thesis using q p(2) by (intro that[of ?s1 ?pq s3]) (simp_all add: example_scheduler_def)
qed

subsection \<open>Binding\<close>

text \<open>
  C1. What is being bound is reserved. After every history of steps of a scheduler that was started with an empty cache and no tasks, every pod that waits to be bound waits
  once; it is assumed in the cache on the node it will be bound to, and counted there once, in exactly one pool, and on no other node of any pool; its assumption has no deadline,
  so that it does not expire before the binding is done, and \<open>AssumePod\<close> refuses to schedule it again in the meantime. Steps are rounds of the scheduling loops, also
  rounds whose decision was made at an earlier state, tasks, the expiration of assumed pods, and events in any order, where: pods have a UID and suggested hosts a name; the volume
  binder keeps the UID of a pod; an assigned pod is reported as new only when it does not wait to be bound; an update of an assigned pod keeps its UID and node;
  a node is added only while no pool but the one that it matches has an item of its name, and updated without error, with the object that the cache holds; a pool is not the default one, is added once,
  updated with the object that the cache holds, and deleted while each of its items has its node object.
\<close>

theorem bindings_reserved:
  assumes "(sched_step cf)\<^sup>*\<^sup>* s0 s" "fresh_scheduler (cf_k8s cf) s0" "volumes_keep cf"
  shows "distinct (bound_uids s) \<and>
    (\<forall>(pod, host) \<in> set (bindings s). pod_NodeName pod = host \<and> status (sc_cache s) (pod_UID pod) = Assumed host None \<and>
       (\<exists>pn. \<forall>qn m. count (mset (map pod_UID (node_pods (sc_cache s) qn m))) (pod_UID pod) = (if qn = pn \<and> m = host then 1 else 0)) \<and>
       (\<forall>ord. covers ord (sc_cache s) \<longrightarrow> AssumePod (cf_k8s cf) ord pod (sc_cache s) = Some (sc_cache s, Some (AlreadyInCache (pod_UID pod)))))"
proof -
  note inv = sched_history_inv[OF assms]
  note ci = goodD(1)[OF bind_inv_good[OF inv]]
  have "pod_NodeName pod = host \<and> status (sc_cache s) (pod_UID pod) = Assumed host None \<and>
       (\<exists>pn. \<forall>qn m. count (mset (map pod_UID (node_pods (sc_cache s) qn m))) (pod_UID pod) = (if qn = pn \<and> m = host then 1 else 0)) \<and>
       (\<forall>ord. covers ord (sc_cache s) \<longrightarrow> AssumePod (cf_k8s cf) ord pod (sc_cache s) = Some (sc_cache s, Some (AlreadyInCache (pod_UID pod))))"
    if b: "(pod, host) \<in> set (bindings s)" for pod host
  proof -
    have B: "pod_UID pod \<noteq> []" "host \<noteq> []" "pod_NodeName pod = host" "status (sc_cache s) (pod_UID pod) = Assumed host None"
      using inv b by (auto simp: bind_inv_def)
    obtain ps where ps: "fmlookup (podStates (sc_cache s)) (pod_UID pod) = Some ps" "pod_NodeName (ps_pod ps) = host"
      using B(4) by (auto simp: status_simps)
    have "AssumePod (cf_k8s cf) ord pod (sc_cache s) = Some (sc_cache s, Some (AlreadyInCache (pod_UID pod)))" if "covers ord (sc_cache s)" for ord
      using AssumePod_step(2)[OF ci that _ B(1)] B(2-4) by auto
    then show ?thesis using pod_counted_once[OF ci ps(1)] B(3,4) unfolding ps(2) by blast
  qed
  then show ?thesis using inv unfolding bind_inv_def by blast
qed

lemma example_history:
  obtains s1 s2 pq where "(sched_step example_config)\<^sup>*\<^sup>* example_scheduler s2" "scheduleOne example_config example_visits [] s1 = Some (s2, Round None)"
    "MakeNextPodFunc (sc_queue s1) [] = Some (pq, NextPod new_pod)" "(sched_step example_config)\<^sup>*\<^sup>* example_scheduler s1" "sc_tasks s1 = []"
    "covers (vs_pools example_visits) (sc_cache s1)" "hosts_named example_config example_visits [] s1"
    "sc_tasks s2 = [BindTo [] (new_pod\<lparr>pod_NodeName := ''n1''\<rparr>) ''n1'' True]"
proof -
  obtain s1 s2 pq where r: "addPodToSchedulingQueue example_config example_visits new_pod example_scheduler = Some s1"
    "MakeNextPodFunc (sc_queue s1) [] = Some (pq, NextPod new_pod)" "covers (vs_pools example_visits) (sc_cache s1)" "hosts_named example_config example_visits [] s1"
    "scheduleOne example_config example_visits [] s1 = Some (s2, Round None)" "sc_tasks s1 = []"
    "sc_tasks s2 = [BindTo [] (new_pod\<lparr>pod_NodeName := ''n1''\<rparr>) ''n1'' True]" by (rule example_run)
  have "sched_step example_config example_scheduler s1" by (rule StepQueued[OF r(1)])
  moreover have "sched_step example_config s1 s2" by (rule StepRound[OF r(3,4,5)])
  ultimately show thesis using that r by (meson r_into_rtranclp rtranclp.rtrancl_into_rtrancl)
qed

theorem bindings_reserved_witness:
  "\<exists>s pn. (sched_step example_config)\<^sup>*\<^sup>* example_scheduler s \<and> bound_uids s = [''u1''] \<and>
     (\<forall>qn m. count (mset (map pod_UID (node_pods (sc_cache s) qn m))) ''u1'' = (if qn = pn \<and> m = ''n1'' then 1 else 0))"
proof -
  obtain s1 s2 pq where r: "(sched_step example_config)\<^sup>*\<^sup>* example_scheduler s2" "scheduleOne example_config example_visits [] s1 = Some (s2, Round None)"
    "MakeNextPodFunc (sc_queue s1) [] = Some (pq, NextPod new_pod)" "(sched_step example_config)\<^sup>*\<^sup>* example_scheduler s1" "sc_tasks s1 = []"
    "covers (vs_pools example_visits) (sc_cache s1)" "hosts_named example_config example_visits [] s1"
    "sc_tasks s2 = [BindTo [] (new_pod\<lparr>pod_NodeName := ''n1''\<rparr>) ''n1'' True]" by (rule example_history)
  have b: "bindings s2 = [(new_pod\<lparr>pod_NodeName := ''n1''\<rparr>, ''n1'')]" "bound_uids s2 = [''u1'']"
    using r(8) by (simp_all add: bound_uids_def bindings_def List.map_filter_def new_pod_volumes)
  obtain pn where "\<forall>qn m. count (mset (map pod_UID (node_pods (sc_cache s2) qn m))) ''u1'' = (if qn = pn \<and> m = ''n1'' then 1 else 0)"
    using bindings_reserved[OF r(1)] b by (auto simp: new_pod_volumes)
  then show ?thesis using b(2) r(1) by blast
qed

subsection \<open>Rounds\<close>

text \<open>
  C2. What a round does with the pod that it takes from its queue, when the pod is not being deleted. The round takes the pod and decides about it in a state that a history of steps leads to; then any steps
  of others may come, and then the rest of the round runs and does not panic. If the pool still has its queue, the rest ends in one of two ways. Either it returns without an error: the algorithm has suggested a host, the pod was not in
  the cache, it is assumed there on that host, no other pod changes its state, and one task is added, which will bind this pod to this host. Or it returns an error: the states of all
  pods are as before and one task is added, which will put this pod back into a queue. If the queue of the pool has been removed in the meantime, the rest returns an error and adds no task, so that the
  pod is dropped: the states of all pods are as before, or the pod, which was not in the cache, is left there assumed on the host without a deadline. \<open>scheduleOne\<close> is a round
  with no steps in between; then the pool has its queue. The histories are those of the scheduler that was started with an empty cache and no tasks, with the guards of the
  steps: pods have a UID and suggested hosts a name; the volume binder keeps the UID of a pod; an assigned pod is reported as new only when it does not wait to be bound; an update of an assigned pod keeps its UID and node;
  a node is added only while no pool but the one that it matches has an item of its name, and updated without error, with the object that the cache holds; a pool is not the default one, is added once,
  updated with the object that the cache holds, and deleted while each of its items has its node object. Loops over the pools visit every pool once.
\<close>

theorem scheduleOne_accounts:
  assumes "(sched_step cf)\<^sup>*\<^sup>* s0 s" "fresh_scheduler (cf_k8s cf) s0" "volumes_keep cf"
    and pod: "MakeNextPodFunc (sc_queue s) n = Some (pq, NextPod pod)" "pod_DeletionTimestamp pod = None" "pod_UID pod \<noteq> []"
    and decision: "schedules cf v n pod (s\<lparr>sc_queue := pq\<rparr>) = Some (gs, c, dec)" "\<forall>res. dec = Inr res \<longrightarrow> SuggestedHost res \<noteq> []"
    and between: "(sched_step cf)\<^sup>*\<^sup>* (s\<lparr>sc_queue := pq, sc_algorithm := gs, sc_cache := c\<rparr>) t"
    and rest: "covers (vs_pools v') (sc_cache t)" "finish_round cf v' n pod dec t = Some (t', out)"
  shows "(fmlookup (queues (sc_queue t)) n \<noteq> None \<longrightarrow>
       (\<exists>res assumed ab. out = Round None \<and> dec = Inr res \<and> sc_tasks t' = sc_tasks t @ [BindTo n assumed (SuggestedHost res) ab] \<and>
          pod_UID assumed = pod_UID pod \<and> pod_NodeName assumed = SuggestedHost res \<and> status (sc_cache t) (pod_UID pod) = Initial \<and>
          status (sc_cache t') = (status (sc_cache t))(pod_UID pod := Assumed (SuggestedHost res) None)) \<or>
       (\<exists>err failed nb cycle. out = Round (Some err) \<and> sc_tasks t' = sc_tasks t @ [Retry n failed nb cycle InPool] \<and>
          pod_UID failed = pod_UID pod \<and> status (sc_cache t') = status (sc_cache t))) \<and>
    (fmlookup (queues (sc_queue t)) n = None \<longrightarrow> (\<exists>err. out = Round (Some err)) \<and> sc_tasks t' = sc_tasks t \<and>
       (status (sc_cache t') = status (sc_cache t) \<or> (\<exists>res. dec = Inr res \<and> status (sc_cache t) (pod_UID pod) = Initial \<and>
          status (sc_cache t') = (status (sc_cache t))(pod_UID pod := Assumed (SuggestedHost res) None)))) \<and>
    (v' = v \<and> t = s\<lparr>sc_queue := pq, sc_algorithm := gs, sc_cache := c\<rparr> \<longrightarrow>
       fmlookup (queues (sc_queue t)) n \<noteq> None \<and> scheduleOne cf v n s = Some (t', out))"
proof -
  let ?host = "case dec of Inl _ \<Rightarrow> [] | Inr res \<Rightarrow> SuggestedHost res"
  have "(sched_step cf)\<^sup>*\<^sup>* s0 t" using assms(1) StepDecide[OF pod(1,2) decision(1)] between by (meson rtranclp.rtrancl_into_rtrancl rtranclp_trans)
  then have inv: "bind_inv (cf_k8s cf) t" by (rule sched_history_inv[OF _ assms(2,3)])
  obtain e where e: "out = Round e" "round_effect (cf_k8s cf) n pod ?host t t' e"
    using finish_round_effect[OF bind_inv_good[OF inv] refl rest(1) assms(3) pod(3) _ rest(2)] decision(2) by blast
  have one: "status (sc_cache t') = (status (sc_cache t))(pod_UID pod := Assumed h None)"
    if "changes_only (cf_k8s cf) {pod_UID pod} t t'" "status (sc_cache t') (pod_UID pod) = Assumed h None" for h
    using that by (auto simp: changes_only_def)
  have all: "status (sc_cache t') = status (sc_cache t)" if "changes_only (cf_k8s cf) {} t t'" using that by (auto simp: changes_only_def)
  have inr: "\<exists>res. dec = Inr res \<and> ?host = SuggestedHost res" if "?host \<noteq> []" using that by (cases dec) auto
  have "scheduleOne cf v n s = Some (t', out) \<and> fmlookup (queues (sc_queue t)) n \<noteq> None" if "v' = v" "t = s\<lparr>sc_queue := pq, sc_algorithm := gs, sc_cache := c\<rparr>"
    using that scheduleOne_split[OF pod(1,2), of cf v] decision(1) rest(2) NextPod_queue[OF pod(1)] by simp
  moreover have "round_loses (cf_k8s cf) pod ?host t t' \<and> e \<noteq> None" if "fmlookup (queues (sc_queue t)) n = None" using e(2) that by (simp add: round_effect_def)
  moreover have "if e = None then round_binds (cf_k8s cf) n pod ?host t t' else round_retries (cf_k8s cf) n pod t t'" if "fmlookup (queues (sc_queue t)) n \<noteq> None"
    using e(2) that by (simp add: round_effect_def)
  ultimately show ?thesis
    using one all inr e(1) unfolding round_loses_def round_binds_def round_retries_def by (cases e) (fastforce simp del: fun_upd_apply)+
qed

theorem scheduleOne_accounts_witness:
  "\<exists>(s :: (unit, unit) Scheduler) s' pq assumed host ab. MakeNextPodFunc (sc_queue s) [] = Some (pq, NextPod new_pod) \<and>
     scheduleOne example_config example_visits [] s = Some (s', Round None) \<and> sc_tasks s' = sc_tasks s @ [BindTo [] assumed host ab] \<and>
     status (sc_cache s') ''u1'' = Assumed host None"
proof -
  obtain s1 s2 pq where r: "(sched_step example_config)\<^sup>*\<^sup>* example_scheduler s2" "scheduleOne example_config example_visits [] s1 = Some (s2, Round None)"
    "MakeNextPodFunc (sc_queue s1) [] = Some (pq, NextPod new_pod)" "(sched_step example_config)\<^sup>*\<^sup>* example_scheduler s1" "sc_tasks s1 = []"
    "covers (vs_pools example_visits) (sc_cache s1)" "hosts_named example_config example_visits [] s1"
    "sc_tasks s2 = [BindTo [] (new_pod\<lparr>pod_NodeName := ''n1''\<rparr>) ''n1'' True]" by (rule example_history)
  obtain gs c dec where S: "schedules example_config example_visits [] new_pod (s1\<lparr>sc_queue := pq\<rparr>) = Some (gs, c, dec)"
    "finish_round example_config example_visits [] new_pod dec (s1\<lparr>sc_queue := pq, sc_algorithm := gs, sc_cache := c\<rparr>) = Some (s2, Round None)"
    using r(2) scheduleOne_split[OF r(3) new_pod_volumes(2), of example_config example_visits] by (auto simp: bind_eq_Some_conv)
  let ?t = "s1\<lparr>sc_queue := pq, sc_algorithm := gs, sc_cache := c\<rparr>"
  have h: "pod_UID new_pod \<noteq> []" "\<forall>res. dec = Inr res \<longrightarrow> SuggestedHost res \<noteq> []" using r(3,7) S(1) by (auto simp: new_pod_volumes hosts_named_def)
  have good: "cache_good example_k8s (sc_cache s1)" using bind_inv_good[OF sched_history_inv[OF r(4)]] by simp
  have cov: "covers (vs_pools example_visits) (sc_cache ?t)" using changes_only_covers[OF decision_changes[OF good _ S(1)]] r(6) by simp
  from scheduleOne_accounts[OF r(4) _ _ r(3) new_pod_volumes(2) h(1) S(1) h(2) rtranclp.rtrancl_refl cov S(2)]
  obtain assumed host ab where "sc_tasks s2 = sc_tasks s1 @ [BindTo [] assumed host ab]" "status (sc_cache s2) ''u1'' = Assumed host None"
    by (auto simp: new_pod_volumes)
  then show ?thesis using r(2,3) by blast
qed

subsection \<open>Lost pods\<close>

text \<open>Some queue of a pool has a pod with this UID.\<close>

definition waits :: "string \<Rightarrow> PoolQueue \<Rightarrow> bool" where
  "waits u pq \<longleftrightarrow> (\<exists>n q i w x. fmlookup (queues pq) n = Some q \<and> where_is q i = Some (w, x) \<and> pod_UID (qpod x) = u)"

lemma RemoveQueue_waits:
  assumes keys: "k8s_keys L" and inv: "pq_inv L pq" and q: "fmlookup (queues pq) n = Some q" and n: "n \<noteq> DefaultPoolName" and ord: "orders_cover o3 q"
    and r: "RemoveQueue L now o3 pq n = Some pq'"
  shows "pq_inv L pq'" "waits u pq' \<Longrightarrow> waits u pq" "fmlookup (queues pq') n = None"
proof -
  let ?pq = "pq\<lparr>queues := fmdrop n (queues pq)\<rparr>"
  note iq = pq_invD(2)[OF inv q]
  have inv1: "pq_inv L ?pq" using inv n by (auto simp: pq_inv_def)
  obtain df where df: "fmlookup (queues pq) DefaultPoolName = Some df" using pq_invD(1)[OF inv] by blast
  then have df1: "fmlookup (queues ?pq) DefaultPoolName = Some df" using n by simp
  have v: "\<forall>p \<in> set (pending o3 q). valid_pod p" using pending_valid[OF iq ord] by blast
  obtain pq2 df' where a: "foldM (add_to_queue L now DefaultPoolName) (pending o3 q) ?pq = Some pq2" "pq_inv L pq2"
    "fmlookup (queues pq2) DefaultPoolName = Some df'" "\<forall>m. m \<noteq> DefaultPoolName \<longrightarrow> fmlookup (queues pq2) m = fmlookup (queues ?pq) m"
    and w: "where_is df' = (\<lambda>i. case where_is df i of Some r \<Rightarrow> Some r
        | None \<Rightarrow> map_option (\<lambda>p. (Active, newPodInfo now p)) (List.find (\<lambda>p. id_of p = i) (pending o3 q)))"
    using add_all_effect[OF keys inv1 df1 v, of now] by blast
  have [simp]: "pq' = pq2" using r q df1 a(1) by (simp add: RemoveQueue_def Let_def)
  show "pq_inv L pq'" using a(2) by simp
  show "fmlookup (queues pq') n = None" using a(4) n by simp
  assume "waits u pq'"
  then obtain m q2 i pl x where x: "fmlookup (queues pq2) m = Some q2" "where_is q2 i = Some (pl, x)" "pod_UID (qpod x) = u" by (auto simp: waits_def)
  show "waits u pq"
  proof (cases "m = DefaultPoolName \<and> where_is df i = None")
    case True
    then have "map_option (\<lambda>p. (Active, newPodInfo now p)) (List.find (\<lambda>p. id_of p = i) (pending o3 q)) = Some (pl, x)" using x(1,2) a(3) w by simp
    then obtain p where p: "List.find (\<lambda>p. id_of p = i) (pending o3 q) = Some p" "x = newPodInfo now p" by auto
    then have mem: "p \<in> set (pending o3 q)" by (auto simp: find_Some_iff)
    from pending_places(2)[OF iq ord, of p] mem obtain w1 x1 where "where_is q (id_of p) = Some (w1, x1)" "qpod x1 = p" by blast
    moreover have "pod_UID p = u" using x(3) p(2) by (simp add: newPodInfo_def)
    ultimately show ?thesis using q unfolding waits_def by blast
  next
    case False
    have "fmlookup (queues pq) m = Some (if m = DefaultPoolName then df else q2)" using x(1) a(4) df by (auto split: if_splits)
    moreover have "where_is (if m = DefaultPoolName then df else q2) i = Some (pl, x)" using False x(1,2) a(3) w by (auto split: option.splits)
    ultimately show ?thesis using x(3) unfolding waits_def by blast
  qed
qed

definition ranges_cover :: "(string \<Rightarrow> sub_orders) \<Rightarrow> PoolQueue \<Rightarrow> bool" where
  "ranges_cover ords pq \<longleftrightarrow> (\<forall>n q. fmlookup (queues pq) n = Some q \<longrightarrow> range_of q (snd (snd (ords n))))"

lemma MoveIn_waits:
  assumes keys: "k8s_keys L" and inv: "pq_inv L pq" and ord: "ranges_cover ords pq" and r: "MoveAllToActiveQueueIn L now ords n pq = Some pq'"
  shows "pq_inv L pq' \<and> ranges_cover ords pq' \<and> (waits u pq' \<longrightarrow> waits u pq) \<and> fmdom (queues pq') = fmdom (queues pq)"
proof (cases "fmlookup (queues pq) n")
  case None
  then show ?thesis using r inv ord by (simp add: MoveAllToActiveQueueIn_def)
next
  case (Some q)
  let ?lt = "poolQueuePodPriorityComp (queues pq) n"
  have o: "distinct (snd (snd (ords n)))" "fset (fmdom (unschedulableQ q)) \<subseteq> set (snd (snd (ords n)))"
    using ord Some by (auto simp: ranges_cover_def range_of_def)
  obtain q' where q': "MoveAllToActiveQueue L ?lt now (snd (snd (ords n))) q = Some q'" "queue_inv heap_wf L q'"
    "where_is q' = Queue_Places.moved (destination L now q) UNIV (where_is q)"
    using qw.MoveAll_effect[OF keys pq_invD(2)[OF inv Some] o, of ?lt now] by blast
  have pq': "pq' = set_queue n q' pq" using r Some q'(1) by (simp add: MoveAllToActiveQueueIn_def)
  have "unschedulableQ q' = fmempty" using q'(1) by (auto simp: MoveAllToActiveQueue_def)
  then have "ranges_cover ords pq'" using ord o(1) by (auto simp: ranges_cover_def pq' range_of_def)
  moreover have "waits u pq" if "waits u pq'"
  proof -
    obtain m q2 i w x where x: "fmlookup (queues pq') m = Some q2" "where_is q2 i = Some (w, x)" "pod_UID (qpod x) = u" using \<open>waits u pq'\<close> unfolding waits_def by blast
    have "\<exists>w. where_is q i = Some (w, x)" if "m = n"
      using x(1,2) that q'(3) pq' by (auto simp: Queue_Places.moved_def split: option.splits place.splits if_splits prod.splits)
    moreover have "fmlookup (queues pq) m = Some q2" if "m \<noteq> n" using x(1) pq' that by simp
    ultimately show ?thesis using x(2,3) Some unfolding waits_def by blast
  qed
  moreover have "fmdom (queues pq') = fmdom (queues pq)" using Some by (auto simp: pq' set_queue_def)
  ultimately show ?thesis using pq_inv_set[OF inv q'(2)] pq' by simp
qed

lemma MoveAll_waits:
  assumes keys: "k8s_keys L" and inv: "pq_inv L pq" and ord: "ranges_cover ords pq" and r: "PoolQueue_MoveAllToActiveQueue L now qord ords pq = Some pq'"
  shows "pq_inv L pq' \<and> (waits u pq' \<longrightarrow> waits u pq) \<and> fmdom (queues pq') = fmdom (queues pq)"
proof -
  let ?P = "\<lambda>pq2. pq_inv L pq2 \<and> ranges_cover ords pq2 \<and> (waits u pq2 \<longrightarrow> waits u pq) \<and> fmdom (queues pq2) = fmdom (queues pq)"
  have "?P pq'"
  proof (rule foldM_keeps[of ?P pq])
    fix x pq1 pq2 assume "?P pq1" "MoveAllToActiveQueueIn L now ords x pq1 = Some pq2"
    then show "?P pq2" using MoveIn_waits[OF keys, of pq1 ords now x pq2 u] by auto
  qed (use inv ord r in \<open>simp_all add: PoolQueue_MoveAllToActiveQueue_def\<close>)
  then show ?thesis by blast
qed

text \<open>A pod that waits in no queue is not found there.\<close>

lemma queue_with_waits:
  assumes "pq_inv L pq" "\<forall>n q. fmlookup (queues pq) n = Some q \<longrightarrow> orders_cover (ords n) q" "\<not> waits u pq"
  shows "queue_with qord ords u pq = None"
proof -
  have "pod_UID p \<noteq> u" if q: "fmlookup (queues pq) n = Some q" and p: "p \<in> set (pending (ords n) q)" for n q p
  proof -
    have "orders_cover (ords n) q" using assms(2) q by blast
    from pending_places(2)[OF pq_invD(2)[OF assms(1) q] this, of p] p obtain w x where "where_is q (id_of p) = Some (w, x)" "qpod x = p" by blast
    then show ?thesis using assms(3) q unfolding waits_def by blast
  qed
  then show ?thesis by (auto simp: queue_with_def find_None_iff split: option.splits)
qed

lemma deletePool_effect:
  assumes "RemovePool (cf_k8s cf) (vs_moves v) pool (sc_cache s) = Some (c, None)" "fmlookup (queues (sc_queue s)) (pool_Name pool) = Some q"
    "RemoveQueue (cf_k8s cf) (vs_now v) (vs_sub v (pool_Name pool)) (sc_queue s) (pool_Name pool) = Some pq" "deletePoolFromCache cf v (Deleted pool) s = Some s1"
  shows "sc_tasks s1 = map (detach (pool_Name pool) (length (sc_removed s))) (sc_tasks s)" "sc_removed s1 = sc_removed s @ [PriorityQueue_Close q]"
    "PoolQueue_MoveAllToActiveQueue (cf_k8s cf) (vs_now v) (vs_queues v) (vs_sub v) pq = Some (sc_queue s1)"
  using assms by (auto simp: deletePoolFromCache_def keep_removed_def move_all_def with_queue_def)

text \<open>
  C3. A pod is lost with its pool. Let a pod have failed to be scheduled in a pool other than the default one, without leave to borrow, so that a task waits to put it back; as the pod has been taken from its queue, no
  queue has a pod of its UID, nor the queue of the pool one of its name. Let the pool be deleted before the task runs. The pods in the queue of the pool are moved to the default queue, but this pod is not among them. When pod priorities are enabled and the task runs, and the
  API server says that the pod still exists and has no node, the task adds the pod to the queue that was removed, which the pool map does not have any more. The queues of the pools and the cache stay as they are, and no queue of a pool
  has the pod; so later updates of the pod change nothing, as \<open>Update\<close> ignores a pod that it finds in no queue. It is assumed that the queues are well formed (\<open>pq_inv\<close>), that the pod has a valid name, that the key functions of the library behave as documented, and that loops over the sub-queues visit every key once.
\<close>

theorem pod_lost_with_pool:
  assumes keys: "k8s_keys (cf_k8s cf)" and inv: "pq_inv (cf_k8s cf) (sc_queue s)"
    and q: "fmlookup (queues (sc_queue s)) (pool_Name pool) = Some q" "pool_Name pool \<noteq> DefaultPoolName"
    and task: "i < length (sc_tasks s)" "sc_tasks s ! i = Retry (pool_Name pool) pod False cycle InPool"
    and popped: "\<not> waits (pod_UID pod') (sc_queue s)" "where_is q (id_of pod') = None"
    and del: "RemovePool (cf_k8s cf) (vs_moves v) pool (sc_cache s) = Some (c, None)" "orders_cover (vs_sub v (pool_Name pool)) q"
      "RemoveQueue (cf_k8s cf) (vs_now v) (vs_sub v (pool_Name pool)) (sc_queue s) (pool_Name pool) = Some pq" "ranges_cover (vs_sub v) pq"
      "deletePoolFromCache cf v (Deleted pool) s = Some s1"
    and run: "PodPriorityEnabled cf" "valid_pod pod'" "pod_NodeName pod' = []" "run_task cf v' waited [GetReturns pod'] i s1 = Some s2"
  shows "(\<exists>q' w. sc_removed s2 = sc_removed s @ [q'] \<and> where_is q' (id_of pod') = Some (w, newPodInfo (vs_now v') pod')) \<and>
    sc_queue s2 = sc_queue s1 \<and> sc_cache s2 = sc_cache s1 \<and> length (sc_tasks s2) = length (sc_tasks s) - 1 \<and>
    fmlookup (queues (sc_queue s2)) (pool_Name pool) = None \<and> \<not> waits (pod_UID pod') (sc_queue s2) \<and>
    (\<forall>v'' old new. pod_UID new = pod_UID pod' \<longrightarrow> (\<forall>n q. fmlookup (queues (sc_queue s2)) n = Some q \<longrightarrow> orders_cover (vs_sub v'' n) q) \<longrightarrow>
       updatePodInSchedulingQueue cf v'' old new s2 = Some s2)"
proof -
  note D = deletePool_effect[OF del(1) q(1) del(3,5)] and R = RemoveQueue_waits[OF keys inv q del(2,3)]
  note M = MoveAll_waits[OF keys R(1) del(4) D(3)]
  let ?k = "length (sc_removed s)" and ?s0 = "s1\<lparr>sc_tasks := take i (sc_tasks s1) @ drop (i + 1) (sc_tasks s1)\<rparr>"
  have i: "i < length (sc_tasks s1)" "sc_tasks s1 ! i = Retry (pool_Name pool) pod False cycle (Removed ?k)" using task D(1) by simp_all
  have "queue_inv heap_wf (cf_k8s cf) (PriorityQueue_Close q)" "where_is (PriorityQueue_Close q) = where_is q"
    using pq_invD(2)[OF inv q(1)] by (simp_all add: queue_inv_def PriorityQueue_Close_def where_is_def)
  then obtain q' where q': "AddUnschedulableIfNotPresent (cf_k8s cf) (vs_now v') pod' cycle (PriorityQueue_Close q) = Some (q', None)"
    "where_is q' (id_of pod') \<noteq> None" "snd (the (where_is q' (id_of pod'))) = newPodInfo (vs_now v') pod'"
    using qw.AddUnschedulable_effect[OF keys _ run(2), of "PriorityQueue_Close q" "vs_now v'" cycle] popped(2) by auto
  have s2: "s2 = ?s0\<lparr>sc_removed := sc_removed s @ [q']\<rparr>" using run i D(2) q'(1) by (simp add: run_task_def run_retry_def requeue_def)
  have w: "\<not> waits (pod_UID pod') (sc_queue s1)" using M R(2) popped(1) by blast
  have "updatePodInSchedulingQueue cf v'' old new s2 = Some s2"
    if "pod_UID new = pod_UID pod'" "\<forall>n q. fmlookup (queues (sc_queue s2)) n = Some q \<longrightarrow> orders_cover (vs_sub v'' n) q" for v'' old new
    using queue_with_waits[OF _ _ w, of "cf_k8s cf" "vs_sub v''" "vs_queues v''"] M that s2
    by (simp add: updatePodInSchedulingQueue_def with_queue_def PoolQueue_Update_def)
  moreover have "fmlookup (queues (sc_queue s1)) (pool_Name pool) = None" using M R(3) by (metis fmdom_notD fmdom_notI)
  moreover have "length (sc_tasks ?s0) = length (sc_tasks s) - 1" using i(1) D(1) by simp
  ultimately show ?thesis using s2 w q' by (auto simp: prod_eq_iff)
qed

definition zonal_pool :: Pool where
  "zonal_pool = \<lparr>pool_Name = ''g'', pool_Spec = zero_PoolSpec\<lparr>NodeSelector := Some \<lparr>MatchLabels = [(''zone'', ''a'')], MatchExpressions = []\<rparr>\<rparr>\<rparr>"

lemma zonal_name [simp]: "pool_Name zonal_pool = ''g''"
  by (simp add: zonal_pool_def)

text \<open>The example scheduler with the example pool, in which a pod has failed to be scheduled.\<close>

definition waiting_scheduler :: "(unit, unit) Scheduler" where
  "waiting_scheduler = example_scheduler\<lparr>sc_cache := with_pool example_k8s zonal_pool example_cache, sc_queue := AddQueue NewPoolQueue ''g'',
     sc_tasks := [Retry ''g'' new_pod False 0 InPool]\<rparr>"

lemma empty_queue_moves: "MoveAllToActiveQueueIn L now (\<lambda>_. ([], [], [])) n pq = (case fmlookup (queues pq) n of None \<Rightarrow> Some pq
   | Some q \<Rightarrow> Some (set_queue n (q\<lparr>unschedulableQ := fmempty, moveRequestCycle := schedulingCycle q\<rparr>) pq))"
  by (simp add: MoveAllToActiveQueueIn_def MoveAllToActiveQueue_def List.map_filter_def split: option.split)

lemma waiting_queue:
  shows "pq_inv example_k8s (AddQueue NewPoolQueue ''g'')" "fmlookup (queues (AddQueue NewPoolQueue ''g'')) n = (if n = ''g'' \<or> n = [] then Some NewPriorityQueue else None)"
    "where_is NewPriorityQueue i = None" "orders_cover ([], [], []) NewPriorityQueue"
    "RemoveQueue example_k8s now ([], [], []) (AddQueue NewPoolQueue ''g'') ''g'' = Some NewPoolQueue"
proof -
  have w: "heap_wf (NewHeap :: podInfo heapData)" using ao.NewHeap_inv(1) by (simp add: heap_inv_def)
  note nq = NewPriorityQueue_inv[of heap_wf, OF w]
  have pq: "AddQueue NewPoolQueue ''g'' = set_queue ''g'' NewPriorityQueue NewPoolQueue" by (simp add: AddQueue_def NewPoolQueue_def DefaultPoolName_def)
  show "pq_inv example_k8s (AddQueue NewPoolQueue ''g'')" unfolding pq by (rule pq_inv_set[OF NewPoolQueue_inv nq(1)])
  show "fmlookup (queues (AddQueue NewPoolQueue ''g'')) n = (if n = ''g'' \<or> n = [] then Some NewPriorityQueue else None)"
    unfolding pq by (simp add: NewPoolQueue_def DefaultPoolName_def)
  show "where_is NewPriorityQueue i = None" using nq(2) by simp
  show "orders_cover ([], [], []) NewPriorityQueue" by (simp add: orders_cover_def range_of_def NewPriorityQueue_def ao.NewHeap_inv(2))
  have "fmdrop ''g'' (queues (AddQueue NewPoolQueue ''g'')) = queues NewPoolQueue"
    unfolding pq by (rule fmap_ext) (simp add: NewPoolQueue_def DefaultPoolName_def)
  then show "RemoveQueue example_k8s now ([], [], []) (AddQueue NewPoolQueue ''g'') ''g'' = Some NewPoolQueue"
    unfolding pq by (simp add: RemoveQueue_def set_queue_def NewPoolQueue_def DefaultPoolName_def pending_def PriorityQueue_PendingPods_def Heap_List_def List.map_filter_def)
qed

lemma zonal_pool_removed:
  obtains c s1 where "RemovePool example_k8s (vs_moves example_visits) zonal_pool (sc_cache waiting_scheduler) = Some (c, None)"
    "deletePoolFromCache example_config example_visits (Deleted zonal_pool) waiting_scheduler = Some s1"
proof -
  let ?c = "with_pool example_k8s zonal_pool example_cache"
  obtain p where p: "fmlookup (pools ?c) ''g'' = Some p" by (simp add: with_pool_def)
  have r: "RemovePool example_k8s (vs_moves example_visits) zonal_pool ?c = Some (?c\<lparr>pools := fmdrop ''g'' (pools ?c)\<rparr>, None)"
    using p by (simp add: RemovePool_def move_from_def moveNodeInfosToMatchedPoolFrom_def for_nodes_def example_visits_def)
  have "\<exists>s1. deletePoolFromCache example_config example_visits (Deleted zonal_pool) waiting_scheduler = Some s1"
    using waiting_queue(5)[of 1] r by (auto simp: deletePoolFromCache_def waiting_scheduler_def move_all_def with_queue_def example_visits_def
        PoolQueue_MoveAllToActiveQueue_def empty_queue_moves split: option.splits)
  then show thesis using that r by (auto simp: waiting_scheduler_def)
qed

theorem pod_lost_with_pool_witness:
  "\<exists>s1 s2 q w. deletePoolFromCache example_config example_visits (Deleted zonal_pool) waiting_scheduler = Some s1 \<and>
     run_task example_config example_visits True [GetReturns new_pod] 0 s1 = Some s2 \<and> sc_queue s2 = sc_queue s1 \<and> sc_tasks s2 = [] \<and>
     sc_removed s2 = [q] \<and> where_is q (''prod'', ''p1'') = Some (w, newPodInfo 1 new_pod)"
proof -
  let ?s = waiting_scheduler
  obtain c s1 where d: "RemovePool example_k8s (vs_moves example_visits) zonal_pool (sc_cache ?s) = Some (c, None)"
    "deletePoolFromCache example_config example_visits (Deleted zonal_pool) ?s = Some s1" by (rule zonal_pool_removed)
  have v: "vs_sub example_visits = (\<lambda>_. ([], [], []))" "vs_now example_visits = 1" by (simp_all add: example_visits_def)
  have f: "sc_queue ?s = AddQueue NewPoolQueue ''g''" "sc_removed ?s = []" by (simp_all add: waiting_scheduler_def example_scheduler_def)
  have t: "0 < length (sc_tasks ?s)" "sc_tasks ?s ! 0 = Retry (pool_Name zonal_pool) new_pod False 0 InPool" by (simp_all add: waiting_scheduler_def)
  have q: "fmlookup (queues (sc_queue ?s)) (pool_Name zonal_pool) = Some NewPriorityQueue" by (simp add: f waiting_queue(2))
  have rq: "RemoveQueue (cf_k8s example_config) (vs_now example_visits) (vs_sub example_visits (pool_Name zonal_pool)) (sc_queue ?s) (pool_Name zonal_pool) = Some NewPoolQueue"
    by (simp add: f v waiting_queue(5))
  have d1: "RemovePool (cf_k8s example_config) (vs_moves example_visits) zonal_pool (sc_cache ?s) = Some (c, None)" using d(1) by simp
  note D = deletePool_effect[OF d1 q rq d(2)]
  have pod: "valid_pod new_pod" "pod_NodeName new_pod = []" "id_of new_pod = (''prod'', ''p1'')"
    by (simp_all add: new_pod_def valid_pod_def dns_name_def zero_Pod_def id_of_def)
  have "queue_inv heap_wf example_k8s (PriorityQueue_Close NewPriorityQueue)" "where_is (PriorityQueue_Close NewPriorityQueue) i = None" for i
    using pq_invD(2)[OF waiting_queue(1), of "''g''" NewPriorityQueue] waiting_queue(2,3) by (simp_all add: queue_inv_def PriorityQueue_Close_def where_is_def)
  then obtain q' where q': "AddUnschedulableIfNotPresent example_k8s 1 new_pod 0 (PriorityQueue_Close NewPriorityQueue) = Some (q', None)"
    using qw.AddUnschedulable_effect[OF k8s_keys_example _ pod(1)] by blast
  have "PodPriorityEnabled example_config" by (simp add: example_config_def)
  moreover obtain s2 where s2: "run_task example_config example_visits True [GetReturns new_pod] 0 s1 = Some s2"
    using D(1,2) t(1,2) q' pod(2) f calculation by (auto simp: run_task_def run_retry_def requeue_def v)
  moreover have "\<not> waits (pod_UID new_pod) (sc_queue ?s)" by (auto simp: waits_def f waiting_queue(2,3) split: if_splits)
  moreover have "orders_cover (vs_sub example_visits (pool_Name zonal_pool)) NewPriorityQueue" by (simp add: v waiting_queue(4))
  moreover have "ranges_cover (vs_sub example_visits) NewPoolQueue"
    using waiting_queue(4) by (auto simp: ranges_cover_def v NewPoolQueue_def orders_cover_def split: if_splits)
  ultimately show ?thesis
    using pod_lost_with_pool[OF _ _ q _ t(1,2) _ _ d1 _ rq _ d(2) _ pod(1,2) s2] waiting_queue(1,3) f pod(3) d(2) s2 v t(1)
    by (fastforce simp: k8s_keys_example DefaultPoolName_def waiting_scheduler_def)
qed

text \<open>
  A node that is gone may stay. When binding fails because the node does not exist, the error handler removes the node from the cache with an
  object that has nothing but the name. \<open>RemoveNode\<close> looks for the pool by the labels of the object, of which there are none: if the pool that it finds is
  not the one that has the node, the cache stays as it is and the node keeps being offered to pods of its pool.
\<close>

theorem missing_node_stays:
  assumes good: "cache_good (cf_k8s cf) (sc_cache s)"
    and node: "view (sc_cache s) pn nodeName \<noteq> None" "matchPoolForNode (cf_k8s cf) (vs_pools' v) (Some (zero_Node\<lparr>node_Name := nodeName\<rparr>)) (sc_cache s) = Some qn" "qn \<noteq> pn"
    and r: "handle_error cf v n pod (FNodeNotFound nodeName) nb s = Some s'"
  shows "sc_cache s' = sc_cache s"
proof -
  note inv = goodD(1)[OF good]
  have "view (sc_cache s) qn nodeName = None" using node(1,3) cache_invD(2)[OF inv] unfolding one_pool_def by blast
  then have "RemoveNode (cf_k8s cf) (vs_pools' v) (zero_Node\<lparr>node_Name := nodeName\<rparr>) (sc_cache s) = Some (sc_cache s, Some (PoolError (NodeNotFound nodeName)))"
    using RemoveNode_elsewhere[OF inv node(2)] by simp
  then show ?thesis using r by (auto simp: handle_error_def bind_eq_Some_conv Let_def GetQueue_def split: if_splits option.splits)
qed

lemma zonal_pool_node:
  obtains c ni where "cache_good example_k8s c" "view c ''g'' ''n1'' = Some ni"
    "matchPoolForNode example_k8s [''g'', DefaultPoolName] (Some (zero_Node\<lparr>node_Name := ''n1''\<rparr>)) c = Some DefaultPoolName"
proof -
  let ?c = "with_pool example_k8s zonal_pool example_cache" and ?n = "zone_node ''a'' ''n1''" and ?z = "zero_Node\<lparr>node_Name := ''n1''\<rparr>"
  note E = example_with_pool[OF zonal_name]
  have g: "cache_good example_k8s ?c" by (rule cache_step_good[OF E(2) example_good])
  have inv: "cache_inv ?c" by (rule goodD(1)[OF g])
  have M: "matchPoolForNode example_k8s [''g'', DefaultPoolName] (Some ?n) ?c = Some ''g''" "matchPoolForNode example_k8s [''g'', DefaultPoolName] (Some ?z) ?c = Some DefaultPoolName"
    by (simp_all add: matchPoolForNode_def matching_pools_def with_pool_def example_cache_def newSchedulerCache_def zonal_pool_def MatchNode_def zone_node_def zero_Node_def
        zero_PoolSpec_def defaultPool_def IsDefaultPool_def PoolInfo_Name_def SetPool_def NewPoolInfo_def DefaultPoolName_def example_k8s_def)
  show thesis
  proof (rule AddNode_step[where L = example_k8s and ord = "[''g'', DefaultPoolName]" and node = ?n, OF inv])
    show "matchPoolForNode example_k8s [''g'', DefaultPoolName] (Some ?n) ?c = Some qn" if "view ?c qn (node_Name ?n) \<noteq> None" for qn
      using that E(6) by simp
    fix c1 pn w
    assume a: "AddNode example_k8s [''g'', DefaultPoolName] ?n ?c = Some c1" "cache_inv c1" "same_pools ?c c1"
      "matchPoolForNode example_k8s [''g'', DefaultPoolName] (Some ?n) ?c = Some pn" "touched ?c pn (node_Name ?n) w c1" "Option.bind w ni_node = Some ?n"
    have "cache_good example_k8s c1" by (rule cache_step_good[OF step_AddNode[OF E(3) _ a(1)] g]) (simp add: E(6))
    moreover obtain ni where "w = Some ni" using a(6) by (cases w) auto
    then have "view c1 ''g'' ''n1'' = Some ni" using touchedD(4)[OF a(5)] a(4) M(1) by (simp add: zone_node_def)
    moreover have "matchPoolForNode example_k8s [''g'', DefaultPoolName] (Some ?z) c1 = Some DefaultPoolName"
      using M(2) matchPoolForNode_chosen[of _ "[''g'', DefaultPoolName]" example_k8s ?z] match_set_same[OF a(3), of example_k8s ?z] cache_invD(1)[OF inv] cache_invD(1)[OF a(2)]
        E(3) covers_same[OF a(3)] by simp
    ultimately show thesis by (rule that)
  qed
qed

theorem missing_node_stays_witness:
  "\<exists>(s :: (unit, unit) Scheduler) s'. handle_error example_config (example_visits\<lparr>vs_pools' := [''g'', DefaultPoolName]\<rparr>) ''g'' new_pod (FNodeNotFound ''n1'') False s = Some s' \<and>
     view (sc_cache s') ''g'' ''n1'' \<noteq> None"
proof -
  let ?v = "example_visits\<lparr>vs_pools' := [''g'', DefaultPoolName]\<rparr>"
  obtain c ni where c: "cache_good example_k8s c" "view c ''g'' ''n1'' = Some ni"
    "matchPoolForNode example_k8s [''g'', DefaultPoolName] (Some (zero_Node\<lparr>node_Name := ''n1''\<rparr>)) c = Some DefaultPoolName" by (rule zonal_pool_node)
  let ?s = "waiting_scheduler\<lparr>sc_cache := c\<rparr>"
  have "RemoveNode example_k8s [''g'', DefaultPoolName] (zero_Node\<lparr>node_Name := ''n1''\<rparr>) c \<noteq> None"
    using RemoveNode_elsewhere[OF goodD(1)[OF c(1)] c(3)] c(2) cache_invD(2)[OF goodD(1)[OF c(1)]]
    by (cases "view c DefaultPoolName ''n1''") (fastforce simp: one_pool_def DefaultPoolName_def)+
  moreover have "Gc 1 CreateDefaultPodBackoff \<noteq> None" by code_simp
  moreover have "fmlookup (queues (AddQueue NewPoolQueue ''g'')) ''g'' = Some NewPriorityQueue" by (simp add: AddQueue_def NewPoolQueue_def DefaultPoolName_def)
  ultimately obtain s' where s': "handle_error example_config ?v ''g'' new_pod (FNodeNotFound ''n1'') False ?s = Some s'"
    by (auto simp: handle_error_def example_config_def example_api_def waiting_scheduler_def example_scheduler_def example_visits_def GetQueue_def Let_def)
  have "sc_cache s' = c"
    using missing_node_stays[OF _ _ _ _ s', of "''g''" DefaultPoolName] c by (simp add: DefaultPoolName_def)
  then show ?thesis using s' c(2) by auto
qed

end
