(* ===== verification/Priorities.thy ===== *)
theory Priorities
  imports Generic_Scheduler
begin

text \<open>
  The priority functions that compute with integers, \<open>algorithm/priorities\<close>: scores by requested resources, taints, labels, limits and
  node affinity, the controllers that a node wants to avoid, the reduction that normalises scores, the metadata
  shared by them, and the validation of the weights in \<open>factory/plugins.go\<close>.

  A map function gets the metadata as an interface that may hold none (\<open>None\<close>). The scores are 64-bit integers with
  wrap-around and division that truncates. The services, controllers and sets that select a pod come from listers; of a controller only its
  selector is read. A function that may panic returns \<open>None\<close> for the panic.
\<close>

definition MaxPriority :: int64 where "MaxPriority = 10"
definition MaxTotalPriority :: int64 where "MaxTotalPriority = 9223372036854775807"
definition MaxWeight :: int64 where "MaxWeight = go_div 9223372036854775807 MaxPriority"

definition no_node :: "HostPriority \<times> string option" where
  "no_node = (\<lparr>Host = [], Score = 0\<rparr>, Some ''node not found'')"

definition NonZeroRequest :: "NodeInfo option \<Rightarrow> Resource" where
  "NonZeroRequest n = (case n of None \<Rightarrow> emptyResource | Some i \<Rightarrow> nonzeroRequest i)"

subsection \<open>Metadata\<close>

record PriorityMetadataFactory =
  GetPodServices :: "Pod \<Rightarrow> string + Service list"
  GetPodControllers :: "Pod \<Rightarrow> string + labels list"
  GetPodReplicaSets :: "Pod \<Rightarrow> string + LabelSelector option list"
  GetPodStatefulSets :: "Pod \<Rightarrow> string + LabelSelector option list"

record priorityMetadata =
  nonZeroRequest :: Resource
  podTolerations :: "Toleration list"
  pm_affinity :: "Affinity option"
  podSelectors :: "(labels \<Rightarrow> bool) list"
  controllerRef :: "OwnerReference option"
  podFirstServiceSelector :: "(labels \<Rightarrow> bool) option"
  totalNumNodes :: nat

definition getNonZeroRequests :: "Pod \<Rightarrow> Resource" where
  "getNonZeroRequests pod = foldl (\<lambda>result container.
     case GetNonzeroRequests (Requests container) of (cpu, memory) \<Rightarrow>
       result\<lparr>MilliCPU := MilliCPU result + cpu, Memory := Memory result + memory\<rparr>) emptyResource (pod_Containers pod)"

definition TaintEffectPreferNoSchedule :: string where
  "TaintEffectPreferNoSchedule = ''PreferNoSchedule''"

definition getAllTolerationPreferNoSchedule :: "Toleration list \<Rightarrow> Toleration list" where
  "getAllTolerationPreferNoSchedule tolerations =
     filter (\<lambda>toleration. length (tol_Effect toleration) = 0 \<or> tol_Effect toleration = TaintEffectPreferNoSchedule) tolerations"

definition getFirstServiceSelector :: "k8s \<Rightarrow> PriorityMetadataFactory \<Rightarrow> Pod \<Rightarrow> (labels \<Rightarrow> bool) option" where
  "getFirstServiceSelector L sl pod = (case GetPodServices sl pod of
     Inr (service # _) \<Rightarrow> Some (SelectorFromSet L (svc_Selector service))
   | _ \<Rightarrow> None)"

definition getSelectors :: "k8s \<Rightarrow> PriorityMetadataFactory \<Rightarrow> Pod \<Rightarrow> (labels \<Rightarrow> bool) list" where
  "getSelectors L sl pod =
     (case GetPodServices sl pod of Inl _ \<Rightarrow> [] | Inr services \<Rightarrow> map (\<lambda>service. SelectorFromSet L (svc_Selector service)) services) @
     (case GetPodControllers sl pod of Inl _ \<Rightarrow> [] | Inr rcs \<Rightarrow> map (SelectorFromSet L) rcs) @
     (case GetPodReplicaSets sl pod of Inl _ \<Rightarrow> [] | Inr rss \<Rightarrow> List.map_filter (LabelSelectorAsSelector L) rss) @
     (case GetPodStatefulSets sl pod of Inl _ \<Rightarrow> [] | Inr sss \<Rightarrow> List.map_filter (LabelSelectorAsSelector L) sss)"

definition PriorityMetadata :: "k8s \<Rightarrow> PriorityMetadataFactory \<Rightarrow> Pod \<Rightarrow> node_info_map \<Rightarrow> priorityMetadata option" where
  "PriorityMetadata L pmf pod nodeNameToInfo = Some
     \<lparr>nonZeroRequest = getNonZeroRequests pod,
      podTolerations = getAllTolerationPreferNoSchedule (pod_Tolerations pod),
      pm_affinity = pod_Affinity pod,
      podSelectors = getSelectors L pmf pod,
      controllerRef = GetControllerOf L pod,
      podFirstServiceSelector = getFirstServiceSelector L pmf pod,
      totalNumNodes = fcard (fmdom nodeNameToInfo)\<rparr>"

type_synonym PriorityMapFunction = "Pod \<Rightarrow> priorityMetadata option \<Rightarrow> NodeInfo option \<Rightarrow> HostPriority \<times> string option"
type_synonym PriorityReduceFunction = "Pod \<Rightarrow> priorityMetadata option \<Rightarrow> node_info_map \<Rightarrow> HostPriority list \<Rightarrow> HostPriority list \<times> string option"

subsection \<open>Scores by requested resources\<close>

record ResourceAllocationPriority =
  rap_Name :: string
  scorer :: "Resource \<Rightarrow> Resource \<Rightarrow> bool \<Rightarrow> int64 \<Rightarrow> int64 \<Rightarrow> int64"

definition requested_on :: "Pod \<Rightarrow> priorityMetadata option \<Rightarrow> NodeInfo option \<Rightarrow> Resource" where
  "requested_on pod meta nodeInfo =
     (let request = (case meta of Some priorityMeta \<Rightarrow> nonZeroRequest priorityMeta | None \<Rightarrow> getNonZeroRequests pod)
      in request\<lparr>MilliCPU := MilliCPU request + MilliCPU (NonZeroRequest nodeInfo),
                 Memory := Memory request + Memory (NonZeroRequest nodeInfo)\<rparr>)"

text \<open>\<open>gate\<close> is the feature gate \<open>BalanceAttachedNodeVolumes\<close> and \<open>cells\<close> the objects behind the pointers \<open>TransientInfo\<close>.\<close>

definition PriorityMap :: "bool \<Rightarrow> nodeTransientInfo list \<Rightarrow> ResourceAllocationPriority \<Rightarrow> PriorityMapFunction" where
  "PriorityMap gate cells r pod meta nodeInfo = (case NodeInfo_Node nodeInfo of
     None \<Rightarrow> no_node
   | Some node \<Rightarrow>
      (let allocatable = AllocatableResource nodeInfo;
           requested = requested_on pod meta nodeInfo;
           transient = Option.bind nodeInfo (\<lambda>i. if TransientInfo i < length cells then Some (cells ! TransientInfo i) else None);
           score = (case transient of
               Some t \<Rightarrow> if gate then scorer r requested allocatable True (RequestedVolumes t) (AllocatableVolumesCount t)
                        else scorer r requested allocatable False 0 0
             | None \<Rightarrow> scorer r requested allocatable False 0 0)
       in (\<lparr>Host = node_Name node, Score = score\<rparr>, None)))"

definition leastRequestedScore :: "int64 \<Rightarrow> int64 \<Rightarrow> int64" where
  "leastRequestedScore requested capacity =
     (if capacity = 0 then 0 else if capacity <s requested then 0
      else go_div ((capacity - requested) * MaxPriority) capacity)"

definition leastResourceScorer :: "Resource \<Rightarrow> Resource \<Rightarrow> bool \<Rightarrow> int64 \<Rightarrow> int64 \<Rightarrow> int64" where
  "leastResourceScorer requested allocable includeVolumes requestedVolumes allocatableVolumes =
     go_div (leastRequestedScore (MilliCPU requested) (MilliCPU allocable) + leastRequestedScore (Memory requested) (Memory allocable)) 2"

definition mostRequestedScore :: "int64 \<Rightarrow> int64 \<Rightarrow> int64" where
  "mostRequestedScore requested capacity =
     (if capacity = 0 then 0 else if capacity <s requested then 0
      else go_div (requested * MaxPriority) capacity)"

definition mostResourceScorer :: "Resource \<Rightarrow> Resource \<Rightarrow> bool \<Rightarrow> int64 \<Rightarrow> int64 \<Rightarrow> int64" where
  "mostResourceScorer requested allocable includeVolumes requestedVolumes allocatableVolumes =
     go_div (mostRequestedScore (MilliCPU requested) (MilliCPU allocable) + mostRequestedScore (Memory requested) (Memory allocable)) 2"

definition leastResourcePriority :: ResourceAllocationPriority where
  "leastResourcePriority = \<lparr>rap_Name = ''LeastResourceAllocation'', scorer = leastResourceScorer\<rparr>"

definition mostResourcePriority :: ResourceAllocationPriority where
  "mostResourcePriority = \<lparr>rap_Name = ''MostResourceAllocation'', scorer = mostResourceScorer\<rparr>"

text \<open>A shape of points. \<open>NewFunctionShape\<close> refuses an empty list of points; a shape is its first point and the others.\<close>

record FunctionShapePoint =
  Utilization :: int64
  fsp_Score :: int64

type_synonym FunctionShape = "FunctionShapePoint \<times> FunctionShapePoint list"

definition minUtilization :: int64 where "minUtilization = 0"
definition maxUtilization :: int64 where "maxUtilization = 100"

fun utilization_sorted :: "FunctionShapePoint list \<Rightarrow> bool" where
  "utilization_sorted (p # q # rest) \<longleftrightarrow> Utilization p <s Utilization q \<and> utilization_sorted (q # rest)"
| "utilization_sorted _ \<longleftrightarrow> True"

fun check_points :: "FunctionShapePoint list \<Rightarrow> string option" where
  "check_points [] = None"
| "check_points (point # rest) =
     (if Utilization point <s minUtilization then Some ''utilization values must not be less than 0''
      else if maxUtilization <s Utilization point then Some ''utilization values must not be greater than 100''
      else if fsp_Score point <s 0 then Some ''score values must not be less than 0''
      else if MaxPriority <s fsp_Score point then Some ''score values must not be greater than 10''
      else check_points rest)"

definition NewFunctionShape :: "FunctionShapePoint list \<Rightarrow> string + FunctionShape" where
  "NewFunctionShape points = (case points of
     [] \<Rightarrow> Inl ''at least one point must be specified''
   | p # ps \<Rightarrow>
      if \<not> utilization_sorted points then Inl ''utilization values must be sorted''
      else case check_points points of Some err \<Rightarrow> Inl err | None \<Rightarrow> Inr (p, ps))"

fun broken_segments :: "FunctionShapePoint \<Rightarrow> FunctionShapePoint list \<Rightarrow> int64 \<Rightarrow> int64" where
  "broken_segments prev [] p = fsp_Score prev"
| "broken_segments prev (point # rest) p =
     (if p \<le>s Utilization point
      then fsp_Score prev + go_div ((fsp_Score point - fsp_Score prev) * (p - Utilization prev)) (Utilization point - Utilization prev)
      else broken_segments point rest p)"

definition buildBrokenLinearFunction :: "FunctionShape \<Rightarrow> int64 \<Rightarrow> int64" where
  "buildBrokenLinearFunction shape p =
     (if p \<le>s Utilization (fst shape) then fsp_Score (fst shape) else broken_segments (fst shape) (snd shape) p)"

definition resourceScoringFunction :: "FunctionShape \<Rightarrow> int64 \<Rightarrow> int64 \<Rightarrow> int64" where
  "resourceScoringFunction shape requested capacity =
     (if capacity = 0 \<or> capacity <s requested then buildBrokenLinearFunction shape maxUtilization
      else buildBrokenLinearFunction shape (maxUtilization - go_div ((capacity - requested) * maxUtilization) capacity))"

definition buildRequestedToCapacityRatioScorerFunction :: "FunctionShape \<Rightarrow> Resource \<Rightarrow> Resource \<Rightarrow> bool \<Rightarrow> int64 \<Rightarrow> int64 \<Rightarrow> int64" where
  "buildRequestedToCapacityRatioScorerFunction shape requested allocable includeVolumes requestedVolumes allocatableVolumes =
     (let cpuScore = resourceScoringFunction shape (MilliCPU requested) (MilliCPU allocable);
          memoryScore = resourceScoringFunction shape (Memory requested) (Memory allocable)
      in go_div (cpuScore + memoryScore) 2)"

definition RequestedToCapacityRatioResourceAllocationPriority :: "FunctionShape \<Rightarrow> ResourceAllocationPriority" where
  "RequestedToCapacityRatioResourceAllocationPriority shape =
     \<lparr>rap_Name = ''RequestedToCapacityRatioResourceAllocationPriority'', scorer = buildRequestedToCapacityRatioScorerFunction shape\<rparr>"

definition defaultFunctionShape :: FunctionShape where
  "defaultFunctionShape = (\<lparr>Utilization = 0, fsp_Score = 10\<rparr>, [\<lparr>Utilization = 100, fsp_Score = 0\<rparr>])"

subsection \<open>Normalising scores\<close>

definition maxCount :: "HostPriority list \<Rightarrow> int64" where
  "maxCount result = foldl (\<lambda>m hp. if m <s Score hp then Score hp else m) 0 result"

definition NormalizeReduce :: "int64 \<Rightarrow> bool \<Rightarrow> PriorityReduceFunction" where
  "NormalizeReduce maxPriority reverse pod meta infos result =
     (if maxCount result = 0
      then (if reverse then map (\<lambda>hp. hp\<lparr>Score := maxPriority\<rparr>) result else result, None)
      else (map (\<lambda>hp.
          let score = go_div (maxPriority * Score hp) (maxCount result)
          in hp\<lparr>Score := if reverse then maxPriority - score else score\<rparr>) result, None))"

subsection \<open>Taints, labels, limits\<close>

definition countIntolerableTaintsPreferNoSchedule :: "k8s \<Rightarrow> Taint list \<Rightarrow> Toleration list \<Rightarrow> int64" where
  "countIntolerableTaintsPreferNoSchedule L taints tolerations =
     foldl (\<lambda>intolerableTaints taint.
       if taint_Effect taint \<noteq> TaintEffectPreferNoSchedule then intolerableTaints
       else if \<not> TolerationsTolerateTaint L tolerations taint then intolerableTaints + 1
       else intolerableTaints) 0 taints"

definition ComputeTaintTolerationPriorityMap :: "k8s \<Rightarrow> PriorityMapFunction" where
  "ComputeTaintTolerationPriorityMap L pod meta nodeInfo = (case NodeInfo_Node nodeInfo of
     None \<Rightarrow> no_node
   | Some node \<Rightarrow>
      (let tolerationsPreferNoSchedule = (case meta of
             Some priorityMeta \<Rightarrow> podTolerations priorityMeta
           | None \<Rightarrow> getAllTolerationPreferNoSchedule (pod_Tolerations pod))
       in (\<lparr>Host = node_Name node, Score = countIntolerableTaintsPreferNoSchedule L (node_Taints node) tolerationsPreferNoSchedule\<rparr>, None)))"

definition ComputeTaintTolerationPriorityReduce :: PriorityReduceFunction where
  "ComputeTaintTolerationPriorityReduce = NormalizeReduce MaxPriority True"

record NodeLabelPrioritizer =
  nlp_label :: string
  nlp_presence :: bool

definition CalculateNodeLabelPriorityMap :: "NodeLabelPrioritizer \<Rightarrow> PriorityMapFunction" where
  "CalculateNodeLabelPriorityMap n pod meta nodeInfo = (case NodeInfo_Node nodeInfo of
     None \<Rightarrow> no_node
   | Some node \<Rightarrow>
      (let exists = map_of (node_Labels node) (nlp_label n) \<noteq> None;
           score = (if exists \<and> nlp_presence n \<or> \<not> exists \<and> \<not> nlp_presence n then MaxPriority else 0)
       in (\<lparr>Host = node_Name node, Score = score\<rparr>, None)))"

definition getResourceLimits :: "k8s \<Rightarrow> Pod \<Rightarrow> Resource" where
  "getResourceLimits L pod =
     foldl (\<lambda>result container. SetMaxResource L result (Limits container))
       (foldl (\<lambda>result container. Resource_Add L result (Limits container)) emptyResource (pod_Containers pod))
       (pod_InitContainers pod)"

definition computeScore :: "int64 \<Rightarrow> int64 \<Rightarrow> int64" where
  "computeScore limit allocatable = (if limit \<noteq> 0 \<and> allocatable \<noteq> 0 \<and> limit \<le>s allocatable then 1 else 0)"

definition ResourceLimitsPriorityMap :: "k8s \<Rightarrow> PriorityMapFunction" where
  "ResourceLimitsPriorityMap L pod meta nodeInfo = (case NodeInfo_Node nodeInfo of
     None \<Rightarrow> no_node
   | Some node \<Rightarrow>
      (let allocatableResources = AllocatableResource nodeInfo;
           podLimits = getResourceLimits L pod;
           cpuScore = computeScore (MilliCPU podLimits) (MilliCPU allocatableResources);
           memScore = computeScore (Memory podLimits) (Memory allocatableResources)
       in (\<lparr>Host = node_Name node, Score = if cpuScore = 1 \<or> memScore = 1 then 1 else 0\<rparr>, None)))"

subsection \<open>Node affinity\<close>

text \<open>The loop over the preferred terms; \<open>None\<close> is the error of a selector. The count has 32 bits.\<close>

fun preferred_weight :: "k8s \<Rightarrow> labels \<Rightarrow> PreferredSchedulingTerm list \<Rightarrow> int32 \<Rightarrow> int32 option" where
  "preferred_weight L labels [] n = Some n"
| "preferred_weight L labels (term # terms) n =
     (if pst_Weight term = 0 then preferred_weight L labels terms n
      else case NodeSelectorRequirementsAsSelector L (nst_MatchExpressions (pst_Preference term)) of
        None \<Rightarrow> None
      | Some nodeSelector \<Rightarrow> preferred_weight L labels terms (if nodeSelector labels then n + pst_Weight term else n))"

definition preferred_terms :: "Pod \<Rightarrow> priorityMetadata option \<Rightarrow> PreferredSchedulingTerm list" where
  "preferred_terms pod meta =
     (let affinity = (case meta of Some priorityMeta \<Rightarrow> pm_affinity priorityMeta | None \<Rightarrow> pod_Affinity pod)
      in case Option.bind affinity NodeAffinity of Some a \<Rightarrow> PreferredNodeTerms a | None \<Rightarrow> [])"

definition CalculateNodeAffinityPriorityMap :: "k8s \<Rightarrow> PriorityMapFunction" where
  "CalculateNodeAffinityPriorityMap L pod meta nodeInfo = (case NodeInfo_Node nodeInfo of
     None \<Rightarrow> no_node
   | Some node \<Rightarrow> (case preferred_weight L (node_Labels node) (preferred_terms pod meta) 0 of
       None \<Rightarrow> (\<lparr>Host = [], Score = 0\<rparr>, Some ''invalid selector'')
     | Some n \<Rightarrow> (\<lparr>Host = node_Name node, Score = scast n\<rparr>, None)))"

definition CalculateNodeAffinityPriorityReduce :: PriorityReduceFunction where
  "CalculateNodeAffinityPriorityReduce = NormalizeReduce MaxPriority False"

subsection \<open>Avoided pods\<close>

text \<open>The loop over the entries of the annotation. It panics at an entry that has no controller.\<close>

fun avoid_score :: "OwnerReference option list \<Rightarrow> OwnerReference \<Rightarrow> int64 option" where
  "avoid_score [] ref = Some MaxPriority"
| "avoid_score (None # avoids) ref = None"
| "avoid_score (Some avoid # avoids) ref =
     (if owner_Kind avoid = owner_Kind ref \<and> owner_UID avoid = owner_UID ref then Some 0 else avoid_score avoids ref)"

definition CalculateNodePreferAvoidPodsPriorityMap ::
  "k8s \<Rightarrow> Pod \<Rightarrow> priorityMetadata option \<Rightarrow> NodeInfo option \<Rightarrow> (HostPriority \<times> string option) option" where
  "CalculateNodePreferAvoidPodsPriorityMap L pod meta nodeInfo = (case NodeInfo_Node nodeInfo of
     None \<Rightarrow> Some no_node
   | Some node \<Rightarrow>
      (let ref = (case meta of Some priorityMeta \<Rightarrow> controllerRef priorityMeta | None \<Rightarrow> GetControllerOf L pod);
           result = (\<lambda>score. (\<lparr>Host = node_Name node, Score = score\<rparr>, None))
       in case ref of
            None \<Rightarrow> Some (result MaxPriority)
          | Some r \<Rightarrow>
              if owner_Kind r \<noteq> ''ReplicationController'' \<and> owner_Kind r \<noteq> ''ReplicaSet'' then Some (result MaxPriority)
              else case GetAvoidPodsFromNodeAnnotations L (node_Annotations node) of
                None \<Rightarrow> Some (result MaxPriority)
              | Some avoids \<Rightarrow> map_option result (avoid_score avoids r)))"

subsection \<open>Spreading: counting the pods that the selectors match\<close>

definition countMatchingPods :: "string \<Rightarrow> (labels \<Rightarrow> bool) list \<Rightarrow> NodeInfo option \<Rightarrow> int64" where
  "countMatchingPods namespace selectors nodeInfo =
     (if NodeInfo_Pods nodeInfo = [] \<or> selectors = [] then 0
      else foldl (\<lambda>n pod.
        if namespace = pod_Namespace pod \<and> pod_DeletionTimestamp pod = None \<and> list_all (\<lambda>selector. selector (pod_Labels pod)) selectors
        then n + 1 else n) 0 (NodeInfo_Pods nodeInfo))"

definition CalculateSpreadPriorityMap :: "k8s \<Rightarrow> PriorityMetadataFactory \<Rightarrow> PriorityMapFunction" where
  "CalculateSpreadPriorityMap L s pod meta nodeInfo = (case NodeInfo_Node nodeInfo of
     None \<Rightarrow> no_node
   | Some node \<Rightarrow>
      (let selectors = (case meta of Some priorityMeta \<Rightarrow> podSelectors priorityMeta | None \<Rightarrow> getSelectors L s pod)
       in if selectors = [] then (\<lparr>Host = node_Name node, Score = 0\<rparr>, None)
          else (\<lparr>Host = node_Name node, Score = countMatchingPods (pod_Namespace pod) selectors nodeInfo\<rparr>, None)))"

definition CalculateAntiAffinityPriorityMap :: "k8s \<Rightarrow> PriorityMetadataFactory \<Rightarrow> PriorityMapFunction" where
  "CalculateAntiAffinityPriorityMap L s pod meta nodeInfo = (case NodeInfo_Node nodeInfo of
     None \<Rightarrow> no_node
   | Some node \<Rightarrow>
      (let firstServiceSelector = (case meta of Some priorityMeta \<Rightarrow> podFirstServiceSelector priorityMeta | None \<Rightarrow> getFirstServiceSelector L s pod);
           selectors = (case firstServiceSelector of Some selector \<Rightarrow> [selector] | None \<Rightarrow> [])
       in (\<lparr>Host = node_Name node, Score = countMatchingPods (pod_Namespace pod) selectors nodeInfo\<rparr>, None)))"

subsection \<open>Weights\<close>

fun validate_weights :: "int64 \<Rightarrow> int64 list \<Rightarrow> string option" where
  "validate_weights totalPriority [] = None"
| "validate_weights totalPriority (weight # weights) =
     (if MaxTotalPriority - totalPriority <s weight * MaxPriority then Some ''total priority of priority functions has overflown''
      else validate_weights (totalPriority + weight * MaxPriority) weights)"

definition validateSelectedConfigs :: "'p PriorityConfig list \<Rightarrow> string option" where
  "validateSelectedConfigs configs = validate_weights 0 (map Weight configs)"

text \<open>The check of the weights in \<open>ValidatePolicy\<close>.\<close>

definition policy_weight_ok :: "int64 \<Rightarrow> bool" where
  "policy_weight_ok weight \<longleftrightarrow> \<not> (weight \<le>s 0 \<or> MaxWeight \<le>s weight)"

end
