(* ===== verification/Priority_Properties.thy ===== *)
theory Priority_Properties
  imports Priorities Search_Runs
begin

text \<open>
  The scores of the priority functions lie between 0 and \<open>MaxPriority\<close>; the locale \<open>bounded_priority\<close> states this for a configuration
  and is interpreted for the functions of the package. With weights that pass the validation, the sums of the weighted scores do
  not overflow, so that the node with the best score is the one that the weights and scores say.
\<close>

subsection \<open>64-bit arithmetic within its range\<close>

definition in_range :: "int \<Rightarrow> bool" where
  "in_range i \<longleftrightarrow> - (2 ^ 63) \<le> i \<and> i < 2 ^ 63"

lemma sint_ops [simp]:
  fixes a b :: int64
  shows "in_range (sint a + sint b) \<Longrightarrow> sint (a + b) = sint a + sint b"
    and "in_range (sint a - sint b) \<Longrightarrow> sint (a - b) = sint a - sint b"
    and "in_range (sint a * sint b) \<Longrightarrow> sint (a * b) = sint a * sint b"
  by (simp_all add: in_range_def sint_word_ariths signed_take_bit_int_eq_self)

lemma sint_go_div:
  fixes a b :: int64
  assumes "0 \<le> sint a" "0 < sint b"
  shows "sint (go_div a b) = sint a div sint b"
proof -
  have "sint a < 2 ^ 63" using sint_lt[of a] by simp
  then have "sint a div sint b < 2 ^ 63" using assms zdiv_mono2[of "sint a" 1 "sint b"] by simp
  moreover have "go_div a b = word_of_int (sint a div sint b)" using assms by (cases "sint a = 0") (simp_all add: go_div_def)
  moreover have "0 \<le> sint a div sint b" using assms by (simp add: pos_imp_zdiv_nonneg_iff)
  ultimately show ?thesis by (simp add: sint_in_range)
qed

lemma signed_less_sint: "(a :: int64) <s b \<longleftrightarrow> sint a < sint b" "(a :: int64) \<le>s b \<longleftrightarrow> sint a \<le> sint b"
  by (simp_all add: word_sless_alt word_sle_eq)

definition score_ok :: "int64 \<Rightarrow> bool" where
  "score_ok s \<longleftrightarrow> 0 \<le> sint s \<and> sint s \<le> 10"

lemma score_average: "score_ok a \<Longrightarrow> score_ok b \<Longrightarrow> sint (go_div (a + b) 2) = (sint a + sint b) div 2 \<and> score_ok (go_div (a + b) 2)"
proof -
  assume s: "score_ok a" "score_ok b"
  then have "sint (a + b) = sint a + sint b" by (intro sint_ops(1)) (simp add: score_ok_def in_range_def)
  moreover from this have "sint (go_div (a + b) 2) = sint (a + b) div 2" using s by (subst sint_go_div) (simp_all add: score_ok_def)
  ultimately show ?thesis using s by (simp add: score_ok_def) linarith
qed

subsection \<open>Scores by requested resources\<close>

text \<open>Capacities whose product with the factor of the score does not overflow.\<close>

definition capacity_ok :: "int64 \<Rightarrow> bool" where
  "capacity_ok c \<longleftrightarrow> 0 \<le> sint c \<and> sint c < 2 ^ 56"

lemma MaxPriority_sint [simp]: "sint MaxPriority = 10"
  by (simp add: MaxPriority_def)

lemma leastRequestedScore_sint:
  assumes "capacity_ok c" "0 \<le> sint r"
  shows "sint (leastRequestedScore r c) = (if sint r \<le> sint c \<and> c \<noteq> 0 then (sint c - sint r) * 10 div sint c else 0)"
proof (cases "sint r \<le> sint c \<and> c \<noteq> 0")
  case True
  then have "sint c \<noteq> 0" by (metis sint_0 signed_word_eqI)
  then have c: "0 < sint c" using assms(1) by (simp add: capacity_ok_def)
  have "sint ((c - r) * MaxPriority) = (sint c - sint r) * 10"
    using assms True by (simp add: in_range_def capacity_ok_def)
  then show ?thesis using True c by (simp add: leastRequestedScore_def signed_less_sint sint_go_div)
qed (auto simp: leastRequestedScore_def signed_less_sint)

lemma mostRequestedScore_sint:
  assumes "capacity_ok c" "0 \<le> sint r"
  shows "sint (mostRequestedScore r c) = (if sint r \<le> sint c \<and> c \<noteq> 0 then sint r * 10 div sint c else 0)"
proof (cases "sint r \<le> sint c \<and> c \<noteq> 0")
  case True
  then have "sint c \<noteq> 0" by (metis sint_0 signed_word_eqI)
  then have c: "0 < sint c" using assms(1) by (simp add: capacity_ok_def)
  have "sint (r * MaxPriority) = sint r * 10"
    using assms True by (simp add: in_range_def capacity_ok_def)
  then show ?thesis using True c assms(2) by (simp add: mostRequestedScore_def signed_less_sint sint_go_div)
qed (auto simp: mostRequestedScore_def signed_less_sint)

lemma fraction_ok:
  fixes x c :: int
  assumes "0 \<le> x" "x \<le> c"
  shows "0 \<le> x * 10 div c" "x * 10 div c \<le> 10"
proof -
  show "0 \<le> x * 10 div c" using assms by (simp add: pos_imp_zdiv_nonneg_iff div_int_pos_iff)
  show "x * 10 div c \<le> 10"
  proof (cases "c = 0")
    case False
    then have "x * 10 div c \<le> c * 10 div c" using assms by (intro zdiv_mono1) auto
    with False show ?thesis by simp
  qed simp
qed

lemma requested_scores_ok:
  assumes "capacity_ok c" "0 \<le> sint r"
  shows "score_ok (leastRequestedScore r c)" "score_ok (mostRequestedScore r c)"
  using assms fraction_ok[of "sint c - sint r" "sint c"] fraction_ok[of "sint r" "sint c"]
  by (auto simp: score_ok_def leastRequestedScore_sint mostRequestedScore_sint)

lemma least_antimono:
  assumes "capacity_ok c" "0 \<le> sint r" "sint r \<le> sint r'"
  shows "sint (leastRequestedScore r' c) \<le> sint (leastRequestedScore r c)"
proof -
  have "0 \<le> sint c" using assms(1) by (simp add: capacity_ok_def)
  then have "sint r' \<le> sint c \<Longrightarrow> (sint c - sint r') * 10 div sint c \<le> (sint c - sint r) * 10 div sint c"
    using assms by (cases "sint c = 0") (auto intro!: zdiv_mono1)
  moreover have "0 \<le> (sint c - sint r) * 10 div sint c" if "sint r \<le> sint c" using fraction_ok(1)[of "sint c - sint r" "sint c"] that assms by simp
  ultimately show ?thesis using assms by (simp add: leastRequestedScore_sint)
qed

lemma most_mono:
  assumes "capacity_ok c" "0 \<le> sint r" "sint r \<le> sint r'" "sint r' \<le> sint c"
  shows "sint (mostRequestedScore r c) \<le> sint (mostRequestedScore r' c)"
proof -
  have "sint r * 10 div sint c \<le> sint r' * 10 div sint c" using assms by (cases "sint c = 0") (auto intro!: zdiv_mono1)
  then show ?thesis using assms by (simp add: mostRequestedScore_sint)
qed

subsection \<open>The broken linear function\<close>

text \<open>The rounded interpolation between two scores stays between them and reaches the second one.\<close>

lemma interpolation:
  fixes s0 s1 d u :: int
  assumes "0 \<le> d" "d \<le> u" "0 < u"
  defines "q \<equiv> sgn ((s1 - s0) * d) * (\<bar>(s1 - s0) * d\<bar> div u)"
  shows "min s0 s1 \<le> s0 + q" "s0 + q \<le> max s0 s1" "d = u \<Longrightarrow> s0 + q = s1"
proof -
  have "\<bar>(s1 - s0) * d\<bar> \<le> \<bar>s1 - s0\<bar> * u" using assms by (simp add: abs_mult mult_left_mono)
  then have le: "\<bar>(s1 - s0) * d\<bar> div u \<le> \<bar>s1 - s0\<bar>" using assms zdiv_mono1[of _ "\<bar>s1 - s0\<bar> * u" u] by simp
  have nn: "0 \<le> \<bar>(s1 - s0) * d\<bar> div u" using assms by (simp add: pos_imp_zdiv_nonneg_iff)
  have sg: "sgn ((s1 - s0) * d) = (if d = 0 then 0 else sgn (s1 - s0))" using assms by (auto simp: sgn_mult)
  define k where "k = \<bar>(s1 - s0) * d\<bar> div u"
  have qk: "q = (if d = 0 then 0 else sgn (s1 - s0)) * k" by (simp only: q_def sg k_def)
  then show "min s0 s1 \<le> s0 + q" "s0 + q \<le> max s0 s1" using le[folded k_def] nn[folded k_def] by (auto simp: sgn_if)
  show "s0 + q = s1" if "d = u"
  proof -
    have "k = \<bar>s1 - s0\<bar>" using that assms(3) by (simp add: k_def abs_mult)
    then show ?thesis using qk that assms(3) by (auto simp: sgn_if)
  qed
qed

lemma sint_go_div_signed:
  fixes a b :: int64
  assumes "0 < sint b" "\<bar>sint a\<bar> < 2 ^ 62"
  shows "sint (go_div a b) = sgn (sint a) * (\<bar>sint a\<bar> div sint b)"
proof -
  have "\<bar>sint a\<bar> div sint b \<le> \<bar>sint a\<bar>" using assms(1) zdiv_mono2[of "\<bar>sint a\<bar>" 1 "sint b"] by simp
  moreover have "0 \<le> \<bar>sint a\<bar> div sint b" using assms(1) by (simp add: pos_imp_zdiv_nonneg_iff)
  ultimately have "\<bar>sgn (sint a) * (\<bar>sint a\<bar> div sint b)\<bar> < 2 ^ 62" using assms(2) by (auto simp: abs_mult sgn_if)
  then have "sint (word_of_int (sgn (sint a) * (\<bar>sint a\<bar> div sint b)) :: int64) = sgn (sint a) * (\<bar>sint a\<bar> div sint b)"
    by (intro sint_in_range) (auto simp: abs_less_iff)
  then show ?thesis using assms(1) by (simp only: go_div_def abs_of_pos sgn_pos mult_1_right)
qed

definition point_ok :: "FunctionShapePoint \<Rightarrow> bool" where
  "point_ok p \<longleftrightarrow> 0 \<le> sint (Utilization p) \<and> sint (Utilization p) \<le> 100 \<and> score_ok (fsp_Score p)"

lemma check_points_ok: "check_points ps = None \<longleftrightarrow> list_all point_ok ps"
  by (induction ps) (auto simp: point_ok_def score_ok_def signed_less_sint minUtilization_def maxUtilization_def)

text \<open>The value on the segment from \<open>p0\<close> to \<open>p1\<close>.\<close>

lemma segment_value:
  assumes "point_ok p0" "point_ok p1" "sint (Utilization p0) < sint (Utilization p1)" "sint (Utilization p0) \<le> sint p" "sint p \<le> sint (Utilization p1)"
  defines "v \<equiv> fsp_Score p0 + go_div ((fsp_Score p1 - fsp_Score p0) * (p - Utilization p0)) (Utilization p1 - Utilization p0)"
  shows "score_ok v" "p = Utilization p1 \<Longrightarrow> v = fsp_Score p1"
proof -
  let ?s0 = "sint (fsp_Score p0)" and ?s1 = "sint (fsp_Score p1)" and ?d = "sint p - sint (Utilization p0)" and ?u = "sint (Utilization p1) - sint (Utilization p0)"
  have r: "0 \<le> ?s0" "?s0 \<le> 10" "0 \<le> ?s1" "?s1 \<le> 10" "0 \<le> ?d" "?d \<le> ?u" "0 < ?u" "?u \<le> 100"
    using assms(1-5) by (auto simp: point_ok_def score_ok_def)
  have e: "sint (fsp_Score p1 - fsp_Score p0) = ?s1 - ?s0" "sint (p - Utilization p0) = ?d" "sint (Utilization p1 - Utilization p0) = ?u"
    using r assms(1-5) by (auto simp: in_range_def point_ok_def)
  have m: "\<bar>(?s1 - ?s0) * ?d\<bar> \<le> 10 * 100"
    using r unfolding abs_mult by (intro mult_mono) auto
  then have n: "sint ((fsp_Score p1 - fsp_Score p0) * (p - Utilization p0)) = (?s1 - ?s0) * ?d"
    using sint_ops(3)[of "fsp_Score p1 - fsp_Score p0" "p - Utilization p0"] by (simp add: e in_range_def abs_le_iff)
  define q where "q = sgn ((?s1 - ?s0) * ?d) * (\<bar>(?s1 - ?s0) * ?d\<bar> div ?u)"
  have "sint (go_div ((fsp_Score p1 - fsp_Score p0) * (p - Utilization p0)) (Utilization p1 - Utilization p0)) = q"
    using r(7) m by (subst sint_go_div_signed) (simp_all add: n e q_def)
  moreover note i = interpolation[OF r(5-7), of ?s0 ?s1, folded q_def]
  ultimately have v: "sint v = ?s0 + q" unfolding v_def using i r by (subst sint_ops(1)) (auto simp: in_range_def)
  then show "score_ok v" using i r by (auto simp: score_ok_def)
  show "v = fsp_Score p1" if "p = Utilization p1" using v i(3) that by (simp add: signed_word_eqI)
qed

lemma broken_segments_ok:
  assumes "list_all point_ok (p0 # ps)" "utilization_sorted (p0 # ps)" "sint (Utilization p0) \<le> sint p"
  shows "score_ok (broken_segments p0 ps p) \<and> (\<forall>pt \<in> set ps. p = Utilization pt \<longrightarrow> broken_segments p0 ps p = fsp_Score pt)"
  using assms
proof (induction ps arbitrary: p0)
  case (Cons p1 ps)
  have s: "sint (Utilization p0) < sint (Utilization p1)" "utilization_sorted (p1 # ps)" using Cons.prems(2) by (auto simp: signed_less_sint)
  show ?case
  proof (cases "sint p \<le> sint (Utilization p1)")
    case True
    have later: "sint (Utilization p1) < sint (Utilization pt)" if "pt \<in> set ps" for pt
      using s(2) that by (induction ps arbitrary: p1) (auto simp: signed_less_sint intro: less_trans)
    have "p \<noteq> Utilization pt" if "pt \<in> set ps" for pt using later[OF that] True by auto
    with segment_value[of p0 p1 p] True s(1) Cons.prems show ?thesis by (auto simp: signed_less_sint)
  next
    case False
    with Cons.IH[of p1] Cons.prems(1) s show ?thesis by (auto simp: signed_less_sint)
  qed
qed (simp add: point_ok_def)

lemma buildBrokenLinearFunction_ok:
  assumes "NewFunctionShape points = Inr shape"
  shows "score_ok (buildBrokenLinearFunction shape p)" "pt \<in> set points \<Longrightarrow> buildBrokenLinearFunction shape (Utilization pt) = fsp_Score pt"
proof -
  obtain p0 ps where ps: "points = p0 # ps" "shape = (p0, ps)" "utilization_sorted (p0 # ps)" "list_all point_ok (p0 # ps)"
  proof (cases points)
    case (Cons p0 ps)
    then have "utilization_sorted points" "check_points points = None" "shape = (p0, ps)"
      using assms by (auto simp: NewFunctionShape_def simp del: check_points.simps split: if_splits option.splits)
    then show thesis using Cons check_points_ok[of points] by (intro that) simp_all
  qed (use assms in \<open>simp add: NewFunctionShape_def\<close>)
  note ok = broken_segments_ok[OF ps(4,3)]
  show "score_ok (buildBrokenLinearFunction shape p)"
    using ok[of p] ps(2,4) by (auto simp: buildBrokenLinearFunction_def signed_less_sint point_ok_def)
  show "buildBrokenLinearFunction shape (Utilization pt) = fsp_Score pt" if pt: "pt \<in> set points"
  proof (cases "pt = p0")
    case False
    then have "pt \<in> set ps" using pt ps(1) by simp
    then have "sint (Utilization p0) < sint (Utilization pt)"
      using ps(3) by (induction ps arbitrary: p0) (auto simp: signed_less_sint intro: less_trans)
    then show ?thesis using ok[of "Utilization pt"] \<open>pt \<in> set ps\<close> ps(2) by (auto simp: buildBrokenLinearFunction_def signed_less_sint)
  qed (simp add: buildBrokenLinearFunction_def signed_less_sint ps(2))
qed

subsection \<open>Normalising\<close>

lemma maxCount_sint: "sint (maxCount hps) = Max (insert 0 ((\<lambda>hp. sint (Score hp)) ` set hps))"
proof -
  have "sint (foldl (\<lambda>m hp. if m <s Score hp then Score hp else m) a hps) = Max (insert (sint a) ((\<lambda>hp. sint (Score hp)) ` set hps))" for a
  proof (induction hps arbitrary: a)
    case (Cons hp hps)
    have "sint (if a <s Score hp then Score hp else a) = max (sint a) (sint (Score hp))" by (simp add: signed_less_sint max_def)
    then show ?case unfolding foldl.simps Cons.IH by (cases hps) (simp_all add: max.assoc)
  qed simp
  from this[of 0] show ?thesis by (simp add: maxCount_def)
qed

text \<open>Scores that can be normalised without overflow.\<close>

definition raw_ok :: "int64 \<Rightarrow> bool" where
  "raw_ok s \<longleftrightarrow> 0 \<le> sint s \<and> sint s < 2 ^ 56"

definition normal :: "HostPriority list \<Rightarrow> HostPriority \<Rightarrow> int" where
  "normal hps hp = 10 * sint (Score hp) div sint (maxCount hps)"

lemma maxCount_props:
  "hp \<in> set hps \<Longrightarrow> sint (Score hp) \<le> sint (maxCount hps)" "0 \<le> sint (maxCount hps)"
  "\<forall>hp \<in> set hps. raw_ok (Score hp) \<Longrightarrow> sint (maxCount hps) < 2 ^ 56"
  by (auto simp: maxCount_sint raw_ok_def)

lemma normal_ok:
  assumes "\<forall>hp \<in> set hps. raw_ok (Score hp)" "hp \<in> set hps" "maxCount hps \<noteq> 0"
  shows "sint (go_div (MaxPriority * Score hp) (maxCount hps)) = normal hps hp" "0 \<le> normal hps hp" "normal hps hp \<le> 10"
proof -
  have "sint (maxCount hps) \<noteq> 0" using assms(3) by (metis sint_0 signed_word_eqI)
  then have m: "0 < sint (maxCount hps)" using maxCount_props(2)[of hps] by simp
  have s: "0 \<le> sint (Score hp)" "sint (Score hp) < 2 ^ 56" "sint (Score hp) \<le> sint (maxCount hps)"
    using assms(1,2) maxCount_props(1)[OF assms(2)] by (auto simp: raw_ok_def)
  have "sint (MaxPriority * Score hp) = 10 * sint (Score hp)" using s by (subst sint_ops(3)) (simp_all add: in_range_def)
  then show "sint (go_div (MaxPriority * Score hp) (maxCount hps)) = normal hps hp" using m s(1) by (simp add: sint_go_div normal_def)
  show "0 \<le> normal hps hp" "normal hps hp \<le> 10"
    using fraction_ok[OF s(1,3)] by (simp_all add: normal_def mult.commute)
qed

lemma NormalizeReduce_ok:
  assumes "\<forall>hp \<in> set hps. raw_ok (Score hp)" "NormalizeReduce MaxPriority reverse pod meta infos hps = (hps', e)"
  shows "e = None \<and> length hps' = length hps \<and> (\<forall>hp \<in> set hps'. score_ok (Score hp))"
proof (cases "maxCount hps = 0")
  case True
  then have z: "sint (Score hp) = 0" if "hp \<in> set hps" for hp
    using maxCount_props(1)[OF that] assms(1) that by (force simp: raw_ok_def)
  show ?thesis using assms(2) True z by (auto simp: NormalizeReduce_def score_ok_def split: if_splits)
next
  case False
  have "score_ok (if reverse then MaxPriority - go_div (MaxPriority * Score hp) (maxCount hps) else go_div (MaxPriority * Score hp) (maxCount hps))" if "hp \<in> set hps" for hp
    using normal_ok[OF assms(1) that False] by (auto simp: score_ok_def in_range_def)
  then show ?thesis using assms(2) False by (auto simp: NormalizeReduce_def Let_def)
qed

subsection \<open>Configurations with bounded scores\<close>

text \<open>A configuration gives every node a score between 0 and \<open>MaxPriority\<close>, provided that the node infos satisfy a condition.\<close>

locale bounded_priority =
  fixes config :: "'p PriorityConfig" and node_ok :: "Pod \<Rightarrow> 'p \<Rightarrow> NodeInfo option \<Rightarrow> bool"
  assumes scores: "config_scores pod infos meta nodeList config = Some (hps, []) \<Longrightarrow>
    \<forall>node \<in> set nodeList. node_ok pod meta (fmlookup infos (node_Name node)) \<Longrightarrow>
    length hps = length nodeList \<and> (\<forall>hp \<in> set hps. score_ok (Score hp))"
begin

lemma nth_score:
  assumes "config_scores pod infos meta nodeList config = Some (hps, [])" "\<forall>node \<in> set nodeList. node_ok pod meta (fmlookup infos (node_Name node))"
    "i < length nodeList"
  shows "i < length hps" "0 \<le> sint (Score (hps ! i))" "sint (Score (hps ! i)) \<le> 10"
  using scores[OF assms(1,2)] assms(3) by (auto simp: score_ok_def)

lemma restrict: "(\<And>pod meta i. ok pod meta i \<Longrightarrow> node_ok pod meta i) \<Longrightarrow> bounded_priority config ok"
  by unfold_locales (use scores in blast)

end

definition map_config :: "PriorityMapFunction \<Rightarrow> int64 \<Rightarrow> priorityMetadata option PriorityConfig" where
  "map_config f w = \<lparr>Map = Some f, Reduce = None, Function = None, Weight = w\<rparr>"

definition map_reduce_config :: "PriorityMapFunction \<Rightarrow> PriorityReduceFunction \<Rightarrow> int64 \<Rightarrow> priorityMetadata option PriorityConfig" where
  "map_reduce_config f r w = \<lparr>Map = Some f, Reduce = Some r, Function = None, Weight = w\<rparr>"

lemma map_scores_without_error:
  assumes "concat (map snd (map (map_score f pod meta infos) nodeList)) = []"
  shows "\<forall>hp \<in> set (map fst (map (map_score f pod meta infos) nodeList)). \<exists>node \<in> set nodeList. f pod meta (fmlookup infos (node_Name node)) = (hp, None)"
  using assms by (auto simp: map_score_def split: prod.splits option.splits)

lemma map_config_bounded:
  assumes "\<And>pod meta i hp. f pod meta i = (hp, None) \<Longrightarrow> ok pod meta i \<Longrightarrow> score_ok (Score hp)"
  shows "bounded_priority (map_config f w) ok"
proof
  fix pod infos meta nodeList hps
  assume s: "config_scores pod infos meta nodeList (map_config f w) = Some (hps, [])" and ok: "\<forall>node \<in> set nodeList. ok pod meta (fmlookup infos (node_Name node))"
  then have "hps = map fst (map (map_score f pod meta infos) nodeList)" "concat (map snd (map (map_score f pod meta infos) nodeList)) = []"
    by (auto simp: config_scores_def map_config_def Let_def)
  then show "length hps = length nodeList \<and> (\<forall>hp \<in> set hps. score_ok (Score hp))"
    using map_scores_without_error[of f pod meta infos nodeList] assms ok by (metis length_map)
qed

lemma normalized_config_bounded:
  assumes "\<And>pod meta i hp. f pod meta i = (hp, None) \<Longrightarrow> ok pod meta i \<Longrightarrow> raw_ok (Score hp)"
  shows "bounded_priority (map_reduce_config f (NormalizeReduce MaxPriority reverse) w) ok"
proof
  fix pod infos meta nodeList hps
  let ?rs = "map fst (map (map_score f pod meta infos) nodeList)"
  assume s: "config_scores pod infos meta nodeList (map_reduce_config f (NormalizeReduce MaxPriority reverse) w) = Some (hps, [])"
    and ok: "\<forall>node \<in> set nodeList. ok pod meta (fmlookup infos (node_Name node))"
  then obtain e where r: "NormalizeReduce MaxPriority reverse pod meta infos ?rs = (hps, e)" "concat (map snd (map (map_score f pod meta infos) nodeList)) = []"
    by (auto simp: config_scores_def map_reduce_config_def Let_def split: prod.splits)
  have "\<forall>hp \<in> set ?rs. raw_ok (Score hp)" using map_scores_without_error[OF r(2)] assms ok by blast
  from NormalizeReduce_ok[OF this r(1)] show "length hps = length nodeList \<and> (\<forall>hp \<in> set hps. score_ok (Score hp))" by simp
qed

subsection \<open>The priority functions have bounded scores\<close>

text \<open>Capacities and requests that are not absurdly large.\<close>

definition requests_ok :: "Pod \<Rightarrow> priorityMetadata option \<Rightarrow> NodeInfo option \<Rightarrow> bool" where
  "requests_ok pod meta i \<longleftrightarrow> capacity_ok (MilliCPU (AllocatableResource i)) \<and> capacity_ok (Memory (AllocatableResource i)) \<and>
     0 \<le> sint (MilliCPU (requested_on pod meta i)) \<and> 0 \<le> sint (Memory (requested_on pod meta i))"

lemma PriorityMap_bounded:
  assumes "\<And>req alloc vol rv av. capacity_ok (MilliCPU alloc) \<Longrightarrow> capacity_ok (Memory alloc) \<Longrightarrow> 0 \<le> sint (MilliCPU req) \<Longrightarrow> 0 \<le> sint (Memory req) \<Longrightarrow>
    score_ok (scorer r req alloc vol rv av)"
  shows "bounded_priority (map_config (PriorityMap gate cells r) w) requests_ok"
proof (rule map_config_bounded)
  fix pod meta i hp assume h: "PriorityMap gate cells r pod meta i = (hp, None)" "requests_ok pod meta i"
  have "score_ok (scorer r (requested_on pod meta i) (AllocatableResource i) vol rv av)" for vol rv av
    using h(2) by (intro assms) (simp_all add: requests_ok_def)
  then show "score_ok (Score hp)" using h(1)
    by (auto simp: PriorityMap_def no_node_def Let_def split: option.splits if_splits)
qed

interpretation least: bounded_priority "map_config (PriorityMap gate cells leastResourcePriority) w" requests_ok for gate cells w
  by (rule PriorityMap_bounded) (simp add: leastResourcePriority_def leastResourceScorer_def score_average requested_scores_ok)

interpretation most: bounded_priority "map_config (PriorityMap gate cells mostResourcePriority) w" requests_ok for gate cells w
  by (rule PriorityMap_bounded) (simp add: mostResourcePriority_def mostResourceScorer_def score_average requested_scores_ok)

lemma ratio_bounded:
  assumes "NewFunctionShape points = Inr shape"
  shows "bounded_priority (map_config (PriorityMap gate cells (RequestedToCapacityRatioResourceAllocationPriority shape)) w) requests_ok"
proof (rule PriorityMap_bounded)
  have "score_ok (resourceScoringFunction shape r c)" for r c
    using buildBrokenLinearFunction_ok(1)[OF assms] by (simp add: resourceScoringFunction_def)
  then show "score_ok (scorer (RequestedToCapacityRatioResourceAllocationPriority shape) req alloc vol rv av)" for req alloc vol rv av
    by (simp add: RequestedToCapacityRatioResourceAllocationPriority_def buildRequestedToCapacityRatioScorerFunction_def Let_def score_average)
qed

lemma default_shape: "NewFunctionShape [\<lparr>Utilization = 0, fsp_Score = 10\<rparr>, \<lparr>Utilization = 100, fsp_Score = 0\<rparr>] = Inr defaultFunctionShape"
  by (simp add: NewFunctionShape_def defaultFunctionShape_def minUtilization_def maxUtilization_def signed_less_sint MaxPriority_def)

interpretation ratio: bounded_priority "map_config (PriorityMap gate cells (RequestedToCapacityRatioResourceAllocationPriority defaultFunctionShape)) w" requests_ok for gate cells w
  by (rule ratio_bounded[OF default_shape])

interpretation label: bounded_priority "map_config (CalculateNodeLabelPriorityMap n) w" "\<lambda>_ _ _. True" for n w
  by (rule map_config_bounded) (auto simp: CalculateNodeLabelPriorityMap_def no_node_def Let_def score_ok_def split: option.splits)

interpretation limits: bounded_priority "map_config (ResourceLimitsPriorityMap L) w" "\<lambda>_ _ _. True" for L w
  by (rule map_config_bounded) (auto simp: ResourceLimitsPriorityMap_def no_node_def Let_def score_ok_def split: option.splits)

text \<open>Counting.\<close>

lemma count_fold:
  fixes a :: int64
  assumes "0 \<le> sint a" "sint a + int (length xs) < 2 ^ 63"
  shows "sint (foldl (\<lambda>n x. if P x then n + 1 else n) a xs) = sint a + int (length (filter P xs))"
  using assms
proof (induction xs arbitrary: a)
  case (Cons x xs)
  have "sint (a + 1) = sint a + 1" using Cons.prems by (subst sint_ops(1)) (auto simp: in_range_def)
  then show ?case using Cons by simp
qed simp

lemma intolerable_count:
  assumes "int (length taints) < 2 ^ 56"
  shows "sint (countIntolerableTaintsPreferNoSchedule L taints tolerations) =
    int (length (filter (\<lambda>t. taint_Effect t = TaintEffectPreferNoSchedule \<and> \<not> TolerationsTolerateTaint L tolerations t) taints))"
proof -
  let ?P = "\<lambda>t. taint_Effect t = TaintEffectPreferNoSchedule \<and> \<not> TolerationsTolerateTaint L tolerations t"
  have "countIntolerableTaintsPreferNoSchedule L taints tolerations = foldl (\<lambda>n x. if ?P x then n + 1 else n) 0 taints"
    unfolding countIntolerableTaintsPreferNoSchedule_def by (rule arg_cong[of _ _ "\<lambda>f. foldl f 0 taints"]) (auto intro!: ext)
  then show ?thesis using count_fold[of 0 taints ?P] assms by simp
qed

definition taints_ok :: "Pod \<Rightarrow> priorityMetadata option \<Rightarrow> NodeInfo option \<Rightarrow> bool" where
  "taints_ok pod meta i \<longleftrightarrow> (\<forall>node. NodeInfo_Node i = Some node \<longrightarrow> int (length (node_Taints node)) < 2 ^ 56)"

interpretation taint: bounded_priority "map_reduce_config (ComputeTaintTolerationPriorityMap L) ComputeTaintTolerationPriorityReduce w" taints_ok for L w
  unfolding ComputeTaintTolerationPriorityReduce_def
proof (rule normalized_config_bounded)
  fix pod meta i hp assume h: "ComputeTaintTolerationPriorityMap L pod meta i = (hp, None)" "taints_ok pod meta i"
  then obtain node ts where n: "NodeInfo_Node i = Some node" "Score hp = countIntolerableTaintsPreferNoSchedule L (node_Taints node) ts"
    by (auto simp: ComputeTaintTolerationPriorityMap_def no_node_def Let_def split: option.splits)
  then have len: "int (length (node_Taints node)) < 2 ^ 56" using h(2) by (simp add: taints_ok_def)
  have "int (length (filter P (node_Taints node))) < 2 ^ 56" for P
    by (rule le_less_trans[OF _ len]) simp
  then show "raw_ok (Score hp)" unfolding raw_ok_def n(2) intolerable_count[OF len] by simp
qed

text \<open>The weights of preferred node affinity terms lie between 1 and 100, by the validation of the API server.\<close>

definition preferences_ok :: "Pod \<Rightarrow> priorityMetadata option \<Rightarrow> NodeInfo option \<Rightarrow> bool" where
  "preferences_ok pod meta i \<longleftrightarrow> int (length (preferred_terms pod meta)) < 2 ^ 20 \<and>
     (\<forall>t \<in> set (preferred_terms pod meta). 0 \<le> sint (pst_Weight t) \<and> sint (pst_Weight t) \<le> 100)"

lemma preferred_weight_range:
  assumes "preferred_weight L ls ts n = Some m" "\<forall>t \<in> set ts. 0 \<le> sint (pst_Weight t) \<and> sint (pst_Weight t) \<le> 100"
    "0 \<le> sint n" "sint n + 100 * int (length ts) < 2 ^ 31"
  shows "0 \<le> sint m" "sint m < 2 ^ 31"
proof -
  have "0 \<le> sint m \<and> sint m < 2 ^ 31" using assms
  proof (induction ts arbitrary: n)
    case (Cons t ts)
    have w: "0 \<le> sint (pst_Weight t)" "sint (pst_Weight t) \<le> 100" using Cons.prems(2) by auto
    have "sint (n + pst_Weight t) = sint n + sint (pst_Weight t)" using Cons.prems w
      by (simp add: sint_word_ariths signed_take_bit_int_eq_self)
    then show ?case using Cons w by (auto split: if_splits option.splits)
  qed simp
  then show "0 \<le> sint m" "sint m < 2 ^ 31" by simp_all
qed

interpretation node_affinity: bounded_priority "map_reduce_config (CalculateNodeAffinityPriorityMap L) CalculateNodeAffinityPriorityReduce w" preferences_ok for L w
  unfolding CalculateNodeAffinityPriorityReduce_def
proof (rule normalized_config_bounded)
  fix pod meta i hp assume h: "CalculateNodeAffinityPriorityMap L pod meta i = (hp, None)" "preferences_ok pod meta i"
  obtain node where node: "NodeInfo_Node i = Some node"
    using h(1) by (cases "NodeInfo_Node i") (simp_all add: CalculateNodeAffinityPriorityMap_def no_node_def)
  obtain m where n: "preferred_weight L (node_Labels node) (preferred_terms pod meta) 0 = Some m" "Score hp = scast m"
    using h(1) by (cases "preferred_weight L (node_Labels node) (preferred_terms pod meta) 0") (auto simp: CalculateNodeAffinityPriorityMap_def node)
  have "0 \<le> sint m" "sint m < 2 ^ 31" using preferred_weight_range[OF n(1)] h(2) by (simp_all add: preferences_ok_def)
  moreover from this have "sint (scast m :: int64) = sint m" by (simp add: signed_scast_eq signed_take_bit_int_eq_self)
  ultimately show "raw_ok (Score hp)" by (simp add: raw_ok_def n(2))
qed

subsection \<open>Weighted sums\<close>

lemma max_weights_sint: "sint MaxTotalPriority = 9223372036854775807" "sint MaxWeight = 922337203685477580"
  by (simp_all add: MaxTotalPriority_def MaxWeight_def MaxPriority_def sint_go_div)

lemma validated_weights:
  assumes "validate_weights t ws = None" "0 \<le> sint t" "\<forall>w \<in> set ws. policy_weight_ok w"
  shows "sint t + 10 * (\<Sum>w\<leftarrow>ws. sint w) < 2 ^ 63"
  using assms
proof (induction ws arbitrary: t)
  case Nil
  then show ?case using sint_lt[of t] by simp
next
  case (Cons w ws)
  note max = max_weights_sint
  have w: "0 < sint w" "sint w < 922337203685477580"
    using Cons.prems(3) max by (auto simp: policy_weight_ok_def signed_less_sint)
  then have m: "sint (w * MaxPriority) = sint w * 10" by (subst sint_ops(3)) (simp_all add: in_range_def)
  have d: "sint (MaxTotalPriority - t) = 9223372036854775807 - sint t"
    using Cons.prems(2) sint_lt[of t] max by (subst sint_ops(2)) (simp_all add: in_range_def)
  have le: "sint w * 10 \<le> 9223372036854775807 - sint t" using Cons.prems(1) m d by (simp add: signed_less_sint split: if_splits)
  then have "sint (t + w * MaxPriority) = sint t + sint w * 10"
    using Cons.prems(2) w m by (subst sint_ops(1)) (simp_all add: in_range_def)
  with Cons.IH[of "t + w * MaxPriority"] Cons.prems w show ?case by (simp split: if_splits)
qed

lemma weighted_sum:
  assumes "\<forall>(hps, w) \<in> set rs. i < length hps \<and> 0 \<le> sint (Score (hps ! i)) \<and> sint (Score (hps ! i)) \<le> 10 \<and> 0 \<le> sint w"
    "0 \<le> sint a" "sint a + 10 * (\<Sum>(hps, w)\<leftarrow>rs. sint w) < 2 ^ 63"
  shows "\<exists>b. foldl (weighted i) (Some a) rs = Some b \<and> sint b = sint a + (\<Sum>(hps, w)\<leftarrow>rs. sint (Score (hps ! i)) * sint w)"
  using assms
proof (induction rs arbitrary: a)
  case (Cons r rs)
  obtain hps w where r: "r = (hps, w)" by fastforce
  let ?s = "sint (Score (hps ! i))"
  have h: "i < length hps" "0 \<le> ?s" "?s \<le> 10" "0 \<le> sint w" using Cons.prems(1) r by auto
  have nn: "0 \<le> (\<Sum>(hps, w)\<leftarrow>rs. sint w)" using Cons.prems(1) by (intro sum_list_nonneg) auto
  have le: "0 \<le> ?s * sint w" "?s * sint w \<le> 10 * sint w" using h by (simp_all add: mult_right_mono)
  have m: "sint (Score (hps ! i) * w) = ?s * sint w" using le nn Cons.prems(2,3) r by (subst sint_ops(3)) (auto simp: in_range_def)
  then have "sint (a + Score (hps ! i) * w) = sint a + ?s * sint w" using le nn Cons.prems(2,3) r by (subst sint_ops(1)) (auto simp: in_range_def)
  with Cons.IH[of "a + Score (hps ! i) * w"] Cons.prems le h r show ?case by (auto simp: weighted_def)
qed simp

lemma those_map_nth: "those (map f xs) = Some ys \<Longrightarrow> length ys = length xs \<and> (\<forall>i < length xs. f (xs ! i) = Some (ys ! i))"
  by (auto dest!: those_SomeD) (metis length_map nth_map)+

text \<open>
  C15. The score of a node. Let the configurations give scores between 0 and \<open>MaxPriority\<close> (this is shown for seven of the package: least requested, most requested, requested to capacity ratio with the default shape, node label, resource
  limits, taint toleration and node affinity, on nodes whose amounts are in range), let the weights pass the validation of the policy (positive and below its bound) and of the factory, and let there be a configuration or an extender. When \<open>PrioritizeNodes\<close> returns without an
  error, the score of each node is made of two parts. The first is the sum of its weighted scores, computed without overflow: it is the sum
  over the integers, and lies between 0 and \<open>MaxPriority\<close> times the sum of the weights, which fits into 64 bits. The second is what the extenders' weighted scores
  add up to for the node's name, 0 without extenders; nothing is assumed of these, and both parts are added with wrap-around.
\<close>

theorem PrioritizeNodes_weighted:
  assumes configs: "\<And>c. c \<in> set configs \<Longrightarrow> bounded_priority c ok" "\<And>node. node \<in> set nodeList \<Longrightarrow> ok pod meta (fmlookup infos (node_Name node))"
    and weights: "validateSelectedConfigs configs = None" "\<And>c. c \<in> set configs \<Longrightarrow> policy_weight_ok (Weight c)"
    and r: "PrioritizeNodes pod infos meta configs nodeList exts = Some (Inr result)" "configs \<noteq> [] \<or> exts \<noteq> []" and i: "i < length nodeList"
  shows "\<exists>base. i < length result \<and> Host (result ! i) = node_Name (nodeList ! i) \<and>
    Score (result ! i) = base + (case fmlookup (extender_scores pod nodeList exts) (node_Name (nodeList ! i)) of None \<Rightarrow> 0 | Some x \<Rightarrow> x) \<and>
    (exts = [] \<longrightarrow> Score (result ! i) = base) \<and>
    sint base = (\<Sum>c\<leftarrow>configs. sint (Score (fst (the (config_scores pod infos meta nodeList c)) ! i)) * sint (Weight c)) \<and>
    0 \<le> sint base \<and> sint base \<le> 10 * (\<Sum>c\<leftarrow>configs. sint (Weight c)) \<and> 10 * (\<Sum>c\<leftarrow>configs. sint (Weight c)) < 2 ^ 63"
proof -
  let ?ext = "\<lambda>hp. case fmlookup (extender_scores pod nodeList exts) (Host hp) of None \<Rightarrow> 0 | Some x \<Rightarrow> x"
  have none: "extender_scores pod nodeList [] = fmempty" by (simp add: extender_scores_def)
  obtain rs result0 where rs: "those (map (config_scores pod infos meta nodeList) configs) = Some rs" "concat (map snd rs) = []"
      "sum_scores nodeList (zip (map fst rs) (map Weight configs)) = Some result0"
    and result: "result = (if exts = [] then result0 else map (\<lambda>hp. hp\<lparr>Score := Score hp + ?ext hp\<rparr>) result0)"
    using r by (auto simp: PrioritizeNodes_def Let_def bind_eq_Some_conv split: if_splits)
  let ?S = "\<lambda>c. fst (the (config_scores pod infos meta nodeList c))"
  have each: "config_scores pod infos meta nodeList c = Some (?S c, [])" if c: "c \<in> set configs" for c
  proof -
    obtain j where j: "j < length configs" "c = configs ! j" using c unfolding in_set_conv_nth by blast
    then have "config_scores pod infos meta nodeList c = Some (rs ! j)" "j < length rs" using those_map_nth[OF rs(1)] by auto
    moreover from this(2) have "snd (rs ! j) = []" using rs(2) by (auto simp: concat_eq_Nil_conv)
    ultimately show ?thesis by (cases "rs ! j") simp
  qed
  have "rs = map (the \<circ> config_scores pod infos meta nodeList) configs"
    using those_map_nth[OF rs(1)] by (intro nth_equalityI) auto
  then have zip: "zip (map fst rs) (map Weight configs) = map (\<lambda>c. (?S c, Weight c)) configs" by (simp add: zip_map_map zip_same_conv_map comp_def)
  have w: "0 < sint (Weight c)" if "c \<in> set configs" for c using weights(2)[OF that] by (simp add: policy_weight_ok_def signed_less_sint)
  have tot: "10 * (\<Sum>c\<leftarrow>configs. sint (Weight c)) < 2 ^ 63"
    using validated_weights[of 0 "map Weight configs"] weights by (auto simp: validateSelectedConfigs_def comp_def)
  have ok: "i < length (?S c) \<and> 0 \<le> sint (Score (?S c ! i)) \<and> sint (Score (?S c ! i)) \<le> 10" if "c \<in> set configs" for c
    using bounded_priority.nth_score[OF configs(1)[OF that] each[OF that] _ i] configs(2) by blast
  obtain b where b: "foldl (weighted i) (Some 0) (map (\<lambda>c. (?S c, Weight c)) configs) = Some b"
      "sint b = (\<Sum>c\<leftarrow>configs. sint (Score (?S c ! i)) * sint (Weight c))"
    using weighted_sum[of "map (\<lambda>c. (?S c, Weight c)) configs" i 0] ok w tot by (auto simp: comp_def less_imp_le)
  have res: "length result0 = length nodeList" "result0 ! i = \<lparr>Host = node_Name (nodeList ! i), Score = b\<rparr>"
    using those_map_nth[OF rs(3)[unfolded sum_scores_def zip]] i b(1) by auto
  have "(\<Sum>c\<leftarrow>configs. sint (Score (?S c ! i)) * sint (Weight c)) \<le> (\<Sum>c\<leftarrow>configs. 10 * sint (Weight c))"
    using ok w by (intro sum_list_mono mult_right_mono) (auto intro: less_imp_le)
  moreover have "0 \<le> (\<Sum>c\<leftarrow>configs. sint (Score (?S c ! i)) * sint (Weight c))"
    using ok less_imp_le[OF w] by (intro sum_list_nonneg) (auto intro!: mult_nonneg_nonneg)
  ultimately show ?thesis using res i b(2) tot none by (intro exI[of _ b]) (simp add: result sum_list_const_mult)
qed

text \<open>Two nodes, one half used, scored by the resources that are left and by a label.\<close>

definition scored_info :: "string \<Rightarrow> int64 \<Rightarrow> NodeInfo" where
  "scored_info name used = (fst (NewNodeInfo example_k8s [] \<lparr>generation = 0, transients = []\<rparr>))
     \<lparr>ni_node := Some (zero_Node\<lparr>node_Name := name\<rparr>),
      nonzeroRequest := emptyResource\<lparr>MilliCPU := used, Memory := used\<rparr>,
      allocatableResource := emptyResource\<lparr>MilliCPU := 1000, Memory := 1000\<rparr>\<rparr>"

definition scored_infos :: node_info_map where
  "scored_infos = fmap_of_list [(''n1'', scored_info ''n1'' 500), (''n2'', scored_info ''n2'' 100)]"

definition scored_nodes :: "Node list" where
  "scored_nodes = [zero_Node\<lparr>node_Name := ''n1''\<rparr>, zero_Node\<lparr>node_Name := ''n2''\<rparr>]"

definition scored_configs :: "priorityMetadata option PriorityConfig list" where
  "scored_configs = [map_config (PriorityMap False [] leastResourcePriority) 1, map_config (CalculateNodeLabelPriorityMap \<lparr>nlp_label = ''ssd'', nlp_presence = False\<rparr>) 2]"

lemma scored_scores:
  "map (config_scores zero_Pod scored_infos None scored_nodes) scored_configs =
     [Some ([\<lparr>Host = ''n1'', Score = 5\<rparr>, \<lparr>Host = ''n2'', Score = 9\<rparr>], []), Some ([\<lparr>Host = ''n1'', Score = 10\<rparr>, \<lparr>Host = ''n2'', Score = 10\<rparr>], [])]"
  by code_simp

lemma scored_result:
  "PrioritizeNodes zero_Pod scored_infos None scored_configs scored_nodes [] = Some (Inr [\<lparr>Host = ''n1'', Score = 25\<rparr>, \<lparr>Host = ''n2'', Score = 29\<rparr>])"
  by (simp add: PrioritizeNodes_def scored_scores sum_scores_def weighted_def)
    (simp add: scored_configs_def map_config_def scored_nodes_def weighted_def upt_rec)

theorem PrioritizeNodes_weighted_witness:
  "\<exists>result. PrioritizeNodes zero_Pod scored_infos None scored_configs scored_nodes [] = Some (Inr result) \<and>
     sint (Score (result ! 1)) = 29 \<and> sint (Score (result ! 1)) \<le> 10 * (\<Sum>c\<leftarrow>scored_configs. sint (Weight c))"
proof -
  have "bounded_priority c requests_ok" if "c \<in> set scored_configs" for c
    using that least.bounded_priority_axioms label.restrict[of requests_ok] by (auto simp: scored_configs_def)
  moreover have "requests_ok zero_Pod None (fmlookup scored_infos (node_Name node))" if "node \<in> set scored_nodes" for node
    using that by (auto simp: scored_nodes_def scored_infos_def requests_ok_def scored_info_def AllocatableResource_def requested_on_def NonZeroRequest_def
        getNonZeroRequests_def zero_Pod_def capacity_ok_def emptyResource_def)
  moreover have "validate_weights 0 [1, 2] = None" "policy_weight_ok 1" "policy_weight_ok 2" by code_simp+
  then have "validateSelectedConfigs scored_configs = None" "\<And>c. c \<in> set scored_configs \<Longrightarrow> policy_weight_ok (Weight c)"
    by (auto simp: validateSelectedConfigs_def scored_configs_def map_config_def)
  ultimately show ?thesis
    using PrioritizeNodes_weighted[OF _ _ _ _ scored_result, of requests_ok 1] scored_result by (auto simp: scored_configs_def scored_nodes_def)
qed

text \<open>
  Least and most requested. For a node that has room, the score for free resources is the free fraction of the capacity times \<open>MaxPriority\<close>, rounded down, that
  for used resources the used fraction; they add up to 10, or to 9 if rounding loses a unit, and more requests never raise the first. A node without room or capacity gets 0 from both.
\<close>

theorem requested_scores:
  assumes "capacity_ok c" "0 \<le> sint r"
  shows "(sint c < sint r \<or> c = 0 \<longrightarrow> leastRequestedScore r c = 0 \<and> mostRequestedScore r c = 0) \<and>
    (sint r \<le> sint c \<and> c \<noteq> 0 \<longrightarrow>
       sint (leastRequestedScore r c) = (sint c - sint r) * 10 div sint c \<and> sint (mostRequestedScore r c) = sint r * 10 div sint c \<and>
       sint (leastRequestedScore r c) + sint (mostRequestedScore r c) \<in> {9, 10}) \<and>
    (sint r \<le> sint r' \<longrightarrow> sint (leastRequestedScore r' c) \<le> sint (leastRequestedScore r c))"
proof -
  have "sint (leastRequestedScore r c) + sint (mostRequestedScore r c) \<in> {9, 10}" if h: "sint r \<le> sint c" "c \<noteq> 0"
  proof -
    have "sint c \<noteq> 0" using h(2) by (metis sint_0 signed_word_eqI)
    then have c: "0 < sint c" using assms(1) by (simp add: capacity_ok_def)
    have "(sint c - sint r) * 10 = - (sint r * 10) + 10 * sint c" by (simp add: algebra_simps)
    then have "(sint c - sint r) * 10 div sint c = - (sint r * 10) div sint c + 10"
      using c div_mult_self1[of "sint c" "- (sint r * 10)" 10] by (simp add: mult.commute)
    moreover have "- (sint r * 10) div sint c = (if sint r * 10 mod sint c = 0 then - (sint r * 10 div sint c) else - (sint r * 10 div sint c) - 1)"
      using zdiv_zminus1_eq_if[of "sint c" "sint r * 10"] c by simp
    ultimately show ?thesis using assms h by (simp add: leastRequestedScore_sint mostRequestedScore_sint)
  qed
  then show ?thesis using assms least_antimono[OF assms, of r']
    by (auto simp: leastRequestedScore_sint mostRequestedScore_sint) (auto simp: leastRequestedScore_def mostRequestedScore_def signed_less_sint)
qed

lemma utilization_less_last: "utilization_sorted (p0 # ps) \<Longrightarrow> ps \<noteq> [] \<Longrightarrow> sint (Utilization p0) < sint (Utilization (last ps))"
proof (induction ps arbitrary: p0)
  case (Cons p1 ps)
  then show ?case by (cases ps) (force simp: signed_less_sint intro: less_trans)+
qed simp

lemma broken_segments_last:
  assumes "list_all point_ok (p0 # ps)" "utilization_sorted (p0 # ps)" "sint (Utilization (last (p0 # ps))) \<le> sint p"
  shows "broken_segments p0 ps p = fsp_Score (last (p0 # ps))"
  using assms
proof (induction ps arbitrary: p0)
  case (Cons p1 ps)
  have s: "utilization_sorted (p1 # ps)" "sint (Utilization p0) < sint (Utilization p1)" using Cons.prems(2) by (auto simp: signed_less_sint)
  show ?case
  proof (cases "sint p \<le> sint (Utilization p1)")
    case True
    have "ps = []" by (rule ccontr) (use utilization_less_last[OF s(1)] Cons.prems(3) True in simp)
    with True Cons.prems(3) have "sint p = sint (Utilization p1)" by simp
    then have "p = Utilization p1" by (rule signed_word_eqI)
    then show ?thesis using segment_value(2)[of p0 p1 p] Cons.prems(1) s(2) \<open>ps = []\<close> by (simp add: signed_less_sint)
  next
    case False
    with Cons.IH[of p1] Cons.prems s show ?thesis by (simp add: signed_less_sint)
  qed
qed simp

lemma NewFunctionShape_iff:
  "NewFunctionShape points = Inr shape \<longleftrightarrow> points = fst shape # snd shape \<and> utilization_sorted points \<and> list_all point_ok points"
proof (cases points)
  case (Cons p ps)
  then show ?thesis using check_points_ok[of points]
    by (cases shape) (auto simp: NewFunctionShape_def simp del: check_points.simps utilization_sorted.simps split: option.splits)
qed (simp add: NewFunctionShape_def)

text \<open>What the metadata holds is what the functions compute without it.\<close>

lemma metadata_agrees:
  assumes "meta = PriorityMetadata L pmf pod infos"
  shows "PriorityMap gate cells r pod meta i = PriorityMap gate cells r pod None i"
    "ComputeTaintTolerationPriorityMap L pod meta i = ComputeTaintTolerationPriorityMap L pod None i"
    "CalculateNodeAffinityPriorityMap L pod meta i = CalculateNodeAffinityPriorityMap L pod None i"
    "CalculateNodePreferAvoidPodsPriorityMap L pod meta i = CalculateNodePreferAvoidPodsPriorityMap L pod None i"
    "CalculateSpreadPriorityMap L pmf pod meta i = CalculateSpreadPriorityMap L pmf pod None i"
    "CalculateAntiAffinityPriorityMap L pmf pod meta i = CalculateAntiAffinityPriorityMap L pmf pod None i"
  unfolding assms PriorityMetadata_def
  by (simp_all add: PriorityMap_def requested_on_def ComputeTaintTolerationPriorityMap_def CalculateNodeAffinityPriorityMap_def preferred_terms_def
      CalculateNodePreferAvoidPodsPriorityMap_def CalculateSpreadPriorityMap_def CalculateAntiAffinityPriorityMap_def
      cong: option.case_cong)

text \<open>
  C29. Scoring by a shape. \<open>NewFunctionShape\<close> accepts a list of points exactly if it is not empty, sorted strictly by utilization, and within 0 to 100 and 0 to \<open>MaxPriority\<close>. The
  function built from an accepted shape takes the score of each point at the utilization of the point, keeps to the scores of the first and the last point outside, and stays within 0 to \<open>MaxPriority\<close>
  for every argument, rounding and truncation included.
\<close>

theorem broken_linear_function:
  "((\<exists>shape. NewFunctionShape points = Inr shape) \<longleftrightarrow> points \<noteq> [] \<and> utilization_sorted points \<and> list_all point_ok points) \<and>
   (\<forall>shape. NewFunctionShape points = Inr shape \<longrightarrow>
     (\<forall>pt \<in> set points. buildBrokenLinearFunction shape (Utilization pt) = fsp_Score pt) \<and>
     (\<forall>p. 0 \<le> sint (buildBrokenLinearFunction shape p) \<and> sint (buildBrokenLinearFunction shape p) \<le> 10) \<and>
     (\<forall>p. sint p \<le> sint (Utilization (hd points)) \<longrightarrow> buildBrokenLinearFunction shape p = fsp_Score (hd points)) \<and>
     (\<forall>p. sint (Utilization (last points)) \<le> sint p \<longrightarrow> buildBrokenLinearFunction shape p = fsp_Score (last points)))"
proof (intro conjI allI impI ballI)
  show "(\<exists>shape. NewFunctionShape points = Inr shape) \<longleftrightarrow> points \<noteq> [] \<and> utilization_sorted points \<and> list_all point_ok points"
    by (auto simp: NewFunctionShape_iff) (metis list.exhaust fst_conv snd_conv)
  fix shape assume n: "NewFunctionShape points = Inr shape"
  then have sh: "points = fst shape # snd shape" "utilization_sorted points" "list_all point_ok points" by (auto simp: NewFunctionShape_iff)
  note ok = buildBrokenLinearFunction_ok[OF n]
  show "buildBrokenLinearFunction shape (Utilization pt) = fsp_Score pt" if "pt \<in> set points" for pt by (rule ok(2)[OF that])
  show "0 \<le> sint (buildBrokenLinearFunction shape p)" "sint (buildBrokenLinearFunction shape p) \<le> 10" for p using ok(1)[of p] by (simp_all add: score_ok_def)
  show "buildBrokenLinearFunction shape p = fsp_Score (hd points)" if "sint p \<le> sint (Utilization (hd points))" for p
    using that sh(1) by (simp add: buildBrokenLinearFunction_def signed_less_sint)
  show "buildBrokenLinearFunction shape p = fsp_Score (last points)" if l: "sint (Utilization (last points)) \<le> sint p" for p
  proof (cases "sint p \<le> sint (Utilization (fst shape))")
    case True
    have "snd shape = []" by (rule ccontr) (use utilization_less_last[of "fst shape" "snd shape"] sh l True in simp)
    then show ?thesis using True sh(1) by (simp add: buildBrokenLinearFunction_def signed_less_sint)
  next
    case False
    then show ?thesis using broken_segments_last[of "fst shape" "snd shape" p] sh l by (simp add: buildBrokenLinearFunction_def signed_less_sint)
  qed
qed

theorem broken_linear_function_witness:
  "buildBrokenLinearFunction defaultFunctionShape 0 = 10 \<and> buildBrokenLinearFunction defaultFunctionShape 100 = 0 \<and>
   sint (buildBrokenLinearFunction defaultFunctionShape 37) \<le> 10"
proof -
  let ?p = "\<lparr>Utilization = 0, fsp_Score = 10\<rparr>" and ?q = "\<lparr>Utilization = 100, fsp_Score = 0\<rparr>"
  note t = broken_linear_function[of "[?p, ?q]", THEN conjunct2, rule_format, OF default_shape]
  have "buildBrokenLinearFunction defaultFunctionShape (Utilization ?p) = fsp_Score ?p" by (rule t[THEN conjunct1, rule_format]) simp
  moreover have "buildBrokenLinearFunction defaultFunctionShape (Utilization ?q) = fsp_Score ?q" by (rule t[THEN conjunct1, rule_format]) simp
  ultimately show ?thesis using t by simp
qed

lemma NormalizeReduce_nth:
  assumes raw: "\<forall>hp \<in> set hps. raw_ok (Score hp)" and r: "NormalizeReduce MaxPriority reverse pod meta infos hps = (hps', e)" and i: "i < length hps"
  defines "n \<equiv> if maxCount hps = 0 then 0 else normal hps (hps ! i)"
  shows "Host (hps' ! i) = Host (hps ! i)" "sint (Score (hps' ! i)) = (if reverse then 10 - n else n)"
proof -
  have mem: "hps ! i \<in> set hps" using i by simp
  show "Host (hps' ! i) = Host (hps ! i)" using r i by (auto simp: NormalizeReduce_def Let_def split: if_splits)
  show "sint (Score (hps' ! i)) = (if reverse then 10 - n else n)"
  proof (cases "maxCount hps = 0")
    case True
    then have "sint (Score (hps ! i)) = 0" using maxCount_props(1)[OF mem] raw mem by (force simp: raw_ok_def)
    then show ?thesis using r i True by (auto simp: NormalizeReduce_def n_def split: if_splits)
  next
    case False
    note ok = normal_ok[OF raw mem False]
    have "sint (MaxPriority - go_div (MaxPriority * Score (hps ! i)) (maxCount hps)) = 10 - normal hps (hps ! i)"
      using ok by (subst sint_ops(2)) (simp_all add: in_range_def)
    then show ?thesis using r i False ok(1) by (auto simp: NormalizeReduce_def Let_def n_def)
  qed
qed

text \<open>
  C30. Normalising. From raw scores that are at least 0 and less than \<open>2^56\<close> (larger ones may overflow when they are multiplied by \<open>MaxPriority\<close>), \<open>NormalizeReduce\<close> with the maximum \<open>MaxPriority\<close> returns no error and makes scores from 0 to \<open>MaxPriority\<close> for the same hosts: a host with
  a higher raw score never gets a lower result, or, when the scale is reversed, a higher one; the highest raw score, if it is not 0, becomes \<open>MaxPriority\<close>, or 0 when
  the scale is reversed; and a raw score of 0 becomes 0, or \<open>MaxPriority\<close> when the scale is reversed, also when all raw scores are 0.
\<close>

theorem NormalizeReduce_order:
  assumes raw: "\<forall>hp \<in> set hps. raw_ok (Score hp)" and r: "NormalizeReduce MaxPriority reverse pod meta infos hps = (hps', e)"
    and ij: "i < length hps" "j < length hps"
  shows "e = None \<and> length hps' = length hps \<and> Host (hps' ! i) = Host (hps ! i) \<and> 0 \<le> sint (Score (hps' ! i)) \<and> sint (Score (hps' ! i)) \<le> 10 \<and>
    (sint (Score (hps ! i)) \<le> sint (Score (hps ! j)) \<longrightarrow>
       (if reverse then sint (Score (hps' ! j)) \<le> sint (Score (hps' ! i)) else sint (Score (hps' ! i)) \<le> sint (Score (hps' ! j)))) \<and>
    (Score (hps ! i) = 0 \<longrightarrow> Score (hps' ! i) = (if reverse then MaxPriority else 0)) \<and>
    (Score (hps ! i) \<noteq> 0 \<and> (\<forall>hp \<in> set hps. sint (Score hp) \<le> sint (Score (hps ! i))) \<longrightarrow> Score (hps' ! i) = (if reverse then 0 else MaxPriority))"
proof -
  let ?n = "\<lambda>i. if maxCount hps = 0 then 0 else normal hps (hps ! i)" and ?s = "\<lambda>i. sint (Score (hps ! i))"
  note nth = NormalizeReduce_nth[OF raw r]
  have mem: "hps ! i \<in> set hps" "hps ! j \<in> set hps" using ij by simp_all
  have e: "e = None" "length hps' = length hps" using NormalizeReduce_ok[OF raw r] by simp_all
  have range: "0 \<le> ?n i" "?n i \<le> 10" using normal_ok(2,3)[OF raw mem(1)] by auto
  have mono: "?n i \<le> ?n j" if "?s i \<le> ?s j"
    using that maxCount_props(2)[of hps] by (cases "sint (maxCount hps) = 0") (auto simp: normal_def intro!: zdiv_mono1)
  have zero: "?n i = 0" if "Score (hps ! i) = 0" using that by (simp add: normal_def)
  have top: "?n i = 10" if "Score (hps ! i) \<noteq> 0" "\<forall>hp \<in> set hps. sint (Score hp) \<le> ?s i"
  proof -
    have "0 \<le> ?s i" "?s i \<noteq> 0" using raw mem(1) that(1) by (auto simp: raw_ok_def) (metis sint_0 signed_word_eqI)
    moreover from this have "sint (maxCount hps) = ?s i"
      using that(2) mem(1) by (auto simp: maxCount_sint intro!: Max_eqI)
    moreover from calculation have "maxCount hps \<noteq> 0" by (metis sint_0)
    ultimately show ?thesis by (simp add: normal_def)
  qed
  have eq: "Score (hps' ! i) = w" if "sint (Score (hps' ! i)) = sint w" for w using that by (rule signed_word_eqI)
  show ?thesis
  proof (intro conjI impI)
    show "Score (hps' ! i) = (if reverse then MaxPriority else 0)" if "Score (hps ! i) = 0" by (rule eq) (use nth(2)[OF ij(1)] zero[OF that] in simp)
    show "Score (hps' ! i) = (if reverse then 0 else MaxPriority)" if "Score (hps ! i) \<noteq> 0 \<and> (\<forall>hp \<in> set hps. sint (Score hp) \<le> ?s i)"
      by (rule eq) (use nth(2)[OF ij(1)] top that in simp)
  qed (use nth[OF ij(1)] nth(2)[OF ij(2)] e range mono in auto)
qed

definition raw_scores :: "HostPriority list" where
  "raw_scores = [\<lparr>Host = ''n1'', Score = 3\<rparr>, \<lparr>Host = ''n2'', Score = 0\<rparr>, \<lparr>Host = ''n3'', Score = 7\<rparr>]"

theorem NormalizeReduce_order_witness:
  "\<exists>hps. NormalizeReduce MaxPriority True zero_Pod None fmempty raw_scores = (hps, None) \<and> sint (Score (hps ! 2)) \<le> sint (Score (hps ! 0)) \<and> Score (hps ! 1) = 10 \<and> Score (hps ! 2) = 0"
proof -
  obtain hps e where r: "NormalizeReduce MaxPriority True zero_Pod None fmempty raw_scores = (hps, e)" by fastforce
  have raw: "\<forall>hp \<in> set raw_scores. raw_ok (Score hp)" by (simp add: raw_scores_def raw_ok_def)
  note t = NormalizeReduce_order[OF raw r]
  show ?thesis using t[of 0 2] t[of 1 1] t[of 2 2] r by (simp add: raw_scores_def MaxPriority_def)
qed

end
