(* ===== verification/Volume_Predicates.thy ===== *)
theory Volume_Predicates
  imports Predicate_Properties
begin

text \<open>
  The predicates on volumes of \<open>algorithm/predicates\<close>: the number of attached volumes (\<open>predicates.go\<close> for the in-tree
  types, \<open>csi_volume_predicate.go\<close> for CSI) and the zones of persistent volumes. Listers return an error, or an object
  that may be nil. What the code takes from Kubernetes' volume packages is the record \<open>volumeutil\<close>. The count of in-tree volumes
  also writes the transient info of the node, which balanced allocation reads: it takes and returns
  the objects behind the pointers \<open>TransientInfo\<close>. A panic is \<open>None\<close>.
\<close>

definition ErrMaxVolumeCountExceeded :: PredicateFailureReason where
  "ErrMaxVolumeCountExceeded = PredicateFailureError ''MaxVolumeCount'' ''node(s) exceed max volume count''"

subsection \<open>Volumes and claims\<close>

text \<open>The sources of a persistent volume are reduced to the identifiers that are read; that of CSI is a driver and a volume handle. Of a claim, the volume
  and what \<open>GetPersistentVolumeClaimClass\<close> reads are kept.\<close>

record PersistentVolume =
  pv_Labels :: labels
  pv_GCEPersistentDisk :: "string option"
  pv_AWSElasticBlockStore :: "string option"
  pv_AzureDisk :: "string option"
  pv_Cinder :: "string option"
  pv_CSI :: "(string \<times> string) option"

record PersistentVolumeClaim =
  VolumeName :: string
  pvc_Class :: string

record StorageClass =
  VolumeBindingMode :: "string option"

type_synonym PersistentVolumeInfo = "string \<Rightarrow> string + PersistentVolume option"
type_synonym PersistentVolumeClaimInfo = "string \<Rightarrow> string \<Rightarrow> string + PersistentVolumeClaim option"
type_synonym StorageClassInfo = "string \<Rightarrow> string + StorageClass option"

record volumeutil =
  EBSVolumeLimitKey :: string
  GCEVolumeLimitKey :: string
  AzureVolumeLimitKey :: string
  CinderVolumeLimitKey :: string
  EBSNitroLimit_matches :: "string \<Rightarrow> bool"
  DefaultMaxEBSNitroVolumeLimit :: int64
  DefaultMaxEBSVolumes :: int64
  DefaultMaxCinderVolumes :: int64
  GetCSIAttachLimitKey :: "string \<Rightarrow> string"
  GetPersistentVolumeClaimClass :: "PersistentVolumeClaim \<Rightarrow> string"
  LabelZonesToSet :: "string \<Rightarrow> string + string list"

subsection \<open>Filters\<close>

record VolumeFilter =
  FilterVolume :: "Volume \<Rightarrow> string option"
  FilterPersistentVolume :: "PersistentVolume \<Rightarrow> string option"

definition EBSVolumeFilter :: VolumeFilter where
  "EBSVolumeFilter = \<lparr>FilterVolume = AWSElasticBlockStore, FilterPersistentVolume = pv_AWSElasticBlockStore\<rparr>"

definition GCEPDVolumeFilter :: VolumeFilter where
  "GCEPDVolumeFilter = \<lparr>FilterVolume = (\<lambda>vol. map_option fst (GCEPersistentDisk vol)), FilterPersistentVolume = pv_GCEPersistentDisk\<rparr>"

definition AzureDiskVolumeFilter :: VolumeFilter where
  "AzureDiskVolumeFilter = \<lparr>FilterVolume = AzureDisk, FilterPersistentVolume = pv_AzureDisk\<rparr>"

definition CinderVolumeFilter :: VolumeFilter where
  "CinderVolumeFilter = \<lparr>FilterVolume = Cinder, FilterPersistentVolume = pv_Cinder\<rparr>"

subsection \<open>The limit of a node\<close>

definition DefaultMaxGCEPDVolumes :: int64 where "DefaultMaxGCEPDVolumes = 16"
definition DefaultMaxAzureDiskVolumes :: int64 where "DefaultMaxAzureDiskVolumes = 16"
definition EBSVolumeFilterType :: string where "EBSVolumeFilterType = ''EBS''"
definition GCEPDVolumeFilterType :: string where "GCEPDVolumeFilterType = ''GCE''"
definition AzureDiskVolumeFilterType :: string where "AzureDiskVolumeFilterType = ''AzureDisk''"
definition CinderVolumeFilterType :: string where "CinderVolumeFilterType = ''Cinder''"
definition LabelInstanceType :: string where "LabelInstanceType = ''beta.kubernetes.io/instance-type''"

text \<open>\<open>strconv.Atoi\<close>: an optional sign, at least one decimal digit, and a value of 64 bits.\<close>

definition digit_value :: "char \<Rightarrow> int option" where
  "digit_value c = (let n = (of_char c :: nat) in if 48 \<le> n \<and> n \<le> 57 then Some (int n - 48) else None)"

fun digits_value :: "int \<Rightarrow> string \<Rightarrow> int option" where
  "digits_value n [] = Some n"
| "digits_value n (c # cs) = (case digit_value c of None \<Rightarrow> None | Some d \<Rightarrow> digits_value (10 * n + d) cs)"

definition Atoi :: "string \<Rightarrow> int64 option" where
  "Atoi s =
     (let (negative, digits) = (case s of c # cs \<Rightarrow> if c = CHR ''-'' then (True, cs) else if c = CHR ''+'' then (False, cs) else (False, s) | [] \<Rightarrow> (False, s))
      in if digits = [] then None
         else case digits_value 0 digits of
           None \<Rightarrow> None
         | Some n \<Rightarrow>
            (let v = if negative then - n else n
             in if - (2 ^ 63) \<le> v \<and> v < 2 ^ 63 then Some (word_of_int v) else None))"

text \<open>\<open>rawMaxVols\<close> is the value of the environment variable \<open>KUBE_MAX_PD_VOLS\<close>.\<close>

definition getMaxVolLimitFromEnv :: "string \<Rightarrow> int64" where
  "getMaxVolLimitFromEnv rawMaxVols =
     (if rawMaxVols \<noteq> [] then
        case Atoi rawMaxVols of
          None \<Rightarrow> -1
        | Some parsedMaxVols \<Rightarrow> if parsedMaxVols \<le>s 0 then -1 else parsedMaxVols
      else -1)"

definition getMaxEBSVolume :: "volumeutil \<Rightarrow> string \<Rightarrow> int64" where
  "getMaxEBSVolume V nodeInstanceType =
     (if EBSNitroLimit_matches V nodeInstanceType then DefaultMaxEBSNitroVolumeLimit V else DefaultMaxEBSVolumes V)"

definition getMaxVolumeFunc :: "volumeutil \<Rightarrow> string \<Rightarrow> string \<Rightarrow> Node option \<Rightarrow> int64 option" where
  "getMaxVolumeFunc V rawMaxVols filterName node =
     (let maxVolumesFromEnv = getMaxVolLimitFromEnv rawMaxVols
      in if 0 <s maxVolumesFromEnv then Some maxVolumesFromEnv
         else map_option (\<lambda>n.
           let nodeInstanceType = (case map_of (node_Labels n) LabelInstanceType of Some v \<Rightarrow> v | None \<Rightarrow> [])
           in if filterName = EBSVolumeFilterType then getMaxEBSVolume V nodeInstanceType
              else if filterName = GCEPDVolumeFilterType then DefaultMaxGCEPDVolumes
              else if filterName = AzureDiskVolumeFilterType then DefaultMaxAzureDiskVolumes
              else if filterName = CinderVolumeFilterType then DefaultMaxCinderVolumes V
              else -1) node)"

subsection \<open>In-tree volumes\<close>

record MaxPDVolumeCountChecker =
  mp_filter :: VolumeFilter
  volumeLimitKey :: string
  maxVolumeFunc :: "Node option \<Rightarrow> int64 option"
  mp_pvInfo :: PersistentVolumeInfo
  mp_pvcInfo :: PersistentVolumeClaimInfo
  randomVolumeIDPrefix :: string

text \<open>\<open>None\<close> is the exit of \<open>klog.Fatalf\<close>.\<close>

definition NewMaxPDVolumeCountPredicate ::
  "volumeutil \<Rightarrow> string \<Rightarrow> string \<Rightarrow> string \<Rightarrow> PersistentVolumeInfo \<Rightarrow> PersistentVolumeClaimInfo \<Rightarrow> MaxPDVolumeCountChecker option" where
  "NewMaxPDVolumeCountPredicate V rawMaxVols random filterName pvInfo pvcInfo =
     (let checker = (\<lambda>f key. Some \<lparr>mp_filter = f, volumeLimitKey = key, maxVolumeFunc = getMaxVolumeFunc V rawMaxVols filterName,
            mp_pvInfo = pvInfo, mp_pvcInfo = pvcInfo, randomVolumeIDPrefix = random\<rparr>)
      in if filterName = EBSVolumeFilterType then checker EBSVolumeFilter (EBSVolumeLimitKey V)
         else if filterName = GCEPDVolumeFilterType then checker GCEPDVolumeFilter (GCEVolumeLimitKey V)
         else if filterName = AzureDiskVolumeFilterType then checker AzureDiskVolumeFilter (AzureVolumeLimitKey V)
         else if filterName = CinderVolumeFilterType then checker CinderVolumeFilter (CinderVolumeLimitKey V)
         else None)"

text \<open>What one volume adds to the map of \<open>filterVolumes\<close>.\<close>

definition volume_entry :: "MaxPDVolumeCountChecker \<Rightarrow> string \<Rightarrow> Volume \<Rightarrow> string + string option" where
  "volume_entry c namespace vol = (case FilterVolume (mp_filter c) vol of
     Some v \<Rightarrow> Inr (Some v)
   | None \<Rightarrow> (case PersistentVolumeClaim vol of
       None \<Rightarrow> Inr None
     | Some pvcName \<Rightarrow>
        if pvcName = [] then Inl ''PersistentVolumeClaim had no name''
        else
          (let pvID = randomVolumeIDPrefix c @ ''-'' @ namespace @ ''/'' @ pvcName
           in case mp_pvcInfo c namespace pvcName of
                Inr (Some pvc) \<Rightarrow>
                  if VolumeName pvc = [] then Inr (Some pvID)
                  else (case mp_pvInfo c (VolumeName pvc) of
                      Inr (Some pv) \<Rightarrow> Inr (FilterPersistentVolume (mp_filter c) pv)
                    | _ \<Rightarrow> Inr (Some pvID))
              | _ \<Rightarrow> Inr (Some pvID))))"

fun filterVolumes :: "MaxPDVolumeCountChecker \<Rightarrow> Volume list \<Rightarrow> string \<Rightarrow> string fset \<Rightarrow> string + string fset" where
  "filterVolumes c [] namespace filteredVolumes = Inr filteredVolumes"
| "filterVolumes c (vol # volumes) namespace filteredVolumes = (case volume_entry c namespace vol of
     Inl err \<Rightarrow> Inl err
   | Inr None \<Rightarrow> filterVolumes c volumes namespace filteredVolumes
   | Inr (Some v) \<Rightarrow> filterVolumes c volumes namespace (finsert v filteredVolumes))"

fun existing_volumes :: "MaxPDVolumeCountChecker \<Rightarrow> Pod list \<Rightarrow> string fset \<Rightarrow> string + string fset" where
  "existing_volumes c [] existingVolumes = Inr existingVolumes"
| "existing_volumes c (existingPod # pods) existingVolumes = (case filterVolumes c (pod_Volumes existingPod) (pod_Namespace existingPod) existingVolumes of
     Inl err \<Rightarrow> Inl err
   | Inr vs \<Rightarrow> existing_volumes c pods vs)"

definition node_volume_limits :: "k8s \<Rightarrow> NodeInfo option \<Rightarrow> (string, int64) fmap" where
  "node_volume_limits L nodeInfo = (case nodeInfo of Some n \<Rightarrow> VolumeLimits L n | None \<Rightarrow> fmempty)"

text \<open>The gates \<open>AttachVolumeLimit\<close> and \<open>BalanceAttachedNodeVolumes\<close> are \<open>attach\<close> and \<open>balance\<close>.\<close>

definition MaxPD_predicate ::
  "k8s \<Rightarrow> bool \<Rightarrow> bool \<Rightarrow> MaxPDVolumeCountChecker \<Rightarrow> Pod \<Rightarrow> 'm option \<Rightarrow> NodeInfo option \<Rightarrow> nodeTransientInfo list \<Rightarrow> (fit_result \<times> nodeTransientInfo list) option" where
  "MaxPD_predicate L attach balance c pod meta nodeInfo cells =
     (if pod_Volumes pod = [] then Some (Inr (True, []), cells)
      else case filterVolumes c (pod_Volumes pod) (pod_Namespace pod) {||} of
        Inl err \<Rightarrow> Some (Inl err, cells)
      | Inr newVolumes \<Rightarrow>
         if newVolumes = {||} then Some (Inr (True, []), cells)
         else case existing_volumes c (NodeInfo_Pods nodeInfo) {||} of
           Inl err \<Rightarrow> Some (Inl err, cells)
         | Inr existingVolumes \<Rightarrow> map_option (\<lambda>maxVolumes.
             let numExistingVolumes = of_nat (fcard existingVolumes) :: int64;
                 numNewVolumes = of_nat (fcard (newVolumes |-| existingVolumes));
                 maxAttachLimit = (case fmlookup (node_volume_limits L nodeInfo) (volumeLimitKey c) of
                     Some limit \<Rightarrow> if attach then limit else maxVolumes
                   | None \<Rightarrow> maxVolumes)
             in if maxAttachLimit <s numExistingVolumes + numNewVolumes then (Inr (False, [ErrMaxVolumeCountExceeded]), cells)
                else (Inr (True, []), case nodeInfo of
                    Some n \<Rightarrow> if balance then cells[TransientInfo n := \<lparr>AllocatableVolumesCount = maxAttachLimit - numExistingVolumes, RequestedVolumes = numNewVolumes\<rparr>]
                             else cells
                  | None \<Rightarrow> cells)) (maxVolumeFunc c (NodeInfo_Node nodeInfo)))"

subsection \<open>Zones\<close>

record VolumeZoneChecker =
  vz_pvInfo :: PersistentVolumeInfo
  vz_pvcInfo :: PersistentVolumeClaimInfo
  classInfo :: StorageClassInfo

definition LabelZoneFailureDomain :: string where "LabelZoneFailureDomain = ''failure-domain.beta.kubernetes.io/zone''"
definition LabelZoneRegion :: string where "LabelZoneRegion = ''failure-domain.beta.kubernetes.io/region''"
definition VolumeBindingWaitForFirstConsumer :: string where "VolumeBindingWaitForFirstConsumer = ''WaitForFirstConsumer''"

definition zone_labels :: "labels \<Rightarrow> labels" where
  "zone_labels ls = filter (\<lambda>(k, v). k = LabelZoneFailureDomain \<or> k = LabelZoneRegion) ls"

text \<open>One label of a persistent volume: whether the node agrees with it. A label that cannot be parsed is ignored.\<close>

definition zone_agrees :: "volumeutil \<Rightarrow> labels \<Rightarrow> string \<times> string \<Rightarrow> bool" where
  "zone_agrees V nodeConstraints = (\<lambda>(k, v).
     let nodeV = (case map_of nodeConstraints k of Some x \<Rightarrow> x | None \<Rightarrow> [])
     in case LabelZonesToSet V v of Inl err \<Rightarrow> True | Inr volumeVSet \<Rightarrow> nodeV \<in> set volumeVSet)"

text \<open>One claim: an error, or whether the node agrees with the zones of its volume.\<close>

definition claim_zones :: "volumeutil \<Rightarrow> VolumeZoneChecker \<Rightarrow> labels \<Rightarrow> string \<Rightarrow> string \<Rightarrow> string + bool" where
  "claim_zones V c nodeConstraints namespace pvcName =
     (if pvcName = [] then Inl ''PersistentVolumeClaim had no name''
      else case vz_pvcInfo c namespace pvcName of
        Inl err \<Rightarrow> Inl err
      | Inr None \<Rightarrow> Inl ''PersistentVolumeClaim was not found''
      | Inr (Some pvc) \<Rightarrow>
         if VolumeName pvc = [] then
           (let scName = GetPersistentVolumeClaimClass V pvc; unbound = Inl ''PersistentVolumeClaim is not bound''
            in if scName \<noteq> [] then
                 case classInfo c scName of
                   Inr (Some class) \<Rightarrow> (case VolumeBindingMode class of
                       None \<Rightarrow> Inl ''VolumeBindingMode not set for StorageClass''
                     | Some mode \<Rightarrow> if mode = VolumeBindingWaitForFirstConsumer then Inr True else unbound)
                 | _ \<Rightarrow> unbound
               else unbound)
         else case vz_pvInfo c (VolumeName pvc) of
           Inl err \<Rightarrow> Inl err
         | Inr None \<Rightarrow> Inl ''PersistentVolume not found''
         | Inr (Some pv) \<Rightarrow> Inr (list_all (zone_agrees V nodeConstraints) (zone_labels (pv_Labels pv))))"

fun volumes_zones :: "volumeutil \<Rightarrow> VolumeZoneChecker \<Rightarrow> labels \<Rightarrow> string \<Rightarrow> Volume list \<Rightarrow> fit_result" where
  "volumes_zones V c nodeConstraints namespace [] = Inr (True, [])"
| "volumes_zones V c nodeConstraints namespace (volume # volumes) = (case PersistentVolumeClaim volume of
     None \<Rightarrow> volumes_zones V c nodeConstraints namespace volumes
   | Some pvcName \<Rightarrow> (case claim_zones V c nodeConstraints namespace pvcName of
       Inl err \<Rightarrow> Inl err
     | Inr agrees \<Rightarrow> if agrees then volumes_zones V c nodeConstraints namespace volumes else Inr (False, [ErrVolumeZoneConflict])))"

definition VolumeZone_predicate :: "volumeutil \<Rightarrow> VolumeZoneChecker \<Rightarrow> 'm FitPredicate" where
  "VolumeZone_predicate V c pod meta nodeInfo =
     (if pod_Volumes pod = [] then Inr (True, [])
      else case NodeInfo_Node nodeInfo of
        None \<Rightarrow> node_not_found
      | Some node \<Rightarrow>
         (let nodeConstraints = zone_labels (node_Labels node)
          in if nodeConstraints = [] then Inr (True, [])
             else volumes_zones V c nodeConstraints (pod_Namespace pod) (pod_Volumes pod)))"

subsection \<open>CSI volumes\<close>

record CSIMaxVolumeLimitChecker =
  csi_pvInfo :: PersistentVolumeInfo
  csi_pvcInfo :: PersistentVolumeClaimInfo

text \<open>The loop of \<open>filterAttachableVolumes\<close>; it panics where a lister returns neither an error nor an object.\<close>

fun filterAttachableVolumes ::
  "volumeutil \<Rightarrow> CSIMaxVolumeLimitChecker \<Rightarrow> Volume list \<Rightarrow> string \<Rightarrow> (string, string) fmap \<Rightarrow> (string + (string, string) fmap) option" where
  "filterAttachableVolumes V c [] namespace result = Some (Inr result)"
| "filterAttachableVolumes V c (vol # volumes) namespace result = (case PersistentVolumeClaim vol of
     None \<Rightarrow> filterAttachableVolumes V c volumes namespace result
   | Some pvcName \<Rightarrow>
      if pvcName = [] then Some (Inl ''PersistentVolumeClaim had no name'')
      else case csi_pvcInfo c namespace pvcName of
        Inl err \<Rightarrow> filterAttachableVolumes V c volumes namespace result
      | Inr None \<Rightarrow> None
      | Inr (Some pvc) \<Rightarrow>
         if VolumeName pvc = [] then filterAttachableVolumes V c volumes namespace result
         else case csi_pvInfo c (VolumeName pvc) of
           Inl err \<Rightarrow> filterAttachableVolumes V c volumes namespace result
         | Inr None \<Rightarrow> None
         | Inr (Some pv) \<Rightarrow> (case pv_CSI pv of
             None \<Rightarrow> filterAttachableVolumes V c volumes namespace result
           | Some (driverName, handle) \<Rightarrow>
               filterAttachableVolumes V c volumes namespace (fmupd handle (GetCSIAttachLimitKey V driverName) result)))"

fun attached_volumes :: "volumeutil \<Rightarrow> CSIMaxVolumeLimitChecker \<Rightarrow> Pod list \<Rightarrow> (string, string) fmap \<Rightarrow> (string + (string, string) fmap) option" where
  "attached_volumes V c [] attachedVolumes = Some (Inr attachedVolumes)"
| "attached_volumes V c (existingPod # pods) attachedVolumes =
     (case filterAttachableVolumes V c (pod_Volumes existingPod) (pod_Namespace existingPod) attachedVolumes of
        Some (Inr vs) \<Rightarrow> attached_volumes V c pods vs
      | r \<Rightarrow> r)"

text \<open>The number of volumes in a map that have a limit key.\<close>

definition volume_count :: "(string, string) fmap \<Rightarrow> string \<Rightarrow> nat" where
  "volume_count m key = fcard (fmdom (fmfilter (\<lambda>v. fmlookup m v = Some key) m))"

definition exceeds_limit :: "(string, int64) fmap \<Rightarrow> (string, string) fmap \<Rightarrow> (string, string) fmap \<Rightarrow> string \<Rightarrow> bool" where
  "exceeds_limit nodeVolumeLimits attachedVolumes newVolumes key = (case fmlookup nodeVolumeLimits key of
     None \<Rightarrow> False
   | Some maxVolumeLimit \<Rightarrow> maxVolumeLimit <s of_nat (volume_count attachedVolumes key) + of_nat (volume_count newVolumes key))"

definition attachableLimitPredicate ::
  "k8s \<Rightarrow> volumeutil \<Rightarrow> bool \<Rightarrow> CSIMaxVolumeLimitChecker \<Rightarrow> Pod \<Rightarrow> 'm option \<Rightarrow> NodeInfo option \<Rightarrow> fit_result option" where
  "attachableLimitPredicate L V attach c pod meta nodeInfo =
     (if \<not> attach then Some (Inr (True, []))
      else if pod_Volumes pod = [] then Some (Inr (True, []))
      else
        (let nodeVolumeLimits = node_volume_limits L nodeInfo
         in if nodeVolumeLimits = fmempty then Some (Inr (True, []))
            else case filterAttachableVolumes V c (pod_Volumes pod) (pod_Namespace pod) fmempty of
              None \<Rightarrow> None
            | Some (Inl err) \<Rightarrow> Some (Inl err)
            | Some (Inr podVolumes) \<Rightarrow>
               if podVolumes = fmempty then Some (Inr (True, []))
               else case attached_volumes V c (NodeInfo_Pods nodeInfo) fmempty of
                 None \<Rightarrow> None
               | Some (Inl err) \<Rightarrow> Some (Inl err)
               | Some (Inr attachedVolumes) \<Rightarrow>
                   (let newVolumes = fmdrop_fset (fmdom attachedVolumes) podVolumes
                    in if fBex (fmran newVolumes) (exceeds_limit nodeVolumeLimits attachedVolumes newVolumes)
                       then Some (Inr (False, [ErrMaxVolumeCountExceeded]))
                       else Some (Inr (True, [])))))"

end
