(* ===== verification/Volume_Properties.thy ===== *)
theory Volume_Properties
  imports Volume_Predicates
begin

text \<open>
  What the predicates on volumes guarantee: the number of different volumes on a node that takes the pod stays within the limit, and the zones
  of bound volumes agree with the node. The predicates are instances of the contract \<open>fit_predicate\<close>.
\<close>

subsection \<open>The number of in-tree volumes\<close>

definition pod_volume_ids :: "MaxPDVolumeCountChecker \<Rightarrow> Pod \<Rightarrow> string set" where
  "pod_volume_ids c pod = {v. \<exists>vol \<in> set (pod_Volumes pod). volume_entry c (pod_Namespace pod) vol = Inr (Some v)}"

definition claims_named :: "MaxPDVolumeCountChecker \<Rightarrow> Pod \<Rightarrow> bool" where
  "claims_named c pod \<longleftrightarrow> list_all (\<lambda>vol. case volume_entry c (pod_Namespace pod) vol of Inl _ \<Rightarrow> False | Inr _ \<Rightarrow> True) (pod_Volumes pod)"

definition attached_ids :: "MaxPDVolumeCountChecker \<Rightarrow> Pod list \<Rightarrow> string set" where
  "attached_ids c pods = (\<Union>pod \<in> set pods. pod_volume_ids c pod)"

lemma filterVolumes_ids:
  assumes "list_all (\<lambda>vol. case volume_entry c ns vol of Inl _ \<Rightarrow> False | Inr _ \<Rightarrow> True) vols"
  shows "\<exists>vs. filterVolumes c vols ns acc = Inr vs \<and> fset vs = fset acc \<union> {v. \<exists>vol \<in> set vols. volume_entry c ns vol = Inr (Some v)}"
  using assms
proof (induction vols arbitrary: acc)
  case (Cons vol vols)
  then obtain e where e: "volume_entry c ns vol = Inr e" by (auto split: sum.splits)
  show ?case
  proof (cases e)
    case None
    then show ?thesis using Cons.IH[of acc] Cons.prems e by auto
  next
    case (Some v)
    then show ?thesis using Cons.IH[of "finsert v acc"] Cons.prems e by auto
  qed
qed simp

lemma pod_filterVolumes:
  "claims_named c pod \<Longrightarrow> \<exists>vs. filterVolumes c (pod_Volumes pod) (pod_Namespace pod) acc = Inr vs \<and> fset vs = fset acc \<union> pod_volume_ids c pod"
  unfolding claims_named_def pod_volume_ids_def by (rule filterVolumes_ids)

lemma existing_volumes_ids:
  "list_all (claims_named c) pods \<Longrightarrow> \<exists>vs. existing_volumes c pods acc = Inr vs \<and> fset vs = fset acc \<union> attached_ids c pods"
proof (induction pods arbitrary: acc)
  case (Cons p pods)
  then obtain vs where vs: "filterVolumes c (pod_Volumes p) (pod_Namespace p) acc = Inr vs" "fset vs = fset acc \<union> pod_volume_ids c p"
    using pod_filterVolumes[of c p acc] by auto
  then show ?case using Cons.IH[of vs] Cons.prems by (auto simp: attached_ids_def)
qed (simp add: attached_ids_def)

text \<open>The limit that the predicate compares with.\<close>

definition attach_limit :: "k8s \<Rightarrow> bool \<Rightarrow> MaxPDVolumeCountChecker \<Rightarrow> NodeInfo \<Rightarrow> int64 \<Rightarrow> int64" where
  "attach_limit L attach c n maxVolumes = (case fmlookup (VolumeLimits L n) (volumeLimitKey c) of
     Some limit \<Rightarrow> if attach then limit else maxVolumes | None \<Rightarrow> maxVolumes)"

lemma finite_ids [simp]: "finite (pod_volume_ids c pod)" "finite (attached_ids c pods)"
proof -
  have "pod_volume_ids c pod \<subseteq> (\<lambda>vol. the (projr (volume_entry c (pod_Namespace pod) vol))) ` set (pod_Volumes pod)" for pod
    by (force simp: pod_volume_ids_def)
  then show "finite (pod_volume_ids c pod)" for pod by (rule finite_subset) simp
  then show "finite (attached_ids c pods)" by (simp add: attached_ids_def)
qed

lemma card_attached_Cons:
  "card (attached_ids c (pod # pods)) = card (attached_ids c pods) + card (pod_volume_ids c pod - attached_ids c pods)"
proof -
  have "attached_ids c (pod # pods) = attached_ids c pods \<union> (pod_volume_ids c pod - attached_ids c pods)" by (auto simp: attached_ids_def)
  then show ?thesis using card_Un_disjoint[of "attached_ids c pods" "pod_volume_ids c pod - attached_ids c pods"] by simp
qed

lemma sint_of_nat_small: "int n < 2 ^ 63 \<Longrightarrow> sint (of_nat n :: int64) = int n"
  by (simp add: signed_of_nat signed_take_bit_int_eq_self)

lemma MaxPD_predicate_result:
  fixes L :: k8s and attach :: bool
  assumes named: "list_all (claims_named c) (pod # ni_pods n)" and node: "maxVolumeFunc c (ni_node n) = Some m"
    and small: "int (card (attached_ids c (pod # ni_pods n))) < 2 ^ 63" and new: "pod_volume_ids c pod \<noteq> {}"
  defines "fits \<equiv> int (card (attached_ids c (pod # ni_pods n))) \<le> sint (attach_limit L attach c n m)"
  shows "MaxPD_predicate L attach balance c pod meta (Some n) cells = Some (Inr (fits, if fits then [] else [ErrMaxVolumeCountExceeded]),
    if fits \<and> balance then cells[TransientInfo n := \<lparr>AllocatableVolumesCount = attach_limit L attach c n m - of_nat (card (attached_ids c (ni_pods n))),
        RequestedVolumes = of_nat (card (pod_volume_ids c pod - attached_ids c (ni_pods n)))\<rparr>] else cells)"
proof -
  let ?E = "attached_ids c (ni_pods n)" and ?N = "pod_volume_ids c pod"
  obtain vs where vs: "filterVolumes c (pod_Volumes pod) (pod_Namespace pod) {||} = Inr vs" "fset vs = ?N"
    using pod_filterVolumes[of c pod "{||}"] named by auto
  obtain es where es: "existing_volumes c (ni_pods n) {||} = Inr es" "fset es = ?E"
    using existing_volumes_ids[of c "ni_pods n" "{||}"] named by auto
  note tot = card_attached_Cons[of c pod "ni_pods n"]
  have cards: "fcard es = card ?E" "fcard (vs |-| es) = card (?N - ?E)" using vs(2) es(2) by (simp_all add: fcard.rep_eq)
  have "vs \<noteq> {||}" "pod_Volumes pod \<noteq> []" using vs(2) new by (auto simp: pod_volume_ids_def)
  moreover have "attach_limit L attach c n m <s of_nat (card ?E) + of_nat (card (?N - ?E)) \<longleftrightarrow> \<not> fits"
    using sint_of_nat_small[OF small[unfolded tot]] unfolding fits_def tot word_sless_alt by (simp add: not_le)
  ultimately show ?thesis
    using vs(1) es(1) node cards
    by (simp add: MaxPD_predicate_def NodeInfo_Pods_def NodeInfo_Node_def node_volume_limits_def attach_limit_def[symmetric] Let_def)
qed

text \<open>The limits of a checker as they are documented: what the environment variable says if it is a positive number, and otherwise a number for each type of volume, for EBS
  by the instance type of the node.\<close>

definition type_limit :: "volumeutil \<Rightarrow> string \<Rightarrow> Node \<Rightarrow> int64" where
  "type_limit V kind node = the (map_of [
     (''EBS'', if EBSNitroLimit_matches V (case map_of (node_Labels node) LabelInstanceType of Some v \<Rightarrow> v | None \<Rightarrow> []) then DefaultMaxEBSNitroVolumeLimit V else DefaultMaxEBSVolumes V),
     (''GCE'', 16), (''AzureDisk'', 16), (''Cinder'', DefaultMaxCinderVolumes V)] kind)"

definition default_limit :: "volumeutil \<Rightarrow> string \<Rightarrow> string \<Rightarrow> Node \<Rightarrow> int64" where
  "default_limit V rawMaxVols kind node = (case Atoi rawMaxVols of
     Some v \<Rightarrow> if 0 < sint v then v else type_limit V kind node
   | None \<Rightarrow> type_limit V kind node)"

definition limit_key :: "volumeutil \<Rightarrow> string \<Rightarrow> string" where
  "limit_key V kind = the (map_of [(''EBS'', EBSVolumeLimitKey V), (''GCE'', GCEVolumeLimitKey V), (''AzureDisk'', AzureVolumeLimitKey V), (''Cinder'', CinderVolumeLimitKey V)] kind)"

definition node_limit :: "k8s \<Rightarrow> bool \<Rightarrow> volumeutil \<Rightarrow> string \<Rightarrow> string \<Rightarrow> NodeInfo \<Rightarrow> Node \<Rightarrow> int64" where
  "node_limit L attach V rawMaxVols kind n node = (case fmlookup (VolumeLimits L n) (limit_key V kind) of
     Some limit \<Rightarrow> if attach then limit else default_limit V rawMaxVols kind node | None \<Rightarrow> default_limit V rawMaxVols kind node)"

lemma Atoi_Nil: "Atoi [] = None"
  by (simp add: Atoi_def)

lemma checker_limit:
  assumes "NewMaxPDVolumeCountPredicate V rawMaxVols random kind pvInfo pvcInfo = Some c"
  shows "maxVolumeFunc c (Some node) = Some (default_limit V rawMaxVols kind node)"
    "attach_limit L attach c n (default_limit V rawMaxVols kind node) = node_limit L attach V rawMaxVols kind n node"
proof -
  note kinds = EBSVolumeFilterType_def GCEPDVolumeFilterType_def AzureDiskVolumeFilterType_def CinderVolumeFilterType_def
  have k: "kind \<in> {''EBS'', ''GCE'', ''AzureDisk'', ''Cinder''}" and f: "maxVolumeFunc c = getMaxVolumeFunc V rawMaxVols kind" and key: "volumeLimitKey c = limit_key V kind"
    using assms by (auto simp: NewMaxPDVolumeCountPredicate_def Let_def limit_key_def kinds split: if_splits)
  have env: "getMaxVolLimitFromEnv rawMaxVols = (case Atoi rawMaxVols of Some v \<Rightarrow> if 0 < sint v then v else -1 | None \<Rightarrow> -1)"
    by (auto simp: getMaxVolLimitFromEnv_def Atoi_Nil word_sle_eq split: option.split)
  show "maxVolumeFunc c (Some node) = Some (default_limit V rawMaxVols kind node)"
    using k unfolding f getMaxVolumeFunc_def env default_limit_def
    by (auto simp: type_limit_def kinds getMaxEBSVolume_def DefaultMaxGCEPDVolumes_def DefaultMaxAzureDiskVolumes_def word_sless_alt Let_def split: option.split)
  show "attach_limit L attach c n (default_limit V rawMaxVols kind node) = node_limit L attach V rawMaxVols kind n node"
    by (simp add: attach_limit_def node_limit_def key)
qed

text \<open>
  C19. The limit on attached volumes, for a checker that \<open>NewMaxPDVolumeCountPredicate\<close> returns for EBS, GCE, Azure or Cinder, on a node whose object is known, when every claim of the pod and of the pods of the node has a
  name and there are fewer than \<open>2^63\<close> volumes. For a pod that brings volumes of the type, the predicate accepts the node exactly if, with the pod on it, the node has at most as many
  different volumes of the type as its limit: the one in its allocatable resources under the key of the type if the gate \<open>AttachVolumeLimit\<close> is on and it has one, otherwise the number in the environment
  variable if that is positive, otherwise the default of the type (16 for GCE and for Azure, for EBS by the instance type of the node, for Cinder that of the library). A volume that several pods share counts
  once. If the pod is accepted and the gate \<open>BalanceAttachedNodeVolumes\<close> is on, the transient info of the node gets the number of volumes that are left and of the new ones, which together with the attached ones are the volumes
  after the pod was added; otherwise no transient info changes. A pod without such volumes is accepted, and changes nothing.
\<close>

theorem volume_count_limit:
  assumes c: "NewMaxPDVolumeCountPredicate V rawMaxVols random kind pvInfo pvcInfo = Some c" and node: "ni_node n = Some node"
    and named: "list_all (claims_named c) (pod # ni_pods n)"
    and add: "NodeInfo_AddPod L n pod g = (n', g')" and small: "int (card (attached_ids c (ni_pods n'))) < 2 ^ 63"
  shows "\<exists>fits cells'. MaxPD_predicate L attach balance c pod meta (Some n) cells = Some (Inr (fits, if fits then [] else [ErrMaxVolumeCountExceeded]), cells') \<and>
    (if pod_volume_ids c pod = {} then fits \<and> cells' = cells
     else (fits \<longleftrightarrow> int (card (attached_ids c (ni_pods n'))) \<le> sint (node_limit L attach V rawMaxVols kind n node)) \<and>
       (if fits \<and> balance then TransientInfo n < length cells \<longrightarrow>
          AllocatableVolumesCount (cells' ! TransientInfo n) + of_nat (card (attached_ids c (ni_pods n))) = node_limit L attach V rawMaxVols kind n node \<and>
          of_nat (card (attached_ids c (ni_pods n))) + RequestedVolumes (cells' ! TransientInfo n) = of_nat (card (attached_ids c (ni_pods n')))
        else cells' = cells))"
proof (cases "pod_volume_ids c pod = {}")
  case True
  obtain vs where vs: "filterVolumes c (pod_Volumes pod) (pod_Namespace pod) {||} = Inr vs" "fset vs = {}"
    using pod_filterVolumes[of c pod "{||}"] named True by auto
  then have "MaxPD_predicate L attach balance c pod meta (Some n) cells = Some (Inr (True, []), cells)"
    using fset_inject[of vs "{||}"] by (simp add: MaxPD_predicate_def)
  then show ?thesis using True by (intro exI[of _ True] exI[of _ cells]) simp
next
  case False
  have ids: "attached_ids c (ni_pods n') = attached_ids c (pod # ni_pods n)"
    using NodeInfo_AddPod_facts(1)[OF add] by (auto simp: attached_ids_def)
  have m: "maxVolumeFunc c (ni_node n) = Some (default_limit V rawMaxVols kind node)" using checker_limit(1)[OF c] node by simp
  show ?thesis unfolding MaxPD_predicate_result[OF named m small[unfolded ids] False] checker_limit(2)[OF c]
    by (rule exI, rule exI, rule conjI, rule refl) (use False ids in \<open>simp add: card_attached_Cons\<close>)
qed

text \<open>A GCE node with 15 disks accepts one more disk, and not two.\<close>

definition example_volumeutil :: volumeutil where
  "example_volumeutil = \<lparr>EBSVolumeLimitKey = ''attachable-volumes-aws-ebs'', GCEVolumeLimitKey = ''attachable-volumes-gce-pd'', AzureVolumeLimitKey = ''attachable-volumes-azure-disk'',
     CinderVolumeLimitKey = ''attachable-volumes-cinder'', EBSNitroLimit_matches = (\<lambda>_. False), DefaultMaxEBSNitroVolumeLimit = 25, DefaultMaxEBSVolumes = 39, DefaultMaxCinderVolumes = 256,
     GetCSIAttachLimitKey = (\<lambda>d. ''attachable-volumes-csi-'' @ d), GetPersistentVolumeClaimClass = pvc_Class, LabelZonesToSet = (\<lambda>v. Inr [v])\<rparr>"

definition disk :: "nat \<Rightarrow> Volume" where
  "disk i = \<lparr>GCEPersistentDisk = Some (replicate i CHR ''d'', False), AWSElasticBlockStore = None, ISCSI = None, RBD = None, AzureDisk = None, Cinder = None, PersistentVolumeClaim = None\<rparr>"

definition disk_pod :: "nat list \<Rightarrow> Pod" where
  "disk_pod is = zero_Pod\<lparr>pod_Volumes := map disk is\<rparr>"

definition disk_node :: NodeInfo where
  "disk_node = (fst (NewNodeInfo example_k8s [disk_pod [1..<16]] \<lparr>generation = 0, transients = []\<rparr>))\<lparr>ni_node := Some zero_Node\<rparr>"

definition disk_checker :: MaxPDVolumeCountChecker where
  "disk_checker = the (NewMaxPDVolumeCountPredicate example_volumeutil [] ''r'' ''GCE'' (\<lambda>_. Inr None) (\<lambda>_ _. Inr None))"

lemma disk_checker_facts:
  "mp_filter disk_checker = GCEPDVolumeFilter" "maxVolumeFunc disk_checker (Some zero_Node) = Some 16"
  by (simp_all add: disk_checker_def NewMaxPDVolumeCountPredicate_def Let_def EBSVolumeFilterType_def GCEPDVolumeFilterType_def AzureDiskVolumeFilterType_def CinderVolumeFilterType_def
      getMaxVolumeFunc_def getMaxVolLimitFromEnv_def DefaultMaxGCEPDVolumes_def word_sless_alt)

lemma disk_entry: "volume_entry disk_checker ns (disk i) = Inr (Some (replicate i CHR ''d''))"
  by (simp add: volume_entry_def disk_checker_facts GCEPDVolumeFilter_def disk_def)

lemma disk_pod_facts: "claims_named disk_checker (disk_pod is)" "pod_volume_ids disk_checker (disk_pod is) = (\<lambda>i. replicate i CHR ''d'') ` set is"
  by (auto simp: claims_named_def disk_pod_def disk_entry pod_volume_ids_def list_all_iff)

lemma disk_node_facts: "ni_pods disk_node = [disk_pod [1..<16]]" "ni_node disk_node = Some zero_Node" "TransientInfo disk_node = 0"
  "node_limit example_k8s attach example_volumeutil [] ''GCE'' disk_node zero_Node = 16"
proof -
  obtain n g where n: "NewNodeInfo example_k8s [disk_pod [1..<16]] \<lparr>generation = 0, transients = []\<rparr> = (n, g)" by fastforce
  then show "ni_pods disk_node = [disk_pod [1..<16]]" "ni_node disk_node = Some zero_Node" using NewNodeInfo_facts(1)[OF n] by (simp_all add: disk_node_def)
  show "TransientInfo disk_node = 0" by code_simp
  have "fmlookup (VolumeLimits example_k8s disk_node) k = None" for k by (simp add: VolumeLimits_def example_k8s_def)
  then show "node_limit example_k8s attach example_volumeutil [] ''GCE'' disk_node zero_Node = 16" by (simp add: node_limit_def default_limit_def Atoi_Nil type_limit_def)
qed

lemma inj_replicate: "inj_on (\<lambda>i. replicate i x) A"
  by (rule inj_onI) (metis length_replicate)

theorem volume_count_limit_witness:
  "let cell = \<lparr>AllocatableVolumesCount = 0, RequestedVolumes = 0\<rparr> in
   (\<exists>cells. MaxPD_predicate example_k8s True True disk_checker (disk_pod [3, 16]) (None :: unit option) (Some disk_node) [cell] = Some (Inr (True, []), cells) \<and>
      AllocatableVolumesCount (cells ! 0) = 1 \<and> RequestedVolumes (cells ! 0) = 1) \<and>
   MaxPD_predicate example_k8s True True disk_checker (disk_pod [3, 16, 17]) (None :: unit option) (Some disk_node) [cell] = Some (Inr (False, [ErrMaxVolumeCountExceeded]), [cell])"
proof -
  let ?cells = "[\<lparr>AllocatableVolumesCount = 0, RequestedVolumes = 0\<rparr>]"
  have new: "NewMaxPDVolumeCountPredicate example_volumeutil [] ''r'' ''GCE'' (\<lambda>_. Inr None) (\<lambda>_ _. Inr None) = Some disk_checker"
    by (simp add: disk_checker_def NewMaxPDVolumeCountPredicate_def Let_def EBSVolumeFilterType_def GCEPDVolumeFilterType_def)
  have old: "card (attached_ids disk_checker (ni_pods disk_node)) = 15"
    by (simp add: disk_node_facts attached_ids_def disk_pod_facts card_image inj_replicate)
  have each: "\<exists>fits cells. MaxPD_predicate example_k8s True True disk_checker (disk_pod is) (None :: unit option) (Some disk_node) ?cells = Some (Inr (fits, if fits then [] else [ErrMaxVolumeCountExceeded]), cells) \<and>
      (fits \<longleftrightarrow> k \<le> 16) \<and> (if fits then AllocatableVolumesCount (cells ! 0) + 15 = 16 \<and> 15 + RequestedVolumes (cells ! 0) = of_nat k else cells = ?cells)"
    if "is \<noteq> []" "card (set is \<union> {1..<16}) = k" "k < 100" for "is" k
  proof -
    obtain n' g' where a: "NodeInfo_AddPod example_k8s disk_node (disk_pod is) \<lparr>generation = 0, transients = []\<rparr> = (n', g')" by fastforce
    have "attached_ids disk_checker (ni_pods n') = (\<lambda>i. replicate i CHR ''d'') ` (set is \<union> {1..<16})"
      using NodeInfo_AddPod_facts(1)[OF a] by (auto simp: disk_node_facts attached_ids_def disk_pod_facts)
    then have card: "card (attached_ids disk_checker (ni_pods n')) = k" using that(2) by (simp add: card_image inj_replicate)
    have named: "list_all (claims_named disk_checker) (disk_pod is # ni_pods disk_node)" by (simp add: disk_node_facts disk_pod_facts)
    have small: "int (card (attached_ids disk_checker (ni_pods n'))) < 2 ^ 63" using that(3) card by simp
    have some: "(pod_volume_ids disk_checker (disk_pod is) = {}) = False" "TransientInfo disk_node < length ?cells" using that(1) by (simp_all add: disk_pod_facts disk_node_facts)
    from volume_count_limit[OF new disk_node_facts(2) named a small, of True True None ?cells, unfolded some(1) if_False card old disk_node_facts(4)]
    obtain fits cells where r: "MaxPD_predicate example_k8s True True disk_checker (disk_pod is) (None :: unit option) (Some disk_node) ?cells =
        Some (Inr (fits, if fits then [] else [ErrMaxVolumeCountExceeded]), cells)" "fits \<longleftrightarrow> int k \<le> sint (16 :: int64)"
      "if fits \<and> True then TransientInfo disk_node < length ?cells \<longrightarrow>
         AllocatableVolumesCount (cells ! TransientInfo disk_node) + of_nat 15 = 16 \<and> of_nat 15 + RequestedVolumes (cells ! TransientInfo disk_node) = of_nat k else cells = ?cells" by blast
    have "if fits then AllocatableVolumesCount (cells ! 0) + 15 = 16 \<and> 15 + RequestedVolumes (cells ! 0) = of_nat k else cells = ?cells"
      using r(3) some(2) unfolding disk_node_facts(3) by (cases fits) simp_all
    moreover have "fits \<longleftrightarrow> k \<le> 16" using r(2) by simp
    ultimately show ?thesis using r(1) by blast
  qed
  have word: "x + 15 = 16 \<Longrightarrow> x = 1" "15 + x = 16 \<Longrightarrow> x = 1" for x :: int64 by (simp_all add: algebra_simps eq_diff_eq[symmetric])
  have "card (set [3, 16] \<union> {1..<16::nat}) = 16" "card (set [3, 16, 17] \<union> {1..<16::nat}) = 17" by code_simp+
  then show ?thesis using each[of "[3, 16]" 16] each[of "[3, 16, 17]" 17] word unfolding Let_def by fastforce
qed

subsection \<open>The number of CSI volumes\<close>

definition csi_volume :: "volumeutil \<Rightarrow> CSIMaxVolumeLimitChecker \<Rightarrow> string \<Rightarrow> Volume \<Rightarrow> (string \<times> string) option" where
  "csi_volume V c namespace vol = Option.bind (PersistentVolumeClaim vol) (\<lambda>pvcName. case csi_pvcInfo c namespace pvcName of
     Inr (Some pvc) \<Rightarrow> if VolumeName pvc = [] then None
       else (case csi_pvInfo c (VolumeName pvc) of
           Inr (Some pv) \<Rightarrow> map_option (\<lambda>(driver, handle). (handle, GetCSIAttachLimitKey V driver)) (pv_CSI pv)
         | _ \<Rightarrow> None)
   | _ \<Rightarrow> None)"

text \<open>The handles of the CSI volumes of the pods with the keys of their limits.\<close>

definition csi_handles :: "volumeutil \<Rightarrow> CSIMaxVolumeLimitChecker \<Rightarrow> string \<Rightarrow> Volume list \<Rightarrow> (string \<times> string) set" where
  "csi_handles V c namespace vols = {hk. \<exists>vol \<in> set vols. csi_volume V c namespace vol = Some hk}"

definition pods_handles :: "volumeutil \<Rightarrow> CSIMaxVolumeLimitChecker \<Rightarrow> Pod list \<Rightarrow> (string \<times> string) set" where
  "pods_handles V c pods = (\<Union>pod \<in> set pods. csi_handles V c (pod_Namespace pod) (pod_Volumes pod))"

definition graph_of :: "('a, 'b) fmap \<Rightarrow> ('a \<times> 'b) set" where
  "graph_of m = {(k, v). fmlookup m k = Some v}"

lemma graph_of_fmupd: "graph_of (fmupd k v m) = insert (k, v) {(k', v') \<in> graph_of m. k' \<noteq> k}"
  by (auto simp: graph_of_def split: if_splits)

lemma csi_handles_Cons: "csi_handles V c ns (vol # vols) = set_option (csi_volume V c ns vol) \<union> csi_handles V c ns vols"
  by (auto simp: csi_handles_def)

lemma filterAttachable_step:
  assumes "filterAttachableVolumes V c (vol # vols) ns acc = Some (Inr m)"
  shows "filterAttachableVolumes V c vols ns (case csi_volume V c ns vol of None \<Rightarrow> acc | Some (h, k) \<Rightarrow> fmupd h k acc) = Some (Inr m)"
proof (cases "PersistentVolumeClaim vol")
  case (Some pvcName)
  then show ?thesis using assms
    by (cases "csi_pvcInfo c ns pvcName") (auto simp: csi_volume_def split: option.splits sum.splits if_splits)
qed (use assms in \<open>simp add: csi_volume_def\<close>)

lemma filterAttachable_graph:
  assumes "filterAttachableVolumes V c vols ns acc = Some (Inr m)" "single_valued (graph_of acc \<union> csi_handles V c ns vols)"
  shows "graph_of m = graph_of acc \<union> csi_handles V c ns vols"
  using assms
proof (induction vols arbitrary: acc)
  case (Cons vol vols)
  let ?acc = "case csi_volume V c ns vol of None \<Rightarrow> acc | Some (h, k) \<Rightarrow> fmupd h k acc"
  have g: "graph_of ?acc = graph_of acc \<union> set_option (csi_volume V c ns vol)"
  proof (cases "csi_volume V c ns vol")
    case (Some hk)
    obtain h k where "hk = (h, k)" by fastforce
    then show ?thesis using Cons.prems(2) Some by (auto simp: graph_of_fmupd csi_handles_Cons single_valued_def)
  qed simp
  then have u: "graph_of ?acc \<union> csi_handles V c ns vols = graph_of acc \<union> csi_handles V c ns (vol # vols)" by (simp add: csi_handles_Cons Un_assoc)
  show ?case using Cons.IH[OF filterAttachable_step[OF Cons.prems(1)]] Cons.prems(2) u by simp
qed (simp add: csi_handles_def)

lemma attached_volumes_graph:
  assumes "attached_volumes V c pods acc = Some (Inr m)" "single_valued (graph_of acc \<union> pods_handles V c pods)"
  shows "graph_of m = graph_of acc \<union> pods_handles V c pods"
  using assms
proof (induction pods arbitrary: acc)
  case (Cons p pods)
  then obtain vs where vs: "filterAttachableVolumes V c (pod_Volumes p) (pod_Namespace p) acc = Some (Inr vs)" "attached_volumes V c pods vs = Some (Inr m)"
    by (auto split: option.splits sum.splits)
  have "graph_of vs = graph_of acc \<union> csi_handles V c (pod_Namespace p) (pod_Volumes p)"
    by (rule filterAttachable_graph[OF vs(1)], rule single_valued_subset[OF _ Cons.prems(2)]) (auto simp: pods_handles_def)
  then show ?case using Cons.IH[OF vs(2)] Cons.prems(2) by (simp add: pods_handles_def Un_assoc)
qed (simp add: pods_handles_def)

lemma graph_of_empty [simp]: "graph_of fmempty = {}"
  by (simp add: graph_of_def)

lemma volume_count_graph: "volume_count m key = card {h. (h, key) \<in> graph_of m}"
proof -
  have "fset (fmdom (fmfilter (\<lambda>v. fmlookup m v = Some key) m)) = {h. (h, key) \<in> graph_of m}" by (auto simp: graph_of_def fmlookup_dom_iff)
  then show ?thesis by (simp add: volume_count_def fcard.rep_eq)
qed

lemma finite_graph: "finite {h. (h, key) \<in> graph_of m}"
proof -
  have "{h. (h, key) \<in> graph_of m} \<subseteq> fset (fmdom m)" by (auto simp: graph_of_def fmlookup_dom_iff)
  then show ?thesis by (rule finite_subset) simp
qed

lemma graph_of_fmdrop: "graph_of (fmdrop_fset (fmdom a) m) = {(h, k) \<in> graph_of m. h \<notin> Domain (graph_of a)}"
  by (auto simp: graph_of_def fmlookup_dom_iff split: if_splits)

lemma exceeds_limit_graph:
  assumes "single_valued (graph_of a \<union> graph_of m)" "int (card {h. (h, key) \<in> graph_of a \<union> graph_of m}) < 2 ^ 63" "fmlookup limits key = Some limit"
  shows "exceeds_limit limits a (fmdrop_fset (fmdom a) m) key \<longleftrightarrow> sint limit < int (card {h. (h, key) \<in> graph_of a \<union> graph_of m})"
proof -
  let ?N = "{h. (h, key) \<in> graph_of (fmdrop_fset (fmdom a) m)}" and ?A = "{h. (h, key) \<in> graph_of a}"
  have "{h. (h, key) \<in> graph_of a \<union> graph_of m} = ?A \<union> ?N" "?A \<inter> ?N = {}"
    using assms(1) by (auto simp: graph_of_fmdrop single_valued_def)
  then have tot: "card {h. (h, key) \<in> graph_of a \<union> graph_of m} = card ?A + card ?N" by (simp add: card_Un_disjoint finite_graph)
  show ?thesis using sint_of_nat_small[OF assms(2)[unfolded tot]] assms(3)
    unfolding tot exceeds_limit_def volume_count_graph word_sless_alt by simp
qed

text \<open>
  The limit on CSI volumes. If a volume handle belongs to one driver only, the predicate accepts the pod exactly if, for every limit of the node for which the pod brings a new volume,
  the node with the pod has at most that many volumes with the key of the limit.
\<close>

theorem csi_volume_limit:
  assumes r: "attachableLimitPredicate L V True c pod meta (Some n) = Some (Inr (fits, reasons))"
    and one: "single_valued (pods_handles V c (pod # ni_pods n))" and small: "\<And>key. int (card {h. (h, key) \<in> pods_handles V c (pod # ni_pods n)}) < 2 ^ 63"
  shows "fits \<longleftrightarrow> (\<forall>h key limit. (h, key) \<in> pods_handles V c [pod] \<and> h \<notin> Domain (pods_handles V c (ni_pods n)) \<and> fmlookup (VolumeLimits L n) key = Some limit \<longrightarrow>
    int (card {h. (h, key) \<in> pods_handles V c (pod # ni_pods n)}) \<le> sint limit)"
proof -
  have split: "pods_handles V c (pod # ni_pods n) = pods_handles V c (ni_pods n) \<union> pods_handles V c [pod]" by (auto simp: pods_handles_def)
  consider (quick) "fits" "VolumeLimits L n = fmempty \<or> pods_handles V c [pod] = {}"
    | (counted) m a where "pods_handles V c [pod] = graph_of m" "pods_handles V c (ni_pods n) = graph_of a"
        "fits \<longleftrightarrow> \<not> fBex (fmran (fmdrop_fset (fmdom a) m)) (exceeds_limit (VolumeLimits L n) a (fmdrop_fset (fmdom a) m))"
  proof (cases "pod_Volumes pod = [] \<or> VolumeLimits L n = fmempty")
    case True
    then show ?thesis using r by (intro quick) (auto simp: attachableLimitPredicate_def node_volume_limits_def pods_handles_def csi_handles_def split: if_splits)
  next
    case False
    then obtain m where m: "filterAttachableVolumes V c (pod_Volumes pod) (pod_Namespace pod) fmempty = Some (Inr m)"
      using r by (auto simp: attachableLimitPredicate_def node_volume_limits_def Let_def split: option.splits sum.splits if_splits)
    have "single_valued (pods_handles V c [pod])" by (rule single_valued_subset[OF _ one]) (simp add: split)
    then have g: "pods_handles V c [pod] = graph_of m" using filterAttachable_graph[OF m] by (simp add: pods_handles_def)
    show ?thesis
    proof (cases "m = fmempty")
      case True
      then show ?thesis using r False m g by (intro quick) (auto simp: attachableLimitPredicate_def node_volume_limits_def)
    next
      case nonempty: False
      then obtain a where a: "attached_volumes V c (ni_pods n) fmempty = Some (Inr a)"
          "fits \<longleftrightarrow> \<not> fBex (fmran (fmdrop_fset (fmdom a) m)) (exceeds_limit (VolumeLimits L n) a (fmdrop_fset (fmdom a) m))"
        using r False m by (auto simp: attachableLimitPredicate_def node_volume_limits_def NodeInfo_Pods_def Let_def split: option.splits sum.splits if_splits)
      have "single_valued (pods_handles V c (ni_pods n))" by (rule single_valued_subset[OF _ one]) (simp add: split)
      then show ?thesis using counted[OF g _ a(2)] attached_volumes_graph[OF a(1)] by simp
    qed
  qed
  then show ?thesis
  proof cases
    case quick
    then show ?thesis by auto
  next
    case (counted m a)
    have ex: "exceeds_limit (VolumeLimits L n) a (fmdrop_fset (fmdom a) m) key \<longleftrightarrow>
        (\<exists>limit. fmlookup (VolumeLimits L n) key = Some limit \<and> sint limit < int (card {h. (h, key) \<in> pods_handles V c (pod # ni_pods n)}))" for key
      using exceeds_limit_graph[of a m key "VolumeLimits L n"] one small[of key] counted(1,2) split
      by (cases "fmlookup (VolumeLimits L n) key") (simp_all add: exceeds_limit_def)
    have "key |\<in>| fmran (fmdrop_fset (fmdom a) m) \<longleftrightarrow> (\<exists>h. (h, key) \<in> pods_handles V c [pod] \<and> h \<notin> Domain (pods_handles V c (ni_pods n)))" for key
      unfolding counted(1,2) fmlookup_ran_iff using graph_of_fmdrop[of a m] by (auto simp: graph_of_def)
    then show ?thesis unfolding counted(3) ex by (auto simp: not_less)
  qed
qed

text \<open>
  Handles are only unique for a driver. If another driver already has a volume of the same handle on the node, the new volume is not counted, and a node takes
  more volumes of a driver than its limit.
\<close>

definition csi_claims :: CSIMaxVolumeLimitChecker where
  "csi_claims = \<lparr>csi_pvInfo = (\<lambda>name. Inr (Some \<lparr>pv_Labels = [], pv_GCEPersistentDisk = None, pv_AWSElasticBlockStore = None, pv_AzureDisk = None, pv_Cinder = None,
       pv_CSI = Some (take 1 name, drop 1 name)\<rparr>)),
     csi_pvcInfo = (\<lambda>_ name. Inr (Some \<lparr>VolumeName = name, pvc_Class = []\<rparr>))\<rparr>"

definition claim_pod :: "string \<Rightarrow> Pod" where
  "claim_pod name = zero_Pod\<lparr>pod_Volumes := [\<lparr>GCEPersistentDisk = None, AWSElasticBlockStore = None, ISCSI = None, RBD = None, AzureDisk = None, Cinder = None, PersistentVolumeClaim = Some name\<rparr>]\<rparr>"

lemma csi_handle_shared:
  assumes "ni_pods n = [claim_pod ''a1'', claim_pod ''b2'']" "VolumeLimits L n = fmap_of_list [(''attachable-volumes-csi-b'', 1)]"
  shows "attachableLimitPredicate L example_volumeutil True csi_claims (claim_pod ''b1'') meta (Some n) = Some (Inr (True, []))"
    and "{''1'', ''2''} \<subseteq> {h. (h, ''attachable-volumes-csi-b'') \<in> pods_handles example_volumeutil csi_claims (claim_pod ''b1'' # ni_pods n)}"
proof -
  have f: "filterAttachableVolumes example_volumeutil csi_claims (pod_Volumes (claim_pod ''b1'')) (pod_Namespace (claim_pod ''b1'')) fmempty =
      Some (Inr (fmupd ''1'' ''attachable-volumes-csi-b'' fmempty))"
    by (simp add: claim_pod_def csi_claims_def example_volumeutil_def)
  have a: "attached_volumes example_volumeutil csi_claims (ni_pods n) fmempty =
      Some (Inr (fmupd ''2'' ''attachable-volumes-csi-b'' (fmupd ''1'' ''attachable-volumes-csi-a'' fmempty)))"
    by (simp add: assms claim_pod_def csi_claims_def example_volumeutil_def zero_Pod_def)
  have d: "fmdrop_fset (fmdom (fmupd ''2'' ''attachable-volumes-csi-b'' (fmupd ''1'' ''attachable-volumes-csi-a'' fmempty))) (fmupd ''1'' ''attachable-volumes-csi-b'' fmempty) = fmempty"
    by (rule fmap_ext) simp
  show "attachableLimitPredicate L example_volumeutil True csi_claims (claim_pod ''b1'') meta (Some n) = Some (Inr (True, []))"
    unfolding attachableLimitPredicate_def f Let_def NodeInfo_Pods_def option.case a sum.case d by (simp add: claim_pod_def)
  show "{''1'', ''2''} \<subseteq> {h. (h, ''attachable-volumes-csi-b'') \<in> pods_handles example_volumeutil csi_claims (claim_pod ''b1'' # ni_pods n)}"
    by (simp add: assms(1) pods_handles_def csi_handles_def csi_volume_def claim_pod_def csi_claims_def example_volumeutil_def)
qed

subsection \<open>Zones\<close>

lemma volumes_zones_iff:
  "volumes_zones V c ncs ns vols = Inr (fits, reasons) \<Longrightarrow> (fits \<longleftrightarrow> reasons = []) \<and>
   (fits \<longleftrightarrow> (\<forall>vol \<in> set vols. \<forall>pvcName. PersistentVolumeClaim vol = Some pvcName \<longrightarrow> claim_zones V c ncs ns pvcName = Inr True))"
  by (induction vols) (auto split: verdict_splits)

text \<open>
  A node with zone labels is accepted only if every zone label of a volume that the pod's claims are bound to, and that can be parsed, admits the value of the node.
\<close>

theorem volume_zones_agree:
  assumes "VolumeZone_predicate V c pod meta info = Inr (True, reasons)" "NodeInfo_Node info = Some node" "zone_labels (node_Labels node) \<noteq> []"
    and "vol \<in> set (pod_Volumes pod)" "PersistentVolumeClaim vol = Some pvcName" "vz_pvcInfo c (pod_Namespace pod) pvcName = Inr (Some pvc)" "VolumeName pvc \<noteq> []"
  shows "\<exists>pv. vz_pvInfo c (VolumeName pvc) = Inr (Some pv) \<and>
    (\<forall>(k, v) \<in> set (pv_Labels pv). k \<in> {LabelZoneFailureDomain, LabelZoneRegion} \<longrightarrow>
       (\<forall>zones. LabelZonesToSet V v = Inr zones \<longrightarrow> (case map_of (zone_labels (node_Labels node)) k of Some x \<Rightarrow> x | None \<Rightarrow> []) \<in> set zones))"
proof -
  have "pod_Volumes pod \<noteq> []" using assms(4) by auto
  then have "volumes_zones V c (zone_labels (node_Labels node)) (pod_Namespace pod) (pod_Volumes pod) = Inr (True, reasons)"
    using assms(1-3) by (simp add: VolumeZone_predicate_def Let_def)
  then have "claim_zones V c (zone_labels (node_Labels node)) (pod_Namespace pod) pvcName = Inr True" using volumes_zones_iff assms(4,5) by blast
  then obtain pv where "vz_pvInfo c (VolumeName pvc) = Inr (Some pv)" "list_all (zone_agrees V (zone_labels (node_Labels node))) (zone_labels (pv_Labels pv))"
    using assms(6,7) by (auto simp: claim_zones_def split: if_splits sum.splits option.splits)
  then show ?thesis by (force simp: list_all_iff zone_labels_def zone_agrees_def Let_def)
qed

subsection \<open>The contract of a predicate\<close>

text \<open>As a predicate of the algorithm, a panic counted as an error.\<close>

definition max_volumes :: "k8s \<Rightarrow> bool \<Rightarrow> bool \<Rightarrow> MaxPDVolumeCountChecker \<Rightarrow> nodeTransientInfo list \<Rightarrow> 'm FitPredicate" where
  "max_volumes L attach balance c cells pod meta info = (case MaxPD_predicate L attach balance c pod meta info cells of Some (r, _) \<Rightarrow> r | None \<Rightarrow> Inl ''panic'')"

definition max_csi_volumes :: "k8s \<Rightarrow> volumeutil \<Rightarrow> bool \<Rightarrow> CSIMaxVolumeLimitChecker \<Rightarrow> 'm FitPredicate" where
  "max_csi_volumes L V attach c pod meta info = (case attachableLimitPredicate L V attach c pod meta info of Some r \<Rightarrow> r | None \<Rightarrow> Inl ''panic'')"

interpretation max_pd: fit_predicate "max_volumes L attach balance c cells" for L attach balance c cells
  by unfold_locales (auto simp: max_volumes_def MaxPD_predicate_def Let_def split: verdict_splits)

interpretation max_csi: fit_predicate "max_csi_volumes L V attach c" for L V attach c
  by unfold_locales (auto simp: max_csi_volumes_def attachableLimitPredicate_def Let_def split: verdict_splits)

interpretation volume_zone: fit_predicate "VolumeZone_predicate V c" for V c
  by unfold_locales (auto simp: VolumeZone_predicate_def node_not_found_def Let_def dest: volumes_zones_iff split: verdict_splits)

lemma MaxPD_predicate_no_panic:
  assumes "NodeInfo_Node info = Some node" "NewMaxPDVolumeCountPredicate V raw random name pvInfo pvcInfo = Some c"
  shows "MaxPD_predicate L attach balance c pod meta info cells \<noteq> None"
proof -
  have "maxVolumeFunc c = getMaxVolumeFunc V raw name" using assms(2) by (auto simp: NewMaxPDVolumeCountPredicate_def Let_def split: if_splits)
  then have "maxVolumeFunc c (NodeInfo_Node info) \<noteq> None" using assms(1) by (simp add: getMaxVolumeFunc_def Let_def)
  then show ?thesis unfolding MaxPD_predicate_def by (auto split: sum.splits)
qed

end
