(* ===== verification/Http_Extender.thy ===== *)
theory Http_Extender
  imports Preemption Priorities
begin

text \<open>
  The extender over HTTP, \<open>core/extender.go\<close>, the choice of a binder in \<open>factory/factory.go\<close>, and the validation of a policy in
  \<open>api/validation/validation.go\<close>. The server behind \<open>send\<close> is the record \<open>extender_server\<close>: for the URL and the arguments of each kind of call, an error of the
  transport or of the encoding, or the decoded answer, in which pointers are not null. A panic is \<open>None\<close>.
\<close>

subsection \<open>Messages and configuration\<close>

record MetaVictims =
  mv_Pods :: "string list"
  mv_NumPDBViolations :: int64

record ExtenderPreemptionArgs =
  epa_Pod :: Pod
  NodeNameToVictims :: "(string, Victims) fmap"
  NodeNameToMetaVictims :: "(string, MetaVictims) fmap"

record ExtenderArgs =
  ea_Pod :: Pod
  ea_Nodes :: "Node list option"
  ea_NodeNames :: "string list option"

record ExtenderFilterResult =
  efr_Nodes :: "Node list option"
  efr_NodeNames :: "string list option"
  FailedNodes :: "(string \<times> string) list"
  efr_Error :: string

record ExtenderBindingArgs =
  eba_PodName :: string
  eba_PodNamespace :: string
  eba_PodUID :: string
  eba_Node :: string

record extender_server =
  post_preempt :: "string \<Rightarrow> ExtenderPreemptionArgs \<Rightarrow> string + (string, MetaVictims) fmap"
  post_filter :: "string \<Rightarrow> ExtenderArgs \<Rightarrow> string + ExtenderFilterResult"
  post_prioritize :: "string \<Rightarrow> ExtenderArgs \<Rightarrow> string + HostPriority list"
  post_bind :: "string \<Rightarrow> ExtenderBindingArgs \<Rightarrow> string + string"

record ExtenderManagedResource =
  emr_Name :: string
  IgnoredByScheduler :: bool

record ExtenderConfig =
  URLPrefix :: string
  FilterVerb :: string
  PreemptVerb :: string
  PrioritizeVerb :: string
  ec_Weight :: int64
  BindVerb :: string
  NodeCacheCapable :: bool
  ManagedResources :: "ExtenderManagedResource list"
  ec_Ignorable :: bool

record HTTPExtender =
  extenderURL :: string
  preemptVerb :: string
  filterVerb :: string
  prioritizeVerb :: string
  bindVerb :: string
  he_weight :: int64
  nodeCacheCapable :: bool
  managedResources :: "string fset"
  ignorable :: bool

text \<open>The HTTP client is built from the TLS configuration and the timeout; \<open>transport\<close> is the error of that, if any.\<close>

definition NewHTTPExtender :: "string option \<Rightarrow> ExtenderConfig \<Rightarrow> string + HTTPExtender" where
  "NewHTTPExtender transport config = (case transport of
     Some err \<Rightarrow> Inl err
   | None \<Rightarrow> Inr \<lparr>extenderURL = URLPrefix config, preemptVerb = PreemptVerb config, filterVerb = FilterVerb config, prioritizeVerb = PrioritizeVerb config,
       bindVerb = BindVerb config, he_weight = ec_Weight config, nodeCacheCapable = NodeCacheCapable config,
       managedResources = fset_of_list (map emr_Name (ManagedResources config)), ignorable = ec_Ignorable config\<rparr>)"

definition http_IsIgnorable :: "HTTPExtender \<Rightarrow> bool" where
  "http_IsIgnorable h = ignorable h"

definition http_SupportsPreemption :: "HTTPExtender \<Rightarrow> bool" where
  "http_SupportsPreemption h \<longleftrightarrow> length (preemptVerb h) > 0"

definition send_url :: "HTTPExtender \<Rightarrow> string \<Rightarrow> string" where
  "send_url h action = rev (dropWhile (\<lambda>c. c = CHR ''/'') (rev (extenderURL h))) @ ''/'' @ action"

subsection \<open>Preemption\<close>

definition convertToNodeNameToMetaVictims :: "victims_map \<Rightarrow> (string, MetaVictims) fmap" where
  "convertToNodeNameToMetaVictims nodeToVictims = foldl (\<lambda>m (node, victims).
     fmupd (node_Name node) \<lparr>mv_Pods = map pod_UID (vi_Pods victims), mv_NumPDBViolations = 0\<rparr> m) fmempty nodeToVictims"

definition convertToNodeNameToVictims :: "victims_map \<Rightarrow> (string, Victims) fmap" where
  "convertToNodeNameToVictims nodeToVictims = foldl (\<lambda>m (node, victims). fmupd (node_Name node) victims m) fmempty nodeToVictims"

text \<open>Both messages of \<open>convertPodUIDToPod\<close> read the name of the node. Where the node is not in the map, the variable that is read is nil.\<close>

definition convertPodUIDToPod :: "HTTPExtender \<Rightarrow> string \<Rightarrow> string \<Rightarrow> node_info_map \<Rightarrow> (string + Pod) option" where
  "convertPodUIDToPod h uid nodeName nodeNameToInfo = (case fmlookup nodeNameToInfo nodeName of
     None \<Rightarrow> None
   | Some nodeInfo \<Rightarrow> (case List.find (\<lambda>pod. pod_UID pod = uid) (ni_pods nodeInfo) of
       Some pod \<Rightarrow> Some (Inr pod)
     | None \<Rightarrow> (case ni_node nodeInfo of
         None \<Rightarrow> None
       | Some _ \<Rightarrow> Some (Inl ''the pod is not found on that node''))))"

fun convert_pods :: "HTTPExtender \<Rightarrow> string \<Rightarrow> node_info_map \<Rightarrow> string list \<Rightarrow> (string + Pod list) option" where
  "convert_pods h nodeName infos [] = Some (Inr [])"
| "convert_pods h nodeName infos (uid # uids) = (case convertPodUIDToPod h uid nodeName infos of
     None \<Rightarrow> None
   | Some (Inl err) \<Rightarrow> Some (Inl err)
   | Some (Inr pod) \<Rightarrow> (case convert_pods h nodeName infos uids of
       Some (Inr pods) \<Rightarrow> Some (Inr (pod # pods))
     | r \<Rightarrow> r))"

text \<open>The keys of the result are node pointers, of which the nil pointer can occur several times.\<close>

definition put_victims :: "Node option \<Rightarrow> Victims \<Rightarrow> (Node option \<times> Victims) list \<Rightarrow> (Node option \<times> Victims) list" where
  "put_victims node victims m = (if node = None then filter (\<lambda>(n, v). n \<noteq> None) m else m) @ [(node, victims)]"

text \<open>The loop over the map, whose keys are visited in the order \<open>ord\<close>.\<close>

fun convert_nodes :: "HTTPExtender \<Rightarrow> (string, MetaVictims) fmap \<Rightarrow> node_info_map \<Rightarrow> string list \<Rightarrow> (Node option \<times> Victims) list \<Rightarrow>
    (string + (Node option \<times> Victims) list) option" where
  "convert_nodes h metaVictims infos [] result = Some (Inr result)"
| "convert_nodes h metaVictims infos (nodeName # ord) result = (case fmlookup metaVictims nodeName of
     None \<Rightarrow> convert_nodes h metaVictims infos ord result
   | Some meta \<Rightarrow> (case convert_pods h nodeName infos (mv_Pods meta) of
       None \<Rightarrow> None
     | Some (Inl err) \<Rightarrow> Some (Inl err)
     | Some (Inr pods) \<Rightarrow>
         convert_nodes h metaVictims infos ord
           (put_victims (NodeInfo_Node (fmlookup infos nodeName)) \<lparr>vi_Pods = pods, NumPDBViolations = 0\<rparr> result)))"

definition convertToNodeToVictims :: "HTTPExtender \<Rightarrow> string list \<Rightarrow> (string, MetaVictims) fmap \<Rightarrow> node_info_map \<Rightarrow> (string + (Node option \<times> Victims) list) option" where
  "convertToNodeToVictims h ord nodeNameToMetaVictims nodeNameToInfo = convert_nodes h nodeNameToMetaVictims nodeNameToInfo ord []"

definition http_ProcessPreemption ::
  "extender_server \<Rightarrow> HTTPExtender \<Rightarrow> string list \<Rightarrow> Pod \<Rightarrow> victims_map \<Rightarrow> node_info_map \<Rightarrow> (string + (Node option \<times> Victims) list) option" where
  "http_ProcessPreemption srv h ord pod nodeToVictims nodeNameToInfo =
     (if \<not> http_SupportsPreemption h then Some (Inl ''preempt verb is not defined'')
      else
        (let args = (if nodeCacheCapable h
               then \<lparr>epa_Pod = pod, NodeNameToVictims = fmempty, NodeNameToMetaVictims = convertToNodeNameToMetaVictims nodeToVictims\<rparr>
               else \<lparr>epa_Pod = pod, NodeNameToVictims = convertToNodeNameToVictims nodeToVictims, NodeNameToMetaVictims = fmempty\<rparr>)
         in case post_preempt srv (send_url h (preemptVerb h)) args of
              Inl err \<Rightarrow> Some (Inl err)
            | Inr result \<Rightarrow> convertToNodeToVictims h ord result nodeNameToInfo))"

subsection \<open>Filtering, scoring and binding\<close>

text \<open>The arguments of \<open>Filter\<close> and \<open>Prioritize\<close>: names or nodes. A nil node panics.\<close>

definition extender_args :: "HTTPExtender \<Rightarrow> Pod \<Rightarrow> Node option list \<Rightarrow> ExtenderArgs option" where
  "extender_args h pod nodeList = map_option (\<lambda>ns.
     if nodeCacheCapable h then \<lparr>ea_Pod = pod, ea_Nodes = None, ea_NodeNames = Some (map node_Name ns)\<rparr>
     else \<lparr>ea_Pod = pod, ea_Nodes = Some ns, ea_NodeNames = None\<rparr>) (those nodeList)"

definition http_Filter ::
  "extender_server \<Rightarrow> HTTPExtender \<Rightarrow> Pod \<Rightarrow> Node option list \<Rightarrow> node_info_map \<Rightarrow> (string + Node option list \<times> (string \<times> string) list) option" where
  "http_Filter srv h pod nodeList nodeNameToInfo =
     (if filterVerb h = [] then Some (Inr (nodeList, []))
      else map_option (\<lambda>args. case post_filter srv (send_url h (filterVerb h)) args of
          Inl err \<Rightarrow> Inl err
        | Inr result \<Rightarrow>
            if efr_Error result \<noteq> [] then Inl (efr_Error result)
            else Inr (case (nodeCacheCapable h, efr_NodeNames result, efr_Nodes result) of
                (True, Some nodeNames, _) \<Rightarrow> map (\<lambda>name. NodeInfo_Node (fmlookup nodeNameToInfo name)) nodeNames
              | (_, _, Some nodeItems) \<Rightarrow> map Some nodeItems
              | _ \<Rightarrow> [], FailedNodes result)) (extender_args h pod nodeList))"

definition http_Prioritize :: "extender_server \<Rightarrow> HTTPExtender \<Rightarrow> Pod \<Rightarrow> Node list \<Rightarrow> (string + HostPriority list \<times> int64) option" where
  "http_Prioritize srv h pod nodeList =
     (if prioritizeVerb h = [] then Some (Inr (map (\<lambda>node. \<lparr>Host = node_Name node, Score = 0\<rparr>) nodeList, 0))
      else map_option (\<lambda>args. case post_prioritize srv (send_url h (prioritizeVerb h)) args of
          Inl err \<Rightarrow> Inl err
        | Inr result \<Rightarrow> Inr (result, he_weight h)) (extender_args h pod (map Some nodeList)))"

definition IsBinder :: "HTTPExtender \<Rightarrow> bool" where
  "IsBinder h \<longleftrightarrow> bindVerb h \<noteq> []"

text \<open>\<open>None\<close> is success here.\<close>

definition http_Bind :: "extender_server \<Rightarrow> HTTPExtender \<Rightarrow> ExtenderBindingArgs \<Rightarrow> string option" where
  "http_Bind srv h req =
     (if \<not> IsBinder h then Some ''Unexpected empty bindVerb in extender''
      else case post_bind srv (send_url h (bindVerb h)) req of
        Inl err \<Rightarrow> Some err
      | Inr err \<Rightarrow> if err \<noteq> [] then Some err else None)"

definition hasManagedResources :: "HTTPExtender \<Rightarrow> Container list \<Rightarrow> bool" where
  "hasManagedResources h containers = list_ex (\<lambda>container.
     list_ex (\<lambda>(resourceName, q). resourceName |\<in>| managedResources h) (Requests container) \<or>
     list_ex (\<lambda>(resourceName, q). resourceName |\<in>| managedResources h) (Limits container)) containers"

definition http_IsInterested :: "HTTPExtender \<Rightarrow> Pod \<Rightarrow> bool" where
  "http_IsInterested h pod \<longleftrightarrow>
     (if fcard (managedResources h) = 0 then True
      else if hasManagedResources h (pod_Containers pod) then True
      else if hasManagedResources h (pod_InitContainers pod) then True else False)"

text \<open>The binder of a pod: an extender, or the default binder (\<open>None\<close>).\<close>

definition getBinderFunc :: "HTTPExtender list \<Rightarrow> Pod \<Rightarrow> HTTPExtender option" where
  "getBinderFunc exts pod = (case List.find IsBinder exts of
     Some extenderBinder \<Rightarrow> if http_IsInterested extenderBinder pod then Some extenderBinder else None
   | None \<Rightarrow> None)"

subsection \<open>Validation of a policy\<close>

record PriorityPolicy =
  pp_Name :: string
  pp_Weight :: int64

record Policy =
  pol_Priorities :: "PriorityPolicy list"
  ExtenderConfigs :: "ExtenderConfig list"

text \<open>\<open>qualified\<close> is \<open>validation.IsQualifiedName\<close>, which returns messages.\<close>

definition validateExtendedResourceName :: "k8s \<Rightarrow> (string \<Rightarrow> string list) \<Rightarrow> string \<Rightarrow> string list" where
  "validateExtendedResourceName L qualified name =
     (if qualified name \<noteq> [] then qualified name
      else if \<not> IsExtendedResourceName L name then [name @ '' is an invalid extended resource name'']
      else [])"

fun resource_errors :: "k8s \<Rightarrow> (string \<Rightarrow> string list) \<Rightarrow> ExtenderManagedResource list \<Rightarrow> string list \<times> string fset \<Rightarrow> string list \<times> string fset" where
  "resource_errors L qualified [] (errs, seen) = (errs, seen)"
| "resource_errors L qualified (resource # resources) (errs, seen) =
     (let name = emr_Name resource
      in resource_errors L qualified resources
           (errs @ validateExtendedResourceName L qualified name @ (if name |\<in>| seen then [''Duplicate extender managed resource name '' @ name] else []),
            finsert name seen))"

fun extender_errors :: "k8s \<Rightarrow> (string \<Rightarrow> string list) \<Rightarrow> ExtenderConfig list \<Rightarrow> nat \<Rightarrow> string list \<times> string fset \<Rightarrow> nat \<times> string list" where
  "extender_errors L qualified [] binders (errs, seen) = (binders, errs)"
| "extender_errors L qualified (extender # exts) binders (errs, seen) =
     extender_errors L qualified exts (if BindVerb extender \<noteq> [] then binders + 1 else binders)
       (resource_errors L qualified (ManagedResources extender)
         (errs @ (if length (PrioritizeVerb extender) > 0 \<and> ec_Weight extender \<le>s 0 then [''Priority for extender '' @ URLPrefix extender @ '' should have a positive weight applied to it''] else []),
          seen))"

definition ValidatePolicy :: "k8s \<Rightarrow> (string \<Rightarrow> string list) \<Rightarrow> Policy \<Rightarrow> string list" where
  "ValidatePolicy L qualified policy =
     (let errs = List.map_filter (\<lambda>priority.
            if policy_weight_ok (pp_Weight priority) then None
            else Some (''Priority '' @ pp_Name priority @ '' should have a positive weight applied to it or it has overflown'')) (pol_Priorities policy);
          (binders, errs1) = extender_errors L qualified (ExtenderConfigs policy) 0 (errs, {||})
      in errs1 @ (if binders > 1 then [''Only one extender can implement bind''] else []))"

end
