(* ===== verification/Extender_Properties.thy ===== *)
theory Extender_Properties
  imports Http_Extender Preempt_Properties Priority_Properties
begin

text \<open>
  What the HTTP extender keeps of a preemption, which pods it is asked about, and what a validated policy guarantees.
\<close>

subsection \<open>Preemption through an extender\<close>

lemma fmlookup_foldl_upd:
  "distinct (map k xs) \<Longrightarrow> fmlookup (foldl (\<lambda>m e. fmupd (k e) (f e) m) m0 xs) key = (case map_of (map (\<lambda>e. (k e, f e)) xs) key of Some v \<Rightarrow> Some v | None \<Rightarrow> fmlookup m0 key)"
proof (induction xs arbitrary: m0)
  case (Cons x xs)
  then have "map_of (map (\<lambda>e. (k e, f e)) xs) (k x) = None" by (auto simp: map_of_eq_None_iff image_iff)
  then show ?case using Cons.IH[of "fmupd (k x) (f x) m0"] Cons.prems by (auto split: option.splits)
qed simp

lemma map_of_map_key: "distinct (map k xs) \<Longrightarrow> x \<in> set xs \<Longrightarrow> map_of (map (\<lambda>e. (k e, f e)) xs) (k x) = Some (f x)"
  by (induction xs) (auto, metis imageI)

lemma metaVictims_lookup:
  assumes "distinct (map (node_Name \<circ> fst) ntv)" "(node, v) \<in> set ntv"
  shows "fmlookup (convertToNodeNameToMetaVictims ntv) (node_Name node) = Some \<lparr>mv_Pods = map pod_UID (vi_Pods v), mv_NumPDBViolations = 0\<rparr>"
proof -
  let ?k = "\<lambda>e :: Node \<times> Victims. node_Name (fst e)" and ?f = "\<lambda>e :: Node \<times> Victims. \<lparr>mv_Pods = map pod_UID (vi_Pods (snd e)), mv_NumPDBViolations = 0\<rparr>"
  have "map_of (map (\<lambda>e. (?k e, ?f e)) ntv) (?k (node, v)) = Some (?f (node, v))"
    using assms map_of_map_key[of ?k ntv "(node, v)" ?f] by (simp add: comp_def)
  moreover have "convertToNodeNameToMetaVictims ntv = foldl (\<lambda>m e. fmupd (?k e) (?f e) m) fmempty ntv"
    by (simp add: convertToNodeNameToMetaVictims_def case_prod_beta')
  ultimately show ?thesis using fmlookup_foldl_upd[of ?k ntv ?f fmempty] assms(1) by (simp add: comp_def)
qed

lemma convert_pods_found:
  assumes "fmlookup infos name = Some info" "inj_on pod_UID (set (ni_pods info))" "set pods \<subseteq> set (ni_pods info)"
  shows "convert_pods h name infos (map pod_UID pods) = Some (Inr pods)"
  using assms(3)
proof (induction pods)
  case (Cons p pods)
  obtain q where q: "List.find (\<lambda>pod. pod_UID pod = pod_UID p) (ni_pods info) = Some q"
    using find_hit[of p "ni_pods info" "\<lambda>pod. pod_UID pod = pod_UID p"] Cons.prems by auto
  then have "q \<in> set (ni_pods info)" "pod_UID q = pod_UID p" by (auto simp: find_Some_iff)
  then have "q = p" using assms(2) Cons.prems by (auto dest: inj_onD)
  then show ?case using Cons q assms(1) by (simp add: convertPodUIDToPod_def)
qed simp

lemma convert_nodes_found:
  assumes "\<And>name. name \<in> set ord \<Longrightarrow> \<exists>mv info. fmlookup metas name = Some mv \<and> convert_pods h name infos (mv_Pods mv) = Some (Inr (pods name)) \<and>
      fmlookup infos name = Some info \<and> ni_node info = Some (node name)"
  shows "convert_nodes h metas infos ord acc = Some (Inr (acc @ map (\<lambda>name. (Some (node name), \<lparr>vi_Pods = pods name, NumPDBViolations = 0\<rparr>)) ord))"
  using assms
proof (induction ord arbitrary: acc)
  case (Cons name ord)
  obtain mv info where "fmlookup metas name = Some mv" "convert_pods h name infos (mv_Pods mv) = Some (Inr (pods name))"
      "fmlookup infos name = Some info" "ni_node info = Some (node name)" using Cons.prems[of name] by auto
  then show ?case using Cons.IH Cons.prems by (simp add: put_victims_def NodeInfo_Node_def)
qed simp

text \<open>The candidates of a preemption agree with the map of node infos: each node is the one in the map, and its victims run on it.\<close>

definition candidates_in :: "node_info_map \<Rightarrow> victims_map \<Rightarrow> bool" where
  "candidates_in infos ntv \<longleftrightarrow> distinct (map (node_Name \<circ> fst) ntv) \<and> list_all (\<lambda>(node, v). case fmlookup infos (node_Name node) of
     Some info \<Rightarrow> ni_node info = Some node \<and> set (vi_Pods v) \<subseteq> set (ni_pods info) \<and> distinct (map pod_UID (ni_pods info))
   | None \<Rightarrow> False) ntv"

lemma echo_victims:
  assumes c: "candidates_in infos ntv" and ord: "mset ord = mset (map (node_Name \<circ> fst) ntv)"
  shows "\<exists>r. convertToNodeToVictims h ord (convertToNodeNameToMetaVictims ntv) infos = Some (Inr r) \<and>
    mset r = mset (map (\<lambda>(node, v). (Some node, v\<lparr>NumPDBViolations := 0\<rparr>)) ntv)"
proof -
  have dist: "distinct (map (node_Name \<circ> fst) ntv)" using c by (simp add: candidates_in_def)
  define e where "e name = the (map_of (map (\<lambda>x. (node_Name (fst x), x)) ntv) name)" for name
  have e: "e (node_Name (fst x)) = x" if "x \<in> set ntv" for x
    unfolding e_def map_of_map_key[of "\<lambda>x. node_Name (fst x)", OF dist[unfolded comp_def] that] by simp
  have each: "\<exists>mv info. fmlookup (convertToNodeNameToMetaVictims ntv) name = Some mv \<and>
      convert_pods h name infos (mv_Pods mv) = Some (Inr (vi_Pods (snd (e name)))) \<and> fmlookup infos name = Some info \<and> ni_node info = Some (fst (e name))"
    if n: "name \<in> set ord" for name
  proof -
    have "name \<in> set (map (node_Name \<circ> fst) ntv)" using n mset_eq_setD[OF ord] by simp
    then obtain node v where x: "(node, v) \<in> set ntv" "name = node_Name node" by auto
    then obtain info where "fmlookup infos name = Some info" "ni_node info = Some node" "set (vi_Pods v) \<subseteq> set (ni_pods info)" "distinct (map pod_UID (ni_pods info))"
      using c by (fastforce simp: candidates_in_def list_all_iff split: option.splits)
    then show ?thesis using metaVictims_lookup[OF dist x(1)] x e[OF x(1)] convert_pods_found[of infos name info "vi_Pods v" h] by (simp add: distinct_map)
  qed
  let ?g = "\<lambda>name. (Some (fst (e name)), \<lparr>vi_Pods = vi_Pods (snd (e name)), NumPDBViolations = 0\<rparr>)"
  have "mset (map ?g ord) = mset (map ?g (map (node_Name \<circ> fst) ntv))" using ord by (simp only: mset_map)
  also have "map ?g (map (node_Name \<circ> fst) ntv) = map (\<lambda>(node, v). (Some node, v\<lparr>NumPDBViolations := 0\<rparr>)) ntv"
    using e by (auto simp: case_prod_beta')
  finally show ?thesis
    using convert_nodes_found[of ord "convertToNodeNameToMetaVictims ntv" h infos "\<lambda>name. vi_Pods (snd (e name))" "\<lambda>name. fst (e name)" "[]"] each
    by (simp add: convertToNodeToVictims_def)
qed

text \<open>
  C20. Preemption through an extender. If an extender with a node cache agrees to all candidates that it is sent, and they agree with the node infos, then \<open>ProcessPreemption\<close> gives back, whatever the
  order in which the answer is visited, the same nodes with the same victims in the same order, but with the number of violated disruption budgets set to 0: it is not part of the messages. The first criterion of
  \<open>pickOneNodeForPreemption\<close> is lost for every candidate.
\<close>

theorem extender_roundtrip:
  assumes "http_SupportsPreemption h" "nodeCacheCapable h" "candidates_in infos ntv" "mset ord = mset (map (node_Name \<circ> fst) ntv)"
    and "post_preempt srv (send_url h (preemptVerb h)) \<lparr>epa_Pod = pod, NodeNameToVictims = fmempty, NodeNameToMetaVictims = convertToNodeNameToMetaVictims ntv\<rparr> =
      Inr (convertToNodeNameToMetaVictims ntv)"
  shows "\<exists>r. http_ProcessPreemption srv h ord pod ntv infos = Some (Inr r) \<and> mset r = mset (map (\<lambda>(node, v). (Some node, v\<lparr>NumPDBViolations := 0\<rparr>)) ntv)"
  using echo_victims[OF assms(3,4), of h] assms(1,2,5) by (simp add: http_ProcessPreemption_def)

text \<open>Two candidates: one with a victim whose budget is violated, one with two victims and no violation. The second is picked, and after an extender that agrees to both the first.\<close>

definition echo_server :: extender_server where
  "echo_server = \<lparr>post_preempt = (\<lambda>url args. Inr (NodeNameToMetaVictims args)),
     post_filter = (\<lambda>url args. Inr \<lparr>efr_Nodes = ea_Nodes args, efr_NodeNames = ea_NodeNames args, FailedNodes = [], efr_Error = []\<rparr>),
     post_prioritize = (\<lambda>url args. Inr []), post_bind = (\<lambda>url args. Inr [])\<rparr>"

definition caching_extender :: HTTPExtender where
  "caching_extender = \<lparr>extenderURL = ''http://e/'', preemptVerb = ''preempt'', filterVerb = [], prioritizeVerb = [], bindVerb = [], he_weight = 1, nodeCacheCapable = True,
     managedResources = {||}, ignorable = False\<rparr>"

definition uid_pod :: "string \<Rightarrow> Pod" where
  "uid_pod uid = zero_Pod\<lparr>pod_UID := uid\<rparr>"

definition two_candidates :: victims_map where
  "two_candidates = [(zero_Node\<lparr>node_Name := ''a''\<rparr>, \<lparr>vi_Pods = [uid_pod ''1''], NumPDBViolations = 1\<rparr>),
     (zero_Node\<lparr>node_Name := ''b''\<rparr>, \<lparr>vi_Pods = [uid_pod ''2'', uid_pod ''3''], NumPDBViolations = 0\<rparr>)]"

definition candidate_info :: "string \<Rightarrow> Pod list \<Rightarrow> NodeInfo" where
  "candidate_info name pods = (fst (NewNodeInfo example_k8s pods \<lparr>generation = 0, transients = []\<rparr>))\<lparr>ni_node := Some (zero_Node\<lparr>node_Name := name\<rparr>)\<rparr>"

definition candidate_infos :: node_info_map where
  "candidate_infos = fmap_of_list [(''a'', candidate_info ''a'' [uid_pod ''1'']), (''b'', candidate_info ''b'' [uid_pod ''2'', uid_pod ''3''])]"

lemma candidate_info_facts: "ni_pods (candidate_info name pods) = pods" "ni_node (candidate_info name pods) = Some (zero_Node\<lparr>node_Name := name\<rparr>)"
proof -
  obtain n g where n: "NewNodeInfo example_k8s pods \<lparr>generation = 0, transients = []\<rparr> = (n, g)" by fastforce
  then show "ni_pods (candidate_info name pods) = pods" "ni_node (candidate_info name pods) = Some (zero_Node\<lparr>node_Name := name\<rparr>)"
    using NewNodeInfo_facts(1)[OF n] by (simp_all add: candidate_info_def)
qed

lemma two_candidates_in: "candidates_in candidate_infos two_candidates"
  by (simp add: candidates_in_def two_candidates_def candidate_infos_def candidate_info_facts uid_pod_def)

theorem extender_roundtrip_witness:
  "\<exists>r. http_ProcessPreemption echo_server caching_extender [''b'', ''a''] zero_Pod two_candidates candidate_infos = Some (Inr r) \<and>
     mset r = {#(Some (zero_Node\<lparr>node_Name := ''a''\<rparr>), \<lparr>vi_Pods = [uid_pod ''1''], NumPDBViolations = 0\<rparr>),
       (Some (zero_Node\<lparr>node_Name := ''b''\<rparr>), \<lparr>vi_Pods = [uid_pod ''2'', uid_pod ''3''], NumPDBViolations = 0\<rparr>)#}"
  using extender_roundtrip[of caching_extender candidate_infos two_candidates "[''b'', ''a'']" echo_server zero_Pod] two_candidates_in
  by (simp add: caching_extender_def http_SupportsPreemption_def two_candidates_def echo_server_def)

lemma uid_pod_priority:
  "victim_priority \<lparr>queues = fmempty\<rparr> ''p'' (uid_pod uid) = 0x80000000"
  by (simp add: victim_priority_def GetPoolQueueNameIfNotPresent_def matchPoolQueueNameForPod_def DefaultPoolName_def)

lemma violations_forgotten:
  "pickOneNodeForPreemption two_candidates ''p'' \<lparr>queues = fmempty\<rparr> = Some (two_candidates ! 1)"
  "pickOneNodeForPreemption (map (\<lambda>(node, v). (node, v\<lparr>NumPDBViolations := 0\<rparr>)) two_candidates) ''p'' \<lparr>queues = fmempty\<rparr> =
    Some (map (\<lambda>(node, v). (node, v\<lparr>NumPDBViolations := 0\<rparr>)) two_candidates ! 0)"
proof -
  have "sint (0x80000000 :: int32) = - (2 ^ 31)" by code_simp
  then have "shifted_sum \<lparr>queues = fmempty\<rparr> ''p'' [uid_pod a] = 0" "shifted_sum \<lparr>queues = fmempty\<rparr> ''p'' [uid_pod a, uid_pod b] = 0" for a b
    by (simp_all add: shifted_sum_def uid_pod_priority)
  then show "pickOneNodeForPreemption two_candidates ''p'' \<lparr>queues = fmempty\<rparr> = Some (two_candidates ! 1)"
    "pickOneNodeForPreemption (map (\<lambda>(node, v). (node, v\<lparr>NumPDBViolations := 0\<rparr>)) two_candidates) ''p'' \<lparr>queues = fmempty\<rparr> =
      Some (map (\<lambda>(node, v). (node, v\<lparr>NumPDBViolations := 0\<rparr>)) two_candidates ! 0)"
    by (subst pick_narrow; simp add: two_candidates_def preempt_keys_def min_by_def uid_pod_priority)+
qed

text \<open>Whatever an extender answers, the victims that are accepted run on the node that they are listed for.\<close>

lemma convert_pods_on_node:
  "convert_pods h name infos uids = Some (Inr pods) \<Longrightarrow> uids \<noteq> [] \<Longrightarrow> \<exists>info. fmlookup infos name = Some info \<and> set pods \<subseteq> set (ni_pods info) \<and> map pod_UID pods = uids"
proof (induction uids arbitrary: pods)
  case (Cons uid uids)
  then obtain info p ps where i: "fmlookup infos name = Some info" "List.find (\<lambda>pod. pod_UID pod = uid) (ni_pods info) = Some p"
      "convert_pods h name infos uids = Some (Inr ps)" "pods = p # ps"
    by (auto simp: convertPodUIDToPod_def split: option.splits sum.splits)
  then have "p \<in> set (ni_pods info)" "pod_UID p = uid" by (auto simp: find_Some_iff)
  then show ?case using Cons.IH[OF i(3)] i by (cases "uids = []") auto
qed simp

lemma convert_nodes_on_node:
  assumes "convert_nodes h metas infos ord acc = Some (Inr r)" "(n, v) \<in> set r" "(n, v) \<notin> set acc" "vi_Pods v \<noteq> []"
  shows "\<exists>name info mv. fmlookup infos name = Some info \<and> n = ni_node info \<and> set (vi_Pods v) \<subseteq> set (ni_pods info) \<and>
    fmlookup metas name = Some mv \<and> map pod_UID (vi_Pods v) = mv_Pods mv"
  using assms
proof (induction ord arbitrary: acc)
  case (Cons name ord)
  show ?case
  proof (cases "fmlookup metas name")
    case (Some mv)
    then obtain pods where p: "convert_pods h name infos (mv_Pods mv) = Some (Inr pods)"
        "convert_nodes h metas infos ord (put_victims (NodeInfo_Node (fmlookup infos name)) \<lparr>vi_Pods = pods, NumPDBViolations = 0\<rparr> acc) = Some (Inr r)"
      using Cons.prems(1) by (auto split: option.splits sum.splits)
    show ?thesis
    proof (cases "(n, v) = (NodeInfo_Node (fmlookup infos name), \<lparr>vi_Pods = pods, NumPDBViolations = 0\<rparr>)")
      case True
      then have "mv_Pods mv \<noteq> []" using Cons.prems(4) p(1) by auto
      then obtain info where "fmlookup infos name = Some info" "set pods \<subseteq> set (ni_pods info)" "map pod_UID pods = mv_Pods mv"
        using convert_pods_on_node[OF p(1)] by blast
      then show ?thesis using True Some by (intro exI[of _ name] exI[of _ info] exI[of _ mv]) (simp add: NodeInfo_Node_def)
    next
      case False
      then have "(n, v) \<notin> set (put_victims (NodeInfo_Node (fmlookup infos name)) \<lparr>vi_Pods = pods, NumPDBViolations = 0\<rparr> acc)"
        using Cons.prems(3) by (auto simp: put_victims_def)
      then show ?thesis using Cons.IH[OF p(2)] Cons.prems(2,4) by blast
    qed
  qed (use Cons in auto)
qed simp

theorem extender_victims_on_node:
  assumes "http_ProcessPreemption srv h ord pod ntv infos = Some (Inr r)" "(n, v) \<in> set r" "vi_Pods v \<noteq> []"
  shows "\<exists>name info. fmlookup infos name = Some info \<and> n = ni_node info \<and> set (vi_Pods v) \<subseteq> set (ni_pods info)"
proof -
  obtain metas where "convert_nodes h metas infos ord [] = Some (Inr r)"
    using assms(1) by (auto simp: http_ProcessPreemption_def convertToNodeToVictims_def Let_def split: if_splits sum.splits)
  from convert_nodes_on_node[OF this assms(2) _ assms(3)] show ?thesis by auto
qed

subsection \<open>Policies\<close>

definition extender_ok :: "ExtenderConfig \<Rightarrow> bool" where
  "extender_ok ext \<longleftrightarrow> PrioritizeVerb ext = [] \<or> 0 < sint (ec_Weight ext)"

lemma resource_errors_iff:
  "resource_errors L q resources (errs, seen) = (errs', seen') \<Longrightarrow>
     seen' = seen |\<union>| fset_of_list (map emr_Name resources) \<and>
     (errs' = [] \<longleftrightarrow> errs = [] \<and> (\<forall>r \<in> set resources. validateExtendedResourceName L q (emr_Name r) = []) \<and>
        distinct (map emr_Name resources) \<and> set (map emr_Name resources) \<inter> fset seen = {})"
proof (induction resources arbitrary: errs seen)
  case (Cons r rs)
  then show ?case using Cons.IH[OF Cons.prems[simplified Let_def resource_errors.simps]] by (auto split: if_splits)
qed auto

definition managed_names :: "ExtenderConfig list \<Rightarrow> string list" where
  "managed_names exts = concat (map (\<lambda>ext. map emr_Name (ManagedResources ext)) exts)"

lemma extender_errors_iff:
  "extender_errors L q exts binders (errs, seen) = (binders', errs') \<Longrightarrow>
     binders' = binders + length (filter (\<lambda>ext. BindVerb ext \<noteq> []) exts) \<and>
     (errs' = [] \<longleftrightarrow> errs = [] \<and> (\<forall>ext \<in> set exts. extender_ok ext) \<and> (\<forall>name \<in> set (managed_names exts). validateExtendedResourceName L q name = []) \<and>
        distinct (managed_names exts) \<and> set (managed_names exts) \<inter> fset seen = {})"
proof (induction exts arbitrary: binders errs seen)
  case (Cons ext exts)
  let ?e = "if length (PrioritizeVerb ext) > 0 \<and> ec_Weight ext \<le>s 0 then [''Priority for extender '' @ URLPrefix ext @ '' should have a positive weight applied to it''] else []"
  obtain errs1 seen1 where r: "resource_errors L q (ManagedResources ext) (errs @ ?e, seen) = (errs1, seen1)" by fastforce
  have e: "?e = [] \<longleftrightarrow> extender_ok ext" by (auto simp: extender_ok_def word_sle_eq)
  have step: "extender_errors L q exts (if BindVerb ext \<noteq> [] then binders + 1 else binders) (errs1, seen1) = (binders', errs')"
    using Cons.prems unfolding extender_errors.simps r .
  note ih = Cons.IH[OF step] and rr = resource_errors_iff[OF r]
  let ?N = "map emr_Name (ManagedResources ext)" and ?M = "managed_names exts"
  have k: "errs' = [] \<longleftrightarrow> errs1 = [] \<and> (\<forall>ext \<in> set exts. extender_ok ext) \<and> (\<forall>name \<in> set ?M. validateExtendedResourceName L q name = []) \<and>
      distinct ?M \<and> set ?M \<inter> (fset seen \<union> set ?N) = {}" using ih rr by (simp add: fset_of_list.rep_eq)
  have k1: "errs1 = [] \<longleftrightarrow> errs = [] \<and> extender_ok ext \<and> (\<forall>name \<in> set ?N. validateExtendedResourceName L q name = []) \<and> distinct ?N \<and> set ?N \<inter> fset seen = {}"
    unfolding rr[THEN conjunct2] append_is_Nil_conv e by simp
  have names: "managed_names (ext # exts) = ?N @ ?M" by (simp add: managed_names_def)
  have "errs' = [] \<longleftrightarrow> errs = [] \<and> (extender_ok ext \<and> (\<forall>ext \<in> set exts. extender_ok ext)) \<and> (\<forall>name \<in> set (?N @ ?M). validateExtendedResourceName L q name = []) \<and>
      distinct (?N @ ?M) \<and> set (?N @ ?M) \<inter> fset seen = {}"
    unfolding k k1 set_append distinct_append ball_Un Int_Un_distrib Int_Un_distrib2 Un_empty Int_commute[of "set ?M" "set ?N"] by argo
  then show ?case using ih by (simp add: names)
qed (auto simp: managed_names_def)

lemma unique_filter: "length (filter P xs) \<le> 1 \<Longrightarrow> x \<in> set xs \<Longrightarrow> P x \<Longrightarrow> List.find P xs = Some x"
proof (induction xs)
  case (Cons y ys)
  show ?case
  proof (cases "P y")
    case True
    then have "filter P ys = []" using Cons.prems(1) by simp
    then show ?thesis using True Cons.prems(2,3) by (auto simp: filter_empty_conv)
  qed (use Cons in auto)
qed simp

lemma find_Some_mem: "List.find P xs = Some x \<Longrightarrow> x \<in> set xs \<and> P x"
  by (auto simp: find_Some_iff)

text \<open>
  C28. A valid policy. \<open>ValidatePolicy\<close> reports no error exactly if the weight of each priority is positive and below the maximum, each extender that scores has a positive weight,
  every managed resource has a valid name and is managed by one extender only, and at most one extender binds. The extenders
  that are built from a valid policy then leave no choice of a binder: a pod is bound by an extender exactly if the extender binds and is interested in the pod.
\<close>

theorem ValidatePolicy_iff:
  "(ValidatePolicy L q policy = [] \<longleftrightarrow>
     (\<forall>p \<in> set (pol_Priorities policy). 0 < sint (pp_Weight p) \<and> sint (pp_Weight p) < sint MaxWeight) \<and>
     (\<forall>ext \<in> set (ExtenderConfigs policy). extender_ok ext) \<and>
     (\<forall>name \<in> set (managed_names (ExtenderConfigs policy)). validateExtendedResourceName L q name = []) \<and>
     distinct (managed_names (ExtenderConfigs policy)) \<and>
     length (filter (\<lambda>ext. BindVerb ext \<noteq> []) (ExtenderConfigs policy)) \<le> 1) \<and>
   (ValidatePolicy L q policy = [] \<longrightarrow> (\<forall>exts pod h. map (NewHTTPExtender None) (ExtenderConfigs policy) = map Inr exts \<longrightarrow>
     (getBinderFunc exts pod = Some h \<longleftrightarrow> h \<in> set exts \<and> IsBinder h \<and> http_IsInterested h pod)))"
proof -
  let ?prio = "List.map_filter (\<lambda>p. if policy_weight_ok (pp_Weight p) then None
      else Some (''Priority '' @ pp_Name p @ '' should have a positive weight applied to it or it has overflown'')) (pol_Priorities policy)"
  obtain binders errs where e: "extender_errors L q (ExtenderConfigs policy) 0 (?prio, {||}) = (binders, errs)" by fastforce
  have prio: "?prio = [] \<longleftrightarrow> (\<forall>p \<in> set (pol_Priorities policy). 0 < sint (pp_Weight p) \<and> sint (pp_Weight p) < sint MaxWeight)"
    by (auto simp: List.map_filter_def filter_empty_conv policy_weight_ok_def word_sle_eq not_le)
  have v: "ValidatePolicy L q policy = [] \<longleftrightarrow> errs = [] \<and> binders \<le> 1" using e by (auto simp: ValidatePolicy_def Let_def)
  note x = extender_errors_iff[OF e]
  have main: "ValidatePolicy L q policy = [] \<longleftrightarrow>
     (\<forall>p \<in> set (pol_Priorities policy). 0 < sint (pp_Weight p) \<and> sint (pp_Weight p) < sint MaxWeight) \<and>
     (\<forall>ext \<in> set (ExtenderConfigs policy). extender_ok ext) \<and>
     (\<forall>name \<in> set (managed_names (ExtenderConfigs policy)). validateExtendedResourceName L q name = []) \<and>
     distinct (managed_names (ExtenderConfigs policy)) \<and>
     length (filter (\<lambda>ext. BindVerb ext \<noteq> []) (ExtenderConfigs policy)) \<le> 1"
    unfolding v prio[symmetric] using x by auto
  have "getBinderFunc exts pod = Some h \<longleftrightarrow> h \<in> set exts \<and> IsBinder h \<and> http_IsInterested h pod"
    if ok: "ValidatePolicy L q policy = []" and exts: "map (NewHTTPExtender None) (ExtenderConfigs policy) = map Inr exts" for exts pod h
  proof -
    have "exts = map (\<lambda>c. projr (NewHTTPExtender None c)) (ExtenderConfigs policy)"
      using arg_cong[OF exts, of "map projr"] by (simp add: comp_def)
    then have "length (filter IsBinder exts) = length (filter (\<lambda>ext. BindVerb ext \<noteq> []) (ExtenderConfigs policy))"
      by (simp add: filter_map comp_def IsBinder_def NewHTTPExtender_def)
    then have one: "length (filter IsBinder exts) \<le> 1" using ok main by simp
    show ?thesis
    proof
      assume "getBinderFunc exts pod = Some h"
      then show "h \<in> set exts \<and> IsBinder h \<and> http_IsInterested h pod"
        by (auto simp: getBinderFunc_def dest!: find_Some_mem split: option.splits if_splits)
    next
      assume h: "h \<in> set exts \<and> IsBinder h \<and> http_IsInterested h pod"
      then have "List.find IsBinder exts = Some h" using unique_filter[OF one] by blast
      then show "getBinderFunc exts pod = Some h" using h by (simp add: getBinderFunc_def)
    qed
  qed
  then show ?thesis using main by blast
qed

definition example_policy :: Policy where
  "example_policy = \<lparr>pol_Priorities = [\<lparr>pp_Name = ''LeastRequested'', pp_Weight = 1\<rparr>],
     ExtenderConfigs = [\<lparr>URLPrefix = ''http://gpu'', FilterVerb = ''filter'', PreemptVerb = [], PrioritizeVerb = ''score'', ec_Weight = 5, BindVerb = ''bind'',
       NodeCacheCapable = False, ManagedResources = [\<lparr>emr_Name = ''nvidia.com/gpu'', IgnoredByScheduler = False\<rparr>], ec_Ignorable = False\<rparr>]\<rparr>"

theorem ValidatePolicy_iff_witness:
  "ValidatePolicy example_k8s (\<lambda>_. []) example_policy = [] \<and>
   (\<exists>h. map (NewHTTPExtender None) (ExtenderConfigs example_policy) = [Inr h] \<and> getBinderFunc [h] zero_Pod = None)"
proof -
  note w = max_weights_sint(2)
  have names: "managed_names (ExtenderConfigs example_policy) = [''nvidia.com/gpu'']" by (simp add: managed_names_def example_policy_def)
  have "validateExtendedResourceName example_k8s (\<lambda>_. []) ''nvidia.com/gpu'' = []" by (simp add: validateExtendedResourceName_def example_k8s_def)
  with w names have v: "ValidatePolicy example_k8s (\<lambda>_. []) example_policy = []"
    unfolding ValidatePolicy_iff[THEN conjunct1] by (simp add: example_policy_def extender_ok_def)
  obtain h where h: "map (NewHTTPExtender None) (ExtenderConfigs example_policy) = [Inr h]" "managedResources h = {|''nvidia.com/gpu''|}"
    by (simp add: example_policy_def NewHTTPExtender_def)
  have b: "getBinderFunc [h] zero_Pod = Some h' \<longleftrightarrow> h' \<in> set [h] \<and> IsBinder h' \<and> http_IsInterested h' zero_Pod" for h'
    by (rule ValidatePolicy_iff[THEN conjunct2, THEN mp, OF v, THEN spec, THEN spec, THEN spec, THEN mp]) (simp add: h(1))
  have "\<not> http_IsInterested h zero_Pod" using h(2) by (simp add: http_IsInterested_def hasManagedResources_def zero_Pod_def)
  then have "getBinderFunc [h] zero_Pod = None" using b by (cases "getBinderFunc [h] zero_Pod") auto
  then show ?thesis using h(1) v by (intro conjI exI[of _ h])
qed

end
