(* ===== verification/Spec2Isabelle.thy ===== *)
theory Spec2Isabelle
  imports Schedule_Properties Preempt_Properties Scheduler_Properties Metadata_Properties
    Priority_Properties Volume_Properties Extender_Properties
begin

text \<open>
  A verification library for ai-scheduler, a Kubernetes scheduler with resource pools written in Go
  (\<open>src/pkg/scheduler\<close>).

  \<^bold>\<open>The program.\<close> Nodes are grouped into \<^emph>\<open>pools\<close> by label selectors. Event handlers feed pods, nodes and
  pools into two data structures: the \<^emph>\<open>pool queue\<close>, which holds the pods that wait for a node in one
  priority queue per pool, and the \<^emph>\<open>scheduler cache\<close>, which holds what runs where, pool by pool. The
  scheduling loop takes a pod from a queue, asks the \<^emph>\<open>algorithm\<close> for a node of the pool, assumes the pod on
  that node in the cache and binds it. A pod that fits nowhere may preempt pods of lower priority
  or borrow another pool.

  \<^bold>\<open>The theories\<close>, in the order of the calls, and what they model:
  \<^item> \<open>Sched_Prelude\<close>: machine integers, loops that may panic, list and map lemmas.
  \<^item> \<open>Api_Types\<close>: pods, nodes, pools (\<open>pkg/apis/resource/v1alpha1\<close>) and the Kubernetes functions that the code
    calls, collected in a record \<open>k8s\<close> that is an argument of the model.
  \<^item> \<open>Resource_Model\<close>, \<open>Host_Ports\<close>, \<open>Node_Info\<close>, \<open>Node_Tree\<close>, \<open>Pool_Info\<close>: the package \<open>info\<close>. A node info is the sum
    of its pods; the node tree is iterated round robin over the zones; a pool keeps its node items in a
    linked list ordered by generation, on an explicit store, from which incremental snapshots are taken.
  \<^item> \<open>Key_Heap\<close>, \<open>Sched_Util\<close>, \<open>Pod_Backoff\<close>: the package \<open>util\<close>. The heap with its key index is an
    implementation of the locales \<open>keyed_heap\<close> and \<open>keyed_pq\<close>, through which the queues use it.
  \<^item> \<open>Scheduling_Queue\<close>, \<open>Queue_Places\<close>, \<open>Pool_Queue\<close>: \<open>internal/queue\<close>. The locale \<open>queue_on\<close> gives the contract of a
    priority queue on a heap; it is interpreted for a plain queue and for the queues of a pool queue.
  \<^item> \<open>Predicates\<close>, \<open>Predicate_Properties\<close>: the predicates on one node of \<open>algorithm/predicates\<close>.
  \<^item> \<open>Topology_Pairs\<close>, \<open>Predicate_Metadata\<close>, \<open>Pod_Affinity\<close>: \<open>algorithm/predicates/metadata.go\<close> and the predicates on
    inter-pod and service affinity. \<open>Metadata_Properties\<close> has the locale \<open>incremental_metadata\<close>, the contract on which
    preemption relies when it changes the metadata for a trial, and its interpretation for the changes that \<open>followed\<close> describes.
  \<^item> \<open>Volume_Predicates\<close>, \<open>Volume_Properties\<close>: the limits on attached volumes and the zones of volumes, of the same package.
  \<^item> \<open>Scheduler_Cache\<close>: \<open>internal/cache/cache.go\<close>. \<open>Cache_State\<close> has its invariant and the effect of the operations on pods
    and nodes, \<open>Cache_Pools\<close> the moves of nodes between pools, \<open>Cache_History\<close> and \<open>Cache_Properties\<close> what holds
    after every history of calls that keeps to the guards of \<open>cache_step\<close>.
  \<^item> \<open>Generic_Scheduler\<close>, \<open>Preemption\<close>: \<open>core/generic_scheduler.go\<close>. \<open>Search_Runs\<close> has the runs of the
    parallel search for nodes; \<open>Schedule_Properties\<close> and \<open>Preempt_Properties\<close> say what a placement and a preemption guarantee.
  \<^item> \<open>Http_Extender\<close>, \<open>Extender_Properties\<close>: \<open>core/extender.go\<close>, with the server as an argument, the choice of the binder, and the validation of a policy
    in \<open>api/validation/validation.go\<close>.
  \<^item> \<open>Priorities\<close>: the priority functions of \<open>algorithm/priorities\<close> that compute with integers, their metadata, and the validation of the weights.
    \<open>Priority_Properties\<close> has the locale \<open>bounded_priority\<close>, the range that a function promises for its scores, interpreted
    for seven of them, and the weighted sum that rests on it.
  \<^item> \<open>Scheduler_Loop\<close>, \<open>Event_Handlers\<close>: \<open>scheduler.go\<close>, the error function of \<open>factory/factory.go\<close>, and
    \<open>eventhandlers.go\<close>. The asynchronous work that a round starts (binding, retrying) is a list of
    pending tasks. A round is the decision of the algorithm and the rest, \<open>finish_round\<close>, and a pool may be deleted in between. The queue of a deleted pool is kept in \<open>sc_removed\<close>,
    since a goroutine that is to put a pod back may still hold it. \<open>Scheduler_Runs\<close> has the step relation \<open>sched_step\<close> of rounds, parts of rounds, tasks and events in any order, and
    its invariants; \<open>Scheduler_Properties\<close> what follows for every run.

  \<^bold>\<open>Conventions.\<close> One definition per Go function, with its name where Isabelle allows it. A state is a
  record that is passed and returned; a Go error is a value next to the new state; a panic is \<open>None\<close>.
  Orders in which maps are visited, and interleavings of parallel workers, are arguments, and the theorems hold for
  all of them. Loops are structural or have a termination proof; the only fuel is that of
  \<open>Next_loop\<close> in the node tree, where one more round than there are zones is shown to be enough, and that of
  the garbage collection of backoff entries, bounded by the size of the heap.

  \<^bold>\<open>What is shown.\<close>
  \<^item> Histories: the properties of the cache and of the loop are about histories in which events come in an order that the code relies on. Pods have a UID and
    a node name, which updates keep; a node is added only while no other pool has an item of its name, and updated with the object that the cache holds; pools are added once and
    are removed while each of their items has its node object; an assigned pod is reported as new only when it does not wait to be bound. The histories of a single pool, \<open>pool_step\<close>, have similar guards. The code does not check these,
    and lemmas show what goes wrong without them (\<open>pod_before_node\<close>, \<open>RemovePool_loses_pods\<close>, \<open>moved_node_missing\<close>).
  \<^item> Cache: after every such history each known pod is on exactly one node of one pool; the states of a pod follow the
    state machine of \<open>internal/cache/interface.go\<close>; assumed pods expire exactly at their deadline; nodes stand in
    the pool that their labels select; removing a pool keeps its nodes; image states are counted exactly.
  \<^item> Queues: a pod is in at most one sub-queue; no operation loses one; pods of the own pool come
    first; flushing moves only pods whose time has come, and all of them as long as the back-off heap is in order.
  \<^item> Node infos, pools, heap, node tree, resources, ports, backoff: sums, round trips, order, and bounds.
  \<^item> Algorithm: a chosen node belongs to the pool and passes all predicates, the workers' interleaving does not
    matter, and the victims of a preemption are of lower priority or borrow the pool, and make room for the pod, with metadata that is again that of the cluster without them.
  \<^item> Affinity: metadata that is updated for a trial equals the metadata computed afresh, except for nominated pods and for pods that match some of the anti-affinity terms only; the predicate accepts exactly the
    nodes that the terms of the pods allow.
  \<^item> Volumes: the different volumes of a node that takes a pod stay within the limit of the node, which comes from the node, the environment or the type.
  \<^item> Extenders: candidates that an extender agrees to come back with the same victims; a policy without errors has one binder at most and one extender per resource.
  \<^item> Priorities: scores of the priority functions are between 0 and 10, their weighted sum, before the scores of extenders are added, does not overflow with validated weights, normalisation
    keeps the order of the nodes, and a scoring shape takes the values of its points.
  \<^item> Loop: every pod that waits to be bound is assumed in the cache on the node of the binding, in one pool, and waits once; every
    round accounts for its pod, which is assumed and about to be bound, or put back by a task, or, when its pool is deleted during the round, dropped.
  \<^item> Behaviours that look unintended are proved as such: pods that are left behind when a pool is removed or
    when they arrive before their node, nodes that a failed round leaves in the cache although the API server
    has none, nominated pods that
    affinity overlooks, disruption budgets that an extender makes the scheduler forget, CSI volumes that are not counted, snapshots that miss a moved node, and orders that are not orders.

  \<^bold>\<open>Not modelled.\<close> Metrics, logging, the transport of the HTTP extender, API clients and generated code, configuration
  and plugin registration, the debugger, the command line: they hold no scheduling state or are code that
  the sources only call. The priority functions that compute with
  floating point numbers (balanced allocation, image locality, the reductions of spreading, inter-pod affinity) are not defined; the algorithm has predicates and
  priority functions as arguments, and its theorems hold for all of them. Locks make the operations of queue and cache atomic, except for \<open>BorrowPool\<close>, which releases its lock around the predicates and is modelled as one operation. Interference of rounds, asynchronous tasks and events is the order
  of the steps; within the decision of the algorithm and within the rest of a round no other step happens, and the parallel search for nodes is interleaved on its own.
\<close>

end
